(* ===== verification/Prelude.thy ===== *)
theory Prelude
  imports Main "HOL-Library.Char_ord" "HOL-Library.List_Lexorder" "HOL-Library.Product_Lexorder"
begin

text \<open>
  Shared base of the development: the exceptions the modelled code throws, the result type of
  fallible operations, arithmetic of \<open>size_t\<close> with its wrap-around written out, and the list
  facts about ordered containers (lower and upper bound of an ordered sequence) that several
  components use.
\<close>

section \<open>Results\<close>

text \<open>
  The error codes of the exceptions thrown by the modelled code (\<open>DB::ErrorCodes\<close>).
  \<open>UB\<close> marks a place where the C++ has undefined behaviour (an out-of-range read of a vector,
  taking the top of an empty stack): the model makes it a visible failure instead of a value.
\<close>

datatype error =
    LOGICAL_ERROR
  | BAD_DATA_PART_NAME
  | INVALID_PARTITION_VALUE
  | UNKNOWN_FORMAT_VERSION
  | ARGUMENT_OUT_OF_BOUND
  | NOT_IMPLEMENTED
  | BAD_ARGUMENTS
  | CANNOT_PARSE
  | STD_OUT_OF_RANGE
  | ABORTED
  | UB

type_synonym 'a result = "error + 'a"

definition bind_r :: "'x + 'a \<Rightarrow> ('a \<Rightarrow> 'x + 'b) \<Rightarrow> 'x + 'b" where
  "bind_r x f = (case x of Inl e \<Rightarrow> Inl e | Inr a \<Rightarrow> f a)"

lemma bind_r_simps [simp]:
  "bind_r (Inl e) f = Inl e"
  "bind_r (Inr a) f = f a"
  by (simp_all add: bind_r_def)

lemma bind_r_Inr_iff:
  "bind_r x f = Inr b \<longleftrightarrow> (\<exists>a. x = Inr a \<and> f a = Inr b)"
  by (cases x) auto

section \<open>Unsigned 64-bit arithmetic\<close>

text \<open>
  \<open>size_t\<close> and \<open>UInt64\<close> values are naturals below \<open>2 ^ 64\<close>; the
  operators wrap. The collection \<open>size_t_simps\<close> turns an operator into plain arithmetic where
  the exact result fits.
\<close>

type_synonym size_t = nat

definition size_max :: nat where
  "size_max = 2 ^ 64"

definition add64 :: "size_t \<Rightarrow> size_t \<Rightarrow> size_t" where
  "add64 a b = (a + b) mod size_max"

definition sub64 :: "size_t \<Rightarrow> size_t \<Rightarrow> size_t" where
  "sub64 a b = nat ((int a - int b) mod int size_max)"

definition mul64 :: "size_t \<Rightarrow> size_t \<Rightarrow> size_t" where
  "mul64 a b = (a * b) mod size_max"

named_theorems size_t_simps

lemma size_max_pos [simp]: "0 < size_max"
  by (simp add: size_max_def)

lemma add64_lt [simp]: "add64 a b < size_max"
  by (simp add: add64_def)

lemma sub64_lt [simp]: "sub64 a b < size_max"
  by (simp add: sub64_def nat_less_iff)

lemma add64_exact [size_t_simps]: "a + b < size_max \<Longrightarrow> add64 a b = a + b"
  by (simp add: add64_def)

lemma mul64_exact [size_t_simps]: "a * b < size_max \<Longrightarrow> mul64 a b = a * b"
  by (simp add: mul64_def)

lemma sub64_exact [size_t_simps]: "b \<le> a \<Longrightarrow> a < size_max \<Longrightarrow> sub64 a b = a - b"
  by (simp add: sub64_def nat_diff_distrib flip: of_nat_diff)

text \<open>Evaluation of closed terms.\<close>

lemmas size_t_eval = add64_def sub64_def mul64_def size_max_def

lemma sub64_wraps: "a < b \<Longrightarrow> b \<le> size_max \<Longrightarrow> sub64 a b = size_max + a - b"
proof -
  assume ab: "a < b" "b \<le> size_max"
  then have "(int a - int b) mod int size_max = (int a - int b + int size_max) mod int size_max"
    by simp
  also have "\<dots> = int a - int b + int size_max"
    using ab by (intro mod_pos_pos_trivial) auto
  finally show ?thesis
    using ab by (simp add: sub64_def)
qed

section \<open>Ordered sequences\<close>

text \<open>
  \<open>std::lower_bound\<close> and \<open>std::upper_bound\<close> on a sorted sequence: the index of the
  first element that is not less than, respectively greater than, the argument (the length when there is
  none).
\<close>

definition lower_bound :: "'a::linorder list \<Rightarrow> 'a \<Rightarrow> nat" where
  "lower_bound xs x = length (takeWhile (\<lambda>y. y < x) xs)"

definition upper_bound :: "'a::linorder list \<Rightarrow> 'a \<Rightarrow> nat" where
  "upper_bound xs x = length (takeWhile (\<lambda>y. y \<le> x) xs)"

lemma lower_bound_le_length [simp]: "lower_bound xs x \<le> length xs"
  by (simp add: lower_bound_def length_takeWhile_le)

lemma upper_bound_le_length [simp]: "upper_bound xs x \<le> length xs"
  by (simp add: upper_bound_def length_takeWhile_le)

lemma nth_less_lower_bound: "i < lower_bound xs x \<Longrightarrow> xs ! i < x"
  by (metis lower_bound_def nth_mem set_takeWhileD takeWhile_nth)

lemma nth_le_upper_bound: "i < upper_bound xs x \<Longrightarrow> xs ! i \<le> x"
  by (metis upper_bound_def nth_mem set_takeWhileD takeWhile_nth)

lemma lower_bound_nth_ge:
  assumes "sorted xs" "lower_bound xs x \<le> i" "i < length xs"
  shows "x \<le> xs ! i"
proof -
  have "\<not> xs ! lower_bound xs x < x"
    using assms by (metis lower_bound_def nth_length_takeWhile order.strict_trans1)
  moreover have "xs ! lower_bound xs x \<le> xs ! i"
    using assms by (simp add: sorted_nth_mono)
  ultimately show ?thesis by simp
qed

lemma upper_bound_nth_gt:
  assumes "sorted xs" "upper_bound xs x \<le> i" "i < length xs"
  shows "x < xs ! i"
proof -
  have "\<not> xs ! upper_bound xs x \<le> x"
    using assms by (metis upper_bound_def nth_length_takeWhile order.strict_trans1)
  moreover have "xs ! upper_bound xs x \<le> xs ! i"
    using assms by (simp add: sorted_nth_mono)
  ultimately show ?thesis by simp
qed

section \<open>Decimal text\<close>

text \<open>\<open>std::to_string\<close> of an unsigned and of a signed integer.\<close>

definition digit_char :: "nat \<Rightarrow> char" where
  "digit_char d = char_of (48 + d)"

definition is_digit :: "char \<Rightarrow> bool" where
  "is_digit c \<longleftrightarrow> (let n = (of_char c :: nat) in 48 \<le> n \<and> n \<le> 57)"

fun dec_of_nat :: "nat \<Rightarrow> string" where
  "dec_of_nat n = (if n < 10 then [digit_char n]
                   else dec_of_nat (n div 10) @ [digit_char (n mod 10)])"

declare dec_of_nat.simps [simp del]

definition dec_of_int :: "int \<Rightarrow> string" where
  "dec_of_int i = (if i < 0 then CHR ''-'' # dec_of_nat (nat (- i)) else dec_of_nat (nat i))"

lemma is_digit_digit_char [simp]: "d < 10 \<Longrightarrow> is_digit (digit_char d)"
  by (simp add: is_digit_def digit_char_def)

lemma dec_of_nat_digits: "c \<in> set (dec_of_nat n) \<Longrightarrow> is_digit c"
proof (induction n rule: dec_of_nat.induct)
  case (1 n)
  show ?case
  proof (cases "n < 10")
    case True
    with "1.prems" show ?thesis by (simp add: dec_of_nat.simps [of n])
  next
    case False
    with "1.prems" have "c \<in> set (dec_of_nat (n div 10)) \<or> c = digit_char (n mod 10)"
      by (auto simp: dec_of_nat.simps [of n])
    then show ?thesis using "1.IH" [OF False] by auto
  qed
qed

lemma dec_of_nat_not_Nil [simp]: "dec_of_nat n \<noteq> []"
  by (simp add: dec_of_nat.simps [of n])

end
