(* ===== verification/Mark_Range.thy ===== *)
theory Mark_Range
  imports Prelude
begin

text \<open>
  \<open>MarkRange.h\<close> and \<open>MarkRange.cpp\<close>: a half-open range of marks, the ordering of
  ranges that throws on an intersection, the checks and the measures of a sequence of ranges, and its binary
  form. The buffer primitives (\<open>writeBinaryLittleEndian\<close>,
  \<open>readBinaryLittleEndian\<close>) are not part of the repository; they are the two fields of
  \<open>u64_codec\<close>.
\<close>

section \<open>Ranges\<close>

record mark_range =
  range_begin :: size_t
  range_end :: size_t

definition MarkRange :: "size_t \<Rightarrow> size_t \<Rightarrow> mark_range" where
  "MarkRange b e = \<lparr>range_begin = b, range_end = e\<rparr>"

definition getNumberOfMarks :: "mark_range \<Rightarrow> size_t" where
  "getNumberOfMarks r = sub64 (range_end r) (range_begin r)"

definition range_eq :: "mark_range \<Rightarrow> mark_range \<Rightarrow> bool" where
  "range_eq a b \<longleftrightarrow> range_begin a = range_begin b \<and> range_end a = range_end b"

text \<open>\<open>operator<\<close>: ranges that overlap without being equal cannot be compared.\<close>

definition range_less :: "mark_range \<Rightarrow> mark_range \<Rightarrow> bool result" where
  "range_less a b =
     (let is_intersection = (range_begin a \<le> range_begin b \<and> range_begin b < range_end a)
                          \<or> (range_begin b \<le> range_begin a \<and> range_begin a < range_end b)
      in if \<not> range_eq a b \<and> is_intersection then Inl LOGICAL_ERROR
         else Inr (range_begin a < range_begin b \<and> range_end a \<le> range_begin b))"

text \<open>The assertion of the constructor.\<close>

definition wf_range :: "mark_range \<Rightarrow> bool" where
  "wf_range r \<longleftrightarrow> range_begin r \<le> range_end r \<and> range_end r < size_max"

lemma range_eq_iff [simp]: "range_eq a b \<longleftrightarrow> a = (b :: mark_range)"
  by (cases a; cases b) (simp add: range_eq_def)

lemma MarkRange_sel [simp]:
  "range_begin (MarkRange b e) = b" "range_end (MarkRange b e) = e"
  by (simp_all add: MarkRange_def)

lemma MarkRange_eq [simp]: "MarkRange (range_begin r) (range_end r) = r"
  by (simp add: MarkRange_def)

lemma MarkRange_inject [simp]: "MarkRange b e = MarkRange b' e' \<longleftrightarrow> b = b' \<and> e = e'"
  by (simp add: MarkRange_def)

text \<open>The marks a range stands for, and strict precedence of ranges.\<close>

definition marks_of :: "mark_range \<Rightarrow> nat set" where
  "marks_of r = {range_begin r ..< range_end r}"

definition before :: "mark_range \<Rightarrow> mark_range \<Rightarrow> bool" where
  "before a b \<longleftrightarrow> range_begin a < range_begin b \<and> range_end a \<le> range_begin b"

lemma getNumberOfMarks_card: "wf_range r \<Longrightarrow> getNumberOfMarks r = card (marks_of r)"
  by (simp add: getNumberOfMarks_def wf_range_def marks_of_def size_t_simps)

lemma range_less_Inr: "range_less a b = Inr v \<Longrightarrow> v \<longleftrightarrow> before a b"
  by (auto simp: range_less_def before_def Let_def split: if_splits)

lemma range_less_before: "before a b \<Longrightarrow> wf_range a \<Longrightarrow> range_less a b = Inr True"
  by (auto simp: range_less_def before_def wf_range_def Let_def)

lemma range_less_after: "before b a \<Longrightarrow> wf_range b \<Longrightarrow> range_less a b = Inr False"
  by (auto simp: range_less_def before_def wf_range_def Let_def)

lemma range_less_refl: "range_less a a = Inr False"
  by (auto simp: range_less_def Let_def)

text \<open>Where two ranges compare, exactly one of the three orders holds between them.\<close>

lemma range_less_trichotomy:
  assumes "wf_range a" "wf_range b" "range_less a b = Inr v"
  shows "before a b \<or> a = b \<or> before b a"
proof (cases "a = b")
  case False
  with assms show ?thesis
    by (cases a; cases b) (auto simp: range_less_def before_def wf_range_def Let_def split: if_splits)
qed simp

lemma before_trans: "before a b \<Longrightarrow> before b c \<Longrightarrow> wf_range b \<Longrightarrow> before a c"
  by (auto simp: before_def wf_range_def)

section \<open>Sequences of ranges\<close>

datatype search_algorithm = SearchUnknown | BinarySearch | GenericExclusionSearch

text \<open>\<open>MarkRanges\<close>: the sequence and the \<open>search_algorithm\<close> field beside it.\<close>

record mark_ranges =
  ranges :: "mark_range list"
  algorithm :: search_algorithm

fun ranges_getNumberOfMarks :: "mark_range list \<Rightarrow> size_t" where
  "ranges_getNumberOfMarks [] = 0"
| "ranges_getNumberOfMarks (r # rs) = add64 (getNumberOfMarks r) (ranges_getNumberOfMarks rs)"

definition isOneRangeForWholePart :: "mark_range list \<Rightarrow> size_t \<Rightarrow> bool" where
  "isOneRangeForWholePart rs num_marks_in_part =
     (case rs of [r] \<Rightarrow> range_begin r = 0 \<and> range_end r = num_marks_in_part | _ \<Rightarrow> False)"

definition getLastMark :: "mark_range list \<Rightarrow> size_t" where
  "getLastMark rs = fold (\<lambda>r acc. max acc (range_end r)) rs 0"

fun ranges_toString_from :: "string \<Rightarrow> mark_range list \<Rightarrow> string" where
  "ranges_toString_from result [] = result"
| "ranges_toString_from result (r # rs) =
     (let result = (if result \<noteq> [] then result @ '', '' else result)
      in ranges_toString_from
           (result @ ''('' @ dec_of_nat (range_begin r) @ '', '' @ dec_of_nat (range_end r) @ '')'') rs)"

definition ranges_toString :: "mark_range list \<Rightarrow> string" where
  "ranges_toString rs = ranges_toString_from [] rs"

text \<open>
  \<open>std::sort\<close> with the throwing comparator, as the insertion sort the standard libraries use on
  short sequences: an exception of a comparison ends the sort.
\<close>

fun insert_range :: "mark_range \<Rightarrow> mark_range list \<Rightarrow> mark_range list result" where
  "insert_range x [] = Inr [x]"
| "insert_range x (y # ys) =
     bind_r (range_less x y) (\<lambda>lt.
       if lt then Inr (x # y # ys)
       else bind_r (insert_range x ys) (\<lambda>zs. Inr (y # zs)))"

fun sort_ranges_onto :: "mark_range list \<Rightarrow> mark_range list \<Rightarrow> mark_range list result" where
  "sort_ranges_onto acc [] = Inr acc"
| "sort_ranges_onto acc (x # xs) = bind_r (insert_range x acc) (\<lambda>acc'. sort_ranges_onto acc' xs)"

definition assertSortedAndNonIntersecting :: "mark_range list \<Rightarrow> unit result" where
  "assertSortedAndNonIntersecting rs =
     bind_r (sort_ranges_onto [] rs) (\<lambda>ranges_copy.
       if ranges_copy \<noteq> rs then Inl LOGICAL_ERROR else Inr ())"

text \<open>The order the check accepts: each range equals or lies before every later one.\<close>

definition ordered_ranges :: "mark_range list \<Rightarrow> bool" where
  "ordered_ranges rs = sorted_wrt (\<lambda>a b. a = b \<or> before a b) rs"

text \<open>The strict form that the producers of ranges maintain.\<close>

definition disjoint_ranges :: "mark_range list \<Rightarrow> bool" where
  "disjoint_ranges rs = sorted_wrt before rs"

definition marks_in :: "mark_range list \<Rightarrow> nat set" where
  "marks_in rs = (\<Union>r \<in> set rs. marks_of r)"

lemma marks_in_simps [simp]:
  "marks_in [] = {}"
  "marks_in (r # rs) = marks_of r \<union> marks_in rs"
  "marks_in (rs @ qs) = marks_in rs \<union> marks_in qs"
  by (auto simp: marks_in_def)

section \<open>The sortedness check\<close>

lemma insert_range_snoc:
  assumes "\<forall>y \<in> set ys. y = x \<or> before y x" "\<forall>y \<in> set ys. wf_range y"
  shows "insert_range x ys = Inr (ys @ [x])"
  using assms
  by (induction ys) (auto simp: range_less_after range_less_refl)

lemma sort_ranges_onto_ordered:
  assumes "ordered_ranges (acc @ xs)" "\<forall>y \<in> set (acc @ xs). wf_range y"
  shows "sort_ranges_onto acc xs = Inr (acc @ xs)"
  using assms
proof (induction xs arbitrary: acc)
  case (Cons x xs)
  have "insert_range x acc = Inr (acc @ [x])"
    using Cons.prems by (intro insert_range_snoc) (auto simp: ordered_ranges_def sorted_wrt_append)
  then show ?case
    using Cons.IH [of "acc @ [x]"] Cons.prems by simp
qed simp

lemma insert_range_set: "insert_range x ys = Inr zs \<Longrightarrow> set zs = insert x (set ys)"
  by (induction ys arbitrary: zs) (auto simp: bind_r_Inr_iff split: if_splits)

lemma insert_range_ordered:
  assumes "insert_range x ys = Inr zs" "ordered_ranges ys" "wf_range x" "\<forall>y \<in> set ys. wf_range y"
  shows "ordered_ranges zs"
  using assms
proof (induction ys arbitrary: zs)
  case Nil
  then show ?case by (auto simp: ordered_ranges_def)
next
  case (Cons y ys)
  from Cons.prems(1) obtain lt where lt: "range_less x y = Inr lt"
    and zs: "lt \<Longrightarrow> zs = x # y # ys"
      "\<not> lt \<Longrightarrow> \<exists>ws. insert_range x ys = Inr ws \<and> zs = y # ws"
    by (auto simp: bind_r_Inr_iff split: if_splits)
  note tri = range_less_trichotomy [OF Cons.prems(3) _ lt] and v = range_less_Inr [OF lt]
  show ?case
  proof (cases lt)
    case True
    with v have "before x y" by simp
    with True zs Cons.prems show ?thesis
      by (auto simp: ordered_ranges_def dest: before_trans)
  next
    case False
    then obtain ws where ws: "insert_range x ys = Inr ws" "zs = y # ws"
      using zs by blast
    with Cons have "ordered_ranges ws" by (simp add: ordered_ranges_def)
    moreover have "y = x \<or> before y x"
      using tri v False Cons.prems by auto
    ultimately show ?thesis
      using ws insert_range_set [OF ws(1)] Cons.prems by (auto simp: ordered_ranges_def)
  qed
qed

lemma sort_ranges_onto_result:
  assumes "sort_ranges_onto acc xs = Inr zs" "ordered_ranges acc"
    "\<forall>y \<in> set (acc @ xs). wf_range y"
  shows "ordered_ranges zs"
  using assms
proof (induction xs arbitrary: acc)
  case (Cons x xs)
  then obtain acc' where acc': "insert_range x acc = Inr acc'" "sort_ranges_onto acc' xs = Inr zs"
    by (auto simp: bind_r_Inr_iff)
  with Cons show ?case
    using insert_range_ordered [OF acc'(1)] insert_range_set [OF acc'(1)] by auto
qed simp

lemma range_less_error: "range_less a b = Inl e \<Longrightarrow> e = LOGICAL_ERROR"
  by (auto simp: range_less_def Let_def split: if_splits)

lemma insert_range_error: "insert_range x ys = Inl e \<Longrightarrow> e = LOGICAL_ERROR"
  by (induction ys) (auto simp: bind_r_def split: if_splits sum.splits dest: range_less_error)

lemma sort_ranges_onto_error: "sort_ranges_onto acc xs = Inl e \<Longrightarrow> e = LOGICAL_ERROR"
  by (induction xs arbitrary: acc)
     (auto simp: bind_r_def split: sum.splits dest: insert_range_error)

lemma assertSorted_ordered:
  assumes "\<forall>r \<in> set rs. wf_range r" "ordered_ranges rs"
  shows "assertSortedAndNonIntersecting rs = Inr ()"
proof -
  have "sort_ranges_onto [] rs = Inr rs" using sort_ranges_onto_ordered [of "[]" rs] assms by simp
  then show ?thesis by (simp add: assertSortedAndNonIntersecting_def)
qed

text \<open>
  The check \<open>assertSortedAndNonIntersecting\<close> returns normally exactly on the sequences in
  which every range is equal to or lies wholly before each later one, and throws
  \<open>LOGICAL_ERROR\<close> on every other sequence of well-formed ranges.
\<close>

theorem assertSortedAndNonIntersecting_iff:
  assumes "\<forall>r \<in> set rs. wf_range r"
  shows "assertSortedAndNonIntersecting rs = (if ordered_ranges rs then Inr () else Inl LOGICAL_ERROR)"
proof (cases "sort_ranges_onto [] rs")
  case (Inl e)
  with sort_ranges_onto_ordered [of "[]" rs] assms have "\<not> ordered_ranges rs" by auto
  with Inl show ?thesis
    by (auto simp: assertSortedAndNonIntersecting_def dest: sort_ranges_onto_error)
next
  case (Inr zs)
  with assms have "ordered_ranges zs"
    by (intro sort_ranges_onto_result [of "[]" rs zs]) (auto simp: ordered_ranges_def)
  moreover have "zs = rs" if "ordered_ranges rs"
    using sort_ranges_onto_ordered [of "[]" rs] assms Inr that by simp
  ultimately show ?thesis
    using Inr by (auto simp: assertSortedAndNonIntersecting_def)
qed

theorem assertSortedAndNonIntersecting_iff_witness:
  "assertSortedAndNonIntersecting [MarkRange 0 2, MarkRange 2 5, MarkRange 7 9] = Inr ()"
  by (subst assertSortedAndNonIntersecting_iff)
     (auto simp: wf_range_def size_max_def ordered_ranges_def before_def)

section \<open>Counting marks\<close>

lemma finite_marks_in [simp]: "finite (marks_in rs)"
  by (simp add: marks_in_def marks_of_def)

lemma marks_in_after:
  "\<forall>b \<in> set rs. before a b \<Longrightarrow> marks_of a \<inter> marks_in rs = {}"
  by (force simp: marks_in_def marks_of_def before_def)

text \<open>
  for ranges in the strict order the producers keep, the total of \<open>getNumberOfMarks\<close> is the
  number of distinct marks the sequence covers, as long as that number fits in \<open>size_t\<close>.
\<close>

theorem ranges_getNumberOfMarks_card:
  assumes "disjoint_ranges rs" "\<forall>r \<in> set rs. wf_range r" "card (marks_in rs) < size_max"
  shows "ranges_getNumberOfMarks rs = card (marks_in rs)"
  using assms
proof (induction rs)
  case (Cons r rs)
  have disj: "marks_of r \<inter> marks_in rs = {}"
    using Cons.prems by (intro marks_in_after) (auto simp: disjoint_ranges_def)
  have card: "card (marks_in (r # rs)) = card (marks_of r) + card (marks_in rs)"
    using disj by (simp add: card_Un_disjoint marks_of_def)
  then have "ranges_getNumberOfMarks rs = card (marks_in rs)"
    using Cons by (simp add: disjoint_ranges_def)
  then show ?case
    using Cons.prems card by (simp add: getNumberOfMarks_card size_t_simps)
qed simp

theorem ranges_getNumberOfMarks_card_witness:
  "ranges_getNumberOfMarks [MarkRange 0 2, MarkRange 4 9] = card (marks_in [MarkRange 0 2, MarkRange 4 9])"
proof (rule ranges_getNumberOfMarks_card)
  have "card (marks_in [MarkRange 0 2, MarkRange 4 9]) \<le> card {0::nat..<9}"
    by (intro card_mono) (auto simp: marks_of_def)
  then show "card (marks_in [MarkRange 0 2, MarkRange 4 9]) < size_max"
    by (simp add: size_max_def)
qed (auto simp: disjoint_ranges_def before_def wf_range_def size_max_def)

lemma getLastMark_fold_ge: "fold (\<lambda>r acc. max acc (range_end r)) rs a \<ge> a"
  by (induction rs arbitrary: a) (auto intro: order_trans max.cobounded1)

lemma getLastMark_fold_upper: "r \<in> set rs \<Longrightarrow> range_end r \<le> fold (\<lambda>r acc. max acc (range_end r)) rs a"
  by (induction rs arbitrary: a) (auto intro: order_trans [OF max.cobounded2 getLastMark_fold_ge])

lemma getLastMark_upper: "r \<in> set rs \<Longrightarrow> range_end r \<le> getLastMark rs"
  by (simp add: getLastMark_def getLastMark_fold_upper)

lemma isOneRangeForWholePart_marks:
  "isOneRangeForWholePart rs n \<Longrightarrow> marks_in rs = {0..<n}"
  by (auto simp: isOneRangeForWholePart_def marks_of_def split: list.splits)

section \<open>Binary form\<close>

text \<open>
  The buffer primitives of the repository's IO library: \<open>put_u64\<close> gives the bytes written for a
  64-bit value and \<open>get_u64\<close> reads one, failing at the end of the input.
\<close>

record u64_codec =
  put_u64 :: "nat \<Rightarrow> string"
  get_u64 :: "string \<Rightarrow> (nat \<times> string) result"

definition u64_codec_ok :: "u64_codec \<Rightarrow> bool" where
  "u64_codec_ok io \<longleftrightarrow> (\<forall>n rest. n < size_max \<longrightarrow> get_u64 io (put_u64 io n @ rest) = Inr (n, rest))"

definition ranges_serialize :: "u64_codec \<Rightarrow> mark_range list \<Rightarrow> string" where
  "ranges_serialize io rs =
     put_u64 io (length rs) @ concat (map (\<lambda>r. put_u64 io (range_begin r) @ put_u64 io (range_end r)) rs)"

fun read_ranges :: "u64_codec \<Rightarrow> nat \<Rightarrow> string \<Rightarrow> (mark_range list \<times> string) result" where
  "read_ranges io 0 inp = Inr ([], inp)"
| "read_ranges io (Suc n) inp =
     bind_r (get_u64 io inp) (\<lambda>(b, inp).
     bind_r (get_u64 io inp) (\<lambda>(e, inp).
     bind_r (read_ranges io n inp) (\<lambda>(rs, inp).
       Inr (MarkRange b e # rs, inp))))"

definition ranges_deserialize :: "u64_codec \<Rightarrow> string \<Rightarrow> (mark_range list \<times> string) result" where
  "ranges_deserialize io inp = bind_r (get_u64 io inp) (\<lambda>(size, inp). read_ranges io size inp)"

lemma read_ranges_written:
  assumes "u64_codec_ok io" "\<forall>r \<in> set rs. range_begin r < size_max \<and> range_end r < size_max"
  shows "read_ranges io (length rs)
           (concat (map (\<lambda>r. put_u64 io (range_begin r) @ put_u64 io (range_end r)) rs) @ rest) = Inr (rs, rest)"
  using assms(2)
proof (induction rs)
  case (Cons r rs)
  with assms(1) show ?case by (simp add: u64_codec_ok_def)
qed simp

text \<open>
  Reading back what \<open>MarkRanges::serialize\<close> wrote gives the same ranges and leaves the rest of
  the buffer, for any buffer primitives that read back what they write.
\<close>

theorem ranges_roundtrip:
  assumes "u64_codec_ok io" "\<forall>r \<in> set rs. wf_range r" "length rs < size_max"
  shows "ranges_deserialize io (ranges_serialize io rs @ rest) = Inr (rs, rest)"
proof -
  have "read_ranges io (length rs)
      (concat (map (\<lambda>r. put_u64 io (range_begin r) @ put_u64 io (range_end r)) rs) @ rest) = Inr (rs, rest)"
    using assms by (intro read_ranges_written) (auto simp: wf_range_def)
  with assms show ?thesis
    by (simp add: ranges_deserialize_def ranges_serialize_def u64_codec_ok_def)
qed

text \<open>Eight little-endian bytes, the primitive the code calls, as a concrete codec.\<close>

fun le_bytes :: "nat \<Rightarrow> nat \<Rightarrow> string" where
  "le_bytes 0 n = []"
| "le_bytes (Suc k) n = char_of (n mod 256) # le_bytes k (n div 256)"

fun le_value :: "string \<Rightarrow> nat" where
  "le_value [] = 0"
| "le_value (c # cs) = of_char c + 256 * le_value cs"

definition le_codec :: u64_codec where
  "le_codec = \<lparr>put_u64 = le_bytes 8,
     get_u64 = (\<lambda>s. if length s < 8 then Inl UB else Inr (le_value (take 8 s), drop 8 s))\<rparr>"

lemma length_le_bytes [simp]: "length (le_bytes k n) = k"
  by (induction k arbitrary: n) auto

lemma le_value_le_bytes: "n < 256 ^ k \<Longrightarrow> le_value (le_bytes k n) = n"
proof (induction k arbitrary: n)
  case (Suc k)
  then have "n div 256 < 256 ^ k"
    by (simp add: less_mult_imp_div_less mult.commute)
  with Suc.IH show ?case by simp
qed simp

lemma le_codec_ok: "u64_codec_ok le_codec"
  by (simp add: u64_codec_ok_def le_codec_def le_value_le_bytes size_max_def)

theorem ranges_roundtrip_witness:
  "ranges_deserialize le_codec (ranges_serialize le_codec [MarkRange 1 3, MarkRange 8 700] @ ''tail'')
     = Inr ([MarkRange 1 3, MarkRange 8 700], ''tail'')"
  by (rule ranges_roundtrip) (auto simp: le_codec_ok wf_range_def size_max_def)

end
