(* ===== verification/Index_Granularity.thy ===== *)
theory Index_Granularity
  imports Mark_Range
begin

text \<open>
  \<open>MergeTreeIndexGranularity.h\<close> and \<open>MergeTreeIndexGranularity.cpp\<close>: the interface
  of the two index granularity classes, the methods the base class builds on its virtual methods, and the
  choice of the granularity of a block. The contract of the interface is the locale
  \<open>index_granularity\<close>: every answer is about one list, the number of rows after each mark.
\<close>

section \<open>Methods of the base class\<close>

text \<open>
  The virtual methods a base method calls are its parameters, already applied to the object.
\<close>

definition getMarksCountWithoutFinal :: "size_t \<Rightarrow> bool \<Rightarrow> size_t" where
  "getMarksCountWithoutFinal marks_count has_final =
     (if marks_count = 0 then marks_count else sub64 marks_count (of_bool has_final))"

definition getMarkStartingRow :: "(size_t \<Rightarrow> size_t \<Rightarrow> size_t result) \<Rightarrow> size_t \<Rightarrow> size_t result" where
  "getMarkStartingRow rows_in_range mark_index = rows_in_range 0 mark_index"

definition getLastMarkRows :: "size_t \<Rightarrow> (size_t \<Rightarrow> size_t result) \<Rightarrow> size_t result" where
  "getLastMarkRows marks_count mark_rows = mark_rows (sub64 marks_count 1)"

definition getLastNonFinalMarkRows :: "size_t \<Rightarrow> (size_t \<Rightarrow> size_t result) \<Rightarrow> size_t result" where
  "getLastNonFinalMarkRows marks_count mark_rows =
     bind_r (mark_rows (sub64 marks_count 1)) (\<lambda>last_mark_rows.
       if last_mark_rows \<noteq> 0 then Inr last_mark_rows
       else mark_rows (sub64 marks_count 2))"

definition getRowsCountInMarkRange ::
  "(size_t \<Rightarrow> size_t \<Rightarrow> size_t result) \<Rightarrow> mark_range \<Rightarrow> size_t result" where
  "getRowsCountInMarkRange rows_in_range r = rows_in_range (range_begin r) (range_end r)"

fun getRowsCountInRanges_from ::
  "(size_t \<Rightarrow> size_t \<Rightarrow> size_t result) \<Rightarrow> size_t \<Rightarrow> mark_range list \<Rightarrow> size_t result" where
  "getRowsCountInRanges_from rows_in_range acc [] = Inr acc"
| "getRowsCountInRanges_from rows_in_range acc (r # rs) =
     bind_r (getRowsCountInMarkRange rows_in_range r) (\<lambda>n.
       getRowsCountInRanges_from rows_in_range (add64 acc n) rs)"

definition getRowsCountInRanges ::
  "(size_t \<Rightarrow> size_t \<Rightarrow> size_t result) \<Rightarrow> mark_range list \<Rightarrow> size_t result" where
  "getRowsCountInRanges rows_in_range rs = getRowsCountInRanges_from rows_in_range 0 rs"

definition getMarksCountForSkipIndex :: "size_t \<Rightarrow> bool \<Rightarrow> size_t \<Rightarrow> size_t result" where
  "getMarksCountForSkipIndex marks_count has_final skip_index_granularity =
     (let marks = getMarksCountWithoutFinal marks_count has_final
      in if skip_index_granularity = 0 then Inl UB
         else Inr (sub64 (add64 marks skip_index_granularity) 1 div skip_index_granularity))"

text \<open>
  \<open>addRowsToLastMark\<close> as the repository's first experiment rewrote it: marks of 128 rows are
  appended while they fit, and what is left replaces the last mark.
\<close>

function append_marks_of_128 ::
  "('g \<Rightarrow> size_t \<Rightarrow> 'g result) \<Rightarrow> 'g \<Rightarrow> size_t \<Rightarrow> ('g \<times> size_t) result" where
  "append_marks_of_128 append_mark g n_rows =
     (if 128 \<le> n_rows
      then bind_r (append_mark g 128) (\<lambda>g'. append_marks_of_128 append_mark g' (n_rows - 128))
      else Inr (g, n_rows))"
  by pat_completeness auto
termination
  by (relation "measure (\<lambda>(_, _, n_rows). n_rows)") auto

declare append_marks_of_128.simps [simp del]

definition addRowsToLastMark ::
  "('g \<Rightarrow> size_t) \<Rightarrow> ('g \<Rightarrow> size_t \<Rightarrow> size_t result) \<Rightarrow> ('g \<Rightarrow> size_t \<Rightarrow> 'g result)
     \<Rightarrow> ('g \<Rightarrow> size_t \<Rightarrow> 'g result) \<Rightarrow> 'g \<Rightarrow> size_t \<Rightarrow> 'g result" where
  "addRowsToLastMark marks_count mark_rows append_mark adjust_last g rows_count =
     bind_r (if marks_count g = 0 then Inr 0 else getLastMarkRows (marks_count g) (mark_rows g)) (\<lambda>current.
     bind_r (append_marks_of_128 append_mark g (add64 current rows_count)) (\<lambda>(g, n_rows).
       if 0 < n_rows
       then if marks_count g = 0 then append_mark g n_rows else adjust_last g n_rows
       else Inr g))"

section \<open>Granularity of a block\<close>

definition computeIndexGranularity ::
  "size_t \<Rightarrow> size_t \<Rightarrow> size_t \<Rightarrow> size_t \<Rightarrow> bool \<Rightarrow> bool \<Rightarrow> size_t result" where
  "computeIndexGranularity rows bytes_uncompressed index_granularity_bytes
       fixed_index_granularity_rows blocks_are_granules can_use_adaptive_index_granularity =
     bind_r
       (if \<not> can_use_adaptive_index_granularity then Inr fixed_index_granularity_rows
        else if blocks_are_granules then Inr rows
        else if index_granularity_bytes \<le> bytes_uncompressed
        then if index_granularity_bytes = 0 then Inl UB
             else let granules_in_block = bytes_uncompressed div index_granularity_bytes
                  in Inr (rows div granules_in_block)
        else if rows = 0 then Inl UB
             else let size_of_row_in_bytes = max (bytes_uncompressed div rows) 1
                  in Inr (index_granularity_bytes div size_of_row_in_bytes))
       (\<lambda>index_granularity_for_block.
          let g = (if \<not> blocks_are_granules
                   then min fixed_index_granularity_rows index_granularity_for_block
                   else index_granularity_for_block)
          in Inr (if g = 0 then 1 else g))"

text \<open>
  with a positive byte granularity and a non-empty block the computation never divides by
  zero; the chosen granularity is at least one row, at most the fixed granularity unless blocks
  are granules, and a granule chosen by size stays within the byte granularity at the average row
  size (one-row granules excepted).
\<close>

theorem computeIndexGranularity_bounds:
  assumes "0 < rows" "0 < index_granularity_bytes"
  shows "\<exists>g. computeIndexGranularity rows bytes index_granularity_bytes fixed_rows granules adaptive = Inr g
    \<and> 1 \<le> g
    \<and> (\<not> granules \<longrightarrow> g \<le> max 1 fixed_rows)
    \<and> (adaptive \<and> \<not> granules \<and> bytes < index_granularity_bytes \<and> 1 < g
        \<longrightarrow> g * (bytes div rows) \<le> index_granularity_bytes)
    \<and> (adaptive \<and> \<not> granules \<and> index_granularity_bytes \<le> bytes \<and> 1 < g
        \<longrightarrow> g * (bytes div index_granularity_bytes) \<le> rows)"
proof -
  let ?m = "max (bytes div rows) 1"
  have le: "g * d \<le> n" if "g \<le> n div d'" "d \<le> d'" for g n d d' :: nat
  proof -
    have "g * d \<le> (n div d') * d'" using that by (intro mult_mono) auto
    then show ?thesis using div_times_less_eq_dividend [of n d'] by linarith
  qed
  show ?thesis
    using assms le [of _ "index_granularity_bytes" ?m "bytes div rows"]
      le [of _ rows "bytes div index_granularity_bytes" "bytes div index_granularity_bytes"]
    by (auto simp: computeIndexGranularity_def Let_def split: if_splits)
qed

theorem computeIndexGranularity_bounds_witness:
  "\<exists>g. computeIndexGranularity 100000 10000000 1048576 8192 False True = Inr g \<and> 1 \<le> g \<and> g * 9 \<le> 100000"
  using computeIndexGranularity_bounds
    [of 100000 1048576 10000000 8192 False True]
  by (auto simp: computeIndexGranularity_def Let_def)

section \<open>The contract of the interface\<close>

text \<open>
  What the callers rely on, stated over the list of the rows of each mark: \<open>rows_before rows m\<close>
  is the first row of mark \<open>m\<close>, \<open>data_marks\<close> the number of marks before the final
  one, and \<open>marks_ending_by rows pos\<close> the number of marks that end at or before row
  \<open>pos\<close>.
\<close>

definition rows_before :: "nat list \<Rightarrow> nat \<Rightarrow> nat" where
  "rows_before rows m = sum_list (take m rows)"

definition ends_in_final :: "nat list \<Rightarrow> bool" where
  "ends_in_final rows \<longleftrightarrow> rows \<noteq> [] \<and> last rows = 0"

definition data_marks :: "nat list \<Rightarrow> nat" where
  "data_marks rows = length rows - of_bool (ends_in_final rows)"

definition marks_ending_by :: "nat list \<Rightarrow> nat \<Rightarrow> nat" where
  "marks_ending_by rows pos = card {i. i < length rows \<and> rows_before rows (Suc i) \<le> pos}"

lemma rows_before_0 [simp]: "rows_before rows 0 = 0"
  by (simp add: rows_before_def)

lemma rows_before_all [simp]: "length rows \<le> m \<Longrightarrow> rows_before rows m = sum_list rows"
  by (simp add: rows_before_def)

lemma rows_before_Suc: "m < length rows \<Longrightarrow> rows_before rows (Suc m) = rows_before rows m + rows ! m"
  by (simp add: rows_before_def take_Suc_conv_app_nth)

lemma rows_before_mono: "a \<le> b \<Longrightarrow> rows_before rows a \<le> rows_before rows b"
proof -
  assume "a \<le> b"
  then have "take b rows = take a rows @ take (b - a) (drop a rows)"
    by (metis le_add_diff_inverse take_add)
  then show ?thesis by (simp add: rows_before_def)
qed

lemma rows_before_le_sum: "rows_before rows m \<le> sum_list rows"
  using rows_before_mono [of m "max m (length rows)" rows] by simp

lemma rows_before_append: "m \<le> length rows \<Longrightarrow> rows_before (rows @ ys) m = rows_before rows m"
  by (simp add: rows_before_def)

lemma data_marks_le [simp]: "data_marks rows \<le> length rows"
  by (simp add: data_marks_def)

text \<open>The marks that end by a position are a prefix of the marks.\<close>

lemma marks_ending_by_eqI:
  assumes "m \<le> length rows"
    "\<And>i. i < m \<Longrightarrow> rows_before rows (Suc i) \<le> pos"
    "m < length rows \<Longrightarrow> pos < rows_before rows (Suc m)"
  shows "marks_ending_by rows pos = m"
proof -
  have "{i. i < length rows \<and> rows_before rows (Suc i) \<le> pos} = {..<m}"
  proof (intro set_eqI iffI)
    fix i assume i: "i \<in> {i. i < length rows \<and> rows_before rows (Suc i) \<le> pos}"
    show "i \<in> {..<m}"
    proof (rule ccontr)
      assume "i \<notin> {..<m}"
      then have "m \<le> i" by simp
      then have "m < length rows" "rows_before rows (Suc m) \<le> rows_before rows (Suc i)"
        using i by (auto intro: rows_before_mono)
      with assms(3) i show False by simp
    qed
  qed (use assms in auto)
  then show ?thesis by (simp add: marks_ending_by_def)
qed

lemma marks_ending_by_ge:
  assumes "m \<le> length rows" "rows_before rows m \<le> pos"
  shows "m \<le> marks_ending_by rows pos"
proof -
  have "{..<m} \<subseteq> {i. i < length rows \<and> rows_before rows (Suc i) \<le> pos}"
  proof
    fix i assume "i \<in> {..<m}"
    then have "Suc i \<le> m" by simp
    from rows_before_mono [OF this, of rows] assms \<open>i \<in> {..<m}\<close>
    show "i \<in> {i. i < length rows \<and> rows_before rows (Suc i) \<le> pos}" by auto
  qed
  then have "card {..<m} \<le> marks_ending_by rows pos"
    unfolding marks_ending_by_def by (intro card_mono) auto
  then show ?thesis by simp
qed

lemma marks_ending_by_le: "marks_ending_by rows pos \<le> length rows"
proof -
  have "marks_ending_by rows pos \<le> card {..<length rows}"
    unfolding marks_ending_by_def by (intro card_mono) auto
  then show ?thesis by simp
qed

locale index_granularity =
  fixes inv :: "'g \<Rightarrow> bool"
    and rows :: "'g \<Rightarrow> nat list"
    and marks_count :: "'g \<Rightarrow> size_t"
    and total_rows :: "'g \<Rightarrow> size_t"
    and has_final :: "'g \<Rightarrow> bool"
    and mark_rows :: "'g \<Rightarrow> size_t \<Rightarrow> size_t result"
    and rows_in_range :: "'g \<Rightarrow> size_t \<Rightarrow> size_t \<Rightarrow> size_t result"
    and range_for_row :: "'g \<Rightarrow> size_t \<Rightarrow> mark_range"
    and marks_for_rows :: "'g \<Rightarrow> size_t \<Rightarrow> size_t \<Rightarrow> size_t result"
    and rows_for_rows :: "'g \<Rightarrow> size_t \<Rightarrow> size_t \<Rightarrow> size_t \<Rightarrow> size_t result"
    and append_mark :: "'g \<Rightarrow> size_t \<Rightarrow> 'g result"
    and adjust_last :: "'g \<Rightarrow> size_t \<Rightarrow> 'g result"
  assumes fits: "inv g \<Longrightarrow> sum_list (rows g) < size_max \<and> length (rows g) < size_max"
    and marks_count: "inv g \<Longrightarrow> marks_count g = length (rows g)"
    and total_rows: "inv g \<Longrightarrow> total_rows g = sum_list (rows g)"
    and has_final: "inv g \<Longrightarrow> has_final g \<longleftrightarrow> ends_in_final (rows g)"
    and mark_rows: "inv g \<Longrightarrow>
      mark_rows g i = (if i < length (rows g) then Inr (rows g ! i) else Inl LOGICAL_ERROR)"
    and rows_in_range_error: "inv g \<Longrightarrow> length (rows g) < e \<Longrightarrow> rows_in_range g b e = Inl LOGICAL_ERROR"
    and rows_in_range: "inv g \<Longrightarrow> b \<le> e \<Longrightarrow> e \<le> length (rows g) \<Longrightarrow> b < data_marks (rows g) \<or> e = 0 \<Longrightarrow>
      rows_in_range g b e = Inr (rows_before (rows g) e - rows_before (rows g) b)"
    and range_for_row: "inv g \<Longrightarrow> row < sum_list (rows g) \<Longrightarrow>
      \<exists>i < length (rows g). range_for_row g row = MarkRange i (Suc i)
        \<and> rows_before (rows g) i \<le> row \<and> row < rows_before (rows g) (Suc i)"
    and marks_for_rows: "inv g \<Longrightarrow> from \<le> length (rows g) \<Longrightarrow> 0 < data_marks (rows g) \<Longrightarrow>
      rows_before (rows g) from + n < size_max \<Longrightarrow>
      marks_for_rows g from n = Inr (marks_ending_by (rows g) (rows_before (rows g) from + n) - from)"
    and rows_for_rows: "inv g \<Longrightarrow> from < data_marks (rows g) \<Longrightarrow> offset < rows g ! from \<Longrightarrow>
      rows g ! from \<le> offset + n \<Longrightarrow> rows_before (rows g) from + offset + n < size_max \<Longrightarrow>
      rows_for_rows g from n offset =
        Inr (rows_before (rows g) (marks_ending_by (rows g) (rows_before (rows g) from + offset + n))
             - rows_before (rows g) from - offset)"
    and append_mark: "inv g \<Longrightarrow> append_mark g r = Inr g' \<Longrightarrow> sum_list (rows g) + r < size_max \<Longrightarrow>
      Suc (Suc (length (rows g))) < size_max \<Longrightarrow>
      inv g' \<and> sum_list (rows g') = sum_list (rows g) + r \<and> length (rows g') = Suc (length (rows g))"
    and append_mark_final: "inv g \<Longrightarrow> has_final g \<Longrightarrow> append_mark g r = Inl LOGICAL_ERROR"
    and adjust_last: "inv g \<Longrightarrow> \<not> has_final g \<Longrightarrow> 0 < r \<Longrightarrow> sum_list (rows g) + r < size_max \<Longrightarrow>
      \<exists>g'. adjust_last g r = Inr g' \<and> inv g' \<and> rows g' = butlast (rows g) @ [r]"
    and adjust_last_final: "inv g \<Longrightarrow> has_final g \<Longrightarrow> adjust_last g r = Inl LOGICAL_ERROR"
begin

lemma data_marks_eq: "inv g \<Longrightarrow> getMarksCountWithoutFinal (marks_count g) (has_final g) = data_marks (rows g)"
  using fits [of g]
  by (auto simp: getMarksCountWithoutFinal_def marks_count has_final data_marks_def ends_in_final_def size_t_simps
      Suc_le_eq)

lemma starting_row:
  "inv g \<Longrightarrow> m \<le> length (rows g) \<Longrightarrow> 0 < data_marks (rows g) \<or> m = 0 \<Longrightarrow>
     getMarkStartingRow (rows_in_range g) m = Inr (rows_before (rows g) m)"
  by (auto simp: getMarkStartingRow_def rows_in_range)

lemma last_mark_rows:
  "inv g \<Longrightarrow> rows g \<noteq> [] \<Longrightarrow> getLastMarkRows (marks_count g) (mark_rows g) = Inr (last (rows g))"
  using fits [of g]
  by (auto simp: getLastMarkRows_def marks_count mark_rows last_conv_nth size_t_simps Suc_le_eq)

lemma rows_in_range_additive:
  assumes "inv g" "a \<le> b" "b \<le> c" "c \<le> length (rows g)" "b < data_marks (rows g)"
    "rows_in_range g a b = Inr x" "rows_in_range g b c = Inr y"
  shows "rows_in_range g a c = Inr (x + y)"
proof -
  have "rows_before (rows g) a \<le> rows_before (rows g) b" "rows_before (rows g) b \<le> rows_before (rows g) c"
    using assms by (auto intro: rows_before_mono)
  with assms show ?thesis by (simp add: rows_in_range)
qed

lemma range_for_row_starting_row:
  assumes "inv g" "row < total_rows g"
  shows "\<exists>first next. range_for_row g row = MarkRange (range_begin (range_for_row g row)) (Suc (range_begin (range_for_row g row)))
    \<and> range_begin (range_for_row g row) < marks_count g
    \<and> getMarkStartingRow (rows_in_range g) (range_begin (range_for_row g row)) = Inr first
    \<and> getMarkStartingRow (rows_in_range g) (range_end (range_for_row g row)) = Inr next
    \<and> first \<le> row \<and> row < next"
proof -
  have sum: "row < sum_list (rows g)" using assms by (simp add: total_rows)
  obtain i where i: "i < length (rows g)" "range_for_row g row = MarkRange i (Suc i)"
    "rows_before (rows g) i \<le> row" "row < rows_before (rows g) (Suc i)"
    using range_for_row [OF assms(1) sum] by blast
  have "0 < data_marks (rows g)"
  proof (rule ccontr)
    assume "\<not> 0 < data_marks (rows g)"
    then have "length (rows g) \<le> 1 \<and> (rows g \<noteq> [] \<longrightarrow> last (rows g) = 0)"
      by (cases "rows g = []"; cases "last (rows g) = 0")
         (auto simp: data_marks_def ends_in_final_def)
    then have "sum_list (rows g) = 0"
      by (cases "rows g") auto
    with sum show False by simp
  qed
  with i assms show ?thesis
    by (auto simp: starting_row marks_count)
qed

lemma skip_index_marks:
  assumes "inv g" "0 < s" "length (rows g) + s < size_max"
  shows "getMarksCountForSkipIndex (marks_count g) (has_final g) s = Inr ((data_marks (rows g) + s - 1) div s)"
proof -
  have "data_marks (rows g) + s < size_max"
    using assms(3) data_marks_le [of "rows g"] by linarith
  with assms show ?thesis
    by (simp add: getMarksCountForSkipIndex_def data_marks_eq size_t_simps Let_def)
qed

end

end
