(* ===== verification/Granularity_Adaptive.thy ===== *)
theory Granularity_Adaptive
  imports Index_Granularity
begin

text \<open>
  \<open>MergeTreeIndexGranularityAdaptive\<close>: the partial sums of the rows of the marks. The state is
  the vector \<open>marks_rows_partial_sums\<close>; its abstraction is the list of differences. The last
  section interprets the granularity contract on these operations.
\<close>

section \<open>Operations\<close>

record adaptive =
  marks_rows_partial_sums :: "size_t list"

abbreviation sums :: "adaptive \<Rightarrow> size_t list" where
  "sums \<equiv> marks_rows_partial_sums"

definition ad_getMarksCount :: "adaptive \<Rightarrow> size_t" where
  "ad_getMarksCount g = length (sums g)"

definition ad_getMarkRows :: "adaptive \<Rightarrow> size_t \<Rightarrow> size_t result" where
  "ad_getMarkRows g mark_index =
     (if ad_getMarksCount g \<le> mark_index then Inl LOGICAL_ERROR
      else if mark_index = 0 then Inr (sums g ! 0)
      else Inr (sub64 (sums g ! mark_index) (sums g ! (mark_index - 1))))"

definition ad_hasFinalMark :: "adaptive \<Rightarrow> bool" where
  "ad_hasFinalMark g =
     (if sums g = [] then False else getLastMarkRows (ad_getMarksCount g) (ad_getMarkRows g) = Inr 0)"

definition ad_getTotalRows :: "adaptive \<Rightarrow> size_t" where
  "ad_getTotalRows g = (if sums g = [] then 0 else last (sums g))"

definition ad_getMarkRangeForRowOffset :: "adaptive \<Rightarrow> size_t \<Rightarrow> mark_range" where
  "ad_getMarkRangeForRowOffset g row_offset =
     (let begin_mark = lower_bound (sums g) (add64 row_offset 1)
      in MarkRange begin_mark (add64 begin_mark 1))"

definition ad_appendMark :: "adaptive \<Rightarrow> size_t \<Rightarrow> adaptive result" where
  "ad_appendMark g rows_count =
     (if ad_hasFinalMark g then Inl LOGICAL_ERROR
      else if sums g = [] then Inr (g\<lparr>marks_rows_partial_sums := [rows_count]\<rparr>)
      else Inr (g\<lparr>marks_rows_partial_sums := sums g @ [add64 (last (sums g)) rows_count]\<rparr>))"

definition ad_adjustLastMark :: "adaptive \<Rightarrow> size_t \<Rightarrow> adaptive result" where
  "ad_adjustLastMark g rows_count =
     (if ad_hasFinalMark g then Inl LOGICAL_ERROR
      else if sums g = [] then Inr (g\<lparr>marks_rows_partial_sums := [rows_count]\<rparr>)
      else ad_appendMark (g\<lparr>marks_rows_partial_sums := butlast (sums g)\<rparr>) rows_count)"

definition ad_getRowsCountInRange :: "adaptive \<Rightarrow> size_t \<Rightarrow> size_t \<Rightarrow> size_t result" where
  "ad_getRowsCountInRange g b e =
     (if ad_getMarksCount g < e then Inl LOGICAL_ERROR
      else if e = 0 then Inr 0
      else if b \<noteq> 0 \<and> ad_getMarksCount g < b then Inl UB
      else let subtrahend = (if b \<noteq> 0 then sums g ! (b - 1) else 0)
           in Inr (sub64 (sums g ! (e - 1)) subtrahend))"

definition ad_countMarksForRows :: "adaptive \<Rightarrow> size_t \<Rightarrow> size_t \<Rightarrow> size_t result" where
  "ad_countMarksForRows g from_mark number_of_rows =
     bind_r (getMarkStartingRow (ad_getRowsCountInRange g) from_mark) (\<lambda>rows_before_mark.
       let last_row_pos = add64 rows_before_mark number_of_rows;
           to_mark = upper_bound (sums g) last_row_pos
       in Inr (sub64 to_mark from_mark))"

definition ad_countRowsForRows :: "adaptive \<Rightarrow> size_t \<Rightarrow> size_t \<Rightarrow> size_t \<Rightarrow> size_t result" where
  "ad_countRowsForRows g from_mark number_of_rows offset_in_rows =
     bind_r (getMarkStartingRow (ad_getRowsCountInRange g) from_mark) (\<lambda>rows_before_mark.
       let last_row_pos = add64 (add64 rows_before_mark offset_in_rows) number_of_rows;
           to_mark = upper_bound (sums g) last_row_pos
       in bind_r (ad_getRowsCountInRange g from_mark (max 1 to_mark)) (\<lambda>n.
            Inr (sub64 n offset_in_rows)))"

definition ad_getBytesSize :: "adaptive \<Rightarrow> size_t" where
  "ad_getBytesSize g = mul64 (length (sums g)) 8"

section \<open>The rows of each mark\<close>

fun differences :: "nat \<Rightarrow> nat list \<Rightarrow> nat list" where
  "differences p [] = []"
| "differences p (s # ss) = (s - p) # differences s ss"

definition ad_rows :: "adaptive \<Rightarrow> nat list" where
  "ad_rows g = differences 0 (sums g)"

text \<open>
  The states the writer builds: sums that never decrease and fit in \<open>size_t\<close>, with an empty
  granule only as the last mark.
\<close>

definition ad_inv :: "adaptive \<Rightarrow> bool" where
  "ad_inv g \<longleftrightarrow> sorted (sums g) \<and> (\<forall>s \<in> set (sums g). s < size_max) \<and> length (sums g) < size_max
     \<and> (\<forall>r \<in> set (butlast (ad_rows g)). 0 < r)"

lemma length_differences [simp]: "length (differences p ss) = length ss"
  by (induction ss arbitrary: p) auto

lemma differences_append:
  "differences p (xs @ ys) = differences p xs @ differences (last (p # xs)) ys"
  by (induction xs arbitrary: p) auto

lemma differences_eq_Nil [simp]: "differences p ss = [] \<longleftrightarrow> ss = []"
  by (cases ss) auto

lemma sum_differences: "sorted (p # ss) \<Longrightarrow> p + sum_list (differences p ss) = last (p # ss)"
  by (induction ss arbitrary: p) auto

lemma take_differences: "take m (differences p ss) = differences p (take m ss)"
  by (induction ss arbitrary: p m) (auto simp: take_Cons split: nat.split)

lemma rows_before_differences:
  assumes "sorted ss" "m \<le> length ss"
  shows "rows_before (differences 0 ss) m = (if m = 0 then 0 else ss ! (m - 1))"
proof (cases "m = 0")
  case False
  have "rows_before (differences 0 ss) m = last (0 # take m ss)"
    using assms sum_differences [of 0 "take m ss"]
    by (simp add: rows_before_def take_differences sorted_wrt_take)
  also have "\<dots> = ss ! (m - 1)"
    using False assms by (cases "ss = []") (simp_all add: last_conv_nth min_def)
  finally show ?thesis using False by simp
qed simp

lemma length_ad_rows [simp]: "length (ad_rows g) = length (sums g)"
  by (simp add: ad_rows_def)

lemma ad_rows_eq_Nil [simp]: "ad_rows g = [] \<longleftrightarrow> sums g = []"
  by (simp add: ad_rows_def)

lemma ad_rows_before:
  "ad_inv g \<Longrightarrow> m \<le> length (sums g) \<Longrightarrow>
     rows_before (ad_rows g) m = (if m = 0 then 0 else sums g ! (m - 1))"
  by (simp add: ad_inv_def ad_rows_def rows_before_differences)

lemma ad_rows_before_Suc:
  "ad_inv g \<Longrightarrow> i < length (sums g) \<Longrightarrow> rows_before (ad_rows g) (Suc i) = sums g ! i"
  by (simp add: ad_rows_before)

lemma ad_sum_rows: "ad_inv g \<Longrightarrow> sum_list (ad_rows g) = (if sums g = [] then 0 else last (sums g))"
  using ad_rows_before [of g "length (sums g)"] by (simp add: last_conv_nth)

lemma ad_nth_rows:
  "ad_inv g \<Longrightarrow> i < length (sums g) \<Longrightarrow>
     ad_rows g ! i = (if i = 0 then sums g ! 0 else sums g ! i - sums g ! (i - 1))"
  using rows_before_Suc [of i "ad_rows g"] ad_rows_before [of g i] ad_rows_before [of g "Suc i"]
  by auto

lemma ad_inv_sum_lt: "ad_inv g \<Longrightarrow> i < length (sums g) \<Longrightarrow> sums g ! i < size_max"
  by (simp add: ad_inv_def)

lemma ad_inv_sum_mono:
  "ad_inv g \<Longrightarrow> i \<le> j \<Longrightarrow> j < length (sums g) \<Longrightarrow> sums g ! i \<le> sums g ! j"
  by (simp add: ad_inv_def sorted_nth_mono)

lemma ad_sum_rows_lt: "ad_inv g \<Longrightarrow> sum_list (ad_rows g) < size_max"
  by (auto simp: ad_sum_rows ad_inv_def)

section \<open>Each operation against the rows\<close>

lemma ad_getMarkRows_eq:
  "ad_inv g \<Longrightarrow>
     ad_getMarkRows g i = (if i < length (ad_rows g) then Inr (ad_rows g ! i) else Inl LOGICAL_ERROR)"
  by (auto simp: ad_getMarkRows_def ad_getMarksCount_def ad_nth_rows ad_inv_sum_lt ad_inv_sum_mono
      size_t_simps)

lemma ad_hasFinalMark_eq: "ad_inv g \<Longrightarrow> ad_hasFinalMark g \<longleftrightarrow> ends_in_final (ad_rows g)"
  by (auto simp: ad_hasFinalMark_def getLastMarkRows_def ad_getMarksCount_def ad_getMarkRows_eq
      ends_in_final_def last_conv_nth size_t_simps Suc_le_eq ad_inv_def)

lemma ad_getRowsCountInRange_eq:
  assumes "ad_inv g" "b \<le> e" "e \<le> length (ad_rows g)"
  shows "ad_getRowsCountInRange g b e = Inr (rows_before (ad_rows g) e - rows_before (ad_rows g) b)"
proof -
  have "sums g ! (b - 1) \<le> sums g ! (e - 1)" if "0 < b" "0 < e"
    using assms that by (intro ad_inv_sum_mono) auto
  with assms show ?thesis
    by (auto simp: ad_getRowsCountInRange_def ad_getMarksCount_def ad_rows_before ad_inv_sum_lt
        size_t_simps Let_def)
qed

lemma ad_getMarkRangeForRowOffset_eq:
  assumes "ad_inv g" "row < sum_list (ad_rows g)"
  shows "\<exists>i < length (ad_rows g). ad_getMarkRangeForRowOffset g row = MarkRange i (Suc i)
    \<and> rows_before (ad_rows g) i \<le> row \<and> row < rows_before (ad_rows g) (Suc i)"
proof -
  let ?i = "lower_bound (sums g) (Suc row)"
  have row: "sums g \<noteq> []" "row < last (sums g)"
    using assms by (auto simp: ad_sum_rows split: if_splits)
  have "Suc row < size_max"
    using assms ad_sum_rows_lt [OF assms(1)] by linarith
  moreover have i: "?i < length (sums g)"
  proof (rule ccontr)
    assume "\<not> ?i < length (sums g)"
    then have "sums g ! (length (sums g) - 1) < Suc row"
      using row(1) length_greater_0_conv [of "sums g"] by (intro nth_less_lower_bound) linarith
    with row show False by (simp add: last_conv_nth)
  qed
  moreover have "Suc row \<le> sums g ! ?i"
    using assms i by (intro lower_bound_nth_ge) (auto simp: ad_inv_def)
  moreover have "sums g ! (?i - 1) < Suc row" if "0 < ?i"
    using that by (intro nth_less_lower_bound) simp
  moreover have "Suc ?i < size_max"
    using assms i by (simp add: ad_inv_def)
  ultimately show ?thesis
    using assms
    by (intro exI [of _ ?i])
       (auto simp: ad_getMarkRangeForRowOffset_def Let_def size_t_simps ad_rows_before ad_rows_before_Suc)
qed

lemma ad_upper_bound:
  assumes "ad_inv g"
  shows "upper_bound (sums g) pos = marks_ending_by (ad_rows g) pos"
proof (rule marks_ending_by_eqI [symmetric])
  show "rows_before (ad_rows g) (Suc i) \<le> pos" if "i < upper_bound (sums g) pos" for i
  proof -
    have "i < length (sums g)" using that upper_bound_le_length [of "sums g" pos] by linarith
    with assms nth_le_upper_bound [OF that] show ?thesis by (simp add: ad_rows_before_Suc)
  qed
  show "pos < rows_before (ad_rows g) (Suc (upper_bound (sums g) pos))"
    if "upper_bound (sums g) pos < length (ad_rows g)"
    using that assms upper_bound_nth_gt [of "sums g" pos "upper_bound (sums g) pos"]
    by (simp add: ad_rows_before_Suc ad_inv_def)
qed simp

lemma ad_countMarksForRows_eq:
  assumes "ad_inv g" "from \<le> length (ad_rows g)" "rows_before (ad_rows g) from + n < size_max"
  shows "ad_countMarksForRows g from n =
    Inr (marks_ending_by (ad_rows g) (rows_before (ad_rows g) from + n) - from)"
proof -
  let ?pos = "rows_before (ad_rows g) from + n"
  have "from \<le> marks_ending_by (ad_rows g) ?pos"
    using assms by (intro marks_ending_by_ge) auto
  moreover have "marks_ending_by (ad_rows g) ?pos < size_max"
    using assms marks_ending_by_le [of "ad_rows g" ?pos] by (simp add: ad_inv_def)
  ultimately show ?thesis
    using assms
    by (simp add: ad_countMarksForRows_def getMarkStartingRow_def ad_getRowsCountInRange_eq
        ad_upper_bound size_t_simps)
qed

lemma ad_countRowsForRows_eq:
  assumes "ad_inv g" "from < length (ad_rows g)" "offset < ad_rows g ! from"
    "ad_rows g ! from \<le> offset + n" "rows_before (ad_rows g) from + offset + n < size_max"
  shows "ad_countRowsForRows g from n offset =
    Inr (rows_before (ad_rows g) (marks_ending_by (ad_rows g) (rows_before (ad_rows g) from + offset + n))
         - rows_before (ad_rows g) from - offset)"
proof -
  let ?pos = "rows_before (ad_rows g) from + offset + n"
  let ?to = "marks_ending_by (ad_rows g) ?pos"
  have next_row: "rows_before (ad_rows g) (Suc from) = rows_before (ad_rows g) from + ad_rows g ! from"
    using assms by (simp add: rows_before_Suc)
  have to: "Suc from \<le> ?to"
    using assms next_row by (intro marks_ending_by_ge) auto
  have mono: "rows_before (ad_rows g) (Suc from) \<le> rows_before (ad_rows g) ?to"
    using to by (rule rows_before_mono)
  have lt: "rows_before (ad_rows g) ?to < size_max"
    using rows_before_le_sum [of "ad_rows g" ?to] ad_sum_rows_lt [OF assms(1)] by linarith
  have "max 1 ?to = ?to" "?to \<le> length (ad_rows g)"
    using to marks_ending_by_le [of "ad_rows g" ?pos] by auto
  with assms to mono lt next_row show ?thesis
    by (simp add: ad_countRowsForRows_def getMarkStartingRow_def ad_getRowsCountInRange_eq
        ad_upper_bound size_t_simps)
qed

lemma ad_rows_snoc: "ad_rows (g\<lparr>marks_rows_partial_sums := ss @ [s]\<rparr>) =
    ad_rows (g\<lparr>marks_rows_partial_sums := ss\<rparr>) @ [s - last (0 # ss)]"
  by (simp add: ad_rows_def differences_append)

lemma ad_appendMark_rows:
  assumes "ad_inv g" "ad_appendMark g r = Inr g'" "sum_list (ad_rows g) + r < size_max"
    "Suc (length (ad_rows g)) < size_max"
  shows "ad_inv g' \<and> ad_rows g' = ad_rows g @ [r]"
proof -
  have nf: "\<not> ends_in_final (ad_rows g)"
    using assms by (auto simp: ad_appendMark_def ad_hasFinalMark_eq split: if_splits)
  have last_sum: "last (0 # sums g) = sum_list (ad_rows g)"
    using assms(1) by (simp add: ad_sum_rows)
  have g': "g' = g\<lparr>marks_rows_partial_sums := sums g @ [last (0 # sums g) + r]\<rparr>"
    using assms last_sum
    by (auto simp: ad_appendMark_def ad_sum_rows size_t_simps split: if_splits)
  have rows: "ad_rows g' = ad_rows g @ [r]"
    using g' by (simp only: ad_rows_snoc) simp
  have "0 < x" if "x \<in> set (ad_rows g)" for x
  proof (cases "ad_rows g" rule: rev_cases)
    case (snoc xs y)
    with that assms(1) nf show ?thesis by (auto simp: ad_inv_def ends_in_final_def)
  qed (use that in \<open>simp del: ad_rows_eq_Nil\<close>)
  moreover have "sorted (sums g')"
  proof -
    have "s \<le> last (0 # sums g)" if "s \<in> set (sums g)" for s
      using that assms(1) by (auto simp: ad_inv_def in_set_conv_nth last_conv_nth intro: sorted_nth_mono)
    with assms(1) g' show ?thesis by (fastforce simp: ad_inv_def sorted_append)
  qed
  ultimately have "ad_inv g'"
    using assms g' rows last_sum by (auto simp: ad_inv_def simp del: last.simps)
  with rows show ?thesis by simp
qed

lemma ad_appendMark_ok: "ad_inv g \<Longrightarrow> \<not> ad_hasFinalMark g \<Longrightarrow> \<exists>g'. ad_appendMark g r = Inr g'"
  by (simp add: ad_appendMark_def)

lemma ad_butlast_rows:
  "ad_rows (g\<lparr>marks_rows_partial_sums := butlast (sums g)\<rparr>) = butlast (ad_rows g)"
  by (cases "sums g" rule: rev_cases) (simp_all add: ad_rows_def differences_append)

lemma ad_inv_butlast:
  assumes "ad_inv g"
  shows "ad_inv (g\<lparr>marks_rows_partial_sums := butlast (sums g)\<rparr>)"
  using assms unfolding ad_inv_def ad_butlast_rows
  by (auto simp: sorted_butlast dest: in_set_butlastD)

lemma ad_adjustLastMark_rows:
  assumes "ad_inv g" "\<not> ad_hasFinalMark g" "0 < r" "sum_list (ad_rows g) + r < size_max"
  shows "\<exists>g'. ad_adjustLastMark g r = Inr g' \<and> ad_inv g' \<and> ad_rows g' = butlast (ad_rows g) @ [r]"
proof (cases "sums g = []")
  case True
  with assms show ?thesis
    by (auto simp: ad_adjustLastMark_def ad_inv_def ad_rows_def size_max_def)
next
  case False
  let ?h = "g\<lparr>marks_rows_partial_sums := butlast (sums g)\<rparr>"
  have inv: "ad_inv ?h" using assms(1) by (rule ad_inv_butlast)
  have rows: "ad_rows ?h = butlast (ad_rows g)" by (rule ad_butlast_rows)
  have "\<not> ends_in_final (ad_rows ?h)"
    using assms(1) last_in_set [of "butlast (ad_rows g)"]
    unfolding rows ends_in_final_def ad_inv_def by fastforce
  then obtain g' where g': "ad_appendMark ?h r = Inr g'"
    using inv ad_appendMark_ok [of ?h r] by (auto simp: ad_hasFinalMark_eq)
  have "sum_list (butlast (ad_rows g)) \<le> sum_list (ad_rows g)"
    by (cases "ad_rows g" rule: rev_cases) (auto simp del: ad_rows_eq_Nil)
  then have "ad_inv g' \<and> ad_rows g' = ad_rows ?h @ [r]"
    using assms(1,4) inv g' False
    by (intro ad_appendMark_rows [of ?h r]) (auto simp: rows ad_inv_def)
  with g' rows assms(2) False show ?thesis
    by (auto simp: ad_adjustLastMark_def)
qed

section \<open>The contract\<close>

interpretation adaptive: index_granularity ad_inv ad_rows ad_getMarksCount ad_getTotalRows
  ad_hasFinalMark ad_getMarkRows ad_getRowsCountInRange ad_getMarkRangeForRowOffset
  ad_countMarksForRows ad_countRowsForRows ad_appendMark ad_adjustLastMark
proof (unfold_locales, goal_cases)
  case (7 g b e)
  then show ?case by (intro ad_getRowsCountInRange_eq)
next
  case (8 g row)
  then show ?case by (intro ad_getMarkRangeForRowOffset_eq)
next
  case (10 g "from" offset n)
  then show ?case
    using data_marks_le [of "ad_rows g"] by (intro ad_countRowsForRows_eq) linarith+
next
  case (11 g r g')
  then show ?case using ad_appendMark_rows [of g r g'] by simp
next
  case (13 g r)
  then show ?case using ad_adjustLastMark_rows by blast
qed (auto simp: ad_sum_rows_lt ad_inv_def ad_getMarksCount_def ad_getTotalRows_def ad_sum_rows
    ad_hasFinalMark_eq ad_getMarkRows_eq ad_getRowsCountInRange_def ad_countMarksForRows_eq ad_appendMark_def ad_adjustLastMark_def)

end
