(* ===== verification/Granularity_Constant.thy ===== *)
theory Granularity_Constant
  imports Granularity_Adaptive
begin

text \<open>
  \<open>MergeTreeIndexGranularityConstant\<close>: one granularity for every mark but the last non-empty one
  and the final one; the conversion \<open>MergeTreeIndexGranularityAdaptive::optimize\<close> that produces
  it; and the repair \<open>fixFromRowsCount\<close>. The granularity contract is interpreted on it too, so
  that the conversion is a refinement: every observation stays the same.
\<close>

section \<open>Operations\<close>

record constant_gran =
  constant_granularity :: size_t
  last_mark_granularity :: size_t
  num_marks_without_final :: size_t
  has_final_mark :: bool

definition Constant1 :: "size_t \<Rightarrow> constant_gran" where
  "Constant1 c = \<lparr>constant_granularity = c, last_mark_granularity = c,
     num_marks_without_final = 0, has_final_mark = False\<rparr>"

definition Constant4 :: "size_t \<Rightarrow> size_t \<Rightarrow> size_t \<Rightarrow> bool \<Rightarrow> constant_gran" where
  "Constant4 c l n f = \<lparr>constant_granularity = c, last_mark_granularity = l,
     num_marks_without_final = n, has_final_mark = f\<rparr>"

definition co_getMarksCount :: "constant_gran \<Rightarrow> size_t" where
  "co_getMarksCount g = add64 (num_marks_without_final g) (of_bool (has_final_mark g))"

definition co_getMarkRows :: "constant_gran \<Rightarrow> size_t \<Rightarrow> size_t result" where
  "co_getMarkRows g mark_index =
     (if co_getMarksCount g \<le> mark_index then Inl LOGICAL_ERROR
      else if add64 mark_index 1 < num_marks_without_final g then Inr (constant_granularity g)
      else if add64 mark_index 1 = num_marks_without_final g then Inr (last_mark_granularity g)
      else Inr 0)"

definition co_getMarkRangeForRowOffset :: "constant_gran \<Rightarrow> size_t \<Rightarrow> mark_range" where
  "co_getMarkRangeForRowOffset g row_offset =
     (let mark_index =
        (if row_offset < mul64 (constant_granularity g) (sub64 (num_marks_without_final g) 1)
         then row_offset div constant_granularity g
         else sub64 (num_marks_without_final g) 1)
      in MarkRange mark_index (add64 mark_index 1))"

definition co_getTotalRows :: "constant_gran \<Rightarrow> size_t" where
  "co_getTotalRows g =
     (if num_marks_without_final g = 0 then 0
      else add64 (mul64 (constant_granularity g) (sub64 (num_marks_without_final g) 1))
             (last_mark_granularity g))"

definition co_appendMark :: "constant_gran \<Rightarrow> size_t \<Rightarrow> constant_gran result" where
  "co_appendMark g rows_count =
     (if has_final_mark g then Inl LOGICAL_ERROR
      else if rows_count = 0 then Inr (g\<lparr>has_final_mark := True\<rparr>)
      else if rows_count \<noteq> constant_granularity g then Inl LOGICAL_ERROR
      else Inr (g\<lparr>num_marks_without_final := add64 (num_marks_without_final g) 1\<rparr>))"

definition co_adjustLastMark :: "constant_gran \<Rightarrow> size_t \<Rightarrow> constant_gran result" where
  "co_adjustLastMark g rows_count =
     (if has_final_mark g then Inl LOGICAL_ERROR
      else Inr (g\<lparr>num_marks_without_final :=
                     (if num_marks_without_final g = 0 then add64 (num_marks_without_final g) 1
                      else num_marks_without_final g),
                  last_mark_granularity := rows_count\<rparr>))"

definition co_getRowsCountInRange :: "constant_gran \<Rightarrow> size_t \<Rightarrow> size_t \<Rightarrow> size_t result" where
  "co_getRowsCountInRange g b e =
     (if co_getMarksCount g < e then Inl LOGICAL_ERROR
      else if e = 0 then Inr 0
      else let (n_rows, e) =
             (if num_marks_without_final g \<le> e
              then (last_mark_granularity g, sub64 (num_marks_without_final g) 1)
              else (0, e))
           in Inr (add64 n_rows (mul64 (constant_granularity g) (sub64 e b))))"

definition co_getMarkUpperBoundForRow :: "constant_gran \<Rightarrow> size_t \<Rightarrow> size_t" where
  "co_getMarkUpperBoundForRow g row_index =
     (let num_rows_with_constant_granularity =
        mul64 (sub64 (num_marks_without_final g) 1) (constant_granularity g)
      in if co_getTotalRows g \<le> row_index then co_getMarksCount g
         else if num_rows_with_constant_granularity \<le> row_index then sub64 (num_marks_without_final g) 1
         else row_index div constant_granularity g)"

definition co_countMarksForRows :: "constant_gran \<Rightarrow> size_t \<Rightarrow> size_t \<Rightarrow> size_t result" where
  "co_countMarksForRows g from_mark number_of_rows =
     bind_r (getMarkStartingRow (co_getRowsCountInRange g) from_mark) (\<lambda>rows_before_mark.
       let last_row_pos = add64 rows_before_mark number_of_rows
       in Inr (sub64 (co_getMarkUpperBoundForRow g last_row_pos) from_mark))"

definition co_countRowsForRows :: "constant_gran \<Rightarrow> size_t \<Rightarrow> size_t \<Rightarrow> size_t \<Rightarrow> size_t result" where
  "co_countRowsForRows g from_mark number_of_rows offset_in_rows =
     bind_r (getMarkStartingRow (co_getRowsCountInRange g) from_mark) (\<lambda>rows_before_mark.
       let last_row_pos = add64 (add64 rows_before_mark offset_in_rows) number_of_rows
       in bind_r (co_getRowsCountInRange g from_mark (max 1 (co_getMarkUpperBoundForRow g last_row_pos)))
            (\<lambda>n. Inr (sub64 n offset_in_rows)))"

definition co_fixFromRowsCount :: "constant_gran \<Rightarrow> size_t \<Rightarrow> constant_gran result" where
  "co_fixFromRowsCount g rows_count =
     (if num_marks_without_final g = 0 then Inr g
      else if constant_granularity g = 0 then Inl UB
      else
        let expected_data_marks =
              (if rows_count = 0 then 0
               else sub64 (add64 rows_count (constant_granularity g)) 1 div constant_granularity g);
            g = (if expected_data_marks < num_marks_without_final g \<and> \<not> has_final_mark g
                 then g\<lparr>has_final_mark := True,
                        num_marks_without_final := num_marks_without_final g - 1\<rparr>
                 else g)
        in if 0 < num_marks_without_final g
           then let rows_in_complete_granules =
                      mul64 (sub64 (num_marks_without_final g) 1) (constant_granularity g)
                in Inr (g\<lparr>last_mark_granularity :=
                          (if rows_in_complete_granules < rows_count
                           then sub64 rows_count rows_in_complete_granules else 0)\<rparr>)
           else Inr g)"

definition co_fixedFromRowsCount :: "constant_gran \<Rightarrow> size_t \<Rightarrow> constant_gran result" where
  "co_fixedFromRowsCount g rows_count =
     co_fixFromRowsCount
       (Constant4 (constant_granularity g) (last_mark_granularity g)
          (num_marks_without_final g) (has_final_mark g)) rows_count"

text \<open>\<open>MergeTreeIndexGranularityAdaptive::optimize\<close>; \<open>None\<close> is the null pointer.\<close>

function optimize_scan :: "adaptive \<Rightarrow> size_t \<Rightarrow> size_t \<Rightarrow> size_t \<Rightarrow> bool result" where
  "optimize_scan g first_mark i n =
     (if i < n
      then bind_r (ad_getMarkRows g i) (\<lambda>r.
             if r \<noteq> first_mark then Inr False else optimize_scan g first_mark (Suc i) n)
      else Inr True)"
  by pat_completeness auto
termination
  by (relation "measure (\<lambda>(_, _, i, n). n - i)") auto

declare optimize_scan.simps [simp del]

definition ad_optimize :: "adaptive \<Rightarrow> constant_gran option result" where
  "ad_optimize g =
     (let marks_count = getMarksCountWithoutFinal (ad_getMarksCount g) (ad_hasFinalMark g)
      in if marks_count = 0 then Inr None
         else bind_r (ad_getMarkRows g 0) (\<lambda>first_mark.
              bind_r (optimize_scan g first_mark 1 (sub64 marks_count 1)) (\<lambda>same.
                if \<not> same then Inr None
                else bind_r (ad_getMarkRows g (sub64 marks_count 1)) (\<lambda>last_mark.
                       Inr (Some (Constant4 first_mark last_mark marks_count (ad_hasFinalMark g)))))))"

section \<open>The rows of each mark\<close>

definition co_rows :: "constant_gran \<Rightarrow> nat list" where
  "co_rows g =
     (if num_marks_without_final g = 0 then []
      else replicate (num_marks_without_final g - 1) (constant_granularity g) @ [last_mark_granularity g])
     @ (if has_final_mark g then [0] else [])"

definition co_inv :: "constant_gran \<Rightarrow> bool" where
  "co_inv g \<longleftrightarrow> 0 < constant_granularity g \<and> 0 < last_mark_granularity g
     \<and> (num_marks_without_final g = 0 \<and> \<not> has_final_mark g \<longrightarrow> last_mark_granularity g = constant_granularity g)
     \<and> constant_granularity g * (num_marks_without_final g - 1) + last_mark_granularity g < size_max
     \<and> Suc (num_marks_without_final g) < size_max"

lemma Constant4_sel [simp]:
  "constant_granularity (Constant4 c l n f) = c" "last_mark_granularity (Constant4 c l n f) = l"
  "num_marks_without_final (Constant4 c l n f) = n" "has_final_mark (Constant4 c l n f) = f"
  by (simp_all add: Constant4_def)

lemma co_length_rows: "length (co_rows g) = num_marks_without_final g + of_bool (has_final_mark g)"
  by (simp add: co_rows_def)

lemma co_sum_rows: "sum_list (co_rows g) =
    (if num_marks_without_final g = 0 then 0
     else constant_granularity g * (num_marks_without_final g - 1) + last_mark_granularity g)"
  by (simp add: co_rows_def sum_list_replicate)

lemma co_ends_in_final: "co_inv g \<Longrightarrow> ends_in_final (co_rows g) \<longleftrightarrow> has_final_mark g"
  by (auto simp: ends_in_final_def co_rows_def co_inv_def)

lemma co_data_marks: "co_inv g \<Longrightarrow> data_marks (co_rows g) = num_marks_without_final g"
  by (simp add: data_marks_def co_ends_in_final co_length_rows)

lemma co_rows_before:
  assumes "m \<le> length (co_rows g)"
  shows "rows_before (co_rows g) m =
    (if m < num_marks_without_final g then constant_granularity g * m
     else sum_list (co_rows g))"
  using assms
  by (auto simp: rows_before_def co_rows_def co_length_rows sum_list_replicate min_def
      dest!: in_set_takeD split: if_splits)

lemma co_nth_rows:
  assumes "i < length (co_rows g)"
  shows "co_rows g ! i =
    (if Suc i < num_marks_without_final g then constant_granularity g
     else if Suc i = num_marks_without_final g then last_mark_granularity g else 0)"
  using assms by (auto simp: co_rows_def nth_append split: if_splits)

lemma co_inv_mult:
  "co_inv g \<Longrightarrow> m < num_marks_without_final g \<Longrightarrow> constant_granularity g * m < size_max"
proof -
  assume "co_inv g" "m < num_marks_without_final g"
  then have "constant_granularity g * m \<le> constant_granularity g * (num_marks_without_final g - 1)"
    by (intro mult_le_mono2) simp
  with \<open>co_inv g\<close> show ?thesis unfolding co_inv_def by linarith
qed

lemma co_sum_rows_lt: "co_inv g \<Longrightarrow> sum_list (co_rows g) < size_max"
  by (simp add: co_sum_rows co_inv_def)

lemma co_getMarksCount_eq: "co_inv g \<Longrightarrow> co_getMarksCount g = length (co_rows g)"
  by (auto simp: co_getMarksCount_def co_length_rows co_inv_def size_t_simps)

lemma co_getTotalRows_eq: "co_inv g \<Longrightarrow> co_getTotalRows g = sum_list (co_rows g)"
  using co_inv_mult [of g "num_marks_without_final g - 1"]
  by (auto simp: co_getTotalRows_def co_sum_rows co_inv_def size_t_simps Suc_leI)

section \<open>Each operation against the rows\<close>

lemma co_getMarkRows_eq:
  "co_inv g \<Longrightarrow>
     co_getMarkRows g i = (if i < length (co_rows g) then Inr (co_rows g ! i) else Inl LOGICAL_ERROR)"
  by (auto simp: co_getMarkRows_def co_getMarksCount_eq co_nth_rows co_length_rows co_inv_def size_t_simps)

lemma co_getRowsCountInRange_eq:
  assumes "co_inv g" "b \<le> e" "e \<le> length (co_rows g)" "b < num_marks_without_final g \<or> e = 0"
  shows "co_getRowsCountInRange g b e = Inr (rows_before (co_rows g) e - rows_before (co_rows g) b)"
proof -
  let ?c = "constant_granularity g" and ?n = "num_marks_without_final g"
  consider "e = 0" | "0 < e" "e < ?n" | "0 < e" "?n \<le> e" "b < ?n" using assms(4) by fastforce
  then show ?thesis
  proof cases
    case 1
    with assms show ?thesis by (simp add: co_getRowsCountInRange_def co_getMarksCount_eq)
  next
    case 2
    have "?c * (e - b) \<le> ?c * e" "?c * e < size_max"
      using co_inv_mult [OF assms(1) 2(2)] by simp_all
    then have lt: "?c * (e - b) < size_max" by linarith
    have "e < size_max" using 2 assms(1) by (simp add: co_inv_def)
    with assms 2 lt show ?thesis
      by (simp add: co_getRowsCountInRange_def co_getMarksCount_eq co_rows_before size_t_simps
          diff_mult_distrib2)
  next
    case 3
    have le: "?c * (?n - 1 - b) + ?c * b = ?c * (?n - 1)"
      using 3 by (simp flip: add_mult_distrib2)
    have lt: "?c * (?n - 1) + last_mark_granularity g < size_max"
      using assms(1) by (simp add: co_inv_def)
    have "?c * (?n - 1 - b) < size_max" "last_mark_granularity g + ?c * (?n - 1 - b) < size_max"
      using le lt by linarith+
    moreover have "?n - 1 < size_max" "b \<le> ?n - 1" "1 \<le> ?n" "?n < size_max"
      using 3 assms(1) by (auto simp: co_inv_def)
    then have "sub64 ?n 1 = ?n - 1" "sub64 (?n - 1) b = ?n - 1 - b"
      by (simp_all only: sub64_exact)
    ultimately show ?thesis
      using assms 3 le
      by (simp add: co_getRowsCountInRange_def co_getMarksCount_eq co_rows_before co_sum_rows
          add64_exact mul64_exact)
  qed
qed

lemma div_granule:
  fixes c :: nat
  assumes "0 < c"
  shows "c * (row div c) \<le> row" "row < c * Suc (row div c)"
  using assms dividend_less_times_div [of c row] by simp_all

lemma co_getMarkRangeForRowOffset_eq:
  assumes "co_inv g" "row < sum_list (co_rows g)"
  shows "\<exists>i < length (co_rows g). co_getMarkRangeForRowOffset g row = MarkRange i (Suc i)
    \<and> rows_before (co_rows g) i \<le> row \<and> row < rows_before (co_rows g) (Suc i)"
proof -
  let ?c = "constant_granularity g" and ?n = "num_marks_without_final g"
  have n: "0 < ?n" and c: "0 < ?c" and nmax: "Suc ?n < size_max"
    using assms by (auto simp: co_sum_rows co_inv_def split: if_splits)
  have sub: "sub64 ?n 1 = ?n - 1" using n nmax by (intro sub64_exact) auto
  have mul: "mul64 ?c (?n - 1) = ?c * (?n - 1)"
    using co_inv_mult [of g "?n - 1"] assms(1) n by (intro mul64_exact) simp
  show ?thesis
  proof (cases "row < ?c * (?n - 1)")
    case True
    let ?i = "row div ?c"
    have i: "?i < ?n - 1" using True c by (simp add: less_mult_imp_div_less mult.commute)
    then have add: "add64 ?i 1 = Suc ?i" using nmax by (simp add: add64_exact)
    have in_marks: "?i < ?n" "Suc ?i < ?n" using i by linarith+
    have "rows_before (co_rows g) ?i \<le> row" "row < rows_before (co_rows g) (Suc ?i)"
      using in_marks div_granule [OF c, of row] by (simp_all add: co_rows_before co_length_rows)
    with True i sub mul add show ?thesis
      by (intro exI [of _ ?i]) (simp add: co_getMarkRangeForRowOffset_def co_length_rows Let_def)
  next
    case False
    have add: "add64 (?n - 1) 1 = ?n" using n nmax by (simp add: add64_exact)
    have "rows_before (co_rows g) (?n - 1) \<le> row" "row < rows_before (co_rows g) (Suc (?n - 1))"
      using n False assms(2) by (simp_all add: co_rows_before co_length_rows)
    with False n sub mul add show ?thesis
      by (intro exI [of _ "?n - 1"]) (simp add: co_getMarkRangeForRowOffset_def co_length_rows Let_def)
  qed
qed

lemma co_getMarkUpperBoundForRow_eq:
  assumes "co_inv g" "0 < num_marks_without_final g"
  shows "co_getMarkUpperBoundForRow g pos = marks_ending_by (co_rows g) pos"
proof -
  let ?c = "constant_granularity g" and ?n = "num_marks_without_final g"
  have c: "0 < ?c" and nmax: "Suc ?n < size_max"
    using assms by (auto simp: co_inv_def)
  have sub: "sub64 ?n 1 = ?n - 1" using assms(2) nmax by (intro sub64_exact) auto
  have mul: "mul64 (?n - 1) ?c = ?c * (?n - 1)"
    using co_inv_mult [of g "?n - 1"] assms by (simp add: mul64_exact mult.commute)
  note def = co_getMarkUpperBoundForRow_def co_getTotalRows_eq [OF assms(1)] Let_def
  consider (all) "sum_list (co_rows g) \<le> pos"
    | (lastm) "pos < sum_list (co_rows g)" "?c * (?n - 1) \<le> pos"
    | (inner) "pos < sum_list (co_rows g)" "pos < ?c * (?n - 1)"
    by linarith
  then show ?thesis
  proof cases
    case all
    have "marks_ending_by (co_rows g) pos = length (co_rows g)"
      using all rows_before_le_sum [of "co_rows g"] by (intro marks_ending_by_eqI) (auto intro: order_trans)
    with all sub mul assms(1) show ?thesis by (simp add: def co_getMarksCount_eq)
  next
    case lastm
    have "marks_ending_by (co_rows g) pos = ?n - 1"
    proof (rule marks_ending_by_eqI)
      show "rows_before (co_rows g) (Suc i) \<le> pos" if "i < ?n - 1" for i
      proof -
        have "Suc i < ?n" "Suc i \<le> ?n - 1" using that by linarith+
        moreover have "?c * Suc i \<le> pos"
          using mult_le_mono2 [OF \<open>Suc i \<le> ?n - 1\<close>, of ?c] lastm by linarith
        ultimately show ?thesis by (simp add: co_rows_before co_length_rows del: mult_Suc_right)
      qed
    qed (use lastm assms(2) in \<open>auto simp: co_rows_before co_length_rows\<close>)
    with lastm sub mul show ?thesis by (simp add: def)
  next
    case inner
    let ?i = "pos div ?c"
    have i: "?i < ?n - 1" using inner c by (simp add: less_mult_imp_div_less mult.commute)
    have "marks_ending_by (co_rows g) pos = ?i"
    proof (rule marks_ending_by_eqI)
      show "rows_before (co_rows g) (Suc j) \<le> pos" if "j < ?i" for j
      proof -
        have "Suc j < ?n" "Suc j \<le> ?i" using that i by linarith+
        moreover have "?c * Suc j \<le> pos"
          using mult_le_mono2 [OF \<open>Suc j \<le> ?i\<close>, of ?c] div_granule(1) [OF c, of pos] by linarith
        ultimately show ?thesis by (simp add: co_rows_before co_length_rows del: mult_Suc_right)
      qed
      have "Suc ?i < ?n" using i by linarith
      then show "pos < rows_before (co_rows g) (Suc ?i)"
        using div_granule(2) [OF c, of pos]
        by (simp add: co_rows_before co_length_rows del: mult_Suc_right)
    qed (use i in \<open>simp add: co_length_rows\<close>)
    with inner sub mul show ?thesis by (simp add: def)
  qed
qed

lemma co_countMarksForRows_eq:
  assumes "co_inv g" "from \<le> length (co_rows g)" "0 < num_marks_without_final g"
    "rows_before (co_rows g) from + n < size_max"
  shows "co_countMarksForRows g from n =
    Inr (marks_ending_by (co_rows g) (rows_before (co_rows g) from + n) - from)"
proof -
  let ?pos = "rows_before (co_rows g) from + n"
  have "from \<le> marks_ending_by (co_rows g) ?pos"
    using assms by (intro marks_ending_by_ge) auto
  moreover have "marks_ending_by (co_rows g) ?pos < size_max"
    using assms marks_ending_by_le [of "co_rows g" ?pos]
    by (cases "has_final_mark g") (auto simp: co_inv_def co_length_rows)
  ultimately show ?thesis
    using assms
    by (simp add: co_countMarksForRows_def getMarkStartingRow_def co_getRowsCountInRange_eq
        co_getMarkUpperBoundForRow_eq size_t_simps)
qed

lemma co_countRowsForRows_eq:
  assumes "co_inv g" "from < num_marks_without_final g" "offset < co_rows g ! from"
    "co_rows g ! from \<le> offset + n" "rows_before (co_rows g) from + offset + n < size_max"
  shows "co_countRowsForRows g from n offset =
    Inr (rows_before (co_rows g) (marks_ending_by (co_rows g) (rows_before (co_rows g) from + offset + n))
         - rows_before (co_rows g) from - offset)"
proof -
  let ?pos = "rows_before (co_rows g) from + offset + n"
  let ?to = "marks_ending_by (co_rows g) ?pos"
  have fl: "from < length (co_rows g)" using assms by (simp add: co_length_rows)
  have next_row: "rows_before (co_rows g) (Suc from) = rows_before (co_rows g) from + co_rows g ! from"
    using fl by (simp add: rows_before_Suc)
  have to: "Suc from \<le> ?to"
    using assms fl next_row by (intro marks_ending_by_ge) auto
  have mono: "rows_before (co_rows g) (Suc from) \<le> rows_before (co_rows g) ?to"
    using to by (rule rows_before_mono)
  have lt: "rows_before (co_rows g) ?to < size_max"
    using rows_before_le_sum [of "co_rows g" ?to] co_sum_rows_lt [OF assms(1)] by linarith
  have "max 1 ?to = ?to" "?to \<le> length (co_rows g)"
    using to marks_ending_by_le [of "co_rows g" ?pos] by auto
  with assms to fl mono lt next_row show ?thesis
    by (simp add: co_countRowsForRows_def getMarkStartingRow_def co_getRowsCountInRange_eq
        co_getMarkUpperBoundForRow_eq size_t_simps)
qed

lemma co_appendMark_sum:
  assumes "co_inv g" "co_appendMark g r = Inr g'" "sum_list (co_rows g) + r < size_max"
    "Suc (Suc (length (co_rows g))) < size_max"
  shows "co_inv g' \<and> sum_list (co_rows g') = sum_list (co_rows g) + r
    \<and> length (co_rows g') = Suc (length (co_rows g))"
proof (cases "r = 0")
  case True
  with assms show ?thesis
    by (auto simp: co_appendMark_def co_inv_def co_sum_rows co_length_rows split: if_splits)
next
  case False
  let ?c = "constant_granularity g" and ?n = "num_marks_without_final g"
  have r: "r = ?c" and nf: "\<not> has_final_mark g"
    and g': "g' = g\<lparr>num_marks_without_final := Suc ?n\<rparr>"
    using assms False by (auto simp: co_appendMark_def co_length_rows size_t_simps split: if_splits)
  have len: "Suc (Suc ?n) < size_max"
    using assms(4) by (simp add: co_length_rows)
  have "?c * ?n = ?c * (?n - 1) + ?c" if "0 < ?n"
    using that by (cases ?n) auto
  then show ?thesis
    using assms(1,3) r nf g' len
    by (cases "?n = 0") (auto simp: co_inv_def co_sum_rows co_length_rows)
qed

lemma co_adjustLastMark_rows:
  assumes "co_inv g" "\<not> has_final_mark g" "0 < r" "sum_list (co_rows g) + r < size_max"
  shows "\<exists>g'. co_adjustLastMark g r = Inr g' \<and> co_inv g' \<and> co_rows g' = butlast (co_rows g) @ [r]"
proof (cases "num_marks_without_final g = 0")
  case True
  with assms show ?thesis
    by (auto simp: co_adjustLastMark_def co_inv_def co_rows_def size_max_def size_t_simps)
next
  case False
  with assms show ?thesis
    by (auto simp: co_adjustLastMark_def co_inv_def co_rows_def sum_list_replicate mult.commute)
qed

section \<open>The contract\<close>

interpretation const: index_granularity co_inv co_rows co_getMarksCount co_getTotalRows
  has_final_mark co_getMarkRows co_getRowsCountInRange co_getMarkRangeForRowOffset
  co_countMarksForRows co_countRowsForRows co_appendMark co_adjustLastMark
proof (unfold_locales, goal_cases)
  case (1 g)
  then show ?case by (simp add: co_sum_rows_lt) (auto simp: co_inv_def co_length_rows)
next
  case (7 g b e)
  then show ?case by (intro co_getRowsCountInRange_eq) (auto simp: co_data_marks)
next
  case (8 g row)
  then show ?case by (intro co_getMarkRangeForRowOffset_eq)
next
  case (10 g "from" offset n)
  then show ?case by (intro co_countRowsForRows_eq) (auto simp: co_data_marks)
next
  case (11 g r g')
  then show ?case by (intro co_appendMark_sum)
next
  case (13 g r)
  then show ?case by (intro co_adjustLastMark_rows)
qed (auto simp: co_getMarksCount_eq co_getTotalRows_eq co_ends_in_final co_getMarkRows_eq
    co_getRowsCountInRange_def co_data_marks co_countMarksForRows_eq co_appendMark_def co_adjustLastMark_def)

section \<open>Conversion of an adaptive granularity\<close>

lemma optimize_scan_eq:
  assumes "ad_inv g" "n \<le> length (ad_rows g)"
  shows "optimize_scan g f i n = Inr (\<forall>j \<in> {i..<n}. ad_rows g ! j = f)"
  using assms
proof (induction g f i n rule: optimize_scan.induct)
  case (1 g f i n)
  show ?case
  proof (cases "i < n")
    case True
    then have "{i..<n} = insert i {Suc i..<n}" by auto
    with True 1 show ?thesis
      by (auto simp: optimize_scan.simps [of g f i n] ad_getMarkRows_eq)
  next
    case False
    then show ?thesis by (simp add: optimize_scan.simps [of g f i n])
  qed
qed

text \<open>The rows of the converted granularity are the rows of the original.\<close>

lemma data_rows_split:
  assumes "0 < data_marks rows"
  shows "rows = take (data_marks rows - 1) rows @ [rows ! (data_marks rows - 1)]
    @ (if ends_in_final rows then [0] else [])"
proof (cases "ends_in_final rows")
  case True
  then obtain xs where xs: "rows = xs @ [0]"
    by (metis append_butlast_last_id ends_in_final_def)
  with True have d: "data_marks rows = length xs" by (simp add: data_marks_def)
  with assms xs show ?thesis
    using True by (simp add: nth_append flip: take_Suc_conv_app_nth)
next
  case False
  then have d: "data_marks rows = length rows" by (simp add: data_marks_def)
  with assms False show ?thesis
    by (simp flip: take_Suc_conv_app_nth)
qed

lemma ad_optimize_Some:
  assumes "ad_inv g" "ad_optimize g = Inr (Some c)" "Suc (length (sums g)) < size_max"
  shows "co_inv c \<and> co_rows c = ad_rows g"
proof -
  let ?rows = "ad_rows g" and ?n = "data_marks (ad_rows g)"
  have n: "getMarksCountWithoutFinal (ad_getMarksCount g) (ad_hasFinalMark g) = ?n"
    using assms(1) by (rule adaptive.data_marks_eq)
  have n_le: "?n \<le> length ?rows" by (rule data_marks_le)
  have n_pos: "0 < ?n"
    using assms(2) by (auto simp: ad_optimize_def n Let_def split: if_splits)
  have sub: "sub64 ?n 1 = ?n - 1"
    using n_pos n_le assms(3) sub64_exact [of 1 ?n] by simp
  have idx: "?n - 1 < length ?rows" "0 < length ?rows" "?n - 1 \<le> length ?rows"
    using n_pos n_le by linarith+
  have all: "\<forall>j \<in> {Suc 0..<?n - 1}. ?rows ! j = ?rows ! 0"
    and c: "c = Constant4 (?rows ! 0) (?rows ! (?n - 1)) ?n (ends_in_final ?rows)"
    using assms(2) n_pos idx unfolding ad_optimize_def n Let_def sub
    by (auto simp: ad_getMarkRows_eq [OF assms(1)] optimize_scan_eq [OF assms(1)]
        ad_hasFinalMark_eq [OF assms(1)] split: if_splits)
  have "take (?n - 1) ?rows = replicate (?n - 1) (?rows ! 0)"
  proof (rule nth_equalityI)
    fix i assume "i < length (take (?n - 1) ?rows)"
    then show "take (?n - 1) ?rows ! i = replicate (?n - 1) (?rows ! 0) ! i"
      using all by (cases "i = 0") auto
  qed (use idx in simp)
  then have rows: "co_rows c = ?rows"
    using data_rows_split [OF n_pos] n_pos by (simp add: c co_rows_def)
  have pos: "0 < ?rows ! i" if "i < ?n" for i
  proof (cases "ends_in_final ?rows")
    case True
    then have "i < length (butlast ?rows)" using that by (simp add: data_marks_def)
    then show ?thesis using assms(1) nth_butlast [of i ?rows] by (metis ad_inv_def nth_mem)
  next
    case False
    show ?thesis
    proof (cases "i = length ?rows - 1")
      case True
      with False idx show ?thesis by (auto simp: ends_in_final_def last_conv_nth)
    next
      case ne: False
      then have "i < length (butlast ?rows)" using that n_le by simp
      then show ?thesis using assms(1) nth_butlast [of i ?rows] by (metis ad_inv_def nth_mem)
    qed
  qed
  have "Suc ?n < size_max" using n_le assms(3) by simp
  moreover have "sum_list (co_rows c) < size_max"
    using rows ad_sum_rows_lt [OF assms(1)] by simp
  then have "?rows ! 0 * (?n - 1) + ?rows ! (?n - 1) < size_max"
    using n_pos by (simp add: co_sum_rows c)
  ultimately have "co_inv c"
    using n_pos pos [of 0] pos [of "?n - 1"] by (simp add: co_inv_def c)
  with rows show ?thesis by simp
qed

lemma mark_of_row_unique:
  assumes "rows_before rows i \<le> row" "row < rows_before rows (Suc i)"
    "rows_before rows j \<le> row" "row < rows_before rows (Suc j)"
  shows "i = j"
  using assms rows_before_mono [of "Suc i" j rows] rows_before_mono [of "Suc j" i rows]
  by (cases i j rule: linorder_cases) auto



end
