(* ===== verification/Granularity_Results.thy ===== *)
theory Granularity_Results
  imports Granularity_Constant
begin

text \<open>
  Results about the two granularity classes that rest on the contract: the mark of a row, row
  counts of adjacent ranges, the repair of a constant granularity from the row count, and two
  behaviours of the code that differ from its intention (the count of the rows of the final mark
  in the constant class, and the rewritten \<open>addRowsToLastMark\<close>).
\<close>

section \<open>Marks and rows\<close>

text \<open>
  In the adaptive class the mark range returned for a row offset is a single existing mark, and
  that mark's rows, as \<open>getMarkStartingRow\<close> measures them, contain the offset.
\<close>

theorem getMarkRangeForRowOffset_contains_row:
  assumes "ad_inv g" "row < ad_getTotalRows g" "r = ad_getMarkRangeForRowOffset g row"
  shows "\<exists>first next. range_end r = Suc (range_begin r) \<and> range_begin r < ad_getMarksCount g
    \<and> getMarkStartingRow (ad_getRowsCountInRange g) (range_begin r) = Inr first
    \<and> getMarkStartingRow (ad_getRowsCountInRange g) (range_end r) = Inr next
    \<and> first \<le> row \<and> row < next"
  using adaptive.range_for_row_starting_row [OF assms(1,2)] assms(3) by (metis MarkRange_sel(2))

theorem getMarkRangeForRowOffset_contains_row_witness:
  "\<exists>first next. getMarkStartingRow (ad_getRowsCountInRange \<lparr>marks_rows_partial_sums = [5, 8, 12, 16]\<rparr>) 2 = Inr first
     \<and> getMarkStartingRow (ad_getRowsCountInRange \<lparr>marks_rows_partial_sums = [5, 8, 12, 16]\<rparr>) 3 = Inr next
     \<and> first \<le> 9 \<and> 9 < next"
proof -
  let ?g = "\<lparr>marks_rows_partial_sums = [5, 8, 12, 16]\<rparr>"
  have "ad_inv ?g" by (simp add: ad_inv_def ad_rows_def size_max_def)
  moreover have "9 < ad_getTotalRows ?g" by (simp add: ad_getTotalRows_def)
  moreover have "ad_getMarkRangeForRowOffset ?g 9 = MarkRange 2 3"
    by (simp add: ad_getMarkRangeForRowOffset_def lower_bound_def size_t_eval)
  ultimately show ?thesis
    using getMarkRangeForRowOffset_contains_row [of ?g 9 "MarkRange 2 3"] by auto
qed

text \<open>
  In the constant class, row counts of adjacent mark ranges add up to the row count of their
  union, and the count over all marks is the total number of rows.
\<close>

theorem constant_rows_in_range_additive:
  assumes "co_inv g" "a \<le> b" "b \<le> e" "e \<le> co_getMarksCount g" "b < num_marks_without_final g"
  shows "\<exists>x y. co_getRowsCountInRange g a b = Inr x \<and> co_getRowsCountInRange g b e = Inr y
    \<and> co_getRowsCountInRange g a e = Inr (x + y)
    \<and> co_getRowsCountInRange g 0 (co_getMarksCount g) = Inr (co_getTotalRows g)"
proof -
  have e: "e \<le> length (co_rows g)" using assms by (simp add: co_getMarksCount_eq)
  have d: "data_marks (co_rows g) = num_marks_without_final g"
    using assms(1) by (rule co_data_marks)
  obtain x where x: "co_getRowsCountInRange g a b = Inr x"
    using assms e d const.rows_in_range [of g a b] by auto
  obtain y where y: "co_getRowsCountInRange g b e = Inr y"
    using assms e d const.rows_in_range [of g b e] by auto
  have "co_getRowsCountInRange g 0 (co_getMarksCount g) = Inr (co_getTotalRows g)"
    using assms d by (simp add: const.rows_in_range const.marks_count const.total_rows)
  then show ?thesis
    using const.rows_in_range_additive [OF assms(1-3) e _ x y] assms(5) d x y by auto
qed

theorem constant_rows_in_range_additive_witness:
  "\<exists>x y. co_getRowsCountInRange (Constant4 8192 100 4 True) 1 3 = Inr x
     \<and> co_getRowsCountInRange (Constant4 8192 100 4 True) 3 5 = Inr y
     \<and> co_getRowsCountInRange (Constant4 8192 100 4 True) 1 5 = Inr (x + y)"
  using constant_rows_in_range_additive [of "Constant4 8192 100 4 True" 1 3 5]
  by (auto simp: co_inv_def size_t_eval co_getMarksCount_def)

section \<open>Repair from the row count\<close>

lemma ceil_div_bounds:
  fixes c n :: nat
  assumes "0 < c" "0 < n" "k = (n + c - 1) div c"
  shows "0 < k" "c * (k - 1) < n" "n \<le> c * k"
proof -
  have "c * k \<le> n + c - 1" "n + c - 1 < c * k + c"
    using assms dividend_less_times_div [of c "n + c - 1"] by simp_all
  moreover have "0 < k" using assms by (simp add: div_greater_zero_iff)
  moreover have "c * (k - 1) = c * k - c" by (simp add: diff_mult_distrib2)
  moreover have "c \<le> c * k" using \<open>0 < k\<close> by simp
  ultimately show "0 < k" "c * (k - 1) < n" "n \<le> c * k"
    using assms by linarith+
qed

text \<open>
  A constant granularity loaded from the mark count of a non-adaptive part, with or without
  a final mark, is repaired by \<open>fixFromRowsCount\<close>: the total becomes the part's row count, the
  number of marks stays, the final mark is recognised exactly when there is one mark too many,
  and the last data mark has between one row and the full granularity.
\<close>

theorem fixFromRowsCount_restores_total:
  assumes "constant_granularity g = c" "0 < c" "\<not> has_final_mark g" "0 < rows_count"
    "rows_count + c < size_max"
    "num_marks_without_final g = data + of_bool final" "data = (rows_count + c - 1) div c"
  shows "\<exists>g'. co_fixFromRowsCount g rows_count = Inr g' \<and> co_getTotalRows g' = rows_count
    \<and> co_getMarksCount g' = num_marks_without_final g \<and> has_final_mark g' = final
    \<and> num_marks_without_final g' = data
    \<and> 0 < last_mark_granularity g' \<and> last_mark_granularity g' \<le> c"
proof -
  note k = ceil_div_bounds [OF assms(2,4,7)]
  have data_lt: "data < size_max" "Suc data < size_max"
  proof -
    have "data - 1 \<le> c * (data - 1)" using assms(2) by simp
    then have "data \<le> rows_count" using k(1,2) by linarith
    then show "data < size_max" "Suc data < size_max" using assms(2,5) by linarith+
  qed
  have full: "c * (data - 1) < size_max" using k(2) assms(5) by linarith
  have expected: "sub64 (add64 rows_count c) 1 div c = data"
    using assms by (simp add: size_t_simps)
  let ?g' = "g\<lparr>num_marks_without_final := data, has_final_mark := final,
      last_mark_granularity := rows_count - c * (data - 1)\<rparr>"
  have sub: "sub64 data 1 = data - 1" and sub': "sub64 data (Suc 0) = data - 1"
    using k(1) data_lt by (simp_all add: size_t_simps Suc_leI)
  have last_rows: "sub64 rows_count (c * (data - 1)) = rows_count - c * (data - 1)"
    using k(2) assms(5) by (simp add: size_t_simps)
  have "co_fixFromRowsCount g rows_count = Inr ?g'"
    using assms(1-4,6) k expected sub full last_rows
    by (cases g; cases final) (auto simp: co_fixFromRowsCount_def Let_def mul64_exact mult.commute)
  moreover have "co_getTotalRows ?g' = rows_count"
    using k full assms(1,2,5) sub' by (simp add: co_getTotalRows_def mul64_exact add64_exact)
  moreover have "co_getMarksCount ?g' = num_marks_without_final g"
    using assms(6) data_lt by (cases final) (simp_all add: co_getMarksCount_def add64_exact)
  moreover have "rows_count - c * (data - 1) \<le> c"
    using k by (cases data) auto
  ultimately show ?thesis using k(2) by simp
qed

theorem fixFromRowsCount_restores_total_witness:
  "\<exists>g'. co_fixFromRowsCount (Constant4 8192 8192 4 False) 20000 = Inr g' \<and> co_getTotalRows g' = 20000
     \<and> has_final_mark g'"
proof -
  have "\<exists>g'. co_fixFromRowsCount (Constant4 8192 8192 4 False) 20000 = Inr g' \<and> co_getTotalRows g' = 20000
      \<and> co_getMarksCount g' = num_marks_without_final (Constant4 8192 8192 4 False)
      \<and> has_final_mark g' = True \<and> num_marks_without_final g' = 3
      \<and> 0 < last_mark_granularity g' \<and> last_mark_granularity g' \<le> 8192"
    by (rule fixFromRowsCount_restores_total) (simp_all add: size_max_def)
  then show ?thesis by blast
qed

section \<open>Where the code differs from its intention\<close>

lemma mult_pred_mod:
  fixes c m :: nat
  assumes "0 < c" "c < m"
  shows "c * (m - 1) mod m = m - c"
proof -
  obtain d where d: "c = Suc d" using assms(1) by (cases c) auto
  obtain e where e: "m = c + e" using assms(2) less_imp_add_positive by blast
  have "c * (m - 1) = e + d * m" using d e by (simp add: algebra_simps)
  moreover have "e < m" using d e by simp
  ultimately show ?thesis using e by (simp del: One_nat_def)
qed

text \<open>
  Asked for the rows of the final mark alone, the constant class answers with \<open>last_mark_granularity -
  constant_granularity\<close> computed modulo \<open>2 ^ 64\<close>, so that it reports the correct count 0
  exactly when the last granule happens to be full.
\<close>

theorem final_mark_row_count_wraps:
  assumes "co_inv g" "has_final_mark g" "0 < num_marks_without_final g"
    "last_mark_granularity g \<le> constant_granularity g" "constant_granularity g < size_max"
  shows "\<exists>n. co_getRowsCountInRange g (num_marks_without_final g) (co_getMarksCount g) = Inr n
    \<and> n = (last_mark_granularity g + (size_max - constant_granularity g)) mod size_max
    \<and> (n = 0 \<longleftrightarrow> last_mark_granularity g = constant_granularity g)"
proof -
  let ?c = "constant_granularity g" and ?n = "num_marks_without_final g" and ?l = "last_mark_granularity g"
  have n: "Suc ?n < size_max" and l: "0 < ?l" and c: "0 < ?c"
    using assms(1) by (auto simp: co_inv_def)
  have sub: "sub64 ?n (Suc 0) = ?n - 1" using n assms(3) by (simp add: size_t_simps Suc_leI)
  have wrap: "sub64 (?n - Suc 0) ?n = size_max - 1"
    using assms(3) n sub64_wraps [of "?n - 1" ?n] by simp
  have "?c * (size_max - 1) mod size_max = size_max - ?c"
    using c assms(5) by (rule mult_pred_mod)
  then have mul: "mul64 ?c (size_max - 1) = size_max - ?c" by (simp add: mul64_def)
  have cnt: "co_getMarksCount g = Suc ?n"
    using assms(2) n by (simp add: co_getMarksCount_def size_t_simps)
  have "co_getRowsCountInRange g ?n (Suc ?n) = Inr (add64 ?l (size_max - ?c))"
    using cnt sub wrap mul by (simp add: co_getRowsCountInRange_def Let_def)
  moreover have "add64 ?l (size_max - ?c) = 0 \<longleftrightarrow> ?l = ?c"
  proof (cases "?l = ?c")
    case True
    then show ?thesis using assms(5) by (simp add: add64_def)
  next
    case False
    then have "?l + (size_max - ?c) < size_max" using assms(4,5) by linarith
    with False l show ?thesis by (simp add: add64_exact)
  qed
  ultimately show ?thesis by (simp add: cnt add64_def)
qed

theorem final_mark_row_count_wraps_witness:
  "co_getRowsCountInRange (Constant4 8192 100 3 True) 3 4 = Inr (2 ^ 64 - 8092)"
proof -
  let ?g = "Constant4 8192 100 3 True"
  have "\<exists>n. co_getRowsCountInRange ?g 3 (co_getMarksCount ?g) = Inr n
      \<and> n = (100 + (size_max - 8192)) mod size_max \<and> (n = 0 \<longleftrightarrow> (100::nat) = 8192)"
    using final_mark_row_count_wraps [of ?g] by (simp add: co_inv_def size_max_def)
  then show ?thesis by (simp add: co_getMarksCount_def size_t_eval)
qed

lemma append_marks_of_128_rows:
  assumes "ad_inv g" "\<not> ends_in_final (ad_rows g)" "sum_list (ad_rows g) + n < size_max"
    "length (ad_rows g) + n + 2 < size_max"
  shows "\<exists>g'. append_marks_of_128 ad_appendMark g n = Inr (g', n mod 128) \<and> ad_inv g'
    \<and> ad_rows g' = ad_rows g @ replicate (n div 128) 128"
  using assms
proof (induction "n div 128" arbitrary: g n)
  case 0
  then show ?case by (simp add: append_marks_of_128.simps [of _ _ n] div_eq_0_iff)
next
  case (Suc k)
  then have n: "128 \<le> n" "(n - 128) div 128 = k" "(n - 128) mod 128 = n mod 128"
    by (auto simp: le_div_geq le_mod_geq)
  obtain h where h: "ad_appendMark g 128 = Inr h"
    using Suc.prems ad_appendMark_ok [of g 128] by (auto simp: ad_hasFinalMark_eq)
  then have inv: "ad_inv h \<and> ad_rows h = ad_rows g @ [128]"
    using Suc.prems n by (intro ad_appendMark_rows [of g 128 h]) auto
  then have "\<exists>g'. append_marks_of_128 ad_appendMark h (n - 128) = Inr (g', (n - 128) mod 128) \<and> ad_inv g'
      \<and> ad_rows g' = ad_rows h @ replicate ((n - 128) div 128) 128"
    using Suc.prems n by (intro Suc.hyps(1)) (auto simp: ends_in_final_def simp del: length_ad_rows)
  moreover have "replicate (n div 128) (128::nat) = 128 # replicate ((n - 128) div 128) 128"
    using n(2) by (simp flip: Suc.hyps(2))
  ultimately show ?case
    using n h inv by (auto simp: append_marks_of_128.simps [of _ g n])
qed

text \<open>
  \<open>addRowsToLastMark\<close> as the experiment rewrote it. As long as the last mark stays below 128
  rows the added rows are counted once; as soon as marks of 128 rows are appended, the rows already
  in the last mark are counted a second time and a full granule is lost when a remainder replaces it,
  so the total is wrong unless the last mark held no rows or exactly 128.
\<close>

theorem addRowsToLastMark_total:
  assumes "ad_inv g" "\<not> ad_hasFinalMark g" "sums g \<noteq> []" "k = last (ad_rows g)" "0 < r"
    "sum_list (ad_rows g) + 2 * (k + r) < size_max" "length (sums g) + k + r + 2 < size_max"
  shows "\<exists>g'. addRowsToLastMark ad_getMarksCount ad_getMarkRows ad_appendMark ad_adjustLastMark g r = Inr g'
    \<and> ad_getTotalRows g' =
        (if k + r < 128 then ad_getTotalRows g + r
         else if (k + r) mod 128 = 0 then ad_getTotalRows g + k + r
         else ad_getTotalRows g + k + r - 128)"
proof -
  let ?n = "k + r"
  have nf: "\<not> ends_in_final (ad_rows g)" using assms(1,2) by (simp add: ad_hasFinalMark_eq)
  have cur: "getLastMarkRows (ad_getMarksCount g) (ad_getMarkRows g) = Inr k"
    using adaptive.last_mark_rows [OF assms(1)] assms(3,4) by simp
  obtain h where h: "append_marks_of_128 ad_appendMark g ?n = Inr (h, ?n mod 128)" "ad_inv h"
      "ad_rows h = ad_rows g @ replicate (?n div 128) 128"
    using append_marks_of_128_rows [OF assms(1) nf, of ?n] assms(6,7) by auto
  have hne: "sums h \<noteq> []" using h(3) assms(3) by (metis Nil_is_append_conv ad_rows_eq_Nil)
  have sumh: "sum_list (ad_rows h) = sum_list (ad_rows g) + 128 * (?n div 128)"
    by (simp add: h(3) sum_list_replicate)
  have div: "128 * (?n div 128) + ?n mod 128 = ?n" by simp
  have start: "addRowsToLastMark ad_getMarksCount ad_getMarkRows ad_appendMark ad_adjustLastMark g r =
      (if 0 < ?n mod 128 then ad_adjustLastMark h (?n mod 128) else Inr h)"
    using cur h(1) hne assms(3,6) by (simp add: addRowsToLastMark_def ad_getMarksCount_def size_t_simps)
  show ?thesis
  proof (cases "?n mod 128 = 0")
    case True
    moreover have "\<not> ?n < 128" using True assms(5) by (metis add_is_0 mod_less not_gr_zero)
    ultimately show ?thesis
      using start sumh div h(2) assms(1) by (simp add: adaptive.total_rows)
  next
    case False
    have "\<not> ends_in_final (ad_rows h)"
      using nf by (auto simp: h(3) ends_in_final_def last_append last_replicate)
    then have "\<not> ad_hasFinalMark h" using h(2) by (simp add: ad_hasFinalMark_eq)
    then obtain g' where g': "ad_adjustLastMark h (?n mod 128) = Inr g'" "ad_inv g'"
        "ad_rows g' = butlast (ad_rows h) @ [?n mod 128]"
      using ad_adjustLastMark_rows [OF h(2), of "?n mod 128"] False sumh div assms(6) by auto
    have split_last: "sum_list (butlast (ad_rows h)) + last (ad_rows h) = sum_list (ad_rows h)"
      using hne by (metis ad_rows_eq_Nil append_butlast_last_id sum_list.Cons sum_list.Nil sum_list_append add_0_right)
    have last_h: "last (ad_rows h) = (if ?n < 128 then k else 128)"
      using assms(3,4) by (auto simp: h(3) last_append last_replicate)
    have "sum_list (ad_rows g') = sum_list (butlast (ad_rows h)) + ?n mod 128"
      using g'(3) by simp
    then have "sum_list (ad_rows g') = (if ?n < 128 then sum_list (ad_rows g) + r
        else sum_list (ad_rows g) + k + r - 128)"
    proof (cases "?n < 128")
      case True
      then show ?thesis
        using \<open>sum_list (ad_rows g') = _\<close> split_last last_h sumh by simp
    next
      case nlt: False
      then have "sum_list (butlast (ad_rows h)) + ?n mod 128 = sum_list (ad_rows g) + k + r - 128"
        using split_last last_h sumh div by (simp only: if_False)
      with nlt \<open>sum_list (ad_rows g') = _\<close> show ?thesis by simp
    qed
    then show ?thesis
      using start g' False assms(1) by (simp add: adaptive.total_rows)
  qed
qed

theorem addRowsToLastMark_total_witness:
  "\<exists>g'. addRowsToLastMark ad_getMarksCount ad_getMarkRows ad_appendMark ad_adjustLastMark
          \<lparr>marks_rows_partial_sums = [100]\<rparr> 100 = Inr g'
     \<and> ad_getTotalRows \<lparr>marks_rows_partial_sums = [100]\<rparr> + 100 = 200 \<and> ad_getTotalRows g' = 172"
proof -
  let ?g = "\<lparr>marks_rows_partial_sums = [100]\<rparr>"
  have "ad_inv ?g" "\<not> ad_hasFinalMark ?g"
    by (simp_all add: ad_inv_def ad_rows_def size_max_def ad_hasFinalMark_def getLastMarkRows_def
        ad_getMarksCount_def ad_getMarkRows_def size_t_eval)
  then show ?thesis
    using addRowsToLastMark_total [of ?g 100 100]
    by (simp add: ad_rows_def ad_getTotalRows_def size_max_def)
qed

end
