(* ===== verification/Part_Info.thy ===== *)
theory Part_Info
  imports Mark_Range "HOL-Library.Monad_Syntax"
begin

text \<open>
  \<open>MergeTreePartInfo.h\<close> and \<open>MergeTreePartInfo.cpp\<close>: the identity of a data part (partition,
  block range, level, mutation), its order, the containment and disjointness tests on which the
  set of active parts rests, part names and their parser, detached names and the binary form.

  A string buffer is the list of its remaining bytes; \<open>eof\<close>, \<open>readChar\<close> and \<open>checkChar\<close> are the
  list operations. Reading and writing of integers as text, which is not part of the repository,
  is the parameter \<open>text_io\<close>.
\<close>

section \<open>The record and its order\<close>

datatype part_kind = Regular | Patch

instantiation part_kind :: linorder
begin

definition less_part_kind :: "part_kind \<Rightarrow> part_kind \<Rightarrow> bool" where
  "less_part_kind a b \<longleftrightarrow> a = Regular \<and> b = Patch"

definition less_eq_part_kind :: "part_kind \<Rightarrow> part_kind \<Rightarrow> bool" where
  "less_eq_part_kind a b \<longleftrightarrow> a = b \<or> a = Regular"

instance
proof
  fix a b c :: part_kind
  show "a < b \<longleftrightarrow> a \<le> b \<and> \<not> b \<le> a"
    by (cases a; cases b) (auto simp: less_part_kind_def less_eq_part_kind_def)
  show "a \<le> a" by (simp add: less_eq_part_kind_def)
  show "a \<le> b \<Longrightarrow> b \<le> c \<Longrightarrow> a \<le> c" by (auto simp: less_eq_part_kind_def)
  show "a \<le> b \<Longrightarrow> b \<le> a \<Longrightarrow> a = b" by (auto simp: less_eq_part_kind_def)
  show "a \<le> b \<or> b \<le> a" by (cases a; cases b) (auto simp: less_eq_part_kind_def)
qed

end

record part_info =
  kind :: part_kind
  partition_id :: string
  min_block :: int
  max_block :: int
  level :: nat
  mutation :: int
  use_legacy_max_level :: bool

definition MAX_LEVEL :: nat where "MAX_LEVEL = 999999999"

definition LEGACY_MAX_LEVEL :: nat where "LEGACY_MAX_LEVEL = 4294967295"

definition PATCH_PART_PREFIX :: string where "PATCH_PART_PREFIX = ''patch-''"

definition PATCH_PART_PREFIX_SIZE :: nat where
  "PATCH_PART_PREFIX_SIZE = length PATCH_PART_PREFIX + 32 + 1"

definition starts_with :: "string \<Rightarrow> string \<Rightarrow> bool" where
  "starts_with s p \<longleftrightarrow> take (length p) s = p"

definition getKind :: "string \<Rightarrow> part_kind" where
  "getKind pid = (if starts_with pid PATCH_PART_PREFIX then Patch else Regular)"

definition default_info :: part_info where
  "default_info = \<lparr>kind = Regular, partition_id = [], min_block = 0, max_block = 0, level = 0,
     mutation = 0, use_legacy_max_level = False\<rparr>"

definition PartInfo :: "string \<Rightarrow> int \<Rightarrow> int \<Rightarrow> nat \<Rightarrow> int \<Rightarrow> part_info" where
  "PartInfo pid mn mx l m = \<lparr>kind = getKind pid, partition_id = pid, min_block = mn, max_block = mx,
     level = l, mutation = m, use_legacy_max_level = False\<rparr>"

definition setPartitionId :: "string \<Rightarrow> part_info \<Rightarrow> part_info" where
  "setPartitionId pid i = i\<lparr>kind := getKind pid, partition_id := pid\<rparr>"

definition isPatch :: "part_info \<Rightarrow> bool" where
  "isPatch i \<longleftrightarrow> kind i = Patch"

text \<open>\<open>toTuple\<close>, and the comparisons the class defines by it.\<close>

definition toTuple :: "part_info \<Rightarrow> part_kind \<times> string \<times> int \<times> int \<times> nat \<times> int" where
  "toTuple i = (kind i, partition_id i, min_block i, max_block i, level i, mutation i)"

definition info_less :: "part_info \<Rightarrow> part_info \<Rightarrow> bool" where
  "info_less a b \<longleftrightarrow> toTuple a < toTuple b"

definition info_eq :: "part_info \<Rightarrow> part_info \<Rightarrow> bool" where
  "info_eq a b \<longleftrightarrow> toTuple a = toTuple b"

definition getDataVersion :: "part_info \<Rightarrow> int" where
  "getDataVersion i = (if mutation i \<noteq> 0 then mutation i else min_block i)"

definition getMutationVersion :: "part_info \<Rightarrow> int" where
  "getMutationVersion i = mutation i"

definition contains :: "part_info \<Rightarrow> part_info \<Rightarrow> bool" where
  "contains i rhs \<longleftrightarrow>
     (let strictly_contains_block_range =
            (min_block i = min_block rhs \<and> max_block i = max_block rhs)
            \<or> level i > level rhs \<or> level i = MAX_LEVEL \<or> level i = LEGACY_MAX_LEVEL
      in partition_id i = partition_id rhs
         \<and> min_block i \<le> min_block rhs \<and> max_block i \<ge> max_block rhs
         \<and> level i \<ge> level rhs \<and> mutation i \<ge> mutation rhs
         \<and> strictly_contains_block_range)"

definition isMutationChildOf :: "part_info \<Rightarrow> part_info \<Rightarrow> bool" where
  "isMutationChildOf i parent_candidate \<longleftrightarrow>
     partition_id i = partition_id parent_candidate
     \<and> min_block i = min_block parent_candidate \<and> max_block i = max_block parent_candidate
     \<and> level i = level parent_candidate \<and> mutation i \<ge> mutation parent_candidate"

definition isDisjoint :: "part_info \<Rightarrow> part_info \<Rightarrow> bool" where
  "isDisjoint i rhs \<longleftrightarrow>
     partition_id i \<noteq> partition_id rhs \<or> min_block i > max_block rhs \<or> max_block i < min_block rhs"

definition isFakeDropRangePart :: "part_info \<Rightarrow> bool" where
  "isFakeDropRangePart i \<longleftrightarrow> level i = MAX_LEVEL \<or> level i = LEGACY_MAX_LEVEL"

definition getBlocksCount :: "part_info \<Rightarrow> size_t" where
  "getBlocksCount i = nat ((max_block i - min_block i + 1) mod 2 ^ 64)"

text \<open>
  The well-formedness the class maintains: the kind is the one of the partition id (the two are
  only set together) and the block range is not empty (the parser rejects others).
\<close>

definition wf_info :: "part_info \<Rightarrow> bool" where
  "wf_info i \<longleftrightarrow> kind i = getKind (partition_id i) \<and> min_block i \<le> max_block i"

lemma wf_info_PartInfo [simp]: "wf_info (PartInfo pid mn mx l m) \<longleftrightarrow> mn \<le> mx"
  by (simp add: wf_info_def PartInfo_def)

lemma PartInfo_sel [simp]:
  "partition_id (PartInfo pid mn mx l m) = pid" "min_block (PartInfo pid mn mx l m) = mn"
  "max_block (PartInfo pid mn mx l m) = mx" "level (PartInfo pid mn mx l m) = l"
  "mutation (PartInfo pid mn mx l m) = m" "kind (PartInfo pid mn mx l m) = getKind pid"
  by (simp_all add: PartInfo_def)

section \<open>Containment and disjointness\<close>

lemma contains_refl [simp]: "contains a a"
  by (simp add: contains_def)

lemma contains_trans: "contains a b \<Longrightarrow> contains b c \<Longrightarrow> contains a c"
  by (auto simp: contains_def Let_def)

lemma contains_antisym: "contains a b \<Longrightarrow> contains b a \<Longrightarrow> wf_info a \<Longrightarrow> wf_info b \<Longrightarrow> info_eq a b"
  by (auto simp: contains_def Let_def info_eq_def toTuple_def wf_info_def)

lemma contains_partition: "contains a b \<Longrightarrow> partition_id a = partition_id b"
  by (simp add: contains_def Let_def)

lemma contains_bounds:
  "contains a b \<Longrightarrow> min_block a \<le> min_block b \<and> max_block b \<le> max_block a \<and> level b \<le> level a
     \<and> mutation b \<le> mutation a"
  by (simp add: contains_def Let_def)

lemma isDisjoint_sym: "isDisjoint a b \<longleftrightarrow> isDisjoint b a"
  by (auto simp: isDisjoint_def)

lemma contains_not_disjoint: "contains a b \<Longrightarrow> wf_info b \<Longrightarrow> \<not> isDisjoint a b"
  by (auto simp: contains_def Let_def isDisjoint_def wf_info_def)

lemma disjoint_contained: "isDisjoint a b \<Longrightarrow> contains b c \<Longrightarrow> isDisjoint a c"
  by (auto simp: contains_def Let_def isDisjoint_def)

lemma mutation_child_contained: "isMutationChildOf a b \<Longrightarrow> contains a b"
  by (simp add: isMutationChildOf_def contains_def)

text \<open>
  C3: containment is a partial order on well-formed part infos (up to the comparison of the
  class), a part obtained by mutation contains its source, and containment and disjointness
  exclude each other and propagate to covered parts.
\<close>

theorem contains_is_partial_order:
  assumes "wf_info a" "wf_info b" "wf_info c"
  shows "contains a a
    \<and> (contains a b \<and> contains b c \<longrightarrow> contains a c)
    \<and> (contains a b \<and> contains b a \<longrightarrow> info_eq a b)
    \<and> (isMutationChildOf a b \<longrightarrow> contains a b)
    \<and> (contains a b \<longrightarrow> \<not> isDisjoint a b)
    \<and> (isDisjoint a b \<and> contains b c \<longrightarrow> isDisjoint a c)"
  using assms contains_trans [of a b c] contains_antisym [of a b] mutation_child_contained [of a b]
    contains_not_disjoint [of a b] disjoint_contained [of a b c]
  by simp

theorem contains_is_partial_order_witness:
  "contains (PartInfo ''all'' 0 5 2 9) (PartInfo ''all'' 0 5 1 0)
     \<and> contains (PartInfo ''all'' 0 5 1 0) (PartInfo ''all'' 1 3 0 0)
     \<and> contains (PartInfo ''all'' 0 5 2 9) (PartInfo ''all'' 1 3 0 0)"
  using contains_is_partial_order
    [of "PartInfo ''all'' 0 5 2 9" "PartInfo ''all'' 0 5 1 0" "PartInfo ''all'' 1 3 0 0"]
  by (simp add: contains_def)

end
