(* ===== verification/Part_Name.thy ===== *)
theory Part_Name
  imports Part_Info
begin

text \<open>
  Names of data parts: \<open>tryParsePartName\<close>, \<open>getPartNameV1\<close>,
  \<open>getPartNameV0\<close>, detached names and the binary form of \<open>MergeTreePartInfo\<close>. The
  primitives of the IO library that read and write numbers are the fields of \<open>text_io\<close> and
  \<open>info_io\<close>, the calendar functions those of \<open>date_lut\<close>.
\<close>

section \<open>Primitives outside the repository\<close>

text \<open>
  \<open>tryReadIntText\<close> for \<open>Int64\<close> and \<open>UInt32\<close>, and
  \<open>writeIntText\<close>.
\<close>

record text_io =
  read_i64 :: "string \<Rightarrow> (int \<times> string) option"
  read_u32 :: "string \<Rightarrow> (nat \<times> string) option"
  write_int :: "int \<Rightarrow> string"

text \<open>
  A number that was written is read back up to the separator: the next byte is an underscore or
  the buffer ends.
\<close>

definition at_separator :: "string \<Rightarrow> bool" where
  "at_separator rest \<longleftrightarrow> rest = [] \<or> hd rest = CHR ''_''"

definition text_io_ok :: "text_io \<Rightarrow> bool" where
  "text_io_ok io \<longleftrightarrow>
     (\<forall>i rest. - (2 ^ 63) \<le> i \<and> i < 2 ^ 63 \<and> at_separator rest
        \<longrightarrow> read_i64 io (write_int io i @ rest) = Some (i, rest))
     \<and> (\<forall>n rest. n < 2 ^ 32 \<and> at_separator rest
        \<longrightarrow> read_u32 io (write_int io (int n) @ rest) = Some (n, rest))"

section \<open>Parsing and printing part names\<close>

type_synonym format_version = nat

definition MIN_FORMAT_VERSION_WITH_CUSTOM_PARTITIONING :: format_version where
  "MIN_FORMAT_VERSION_WITH_CUSTOM_PARTITIONING = 1"

text \<open>\<open>checkChar\<close>: consumes the character when it is next.\<close>

definition checkChar :: "char \<Rightarrow> string \<Rightarrow> string option" where
  "checkChar c inp = (case inp of [] \<Rightarrow> None | d # ds \<Rightarrow> if d = c then Some ds else None)"

text \<open>The loop that collects the partition id up to the first underscore.\<close>

fun read_partition_id :: "string \<Rightarrow> string \<times> string" where
  "read_partition_id [] = ([], [])"
| "read_partition_id (c # inp) =
     (if c = CHR ''_'' then ([], inp)
      else let (pid, rest) = read_partition_id inp in (c # pid, rest))"

definition parse_partition :: "text_io \<Rightarrow> format_version \<Rightarrow> string \<Rightarrow> (string \<times> string) option" where
  "parse_partition io fv inp =
     (if fv < MIN_FORMAT_VERSION_WITH_CUSTOM_PARTITIONING
      then do { (min_yyyymmdd, inp) \<leftarrow> read_u32 io inp;
                inp \<leftarrow> checkChar CHR ''_'' inp;
                (max_yyyymmdd, inp) \<leftarrow> read_u32 io inp;
                inp \<leftarrow> checkChar CHR ''_'' inp;
                Some (write_int io (int (min_yyyymmdd div 100)), inp) }
      else Some (read_partition_id inp))"

definition parse_block_range :: "text_io \<Rightarrow> string \<Rightarrow> (int \<times> int \<times> nat \<times> nat) option" where
  "parse_block_range io inp =
     do { (min_block_num, inp) \<leftarrow> read_i64 io inp;
          inp \<leftarrow> checkChar CHR ''_'' inp;
          (max_block_num, inp) \<leftarrow> read_i64 io inp;
          inp \<leftarrow> checkChar CHR ''_'' inp;
          (lev, inp) \<leftarrow> read_u32 io inp;
          if min_block_num > max_block_num then None
          else if inp = [] then Some (min_block_num, max_block_num, lev, 0)
          else do { inp \<leftarrow> checkChar CHR ''_'' inp;
                    (mut, inp) \<leftarrow> read_u32 io inp;
                    if inp \<noteq> [] then None else Some (min_block_num, max_block_num, lev, mut) } }"

definition tryParsePartName :: "text_io \<Rightarrow> string \<Rightarrow> format_version \<Rightarrow> part_info option" where
  "tryParsePartName io part_name fv =
     do { (pid, inp) \<leftarrow> parse_partition io fv part_name;
          if pid = [] then None
          else do { (mn, mx, lev, mut) \<leftarrow> parse_block_range io inp;
                    let legacy = (lev = LEGACY_MAX_LEVEL);
                    Some ((setPartitionId pid default_info)
                      \<lparr>min_block := mn, max_block := mx,
                       use_legacy_max_level := legacy,
                       level := (if legacy then MAX_LEVEL else lev),
                       mutation := int mut\<rparr>) } }"

definition fromPartName :: "text_io \<Rightarrow> string \<Rightarrow> format_version \<Rightarrow> part_info result" where
  "fromPartName io part_name fv =
     (case tryParsePartName io part_name fv of
        Some i \<Rightarrow> Inr i | None \<Rightarrow> Inl BAD_DATA_PART_NAME)"

text \<open>The blocks, level and mutation at the end of both forms of a name.\<close>

definition name_suffix :: "text_io \<Rightarrow> part_info \<Rightarrow> string" where
  "name_suffix io i =
     write_int io (min_block i) @ ''_'' @ write_int io (max_block i) @ ''_''
     @ write_int io (int (if use_legacy_max_level i then LEGACY_MAX_LEVEL else level i))
     @ (if mutation i \<noteq> 0 then ''_'' @ write_int io (mutation i) else [])"

definition getPartNameV1 :: "text_io \<Rightarrow> part_info \<Rightarrow> string" where
  "getPartNameV1 io i = partition_id i @ ''_'' @ name_suffix io i"

definition getPartNameAndCheckFormat :: "text_io \<Rightarrow> part_info \<Rightarrow> format_version \<Rightarrow> string result" where
  "getPartNameAndCheckFormat io i fv =
     (if fv = MIN_FORMAT_VERSION_WITH_CUSTOM_PARTITIONING then Inr (getPartNameV1 io i)
      else Inl BAD_DATA_PART_NAME)"

definition getPartNameForLogs :: "text_io \<Rightarrow> part_info \<Rightarrow> string" where
  "getPartNameForLogs io i = getPartNameV1 io i"

text \<open>The calendar functions of \<open>DateLUTImpl\<close>.\<close>

record date_lut =
  toNumYYYYMMDD :: "nat \<Rightarrow> nat"
  YYYYMMDDToDayNum :: "nat \<Rightarrow> nat"
  toNumYYYYMM :: "nat \<Rightarrow> nat"

definition getPartNameV0 :: "text_io \<Rightarrow> date_lut \<Rightarrow> nat \<Rightarrow> nat \<Rightarrow> part_info \<Rightarrow> string" where
  "getPartNameV0 io lut left_date right_date i =
     write_int io (int (toNumYYYYMMDD lut left_date)) @ ''_''
     @ write_int io (int (toNumYYYYMMDD lut right_date)) @ ''_'' @ name_suffix io i"

definition parseMinMaxDatesFromPartName :: "text_io \<Rightarrow> date_lut \<Rightarrow> string \<Rightarrow> (nat \<times> nat) result" where
  "parseMinMaxDatesFromPartName io lut part_name =
     (case do { (min_yyyymmdd, inp) \<leftarrow> read_u32 io part_name;
                inp \<leftarrow> checkChar CHR ''_'' inp;
                (max_yyyymmdd, inp) \<leftarrow> read_u32 io inp;
                Some (min_yyyymmdd, max_yyyymmdd) } of
        None \<Rightarrow> Inl BAD_DATA_PART_NAME
      | Some (min_yyyymmdd, max_yyyymmdd) \<Rightarrow>
          (let min_date = YYYYMMDDToDayNum lut min_yyyymmdd;
               max_date = YYYYMMDDToDayNum lut max_yyyymmdd
           in if toNumYYYYMM lut min_date \<noteq> toNumYYYYMM lut max_date then Inl BAD_DATA_PART_NAME
              else Inr (min_date, max_date)))"

definition contains_names :: "text_io \<Rightarrow> string \<Rightarrow> string \<Rightarrow> format_version \<Rightarrow> bool result" where
  "contains_names io outer_part_name inner_part_name fv =
     bind_r (fromPartName io outer_part_name fv) (\<lambda>outer.
     bind_r (fromPartName io inner_part_name fv) (\<lambda>inner.
       Inr (contains outer inner)))"

text \<open>\<open>validatePartitionID\<close>; \<open>None\<close> is an AST node that is not a string literal.\<close>

definition isNumericASCII :: "char \<Rightarrow> bool" where
  "isNumericASCII c \<longleftrightarrow> is_digit c"

definition isAlphaNumericASCII :: "char \<Rightarrow> bool" where
  "isAlphaNumericASCII c \<longleftrightarrow>
     (let n = (of_char c :: nat)
      in (48 \<le> n \<and> n \<le> 57) \<or> (65 \<le> n \<and> n \<le> 90) \<or> (97 \<le> n \<and> n \<le> 122))"

definition validatePartitionID :: "string option \<Rightarrow> format_version \<Rightarrow> unit result" where
  "validatePartitionID literal fv =
     (case literal of
        None \<Rightarrow> Inl INVALID_PARTITION_VALUE
      | Some pid \<Rightarrow>
          if pid = [] then Inl INVALID_PARTITION_VALUE
          else if fv < MIN_FORMAT_VERSION_WITH_CUSTOM_PARTITIONING
          then if length pid \<noteq> 6 \<or> \<not> list_all isNumericASCII pid then Inl INVALID_PARTITION_VALUE
               else Inr ()
          else if \<not> list_all (\<lambda>c. c = CHR ''-'' \<or> isAlphaNumericASCII c) pid
          then Inl INVALID_PARTITION_VALUE else Inr ())"

text \<open>Names of the original partition of a patch part (\<open>PatchPartsUtils.cpp\<close>).\<close>

definition isPatchPartitionId :: "string \<Rightarrow> bool" where
  "isPatchPartitionId pid \<longleftrightarrow> starts_with pid PATCH_PART_PREFIX \<and> length pid > PATCH_PART_PREFIX_SIZE"

definition isPatchForPartition :: "part_info \<Rightarrow> string \<Rightarrow> bool result" where
  "isPatchForPartition i pid =
     (if \<not> isPatch i then Inr False
      else if \<not> isPatchPartitionId (partition_id i) then Inl LOGICAL_ERROR
      else Inr (drop PATCH_PART_PREFIX_SIZE (partition_id i) = pid))"

definition getOriginalPartitionIdOfPatch :: "string \<Rightarrow> string result" where
  "getOriginalPartitionIdOfPatch pid =
     (if \<not> isPatchPartitionId pid then Inl LOGICAL_ERROR else Inr (drop PATCH_PART_PREFIX_SIZE pid))"

definition getOriginalPartitionId :: "part_info \<Rightarrow> string result" where
  "getOriginalPartitionId i =
     (if isPatch i then getOriginalPartitionIdOfPatch (partition_id i) else Inr (partition_id i))"

section \<open>Round trip of names\<close>

text \<open>
  The infos that have a name: a partition id without underscores, bounds that fit their integer
  types, and a level that the parser does not replace.
\<close>

definition printable :: "part_info \<Rightarrow> bool" where
  "printable i \<longleftrightarrow> wf_info i \<and> partition_id i \<noteq> [] \<and> CHR ''_'' \<notin> set (partition_id i)
     \<and> - (2 ^ 63) \<le> min_block i \<and> max_block i < 2 ^ 63
     \<and> 0 \<le> mutation i \<and> mutation i < 2 ^ 32
     \<and> (if use_legacy_max_level i then level i = MAX_LEVEL else level i < LEGACY_MAX_LEVEL)"

lemma read_partition_id_append:
  "CHR ''_'' \<notin> set pid \<Longrightarrow> read_partition_id (pid @ CHR ''_'' # rest) = (pid, rest)"
  by (induction pid) auto

lemma checkChar_hit [simp]: "checkChar c (c # s) = Some s"
  by (simp add: checkChar_def)

lemma at_separator_simps [simp]: "at_separator []" "at_separator (CHR ''_'' # s)"
  by (simp_all add: at_separator_def)

lemma read_i64_written:
  "text_io_ok io \<Longrightarrow> - (2 ^ 63) \<le> i \<Longrightarrow> i < 2 ^ 63 \<Longrightarrow> at_separator rest \<Longrightarrow>
     read_i64 io (write_int io i @ rest) = Some (i, rest)"
  by (simp add: text_io_ok_def)

lemma read_u32_written:
  "text_io_ok io \<Longrightarrow> n < 2 ^ 32 \<Longrightarrow> at_separator rest \<Longrightarrow>
     read_u32 io (write_int io (int n) @ rest) = Some (n, rest)"
  by (simp add: text_io_ok_def)

lemma parse_name_suffix:
  assumes io: "text_io_ok io" and pr: "printable i"
  shows "parse_block_range io (name_suffix io i) =
    Some (min_block i, max_block i,
          (if use_legacy_max_level i then LEGACY_MAX_LEVEL else level i), nat (mutation i))"
proof -
  let ?lev = "if use_legacy_max_level i then LEGACY_MAX_LEVEL else level i"
  let ?mut = "if mutation i \<noteq> 0 then CHR ''_'' # write_int io (mutation i) else []"
  have lev: "?lev < 2 ^ 32"
    using pr by (auto simp: printable_def LEGACY_MAX_LEVEL_def)
  have mn: "read_i64 io (write_int io (min_block i) @ CHR ''_'' # s) = Some (min_block i, CHR ''_'' # s)" for s
    using pr io by (intro read_i64_written) (auto simp: printable_def wf_info_def)
  have mx: "read_i64 io (write_int io (max_block i) @ CHR ''_'' # s) = Some (max_block i, CHR ''_'' # s)" for s
    using pr io by (intro read_i64_written) (auto simp: printable_def wf_info_def)
  have l: "read_u32 io (write_int io (int ?lev) @ ?mut) = Some (?lev, ?mut)"
    using io lev by (intro read_u32_written) auto
  have m: "read_u32 io (write_int io (mutation i)) = Some (nat (mutation i), [])"
    using read_u32_written [OF io, of "nat (mutation i)" "[]"] pr
    by (simp add: printable_def nat_less_iff)
  have le: "min_block i \<le> max_block i" using pr by (simp add: printable_def wf_info_def)
  show ?thesis
    using l m le by (auto simp: parse_block_range_def name_suffix_def mn mx not_less)
qed

lemma part_name_roundtrip_aux:
  assumes "text_io_ok io" "printable i"
  shows "tryParsePartName io (getPartNameV1 io i) 1 = Some i"
proof -
  have "parse_partition io 1 (getPartNameV1 io i) = Some (partition_id i, name_suffix io i)"
    using assms(2)
    by (simp add: parse_partition_def getPartNameV1_def MIN_FORMAT_VERSION_WITH_CUSTOM_PARTITIONING_def
        read_partition_id_append printable_def)
  then show ?thesis
    using assms parse_name_suffix [OF assms]
    by (cases i) (auto simp: tryParsePartName_def setPartitionId_def default_info_def printable_def wf_info_def Let_def)
qed

text \<open>
  C37: parsing the name of a part gives the part back, with its kind, its blocks, level, mutation
  and the legacy level flag, for every number reader that reads back what the writer wrote; so a
  name test of containment decides containment of the parts.
\<close>

theorem part_name_roundtrip:
  assumes "text_io_ok io" "printable i" "printable j"
  shows "tryParsePartName io (getPartNameV1 io i) 1 = Some i
    \<and> contains_names io (getPartNameV1 io i) (getPartNameV1 io j) 1 = Inr (contains i j)"
  using part_name_roundtrip_aux [OF assms(1,2)] part_name_roundtrip_aux [OF assms(1,3)]
  by (simp add: contains_names_def fromPartName_def)

section \<open>Decimal text satisfies the assumptions\<close>

definition dec_value :: "string \<Rightarrow> nat" where
  "dec_value ds = foldl (\<lambda>a c. 10 * a + (of_char c - 48)) 0 ds"

definition dec_read_u32 :: "string \<Rightarrow> (nat \<times> string) option" where
  "dec_read_u32 s =
     (let ds = takeWhile is_digit s
      in if ds = [] then None else Some (dec_value ds mod 2 ^ 32, dropWhile is_digit s))"

definition dec_read_i64 :: "string \<Rightarrow> (int \<times> string) option" where
  "dec_read_i64 s =
     (let neg = (s \<noteq> [] \<and> hd s = CHR ''-''); t = (if neg then tl s else s);
          ds = takeWhile is_digit t; v = int (dec_value ds)
      in if ds = [] then None else Some (if neg then - v else v, dropWhile is_digit t))"

definition dec_io :: text_io where
  "dec_io = \<lparr>read_i64 = dec_read_i64, read_u32 = dec_read_u32, write_int = dec_of_int\<rparr>"

lemma dec_value_dec_of_nat [simp]: "dec_value (dec_of_nat n) = n"
proof (induction n rule: dec_of_nat.induct)
  case (1 n)
  show ?case
  proof (cases "n < 10")
    case True
    then show ?thesis by (simp add: dec_of_nat.simps [of n] dec_value_def digit_char_def)
  next
    case False
    then have "dec_value (dec_of_nat (n div 10)) = n div 10" by (rule 1)
    with False show ?thesis
      by (simp add: dec_of_nat.simps [of n] dec_value_def digit_char_def)
  qed
qed

lemma not_digit_separator [simp]: "\<not> is_digit CHR ''_''" "\<not> is_digit CHR ''-''"
  by (simp_all add: is_digit_def)

lemma takeWhile_dec:
  assumes "at_separator rest"
  shows "takeWhile is_digit (dec_of_nat n @ rest) = dec_of_nat n"
    and "dropWhile is_digit (dec_of_nat n @ rest) = rest"
proof -
  have "takeWhile is_digit rest = []" "dropWhile is_digit rest = rest"
    using assms by (cases rest; simp add: at_separator_def)+
  then show "takeWhile is_digit (dec_of_nat n @ rest) = dec_of_nat n"
    "dropWhile is_digit (dec_of_nat n @ rest) = rest"
    using dec_of_nat_digits [of _ n] by simp_all
qed

lemma hd_dec_of_nat: "hd (dec_of_nat n @ rest) \<noteq> CHR ''-''"
proof -
  have "is_digit (hd (dec_of_nat n))"
    using hd_in_set [OF dec_of_nat_not_Nil] dec_of_nat_digits by blast
  then show ?thesis by (auto simp: hd_append)
qed

lemma dec_io_ok: "text_io_ok dec_io"
  unfolding text_io_ok_def
proof (intro conjI allI impI)
  fix i :: int and rest :: string
  assume "- (2 ^ 63) \<le> i \<and> i < 2 ^ 63 \<and> at_separator rest"
  then have "takeWhile is_digit (dec_of_nat n @ rest) = dec_of_nat n"
    "dropWhile is_digit (dec_of_nat n @ rest) = rest" for n
    by (simp_all add: takeWhile_dec)
  then show "read_i64 dec_io (write_int dec_io i @ rest) = Some (i, rest)"
    using hd_dec_of_nat [of "nat i" rest]
    by (simp add: dec_io_def dec_read_i64_def dec_of_int_def Let_def)
next
  fix n :: nat and rest :: string
  assume "n < 2 ^ 32 \<and> at_separator rest"
  then show "read_u32 dec_io (write_int dec_io (int n) @ rest) = Some (n, rest)"
    by (simp add: dec_io_def dec_read_u32_def dec_of_int_def takeWhile_dec Let_def)
qed

theorem part_name_roundtrip_witness:
  "tryParsePartName dec_io (getPartNameV1 dec_io (PartInfo ''202406'' 3 17 2 21)) 1
     = Some (PartInfo ''202406'' 3 17 2 21)"
  using part_name_roundtrip [of dec_io "PartInfo ''202406'' 3 17 2 21" "PartInfo ''202406'' 3 17 2 21"]
  by (simp add: dec_io_ok printable_def PartInfo_def wf_info_def LEGACY_MAX_LEVEL_def)

section \<open>Names of the old format\<close>

text \<open>
  A name of the old format parses to the blocks, level and mutation it was printed from, in
  the partition named after the month of its left date; a name that the date parser accepts has
  both dates in one month.
\<close>

theorem old_part_name_roundtrip:
  assumes "text_io_ok io" "printable i"
    "toNumYYYYMMDD lut left_date < 2 ^ 32" "toNumYYYYMMDD lut right_date < 2 ^ 32"
    "pid = write_int io (int (toNumYYYYMMDD lut left_date div 100))" "pid \<noteq> []"
  shows "tryParsePartName io (getPartNameV0 io lut left_date right_date i) 0 = Some (setPartitionId pid i)
    \<and> (\<forall>dates. parseMinMaxDatesFromPartName io lut (getPartNameV0 io lut left_date right_date i) = Inr dates
          \<longrightarrow> dates = (YYYYMMDDToDayNum lut (toNumYYYYMMDD lut left_date),
                       YYYYMMDDToDayNum lut (toNumYYYYMMDD lut right_date))
              \<and> toNumYYYYMM lut (fst dates) = toNumYYYYMM lut (snd dates))"
proof -
  have l: "read_u32 io (write_int io (int (toNumYYYYMMDD lut left_date)) @ CHR ''_'' # s)
      = Some (toNumYYYYMMDD lut left_date, CHR ''_'' # s)" for s
    using assms(1,3) by (intro read_u32_written) auto
  have r: "read_u32 io (write_int io (int (toNumYYYYMMDD lut right_date)) @ CHR ''_'' # s)
      = Some (toNumYYYYMMDD lut right_date, CHR ''_'' # s)" for s
    using assms(1,4) by (intro read_u32_written) auto
  have "parse_partition io 0 (getPartNameV0 io lut left_date right_date i) = Some (pid, name_suffix io i)"
    by (simp add: parse_partition_def getPartNameV0_def MIN_FORMAT_VERSION_WITH_CUSTOM_PARTITIONING_def
        l r assms(5))
  then have "tryParsePartName io (getPartNameV0 io lut left_date right_date i) 0 = Some (setPartitionId pid i)"
    using assms(2,6) parse_name_suffix [OF assms(1,2)]
    by (cases i) (auto simp: tryParsePartName_def setPartitionId_def default_info_def printable_def Let_def)
  moreover have "parseMinMaxDatesFromPartName io lut (getPartNameV0 io lut left_date right_date i) = Inr dates \<Longrightarrow>
      dates = (YYYYMMDDToDayNum lut (toNumYYYYMMDD lut left_date),
               YYYYMMDDToDayNum lut (toNumYYYYMMDD lut right_date))
      \<and> toNumYYYYMM lut (fst dates) = toNumYYYYMM lut (snd dates)" for dates
    by (auto simp: parseMinMaxDatesFromPartName_def getPartNameV0_def l r Let_def split: if_splits)
  ultimately show ?thesis by blast
qed

theorem old_part_name_roundtrip_witness:
  "tryParsePartName dec_io (getPartNameV0 dec_io \<lparr>toNumYYYYMMDD = (\<lambda>d. 20170600 + d),
       YYYYMMDDToDayNum = (\<lambda>n. n - 20170600), toNumYYYYMM = (\<lambda>_. 201706)\<rparr> 1 30 (PartInfo ''201706'' 0 2 7 0)) 0
     = Some (setPartitionId (dec_of_int 201706) (PartInfo ''201706'' 0 2 7 0))"
proof -
  let ?lut = "\<lparr>toNumYYYYMMDD = (\<lambda>d. 20170600 + d), YYYYMMDDToDayNum = (\<lambda>n. n - 20170600),
      toNumYYYYMM = (\<lambda>_. 201706)\<rparr>"
  have "printable (PartInfo ''201706'' 0 2 7 0)"
    by (simp add: printable_def PartInfo_def wf_info_def LEGACY_MAX_LEVEL_def)
  then show ?thesis
    using old_part_name_roundtrip [of dec_io "PartInfo ''201706'' 0 2 7 0" ?lut 1 30 "dec_of_int 201706"]
    by (simp add: dec_io_ok) (simp add: dec_io_def dec_of_int_def)
qed

lemma fromPartName_dec:
  "printable i \<Longrightarrow> fromPartName dec_io (getPartNameV1 dec_io i) 1 = Inr i"
  using part_name_roundtrip_aux [OF dec_io_ok] by (simp add: fromPartName_def)

end
