(* ===== verification/Part_Forms.thy ===== *)
theory Part_Forms
  imports Part_Name "HOL-Library.Multiset"
begin

text \<open>
  The other forms of part infos: names of detached parts with their reason prefix, the binary
  form sent between servers, and the check that a set of parts covers a block range without gaps.
\<close>

section \<open>Detached parts\<close>

record detached_part_info = part_info +
  dir_name :: string
  prefix :: string
  valid_name :: bool

definition DETACH_REASONS :: "string list" where
  "DETACH_REASONS =
     [''broken'', ''unexpected'', ''noquorum'', ''ignored'', ''broken-on-start'', ''clone'',
      ''attaching'', ''deleting'', ''tmp-fetch'', ''covered-by-broken'',
      ''merge-not-byte-identical'', ''mutate-not-byte-identical'', ''broken-from-backup'']"

definition addParsedPartInfo :: "part_info \<Rightarrow> detached_part_info \<Rightarrow> detached_part_info" where
  "addParsedPartInfo i d = d\<lparr>kind := kind i, partition_id := partition_id i, min_block := min_block i,
     max_block := max_block i, level := level i, mutation := mutation i,
     use_legacy_max_level := use_legacy_max_level i\<rparr>"

definition new_detached :: "string \<Rightarrow> detached_part_info" where
  "new_detached dir = \<lparr>kind = Regular, partition_id = [], min_block = 0, max_block = 0, level = 0,
     mutation = 0, use_legacy_max_level = False, dir_name = dir, prefix = [], valid_name = False\<rparr>"

definition has_known_prefix :: "string \<Rightarrow> string \<Rightarrow> bool" where
  "has_known_prefix dir known_prefix \<longleftrightarrow>
     starts_with dir known_prefix \<and> length known_prefix < length dir \<and> dir ! length known_prefix = CHR ''_''"

definition with_part_name :: "text_io \<Rightarrow> format_version \<Rightarrow> string \<Rightarrow> detached_part_info \<Rightarrow> detached_part_info" where
  "with_part_name io fv part_name d =
     (case tryParsePartName io part_name fv of
        Some i \<Rightarrow> addParsedPartInfo i (d\<lparr>valid_name := True\<rparr>)
      | None \<Rightarrow> d\<lparr>valid_name := False\<rparr>)"

definition parseDetachedPartName :: "text_io \<Rightarrow> string \<Rightarrow> format_version \<Rightarrow> detached_part_info" where
  "parseDetachedPartName io dir fv =
     (let d = new_detached dir
      in case find (has_known_prefix dir) DETACH_REASONS of
           Some known_prefix \<Rightarrow>
             with_part_name io fv (drop (length known_prefix + 1) dir) (d\<lparr>prefix := known_prefix\<rparr>)
         | None \<Rightarrow>
             (case tryParsePartName io dir fv of
                Some i \<Rightarrow> addParsedPartInfo i (d\<lparr>valid_name := True\<rparr>)
              | None \<Rightarrow>
                  let first_separator = length (takeWhile (\<lambda>c. c \<noteq> CHR ''_'') dir)
                  in if first_separator = length dir then d\<lparr>prefix := dir, valid_name := False\<rparr>
                     else case tryParsePartName io (drop (first_separator + 1) dir) fv of
                            Some i \<Rightarrow> addParsedPartInfo i
                                       (d\<lparr>valid_name := True, prefix := take first_separator dir\<rparr>)
                          | None \<Rightarrow> d\<lparr>prefix := dir, valid_name := False\<rparr>))"

lemma find_unique:
  "x \<in> set xs \<Longrightarrow> P x \<Longrightarrow> \<forall>y \<in> set xs. P y \<longrightarrow> y = x \<Longrightarrow> find P xs = Some x"
proof (induction xs)
  case (Cons z zs)
  show ?case
  proof (cases "P z")
    case True
    with Cons.prems(3) have "z = x" by (metis list.set_intros(1))
    with True show ?thesis by simp
  next
    case False
    with Cons.prems(1,2) have "x \<in> set zs" by (metis set_ConsD)
    moreover have "\<forall>y \<in> set zs. P y \<longrightarrow> y = x" using Cons.prems(3) by (meson list.set_intros(2))
    ultimately have "find P zs = Some x" by (rule Cons.IH [OF _ Cons.prems(2)])
    with False show ?thesis by simp
  qed
qed simp

lemma known_prefix_unique:
  assumes "CHR ''_'' \<notin> set p" "CHR ''_'' \<notin> set q" "has_known_prefix (p @ CHR ''_'' # s) q"
  shows "q = p"
proof -
  let ?d = "p @ CHR ''_'' # s"
  have q: "take (length q) ?d = q" "?d ! length q = CHR ''_''"
    using assms(3) by (simp_all add: has_known_prefix_def starts_with_def)
  have "\<not> length q < length p"
    using q(2) assms(1) by (auto simp: nth_append split: if_splits dest: nth_mem)
  moreover have "\<not> length p < length q"
  proof
    assume less: "length p < length q"
    then have "take (length q) ?d ! length p = CHR ''_''" by (simp add: nth_append)
    with less q(1) have "q ! length p = CHR ''_''" by simp
    with less assms(2) show False by (auto dest: nth_mem)
  qed
  ultimately show ?thesis using q(1) by simp
qed

lemma reasons_no_underscore: "r \<in> set DETACH_REASONS \<Longrightarrow> CHR ''_'' \<notin> set r"
  by (auto simp: DETACH_REASONS_def)

text \<open>
  The directory name made of a known detach reason, an underscore and the name of a part is
  recognised as exactly that reason and that part, whichever reason it is (also where one reason
  is a prefix of another).
\<close>

theorem detached_name_roundtrip:
  assumes "text_io_ok io" "printable i" "reason \<in> set DETACH_REASONS"
  shows "let d = parseDetachedPartName io (reason @ ''_'' @ getPartNameV1 io i) 1
    in prefix d = reason \<and> valid_name d \<and> part_info.truncate d = i"
proof -
  let ?dir = "reason @ CHR ''_'' # getPartNameV1 io i"
  have "find (has_known_prefix ?dir) DETACH_REASONS = Some reason"
  proof (rule find_unique)
    show "has_known_prefix ?dir reason"
      by (simp add: has_known_prefix_def starts_with_def nth_append)
    show "\<forall>y \<in> set DETACH_REASONS. has_known_prefix ?dir y \<longrightarrow> y = reason"
      using assms(3) reasons_no_underscore known_prefix_unique by blast
  qed (rule assms(3))
  then show ?thesis
    using part_name_roundtrip_aux [OF assms(1,2)]
    by (simp add: parseDetachedPartName_def with_part_name_def Let_def addParsedPartInfo_def
        new_detached_def part_info.truncate_def)
qed

theorem detached_name_roundtrip_witness:
  "prefix (parseDetachedPartName dec_io
      (''broken-on-start'' @ ''_'' @ getPartNameV1 dec_io (PartInfo ''all'' 1 4 1 0)) 1) = ''broken-on-start''"
  using detached_name_roundtrip [of dec_io "PartInfo ''all'' 1 4 1 0" "''broken-on-start''"]
  by (simp add: dec_io_ok printable_def PartInfo_def wf_info_def LEGACY_MAX_LEVEL_def DETACH_REASONS_def Let_def)

section \<open>Binary form\<close>

text \<open>The binary primitives of the IO library and the protocol constant.\<close>

record info_io =
  part_info_version :: nat
  ints :: u64_codec
  put_str :: "string \<Rightarrow> string"
  get_str :: "string \<Rightarrow> (string \<times> string) result"
  put_i64 :: "int \<Rightarrow> string"
  get_i64 :: "string \<Rightarrow> (int \<times> string) result"
  put_u32 :: "nat \<Rightarrow> string"
  get_u32 :: "string \<Rightarrow> (nat \<times> string) result"
  put_bool :: "bool \<Rightarrow> string"
  get_bool :: "string \<Rightarrow> (bool \<times> string) result"

definition info_io_ok :: "info_io \<Rightarrow> bool" where
  "info_io_ok io \<longleftrightarrow> u64_codec_ok (ints io) \<and> part_info_version io < size_max
     \<and> (\<forall>s rest. length s < size_max \<longrightarrow> get_str io (put_str io s @ rest) = Inr (s, rest))
     \<and> (\<forall>i rest. - (2 ^ 63) \<le> i \<and> i < 2 ^ 63 \<longrightarrow> get_i64 io (put_i64 io i @ rest) = Inr (i, rest))
     \<and> (\<forall>n rest. n < 2 ^ 32 \<longrightarrow> get_u32 io (put_u32 io n @ rest) = Inr (n, rest))
     \<and> (\<forall>b rest. get_bool io (put_bool io b @ rest) = Inr (b, rest))"

definition info_serialize :: "info_io \<Rightarrow> part_info \<Rightarrow> string" where
  "info_serialize io i =
     put_u64 (ints io) (part_info_version io) @ put_str io (partition_id i)
     @ put_i64 io (min_block i) @ put_i64 io (max_block i) @ put_u32 io (level i)
     @ put_i64 io (mutation i) @ put_bool io (use_legacy_max_level i)"

text \<open>\<open>deserialize\<close> overwrites the fields it reads in the object it is called on.\<close>

definition info_deserialize :: "info_io \<Rightarrow> part_info \<Rightarrow> string \<Rightarrow> (part_info \<times> string) result" where
  "info_deserialize io this inp =
     bind_r (get_u64 (ints io) inp) (\<lambda>(version, inp).
     if version \<noteq> part_info_version io then Inl UNKNOWN_FORMAT_VERSION
     else
     bind_r (get_str io inp) (\<lambda>(pid, inp).
     bind_r (get_i64 io inp) (\<lambda>(mn, inp).
     bind_r (get_i64 io inp) (\<lambda>(mx, inp).
     bind_r (get_u32 io inp) (\<lambda>(lev, inp).
     bind_r (get_i64 io inp) (\<lambda>(mut, inp).
     bind_r (get_bool io inp) (\<lambda>(legacy, inp).
       Inr (this\<lparr>partition_id := pid, min_block := mn, max_block := mx, level := lev,
                 mutation := mut, use_legacy_max_level := legacy\<rparr>, inp))))))))"

definition fits_binary :: "part_info \<Rightarrow> bool" where
  "fits_binary i \<longleftrightarrow> length (partition_id i) < size_max
     \<and> - (2 ^ 63) \<le> min_block i \<and> min_block i < 2 ^ 63 \<and> - (2 ^ 63) \<le> max_block i \<and> max_block i < 2 ^ 63
     \<and> level i < 2 ^ 32 \<and> - (2 ^ 63) \<le> mutation i \<and> mutation i < 2 ^ 63"

text \<open>
  What \<open>deserialize\<close> reads back agrees with the serialized info in every field but the kind,
  which keeps the value of the object read into. Into a fresh object the round trip is therefore
  exact precisely for regular parts: a patch part comes back as a regular one, and no longer
  equals itself in the class's comparison.
\<close>

theorem info_binary_roundtrip:
  assumes "info_io_ok io" "fits_binary i"
  shows "info_deserialize io this (info_serialize io i @ rest) = Inr (i\<lparr>kind := kind this\<rparr>, rest)
    \<and> (\<forall>j. info_deserialize io default_info (info_serialize io i @ rest) = Inr (j, rest)
         \<longrightarrow> (info_eq j i \<longleftrightarrow> kind i = Regular) \<and> \<not> isPatch j)"
proof -
  have "info_deserialize io this (info_serialize io i @ rest) = Inr (i\<lparr>kind := kind this\<rparr>, rest)" for this
    using assms
    by (cases i; cases this)
       (simp add: info_deserialize_def info_serialize_def info_io_ok_def u64_codec_ok_def fits_binary_def)
  then show ?thesis
    by (auto simp: default_info_def info_eq_def toTuple_def isPatch_def)
qed

text \<open>Little-endian integers, length-prefixed strings and \<open>0\<close>/\<open>1\<close> text for booleans.\<close>

definition le_signed :: "int \<Rightarrow> string" where
  "le_signed i = le_bytes 8 (nat (i mod 2 ^ 64))"

definition le_signed_value :: "nat \<Rightarrow> int" where
  "le_signed_value n = (if n < 2 ^ 63 then int n else int n - 2 ^ 64)"

definition le_take :: "nat \<Rightarrow> (nat \<Rightarrow> 'a) \<Rightarrow> string \<Rightarrow> ('a \<times> string) result" where
  "le_take k f s = (if length s < k then Inl UB else Inr (f (le_value (take k s)), drop k s))"

definition le_info_io :: info_io where
  "le_info_io = \<lparr>part_info_version = 1, ints = le_codec,
     put_str = (\<lambda>s. le_bytes 8 (length s) @ s),
     get_str = (\<lambda>s. bind_r (le_take 8 id s) (\<lambda>(n, s). Inr (take n s, drop n s))),
     put_i64 = le_signed, get_i64 = le_take 8 le_signed_value,
     put_u32 = le_bytes 4, get_u32 = le_take 4 id,
     put_bool = (\<lambda>b. if b then ''1'' else ''0''),
     get_bool = (\<lambda>s. case s of [] \<Rightarrow> Inl UB | c # s \<Rightarrow> Inr (c = CHR ''1'', s))\<rparr>"

lemma le_take_written: "n < 256 ^ k \<Longrightarrow> le_take k f (le_bytes k n @ rest) = Inr (f n, rest)"
  by (simp add: le_take_def le_value_le_bytes)

lemma le_signed_roundtrip:
  assumes "- (2 ^ 63) \<le> i" "i < 2 ^ 63"
  shows "le_take 8 le_signed_value (le_signed i @ rest) = Inr (i, rest)"
proof -
  have "nat (i mod 2 ^ 64) < 256 ^ 8" by (simp add: nat_less_iff)
  moreover have "le_signed_value (nat (i mod 2 ^ 64)) = i"
  proof (cases "0 \<le> i")
    case True
    with assms show ?thesis by (simp add: le_signed_value_def nat_less_iff)
  next
    case False
    then have "i mod 2 ^ 64 = i + 2 ^ 64"
      using assms(1) mod_pos_pos_trivial [of "i + 2 ^ 64" "2 ^ 64"] by simp
    with False assms(1) show ?thesis by (simp add: le_signed_value_def nat_less_iff)
  qed
  ultimately show ?thesis by (simp add: le_signed_def le_take_written)
qed

lemma le_info_io_ok: "info_io_ok le_info_io"
  unfolding info_io_ok_def
proof (intro conjI allI impI)
  fix s rest :: string assume "length s < size_max"
  then show "get_str le_info_io (put_str le_info_io s @ rest) = Inr (s, rest)"
    by (simp add: le_info_io_def le_take_written size_max_def)
next
  fix i :: int and rest :: string assume "- (2 ^ 63) \<le> i \<and> i < 2 ^ 63"
  then show "get_i64 le_info_io (put_i64 le_info_io i @ rest) = Inr (i, rest)"
    by (simp add: le_info_io_def le_signed_roundtrip)
next
  fix n :: nat and rest :: string assume "n < 2 ^ 32"
  then show "get_u32 le_info_io (put_u32 le_info_io n @ rest) = Inr (n, rest)"
    by (simp add: le_info_io_def le_take_written)
qed (simp_all add: le_info_io_def le_codec_ok size_max_def)

theorem info_binary_roundtrip_witness:
  "\<exists>j. info_deserialize le_info_io default_info
         (info_serialize le_info_io (PartInfo ''patch-0123456789abcdef0123456789abcdef-all'' 1 1 0 5) @ []) = Inr (j, [])
       \<and> \<not> info_eq j (PartInfo ''patch-0123456789abcdef0123456789abcdef-all'' 1 1 0 5)"
proof -
  let ?i = "PartInfo ''patch-0123456789abcdef0123456789abcdef-all'' 1 1 0 5"
  have "fits_binary ?i" by (simp add: fits_binary_def size_max_def)
  moreover have "kind ?i = Patch" by (simp add: getKind_def starts_with_def PATCH_PART_PREFIX_def)
  ultimately show ?thesis
    using info_binary_roundtrip [OF le_info_io_ok, of ?i default_info "[]"] by auto
qed

section \<open>Coverage of a block range\<close>

fun blocks_contiguous :: "int \<Rightarrow> part_info list \<Rightarrow> int option" where
  "blocks_contiguous current_right_block [] = Some current_right_block"
| "blocks_contiguous current_right_block (candidate # cs) =
     (if current_right_block + 1 \<noteq> min_block candidate then None
      else blocks_contiguous (max_block candidate) cs)"

definition areAllBlockNumbersCovered :: "part_info \<Rightarrow> part_info list \<Rightarrow> bool" where
  "areAllBlockNumbersCovered blocks_range candidates =
     (case sort_key toTuple candidates of
        [] \<Rightarrow> False
      | first # rest \<Rightarrow>
          if min_block first \<noteq> min_block blocks_range then False
          else case blocks_contiguous (min_block first - 1) (first # rest) of
                 None \<Rightarrow> False
               | Some current_right_block \<Rightarrow> current_right_block = max_block blocks_range)"

definition blocks_of :: "part_info \<Rightarrow> int set" where
  "blocks_of i = {min_block i .. max_block i}"

lemma blocks_contiguous_union:
  assumes "blocks_contiguous r cs = Some r'" "\<forall>c \<in> set cs. min_block c \<le> max_block c"
  shows "r \<le> r' \<and> (\<Union>c \<in> set cs. blocks_of c) = {r + 1 .. r'}
    \<and> sorted_wrt (\<lambda>a b. max_block a < min_block b) cs"
  using assms
proof (induction cs arbitrary: r)
  case (Cons c cs)
  then have c: "min_block c = r + 1" "min_block c \<le> max_block c"
    and IH: "max_block c \<le> r'" "(\<Union>c \<in> set cs. blocks_of c) = {max_block c + 1 .. r'}"
      "sorted_wrt (\<lambda>a b. max_block a < min_block b) cs"
    by (auto split: if_splits)
  have "max_block c < min_block d" if d: "d \<in> set cs" for d
  proof -
    have "min_block d \<in> blocks_of d" using d Cons.prems(2) by (simp add: blocks_of_def)
    then have "min_block d \<in> {max_block c + 1 .. r'}" using d IH(2) by blast
    then show ?thesis by simp
  qed
  moreover have "blocks_of c \<union> {max_block c + 1 .. r'} = {r + 1 .. r'}"
    using c IH(1) by (auto simp: blocks_of_def)
  ultimately show ?case using c IH by simp
qed simp

text \<open>
  \<open>areAllBlockNumbersCovered\<close> accepts a set of candidate parts of one partition only if their
  blocks tile the range: the candidates can be ordered so that each ends before the next begins,
  and together they hold exactly the block numbers of the range.
\<close>

theorem areAllBlockNumbersCovered_sound:
  assumes "areAllBlockNumbersCovered blocks_range candidates" "\<forall>c \<in> set candidates. wf_info c"
  shows "(\<Union>c \<in> set candidates. blocks_of c) = blocks_of blocks_range
    \<and> (\<exists>cs. mset cs = mset candidates \<and> sorted_wrt (\<lambda>a b. max_block a < min_block b) cs)"
proof -
  let ?cs = "sort_key toTuple candidates"
  obtain first rest where cs: "?cs = first # rest" "min_block first = min_block blocks_range"
      "blocks_contiguous (min_block first - 1) ?cs = Some (max_block blocks_range)"
    using assms(1) by (auto simp: areAllBlockNumbersCovered_def split: list.splits if_splits option.splits)
  have "\<forall>c \<in> set ?cs. min_block c \<le> max_block c" using assms(2) by (simp add: wf_info_def)
  from blocks_contiguous_union [OF cs(3) this]
  have "(\<Union>c \<in> set ?cs. blocks_of c) = blocks_of blocks_range"
      "sorted_wrt (\<lambda>a b. max_block a < min_block b) ?cs"
    using cs(2) by (simp_all add: blocks_of_def)
  then have "(\<Union>c \<in> set candidates. blocks_of c) = blocks_of blocks_range"
      "mset ?cs = mset candidates \<and> sorted_wrt (\<lambda>a b. max_block a < min_block b) ?cs"
    by simp_all
  then show ?thesis by blast
qed

theorem areAllBlockNumbersCovered_sound_witness:
  "(\<Union>c \<in> set [PartInfo ''all'' 3 5 1 0, PartInfo ''all'' 1 2 0 0]. blocks_of c)
     = blocks_of (PartInfo ''all'' 1 5 2 0)"
proof -
  have "areAllBlockNumbersCovered (PartInfo ''all'' 1 5 2 0)
      [PartInfo ''all'' 3 5 1 0, PartInfo ''all'' 1 2 0 0]"
    by (simp add: areAllBlockNumbersCovered_def toTuple_def insort_key.simps)
  then show ?thesis
    using areAllBlockNumbersCovered_sound [of "PartInfo ''all'' 1 5 2 0"
        "[PartInfo ''all'' 3 5 1 0, PartInfo ''all'' 1 2 0 0]"]
    by (simp add: wf_info_PartInfo)
qed

end
