(* ===== verification/Active_Part_Set.thy ===== *)
theory Active_Part_Set
  imports Part_Name "HOL-Library.Multiset"
begin

text \<open>
  \<open>ActiveDataPartSet.h\<close> and \<open>ActiveDataPartSet.cpp\<close>: the set of active parts, in
  which no part covers or intersects another. The \<open>std::map\<close> from part info to name is the list
  of its entries in key order; an iterator is a split of that list, the entries before it (nearest first,
  where a loop walks left) and the entries from it on.
\<close>

section \<open>The set and its loops\<close>

type_synonym part_entry = "part_info \<times> string"

record active_part_set =
  set_format :: format_version
  part_info_to_name :: "part_entry list"

datatype AddPartOutcome = Added | HasCovering | HasIntersectingPart

text \<open>What \<open>addImpl\<close> returns and leaves in its two optional output arguments.\<close>

record add_result =
  outcome :: AddPartOutcome
  replaced_parts :: "string list option"
  out_reason :: string

definition split_at :: "part_info \<Rightarrow> part_entry list \<Rightarrow> part_entry list \<times> part_entry list" where
  "split_at i ps = (takeWhile (\<lambda>e. info_less (fst e) i) ps, dropWhile (\<lambda>e. info_less (fst e) i) ps)"

definition getContainingPartImpl :: "part_info \<Rightarrow> part_entry list \<Rightarrow> part_entry option" where
  "getContainingPartImpl i ps =
     (let (before_it, from_it) = split_at i ps
      in if from_it \<noteq> [] \<and> contains (fst (hd from_it)) i then Some (hd from_it)
         else if before_it \<noteq> [] \<and> contains (fst (last before_it)) i then Some (last before_it)
         else None)"

text \<open>
  The two erasing loops of \<open>addImpl\<close>. The left one gives the entries it keeps, the names it
  pushes and, where it stops at an intersecting part, that part.
\<close>

fun erase_left :: "part_info \<Rightarrow> part_entry list \<Rightarrow> part_entry list \<times> string list \<times> part_info option" where
  "erase_left i [] = ([], [], None)"
| "erase_left i (e # es) =
     (if \<not> contains i (fst e)
      then (e # es, [], if \<not> isDisjoint i (fst e) then Some (fst e) else None)
      else let (kept, names, bad) = erase_left i es in (kept, snd e # names, bad))"

fun erase_right :: "part_info \<Rightarrow> part_entry list \<Rightarrow> part_entry list \<times> string list" where
  "erase_right i [] = ([], [])"
| "erase_right i (e # es) =
     (if contains i (fst e)
      then let (kept, names) = erase_right i es in (kept, snd e # names)
      else (e # es, []))"

definition emplace :: "part_info \<Rightarrow> string \<Rightarrow> part_entry list \<Rightarrow> part_entry list" where
  "emplace i name ps =
     (let (before_it, from_it) = split_at i ps
      in if from_it \<noteq> [] \<and> info_eq (fst (hd from_it)) i then ps
         else before_it @ (i, name) # from_it)"

definition intersects_previous :: "text_io \<Rightarrow> part_info \<Rightarrow> part_info \<Rightarrow> string" where
  "intersects_previous io i other =
     ''Part '' @ getPartNameForLogs io i @ '' intersects previous part '' @ getPartNameForLogs io other
     @ ''. It is a bug or a result of manual intervention in the ZooKeeper data.''"

definition intersects_part :: "text_io \<Rightarrow> string \<Rightarrow> part_info \<Rightarrow> string" where
  "intersects_part io name other =
     ''Part '' @ name @ '' intersects part '' @ getPartNameForLogs io other
     @ ''. It is a bug or a result of manual intervention in the ZooKeeper data.''"

definition addImpl ::
  "text_io \<Rightarrow> part_info \<Rightarrow> string \<Rightarrow> string list option \<Rightarrow> active_part_set
     \<Rightarrow> add_result \<times> active_part_set" where
  "addImpl io i name out_replaced s =
     (if getContainingPartImpl i (part_info_to_name s) \<noteq> None
      then (\<lparr>outcome = HasCovering, replaced_parts = out_replaced, out_reason = []\<rparr>, s)
      else
        let (before_it, from_it) = split_at i (part_info_to_name s);
            (kept_left, names_left, bad) = erase_left i (rev before_it)
        in case bad of
             Some other \<Rightarrow>
               (\<lparr>outcome = HasIntersectingPart, replaced_parts = map_option (\<lambda>_. names_left) out_replaced,
                 out_reason = intersects_previous io i other\<rparr>,
                s\<lparr>part_info_to_name := rev kept_left @ from_it\<rparr>)
           | None \<Rightarrow>
               let (kept_right, names_right) = erase_right i from_it;
                   replaced = map_option (\<lambda>_. rev names_left @ names_right) out_replaced
               in if kept_right \<noteq> [] \<and> \<not> isDisjoint i (fst (hd kept_right))
                  then (\<lparr>outcome = HasIntersectingPart, replaced_parts = replaced,
                          out_reason = intersects_part io name (fst (hd kept_right))\<rparr>,
                        s\<lparr>part_info_to_name := rev kept_left @ kept_right\<rparr>)
                  else (\<lparr>outcome = Added, replaced_parts = replaced, out_reason = []\<rparr>,
                        s\<lparr>part_info_to_name := emplace i name (rev kept_left @ kept_right)\<rparr>))"

section \<open>Adding\<close>

definition tryAddPart ::
  "text_io \<Rightarrow> part_info \<Rightarrow> active_part_set \<Rightarrow> (AddPartOutcome \<times> string) result \<times> active_part_set" where
  "tryAddPart io i s =
     (case getPartNameAndCheckFormat io i (set_format s) of
        Inl e \<Rightarrow> (Inl e, s)
      | Inr name \<Rightarrow>
          let (r, s') = addImpl io i name None s in (Inr (outcome r, out_reason r), s'))"

text \<open>
  \<open>add\<close>: the three overloads take an info with a name, an info, or a name. An exception leaves
  the set as \<open>addImpl\<close> left it.
\<close>

definition add_info_name ::
  "text_io \<Rightarrow> part_info \<Rightarrow> string \<Rightarrow> string list option \<Rightarrow> active_part_set
     \<Rightarrow> (bool \<times> string list option) result \<times> active_part_set" where
  "add_info_name io i name out_replaced s =
     (let (r, s') = addImpl io i name out_replaced s
      in (if outcome r = HasIntersectingPart then Inl LOGICAL_ERROR
          else Inr (outcome r = Added, replaced_parts r), s'))"

definition add_info ::
  "text_io \<Rightarrow> part_info \<Rightarrow> string list option \<Rightarrow> active_part_set
     \<Rightarrow> (bool \<times> string list option) result \<times> active_part_set" where
  "add_info io i out_replaced s =
     (case getPartNameAndCheckFormat io i (set_format s) of
        Inl e \<Rightarrow> (Inl e, s)
      | Inr name \<Rightarrow> add_info_name io i name out_replaced s)"

definition add_name ::
  "text_io \<Rightarrow> string \<Rightarrow> string list option \<Rightarrow> active_part_set
     \<Rightarrow> (bool \<times> string list option) result \<times> active_part_set" where
  "add_name io name out_replaced s =
     (case fromPartName io name (set_format s) of
        Inl e \<Rightarrow> (Inl e, s)
      | Inr i \<Rightarrow> add_info_name io i name out_replaced s)"

definition tryAdd ::
  "text_io \<Rightarrow> string \<Rightarrow> active_part_set \<Rightarrow> (AddPartOutcome \<times> string) result \<times> active_part_set" where
  "tryAdd io name s =
     (case fromPartName io name (set_format s) of
        Inl e \<Rightarrow> (Inl e, s)
      | Inr i \<Rightarrow> let (r, s') = addImpl io i name None s in (Inr (outcome r, out_reason r), s'))"

text \<open>The constructor from names: \<open>add\<close> in turn; an exception ends it.\<close>

fun add_names :: "text_io \<Rightarrow> string list \<Rightarrow> active_part_set \<Rightarrow> active_part_set result" where
  "add_names io [] s = Inr s"
| "add_names io (name # names) s =
     (case add_name io name None s of
        (Inl e, _) \<Rightarrow> Inl e
      | (Inr _, s') \<Rightarrow> add_names io names s')"

definition ActiveDataPartSet :: "text_io \<Rightarrow> format_version \<Rightarrow> string list \<Rightarrow> active_part_set result" where
  "ActiveDataPartSet io fv names = add_names io names \<lparr>set_format = fv, part_info_to_name = []\<rparr>"

section \<open>Queries\<close>

fun walk_left :: "part_info \<Rightarrow> part_entry list \<Rightarrow> part_entry list \<Rightarrow> part_entry list \<times> part_entry list" where
  "walk_left i [] from_it = ([], from_it)"
| "walk_left i (e # es) from_it =
     (if \<not> contains i (fst e) then (e # es, from_it) else walk_left i es (e # from_it))"

fun walk_right :: "part_info \<Rightarrow> part_entry list \<Rightarrow> part_entry list" where
  "walk_right i [] = []"
| "walk_right i (e # es) = (if contains i (fst e) then walk_right i es else e # es)"

definition checkIntersectingParts :: "part_info \<Rightarrow> active_part_set \<Rightarrow> unit result" where
  "checkIntersectingParts i s =
     (let (before_it, from_it) = split_at i (part_info_to_name s);
          (left, right) = walk_left i (rev before_it) from_it
      in if left \<noteq> [] \<and> \<not> isDisjoint i (fst (hd left)) then Inl LOGICAL_ERROR
         else let rest = walk_right i right
              in if rest \<noteq> [] \<and> \<not> isDisjoint i (fst (hd rest)) then Inl LOGICAL_ERROR else Inr ())"

definition checkIntersectingParts_name :: "text_io \<Rightarrow> string \<Rightarrow> active_part_set \<Rightarrow> unit result" where
  "checkIntersectingParts_name io name s =
     bind_r (fromPartName io name (set_format s)) (\<lambda>i. checkIntersectingParts i s)"

definition getContainingPart :: "part_info \<Rightarrow> active_part_set \<Rightarrow> string" where
  "getContainingPart i s =
     (case getContainingPartImpl i (part_info_to_name s) of Some e \<Rightarrow> snd e | None \<Rightarrow> [])"

definition getContainingPart_name :: "text_io \<Rightarrow> string \<Rightarrow> active_part_set \<Rightarrow> string result" where
  "getContainingPart_name io name s =
     bind_r (fromPartName io name (set_format s)) (\<lambda>i. Inr (getContainingPart i s))"

text \<open>\<open>getPartsCoveredByImpl\<close>: \<open>None\<close> is the early return of nothing at a covering part.\<close>

fun covered_left :: "part_info \<Rightarrow> part_entry list \<Rightarrow> part_entry list \<Rightarrow> part_entry list option" where
  "covered_left i [] acc = Some acc"
| "covered_left i (e # es) acc =
     (if \<not> contains i (fst e)
      then if contains (fst e) i then None else Some acc
      else covered_left i es (e # acc))"

fun covered_right :: "part_info \<Rightarrow> part_entry list \<Rightarrow> part_entry list option" where
  "covered_right i [] = Some []"
| "covered_right i (e # es) =
     (if \<not> contains i (fst e)
      then if contains (fst e) i then None else Some []
      else map_option ((#) e) (covered_right i es))"

definition getPartsCoveredByImpl :: "part_info \<Rightarrow> part_entry list \<Rightarrow> part_entry list" where
  "getPartsCoveredByImpl i ps =
     (let (before_it, from_it) = split_at i ps
      in case covered_left i (rev before_it) [] of
           None \<Rightarrow> []
         | Some left \<Rightarrow> (case covered_right i from_it of None \<Rightarrow> [] | Some right \<Rightarrow> left @ right))"

definition getPartsCoveredBy :: "part_info \<Rightarrow> active_part_set \<Rightarrow> string list" where
  "getPartsCoveredBy i s = map snd (getPartsCoveredByImpl i (part_info_to_name s))"

definition getPartInfosCoveredBy :: "part_info \<Rightarrow> active_part_set \<Rightarrow> part_info list" where
  "getPartInfosCoveredBy i s = map fst (getPartsCoveredByImpl i (part_info_to_name s))"

fun push_with_limit :: "nat \<Rightarrow> size_t \<Rightarrow> part_entry list \<Rightarrow> string list" where
  "push_with_limit n limit [] = []"
| "push_with_limit n limit (e # es) =
     snd e # (if n + 1 \<ge> limit then [] else push_with_limit (n + 1) limit es)"

definition getPartsWithLimit :: "size_t \<Rightarrow> active_part_set \<Rightarrow> string list" where
  "getPartsWithLimit limit s = push_with_limit 0 limit (part_info_to_name s)"

definition getParts :: "active_part_set \<Rightarrow> string list" where
  "getParts s = map snd (part_info_to_name s)"

definition getPartInfos :: "active_part_set \<Rightarrow> part_info list" where
  "getPartInfos s = map fst (part_info_to_name s)"

definition getPatchPartInfos :: "active_part_set \<Rightarrow> part_info list" where
  "getPatchPartInfos s = filter isPatch (map fst (part_info_to_name s))"

definition set_isEmpty :: "active_part_set \<Rightarrow> bool" where
  "set_isEmpty s \<longleftrightarrow> part_info_to_name s = []"

definition set_size :: "active_part_set \<Rightarrow> size_t" where
  "set_size s = length (part_info_to_name s)"

definition hasPartitionId :: "string \<Rightarrow> active_part_set \<Rightarrow> bool" where
  "hasPartitionId pid s =
     (case snd (split_at (setPartitionId pid default_info) (part_info_to_name s)) of
        [] \<Rightarrow> False
      | e # _ \<Rightarrow> partition_id (fst e) = pid)"

section \<open>Removing\<close>

definition set_clear :: "active_part_set \<Rightarrow> active_part_set" where
  "set_clear s = s\<lparr>part_info_to_name := []\<rparr>"

definition remove_info :: "part_info \<Rightarrow> active_part_set \<Rightarrow> bool \<times> active_part_set" where
  "remove_info i s =
     (list_ex (\<lambda>e. info_eq (fst e) i) (part_info_to_name s),
      s\<lparr>part_info_to_name := filter (\<lambda>e. \<not> info_eq (fst e) i) (part_info_to_name s)\<rparr>)"

definition remove_name :: "text_io \<Rightarrow> string \<Rightarrow> active_part_set \<Rightarrow> bool result \<times> active_part_set" where
  "remove_name io name s =
     (case fromPartName io name (set_format s) of
        Inl e \<Rightarrow> (Inl e, s)
      | Inr i \<Rightarrow> let (b, s') = remove_info i s in (Inr b, s'))"

text \<open>The loop \<open>result &= remove(part)\<close>.\<close>

fun remove_names :: "text_io \<Rightarrow> string list \<Rightarrow> bool \<Rightarrow> active_part_set \<Rightarrow> bool result \<times> active_part_set" where
  "remove_names io [] acc s = (Inr acc, s)"
| "remove_names io (name # names) acc s =
     (case remove_name io name s of
        (Inl e, s') \<Rightarrow> (Inl e, s')
      | (Inr b, s') \<Rightarrow> remove_names io names (acc \<and> b) s')"

definition removePartAndCoveredParts ::
  "text_io \<Rightarrow> part_info \<Rightarrow> active_part_set \<Rightarrow> bool result \<times> active_part_set" where
  "removePartAndCoveredParts io i s =
     (let parts_covered_by = getPartsCoveredBy i s; (res, s') = remove_info i s
      in remove_names io parts_covered_by res s')"

definition removePartAndCoveredParts_name ::
  "text_io \<Rightarrow> string \<Rightarrow> active_part_set \<Rightarrow> bool result \<times> active_part_set" where
  "removePartAndCoveredParts_name io name s =
     (case fromPartName io name (set_format s) of
        Inl e \<Rightarrow> (Inl e, s) | Inr i \<Rightarrow> removePartAndCoveredParts io i s)"

definition removePartsCoveredBy :: "text_io \<Rightarrow> string \<Rightarrow> active_part_set \<Rightarrow> bool result \<times> active_part_set" where
  "removePartsCoveredBy io part_name s =
     (case fromPartName io part_name (set_format s) of
        Inl e \<Rightarrow> (Inl e, s)
      | Inr i \<Rightarrow> remove_names io (filter (\<lambda>part. part \<noteq> part_name) (getPartsCoveredBy i s)) True s)"

section \<open>The invariant\<close>

text \<open>
  The set is in strict key order, holds well-formed infos only, and no two of its parts overlap.
  \<open>left_of\<close> is what order and disjointness say together: an earlier partition, or the same one
  with all blocks below.
\<close>

definition left_of :: "part_info \<Rightarrow> part_info \<Rightarrow> bool" where
  "left_of a b \<longleftrightarrow> (kind a, partition_id a) < (kind b, partition_id b)
     \<or> partition_id a = partition_id b \<and> max_block a < min_block b"

definition aps_inv :: "part_entry list \<Rightarrow> bool" where
  "aps_inv ps \<longleftrightarrow> (\<forall>e \<in> set ps. wf_info (fst e))
     \<and> sorted_wrt (\<lambda>a b. info_less (fst a) (fst b) \<and> isDisjoint (fst a) (fst b)) ps"

lemma info_less_key: "info_less a b \<Longrightarrow> (kind a, partition_id a) \<le> (kind b, partition_id b)"
  by (auto simp: info_less_def toTuple_def)

lemma key_info_less: "(kind a, partition_id a) < (kind b, partition_id b) \<Longrightarrow> info_less a b"
  by (auto simp: info_less_def toTuple_def)

lemma info_less_block:
  "info_less a b \<Longrightarrow> kind a = kind b \<Longrightarrow> partition_id a = partition_id b \<Longrightarrow> min_block a \<le> min_block b"
  by (auto simp: info_less_def toTuple_def)

lemma block_info_less:
  "kind a = kind b \<Longrightarrow> partition_id a = partition_id b \<Longrightarrow> min_block a < min_block b \<Longrightarrow> info_less a b"
  by (auto simp: info_less_def toTuple_def)

lemma wf_kind: "wf_info a \<Longrightarrow> wf_info b \<Longrightarrow> partition_id a = partition_id b \<Longrightarrow> kind a = kind b"
  by (simp add: wf_info_def)

lemma wf_blocks: "wf_info a \<Longrightarrow> min_block a \<le> max_block a"
  by (simp add: wf_info_def)

lemma info_less_trans: "info_less a b \<Longrightarrow> info_less b c \<Longrightarrow> info_less a c"
  unfolding info_less_def by (rule less_trans)

lemma info_less_linear: "info_less a b \<or> info_eq a b \<or> info_less b a"
  unfolding info_less_def info_eq_def by (rule less_linear)

lemma info_eq_contains: "info_eq a b \<Longrightarrow> contains a b"
  by (simp add: info_eq_def toTuple_def contains_def)

lemma info_less_irrefl: "info_less a b \<Longrightarrow> \<not> info_less b a"
  unfolding info_less_def by (rule less_not_sym)

lemma left_of_iff:
  assumes "wf_info a" "wf_info b"
  shows "left_of a b \<longleftrightarrow> info_less a b \<and> isDisjoint a b"
proof (cases "partition_id a = partition_id b")
  case True
  note k = wf_kind [OF assms True]
  have "max_block a < min_block b \<Longrightarrow> info_less a b"
    using block_info_less [OF k True] wf_blocks [OF assms(1)] by simp
  moreover have "info_less a b \<Longrightarrow> isDisjoint a b \<Longrightarrow> max_block a < min_block b"
    using info_less_block [OF _ k True] wf_blocks [OF assms(2)] True by (auto simp: isDisjoint_def)
  ultimately show ?thesis using True k by (auto simp: left_of_def isDisjoint_def)
next
  case False
  have "info_less a b \<Longrightarrow> (kind a, partition_id a) < (kind b, partition_id b)"
    using info_less_key [of a b] False by (simp add: order.order_iff_strict)
  then show ?thesis using False key_info_less [of a b] unfolding left_of_def isDisjoint_def by blast
qed

lemma left_of_trans:
  assumes "left_of a b" "left_of b c" "wf_info a" "wf_info b" "wf_info c"
  shows "left_of a c"
proof -
  have ab: "(kind a, partition_id a) < (kind b, partition_id b)
      \<or> (kind a, partition_id a) = (kind b, partition_id b) \<and> max_block a < min_block b"
    using assms(1,3,4) wf_kind [of a b] unfolding left_of_def by auto
  have bc: "(kind b, partition_id b) < (kind c, partition_id c)
      \<or> (kind b, partition_id b) = (kind c, partition_id c) \<and> max_block b < min_block c"
    using assms(2,4,5) wf_kind [of b c] unfolding left_of_def by auto
  show ?thesis
  proof (cases "(kind a, partition_id a) < (kind c, partition_id c)")
    case True
    then show ?thesis by (simp only: left_of_def simp_thms)
  next
    case False
    then have "(kind a, partition_id a) = (kind b, partition_id b)"
        "(kind b, partition_id b) = (kind c, partition_id c)"
      using ab bc by (metis order.strict_trans)+
    then show ?thesis using ab bc wf_blocks [OF assms(4)] by (auto simp: left_of_def)
  qed
qed

text \<open>In this order an info covered by another, or meeting it, has the same partition.\<close>

lemma contains_same_key:
  "contains a b \<Longrightarrow> wf_info a \<Longrightarrow> wf_info b \<Longrightarrow> (kind a, partition_id a) = (kind b, partition_id b)"
  using contains_partition [of a b] wf_kind [of a b] by simp

lemma aps_inv_wf: "aps_inv ps \<Longrightarrow> e \<in> set ps \<Longrightarrow> wf_info (fst e)"
  by (simp add: aps_inv_def)

lemma aps_inv_left_of:
  "aps_inv ps \<longleftrightarrow> (\<forall>e \<in> set ps. wf_info (fst e)) \<and> sorted_wrt (\<lambda>a b. left_of (fst a) (fst b)) ps"
proof -
  have "sorted_wrt (\<lambda>a b. info_less (fst a) (fst b) \<and> isDisjoint (fst a) (fst b)) ps
      \<longleftrightarrow> sorted_wrt (\<lambda>a b. left_of (fst a) (fst b)) ps" if "\<forall>e \<in> set ps. wf_info (fst e)"
    using that by (induction ps) (simp_all add: left_of_iff)
  then show ?thesis by (auto simp: aps_inv_def)
qed

lemma aps_inv_append:
  "aps_inv (xs @ ys) \<longleftrightarrow> aps_inv xs \<and> aps_inv ys
     \<and> (\<forall>x \<in> set xs. \<forall>y \<in> set ys. left_of (fst x) (fst y))"
  by (simp only: aps_inv_left_of sorted_wrt_append set_append ball_Un) blast

lemma aps_inv_Cons:
  "aps_inv (x # ys) \<longleftrightarrow> wf_info (fst x) \<and> aps_inv ys \<and> (\<forall>y \<in> set ys. left_of (fst x) (fst y))"
  by (simp only: aps_inv_left_of sorted_wrt.simps list.set ball_simps) blast

lemma aps_inv_Nil [simp]: "aps_inv []"
  by (simp add: aps_inv_def)

lemma aps_inv_filter: "aps_inv ps \<Longrightarrow> aps_inv (filter P ps)"
  by (simp add: aps_inv_def sorted_wrt_filter)

section \<open>The part at an iterator\<close>

lemma split_at_app: "split_at i ps = (b, f) \<Longrightarrow> ps = b @ f"
  by (auto simp: split_at_def)

lemma split_at_before: "split_at i ps = (b, f) \<Longrightarrow> e \<in> set b \<Longrightarrow> info_less (fst e) i"
  by (auto simp: split_at_def dest: set_takeWhileD)

lemma split_at_from:
  assumes "split_at i ps = (b, f)" "aps_inv ps" "e \<in> set f"
  shows "\<not> info_less (fst e) i"
proof -
  have f: "f = dropWhile (\<lambda>e. info_less (fst e) i) ps" and "f \<noteq> []"
    using assms(1,3) by (auto simp: split_at_def)
  then obtain h r where hr: "f = h # r" "\<not> info_less (fst h) i"
    by (metis dropWhile_eq_Cons_conv neq_Nil_conv)
  have "aps_inv f" using assms(1,2) split_at_app aps_inv_append by blast
  then have "e \<in> set r \<Longrightarrow> info_less (fst h) (fst e)" using hr(1) by (auto simp: aps_inv_def)
  then show ?thesis using hr assms(3) info_less_trans by auto
qed

lemma covering_not_further_left:
  assumes "left_of e d" "info_less d i" "wf_info e" "wf_info d" "wf_info i"
  shows "\<not> contains e i"
proof
  assume c: "contains e i"
  have k: "(kind e, partition_id e) = (kind i, partition_id i)"
    using contains_same_key [OF c assms(3,5)] .
  moreover have "(kind d, partition_id d) \<le> (kind i, partition_id i)" using info_less_key [OF assms(2)] .
  ultimately have d: "partition_id e = partition_id d" "max_block e < min_block d"
    using assms(1) unfolding left_of_def by auto
  then have "min_block d \<le> min_block i"
    using info_less_block [OF assms(2)] k wf_kind [OF assms(3,4)] by simp
  then show False using d contains_bounds [OF c] wf_blocks [OF assms(5)] by simp
qed

lemma covering_not_further_right:
  assumes "left_of d e" "\<not> info_less d i" "wf_info e" "wf_info d" "wf_info i"
  shows "\<not> contains e i"
proof
  assume c: "contains e i"
  have k: "(kind e, partition_id e) = (kind i, partition_id i)"
    using contains_same_key [OF c assms(3,5)] .
  have "info_less i d \<or> info_eq i d" using assms(2) info_less_linear by blast
  then have "(kind i, partition_id i) \<le> (kind d, partition_id d)"
    using info_less_key by (auto simp: info_eq_def toTuple_def)
  then have d: "partition_id d = partition_id e" "max_block d < min_block e"
    using assms(1) k unfolding left_of_def by auto
  then have "\<not> min_block d < min_block i"
    using block_info_less [of d i] assms(2) k wf_kind [OF assms(4,3)] by auto
  then show False using d contains_bounds [OF c] wf_blocks [OF assms(4)] by simp
qed

lemma disjoint_left:
  "info_less a i \<Longrightarrow> isDisjoint i a \<Longrightarrow> wf_info a \<Longrightarrow> wf_info i \<Longrightarrow> left_of a i"
  using left_of_iff [of a i] isDisjoint_sym [of i a] by simp

lemma disjoint_right:
  assumes "\<not> info_less a i" "isDisjoint i a" "wf_info a" "wf_info i"
  shows "left_of i a"
proof -
  have "\<not> info_eq i a"
    using assms(2,3) contains_not_disjoint info_eq_contains by blast
  then have "info_less i a" using assms(1) info_less_linear [of i a] by blast
  then show ?thesis using left_of_iff assms(2-4) by blast
qed

lemma left_of_disjoint: "left_of a b \<Longrightarrow> wf_info a \<Longrightarrow> wf_info b \<Longrightarrow> isDisjoint b a \<and> isDisjoint a b"
  using left_of_iff [of a b] isDisjoint_sym [of b a] by simp

lemma getContainingPartImpl_None:
  assumes "aps_inv ps" "wf_info i"
  shows "getContainingPartImpl i ps = None \<longleftrightarrow> (\<forall>e \<in> set ps. \<not> contains (fst e) i)"
proof -
  obtain b f where s: "split_at i ps = (b, f)" by fastforce
  note app = split_at_app [OF s]
  have inv: "aps_inv b" "aps_inv f" using assms(1) app aps_inv_append by blast+
  have L: "\<not> contains (fst e) i" if e: "e \<in> set b" "b = x @ [l]" "\<not> contains (fst l) i" for e x l
  proof (cases "e = l")
    case False
    then have "left_of (fst e) (fst l)" using inv(1) e by (auto simp: aps_inv_append)
    then show ?thesis
      using covering_not_further_left split_at_before [OF s, of l] aps_inv_wf [OF inv(1)] e assms(2)
      by simp
  qed (use e in simp)
  have R: "\<not> contains (fst e) i" if e: "e \<in> set f" "f = h # r" "\<not> contains (fst h) i" for e h r
  proof (cases "e = h")
    case False
    then have "left_of (fst h) (fst e)" using inv(2) e by (auto simp: aps_inv_Cons)
    then show ?thesis
      using covering_not_further_right split_at_from [OF s assms(1), of h] aps_inv_wf [OF inv(2)] e assms(2)
      by simp
  qed (use e in simp)
  have "(\<forall>e \<in> set b. \<not> contains (fst e) i) \<longleftrightarrow> \<not> (b \<noteq> [] \<and> contains (fst (last b)) i)"
    using L by (cases b rule: rev_cases) auto
  moreover have "(\<forall>e \<in> set f. \<not> contains (fst e) i) \<longleftrightarrow> \<not> (f \<noteq> [] \<and> contains (fst (hd f)) i)"
    using R by (cases f) auto
  moreover have "(\<forall>e \<in> set ps. \<not> contains (fst e) i)
      \<longleftrightarrow> (\<forall>e \<in> set b. \<not> contains (fst e) i) \<and> (\<forall>e \<in> set f. \<not> contains (fst e) i)"
    using app by auto
  ultimately show ?thesis
    by (simp add: getContainingPartImpl_def s)
qed

lemma getContainingPartImpl_Some:
  assumes "getContainingPartImpl i ps = Some e"
  shows "e \<in> set ps \<and> contains (fst e) i"
proof -
  obtain b f where s: "split_at i ps = (b, f)" by fastforce
  show ?thesis
    using assms by (auto simp: getContainingPartImpl_def s split_at_app [OF s, THEN arg_cong [of _ _ set]]
        split: if_splits)
qed

lemma sorted_wrt_pair:
  "sorted_wrt P xs \<Longrightarrow> x \<in> set xs \<Longrightarrow> y \<in> set xs \<Longrightarrow> x \<noteq> y \<Longrightarrow> P x y \<or> P y x"
  by (induction xs) auto

lemma covering_unique:
  assumes "aps_inv ps" "wf_info i" "e \<in> set ps" "d \<in> set ps" "contains (fst e) i" "contains (fst d) i"
  shows "e = d"
proof (rule ccontr)
  assume ne: "e \<noteq> d"
  have "sorted_wrt (\<lambda>a b. isDisjoint (fst a) (fst b)) ps"
    using assms(1) by (auto simp: aps_inv_def intro: sorted_wrt_mono_rel [rotated])
  then have "isDisjoint (fst e) (fst d) \<or> isDisjoint (fst d) (fst e)"
    using sorted_wrt_pair [OF _ assms(3,4) ne] by blast
  then have "isDisjoint (fst e) (fst d)" using isDisjoint_sym by blast
  then have "isDisjoint (fst e) i" using disjoint_contained assms(6) by blast
  then show False using contains_not_disjoint assms(2,5) by blast
qed

section \<open>The effect of adding\<close>

lemma left_of_not_contains:
  "left_of a i \<or> left_of i a \<Longrightarrow> wf_info a \<Longrightarrow> wf_info i \<Longrightarrow> \<not> contains i a"
  using contains_not_disjoint left_of_disjoint by blast

lemma erase_left_done:
  assumes "erase_left i l = (k, names, None)" "aps_inv (rev l)" "\<forall>e \<in> set l. info_less (fst e) i" "wf_info i"
  shows "k = filter (\<lambda>e. \<not> contains i (fst e)) l \<and> names = map snd (filter (\<lambda>e. contains i (fst e)) l)
    \<and> (\<forall>e \<in> set k. left_of (fst e) i)"
  using assms(1-3)
proof (induction l arbitrary: k names)
  case (Cons e l)
  have inv: "aps_inv (rev l)" "wf_info (fst e)" and l: "\<forall>x \<in> set l. left_of (fst x) (fst e) \<and> wf_info (fst x)"
    using Cons.prems(2) by (auto simp: aps_inv_append aps_inv_Cons dest: aps_inv_wf)
  show ?case
  proof (cases "contains i (fst e)")
    case True
    then show ?thesis using Cons.IH [OF _ inv(1)] Cons.prems(1,3) by (auto split: prod.splits)
  next
    case False
    then have k: "k = e # l" "names = []" and "isDisjoint i (fst e)"
      using Cons.prems(1) by (auto split: if_splits)
    then have e: "left_of (fst e) i" using disjoint_left inv(2) assms(4) Cons.prems(3) by simp
    then have "\<forall>x \<in> set l. left_of (fst x) i" using l left_of_trans inv(2) assms(4) by blast
    moreover from this have "\<forall>x \<in> set l. \<not> contains i (fst x)"
      using l left_of_not_contains assms(4) by blast
    ultimately show ?thesis using k e False by (simp add: filter_id_conv filter_empty_conv)
  qed
qed simp

lemma erase_left_bad:
  "erase_left i l = (k, names, Some other) \<Longrightarrow>
     \<exists>d e r. l = d @ e # r \<and> k = e # r \<and> other = fst e \<and> \<not> contains i (fst e) \<and> \<not> isDisjoint i (fst e)
       \<and> (\<forall>x \<in> set d. contains i (fst x)) \<and> names = map snd d"
proof (induction l arbitrary: k names)
  case (Cons e l)
  show ?case
  proof (cases "contains i (fst e)")
    case True
    with Cons.prems obtain n where n: "erase_left i l = (k, n, Some other)" "names = snd e # n"
      by (auto split: prod.splits)
    from Cons.IH [OF n(1)] obtain d x r where
      "l = d @ x # r \<and> k = x # r \<and> other = fst x \<and> \<not> contains i (fst x) \<and> \<not> isDisjoint i (fst x)
       \<and> (\<forall>x \<in> set d. contains i (fst x)) \<and> n = map snd d" by blast
    then show ?thesis using n(2) True by (intro exI [of _ "e # d"] exI [of _ x] exI [of _ r]) simp
  next
    case False
    with Cons.prems show ?thesis
      by (intro exI [of _ "[]"] exI [of _ e] exI [of _ l]) (auto split: if_splits)
  qed
qed simp

lemma erase_right_split:
  "erase_right i l = (k, names) \<Longrightarrow>
     \<exists>d. l = d @ k \<and> (\<forall>x \<in> set d. contains i (fst x)) \<and> names = map snd d
       \<and> (k \<noteq> [] \<longrightarrow> \<not> contains i (fst (hd k)))"
proof (induction l arbitrary: k names)
  case (Cons e l)
  show ?case
  proof (cases "contains i (fst e)")
    case True
    with Cons.prems obtain n where n: "erase_right i l = (k, n)" "names = snd e # n"
      by (auto split: prod.splits)
    from Cons.IH [OF n(1)] obtain d where
      "l = d @ k \<and> (\<forall>x \<in> set d. contains i (fst x)) \<and> n = map snd d
       \<and> (k \<noteq> [] \<longrightarrow> \<not> contains i (fst (hd k)))" by blast
    then show ?thesis using n(2) True by (intro exI [of _ "e # d"]) simp
  qed (use Cons.prems in auto)
qed simp

lemma disjoint_head_right:
  assumes "aps_inv k" "\<forall>e \<in> set k. \<not> info_less (fst e) i" "wf_info i"
    "k \<noteq> [] \<longrightarrow> isDisjoint i (fst (hd k))"
  shows "\<forall>e \<in> set k. left_of i (fst e)"
proof (cases k)
  case (Cons h r)
  have h: "left_of i (fst h)" "wf_info (fst h)"
    using disjoint_right assms Cons by (simp_all add: aps_inv_Cons)
  moreover have "left_of i (fst x)" if x: "x \<in> set r" for x
  proof -
    have "left_of (fst h) (fst x)" "wf_info (fst x)"
      using assms(1) x Cons by (auto simp: aps_inv_Cons intro: aps_inv_wf)
    then show ?thesis using left_of_trans [OF h(1)] h(2) assms(3) by blast
  qed
  ultimately show ?thesis using Cons by simp
qed simp

lemma erase_right_done:
  assumes "erase_right i l = (k, names)" "aps_inv l" "\<forall>e \<in> set l. \<not> info_less (fst e) i" "wf_info i"
    "k \<noteq> [] \<longrightarrow> isDisjoint i (fst (hd k))"
  shows "k = filter (\<lambda>e. \<not> contains i (fst e)) l \<and> names = map snd (filter (\<lambda>e. contains i (fst e)) l)
    \<and> (\<forall>e \<in> set k. left_of i (fst e))"
proof -
  from erase_right_split [OF assms(1)] obtain d where
    d: "l = d @ k" "\<forall>x \<in> set d. contains i (fst x)" "names = map snd d" by blast
  have k: "aps_inv k" using assms(2) d(1) aps_inv_append by blast
  then have r: "\<forall>e \<in> set k. left_of i (fst e)"
    using disjoint_head_right assms(3-5) d(1) by simp
  then have "\<forall>e \<in> set k. \<not> contains i (fst e)"
    using left_of_not_contains aps_inv_wf [OF k] assms(4) by blast
  then show ?thesis using d r by (simp add: filter_id_conv filter_empty_conv)
qed

lemma emplace_between:
  assumes "\<forall>e \<in> set b. left_of (fst e) i" "\<forall>e \<in> set f. left_of i (fst e)"
    "\<forall>e \<in> set b \<union> set f. wf_info (fst e)" "wf_info i"
  shows "emplace i name (b @ f) = b @ (i, name) # f"
proof -
  have b: "\<forall>e \<in> set b. info_less (fst e) i" and f: "\<forall>e \<in> set f. info_less i (fst e)"
    using assms left_of_iff by blast+
  have "split_at i (b @ f) = (b, f)"
  proof (cases f)
    case (Cons h r)
    then have "\<not> info_less (fst h) i" using f info_less_irrefl by simp
    then show ?thesis using b Cons by (simp add: split_at_def)
  qed (use b in \<open>simp add: split_at_def\<close>)
  moreover have "f \<noteq> [] \<Longrightarrow> \<not> info_eq (fst (hd f)) i"
    using f by (auto simp: neq_Nil_conv info_less_def info_eq_def)
  ultimately show ?thesis by (auto simp: emplace_def)
qed

text \<open>
  What \<open>addImpl\<close> does in each outcome, from which the properties follow: nothing when a part of the
  set covers the new one; otherwise the covered parts give way to it, unless some part overlaps it
  without being covered.
\<close>

definition overlapping :: "part_info \<Rightarrow> part_entry list \<Rightarrow> bool" where
  "overlapping i ps \<longleftrightarrow> (\<exists>e \<in> set ps. \<not> contains i (fst e) \<and> \<not> isDisjoint i (fst e))"

lemma addImpl_outcomes:
  assumes inv: "aps_inv (part_info_to_name s)" and wf: "wf_info i"
    and free: "\<forall>e \<in> set (part_info_to_name s). \<not> contains (fst e) i"
    and res: "addImpl io i name out s = (r, s')"
  shows "(outcome r = HasIntersectingPart \<and> overlapping i (part_info_to_name s)
      \<and> (\<exists>d. mset (part_info_to_name s) = mset d + mset (part_info_to_name s')
           \<and> (\<forall>e \<in> set d. contains i (fst e)))
      \<and> aps_inv (part_info_to_name s'))
    \<or> (outcome r = Added \<and> \<not> overlapping i (part_info_to_name s)
      \<and> replaced_parts r = map_option (\<lambda>_. map snd (filter (\<lambda>e. contains i (fst e)) (part_info_to_name s))) out
      \<and> (\<exists>b f. filter (\<lambda>e. \<not> contains i (fst e)) (part_info_to_name s) = b @ f
           \<and> part_info_to_name s' = b @ (i, name) # f)
      \<and> aps_inv (part_info_to_name s'))"
proof -
  obtain b f where sp: "split_at i (part_info_to_name s) = (b, f)" by fastforce
  note app = split_at_app [OF sp]
  have invb: "aps_inv b" and invf: "aps_inv f" using inv app aps_inv_append by metis+
  have lt: "\<forall>e \<in> set (rev b). info_less (fst e) i" using split_at_before [OF sp] by simp
  have ge: "\<forall>e \<in> set f. \<not> info_less (fst e) i" using split_at_from [OF sp inv] by blast
  have none: "getContainingPartImpl i (part_info_to_name s) = None"
    using getContainingPartImpl_None [OF inv wf] free by blast
  obtain kl nl bad where el: "erase_left i (rev b) = (kl, nl, bad)" by (metis prod_cases3)
  obtain kr nr where er: "erase_right i f = (kr, nr)" by fastforce
  from erase_right_split [OF er] obtain d where d: "f = d @ kr" "\<forall>x \<in> set d. contains i (fst x)" "nr = map snd d"
      "kr \<noteq> [] \<longrightarrow> \<not> contains i (fst (hd kr))" by blast
  show ?thesis
  proof (cases bad)
    case (Some other)
    from erase_left_bad [OF el [unfolded Some]] obtain x e k where
      x: "rev b = x @ kl" "kl = e # k" "\<not> contains i (fst e)" "\<not> isDisjoint i (fst e)"
        "\<forall>y \<in> set x. contains i (fst y)" by blast
    have b: "b = rev kl @ rev x" using x(1) by (metis rev_append rev_swap)
    have "part_info_to_name s' = rev kl @ f" "outcome r = HasIntersectingPart"
      using res none sp el Some by (auto simp: addImpl_def)
    moreover have "overlapping i (part_info_to_name s)"
      using x(2-4) b app by (auto simp: overlapping_def)
    moreover have "aps_inv (rev kl @ f)"
      using inv unfolding app b by (auto simp: aps_inv_append)
    moreover have "mset (part_info_to_name s) = mset x + mset (rev kl @ f)"
      unfolding app b by simp
    ultimately show ?thesis using x(5) by metis
  next
    case None
    from erase_left_done [OF el [unfolded None] _ lt wf] invb have
      kl: "rev kl = filter (\<lambda>e. \<not> contains i (fst e)) b" "rev nl = map snd (filter (\<lambda>e. contains i (fst e)) b)"
        "\<forall>e \<in> set kl. left_of (fst e) i" by (simp_all add: rev_filter rev_map)
    show ?thesis
    proof (cases "kr \<noteq> [] \<and> \<not> isDisjoint i (fst (hd kr))")
      case True
      have "part_info_to_name s' = rev kl @ kr" "outcome r = HasIntersectingPart"
        using res none sp el er None True by (auto simp: addImpl_def)
      moreover have "overlapping i (part_info_to_name s)"
      proof -
        have "hd kr \<in> set (part_info_to_name s)" using True app d(1) by simp
        then show ?thesis using True d(4) unfolding overlapping_def by blast
      qed
      moreover have "aps_inv (rev kl @ kr)"
        using inv unfolding app d(1) kl(1) by (auto simp: aps_inv_append intro: aps_inv_filter)
      moreover have "mset (part_info_to_name s) = mset (filter (\<lambda>e. contains i (fst e)) b @ d) + mset (rev kl @ kr)"
        unfolding app d(1) kl(1) using multiset_partition [of "mset b" "\<lambda>e. contains i (fst e)"]
        by (simp add: add_ac)
      moreover have "\<forall>e \<in> set (filter (\<lambda>e. contains i (fst e)) b @ d). contains i (fst e)"
        using d(2) by auto
      ultimately show ?thesis by metis
    next
      case False
      from erase_right_done [OF er invf ge wf] False have
        kr: "kr = filter (\<lambda>e. \<not> contains i (fst e)) f" "nr = map snd (filter (\<lambda>e. contains i (fst e)) f)"
          "\<forall>e \<in> set kr. left_of i (fst e)" by blast+
      have wfs: "\<forall>e \<in> set (rev kl) \<union> set kr. wf_info (fst e)"
        using aps_inv_wf [OF inv] unfolding app kl(1) kr(1) by auto
      have em: "emplace i name (rev kl @ kr) = rev kl @ (i, name) # kr"
        using emplace_between [of "rev kl" i kr name] kl(3) kr(3) wfs wf by simp
      have "part_info_to_name s' = emplace i name (rev kl @ kr) \<and> outcome r = Added
          \<and> replaced_parts r = map_option (\<lambda>_. rev nl @ nr) out"
        using res none sp el er None False by (auto simp: addImpl_def)
      moreover have "rev nl @ nr = map snd (filter (\<lambda>e. contains i (fst e)) (part_info_to_name s))"
        unfolding app kl(2) kr(2) by simp
      ultimately have s': "part_info_to_name s' = rev kl @ (i, name) # kr" and r: "outcome r = Added"
        "replaced_parts r = map_option (\<lambda>_. map snd (filter (\<lambda>e. contains i (fst e)) (part_info_to_name s))) out"
        by (simp_all only: em simp_thms)
      have no: "\<not> overlapping i (part_info_to_name s)"
      proof -
        have "isDisjoint i (fst e)" if "e \<in> set (part_info_to_name s)" "\<not> contains i (fst e)" for e
        proof -
          have "e \<in> set (rev kl) \<or> e \<in> set kr" using that unfolding app kl(1) kr(1) by auto
          then show ?thesis using kl(3) kr(3) wfs wf left_of_disjoint by fastforce
        qed
        then show ?thesis unfolding overlapping_def by blast
      qed
      have "aps_inv (rev kl @ kr)"
        using aps_inv_filter [OF inv, of "\<lambda>e. \<not> contains i (fst e)"] unfolding app kl(1) kr(1) by simp
      then have "aps_inv (part_info_to_name s')"
        using kl(3) kr(3) wf unfolding s' by (simp add: aps_inv_append aps_inv_Cons)
      then show ?thesis using r no s' app kl(1) kr(1) by auto
    qed
  qed
qed

section \<open>Covered parts and intersections\<close>

lemma disjoint_head_left:
  assumes "aps_inv (rev k)" "\<forall>e \<in> set k. info_less (fst e) i" "wf_info i"
    "k \<noteq> [] \<longrightarrow> isDisjoint i (fst (hd k))"
  shows "\<forall>e \<in> set k. left_of (fst e) i"
proof (cases k)
  case (Cons h r)
  have h: "left_of (fst h) i" "wf_info (fst h)"
    using disjoint_left assms Cons by (simp_all add: aps_inv_append aps_inv_Cons)
  moreover have "left_of (fst x) i" if x: "x \<in> set r" for x
  proof -
    have "left_of (fst x) (fst h)" "wf_info (fst x)"
      using assms(1) x Cons by (auto simp: aps_inv_append intro: aps_inv_wf)
    then show ?thesis using left_of_trans h assms(3) by blast
  qed
  ultimately show ?thesis using Cons by simp
qed simp

abbreviation covered_by :: "part_info \<Rightarrow> part_entry \<Rightarrow> bool" where
  "covered_by i e \<equiv> contains i (fst e)"

lemma walk_left_eq:
  "walk_left i l f = (dropWhile (covered_by i) l, rev (takeWhile (covered_by i) l) @ f)"
  by (induction l arbitrary: f) simp_all

lemma walk_right_eq: "walk_right i l = dropWhile (covered_by i) l"
  by (induction l) simp_all

lemma covered_left_eq:
  "covered_left i l acc = (let k = dropWhile (covered_by i) l
     in if k \<noteq> [] \<and> contains (fst (hd k)) i then None else Some (rev (takeWhile (covered_by i) l) @ acc))"
  by (induction l arbitrary: acc) (simp_all add: Let_def)

lemma covered_right_eq:
  "covered_right i l = (let k = dropWhile (covered_by i) l
     in if k \<noteq> [] \<and> contains (fst (hd k)) i then None else Some (takeWhile (covered_by i) l))"
  by (induction l) (simp_all add: Let_def)

lemma overlapping_iff_neighbours:
  assumes inv: "aps_inv ps" and wf: "wf_info i" and sp: "split_at i ps = (b, f)"
  defines "kl \<equiv> dropWhile (covered_by i) (rev b)" and "kr \<equiv> dropWhile (covered_by i) f"
  shows "overlapping i ps \<longleftrightarrow> (kl \<noteq> [] \<and> \<not> isDisjoint i (fst (hd kl))) \<or> (kr \<noteq> [] \<and> \<not> isDisjoint i (fst (hd kr)))"
    and "\<not> overlapping i ps \<Longrightarrow>
      filter (covered_by i) ps = rev (takeWhile (covered_by i) (rev b)) @ takeWhile (covered_by i) f"
proof -
  note app = split_at_app [OF sp]
  obtain bl fl where bl: "rev (takeWhile (covered_by i) (rev b)) = bl" and fl: "takeWhile (covered_by i) f = fl"
    by blast
  have b: "b = rev kl @ bl"
    unfolding kl_def bl [symmetric] by (metis rev_append rev_rev_ident takeWhile_dropWhile_id)
  have f: "f = fl @ kr" unfolding kr_def fl [symmetric] by simp
  have covl: "\<forall>e \<in> set bl. covered_by i e" and covr: "\<forall>e \<in> set fl. covered_by i e"
    unfolding bl [symmetric] fl [symmetric] by (auto dest: set_takeWhileD)
  have invk: "aps_inv (rev kl)" and invr: "aps_inv kr"
    using inv unfolding app unfolding b f by (simp_all add: aps_inv_append)
  have left: "\<forall>e \<in> set kl. left_of (fst e) i" if "kl \<noteq> [] \<longrightarrow> isDisjoint i (fst (hd kl))"
  proof (rule disjoint_head_left [OF invk _ wf that])
    show "\<forall>e \<in> set kl. info_less (fst e) i"
      using split_at_before [OF sp] unfolding kl_def by (auto dest: set_dropWhileD)
  qed
  have right: "\<forall>e \<in> set kr. left_of i (fst e)" if "kr \<noteq> [] \<longrightarrow> isDisjoint i (fst (hd kr))"
  proof (rule disjoint_head_right [OF invr _ wf that])
    show "\<forall>e \<in> set kr. \<not> info_less (fst e) i"
      using split_at_from [OF sp inv] unfolding kr_def by (auto dest: set_dropWhileD)
  qed
  have wfs: "\<forall>e \<in> set kl \<union> set kr. wf_info (fst e)"
    using aps_inv_wf [OF invk] aps_inv_wf [OF invr] by auto
  have parts: "set ps = set kl \<union> set kr \<union> set bl \<union> set fl"
    unfolding app unfolding b f by auto
  have hdl: "kl \<noteq> [] \<Longrightarrow> \<not> covered_by i (hd kl)" and hdr: "kr \<noteq> [] \<Longrightarrow> \<not> covered_by i (hd kr)"
    using hd_dropWhile [of "covered_by i" "rev b"] hd_dropWhile [of "covered_by i" f]
    by (simp_all only: kl_def kr_def not_False_eq_True simp_thms)
  show iff: "overlapping i ps \<longleftrightarrow> (kl \<noteq> [] \<and> \<not> isDisjoint i (fst (hd kl))) \<or> (kr \<noteq> [] \<and> \<not> isDisjoint i (fst (hd kr)))"
  proof (intro iffI)
    assume "overlapping i ps"
    then obtain e where e: "e \<in> set ps" "\<not> covered_by i e" "\<not> isDisjoint i (fst e)"
      unfolding overlapping_def by blast
    then have "e \<in> set kl \<union> set kr" using parts covl covr by blast
    then have "\<not> (left_of (fst e) i \<and> e \<in> set kl) \<and> \<not> (left_of i (fst e) \<and> e \<in> set kr)"
        "e \<in> set kl \<or> e \<in> set kr"
      using e(3) wfs wf left_of_disjoint by blast+
    then show "(kl \<noteq> [] \<and> \<not> isDisjoint i (fst (hd kl))) \<or> (kr \<noteq> [] \<and> \<not> isDisjoint i (fst (hd kr)))"
      using left right by blast
  next
    assume "(kl \<noteq> [] \<and> \<not> isDisjoint i (fst (hd kl))) \<or> (kr \<noteq> [] \<and> \<not> isDisjoint i (fst (hd kr)))"
    then show "overlapping i ps"
      using parts hdl hdr hd_in_set [of kl] hd_in_set [of kr] unfolding overlapping_def by blast
  qed
  assume "\<not> overlapping i ps"
  then have "\<forall>e \<in> set kl. left_of (fst e) i" "\<forall>e \<in> set kr. left_of i (fst e)"
    using iff left right by blast+
  then have "filter (covered_by i) kl = []" "filter (covered_by i) kr = []"
    using left_of_not_contains wfs wf by (auto simp: filter_empty_conv)
  then show "filter (covered_by i) ps
      = rev (takeWhile (covered_by i) (rev b)) @ takeWhile (covered_by i) f"
    using covl covr unfolding bl fl unfolding app unfolding b f by (simp add: filter_id_conv flip: rev_filter)
qed

lemma checkIntersectingParts_overlapping:
  assumes "aps_inv (part_info_to_name s)" "wf_info i"
  shows "checkIntersectingParts i s
    = (if overlapping i (part_info_to_name s) then Inl LOGICAL_ERROR else Inr ())"
proof -
  obtain b f where sp: "split_at i (part_info_to_name s) = (b, f)" by fastforce
  have "dropWhile (covered_by i) (rev (takeWhile (covered_by i) (rev b)) @ f) = dropWhile (covered_by i) f"
    by (rule dropWhile_append2) (auto dest: set_takeWhileD)
  then show ?thesis
    unfolding overlapping_iff_neighbours(1) [OF assms sp]
    by (simp add: checkIntersectingParts_def sp walk_left_eq walk_right_eq)
qed

lemma getPartsCoveredByImpl_filter:
  assumes inv: "aps_inv ps" and wf: "wf_info i"
    and comparable: "\<forall>e \<in> set ps. contains i (fst e) \<or> contains (fst e) i \<or> isDisjoint i (fst e)"
  shows "getPartsCoveredByImpl i ps = filter (covered_by i) ps"
proof -
  obtain b f where sp: "split_at i ps = (b, f)" by fastforce
  note app = split_at_app [OF sp]
  define kl where "kl = dropWhile (covered_by i) (rev b)"
  define kr where "kr = dropWhile (covered_by i) f"
  have hdl: "kl \<noteq> [] \<Longrightarrow> hd kl \<in> set ps \<and> \<not> covered_by i (hd kl)"
    unfolding kl_def app by (metis Un_iff hd_dropWhile hd_in_set set_append set_dropWhileD set_rev)
  have hdr: "kr \<noteq> [] \<Longrightarrow> hd kr \<in> set ps \<and> \<not> covered_by i (hd kr)"
    unfolding kr_def app by (metis Un_iff hd_dropWhile hd_in_set set_append set_dropWhileD)
  have L: "covered_left i (rev b) [] = (if kl \<noteq> [] \<and> contains (fst (hd kl)) i then None
      else Some (rev (takeWhile (covered_by i) (rev b)) @ []))"
    unfolding covered_left_eq kl_def Let_def by (rule refl)
  have R: "covered_right i f = (if kr \<noteq> [] \<and> contains (fst (hd kr)) i then None
      else Some (takeWhile (covered_by i) f))"
    unfolding covered_right_eq kr_def Let_def by (rule refl)
  have impl: "getPartsCoveredByImpl i ps =
      (if kl \<noteq> [] \<and> contains (fst (hd kl)) i \<or> kr \<noteq> [] \<and> contains (fst (hd kr)) i then []
       else rev (takeWhile (covered_by i) (rev b)) @ takeWhile (covered_by i) f)"
    by (simp add: getPartsCoveredByImpl_def sp L R)
  show ?thesis
  proof (cases "\<exists>e \<in> set ps. contains (fst e) i \<and> \<not> covered_by i e")
    case True
    then obtain e where e: "e \<in> set ps" "contains (fst e) i" "\<not> covered_by i e" by blast
    have none: "\<not> covered_by i d" if d: "d \<in> set ps" for d
    proof
      assume c: "covered_by i d"
      then have "contains (fst e) (fst d)" using e(2) contains_trans by blast
      then have "d = e"
        using covering_unique [OF inv aps_inv_wf [OF inv d] d e(1)] by simp
      then show False using c e(3) by simp
    qed
    moreover have "takeWhile (covered_by i) xs = []" if "\<forall>x \<in> set xs. \<not> covered_by i x" for xs
      using that by (cases xs) simp_all
    ultimately have "takeWhile (covered_by i) (rev b) = []" "takeWhile (covered_by i) f = []"
      unfolding app by simp_all
    then show ?thesis using none by (simp add: impl filter_empty_conv)
  next
    case False
    then have "\<not> overlapping i ps" using comparable unfolding overlapping_def by blast
    then show ?thesis
      using overlapping_iff_neighbours(2) [OF inv wf sp] False hdl hdr unfolding impl by (auto simp del: filter_append)
  qed
qed

section \<open>Parts of a set, and what the operations guarantee\<close>

lemma fromPartName_wf: "fromPartName io name fv = Inr i \<Longrightarrow> wf_info i"
  by (auto simp: fromPartName_def tryParsePartName_def parse_block_range_def Let_def wf_info_def
      setPartitionId_def default_info_def split: option.splits Option.bind_splits if_splits)

lemma addImpl_covering:
  assumes "aps_inv (part_info_to_name s)" "wf_info i"
    "\<exists>e \<in> set (part_info_to_name s). contains (fst e) i"
  shows "addImpl io i name out s = (\<lparr>outcome = HasCovering, replaced_parts = out, out_reason = []\<rparr>, s)"
  using getContainingPartImpl_None [OF assms(1,2)] assms(3) by (auto simp: addImpl_def)

lemma addImpl_inv:
  assumes "aps_inv (part_info_to_name s)" "wf_info i" "addImpl io i name out s = (r, s')"
  shows "aps_inv (part_info_to_name s')"
proof (cases "\<exists>e \<in> set (part_info_to_name s). contains (fst e) i")
  case True
  then show ?thesis using addImpl_covering [OF assms(1,2)] assms(1,3) by simp
next
  case False
  then have "\<forall>e \<in> set (part_info_to_name s). \<not> contains (fst e) i" by blast
  from addImpl_outcomes [OF assms(1,2) this assms(3)] show ?thesis by blast
qed

lemma addImpl_format: "addImpl io i name out s = (r, s') \<Longrightarrow> set_format s' = set_format s"
  by (auto simp: addImpl_def Let_def split: if_splits prod.splits option.splits)

lemma add_info_name_inv:
  assumes "aps_inv (part_info_to_name s)" "wf_info i"
  shows "aps_inv (part_info_to_name (snd (add_info_name io i name out s)))"
  using addImpl_inv [OF assms, of io name out] by (auto simp: add_info_name_def split: prod.splits)

lemma add_name_inv:
  "aps_inv (part_info_to_name s) \<Longrightarrow> aps_inv (part_info_to_name (snd (add_name io name out s)))"
  by (auto simp: add_name_def add_info_name_inv dest: fromPartName_wf split: sum.splits)

lemma tryAdd_inv:
  "aps_inv (part_info_to_name s) \<Longrightarrow> aps_inv (part_info_to_name (snd (tryAdd io name s)))"
  using addImpl_inv [of s _ io name None]
  by (auto simp: tryAdd_def dest: fromPartName_wf split: sum.splits prod.splits)

lemma tryAddPart_inv:
  "aps_inv (part_info_to_name s) \<Longrightarrow> wf_info i \<Longrightarrow> aps_inv (part_info_to_name (snd (tryAddPart io i s)))"
  using addImpl_inv [of s i io _ None]
  by (auto simp: tryAddPart_def split: sum.splits prod.splits)

lemma remove_info_inv:
  "aps_inv (part_info_to_name s) \<Longrightarrow> aps_inv (part_info_to_name (snd (remove_info i s)))"
  by (simp add: remove_info_def aps_inv_filter)

lemma remove_name_inv:
  "aps_inv (part_info_to_name s) \<Longrightarrow> aps_inv (part_info_to_name (snd (remove_name io name s)))"
  by (simp add: remove_name_def remove_info_def aps_inv_filter split: sum.splits)

lemma remove_names_inv:
  "aps_inv (part_info_to_name s) \<Longrightarrow> aps_inv (part_info_to_name (snd (remove_names io names acc s)))"
proof (induction names arbitrary: acc s)
  case (Cons name names)
  then show ?case using remove_name_inv [OF Cons.prems, of io name]
    by (auto split: prod.splits sum.splits)
qed simp

lemma add_names_inv:
  "aps_inv (part_info_to_name s) \<Longrightarrow> add_names io names s = Inr s' \<Longrightarrow> aps_inv (part_info_to_name s')"
proof (induction names arbitrary: s)
  case (Cons name names)
  then show ?case using add_name_inv [OF Cons.prems(1), of io name None]
    by (auto split: prod.splits sum.splits)
qed simp

text \<open>
  C16: every operation keeps the set in key order, well formed and free of overlapping parts, also
  when it ends with an exception or reports an intersection; so every set built from part names
  has this form, and at most one of its parts covers any given part.
\<close>

theorem active_set_invariant:
  assumes "aps_inv (part_info_to_name s)" "wf_info i"
  shows "aps_inv (part_info_to_name (snd (addImpl io i name out s)))
    \<and> aps_inv (part_info_to_name (snd (add_info_name io i name out s)))
    \<and> aps_inv (part_info_to_name (snd (add_name io name out s)))
    \<and> aps_inv (part_info_to_name (snd (tryAddPart io i s)))
    \<and> aps_inv (part_info_to_name (snd (tryAdd io name s)))
    \<and> aps_inv (part_info_to_name (snd (remove_info i s)))
    \<and> aps_inv (part_info_to_name (snd (removePartAndCoveredParts io i s)))
    \<and> aps_inv (part_info_to_name (snd (removePartsCoveredBy io name s)))
    \<and> (ActiveDataPartSet io fv names = Inr built \<longrightarrow> aps_inv (part_info_to_name built))
    \<and> (\<forall>e \<in> set (part_info_to_name s). \<forall>d \<in> set (part_info_to_name s).
         contains (fst e) i \<and> contains (fst d) i \<longrightarrow> e = d)"
proof (intro conjI)
  show "aps_inv (part_info_to_name (snd (addImpl io i name out s)))"
    using addImpl_inv [OF assms] by (metis surjective_pairing)
  show "ActiveDataPartSet io fv names = Inr built \<longrightarrow> aps_inv (part_info_to_name built)"
    by (auto simp: ActiveDataPartSet_def intro: add_names_inv [rotated])
  show "\<forall>e \<in> set (part_info_to_name s). \<forall>d \<in> set (part_info_to_name s).
         contains (fst e) i \<and> contains (fst d) i \<longrightarrow> e = d"
    using covering_unique [OF assms] by blast
  show "aps_inv (part_info_to_name (snd (removePartAndCoveredParts io i s)))"
    using remove_names_inv remove_info_inv [OF assms(1)]
    by (simp add: removePartAndCoveredParts_def Let_def split_beta)
  show "aps_inv (part_info_to_name (snd (removePartsCoveredBy io name s)))"
    using remove_names_inv [OF assms(1)] assms(1) by (simp add: removePartsCoveredBy_def split: sum.splits)
qed (use assms in \<open>simp_all add: add_info_name_inv add_name_inv tryAddPart_inv tryAdd_inv remove_info_inv\<close>)

text \<open>A set of two parts, on which the properties are evaluated.\<close>

definition two_parts :: active_part_set where
  "two_parts = \<lparr>set_format = 1, part_info_to_name =
     [(PartInfo ''all'' 1 2 1 0, ''all_1_2_1''), (PartInfo ''all'' 4 5 1 0, ''all_4_5_1'')]\<rparr>"

lemma two_parts_inv [simp]: "aps_inv (part_info_to_name two_parts)"
  by (simp add: aps_inv_Cons left_of_def two_parts_def)

theorem active_set_invariant_witness:
  "aps_inv (part_info_to_name (snd (addImpl dec_io (PartInfo ''all'' 1 5 2 0) ''all_1_5_2'' None two_parts)))"
proof -
  have "wf_info (PartInfo ''all'' 1 5 2 0)" by simp
  from active_set_invariant [OF two_parts_inv this, of dec_io "''all_1_5_2''" None]
  show ?thesis by blast
qed

lemma addImpl_effect_aux:
  assumes "aps_inv (part_info_to_name s)" "wf_info i" "addImpl io i name out s = (r, s')"
  shows "(outcome r = HasCovering \<longleftrightarrow> (\<exists>e \<in> set (part_info_to_name s). contains (fst e) i))
    \<and> (outcome r = HasCovering \<longrightarrow> s' = s)
    \<and> (outcome r = Added \<longleftrightarrow> (\<forall>e \<in> set (part_info_to_name s).
         \<not> contains (fst e) i \<and> (contains i (fst e) \<or> isDisjoint i (fst e))))
    \<and> (outcome r = Added \<longrightarrow>
         set (part_info_to_name s') = insert (i, name) {e \<in> set (part_info_to_name s). \<not> contains i (fst e)}
         \<and> replaced_parts r = map_option (\<lambda>_. map snd (filter (\<lambda>e. contains i (fst e)) (part_info_to_name s))) out)"
proof (cases "\<exists>e \<in> set (part_info_to_name s). contains (fst e) i")
  case True
  then show ?thesis using addImpl_covering [OF assms(1,2) True] assms(3) by auto
next
  case False
  then have "\<forall>e \<in> set (part_info_to_name s). \<not> contains (fst e) i" by blast
  from addImpl_outcomes [OF assms(1,2) this assms(3)] show ?thesis
  proof (elim disjE conjE exE)
    assume "outcome r = HasIntersectingPart" "overlapping i (part_info_to_name s)"
    then show ?thesis using False unfolding overlapping_def by auto
  next
    fix b f assume r: "outcome r = Added" "\<not> overlapping i (part_info_to_name s)"
        "replaced_parts r = map_option (\<lambda>_. map snd (filter (\<lambda>e. contains i (fst e)) (part_info_to_name s))) out"
      and b: "filter (\<lambda>e. \<not> contains i (fst e)) (part_info_to_name s) = b @ f"
        "part_info_to_name s' = b @ (i, name) # f"
    have "set (b @ f) = {e \<in> set (part_info_to_name s). \<not> contains i (fst e)}"
      using arg_cong [OF b(1), of set] by auto
    then have "set (part_info_to_name s') = insert (i, name) {e \<in> set (part_info_to_name s). \<not> contains i (fst e)}"
      using b(2) by auto
    then show ?thesis using r False unfolding overlapping_def by auto
  qed
qed

text \<open>
  C17: \<open>addImpl\<close> against the promise of the class. It reports a covering part exactly when one
  exists, and then changes nothing; it adds the part exactly when each part of the set is covered by it or
  disjoint from it, and then the set holds the new part and every old part that it does not cover, the
  covered ones being returned as replaced, in order.
\<close>

theorem addImpl_effect:
  assumes "aps_inv (part_info_to_name s)" "wf_info i" "addImpl io i name out s = (r, s')"
  shows "(outcome r = HasCovering \<longleftrightarrow> (\<exists>e \<in> set (part_info_to_name s). contains (fst e) i))
    \<and> (outcome r = HasCovering \<longrightarrow> s' = s)
    \<and> (outcome r = Added \<longleftrightarrow> (\<forall>e \<in> set (part_info_to_name s).
         \<not> contains (fst e) i \<and> (contains i (fst e) \<or> isDisjoint i (fst e))))
    \<and> (outcome r = Added \<longrightarrow>
         set (part_info_to_name s') = insert (i, name) {e \<in> set (part_info_to_name s). \<not> contains i (fst e)}
         \<and> replaced_parts r = map_option (\<lambda>_. map snd (filter (\<lambda>e. contains i (fst e)) (part_info_to_name s))) out)"
  using assms by (rule addImpl_effect_aux)

lemmas evaluate_set = two_parts_def addImpl_def getContainingPartImpl_def split_at_def emplace_def
  info_less_def info_eq_def toTuple_def contains_def isDisjoint_def Let_def

theorem addImpl_effect_witness:
  "\<exists>r s'. addImpl dec_io (PartInfo ''all'' 1 5 2 0) ''all_1_5_2'' (Some []) two_parts = (r, s')
     \<and> set (part_info_to_name s') = {(PartInfo ''all'' 1 5 2 0, ''all_1_5_2'')}
     \<and> replaced_parts r = Some [''all_1_2_1'', ''all_4_5_1'']"
proof -
  let ?i = "PartInfo ''all'' 1 5 2 0"
  obtain r s' where a: "addImpl dec_io ?i ''all_1_5_2'' (Some []) two_parts = (r, s')" by fastforce
  have "wf_info ?i" by simp
  note e = addImpl_effect [OF two_parts_inv this a]
  have parts: "\<forall>e \<in> set (part_info_to_name two_parts). \<not> contains (fst e) ?i \<and> contains ?i (fst e)"
    by (simp add: two_parts_def contains_def)
  then have "outcome r = Added" using e by blast
  moreover have "filter (\<lambda>e. contains ?i (fst e)) (part_info_to_name two_parts) = part_info_to_name two_parts"
    using parts by (simp add: filter_id_conv)
  ultimately have "set (part_info_to_name s') = {(?i, ''all_1_5_2'')}
      \<and> replaced_parts r = Some (map snd (part_info_to_name two_parts))"
    using e parts by auto
  then show ?thesis using a by (simp add: two_parts_def)
qed

text \<open>
  C30: the queries decide their questions by looking at neighbours only: \<open>getContainingPart\<close>
  finds a covering part whenever there is one, \<open>checkIntersectingParts\<close> throws exactly when
  some part overlaps the argument without being covered by it, and \<open>getPartsCoveredBy\<close> lists
  all covered parts in order, as long as no part overlaps the argument.
\<close>

theorem neighbour_queries_complete:
  assumes "aps_inv (part_info_to_name s)" "wf_info i"
  shows "(case getContainingPartImpl i (part_info_to_name s) of
       None \<Rightarrow> \<forall>e \<in> set (part_info_to_name s). \<not> contains (fst e) i
     | Some e \<Rightarrow> e \<in> set (part_info_to_name s) \<and> contains (fst e) i)
    \<and> (checkIntersectingParts i s = Inl LOGICAL_ERROR
        \<longleftrightarrow> (\<exists>e \<in> set (part_info_to_name s). \<not> contains i (fst e) \<and> \<not> isDisjoint i (fst e)))
    \<and> ((\<forall>e \<in> set (part_info_to_name s). contains i (fst e) \<or> contains (fst e) i \<or> isDisjoint i (fst e))
        \<longrightarrow> getPartsCoveredBy i s = map snd (filter (\<lambda>e. contains i (fst e)) (part_info_to_name s)))"
  using getContainingPartImpl_None [OF assms] getContainingPartImpl_Some [of i "part_info_to_name s"]
    checkIntersectingParts_overlapping [OF assms] getPartsCoveredByImpl_filter [OF assms]
  by (auto simp: overlapping_def getPartsCoveredBy_def split: option.splits)

theorem neighbour_queries_complete_witness:
  "checkIntersectingParts (PartInfo ''all'' 2 5 2 0) two_parts = Inl LOGICAL_ERROR
   \<and> getPartsCoveredBy (PartInfo ''all'' 3 9 2 0) two_parts = [''all_4_5_1'']"
proof -
  have "wf_info (PartInfo ''all'' 2 5 2 0)" "wf_info (PartInfo ''all'' 3 9 2 0)" by simp_all
  note a = neighbour_queries_complete [OF two_parts_inv this(1)]
    and b = neighbour_queries_complete [OF two_parts_inv this(2)]
  have 1: "\<exists>e \<in> set (part_info_to_name two_parts). \<not> contains (PartInfo ''all'' 2 5 2 0) (fst e)
      \<and> \<not> isDisjoint (PartInfo ''all'' 2 5 2 0) (fst e)"
    by (simp add: two_parts_def contains_def isDisjoint_def)
  have 2: "map snd (filter (\<lambda>e. contains (PartInfo ''all'' 3 9 2 0) (fst e)) (part_info_to_name two_parts))
      = [''all_4_5_1'']"
    by (simp add: two_parts_def contains_def)
  have 3: "\<forall>e \<in> set (part_info_to_name two_parts). contains (PartInfo ''all'' 3 9 2 0) (fst e)
      \<or> contains (fst e) (PartInfo ''all'' 3 9 2 0) \<or> isDisjoint (PartInfo ''all'' 3 9 2 0) (fst e)"
    by (simp add: two_parts_def contains_def isDisjoint_def)
  show ?thesis
    using iffD2 [OF a [THEN conjunct2, THEN conjunct1] 1] mp [OF b [THEN conjunct2, THEN conjunct2] 3]
    unfolding 2 by (rule conjI)
qed

end
