(* ===== verification/Active_Part_Results.thy ===== *)
theory Active_Part_Results
  imports Active_Part_Set
begin

text \<open>
  Properties of the set of active parts over several operations: what a set built from a list of
  names covers, what a rejected addition leaves behind, and what the removals return.
\<close>

section \<open>Coverage is never lost by adding\<close>

definition covers :: "active_part_set \<Rightarrow> part_info \<Rightarrow> bool" where
  "covers s i \<longleftrightarrow> (\<exists>e \<in> set (part_info_to_name s). contains (fst e) i)"

lemma addImpl_covers:
  assumes "aps_inv (part_info_to_name s)" "wf_info i" "addImpl io i name out s = (r, s')"
    "outcome r \<noteq> HasIntersectingPart"
  shows "covers s' i" "covers s j \<Longrightarrow> covers s' j"
    "set (part_info_to_name s') \<subseteq> insert (i, name) (set (part_info_to_name s))"
proof -
  note e = addImpl_effect_aux [OF assms(1-3)]
  have "outcome r = HasCovering \<or> outcome r = Added" using assms(4) by (cases "outcome r") simp_all
  then show "covers s' i"
  proof (elim disjE)
    assume "outcome r = HasCovering"
    then show ?thesis using e unfolding covers_def by metis
  next
    assume "outcome r = Added"
    then have "(i, name) \<in> set (part_info_to_name s')" using e by blast
    then show ?thesis unfolding covers_def by force
  qed
  show "covers s j \<Longrightarrow> covers s' j"
    using \<open>outcome r = HasCovering \<or> outcome r = Added\<close>
  proof (elim disjE)
    assume c: "covers s j" and r: "outcome r = Added"
    then obtain d where d: "d \<in> set (part_info_to_name s)" "contains (fst d) j"
      unfolding covers_def by blast
    show "covers s' j"
    proof (cases "contains i (fst d)")
      case True
      then have "contains i j" using d(2) contains_trans by blast
      moreover have "(i, name) \<in> set (part_info_to_name s')" using e r by blast
      ultimately show ?thesis unfolding covers_def by force
    next
      case False
      then have "d \<in> set (part_info_to_name s')" using e r d(1) by blast
      then show ?thesis using d(2) unfolding covers_def by blast
    qed
  qed (use e in simp)
  show "set (part_info_to_name s') \<subseteq> insert (i, name) (set (part_info_to_name s))"
    using \<open>outcome r = HasCovering \<or> outcome r = Added\<close> e by auto
qed

lemma add_name_Inr:
  assumes "aps_inv (part_info_to_name s)" "add_name io name out s = (Inr x, s')"
  shows "\<exists>i. fromPartName io name (set_format s) = Inr i \<and> covers s' i
    \<and> (\<forall>j. covers s j \<longrightarrow> covers s' j) \<and> set_format s' = set_format s
    \<and> set (part_info_to_name s') \<subseteq> insert (i, name) (set (part_info_to_name s))"
proof -
  obtain i where i: "fromPartName io name (set_format s) = Inr i"
      and a: "add_info_name io i name out s = (Inr x, s')"
    using assms(2) by (auto simp: add_name_def split: sum.splits)
  obtain r where r: "addImpl io i name out s = (r, s')" "outcome r \<noteq> HasIntersectingPart"
    using a by (auto simp: add_info_name_def split: prod.splits if_splits)
  show ?thesis
    using i addImpl_covers [OF assms(1) fromPartName_wf [OF i] r] addImpl_format [OF r(1)] by blast
qed

lemma add_names_covers:
  assumes "aps_inv (part_info_to_name s)" "add_names io names s = Inr s'"
  shows "set_format s' = set_format s \<and> (\<forall>j. covers s j \<longrightarrow> covers s' j)
    \<and> (\<forall>name \<in> set names. \<exists>i. fromPartName io name (set_format s) = Inr i \<and> covers s' i)
    \<and> (\<forall>e \<in> set (part_info_to_name s'). e \<in> set (part_info_to_name s)
         \<or> (snd e \<in> set names \<and> fromPartName io (snd e) (set_format s) = Inr (fst e)))"
  using assms
proof (induction names arbitrary: s)
  case (Cons name names)
  obtain x t where t: "add_name io name None s = (Inr x, t)" "add_names io names t = Inr s'"
    using Cons.prems(2) by (auto split: prod.splits sum.splits)
  from add_name_Inr [OF Cons.prems(1) t(1)] obtain i where
    i: "fromPartName io name (set_format s) = Inr i" "covers t i" "\<forall>j. covers s j \<longrightarrow> covers t j"
      "set_format t = set_format s" "set (part_info_to_name t) \<subseteq> insert (i, name) (set (part_info_to_name s))"
    by blast
  have "aps_inv (part_info_to_name t)" using add_name_inv [OF Cons.prems(1), of io name None] t(1) by simp
  note IH = Cons.IH [OF this t(2), unfolded i(4)]
  show ?case
  proof (intro conjI)
    show "\<forall>n \<in> set (name # names). \<exists>i. fromPartName io n (set_format s) = Inr i \<and> covers s' i"
      using IH i(1,2) by auto
    show "\<forall>e \<in> set (part_info_to_name s'). e \<in> set (part_info_to_name s)
         \<or> (snd e \<in> set (name # names) \<and> fromPartName io (snd e) (set_format s) = Inr (fst e))"
      using IH i(1,5) by fastforce
  qed (use IH i(3) in simp_all)
qed simp

text \<open>
  C18: a set built from a list of names without an exception holds the maximal parts of the list:
  every name is covered by a part of the set, every part of the set was on the list under its own
  name, and no part of the set covers another.
\<close>

theorem built_set_is_maximal_parts:
  assumes "ActiveDataPartSet io fv names = Inr s"
  shows "(\<forall>name \<in> set names. \<exists>i. fromPartName io name fv = Inr i
        \<and> (\<exists>e \<in> set (part_info_to_name s). contains (fst e) i))
    \<and> (\<forall>e \<in> set (part_info_to_name s). snd e \<in> set names \<and> fromPartName io (snd e) fv = Inr (fst e))
    \<and> (\<forall>e \<in> set (part_info_to_name s). \<forall>d \<in> set (part_info_to_name s).
         contains (fst e) (fst d) \<longrightarrow> e = d)"
proof -
  have a: "add_names io names \<lparr>set_format = fv, part_info_to_name = []\<rparr> = Inr s"
    using assms by (simp add: ActiveDataPartSet_def)
  have inv: "aps_inv (part_info_to_name s)" using add_names_inv [OF _ a] by simp
  have "contains (fst e) (fst d) \<longrightarrow> e = d"
    if "e \<in> set (part_info_to_name s)" "d \<in> set (part_info_to_name s)" for e d
    using covering_unique [OF inv aps_inv_wf [OF inv that(2)] that] by simp
  then show ?thesis using add_names_covers [OF _ a] by (simp add: covers_def)
qed

text \<open>The list of two parts where the first is covered by the second.\<close>

abbreviation name_of :: "part_info \<Rightarrow> string" where
  "name_of i \<equiv> getPartNameV1 dec_io i"

lemma printable_demo:
  "printable (PartInfo ''all'' 1 2 1 0)" "printable (PartInfo ''all'' 2 2 0 0)"
  "printable (PartInfo ''all'' 1 4 2 0)" "printable (PartInfo ''all'' 4 5 1 0)"
  by (simp_all add: printable_def PartInfo_def wf_info_def LEGACY_MAX_LEVEL_def)

lemmas parse_demo = printable_demo [THEN fromPartName_dec] printable_demo [THEN fromPartName_dec, simplified]

theorem built_set_is_maximal_parts_witness:
  "\<exists>s. ActiveDataPartSet dec_io 1 [name_of (PartInfo ''all'' 2 2 0 0), name_of (PartInfo ''all'' 1 2 1 0)] = Inr s
     \<and> (\<exists>e \<in> set (part_info_to_name s). contains (fst e) (PartInfo ''all'' 2 2 0 0))"
proof -
  have "\<exists>s. ActiveDataPartSet dec_io 1 [name_of (PartInfo ''all'' 2 2 0 0), name_of (PartInfo ''all'' 1 2 1 0)] = Inr s"
    by (simp add: ActiveDataPartSet_def add_name_def parse_demo add_info_name_def evaluate_set)
  then obtain s where
    s: "ActiveDataPartSet dec_io 1 [name_of (PartInfo ''all'' 2 2 0 0), name_of (PartInfo ''all'' 1 2 1 0)] = Inr s"
    by blast
  from built_set_is_maximal_parts [OF this] have
    "\<exists>i. fromPartName dec_io (name_of (PartInfo ''all'' 2 2 0 0)) 1 = Inr i
       \<and> (\<exists>e \<in> set (part_info_to_name s). contains (fst e) i)" by simp
  then show ?thesis using s parse_demo(2) by auto
qed

section \<open>A rejected addition\<close>

text \<open>
  C36: a part rejected because of a part to its right has already cost the set every covered part
  to its left: \<open>addImpl\<close> erases while it still searches, and reports the intersection (or lets
  \<open>add\<close> throw) without putting the erased parts back.
\<close>

theorem rejected_addition_erases:
  assumes "aps_inv (part_info_to_name s)" "wf_info i" "\<forall>e \<in> set (part_info_to_name s). \<not> contains (fst e) i"
    and left: "\<forall>e \<in> set (part_info_to_name s). info_less (fst e) i \<longrightarrow> contains i (fst e) \<or> isDisjoint i (fst e)"
    and x: "x \<in> set (part_info_to_name s)" "\<not> contains i (fst x)" "\<not> isDisjoint i (fst x)"
    and a: "addImpl io i name out s = (r, s')"
  shows "outcome r = HasIntersectingPart \<and> set (part_info_to_name s') \<subseteq> set (part_info_to_name s)
    \<and> (\<forall>e \<in> set (part_info_to_name s). info_less (fst e) i \<and> contains i (fst e) \<longrightarrow> e \<notin> set (part_info_to_name s'))"
proof -
  have "overlapping i (part_info_to_name s)" using x unfolding overlapping_def by blast
  with addImpl_outcomes [OF assms(1-3) a] obtain d where
    r: "outcome r = HasIntersectingPart" "mset (part_info_to_name s) = mset d + mset (part_info_to_name s')"
    by blast
  obtain b f where sp: "split_at i (part_info_to_name s) = (b, f)" by fastforce
  note app = split_at_app [OF sp]
  obtain kl nl bad where el: "erase_left i (rev b) = (kl, nl, bad)" by (metis prod_cases3)
  obtain kr nr where er: "erase_right i f = (kr, nr)" by fastforce
  have bad: "bad = None"
  proof (rule ccontr)
    assume "bad \<noteq> None"
    then obtain y where "bad = Some y" by blast
    from erase_left_bad [OF el [unfolded this]] obtain u e w where
      e: "rev b = u @ e # w" "\<not> contains i (fst e)" "\<not> isDisjoint i (fst e)" by blast
    have "e \<in> set b" using arg_cong [OF e(1), of set] by auto
    then have "contains i (fst e) \<or> isDisjoint i (fst e)"
      using left [rule_format, of e] split_at_before [OF sp, of e] app by simp
    then show False using e(2,3) by blast
  qed
  have "aps_inv (rev (rev b))" using assms(1) unfolding app by (simp add: aps_inv_append)
  then have kl: "\<forall>e \<in> set kl. \<not> contains i (fst e)"
    using erase_left_done [OF el [unfolded bad] _ _ assms(2)] split_at_before [OF sp] by simp
  have "\<forall>e \<in> set kr. \<not> info_less (fst e) i"
  proof
    fix e assume "e \<in> set kr"
    then have "e \<in> set f" using erase_right_split [OF er] by force
    then show "\<not> info_less (fst e) i" by (rule split_at_from [OF sp assms(1)])
  qed
  moreover have "part_info_to_name s' = rev kl @ kr"
    using a r(1) getContainingPartImpl_None [OF assms(1,2)] assms(3) sp el er bad
    by (auto simp: addImpl_def Let_def split: if_splits)
  ultimately have "\<forall>e \<in> set (part_info_to_name s'). \<not> (info_less (fst e) i \<and> contains i (fst e))"
    using kl by auto
  moreover have "set (part_info_to_name s') \<subseteq> set (part_info_to_name s)"
    using arg_cong [OF r(2), of set_mset] by simp
  ultimately show ?thesis using r(1) by blast
qed

theorem rejected_addition_erases_witness:
  "\<exists>r s'. addImpl dec_io (PartInfo ''all'' 1 4 2 0) ''all_1_4_2'' None two_parts = (r, s')
     \<and> outcome r = HasIntersectingPart \<and> (PartInfo ''all'' 1 2 1 0, ''all_1_2_1'') \<notin> set (part_info_to_name s')"
proof -
  let ?i = "PartInfo ''all'' 1 4 2 0" and ?e = "(PartInfo ''all'' 1 2 1 0, ''all_1_2_1'')"
    and ?x = "(PartInfo ''all'' 4 5 1 0, ''all_4_5_1'')"
  obtain r s' where a: "addImpl dec_io ?i ''all_1_4_2'' None two_parts = (r, s')" by fastforce
  have "wf_info ?i" by simp
  moreover have "\<forall>e \<in> set (part_info_to_name two_parts). \<not> contains (fst e) ?i"
    by (simp add: two_parts_def contains_def)
  moreover have "\<forall>e \<in> set (part_info_to_name two_parts).
      info_less (fst e) ?i \<longrightarrow> contains ?i (fst e) \<or> isDisjoint ?i (fst e)"
    by (simp add: two_parts_def contains_def info_less_def toTuple_def)
  moreover have "?x \<in> set (part_info_to_name two_parts)" "\<not> contains ?i (fst ?x)" "\<not> isDisjoint ?i (fst ?x)"
    by (simp_all add: two_parts_def contains_def isDisjoint_def)
  ultimately have "outcome r = HasIntersectingPart
      \<and> (\<forall>e \<in> set (part_info_to_name two_parts). info_less (fst e) ?i \<and> contains ?i (fst e)
           \<longrightarrow> e \<notin> set (part_info_to_name s'))"
    using rejected_addition_erases [OF two_parts_inv _ _ _ _ _ _ a] by blast
  moreover have "?e \<in> set (part_info_to_name two_parts)" "info_less (fst ?e) ?i" "contains ?i (fst ?e)"
    by (simp_all add: two_parts_def contains_def info_less_def toTuple_def)
  ultimately show ?thesis using a by blast
qed

section \<open>Removing covered parts\<close>

text \<open>Every name of the set parses to the info it stands for.\<close>

definition named_by_infos :: "text_io \<Rightarrow> active_part_set \<Rightarrow> bool" where
  "named_by_infos io s \<longleftrightarrow> (\<forall>e \<in> set (part_info_to_name s).
     \<exists>j. fromPartName io (snd e) (set_format s) = Inr j \<and> info_eq j (fst e))"

lemma info_eq_sym: "info_eq a b \<longleftrightarrow> info_eq b a"
  by (auto simp: info_eq_def)

lemma info_eq_trans: "info_eq a b \<Longrightarrow> info_eq b c \<Longrightarrow> info_eq a c"
  by (simp add: info_eq_def)

lemma contains_info_eq: "info_eq a b \<Longrightarrow> contains i a \<longleftrightarrow> contains i b"
  by (simp add: info_eq_def toTuple_def contains_def)

lemma remove_names_effect:
  assumes "\<forall>n \<in> set names. fromPartName io n (set_format s) = Inr (p n)"
  shows "\<exists>b. remove_names io names acc s
      = (Inr b, s\<lparr>part_info_to_name := filter (\<lambda>e. \<forall>n \<in> set names. \<not> info_eq (fst e) (p n)) (part_info_to_name s)\<rparr>)
    \<and> (b \<longrightarrow> acc \<and> (\<forall>n \<in> set names. \<exists>e \<in> set (part_info_to_name s). info_eq (fst e) (p n)))"
  using assms
proof (induction names arbitrary: acc s)
  case (Cons name names)
  let ?s = "s\<lparr>part_info_to_name := filter (\<lambda>e. \<not> info_eq (fst e) (p name)) (part_info_to_name s)\<rparr>"
  have step: "remove_names io (name # names) acc s
      = remove_names io names (acc \<and> list_ex (\<lambda>e. info_eq (fst e) (p name)) (part_info_to_name s)) ?s"
    using Cons.prems by (simp add: remove_name_def remove_info_def)
  have "\<forall>n \<in> set names. fromPartName io n (set_format ?s) = Inr (p n)" using Cons.prems by simp
  from Cons.IH [OF this, of "acc \<and> list_ex (\<lambda>e. info_eq (fst e) (p name)) (part_info_to_name s)"]
  obtain b where b: "remove_names io (name # names) acc s
      = (Inr b, ?s\<lparr>part_info_to_name := filter (\<lambda>e. \<forall>n \<in> set names. \<not> info_eq (fst e) (p n)) (part_info_to_name ?s)\<rparr>)"
    "b \<Longrightarrow> acc \<and> list_ex (\<lambda>e. info_eq (fst e) (p name)) (part_info_to_name s)"
    "b \<Longrightarrow> \<forall>n \<in> set names. \<exists>e \<in> set (part_info_to_name ?s). info_eq (fst e) (p n)"
    unfolding step by blast
  have "b \<longrightarrow> acc \<and> (\<forall>n \<in> set (name # names). \<exists>e \<in> set (part_info_to_name s). info_eq (fst e) (p n))"
  proof
    assume "b"
    have "\<exists>e \<in> set (part_info_to_name s). info_eq (fst e) (p n)" if "n \<in> set names" for n
    proof -
      have "\<exists>e \<in> set (part_info_to_name ?s). info_eq (fst e) (p n)" using b(3) [OF \<open>b\<close>] that by blast
      then show ?thesis by (simp add: Bex_def) blast
    qed
    then show "acc \<and> (\<forall>n \<in> set (name # names). \<exists>e \<in> set (part_info_to_name s). info_eq (fst e) (p n))"
      using b(2) [OF \<open>b\<close>] by (simp add: list_ex_iff)
  qed
  then show ?case using b(1) by (intro exI [of _ b] conjI) simp_all
qed simp

lemma remove_names_all:
  assumes "sorted_wrt (\<lambda>a b. info_less (fst a) (fst b)) ds" "set ds \<subseteq> set (part_info_to_name s)"
    "\<forall>d \<in> set ds. \<exists>j. fromPartName io (snd d) (set_format s) = Inr j \<and> info_eq j (fst d)"
  shows "\<exists>s'. remove_names io (map snd ds) acc s = (Inr acc, s')"
  using assms
proof (induction ds arbitrary: s)
  case (Cons d ds)
  obtain j where j: "fromPartName io (snd d) (set_format s) = Inr j" "info_eq j (fst d)"
    using Cons.prems(3) by auto
  let ?s = "s\<lparr>part_info_to_name := filter (\<lambda>e. \<not> info_eq (fst e) j) (part_info_to_name s)\<rparr>"
  have "list_ex (\<lambda>e. info_eq (fst e) j) (part_info_to_name s)"
    using Cons.prems(2) j(2) info_eq_sym by (auto simp: list_ex_iff)
  then have step: "remove_names io (map snd (d # ds)) acc s = remove_names io (map snd ds) acc ?s"
    using j by (simp add: remove_name_def remove_info_def)
  have "\<not> info_eq (fst e) j" if "e \<in> set ds" for e
    using that Cons.prems(1) j(2) by (auto simp: info_less_def info_eq_def)
  then have "set ds \<subseteq> set (part_info_to_name ?s)" using Cons.prems(2) by auto
  from Cons.IH [OF _ this] Cons.prems(1,3) step show ?case by simp
qed simp

lemma removePartAndCoveredParts_aux:
  assumes "aps_inv (part_info_to_name s)" "wf_info i" "named_by_infos io s"
    "\<forall>e \<in> set (part_info_to_name s). contains i (fst e) \<or> contains (fst e) i \<or> isDisjoint i (fst e)"
  shows "removePartAndCoveredParts io i s
    = (Inr False, s\<lparr>part_info_to_name := filter (\<lambda>e. \<not> contains i (fst e)) (part_info_to_name s)\<rparr>)"
proof -
  let ?ps = "part_info_to_name s"
  let ?names = "map snd (filter (covered_by i) ?ps)"
  let ?s = "s\<lparr>part_info_to_name := filter (\<lambda>e. \<not> info_eq (fst e) i) ?ps\<rparr>"
  let ?p = "\<lambda>n. projr (fromPartName io n (set_format s))"
  have p: "fromPartName io (snd e) (set_format s) = Inr (?p (snd e)) \<and> info_eq (?p (snd e)) (fst e)"
    if "e \<in> set ?ps" for e
    using assms(3) that unfolding named_by_infos_def by fastforce
  then have "\<forall>n \<in> set ?names. fromPartName io n (set_format ?s) = Inr (?p n)" by auto
  from remove_names_effect [OF this, of "list_ex (\<lambda>e. info_eq (fst e) i) ?ps"] obtain b where
    b: "remove_names io ?names (list_ex (\<lambda>e. info_eq (fst e) i) ?ps) ?s
      = (Inr b, ?s\<lparr>part_info_to_name := filter (\<lambda>e. \<forall>n \<in> set ?names. \<not> info_eq (fst e) (?p n)) (part_info_to_name ?s)\<rparr>)"
    "b \<Longrightarrow> list_ex (\<lambda>e. info_eq (fst e) i) ?ps"
    "b \<Longrightarrow> \<forall>n \<in> set ?names. \<exists>e \<in> set (part_info_to_name ?s). info_eq (fst e) (?p n)" by blast
  have "\<not> b"
  proof
    assume "b"
    then obtain e where e: "e \<in> set ?ps" "info_eq (fst e) i" using b(2) by (auto simp: list_ex_iff)
    then have "snd e \<in> set ?names" using info_eq_contains info_eq_sym by auto
    then obtain d where d: "d \<in> set (part_info_to_name ?s)" "info_eq (fst d) (?p (snd e))"
      using b(3) \<open>b\<close> by blast
    have "info_eq (fst d) i" using d(2) p [OF e(1)] e(2) info_eq_trans by blast
    then show False using d(1) by simp
  qed
  moreover have "(\<not> info_eq (fst e) i \<and> (\<forall>n \<in> set ?names. \<not> info_eq (fst e) (?p n))) \<longleftrightarrow> \<not> contains i (fst e)"
    if e: "e \<in> set ?ps" for e
  proof (cases "contains i (fst e)")
    case True
    then have "snd e \<in> set ?names" using e by auto
    then show ?thesis using True p [OF e] info_eq_sym by blast
  next
    case False
    have "\<not> info_eq (fst e) (?p (snd d))" if "d \<in> set ?ps" "contains i (fst d)" for d
      using p [OF that(1)] that(2) False contains_info_eq info_eq_trans by blast
    then show ?thesis using False info_eq_contains info_eq_sym by auto
  qed
  then have "filter (\<lambda>e. \<not> info_eq (fst e) i \<and> (\<forall>n \<in> set ?names. \<not> info_eq (fst e) (?p n))) ?ps
      = filter (\<lambda>e. \<not> contains i (fst e)) ?ps"
    by (rule filter_cong [OF refl])
  ultimately show ?thesis
    using b(1) getPartsCoveredByImpl_filter [OF assms(1,2,4)]
    by (simp add: removePartAndCoveredParts_def getPartsCoveredBy_def remove_info_def conj_commute)
qed

lemma removePartsCoveredBy_aux:
  assumes "aps_inv (part_info_to_name s)" "fromPartName io name (set_format s) = Inr i" "named_by_infos io s"
    "\<forall>e \<in> set (part_info_to_name s). contains i (fst e) \<or> contains (fst e) i \<or> isDisjoint i (fst e)"
  shows "removePartsCoveredBy io name s
    = (Inr True, s\<lparr>part_info_to_name := filter (\<lambda>e. \<not> contains i (fst e) \<or> snd e = name) (part_info_to_name s)\<rparr>)"
proof -
  let ?ps = "part_info_to_name s"
  let ?ds = "filter (\<lambda>e. covered_by i e \<and> snd e \<noteq> name) ?ps"
  let ?p = "\<lambda>n. projr (fromPartName io n (set_format s))"
  have p: "fromPartName io (snd e) (set_format s) = Inr (?p (snd e)) \<and> info_eq (?p (snd e)) (fst e)"
    if "e \<in> set ?ps" for e
    using assms(3) that unfolding named_by_infos_def by fastforce
  have names: "filter (\<lambda>part. part \<noteq> name) (getPartsCoveredBy i s) = map snd ?ds"
    using getPartsCoveredByImpl_filter [OF assms(1) fromPartName_wf [OF assms(2)] assms(4)]
    by (simp add: getPartsCoveredBy_def filter_map o_def)
  have "sorted_wrt (\<lambda>a b. info_less (fst a) (fst b)) ?ps"
    using assms(1) by (auto simp: aps_inv_def intro: sorted_wrt_mono_rel [rotated])
  then have "\<exists>s'. remove_names io (map snd ?ds) True s = (Inr True, s')"
  proof (intro remove_names_all)
    assume "sorted_wrt (\<lambda>a b. info_less (fst a) (fst b)) ?ps"
    then show "sorted_wrt (\<lambda>a b. info_less (fst a) (fst b)) ?ds" by (rule sorted_wrt_filter)
    show "\<forall>d \<in> set ?ds. \<exists>j. fromPartName io (snd d) (set_format s) = Inr j \<and> info_eq j (fst d)"
      using p by (metis (no_types, lifting) filter_is_subset subsetD)
  qed simp
  moreover have "\<forall>n \<in> set (map snd ?ds). fromPartName io n (set_format s) = Inr (?p n)" using p by auto
  note remove_names_effect [OF this, of True]
  ultimately have r: "remove_names io (map snd ?ds) True s
      = (Inr True, s\<lparr>part_info_to_name := filter (\<lambda>e. \<forall>n \<in> set (map snd ?ds). \<not> info_eq (fst e) (?p n)) ?ps\<rparr>)"
    by fastforce
  have "(\<forall>n \<in> set (map snd ?ds). \<not> info_eq (fst e) (?p n)) \<longleftrightarrow> \<not> contains i (fst e) \<or> snd e = name"
    if e: "e \<in> set ?ps" for e
  proof -
    have *: "info_eq (fst e) (?p (snd d)) \<longleftrightarrow> e = d" if d: "d \<in> set ?ps" for d
    proof
      assume "info_eq (fst e) (?p (snd d))"
      then have "info_eq (fst e) (fst d)" using p [OF d] info_eq_trans by blast
      then show "e = d"
        using covering_unique [OF assms(1) aps_inv_wf [OF assms(1) d] e d] info_eq_contains by simp
    qed (use p [OF d] info_eq_sym in blast)
    then have "(\<forall>n \<in> set (map snd ?ds). \<not> info_eq (fst e) (?p n)) \<longleftrightarrow> e \<notin> set ?ds"
    proof -
      have "(\<forall>n \<in> set (map snd ?ds). \<not> info_eq (fst e) (?p n)) \<longleftrightarrow> (\<forall>d \<in> set ?ds. e \<noteq> d)"
        unfolding set_map ball_simps set_filter mem_Collect_eq using * by blast
      then show ?thesis by blast
    qed
    then show ?thesis using e by simp
  qed
  then have "filter (\<lambda>e. \<forall>n \<in> set (map snd ?ds). \<not> info_eq (fst e) (?p n)) ?ps
      = filter (\<lambda>e. \<not> contains i (fst e) \<or> snd e = name) ?ps"
    by (rule filter_cong [OF refl])
  then show ?thesis using r assms(2) names by (simp add: removePartsCoveredBy_def)
qed

text \<open>
  In a set whose names stand for their infos, both removals delete exactly the covered parts
  (the second one keeping the named part itself), but their results differ: \<open>removePartsCoveredBy\<close>
  reports success, while \<open>removePartAndCoveredParts\<close> reports failure whatever it did, since a part
  that is present is listed among the parts it covers and removed a second time.
\<close>

theorem removal_results:
  assumes "aps_inv (part_info_to_name s)" "fromPartName io name (set_format s) = Inr i" "named_by_infos io s"
    "\<forall>e \<in> set (part_info_to_name s). contains i (fst e) \<or> contains (fst e) i \<or> isDisjoint i (fst e)"
  shows "removePartAndCoveredParts_name io name s
      = (Inr False, s\<lparr>part_info_to_name := filter (\<lambda>e. \<not> contains i (fst e)) (part_info_to_name s)\<rparr>)
    \<and> removePartsCoveredBy io name s
      = (Inr True, s\<lparr>part_info_to_name := filter (\<lambda>e. \<not> contains i (fst e) \<or> snd e = name) (part_info_to_name s)\<rparr>)"
  using removePartAndCoveredParts_aux [OF assms(1) fromPartName_wf [OF assms(2)] assms(3,4)]
    removePartsCoveredBy_aux [OF assms] assms(2)
  by (simp add: removePartAndCoveredParts_name_def)

theorem removal_results_witness:
  "\<exists>s'. removePartAndCoveredParts_name dec_io (name_of (PartInfo ''all'' 1 2 1 0))
     \<lparr>set_format = 1, part_info_to_name = [(PartInfo ''all'' 1 2 1 0, name_of (PartInfo ''all'' 1 2 1 0))]\<rparr>
     = (Inr False, s') \<and> part_info_to_name s' = []"
proof -
  let ?i = "PartInfo ''all'' 1 2 1 0"
  let ?s = "\<lparr>set_format = 1, part_info_to_name = [(?i, name_of ?i)]\<rparr> :: active_part_set"
  have "aps_inv (part_info_to_name ?s)" by (simp add: aps_inv_Cons)
  moreover have "fromPartName dec_io (name_of ?i) (set_format ?s) = Inr ?i" by (simp add: parse_demo)
  moreover have "named_by_infos dec_io ?s" by (simp add: named_by_infos_def parse_demo info_eq_def)
  moreover have "\<forall>e \<in> set (part_info_to_name ?s). contains ?i (fst e) \<or> contains (fst e) ?i \<or> isDisjoint ?i (fst e)"
    by simp
  ultimately have "removePartAndCoveredParts_name dec_io (name_of ?i) ?s
      = (Inr False, ?s\<lparr>part_info_to_name := filter (\<lambda>e. \<not> contains ?i (fst e)) (part_info_to_name ?s)\<rparr>)"
    by (rule removal_results [THEN conjunct1])
  then show ?thesis by simp
qed

end
