(* ===== verification/Log_Entry.thy ===== *)
theory Log_Entry
  imports Part_Name
begin

text \<open>
  \<open>ReplicatedMergeTreeLogEntry.h\<close> and \<open>ReplicatedMergeTreeLogEntry.cpp\<close>: an entry of the replication
  log, the part names it produces, blocks and drops, and its text form, which is stored in the
  coordination service and read by every replica.

  The formatting and parsing of single values (numbers, escaped and quoted strings, dates, UUIDs,
  literals) belongs to the I/O library, which is not part of the repository: it is the parameter
  \<open>entry_io\<close>.
\<close>

section \<open>The entry\<close>

datatype entry_type =
    EMPTY
  | GET_PART
  | ATTACH_PART
  | MERGE_PARTS
  | DROP_RANGE
  | CLEAR_COLUMN
  | CLEAR_INDEX
  | REPLACE_RANGE
  | MUTATE_PART
  | ALTER_METADATA
  | SYNC_PINNED_PART_UUIDS
  | CLONE_PART_FROM_SHARD
  | DROP_PART

definition typeToString :: "entry_type \<Rightarrow> string result" where
  "typeToString t =
     (case t of
        GET_PART \<Rightarrow> Inr ''GET_PART''
      | ATTACH_PART \<Rightarrow> Inr ''ATTACH_PART''
      | MERGE_PARTS \<Rightarrow> Inr ''MERGE_PARTS''
      | DROP_RANGE \<Rightarrow> Inr ''DROP_RANGE''
      | CLEAR_COLUMN \<Rightarrow> Inr ''CLEAR_COLUMN''
      | CLEAR_INDEX \<Rightarrow> Inr ''CLEAR_INDEX''
      | REPLACE_RANGE \<Rightarrow> Inr ''REPLACE_RANGE''
      | MUTATE_PART \<Rightarrow> Inr ''MUTATE_PART''
      | ALTER_METADATA \<Rightarrow> Inr ''ALTER_METADATA''
      | SYNC_PINNED_PART_UUIDS \<Rightarrow> Inr ''SYNC_PINNED_PART_UUIDS''
      | CLONE_PART_FROM_SHARD \<Rightarrow> Inr ''CLONE_PART_FROM_SHARD''
      | DROP_PART \<Rightarrow> Inr ''DROP_PART''
      | EMPTY \<Rightarrow> Inl LOGICAL_ERROR)"

datatype merge_type = MergeRegular | TTLDelete | TTLRecompress | TTLDrop

definition merge_type_value :: "merge_type \<Rightarrow> nat" where
  "merge_type_value t = (case t of MergeRegular \<Rightarrow> 1 | TTLDelete \<Rightarrow> 2 | TTLRecompress \<Rightarrow> 3 | TTLDrop \<Rightarrow> 4)"

definition checkAndGetMergeType :: "nat \<Rightarrow> merge_type result" where
  "checkAndGetMergeType n =
     (if n = 1 then Inr MergeRegular else if n = 2 then Inr TTLDelete
      else if n = 3 then Inr TTLRecompress else if n = 4 then Inr TTLDrop else Inl NOT_IMPLEMENTED)"

definition isTTLMergeType :: "merge_type \<Rightarrow> bool" where
  "isTTLMergeType t \<longleftrightarrow> t = TTLDelete \<or> t = TTLRecompress \<or> t = TTLDrop"

datatype part_type = Wide | Compact | UnknownType

datatype storage_type = Full | Packed | UnknownStorage

definition part_type_toString :: "part_type \<Rightarrow> string" where
  "part_type_toString t = (case t of Wide \<Rightarrow> ''Wide'' | Compact \<Rightarrow> ''Compact'' | UnknownType \<Rightarrow> ''Unknown'')"

text \<open>\<open>parseEnum\<close>: the value \<open>Unknown\<close> is not accepted.\<close>

definition part_type_fromString :: "string \<Rightarrow> part_type result" where
  "part_type_fromString s =
     (if s = ''Wide'' then Inr Wide else if s = ''Compact'' then Inr Compact else Inl BAD_ARGUMENTS)"

definition storage_type_toString :: "storage_type \<Rightarrow> string" where
  "storage_type_toString t =
     (case t of Full \<Rightarrow> ''Full'' | Packed \<Rightarrow> ''Packed'' | UnknownStorage \<Rightarrow> ''Unknown'')"

definition storage_type_fromString :: "string \<Rightarrow> storage_type result" where
  "storage_type_fromString s =
     (if s = ''Full'' then Inr Full else if s = ''Packed'' then Inr Packed else Inl BAD_ARGUMENTS)"

record replace_range_entry =
  drop_range_part_name :: string
  from_database :: string
  from_table :: string
  src_part_names :: "string list"
  new_part_names :: "string list"
  part_names_checksums :: "string list"
  columns_version :: int

text \<open>The persistent fields; the bookkeeping of executions (attempts, postponements) is not part of them.\<close>

record log_entry =
  znode_name :: string
  log_entry_id :: string
  entry_type :: entry_type
  source_replica :: string
  source_shard :: string
  part_checksum :: string
  new_part_name :: string
  new_part_type :: part_type
  new_storage_type :: storage_type
  deduplication_block_ids :: "string list"
  new_part_uuid :: nat
  source_parts :: "string list"
  patch_parts :: "string list"
  deduplicate :: bool
  deduplicate_by_columns :: "string list"
  cleanup :: bool
  merge_type :: merge_type
  column_name :: string
  index_name :: string
  detach :: bool
  replace_range_entry :: "replace_range_entry option"
  alter_version :: int
  have_mutation :: bool
  columns_str :: string
  metadata_str :: string
  create_time :: nat
  quorum :: nat

definition empty_entry :: log_entry where
  "empty_entry = \<lparr>znode_name = [], log_entry_id = [], entry_type = EMPTY, source_replica = [],
     source_shard = [], part_checksum = [], new_part_name = [], new_part_type = UnknownType,
     new_storage_type = UnknownStorage, deduplication_block_ids = [], new_part_uuid = 0,
     source_parts = [], patch_parts = [], deduplicate = False, deduplicate_by_columns = [],
     cleanup = False, merge_type = MergeRegular, column_name = [], index_name = [], detach = False,
     replace_range_entry = None, alter_version = - 1, have_mutation = False, columns_str = [],
     metadata_str = [], create_time = 0, quorum = 0\<rparr>"

definition isAlterMutation :: "log_entry \<Rightarrow> bool" where
  "isAlterMutation e \<longleftrightarrow> entry_type e = MUTATE_PART \<and> alter_version e \<noteq> - 1"

section \<open>What an entry produces, blocks and drops\<close>

text \<open>The assertion that the block count is not zero is checked in debug builds only.\<close>

definition isMovePartitionOrAttachFrom :: "part_info \<Rightarrow> bool" where
  "isMovePartitionOrAttachFrom drop_range_info \<longleftrightarrow> getBlocksCount drop_range_info = 1"

definition getDropRange :: "text_io \<Rightarrow> format_version \<Rightarrow> log_entry \<Rightarrow> string option result" where
  "getDropRange io fv e =
     (if entry_type e = DROP_RANGE then Inr (Some (new_part_name e))
      else if entry_type e = DROP_PART then Inr (Some (new_part_name e))
      else if entry_type e = REPLACE_RANGE then
        (case replace_range_entry e of
           None \<Rightarrow> Inl UB
         | Some r \<Rightarrow>
             bind_r (fromPartName io (drop_range_part_name r) fv) (\<lambda>drop_range_info.
               if \<not> isMovePartitionOrAttachFrom drop_range_info then Inr (Some (drop_range_part_name r))
               else Inr None))
      else Inr None)"

definition isDropPart :: "log_entry \<Rightarrow> bool" where
  "isDropPart e \<longleftrightarrow> entry_type e = DROP_PART"

definition getVirtualPartNames :: "text_io \<Rightarrow> format_version \<Rightarrow> log_entry \<Rightarrow> string list result" where
  "getVirtualPartNames io fv e =
     (if entry_type e = ALTER_METADATA then Inr []
      else if entry_type e = DROP_RANGE then Inr [new_part_name e]
      else if entry_type e = REPLACE_RANGE then
        (case replace_range_entry e of
           None \<Rightarrow> Inl UB
         | Some r \<Rightarrow>
             bind_r (fromPartName io (drop_range_part_name r) fv) (\<lambda>_.
             bind_r (getDropRange io fv e) (\<lambda>drop_range.
               case drop_range of
                 Some d \<Rightarrow> Inr (new_part_names r @ [d])
               | None \<Rightarrow> Inr (new_part_names r))))
      else if entry_type e = DROP_PART then Inr []
      else if entry_type e = SYNC_PINNED_PART_UUIDS then Inr []
      else if entry_type e = CLONE_PART_FROM_SHARD then Inr []
      else Inr [new_part_name e])"

fun join_with :: "string \<Rightarrow> string list \<Rightarrow> string" where
  "join_with sep [] = []"
| "join_with sep [x] = x"
| "join_with sep (x # y # xs) = x @ sep @ join_with sep (y # xs)"

definition getDescriptionForLogs :: "text_io \<Rightarrow> format_version \<Rightarrow> log_entry \<Rightarrow> string result" where
  "getDescriptionForLogs io fv e =
     bind_r (typeToString (entry_type e)) (\<lambda>t.
     bind_r (getVirtualPartNames io fv e) (\<lambda>names.
     bind_r (getDropRange io fv e) (\<lambda>drop_range.
       let description = t @ '' with virtual parts ['' @ join_with '', '' names @ '']''
       in case drop_range of
            Some d \<Rightarrow> Inr (description @ '' and drop range '' @ d)
          | None \<Rightarrow> Inr description)))"

section \<open>Values in the text form\<close>

record 'a codec =
  put_value :: "'a \<Rightarrow> string"
  get_value :: "string \<Rightarrow> ('a \<times> string) result"

text \<open>
  \<open>expect\<close> is reading a literal (\<open>in >> "..."\<close>), \<open>check_literal\<close> is
  \<open>checkString\<close>, \<open>split_ids\<close> is \<open>splitInto<','>\<close> with empty tokens
  compressed. \<open>plain\<close> is \<open><<\<close> and \<open>>>\<close> of a string without
  manipulator.
\<close>

record entry_io =
  plain :: "string codec"
  escaped :: "string codec"
  quoted :: "string codec"
  quoted_list :: "string list codec"
  unsigned_text :: "nat codec"
  signed_text :: "int codec"
  flag :: "bool codec"
  uuid_text :: "nat codec"
  date_time :: "nat codec"
  expect :: "string \<Rightarrow> string \<Rightarrow> string result"
  check_literal :: "string \<Rightarrow> string \<Rightarrow> bool \<times> string"
  split_ids :: "string \<Rightarrow> string list"

abbreviation nl :: string where "nl \<equiv> [CHR 0x0A]"

definition FORMAT_WITH_CREATE_TIME :: nat where "FORMAT_WITH_CREATE_TIME = 2"
definition FORMAT_WITH_BLOCK_ID :: nat where "FORMAT_WITH_BLOCK_ID = 3"
definition FORMAT_WITH_DEDUPLICATE :: nat where "FORMAT_WITH_DEDUPLICATE = 4"
definition FORMAT_WITH_UUID :: nat where "FORMAT_WITH_UUID = 5"
definition FORMAT_WITH_DEDUPLICATE_BY_COLUMNS :: nat where "FORMAT_WITH_DEDUPLICATE_BY_COLUMNS = 6"
definition FORMAT_WITH_LOG_ENTRY_ID :: nat where "FORMAT_WITH_LOG_ENTRY_ID = 7"
definition FORMAT_LAST :: nat where "FORMAT_LAST = 8"

lemmas format_versions = FORMAT_WITH_CREATE_TIME_def FORMAT_WITH_BLOCK_ID_def FORMAT_WITH_DEDUPLICATE_def
  FORMAT_WITH_UUID_def FORMAT_WITH_DEDUPLICATE_BY_COLUMNS_def FORMAT_WITH_LOG_ENTRY_ID_def FORMAT_LAST_def

section \<open>Writing\<close>

definition write_format_version :: "log_entry \<Rightarrow> nat" where
  "write_format_version e =
     (let v = FORMAT_WITH_DEDUPLICATE;
          v = (if deduplicate_by_columns e \<noteq> [] then max v FORMAT_WITH_DEDUPLICATE_BY_COLUMNS else v);
          v = (if new_part_uuid e \<noteq> 0 then max v FORMAT_WITH_UUID else v)
      in if log_entry_id e \<noteq> [] then max v FORMAT_WITH_LOG_ENTRY_ID else v)"

text \<open>\<open>now\<close> is \<open>time(nullptr)\<close>.\<close>

definition write_head :: "entry_io \<Rightarrow> nat \<Rightarrow> log_entry \<Rightarrow> string" where
  "write_head io now e =
     ''format version: '' @ put_value (unsigned_text io) (write_format_version e) @ nl
     @ ''create_time: '' @ put_value (date_time io) (if create_time e \<noteq> 0 then create_time e else now) @ nl
     @ ''source replica: '' @ put_value (plain io) (source_replica e) @ nl
     @ ''block_id: '' @ put_value (escaped io) (join_with '','' (deduplication_block_ids e)) @ nl
     @ (if write_format_version e \<ge> FORMAT_WITH_LOG_ENTRY_ID
        then ''log_entry_id: '' @ put_value (escaped io) (log_entry_id e) @ nl else [])"

fun write_lines :: "entry_io \<Rightarrow> string list \<Rightarrow> string" where
  "write_lines io [] = []"
| "write_lines io (s # ss) = put_value (plain io) s @ nl @ write_lines io ss"

fun write_quoted_columns :: "entry_io \<Rightarrow> string list \<Rightarrow> string" where
  "write_quoted_columns io [] = []"
| "write_quoted_columns io [c] = put_value (quoted io) c"
| "write_quoted_columns io (c # d # cs) = put_value (quoted io) c @ '','' @ write_quoted_columns io (d # cs)"

fun write_patches :: "entry_io \<Rightarrow> string list \<Rightarrow> string" where
  "write_patches io [] = []"
| "write_patches io (s # ss) = nl @ put_value (plain io) s @ write_patches io ss"

definition write_merge :: "entry_io \<Rightarrow> log_entry \<Rightarrow> string" where
  "write_merge io e =
     ''merge'' @ nl @ write_lines io (source_parts e)
     @ ''into'' @ nl @ put_value (plain io) (new_part_name e)
     @ nl @ ''deduplicate: '' @ put_value (flag io) (deduplicate e)
     @ (if merge_type e \<noteq> MergeRegular
        then nl @ ''merge_type: '' @ put_value (unsigned_text io) (merge_type_value (merge_type e)) else [])
     @ (if new_part_uuid e \<noteq> 0
        then nl @ ''into_uuid: '' @ put_value (uuid_text io) (new_part_uuid e) else [])
     @ (if deduplicate_by_columns e \<noteq> []
        then nl @ ''deduplicate_by_columns: '' @ write_quoted_columns io (deduplicate_by_columns e) else [])
     @ (if cleanup e then nl @ ''cleanup: '' @ put_value (flag io) (cleanup e) else [])
     @ (if patch_parts e \<noteq> []
        then nl @ ''apply_patches: '' @ put_value (unsigned_text io) (length (patch_parts e))
             @ write_patches io (patch_parts e) else [])"

definition write_replace_range :: "entry_io \<Rightarrow> replace_range_entry \<Rightarrow> string" where
  "write_replace_range io r =
     ''drop_range_name: '' @ put_value (plain io) (drop_range_part_name r) @ nl
     @ ''from_database: '' @ put_value (escaped io) (from_database r) @ nl
     @ ''from_table: '' @ put_value (escaped io) (from_table r) @ nl
     @ ''source_parts: '' @ put_value (quoted_list io) (src_part_names r) @ nl
     @ ''new_parts: '' @ put_value (quoted_list io) (new_part_names r) @ nl
     @ ''part_checksums: '' @ put_value (quoted_list io) (part_names_checksums r) @ nl
     @ ''columns_version: '' @ put_value (signed_text io) (columns_version r)"

definition write_mutate :: "entry_io \<Rightarrow> log_entry \<Rightarrow> string result" where
  "write_mutate io e =
     (case source_parts e of
        [] \<Rightarrow> Inl STD_OUT_OF_RANGE
      | source_part # _ \<Rightarrow>
          Inr (''mutate'' @ nl @ put_value (plain io) source_part @ nl @ ''to'' @ nl
            @ put_value (plain io) (new_part_name e)
            @ (if new_part_uuid e \<noteq> 0 then nl @ ''to_uuid'' @ nl @ put_value (uuid_text io) (new_part_uuid e) else [])
            @ (if isAlterMutation e
               then nl @ ''alter_version'' @ nl @ put_value (signed_text io) (alter_version e) else [])))"

definition write_alter :: "entry_io \<Rightarrow> log_entry \<Rightarrow> string" where
  "write_alter io e =
     ''alter'' @ nl @ ''alter_version'' @ nl @ put_value (signed_text io) (alter_version e) @ nl
     @ ''have_mutation'' @ nl @ put_value (flag io) (have_mutation e) @ nl
     @ ''columns_str_size:'' @ nl @ put_value (unsigned_text io) (length (columns_str e)) @ nl
     @ columns_str e @ nl
     @ ''metadata_str_size:'' @ nl @ put_value (unsigned_text io) (length (metadata_str e)) @ nl
     @ metadata_str e"

definition write_body :: "entry_io \<Rightarrow> log_entry \<Rightarrow> string result" where
  "write_body io e =
     (case entry_type e of
        GET_PART \<Rightarrow> Inr (''get'' @ nl @ put_value (plain io) (new_part_name e))
      | CLONE_PART_FROM_SHARD \<Rightarrow>
          Inr (''clone_part_from_shard'' @ nl @ put_value (plain io) (new_part_name e) @ nl
            @ ''source_shard: '' @ put_value (plain io) (source_shard e))
      | ATTACH_PART \<Rightarrow>
          Inr (''attach'' @ nl @ put_value (plain io) (new_part_name e) @ nl
            @ ''part_checksum: '' @ put_value (plain io) (part_checksum e))
      | MERGE_PARTS \<Rightarrow> Inr (write_merge io e)
      | DROP_RANGE \<Rightarrow>
          Inr ((if detach e then ''detach'' @ nl else ''drop'' @ nl) @ put_value (plain io) (new_part_name e))
      | DROP_PART \<Rightarrow>
          Inr ((if detach e then ''detach'' @ nl else ''drop'' @ nl) @ put_value (plain io) (new_part_name e))
      | CLEAR_COLUMN \<Rightarrow>
          Inr (''clear_column'' @ nl @ put_value (escaped io) (column_name e) @ nl @ ''from'' @ nl
            @ put_value (plain io) (new_part_name e))
      | CLEAR_INDEX \<Rightarrow>
          Inr (''clear_index'' @ nl @ put_value (escaped io) (index_name e) @ nl @ ''from'' @ nl
            @ put_value (plain io) (new_part_name e))
      | REPLACE_RANGE \<Rightarrow>
          bind_r (typeToString REPLACE_RANGE) (\<lambda>t.
            case replace_range_entry e of
              None \<Rightarrow> Inl UB
            | Some r \<Rightarrow> Inr (t @ nl @ write_replace_range io r))
      | MUTATE_PART \<Rightarrow> write_mutate io e
      | ALTER_METADATA \<Rightarrow> Inr (write_alter io e)
      | SYNC_PINNED_PART_UUIDS \<Rightarrow> Inr (''sync_pinned_part_uuids'' @ nl)
      | EMPTY \<Rightarrow> Inl LOGICAL_ERROR)"

definition write_tail :: "entry_io \<Rightarrow> log_entry \<Rightarrow> string" where
  "write_tail io e =
     (if new_part_type e \<noteq> Wide \<and> new_part_type e \<noteq> UnknownType
      then ''part_type: '' @ put_value (plain io) (part_type_toString (new_part_type e)) @ nl else [])
     @ (if new_storage_type e \<noteq> Full \<and> new_storage_type e \<noteq> UnknownStorage
        then ''storage_type: '' @ put_value (plain io) (storage_type_toString (new_storage_type e)) @ nl else [])
     @ (if quorum e \<noteq> 0 then ''quorum: '' @ put_value (unsigned_text io) (quorum e) @ nl else [])"

definition writeText :: "entry_io \<Rightarrow> nat \<Rightarrow> log_entry \<Rightarrow> string result" where
  "writeText io now e =
     bind_r (write_body io e) (\<lambda>body. Inr (write_head io now e @ body @ nl @ write_tail io e))"

section \<open>Reading\<close>

text \<open>Reading a value after a literal and up to a literal: \<open>in >> before >> x >> after\<close>.\<close>

definition read_field :: "entry_io \<Rightarrow> string \<Rightarrow> 'a codec \<Rightarrow> string \<Rightarrow> string \<Rightarrow> ('a \<times> string) result" where
  "read_field io before_lit c after_lit inp =
     bind_r (if before_lit = [] then Inr inp else expect io before_lit inp) (\<lambda>inp.
     bind_r (get_value c inp) (\<lambda>(x, inp).
     bind_r (if after_lit = [] then Inr inp else expect io after_lit inp) (\<lambda>inp. Inr (x, inp))))"

definition read_head :: "entry_io \<Rightarrow> log_entry \<Rightarrow> string \<Rightarrow> (nat \<times> log_entry \<times> string) result" where
  "read_head io e inp =
     bind_r (read_field io ''format version: '' (unsigned_text io) nl inp) (\<lambda>(v, inp).
     if v < 1 \<or> v \<ge> FORMAT_LAST then Inl UNKNOWN_FORMAT_VERSION
     else
     bind_r (if v \<ge> FORMAT_WITH_CREATE_TIME
             then bind_r (read_field io ''create_time: '' (date_time io) nl inp)
                    (\<lambda>(t, inp). Inr (e\<lparr>create_time := t\<rparr>, inp))
             else Inr (e, inp)) (\<lambda>(e, inp).
     bind_r (read_field io ''source replica: '' (plain io) nl inp) (\<lambda>(s, inp).
     let e = e\<lparr>source_replica := s\<rparr> in
     bind_r (if v \<ge> FORMAT_WITH_BLOCK_ID
             then bind_r (read_field io ''block_id: '' (escaped io) nl inp)
                    (\<lambda>(s, inp). Inr (if s \<noteq> []
                       then e\<lparr>deduplication_block_ids := deduplication_block_ids e @ split_ids io s\<rparr> else e, inp))
             else Inr (e, inp)) (\<lambda>(e, inp).
     bind_r (if v \<ge> FORMAT_WITH_LOG_ENTRY_ID
             then bind_r (read_field io ''log_entry_id: '' (escaped io) nl inp)
                    (\<lambda>(s, inp). Inr (e\<lparr>log_entry_id := s\<rparr>, inp))
             else Inr (e, inp)) (\<lambda>(e, inp).
     Inr (v, e, inp))))))"

text \<open>
  The loops over the lines of a merge. Each round consumes at least a line feed, so the length of
  the input bounds the number of rounds; the first argument is that bound.
\<close>

fun read_source_parts :: "nat \<Rightarrow> entry_io \<Rightarrow> string list \<Rightarrow> string \<Rightarrow> (string list \<times> string) result" where
  "read_source_parts 0 io acc inp = Inl CANNOT_PARSE"
| "read_source_parts (Suc n) io acc inp =
     bind_r (read_field io [] (plain io) nl inp) (\<lambda>(s, inp).
       if s = ''into'' then Inr (acc, inp) else read_source_parts n io (acc @ [s]) inp)"

fun read_quoted_columns :: "nat \<Rightarrow> entry_io \<Rightarrow> string list \<Rightarrow> string \<Rightarrow> (string list \<times> string) result" where
  "read_quoted_columns 0 io acc inp = Inl CANNOT_PARSE"
| "read_quoted_columns (Suc n) io acc inp =
     bind_r (get_value (quoted io) inp) (\<lambda>(s, inp).
       case check_literal io '','' inp of
         (True, inp) \<Rightarrow> read_quoted_columns n io (acc @ [s]) inp
       | (False, inp) \<Rightarrow> Inr (acc @ [s], inp))"

fun read_patches :: "nat \<Rightarrow> entry_io \<Rightarrow> string list \<Rightarrow> string \<Rightarrow> (string list \<times> string) result" where
  "read_patches 0 io acc inp = Inr (acc, inp)"
| "read_patches (Suc n) io acc inp =
     bind_r (read_field io [] (plain io) (if n \<noteq> 0 then nl else []) inp) (\<lambda>(s, inp).
       read_patches n io (acc @ [s]) inp)"

fun read_merge_fields :: "nat \<Rightarrow> entry_io \<Rightarrow> log_entry \<Rightarrow> string \<Rightarrow> (log_entry \<times> string) result" where
  "read_merge_fields 0 io e inp = Inl CANNOT_PARSE"
| "read_merge_fields (Suc n) io e inp =
     bind_r (expect io nl inp) (\<lambda>inp.
     case check_literal io ''merge_type: '' inp of
       (True, inp) \<Rightarrow>
         bind_r (get_value (unsigned_text io) inp) (\<lambda>(v, inp).
         bind_r (checkAndGetMergeType (v mod 256)) (\<lambda>t. read_merge_fields n io (e\<lparr>merge_type := t\<rparr>) inp))
     | (False, inp) \<Rightarrow>
     case check_literal io ''into_uuid: '' inp of
       (True, inp) \<Rightarrow>
         bind_r (get_value (uuid_text io) inp) (\<lambda>(u, inp). read_merge_fields n io (e\<lparr>new_part_uuid := u\<rparr>) inp)
     | (False, inp) \<Rightarrow>
     case check_literal io ''deduplicate_by_columns: '' inp of
       (True, inp) \<Rightarrow>
         bind_r (read_quoted_columns (Suc (length inp)) io [] inp) (\<lambda>(cs, inp).
           read_merge_fields n io (e\<lparr>deduplicate_by_columns := cs\<rparr>) inp)
     | (False, inp) \<Rightarrow>
     case check_literal io ''cleanup: '' inp of
       (True, inp) \<Rightarrow>
         bind_r (get_value (flag io) inp) (\<lambda>(b, inp). read_merge_fields n io (e\<lparr>cleanup := b\<rparr>) inp)
     | (False, inp) \<Rightarrow>
     case check_literal io ''apply_patches:'' inp of
       (True, inp) \<Rightarrow>
         bind_r (read_field io '' '' (unsigned_text io) nl inp) (\<lambda>(num_patches, inp).
         bind_r (read_patches num_patches io (patch_parts e) inp) (\<lambda>(ps, inp).
           read_merge_fields n io (e\<lparr>patch_parts := ps\<rparr>) inp))
     | (False, inp) \<Rightarrow> Inr (e, inp))"

definition read_merge ::
  "entry_io \<Rightarrow> nat \<Rightarrow> log_entry \<Rightarrow> string \<Rightarrow> (log_entry \<times> bool \<times> string) result" where
  "read_merge io v e inp =
     bind_r (read_source_parts (Suc (length inp)) io (source_parts e) inp) (\<lambda>(ps, inp).
     bind_r (get_value (plain io) inp) (\<lambda>(s, inp).
     let e = e\<lparr>entry_type := MERGE_PARTS, source_parts := ps, new_part_name := s\<rparr> in
     if v \<ge> FORMAT_WITH_DEDUPLICATE
     then bind_r (read_field io (nl @ ''deduplicate: '') (flag io) [] inp) (\<lambda>(b, inp).
          bind_r (read_merge_fields (Suc (length inp)) io (e\<lparr>deduplicate := b\<rparr>) inp) (\<lambda>(e, inp).
            Inr (e, True, inp)))
     else Inr (e, False, inp)))"

fun read_mutate_fields :: "nat \<Rightarrow> entry_io \<Rightarrow> log_entry \<Rightarrow> string \<Rightarrow> (log_entry \<times> string) result" where
  "read_mutate_fields 0 io e inp = Inl CANNOT_PARSE"
| "read_mutate_fields (Suc n) io e inp =
     bind_r (expect io nl inp) (\<lambda>inp.
     case check_literal io (''alter_version'' @ nl) inp of
       (True, inp) \<Rightarrow>
         bind_r (get_value (signed_text io) inp) (\<lambda>(v, inp). read_mutate_fields n io (e\<lparr>alter_version := v\<rparr>) inp)
     | (False, inp) \<Rightarrow>
     case check_literal io (''to_uuid'' @ nl) inp of
       (True, inp) \<Rightarrow>
         bind_r (get_value (uuid_text io) inp) (\<lambda>(u, inp). read_mutate_fields n io (e\<lparr>new_part_uuid := u\<rparr>) inp)
     | (False, inp) \<Rightarrow> Inr (e, inp))"

definition read_mutate :: "entry_io \<Rightarrow> log_entry \<Rightarrow> string \<Rightarrow> (log_entry \<times> bool \<times> string) result" where
  "read_mutate io e inp =
     bind_r (read_field io [] (plain io) nl inp) (\<lambda>(source_part, inp).
     bind_r (read_field io (''to'' @ nl) (plain io) [] inp) (\<lambda>(s, inp).
     bind_r (read_mutate_fields (Suc (length inp)) io
       (e\<lparr>entry_type := MUTATE_PART, new_part_name := s, source_parts := source_parts e @ [source_part]\<rparr>) inp)
       (\<lambda>(e, inp). Inr (e, True, inp))))"

text \<open>\<open>resize\<close> and \<open>readStrict\<close>: exactly \<open>n\<close> bytes, or an exception.\<close>

definition read_strict :: "nat \<Rightarrow> string \<Rightarrow> (string \<times> string) result" where
  "read_strict n inp = (if length inp < n then Inl CANNOT_PARSE else Inr (take n inp, drop n inp))"

definition read_alter :: "entry_io \<Rightarrow> log_entry \<Rightarrow> string \<Rightarrow> (log_entry \<times> bool \<times> string) result" where
  "read_alter io e inp =
     bind_r (read_field io (''alter_version'' @ nl) (signed_text io) [] inp) (\<lambda>(v, inp).
     bind_r (read_field io (nl @ ''have_mutation'' @ nl) (flag io) [] inp) (\<lambda>(b, inp).
     bind_r (read_field io (nl @ ''columns_str_size:'' @ nl) (unsigned_text io) nl inp) (\<lambda>(columns_size, inp).
     bind_r (read_strict columns_size inp) (\<lambda>(cs, inp).
     bind_r (read_field io (nl @ ''metadata_str_size:'' @ nl) (unsigned_text io) nl inp) (\<lambda>(metadata_size, inp).
     bind_r (read_strict metadata_size inp) (\<lambda>(ms, inp).
       Inr (e\<lparr>entry_type := ALTER_METADATA, alter_version := v, have_mutation := b, columns_str := cs,
              metadata_str := ms\<rparr>, False, inp)))))))"

definition read_replace_range ::
  "entry_io \<Rightarrow> string \<Rightarrow> (replace_range_entry \<times> string) result" where
  "read_replace_range io inp =
     bind_r (read_field io ''drop_range_name: '' (plain io) nl inp) (\<lambda>(d, inp).
     bind_r (read_field io ''from_database: '' (escaped io) nl inp) (\<lambda>(fd, inp).
     bind_r (read_field io ''from_table: '' (escaped io) nl inp) (\<lambda>(ft, inp).
     bind_r (read_field io ''source_parts: '' (quoted_list io) nl inp) (\<lambda>(sp, inp).
     bind_r (read_field io ''new_parts: '' (quoted_list io) nl inp) (\<lambda>(np, inp).
     bind_r (read_field io ''part_checksums: '' (quoted_list io) nl inp) (\<lambda>(ck, inp).
     bind_r (read_field io ''columns_version: '' (signed_text io) [] inp) (\<lambda>(cv, inp).
       Inr (\<lparr>drop_range_part_name = d, from_database = fd, from_table = ft, src_part_names = sp,
              new_part_names = np, part_names_checksums = ck, columns_version = cv\<rparr>, inp))))))))"

definition read_drop ::
  "text_io \<Rightarrow> entry_io \<Rightarrow> format_version \<Rightarrow> bool \<Rightarrow> log_entry \<Rightarrow> string \<Rightarrow> (log_entry \<times> bool \<times> string) result" where
  "read_drop tio io fv is_detach e inp =
     bind_r (get_value (plain io) inp) (\<lambda>(s, inp).
     bind_r (fromPartName tio s fv) (\<lambda>drop_range_info.
       Inr (e\<lparr>entry_type := (if \<not> isFakeDropRangePart drop_range_info then DROP_PART else DROP_RANGE),
              detach := is_detach, new_part_name := s\<rparr>, False, inp)))"

definition read_clear ::
  "entry_io \<Rightarrow> string \<Rightarrow> ((string \<times> string) \<times> string) result" where
  "read_clear io inp =
     bind_r (read_field io [] (escaped io) (nl @ ''from'' @ nl) inp) (\<lambda>(c, inp).
     bind_r (get_value (plain io) inp) (\<lambda>(s, inp). Inr ((c, s), inp)))"

text \<open>The dispatch on the type line; the flag says whether the final line feed has been read.\<close>

definition read_body ::
  "text_io \<Rightarrow> entry_io \<Rightarrow> format_version \<Rightarrow> nat \<Rightarrow> string \<Rightarrow> log_entry \<Rightarrow> string
     \<Rightarrow> (log_entry \<times> bool \<times> string) result" where
  "read_body tio io fv v type_str e inp =
     (if type_str = ''get'' then
        bind_r (get_value (plain io) inp) (\<lambda>(s, inp).
          Inr (e\<lparr>entry_type := GET_PART, new_part_name := s\<rparr>, False, inp))
      else if type_str = ''attach'' then
        bind_r (read_field io [] (plain io) (nl @ ''part_checksum: '') inp) (\<lambda>(s, inp).
        bind_r (get_value (plain io) inp) (\<lambda>(c, inp).
          Inr (e\<lparr>entry_type := ATTACH_PART, new_part_name := s, part_checksum := c\<rparr>, False, inp)))
      else if type_str = ''merge'' then read_merge io v e inp
      else if type_str = ''drop'' \<or> type_str = ''detach'' then
        read_drop tio io fv (type_str = ''detach'') e inp
      else if type_str = ''clear_column'' then
        bind_r (read_clear io inp) (\<lambda>((c, s), inp).
          Inr (e\<lparr>entry_type := CLEAR_COLUMN, column_name := c, new_part_name := s\<rparr>, False, inp))
      else if type_str = ''clear_index'' then
        bind_r (read_clear io inp) (\<lambda>((c, s), inp).
          Inr (e\<lparr>entry_type := CLEAR_INDEX, index_name := c, new_part_name := s\<rparr>, False, inp))
      else if typeToString REPLACE_RANGE = Inr type_str then
        bind_r (read_replace_range io inp) (\<lambda>(r, inp).
          Inr (e\<lparr>entry_type := REPLACE_RANGE, replace_range_entry := Some r\<rparr>, False, inp))
      else if type_str = ''mutate'' then read_mutate io e inp
      else if type_str = ''alter'' then read_alter io e inp
      else if type_str = ''sync_pinned_part_uuids'' then
        Inr (e\<lparr>entry_type := SYNC_PINNED_PART_UUIDS\<rparr>, False, inp)
      else if type_str = ''clone_part_from_shard'' then
        bind_r (get_value (plain io) inp) (\<lambda>(s, inp).
        bind_r (read_field io (nl @ ''source_shard: '') (plain io) [] inp) (\<lambda>(sh, inp).
          Inr (e\<lparr>entry_type := CLONE_PART_FROM_SHARD, new_part_name := s, source_shard := sh\<rparr>, False, inp)))
      else Inr (e, False, inp))"

definition read_tail :: "entry_io \<Rightarrow> log_entry \<Rightarrow> string \<Rightarrow> (log_entry \<times> string) result" where
  "read_tail io e inp =
     bind_r (case check_literal io ''part_type: '' inp of
               (True, inp) \<Rightarrow>
                 bind_r (get_value (plain io) inp) (\<lambda>(s, inp).
                 bind_r (part_type_fromString s) (\<lambda>t.
                 bind_r (expect io nl inp) (\<lambda>inp. Inr (e\<lparr>new_part_type := t\<rparr>, inp))))
             | (False, inp) \<Rightarrow> Inr (e\<lparr>new_part_type := Wide\<rparr>, inp)) (\<lambda>(e, inp).
     bind_r (case check_literal io ''storage_type: '' inp of
               (True, inp) \<Rightarrow>
                 bind_r (get_value (plain io) inp) (\<lambda>(s, inp).
                 bind_r (storage_type_fromString s) (\<lambda>t.
                 bind_r (expect io nl inp) (\<lambda>inp. Inr (e\<lparr>new_storage_type := t\<rparr>, inp))))
             | (False, inp) \<Rightarrow> Inr (e\<lparr>new_storage_type := Full\<rparr>, inp)) (\<lambda>(e, inp).
     if inp \<noteq> []
     then bind_r (read_field io ''quorum: '' (unsigned_text io) nl inp) (\<lambda>(q, inp).
            Inr (e\<lparr>quorum := q\<rparr>, inp))
     else Inr (e, inp)))"

definition readText ::
  "text_io \<Rightarrow> entry_io \<Rightarrow> format_version \<Rightarrow> log_entry \<Rightarrow> string \<Rightarrow> (log_entry \<times> string) result" where
  "readText tio io fv e inp =
     bind_r (read_head io e inp) (\<lambda>(v, e, inp).
     bind_r (read_field io [] (plain io) nl inp) (\<lambda>(type_str, inp).
     bind_r (read_body tio io fv v type_str e inp) (\<lambda>(e, trailing_newline_found, inp).
     bind_r (if \<not> trailing_newline_found then expect io nl inp else Inr inp) (\<lambda>inp.
       read_tail io e inp))))"

definition parse_entry ::
  "text_io \<Rightarrow> entry_io \<Rightarrow> format_version \<Rightarrow> nat \<Rightarrow> string \<Rightarrow> log_entry result" where
  "parse_entry tio io fv stat_ctime s =
     bind_r (readText tio io fv empty_entry s) (\<lambda>(e, inp).
       if inp \<noteq> [] then Inl CANNOT_PARSE
       else Inr (if create_time e = 0 then e\<lparr>create_time := stat_ctime div 1000\<rparr> else e))"

end
