(* ===== verification/Log_Entry_Text.thy ===== *)
theory Log_Entry_Text
  imports Log_Entry
begin

text \<open>
  The round trip of the text form of log entries: the assumptions on the formatting of single
  values, what each part of the reader does with what the writer produced, and a concrete format
  that satisfies the assumptions.
\<close>

section \<open>The assumptions on the value formats\<close>

text \<open>
  Values are read back up to the end of their line, quoted ones anywhere. Strings written without escaping
  are written as they are and must not need escaping. A literal is recognised where it stands; a check that
  fails on its first character leaves the input where it was. Non-empty tokens without commas survive
  joining and splitting.
\<close>

definition at_line_end :: "string \<Rightarrow> bool" where
  "at_line_end rest \<longleftrightarrow> rest = [] \<or> hd rest = CHR 0x0A"

definition plain_text :: "string \<Rightarrow> bool" where
  "plain_text s \<longleftrightarrow> CHR 0x0A \<notin> set s \<and> CHR 0x09 \<notin> set s \<and> CHR 0x5C \<notin> set s"

definition reads_back :: "'a codec \<Rightarrow> ('a \<Rightarrow> bool) \<Rightarrow> bool" where
  "reads_back c P \<longleftrightarrow>
     (\<forall>x rest. P x \<and> at_line_end rest \<longrightarrow> get_value c (put_value c x @ rest) = Inr (x, rest))"

definition is_id_token :: "string \<Rightarrow> bool" where
  "is_id_token s \<longleftrightarrow> s \<noteq> [] \<and> CHR '','' \<notin> set s"

definition entry_io_ok :: "entry_io \<Rightarrow> bool" where
  "entry_io_ok io \<longleftrightarrow>
     reads_back (plain io) plain_text \<and> (\<forall>s. plain_text s \<longrightarrow> put_value (plain io) s = s)
     \<and> reads_back (escaped io) (\<lambda>_. True)
     \<and> (\<forall>x rest. get_value (quoted io) (put_value (quoted io) x @ rest) = Inr (x, rest))
     \<and> (\<forall>x rest. get_value (quoted_list io) (put_value (quoted_list io) x @ rest) = Inr (x, rest))
     \<and> reads_back (unsigned_text io) (\<lambda>n. n < 2 ^ 64)
     \<and> reads_back (signed_text io) (\<lambda>i. - (2 ^ 31) \<le> i \<and> i < 2 ^ 31)
     \<and> reads_back (flag io) (\<lambda>_. True) \<and> reads_back (uuid_text io) (\<lambda>u. u < 2 ^ 128)
     \<and> (\<forall>l rest. expect io l (l @ rest) = Inr rest)
     \<and> (\<forall>l rest. check_literal io l (l @ rest) = (True, rest))
     \<and> (\<forall>l inp. l \<noteq> [] \<and> (inp = [] \<or> hd inp \<noteq> hd l) \<longrightarrow> check_literal io l inp = (False, inp))
     \<and> (\<forall>ids. ids \<noteq> [] \<and> list_all is_id_token ids \<longrightarrow> split_ids io (join_with '','' ids) = ids)"

lemma at_line_end_simps [simp]: "at_line_end []" "at_line_end (CHR 0x0A # s)"
  by (simp_all add: at_line_end_def)

lemma expect_lit:
  "entry_io_ok io \<Longrightarrow> take (length l) inp = l \<Longrightarrow> expect io l inp = Inr (drop (length l) inp)"
  unfolding entry_io_ok_def by (metis append_take_drop_id)

lemma check_lit:
  "entry_io_ok io \<Longrightarrow> take (length l) inp = l \<Longrightarrow> check_literal io l inp = (True, drop (length l) inp)"
  unfolding entry_io_ok_def by (metis append_take_drop_id)

lemma check_no:
  "entry_io_ok io \<Longrightarrow> l \<noteq> [] \<Longrightarrow> inp = [] \<or> hd inp \<noteq> hd l \<Longrightarrow> check_literal io l inp = (False, inp)"
  by (simp add: entry_io_ok_def)

lemma reads_backD:
  "reads_back c P \<Longrightarrow> P x \<Longrightarrow> at_line_end rest \<Longrightarrow> get_value c (put_value c x @ rest) = Inr (x, rest)"
  by (simp add: reads_back_def)

lemma entry_io_okD:
  assumes "entry_io_ok io"
  shows "reads_back (plain io) plain_text" "plain_text s \<Longrightarrow> put_value (plain io) s = s"
    "reads_back (escaped io) (\<lambda>_. True)"
    "get_value (quoted io) (put_value (quoted io) x @ rest) = Inr (x, rest)"
    "get_value (quoted_list io) (put_value (quoted_list io) xs @ rest) = Inr (xs, rest)"
    "reads_back (unsigned_text io) (\<lambda>n. n < 2 ^ 64)"
    "reads_back (signed_text io) (\<lambda>i. - (2 ^ 31) \<le> i \<and> i < 2 ^ 31)"
    "reads_back (flag io) (\<lambda>_. True)" "reads_back (uuid_text io) (\<lambda>u. u < 2 ^ 128)"
    "ids \<noteq> [] \<Longrightarrow> list_all is_id_token ids \<Longrightarrow> split_ids io (join_with '','' ids) = ids"
proof -
  note io = assms [unfolded entry_io_ok_def]
  note io2 = io [THEN conjunct2] io [THEN conjunct2, THEN conjunct2, THEN conjunct2]
    io [THEN conjunct2, THEN conjunct2, THEN conjunct2, THEN conjunct2]
  show "reads_back (plain io) plain_text" using io by (rule conjunct1)
  show "plain_text s \<Longrightarrow> put_value (plain io) s = s" using io2(1) [THEN conjunct1] by simp
  show "reads_back (escaped io) (\<lambda>_. True)" using io by (elim conjE)
  show "get_value (quoted io) (put_value (quoted io) x @ rest) = Inr (x, rest)"
    using io2(2) [THEN conjunct1] by simp
  show "get_value (quoted_list io) (put_value (quoted_list io) xs @ rest) = Inr (xs, rest)"
    using io2(3) [THEN conjunct1] by simp
  show "reads_back (unsigned_text io) (\<lambda>n. n < 2 ^ 64)" using io by (elim conjE)
  show "reads_back (signed_text io) (\<lambda>i. - (2 ^ 31) \<le> i \<and> i < 2 ^ 31)" using io by (elim conjE)
  show "reads_back (flag io) (\<lambda>_. True)" using io by (elim conjE)
  show "reads_back (uuid_text io) (\<lambda>u. u < 2 ^ 128)" using io by (elim conjE)
  have "\<forall>ids. ids \<noteq> [] \<and> list_all is_id_token ids \<longrightarrow> split_ids io (join_with '','' ids) = ids"
    using io by (elim conjE)
  then show "ids \<noteq> [] \<Longrightarrow> list_all is_id_token ids \<Longrightarrow> split_ids io (join_with '','' ids) = ids"
    by simp
qed

lemmas get_plain = reads_backD [OF entry_io_okD(1)]
lemmas get_escaped = reads_backD [OF entry_io_okD(3) TrueI]
lemmas get_unsigned = reads_backD [OF entry_io_okD(6)]
lemmas get_signed = reads_backD [OF entry_io_okD(7), OF _ conjI]
lemmas get_flag = reads_backD [OF entry_io_okD(8) TrueI]
lemmas get_uuid = reads_backD [OF entry_io_okD(9)]

lemma get_plain_lit:
  assumes "entry_io_ok io" "plain_text (takeWhile (\<lambda>c. c \<noteq> CHR 0x0A) inp)"
  shows "get_value (plain io) inp = Inr (takeWhile (\<lambda>c. c \<noteq> CHR 0x0A) inp, dropWhile (\<lambda>c. c \<noteq> CHR 0x0A) inp)"
proof -
  let ?s = "takeWhile (\<lambda>c. c \<noteq> CHR 0x0A) inp" and ?r = "dropWhile (\<lambda>c. c \<noteq> CHR 0x0A) inp"
  have "at_line_end ?r" by (induction inp) simp_all
  then have "get_value (plain io) (put_value (plain io) ?s @ ?r) = Inr (?s, ?r)"
    by (rule get_plain [OF assms])
  then show ?thesis unfolding entry_io_okD(2) [OF assms] by (simp only: takeWhile_dropWhile_id)
qed

section \<open>The lines of merges and mutations\<close>

lemma read_source_parts_written:
  assumes io: "entry_io_ok io" and ss: "\<forall>s \<in> set ss. plain_text s \<and> s \<noteq> ''into''" "length ss < n"
  shows "read_source_parts n io acc (write_lines io ss @ ''into'' @ nl @ rest) = Inr (acc @ ss, rest)"
  using ss
proof (induction ss arbitrary: n acc)
  case Nil
  then obtain m where "n = Suc m" by (cases n) auto
  then show ?case using io by (simp add: read_field_def expect_lit get_plain_lit plain_text_def)
next
  case (Cons s ss)
  then obtain m where "n = Suc m" by (cases n) auto
  then show ?case using Cons io by (simp add: read_field_def expect_lit get_plain)
qed

lemma read_quoted_columns_written:
  assumes io: "entry_io_ok io" and "cs \<noteq> []" "length cs \<le> n" "at_line_end rest"
  shows "read_quoted_columns n io acc (write_quoted_columns io cs @ rest) = Inr (acc @ cs, rest)"
  using assms(2,3)
proof (induction cs arbitrary: n acc rule: induct_list012)
  case (2 c)
  then obtain m where "n = Suc m" by (cases n) auto
  moreover have "check_literal io '','' rest = (False, rest)"
    using check_no [OF io, of "'',''" rest] assms(4) by (auto simp: at_line_end_def)
  ultimately show ?case using io by (simp add: entry_io_okD(4))
next
  case (3 c d cs)
  then obtain m where "n = Suc m" by (cases n) auto
  then show ?case using 3 io by (simp add: entry_io_okD(4) check_lit)
qed simp

lemma length_write_quoted: "cs \<noteq> [] \<Longrightarrow> length cs \<le> Suc (length (write_quoted_columns io cs))"
  by (induction cs rule: induct_list012) simp_all

lemma length_write_lines: "length ss \<le> length (write_lines io ss)"
  by (induction ss) simp_all

lemma read_patches_written:
  assumes io: "entry_io_ok io" and "ps \<noteq> []" "\<forall>s \<in> set ps. plain_text s" "at_line_end rest"
  shows "read_patches (length ps) io acc (tl (write_patches io ps) @ rest) = Inr (acc @ ps, rest)"
  using assms(2,3)
proof (induction ps arbitrary: acc)
  case (Cons p ps)
  show ?case
  proof (cases "ps = []")
    case True
    then show ?thesis using Cons.prems io assms(4) by (simp add: read_field_def get_plain)
  next
    case False
    then obtain t where t: "write_patches io ps = CHR 0x0A # t" by (cases ps) simp_all
    have "get_value (plain io) (put_value (plain io) p @ CHR 0x0A # t @ rest) = Inr (p, CHR 0x0A # t @ rest)"
      by (rule get_plain [OF io]) (use Cons.prems in simp_all)
    moreover have "read_patches (length ps) io (acc @ [p]) (t @ rest) = Inr ((acc @ [p]) @ ps, rest)"
      using Cons.IH [of "acc @ [p]", OF False] Cons.prems(2) t by simp
    ultimately show ?thesis using False t io by (simp add: read_field_def expect_lit)
  qed
qed simp

text \<open>
  The optional lines of a merge, one lemma each: reading what was written for the field sets the
  field and leaves a bound that still exceeds the input.
\<close>

lemma fuel_step: "length (c # s) < n \<Longrightarrow> \<exists>m. n = Suc m \<and> length s < m"
  by (cases n) simp_all

lemma merge_type_roundtrip [simp]: "checkAndGetMergeType (merge_type_value t mod 256) = Inr t"
  by (cases t) (simp_all add: checkAndGetMergeType_def merge_type_value_def)

lemma merge_type_value_lt: "merge_type_value t < 2 ^ 64"
  by (cases t) (simp_all add: merge_type_value_def)

definition opt_text :: "bool \<Rightarrow> string \<Rightarrow> string" where
  "opt_text b s = (if b then CHR 0x0A # s else [])"

lemma opt_text_simps [simp]: "opt_text True s = CHR 0x0A # s" "opt_text False s = []"
  by (simp_all add: opt_text_def)

lemma at_line_end_opt [simp]: "at_line_end rest \<Longrightarrow> at_line_end (opt_text b s @ rest)"
  by (simp add: opt_text_def)

lemma read_merge_type:
  assumes io: "entry_io_ok io" and e: "merge_type e = MergeRegular"
    and rest: "at_line_end rest" "length (opt_text (t \<noteq> MergeRegular)
      (''merge_type: '' @ put_value (unsigned_text io) (merge_type_value t)) @ rest) < n"
  shows "\<exists>m. length rest < m \<and> read_merge_fields n io e (opt_text (t \<noteq> MergeRegular)
      (''merge_type: '' @ put_value (unsigned_text io) (merge_type_value t)) @ rest)
    = read_merge_fields m io (e\<lparr>merge_type := t\<rparr>) rest"
proof (cases "t = MergeRegular")
  case True
  then show ?thesis using e rest(2) by (intro exI [of _ n], cases e) (simp add: opt_text_def)
next
  case False
  then obtain m where m: "n = Suc m" "length rest < m"
    using rest(2) by (cases n) (simp_all add: opt_text_def)
  have "get_value (unsigned_text io) (put_value (unsigned_text io) (merge_type_value t) @ rest)
      = Inr (merge_type_value t, rest)"
    by (rule get_unsigned [OF io merge_type_value_lt rest(1)])
  then show ?thesis using False m io
    by (intro exI [of _ m]) (simp add: opt_text_def expect_lit check_lit check_no)
qed

lemma read_into_uuid:
  assumes io: "entry_io_ok io" and e: "new_part_uuid e = 0" and u: "u < 2 ^ 128"
    and rest: "at_line_end rest" "length (opt_text (u \<noteq> 0)
      (''into_uuid: '' @ put_value (uuid_text io) u) @ rest) < n"
  shows "\<exists>m. length rest < m \<and> read_merge_fields n io e (opt_text (u \<noteq> 0)
      (''into_uuid: '' @ put_value (uuid_text io) u) @ rest)
    = read_merge_fields m io (e\<lparr>new_part_uuid := u\<rparr>) rest"
proof (cases "u = 0")
  case True
  then show ?thesis using e rest(2) by (intro exI [of _ n], cases e) (simp add: opt_text_def)
next
  case False
  then obtain m where m: "n = Suc m" "length rest < m"
    using rest(2) by (cases n) (simp_all add: opt_text_def)
  have "get_value (uuid_text io) (put_value (uuid_text io) u @ rest) = Inr (u, rest)"
    by (rule get_uuid [OF io u rest(1)])
  then show ?thesis using False m io
    by (intro exI [of _ m]) (simp add: opt_text_def expect_lit check_lit check_no)
qed

lemma read_by_columns:
  assumes io: "entry_io_ok io" and e: "deduplicate_by_columns e = []"
    and rest: "at_line_end rest" "length (opt_text (cs \<noteq> [])
      (''deduplicate_by_columns: '' @ write_quoted_columns io cs) @ rest) < n"
  shows "\<exists>m. length rest < m \<and> read_merge_fields n io e (opt_text (cs \<noteq> [])
      (''deduplicate_by_columns: '' @ write_quoted_columns io cs) @ rest)
    = read_merge_fields m io (e\<lparr>deduplicate_by_columns := cs\<rparr>) rest"
proof (cases "cs = []")
  case True
  then show ?thesis using e rest(2) by (intro exI [of _ n], cases e) (simp add: opt_text_def)
next
  case False
  then obtain m where m: "n = Suc m" "length rest < m"
    using rest(2) by (cases n) (simp_all add: opt_text_def)
  have "length cs \<le> Suc (length (write_quoted_columns io cs @ rest))"
    using length_write_quoted [OF False, of io] by simp
  from read_quoted_columns_written [OF io False this rest(1), of "[]"]
  show ?thesis using False m io
    by (intro exI [of _ m]) (simp add: opt_text_def expect_lit check_lit check_no del: read_quoted_columns.simps)
qed

lemma read_cleanup:
  assumes io: "entry_io_ok io" and e: "\<not> cleanup e"
    and rest: "at_line_end rest" "length (opt_text b
      (''cleanup: '' @ put_value (flag io) b) @ rest) < n"
  shows "\<exists>m. length rest < m \<and> read_merge_fields n io e (opt_text b
      (''cleanup: '' @ put_value (flag io) b) @ rest)
    = read_merge_fields m io (e\<lparr>cleanup := b\<rparr>) rest"
proof (cases b)
  case False
  then show ?thesis using e rest(2) by (intro exI [of _ n], cases e) (simp add: opt_text_def)
next
  case True
  then obtain m where m: "n = Suc m" "length rest < m"
    using rest(2) by (cases n) (simp_all add: opt_text_def)
  have "get_value (flag io) (put_value (flag io) b @ rest) = Inr (b, rest)"
    by (rule get_flag [OF io rest(1)])
  then show ?thesis using True m io
    by (intro exI [of _ m]) (simp add: opt_text_def expect_lit check_lit check_no)
qed

lemma read_apply_patches:
  assumes io: "entry_io_ok io" and e: "patch_parts e = []" and ps: "\<forall>s \<in> set ps. plain_text s" "length ps < 2 ^ 64"
    and rest: "at_line_end rest" "length (opt_text (ps \<noteq> [])
      (''apply_patches: '' @ put_value (unsigned_text io) (length ps) @ write_patches io ps) @ rest) < n"
  shows "\<exists>m. length rest < m \<and> read_merge_fields n io e (opt_text (ps \<noteq> [])
      (''apply_patches: '' @ put_value (unsigned_text io) (length ps) @ write_patches io ps) @ rest)
    = read_merge_fields m io (e\<lparr>patch_parts := ps\<rparr>) rest"
proof (cases "ps = []")
  case True
  then show ?thesis using e rest(2) by (intro exI [of _ n], cases e) (simp add: opt_text_def)
next
  case False
  then obtain m where m: "n = Suc m" "length rest < m"
    using rest(2) by (cases n) (simp_all add: opt_text_def)
  obtain t where t: "write_patches io ps = CHR 0x0A # t" using False by (cases ps) simp_all
  have "get_value (unsigned_text io) (put_value (unsigned_text io) (length ps) @ CHR 0x0A # t @ rest)
      = Inr (length ps, CHR 0x0A # t @ rest)"
    by (rule get_unsigned [OF io ps(2)]) simp
  moreover have "read_patches (length ps) io [] (t @ rest) = Inr (ps, rest)"
    using read_patches_written [OF io False ps(1) rest(1), of "[]"] t by simp
  ultimately show ?thesis using False m io e
    by (intro exI [of _ m]) (simp add: opt_text_def expect_lit check_lit check_no t read_field_def)
qed

text \<open>What may follow the type-specific lines: nothing, or a line of the tail.\<close>

definition tail_start :: "string \<Rightarrow> bool" where
  "tail_start s \<longleftrightarrow> s = [] \<or> hd s \<in> {CHR ''p'', CHR ''s'', CHR ''q''}"

lemma read_merge_fields_end:
  assumes io: "entry_io_ok io" and "tail_start t" "length (nl @ t) < n"
  shows "read_merge_fields n io e (nl @ t) = Inr (e, t)"
proof -
  obtain m where "n = Suc m" using assms(3) by (cases n) simp_all
  moreover have "check_literal io ''merge_type: '' t = (False, t)"
      "check_literal io ''into_uuid: '' t = (False, t)"
      "check_literal io ''deduplicate_by_columns: '' t = (False, t)"
      "check_literal io ''cleanup: '' t = (False, t)" "check_literal io ''apply_patches:'' t = (False, t)"
    by (rule check_no [OF io]; use assms(2) in \<open>auto simp: tail_start_def\<close>)+
  ultimately show ?thesis using io by (simp add: expect_lit)
qed

lemma read_merge_fields_written:
  assumes io: "entry_io_ok io"
    and e: "merge_type e = MergeRegular" "new_part_uuid e = 0" "deduplicate_by_columns e = []" "\<not> cleanup e" "patch_parts e = []"
    and v: "u < 2 ^ 128" "\<forall>s \<in> set ps. plain_text s" "length ps < 2 ^ 64"
    and t: "tail_start t"
    and inp: "inp = opt_text (mt \<noteq> MergeRegular) (''merge_type: '' @ put_value (unsigned_text io) (merge_type_value mt))
      @ opt_text (u \<noteq> 0) (''into_uuid: '' @ put_value (uuid_text io) u)
      @ opt_text (cs \<noteq> []) (''deduplicate_by_columns: '' @ write_quoted_columns io cs)
      @ opt_text b (''cleanup: '' @ put_value (flag io) b)
      @ opt_text (ps \<noteq> []) (''apply_patches: '' @ put_value (unsigned_text io) (length ps) @ write_patches io ps)
      @ nl @ t"
  shows "read_merge_fields (Suc (length inp)) io e inp
    = Inr (e\<lparr>merge_type := mt, new_part_uuid := u, deduplicate_by_columns := cs, cleanup := b, patch_parts := ps\<rparr>, t)"
proof -
  let ?r5 = "nl @ t"
  let ?r4 = "opt_text (ps \<noteq> []) (''apply_patches: '' @ put_value (unsigned_text io) (length ps) @ write_patches io ps) @ ?r5"
  let ?r3 = "opt_text b (''cleanup: '' @ put_value (flag io) b) @ ?r4"
  let ?r2 = "opt_text (cs \<noteq> []) (''deduplicate_by_columns: '' @ write_quoted_columns io cs) @ ?r3"
  let ?r1 = "opt_text (u \<noteq> 0) (''into_uuid: '' @ put_value (uuid_text io) u) @ ?r2"
  let ?e1 = "e\<lparr>merge_type := mt\<rparr>"
  let ?e2 = "?e1\<lparr>new_part_uuid := u\<rparr>"
  let ?e3 = "?e2\<lparr>deduplicate_by_columns := cs\<rparr>"
  let ?e4 = "?e3\<lparr>cleanup := b\<rparr>"
  have l: "at_line_end ?r1" "at_line_end ?r2" "at_line_end ?r3" "at_line_end ?r4" "at_line_end ?r5" by simp_all
  have "length inp < Suc (length inp)" by simp
  note read_merge_type [OF io e(1) l(1) this [unfolded inp]]
  then obtain n1 where n1: "length ?r1 < n1" "read_merge_fields (Suc (length inp)) io e inp = read_merge_fields n1 io ?e1 ?r1"
    unfolding inp by blast
  from read_into_uuid [OF io _ v(1) l(2) n1(1), of ?e1] e(2) obtain n2 where
    n2: "length ?r2 < n2" "read_merge_fields n1 io ?e1 ?r1 = read_merge_fields n2 io ?e2 ?r2" by auto
  from read_by_columns [OF io _ l(3) n2(1), of ?e2] e(3) obtain n3 where
    n3: "length ?r3 < n3" "read_merge_fields n2 io ?e2 ?r2 = read_merge_fields n3 io ?e3 ?r3" by auto
  from read_cleanup [OF io _ l(4) n3(1), of ?e3] e(4) obtain n4 where
    n4: "length ?r4 < n4" "read_merge_fields n3 io ?e3 ?r3 = read_merge_fields n4 io ?e4 ?r4" by auto
  from read_apply_patches [OF io _ v(2,3) l(5) n4(1), of ?e4] e(5) obtain n5 where
    n5: "length ?r5 < n5" "read_merge_fields n4 io ?e4 ?r4 = read_merge_fields n5 io (?e4\<lparr>patch_parts := ps\<rparr>) ?r5" by auto
  then show ?thesis
    using read_merge_fields_end [OF io t n5(1)] n1(2) n2(2) n3(2) n4(2) by simp
qed

lemma read_mutate_fields_end:
  assumes io: "entry_io_ok io" and "tail_start t" "length (nl @ t) < n"
  shows "read_mutate_fields n io e (nl @ t) = Inr (e, t)"
proof -
  obtain m where "n = Suc m" using assms(3) by (cases n) simp_all
  moreover have "check_literal io (''alter_version'' @ nl) t = (False, t)"
      "check_literal io (''to_uuid'' @ nl) t = (False, t)"
    by (rule check_no [OF io]; use assms(2) in \<open>auto simp: tail_start_def\<close>)+
  ultimately show ?thesis using io by (simp add: expect_lit)
qed

lemma read_mutate_fields_written:
  assumes io: "entry_io_ok io" and e: "new_part_uuid e = 0" "alter_version e = - 1"
    and v: "u < 2 ^ 128" "- (2 ^ 31) \<le> a" "a < 2 ^ 31" and t: "tail_start t"
    and inp: "inp = opt_text (u \<noteq> 0) (''to_uuid'' @ nl @ put_value (uuid_text io) u)
      @ opt_text (a \<noteq> - 1) (''alter_version'' @ nl @ put_value (signed_text io) a) @ nl @ t"
  shows "read_mutate_fields (Suc (length inp)) io e inp = Inr (e\<lparr>new_part_uuid := u, alter_version := a\<rparr>, t)"
proof -
  let ?r1 = "opt_text (a \<noteq> - 1) (''alter_version'' @ nl @ put_value (signed_text io) a) @ nl @ t"
  have "\<exists>m. length ?r1 < m
      \<and> read_mutate_fields (Suc (length inp)) io e inp = read_mutate_fields m io (e\<lparr>new_part_uuid := u\<rparr>) ?r1"
  proof (cases "u = 0")
    case True
    then show ?thesis using e inp by (intro exI [of _ "Suc (length inp)"], cases e) (simp add: opt_text_def)
  next
    case False
    have "get_value (uuid_text io) (put_value (uuid_text io) u @ ?r1) = Inr (u, ?r1)"
      by (rule get_uuid [OF io v(1)]) simp
    then show ?thesis using False io inp
      by (intro exI [of _ "length inp"]) (simp add: expect_lit check_lit check_no)
  qed
  then obtain m where m: "length ?r1 < m"
      "read_mutate_fields (Suc (length inp)) io e inp = read_mutate_fields m io (e\<lparr>new_part_uuid := u\<rparr>) ?r1" by blast
  have "\<exists>k. length (nl @ t) < k \<and> read_mutate_fields m io (e\<lparr>new_part_uuid := u\<rparr>) ?r1
      = read_mutate_fields k io (e\<lparr>new_part_uuid := u, alter_version := a\<rparr>) (nl @ t)"
  proof (cases "a = - 1")
    case True
    then show ?thesis using e m(1) by (intro exI [of _ m], cases e) (simp add: opt_text_def)
  next
    case False
    then obtain k where k: "m = Suc k" "length (nl @ t) < k"
      using m(1) by (cases m) (simp_all add: opt_text_def)
    have "get_value (signed_text io) (put_value (signed_text io) a @ nl @ t) = Inr (a, nl @ t)"
      by (rule get_signed [OF io v(2,3)]) simp
    then show ?thesis using False io k
      by (intro exI [of _ k]) (simp add: opt_text_def expect_lit check_lit check_no)
  qed
  then show ?thesis using m(2) read_mutate_fields_end [OF io t] by auto
qed

section \<open>The round trip\<close>

text \<open>
  The entries whose text form is meant to be read back: of a known type, with names that need no
  escaping, one source part for a mutation, and the kind of drop that the dropped range implies.
\<close>

definition is_i32 :: "int \<Rightarrow> bool" where
  "is_i32 i \<longleftrightarrow> - (2 ^ 31) \<le> i \<and> i < 2 ^ 31"

definition writable :: "text_io \<Rightarrow> format_version \<Rightarrow> log_entry \<Rightarrow> bool" where
  "writable tio fv e \<longleftrightarrow>
     plain_text (source_replica e) \<and> list_all is_id_token (deduplication_block_ids e) \<and> quorum e < 2 ^ 64
     \<and> (entry_type e \<notin> {REPLACE_RANGE, ALTER_METADATA, SYNC_PINNED_PART_UUIDS} \<longrightarrow> plain_text (new_part_name e))
     \<and> (case entry_type e of
          EMPTY \<Rightarrow> False
        | CLONE_PART_FROM_SHARD \<Rightarrow> plain_text (source_shard e)
        | ATTACH_PART \<Rightarrow> plain_text (part_checksum e)
        | MERGE_PARTS \<Rightarrow> list_all (\<lambda>s. plain_text s \<and> s \<noteq> ''into'') (source_parts e)
            \<and> list_all plain_text (patch_parts e) \<and> length (patch_parts e) < 2 ^ 64 \<and> new_part_uuid e < 2 ^ 128
        | DROP_RANGE \<Rightarrow> (case fromPartName tio (new_part_name e) fv of
            Inr i \<Rightarrow> isFakeDropRangePart i | Inl _ \<Rightarrow> False)
        | DROP_PART \<Rightarrow> (case fromPartName tio (new_part_name e) fv of
            Inr i \<Rightarrow> \<not> isFakeDropRangePart i | Inl _ \<Rightarrow> False)
        | REPLACE_RANGE \<Rightarrow> (case replace_range_entry e of
            Some r \<Rightarrow> plain_text (drop_range_part_name r) \<and> is_i32 (columns_version r) | None \<Rightarrow> False)
        | MUTATE_PART \<Rightarrow> length (source_parts e) = 1 \<and> list_all plain_text (source_parts e)
            \<and> new_part_uuid e < 2 ^ 128 \<and> is_i32 (alter_version e)
        | ALTER_METADATA \<Rightarrow> is_i32 (alter_version e) \<and> length (columns_str e) < 2 ^ 64 \<and> length (metadata_str e) < 2 ^ 64
        | _ \<Rightarrow> True)"

text \<open>
  What is read back: the fields every entry has, and those its type writes; the rest is as in a
  fresh entry. Unknown part formats become the default ones, and a missing creation time the time of
  writing.
\<close>

definition common_fields :: "nat \<Rightarrow> log_entry \<Rightarrow> log_entry" where
  "common_fields now e = empty_entry
     \<lparr>create_time := (if create_time e \<noteq> 0 then create_time e else now),
      source_replica := source_replica e, deduplication_block_ids := deduplication_block_ids e,
      log_entry_id := log_entry_id e\<rparr>"

definition type_fields :: "log_entry \<Rightarrow> log_entry \<Rightarrow> log_entry" where
  "type_fields e c =
     (let c = c\<lparr>entry_type := entry_type e\<rparr>; n = c\<lparr>new_part_name := new_part_name e\<rparr>
      in case entry_type e of
        CLONE_PART_FROM_SHARD \<Rightarrow> n\<lparr>source_shard := source_shard e\<rparr>
      | ATTACH_PART \<Rightarrow> n\<lparr>part_checksum := part_checksum e\<rparr>
      | MERGE_PARTS \<Rightarrow> n\<lparr>source_parts := source_parts e, deduplicate := deduplicate e, merge_type := merge_type e,
          new_part_uuid := new_part_uuid e, deduplicate_by_columns := deduplicate_by_columns e,
          cleanup := cleanup e, patch_parts := patch_parts e\<rparr>
      | DROP_RANGE \<Rightarrow> n\<lparr>detach := detach e\<rparr>
      | DROP_PART \<Rightarrow> n\<lparr>detach := detach e\<rparr>
      | CLEAR_COLUMN \<Rightarrow> n\<lparr>column_name := column_name e\<rparr>
      | CLEAR_INDEX \<Rightarrow> n\<lparr>index_name := index_name e\<rparr>
      | REPLACE_RANGE \<Rightarrow> c\<lparr>replace_range_entry := replace_range_entry e\<rparr>
      | MUTATE_PART \<Rightarrow> n\<lparr>source_parts := source_parts e, new_part_uuid := new_part_uuid e,
          alter_version := alter_version e\<rparr>
      | ALTER_METADATA \<Rightarrow> c\<lparr>alter_version := alter_version e, have_mutation := have_mutation e,
          columns_str := columns_str e, metadata_str := metadata_str e\<rparr>
      | SYNC_PINNED_PART_UUIDS \<Rightarrow> c
      | _ \<Rightarrow> n)"

definition tail_fields :: "log_entry \<Rightarrow> log_entry \<Rightarrow> log_entry" where
  "tail_fields e c = c
     \<lparr>new_part_type := (if new_part_type e = UnknownType then Wide else new_part_type e),
      new_storage_type := (if new_storage_type e = UnknownStorage then Full else new_storage_type e),
      quorum := quorum e\<rparr>"

lemma join_Nil_iff: "list_all is_id_token ids \<Longrightarrow> join_with '','' ids = [] \<longleftrightarrow> ids = []"
  by (induction ids rule: induct_list012) (simp_all add: is_id_token_def)

lemma write_format_version_cases:
  "4 \<le> write_format_version e \<and> write_format_version e < 8
     \<and> (7 \<le> write_format_version e \<longleftrightarrow> log_entry_id e \<noteq> [])"
  by (simp add: write_format_version_def format_versions Let_def)

lemma read_head_written:
  assumes io: "entry_io_ok io" and "plain_text (source_replica e)" "list_all is_id_token (deduplication_block_ids e)"
    and t: "t = (if create_time e \<noteq> 0 then create_time e else now)"
      "\<forall>rest. at_line_end rest \<longrightarrow> get_value (date_time io) (put_value (date_time io) t @ rest) = Inr (t, rest)"
  shows "read_head io empty_entry (write_head io now e @ rest)
    = Inr (write_format_version e, common_fields now e, rest)"
proof -
  note v = write_format_version_cases [of e]
  have v64: "write_format_version e < 2 ^ 64" using v by simp
  have ids: "ids = deduplication_block_ids e \<Longrightarrow> ids \<noteq> [] \<Longrightarrow> split_ids io (join_with '','' ids) = ids" for ids
    using entry_io_okD(10) [OF io] assms(3) by simp
  show ?thesis
    using io v v64 assms(2) t ids [OF refl] join_Nil_iff [OF assms(3)]
    by (auto simp: read_head_def write_head_def read_field_def expect_lit get_unsigned get_plain get_escaped
        format_versions common_fields_def empty_entry_def simp flip: t(1))
qed

text \<open>The rest of \<open>readText\<close> after the head, with its continuation.\<close>

definition read_typed ::
  "text_io \<Rightarrow> entry_io \<Rightarrow> format_version \<Rightarrow> nat \<Rightarrow> log_entry \<Rightarrow> string \<Rightarrow> (log_entry \<times> string) result" where
  "read_typed tio io fv v e inp =
     bind_r (read_field io [] (plain io) nl inp) (\<lambda>(type_str, inp).
     bind_r (read_body tio io fv v type_str e inp) (\<lambda>(e, trailing_newline_found, inp).
     bind_r (if \<not> trailing_newline_found then expect io nl inp else Inr inp) (\<lambda>inp. Inr (e, inp))))"

lemma readText_typed:
  "readText tio io fv e inp =
     bind_r (read_head io e inp) (\<lambda>(v, e, inp).
     bind_r (read_typed tio io fv v e inp) (\<lambda>(e, inp). read_tail io e inp))"
  by (simp add: readText_def read_typed_def bind_r_def split: sum.splits prod.splits)

lemma read_keyword:
  assumes "entry_io_ok io" "inp = kw @ nl @ rest" "plain_text kw"
  shows "read_field io [] (plain io) nl inp = Inr (kw, rest)"
proof -
  have "get_value (plain io) (put_value (plain io) kw @ nl @ rest) = Inr (kw, nl @ rest)"
    by (rule get_plain [OF assms(1,3)]) simp
  then have "get_value (plain io) inp = Inr (kw, CHR 0x0A # rest)"
    unfolding entry_io_okD(2) [OF assms(1,3)] assms(2) by simp
  then show ?thesis using assms(1) by (simp add: read_field_def expect_lit)
qed

lemma read_typed_keyword:
  assumes "entry_io_ok io" "plain_text kw"
    "read_body tio io fv v kw c rest = Inr (c', f, rest')"
    "rest' = (if f then t else nl @ t)"
  shows "read_typed tio io fv v c (kw @ nl @ rest) = Inr (c', t)"
  using assms read_keyword [OF assms(1) refl assms(2), of rest]
  by (simp add: read_typed_def expect_lit)

lemma read_merge_written:
  assumes io: "entry_io_ok io" and e: "merge_type c = MergeRegular" "new_part_uuid c = 0"
      "deduplicate_by_columns c = []" "\<not> cleanup c" "patch_parts c = []" "source_parts c = []"
    and w: "plain_text (new_part_name e)" "\<forall>s \<in> set (source_parts e). plain_text s \<and> s \<noteq> ''into''"
      "new_part_uuid e < 2 ^ 128" "\<forall>s \<in> set (patch_parts e). plain_text s" "length (patch_parts e) < 2 ^ 64"
    and v: "4 \<le> v" and t: "tail_start t"
  shows "read_typed tio io fv v c (write_merge io e @ nl @ t)
    = Inr (c\<lparr>entry_type := MERGE_PARTS, source_parts := source_parts e, new_part_name := new_part_name e,
        deduplicate := deduplicate e, merge_type := merge_type e, new_part_uuid := new_part_uuid e,
        deduplicate_by_columns := deduplicate_by_columns e, cleanup := cleanup e, patch_parts := patch_parts e\<rparr>, t)"
proof -
  define opts where "opts = opt_text (merge_type e \<noteq> MergeRegular)
        (''merge_type: '' @ put_value (unsigned_text io) (merge_type_value (merge_type e)))
      @ opt_text (new_part_uuid e \<noteq> 0) (''into_uuid: '' @ put_value (uuid_text io) (new_part_uuid e))
      @ opt_text (deduplicate_by_columns e \<noteq> [])
          (''deduplicate_by_columns: '' @ write_quoted_columns io (deduplicate_by_columns e))
      @ opt_text (cleanup e) (''cleanup: '' @ put_value (flag io) (cleanup e))
      @ opt_text (patch_parts e \<noteq> []) (''apply_patches: '' @ put_value (unsigned_text io) (length (patch_parts e))
          @ write_patches io (patch_parts e)) @ nl @ t"
  define tl where "tl = put_value (plain io) (new_part_name e) @ nl @ ''deduplicate: '' @ put_value (flag io) (deduplicate e) @ opts"
  have whole: "write_merge io e @ nl @ t = ''merge'' @ nl @ write_lines io (source_parts e) @ ''into'' @ nl @ tl"
    by (simp add: write_merge_def tl_def opts_def opt_text_def)
  have le: "at_line_end opts" unfolding opts_def by simp
  have "length (source_parts e) < Suc (length (write_lines io (source_parts e) @ ''into'' @ nl @ tl))"
    using length_write_lines [of "source_parts e" io] by simp
  note sp = read_source_parts_written [OF io w(2) this, of "[]" tl]
  have nm: "get_value (plain io) tl = Inr (new_part_name e, nl @ ''deduplicate: '' @ put_value (flag io) (deduplicate e) @ opts)"
    unfolding tl_def by (rule get_plain [OF io w(1)]) simp
  have fl: "read_field io (nl @ ''deduplicate: '') (flag io) []
      (nl @ ''deduplicate: '' @ put_value (flag io) (deduplicate e) @ opts) = Inr (deduplicate e, opts)"
    using get_flag [OF io le] io by (simp add: read_field_def expect_lit)
  let ?c = "c\<lparr>entry_type := MERGE_PARTS, source_parts := source_parts e, new_part_name := new_part_name e,
      deduplicate := deduplicate e\<rparr>"
  have fs: "read_merge_fields (Suc (length opts)) io ?c opts
      = Inr (?c\<lparr>merge_type := merge_type e, new_part_uuid := new_part_uuid e,
        deduplicate_by_columns := deduplicate_by_columns e, cleanup := cleanup e, patch_parts := patch_parts e\<rparr>, t)"
    by (rule read_merge_fields_written [OF io _ _ _ _ _ w(3-5) t opts_def]) (use e in simp_all)
  have "read_body tio io fv v ''merge'' c (write_lines io (source_parts e) @ ''into'' @ nl @ tl)
      = Inr (?c\<lparr>merge_type := merge_type e, new_part_uuid := new_part_uuid e,
        deduplicate_by_columns := deduplicate_by_columns e, cleanup := cleanup e, patch_parts := patch_parts e\<rparr>, True, t)"
    using sp nm fl fs v e(6) by (simp add: read_body_def read_merge_def format_versions Let_def
        del: read_merge_fields.simps read_source_parts.simps)
  from read_typed_keyword [OF io _ this] show ?thesis unfolding whole by (simp add: plain_text_def)
qed

lemma read_mutate_written:
  assumes io: "entry_io_ok io" and e: "new_part_uuid c = 0" "alter_version c = - 1" "source_parts c = []"
    and w: "plain_text (new_part_name e)" "source_parts e = [p]" "plain_text p" "new_part_uuid e < 2 ^ 128"
      "is_i32 (alter_version e)" "entry_type e = MUTATE_PART"
    and t: "tail_start t" and b: "write_mutate io e = Inr body"
  shows "read_typed tio io fv v c (body @ nl @ t)
    = Inr (c\<lparr>entry_type := MUTATE_PART, new_part_name := new_part_name e, source_parts := source_parts e,
        new_part_uuid := new_part_uuid e, alter_version := alter_version e\<rparr>, t)"
proof -
  define opts where "opts = opt_text (new_part_uuid e \<noteq> 0) (''to_uuid'' @ nl @ put_value (uuid_text io) (new_part_uuid e))
      @ opt_text (alter_version e \<noteq> - 1) (''alter_version'' @ nl @ put_value (signed_text io) (alter_version e)) @ nl @ t"
  have whole: "body @ nl @ t = ''mutate'' @ nl @ put_value (plain io) p @ nl @ ''to'' @ nl
      @ put_value (plain io) (new_part_name e) @ opts"
    using b w(2,6) by (auto simp: write_mutate_def opts_def opt_text_def isAlterMutation_def)
  have le: "at_line_end opts" unfolding opts_def by simp
  let ?c = "c\<lparr>entry_type := MUTATE_PART, new_part_name := new_part_name e, source_parts := [p]\<rparr>"
  have r: "- (2 ^ 31) \<le> alter_version e" "alter_version e < 2 ^ 31" using w(5) by (simp_all add: is_i32_def)
  have fs: "read_mutate_fields (Suc (length opts)) io ?c opts
      = Inr (?c\<lparr>new_part_uuid := new_part_uuid e, alter_version := alter_version e\<rparr>, t)"
    by (rule read_mutate_fields_written [OF io _ _ w(4) r t opts_def]) (use e in simp_all)
  have p: "get_value (plain io) (put_value (plain io) p @ CHR 0x0A # s) = Inr (p, CHR 0x0A # s)" for s
    by (rule get_plain [OF io w(3)]) simp
  have nm: "get_value (plain io) (put_value (plain io) (new_part_name e) @ opts) = Inr (new_part_name e, opts)"
    by (rule get_plain [OF io w(1) le])
  have "read_body tio io fv v ''mutate'' c (put_value (plain io) p @ nl @ ''to'' @ nl @ put_value (plain io) (new_part_name e) @ opts)
      = Inr (?c\<lparr>new_part_uuid := new_part_uuid e, alter_version := alter_version e\<rparr>, True, t)"
    using p nm fs e(3) io by (simp add: read_body_def read_mutate_def read_field_def expect_lit typeToString_def
        del: read_mutate_fields.simps)
  from read_typed_keyword [OF io _ this] show ?thesis unfolding whole w(2) by (simp add: plain_text_def)
qed

lemma read_alter_written:
  assumes io: "entry_io_ok io" and w: "is_i32 (alter_version e)" "length (columns_str e) < 2 ^ 64" "length (metadata_str e) < 2 ^ 64"
  shows "read_typed tio io fv v c (write_alter io e @ nl @ t)
    = Inr (c\<lparr>entry_type := ALTER_METADATA, alter_version := alter_version e, have_mutation := have_mutation e,
        columns_str := columns_str e, metadata_str := metadata_str e\<rparr>, t)"
proof -
  have r: "- (2 ^ 31) \<le> alter_version e" "alter_version e < 2 ^ 31" using w(1) by (simp_all add: is_i32_def)
  have 1: "get_value (signed_text io) (put_value (signed_text io) (alter_version e) @ CHR 0x0A # s) = Inr (alter_version e, CHR 0x0A # s)" for s
    by (rule get_signed [OF io r]) simp
  have 2: "get_value (unsigned_text io) (put_value (unsigned_text io) (length (columns_str e)) @ CHR 0x0A # s) = Inr (length (columns_str e), CHR 0x0A # s)" for s
    by (rule get_unsigned [OF io w(2)]) simp
  have 3: "get_value (unsigned_text io) (put_value (unsigned_text io) (length (metadata_str e)) @ CHR 0x0A # s) = Inr (length (metadata_str e), CHR 0x0A # s)" for s
    by (rule get_unsigned [OF io w(3)]) simp
  have 4: "get_value (flag io) (put_value (flag io) (have_mutation e) @ CHR 0x0A # s) = Inr (have_mutation e, CHR 0x0A # s)" for s
    by (rule get_flag [OF io]) simp
  let ?rest = "''alter_version'' @ nl @ put_value (signed_text io) (alter_version e) @ nl
     @ ''have_mutation'' @ nl @ put_value (flag io) (have_mutation e) @ nl
     @ ''columns_str_size:'' @ nl @ put_value (unsigned_text io) (length (columns_str e)) @ nl
     @ columns_str e @ nl
     @ ''metadata_str_size:'' @ nl @ put_value (unsigned_text io) (length (metadata_str e)) @ nl
     @ metadata_str e @ nl @ t"
  have "read_body tio io fv v ''alter'' c ?rest = Inr (c\<lparr>entry_type := ALTER_METADATA, alter_version := alter_version e,
      have_mutation := have_mutation e, columns_str := columns_str e, metadata_str := metadata_str e\<rparr>, False, nl @ t)"
    using io 1 2 3 4 by (simp add: read_body_def read_alter_def read_field_def expect_lit read_strict_def typeToString_def)
  from read_typed_keyword [OF io _ this, of t] show ?thesis by (simp add: write_alter_def plain_text_def)
qed

lemma read_replace_range_written:
  assumes io: "entry_io_ok io" and w: "plain_text (drop_range_part_name r)" "is_i32 (columns_version r)"
  shows "read_typed tio io fv v c (''REPLACE_RANGE'' @ nl @ write_replace_range io r @ nl @ t)
    = Inr (c\<lparr>entry_type := REPLACE_RANGE, replace_range_entry := Some r\<rparr>, t)"
proof -
  have cv: "- (2 ^ 31) \<le> columns_version r" "columns_version r < 2 ^ 31" using w(2) by (simp_all add: is_i32_def)
  have 1: "get_value (signed_text io) (put_value (signed_text io) (columns_version r) @ CHR 0x0A # s) = Inr (columns_version r, CHR 0x0A # s)" for s
    by (rule get_signed [OF io cv]) simp
  have 2: "get_value (plain io) (put_value (plain io) (drop_range_part_name r) @ CHR 0x0A # s) = Inr (drop_range_part_name r, CHR 0x0A # s)" for s
    by (rule get_plain [OF io w(1)]) simp
  have 3: "get_value (escaped io) (put_value (escaped io) x @ CHR 0x0A # s) = Inr (x, CHR 0x0A # s)" for x s
    by (rule get_escaped [OF io]) simp
  have "read_replace_range io (write_replace_range io r @ nl @ t) = Inr (r, nl @ t)"
    using io 1 2 3 by (simp add: read_replace_range_def write_replace_range_def read_field_def expect_lit entry_io_okD(5))
  then have "read_body tio io fv v ''REPLACE_RANGE'' c (write_replace_range io r @ nl @ t)
      = Inr (c\<lparr>entry_type := REPLACE_RANGE, replace_range_entry := Some r\<rparr>, False, nl @ t)"
    by (simp add: read_body_def typeToString_def)
  from read_typed_keyword [OF io _ this, of t] show ?thesis by (simp add: plain_text_def)
qed

lemma read_drop_written:
  assumes io: "entry_io_ok io" and w: "plain_text (new_part_name e)" "fromPartName tio (new_part_name e) fv = Inr i"
    and kw: "kw = (if detach e then ''detach'' else ''drop'')"
  shows "read_typed tio io fv v c (kw @ nl @ put_value (plain io) (new_part_name e) @ nl @ t)
    = Inr (c\<lparr>entry_type := (if \<not> isFakeDropRangePart i then DROP_PART else DROP_RANGE),
        detach := detach e, new_part_name := new_part_name e\<rparr>, t)"
proof -
  have 1: "get_value (plain io) (put_value (plain io) (new_part_name e) @ nl @ t) = Inr (new_part_name e, nl @ t)"
    by (rule get_plain [OF io w(1)]) simp
  have b: "read_body tio io fv v kw c (put_value (plain io) (new_part_name e) @ nl @ t)
      = Inr (c\<lparr>entry_type := (if \<not> isFakeDropRangePart i then DROP_PART else DROP_RANGE),
          detach := detach e, new_part_name := new_part_name e\<rparr>, False, nl @ t)"
  proof (cases "detach e")
    case True
    then have k: "kw = ''detach''" using kw by simp
    show ?thesis unfolding k using 1 w(2) True by (simp add: read_body_def read_drop_def)
  next
    case False
    then have k: "kw = ''drop''" using kw by simp
    show ?thesis unfolding k using 1 w(2) False by (simp add: read_body_def read_drop_def)
  qed
  have "plain_text kw" using kw by (simp add: plain_text_def)
  from read_typed_keyword [OF io this b, of t] show ?thesis by simp
qed

lemma tail_start_write_tail: "tail_start (write_tail io e)"
  by (simp add: tail_start_def write_tail_def)

lemma read_tail_written:
  assumes io: "entry_io_ok io" and q: "quorum e < 2 ^ 64" "quorum c = 0"
  shows "read_tail io c (write_tail io e) = Inr (tail_fields e c, [])"
proof -
  let ?q = "if quorum e \<noteq> 0 then ''quorum: '' @ put_value (unsigned_text io) (quorum e) @ nl else []"
  let ?s = "(if new_storage_type e \<noteq> Full \<and> new_storage_type e \<noteq> UnknownStorage
        then ''storage_type: '' @ put_value (plain io) (storage_type_toString (new_storage_type e)) @ nl else []) @ ?q"
  have 1: "get_value (unsigned_text io) (put_value (unsigned_text io) (quorum e) @ nl) = Inr (quorum e, nl)"
    by (rule get_unsigned [OF io q(1)]) simp
  have 2: "get_value (plain io) (put_value (plain io) ''Packed'' @ CHR 0x0A # s) = Inr (''Packed'', CHR 0x0A # s)" for s
    by (rule get_plain [OF io]) (simp_all add: plain_text_def)
  have 3: "get_value (plain io) (put_value (plain io) ''Compact'' @ CHR 0x0A # s) = Inr (''Compact'', CHR 0x0A # s)" for s
    by (rule get_plain [OF io]) (simp_all add: plain_text_def)
  have P: "check_literal io ''part_type: '' ?s = (False, ?s)" by (rule check_no [OF io]) simp_all
  have S: "check_literal io ''storage_type: '' ?q = (False, ?q)" by (rule check_no [OF io]) simp_all
  have Q: "(if ?q \<noteq> [] then bind_r (read_field io ''quorum: '' (unsigned_text io) nl ?q) (\<lambda>(q, inp). Inr (d\<lparr>quorum := q\<rparr>, inp))
      else Inr (d, ?q)) = Inr (d\<lparr>quorum := quorum e\<rparr>, [])" if "quorum d = 0" for d
    using io 1 that by (cases d) (simp add: read_field_def expect_lit)
  have storage: "(case check_literal io ''storage_type: '' ?s of
               (True, inp) \<Rightarrow>
                 bind_r (get_value (plain io) inp) (\<lambda>(s, inp).
                 bind_r (storage_type_fromString s) (\<lambda>t.
                 bind_r (expect io nl inp) (\<lambda>inp. Inr (d\<lparr>new_storage_type := t\<rparr>, inp))))
             | (False, inp) \<Rightarrow> Inr (d\<lparr>new_storage_type := Full\<rparr>, inp))
      = Inr (d\<lparr>new_storage_type := (if new_storage_type e = UnknownStorage then Full else new_storage_type e)\<rparr>, ?q)" for d
  proof (cases "new_storage_type e")
    case Packed
    then show ?thesis using io 2 by (simp add: check_lit expect_lit storage_type_toString_def storage_type_fromString_def)
  qed (use S in simp_all)
  have part: "(case check_literal io ''part_type: '' (write_tail io e) of
               (True, inp) \<Rightarrow>
                 bind_r (get_value (plain io) inp) (\<lambda>(s, inp).
                 bind_r (part_type_fromString s) (\<lambda>t.
                 bind_r (expect io nl inp) (\<lambda>inp. Inr (c\<lparr>new_part_type := t\<rparr>, inp))))
             | (False, inp) \<Rightarrow> Inr (c\<lparr>new_part_type := Wide\<rparr>, inp))
      = Inr (c\<lparr>new_part_type := (if new_part_type e = UnknownType then Wide else new_part_type e)\<rparr>, ?s)"
  proof (cases "new_part_type e")
    case Compact
    then show ?thesis using io 3
      by (simp add: write_tail_def check_lit expect_lit part_type_toString_def part_type_fromString_def)
  qed (use P in \<open>simp_all add: write_tail_def\<close>)
  show ?thesis
    unfolding read_tail_def part storage bind_r_simps prod.case tail_fields_def
    using q(2) by (subst Q) simp_all
qed

lemma read_typed_written:
  assumes io: "entry_io_ok io" and w: "writable tio fv e" and b: "write_body io e = Inr body"
    and v: "4 \<le> v" and t: "tail_start t"
    and c: "source_parts c = []" "new_part_uuid c = 0" "merge_type c = MergeRegular" "deduplicate_by_columns c = []"
      "\<not> cleanup c" "patch_parts c = []" "alter_version c = - 1"
  shows "read_typed tio io fv v c (body @ nl @ t) = Inr (type_fields e c, t)"
proof -
  have np: "entry_type e \<notin> {REPLACE_RANGE, ALTER_METADATA, SYNC_PINNED_PART_UUIDS} \<Longrightarrow> plain_text (new_part_name e)"
    using w by (simp add: writable_def)
  have p: "get_value (plain io) (put_value (plain io) x @ CHR 0x0A # s) = Inr (x, CHR 0x0A # s)" if "plain_text x" for x s
    by (rule get_plain [OF io that]) simp
  have x: "get_value (escaped io) (put_value (escaped io) x @ CHR 0x0A # s) = Inr (x, CHR 0x0A # s)" for x s
    by (rule get_escaped [OF io]) simp
  note simple = read_body_def read_field_def read_clear_def expect_lit [OF io] p x type_fields_def Let_def plain_text_def
    typeToString_def
  show ?thesis
  proof (cases "entry_type e")
    case EMPTY
    then show ?thesis using b by (simp add: write_body_def)
  next
    case GET_PART
    have "read_body tio io fv v ''get'' c (put_value (plain io) (new_part_name e) @ nl @ t)
        = Inr (type_fields e c, False, nl @ t)" using np GET_PART by (simp add: simple)
    from read_typed_keyword [OF io _ this, of t] show ?thesis
      using b GET_PART by (auto simp: write_body_def plain_text_def)
  next
    case ATTACH_PART
    have "plain_text (part_checksum e)" using w ATTACH_PART by (simp add: writable_def)
    then have "read_body tio io fv v ''attach'' c (put_value (plain io) (new_part_name e) @ nl @ ''part_checksum: ''
        @ put_value (plain io) (part_checksum e) @ nl @ t) = Inr (type_fields e c, False, nl @ t)"
      using np ATTACH_PART by (simp add: simple)
    from read_typed_keyword [OF io _ this, of t] show ?thesis
      using b ATTACH_PART by (auto simp: write_body_def plain_text_def)
  next
    case CLONE_PART_FROM_SHARD
    have "plain_text (source_shard e)" using w CLONE_PART_FROM_SHARD by (simp add: writable_def)
    then have "read_body tio io fv v ''clone_part_from_shard'' c (put_value (plain io) (new_part_name e) @ nl @ ''source_shard: ''
        @ put_value (plain io) (source_shard e) @ nl @ t) = Inr (type_fields e c, False, nl @ t)"
      using np CLONE_PART_FROM_SHARD by (simp add: simple)
    from read_typed_keyword [OF io _ this, of t] show ?thesis
      using b CLONE_PART_FROM_SHARD by (auto simp: write_body_def plain_text_def)
  next
    case CLEAR_COLUMN
    have "read_body tio io fv v ''clear_column'' c (put_value (escaped io) (column_name e) @ nl @ ''from'' @ nl
        @ put_value (plain io) (new_part_name e) @ nl @ t) = Inr (type_fields e c, False, nl @ t)"
      using np CLEAR_COLUMN by (simp add: simple)
    from read_typed_keyword [OF io _ this, of t] show ?thesis
      using b CLEAR_COLUMN by (auto simp: write_body_def plain_text_def)
  next
    case CLEAR_INDEX
    have "read_body tio io fv v ''clear_index'' c (put_value (escaped io) (index_name e) @ nl @ ''from'' @ nl
        @ put_value (plain io) (new_part_name e) @ nl @ t) = Inr (type_fields e c, False, nl @ t)"
      using np CLEAR_INDEX by (simp add: simple)
    from read_typed_keyword [OF io _ this, of t] show ?thesis
      using b CLEAR_INDEX by (auto simp: write_body_def plain_text_def)
  next
    case SYNC_PINNED_PART_UUIDS
    have "read_body tio io fv v ''sync_pinned_part_uuids'' c (nl @ t) = Inr (type_fields e c, False, nl @ t)"
      using SYNC_PINNED_PART_UUIDS by (simp add: simple)
    from read_typed_keyword [OF io _ this, of t] show ?thesis
      using b SYNC_PINNED_PART_UUIDS by (auto simp: write_body_def plain_text_def)
  next
    case MERGE_PARTS
    then have "read_typed tio io fv v c (write_merge io e @ nl @ t)
    = Inr (c\<lparr>entry_type := MERGE_PARTS, source_parts := source_parts e, new_part_name := new_part_name e,
        deduplicate := deduplicate e, merge_type := merge_type e, new_part_uuid := new_part_uuid e,
        deduplicate_by_columns := deduplicate_by_columns e, cleanup := cleanup e, patch_parts := patch_parts e\<rparr>, t)"
      by (intro read_merge_written io c np v t) (use w in \<open>simp_all add: writable_def list_all_iff\<close>)
    then show ?thesis using b MERGE_PARTS by (simp add: write_body_def type_fields_def Let_def)
  next
    case MUTATE_PART
    obtain q where q: "source_parts e = [q]" "plain_text q"
      using w MUTATE_PART by (cases "source_parts e") (auto simp: writable_def)
    have "write_mutate io e = Inr body" using b MUTATE_PART by (simp add: write_body_def)
    then have "read_typed tio io fv v c (body @ nl @ t) = Inr (c\<lparr>entry_type := MUTATE_PART, new_part_name := new_part_name e,
        source_parts := source_parts e, new_part_uuid := new_part_uuid e, alter_version := alter_version e\<rparr>, t)"
      by (intro read_mutate_written [where p = q] io c np t) (use q w MUTATE_PART in \<open>simp_all add: writable_def\<close>)
    then show ?thesis using MUTATE_PART by (simp add: type_fields_def Let_def)
  next
    case ALTER_METADATA
    then have "read_typed tio io fv v c (write_alter io e @ nl @ t) = Inr (type_fields e c, t)"
      using read_alter_written [OF io, of e] w by (simp add: writable_def type_fields_def Let_def)
    then show ?thesis using b ALTER_METADATA by (simp add: write_body_def)
  next
    case REPLACE_RANGE
    then obtain r where r: "replace_range_entry e = Some r" "plain_text (drop_range_part_name r)" "is_i32 (columns_version r)"
      using w by (auto simp: writable_def split: option.splits)
    have "body = ''REPLACE_RANGE'' @ nl @ write_replace_range io r"
      using b REPLACE_RANGE r(1) by (simp add: write_body_def typeToString_def)
    then show ?thesis using read_replace_range_written [OF io r(2,3)] REPLACE_RANGE r(1)
      by (simp add: type_fields_def Let_def)
  next
    case DROP_RANGE
    then obtain i where i: "fromPartName tio (new_part_name e) fv = Inr i" "isFakeDropRangePart i"
      using w by (auto simp: writable_def split: sum.splits)
    have "body = (if detach e then ''detach'' else ''drop'') @ nl @ put_value (plain io) (new_part_name e)"
      using b DROP_RANGE by (auto simp: write_body_def)
    then show ?thesis using read_drop_written [OF io np i(1) refl, of v c t] i(2) DROP_RANGE
      by (simp add: type_fields_def Let_def)
  next
    case DROP_PART
    then obtain i where i: "fromPartName tio (new_part_name e) fv = Inr i" "\<not> isFakeDropRangePart i"
      using w by (auto simp: writable_def split: sum.splits)
    have "body = (if detach e then ''detach'' else ''drop'') @ nl @ put_value (plain io) (new_part_name e)"
      using b DROP_PART by (auto simp: write_body_def)
    then show ?thesis using read_drop_written [OF io np i(1) refl, of v c t] i(2) DROP_PART
      by (simp add: type_fields_def Let_def)
  qed
qed

text \<open>
  C38: what one replica writes to the log, another reads back: parsing the text of an entry gives the
  common fields, every field that its type carries, and nothing else, for all twelve entry types,
  with the optional lines of merges and mutations present or absent; the loops end within the length
  of the input.
\<close>

theorem log_entry_roundtrip:
  assumes "entry_io_ok io" "writable tio fv e" "writeText io now e = Inr written"
    "t = (if create_time e \<noteq> 0 then create_time e else now)" "t \<noteq> 0"
    "\<forall>rest. at_line_end rest \<longrightarrow> get_value (date_time io) (put_value (date_time io) t @ rest) = Inr (t, rest)"
  shows "parse_entry tio io fv stat_ctime written
    = Inr (tail_fields e (type_fields e (common_fields now e)))"
proof -
  obtain body where body: "write_body io e = Inr body" and
    whole: "written = write_head io now e @ body @ nl @ write_tail io e"
    using assms(3) by (auto simp: writeText_def bind_r_Inr_iff)
  note io = assms(1)
  have w: "plain_text (source_replica e)" "list_all is_id_token (deduplication_block_ids e)" "quorum e < 2 ^ 64"
    using assms(2) by (simp_all add: writable_def)
  note head = read_head_written [OF io w(1,2) assms(4,6), of "body @ nl @ write_tail io e"]
  have "read_typed tio io fv (write_format_version e) (common_fields now e) (body @ nl @ write_tail io e)
      = Inr (type_fields e (common_fields now e), write_tail io e)"
    using write_format_version_cases [of e]
    by (intro read_typed_written io assms(2) body tail_start_write_tail)
       (simp_all add: common_fields_def empty_entry_def)
  moreover have "quorum (type_fields e (common_fields now e)) = 0"
    by (simp add: type_fields_def common_fields_def empty_entry_def Let_def split: entry_type.split)
  moreover have "create_time (tail_fields e (type_fields e (common_fields now e))) = t"
    using assms(4) by (simp add: tail_fields_def type_fields_def common_fields_def Let_def split: entry_type.split)
  ultimately show ?thesis
    using head read_tail_written [OF io w(3)] assms(5) whole
    by (simp add: parse_entry_def readText_typed)
qed

section \<open>Formats that satisfy the assumptions\<close>

definition before_lf :: "string codec" where
  "before_lf = \<lparr>put_value = (\<lambda>s. s),
     get_value = (\<lambda>inp. Inr (takeWhile (\<lambda>c. c \<noteq> CHR 0x0A) inp, dropWhile (\<lambda>c. c \<noteq> CHR 0x0A) inp))\<rparr>"

text \<open>A string with a mark before each byte, so that its end is recognised.\<close>

fun marked :: "string \<Rightarrow> string" where
  "marked [] = []"
| "marked (c # s) = CHR ''x'' # c # marked s"

fun unmarked :: "string \<Rightarrow> string \<times> string" where
  "unmarked (m # c # s) =
     (if m = CHR ''x'' then let (t, rest) = unmarked s in (c # t, rest) else ([], m # c # s))"
| "unmarked s = ([], s)"

lemma unmarked_marked: "rest = [] \<or> hd rest \<noteq> CHR ''x'' \<Longrightarrow> unmarked (marked s @ rest) = (s, rest)"
proof (induction s)
  case Nil
  then show ?case by (cases rest rule: unmarked.cases) auto
qed simp

fun marked_list :: "string list \<Rightarrow> string" where
  "marked_list [] = ''.''"
| "marked_list (s # ss) = ''+'' @ marked s @ marked_list ss"

fun unmarked_list :: "nat \<Rightarrow> string \<Rightarrow> (string list \<times> string) result" where
  "unmarked_list (Suc n) (c # inp) =
     (if c = CHR ''+''
      then let (s, rest) = unmarked inp
           in bind_r (unmarked_list n rest) (\<lambda>(ss, rest). Inr (s # ss, rest))
      else Inr ([], inp))"
| "unmarked_list _ _ = Inl CANNOT_PARSE"

lemma marked_list_hd: "hd (marked_list ss @ rest) \<noteq> CHR ''x''"
  by (cases ss) simp_all

lemma unmarked_list_marked: "length ss < n \<Longrightarrow> unmarked_list n (marked_list ss @ rest) = Inr (ss, rest)"
proof (induction ss arbitrary: n)
  case Nil
  then show ?case by (cases n) simp_all
next
  case (Cons s ss)
  then obtain m where "n = Suc m" "length ss < m" by (cases n) simp_all
  then show ?case
    using Cons.IH unmarked_marked [of "marked_list ss @ rest" s] marked_list_hd by simp
qed

lemma length_marked_list: "length ss < length (marked_list ss)"
  by (induction ss) simp_all

definition dec_nat_codec :: "nat codec" where
  "dec_nat_codec = \<lparr>put_value = dec_of_nat,
     get_value = (\<lambda>inp. let ds = takeWhile is_digit inp
       in if ds = [] then Inl CANNOT_PARSE else Inr (dec_value ds, dropWhile is_digit inp))\<rparr>"

definition dec_int_codec :: "int codec" where
  "dec_int_codec = \<lparr>put_value = dec_of_int,
     get_value = (\<lambda>inp. case dec_read_i64 inp of None \<Rightarrow> Inl CANNOT_PARSE | Some r \<Rightarrow> Inr r)\<rparr>"

definition flag_codec :: "bool codec" where
  "flag_codec = \<lparr>put_value = (\<lambda>b. if b then ''1'' else ''0''),
     get_value = (\<lambda>inp. case inp of [] \<Rightarrow> Inl CANNOT_PARSE | c # rest \<Rightarrow> Inr (c = CHR ''1'', rest))\<rparr>"

fun tokens :: "string \<Rightarrow> string \<Rightarrow> string list" where
  "tokens acc [] = [acc]"
| "tokens acc (c # s) = (if c = CHR '','' then acc # tokens [] s else tokens (acc @ [c]) s)"

lemma tokens_join:
  "list_all is_id_token ids \<Longrightarrow> ids \<noteq> [] \<Longrightarrow> tokens [] (join_with '','' ids) = ids"
proof (induction ids rule: induct_list012)
  have last: "CHR '','' \<notin> set s \<Longrightarrow> tokens acc s = [acc @ s]" for acc s
    by (induction s arbitrary: acc) auto
  have step: "CHR '','' \<notin> set s \<Longrightarrow> tokens acc (s @ CHR '','' # r) = (acc @ s) # tokens [] r" for acc s r
    by (induction s arbitrary: acc) auto
  {
    case (2 x)
    then show ?case using last [of x "[]"] by (simp add: is_id_token_def)
  next
    case (3 x y zs)
    then show ?case using step [of x "[]"] by (simp add: is_id_token_def)
  }
qed simp

definition demo_entry_io :: entry_io where
  "demo_entry_io = \<lparr>plain = before_lf,
     escaped = \<lparr>put_value = marked, get_value = (\<lambda>inp. Inr (unmarked inp))\<rparr>,
     quoted = \<lparr>put_value = (\<lambda>s. marked s @ ''.''),
       get_value = (\<lambda>inp. let (s, rest) = unmarked inp in Inr (s, tl rest))\<rparr>,
     quoted_list = \<lparr>put_value = marked_list, get_value = (\<lambda>inp. unmarked_list (length inp) inp)\<rparr>,
     unsigned_text = dec_nat_codec, signed_text = dec_int_codec, flag = flag_codec,
     uuid_text = dec_nat_codec, date_time = dec_nat_codec,
     expect = (\<lambda>l inp. if take (length l) inp = l then Inr (drop (length l) inp) else Inl CANNOT_PARSE),
     check_literal = (\<lambda>l inp. if take (length l) inp = l then (True, drop (length l) inp) else (False, inp)),
     split_ids = tokens []\<rparr>"

lemma takeWhile_dec_line:
  assumes "at_line_end rest"
  shows "takeWhile is_digit (dec_of_nat n @ rest) = dec_of_nat n"
    and "dropWhile is_digit (dec_of_nat n @ rest) = rest"
proof -
  have "\<not> is_digit CHR 0x0A" by (simp add: is_digit_def)
  then have "takeWhile is_digit rest = []" "dropWhile is_digit rest = rest"
    using assms by (cases rest; simp add: at_line_end_def)+
  then show "takeWhile is_digit (dec_of_nat n @ rest) = dec_of_nat n"
    "dropWhile is_digit (dec_of_nat n @ rest) = rest"
    using dec_of_nat_digits [of _ n] by simp_all
qed

lemma dec_nat_codec_ok: "reads_back dec_nat_codec P"
  by (simp add: reads_back_def dec_nat_codec_def Let_def takeWhile_dec_line)

lemma dec_int_codec_ok: "reads_back dec_int_codec P"
  unfolding reads_back_def
proof (intro allI impI)
  fix i :: int and rest assume "P i \<and> at_line_end rest"
  then have "takeWhile is_digit (dec_of_nat n @ rest) = dec_of_nat n"
    "dropWhile is_digit (dec_of_nat n @ rest) = rest" for n by (simp_all add: takeWhile_dec_line)
  then show "get_value dec_int_codec (put_value dec_int_codec i @ rest) = Inr (i, rest)"
    using hd_dec_of_nat [of "nat i" rest]
    by (simp add: dec_int_codec_def dec_read_i64_def dec_of_int_def Let_def)
qed

lemma demo_entry_io_ok: "entry_io_ok demo_entry_io"
  unfolding entry_io_ok_def
proof (intro conjI)
  show "reads_back (plain demo_entry_io) plain_text"
  proof -
    have "takeWhile (\<lambda>c. c \<noteq> CHR 0x0A) (s @ rest) = s \<and> dropWhile (\<lambda>c. c \<noteq> CHR 0x0A) (s @ rest) = rest"
      if "CHR 0x0A \<notin> set s" "at_line_end rest" for s rest :: string
    proof -
      have "takeWhile (\<lambda>c. c \<noteq> CHR 0x0A) rest = [] \<and> dropWhile (\<lambda>c. c \<noteq> CHR 0x0A) rest = rest"
        using that(2) by (cases rest) (simp_all add: at_line_end_def)
      then show ?thesis using that(1) by (induction s) auto
    qed
    then show ?thesis by (simp add: reads_back_def demo_entry_io_def before_lf_def plain_text_def)
  qed
  have end_not_x: "at_line_end rest \<Longrightarrow> rest = [] \<or> hd rest \<noteq> CHR ''x''" for rest
    by (auto simp: at_line_end_def)
  show "reads_back (escaped demo_entry_io) (\<lambda>_. True)"
    using unmarked_marked [OF end_not_x] by (simp add: reads_back_def demo_entry_io_def)
  show "\<forall>x rest. get_value (quoted demo_entry_io) (put_value (quoted demo_entry_io) x @ rest) = Inr (x, rest)"
    using unmarked_marked [of "CHR ''.'' # _"] by (simp add: demo_entry_io_def)
  show "\<forall>x rest. get_value (quoted_list demo_entry_io) (put_value (quoted_list demo_entry_io) x @ rest) = Inr (x, rest)"
    using unmarked_list_marked length_marked_list by (simp add: demo_entry_io_def trans_less_add1)
  show "reads_back (flag demo_entry_io) (\<lambda>_. True)"
    by (simp add: reads_back_def demo_entry_io_def flag_codec_def)
  have "take (length l) inp \<noteq> l" if "l \<noteq> []" "inp = [] \<or> hd inp \<noteq> hd l" for l inp :: string
    using that by (cases l; cases inp) auto
  then show "\<forall>l inp. l \<noteq> [] \<and> (inp = [] \<or> hd inp \<noteq> hd l) \<longrightarrow> check_literal demo_entry_io l inp = (False, inp)"
    by (simp add: demo_entry_io_def)
  show "\<forall>ids. ids \<noteq> [] \<and> list_all is_id_token ids \<longrightarrow> split_ids demo_entry_io (join_with '','' ids) = ids"
    using tokens_join by (simp add: demo_entry_io_def)
qed (simp_all add: demo_entry_io_def before_lf_def dec_nat_codec_ok dec_int_codec_ok)

definition demo_merge :: log_entry where
  "demo_merge = empty_entry\<lparr>entry_type := MERGE_PARTS, source_replica := ''r1'', create_time := 1700000000,
     deduplication_block_ids := [''b1'', ''b2''], log_entry_id := ''id'', source_parts := [''all_1_1_0'', ''all_2_2_0''],
     new_part_name := ''all_1_2_1'', merge_type := TTLDelete, new_part_uuid := 7,
     deduplicate_by_columns := [''a'', ''b''], patch_parts := [''p1'', ''p2''], quorum := 2, new_part_type := Compact\<rparr>"

theorem log_entry_roundtrip_witness:
  "\<exists>s r. writeText demo_entry_io 1 demo_merge = Inr s \<and> parse_entry dec_io demo_entry_io 1 0 s = Inr r
     \<and> source_parts r = [''all_1_1_0'', ''all_2_2_0''] \<and> patch_parts r = [''p1'', ''p2''] \<and> quorum r = 2
     \<and> new_part_type r = Compact \<and> new_storage_type r = Full"
proof -
  obtain s where s: "writeText demo_entry_io 1 demo_merge = Inr s"
    by (simp add: writeText_def write_body_def demo_merge_def)
  have "writable dec_io 1 demo_merge"
    by (simp add: writable_def demo_merge_def empty_entry_def plain_text_def is_id_token_def)
  moreover have "\<forall>rest. at_line_end rest \<longrightarrow> get_value (date_time demo_entry_io)
      (put_value (date_time demo_entry_io) t @ rest) = Inr (t, rest)" for t
    using dec_nat_codec_ok [of "\<lambda>_. True"] by (simp add: reads_back_def demo_entry_io_def)
  moreover have "create_time demo_merge \<noteq> 0" by (simp add: demo_merge_def)
  ultimately have "parse_entry dec_io demo_entry_io 1 0 s
      = Inr (tail_fields demo_merge (type_fields demo_merge (common_fields 1 demo_merge)))"
    using log_entry_roundtrip [OF demo_entry_io_ok _ s refl] by simp
  then show ?thesis using s
    by (simp add: tail_fields_def type_fields_def common_fields_def demo_merge_def empty_entry_def Let_def)
qed

end
