(* ===== verification/Drop_Parts.thy ===== *)
theory Drop_Parts
  imports Log_Entry Active_Part_Set
begin

text \<open>
  \<open>DropPartsRanges.h\<close> and \<open>DropPartsRanges.cpp\<close>: the queue's record of pending
  \<open>DROP_PART\<close> entries, by which entries on the same blocks are postponed. The unordered map is
  an association list in an arbitrary order of its entries; the properties do not depend on that order.
\<close>

section \<open>The state and its operations\<close>

record drop_parts_ranges =
  ranges_format :: format_version
  drop_ranges :: "(string \<times> part_info) list"

definition postpone_text :: "text_io \<Rightarrow> part_info \<Rightarrow> string \<Rightarrow> string" where
  "postpone_text io drop_range new_name =
     ''Has DROP_PART affecting entry '' @ getPartNameForLogs io drop_range @ '' producing part '' @ new_name
     @ ''. Will postpone it's execution.''"

fun find_affecting :: "part_info \<Rightarrow> (string \<times> part_info) list \<Rightarrow> part_info option" where
  "find_affecting entry_info [] = None"
| "find_affecting entry_info ((znode, drop_range) # rs) =
     (if \<not> isDisjoint drop_range entry_info then Some drop_range else find_affecting entry_info rs)"

text \<open>The result holds the new value of \<open>postpone_reason\<close> (\<open>None\<close>: not assigned).\<close>

definition isAffectedByDropPart ::
  "text_io \<Rightarrow> string \<Rightarrow> drop_parts_ranges \<Rightarrow> (bool \<times> string option) result" where
  "isAffectedByDropPart io new_name s =
     (if new_name = [] then Inr (False, None)
      else bind_r (fromPartName io new_name (ranges_format s)) (\<lambda>entry_info.
             case find_affecting entry_info (drop_ranges s) of
               Some drop_range \<Rightarrow> Inr (True, Some (postpone_text io drop_range new_name))
             | None \<Rightarrow> Inr (False, None)))"

definition isAffectedByDropPart_entry ::
  "text_io \<Rightarrow> log_entry \<Rightarrow> drop_parts_ranges \<Rightarrow> (bool \<times> string option) result" where
  "isAffectedByDropPart_entry io e s = isAffectedByDropPart io (new_part_name e) s"

text \<open>\<open>emplace\<close> keeps the range already stored under the node.\<close>

definition addDropPart :: "text_io \<Rightarrow> log_entry \<Rightarrow> drop_parts_ranges \<Rightarrow> drop_parts_ranges result" where
  "addDropPart io e s =
     (if entry_type e \<noteq> DROP_PART then Inl LOGICAL_ERROR
      else bind_r (getDropRange io (ranges_format s) e) (\<lambda>drop_range.
        case drop_range of
          None \<Rightarrow> Inl UB
        | Some name \<Rightarrow>
            bind_r (fromPartName io name (ranges_format s)) (\<lambda>entry_info.
              Inr (if map_of (drop_ranges s) (znode_name e) \<noteq> None then s
                   else s\<lparr>drop_ranges := (znode_name e, entry_info) # drop_ranges s\<rparr>))))"

text \<open>Erasing the end iterator, where the node is not found, is undefined (the assertion is for debug builds).\<close>

definition removeDropPart :: "log_entry \<Rightarrow> drop_parts_ranges \<Rightarrow> drop_parts_ranges result" where
  "removeDropPart e s =
     (if entry_type e \<noteq> DROP_PART then Inl LOGICAL_ERROR
      else if map_of (drop_ranges s) (znode_name e) = None then Inl UB
      else Inr (s\<lparr>drop_ranges := filter (\<lambda>r. fst r \<noteq> znode_name e) (drop_ranges s)\<rparr>))"

fun find_covering :: "part_info \<Rightarrow> (string \<times> part_info) list \<Rightarrow> part_info option" where
  "find_covering new_drop_range_info [] = None"
| "find_covering new_drop_range_info ((znode, drop_range) # rs) =
     (if contains drop_range new_drop_range_info then Some drop_range
      else find_covering new_drop_range_info rs)"

text \<open>\<open>None\<close>: not found; otherwise the range written to the output argument.\<close>

definition hasDropPart :: "part_info \<Rightarrow> drop_parts_ranges \<Rightarrow> part_info option" where
  "hasDropPart new_drop_range_info s = find_covering new_drop_range_info (drop_ranges s)"

section \<open>Postponement follows the pending drops\<close>

lemma find_affecting_None:
  "find_affecting i rs = None \<longleftrightarrow> (\<forall>r \<in> set rs. isDisjoint (snd r) i)"
  by (induction i rs rule: find_affecting.induct) simp_all

lemma find_covering_None:
  "find_covering i rs = None \<longleftrightarrow> (\<forall>r \<in> set rs. \<not> contains (snd r) i)"
  by (induction i rs rule: find_covering.induct) simp_all

lemma find_affecting_Some: "find_affecting i rs = Some d \<Longrightarrow> d \<in> snd ` set rs \<and> \<not> isDisjoint d i"
  by (induction i rs rule: find_affecting.induct) (auto split: if_splits)

lemma find_covering_Some: "find_covering i rs = Some d \<Longrightarrow> d \<in> snd ` set rs \<and> contains d i"
  by (induction i rs rule: find_covering.induct) (auto split: if_splits)

text \<open>
  The runs of the operations, with what is pending: the drop of each node, as it was first added. A hash
  table may change its order at any time.
\<close>

inductive drop_run :: "text_io \<Rightarrow> format_version \<Rightarrow> drop_parts_ranges \<Rightarrow> (string \<Rightarrow> part_info option) \<Rightarrow> bool"
  for io fv where
  start: "drop_run io fv \<lparr>ranges_format = fv, drop_ranges = []\<rparr> (\<lambda>_. None)"
| add: "drop_run io fv s P \<Longrightarrow> addDropPart io e s = Inr s' \<Longrightarrow> fromPartName io (new_part_name e) fv = Inr d
    \<Longrightarrow> drop_run io fv s' (if P (znode_name e) = None then P(znode_name e \<mapsto> d) else P)"
| remove: "drop_run io fv s P \<Longrightarrow> removeDropPart e s = Inr s' \<Longrightarrow> drop_run io fv s' (P(znode_name e := None))"
| rehash: "drop_run io fv s P \<Longrightarrow> ranges_format s' = ranges_format s \<Longrightarrow> mset (drop_ranges s') = mset (drop_ranges s)
    \<Longrightarrow> drop_run io fv s' P"

lemma drop_run_pending:
  "drop_run io fv s P \<Longrightarrow> ranges_format s = fv \<and> distinct (map fst (drop_ranges s)) \<and> map_of (drop_ranges s) = P"
proof (induction rule: drop_run.induct)
  case (add s P e s' d)
  then show ?case
    by (auto simp: addDropPart_def getDropRange_def map_of_eq_None_iff bind_r_Inr_iff image_iff split: if_splits option.splits)
next
  case (remove s P e s')
  have "map_of (filter (\<lambda>r. fst r \<noteq> z) rs) = (map_of rs)(z := None)" for z and rs :: "(string \<times> part_info) list"
    by (induction rs) (auto simp: fun_eq_iff)
  then show ?case using remove by (auto simp: removeDropPart_def distinct_map_filter split: if_splits)
next
  case (rehash s P s')
  have "set (drop_ranges s') = set (drop_ranges s)" using rehash.hyps(3) by (metis set_mset_mset)
  moreover have "distinct (map fst (drop_ranges s'))"
    using rehash by (metis mset_eq_imp_distinct_iff mset_map)
  ultimately show ?case using rehash by (metis map_of_inject_set)
qed simp

text \<open>
  C39: after any sequence of additions and removals, in whatever order the map is walked, an entry
  producing a part is postponed exactly when this part shares blocks with one that a pending \<open>DROP_PART\<close>
  drops, and the reason names such a drop; a drop of a part that a pending drop covers is recognised
  exactly then; and the addition of a \<open>DROP_PART\<close> entry with a part name, and the removal of a pending
  one, go through.
\<close>

theorem drop_part_postpones:
  assumes "drop_run io fv s P" "fromPartName io name fv = Inr i" "name \<noteq> []"
  shows "((\<forall>d \<in> ran P. isDisjoint d i) \<longrightarrow> isAffectedByDropPart io name s = Inr (False, None))
    \<and> ((\<exists>d \<in> ran P. \<not> isDisjoint d i) \<longrightarrow> (\<exists>d \<in> ran P. \<not> isDisjoint d i
         \<and> isAffectedByDropPart io name s = Inr (True, Some (postpone_text io d name))))
    \<and> (hasDropPart i s = None \<longleftrightarrow> \<not> (\<exists>d \<in> ran P. contains d i))
    \<and> (\<forall>d. hasDropPart i s = Some d \<longrightarrow> d \<in> ran P \<and> contains d i)
    \<and> (\<forall>e d. entry_type e = DROP_PART \<and> fromPartName io (new_part_name e) fv = Inr d \<longrightarrow> (\<exists>s'. addDropPart io e s = Inr s'))
    \<and> (\<forall>e. entry_type e = DROP_PART \<and> P (znode_name e) \<noteq> None \<longrightarrow> (\<exists>s'. removeDropPart e s = Inr s'))"
proof -
  have run: "ranges_format s = fv" "distinct (map fst (drop_ranges s))" "map_of (drop_ranges s) = P"
    using drop_run_pending [OF assms(1)] by auto
  have ran: "ran P = snd ` set (drop_ranges s)" using ran_distinct [OF run(2)] run(3) by simp
  have "isAffectedByDropPart io name s = (case find_affecting i (drop_ranges s) of
      Some d \<Rightarrow> Inr (True, Some (postpone_text io d name)) | None \<Rightarrow> Inr (False, None))"
    using assms(2,3) run(1) by (simp add: isAffectedByDropPart_def)
  then have "((\<forall>d \<in> ran P. isDisjoint d i) \<longrightarrow> isAffectedByDropPart io name s = Inr (False, None))
    \<and> ((\<exists>d \<in> ran P. \<not> isDisjoint d i) \<longrightarrow> (\<exists>d \<in> ran P. \<not> isDisjoint d i
         \<and> isAffectedByDropPart io name s = Inr (True, Some (postpone_text io d name))))"
    using find_affecting_None [of i "drop_ranges s"] find_affecting_Some [of i "drop_ranges s"] unfolding ran
    by (cases "find_affecting i (drop_ranges s)") auto
  moreover have "hasDropPart i s = None \<longleftrightarrow> \<not> (\<exists>d \<in> ran P. contains d i)"
    by (auto simp: hasDropPart_def find_covering_None ran)
  moreover have "d \<in> ran P \<and> contains d i" if "hasDropPart i s = Some d" for d
    using find_covering_Some that by (simp add: hasDropPart_def ran)
  moreover have "\<exists>s'. addDropPart io e s = Inr s'"
    if "entry_type e = DROP_PART" "fromPartName io (new_part_name e) fv = Inr d" for e d
    using that run(1) by (simp add: addDropPart_def getDropRange_def)
  moreover have "\<exists>s'. removeDropPart e s = Inr s'" if "entry_type e = DROP_PART" "P (znode_name e) \<noteq> None" for e
    using that run(3) by (auto simp: removeDropPart_def)
  ultimately show ?thesis by blast
qed

text \<open>A pending drop of the blocks 1 to 4, and a part with the blocks 4 to 5.\<close>

theorem drop_part_postpones_witness:
  "\<exists>s. addDropPart dec_io (empty_entry\<lparr>entry_type := DROP_PART, znode_name := ''queue-1'',
       new_part_name := getPartNameV1 dec_io (PartInfo ''all'' 1 4 2 0)\<rparr>)
     \<lparr>ranges_format = 1, drop_ranges = []\<rparr> = Inr s
     \<and> isAffectedByDropPart dec_io (getPartNameV1 dec_io (PartInfo ''all'' 4 5 1 0)) s
       = Inr (True, Some (postpone_text dec_io (PartInfo ''all'' 1 4 2 0) (getPartNameV1 dec_io (PartInfo ''all'' 4 5 1 0))))"
proof -
  let ?s = "\<lparr>ranges_format = 1, drop_ranges = []\<rparr> :: drop_parts_ranges" and ?d = "PartInfo ''all'' 1 4 2 0"
    and ?i = "PartInfo ''all'' 4 5 1 0"
  let ?e = "empty_entry\<lparr>entry_type := DROP_PART, znode_name := ''queue-1'', new_part_name := getPartNameV1 dec_io ?d\<rparr>"
  have p: "printable ?d" "printable ?i" by (simp_all add: printable_def PartInfo_def wf_info_def LEGACY_MAX_LEVEL_def)
  have d: "fromPartName dec_io (new_part_name ?e) 1 = Inr ?d" and i: "fromPartName dec_io (getPartNameV1 dec_io ?i) 1 = Inr ?i"
    using fromPartName_dec [OF p(1)] fromPartName_dec [OF p(2)] by simp_all
  have n: "getPartNameV1 dec_io ?i \<noteq> []" by (simp add: getPartNameV1_def)
  let ?t = "?s\<lparr>drop_ranges := [(''queue-1'', ?d)]\<rparr>"
  have add: "addDropPart dec_io ?e ?s = Inr ?t" using d by (simp add: addDropPart_def getDropRange_def)
  have "drop_run dec_io 1 ?t ((\<lambda>_. None)(''queue-1'' \<mapsto> ?d))"
    using drop_run.add [OF drop_run.start add d] by simp
  note c = conjunct1 [OF conjunct2 [OF drop_part_postpones [OF this i n]]]
  have "ran ((\<lambda>_. None)(''queue-1'' \<mapsto> ?d)) = {?d}" by (auto simp: ran_def)
  moreover have "\<not> isDisjoint ?d ?i" by (simp add: isDisjoint_def)
  ultimately have "isAffectedByDropPart dec_io (getPartNameV1 dec_io ?i) ?t
      = Inr (True, Some (postpone_text dec_io ?d (getPartNameV1 dec_io ?i)))" using c by (metis singletonD singletonI)
  then show ?thesis using add by blast
qed

section \<open>What an entry blocks and drops\<close>

text \<open>
  A range that is replaced is blocked for merges together with the new parts, unless its block range
  is a single block, the form used when partitions are moved or attached.
\<close>

lemma virtual_parts_replace_range:
  assumes "entry_type e = REPLACE_RANGE" "replace_range_entry e = Some r"
    "fromPartName io (drop_range_part_name r) fv = Inr i"
  shows "getVirtualPartNames io fv e
    = Inr (new_part_names r @ (if getBlocksCount i = 1 then [] else [drop_range_part_name r]))"
  using assms by (simp add: getVirtualPartNames_def getDropRange_def isMovePartitionOrAttachFrom_def)

end
