(* ===== verification/Key_Ranges.thy ===== *)
theory Key_Ranges
  imports Prelude "HOL-Library.Monad_Syntax"
begin

text \<open>
  \<open>BoolMask.h\<close> and the part of \<open>KeyCondition.cpp\<close> that reduces a question about an interval of key
  tuples, in lexicographic order, to questions about hyperrectangles (\<open>forAnyHyperrectangle\<close>,
  \<open>checkInRange\<close>, \<open>mayBeTrueInRange\<close>).

  \<open>Range\<close> and \<open>FieldRef\<close> are not part of the repository: fields are a linearly ordered type, and the
  constructors of ranges are the parameter \<open>range_ops\<close>. A data type matters only by whether it is
  nullable. The callback is a function that may throw.
\<close>

section \<open>Boolean masks\<close>

record bool_mask =
  can_be_true :: bool
  can_be_false :: bool

definition BoolMask :: "bool \<Rightarrow> bool \<Rightarrow> bool_mask" where
  "BoolMask t f = \<lparr>can_be_true = t, can_be_false = f\<rparr>"

definition mask_and :: "bool_mask \<Rightarrow> bool_mask \<Rightarrow> bool_mask" where
  "mask_and a m = BoolMask (can_be_true a \<and> can_be_true m) (can_be_false a \<or> can_be_false m)"

definition mask_or :: "bool_mask \<Rightarrow> bool_mask \<Rightarrow> bool_mask" where
  "mask_or a m = BoolMask (can_be_true a \<or> can_be_true m) (can_be_false a \<and> can_be_false m)"

definition mask_not :: "bool_mask \<Rightarrow> bool_mask" where
  "mask_not a = BoolMask (can_be_false a) (can_be_true a)"

definition isComplete :: "bool_mask \<Rightarrow> bool" where
  "isComplete a \<longleftrightarrow> can_be_true a \<and> can_be_false a"

definition combine_masks :: "bool_mask \<Rightarrow> bool_mask \<Rightarrow> bool_mask" where
  "combine_masks left right =
     BoolMask (can_be_true left \<or> can_be_true right) (can_be_false left \<or> can_be_false right)"

definition consider_only_can_be_true :: bool_mask where
  "consider_only_can_be_true = BoolMask False True"

definition consider_only_can_be_false :: bool_mask where
  "consider_only_can_be_false = BoolMask True False"

lemma BoolMask_sel [simp]: "can_be_true (BoolMask t f) = t" "can_be_false (BoolMask t f) = f"
  by (simp_all add: BoolMask_def)

text \<open>A mask covers a truth value when it does not exclude it.\<close>

definition covers_value :: "bool_mask \<Rightarrow> bool \<Rightarrow> bool" where
  "covers_value m b \<longleftrightarrow> (if b then can_be_true m else can_be_false m)"

lemma covers_value_and: "covers_value m a \<Longrightarrow> covers_value n b \<Longrightarrow> covers_value (mask_and m n) (a \<and> b)"
  by (auto simp: covers_value_def mask_and_def split: if_splits)

lemma covers_value_or: "covers_value m a \<Longrightarrow> covers_value n b \<Longrightarrow> covers_value (mask_or m n) (a \<or> b)"
  by (auto simp: covers_value_def mask_or_def split: if_splits)

lemma covers_value_not: "covers_value m a \<Longrightarrow> covers_value (mask_not m) (\<not> a)"
  by (auto simp: covers_value_def mask_not_def split: if_splits)

lemma covers_combine [simp]:
  "covers_value (combine_masks m n) b \<longleftrightarrow> covers_value m b \<or> covers_value n b"
  by (auto simp: covers_value_def combine_masks_def)

lemma covers_complete: "isComplete m \<Longrightarrow> covers_value m b"
  by (simp add: covers_value_def isComplete_def)

section \<open>Hyperrectangles of an interval of tuples\<close>

record ('v, 'r) range_ops =
  point_range :: "'v \<Rightarrow> 'r"
  make_range :: "'v \<Rightarrow> bool \<Rightarrow> 'v \<Rightarrow> bool \<Rightarrow> 'r"
  createLeftBounded :: "'v \<Rightarrow> bool \<Rightarrow> bool \<Rightarrow> 'r"
  createRightBounded :: "'v \<Rightarrow> bool \<Rightarrow> bool \<Rightarrow> 'r"
  wholeUniverse :: 'r
  wholeUniverseWithoutNull :: 'r

definition universe_for :: "('v, 'r) range_ops \<Rightarrow> bool \<Rightarrow> 'r" where
  "universe_for ops is_nullable = (if is_nullable then wholeUniverse ops else wholeUniverseWithoutNull ops)"

text \<open>The loop over the matching elements of the two keys.\<close>

function match_prefix ::
  "('v, 'r) range_ops \<Rightarrow> nat \<Rightarrow> 'v list \<Rightarrow> 'v list \<Rightarrow> nat \<Rightarrow> 'r list \<Rightarrow> nat \<times> 'r list" where
  "match_prefix ops key_size left_keys right_keys prefix_size h =
     (if prefix_size < key_size \<and> left_keys ! prefix_size = right_keys ! prefix_size
      then match_prefix ops key_size left_keys right_keys (prefix_size + 1)
             (h[prefix_size := point_range ops (left_keys ! prefix_size)])
      else (prefix_size, h))"
  by pat_completeness auto
termination by (relation "measure (\<lambda>(_, n, _, _, p, _). n - p)") auto

declare match_prefix.simps [simp del]

lemma match_prefix_ge: "prefix_size \<le> fst (match_prefix ops key_size l r prefix_size h)"
proof (induction ops key_size l r prefix_size h rule: match_prefix.induct)
  case (1 ops key_size l r prefix_size h)
  then show ?case by (subst match_prefix.simps) (auto simp: Let_def)
qed

text \<open>The range of one element, open or closed at the ends that bound it.\<close>

definition bounded_range ::
  "('v, 'r) range_ops \<Rightarrow> bool \<Rightarrow> bool \<Rightarrow> 'v \<Rightarrow> 'v \<Rightarrow> bool \<Rightarrow> bool \<Rightarrow> 'r \<Rightarrow> 'r" where
  "bounded_range ops left_bounded right_bounded l r closed is_nullable old =
     (if left_bounded \<and> right_bounded then make_range ops l closed r closed
      else if left_bounded then createLeftBounded ops l closed is_nullable
      else if right_bounded then createRightBounded ops r closed is_nullable
      else old)"

text \<open>The elements after the given one become unbounded.\<close>

definition unbounded_after :: "('v, 'r) range_ops \<Rightarrow> bool list \<Rightarrow> nat \<Rightarrow> 'r list \<Rightarrow> 'r list" where
  "unbounded_after ops nullable prefix_size h =
     map (\<lambda>i. if i \<le> prefix_size then h ! i else universe_for ops (nullable ! i)) [0 ..< length h]"

text \<open>
  \<open>forAnyHyperrectangle\<close>. The hyperrectangle is modified in place, so it is returned with the mask;
  the vectors have \<open>key_size\<close> elements.
\<close>

function forAnyHyperrectangle ::
  "('v, 'r) range_ops \<Rightarrow> nat \<Rightarrow> 'v list \<Rightarrow> 'v list \<Rightarrow> bool \<Rightarrow> bool \<Rightarrow> 'r list \<Rightarrow> bool list \<Rightarrow> nat
     \<Rightarrow> bool_mask \<Rightarrow> ('r list \<Rightarrow> bool_mask result) \<Rightarrow> (bool_mask \<times> 'r list) result" where
  "forAnyHyperrectangle ops key_size left_keys right_keys left_bounded right_bounded h nullable prefix_size
     initial_mask callback =
     (if \<not> left_bounded \<and> \<not> right_bounded then bind_r (callback h) (\<lambda>m. Inr (m, h))
      else
      let (p, h) = (if left_bounded \<and> right_bounded
                    then match_prefix ops key_size left_keys right_keys prefix_size h
                    else (prefix_size, h))
      in if p \<ge> key_size then bind_r (callback h) (\<lambda>m. Inr (m, h))
      else if p + 1 = key_size then
        let h = h[p := bounded_range ops left_bounded right_bounded (left_keys ! p) (right_keys ! p) True
                       (nullable ! p) (h ! p)]
        in bind_r (callback h) (\<lambda>m. Inr (m, h))
      else
        let h = unbounded_after ops nullable p
                  (h[p := bounded_range ops left_bounded right_bounded (left_keys ! p) (right_keys ! p) False
                       (nullable ! p) (h ! p)])
        in bind_r (callback h) (\<lambda>m.
        let res = combine_masks initial_mask m
        in if isComplete res then Inr (res, h)
        else bind_r
          (if left_bounded
           then bind_r (forAnyHyperrectangle ops key_size left_keys right_keys True False
                          (h[p := point_range ops (left_keys ! p)]) nullable (p + 1) initial_mask callback)
                  (\<lambda>(m, h). Inr (combine_masks res m, h))
           else Inr (res, h)) (\<lambda>(res, h).
        if left_bounded \<and> isComplete res then Inr (res, h)
        else if right_bounded
        then bind_r (forAnyHyperrectangle ops key_size left_keys right_keys False True
                       (h[p := point_range ops (right_keys ! p)]) nullable (p + 1) initial_mask callback)
               (\<lambda>(m, h). Inr (combine_masks res m, h))
        else Inr (res, h))))"
  by pat_completeness auto

termination
proof (relation "measure (\<lambda>(_, key_size, _, _, _, _, _, _, prefix_size, _, _). key_size - prefix_size)", goal_cases)
  case (2 ops key_size l r lb rb h nullable prefix_size initial_mask callback x p h')
  then have "p = fst x" by (metis fst_conv)
  moreover have "prefix_size \<le> fst x" using 2 match_prefix_ge [of prefix_size ops key_size l r h] by simp
  ultimately show ?case using 2 by simp
next
  case (3 ops key_size l r lb rb h nullable prefix_size initial_mask callback x p h')
  then have "p = fst x" by (metis fst_conv)
  moreover have "prefix_size \<le> fst x" using 3 match_prefix_ge [of prefix_size ops key_size l r h] by simp
  ultimately show ?case using 3 by simp
qed simp

declare forAnyHyperrectangle.simps [simp del]

definition checkInRange ::
  "('v, 'r) range_ops \<Rightarrow> nat \<Rightarrow> 'v list \<Rightarrow> 'v list \<Rightarrow> bool list \<Rightarrow> bool_mask
     \<Rightarrow> ('r list \<Rightarrow> bool_mask result) \<Rightarrow> bool_mask result" where
  "checkInRange ops used_key_size left_keys right_keys nullable initial_mask checkInHyperrectangle =
     (let key_ranges = map (\<lambda>i. universe_for ops (nullable ! i)) [0 ..< used_key_size]
      in bind_r (forAnyHyperrectangle ops used_key_size left_keys right_keys True True key_ranges nullable 0
                   initial_mask checkInHyperrectangle) (\<lambda>(m, h). Inr m))"

definition mayBeTrueInRange ::
  "('v, 'r) range_ops \<Rightarrow> nat \<Rightarrow> 'v list \<Rightarrow> 'v list \<Rightarrow> bool list
     \<Rightarrow> ('r list \<Rightarrow> bool_mask result) \<Rightarrow> bool result" where
  "mayBeTrueInRange ops used_key_size left_keys right_keys nullable checkInHyperrectangle =
     bind_r (checkInRange ops used_key_size left_keys right_keys nullable consider_only_can_be_true
               checkInHyperrectangle) (\<lambda>m. Inr (can_be_true m))"

section \<open>The hyperrectangles make up the interval\<close>

text \<open>
  What the range constructors mean: \<open>mem r x\<close> says that the field \<open>x\<close> lies in
  \<open>r\<close>. A range with an infinite end holds nulls only where it is made for a nullable column.
\<close>

definition range_ops_ok ::
  "('v::linorder, 'r) range_ops \<Rightarrow> ('r \<Rightarrow> 'v \<Rightarrow> bool) \<Rightarrow> ('v \<Rightarrow> bool) \<Rightarrow> bool" where
  "range_ops_ok ops mem is_null \<longleftrightarrow>
     (\<forall>v x. mem (point_range ops v) x \<longleftrightarrow> x = v)
     \<and> (\<forall>l li r ri x. mem (make_range ops l li r ri) x
          \<longleftrightarrow> (l < x \<or> li \<and> x = l) \<and> (x < r \<or> ri \<and> x = r))
     \<and> (\<forall>v inc n x. (mem (createLeftBounded ops v inc n) x \<longrightarrow> v < x \<or> inc \<and> x = v)
          \<and> ((v < x \<or> inc \<and> x = v) \<and> (n \<or> \<not> is_null x) \<longrightarrow> mem (createLeftBounded ops v inc n) x))
     \<and> (\<forall>v inc n x. (mem (createRightBounded ops v inc n) x \<longrightarrow> x < v \<or> inc \<and> x = v)
          \<and> ((x < v \<or> inc \<and> x = v) \<and> (n \<or> \<not> is_null x) \<longrightarrow> mem (createRightBounded ops v inc n) x))
     \<and> (\<forall>x. mem (wholeUniverse ops) x) \<and> (\<forall>x. \<not> is_null x \<longrightarrow> mem (wholeUniverseWithoutNull ops) x)"

definition in_rectangle :: "('r \<Rightarrow> 'v \<Rightarrow> bool) \<Rightarrow> 'r list \<Rightarrow> 'v list \<Rightarrow> bool" where
  "in_rectangle mem h row \<longleftrightarrow> length row = length h \<and> (\<forall>i < length h. mem (h ! i) (row ! i))"

text \<open>A key tuple of the table: nulls only in nullable columns.\<close>

definition key_tuple :: "('v \<Rightarrow> bool) \<Rightarrow> bool list \<Rightarrow> 'v list \<Rightarrow> bool" where
  "key_tuple is_null nullable row \<longleftrightarrow>
     length row = length nullable \<and> (\<forall>i < length row. nullable ! i \<or> \<not> is_null (row ! i))"

lemma drop_le_iff:
  fixes xs ys :: "'v::linorder list"
  assumes "length xs = n" "length ys = n" "p < n"
  shows "drop p xs \<le> drop p ys \<longleftrightarrow> xs ! p < ys ! p \<or> xs ! p = ys ! p \<and> drop (Suc p) xs \<le> drop (Suc p) ys"
proof -
  have "drop p xs = xs ! p # drop (Suc p) xs" "drop p ys = ys ! p # drop (Suc p) ys"
    using assms by (simp_all add: Cons_nth_drop_Suc)
  then show ?thesis by simp
qed

lemma match_prefix_spec:
  assumes "match_prefix ops n l r p h = (p', h')" "p \<le> n" "length h = n"
  shows "p \<le> p' \<and> p' \<le> n \<and> length h' = n \<and> (\<forall>i < p. h' ! i = h ! i)
    \<and> (\<forall>i. p \<le> i \<and> i < p' \<longrightarrow> l ! i = r ! i \<and> h' ! i = point_range ops (l ! i))
    \<and> (p' < n \<longrightarrow> l ! p' \<noteq> r ! p')"
  using assms
proof (induction ops n l r p h rule: match_prefix.induct)
  case (1 ops n l r p h)
  show ?case
  proof (cases "p < n \<and> l ! p = r ! p")
    case True
    have "match_prefix ops n l r (p + 1) (h[p := point_range ops (l ! p)]) = (p', h')"
      using "1.prems"(1) True by (subst (asm) match_prefix.simps) simp
    from "1.IH" [OF True this] True "1.prems"(3) have IH: "p + 1 \<le> p' \<and> p' \<le> n \<and> length h' = n
        \<and> (\<forall>i < p + 1. h' ! i = h[p := point_range ops (l ! p)] ! i)
        \<and> (\<forall>i. p + 1 \<le> i \<and> i < p' \<longrightarrow> l ! i = r ! i \<and> h' ! i = point_range ops (l ! i))
        \<and> (p' < n \<longrightarrow> l ! p' \<noteq> r ! p')" by simp
    have "h' ! p = point_range ops (l ! p)" using IH True "1.prems"(3) by simp
    then have "\<forall>i. p \<le> i \<and> i < p' \<longrightarrow> l ! i = r ! i \<and> h' ! i = point_range ops (l ! i)"
      using IH True by (metis Suc_eq_plus1 Suc_leI le_neq_implies_less)
    then show ?thesis using IH by simp
  next
    case False
    then have "p' = p \<and> h' = h" using "1.prems"(1) by (subst (asm) match_prefix.simps) auto
    then show ?thesis using False "1.prems"(2,3) by auto
  qed
qed

text \<open>Equal leading elements of both bounds are shared by every tuple between them.\<close>

lemma between_prefix:
  fixes l r row :: "'v::linorder list"
  assumes "length l = n" "length r = n" "length row = n" "p \<le> p'" "p' \<le> n"
    "\<forall>i. p \<le> i \<and> i < p' \<longrightarrow> l ! i = r ! i"
  shows "drop p l \<le> drop p row \<and> drop p row \<le> drop p r
    \<longleftrightarrow> (\<forall>i. p \<le> i \<and> i < p' \<longrightarrow> row ! i = l ! i) \<and> drop p' l \<le> drop p' row \<and> drop p' row \<le> drop p' r"
  using assms(4,6)
proof (induction rule: dec_induct)
  case (step k)
  have k: "k < n" "l ! k = r ! k" using step.hyps step.prems assms(5) by auto
  have split: "drop k l \<le> drop k row \<and> drop k row \<le> drop k r
      \<longleftrightarrow> row ! k = l ! k \<and> drop (Suc k) l \<le> drop (Suc k) row \<and> drop (Suc k) row \<le> drop (Suc k) r"
    using drop_le_iff [OF assms(1,3) k(1)] drop_le_iff [OF assms(3,2) k(1)] k(2) by auto
  have "(\<forall>i. p \<le> i \<and> i < Suc k \<longrightarrow> row ! i = l ! i)
      \<longleftrightarrow> (\<forall>i. p \<le> i \<and> i < k \<longrightarrow> row ! i = l ! i) \<and> row ! k = l ! k"
    using step.hyps by (auto simp: less_Suc_eq)
  then show ?case using step.IH step.prems split by auto
next
  case base
  have "\<forall>i. p \<le> i \<and> i < p \<longrightarrow> row ! i = l ! i" by (metis leD)
  then show ?case by blast
qed

lemma nth_unbounded_after:
  "i < length h \<Longrightarrow> unbounded_after ops nullable p h ! i = (if i \<le> p then h ! i else universe_for ops (nullable ! i))"
  by (simp add: unbounded_after_def)

lemma length_unbounded_after [simp]: "length (unbounded_after ops nullable p h) = length h"
  by (simp add: unbounded_after_def)

text \<open>
  The bounds on the suffix of a tuple, and the induction behind both directions: any covering of the
  interval is found by some call, and each call stays inside the interval.
\<close>

definition within ::
  "bool \<Rightarrow> bool \<Rightarrow> 'v::linorder list \<Rightarrow> 'v list \<Rightarrow> nat \<Rightarrow> 'v list \<Rightarrow> bool" where
  "within lb rb l r p row \<longleftrightarrow> (lb \<longrightarrow> drop p l \<le> drop p row) \<and> (rb \<longrightarrow> drop p row \<le> drop p r)"

lemma bounded_range_mem_imp:
  assumes "range_ops_ok ops mem is_null" "lb \<or> rb" "mem (bounded_range ops lb rb a b closed n old) x"
  shows "(lb \<longrightarrow> a < x \<or> closed \<and> x = a) \<and> (rb \<longrightarrow> x < b \<or> closed \<and> x = b)"
  using assms unfolding range_ops_ok_def bounded_range_def by (cases lb; cases rb) simp_all

lemma bounded_range_mem:
  assumes "range_ops_ok ops mem is_null" "lb \<or> rb" "n \<or> \<not> is_null x"
  shows "mem (bounded_range ops lb rb a b closed n old) x
    \<longleftrightarrow> (lb \<longrightarrow> a < x \<or> closed \<and> x = a) \<and> (rb \<longrightarrow> x < b \<or> closed \<and> x = b)"
proof
  assume "(lb \<longrightarrow> a < x \<or> closed \<and> x = a) \<and> (rb \<longrightarrow> x < b \<or> closed \<and> x = b)"
  then show "mem (bounded_range ops lb rb a b closed n old) x"
    using assms unfolding range_ops_ok_def bounded_range_def by (cases lb; cases rb) simp_all
qed (rule bounded_range_mem_imp [OF assms(1,2)])

lemma universe_mem:
  "range_ops_ok ops mem is_null \<Longrightarrow> n \<or> \<not> is_null x \<Longrightarrow> mem (universe_for ops n) x"
  by (auto simp: range_ops_ok_def universe_for_def)

lemma point_mem: "range_ops_ok ops mem is_null \<Longrightarrow> mem (point_range ops v) x \<longleftrightarrow> x = v"
  by (simp add: range_ops_ok_def)

lemma within_step:
  assumes "length l = n" "length r = n" "length row = n" "q < n"
  shows "within lb rb l r q row \<longleftrightarrow>
     (lb \<longrightarrow> l ! q < row ! q \<or> l ! q = row ! q \<and> within True False l r (Suc q) row)
     \<and> (rb \<longrightarrow> row ! q < r ! q \<or> row ! q = r ! q \<and> within False True l r (Suc q) row)"
  using drop_le_iff [OF assms(1,3,4)] drop_le_iff [OF assms(3,2,4)] by (simp add: within_def)

definition matched ::
  "('v, 'r) range_ops \<Rightarrow> nat \<Rightarrow> 'v list \<Rightarrow> 'v list \<Rightarrow> bool \<Rightarrow> bool \<Rightarrow> nat \<Rightarrow> 'r list \<Rightarrow> nat \<times> 'r list" where
  "matched ops n l r lb rb p h = (if lb \<and> rb then match_prefix ops n l r p h else (p, h))"

lemma matched_spec:
  fixes l r :: "'v::linorder list"
  assumes "matched ops n l r lb rb p h = (q, h1)" "p \<le> n" "length h = n" "length l = n" "length r = n"
  shows "p \<le> q" "q \<le> n" "length h1 = n" "\<forall>i < p. h1 ! i = h ! i"
    "\<forall>i. p \<le> i \<and> i < q \<longrightarrow> h1 ! i = point_range ops (l ! i)"
    "lb \<and> rb \<and> q < n \<Longrightarrow> drop p l \<le> drop p r \<Longrightarrow> l ! q < r ! q"
    "length row = n \<Longrightarrow> within lb rb l r p row
       \<longleftrightarrow> (\<forall>i. p \<le> i \<and> i < q \<longrightarrow> row ! i = l ! i) \<and> within lb rb l r q row"
proof -
  have all: "p \<le> q \<and> q \<le> n \<and> length h1 = n \<and> (\<forall>i < p. h1 ! i = h ! i)
    \<and> (\<forall>i. p \<le> i \<and> i < q \<longrightarrow> l ! i = r ! i \<and> h1 ! i = point_range ops (l ! i))
    \<and> (lb \<and> rb \<and> q < n \<longrightarrow> l ! q \<noteq> r ! q)"
  proof (cases "lb \<and> rb")
    case True
    then show ?thesis using match_prefix_spec [OF _ assms(2,3)] assms(1) by (simp add: matched_def)
  next
    case False
    then show ?thesis using assms(1-3) by (auto simp: matched_def)
  qed
  then show "p \<le> q" "q \<le> n" "length h1 = n" "\<forall>i < p. h1 ! i = h ! i"
    "\<forall>i. p \<le> i \<and> i < q \<longrightarrow> h1 ! i = point_range ops (l ! i)" by blast+
  have eq: "\<forall>i. p \<le> i \<and> i < q \<longrightarrow> l ! i = r ! i" using all by blast
  have pq: "p \<le> q" "q \<le> n" using all by blast+
  {
    assume b: "lb \<and> rb \<and> q < n" and le: "drop p l \<le> drop p r"
    have "drop q l \<le> drop q r"
      using between_prefix [OF assms(4,5,4) pq eq] le by simp
    then have "l ! q \<le> r ! q" using drop_le_iff [OF assms(4,5)] b by (auto simp: less_imp_le)
    moreover have "l ! q \<noteq> r ! q" using all b by blast
    ultimately show "l ! q < r ! q" by simp
  }
  assume row: "length row = n"
  show "within lb rb l r p row \<longleftrightarrow> (\<forall>i. p \<le> i \<and> i < q \<longrightarrow> row ! i = l ! i) \<and> within lb rb l r q row"
  proof (cases "lb \<and> rb")
    case True
    then show ?thesis using between_prefix [OF assms(4,5) row pq eq] by (simp add: within_def)
  next
    case False
    then have "q = p" using assms(1) by (auto simp: matched_def)
    moreover have "\<forall>i. p \<le> i \<and> i < p \<longrightarrow> row ! i = l ! i" by (metis leD)
    ultimately show ?thesis by blast
  qed
qed

lemma forAny_unfold:
  assumes "lb \<or> rb" "matched ops n l r lb rb p h = (q, h1)"
  shows "forAnyHyperrectangle ops n l r lb rb h nullable p im callback =
     (if q \<ge> n then bind_r (callback h1) (\<lambda>m. Inr (m, h1))
      else if q + 1 = n then
        let h = h1[q := bounded_range ops lb rb (l ! q) (r ! q) True (nullable ! q) (h1 ! q)]
        in bind_r (callback h) (\<lambda>m. Inr (m, h))
      else
        let h = unbounded_after ops nullable q
                  (h1[q := bounded_range ops lb rb (l ! q) (r ! q) False (nullable ! q) (h1 ! q)])
        in bind_r (callback h) (\<lambda>m.
        let res = combine_masks im m
        in if isComplete res then Inr (res, h)
        else bind_r
          (if lb
           then bind_r (forAnyHyperrectangle ops n l r True False
                          (h[q := point_range ops (l ! q)]) nullable (q + 1) im callback)
                  (\<lambda>(m, h). Inr (combine_masks res m, h))
           else Inr (res, h)) (\<lambda>(res, h).
        if lb \<and> isComplete res then Inr (res, h)
        else if rb
        then bind_r (forAnyHyperrectangle ops n l r False True
                       (h[q := point_range ops (r ! q)]) nullable (q + 1) im callback)
               (\<lambda>(m, h). Inr (combine_masks res m, h))
        else Inr (res, h))))"
proof -
  have "(\<not> lb \<and> \<not> rb) = False" using assms(1) by simp
  then show ?thesis
    by (subst forAnyHyperrectangle.simps)
       (simp only: if_False assms(2) [unfolded matched_def] Let_def prod.case)
qed

text \<open>The three calls of the callback in the general case, as one case distinction.\<close>

lemma forAny_cases:
  assumes run: "forAnyHyperrectangle ops n l r lb rb h nullable p im callback = Inr (m, h')"
    and b: "lb \<or> rb" and mt: "matched ops n l r lb rb p h = (q, h1)"
  obtains (full) "q \<ge> n" "callback h1 = Inr m" "h' = h1"
  | (last) "q + 1 = n" "h' = h1[q := bounded_range ops lb rb (l ! q) (r ! q) True (nullable ! q) (h1 ! q)]"
      "callback h' = Inr m"
  | (three) h2 m1 hl ml where "q + 1 < n"
      "h2 = unbounded_after ops nullable q (h1[q := bounded_range ops lb rb (l ! q) (r ! q) False (nullable ! q) (h1 ! q)])"
      "callback h2 = Inr m1"
      "isComplete (combine_masks im m1) \<and> m = combine_masks im m1 \<and> h' = h2
       \<or> (if lb then forAnyHyperrectangle ops n l r True False (h2[q := point_range ops (l ! q)]) nullable (q + 1) im callback = Inr (ml, hl)
           else ml = im \<and> hl = h2)
         \<and> ((lb \<and> isComplete (combine_masks (combine_masks im m1) ml) \<or> \<not> rb)
              \<and> m = combine_masks (combine_masks im m1) ml \<and> h' = hl
           \<or> rb \<and> (\<exists>mr. forAnyHyperrectangle ops n l r False True (hl[q := point_range ops (r ! q)]) nullable (q + 1) im callback = Inr (mr, h')
                \<and> m = combine_masks (combine_masks (combine_masks im m1) ml) mr))"
proof -
  have comb: "combine_masks (combine_masks im x) im = combine_masks im x" for x
    by (auto simp: combine_masks_def BoolMask_def)
  note run' = run [unfolded forAny_unfold [OF b mt]]
  consider "q \<ge> n" | "q + 1 = n" | "q + 1 < n" by linarith
  then show thesis
  proof cases
    case 1
    then have "bind_r (callback h1) (\<lambda>m. Inr (m, h1)) = Inr (m, h')" using run' by (simp only: if_True)
    then have "callback h1 = Inr m" "h' = h1" by (cases "callback h1"; simp)+
    then show thesis using full 1 by blast
  next
    case 2
    define h2 where "h2 = h1[q := bounded_range ops lb rb (l ! q) (r ! q) True (nullable ! q) (h1 ! q)]"
    have "bind_r (callback h2) (\<lambda>m. Inr (m, h2)) = Inr (m, h')"
      using run' 2 by (simp add: Let_def h2_def)
    then have "callback h2 = Inr m" "h' = h2" by (cases "callback h2"; simp)+
    then show thesis using last 2 unfolding h2_def by blast
  next
    case 3
    define h2 where "h2 = unbounded_after ops nullable q (h1[q := bounded_range ops lb rb (l ! q) (r ! q) False (nullable ! q) (h1 ! q)])"
    have n: "(q \<ge> n) = False" "(q + 1 = n) = False" using 3 by simp_all
    note run'' = run' [unfolded n if_False Let_def, folded h2_def]
    obtain m1 where m1: "callback h2 = Inr m1"
      using run'' by (cases "callback h2") simp_all
    show thesis
    proof (cases "isComplete (combine_masks im m1)")
      case True
      then have "m = combine_masks im m1 \<and> h' = h2"
        using run'' True unfolding m1 bind_r_simps if_P [OF True] by simp
      then show thesis using three [OF 3 h2_def m1] True by blast
    next
      case False
      have run2: "bind_r (if lb then bind_r (forAnyHyperrectangle ops n l r True False
                          (h2[q := point_range ops (l ! q)]) nullable (q + 1) im callback)
                  (\<lambda>(m, h). Inr (combine_masks (combine_masks im m1) m, h))
           else Inr (combine_masks im m1, h2)) (\<lambda>(res, h).
        if lb \<and> isComplete res then Inr (res, h)
        else if rb
        then bind_r (forAnyHyperrectangle ops n l r False True
                       (h[q := point_range ops (r ! q)]) nullable (q + 1) im callback)
               (\<lambda>(m, h). Inr (combine_masks res m, h))
        else Inr (res, h)) = Inr (m, h')"
        using run'' unfolding m1 bind_r_simps if_not_P [OF False] .
      define F where "F hyp = forAnyHyperrectangle ops n l r False True
          (hyp[q := point_range ops (r ! q)]) nullable (q + 1) im callback" for hyp
      have run3: "(if lb \<and> isComplete M then Inr (M, hyp)
          else if rb then bind_r (F hyp) (\<lambda>(m, h). Inr (combine_masks M m, h)) else Inr (M, hyp)) = Inr (m, h')"
        if "bind_r (Inr (M, hyp)) (\<lambda>(res, h).
        if lb \<and> isComplete res then Inr (res, h)
        else if rb
        then bind_r (forAnyHyperrectangle ops n l r False True
                       (h[q := point_range ops (r ! q)]) nullable (q + 1) im callback)
               (\<lambda>(m, h). Inr (combine_masks res m, h))
        else Inr (res, h)) = Inr (m, h')" for M hyp
        using that by (simp only: bind_r_simps prod.case F_def)
      have fin: "(lb \<and> isComplete M \<or> \<not> rb) \<and> m = M \<and> h' = hyp
          \<or> rb \<and> (\<exists>mr. F hyp = Inr (mr, h') \<and> m = combine_masks M mr)"
        if "(if lb \<and> isComplete M then Inr (M, hyp)
          else if rb then bind_r (F hyp) (\<lambda>(m, h). Inr (combine_masks M m, h)) else Inr (M, hyp)) = Inr (m, h')" for M hyp
        using that by (cases "lb \<and> isComplete M"; cases rb; cases "F hyp") auto
      show thesis
      proof (cases lb)
        case True
        then obtain ml hl where L: "forAnyHyperrectangle ops n l r True False
            (h2[q := point_range ops (l ! q)]) nullable (q + 1) im callback = Inr (ml, hl)"
          using run2 by (cases "forAnyHyperrectangle ops n l r True False
            (h2[q := point_range ops (l ! q)]) nullable (q + 1) im callback") auto
        have "bind_r (Inr (combine_masks (combine_masks im m1) ml, hl)) (\<lambda>(res, h).
        if lb \<and> isComplete res then Inr (res, h)
        else if rb
        then bind_r (forAnyHyperrectangle ops n l r False True
                       (h[q := point_range ops (r ! q)]) nullable (q + 1) im callback)
               (\<lambda>(m, h). Inr (combine_masks res m, h))
        else Inr (res, h)) = Inr (m, h')"
          using run2 unfolding if_P [OF True] L by (simp only: bind_r_simps prod.case)
        from fin [OF run3 [OF this]] three [OF 3 h2_def m1, of ml hl] show thesis
          unfolding F_def if_P [OF True] using L by blast
      next
        case nlb: False
        have "bind_r (Inr (combine_masks (combine_masks im m1) im, h2)) (\<lambda>(res, h).
        if lb \<and> isComplete res then Inr (res, h)
        else if rb
        then bind_r (forAnyHyperrectangle ops n l r False True
                       (h[q := point_range ops (r ! q)]) nullable (q + 1) im callback)
               (\<lambda>(m, h). Inr (combine_masks res m, h))
        else Inr (res, h)) = Inr (m, h')"
          using run2 unfolding if_not_P [OF nlb] comb .
        from fin [OF run3 [OF this]] three [OF 3 h2_def m1, of im h2] show thesis
          unfolding F_def if_not_P [OF nlb] by blast
      qed
    qed
  qed
qed

lemma forAny_frame:
  fixes l r :: "'v::linorder list"
  assumes len: "length l = n" "length r = n"
  shows "forAnyHyperrectangle ops n l r lb rb h nullable p im callback = Inr (m, h')
    \<Longrightarrow> length h = n \<Longrightarrow> p \<le> n \<Longrightarrow> lb \<or> rb \<Longrightarrow> length h' = n \<and> (\<forall>i < p. h' ! i = h ! i)"
proof (induction "n - p" arbitrary: p lb rb h m h' rule: less_induct)
  case less
  obtain q h1 where mt: "matched ops n l r lb rb p h = (q, h1)" by fastforce
  note q = matched_spec [OF mt less.prems(3,2) len]
  from less.prems(1,4) mt show ?case
  proof (cases rule: forAny_cases)
    case full
    then show ?thesis using q by simp
  next
    case last
    then show ?thesis using q by simp
  next
    case (three h2 m1 hl ml)
    have h2: "length h2 = n" "\<forall>i < p. h2 ! i = h ! i"
      using three(1,2) q by (simp_all add: nth_unbounded_after)
    have dec: "n - (q + 1) < n - p" "q + 1 \<le> n" using three(1) q(1) by simp_all
    have hl: "length hl = n \<and> (\<forall>i < p. hl ! i = h ! i)"
      if "if lb then forAnyHyperrectangle ops n l r True False (h2[q := point_range ops (l ! q)]) nullable (q + 1) im callback = Inr (ml, hl)
           else ml = im \<and> hl = h2"
    proof (cases lb)
      case True
      then show ?thesis using less.hyps [OF dec(1) that [unfolded if_P [OF True]] _ dec(2)] h2 q(1) by simp
    qed (use that h2 in simp)
    have hr: "length h' = n \<and> (\<forall>i < p. h' ! i = h ! i)"
      if "length hl = n \<and> (\<forall>i < p. hl ! i = h ! i)"
        "forAnyHyperrectangle ops n l r False True (hl[q := point_range ops (r ! q)]) nullable (q + 1) im callback = Inr (mr, h')" for mr
      using less.hyps [OF dec(1) that(2) _ dec(2)] that(1) q(1) by simp
    show ?thesis using three(4) h2 hl hr by blast
  qed
qed

lemma forAny_sound:
  fixes l r row :: "'v::linorder list"
  assumes ok: "range_ops_ok ops mem is_null" and row: "key_tuple is_null nullable row" "length row = n"
    and len: "length l = n" "length r = n"
    and cb: "\<And>h m. callback h = Inr m \<Longrightarrow> in_rectangle mem h row \<Longrightarrow> covers_value m b"
  shows "forAnyHyperrectangle ops n l r lb rb h nullable p im callback = Inr (m, h')
    \<Longrightarrow> length h = n \<Longrightarrow> p \<le> n \<Longrightarrow> lb \<or> rb \<Longrightarrow> \<forall>i < p. mem (h ! i) (row ! i) \<Longrightarrow> within lb rb l r p row
    \<Longrightarrow> covers_value m b"
proof (induction "n - p" arbitrary: p lb rb h m h' rule: less_induct)
  case less
  obtain q h1 where mt: "matched ops n l r lb rb p h = (q, h1)" by fastforce
  note q = matched_spec [OF mt less.prems(3,2) len]
  have rowq: "\<forall>i. p \<le> i \<and> i < q \<longrightarrow> row ! i = l ! i" "within lb rb l r q row"
    using q(7) [OF row(2)] less.prems(6) by blast+
  have pre: "mem (h1 ! i) (row ! i)" if "i < q" for i
    using that less.prems(5) q(4,5) rowq(1) point_mem [OF ok] by (cases "i < p") simp_all
  have nn: "i < n \<Longrightarrow> nullable ! i \<or> \<not> is_null (row ! i)" for i
    using row by (simp add: key_tuple_def)
  from less.prems(1,4) mt show ?case
  proof (cases rule: forAny_cases)
    case full
    then show ?thesis using cb pre q(2,3) row(2) by (simp add: in_rectangle_def)
  next
    case last
    have "q < n" using last(1) by simp
    have "mem (bounded_range ops lb rb (l ! q) (r ! q) True (nullable ! q) (h1 ! q)) (row ! q)"
      unfolding bounded_range_mem [OF ok less.prems(4) nn [OF \<open>q < n\<close>]]
      using rowq(2) [unfolded within_step [OF len row(2) \<open>q < n\<close>]] by metis
    then have hq: "mem (h' ! q) (row ! q)" unfolding last(2) using q(3) \<open>q < n\<close> by simp
    have hi: "mem (h' ! i) (row ! i)" if "i < q" for i
      unfolding last(2) using pre [OF that] that by simp
    have "mem (h' ! i) (row ! i)" if "i < n" for i
    proof (cases "i = q")
      case True
      then show ?thesis using hq by simp
    next
      case False
      then show ?thesis using hi that last(1) by simp
    qed
    moreover have "length h' = n" unfolding last(2) using q(3) by simp
    ultimately have "in_rectangle mem h' row"
      using row(2) by (simp add: in_rectangle_def)
    then show ?thesis using cb last(3) by blast
  next
    case (three h2 m1 hl ml)
    have qn: "q < n" using three(1) by simp
    have h2: "length h2 = n" "\<forall>i < q. mem (h2 ! i) (row ! i)"
      using three(1,2) q pre by (simp_all add: nth_unbounded_after)
    have dec: "n - (q + 1) < n - p" "q + 1 \<le> n" using three(1) q(1) by simp_all
    note st = rowq(2) [unfolded within_step [OF len row(2) qn]]
    have inner: "covers_value m1 b" if "lb \<longrightarrow> l ! q < row ! q" "rb \<longrightarrow> row ! q < r ! q"
    proof -
      have "mem (h2 ! i) (row ! i)" if i: "i < n" for i
      proof (cases "i < q")
        case False
        show ?thesis
        proof (cases "i = q")
          case True
          then show ?thesis
            using three(2) i q(3) bounded_range_mem [OF ok less.prems(4) nn [OF qn]] \<open>lb \<longrightarrow> _\<close> \<open>rb \<longrightarrow> _\<close>
            by (simp add: nth_unbounded_after)
        next
          case False
          then show ?thesis using three(2) i q(3) \<open>\<not> i < q\<close> universe_mem [OF ok nn [OF i]]
            by (simp add: nth_unbounded_after)
        qed
      qed (use h2 in simp)
      then show ?thesis using cb [OF three(3)] h2(1) row(2) by (simp add: in_rectangle_def)
    qed
    have left: "covers_value ml b"
      if "if lb then forAnyHyperrectangle ops n l r True False (h2[q := point_range ops (l ! q)]) nullable (q + 1) im callback = Inr (ml, hl)
           else ml = im \<and> hl = h2" "lb" "row ! q = l ! q" "within True False l r (Suc q) row"
    proof -
      have "\<forall>i < q + 1. mem (h2[q := point_range ops (l ! q)] ! i) (row ! i)"
        using h2 that(3) point_mem [OF ok] qn by (simp add: nth_list_update less_Suc_eq)
      from less.hyps [OF dec(1) _ _ dec(2) _ this] that(1,2,4) h2(1) show ?thesis by simp
    qed
    have frame: "length hl = n \<and> (\<forall>i < q. hl ! i = h2 ! i)"
      if "if lb then forAnyHyperrectangle ops n l r True False (h2[q := point_range ops (l ! q)]) nullable (q + 1) im callback = Inr (ml, hl)
           else ml = im \<and> hl = h2"
    proof (cases lb)
      case True
      then show ?thesis using forAny_frame [OF len that [unfolded if_P [OF True]] _ dec(2)] h2(1) by simp
    qed (use that h2 in simp)
    have right: "covers_value mr b"
      if "forAnyHyperrectangle ops n l r False True (hl[q := point_range ops (r ! q)]) nullable (q + 1) im callback = Inr (mr, h')"
        "row ! q = r ! q" "within False True l r (Suc q) row" "length hl = n \<and> (\<forall>i < q. hl ! i = h2 ! i)" for mr
    proof -
      have "\<forall>i < q + 1. mem (hl[q := point_range ops (r ! q)] ! i) (row ! i)"
        using h2(2) that(2,4) point_mem [OF ok] qn by (simp add: nth_list_update less_Suc_eq)
      from less.hyps [OF dec(1) that(1) _ dec(2) _ this] that(3,4) show ?thesis by simp
    qed
    show ?thesis
      using three(4)
    proof (elim disjE conjE)
      assume "isComplete (combine_masks im m1)" "m = combine_masks im m1"
      then show ?thesis using covers_complete by blast
    next
      assume L: "if lb then forAnyHyperrectangle ops n l r True False (h2[q := point_range ops (l ! q)]) nullable (q + 1) im callback = Inr (ml, hl)
           else ml = im \<and> hl = h2" and m: "m = combine_masks (combine_masks im m1) ml"
        and c: "isComplete (combine_masks (combine_masks im m1) ml)"
      then show ?thesis using covers_complete by blast
    next
      assume L: "if lb then forAnyHyperrectangle ops n l r True False (h2[q := point_range ops (l ! q)]) nullable (q + 1) im callback = Inr (ml, hl)
           else ml = im \<and> hl = h2" and m: "m = combine_masks (combine_masks im m1) ml" and rb: "\<not> rb"
      have lb using less.prems(4) rb by blast
      then consider "l ! q < row ! q" | "row ! q = l ! q" "within True False l r (Suc q) row"
        using st by auto
      then have "covers_value m1 b \<or> covers_value ml b"
        by cases (use inner rb left [OF L \<open>lb\<close>] in blast)+
      then show ?thesis unfolding m covers_combine by blast
    next
      assume L: "if lb then forAnyHyperrectangle ops n l r True False (h2[q := point_range ops (l ! q)]) nullable (q + 1) im callback = Inr (ml, hl)
           else ml = im \<and> hl = h2" and rb: rb
        and "\<exists>mr. forAnyHyperrectangle ops n l r False True (hl[q := point_range ops (r ! q)]) nullable (q + 1) im callback = Inr (mr, h')
                \<and> m = combine_masks (combine_masks (combine_masks im m1) ml) mr"
      then obtain mr where mr: "forAnyHyperrectangle ops n l r False True (hl[q := point_range ops (r ! q)]) nullable (q + 1) im callback = Inr (mr, h')"
          "m = combine_masks (combine_masks (combine_masks im m1) ml) mr" by blast
      consider "row ! q = r ! q" "within False True l r (Suc q) row"
        | "lb" "row ! q = l ! q" "within True False l r (Suc q) row"
        | "lb \<longrightarrow> l ! q < row ! q" "rb \<longrightarrow> row ! q < r ! q"
        using st rb by metis
      then have "covers_value m1 b \<or> covers_value ml b \<or> covers_value mr b"
      proof cases
        case 1
        then show ?thesis using right [OF mr(1) 1 frame [OF L]] by blast
      next
        case 2
        then show ?thesis using left [OF L 2] by blast
      next
        case 3
        then show ?thesis using inner by blast
      qed
      then show ?thesis unfolding mr(2) covers_combine by blast
    qed
  qed
qed

text \<open>
  Conversely no hyperrectangle leaves the interval: a value that the answer covers is covered by the
  initial mask or by the callback on a hyperrectangle made of tuples of the interval.
\<close>

lemma forAny_exact:
  fixes l r :: "'v::linorder list" and ops :: "('v, 'r) range_ops"
  assumes ok: "range_ops_ok ops mem is_null" and len: "length l = n" "length r = n"
  shows "forAnyHyperrectangle ops n l r lb rb h nullable p im callback = Inr (m, h')
    \<Longrightarrow> length h = n \<Longrightarrow> p \<le> n \<Longrightarrow> lb \<or> rb \<Longrightarrow> lb \<and> rb \<longrightarrow> drop p l \<le> drop p r \<Longrightarrow> covers_value m b
    \<Longrightarrow> covers_value im b \<or> (\<exists>h0 m0. callback h0 = Inr m0 \<and> covers_value m0 b \<and> length h0 = n
          \<and> (\<forall>i < p. h0 ! i = h ! i) \<and> (\<forall>row. in_rectangle mem h0 row \<longrightarrow> within lb rb l r p row))"
proof (induction "n - p" arbitrary: p lb rb h m h' rule: less_induct)
  case less
  obtain q h1 where mt: "matched ops n l r lb rb p h = (q, h1)" by fastforce
  note q = matched_spec [OF mt less.prems(3,2) len]
  have lift: "within lb rb l r p row"
    if hr: "in_rectangle mem h0 row" "length h0 = n" "\<forall>i < q. h0 ! i = h1 ! i" "within lb rb l r q row" for h0 row
  proof -
    have "row ! i = l ! i" if i: "p \<le> i \<and> i < q" for i
    proof -
      have "h0 ! i = point_range ops (l ! i)" using i hr(3) q(5) by metis
      moreover have "mem (h0 ! i) (row ! i)" using hr(1,2) i q(2) by (simp add: in_rectangle_def)
      ultimately show ?thesis using point_mem [OF ok] by simp
    qed
    then show ?thesis using q(7) [of row] hr by (simp add: in_rectangle_def)
  qed
  from less.prems(1,4) mt show ?case
  proof (cases rule: forAny_cases)
    case full
    have "within lb rb l r q row" if "in_rectangle mem h1 row" for row
      using full(1) len that q(3) by (simp add: within_def in_rectangle_def)
    then have "\<forall>row. in_rectangle mem h1 row \<longrightarrow> within lb rb l r p row"
      using lift [OF _ q(3)] by blast
    then show ?thesis using full(2) less.prems(6) q(3,4) by blast
  next
    case last
    have qn: "q < n" and lh: "length h' = n" and pre: "\<forall>i < q. h' ! i = h1 ! i"
      using last(1,2) q(3) by simp_all
    have "within lb rb l r p row" if "in_rectangle mem h' row" for row
    proof -
      have row: "length row = n" using that lh by (simp add: in_rectangle_def)
      have "mem (h' ! q) (row ! q)" using that lh qn by (simp add: in_rectangle_def)
      then have "mem (bounded_range ops lb rb (l ! q) (r ! q) True (nullable ! q) (h1 ! q)) (row ! q)"
        unfolding last(2) using qn q(3) by simp
      note b = bounded_range_mem_imp [OF ok less.prems(4) this]
      have "within True False l r (Suc q) row" "within False True l r (Suc q) row"
        using last(1) len row by (simp_all add: within_def)
      then have "within lb rb l r q row"
        unfolding within_step [OF len row qn] using b by metis
      then show ?thesis using lift [OF that lh pre] by blast
    qed
    moreover have "\<forall>i < p. h' ! i = h ! i" using pre q(1,4) by simp
    ultimately show ?thesis using last(3) less.prems(6) lh by blast
  next
    case (three h2 m1 hl ml)
    have qn: "q < n" using three(1) by simp
    have h2: "length h2 = n" "\<forall>i < q. h2 ! i = h1 ! i"
      "h2 ! q = bounded_range ops lb rb (l ! q) (r ! q) False (nullable ! q) (h1 ! q)"
      using three(1,2) q(3) by (simp_all add: nth_unbounded_after)
    have dec: "n - (q + 1) < n - p" "q + 1 \<le> n" using three(1) q(1) by simp_all
    have prefix: "\<forall>i < p. h0 ! i = h ! i" if "\<forall>i < q. h0 ! i = h1 ! i" for h0 :: "'r list"
      using that q(1,4) by simp
    have lr: "l ! q < r ! q" if "lb" "rb" using q(6) that qn less.prems(5) by blast
    let ?goal = "\<exists>h0 m0. callback h0 = Inr m0 \<and> covers_value m0 b \<and> length h0 = n
          \<and> (\<forall>i < p. h0 ! i = h ! i) \<and> (\<forall>row. in_rectangle mem h0 row \<longrightarrow> within lb rb l r p row)"
    have inner: ?goal if "covers_value m1 b"
    proof -
      have "within lb rb l r p row" if row: "in_rectangle mem h2 row" for row
      proof -
        have "mem (h2 ! q) (row ! q)" "length row = n" using row h2(1) qn by (simp_all add: in_rectangle_def)
        then have "within lb rb l r q row"
          using bounded_range_mem_imp [OF ok less.prems(4), of "l ! q" "r ! q" False] h2(3)
            within_step [OF len _ qn] by metis
        then show ?thesis using lift [OF row h2(1,2)] by blast
      qed
      then show ?thesis using that three(3) h2(1) prefix [OF h2(2)] by blast
    qed
    have side: ?goal
      if "callback h0 = Inr m0" "covers_value m0 b" "length h0 = n" "\<forall>i < q + 1. h0 ! i = hyp[q := point_range ops v] ! i"
        "length hyp = n" "\<forall>i < q. hyp ! i = h1 ! i"
        "\<forall>row. in_rectangle mem h0 row \<longrightarrow> row ! q = v \<longrightarrow> length row = n \<longrightarrow> within lb rb l r q row" for h0 m0 hyp v
    proof -
      have h0: "\<forall>i < q. h0 ! i = h1 ! i" "h0 ! q = point_range ops v" using that(4,5,6) qn by simp_all
      have "within lb rb l r p row" if row: "in_rectangle mem h0 row" for row
      proof -
        have "mem (h0 ! q) (row ! q)" "length row = n" using row \<open>length h0 = n\<close> qn by (simp_all add: in_rectangle_def)
        then have "row ! q = v" using h0(2) point_mem [OF ok] by simp
        then show ?thesis using lift [OF row \<open>length h0 = n\<close> h0(1)] \<open>length row = n\<close>
            \<open>\<forall>row. in_rectangle mem h0 row \<longrightarrow> row ! q = v \<longrightarrow> length row = n \<longrightarrow> within lb rb l r q row\<close> row by blast
      qed
      then show ?thesis using that(1,2,3) prefix [OF h0(1)] by blast
    qed
    have left: "covers_value im b \<or> ?goal"
      if "if lb then forAnyHyperrectangle ops n l r True False (h2[q := point_range ops (l ! q)]) nullable (q + 1) im callback = Inr (ml, hl)
           else ml = im \<and> hl = h2" "covers_value ml b"
    proof (cases lb)
      case lb: True
      note IH = less.hyps [OF dec(1) that(1) [unfolded if_P [OF lb]] _ dec(2) _ _ that(2)]
      have "covers_value im b \<or> (\<exists>h0 m0. callback h0 = Inr m0 \<and> covers_value m0 b \<and> length h0 = n
          \<and> (\<forall>i < q + 1. h0 ! i = h2[q := point_range ops (l ! q)] ! i)
          \<and> (\<forall>row. in_rectangle mem h0 row \<longrightarrow> within True False l r (q + 1) row))"
        using IH h2(1) by simp
      then show ?thesis
      proof (elim disjE exE conjE)
        fix h0 m0
        assume a: "callback h0 = Inr m0" "covers_value m0 b" "length h0 = n"
          "\<forall>i < q + 1. h0 ! i = h2[q := point_range ops (l ! q)] ! i"
          "\<forall>row. in_rectangle mem h0 row \<longrightarrow> within True False l r (q + 1) row"
        have "within lb rb l r q row" if "in_rectangle mem h0 row" "row ! q = l ! q" "length row = n" for row
          using within_step [OF len that(3) qn] that(1,2) a(5) lr lb by (metis Suc_eq_plus1)
        then show ?thesis using side [OF a(1-4) h2(1,2)] by blast
      qed blast
    qed (use that in simp)
    have hl: "length hl = n \<and> (\<forall>i < q. hl ! i = h1 ! i)"
      if "if lb then forAnyHyperrectangle ops n l r True False (h2[q := point_range ops (l ! q)]) nullable (q + 1) im callback = Inr (ml, hl)
           else ml = im \<and> hl = h2"
    proof (cases lb)
      case True
      then show ?thesis using forAny_frame [OF len that [unfolded if_P [OF True]] _ dec(2)] h2(1,2) by simp
    qed (use that h2 in simp)
    have right: "covers_value im b \<or> ?goal"
      if "forAnyHyperrectangle ops n l r False True (hl[q := point_range ops (r ! q)]) nullable (q + 1) im callback = Inr (mr, h')"
        "covers_value mr b" rb "length hl = n \<and> (\<forall>i < q. hl ! i = h1 ! i)" for mr
    proof -
      note IH = less.hyps [OF dec(1) that(1) _ dec(2) _ _ that(2)]
      have "covers_value im b \<or> (\<exists>h0 m0. callback h0 = Inr m0 \<and> covers_value m0 b \<and> length h0 = n
          \<and> (\<forall>i < q + 1. h0 ! i = hl[q := point_range ops (r ! q)] ! i)
          \<and> (\<forall>row. in_rectangle mem h0 row \<longrightarrow> within False True l r (q + 1) row))"
        using IH that(4) by simp
      then show ?thesis
      proof (elim disjE exE conjE)
        fix h0 m0
        assume a: "callback h0 = Inr m0" "covers_value m0 b" "length h0 = n"
          "\<forall>i < q + 1. h0 ! i = hl[q := point_range ops (r ! q)] ! i"
          "\<forall>row. in_rectangle mem h0 row \<longrightarrow> within False True l r (q + 1) row"
        have "within lb rb l r q row" if "in_rectangle mem h0 row" "row ! q = r ! q" "length row = n" for row
          using within_step [OF len that(3) qn] that(1,2) a(5) lr \<open>rb\<close> by (metis Suc_eq_plus1)
        then show ?thesis using side [OF a(1-4)] that(4) by blast
      qed blast
    qed
    have cov: "covers_value (combine_masks (combine_masks im m1) ml) b \<Longrightarrow>
        covers_value im b \<or> covers_value m1 b \<or> covers_value ml b" by simp
    from three(4) show ?thesis
    proof (elim disjE exE conjE)
      assume "m = combine_masks im m1"
      then show ?thesis using less.prems(6) inner by auto
    next
      assume L: "if lb then forAnyHyperrectangle ops n l r True False (h2[q := point_range ops (l ! q)]) nullable (q + 1) im callback = Inr (ml, hl)
           else ml = im \<and> hl = h2" and m: "m = combine_masks (combine_masks im m1) ml"
      show ?thesis using cov [folded m, OF less.prems(6)] inner left [OF L] by blast
    next
      assume L: "if lb then forAnyHyperrectangle ops n l r True False (h2[q := point_range ops (l ! q)]) nullable (q + 1) im callback = Inr (ml, hl)
           else ml = im \<and> hl = h2" and m: "m = combine_masks (combine_masks im m1) ml"
      show ?thesis using cov [folded m, OF less.prems(6)] inner left [OF L] by blast
    next
      fix mr
      assume L: "if lb then forAnyHyperrectangle ops n l r True False (h2[q := point_range ops (l ! q)]) nullable (q + 1) im callback = Inr (ml, hl)
           else ml = im \<and> hl = h2" and rb
        and R: "forAnyHyperrectangle ops n l r False True (hl[q := point_range ops (r ! q)]) nullable (q + 1) im callback = Inr (mr, h')"
        and m: "m = combine_masks (combine_masks (combine_masks im m1) ml) mr"
      have "(covers_value im b \<or> covers_value m1 b \<or> covers_value ml b) \<or> covers_value mr b"
        using less.prems(6) unfolding m covers_combine by blast
      then show ?thesis using inner left [OF L] right [OF R _ \<open>rb\<close> hl [OF L]] by blast
    qed
  qed
qed

section \<open>Intervals of keys\<close>

lemma checkInRange_InrE:
  assumes "checkInRange ops n l r nullable im callback = Inr m"
  obtains h' where "forAnyHyperrectangle ops n l r True True (map (\<lambda>i. universe_for ops (nullable ! i)) [0 ..< n])
      nullable 0 im callback = Inr (m, h')"
  using assms by (auto simp: checkInRange_def Let_def bind_r_Inr_iff)

lemma checkInRange_is_interval_aux:
  fixes l r :: "'v::linorder list"
  assumes ok: "range_ops_ok ops mem is_null" and len: "length l = n" "length r = n" "length nullable = n"
    and le: "l \<le> r"
  shows "checkInRange ops n l r nullable im callback = Inr m \<Longrightarrow> covers_value m b
      \<Longrightarrow> covers_value im b \<or> (\<exists>h m0. callback h = Inr m0 \<and> covers_value m0 b \<and> length h = n
            \<and> (\<forall>row. in_rectangle mem h row \<longrightarrow> l \<le> row \<and> row \<le> r))"
    "checkInRange ops n l r nullable im callback = Inr m
      \<Longrightarrow> (\<And>h m row. callback h = Inr m \<Longrightarrow> in_rectangle mem h row \<Longrightarrow> covers_value m (cond row))
      \<Longrightarrow> key_tuple is_null nullable row \<Longrightarrow> l \<le> row \<Longrightarrow> row \<le> r \<Longrightarrow> covers_value m (cond row)"
    "mayBeTrueInRange ops n l r nullable callback = Inr False
      \<Longrightarrow> (\<And>h m row. callback h = Inr m \<Longrightarrow> in_rectangle mem h row \<Longrightarrow> covers_value m (cond row))
      \<Longrightarrow> key_tuple is_null nullable row \<Longrightarrow> l \<le> row \<Longrightarrow> row \<le> r \<Longrightarrow> \<not> cond row"
proof -
  let ?h = "map (\<lambda>i. universe_for ops (nullable ! i)) [0 ..< n]"
  have sound: "covers_value m (cond row)"
    if run: "checkInRange ops n l r nullable im callback = Inr m"
      and cb: "\<And>h m row. callback h = Inr m \<Longrightarrow> in_rectangle mem h row \<Longrightarrow> covers_value m (cond row)"
      and row: "key_tuple is_null nullable row" and bounds: "l \<le> row" "row \<le> r" for im m row
  proof -
    obtain h' where h': "forAnyHyperrectangle ops n l r True True ?h nullable 0 im callback = Inr (m, h')"
      by (rule checkInRange_InrE [OF run])
    have "length row = n" using row len(3) by (simp add: key_tuple_def)
    from forAny_sound [OF ok row this len(1,2) cb h'] show ?thesis
      using bounds by (simp add: within_def)
  qed
  show "covers_value m (cond row)"
    if "checkInRange ops n l r nullable im callback = Inr m"
      "\<And>h m row. callback h = Inr m \<Longrightarrow> in_rectangle mem h row \<Longrightarrow> covers_value m (cond row)"
      "key_tuple is_null nullable row" "l \<le> row" "row \<le> r"
    using that by (rule sound)
  show "\<not> cond row"
    if run: "mayBeTrueInRange ops n l r nullable callback = Inr False"
      and cb: "\<And>h m row. callback h = Inr m \<Longrightarrow> in_rectangle mem h row \<Longrightarrow> covers_value m (cond row)"
      and row: "key_tuple is_null nullable row" "l \<le> row" "row \<le> r"
  proof -
    obtain m where "checkInRange ops n l r nullable consider_only_can_be_true callback = Inr m" "\<not> can_be_true m"
      using run by (auto simp: mayBeTrueInRange_def bind_r_Inr_iff)
    then show ?thesis using sound [OF _ cb row] by (auto simp: covers_value_def)
  qed
  show "covers_value im b \<or> (\<exists>h m0. callback h = Inr m0 \<and> covers_value m0 b \<and> length h = n
            \<and> (\<forall>row. in_rectangle mem h row \<longrightarrow> l \<le> row \<and> row \<le> r))"
    if run: "checkInRange ops n l r nullable im callback = Inr m" and cov: "covers_value m b"
  proof -
    obtain h' where "forAnyHyperrectangle ops n l r True True ?h nullable 0 im callback = Inr (m, h')"
      by (rule checkInRange_InrE [OF run])
    from forAny_exact [OF ok len(1,2) this _ _ _ _ cov] le show ?thesis
      by (simp add: within_def)
  qed
qed

text \<open>
  C31: The hyperrectangles that \<open>checkInRange\<close> asks about make up exactly the interval of key
  tuples between the two marks, in lexicographic order. Whatever truth value the condition has on a tuple of
  the interval is covered by the answer, if the callback covers the values on every hyperrectangle it is
  asked about; and an answer beyond the initial mask comes from a hyperrectangle that holds only tuples of
  the interval. The early exits lose nothing: with \<open>consider_only_can_be_true\<close> the answer of
  \<open>mayBeTrueInRange\<close> is false only when no tuple of the interval satisfies the condition.
\<close>
theorem checkInRange_is_interval:
  fixes l r :: "'v::linorder list"
  assumes "range_ops_ok ops mem is_null" "length l = n" "length r = n" "length nullable = n" "l \<le> r"
  shows "(\<forall>im m b. checkInRange ops n l r nullable im callback = Inr m \<and> covers_value m b
      \<longrightarrow> covers_value im b \<or> (\<exists>h m0. callback h = Inr m0 \<and> covers_value m0 b \<and> length h = n
            \<and> (\<forall>row. in_rectangle mem h row \<longrightarrow> l \<le> row \<and> row \<le> r)))
    \<and> ((\<forall>h m row. callback h = Inr m \<and> in_rectangle mem h row \<longrightarrow> covers_value m (cond row))
        \<longrightarrow> (\<forall>row. key_tuple is_null nullable row \<and> l \<le> row \<and> row \<le> r
              \<longrightarrow> (\<forall>im m. checkInRange ops n l r nullable im callback = Inr m \<longrightarrow> covers_value m (cond row))
                \<and> (mayBeTrueInRange ops n l r nullable callback = Inr False \<longrightarrow> \<not> cond row)))"
  using checkInRange_is_interval_aux(1) [OF assms, where callback = callback]
    checkInRange_is_interval_aux(2,3) [OF assms, where callback = callback and cond = cond] by blast

text \<open>
  A concrete instance: ranges of naturals as predicates, no nulls; the condition is that the key is
  \<open>(2, 5)\<close>. Between \<open>(1, 7)\<close> and \<open>(3, 2)\<close> it can be true (in the
  middle rectangle), between \<open>(1, 7)\<close> and \<open>(2, 2)\<close> it cannot.
\<close>

definition nat_ranges :: "(nat, nat \<times> bool \<times> nat option \<times> bool) range_ops" where
  "nat_ranges = \<lparr>point_range = (\<lambda>v. (v, True, Some v, True)), make_range = (\<lambda>l li r ri. (l, li, Some r, ri)),
     createLeftBounded = (\<lambda>v inc n. (v, inc, None, True)), createRightBounded = (\<lambda>v inc n. (0, True, Some v, inc)),
     wholeUniverse = (0, True, None, True), wholeUniverseWithoutNull = (0, True, None, True)\<rparr>"

definition nat_mem :: "nat \<times> bool \<times> nat option \<times> bool \<Rightarrow> nat \<Rightarrow> bool" where
  "nat_mem = (\<lambda>(l, li, r, ri) x. (l < x \<or> li \<and> x = l) \<and> (case r of None \<Rightarrow> True | Some r \<Rightarrow> x < r \<or> ri \<and> x = r))"

lemma nat_ranges_ok: "range_ops_ok nat_ranges nat_mem (\<lambda>_. False)"
  by (auto simp: range_ops_ok_def nat_ranges_def nat_mem_def)

definition is_2_5 :: "(nat \<times> bool \<times> nat option \<times> bool) list \<Rightarrow> bool_mask result" where
  "is_2_5 h = Inr (BoolMask (nat_mem (h ! 0) 2 \<and> nat_mem (h ! 1) 5) True)"

lemma is_2_5_covers:
  assumes "is_2_5 h = Inr m" "in_rectangle nat_mem h row"
  shows "covers_value m (length row > 1 \<and> row ! 0 = 2 \<and> row ! 1 = 5)"
proof -
  have "nat_mem (h ! 0) (row ! 0)" "nat_mem (h ! 1) (row ! 1)" if "length row > 1"
    using assms(2) that by (auto simp only: in_rectangle_def)
  then show ?thesis using assms(1) by (auto simp: is_2_5_def covers_value_def)
qed

theorem checkInRange_is_interval_witness:
  "mayBeTrueInRange nat_ranges 2 [1, 7] [2, 2] [False, False] is_2_5 = Inr False
   \<and> \<not> (length [1, 9::nat] > 1 \<and> [1, 9::nat] ! 0 = 2 \<and> [1, 9::nat] ! 1 = 5)
   \<and> checkInRange nat_ranges 2 [1, 7] [3, 2] [False, False] consider_only_can_be_true is_2_5
       = Inr (BoolMask True True)
   \<and> covers_value (BoolMask True True) (length [2, 5::nat] > 1 \<and> [2, 5::nat] ! 0 = 2 \<and> [2, 5::nat] ! 1 = 5)
   \<and> (\<exists>h m0. is_2_5 h = Inr m0 \<and> covers_value m0 True \<and> length h = 2
        \<and> (\<forall>row. in_rectangle nat_mem h row \<longrightarrow> [1, 7] \<le> row \<and> row \<le> [3, 2]))"
proof -
  note ev = mayBeTrueInRange_def checkInRange_def forAnyHyperrectangle.simps match_prefix.simps Let_def
    bounded_range_def unbounded_after_def universe_for_def nat_ranges_def is_2_5_def nat_mem_def
    consider_only_can_be_true_def combine_masks_def isComplete_def BoolMask_def
  have no: "mayBeTrueInRange nat_ranges 2 [1, 7] [2, 2] [False, False] is_2_5 = Inr False"
    by (simp add: ev)
  have yes: "checkInRange nat_ranges 2 [1, 7] [3, 2] [False, False] consider_only_can_be_true is_2_5
       = Inr (BoolMask True True)"
    by (simp add: ev)
  note all = checkInRange_is_interval [OF nat_ranges_ok _ _ _ _, where callback = is_2_5
      and cond = "\<lambda>row. length row > 1 \<and> row ! 0 = 2 \<and> row ! 1 = 5"]
  have covers: "\<forall>h m row. is_2_5 h = Inr m \<and> in_rectangle nat_mem h row
      \<longrightarrow> covers_value m (length row > 1 \<and> row ! 0 = 2 \<and> row ! 1 = 5)"
    using is_2_5_covers by blast
  have keys: "key_tuple (\<lambda>_. False) [False, False] [1, 9::nat]" "key_tuple (\<lambda>_. False) [False, False] [2, 5::nat]"
    by (simp_all add: key_tuple_def)
  have one: "\<not> (length [1, 9::nat] > 1 \<and> [1, 9::nat] ! 0 = 2 \<and> [1, 9::nat] ! 1 = 5)"
    using all [of "[1, 7]" 2 "[2, 2]" "[False, False]", THEN conjunct2, THEN mp, OF _ _ _ _ covers]
      keys(1) no by fastforce
  note big = all [of "[1, 7]" 2 "[3, 2]" "[False, False]"]
  have two: "covers_value (BoolMask True True) (length [2, 5::nat] > 1 \<and> [2, 5::nat] ! 0 = 2 \<and> [2, 5::nat] ! 1 = 5)"
    using big [THEN conjunct2, THEN mp, OF _ _ _ _ covers] keys(2) yes by fastforce
  have "\<exists>h m0. is_2_5 h = Inr m0 \<and> covers_value m0 True \<and> length h = 2
        \<and> (\<forall>row. in_rectangle nat_mem h row \<longrightarrow> [1, 7] \<le> row \<and> row \<le> [3, 2])"
    using big [THEN conjunct1, rule_format, OF _ _ _ _ conjI, OF _ _ _ _ yes, of True]
    by (simp add: covers_value_def consider_only_can_be_true_def)
  with no yes one two show ?thesis by blast
qed

end
