(* ===== verification/Key_Condition.thy ===== *)
theory Key_Condition
  imports Key_Ranges
begin

text \<open>
  \<open>KeyCondition\<close> (\<open>KeyCondition.h\<close>, \<open>KeyCondition.cpp\<close>): a condition on the key columns in reverse
  Polish notation, and its evaluation on a hyperrectangle of key ranges, which is how MergeTree
  decides which marks it may skip. This theory holds the data and the evaluation; the results are in
  \<open>Key_Condition_Sound\<close>.

  Fields, data types, functions, sets, polygons and coordinates are types of the model; what the code
  calls on them (\<open>Core/Range.h\<close>, \<open>IFunction\<close>, \<open>MergeTreeSetIndex\<close>, the space-filling curves,
  \<open>boost::geometry\<close>) is not part of the repository and is collected in the record \<open>key_env\<close>.
\<close>

section \<open>Data\<close>

datatype rpn_function =
    FUNCTION_IN_RANGE | FUNCTION_NOT_IN_RANGE | FUNCTION_IN_SET | FUNCTION_NOT_IN_SET
  | FUNCTION_IS_NULL | FUNCTION_IS_NOT_NULL | FUNCTION_ARGS_IN_HYPERRECTANGLE
  | FUNCTION_POINT_IN_POLYGON | FUNCTION_UNKNOWN
  | FUNCTION_NOT | FUNCTION_AND | FUNCTION_OR
  | ALWAYS_FALSE | ALWAYS_TRUE

text \<open>The public fields of \<open>Range\<close> that the code reads and writes. A null bound is an infinity.\<close>

record 'f key_range =
  range_left :: 'f
  range_right :: 'f
  left_included :: bool
  right_included :: bool

record bloom_filter_data =
  hashes_per_column :: "nat list list"
  bf_key_columns :: "nat list"

record ('f, 'fn, 's, 'p) rpn_element =
  el_function :: rpn_function
  relaxed :: bool
  el_range :: "'f key_range"
  el_key_columns :: "nat list"
  argument_num_of_space_filling_curve :: "nat option"
  set_index :: "'s option"
  space_filling_curve_args_hyperrectangle :: "'f key_range list"
  polygon :: "'p option"
  monotonic_functions_chain :: "'fn list"
  bloom_filter :: "bloom_filter_data option"

datatype curve_type = Curve_Unknown | Curve_Morton | Curve_Hilbert

record ('f, 'fn, 's, 'p) key_condition =
  rpn :: "('f, 'fn, 's, 'p) rpn_element list"
  has_filter :: bool
  kc_key_columns :: "(string \<times> nat) list"
  num_key_columns :: nat
  key_space_filling_curves :: "(nat \<times> curve_type) list"
  single_point :: bool
  date_time_overflow_behavior_ignore :: bool
  kc_relaxed :: bool

text \<open>
  \<open>KeyCondition::getNumKeyColumns\<close> and \<open>RPNElement::getKeyColumn\<close>
  (\<open>key_columns.at(0)\<close>).
\<close>

definition getKeyColumn :: "('f, 'fn, 's, 'p) rpn_element \<Rightarrow> nat result" where
  "getKeyColumn e = (case el_key_columns e of [] \<Rightarrow> Inl STD_OUT_OF_RANGE | c # _ \<Rightarrow> Inr c)"

text \<open>\<open>IFunction::Monotonicity\<close>, and the operations of code outside the repository.\<close>

record monotonicity =
  is_monotonic :: bool
  is_positive :: bool
  is_always_monotonic :: bool
  is_strict :: bool

record ('f, 'ty, 'fn, 's, 'p, 'x) key_env =
  isNull :: "'f \<Rightarrow> bool"
  isNaN :: "'f \<Rightarrow> bool"
  as_UInt64 :: "'f \<Rightarrow> nat option"
  UInt64_field :: "nat \<Rightarrow> 'f"
  intersectsRange :: "'f key_range \<Rightarrow> 'f key_range \<Rightarrow> bool"
  containsRange :: "'f key_range \<Rightarrow> 'f key_range \<Rightarrow> bool"
  invert_range :: "'f key_range \<Rightarrow> 'f key_range"
  shrinkToIncludedIfPossible :: "'f key_range \<Rightarrow> 'f key_range"
  getMonotonicityForRange :: "'fn \<Rightarrow> 'ty \<Rightarrow> 'f \<Rightarrow> 'f \<Rightarrow> monotonicity"
  applyFunction :: "'fn \<Rightarrow> 'ty \<Rightarrow> 'f \<Rightarrow> 'f result"
  getResultType :: "'fn \<Rightarrow> 'ty"
  set_checkInRange :: "'s \<Rightarrow> 'f key_range list \<Rightarrow> 'ty list \<Rightarrow> bool \<Rightarrow> bool_mask result"
  hilbert_rectangles :: "nat \<Rightarrow> nat \<Rightarrow> ((nat \<times> nat) \<times> (nat \<times> nat)) list"
  morton_rectangles :: "nat \<Rightarrow> nat \<Rightarrow> ((nat \<times> nat) \<times> (nat \<times> nat)) list"
  to_Float64 :: "'f \<Rightarrow> 'x option result"
  minus_infinity :: 'x
  plus_infinity :: 'x
  polygon_bbox :: "'p \<Rightarrow> ('x \<times> 'x) \<times> ('x \<times> 'x)"
  ring_intersects :: "('x \<times> 'x) \<times> ('x \<times> 'x) \<Rightarrow> 'p \<Rightarrow> bool"

text \<open>\<open>to_Float64\<close> answers \<open>None\<close> for a value that converts to NaN.\<close>

section \<open>Functions applied to a range\<close>

text \<open>\<open>IFunction::Monotonicity{true}\<close>: the other members keep their defaults.\<close>

definition positive_monotonic :: monotonicity where
  "positive_monotonic =
     \<lparr>is_monotonic = True, is_positive = True, is_always_monotonic = False, is_strict = False\<rparr>"

fun applyMonotonicFunctionsChainToRange ::
  "('f, 'ty, 'fn, 's, 'p, 'x) key_env \<Rightarrow> 'f key_range \<Rightarrow> 'fn list \<Rightarrow> 'ty \<Rightarrow> bool \<Rightarrow> 'f key_range option result" where
  "applyMonotonicFunctionsChainToRange env key_range [] current_type sp = Inr (Some key_range)"
| "applyMonotonicFunctionsChainToRange env key_range (func # functions) current_type sp =
     (let mon = (if sp then positive_monotonic
                 else getMonotonicityForRange env func current_type (range_left key_range) (range_right key_range))
      in if \<not> is_monotonic mon then Inr None
      else bind_r (if \<not> isNull env (range_left key_range)
                   then bind_r (applyFunction env func current_type (range_left key_range))
                          (\<lambda>v. Inr (key_range\<lparr>range_left := v, left_included := True\<rparr>))
                   else Inr key_range) (\<lambda>key_range.
           bind_r (if \<not> isNull env (range_right key_range)
                   then bind_r (applyFunction env func current_type (range_right key_range))
                          (\<lambda>v. Inr (key_range\<lparr>range_right := v, right_included := True\<rparr>))
                   else Inr key_range) (\<lambda>key_range.
           applyMonotonicFunctionsChainToRange env
             (if \<not> is_positive mon then invert_range env key_range else key_range)
             functions (getResultType env func) sp)))"

section \<open>Bloom filters\<close>

text \<open>
  The bloom filters by column: \<open>findAnyHash\<close> of the filter of a column, when it has one. The
  data of an element holds as many columns as lists of hashes.
\<close>

type_synonym column_filters = "nat \<Rightarrow> (nat list \<Rightarrow> bool) option"

definition mayExistOnBloomFilter :: "bloom_filter_data \<Rightarrow> column_filters \<Rightarrow> bool" where
  "mayExistOnBloomFilter d filters =
     list_all (\<lambda>(hashes, column). case filters column of None \<Rightarrow> True | Some findAnyHash \<Rightarrow> findAnyHash hashes)
       (zip (hashes_per_column d) (bf_key_columns d))"

text \<open>\<open>rpn_stack.back().can_be_true = mayExistOnBloomFilter(...)\<close>, under its condition.\<close>

definition with_bloom_filter :: "bloom_filter_data option \<Rightarrow> column_filters \<Rightarrow> bool_mask \<Rightarrow> bool_mask" where
  "with_bloom_filter data filters m =
     (case data of
        None \<Rightarrow> m
      | Some d \<Rightarrow> if can_be_true m then BoolMask (mayExistOnBloomFilter d filters) (can_be_false m) else m)"

definition when_relaxed :: "bool \<Rightarrow> bool_mask \<Rightarrow> bool_mask" where
  "when_relaxed r m = (if r then BoolMask (can_be_true m) True else m)"

section \<open>Atoms on a hyperrectangle\<close>

text \<open>
  Each branch answers the mask it pushes and whether control reaches the end of the loop body (the
  early \<open>continue\<close>s do not). A read past the end of a vector is \<open>UB\<close>.
\<close>

definition element_at :: "'a list \<Rightarrow> nat \<Rightarrow> 'a result" where
  "element_at xs i = (if i < length xs then Inr (xs ! i) else Inl UB)"

definition range_atom_mask ::
  "('f, 'ty, 'fn, 's, 'p, 'x) key_env \<Rightarrow> ('f, 'fn, 's, 'p) rpn_element \<Rightarrow> column_filters \<Rightarrow> 'f key_range \<Rightarrow> bool_mask" where
  "range_atom_mask env element filters key_range =
     (let intersects = intersectsRange env (el_range element) key_range;
          contains = containsRange env (el_range element) key_range;
          (intersects, contains) =
            (if isNaN env (range_left key_range) then (False, False)
             else if isNaN env (range_right key_range) then (intersects, False)
             else (intersects, contains));
          m = BoolMask intersects (\<not> contains);
          m = (if monotonic_functions_chain element = [] then with_bloom_filter (bloom_filter element) filters m else m);
          m = when_relaxed (relaxed element) m
      in if el_function element = FUNCTION_NOT_IN_RANGE then mask_not m else m)"

definition check_range_atom ::
  "('f, 'ty, 'fn, 's, 'p, 'x) key_env \<Rightarrow> bool \<Rightarrow> 'f key_range list \<Rightarrow> 'ty list \<Rightarrow> column_filters
     \<Rightarrow> ('f, 'fn, 's, 'p) rpn_element \<Rightarrow> (bool_mask \<times> bool) result" where
  "check_range_atom env sp hyperrectangle data_types filters element =
     bind_r (getKeyColumn element) (\<lambda>key_column.
     if key_column \<ge> length hyperrectangle then Inl LOGICAL_ERROR
     else let key_range = hyperrectangle ! key_column in
     if monotonic_functions_chain element \<noteq> [] then
       bind_r (element_at data_types key_column) (\<lambda>current_type.
       bind_r (applyMonotonicFunctionsChainToRange env key_range (monotonic_functions_chain element) current_type sp)
         (\<lambda>new_range. case new_range of
            None \<Rightarrow> Inr (BoolMask True True, False)
          | Some key_range \<Rightarrow> Inr (range_atom_mask env element filters key_range, True)))
     else Inr (range_atom_mask env element filters key_range, True))"

definition curve_type_of :: "(nat \<times> curve_type) list \<Rightarrow> nat \<Rightarrow> curve_type" where
  "curve_type_of curves key_column_pos =
     (case find (\<lambda>(pos, _). pos = key_column_pos) curves of None \<Rightarrow> Curve_Unknown | Some (_, t) \<Rightarrow> t)"

text \<open>
  One rectangle of the curve against the condition on its two arguments, and the mask of all of them
  (the callback of the curve functions).
\<close>

definition curve_rectangle_mask ::
  "('f, 'ty, 'fn, 's, 'p, 'x) key_env \<Rightarrow> 'f key_range list \<Rightarrow> (nat \<times> nat) \<times> (nat \<times> nat) \<Rightarrow> bool_mask" where
  "curve_rectangle_mask env args rectangle =
     foldl (\<lambda>current (condition_arg_range, (lo, hi)).
         let curve_arg_range = \<lparr>range_left = UInt64_field env lo, range_right = UInt64_field env hi,
               left_included = True, right_included = True\<rparr>
         in mask_and current (BoolMask (intersectsRange env condition_arg_range curve_arg_range)
                               (\<not> containsRange env condition_arg_range curve_arg_range)))
       (BoolMask True False) (zip args [fst rectangle, snd rectangle])"

definition curve_mask ::
  "('f, 'ty, 'fn, 's, 'p, 'x) key_env \<Rightarrow> 'f key_range list \<Rightarrow> ((nat \<times> nat) \<times> (nat \<times> nat)) list \<Rightarrow> bool_mask" where
  "curve_mask env args rectangles =
     foldl (\<lambda>mask r. mask_or mask (curve_rectangle_mask env args r)) (BoolMask False True) rectangles"

definition check_curve_atom ::
  "('f, 'ty, 'fn, 's, 'p, 'x) key_env \<Rightarrow> (nat \<times> curve_type) list \<Rightarrow> 'f key_range list
     \<Rightarrow> ('f, 'fn, 's, 'p) rpn_element \<Rightarrow> (bool_mask \<times> bool) result" where
  "check_curve_atom env curves hyperrectangle element =
     bind_r (getKeyColumn element) (\<lambda>key_column.
     bind_r (element_at hyperrectangle key_column) (\<lambda>key_range.
     if as_UInt64 env (range_left key_range) \<noteq> None \<and> as_UInt64 env (range_right key_range) \<noteq> None then
       let key_range = shrinkToIncludedIfPossible env key_range;
           args = space_filling_curve_args_hyperrectangle element
       in if length args = 2 then
            case (as_UInt64 env (range_left key_range), as_UInt64 env (range_right key_range)) of
              (Some left, Some right) \<Rightarrow>
                (case curve_type_of curves key_column of
                   Curve_Hilbert \<Rightarrow> Inr (curve_mask env args (hilbert_rectangles env left right), True)
                 | Curve_Morton \<Rightarrow> Inr (curve_mask env args (morton_rectangles env left right), True)
                 | Curve_Unknown \<Rightarrow> Inl LOGICAL_ERROR)
            | _ \<Rightarrow> Inl LOGICAL_ERROR
          else Inr (BoolMask True True, True)
     else Inr (BoolMask True True, True)))"

definition convert_to_float64 :: "('f, 'ty, 'fn, 's, 'p, 'x) key_env \<Rightarrow> 'f \<Rightarrow> bool \<Rightarrow> 'x option result" where
  "convert_to_float64 env ref is_left_bound =
     (if isNull env ref then Inr (Some (if is_left_bound then minus_infinity env else plus_infinity env))
      else to_Float64 env ref)"

definition box_mask ::
  "('f, 'ty, 'fn, 's, 'p, 'x::linorder) key_env \<Rightarrow> 'p \<Rightarrow> ('x \<times> 'x) \<times> ('x \<times> 'x) \<Rightarrow> bool_mask \<times> bool" where
  "box_mask env pol index_box =
     (let ((x_min, y_min), (x_max, y_max)) = index_box;
          ((poly_x_min, poly_y_min), (poly_x_max, poly_y_max)) = polygon_bbox env pol;
          disjoint = (x_max < poly_x_min \<or> x_min > poly_x_max \<or> y_max < poly_y_min \<or> y_min > poly_y_max)
      in if disjoint then (BoolMask False True, False)
         else (BoolMask (ring_intersects env index_box pol) True, True))"

definition check_polygon_atom ::
  "('f, 'ty, 'fn, 's, 'p, 'x::linorder) key_env \<Rightarrow> 'f key_range list \<Rightarrow> ('f, 'fn, 's, 'p) rpn_element
     \<Rightarrow> (bool_mask \<times> bool) result" where
  "check_polygon_atom env hyperrectangle element =
     bind_r (element_at (el_key_columns element) 0) (\<lambda>column_x.
     bind_r (element_at hyperrectangle column_x) (\<lambda>range_x.
     bind_r (element_at (el_key_columns element) 1) (\<lambda>column_y.
     bind_r (element_at hyperrectangle column_y) (\<lambda>range_y.
     bind_r (convert_to_float64 env (range_left range_x) True) (\<lambda>x_min.
     bind_r (convert_to_float64 env (range_right range_x) False) (\<lambda>x_max.
     bind_r (convert_to_float64 env (range_left range_y) True) (\<lambda>y_min.
     bind_r (convert_to_float64 env (range_right range_y) False) (\<lambda>y_max.
     case (x_min, x_max, y_min, y_max) of
       (Some x_min, Some x_max, Some y_min, Some y_max) \<Rightarrow>
         (case polygon element of
            None \<Rightarrow> Inl UB
          | Some pol \<Rightarrow> Inr (box_mask env pol ((x_min, y_min), (x_max, y_max))))
     | _ \<Rightarrow> Inr (BoolMask True True, False)))))))))"

definition check_null_atom ::
  "('f, 'ty, 'fn, 's, 'p, 'x) key_env \<Rightarrow> 'f key_range list \<Rightarrow> ('f, 'fn, 's, 'p) rpn_element
     \<Rightarrow> (bool_mask \<times> bool) result" where
  "check_null_atom env hyperrectangle element =
     bind_r (getKeyColumn element) (\<lambda>key_column.
     bind_r (element_at hyperrectangle key_column) (\<lambda>key_range.
     let m = when_relaxed (relaxed element)
               (BoolMask (intersectsRange env (el_range element) key_range)
                         (\<not> containsRange env (el_range element) key_range))
     in Inr (if el_function element = FUNCTION_IS_NULL then mask_not m else m, True)))"

definition check_set_atom ::
  "('f, 'ty, 'fn, 's, 'p, 'x) key_env \<Rightarrow> bool \<Rightarrow> 'f key_range list \<Rightarrow> 'ty list \<Rightarrow> column_filters
     \<Rightarrow> ('f, 'fn, 's, 'p) rpn_element \<Rightarrow> (bool_mask \<times> bool) result" where
  "check_set_atom env sp hyperrectangle data_types filters element =
     (case set_index element of
        None \<Rightarrow> Inl LOGICAL_ERROR
      | Some s \<Rightarrow> bind_r (set_checkInRange env s hyperrectangle data_types sp) (\<lambda>m.
          let m = when_relaxed (relaxed element) (with_bloom_filter (bloom_filter element) filters m)
          in Inr (if el_function element = FUNCTION_NOT_IN_SET then mask_not m else m, True)))"

definition check_atom ::
  "('f, 'ty, 'fn, 's, 'p, 'x::linorder) key_env \<Rightarrow> ('f, 'fn, 's, 'p) key_condition \<Rightarrow> 'f key_range list \<Rightarrow> 'ty list
     \<Rightarrow> column_filters \<Rightarrow> ('f, 'fn, 's, 'p) rpn_element \<Rightarrow> (bool_mask \<times> bool) result" where
  "check_atom env kc hyperrectangle data_types filters element =
     (if argument_num_of_space_filling_curve element \<noteq> None then Inr (BoolMask True True, True)
      else case el_function element of
        FUNCTION_UNKNOWN \<Rightarrow> Inr (BoolMask True True, True)
      | FUNCTION_IN_RANGE \<Rightarrow> check_range_atom env (single_point kc) hyperrectangle data_types filters element
      | FUNCTION_NOT_IN_RANGE \<Rightarrow> check_range_atom env (single_point kc) hyperrectangle data_types filters element
      | FUNCTION_ARGS_IN_HYPERRECTANGLE \<Rightarrow> check_curve_atom env (key_space_filling_curves kc) hyperrectangle element
      | FUNCTION_POINT_IN_POLYGON \<Rightarrow> check_polygon_atom env hyperrectangle element
      | FUNCTION_IS_NULL \<Rightarrow> check_null_atom env hyperrectangle element
      | FUNCTION_IS_NOT_NULL \<Rightarrow> check_null_atom env hyperrectangle element
      | FUNCTION_IN_SET \<Rightarrow> check_set_atom env (single_point kc) hyperrectangle data_types filters element
      | FUNCTION_NOT_IN_SET \<Rightarrow> check_set_atom env (single_point kc) hyperrectangle data_types filters element
      | ALWAYS_FALSE \<Rightarrow> Inr (BoolMask False True, True)
      | ALWAYS_TRUE \<Rightarrow> Inr (BoolMask True False, True)
      | _ \<Rightarrow> Inl LOGICAL_ERROR)"

section \<open>The stack machine\<close>

text \<open>
  \<open>is_connective\<close> is the part of the dispatch that comes to NOT, AND and OR; an element that
  carries an argument number of a curve is treated as unknown whatever its function. The head of the list is
  the back of the stack.
\<close>

definition is_connective :: "('f, 'fn, 's, 'p) rpn_element \<Rightarrow> bool" where
  "is_connective e \<longleftrightarrow> argument_num_of_space_filling_curve e = None
     \<and> el_function e \<in> {FUNCTION_NOT, FUNCTION_AND, FUNCTION_OR}"

fun apply_connective :: "rpn_function \<Rightarrow> bool_mask list \<Rightarrow> bool_mask list result" where
  "apply_connective FUNCTION_NOT (arg # stack) = Inr (mask_not arg # stack)"
| "apply_connective FUNCTION_AND (arg1 # arg2 # stack) = Inr (mask_and arg1 arg2 # stack)"
| "apply_connective FUNCTION_OR (arg1 # arg2 # stack) = Inr (mask_or arg1 arg2 # stack)"
| "apply_connective _ _ = Inl UB"

text \<open>The calls of \<open>update_partial_disjunction_result_fn\<close>: position, result, is\_unknown.\<close>

type_synonym partial_result_call = "nat \<times> bool \<times> bool"

fun check_elements ::
  "('f, 'ty, 'fn, 's, 'p, 'x::linorder) key_env \<Rightarrow> ('f, 'fn, 's, 'p) key_condition \<Rightarrow> 'f key_range list \<Rightarrow> 'ty list
     \<Rightarrow> column_filters \<Rightarrow> bool \<Rightarrow> ('f, 'fn, 's, 'p) rpn_element list \<Rightarrow> bool_mask list \<Rightarrow> nat
     \<Rightarrow> partial_result_call list \<Rightarrow> (bool_mask list \<times> partial_result_call list) result" where
  "check_elements env kc hyperrectangle data_types filters notify [] stack element_idx calls = Inr (stack, calls)"
| "check_elements env kc hyperrectangle data_types filters notify (element # elements) stack element_idx calls =
     bind_r
       (if is_connective element
        then bind_r (apply_connective (el_function element) stack) (\<lambda>stack. Inr (stack, True))
        else bind_r (check_atom env kc hyperrectangle data_types filters element)
               (\<lambda>(m, reached). Inr (m # stack, reached)))
       (\<lambda>(stack, reached).
          if notify \<and> reached
          then check_elements env kc hyperrectangle data_types filters notify elements stack (element_idx + 1)
                 (calls @ [(element_idx, can_be_true (hd stack), el_function element = FUNCTION_UNKNOWN)])
          else check_elements env kc hyperrectangle data_types filters notify elements stack element_idx calls)"

definition checkInHyperrectangle ::
  "('f, 'ty, 'fn, 's, 'p, 'x::linorder) key_env \<Rightarrow> ('f, 'fn, 's, 'p) key_condition \<Rightarrow> 'f key_range list \<Rightarrow> 'ty list
     \<Rightarrow> column_filters \<Rightarrow> bool \<Rightarrow> (bool_mask \<times> partial_result_call list) result" where
  "checkInHyperrectangle env kc hyperrectangle data_types filters notify =
     bind_r (check_elements env kc hyperrectangle data_types filters notify (rpn kc) [] 0 [])
       (\<lambda>(stack, calls). case stack of [m] \<Rightarrow> Inr (m, calls) | _ \<Rightarrow> Inl LOGICAL_ERROR)"

text \<open>
  \<open>checkInRange\<close> and \<open>mayBeTrueInRange\<close> with the callback of the condition: no
  Bloom filters and no partial results.
\<close>

definition check_callback ::
  "('f, 'ty, 'fn, 's, 'p, 'x::linorder) key_env \<Rightarrow> ('f, 'fn, 's, 'p) key_condition \<Rightarrow> 'ty list
     \<Rightarrow> 'f key_range list \<Rightarrow> bool_mask result" where
  "check_callback env kc data_types hyperrectangle =
     bind_r (checkInHyperrectangle env kc hyperrectangle data_types (\<lambda>_. None) False) (\<lambda>(m, _). Inr m)"

text \<open>\<open>prepareBloomFilterData\<close>: the sets answer their columns and the mapping of those to the key.\<close>

record ('f, 'c, 'fn) set_columns =
  ordered_set :: "'c list"
  indexes_mapping :: "(nat \<times> 'fn list) list"

fun hashes_of_columns ::
  "(nat \<Rightarrow> 'c \<Rightarrow> nat list option) \<Rightarrow> 'c list \<Rightarrow> (nat \<times> 'fn list) list \<Rightarrow> (nat list \<times> nat) list result" where
  "hashes_of_columns hash_many [] mapping = Inr []"
| "hashes_of_columns hash_many (c # cs) [] = Inl UB"
| "hashes_of_columns hash_many (c # cs) ((key_index, functions) # mapping) =
     bind_r (hashes_of_columns hash_many cs mapping) (\<lambda>rest.
       if functions \<noteq> [] then Inr rest
       else case hash_many key_index c of
         None \<Rightarrow> Inr rest
       | Some hashes \<Rightarrow> if hashes = [] then Inr rest else Inr ((hashes, key_index) # rest))"

definition prepare_element ::
  "(nat \<Rightarrow> 'f \<Rightarrow> nat option) \<Rightarrow> (nat \<Rightarrow> 'c \<Rightarrow> nat list option) \<Rightarrow> ('s \<Rightarrow> ('f, 'c, 'fn) set_columns)
     \<Rightarrow> ('f, 'fn, 's, 'p) rpn_element \<Rightarrow> ('f, 'fn, 's, 'p) rpn_element result" where
  "prepare_element hash_one hash_many columns_of e =
     (if monotonic_functions_chain e \<noteq> [] then Inr e
      else if el_function e = FUNCTION_IN_RANGE \<or> el_function e = FUNCTION_NOT_IN_RANGE then
        if range_left (el_range e) \<noteq> range_right (el_range e) then Inr e
        else bind_r (getKeyColumn e) (\<lambda>c.
          case hash_one c (range_left (el_range e)) of
            None \<Rightarrow> Inr e
          | Some hashed_value \<Rightarrow>
              Inr (e\<lparr>bloom_filter := Some \<lparr>hashes_per_column = [[hashed_value]], bf_key_columns = [c]\<rparr>\<rparr>))
      else if el_function e = FUNCTION_IN_SET \<or> el_function e = FUNCTION_NOT_IN_SET then
        (case set_index e of
           None \<Rightarrow> Inl UB
         | Some s \<Rightarrow> bind_r (hashes_of_columns hash_many (ordered_set (columns_of s)) (indexes_mapping (columns_of s)))
             (\<lambda>hashes. if hashes = [] then Inr e
                else Inr (e\<lparr>bloom_filter := Some \<lparr>hashes_per_column = map fst hashes, bf_key_columns = map snd hashes\<rparr>\<rparr>)))
      else Inr e)"

fun prepare_elements ::
  "(nat \<Rightarrow> 'f \<Rightarrow> nat option) \<Rightarrow> (nat \<Rightarrow> 'c \<Rightarrow> nat list option) \<Rightarrow> ('s \<Rightarrow> ('f, 'c, 'fn) set_columns)
     \<Rightarrow> ('f, 'fn, 's, 'p) rpn_element list \<Rightarrow> ('f, 'fn, 's, 'p) rpn_element list result" where
  "prepare_elements hash_one hash_many columns_of [] = Inr []"
| "prepare_elements hash_one hash_many columns_of (e # es) =
     bind_r (prepare_element hash_one hash_many columns_of e) (\<lambda>e'.
     bind_r (prepare_elements hash_one hash_many columns_of es) (\<lambda>es'. Inr (e' # es')))"

definition prepareBloomFilterData ::
  "(nat \<Rightarrow> 'f \<Rightarrow> nat option) \<Rightarrow> (nat \<Rightarrow> 'c \<Rightarrow> nat list option) \<Rightarrow> ('s \<Rightarrow> ('f, 'c, 'fn) set_columns)
     \<Rightarrow> ('f, 'fn, 's, 'p) key_condition \<Rightarrow> ('f, 'fn, 's, 'p) key_condition result" where
  "prepareBloomFilterData hash_one hash_many columns_of kc =
     bind_r (prepare_elements hash_one hash_many columns_of (rpn kc)) (\<lambda>r. Inr (kc\<lparr>rpn := r\<rparr>))"

end
