(* ===== verification/Postfix.thy ===== *)
theory Postfix
  imports Prelude
begin

text \<open>
  Conditions in reverse Polish notation. Several operations walk over the same list of elements and
  keep a stack: an atom pushes a value, the connectives pop their arguments and push the result. The
  loop is written once here over the values; the locale states when two such loops agree, with the
  truth value of the condition as the reference.
\<close>

datatype element_kind = Atom | Negation | Conjunction | Disjunction

text \<open>
  The head of the list is the back of the stack, so the first argument of a connective is the one that
  was pushed last. Popping from a stack that is too short is the error \<open>underflow\<close>.
\<close>

fun stack_step ::
  "'x \<Rightarrow> ('e \<Rightarrow> element_kind) \<Rightarrow> ('e \<Rightarrow> 'x + 'v) \<Rightarrow> ('v \<Rightarrow> 'v) \<Rightarrow> ('v \<Rightarrow> 'v \<Rightarrow> 'v) \<Rightarrow> ('v \<Rightarrow> 'v \<Rightarrow> 'v)
     \<Rightarrow> 'e \<Rightarrow> 'v list \<Rightarrow> 'x + 'v list" where
  "stack_step underflow kind atom neg con dis e stack =
     (case (kind e, stack) of
        (Atom, _) \<Rightarrow> bind_r (atom e) (\<lambda>v. Inr (v # stack))
      | (Negation, arg # rest) \<Rightarrow> Inr (neg arg # rest)
      | (Conjunction, arg1 # arg2 # rest) \<Rightarrow> Inr (con arg1 arg2 # rest)
      | (Disjunction, arg1 # arg2 # rest) \<Rightarrow> Inr (dis arg1 arg2 # rest)
      | _ \<Rightarrow> Inl underflow)"

fun stack_machine ::
  "'x \<Rightarrow> ('e \<Rightarrow> element_kind) \<Rightarrow> ('e \<Rightarrow> 'x + 'v) \<Rightarrow> ('v \<Rightarrow> 'v) \<Rightarrow> ('v \<Rightarrow> 'v \<Rightarrow> 'v) \<Rightarrow> ('v \<Rightarrow> 'v \<Rightarrow> 'v)
     \<Rightarrow> 'e list \<Rightarrow> 'v list \<Rightarrow> 'x + 'v list" where
  "stack_machine underflow kind atom neg con dis [] stack = Inr stack"
| "stack_machine underflow kind atom neg con dis (e # es) stack =
     bind_r (stack_step underflow kind atom neg con dis e stack)
       (\<lambda>stack. stack_machine underflow kind atom neg con dis es stack)"

declare stack_step.simps [simp del]

lemma stack_step_simps:
  "kind e = Atom \<Longrightarrow> stack_step u kind atom neg con dis e stack = bind_r (atom e) (\<lambda>v. Inr (v # stack))"
  "kind e = Negation \<Longrightarrow> stack_step u kind atom neg con dis e (a # stack) = Inr (neg a # stack)"
  "kind e = Conjunction \<Longrightarrow> stack_step u kind atom neg con dis e (a # b # stack) = Inr (con a b # stack)"
  "kind e = Disjunction \<Longrightarrow> stack_step u kind atom neg con dis e (a # b # stack) = Inr (dis a b # stack)"
  by (simp_all add: stack_step.simps)

lemma stack_step_cases:
  assumes "stack_step u kind atom neg con dis e stack = Inr stack'"
  obtains (Atom) v where "kind e = Atom" "atom e = Inr v" "stack' = v # stack"
  | (Negation) a rest where "kind e = Negation" "stack = a # rest" "stack' = neg a # rest"
  | (Conjunction) a b rest where "kind e = Conjunction" "stack = a # b # rest" "stack' = con a b # rest"
  | (Disjunction) a b rest where "kind e = Disjunction" "stack = a # b # rest" "stack' = dis a b # rest"
  using assms
  by (cases "kind e")
     (auto simp: stack_step.simps bind_r_Inr_iff split: list.splits element_kind.splits)

lemma stack_machine_append:
  "stack_machine u kind atom neg con dis (es @ es') stack =
     bind_r (stack_machine u kind atom neg con dis es stack)
       (\<lambda>stack. stack_machine u kind atom neg con dis es' stack)"
proof (induction es arbitrary: stack)
  case (Cons e es)
  show ?case
    by (cases "stack_step u kind atom neg con dis e stack") (simp_all add: Cons.IH)
qed simp

text \<open>A program that runs on a stack leaves what lies below untouched.\<close>

lemma stack_step_below:
  "stack_step u kind atom neg con dis e stack = Inr stack'
     \<Longrightarrow> stack_step u kind atom neg con dis e (stack @ below) = Inr (stack' @ below)"
  by (erule stack_step_cases) (simp_all add: stack_step_simps)

lemma stack_machine_below:
  "stack_machine u kind atom neg con dis es stack = Inr stack'
     \<Longrightarrow> stack_machine u kind atom neg con dis es (stack @ below) = Inr (stack' @ below)"
proof (induction es arbitrary: stack)
  case (Cons e es)
  then obtain s where s: "stack_step u kind atom neg con dis e stack = Inr s"
    "stack_machine u kind atom neg con dis es s = Inr stack'"
    by (auto simp: bind_r_Inr_iff)
  then show ?case using Cons.IH stack_step_below [OF s(1)] by simp
qed simp

section \<open>Truth\<close>

text \<open>The truth value of a condition, given the truth values of its atoms.\<close>

definition truth_machine :: "('e \<Rightarrow> element_kind) \<Rightarrow> ('e \<Rightarrow> bool) \<Rightarrow> 'e list \<Rightarrow> bool list \<Rightarrow> unit + bool list" where
  "truth_machine kind tv = stack_machine () kind (\<lambda>e. Inr (tv e)) Not (\<and>) (\<or>)"

definition truth_of :: "('e \<Rightarrow> element_kind) \<Rightarrow> ('e \<Rightarrow> bool) \<Rightarrow> 'e list \<Rightarrow> bool option" where
  "truth_of kind tv es = (case truth_machine kind tv es [] of Inr [b] \<Rightarrow> Some b | _ \<Rightarrow> None)"

locale stack_simulation =
  fixes underflow :: 'x
    and kind :: "'e \<Rightarrow> element_kind"
    and atom :: "'e \<Rightarrow> 'x + 'v"
    and neg :: "'v \<Rightarrow> 'v"
    and con dis :: "'v \<Rightarrow> 'v \<Rightarrow> 'v"
    and tv :: "'e \<Rightarrow> bool"
    and rel :: "'v \<Rightarrow> bool \<Rightarrow> bool"
    and admissible :: "'e \<Rightarrow> bool"
  assumes rel_atom: "admissible e \<Longrightarrow> kind e = Atom \<Longrightarrow> atom e = Inr v \<Longrightarrow> rel v (tv e)"
    and rel_neg: "admissible e \<Longrightarrow> kind e = Negation \<Longrightarrow> rel v b \<Longrightarrow> rel (neg v) (\<not> b)"
    and rel_con: "rel v b \<Longrightarrow> rel w c \<Longrightarrow> rel (con v w) (b \<and> c)"
    and rel_dis: "rel v b \<Longrightarrow> rel w c \<Longrightarrow> rel (dis v w) (b \<or> c)"
begin

lemma step_related:
  assumes "stack_step underflow kind atom neg con dis e stack = Inr stack'"
    and "admissible e" "list_all2 rel stack bs"
  shows "\<exists>bs'. stack_step () kind (\<lambda>e. Inr (tv e)) Not (\<and>) (\<or>) e bs = Inr bs' \<and> list_all2 rel stack' bs'"
  using assms(1)
proof (cases rule: stack_step_cases)
  case (Atom v)
  then show ?thesis using assms(2,3) rel_atom by (simp add: stack_step_simps)
next
  case (Negation a rest)
  then show ?thesis using assms(2,3) rel_neg by (auto simp: stack_step_simps list_all2_Cons1)
next
  case (Conjunction a b rest)
  then show ?thesis using assms(3) rel_con by (auto simp: stack_step_simps list_all2_Cons1)
next
  case (Disjunction a b rest)
  then show ?thesis using assms(3) rel_dis by (auto simp: stack_step_simps list_all2_Cons1)
qed

lemma machine_related:
  "stack_machine underflow kind atom neg con dis es stack = Inr stack' \<Longrightarrow> \<forall>e \<in> set es. admissible e
     \<Longrightarrow> list_all2 rel stack bs \<Longrightarrow> \<exists>bs'. truth_machine kind tv es bs = Inr bs' \<and> list_all2 rel stack' bs'"
proof (induction es arbitrary: stack bs)
  case (Cons e es)
  then obtain s where s: "stack_step underflow kind atom neg con dis e stack = Inr s"
    "stack_machine underflow kind atom neg con dis es s = Inr stack'"
    by (auto simp: bind_r_Inr_iff)
  from step_related [OF s(1)] Cons.prems(2,3) obtain t where
    t: "stack_step () kind (\<lambda>e. Inr (tv e)) Not (\<and>) (\<or>) e bs = Inr t" "list_all2 rel s t"
    by auto
  show ?case using Cons.IH [OF s(2) _ t(2)] Cons.prems(2) t(1) by (simp add: truth_machine_def)
qed (simp add: truth_machine_def)

text \<open>The value that is left alone on the stack is related to the truth value of the condition.\<close>

lemma value_related:
  assumes "stack_machine underflow kind atom neg con dis es [] = Inr [v]" "\<forall>e \<in> set es. admissible e"
  shows "\<exists>b. truth_of kind tv es = Some b \<and> rel v b"
  using machine_related [OF assms list_all2_Nil [THEN iffD2]]
  by (auto simp: truth_of_def list_all2_Cons1)

end

text \<open>Whether a program runs, and how many values it leaves, does not depend on the values.\<close>

lemma stack_step_shape:
  assumes "stack_step u kind atom neg con dis e stack = Inr stack'" "length bs = length stack"
  shows "\<exists>bs'. stack_step u' kind (\<lambda>e. Inr (f e)) neg' con' dis' e bs = Inr bs' \<and> length bs' = length stack'"
  using assms
  by (cases rule: stack_step_cases) (auto simp: stack_step_simps length_Suc_conv)

lemma stack_machine_shape:
  "stack_machine u kind atom neg con dis es stack = Inr stack' \<Longrightarrow> length bs = length stack
     \<Longrightarrow> \<exists>bs'. stack_machine u' kind (\<lambda>e. Inr (f e)) neg' con' dis' es bs = Inr bs' \<and> length bs' = length stack'"
proof (induction es arbitrary: stack bs)
  case (Cons e es)
  then obtain s where s: "stack_step u kind atom neg con dis e stack = Inr s"
    "stack_machine u kind atom neg con dis es s = Inr stack'"
    by (auto simp: bind_r_Inr_iff)
  from stack_step_shape [OF s(1) Cons.prems(2), of u' f neg' con' dis'] obtain t where
    t: "stack_step u' kind (\<lambda>e. Inr (f e)) neg' con' dis' e bs = Inr t" "length t = length s" by blast
  from Cons.IH [OF s(2) t(2)] t(1) show ?case by simp
qed simp

text \<open>Two machines that run the same program run side by side.\<close>

lemma stack_step_pair:
  assumes "stack_step u kind f neg con dis e as = Inr as'"
    and "stack_step v kind (\<lambda>e. Inr (g e)) neg' con' dis' e bs = Inr bs'" "length as = length bs"
  shows "stack_step u kind (\<lambda>e. bind_r (f e) (\<lambda>a. Inr (a, g e))) (map_prod neg neg')
      (\<lambda>p q. (con (fst p) (fst q), con' (snd p) (snd q))) (\<lambda>p q. (dis (fst p) (fst q), dis' (snd p) (snd q))) e (zip as bs)
    = Inr (zip as' bs') \<and> length as' = length bs'"
  using assms(1)
proof (cases rule: stack_step_cases)
  case (Atom a)
  then show ?thesis using assms(2,3) by (auto simp: stack_step_simps)
next
  case (Negation a as1)
  then show ?thesis using assms(2,3) by (cases bs) (auto simp: stack_step_simps)
next
  case (Conjunction a a' as1)
  then show ?thesis using assms(2,3) by (cases bs; cases "tl bs") (auto simp: stack_step_simps)
next
  case (Disjunction a a' as1)
  then show ?thesis using assms(2,3) by (cases bs; cases "tl bs") (auto simp: stack_step_simps)
qed

lemma stack_machine_pair:
  "stack_machine u kind f neg con dis es as = Inr as'
     \<Longrightarrow> stack_machine v kind (\<lambda>e. Inr (g e)) neg' con' dis' es bs = Inr bs' \<Longrightarrow> length as = length bs
     \<Longrightarrow> stack_machine u kind (\<lambda>e. bind_r (f e) (\<lambda>a. Inr (a, g e))) (map_prod neg neg')
      (\<lambda>p q. (con (fst p) (fst q), con' (snd p) (snd q))) (\<lambda>p q. (dis (fst p) (fst q), dis' (snd p) (snd q))) es (zip as bs)
    = Inr (zip as' bs')"
proof (induction es arbitrary: as bs)
  case (Cons e es)
  from Cons.prems obtain as1 bs1 where
    a: "stack_step u kind f neg con dis e as = Inr as1" "stack_machine u kind f neg con dis es as1 = Inr as'" and
    b: "stack_step v kind (\<lambda>e. Inr (g e)) neg' con' dis' e bs = Inr bs1"
      "stack_machine v kind (\<lambda>e. Inr (g e)) neg' con' dis' es bs1 = Inr bs'"
    by (auto simp: bind_r_Inr_iff)
  show ?case using stack_step_pair [OF a(1) b(1) Cons.prems(3)] Cons.IH [OF a(2) b(2)] by simp
qed simp

text \<open>A well-formed program leaves one value.\<close>

definition wf_program :: "('e \<Rightarrow> element_kind) \<Rightarrow> 'e list \<Rightarrow> bool" where
  "wf_program kind es \<longleftrightarrow> truth_of kind (\<lambda>_. True) es \<noteq> None"

lemma wf_program_runs:
  assumes "wf_program kind es"
  shows "\<exists>v. stack_machine u kind (\<lambda>e. Inr (f e)) neg con dis es [] = Inr [v]"
proof -
  obtain b where "truth_machine kind (\<lambda>_. True) es [] = Inr [b]"
    using assms by (auto simp: wf_program_def truth_of_def split: sum.splits list.splits)
  from stack_machine_shape [OF this [unfolded truth_machine_def], of "[]" u f neg con dis]
  show ?thesis by (auto simp: length_Suc_conv)
qed

lemma wf_program_truth: "wf_program kind es \<Longrightarrow> \<exists>b. truth_of kind tv es = Some b"
  using wf_program_runs [of kind es "()" tv Not "(\<and>)" "(\<or>)"]
  by (auto simp: truth_of_def truth_machine_def)

end
