(* ===== verification/Key_Condition_Sound.thy ===== *)
theory Key_Condition_Sound
  imports Key_Condition Postfix
begin

text \<open>
  The evaluation of a key condition on a hyperrectangle covers the truth value of the condition on
  every row of the hyperrectangle. The behaviour of the code outside the repository is stated in
  \<open>env_ok\<close>, and what an atom means for a row in \<open>atom_means\<close>.
\<close>

section \<open>The environment\<close>

text \<open>
  The values between the bounds of a range, in the order of fields, where minus infinity is the least
  and plus infinity the greatest; \<open>isNull\<close> holds for both and for nothing in between.
\<close>

definition in_bounds :: "'f::linorder key_range \<Rightarrow> 'f \<Rightarrow> bool" where
  "in_bounds r x \<longleftrightarrow>
     (range_left r < x \<or> left_included r \<and> range_left r = x)
     \<and> (x < range_right r \<or> right_included r \<and> x = range_right r)"

text \<open>
  \<open>mem r x\<close>: the range \<open>r\<close> holds the field \<open>x\<close>. For nulls it is left
  open what a range holds. NaN is the greatest of the values that are not null.
\<close>

definition ranges_ok :: "('f::linorder, 'ty, 'fn, 's, 'p, 'x) key_env \<Rightarrow> ('f key_range \<Rightarrow> 'f \<Rightarrow> bool) \<Rightarrow> bool" where
  "ranges_ok env mem \<longleftrightarrow>
     (\<forall>r x. \<not> isNull env x \<longrightarrow> mem r x = in_bounds r x)
     \<and> (\<forall>a b x. mem a x \<and> mem b x \<longrightarrow> intersectsRange env a b)
     \<and> (\<forall>a b x. containsRange env a b \<and> mem b x \<longrightarrow> mem a x)
     \<and> (\<forall>x y. isNaN env x \<and> \<not> isNull env y \<and> x \<le> y \<longrightarrow> isNaN env y)
     \<and> (\<forall>x. isNaN env x \<longrightarrow> \<not> isNull env x)
     \<and> (\<forall>x. isNull env x \<longrightarrow> (\<forall>y. \<not> isNull env y \<longrightarrow> x < y) \<or> (\<forall>y. \<not> isNull env y \<longrightarrow> y < x))
     \<and> (\<forall>r y. \<not> isNull env y \<longrightarrow>
          in_bounds (invert_range env r) y \<longleftrightarrow>
            (isNull env (range_right r) \<or> range_right r < y \<or> right_included r \<and> range_right r = y)
            \<and> (isNull env (range_left r) \<or> y < range_left r \<or> left_included r \<and> y = range_left r))
     \<and> (\<forall>r x. mem r x \<longrightarrow> mem (shrinkToIncludedIfPossible env r) x)"

text \<open>
  A function is monotonic on the range it says so for, and then answers no null there: the code relies
  on that where it takes a null bound for an infinity.
\<close>

definition functions_ok :: "('f::linorder, 'ty, 'fn, 's, 'p, 'x) key_env \<Rightarrow> bool" where
  "functions_ok env \<longleftrightarrow>
     (\<forall>f ty l r x y x' y'. is_monotonic (getMonotonicityForRange env f ty l r)
        \<and> \<not> isNull env x \<and> \<not> isNull env y \<and> x \<le> y
        \<and> (isNull env l \<or> l \<le> x) \<and> (isNull env r \<or> y \<le> r)
        \<and> applyFunction env f ty x = Inr x' \<and> applyFunction env f ty y = Inr y'
        \<longrightarrow> \<not> isNull env x' \<and> \<not> isNull env y' \<and> (if is_positive (getMonotonicityForRange env f ty l r) then x' \<le> y' else y' \<le> x'))"

text \<open>
  The curves: the rectangles of an interval of codes hold the arguments of every code of the interval.
  \<open>code a b\<close> is the code of the arguments.
\<close>

definition curves_ok ::
  "('f::linorder, 'ty, 'fn, 's, 'p, 'x) key_env \<Rightarrow> (nat \<Rightarrow> nat \<Rightarrow> nat) \<Rightarrow> (nat \<Rightarrow> nat \<Rightarrow> nat) \<Rightarrow> bool" where
  "curves_ok env hilbert morton \<longleftrightarrow>
     (\<forall>x y a b. as_UInt64 env x = Some a \<and> as_UInt64 env y = Some b \<and> x \<le> y \<longrightarrow> a \<le> b)
     \<and> (\<forall>x. as_UInt64 env x \<noteq> None \<longrightarrow> \<not> isNull env x)
     \<and> (\<forall>a b. a \<le> b \<longrightarrow> UInt64_field env a \<le> UInt64_field env b)
     \<and> (\<forall>a. \<not> isNull env (UInt64_field env a))
     \<and> (\<forall>lo hi a b. lo \<le> hilbert a b \<and> hilbert a b \<le> hi \<longrightarrow>
          (\<exists>((al, ah), (bl, bh)) \<in> set (hilbert_rectangles env lo hi). al \<le> a \<and> a \<le> ah \<and> bl \<le> b \<and> b \<le> bh))
     \<and> (\<forall>lo hi a b. lo \<le> morton a b \<and> morton a b \<le> hi \<longrightarrow>
          (\<exists>((al, ah), (bl, bh)) \<in> set (morton_rectangles env lo hi). al \<le> a \<and> a \<le> ah \<and> bl \<le> b \<and> b \<le> bh))"

text \<open>
  The geometry: \<open>inside p q\<close> says that the point \<open>q\<close> lies in the polygon
  \<open>p\<close>.
\<close>

definition geometry_ok ::
  "('f::linorder, 'ty, 'fn, 's, 'p, 'x::linorder) key_env \<Rightarrow> ('p \<Rightarrow> 'x \<times> 'x \<Rightarrow> bool) \<Rightarrow> bool" where
  "geometry_ok env inside \<longleftrightarrow>
     (\<forall>x y u v. \<not> isNull env x \<and> \<not> isNull env y \<and> x \<le> y
        \<and> to_Float64 env x = Inr (Some u) \<and> to_Float64 env y = Inr (Some v) \<longrightarrow> u \<le> v)
     \<and> (\<forall>u. minus_infinity env \<le> u \<and> u \<le> plus_infinity env)
     \<and> (\<forall>p x y. inside p (x, y) \<longrightarrow> fst (fst (polygon_bbox env p)) \<le> x \<and> x \<le> fst (snd (polygon_bbox env p))
          \<and> snd (fst (polygon_bbox env p)) \<le> y \<and> y \<le> snd (snd (polygon_bbox env p)))
     \<and> (\<forall>p x y xl yl xh yh. inside p (x, y) \<and> xl \<le> x \<and> x \<le> xh \<and> yl \<le> y \<and> y \<le> yh
          \<longrightarrow> ring_intersects env ((xl, yl), (xh, yh)) p)"

section \<open>Functions on ranges\<close>

text \<open>The value that the chain of functions gives, when none of them throws or answers null.\<close>

fun chain_image :: "('f, 'ty, 'fn, 's, 'p, 'x) key_env \<Rightarrow> 'fn list \<Rightarrow> 'ty \<Rightarrow> 'f \<Rightarrow> 'f option" where
  "chain_image env [] ty x = Some x"
| "chain_image env (f # fs) ty x =
     (case applyFunction env f ty x of
        Inl _ \<Rightarrow> None
      | Inr x' \<Rightarrow> if isNull env x' then None else chain_image env fs (getResultType env f) x')"

lemma ranges_okD:
  assumes "ranges_ok env mem"
  shows mem_in_bounds: "\<not> isNull env x \<Longrightarrow> mem r x = in_bounds r x"
    and intersects_mem: "mem a x \<Longrightarrow> mem b x \<Longrightarrow> intersectsRange env a b"
    and contains_mem: "containsRange env a b \<Longrightarrow> mem b x \<Longrightarrow> mem a x"
    and NaN_last: "isNaN env x \<Longrightarrow> \<not> isNull env y \<Longrightarrow> x \<le> y \<Longrightarrow> isNaN env y"
    and NaN_not_null: "isNaN env x \<Longrightarrow> \<not> isNull env x"
    and null_extreme: "isNull env x \<Longrightarrow> (\<forall>y. \<not> isNull env y \<longrightarrow> x < y) \<or> (\<forall>y. \<not> isNull env y \<longrightarrow> y < x)"
    and in_bounds_invert: "\<not> isNull env y \<Longrightarrow> in_bounds (invert_range env r) y \<longleftrightarrow>
            (isNull env (range_right r) \<or> range_right r < y \<or> right_included r \<and> range_right r = y)
            \<and> (isNull env (range_left r) \<or> y < range_left r \<or> left_included r \<and> y = range_left r)"
    and shrink_mem: "mem r x \<Longrightarrow> mem (shrinkToIncludedIfPossible env r) x"
proof -
  note p = assms [unfolded ranges_ok_def]
  note p2 = p [THEN conjunct2] and p3 = p [THEN conjunct2, THEN conjunct2]
  note p4 = p3 [THEN conjunct2] and p5 = p3 [THEN conjunct2, THEN conjunct2]
  note p6 = p5 [THEN conjunct2]
  show "\<not> isNull env x \<Longrightarrow> mem r x = in_bounds r x" by (rule p [THEN conjunct1, rule_format])
  show "mem a x \<Longrightarrow> mem b x \<Longrightarrow> intersectsRange env a b"
    by (rule p2 [THEN conjunct1, rule_format], rule conjI)
  show "containsRange env a b \<Longrightarrow> mem b x \<Longrightarrow> mem a x"
    by (rule p3 [THEN conjunct1, rule_format], rule conjI)
  show "isNaN env x \<Longrightarrow> \<not> isNull env y \<Longrightarrow> x \<le> y \<Longrightarrow> isNaN env y"
    by (rule p4 [THEN conjunct1, rule_format], intro conjI)
  show "isNaN env x \<Longrightarrow> \<not> isNull env x" by (rule p5 [THEN conjunct1, rule_format])
  show "isNull env x \<Longrightarrow> (\<forall>y. \<not> isNull env y \<longrightarrow> x < y) \<or> (\<forall>y. \<not> isNull env y \<longrightarrow> y < x)"
    by (rule p6 [THEN conjunct1, THEN spec, THEN mp])
  show "\<not> isNull env y \<Longrightarrow> in_bounds (invert_range env r) y \<longleftrightarrow>
            (isNull env (range_right r) \<or> range_right r < y \<or> right_included r \<and> range_right r = y)
            \<and> (isNull env (range_left r) \<or> y < range_left r \<or> left_included r \<and> y = range_left r)"
    by (rule p6 [THEN conjunct2, THEN conjunct1, THEN spec, THEN spec, THEN mp])
  show "mem r x \<Longrightarrow> mem (shrinkToIncludedIfPossible env r) x"
    by (rule p6 [THEN conjunct2, THEN conjunct2, rule_format])
qed

text \<open>Where the range is a single point, its image is the image of the point.\<close>

definition is_point :: "('f, 'ty, 'fn, 's, 'p, 'x) key_env \<Rightarrow> 'f key_range \<Rightarrow> bool" where
  "is_point env r \<longleftrightarrow> range_left r = range_right r"

lemma chain_step:
  assumes ok: "ranges_ok env mem" "functions_ok env"
    and x: "\<not> isNull env x" "mem r x" "applyFunction env f ty x = Inr x'" "\<not> isNull env x'"
    and point: "sp \<longrightarrow> is_point env r"
    and mon: "mon = (if sp then positive_monotonic else getMonotonicityForRange env f ty (range_left r) (range_right r))"
      "is_monotonic mon"
    and l: "(if \<not> isNull env (range_left r)
             then bind_r (applyFunction env f ty (range_left r)) (\<lambda>v. Inr (r\<lparr>range_left := v, left_included := True\<rparr>))
             else Inr r) = Inr r1"
    and r: "(if \<not> isNull env (range_right r1)
             then bind_r (applyFunction env f ty (range_right r1)) (\<lambda>v. Inr (r1\<lparr>range_right := v, right_included := True\<rparr>))
             else Inr r1) = Inr r2"
  shows "mem (if \<not> is_positive mon then invert_range env r2 else r2) x'
    \<and> (sp \<longrightarrow> is_point env (if \<not> is_positive mon then invert_range env r2 else r2))"
proof -
  have b: "in_bounds r x" using mem_in_bounds [OF ok(1) x(1)] x(2) by simp
  have le: "range_left r \<le> x" "x \<le> range_right r" using b by (auto simp: in_bounds_def)
  have null: "isNull env (range_left r) \<Longrightarrow> range_left r < x'" "isNull env (range_right r) \<Longrightarrow> x' < range_right r"
    using null_extreme [OF ok(1)] le x(1,4) by (meson leD)+
  have keep: "range_right r1 = range_right r"
    using l by (auto simp: bind_r_Inr_iff split: if_splits)
  have left: "isNull env (range_left r) \<and> range_left r2 = range_left r
      \<or> (\<not> isNull env (range_left r) \<and> applyFunction env f ty (range_left r) = Inr (range_left r2) \<and> left_included r2)"
    using l r by (auto simp: bind_r_Inr_iff split: if_splits)
  have right: "isNull env (range_right r) \<and> range_right r2 = range_right r
      \<or> (\<not> isNull env (range_right r) \<and> applyFunction env f ty (range_right r) = Inr (range_right r2) \<and> right_included r2)"
    using l r by (auto simp: bind_r_Inr_iff split: if_splits)
  show ?thesis
  proof (cases sp)
    case True
    have pos: "is_positive mon" using mon(1) True by (simp add: positive_monotonic_def)
    have same: "range_left r = range_right r" using point True by (simp add: is_point_def)
    then have eq: "x = range_left r" using le by simp
    then have "range_left r2 = x'" "range_right r2 = x'" "left_included r2" "right_included r2"
      using left right same x(1,3) by auto
    then show ?thesis
      using pos mem_in_bounds [OF ok(1) x(4)] by (simp add: is_point_def in_bounds_def)
  next
    case False
    let ?m = "getMonotonicityForRange env f ty (range_left r) (range_right r)"
    have m: "is_monotonic ?m" "mon = ?m" using mon False by simp_all
    have fl: "\<not> isNull env (range_left r2) \<and> (if is_positive ?m then range_left r2 \<le> x' else x' \<le> range_left r2)"
      if nn: "\<not> isNull env (range_left r)"
    proof -
      have "applyFunction env f ty (range_left r) = Inr (range_left r2)"
        using left nn by blast
      then show ?thesis
        using ok(2) [unfolded functions_ok_def, rule_format, of f ty "range_left r" "range_right r" "range_left r" x "range_left r2" x']
          m(1) nn x le by auto
    qed
    have fr: "\<not> isNull env (range_right r2) \<and> (if is_positive ?m then x' \<le> range_right r2 else range_right r2 \<le> x')"
      if nn: "\<not> isNull env (range_right r)"
    proof -
      have "applyFunction env f ty (range_right r) = Inr (range_right r2)"
        using right nn by blast
      then show ?thesis
        using ok(2) [unfolded functions_ok_def, rule_format, of f ty "range_left r" "range_right r" x "range_right r" x' "range_right r2"]
          m(1) nn x le by auto
    qed
    show ?thesis
    proof (cases "is_positive ?m")
      case True
      have "range_left r2 < x' \<or> left_included r2 \<and> range_left r2 = x'"
        using fl True left null(1) by (auto simp: le_less)
      moreover have "x' < range_right r2 \<or> right_included r2 \<and> x' = range_right r2"
        using fr True right null(2) by (auto simp: le_less)
      ultimately have "in_bounds r2 x'" by (simp add: in_bounds_def)
      then show ?thesis using True m(2) False mem_in_bounds [OF ok(1) x(4)] by simp
    next
      case neg: False
      then have "in_bounds (invert_range env r2) x'"
        unfolding in_bounds_invert [OF ok(1) x(4)] using fl fr left right by (auto simp: le_less)
      then show ?thesis using neg m(2) False mem_in_bounds [OF ok(1) x(4)] by simp
    qed
  qed
qed

lemma chain_sound:
  assumes ok: "ranges_ok env mem" "functions_ok env"
  shows "applyMonotonicFunctionsChainToRange env r fs ty sp = Inr (Some r') \<Longrightarrow> \<not> isNull env x \<Longrightarrow> mem r x
    \<Longrightarrow> sp \<longrightarrow> is_point env r \<Longrightarrow> chain_image env fs ty x = Some y \<Longrightarrow> mem r' y \<and> \<not> isNull env y"
proof (induction fs arbitrary: r ty x)
  case (Cons f fs)
  define mon where "mon = (if sp then positive_monotonic
    else getMonotonicityForRange env f ty (range_left r) (range_right r))"
  have mono: "is_monotonic mon"
  proof (rule ccontr)
    assume "\<not> is_monotonic mon"
    then show False using Cons.prems(1) by (simp add: mon_def [symmetric] Let_def)
  qed
  from Cons.prems(1) mono obtain r1 r2 where r12:
    "(if \<not> isNull env (range_left r)
             then bind_r (applyFunction env f ty (range_left r)) (\<lambda>v. Inr (r\<lparr>range_left := v, left_included := True\<rparr>))
             else Inr r) = Inr r1"
    "(if \<not> isNull env (range_right r1)
             then bind_r (applyFunction env f ty (range_right r1)) (\<lambda>v. Inr (r1\<lparr>range_right := v, right_included := True\<rparr>))
             else Inr r1) = Inr r2"
    "applyMonotonicFunctionsChainToRange env (if \<not> is_positive mon then invert_range env r2 else r2) fs
       (getResultType env f) sp = Inr (Some r')"
    by (simp only: applyMonotonicFunctionsChainToRange.simps mon_def [symmetric] Let_def not_True_eq_False if_False bind_r_Inr_iff)
       blast
  from Cons.prems(5) obtain x' where x': "applyFunction env f ty x = Inr x'" "\<not> isNull env x'"
    "chain_image env fs (getResultType env f) x' = Some y"
    by (auto split: sum.splits if_splits)
  note st = chain_step [OF ok Cons.prems(2,3) x'(1,2) Cons.prems(4) mon_def mono r12(1,2)]
  show ?case using Cons.IH [OF r12(3) x'(2) _ _ x'(3)] st by blast
qed simp

section \<open>What an atom means for a row\<close>

definition kind_of :: "('f, 'fn, 's, 'p) rpn_element \<Rightarrow> element_kind" where
  "kind_of e = (case el_function e of FUNCTION_NOT \<Rightarrow> Negation | FUNCTION_AND \<Rightarrow> Conjunction
                | FUNCTION_OR \<Rightarrow> Disjunction | _ \<Rightarrow> Atom)"

text \<open>A Bloom filter has no false negatives: where the atom without its negation is true, it agrees.\<close>

definition bloom_allows :: "column_filters \<Rightarrow> ('f, 'fn, 's, 'p) rpn_element \<Rightarrow> bool" where
  "bloom_allows filters e \<longleftrightarrow> (case bloom_filter e of None \<Rightarrow> True | Some d \<Rightarrow> mayExistOnBloomFilter d filters)"

text \<open>
  \<open>positive\<close> is the truth value before the negation that the atom itself carries. A comparison is
  false for NaN and not true for null; where the element is relaxed, its range is only an upper bound.
\<close>

definition range_atom_means ::
  "('f, 'ty, 'fn, 's, 'p, 'x) key_env \<Rightarrow> ('f key_range \<Rightarrow> 'f \<Rightarrow> bool) \<Rightarrow> 'ty list \<Rightarrow> column_filters \<Rightarrow> 'f list
     \<Rightarrow> ('f, 'fn, 's, 'p) rpn_element \<Rightarrow> bool \<Rightarrow> bool" where
  "range_atom_means env mem tys filters row e positive \<longleftrightarrow>
     (\<forall>c. getKeyColumn e = Inr c \<and> c < length row \<longrightarrow>
        (\<exists>y. chain_image env (monotonic_functions_chain e) (tys ! c) (row ! c) = Some y
           \<and> (monotonic_functions_chain e \<noteq> [] \<longrightarrow> \<not> isNull env (row ! c) \<and> \<not> isNaN env y)
           \<and> (positive \<longrightarrow> mem (el_range e) y \<and> \<not> isNaN env y \<and> \<not> isNull env y)
           \<and> (\<not> relaxed e \<and> mem (el_range e) y \<and> \<not> isNaN env y \<longrightarrow> positive))
      \<and> (monotonic_functions_chain e = [] \<and> positive \<longrightarrow> bloom_allows filters e))"

definition null_atom_means ::
  "('f key_range \<Rightarrow> 'f \<Rightarrow> bool) \<Rightarrow> 'f list \<Rightarrow> ('f, 'fn, 's, 'p) rpn_element \<Rightarrow> bool \<Rightarrow> bool" where
  "null_atom_means mem row e positive \<longleftrightarrow>
     (\<forall>c. getKeyColumn e = Inr c \<and> c < length row \<longrightarrow>
        (positive \<longrightarrow> mem (el_range e) (row ! c)) \<and> (\<not> relaxed e \<and> mem (el_range e) (row ! c) \<longrightarrow> positive))"

definition set_atom_means ::
  "('f, 'ty, 'fn, 's, 'p, 'x) key_env \<Rightarrow> ('f key_range \<Rightarrow> 'f \<Rightarrow> bool) \<Rightarrow> bool \<Rightarrow> 'ty list \<Rightarrow> column_filters
     \<Rightarrow> 'f list \<Rightarrow> ('f, 'fn, 's, 'p) rpn_element \<Rightarrow> bool \<Rightarrow> bool" where
  "set_atom_means env mem sp tys filters row e positive \<longleftrightarrow>
     (\<forall>s h m. set_index e = Some s \<and> set_checkInRange env s h tys sp = Inr m \<and> in_rectangle mem h row \<longrightarrow>
        (positive \<longrightarrow> can_be_true m) \<and> (\<not> relaxed e \<and> \<not> positive \<longrightarrow> can_be_false m))
     \<and> (positive \<longrightarrow> bloom_allows filters e)"

definition curve_atom_means ::
  "('f, 'ty, 'fn, 's, 'p, 'x) key_env \<Rightarrow> ('f key_range \<Rightarrow> 'f \<Rightarrow> bool) \<Rightarrow> (nat \<times> curve_type) list
     \<Rightarrow> (nat \<Rightarrow> nat \<Rightarrow> nat) \<Rightarrow> (nat \<Rightarrow> nat \<Rightarrow> nat) \<Rightarrow> 'f list \<Rightarrow> ('f, 'fn, 's, 'p) rpn_element \<Rightarrow> bool \<Rightarrow> bool" where
  "curve_atom_means env mem curves hilbert morton row e positive \<longleftrightarrow>
     (\<forall>c. getKeyColumn e = Inr c \<and> c < length row \<and> positive \<longrightarrow>
        (\<exists>a b. as_UInt64 env (row ! c) = Some (if curve_type_of curves c = Curve_Hilbert then hilbert a b else morton a b)
             \<and> list_all2 mem (space_filling_curve_args_hyperrectangle e) [UInt64_field env a, UInt64_field env b]))"

definition polygon_atom_means ::
  "('f, 'ty, 'fn, 's, 'p, 'x) key_env \<Rightarrow> ('p \<Rightarrow> 'x \<times> 'x \<Rightarrow> bool) \<Rightarrow> 'f list
     \<Rightarrow> ('f, 'fn, 's, 'p) rpn_element \<Rightarrow> bool \<Rightarrow> bool" where
  "polygon_atom_means env inside row e positive \<longleftrightarrow>
     (\<forall>cx cy rest pol. el_key_columns e = cx # cy # rest \<and> polygon e = Some pol \<and> positive \<longrightarrow>
        \<not> isNull env (row ! cx) \<and> \<not> isNull env (row ! cy)
        \<and> (\<exists>x y. to_Float64 env (row ! cx) = Inr (Some x) \<and> to_Float64 env (row ! cy) = Inr (Some y)
             \<and> inside pol (x, y)))"

text \<open>
  The setting: the row lies in the hyperrectangle; a NaN of the row lies only in a range that ends in
  NaN; where the condition was built for single points, the ranges are points.
\<close>

definition setting_ok ::
  "('f::linorder, 'ty, 'fn, 's, 'p, 'x::linorder) key_env \<Rightarrow> ('f key_range \<Rightarrow> 'f \<Rightarrow> bool) \<Rightarrow> (nat \<Rightarrow> nat \<Rightarrow> nat)
     \<Rightarrow> (nat \<Rightarrow> nat \<Rightarrow> nat) \<Rightarrow> ('p \<Rightarrow> 'x \<times> 'x \<Rightarrow> bool) \<Rightarrow> bool \<Rightarrow> 'f key_range list \<Rightarrow> 'f list \<Rightarrow> bool" where
  "setting_ok env mem hilbert morton inside sp h row \<longleftrightarrow>
     ranges_ok env mem \<and> functions_ok env \<and> curves_ok env hilbert morton \<and> geometry_ok env inside
     \<and> in_rectangle mem h row
     \<and> (\<forall>i < length h. isNaN env (row ! i) \<longrightarrow> isNaN env (range_right (h ! i)))
     \<and> (sp \<longrightarrow> (\<forall>r \<in> set h. is_point env r))"

definition atom_means ::
  "('f, 'ty, 'fn, 's, 'p, 'x) key_env \<Rightarrow> ('f key_range \<Rightarrow> 'f \<Rightarrow> bool) \<Rightarrow> (nat \<Rightarrow> nat \<Rightarrow> nat) \<Rightarrow> (nat \<Rightarrow> nat \<Rightarrow> nat)
     \<Rightarrow> ('p \<Rightarrow> 'x \<times> 'x \<Rightarrow> bool) \<Rightarrow> ('f, 'fn, 's, 'p) key_condition \<Rightarrow> 'ty list \<Rightarrow> column_filters \<Rightarrow> 'f list
     \<Rightarrow> ('f, 'fn, 's, 'p) rpn_element \<Rightarrow> bool \<Rightarrow> bool" where
  "atom_means env mem hilbert morton inside kc tys filters row e b \<longleftrightarrow>
     (argument_num_of_space_filling_curve e = None \<longrightarrow>
       (case el_function e of
          FUNCTION_IN_RANGE \<Rightarrow> range_atom_means env mem tys filters row e b
        | FUNCTION_NOT_IN_RANGE \<Rightarrow> range_atom_means env mem tys filters row e (\<not> b)
        | FUNCTION_IS_NOT_NULL \<Rightarrow> null_atom_means mem row e b
        | FUNCTION_IS_NULL \<Rightarrow> null_atom_means mem row e (\<not> b)
        | FUNCTION_IN_SET \<Rightarrow> set_atom_means env mem (single_point kc) tys filters row e b
        | FUNCTION_NOT_IN_SET \<Rightarrow> set_atom_means env mem (single_point kc) tys filters row e (\<not> b)
        | FUNCTION_ARGS_IN_HYPERRECTANGLE \<Rightarrow>
            curve_atom_means env mem (key_space_filling_curves kc) hilbert morton row e b
        | FUNCTION_POINT_IN_POLYGON \<Rightarrow> polygon_atom_means env inside row e b
        | ALWAYS_TRUE \<Rightarrow> b
        | ALWAYS_FALSE \<Rightarrow> \<not> b
        | _ \<Rightarrow> True))"

text \<open>
  A mask covers a value; the flag says whether the claim that the condition cannot be false is relied
  on as well.
\<close>

definition covers_dir :: "bool \<Rightarrow> bool_mask \<Rightarrow> bool \<Rightarrow> bool" where
  "covers_dir exact m b \<longleftrightarrow> (b \<longrightarrow> can_be_true m) \<and> (exact \<and> \<not> b \<longrightarrow> can_be_false m)"

lemma covers_dir_exact: "covers_dir True m b \<longleftrightarrow> covers_value m b"
  by (auto simp: covers_dir_def covers_value_def)

lemma covers_dirI: "covers_value m b \<Longrightarrow> covers_dir d m b"
  by (auto simp: covers_dir_def covers_value_def split: if_splits)

definition element_ok :: "bool \<Rightarrow> ('f, 'fn, 's, 'p) rpn_element \<Rightarrow> bool" where
  "element_ok exact e \<longleftrightarrow>
     (kind_of e \<noteq> Atom \<longrightarrow> argument_num_of_space_filling_curve e = None)
     \<and> (el_function e = FUNCTION_NOT \<longrightarrow> exact)
     \<and> (el_function e = FUNCTION_ARGS_IN_HYPERRECTANGLE \<longrightarrow> \<not> exact)"

definition connective_ok :: "('f, 'fn, 's, 'p) rpn_element \<Rightarrow> bool" where
  "connective_ok e \<longleftrightarrow> (kind_of e \<noteq> Atom \<longrightarrow> argument_num_of_space_filling_curve e = None)"

lemma element_ok_connective: "element_ok exact e \<Longrightarrow> connective_ok e"
  by (simp add: element_ok_def connective_ok_def)

text \<open>
  The mask of an atom about a space-filling curve does not support the claim that the atom cannot be
  false, and a negation turns that into the claim that it cannot be true. What a whole condition supports
  is the pair of flags (cannot be true, cannot be false) that the same stack machine computes.
\<close>

definition about_curve :: "('f, 'fn, 's, 'p) rpn_element \<Rightarrow> bool" where
  "about_curve e \<longleftrightarrow> el_function e = FUNCTION_ARGS_IN_HYPERRECTANGLE"

definition both :: "bool \<times> bool \<Rightarrow> bool \<times> bool \<Rightarrow> bool \<times> bool" where
  "both p q = (fst p \<and> fst q, snd p \<and> snd q)"

definition trust_of :: "('f, 'fn, 's, 'p) rpn_element list \<Rightarrow> (bool \<times> bool) option" where
  "trust_of es = (case stack_machine () kind_of (\<lambda>e. Inr (True, \<not> about_curve e)) prod.swap both both es [] of
     Inr [p] \<Rightarrow> Some p | _ \<Rightarrow> None)"

definition covers_trusted :: "bool \<times> bool \<Rightarrow> bool_mask \<Rightarrow> bool \<Rightarrow> bool" where
  "covers_trusted p m b \<longleftrightarrow> (fst p \<and> b \<longrightarrow> can_be_true m) \<and> (snd p \<and> \<not> b \<longrightarrow> can_be_false m)"

text \<open>The claims that are relied on are supported: \<open>exact\<close> asks for both.\<close>

definition trusted :: "bool \<Rightarrow> ('f, 'fn, 's, 'p) rpn_element list \<Rightarrow> bool" where
  "trusted exact es \<longleftrightarrow> (case trust_of es of None \<Rightarrow> True | Some (t, f) \<Rightarrow> t \<and> (exact \<longrightarrow> f))"

section \<open>The masks of the atoms\<close>

lemma element_at_Inr [simp]: "element_at xs i = Inr x \<longleftrightarrow> i < length xs \<and> x = xs ! i"
  by (auto simp: element_at_def)

lemma element_at_eq [simp]: "i < length xs \<Longrightarrow> element_at xs i = Inr (xs ! i)"
  by simp

lemma bloom_covers:
  assumes "b \<longrightarrow> bloom_allows filters e" "covers_value m b"
  shows "covers_value (with_bloom_filter (bloom_filter e) filters m) b"
  using assms
  by (auto simp: with_bloom_filter_def bloom_allows_def covers_value_def split: option.splits if_splits)

lemma relaxed_covers:
  "(b \<longrightarrow> can_be_true m) \<Longrightarrow> (\<not> r \<and> \<not> b \<longrightarrow> can_be_false m) \<Longrightarrow> covers_value (when_relaxed r m) b"
  by (auto simp: when_relaxed_def covers_value_def)

lemma with_bloom_can_be_false [simp]: "can_be_false (with_bloom_filter d filters m) = can_be_false m"
  by (auto simp: with_bloom_filter_def split: option.splits)

lemma with_bloom_can_be_true:
  "can_be_true m \<Longrightarrow> bloom_allows filters e \<Longrightarrow> can_be_true (with_bloom_filter (bloom_filter e) filters m)"
  by (auto simp: with_bloom_filter_def bloom_allows_def split: option.splits)

lemma range_atom_mask_covers:
  assumes ok: "ranges_ok env mem"
    and y: "mem key_range y" "isNaN env y \<longrightarrow> isNaN env (range_right key_range)"
    and pos: "positive \<longrightarrow> mem (el_range e) y \<and> \<not> isNaN env y \<and> \<not> isNull env y"
    and neg: "\<not> relaxed e \<and> mem (el_range e) y \<and> \<not> isNaN env y \<longrightarrow> positive"
    and bloom: "monotonic_functions_chain e = [] \<and> positive \<longrightarrow> bloom_allows filters e"
    and b: "positive = (if el_function e = FUNCTION_NOT_IN_RANGE then \<not> b else b)"
  shows "covers_value (range_atom_mask env e filters key_range) b"
proof -
  define isec where "isec = (if isNaN env (range_left key_range) then False else intersectsRange env (el_range e) key_range)"
  define con where "con = (if isNaN env (range_left key_range) \<or> isNaN env (range_right key_range) then False
    else containsRange env (el_range e) key_range)"
  define m where "m = when_relaxed (relaxed e) (if monotonic_functions_chain e = []
    then with_bloom_filter (bloom_filter e) filters (BoolMask isec (\<not> con)) else BoolMask isec (\<not> con))"
  have mask: "range_atom_mask env e filters key_range = (if el_function e = FUNCTION_NOT_IN_RANGE then mask_not m else m)"
    by (simp add: range_atom_mask_def m_def isec_def con_def Let_def)
  have isec: "isec" if positive
  proof -
    have yv: "mem (el_range e) y" "\<not> isNaN env y" "\<not> isNull env y" using pos that by blast+
    have "\<not> isNaN env (range_left key_range)"
    proof
      assume n: "isNaN env (range_left key_range)"
      have "\<not> isNull env (range_left key_range)" using n NaN_not_null [OF ok] by blast
      moreover have "in_bounds key_range y" using mem_in_bounds [OF ok yv(3)] y(1) by simp
      ultimately have "range_left key_range \<le> y" by (auto simp: in_bounds_def)
      then show False using NaN_last [OF ok n yv(3)] yv(2) by blast
    qed
    then show ?thesis using intersects_mem [OF ok yv(1) y(1)] by (simp add: isec_def)
  qed
  have con: "positive" if con "\<not> relaxed e"
  proof -
    have "containsRange env (el_range e) key_range" "\<not> isNaN env (range_right key_range)"
      using that(1) by (auto simp: con_def split: if_splits)
    then show ?thesis using contains_mem [OF ok _ y(1)] y(2) neg that(2) by blast
  qed
  have "covers_value m positive"
    unfolding m_def
  proof (rule relaxed_covers)
    show "positive \<longrightarrow> can_be_true (if monotonic_functions_chain e = []
        then with_bloom_filter (bloom_filter e) filters (BoolMask isec (\<not> con)) else BoolMask isec (\<not> con))"
      using isec bloom with_bloom_can_be_true [of "BoolMask isec (\<not> con)" filters e] by auto
  qed (use con in auto)
  then show ?thesis
    unfolding mask using b by (auto dest: covers_value_not split: if_splits)
qed

lemma setting_okD:
  assumes "setting_ok env mem hilbert morton inside sp h row"
  shows "ranges_ok env mem" "functions_ok env" "curves_ok env hilbert morton" "geometry_ok env inside"
    "in_rectangle mem h row" "length row = length h"
    "i < length h \<Longrightarrow> mem (h ! i) (row ! i)"
    "i < length h \<Longrightarrow> isNaN env (row ! i) \<Longrightarrow> isNaN env (range_right (h ! i))"
    "i < length h \<Longrightarrow> sp \<Longrightarrow> is_point env (h ! i)"
  using assms unfolding setting_ok_def in_rectangle_def by simp_all

lemma range_atom_covers:
  assumes set: "setting_ok env mem hilbert morton inside sp h row"
    and run: "check_range_atom env sp h tys filters e = Inr (m, reached)"
    and means: "range_atom_means env mem tys filters row e positive"
    and b: "positive = (if el_function e = FUNCTION_NOT_IN_RANGE then \<not> b else b)"
  shows "covers_value m b"
proof -
  obtain c where c: "getKeyColumn e = Inr c" "c < length h"
    using run by (auto simp: check_range_atom_def bind_r_Inr_iff split: if_splits)
  note d = setting_okD [OF set]
  have cr: "getKeyColumn e = Inr c \<and> c < length row" using c d(6) by simp
  note all = means [unfolded range_atom_means_def, THEN spec, THEN mp, OF cr]
  from all [THEN conjunct1] obtain y where
    yy: "chain_image env (monotonic_functions_chain e) (tys ! c) (row ! c) = Some y
      \<and> (monotonic_functions_chain e \<noteq> [] \<longrightarrow> \<not> isNull env (row ! c) \<and> \<not> isNaN env y)
      \<and> (positive \<longrightarrow> mem (el_range e) y \<and> \<not> isNaN env y \<and> \<not> isNull env y)
      \<and> (\<not> relaxed e \<and> mem (el_range e) y \<and> \<not> isNaN env y \<longrightarrow> positive)"
    by (rule exE)
  note y = yy [THEN conjunct1] yy [THEN conjunct2, THEN conjunct1] yy [THEN conjunct2, THEN conjunct2, THEN conjunct1]
    yy [THEN conjunct2, THEN conjunct2, THEN conjunct2] all [THEN conjunct2]
  note mask = range_atom_mask_covers [OF d(1) _ _ y(3,4,5) b]
  show ?thesis
  proof (cases "monotonic_functions_chain e = []")
    case True
    then have "m = range_atom_mask env e filters (h ! c)" "y = row ! c"
      using run c y(1) by (simp_all add: check_range_atom_def)
    then show ?thesis using mask d(7,8) c(2) by blast
  next
    case False
    note chain = y(2) [rule_format, OF False]
    obtain new where new: "applyMonotonicFunctionsChainToRange env (h ! c) (monotonic_functions_chain e) (tys ! c) sp = Inr new"
      "(case new of None \<Rightarrow> Inr (BoolMask True True, False)
          | Some key_range \<Rightarrow> Inr (range_atom_mask env e filters key_range, True)) = (Inr (m, reached) :: error + bool_mask \<times> bool)"
      using run False c by (auto simp: check_range_atom_def bind_r_Inr_iff)
    show ?thesis
    proof (cases new)
      case None
      then show ?thesis using new(2) by (auto simp: covers_value_def)
    next
      case (Some r')
      then have m: "m = range_atom_mask env e filters r'" using new(2) by simp
      have "mem r' y \<and> \<not> isNull env y"
        using chain_sound [OF d(1,2) new(1) [unfolded Some] _ d(7) [OF c(2)] _ y(1)] chain d(9) [OF c(2)] by blast
      then show ?thesis using mask chain unfolding m by blast
    qed
  qed
qed

lemma null_atom_covers:
  assumes set: "setting_ok env mem hilbert morton inside sp h row"
    and run: "check_null_atom env h e = Inr (m, reached)"
    and means: "null_atom_means mem row e positive"
    and b: "positive = (if el_function e = FUNCTION_IS_NULL then \<not> b else b)"
  shows "covers_value m b"
proof -
  obtain c where c: "getKeyColumn e = Inr c" "c < length h"
    using run by (auto simp: check_null_atom_def bind_r_Inr_iff)
  note d = setting_okD [OF set]
  define m0 where "m0 = when_relaxed (relaxed e) (BoolMask (intersectsRange env (el_range e) (h ! c))
                         (\<not> containsRange env (el_range e) (h ! c)))"
  have m: "m = (if el_function e = FUNCTION_IS_NULL then mask_not m0 else m0)"
    using run c by (auto simp: check_null_atom_def m0_def Let_def element_at_def)
  have me: "positive \<longrightarrow> mem (el_range e) (row ! c)" "\<not> relaxed e \<and> mem (el_range e) (row ! c) \<longrightarrow> positive"
    using means [unfolded null_atom_means_def] c d(6) by auto
  have "covers_value m0 positive"
    unfolding m0_def
    by (rule relaxed_covers)
       (use me intersects_mem [OF d(1) _ d(7) [OF c(2)]] contains_mem [OF d(1) _ d(7) [OF c(2)]] in auto)
  then show ?thesis unfolding m using b by (auto dest: covers_value_not split: if_splits)
qed

lemma set_atom_covers:
  assumes set: "setting_ok env mem hilbert morton inside sp h row"
    and run: "check_set_atom env sp h tys filters e = Inr (m, reached)"
    and means: "set_atom_means env mem sp tys filters row e positive"
    and b: "positive = (if el_function e = FUNCTION_NOT_IN_SET then \<not> b else b)"
  shows "covers_value m b"
proof -
  obtain s m1 where s: "set_index e = Some s" "set_checkInRange env s h tys sp = Inr m1"
    using run by (auto simp: check_set_atom_def bind_r_Inr_iff split: option.splits)
  define m0 where "m0 = when_relaxed (relaxed e) (with_bloom_filter (bloom_filter e) filters m1)"
  have m: "m = (if el_function e = FUNCTION_NOT_IN_SET then mask_not m0 else m0)"
    using run s by (auto simp: check_set_atom_def m0_def Let_def)
  have me: "positive \<longrightarrow> can_be_true m1" "\<not> relaxed e \<and> \<not> positive \<longrightarrow> can_be_false m1"
    "positive \<longrightarrow> bloom_allows filters e"
    using means [unfolded set_atom_means_def] s setting_okD(5) [OF set] by auto
  have "covers_value m0 positive"
    unfolding m0_def
    by (rule relaxed_covers) (use me with_bloom_can_be_true [of m1 filters e] in auto)
  then show ?thesis unfolding m using b by (auto dest: covers_value_not split: if_splits)
qed

lemma foldl_mask_or_true:
  "can_be_true (foldl (\<lambda>mask r. mask_or mask (f r)) m0 rs) \<longleftrightarrow> can_be_true m0 \<or> (\<exists>r \<in> set rs. can_be_true (f r))"
  by (induction rs arbitrary: m0) (auto simp: mask_or_def)

lemma curve_atom_covers:
  assumes set: "setting_ok env mem hilbert morton inside sp h row"
    and run: "check_curve_atom env curves h e = Inr (m, reached)"
    and means: "curve_atom_means env mem curves hilbert morton row e b"
  shows "b \<longrightarrow> can_be_true m"
proof
  assume b: b
  note d = setting_okD [OF set]
  obtain c where c: "getKeyColumn e = Inr c" "c < length h"
    using run by (auto simp: check_curve_atom_def bind_r_Inr_iff)
  define code where "code = (if curve_type_of curves c = Curve_Hilbert then hilbert else morton)"
  have cr: "getKeyColumn e = Inr c \<and> c < length row \<and> b" using c d(6) b by simp
  obtain u v where uv': "as_UInt64 env (row ! c) = Some (if curve_type_of curves c = Curve_Hilbert then hilbert u v else morton u v)"
    "list_all2 mem (space_filling_curve_args_hyperrectangle e) [UInt64_field env u, UInt64_field env v]"
    using means [unfolded curve_atom_means_def, THEN spec, THEN mp, OF cr] by blast
  then have uv: "as_UInt64 env (row ! c) = Some (code u v)"
    "list_all2 mem (space_filling_curve_args_hyperrectangle e) [UInt64_field env u, UInt64_field env v]"
    by (simp_all add: code_def)
  note cv = d(3) [unfolded curves_ok_def]
  note cv2 = cv [THEN conjunct2, THEN conjunct2]
  have mono: "x \<le> y \<Longrightarrow> as_UInt64 env x = Some i \<Longrightarrow> as_UInt64 env y = Some j \<Longrightarrow> i \<le> j" for x y i j
    using cv [THEN conjunct1] by blast
  have nonnull: "as_UInt64 env x \<noteq> None \<Longrightarrow> \<not> isNull env x" for x
    using cv [THEN conjunct2, THEN conjunct1] by blast
  have fmono: "i \<le> j \<Longrightarrow> UInt64_field env i \<le> UInt64_field env j" and fnn: "\<not> isNull env (UInt64_field env i)" for i j
    using cv2 [THEN conjunct1] cv2 [THEN conjunct2, THEN conjunct1] by blast+
  let ?r = "shrinkToIncludedIfPossible env (h ! c)"
  have inside_r: "in_bounds ?r (row ! c)"
    using shrink_mem [OF d(1) d(7) [OF c(2)]] mem_in_bounds [OF d(1) nonnull] uv(1) by simp
  have rect: "can_be_true (curve_rectangle_mask env (space_filling_curve_args_hyperrectangle e) ((al, ah), (bl, bh)))"
    if "al \<le> u" "u \<le> ah" "bl \<le> v" "v \<le> bh" for al ah bl bh
  proof -
    obtain ra rb where args: "space_filling_curve_args_hyperrectangle e = [ra, rb]"
      "mem ra (UInt64_field env u)" "mem rb (UInt64_field env v)"
      using uv(2) by (auto simp: list_all2_Cons2)
    have in_rect: "mem \<lparr>range_left = UInt64_field env lo, range_right = UInt64_field env hi,
          left_included = True, right_included = True\<rparr> (UInt64_field env w)" if "lo \<le> w" "w \<le> hi" for lo hi w
      using mem_in_bounds [OF d(1) fnn] fmono that by (auto simp: in_bounds_def le_less)
    show ?thesis
      using intersects_mem [OF d(1) args(2) in_rect] intersects_mem [OF d(1) args(3) in_rect] that args(1)
      by (simp add: curve_rectangle_mask_def mask_and_def Let_def)
  qed
  have all: "can_be_true (curve_mask env (space_filling_curve_args_hyperrectangle e) rects)"
    if "\<exists>((al, ah), (bl, bh)) \<in> set rects. al \<le> u \<and> u \<le> ah \<and> bl \<le> v \<and> v \<le> bh" for rects
    unfolding curve_mask_def foldl_mask_or_true using that rect by fastforce
  show "can_be_true m"
  proof (cases "as_UInt64 env (range_left (h ! c)) \<noteq> None \<and> as_UInt64 env (range_right (h ! c)) \<noteq> None
      \<and> length (space_filling_curve_args_hyperrectangle e) = 2")
    case False
    then have "m = BoolMask True True" using run c by (auto simp: check_curve_atom_def Let_def split: if_splits)
    then show ?thesis by simp
  next
    case True
    then obtain lo hi where lh: "as_UInt64 env (range_left ?r) = Some lo" "as_UInt64 env (range_right ?r) = Some hi"
      using run c by (auto simp: check_curve_atom_def Let_def split: option.splits)
    have "range_left ?r \<le> row ! c" "row ! c \<le> range_right ?r"
      using inside_r nonnull lh by (auto simp: in_bounds_def)
    then have le: "lo \<le> code u v" "code u v \<le> hi" using mono lh uv(1) by blast+
    from run c True lh have "curve_type_of curves c = Curve_Hilbert \<and> m = curve_mask env (space_filling_curve_args_hyperrectangle e) (hilbert_rectangles env lo hi)
        \<or> curve_type_of curves c = Curve_Morton \<and> m = curve_mask env (space_filling_curve_args_hyperrectangle e) (morton_rectangles env lo hi)"
      by (auto simp: check_curve_atom_def Let_def split: curve_type.splits)
    then show ?thesis
    proof
      assume "curve_type_of curves c = Curve_Hilbert \<and> m = curve_mask env (space_filling_curve_args_hyperrectangle e) (hilbert_rectangles env lo hi)"
      then show ?thesis using all cv2 [THEN conjunct2, THEN conjunct2, THEN conjunct1] le by (simp add: code_def)
    next
      assume "curve_type_of curves c = Curve_Morton \<and> m = curve_mask env (space_filling_curve_args_hyperrectangle e) (morton_rectangles env lo hi)"
      then show ?thesis using all cv2 [THEN conjunct2, THEN conjunct2, THEN conjunct2] le by (simp add: code_def)
    qed
  qed
qed

lemma polygon_atom_covers:
  assumes set: "setting_ok env mem hilbert morton inside sp h row"
    and run: "check_polygon_atom env h e = Inr (m, reached)"
    and means: "polygon_atom_means env inside row e b"
  shows "covers_value m b"
proof -
  note d = setting_okD [OF set]
  obtain cx cy rest xl xh yl yh where c: "el_key_columns e = cx # cy # rest" "cx < length h" "cy < length h"
    and conv: "convert_to_float64 env (range_left (h ! cx)) True = Inr xl" "convert_to_float64 env (range_right (h ! cx)) False = Inr xh"
      "convert_to_float64 env (range_left (h ! cy)) True = Inr yl" "convert_to_float64 env (range_right (h ! cy)) False = Inr yh"
    and res: "(case (xl, xh, yl, yh) of
       (Some x_min, Some x_max, Some y_min, Some y_max) \<Rightarrow>
         (case polygon e of None \<Rightarrow> Inl UB | Some pol \<Rightarrow> Inr (box_mask env pol ((x_min, y_min), (x_max, y_max))))
     | _ \<Rightarrow> Inr (BoolMask True True, False)) = Inr (m, reached)"
  proof -
    from run obtain cx cy xl xh yl yh where
      "0 < length (el_key_columns e)" "cx = el_key_columns e ! 0" "1 < length (el_key_columns e)" "cy = el_key_columns e ! 1"
      "cx < length h" "cy < length h"
      "convert_to_float64 env (range_left (h ! cx)) True = Inr xl" "convert_to_float64 env (range_right (h ! cx)) False = Inr xh"
      "convert_to_float64 env (range_left (h ! cy)) True = Inr yl" "convert_to_float64 env (range_right (h ! cy)) False = Inr yh"
      "(case (xl, xh, yl, yh) of
       (Some x_min, Some x_max, Some y_min, Some y_max) \<Rightarrow>
         (case polygon e of None \<Rightarrow> Inl UB | Some pol \<Rightarrow> Inr (box_mask env pol ((x_min, y_min), (x_max, y_max))))
     | _ \<Rightarrow> Inr (BoolMask True True, False)) = Inr (m, reached)"
      unfolding check_polygon_atom_def bind_r_Inr_iff element_at_Inr by blast
    then show thesis
      using that [of cx cy "drop 2 (el_key_columns e)" xl xh yl yh]
      by (cases "el_key_columns e" rule: remdups_adj.cases) auto
  qed
  show ?thesis
  proof (cases "(\<exists>x. xl = Some x) \<and> (\<exists>x. xh = Some x) \<and> (\<exists>x. yl = Some x) \<and> (\<exists>x. yh = Some x)")
    case False
    then have "m = BoolMask True True" using res by (cases xl; cases xh; cases yl; cases yh) auto
    then show ?thesis by (simp add: covers_value_def)
  next
    case True
    then obtain x0 x1 y0 y1 where s: "xl = Some x0" "xh = Some x1" "yl = Some y0" "yh = Some y1" by blast
    then obtain pol where pol: "polygon e = Some pol" "box_mask env pol ((x0, y0), (x1, y1)) = (m, reached)"
      using res by (auto split: option.splits)
    have cf: "can_be_false m" using pol(2) by (auto simp: box_mask_def Let_def split: prod.splits if_splits)
    have "can_be_true m" if b
    proof -
      from means [unfolded polygon_atom_means_def] c(1) pol(1) that obtain x y where
        nn: "\<not> isNull env (row ! cx)" "\<not> isNull env (row ! cy)" and
        xy: "to_Float64 env (row ! cx) = Inr (Some x)" "to_Float64 env (row ! cy) = Inr (Some y)" "inside pol (x, y)"
        by blast
      note g = d(4) [unfolded geometry_ok_def]
      have mono: "\<lbrakk>\<not> isNull env a; \<not> isNull env b; a \<le> b; to_Float64 env a = Inr (Some u); to_Float64 env b = Inr (Some v)\<rbrakk> \<Longrightarrow> u \<le> v" for a b u v
        using g [THEN conjunct1] by blast
      have inf: "minus_infinity env \<le> u" "u \<le> plus_infinity env" for u
        using g [THEN conjunct2, THEN conjunct1] by blast+
      have side: "lo \<le> w \<and> w \<le> hi"
        if "cc < length h" "\<not> isNull env (row ! cc)" "to_Float64 env (row ! cc) = Inr (Some w)"
          "convert_to_float64 env (range_left (h ! cc)) True = Inr (Some lo)"
          "convert_to_float64 env (range_right (h ! cc)) False = Inr (Some hi)" for cc w lo hi
      proof -
        have ib: "in_bounds (h ! cc) (row ! cc)" using mem_in_bounds [OF d(1) that(2)] d(7) [OF that(1)] by simp
        have "lo \<le> w"
        proof (cases "isNull env (range_left (h ! cc))")
          case True
          then show ?thesis using that(4) inf(1) by (simp add: convert_to_float64_def)
        next
          case False
          then have "range_left (h ! cc) \<le> row ! cc" "to_Float64 env (range_left (h ! cc)) = Inr (Some lo)"
            using ib that(4) by (auto simp: in_bounds_def convert_to_float64_def)
          then show ?thesis using mono False that(2,3) by blast
        qed
        moreover have "w \<le> hi"
        proof (cases "isNull env (range_right (h ! cc))")
          case True
          then show ?thesis using that(5) inf(2) by (simp add: convert_to_float64_def)
        next
          case False
          then have "row ! cc \<le> range_right (h ! cc)" "to_Float64 env (range_right (h ! cc)) = Inr (Some hi)"
            using ib that(5) by (auto simp: in_bounds_def convert_to_float64_def)
          then show ?thesis using mono False that(2,3) by blast
        qed
        ultimately show ?thesis by blast
      qed
      have x: "x0 \<le> x \<and> x \<le> x1" using side [OF c(2) nn(1) xy(1)] conv(1,2) s(1,2) by blast
      have y: "y0 \<le> y \<and> y \<le> y1" using side [OF c(3) nn(2) xy(2)] conv(3,4) s(3,4) by blast
      have "ring_intersects env ((x0, y0), (x1, y1)) pol"
        using g [THEN conjunct2, THEN conjunct2, THEN conjunct2] xy(3) x y by blast
      moreover have "fst (fst (polygon_bbox env pol)) \<le> x \<and> x \<le> fst (snd (polygon_bbox env pol))
          \<and> snd (fst (polygon_bbox env pol)) \<le> y \<and> y \<le> snd (snd (polygon_bbox env pol))"
        using g [THEN conjunct2, THEN conjunct2, THEN conjunct1] xy(3) by blast
      ultimately show ?thesis
        using pol(2) x y by (auto simp: box_mask_def Let_def split: prod.splits if_splits)
    qed
    then show ?thesis using cf by (simp add: covers_value_def)
  qed
qed

section \<open>The condition\<close>

definition atom_value ::
  "('f, 'ty, 'fn, 's, 'p, 'x::linorder) key_env \<Rightarrow> ('f, 'fn, 's, 'p) key_condition \<Rightarrow> 'f key_range list \<Rightarrow> 'ty list
     \<Rightarrow> column_filters \<Rightarrow> ('f, 'fn, 's, 'p) rpn_element \<Rightarrow> bool_mask result" where
  "atom_value env kc h tys filters e = bind_r (check_atom env kc h tys filters e) (\<lambda>(m, _). Inr m)"

lemma atom_covers:
  assumes set: "setting_ok env mem hilbert morton inside (single_point kc) h row"
    and ok: "element_ok exact e" "kind_of e = Atom"
    and means: "atom_means env mem hilbert morton inside kc tys filters row e b"
    and run: "atom_value env kc h tys filters e = Inr m"
  shows "covers_dir exact m b"
proof -
  obtain reached where r: "check_atom env kc h tys filters e = Inr (m, reached)"
    using run by (auto simp: atom_value_def bind_r_Inr_iff)
  show ?thesis
  proof (cases "argument_num_of_space_filling_curve e = None")
    case False
    then have "m = BoolMask True True" using r by (simp add: check_atom_def)
    then show ?thesis by (simp add: covers_dir_def)
  next
    case True
    note r' = r [unfolded check_atom_def, simplified True, simplified]
    note me = means [unfolded atom_means_def, rule_format, OF True]
    show ?thesis
    proof (cases "el_function e")
      case FUNCTION_IN_RANGE
      then show ?thesis
        using range_atom_covers [OF set _ _ refl, where b = b] r' me by (auto intro!: covers_dirI)
    next
      case FUNCTION_NOT_IN_RANGE
      then show ?thesis
        using range_atom_covers [OF set _ _ refl, where b = b] r' me by (auto intro!: covers_dirI)
    next
      case FUNCTION_IN_SET
      then show ?thesis
        using set_atom_covers [OF set _ _ refl, where b = b] r' me by (auto intro!: covers_dirI)
    next
      case FUNCTION_NOT_IN_SET
      then show ?thesis
        using set_atom_covers [OF set _ _ refl, where b = b] r' me by (auto intro!: covers_dirI)
    next
      case FUNCTION_IS_NULL
      then show ?thesis
        using null_atom_covers [OF set _ _ refl, where b = b] r' me by (auto intro!: covers_dirI)
    next
      case FUNCTION_IS_NOT_NULL
      then show ?thesis
        using null_atom_covers [OF set _ _ refl, where b = b] r' me by (auto intro!: covers_dirI)
    next
      case FUNCTION_ARGS_IN_HYPERRECTANGLE
      then show ?thesis
        using curve_atom_covers [OF set] r' me ok(1) by (auto simp: covers_dir_def element_ok_def)
    next
      case FUNCTION_POINT_IN_POLYGON
      then show ?thesis
        using polygon_atom_covers [OF set] r' me by (auto intro!: covers_dirI)
    next
      case FUNCTION_UNKNOWN
      then show ?thesis using r' by (auto simp: covers_dir_def)
    next
      case ALWAYS_FALSE
      then show ?thesis using r' me by (auto simp: covers_dir_def)
    next
      case ALWAYS_TRUE
      then show ?thesis using r' me by (auto simp: covers_dir_def)
    qed (use ok(2) in \<open>simp_all add: kind_of_def\<close>)
  qed
qed

lemma atom_covers_trusted:
  assumes "setting_ok env mem hilbert morton inside (single_point kc) h row" "connective_ok e" "kind_of e = Atom"
    and "atom_means env mem hilbert morton inside kc tys filters row e b" "atom_value env kc h tys filters e = Inr m"
  shows "covers_trusted (True, \<not> about_curve e) m b"
proof -
  have "element_ok (\<not> about_curve e) e" using assms(3) by (auto simp: element_ok_def about_curve_def kind_of_def)
  from atom_covers [OF assms(1) this assms(3-5)] show ?thesis by (simp add: covers_dir_def covers_trusted_def)
qed

definition admissible_element ::
  "('f::linorder, 'ty, 'fn, 's, 'p, 'x::linorder) key_env \<Rightarrow> ('f key_range \<Rightarrow> 'f \<Rightarrow> bool) \<Rightarrow> (nat \<Rightarrow> nat \<Rightarrow> nat)
     \<Rightarrow> (nat \<Rightarrow> nat \<Rightarrow> nat) \<Rightarrow> ('p \<Rightarrow> 'x \<times> 'x \<Rightarrow> bool) \<Rightarrow> ('f, 'fn, 's, 'p) key_condition \<Rightarrow> 'f key_range list
     \<Rightarrow> 'ty list \<Rightarrow> column_filters \<Rightarrow> 'f list \<Rightarrow> (('f, 'fn, 's, 'p) rpn_element \<Rightarrow> bool)
     \<Rightarrow> ('f, 'fn, 's, 'p) rpn_element \<Rightarrow> bool" where
  "admissible_element env mem hilbert morton inside kc h tys filters row tv e \<longleftrightarrow>
     setting_ok env mem hilbert morton inside (single_point kc) h row \<and> connective_ok e
     \<and> (kind_of e = Atom \<longrightarrow> atom_means env mem hilbert morton inside kc tys filters row e (tv e))"

text \<open>The masks and the flags are computed side by side.\<close>

interpretation hyperrectangle: stack_simulation UB kind_of
  "\<lambda>e. bind_r (atom_value env kc h tys filters e) (\<lambda>m. Inr (m, True, \<not> about_curve e))" "map_prod mask_not prod.swap"
  "\<lambda>p q. (mask_and (fst p) (fst q), both (snd p) (snd q))" "\<lambda>p q. (mask_or (fst p) (fst q), both (snd p) (snd q))"
  tv "\<lambda>p. covers_trusted (snd p) (fst p)" "admissible_element env mem hilbert morton inside kc h tys filters row tv"
  for env kc h tys filters tv mem hilbert morton inside row
proof (unfold_locales, goal_cases)
  case (1 e v)
  then obtain m where "atom_value env kc h tys filters e = Inr m" "v = (m, True, \<not> about_curve e)"
    by (auto simp: bind_r_Inr_iff)
  then show ?case using 1 atom_covers_trusted by (auto simp: admissible_element_def)
qed (auto simp: covers_trusted_def mask_not_def mask_and_def mask_or_def both_def)

text \<open>The loop of \<open>checkInHyperrectangle\<close>, without its reports, is the stack machine.\<close>

lemma kind_of_simps:
  "kind_of e = Negation \<longleftrightarrow> el_function e = FUNCTION_NOT"
  "kind_of e = Conjunction \<longleftrightarrow> el_function e = FUNCTION_AND"
  "kind_of e = Disjunction \<longleftrightarrow> el_function e = FUNCTION_OR"
  by (auto simp: kind_of_def split: rpn_function.splits)

lemma is_connective_iff:
  "connective_ok e \<Longrightarrow> is_connective e \<longleftrightarrow> kind_of e \<noteq> Atom"
  by (auto simp: is_connective_def connective_ok_def kind_of_def split: rpn_function.splits)

lemma apply_connective_cases:
  assumes "apply_connective f stack = Inr stack'"
  obtains a rest where "f = FUNCTION_NOT" "stack = a # rest" "stack' = mask_not a # rest"
  | a b rest where "f = FUNCTION_AND" "stack = a # b # rest" "stack' = mask_and a b # rest"
  | a b rest where "f = FUNCTION_OR" "stack = a # b # rest" "stack' = mask_or a b # rest"
  using assms by (cases "(f, stack)" rule: apply_connective.cases) auto

lemma apply_connective_step:
  assumes "apply_connective (el_function e) stack = Inr stack'"
  shows "stack_step UB kind_of atom mask_not mask_and mask_or e stack = Inr stack'"
  using assms by (cases rule: apply_connective_cases) (simp_all add: stack_step_simps kind_of_simps)

lemma check_elements_machine:
  "check_elements env kc h tys filters notify es stack i calls = Inr (stack', calls') \<Longrightarrow> \<forall>e \<in> set es. connective_ok e
    \<Longrightarrow> stack_machine UB kind_of (atom_value env kc h tys filters) mask_not mask_and mask_or es stack = Inr stack'"
proof (induction es arbitrary: stack i calls)
  case (Cons e es)
  from Cons.prems(1) obtain s reached i' calls0 where step:
    "(if is_connective e
        then bind_r (apply_connective (el_function e) stack) (\<lambda>stack. Inr (stack, True))
        else bind_r (check_atom env kc h tys filters e) (\<lambda>(m, reached). Inr (m # stack, reached))) = Inr (s, reached)"
    "check_elements env kc h tys filters notify es s i' calls0 = Inr (stack', calls')"
    by (auto simp: bind_r_Inr_iff split: if_splits)
  have "stack_step UB kind_of (atom_value env kc h tys filters) mask_not mask_and mask_or e stack = Inr s"
  proof (cases "is_connective e")
    case True
    then show ?thesis using step(1) by (auto simp: bind_r_Inr_iff intro: apply_connective_step)
  next
    case False
    then have "kind_of e = Atom" using is_connective_iff Cons.prems(2) by (metis list.set_intros(1))
    then show ?thesis using step(1) False by (auto simp: stack_step_simps atom_value_def bind_r_Inr_iff)
  qed
  then show ?case using Cons.IH [OF step(2)] Cons.prems(2) by simp
qed simp

lemma checkInHyperrectangle_InrD:
  assumes "checkInHyperrectangle env kc h tys filters notify = Inr (m, calls)"
  shows "check_elements env kc h tys filters notify (rpn kc) [] 0 [] = Inr ([m], calls)"
proof -
  from assms obtain stack calls' where s:
    "check_elements env kc h tys filters notify (rpn kc) [] 0 [] = Inr (stack, calls')"
    "(case stack of [m] \<Rightarrow> Inr (m, calls') | _ \<Rightarrow> Inl LOGICAL_ERROR) = Inr (m, calls)"
    by (auto simp: checkInHyperrectangle_def bind_r_Inr_iff)
  then show ?thesis by (cases stack rule: remdups_adj.cases) auto
qed

lemma checkInHyperrectangle_covers_trusted:
  assumes set: "setting_ok env mem hilbert morton inside (single_point kc) h row"
    and means: "\<forall>e \<in> set (rpn kc). connective_ok e
      \<and> (kind_of e = Atom \<longrightarrow> atom_means env mem hilbert morton inside kc tys filters row e (tv e))"
    and run: "checkInHyperrectangle env kc h tys filters notify = Inr (m, calls)"
  shows "\<exists>b p. truth_of kind_of tv (rpn kc) = Some b \<and> trust_of (rpn kc) = Some p \<and> covers_trusted p m b"
proof -
  have "check_elements env kc h tys filters notify (rpn kc) [] 0 [] = Inr ([m], calls)"
    using run by (rule checkInHyperrectangle_InrD)
  from check_elements_machine [OF this] means
  have masks: "stack_machine UB kind_of (atom_value env kc h tys filters) mask_not mask_and mask_or (rpn kc) [] = Inr [m]"
    by blast
  obtain p where flags: "stack_machine () kind_of (\<lambda>e. Inr (True, \<not> about_curve e)) prod.swap both both (rpn kc) [] = Inr [p]"
    using stack_machine_shape [OF masks, of "[]" "()" "\<lambda>e. (True, \<not> about_curve e)" prod.swap both both]
    by (auto simp: length_Suc_conv)
  have "\<exists>b. truth_of kind_of tv (rpn kc) = Some b \<and> covers_trusted (snd (m, p)) (fst (m, p)) b"
    by (rule hyperrectangle.value_related [OF stack_machine_pair [OF masks flags, simplified]])
      (use set means in \<open>auto simp: admissible_element_def\<close>)
  moreover have "trust_of (rpn kc) = Some p" using flags by (simp add: trust_of_def)
  ultimately show ?thesis by auto
qed

lemma checkInHyperrectangle_covers:
  assumes set: "setting_ok env mem hilbert morton inside (single_point kc) h row"
    and means: "\<forall>e \<in> set (rpn kc). connective_ok e
      \<and> (kind_of e = Atom \<longrightarrow> atom_means env mem hilbert morton inside kc tys filters row e (tv e))"
    and trust: "trusted exact (rpn kc)"
    and run: "checkInHyperrectangle env kc h tys filters notify = Inr (m, calls)"
  shows "\<exists>b. truth_of kind_of tv (rpn kc) = Some b \<and> covers_dir exact m b"
  using checkInHyperrectangle_covers_trusted [OF set means run] trust
  by (auto simp: covers_trusted_def covers_dir_def trusted_def)

end
