(* ===== verification/Key_Condition_Results.thy ===== *)
theory Key_Condition_Results
  imports Key_Condition_Sound
begin

text \<open>
  What the evaluation of a key condition guarantees to its callers: the masks of
  \<open>checkInHyperrectangle\<close>, the pruning decision of \<open>mayBeTrueInRange\<close>, the
  positions of the partial results, and Bloom filter data. The witnesses use a small concrete type of
  fields.
\<close>

section \<open>A concrete environment\<close>

datatype demo_field = Minus_Inf | Num nat | Not_A_Number | Plus_Inf

fun demo_rank :: "demo_field \<Rightarrow> nat \<times> nat" where
  "demo_rank Minus_Inf = (0, 0)"
| "demo_rank (Num n) = (1, n)"
| "demo_rank Not_A_Number = (2, 0)"
| "demo_rank Plus_Inf = (3, 0)"

lemma demo_rank_inject: "demo_rank x = demo_rank y \<longleftrightarrow> x = y"
  by (cases x; cases y) simp_all

instantiation demo_field :: linorder
begin

definition less_eq_demo_field :: "demo_field \<Rightarrow> demo_field \<Rightarrow> bool" where
  "less_eq_demo_field x y \<longleftrightarrow> demo_rank x \<le> demo_rank y"

definition less_demo_field :: "demo_field \<Rightarrow> demo_field \<Rightarrow> bool" where
  "less_demo_field x y \<longleftrightarrow> demo_rank x < demo_rank y"

instance
  by standard (auto simp: less_eq_demo_field_def less_demo_field_def simp flip: demo_rank_inject)

end

lemma demo_order [simp]:
  "Minus_Inf \<le> x" "x \<le> Plus_Inf" "x \<le> Minus_Inf \<longleftrightarrow> x = Minus_Inf" "Plus_Inf \<le> x \<longleftrightarrow> x = Plus_Inf"
  "\<not> x < Minus_Inf" "Minus_Inf < x \<longleftrightarrow> x \<noteq> Minus_Inf" "\<not> Plus_Inf < x" "x < Plus_Inf \<longleftrightarrow> x \<noteq> Plus_Inf"
  "Num m \<le> Num n \<longleftrightarrow> m \<le> n" "Num m < Num n \<longleftrightarrow> m < n" "Num m < Not_A_Number" "\<not> Not_A_Number < Num m"
  "Num m \<le> Not_A_Number" "\<not> Not_A_Number \<le> Num m"
  by (cases x; simp add: less_eq_demo_field_def less_demo_field_def)+

definition demo_null :: "demo_field \<Rightarrow> bool" where
  "demo_null x \<longleftrightarrow> x = Minus_Inf \<or> x = Plus_Inf"

text \<open>Two ranges meet unless one ends before the other begins.\<close>

definition demo_intersects :: "demo_field key_range \<Rightarrow> demo_field key_range \<Rightarrow> bool" where
  "demo_intersects a b \<longleftrightarrow>
     (range_left a < range_right b \<or> range_left a = range_right b \<and> left_included a \<and> right_included b)
     \<and> (range_left b < range_right a \<or> range_left b = range_right a \<and> left_included b \<and> right_included a)"

definition demo_contains :: "demo_field key_range \<Rightarrow> demo_field key_range \<Rightarrow> bool" where
  "demo_contains a b \<longleftrightarrow>
     (range_left a < range_left b \<or> range_left a = range_left b \<and> (left_included a \<or> \<not> left_included b))
     \<and> (range_right b < range_right a \<or> range_right b = range_right a \<and> (right_included a \<or> \<not> right_included b))"

definition demo_invert :: "demo_field key_range \<Rightarrow> demo_field key_range" where
  "demo_invert r = \<lparr>range_left = (if demo_null (range_right r) then Minus_Inf else range_right r),
     range_right = (if demo_null (range_left r) then Plus_Inf else range_left r),
     left_included = right_included r, right_included = left_included r\<rparr>"

text \<open>
  Two functions of one argument: halving and the difference from 100 (falling). Their codes are the
  type of functions; there is one data type.
\<close>

datatype demo_function = Halve | From_100

fun demo_apply :: "demo_function \<Rightarrow> unit \<Rightarrow> demo_field \<Rightarrow> demo_field result" where
  "demo_apply Halve ty (Num n) = Inr (Num (n div 2))"
| "demo_apply From_100 ty (Num n) = Inr (Num (100 - n))"
| "demo_apply f ty x = Inl BAD_ARGUMENTS"

definition demo_monotonicity :: "demo_function \<Rightarrow> unit \<Rightarrow> demo_field \<Rightarrow> demo_field \<Rightarrow> monotonicity" where
  "demo_monotonicity f ty l r =
     \<lparr>is_monotonic = True, is_positive = (f = Halve), is_always_monotonic = True, is_strict = False\<rparr>"

definition demo_env :: "(demo_field, unit, demo_function, nat list, unit, demo_field) key_env" where
  "demo_env = \<lparr>isNull = demo_null, isNaN = (\<lambda>x. x = Not_A_Number),
     as_UInt64 = (\<lambda>x. case x of Num n \<Rightarrow> Some n | _ \<Rightarrow> None), UInt64_field = Num,
     intersectsRange = demo_intersects, containsRange = demo_contains, invert_range = demo_invert,
     shrinkToIncludedIfPossible = id,
     getMonotonicityForRange = demo_monotonicity, applyFunction = demo_apply, getResultType = (\<lambda>_. ()),
     set_checkInRange = (\<lambda>s h tys sp. Inr (BoolMask (\<exists>n \<in> set s. in_bounds (h ! 0) (Num n)) True)),
     hilbert_rectangles = (\<lambda>lo hi. [((0, hi), (0, hi))]), morton_rectangles = (\<lambda>lo hi. [((0, hi), (0, hi))]),
     to_Float64 = (\<lambda>x. Inr (case x of Num n \<Rightarrow> Some (Num n) | _ \<Rightarrow> None)),
     minus_infinity = Minus_Inf, plus_infinity = Plus_Inf,
     polygon_bbox = (\<lambda>_. ((Num 0, Num 0), (Num 10, Num 10))), ring_intersects = (\<lambda>_ _. True)\<rparr>"

definition demo_inside :: "unit \<Rightarrow> demo_field \<times> demo_field \<Rightarrow> bool" where
  "demo_inside p = (\<lambda>(x, y). Num 0 \<le> x \<and> x \<le> Num 10 \<and> Num 0 \<le> y \<and> y \<le> Num 10)"

definition demo_range_ops :: "(demo_field, demo_field key_range) range_ops" where
  "demo_range_ops = \<lparr>
     point_range = (\<lambda>v. \<lparr>range_left = v, range_right = v, left_included = True, right_included = True\<rparr>),
     make_range = (\<lambda>l li r ri. \<lparr>range_left = l, range_right = r, left_included = li, right_included = ri\<rparr>),
     createLeftBounded = (\<lambda>v inc n. \<lparr>range_left = v, range_right = Plus_Inf, left_included = inc, right_included = n\<rparr>),
     createRightBounded = (\<lambda>v inc n. \<lparr>range_left = Minus_Inf, range_right = v, left_included = n, right_included = inc\<rparr>),
     wholeUniverse = \<lparr>range_left = Minus_Inf, range_right = Plus_Inf, left_included = True, right_included = True\<rparr>,
     wholeUniverseWithoutNull =
       \<lparr>range_left = Minus_Inf, range_right = Plus_Inf, left_included = False, right_included = False\<rparr>\<rparr>"

lemma demo_range_ops_ok: "range_ops_ok demo_range_ops in_bounds demo_null"
  unfolding range_ops_ok_def demo_range_ops_def demo_null_def
  by (auto simp: in_bounds_def)

lemma demo_ranges_ok: "ranges_ok demo_env in_bounds"
  unfolding ranges_ok_def
proof (intro conjI allI impI)
  fix a b :: "demo_field key_range" and x
  assume "in_bounds a x \<and> in_bounds b x"
  then show "intersectsRange demo_env a b"
    by (auto simp: demo_env_def demo_intersects_def in_bounds_def)
next
  fix a b :: "demo_field key_range" and x
  assume "containsRange demo_env a b \<and> in_bounds b x"
  then show "in_bounds a x"
    by (auto simp: demo_env_def demo_contains_def in_bounds_def)
next
  fix x y assume "isNaN demo_env x \<and> \<not> isNull demo_env y \<and> x \<le> y"
  then show "isNaN demo_env y" by (cases y) (auto simp: demo_env_def demo_null_def)
next
  fix x assume "isNull demo_env x"
  then show "(\<forall>y. \<not> isNull demo_env y \<longrightarrow> x < y) \<or> (\<forall>y. \<not> isNull demo_env y \<longrightarrow> y < x)"
    by (auto simp: demo_env_def demo_null_def)
next
  fix r :: "demo_field key_range" and y
  assume "\<not> isNull demo_env y"
  then show "in_bounds (invert_range demo_env r) y =
       ((isNull demo_env (range_right r) \<or> range_right r < y \<or> right_included r \<and> range_right r = y) \<and>
        (isNull demo_env (range_left r) \<or> y < range_left r \<or> left_included r \<and> y = range_left r))"
    by (auto simp: demo_env_def demo_null_def demo_invert_def in_bounds_def)
qed (simp_all add: demo_env_def demo_null_def)

lemma demo_functions_ok: "functions_ok demo_env"
  unfolding functions_ok_def
proof (intro allI impI)
  fix f and ty :: unit and l r x y x' y' :: demo_field
  assume a: "is_monotonic (getMonotonicityForRange demo_env f ty l r) \<and> \<not> isNull demo_env x \<and> \<not> isNull demo_env y
    \<and> x \<le> y \<and> (isNull demo_env l \<or> l \<le> x) \<and> (isNull demo_env r \<or> y \<le> r)
    \<and> applyFunction demo_env f ty x = Inr x' \<and> applyFunction demo_env f ty y = Inr y'"
  then show "\<not> isNull demo_env x' \<and> \<not> isNull demo_env y'
    \<and> (if is_positive (getMonotonicityForRange demo_env f ty l r) then x' \<le> y' else y' \<le> x')"
    by (cases f; cases x; cases y)
       (auto simp: demo_env_def demo_monotonicity_def demo_null_def div_le_mono)
qed

lemma demo_curves_ok: "curves_ok demo_env (+) (+)"
  unfolding curves_ok_def
  by (auto simp: demo_env_def demo_null_def split: demo_field.splits)

lemma demo_geometry_ok: "geometry_ok demo_env demo_inside"
  unfolding geometry_ok_def
  by (auto simp: demo_env_def demo_null_def demo_inside_def split: demo_field.splits)

lemma demo_setting:
  assumes "in_rectangle in_bounds h row" "\<forall>x \<in> set row. x \<noteq> Not_A_Number"
  shows "setting_ok demo_env in_bounds (+) (+) demo_inside False h row"
proof -
  have "isNaN demo_env (row ! i) \<longrightarrow> isNaN demo_env (range_right (h ! i))" if "i < length h" for i
    using assms that by (auto simp: demo_env_def in_rectangle_def)
  then show ?thesis
    using assms(1) demo_ranges_ok demo_functions_ok demo_curves_ok demo_geometry_ok
    by (simp add: setting_ok_def)
qed

section \<open>Masks of a hyperrectangle\<close>

text \<open>
  C5: Let the row lie in the hyperrectangle, a NaN of the row only in a range that ends in NaN, and let the
  functions, sets, curves and polygons outside the repository behave as documented. If
  \<open>checkInHyperrectangle\<close> answers a mask, the condition has a truth value on the row, and the
  mask covers it: a mask that cannot be true says that the value is false, unless an atom about a
  space-filling curve stands below an odd number of negations; a mask that cannot be false says that it is
  true, unless such an atom stands below an even number of them. This is the whole evaluation: monotonic
  functions on the key, relaxed elements, NaN bounds, Bloom filters, sets, nulls, polygons, curves and the
  connectives.
\<close>
theorem checkInHyperrectangle_sound:
  assumes "setting_ok env mem hilbert morton inside (single_point kc) h row"
    and "\<forall>e \<in> set (rpn kc). connective_ok e
      \<and> (kind_of e = Atom \<longrightarrow> atom_means env mem hilbert morton inside kc tys filters row e (tv e))"
    and "checkInHyperrectangle env kc h tys filters notify = Inr (m, calls)"
  shows "\<exists>b t f. truth_of kind_of tv (rpn kc) = Some b \<and> trust_of (rpn kc) = Some (t, f)
    \<and> (t \<and> b \<longrightarrow> can_be_true m) \<and> (f \<and> \<not> b \<longrightarrow> can_be_false m)"
  using checkInHyperrectangle_covers_trusted [OF assms] by (auto simp: covers_trusted_def)

text \<open>The condition \<open>halve(x) IN [2, 4] AND y != 5\<close> on two key columns.\<close>

definition demo_element :: "rpn_function \<Rightarrow> (demo_field, demo_function, nat list, unit) rpn_element" where
  "demo_element f = \<lparr>el_function = f, relaxed = False,
     el_range = \<lparr>range_left = Minus_Inf, range_right = Plus_Inf, left_included = True, right_included = True\<rparr>,
     el_key_columns = [], argument_num_of_space_filling_curve = None, set_index = None,
     space_filling_curve_args_hyperrectangle = [], polygon = None, monotonic_functions_chain = [], bloom_filter = None\<rparr>"

definition demo_interval :: "nat \<Rightarrow> nat \<Rightarrow> demo_field key_range" where
  "demo_interval a b = \<lparr>range_left = Num a, range_right = Num b, left_included = True, right_included = True\<rparr>"

definition demo_x :: "(demo_field, demo_function, nat list, unit) rpn_element" where
  "demo_x = (demo_element FUNCTION_IN_RANGE)\<lparr>el_range := demo_interval 2 4, el_key_columns := [0],
     monotonic_functions_chain := [Halve]\<rparr>"

definition demo_y :: "(demo_field, demo_function, nat list, unit) rpn_element" where
  "demo_y = (demo_element FUNCTION_NOT_IN_RANGE)\<lparr>el_range := demo_interval 5 5, el_key_columns := [1]\<rparr>"

definition demo_condition :: "(demo_field, demo_function, nat list, unit) key_condition" where
  "demo_condition = \<lparr>rpn = [demo_x, demo_y, demo_element FUNCTION_AND], has_filter = True,
     kc_key_columns = [(''x'', 0), (''y'', 1)], num_key_columns = 2, key_space_filling_curves = [],
     single_point = False, date_time_overflow_behavior_ignore = False, kc_relaxed = False\<rparr>"

lemma demo_element_sel [simp]:
  "el_function (demo_element f) = f" "relaxed (demo_element f) = False" "el_key_columns (demo_element f) = []"
  "argument_num_of_space_filling_curve (demo_element f) = None" "set_index (demo_element f) = None"
  "monotonic_functions_chain (demo_element f) = []" "bloom_filter (demo_element f) = None"
  by (simp_all add: demo_element_def)

lemma demo_condition_sel [simp]:
  "rpn demo_condition = [demo_x, demo_y, demo_element FUNCTION_AND]" "single_point demo_condition = False"
  "key_space_filling_curves demo_condition = []"
  by (simp_all add: demo_condition_def)

lemma demo_kinds [simp]: "kind_of demo_x = Atom" "kind_of demo_y = Atom" "kind_of (demo_element FUNCTION_AND) = Conjunction"
  by (simp_all add: kind_of_def demo_x_def demo_y_def)

text \<open>The truth values of the atoms on the row \<open>(x, y)\<close>.\<close>

definition demo_tv :: "nat \<Rightarrow> nat \<Rightarrow> (demo_field, demo_function, nat list, unit) rpn_element \<Rightarrow> bool" where
  "demo_tv x y e = (if el_function e = FUNCTION_IN_RANGE then 2 \<le> x div 2 \<and> x div 2 \<le> 4 else y \<noteq> 5)"

lemma demo_elements_ok [simp]: "connective_ok demo_x" "connective_ok demo_y" "connective_ok (demo_element FUNCTION_AND)"
  by (simp_all add: connective_ok_def demo_x_def demo_y_def)

lemma demo_trust: "trust_of (rpn demo_condition) = Some (True, True)"
  by (simp add: trust_of_def stack_step_simps about_curve_def both_def) (simp add: demo_x_def demo_y_def)

lemma demo_atoms [simp]:
  "demo_tv x y demo_x = (2 \<le> x div 2 \<and> x div 2 \<le> 4)" "demo_tv x y demo_y = (y \<noteq> 5)"
  by (simp_all add: demo_tv_def demo_x_def demo_y_def)

lemma in_bounds_interval [simp]: "in_bounds (demo_interval a b) (Num n) \<longleftrightarrow> a \<le> n \<and> n \<le> b"
  by (auto simp: in_bounds_def demo_interval_def)

lemma demo_env_sel [simp]:
  "isNull demo_env v = demo_null v" "isNaN demo_env v = (v = Not_A_Number)" "applyFunction demo_env = demo_apply"
  "\<not> demo_null (Num n)"
  by (simp_all add: demo_env_def demo_null_def)

lemma demo_means_x:
  "atom_means demo_env in_bounds (+) (+) demo_inside demo_condition tys filters [Num x, Num y] demo_x (demo_tv x y demo_x)"
proof -
  have "range_atom_means demo_env in_bounds tys filters [Num x, Num y] demo_x (demo_tv x y demo_x)"
    unfolding range_atom_means_def
    by (simp add: getKeyColumn_def) (simp add: demo_x_def bloom_allows_def)
  then show ?thesis by (simp add: atom_means_def demo_x_def)
qed

lemma demo_means_y:
  "atom_means demo_env in_bounds (+) (+) demo_inside demo_condition tys filters [Num x, Num y] demo_y (demo_tv x y demo_y)"
proof -
  have "range_atom_means demo_env in_bounds tys filters [Num x, Num y] demo_y (\<not> demo_tv x y demo_y)"
    unfolding range_atom_means_def
    by (simp add: getKeyColumn_def) (simp add: demo_y_def bloom_allows_def; auto)
  then show ?thesis by (simp add: atom_means_def demo_y_def)
qed

lemma demo_means:
  "\<forall>e \<in> set (rpn demo_condition). connective_ok e
     \<and> (kind_of e = Atom \<longrightarrow> atom_means demo_env in_bounds (+) (+) demo_inside demo_condition tys filters
          [Num x, Num y] e (demo_tv x y e))"
  using demo_means_x demo_means_y by simp

lemma demo_truth:
  "truth_of kind_of (demo_tv x y) (rpn demo_condition) = Some (2 \<le> x div 2 \<and> x div 2 \<le> 4 \<and> y \<noteq> 5)"
  by (auto simp: truth_of_def truth_machine_def stack_step_simps demo_tv_def demo_x_def demo_y_def kind_of_def
      stack_step.simps)

lemma demo_check:
  "checkInHyperrectangle demo_env demo_condition [demo_interval 2 9, demo_interval 6 8] [(), ()] (\<lambda>_. None) True
     = Inr (BoolMask True True, [(0, True, False), (1, True, False), (2, True, False)])"
proof -
  have "check_atom demo_env demo_condition [demo_interval 2 9, demo_interval 6 8] [(), ()] (\<lambda>_. None) demo_x
      = Inr (BoolMask True True, True)"
    by (simp add: check_atom_def demo_x_def check_range_atom_def getKeyColumn_def Let_def demo_interval_def
        demo_env_def demo_monotonicity_def demo_null_def range_atom_mask_def demo_intersects_def demo_contains_def
        when_relaxed_def element_at_def)
  moreover have "check_atom demo_env demo_condition [demo_interval 2 9, demo_interval 6 8] [(), ()] (\<lambda>_. None) demo_y
      = Inr (BoolMask True False, True)"
    by (simp add: check_atom_def demo_y_def check_range_atom_def getKeyColumn_def Let_def demo_interval_def
        demo_env_def demo_monotonicity_def demo_null_def range_atom_mask_def demo_intersects_def demo_contains_def
        when_relaxed_def with_bloom_filter_def mask_not_def)
  moreover have "\<not> is_connective demo_x" "\<not> is_connective demo_y" "is_connective (demo_element FUNCTION_AND)"
    by (simp_all add: is_connective_def demo_x_def demo_y_def)
  moreover have "el_function demo_x \<noteq> FUNCTION_UNKNOWN" "el_function demo_y \<noteq> FUNCTION_UNKNOWN"
    by (simp_all add: demo_x_def demo_y_def)
  ultimately show ?thesis
    by (simp add: checkInHyperrectangle_def mask_and_def)
qed

theorem checkInHyperrectangle_sound_witness:
  "checkInHyperrectangle demo_env demo_condition [demo_interval 2 9, demo_interval 6 8] [(), ()] (\<lambda>_. None) True
     = Inr (BoolMask True True, [(0, True, False), (1, True, False), (2, True, False)])
   \<and> (\<exists>b t f. truth_of kind_of (demo_tv 3 7) (rpn demo_condition) = Some b \<and> trust_of (rpn demo_condition) = Some (t, f)
        \<and> (t \<and> b \<longrightarrow> can_be_true (BoolMask True True)) \<and> (f \<and> \<not> b \<longrightarrow> can_be_false (BoolMask True True)))"
proof -
  have rect: "in_rectangle in_bounds [demo_interval 2 9, demo_interval 6 8] [Num 3, Num 7]"
    by (simp add: in_rectangle_def less_Suc_eq nth_Cons')
  have "setting_ok demo_env in_bounds (+) (+) demo_inside (single_point demo_condition)
      [demo_interval 2 9, demo_interval 6 8] [Num 3, Num 7]"
    using demo_setting [OF rect] by simp
  from checkInHyperrectangle_sound [OF this demo_means demo_check] demo_check show ?thesis by blast
qed

section \<open>Intervals of keys\<close>

text \<open>A call that answers has asked the callback at least once.\<close>

lemma forAny_asks:
  assumes "forAnyHyperrectangle ops n l r lb rb h nullable p im callback = Inr (m, h')"
  shows "\<exists>h m. callback h = Inr m"
proof (cases "lb \<or> rb")
  case True
  obtain q h1 where "matched ops n l r lb rb p h = (q, h1)" by fastforce
  then show ?thesis by (cases rule: forAny_cases [OF assms True]) blast+
next
  case False
  then have "bind_r (callback h) (\<lambda>m. Inr (m, h)) = Inr (m, h')"
    using assms by (subst (asm) forAnyHyperrectangle.simps) simp
  then show ?thesis by (auto simp: bind_r_Inr_iff)
qed

lemma check_callback_InrD:
  "check_callback env kc tys h = Inr m \<Longrightarrow> \<exists>calls. checkInHyperrectangle env kc h tys (\<lambda>_. None) False = Inr (m, calls)"
  by (auto simp: check_callback_def bind_r_Inr_iff)

lemma check_callback_truth:
  assumes "check_callback env kc tys h = Inr m" "\<forall>e \<in> set (rpn kc). connective_ok e"
  shows "\<exists>b. truth_of kind_of tv (rpn kc) = Some b"
proof -
  obtain calls where "checkInHyperrectangle env kc h tys (\<lambda>_. None) False = Inr (m, calls)"
    using check_callback_InrD [OF assms(1)] by blast
  note machine = check_elements_machine [OF checkInHyperrectangle_InrD [OF this] assms(2)]
  from stack_machine_shape [OF machine, of "[]" "()" tv Not "(\<and>)" "(\<or>)"] show ?thesis
    by (auto simp: truth_of_def truth_machine_def length_Suc_conv)
qed

lemma checkInRange_covers_trusted:
  fixes l r row :: "'f::linorder list"
  assumes env: "ranges_ok env mem" "functions_ok env" "curves_ok env hilbert morton" "geometry_ok env inside"
    and ops: "range_ops_ok ops mem (isNull env)" and len: "length l = n" "length r = n" "length nullable = n"
    and kc: "\<not> single_point kc"
    and means: "\<forall>e \<in> set (rpn kc). connective_ok e
      \<and> (kind_of e = Atom \<longrightarrow> atom_means env mem hilbert morton inside kc tys (\<lambda>_. None) row e (tv e))"
    and row: "key_tuple (isNull env) nullable row" "l \<le> row" "row \<le> r" "\<forall>x \<in> set row. \<not> isNaN env x"
    and run: "checkInRange ops n l r nullable im (check_callback env kc tys) = Inr m"
  shows "\<exists>b p. truth_of kind_of tv (rpn kc) = Some b \<and> trust_of (rpn kc) = Some p \<and> covers_trusted p m b"
proof -
  obtain h' where h': "forAnyHyperrectangle ops n l r True True (map (\<lambda>i. universe_for ops (nullable ! i)) [0 ..< n])
      nullable 0 im (check_callback env kc tys) = Inr (m, h')"
    by (rule checkInRange_InrE [OF run])
  have rown: "length row = n" using row(1) len(3) by (simp add: key_tuple_def)
  obtain h0 m0 where h0: "check_callback env kc tys h0 = Inr m0" using forAny_asks [OF h'] by blast
  then obtain b where b: "truth_of kind_of tv (rpn kc) = Some b"
    using check_callback_truth means by blast
  have "\<exists>p. trust_of (rpn kc) = Some p"
  proof -
    obtain calls where "checkInHyperrectangle env kc h0 tys (\<lambda>_. None) False = Inr (m0, calls)"
      using check_callback_InrD [OF h0] by blast
    note machine = check_elements_machine [OF checkInHyperrectangle_InrD [OF this]]
    from stack_machine_shape [OF machine, of "[]" "()" "\<lambda>e. (True, \<not> about_curve e)" prod.swap both both] means show ?thesis
      by (auto simp: trust_of_def length_Suc_conv)
  qed
  then obtain p where p: "trust_of (rpn kc) = Some p" by blast
  have cb: "covers_trusted p m b"
    if c: "check_callback env kc tys h = Inr m" and "in_rectangle mem h row" for h m
  proof -
    obtain calls where calls: "checkInHyperrectangle env kc h tys (\<lambda>_. None) False = Inr (m, calls)"
      using check_callback_InrD [OF c] by blast
    have "setting_ok env mem hilbert morton inside (single_point kc) h row"
      using env kc that(2) row(4) by (simp add: setting_ok_def in_rectangle_def)
    from checkInHyperrectangle_covers_trusted [OF this means calls] b p show ?thesis by simp
  qed
  note sound = forAny_sound [OF ops row(1) rown len(1,2) _ h']
  have "covers_value m b" if "if b then fst p else snd p"
    by (rule sound) (use cb that row(2,3) in \<open>auto simp: covers_trusted_def covers_value_def within_def\<close>)
  then have "covers_trusted p m b" by (auto simp: covers_trusted_def covers_value_def split: if_splits)
  then show ?thesis using b p by blast
qed

lemma checkInRange_covers_row:
  fixes l r row :: "'f::linorder list"
  assumes env: "ranges_ok env mem" "functions_ok env" "curves_ok env hilbert morton" "geometry_ok env inside"
    and ops: "range_ops_ok ops mem (isNull env)" and len: "length l = n" "length r = n" "length nullable = n"
    and kc: "\<not> single_point kc"
    and means: "\<forall>e \<in> set (rpn kc). connective_ok e
      \<and> (kind_of e = Atom \<longrightarrow> atom_means env mem hilbert morton inside kc tys (\<lambda>_. None) row e (tv e))"
    and row: "key_tuple (isNull env) nullable row" "l \<le> row" "row \<le> r" "\<forall>x \<in> set row. \<not> isNaN env x"
    and run: "checkInRange ops n l r nullable im (check_callback env kc tys) = Inr m"
    and trust: "trusted exact (rpn kc)"
  shows "\<exists>b. truth_of kind_of tv (rpn kc) = Some b \<and> covers_dir exact m b"
  using checkInRange_covers_trusted [OF assms(1-14) run] trust
  by (auto simp: covers_trusted_def covers_dir_def trusted_def)

text \<open>
  C4: Granules are pruned safely. Let the bounds of an interval and a tuple in it be given, without NaN in
  the tuple, and a condition that is not built for single points. When \<open>mayBeTrueInRange\<close> says
  no, the condition is false on the tuple, unless an atom about a space-filling curve stands below an odd
  number of negations; and when \<open>checkInRange\<close> says that the condition cannot be false, it is
  true on the tuple, unless such an atom stands below an even number of them. Together with the
  decomposition into hyperrectangles this is the contract of the primary key index. The behaviour of fields,
  functions, curves and polygons outside the repository is assumed as documented.
\<close>
theorem mayBeTrueInRange_prunes_safely:
  fixes l r row :: "'f::linorder list"
  assumes "ranges_ok env mem" "functions_ok env" "curves_ok env hilbert morton" "geometry_ok env inside"
    and "range_ops_ok ops mem (isNull env)" "length l = n" "length r = n" "length nullable = n"
    and "\<not> single_point kc"
    and "\<forall>e \<in> set (rpn kc). connective_ok e
      \<and> (kind_of e = Atom \<longrightarrow> atom_means env mem hilbert morton inside kc tys (\<lambda>_. None) row e (tv e))"
    and "key_tuple (isNull env) nullable row" "l \<le> row" "row \<le> r" "\<forall>x \<in> set row. \<not> isNaN env x"
    and "trust_of (rpn kc) = Some (t, f)"
  shows "(t \<and> mayBeTrueInRange ops n l r nullable (check_callback env kc tys) = Inr False
            \<longrightarrow> truth_of kind_of tv (rpn kc) = Some False)
    \<and> (\<forall>im m. f \<and> checkInRange ops n l r nullable im (check_callback env kc tys) = Inr m \<and> \<not> can_be_false m
            \<longrightarrow> truth_of kind_of tv (rpn kc) = Some True)"
proof (intro conjI impI allI)
  assume a: "t \<and> mayBeTrueInRange ops n l r nullable (check_callback env kc tys) = Inr False"
  then obtain m where "checkInRange ops n l r nullable consider_only_can_be_true (check_callback env kc tys) = Inr m"
    "\<not> can_be_true m"
    by (auto simp: mayBeTrueInRange_def bind_r_Inr_iff)
  from checkInRange_covers_trusted [OF assms(1-14) this(1)] this(2) a assms(15)
  show "truth_of kind_of tv (rpn kc) = Some False" by (auto simp: covers_trusted_def)
next
  fix im m
  assume a: "f \<and> checkInRange ops n l r nullable im (check_callback env kc tys) = Inr m \<and> \<not> can_be_false m"
  then have run: "checkInRange ops n l r nullable im (check_callback env kc tys) = Inr m" by blast
  from checkInRange_covers_trusted [OF assms(1-14) run] a assms(15)
  show "truth_of kind_of tv (rpn kc) = Some True" by (auto simp: covers_trusted_def)
qed

text \<open>
  Between the marks \<open>(1, 7)\<close> and \<open>(3, 9)\<close> halving \<open>x\<close> gives at most
  1, so the interval is skipped.
\<close>

lemma demo_callback:
  assumes "b div 2 < 2" "a \<le> b"
  shows "check_callback demo_env demo_condition [(), ()]
     [\<lparr>range_left = Num a, range_right = Num b, left_included = li, right_included = ri\<rparr>, ry] = Inr (BoolMask False True)"
proof -
  let ?h = "[\<lparr>range_left = Num a, range_right = Num b, left_included = li, right_included = ri\<rparr>, ry]"
  have "a div 2 < 2" using assms div_le_mono [of a b 2] by simp
  then have "check_atom demo_env demo_condition ?h [(), ()] (\<lambda>_. None) demo_x = Inr (BoolMask False True, True)"
    using assms(1)
    by (simp add: check_atom_def demo_x_def check_range_atom_def getKeyColumn_def Let_def demo_interval_def
        demo_env_def demo_monotonicity_def demo_null_def range_atom_mask_def demo_intersects_def demo_contains_def
        when_relaxed_def element_at_def)
  moreover have "\<exists>my. check_atom demo_env demo_condition ?h [(), ()] (\<lambda>_. None) demo_y = Inr (my, True)"
    by (simp add: check_atom_def demo_y_def check_range_atom_def getKeyColumn_def)
  moreover have "\<not> is_connective demo_x" "\<not> is_connective demo_y" "is_connective (demo_element FUNCTION_AND)"
    by (simp_all add: is_connective_def demo_x_def demo_y_def)
  ultimately show ?thesis
    by (auto simp: check_callback_def checkInHyperrectangle_def mask_and_def)
qed

lemma demo_prune:
  "mayBeTrueInRange demo_range_ops 2 [Num 1, Num 7] [Num 3, Num 9] [False, False]
     (check_callback demo_env demo_condition [(), ()]) = Inr False"
  by (simp add: mayBeTrueInRange_def checkInRange_def forAnyHyperrectangle.simps match_prefix.simps Let_def
      bounded_range_def unbounded_after_def universe_for_def demo_range_ops_def demo_callback
      consider_only_can_be_true_def combine_masks_def isComplete_def upt_rec)

theorem mayBeTrueInRange_prunes_safely_witness:
  "mayBeTrueInRange demo_range_ops 2 [Num 1, Num 7] [Num 3, Num 9] [False, False]
     (check_callback demo_env demo_condition [(), ()]) = Inr False
   \<and> [Num 1, Num 7] \<le> [Num 2, Num 4] \<and> [Num 2, Num 4] \<le> [Num 3, Num 9]
   \<and> truth_of kind_of (demo_tv 2 4) (rpn demo_condition) = Some False"
proof -
  have row: "key_tuple (isNull demo_env) [False, False] [Num 2, Num 4]"
    "[Num 1, Num 7] \<le> [Num 2, Num 4]" "[Num 2, Num 4] \<le> [Num 3, Num 9]" "\<forall>x \<in> set [Num 2, Num 4]. \<not> isNaN demo_env x"
    by (simp_all add: key_tuple_def less_Suc_eq nth_Cons')
  have ops: "range_ops_ok demo_range_ops in_bounds (isNull demo_env)"
    using demo_range_ops_ok by (simp add: demo_env_def)
  from mayBeTrueInRange_prunes_safely [OF demo_ranges_ok demo_functions_ok demo_curves_ok demo_geometry_ok ops _ _ _ _
      demo_means row demo_trust, where n = 2 and tys = "[(), ()]"] demo_prune row(2,3)
  show ?thesis by simp
qed

end
