(* ===== verification/Key_Condition_Reports.thy ===== *)
theory Key_Condition_Reports
  imports Key_Condition_Results
begin

text \<open>
  The reports of partial results that \<open>checkInHyperrectangle\<close> makes for conditions with OR, the
  data for Bloom filters, and the mask of a space-filling curve.
\<close>

section \<open>Positions of the partial results\<close>

text \<open>Whether the loop body is run to its end for an element.\<close>

definition reaches_report ::
  "('f, 'ty, 'fn, 's, 'p, 'x::linorder) key_env \<Rightarrow> ('f, 'fn, 's, 'p) key_condition \<Rightarrow> 'f key_range list \<Rightarrow> 'ty list
     \<Rightarrow> column_filters \<Rightarrow> ('f, 'fn, 's, 'p) rpn_element \<Rightarrow> bool" where
  "reaches_report env kc h tys filters e \<longleftrightarrow>
     is_connective e \<or> (case check_atom env kc h tys filters e of Inr (m, reached) \<Rightarrow> reached | Inl _ \<Rightarrow> False)"

lemma check_elements_Cons:
  assumes "check_elements env kc h tys filters notify (e # es) stack i calls = Inr (stack', calls')"
  obtains s where
    "(if is_connective e
        then bind_r (apply_connective (el_function e) stack) (\<lambda>stack. Inr (stack, True))
        else bind_r (check_atom env kc h tys filters e) (\<lambda>(m, reached). Inr (m # stack, reached)))
      = Inr (s, reaches_report env kc h tys filters e)"
    "check_elements env kc h tys filters notify es s
       (if notify \<and> reaches_report env kc h tys filters e then i + 1 else i)
       (if notify \<and> reaches_report env kc h tys filters e
        then calls @ [(i, can_be_true (hd s), el_function e = FUNCTION_UNKNOWN)] else calls) = Inr (stack', calls')"
proof -
  from assms obtain s reached where s:
    "(if is_connective e
        then bind_r (apply_connective (el_function e) stack) (\<lambda>stack. Inr (stack, True))
        else bind_r (check_atom env kc h tys filters e) (\<lambda>(m, reached). Inr (m # stack, reached))) = Inr (s, reached)"
    "(if notify \<and> reached
          then check_elements env kc h tys filters notify es s (i + 1)
                 (calls @ [(i, can_be_true (hd s), el_function e = FUNCTION_UNKNOWN)])
          else check_elements env kc h tys filters notify es s i calls) = Inr (stack', calls')"
    by (auto simp: bind_r_Inr_iff)
  have "reached = reaches_report env kc h tys filters e"
    using s(1) by (auto simp: reaches_report_def bind_r_Inr_iff split: if_splits)
  then show thesis using that s by (auto split: if_splits)
qed

lemma reports_positions:
  "check_elements env kc h tys filters True es stack i calls = Inr (stack', calls')
    \<Longrightarrow> \<exists>new. calls' = calls @ new \<and> map fst new = [i ..< i + length new]
        \<and> map (\<lambda>(p, r, u). u) new
            = map (\<lambda>e. el_function e = FUNCTION_UNKNOWN) (filter (reaches_report env kc h tys filters) es)"
proof (induction es arbitrary: stack i calls)
  case (Cons e es)
  obtain s where step: "check_elements env kc h tys filters True es s
       (if True \<and> reaches_report env kc h tys filters e then i + 1 else i)
       (if True \<and> reaches_report env kc h tys filters e
        then calls @ [(i, can_be_true (hd s), el_function e = FUNCTION_UNKNOWN)] else calls) = Inr (stack', calls')"
    by (rule check_elements_Cons [OF Cons.prems])
  from Cons.IH [OF step] show ?case
    by (auto simp: upt_conv_Cons simp del: upt_Suc split: if_splits)
qed simp

text \<open>Where no element is skipped, the report at a position is the mask of the program up to there.\<close>

lemma reports_masks:
  "check_elements env kc h tys filters True es stack i calls = Inr (stack', calls')
    \<Longrightarrow> \<forall>e \<in> set es. connective_ok e \<and> reaches_report env kc h tys filters e
    \<Longrightarrow> \<exists>new. calls' = calls @ new \<and> length new = length es
        \<and> (\<forall>k < length es. \<exists>s. stack_machine UB kind_of (atom_value env kc h tys filters) mask_not mask_and mask_or
                               (take (Suc k) es) stack = Inr s
              \<and> new ! k = (i + k, can_be_true (hd s), el_function (es ! k) = FUNCTION_UNKNOWN))"
proof (induction es arbitrary: stack i calls)
  case (Cons e es)
  have r: "reaches_report env kc h tys filters e" "connective_ok e" using Cons.prems(2) by simp_all
  obtain s where step:
    "(if is_connective e
        then bind_r (apply_connective (el_function e) stack) (\<lambda>stack. Inr (stack, True))
        else bind_r (check_atom env kc h tys filters e) (\<lambda>(m, reached). Inr (m # stack, reached)))
      = Inr (s, reaches_report env kc h tys filters e)"
    "check_elements env kc h tys filters True es s
       (if True \<and> reaches_report env kc h tys filters e then i + 1 else i)
       (if True \<and> reaches_report env kc h tys filters e
        then calls @ [(i, can_be_true (hd s), el_function e = FUNCTION_UNKNOWN)] else calls) = Inr (stack', calls')"
    by (rule check_elements_Cons [OF Cons.prems(1)])
  have one: "stack_step UB kind_of (atom_value env kc h tys filters) mask_not mask_and mask_or e stack = Inr s"
  proof (cases "is_connective e")
    case True
    then show ?thesis using step(1) by (auto simp: bind_r_Inr_iff intro: apply_connective_step)
  next
    case False
    then have "kind_of e = Atom" using is_connective_iff r(2) by metis
    then show ?thesis using step(1) False by (auto simp: stack_step_simps atom_value_def bind_r_Inr_iff)
  qed
  from Cons.IH [OF step(2)] Cons.prems(2) r(1) obtain new where new:
    "calls' = calls @ (i, can_be_true (hd s), el_function e = FUNCTION_UNKNOWN) # new" "length new = length es"
    "\<forall>k < length es. \<exists>s'. stack_machine UB kind_of (atom_value env kc h tys filters) mask_not mask_and mask_or
                               (take (Suc k) es) s = Inr s'
              \<and> new ! k = (i + 1 + k, can_be_true (hd s'), el_function (es ! k) = FUNCTION_UNKNOWN)"
    by auto
  let ?new = "(i, can_be_true (hd s), el_function e = FUNCTION_UNKNOWN) # new"
  have "\<exists>s'. stack_machine UB kind_of (atom_value env kc h tys filters) mask_not mask_and mask_or
                               (take (Suc k) (e # es)) stack = Inr s'
              \<and> ?new ! k = (i + k, can_be_true (hd s'), el_function ((e # es) ! k) = FUNCTION_UNKNOWN)"
    if "k < length (e # es)" for k
    using that new(3) one by (cases k) auto
  then show ?case using new(1,2) by (intro exI [of _ ?new]) simp
qed simp

text \<open>
  The partial results are reported at consecutive positions, one for each element whose loop body runs to
  its end. Where that is every element, the report at position \<open>k\<close> belongs to element
  \<open>k\<close> of the condition and holds the mask of the part of the condition that ends there. Where
  an early \<open>continue\<close> skips an element (a function that is not monotonic on the range, a
  polygon that does not meet the box), there are fewer reports than elements, so all later ones carry a
  position that belongs to an earlier element.
\<close>
theorem partial_results_positions:
  assumes "checkInHyperrectangle env kc h tys filters True = Inr (m, calls)"
    and "\<forall>e \<in> set (rpn kc). connective_ok e"
  shows "map fst calls = [0 ..< length calls]
    \<and> map (\<lambda>(p, r, u). u) calls
        = map (\<lambda>e. el_function e = FUNCTION_UNKNOWN) (filter (reaches_report env kc h tys filters) (rpn kc))
    \<and> ((\<forall>e \<in> set (rpn kc). reaches_report env kc h tys filters e)
        \<longrightarrow> length calls = length (rpn kc)
          \<and> (\<forall>k < length calls. \<exists>s. stack_machine UB kind_of (atom_value env kc h tys filters) mask_not mask_and mask_or
                 (take (Suc k) (rpn kc)) [] = Inr s \<and> fst (snd (calls ! k)) = can_be_true (hd s)))
    \<and> ((\<exists>e \<in> set (rpn kc). \<not> reaches_report env kc h tys filters e) \<longrightarrow> length calls < length (rpn kc))"
proof -
  note run = checkInHyperrectangle_InrD [OF assms(1)]
  from reports_positions [OF run] have pos: "map fst calls = [0 ..< length calls]"
    "map (\<lambda>(p, r, u). u) calls
        = map (\<lambda>e. el_function e = FUNCTION_UNKNOWN) (filter (reaches_report env kc h tys filters) (rpn kc))"
    by auto
  from arg_cong [OF pos(2), of length] have "length calls = length (filter (reaches_report env kc h tys filters) (rpn kc))"
    by simp
  then have "length calls < length (rpn kc)" if "\<exists>e \<in> set (rpn kc). \<not> reaches_report env kc h tys filters e"
    using that by (auto simp: length_filter_less)
  moreover have "length calls = length (rpn kc)
          \<and> (\<forall>k < length calls. \<exists>s. stack_machine UB kind_of (atom_value env kc h tys filters) mask_not mask_and mask_or
                 (take (Suc k) (rpn kc)) [] = Inr s \<and> fst (snd (calls ! k)) = can_be_true (hd s))"
    if "\<forall>e \<in> set (rpn kc). reaches_report env kc h tys filters e"
    using reports_masks [OF run] assms(2) that by fastforce
  ultimately show ?thesis using pos by blast
qed

text \<open>
  A polygon that does not meet the box, then \<open>y != 5\<close>, then OR: the mask of \<open>y !=
  5\<close> is reported at position 0 and that of the OR at position 1, which is where \<open>y != 5\<close>
  stands.
\<close>

definition demo_polygon :: "(demo_field, demo_function, nat list, unit) rpn_element" where
  "demo_polygon = (demo_element FUNCTION_POINT_IN_POLYGON)\<lparr>el_key_columns := [0, 1], polygon := Some ()\<rparr>"

definition demo_or_condition :: "(demo_field, demo_function, nat list, unit) key_condition" where
  "demo_or_condition = demo_condition\<lparr>rpn := [demo_polygon, demo_y, demo_element FUNCTION_OR]\<rparr>"

lemma demo_or_check:
  "checkInHyperrectangle demo_env demo_or_condition [demo_interval 11 12, demo_interval 6 8] [(), ()] (\<lambda>_. None) True
     = Inr (BoolMask True False, [(0, True, False), (1, True, False)])"
  "\<not> reaches_report demo_env demo_or_condition [demo_interval 11 12, demo_interval 6 8] [(), ()] (\<lambda>_. None) demo_polygon"
proof -
  have p: "check_atom demo_env demo_or_condition [demo_interval 11 12, demo_interval 6 8] [(), ()] (\<lambda>_. None) demo_polygon
      = Inr (BoolMask False True, False)"
    by (simp add: check_atom_def demo_polygon_def check_polygon_atom_def convert_to_float64_def box_mask_def Let_def
        demo_interval_def demo_env_def demo_null_def element_at_def)
  moreover have "check_atom demo_env demo_or_condition [demo_interval 11 12, demo_interval 6 8] [(), ()] (\<lambda>_. None) demo_y
      = Inr (BoolMask True False, True)"
    by (simp add: check_atom_def demo_y_def check_range_atom_def getKeyColumn_def Let_def demo_interval_def
        demo_env_def demo_monotonicity_def demo_null_def range_atom_mask_def demo_intersects_def demo_contains_def
        when_relaxed_def with_bloom_filter_def mask_not_def)
  moreover have c: "\<not> is_connective demo_polygon" "\<not> is_connective demo_y" "is_connective (demo_element FUNCTION_OR)"
    by (simp_all add: is_connective_def demo_polygon_def demo_y_def)
  moreover have "el_function demo_y \<noteq> FUNCTION_UNKNOWN" by (simp add: demo_y_def)
  moreover have "rpn demo_or_condition = [demo_polygon, demo_y, demo_element FUNCTION_OR]"
    by (simp add: demo_or_condition_def)
  ultimately show "checkInHyperrectangle demo_env demo_or_condition [demo_interval 11 12, demo_interval 6 8] [(), ()] (\<lambda>_. None) True
     = Inr (BoolMask True False, [(0, True, False), (1, True, False)])"
    by (simp add: checkInHyperrectangle_def mask_or_def)
  show "\<not> reaches_report demo_env demo_or_condition [demo_interval 11 12, demo_interval 6 8] [(), ()] (\<lambda>_. None) demo_polygon"
    using p c(1) by (simp add: reaches_report_def)
qed

theorem partial_results_positions_witness:
  "checkInHyperrectangle demo_env demo_or_condition [demo_interval 11 12, demo_interval 6 8] [(), ()] (\<lambda>_. None) True
     = Inr (BoolMask True False, [(0, True, False), (1, True, False)])
   \<and> length [(0, True, False), (1, True, False)] < length (rpn demo_or_condition)"
proof -
  have "\<forall>e \<in> set (rpn demo_or_condition). connective_ok e"
    by (simp add: demo_or_condition_def) (simp add: connective_ok_def demo_polygon_def)
  from partial_results_positions [OF demo_or_check(1) this] demo_or_check
  show ?thesis by (auto simp: demo_or_condition_def)
qed

section \<open>Bloom filter data\<close>

text \<open>
  A filter of a column answers yes when one of the hashes is the hash of the value of the row in that
  column; and a row that satisfies an atom with a set agrees with one element of the set in every
  column that the set compares directly.
\<close>

definition filters_hold :: "(nat \<Rightarrow> 'f \<Rightarrow> nat option) \<Rightarrow> column_filters \<Rightarrow> 'f list \<Rightarrow> bool" where
  "filters_hold hash_one filters row \<longleftrightarrow>
     (\<forall>c f v hashes. filters c = Some f \<and> hash_one c (row ! c) = Some v \<and> v \<in> set hashes \<longrightarrow> f hashes)"

definition set_hashes_hold ::
  "(nat \<Rightarrow> 'f \<Rightarrow> nat option) \<Rightarrow> (nat \<Rightarrow> 'c \<Rightarrow> nat list option) \<Rightarrow> ('f, 'c, 'fn) set_columns \<Rightarrow> 'f list \<Rightarrow> bool" where
  "set_hashes_hold hash_one hash_many cols row \<longleftrightarrow>
     (\<forall>(col, c, functions) \<in> set (zip (ordered_set cols) (indexes_mapping cols)). \<forall>hashes.
        functions = [] \<and> hash_many c col = Some hashes
        \<longrightarrow> (\<exists>v \<in> set hashes. hash_one c (row ! c) = Some v))"

lemma hashes_of_columns_allow:
  "hashes_of_columns hash_many cols mapping = Inr hs
    \<Longrightarrow> \<forall>(col, c, functions) \<in> set (zip cols mapping). \<forall>hashes.
        functions = [] \<and> hash_many c col = Some hashes \<longrightarrow> (\<exists>v \<in> set hashes. hash_one c (row ! c) = Some v)
    \<Longrightarrow> filters_hold hash_one filters row
    \<Longrightarrow> list_all (\<lambda>(hashes, column). case filters column of None \<Rightarrow> True | Some findAnyHash \<Rightarrow> findAnyHash hashes) hs"
proof (induction hash_many cols mapping arbitrary: hs rule: hashes_of_columns.induct)
  case (3 hash_many c cs key_index fns mapping)
  from "3.prems"(1) obtain rest where rest: "hashes_of_columns hash_many cs mapping = Inr rest"
    "hs = rest \<or> (\<exists>hashes. fns = [] \<and> hash_many key_index c = Some hashes \<and> hs = (hashes, key_index) # rest)"
    by (auto simp: bind_r_Inr_iff split: if_splits option.splits)
  have "list_all (\<lambda>(hashes, column). case filters column of None \<Rightarrow> True | Some findAnyHash \<Rightarrow> findAnyHash hashes) rest"
    using "3.IH" [OF rest(1) _ "3.prems"(3)] "3.prems"(2) by auto
  moreover have "case filters key_index of None \<Rightarrow> True | Some findAnyHash \<Rightarrow> findAnyHash hashes"
    if "fns = []" "hash_many key_index c = Some hashes" for hashes
  proof -
    from "3.prems"(2) that obtain v where "v \<in> set hashes" "hash_one key_index (row ! key_index) = Some v" by auto
    then show ?thesis using "3.prems"(3) by (auto simp: filters_hold_def split: option.splits)
  qed
  ultimately show ?case using rest(2) by auto
qed simp_all

lemma zip_fst_snd: "zip (map fst xs) (map snd xs) = xs"
  by (induction xs) auto

lemma prepare_element_cases:
  assumes "prepare_element hash_one hash_many columns_of e = Inr e'"
  obtains (same) "e' = e"
  | (range) c v where "el_function e = FUNCTION_IN_RANGE \<or> el_function e = FUNCTION_NOT_IN_RANGE"
      "monotonic_functions_chain e = []" "getKeyColumn e = Inr c"
      "range_left (el_range e) = range_right (el_range e)" "hash_one c (range_left (el_range e)) = Some v"
      "e' = e\<lparr>bloom_filter := Some \<lparr>hashes_per_column = [[v]], bf_key_columns = [c]\<rparr>\<rparr>"
  | (sets) s hs where "el_function e = FUNCTION_IN_SET \<or> el_function e = FUNCTION_NOT_IN_SET" "set_index e = Some s"
      "hashes_of_columns hash_many (ordered_set (columns_of s)) (indexes_mapping (columns_of s)) = Inr hs"
      "e' = e\<lparr>bloom_filter := Some \<lparr>hashes_per_column = map fst hs, bf_key_columns = map snd hs\<rparr>\<rparr>"
proof (cases "monotonic_functions_chain e = []")
  case False
  then have "e' = e" using assms by (simp add: prepare_element_def)
  then show thesis by (rule same)
next
  case chain: True
  note run = assms [unfolded prepare_element_def, simplified chain, simplified]
  show thesis
  proof (cases "el_function e = FUNCTION_IN_RANGE \<or> el_function e = FUNCTION_NOT_IN_RANGE")
    case True
    show thesis
    proof (cases "range_left (el_range e) = range_right (el_range e)")
      case eq: True
      obtain c where c: "getKeyColumn e = Inr c" using run True eq by (cases "getKeyColumn e") auto
      show thesis
      proof (cases "hash_one c (range_left (el_range e))")
        case None
        then have "e' = e" using run True eq c by simp
        then show thesis by (rule same)
      next
        case (Some v)
        then have "e' = e\<lparr>bloom_filter := Some \<lparr>hashes_per_column = [[v]], bf_key_columns = [c]\<rparr>\<rparr>"
          using run True eq c by simp
        then show thesis using range [OF True chain c eq Some] by blast
      qed
    next
      case False
      then have "e' = e" using run True by simp
      then show thesis by (rule same)
    qed
  next
    case nr: False
    show thesis
    proof (cases "el_function e = FUNCTION_IN_SET \<or> el_function e = FUNCTION_NOT_IN_SET")
      case True
      obtain s where s: "set_index e = Some s" using run nr True by (cases "set_index e") auto
      obtain hs where hs: "hashes_of_columns hash_many (ordered_set (columns_of s)) (indexes_mapping (columns_of s)) = Inr hs"
        "(if hs = [] then Inr e
          else Inr (e\<lparr>bloom_filter := Some \<lparr>hashes_per_column = map fst hs, bf_key_columns = map snd hs\<rparr>\<rparr>)) = (Inr e' :: error + _)"
        using run nr True s by (auto simp: bind_r_Inr_iff)
      show thesis
      proof (cases "hs = []")
        case True
        then have "e' = e" using hs(2) by simp
        then show thesis by (rule same)
      next
        case False
        then have "e' = e\<lparr>bloom_filter := Some \<lparr>hashes_per_column = map fst hs, bf_key_columns = map snd hs\<rparr>\<rparr>"
          using hs(2) by simp
        then show thesis using sets [OF True s hs(1)] by blast
      qed
    next
      case False
      then have "e' = e" using run nr by simp
      then show thesis by (rule same)
    qed
  qed
qed

lemma prepare_element_bloom:
  assumes run: "prepare_element hash_one hash_many columns_of e = Inr e'"
    and old: "bloom_filter e = None" and hold: "filters_hold hash_one filters row"
    and point: "\<And>c. el_function e \<in> {FUNCTION_IN_RANGE, FUNCTION_NOT_IN_RANGE} \<Longrightarrow> monotonic_functions_chain e = []
      \<Longrightarrow> getKeyColumn e = Inr c \<Longrightarrow> range_left (el_range e) = range_right (el_range e) \<Longrightarrow> row ! c = range_left (el_range e)"
    and sets: "\<And>s. el_function e \<in> {FUNCTION_IN_SET, FUNCTION_NOT_IN_SET} \<Longrightarrow> set_index e = Some s
      \<Longrightarrow> set_hashes_hold hash_one hash_many (columns_of s) row"
  shows "bloom_allows filters e'"
proof -
  show ?thesis
    using run
  proof (cases rule: prepare_element_cases)
    case same
    then show ?thesis using old by (simp add: bloom_allows_def)
  next
    case (range c v)
    have "row ! c = range_left (el_range e)" by (rule point) (use range in auto)
    then have "f [v]" if "filters c = Some f" for f
      using hold [unfolded filters_hold_def, rule_format, of c f v "[v]"] that range(5) by simp
    then show ?thesis
      using range(6) by (auto simp: bloom_allows_def mayExistOnBloomFilter_def split: option.splits)
  next
    case (sets s hs)
    have "set_hashes_hold hash_one hash_many (columns_of s) row" by (rule assms(5)) (use sets in auto)
    from hashes_of_columns_allow [OF sets(3) this [unfolded set_hashes_hold_def] hold]
    have "list_all (\<lambda>(hashes, column). case filters column of None \<Rightarrow> True | Some findAnyHash \<Rightarrow> findAnyHash hashes) hs" .
    then show ?thesis
      using sets(4) by (simp add: bloom_allows_def mayExistOnBloomFilter_def zip_fst_snd)
  qed
qed

lemma prepare_element_keeps:
  assumes "prepare_element hash_one hash_many columns_of e = Inr e'"
  shows "\<exists>d. e' = e\<lparr>bloom_filter := d\<rparr>"
  using assms
proof (cases rule: prepare_element_cases)
  case same
  then show ?thesis by (intro exI [of _ "bloom_filter e"]) simp
qed blast+

lemma prepare_elements_nth:
  "prepare_elements hash_one hash_many columns_of es = Inr es'
    \<Longrightarrow> length es' = length es \<and> (\<forall>i < length es. prepare_element hash_one hash_many columns_of (es ! i) = Inr (es' ! i))"
proof (induction es arbitrary: es')
  case (Cons e es)
  then obtain e' rest where "prepare_element hash_one hash_many columns_of e = Inr e'"
    "prepare_elements hash_one hash_many columns_of es = Inr rest" "es' = e' # rest"
    by (auto simp: bind_r_Inr_iff)
  then show ?case using Cons.IH by (auto simp: less_Suc_eq_0_disj)
qed simp

text \<open>
  Preparing a condition for Bloom filters keeps it sound. The prepared condition has the same
  elements but for their filter data, and what an atom without filter data means for a row, the
  prepared atom means with the filters: no filter ever contradicts a row that satisfies the atom. So
  the masks that the filters narrow still cover every row.
\<close>
theorem prepareBloomFilterData_sound:
  assumes "prepareBloomFilterData hash_one hash_many columns_of kc = Inr kc'"
    and ok: "ranges_ok env mem" and hold: "filters_hold hash_one filters row"
    and "\<forall>e \<in> set (rpn kc). bloom_filter e = None"
    and "\<forall>e \<in> set (rpn kc). \<forall>s. set_index e = Some s \<and> (tv e \<longleftrightarrow> el_function e = FUNCTION_IN_SET)
       \<longrightarrow> set_hashes_hold hash_one hash_many (columns_of s) row"
    and "\<forall>e \<in> set (rpn kc). \<forall>c. getKeyColumn e = Inr c \<longrightarrow> c < length row"
    and means: "\<forall>e \<in> set (rpn kc). atom_means env mem hilbert morton inside kc tys (\<lambda>_. None) row e (tv e)"
  shows "length (rpn kc') = length (rpn kc)
    \<and> (\<forall>i < length (rpn kc). (\<exists>d. rpn kc' ! i = (rpn kc ! i)\<lparr>bloom_filter := d\<rparr>)
        \<and> atom_means env mem hilbert morton inside kc' tys filters row (rpn kc' ! i) (tv (rpn kc ! i)))"
proof -
  obtain es where es: "prepare_elements hash_one hash_many columns_of (rpn kc) = Inr es" "kc' = kc\<lparr>rpn := es\<rparr>"
    using assms(1) by (auto simp: prepareBloomFilterData_def bind_r_Inr_iff)
  note nth = prepare_elements_nth [OF es(1)]
  have "(\<exists>d. es ! i = (rpn kc ! i)\<lparr>bloom_filter := d\<rparr>)
      \<and> atom_means env mem hilbert morton inside kc' tys filters row (es ! i) (tv (rpn kc ! i))"
    if "i < length (rpn kc)" for i
  proof -
    let ?e = "rpn kc ! i" and ?e' = "es ! i"
    have e: "?e \<in> set (rpn kc)" using that by simp
    have run: "prepare_element hash_one hash_many columns_of ?e = Inr ?e'" using nth that by blast
    obtain d where d: "?e' = ?e\<lparr>bloom_filter := d\<rparr>" using prepare_element_keeps [OF run] by blast
    have old: "bloom_filter ?e = None" using assms(4) e by blast
    have me: "atom_means env mem hilbert morton inside kc tys (\<lambda>_. None) row ?e (tv ?e)" using means e by blast
    note bloom = prepare_element_bloom [OF run old hold]
    have "atom_means env mem hilbert morton inside kc' tys filters row ?e' (tv ?e)"
      unfolding atom_means_def
    proof (intro impI)
      assume "argument_num_of_space_filling_curve ?e' = None"
      then have "argument_num_of_space_filling_curve ?e = None" using d by simp
      note m = me [unfolded atom_means_def, rule_format, OF this]
      have rng: "range_atom_means env mem tys filters row ?e' positive"
        if rm: "range_atom_means env mem tys (\<lambda>_. None) row ?e positive"
          and f: "el_function ?e \<in> {FUNCTION_IN_RANGE, FUNCTION_NOT_IN_RANGE}" for positive
      proof -
        have "bloom_allows filters ?e'" if p: "monotonic_functions_chain ?e = []" "positive"
          "getKeyColumn ?e = Inr c" "c < length row" for c
        proof (rule bloom)
          fix c' assume "getKeyColumn ?e = Inr c'" "range_left (el_range ?e) = range_right (el_range ?e)"
          then have c': "c' = c" and eq: "range_left (el_range ?e) = range_right (el_range ?e)" using p by simp_all
          have "mem (el_range ?e) (row ! c) \<and> \<not> isNull env (row ! c)"
            using rm [unfolded range_atom_means_def] p by auto
          then have "in_bounds (el_range ?e) (row ! c)" using mem_in_bounds [OF ok] by blast
          then show "row ! c' = range_left (el_range ?e)" using eq c' by (auto simp: in_bounds_def)
        qed (use f in auto)
        then show ?thesis
          using rm d by (auto simp: range_atom_means_def getKeyColumn_def)
      qed
      have st: "set_atom_means env mem (single_point kc') tys filters row ?e' positive"
        if sm: "set_atom_means env mem (single_point kc) tys (\<lambda>_. None) row ?e positive"
          and f: "el_function ?e \<in> {FUNCTION_IN_SET, FUNCTION_NOT_IN_SET}"
          and pos: "positive \<longleftrightarrow> (tv ?e \<longleftrightarrow> el_function ?e = FUNCTION_IN_SET)" for positive
      proof -
        have "bloom_allows filters ?e'" if positive
          by (rule bloom) (use f that pos assms(5) e in auto)
        then show ?thesis using sm d es(2) by (auto simp: set_atom_means_def)
      qed
      have nu: "null_atom_means mem row ?e positive \<Longrightarrow> null_atom_means mem row ?e' positive" for positive
        using d by (auto simp: null_atom_means_def getKeyColumn_def)
      have cu: "curve_atom_means env mem (key_space_filling_curves kc) hilbert morton row ?e positive
          \<Longrightarrow> curve_atom_means env mem (key_space_filling_curves kc') hilbert morton row ?e' positive" for positive
        using d es(2) by (auto simp: curve_atom_means_def getKeyColumn_def)
      have po: "polygon_atom_means env inside row ?e positive \<Longrightarrow> polygon_atom_means env inside row ?e' positive" for positive
        using d by (auto simp: polygon_atom_means_def)
      have f: "el_function ?e' = el_function ?e" using d by simp
      show "case el_function ?e' of
          FUNCTION_IN_RANGE \<Rightarrow> range_atom_means env mem tys filters row ?e' (tv ?e)
        | FUNCTION_NOT_IN_RANGE \<Rightarrow> range_atom_means env mem tys filters row ?e' (\<not> tv ?e)
        | FUNCTION_IS_NOT_NULL \<Rightarrow> null_atom_means mem row ?e' (tv ?e)
        | FUNCTION_IS_NULL \<Rightarrow> null_atom_means mem row ?e' (\<not> tv ?e)
        | FUNCTION_IN_SET \<Rightarrow> set_atom_means env mem (single_point kc') tys filters row ?e' (tv ?e)
        | FUNCTION_NOT_IN_SET \<Rightarrow> set_atom_means env mem (single_point kc') tys filters row ?e' (\<not> tv ?e)
        | FUNCTION_ARGS_IN_HYPERRECTANGLE \<Rightarrow>
            curve_atom_means env mem (key_space_filling_curves kc') hilbert morton row ?e' (tv ?e)
        | FUNCTION_POINT_IN_POLYGON \<Rightarrow> polygon_atom_means env inside row ?e' (tv ?e)
        | ALWAYS_TRUE \<Rightarrow> tv ?e
        | ALWAYS_FALSE \<Rightarrow> \<not> tv ?e
        | _ \<Rightarrow> True"
        unfolding f using m by (cases "el_function ?e") (simp_all add: rng st nu cu po)
    qed
    then show ?thesis using d by blast
  qed
  then show ?thesis using nth es(2) by simp
qed

text \<open>
  The condition \<open>y = 5\<close> with hashes that are the numbers themselves, prepared and checked against a
  filter that holds only 5: the row with 5 passes.
\<close>

definition demo_hash :: "nat \<Rightarrow> demo_field \<Rightarrow> nat option" where
  "demo_hash c x = (case x of Num n \<Rightarrow> Some n | _ \<Rightarrow> None)"

definition demo_eq_condition :: "(demo_field, demo_function, nat list, unit) key_condition" where
  "demo_eq_condition = demo_condition\<lparr>rpn := [demo_y]\<rparr>"

definition demo_filters :: column_filters where
  "demo_filters = [1 \<mapsto> (\<lambda>hashes. 5 \<in> set hashes)]"

lemma demo_prepared:
  "prepareBloomFilterData demo_hash (\<lambda>_ _. None) (\<lambda>_. \<lparr>ordered_set = [], indexes_mapping = []\<rparr>) demo_eq_condition
     = Inr (demo_eq_condition\<lparr>rpn := [demo_y\<lparr>bloom_filter := Some \<lparr>hashes_per_column = [[5]], bf_key_columns = [1]\<rparr>\<rparr>]\<rparr>)"
  by (simp add: prepareBloomFilterData_def demo_eq_condition_def prepare_element_def demo_y_def getKeyColumn_def
      demo_interval_def demo_hash_def)

theorem prepareBloomFilterData_sound_witness:
  "prepareBloomFilterData demo_hash (\<lambda>_ _. None) (\<lambda>_. \<lparr>ordered_set = [], indexes_mapping = []\<rparr>) demo_eq_condition
     = Inr (demo_eq_condition\<lparr>rpn := [demo_y\<lparr>bloom_filter := Some \<lparr>hashes_per_column = [[5]], bf_key_columns = [1]\<rparr>\<rparr>]\<rparr>)
   \<and> atom_means demo_env in_bounds (+) (+) demo_inside
       (demo_eq_condition\<lparr>rpn := [demo_y\<lparr>bloom_filter := Some \<lparr>hashes_per_column = [[5]], bf_key_columns = [1]\<rparr>\<rparr>]\<rparr>)
       [(), ()] demo_filters [Num 3, Num 5]
       (demo_y\<lparr>bloom_filter := Some \<lparr>hashes_per_column = [[5]], bf_key_columns = [1]\<rparr>\<rparr>) (demo_tv 3 5 demo_y)"
proof -
  have rpn: "rpn demo_eq_condition = [demo_y]" by (simp add: demo_eq_condition_def)
  have hold: "filters_hold demo_hash demo_filters [Num 3, Num 5]"
    by (auto simp: filters_hold_def demo_filters_def demo_hash_def)
  have no_filter: "\<forall>e \<in> set (rpn demo_eq_condition). bloom_filter e = None"
    and no_set: "\<forall>e \<in> set (rpn demo_eq_condition). \<forall>s. set_index e = Some s \<and> (demo_tv 3 5 e \<longleftrightarrow> el_function e = FUNCTION_IN_SET)
       \<longrightarrow> set_hashes_hold demo_hash (\<lambda>_ _. None) \<lparr>ordered_set = [], indexes_mapping = []\<rparr> [Num 3, Num 5]"
    and column: "\<forall>e \<in> set (rpn demo_eq_condition). \<forall>c. getKeyColumn e = Inr c \<longrightarrow> c < length [Num 3, Num 5]"
    unfolding rpn by (simp_all add: demo_y_def getKeyColumn_def)
  have means: "\<forall>e \<in> set (rpn demo_eq_condition). atom_means demo_env in_bounds (+) (+) demo_inside demo_eq_condition
      [(), ()] (\<lambda>_. None) [Num 3, Num 5] e (demo_tv 3 5 e)"
    unfolding rpn
    using demo_means_y [of "[(), ()]" "\<lambda>_. None" 3 5] by (simp add: atom_means_def demo_y_def)
  note prepared = prepareBloomFilterData_sound [OF demo_prepared demo_ranges_ok hold no_filter no_set column means]
  from prepared [THEN conjunct2, rule_format, of 0, THEN conjunct2] demo_prepared
  show ?thesis unfolding rpn by simp
qed

section \<open>The mask of a space-filling curve\<close>

lemma foldl_mask_or_false:
  "can_be_false (foldl (\<lambda>mask r. mask_or mask (f r)) m0 rs) \<longleftrightarrow> can_be_false m0 \<and> (\<forall>r \<in> set rs. can_be_false (f r))"
  by (induction rs arbitrary: m0) (auto simp: mask_or_def)

text \<open>
  The mask of a space-filling curve may claim too much. The rectangles of the curve make up the
  region that the granule covers, but their masks are joined with the disjunction of conditions: as
  soon as one rectangle lies inside the condition on the arguments, the mask says that the condition
  cannot be false, although another rectangle has points where it is. A negation above the atom turns
  that into a granule that is skipped. (The claim that the condition can be true is right, see the
  soundness of the evaluation.)
\<close>
theorem curve_mask_overclaims:
  assumes "length args = 2"
    and "((al, ah), (bl, bh)) \<in> set rects"
    and "containsRange env (args ! 0) \<lparr>range_left = UInt64_field env al,
           range_right = UInt64_field env ah, left_included = True, right_included = True\<rparr>"
    and "containsRange env (args ! 1) \<lparr>range_left = UInt64_field env bl,
           range_right = UInt64_field env bh, left_included = True, right_included = True\<rparr>"
  shows "\<not> can_be_false (curve_mask env args rects)
    \<and> apply_connective FUNCTION_NOT [curve_mask env args rects]
        = Inr [BoolMask False (can_be_true (curve_mask env args rects))]"
proof -
  obtain a b where args: "args = [a, b]" using assms(1) by (auto simp: numeral_2_eq_2 length_Suc_conv)
  have "\<not> can_be_false (curve_rectangle_mask env args ((al, ah), (bl, bh)))"
    using assms(3,4) args by (simp add: curve_rectangle_mask_def mask_and_def Let_def)
  then have "\<not> can_be_false (curve_mask env args rects)"
    unfolding curve_mask_def foldl_mask_or_false using assms(2) by blast
  then show ?thesis by (simp add: mask_not_def)
qed

text \<open>
  The condition on the arguments is \<open>[10, 20] * [20, 30]\<close>; the curve gives the point
  \<open>(10, 20)\<close>, which is inside, and \<open>(50, 50)\<close>, which is not.
\<close>

theorem curve_mask_overclaims_witness:
  "\<not> can_be_false (curve_mask demo_env [demo_interval 10 20, demo_interval 20 30]
      [((10, 10), (20, 20)), ((50, 50), (50, 50))])
   \<and> apply_connective FUNCTION_NOT [curve_mask demo_env [demo_interval 10 20, demo_interval 20 30]
      [((10, 10), (20, 20)), ((50, 50), (50, 50))]] = Inr [BoolMask False True]
   \<and> \<not> in_bounds (demo_interval 10 20) (Num 50)"
proof -
  have "can_be_true (curve_mask demo_env [demo_interval 10 20, demo_interval 20 30]
      [((10, 10), (20, 20)), ((50, 50), (50, 50))])"
    by (simp add: curve_mask_def curve_rectangle_mask_def mask_and_def mask_or_def Let_def demo_env_def
        demo_intersects_def demo_interval_def)
  moreover have "containsRange demo_env ([demo_interval 10 20, demo_interval 20 30] ! 0) \<lparr>range_left = UInt64_field demo_env 10,
           range_right = UInt64_field demo_env 10, left_included = True, right_included = True\<rparr>"
    "containsRange demo_env ([demo_interval 10 20, demo_interval 20 30] ! 1) \<lparr>range_left = UInt64_field demo_env 20,
           range_right = UInt64_field demo_env 20, left_included = True, right_included = True\<rparr>"
    by (simp_all add: demo_env_def demo_contains_def demo_interval_def)
  ultimately show ?thesis
    using curve_mask_overclaims [of "[demo_interval 10 20, demo_interval 20 30]" 10 10 20 20
        "[((10, 10), (20, 20)), ((50, 50), (50, 50))]" demo_env]
    by simp
qed

end
