(* ===== verification/Key_Condition_Analysis.thy ===== *)
theory Key_Condition_Analysis
  imports Key_Condition_Sound
begin

text \<open>
  The questions that \<open>KeyCondition\<close> answers from the condition alone: whether an index can be
  of any use (\<open>alwaysUnknownOrTrue\<close>, \<open>anyUnknownOrAlwaysTrue\<close>), whether nothing
  can match (\<open>alwaysFalse\<close>), which parts are joined by AND at the top
  (\<open>topLevelConjunction\<close>), and the conditions on single columns
  (\<open>extractSingleColumnConditions\<close>).
\<close>

section \<open>Use of the index\<close>

definition hasOnlyConjunctions :: "('f, 'fn, 's, 'p) key_condition \<Rightarrow> bool" where
  "hasOnlyConjunctions kc \<longleftrightarrow> \<not> list_ex (\<lambda>e. el_function e = FUNCTION_OR) (rpn kc)"

definition hasMonotonicFunctionsChain :: "('s \<Rightarrow> bool) \<Rightarrow> ('f, 'fn, 's, 'p) key_condition \<Rightarrow> bool" where
  "hasMonotonicFunctionsChain set_has_chain kc \<longleftrightarrow>
     list_ex (\<lambda>e. monotonic_functions_chain e \<noteq> [] \<or> (case set_index e of None \<Rightarrow> False | Some s \<Rightarrow> set_has_chain s)) (rpn kc)"

definition getUsedColumns :: "('f, 'fn, 's, 'p) key_condition \<Rightarrow> nat set" where
  "getUsedColumns kc = \<Union> (set (map (\<lambda>e. set (el_key_columns e)) (rpn kc)))"

definition addCondition ::
  "('f, 'fn, 's, 'p) rpn_element \<Rightarrow> ('f, 'fn, 's, 'p) key_condition \<Rightarrow> string \<Rightarrow> 'f key_range
     \<Rightarrow> bool \<times> ('f, 'fn, 's, 'p) key_condition" where
  "addCondition default_element kc column r =
     (case map_of (kc_key_columns kc) column of
        None \<Rightarrow> (False, kc)
      | Some i \<Rightarrow> (True, kc\<lparr>rpn := rpn kc @
          [default_element\<lparr>el_function := FUNCTION_IN_RANGE, el_key_columns := [i], el_range := r\<rparr>,
           default_element\<lparr>el_function := FUNCTION_AND\<rparr>]\<rparr>))"

text \<open>
  \<open>unknownOrAlwaysTrue\<close>: the loop returns at once on an unknown element when
  \<open>unknown_any\<close> is set, which is the left result \<open>Inr True\<close>; NOT does not touch
  the stack, so it is left out.
\<close>

definition unknown_atom :: "bool \<Rightarrow> ('f, 'fn, 's, 'p) rpn_element \<Rightarrow> (error + bool) + bool" where
  "unknown_atom unknown_any e =
     (case el_function e of
        FUNCTION_UNKNOWN \<Rightarrow> if unknown_any then Inl (Inr True) else Inr True
      | ALWAYS_TRUE \<Rightarrow> Inr True
      | _ \<Rightarrow> Inr False)"

definition unknownOrAlwaysTrue :: "('f, 'fn, 's, 'p) key_condition \<Rightarrow> bool \<Rightarrow> bool result" where
  "unknownOrAlwaysTrue kc unknown_any =
     (case stack_machine (Inl UB) kind_of (unknown_atom unknown_any) Not (\<and>) (\<or>)
            (filter (\<lambda>e. el_function e \<noteq> FUNCTION_NOT) (rpn kc)) [] of
        Inl (Inl err) \<Rightarrow> Inl err
      | Inl (Inr b) \<Rightarrow> Inr b
      | Inr [b] \<Rightarrow> Inr b
      | Inr _ \<Rightarrow> Inl LOGICAL_ERROR)"

definition alwaysUnknownOrTrue :: "('f, 'fn, 's, 'p) key_condition \<Rightarrow> bool result" where
  "alwaysUnknownOrTrue kc = unknownOrAlwaysTrue kc False"

definition anyUnknownOrAlwaysTrue :: "('f, 'fn, 's, 'p) key_condition \<Rightarrow> bool result" where
  "anyUnknownOrAlwaysTrue kc = unknownOrAlwaysTrue kc True"

text \<open>\<open>alwaysFalse\<close>: 0 is always false, 1 always true, 2 not constant.\<close>

definition constancy_atom :: "('f, 'fn, 's, 'p) rpn_element \<Rightarrow> error + nat" where
  "constancy_atom e = Inr (case el_function e of ALWAYS_TRUE \<Rightarrow> 1 | ALWAYS_FALSE \<Rightarrow> 0 | _ \<Rightarrow> 2)"

definition constancy_not :: "nat \<Rightarrow> nat" where
  "constancy_not arg = (if arg = 0 then 1 else if arg = 1 then 0 else arg)"

definition constancy_and :: "nat \<Rightarrow> nat \<Rightarrow> nat" where
  "constancy_and arg1 arg2 = (if arg1 = 0 \<or> arg2 = 0 then 0 else if arg1 = 1 \<and> arg2 = 1 then 1 else 2)"

definition constancy_or :: "nat \<Rightarrow> nat \<Rightarrow> nat" where
  "constancy_or arg1 arg2 = (if arg1 = 1 \<or> arg2 = 1 then 1 else if arg1 = 0 \<and> arg2 = 0 then 0 else 2)"

definition alwaysFalse :: "('f, 'fn, 's, 'p) key_condition \<Rightarrow> bool result" where
  "alwaysFalse kc =
     bind_r (stack_machine UB kind_of constancy_atom constancy_not constancy_and constancy_or (rpn kc) [])
       (\<lambda>stack. case stack of [v] \<Rightarrow> Inr (v = 0) | _ \<Rightarrow> Inl LOGICAL_ERROR)"

section \<open>Top-level conjunction\<close>

record value_info =
  conjuncts :: "(nat \<times> nat) list"
  vi_start :: nat

fun conjunction_step :: "rpn_function \<Rightarrow> nat \<Rightarrow> value_info list \<Rightarrow> value_info list result" where
  "conjunction_step FUNCTION_NOT i (v # stack) = Inr (v\<lparr>conjuncts := [(vi_start v, i + 1)]\<rparr> # stack)"
| "conjunction_step FUNCTION_NOT i [] = Inl UB"
| "conjunction_step FUNCTION_AND i (right # left # stack) =
     (let (big, small) = (if length (conjuncts left) < length (conjuncts right)
                          then (conjuncts right, conjuncts left) else (conjuncts left, conjuncts right))
      in Inr (left\<lparr>conjuncts := big @ small\<rparr> # stack))"
| "conjunction_step FUNCTION_AND i _ = Inl UB"
| "conjunction_step FUNCTION_OR i (right # left # stack) =
     Inr (left\<lparr>conjuncts := [(vi_start left, i + 1)]\<rparr> # stack)"
| "conjunction_step FUNCTION_OR i _ = Inl UB"
| "conjunction_step _ i stack = Inr (\<lparr>conjuncts = [(i, i + 1)], vi_start = i\<rparr> # stack)"

fun conjunction_elements ::
  "('f, 'fn, 's, 'p) rpn_element list \<Rightarrow> nat \<Rightarrow> value_info list \<Rightarrow> value_info list result" where
  "conjunction_elements [] i stack = Inr stack"
| "conjunction_elements (e # es) i stack =
     bind_r (conjunction_step (el_function e) i stack) (\<lambda>stack. conjunction_elements es (i + 1) stack)"

text \<open>The size of the stack is only asserted; \<open>stack[0]\<close> is its bottom.\<close>

definition topLevelConjunction :: "('f, 'fn, 's, 'p) rpn_element list \<Rightarrow> (nat \<times> nat) list result" where
  "topLevelConjunction es =
     bind_r (conjunction_elements es 0 []) (\<lambda>stack. if stack = [] then Inl UB else Inr (conjuncts (last stack)))"

section \<open>Conditions on single columns\<close>

text \<open>
  The loop over the elements of one conjunct: the only key column, unless an element has several or two
  elements differ (the loop breaks there); a conjunct without a key column is complex as well.
\<close>

fun conjunct_column :: "('f, 'fn, 's, 'p) rpn_element list \<Rightarrow> nat option \<Rightarrow> nat option" where
  "conjunct_column [] key_column = key_column"
| "conjunct_column (e # es) key_column =
     (if length (el_key_columns e) > 1 then None
      else case el_key_columns e of
        [c] \<Rightarrow> (case key_column of
                  None \<Rightarrow> conjunct_column es (Some c)
                | Some k \<Rightarrow> if k \<noteq> c then None else conjunct_column es key_column)
      | _ \<Rightarrow> conjunct_column es key_column)"

definition slice :: "'a list \<Rightarrow> nat \<times> nat \<Rightarrow> 'a list" where
  "slice xs r = drop (fst r) (take (snd r) xs)"

fun add_rpn_ranges ::
  "('f, 'fn, 's, 'p) rpn_element \<Rightarrow> ('f, 'fn, 's, 'p) rpn_element list \<Rightarrow> ('f, 'fn, 's, 'p) rpn_element list
     \<Rightarrow> nat \<Rightarrow> (nat \<times> nat) list \<Rightarrow> ('f, 'fn, 's, 'p) rpn_element list" where
  "add_rpn_ranges default_element target source j [] = target"
| "add_rpn_ranges default_element target source j (r # rs) =
     add_rpn_ranges default_element
       (target @ slice source r @ (if j > 0 then [default_element\<lparr>el_function := FUNCTION_AND\<rparr>] else []))
       source (j + 1) rs"

text \<open>
  \<open>key_column_names[i]\<close>: the name of the key column, of which the last in the order of the map
  wins; it is dereferenced without a check.
\<close>

definition key_column_name :: "(string \<times> nat) list \<Rightarrow> nat \<Rightarrow> string result" where
  "key_column_name key_columns i =
     (case filter (\<lambda>(name, index). index = i) key_columns of
        [] \<Rightarrow> Inl UB
      | names \<Rightarrow> Inr (fst (last names)))"

definition single_column_condition ::
  "('f, 'fn, 's, 'p) rpn_element \<Rightarrow> ('f, 'fn, 's, 'p) key_condition \<Rightarrow> nat \<Rightarrow> (nat \<times> nat) list
     \<Rightarrow> (nat \<times> ('f, 'fn, 's, 'p) key_condition) result" where
  "single_column_condition default_element kc i rs =
     bind_r (key_column_name (kc_key_columns kc) i) (\<lambda>name.
       Inr (i, \<lparr>rpn = add_rpn_ranges default_element [] (rpn kc) 0 rs, has_filter = True,
                kc_key_columns = [(name, i)], num_key_columns = num_key_columns kc,
                key_space_filling_curves = [], single_point = single_point kc,
                date_time_overflow_behavior_ignore = date_time_overflow_behavior_ignore kc,
                kc_relaxed = kc_relaxed kc\<rparr>))"

fun single_column_conditions ::
  "('f, 'fn, 's, 'p) rpn_element \<Rightarrow> ('f, 'fn, 's, 'p) key_condition \<Rightarrow> (nat \<times> nat) list list \<Rightarrow> nat
     \<Rightarrow> (nat \<times> ('f, 'fn, 's, 'p) key_condition) list result" where
  "single_column_conditions default_element kc [] i = Inr []"
| "single_column_conditions default_element kc (rs # rest) i =
     (if rs = [] then single_column_conditions default_element kc rest (i + 1)
      else bind_r (single_column_condition default_element kc i rs) (\<lambda>c.
           bind_r (single_column_conditions default_element kc rest (i + 1)) (\<lambda>cs. Inr (c # cs))))"

text \<open>The vector of conjuncts by key column, as long as the greatest column needs.\<close>

definition conjuncts_by_key_column ::
  "('f, 'fn, 's, 'p) rpn_element list \<Rightarrow> (nat \<times> nat) list \<Rightarrow> (nat \<times> nat) list list" where
  "conjuncts_by_key_column es rs =
     (let columns = List.map_filter (\<lambda>r. conjunct_column (slice es r) None) rs
      in map (\<lambda>c. filter (\<lambda>r. conjunct_column (slice es r) None = Some c) rs)
           [0 ..< (if columns = [] then 0 else Max (set columns) + 1)])"

text \<open>
  \<open>extractSingleColumnConditions\<close>: the conditions that are appended to
  \<open>out_column_conditions\<close>, and the value of \<open>*out_complex_condition\<close> afterwards.
  The copy with the complex conjuncts is built in a local variable, which the code never stores.
\<close>

definition extractSingleColumnConditions ::
  "('f, 'fn, 's, 'p) rpn_element \<Rightarrow> ('f, 'fn, 's, 'p) key_condition
     \<Rightarrow> ('f, 'fn, 's, 'p) key_condition option
     \<Rightarrow> ((nat \<times> ('f, 'fn, 's, 'p) key_condition) list \<times> ('f, 'fn, 's, 'p) key_condition option) result" where
  "extractSingleColumnConditions default_element kc out_complex_condition =
     bind_r (topLevelConjunction (rpn kc)) (\<lambda>rs.
       let by_column = conjuncts_by_key_column (rpn kc) rs;
           all_complex = (\<forall>r \<in> set rs. conjunct_column (slice (rpn kc) r) None = None)
       in if all_complex then Inr ([], out_complex_condition)
          else if list_ex (\<lambda>(name, index). index \<ge> num_key_columns kc) (kc_key_columns kc) then Inl UB
          else bind_r (single_column_conditions default_element kc by_column 0)
                 (\<lambda>cs. Inr (cs, out_complex_condition)))"

end
