(* ===== verification/Key_Condition_Analysis_Results.thy ===== *)
theory Key_Condition_Analysis_Results
  imports Key_Condition_Analysis Key_Condition_Results
begin

text \<open>
  What the analysis of a condition promises: \<open>alwaysFalse\<close> and
  \<open>alwaysUnknownOrTrue\<close> agree with the evaluation, the top-level conjuncts make up the
  condition, and the conditions on single columns are implied by it.
\<close>

section \<open>Constant conditions\<close>

definition constants_ok :: "(('f, 'fn, 's, 'p) rpn_element \<Rightarrow> bool) \<Rightarrow> ('f, 'fn, 's, 'p) rpn_element \<Rightarrow> bool" where
  "constants_ok tv e \<longleftrightarrow> (el_function e = ALWAYS_TRUE \<longrightarrow> tv e) \<and> (el_function e = ALWAYS_FALSE \<longrightarrow> \<not> tv e)"

interpretation constancy: stack_simulation UB kind_of constancy_atom constancy_not constancy_and constancy_or
  tv "\<lambda>v b. (v = 0 \<longrightarrow> \<not> b) \<and> (v = 1 \<longrightarrow> b)" "constants_ok tv" for tv
  by unfold_locales
     (auto simp: constancy_atom_def constancy_not_def constancy_and_def constancy_or_def constants_ok_def
       split: rpn_function.splits if_splits)

lemma alwaysFalse_sound:
  assumes "alwaysFalse kc = Inr True" "\<forall>e \<in> set (rpn kc). constants_ok tv e"
  shows "truth_of kind_of tv (rpn kc) = Some False"
proof -
  obtain stack where s: "stack_machine UB kind_of constancy_atom constancy_not constancy_and constancy_or (rpn kc) [] = Inr stack"
    "(case stack of [v] \<Rightarrow> Inr (v = 0) | _ \<Rightarrow> Inl LOGICAL_ERROR) = (Inr True :: error + bool)"
    using assms(1) by (auto simp: alwaysFalse_def bind_r_Inr_iff)
  then have "stack = [0]" by (cases stack rule: remdups_adj.cases) auto
  from constancy.value_related [OF s(1) [unfolded this] assms(2)] show ?thesis by auto
qed

text \<open>The evaluation without negations, as far as it concerns whether the condition can be true.\<close>

definition mask_can_be_true ::
  "('f, 'ty, 'fn, 's, 'p, 'x::linorder) key_env \<Rightarrow> ('f, 'fn, 's, 'p) key_condition \<Rightarrow> 'f key_range list \<Rightarrow> 'ty list
     \<Rightarrow> column_filters \<Rightarrow> ('f, 'fn, 's, 'p) rpn_element \<Rightarrow> bool" where
  "mask_can_be_true env kc h tys filters e \<longleftrightarrow>
     (case atom_value env kc h tys filters e of Inr m \<Rightarrow> can_be_true m | Inl _ \<Rightarrow> el_function e \<in> {FUNCTION_UNKNOWN, ALWAYS_TRUE})"

interpretation can_be_true: stack_simulation UB kind_of "atom_value env kc h tys filters" mask_not mask_and mask_or
  "mask_can_be_true env kc h tys filters" "\<lambda>m b. can_be_true m = b" "\<lambda>e. kind_of e \<noteq> Negation"
  for env kc h tys filters
  by unfold_locales (simp_all add: mask_can_be_true_def mask_and_def mask_or_def)

definition unknown_admissible :: "(('f, 'fn, 's, 'p) rpn_element \<Rightarrow> bool) \<Rightarrow> ('f, 'fn, 's, 'p) rpn_element \<Rightarrow> bool" where
  "unknown_admissible tv e \<longleftrightarrow> kind_of e \<noteq> Negation \<and> (el_function e \<in> {FUNCTION_UNKNOWN, ALWAYS_TRUE} \<longrightarrow> tv e)"

interpretation unknown: stack_simulation "Inl UB" kind_of "unknown_atom unknown_any" Not "(\<and>)" "(\<or>)"
  tv "(\<longrightarrow>)" "unknown_admissible tv" for unknown_any tv
  by unfold_locales
     (auto simp: unknown_atom_def unknown_admissible_def split: rpn_function.splits if_splits)

lemma unknown_machine_early:
  "stack_machine (Inl UB) kind_of (unknown_atom unknown_any) Not (\<and>) (\<or>) es stack = Inl (Inr b)
    \<Longrightarrow> unknown_any \<and> b"
proof (induction es arbitrary: stack)
  case (Cons e es)
  have "unknown_any \<and> b"
    if "stack_step (Inl UB) kind_of (unknown_atom unknown_any) Not (\<and>) (\<or>) e stack = Inl (Inr b)"
    using that by (cases "unknown_atom unknown_any e")
      (auto simp: stack_step.simps unknown_atom_def split: element_kind.splits list.splits rpn_function.splits if_splits)
  then show ?case
    using Cons by (cases "stack_step (Inl UB) kind_of (unknown_atom unknown_any) Not (\<and>) (\<or>) e stack") auto
qed simp

abbreviation without_not :: "('f, 'fn, 's, 'p) rpn_element list \<Rightarrow> ('f, 'fn, 's, 'p) rpn_element list" where
  "without_not \<equiv> filter (\<lambda>e. el_function e \<noteq> FUNCTION_NOT)"

lemma unknownOrAlwaysTrue_machine:
  assumes "unknownOrAlwaysTrue kc unknown_any = Inr b" "\<not> (unknown_any \<and> b)"
  shows "stack_machine (Inl UB) kind_of (unknown_atom unknown_any) Not (\<and>) (\<or>) (without_not (rpn kc)) [] = Inr [b]"
proof (cases "stack_machine (Inl UB) kind_of (unknown_atom unknown_any) Not (\<and>) (\<or>) (without_not (rpn kc)) []")
  case (Inl x)
  then show ?thesis
    using assms unknown_machine_early [of unknown_any "without_not (rpn kc)" "[]"]
    by (cases x) (auto simp: unknownOrAlwaysTrue_def)
next
  case (Inr stack)
  then show ?thesis
    using assms by (cases stack rule: remdups_adj.cases) (simp_all add: unknownOrAlwaysTrue_def)
qed

lemma alwaysUnknownOrTrue_sound:
  assumes "alwaysUnknownOrTrue kc = Inr True" "\<forall>e \<in> set (rpn kc). kind_of e \<noteq> Negation \<and> connective_ok e"
    and "checkInHyperrectangle env kc h tys filters notify = Inr (m, calls)"
  shows "can_be_true m"
proof -
  let ?tv = "mask_can_be_true env kc h tys filters"
  have "unknown_admissible ?tv e" if "e \<in> set (rpn kc)" for e
  proof -
    have "?tv e" if f: "el_function e = FUNCTION_UNKNOWN \<or> el_function e = ALWAYS_TRUE"
      using f by (auto simp: mask_can_be_true_def atom_value_def check_atom_def)
    then show ?thesis using assms(2) that by (auto simp: unknown_admissible_def)
  qed
  moreover have "without_not (rpn kc) = rpn kc"
    using assms(2) by (auto simp: filter_id_conv kind_of_simps)
  ultimately obtain b where b: "truth_of kind_of ?tv (rpn kc) = Some b" b
    using unknown.value_related [OF unknownOrAlwaysTrue_machine, of kc False True ?tv] assms(1)
    by (auto simp: alwaysUnknownOrTrue_def)
  have "\<forall>e \<in> set (rpn kc). connective_ok e" using assms(2) by blast
  from can_be_true.value_related [OF check_elements_machine [OF checkInHyperrectangle_InrD [OF assms(3)] this]] b assms(2)
  show ?thesis by auto
qed

lemma unknown_machine_True:
  "stack_machine (Inl UB) kind_of (unknown_atom True) Not (\<and>) (\<or>) es stack = Inr stack'
    \<Longrightarrow> (\<forall>e \<in> set es. el_function e \<noteq> FUNCTION_UNKNOWN)
      \<and> stack_machine (Inl UB) kind_of (unknown_atom False) Not (\<and>) (\<or>) es stack = Inr stack'"
proof (induction es arbitrary: stack)
  case (Cons e es)
  from Cons.prems obtain s where s: "stack_step (Inl UB) kind_of (unknown_atom True) Not (\<and>) (\<or>) e stack = Inr s"
    "stack_machine (Inl UB) kind_of (unknown_atom True) Not (\<and>) (\<or>) es s = Inr stack'"
    by (auto simp: bind_r_Inr_iff)
  have "el_function e \<noteq> FUNCTION_UNKNOWN"
    using s(1) by (auto simp: stack_step.simps unknown_atom_def kind_of_def)
  moreover from this have eq: "unknown_atom True e = unknown_atom False e"
    by (simp add: unknown_atom_def split: rpn_function.splits)
  have "stack_step (Inl UB) kind_of (unknown_atom False) Not (\<and>) (\<or>) e stack = Inr s"
    using s(1) by (simp only: stack_step.simps eq)
  ultimately show ?case using Cons.IH [OF s(2)] by simp
qed simp

text \<open>
  The three questions about constant conditions are answered soundly. If \<open>alwaysFalse\<close> says yes, no
  values of the atoms make the condition true. If \<open>alwaysUnknownOrTrue\<close> says yes for a condition
  without NOT, the index can prune nothing: every hyperrectangle gets a mask that can be true. If
  \<open>anyUnknownOrAlwaysTrue\<close> says no, the condition has no unknown part, so the index decides it, and
  \<open>alwaysUnknownOrTrue\<close> says no as well.
\<close>
theorem constant_conditions:
  assumes "\<forall>e \<in> set (rpn kc). constants_ok tv e \<and> connective_ok e"
  shows "(alwaysFalse kc = Inr True \<longrightarrow> truth_of kind_of tv (rpn kc) = Some False)
    \<and> (alwaysUnknownOrTrue kc = Inr True \<and> (\<forall>e \<in> set (rpn kc). kind_of e \<noteq> Negation)
        \<and> checkInHyperrectangle env kc h tys filters notify = Inr (m, calls) \<longrightarrow> can_be_true m)
    \<and> (anyUnknownOrAlwaysTrue kc = Inr False
        \<longrightarrow> (\<forall>e \<in> set (rpn kc). el_function e \<noteq> FUNCTION_UNKNOWN) \<and> alwaysUnknownOrTrue kc = Inr False)"
proof (intro conjI)
  show "alwaysFalse kc = Inr True \<longrightarrow> truth_of kind_of tv (rpn kc) = Some False"
    using alwaysFalse_sound assms by blast
  show "alwaysUnknownOrTrue kc = Inr True \<and> (\<forall>e \<in> set (rpn kc). kind_of e \<noteq> Negation)
        \<and> checkInHyperrectangle env kc h tys filters notify = Inr (m, calls) \<longrightarrow> can_be_true m"
    using alwaysUnknownOrTrue_sound assms by blast
  show "anyUnknownOrAlwaysTrue kc = Inr False
        \<longrightarrow> (\<forall>e \<in> set (rpn kc). el_function e \<noteq> FUNCTION_UNKNOWN) \<and> alwaysUnknownOrTrue kc = Inr False"
  proof
    assume "anyUnknownOrAlwaysTrue kc = Inr False"
    then have "stack_machine (Inl UB) kind_of (unknown_atom True) Not (\<and>) (\<or>) (without_not (rpn kc)) [] = Inr [False]"
      using unknownOrAlwaysTrue_machine [of kc True False] by (simp add: anyUnknownOrAlwaysTrue_def)
    note no_unknown = unknown_machine_True [OF this]
    from no_unknown have "alwaysUnknownOrTrue kc = Inr False"
      by (simp add: alwaysUnknownOrTrue_def unknownOrAlwaysTrue_def)
    moreover have "el_function e \<noteq> FUNCTION_UNKNOWN" if "e \<in> set (rpn kc)" for e
      using no_unknown that by (cases "el_function e = FUNCTION_NOT") auto
    ultimately show "(\<forall>e \<in> set (rpn kc). el_function e \<noteq> FUNCTION_UNKNOWN) \<and> alwaysUnknownOrTrue kc = Inr False"
      by blast
  qed
qed

definition demo_false_condition :: "(demo_field, demo_function, nat list, unit) key_condition" where
  "demo_false_condition = demo_condition\<lparr>rpn := [demo_element FUNCTION_UNKNOWN, demo_element ALWAYS_FALSE, demo_element FUNCTION_AND]\<rparr>"

theorem constant_conditions_witness:
  "alwaysFalse demo_false_condition = Inr True
   \<and> truth_of kind_of (\<lambda>e. el_function e = FUNCTION_UNKNOWN) (rpn demo_false_condition) = Some False"
proof -
  have af: "alwaysFalse demo_false_condition = Inr True"
    by (simp add: alwaysFalse_def demo_false_condition_def stack_step.simps kind_of_def constancy_atom_def constancy_and_def)
  have "\<forall>e \<in> set (rpn demo_false_condition). constants_ok (\<lambda>e. el_function e = FUNCTION_UNKNOWN) e \<and> connective_ok e"
    by (simp add: demo_false_condition_def constants_ok_def connective_ok_def)
  from constant_conditions [OF this] af show ?thesis by blast
qed

section \<open>Top-level conjuncts\<close>

lemma slice_append:
  assumes "s \<le> m" "m \<le> e"
  shows "slice es (s, e) = slice es (s, m) @ slice es (m, e)"
proof -
  have split: "take e es = take m es @ drop m (take e es)"
    using assms(2) by (metis append_take_drop_id min.absorb1 take_take)
  have "drop s (take m es @ drop m (take e es)) = drop s (take m es) @ drop m (take e es)"
    using assms by (cases "m \<le> length es") simp_all
  with split show ?thesis by (simp add: slice_def)
qed

lemma slice_single: "i < length es \<Longrightarrow> slice es (i, Suc i) = [es ! i]"
  by (simp add: slice_def take_Suc_conv_app_nth)

lemma truth_machine_append:
  "truth_machine kind tv es stack = Inr s \<Longrightarrow> truth_machine kind tv (es @ es') stack = truth_machine kind tv es' s"
  by (simp add: truth_machine_def stack_machine_append)

lemma truth_machine_below:
  "truth_machine kind tv es [] = Inr s \<Longrightarrow> truth_machine kind tv es stack = Inr (s @ stack)"
  using stack_machine_below [of "()" kind "\<lambda>e. Inr (tv e)" Not "(\<and>)" "(\<or>)" es "[]" s stack]
  by (simp add: truth_machine_def)

lemma truth_machine_single:
  "truth_machine kind tv [e] stack = stack_step () kind (\<lambda>e. Inr (tv e)) Not (\<and>) (\<or>) e stack"
  by (cases "stack_step () kind (\<lambda>e. Inr (tv e)) Not (\<and>) (\<or>) e stack") (simp_all add: truth_machine_def)

text \<open>
  A region of the program that computes one value, and conjuncts of the region that make it up.
\<close>

definition region_ok ::
  "(('f, 'fn, 's, 'p) rpn_element \<Rightarrow> bool) \<Rightarrow> ('f, 'fn, 's, 'p) rpn_element list \<Rightarrow> nat \<Rightarrow> nat \<Rightarrow> bool \<Rightarrow> (nat \<times> nat) list \<Rightarrow> bool" where
  "region_ok tv es s e b rs \<longleftrightarrow>
     s < e \<and> e \<le> length es \<and> truth_machine kind_of tv (slice es (s, e)) [] = Inr [b]
     \<and> (\<forall>r \<in> set rs. s \<le> fst r \<and> fst r < snd r \<and> snd r \<le> e \<and> truth_of kind_of tv (slice es r) \<noteq> None)
     \<and> (b \<longleftrightarrow> (\<forall>r \<in> set rs. truth_of kind_of tv (slice es r) = Some True))"

lemma region_whole:
  assumes "s < e" "e \<le> length es" "truth_machine kind_of tv (slice es (s, e)) [] = Inr [b]"
  shows "region_ok tv es s e b [(s, e)]"
  using assms by (simp add: region_ok_def truth_of_def)

text \<open>The regions of the values on the stack lie next to each other, from the start of the program.\<close>

fun regions_ok ::
  "(('f, 'fn, 's, 'p) rpn_element \<Rightarrow> bool) \<Rightarrow> ('f, 'fn, 's, 'p) rpn_element list \<Rightarrow> nat \<Rightarrow> value_info list \<Rightarrow> bool" where
  "regions_ok tv es i [] \<longleftrightarrow> i = 0"
| "regions_ok tv es i (v # stack) \<longleftrightarrow>
     (\<exists>b. region_ok tv es (vi_start v) i b (conjuncts v)) \<and> regions_ok tv es (vi_start v) stack"

lemma slice_snoc: "s \<le> i \<Longrightarrow> i < length es \<Longrightarrow> slice es (s, Suc i) = slice es (s, i) @ [es ! i]"
  using slice_append [of s i "Suc i" es] slice_single [of i es] by simp

lemma region_two:
  assumes "region_ok tv es s m a rs" "region_ok tv es m i b rs'" "i < length es"
    and "kind_of (es ! i) = Conjunction \<and> c = (b \<and> a) \<or> kind_of (es ! i) = Disjunction \<and> c = (b \<or> a)"
  shows "truth_machine kind_of tv (slice es (s, Suc i)) [] = Inr [c]"
proof -
  have m: "s < m" "m < i" "truth_machine kind_of tv (slice es (s, m)) [] = Inr [a]"
    "truth_machine kind_of tv (slice es (m, i)) [] = Inr [b]"
    using assms(1,2) by (simp_all add: region_ok_def)
  have "slice es (s, Suc i) = slice es (s, m) @ slice es (m, i) @ [es ! i]"
    using slice_snoc [of s i es] slice_append [of s m i es] m(1,2) assms(3) by simp
  then show ?thesis
    using truth_machine_append [OF m(3)] truth_machine_append [OF truth_machine_below [OF m(4)]] assms(4)
    by (auto simp: truth_machine_single stack_step_simps)
qed

lemma region_join:
  assumes a: "region_ok tv es s m a rs1" and b: "region_ok tv es m i b rs2" and i: "i < length es"
    and t: "truth_machine kind_of tv (slice es (s, Suc i)) [] = Inr [b \<and> a]" and rs: "set rs = set rs1 \<union> set rs2"
  shows "region_ok tv es s (Suc i) (b \<and> a) rs"
proof -
  note a' = a [unfolded region_ok_def] and b' = b [unfolded region_ok_def]
  have "s \<le> fst r \<and> fst r < snd r \<and> snd r \<le> Suc i \<and> truth_of kind_of tv (slice es r) \<noteq> None" if "r \<in> set rs" for r
  proof (cases "r \<in> set rs1")
    case True
    then have "s \<le> fst r \<and> fst r < snd r \<and> snd r \<le> m \<and> truth_of kind_of tv (slice es r) \<noteq> None" using a' by blast
    moreover have "m < i" using b' by blast
    ultimately show ?thesis by linarith
  next
    case False
    then have "m \<le> fst r \<and> fst r < snd r \<and> snd r \<le> i \<and> truth_of kind_of tv (slice es r) \<noteq> None" using b' that rs by blast
    moreover have "s < m" using a' by blast
    ultimately show ?thesis by linarith
  qed
  moreover have "s < Suc i" using a' b' by linarith
  moreover have "b \<and> a \<longleftrightarrow> (\<forall>r \<in> set rs. truth_of kind_of tv (slice es r) = Some True)"
    using a' b' unfolding rs by blast
  ultimately show ?thesis using t i unfolding region_ok_def by simp
qed

lemma regions_step:
  assumes ok: "regions_ok tv es i stack" and i: "i < length es"
    and run: "conjunction_step (el_function (es ! i)) i stack = Inr stack'"
  shows "regions_ok tv es (Suc i) stack'"
proof (cases "kind_of (es ! i)")
  case Atom
  then have "stack' = \<lparr>conjuncts = [(i, Suc i)], vi_start = i\<rparr> # stack"
    using run by (cases "el_function (es ! i)") (simp_all add: kind_of_def)
  moreover have "truth_machine kind_of tv (slice es (i, Suc i)) [] = Inr [tv (es ! i)]"
    using Atom i by (simp add: slice_single truth_machine_single stack_step_simps)
  ultimately show ?thesis using ok i region_whole [of i "Suc i" es tv] by auto
next
  case Negation
  then have f: "el_function (es ! i) = FUNCTION_NOT" by (simp add: kind_of_simps)
  then obtain v rest where v: "stack = v # rest" "stack' = v\<lparr>conjuncts := [(vi_start v, Suc i)]\<rparr> # rest"
    using run by (cases stack) auto
  then obtain b where b: "region_ok tv es (vi_start v) i b (conjuncts v)" "regions_ok tv es (vi_start v) rest"
    using ok by auto
  have "truth_machine kind_of tv (slice es (vi_start v, Suc i)) [] = Inr [\<not> b]"
    using b(1) i Negation truth_machine_append [of kind_of tv "slice es (vi_start v, i)" "[]" "[b]" "[es ! i]"]
    by (simp add: region_ok_def slice_snoc truth_machine_single stack_step_simps)
  then show ?thesis
    using v b i region_whole [of "vi_start v" "Suc i" es tv] by (auto simp: region_ok_def)
next
  case Conjunction
  then have f: "el_function (es ! i) = FUNCTION_AND" by (simp add: kind_of_simps)
  then obtain right left rest where st: "stack = right # left # rest"
    using run by (cases stack rule: remdups_adj.cases) auto
  obtain rs where rs: "stack' = left\<lparr>conjuncts := rs\<rparr> # rest" "set rs = set (conjuncts left) \<union> set (conjuncts right)"
  proof (rule that)
    let ?rs = "if length (conjuncts left) < length (conjuncts right) then conjuncts right @ conjuncts left
      else conjuncts left @ conjuncts right"
    show "stack' = left\<lparr>conjuncts := ?rs\<rparr> # rest" using run f st by (simp split: if_splits)
    show "set ?rs = set (conjuncts left) \<union> set (conjuncts right)" by auto
  qed
  from ok st obtain a b where ab: "region_ok tv es (vi_start right) i b (conjuncts right)"
    "region_ok tv es (vi_start left) (vi_start right) a (conjuncts left)" "regions_ok tv es (vi_start left) rest"
    by auto
  have "truth_machine kind_of tv (slice es (vi_start left, Suc i)) [] = Inr [b \<and> a]"
    using region_two [OF ab(2,1) i] Conjunction by blast
  then have "region_ok tv es (vi_start left) (Suc i) (b \<and> a) rs"
    using region_join [OF ab(2,1) i _ rs(2)] by blast
  then show ?thesis using rs(1) ab(3) by auto
next
  case Disjunction
  then have f: "el_function (es ! i) = FUNCTION_OR" by (simp add: kind_of_simps)
  then obtain right left rest where st: "stack = right # left # rest"
    "stack' = left\<lparr>conjuncts := [(vi_start left, Suc i)]\<rparr> # rest"
    using run by (cases stack rule: remdups_adj.cases) auto
  from ok st obtain a b where ab: "region_ok tv es (vi_start right) i b (conjuncts right)"
    "region_ok tv es (vi_start left) (vi_start right) a (conjuncts left)" "regions_ok tv es (vi_start left) rest"
    by auto
  have "truth_machine kind_of tv (slice es (vi_start left, Suc i)) [] = Inr [b \<or> a]"
    using region_two [OF ab(2,1) i] Disjunction by blast
  moreover have "vi_start left < Suc i" using ab(1,2) by (simp add: region_ok_def)
  ultimately show ?thesis using region_whole [of "vi_start left" "Suc i" es tv] st(2) ab(3) i by auto
qed

lemma regions_run:
  "conjunction_elements (drop i es) i stack = Inr stack' \<Longrightarrow> regions_ok tv es i stack \<Longrightarrow> i \<le> length es
    \<Longrightarrow> regions_ok tv es (length es) stack'"
proof (induction "length es - i" arbitrary: i stack)
  case 0
  then show ?case by simp
next
  case (Suc n)
  then have i: "i < length es" by simp
  have "drop i es = es ! i # drop (Suc i) es" using i by (simp add: Cons_nth_drop_Suc)
  with Suc.prems(1) obtain s where s: "conjunction_step (el_function (es ! i)) i stack = Inr s"
    "conjunction_elements (drop (Suc i) es) (Suc i) s = Inr stack'"
    by (auto simp: bind_r_Inr_iff)
  show ?case
    by (rule Suc.hyps(1) [OF _ s(2) regions_step [OF Suc.prems(2) i s(1)]]) (use Suc.hyps(2) i in auto)
qed

lemma regions_value:
  "regions_ok tv es i stack \<Longrightarrow> i \<le> length es
    \<Longrightarrow> \<exists>bs. truth_machine kind_of tv (take i es) [] = Inr bs \<and> length bs = length stack"
proof (induction stack arbitrary: i)
  case Nil
  then show ?case by (simp add: truth_machine_def)
next
  case (Cons v stack)
  then obtain b where b: "region_ok tv es (vi_start v) i b (conjuncts v)" "regions_ok tv es (vi_start v) stack" by auto
  have le: "vi_start v \<le> i" "vi_start v \<le> length es" using b(1) by (auto simp: region_ok_def)
  from Cons.IH [OF b(2) le(2)] obtain bs where bs: "truth_machine kind_of tv (take (vi_start v) es) [] = Inr bs"
    "length bs = length stack" by blast
  have "take i es = take (vi_start v) es @ slice es (vi_start v, i)"
    using le(1) by (simp add: slice_def) (metis append_take_drop_id min.absorb1 take_take)
  then have "truth_machine kind_of tv (take i es) [] = Inr ([b] @ bs)"
    using truth_machine_append [OF bs(1)] truth_machine_below [of kind_of tv "slice es (vi_start v, i)" "[b]" bs] b(1)
    by (simp add: region_ok_def)
  then show ?case using bs(2) by auto
qed

text \<open>The conjuncts of a condition that has a value.\<close>

lemma topLevelConjunction_region:
  assumes "topLevelConjunction es = Inr rs" "truth_of kind_of tv es = Some b"
  shows "region_ok tv es 0 (length es) b rs"
proof -
  obtain stack where s: "conjunction_elements es 0 [] = Inr stack" "stack \<noteq> []" "rs = conjuncts (last stack)"
    using assms(1) by (auto simp: topLevelConjunction_def bind_r_Inr_iff split: if_splits)
  have reg: "regions_ok tv es (length es) stack"
    using regions_run [of 0 es "[]" stack tv] s(1) by simp
  have m: "truth_machine kind_of tv es [] = Inr [b]"
    using assms(2) by (auto simp: truth_of_def split: sum.splits list.splits)
  obtain bs where bs: "truth_machine kind_of tv (take (length es) es) [] = Inr bs" "length bs = length stack"
    using regions_value [OF reg] by blast
  with m have "length stack = 1" by auto
  then obtain v where v: "stack = [v]" by (auto simp: length_Suc_conv)
  with reg s(3) obtain b' where b': "region_ok tv es 0 (length es) b' rs" by auto
  moreover have "b' = b" using b' m by (simp add: region_ok_def slice_def)
  ultimately show ?thesis by simp
qed

text \<open>
  The top-level conjuncts make up the condition. Every range that \<open>topLevelConjunction\<close> returns is
  a non-empty part of the program that computes a value by itself, and the condition is true exactly
  when all of these values are, whatever the truth values of the atoms.
\<close>
theorem topLevelConjunction_is_conjunction:
  assumes "topLevelConjunction es = Inr rs" "truth_of kind_of tv es = Some b"
  shows "(\<forall>r \<in> set rs. fst r < snd r \<and> snd r \<le> length es \<and> truth_of kind_of tv (slice es r) \<noteq> None)
    \<and> (b \<longleftrightarrow> (\<forall>r \<in> set rs. truth_of kind_of tv (slice es r) = Some True))"
  using topLevelConjunction_region [OF assms] unfolding region_ok_def by blast

text \<open>The condition \<open>x AND NOT (y AND x)\<close>: the first conjunct is the atom, the second the negation.\<close>

lemma demo_conjunction:
  "topLevelConjunction [demo_x, demo_y, demo_x, demo_element FUNCTION_AND, demo_element FUNCTION_NOT, demo_element FUNCTION_AND]
     = Inr [(0, 1), (1, 5)]"
  by (simp add: topLevelConjunction_def demo_x_def demo_y_def)

theorem topLevelConjunction_is_conjunction_witness:
  "topLevelConjunction [demo_x, demo_y, demo_x, demo_element FUNCTION_AND, demo_element FUNCTION_NOT, demo_element FUNCTION_AND]
     = Inr [(0, 1), (1, 5)]
   \<and> truth_of kind_of (\<lambda>e. e = demo_x)
       (slice [demo_x, demo_y, demo_x, demo_element FUNCTION_AND, demo_element FUNCTION_NOT, demo_element FUNCTION_AND] (1, 5)) = Some True"
proof -
  have "el_function demo_x \<noteq> el_function demo_y" by (simp add: demo_x_def demo_y_def)
  then have ne: "demo_y \<noteq> demo_x" by metis
  have "kind_of (demo_element FUNCTION_NOT) = Negation" by (simp add: kind_of_def)
  then have "truth_of kind_of (\<lambda>e. e = demo_x)
      [demo_x, demo_y, demo_x, demo_element FUNCTION_AND, demo_element FUNCTION_NOT, demo_element FUNCTION_AND] = Some True"
    using ne by (simp add: truth_of_def truth_machine_def stack_step.simps)
  from topLevelConjunction_is_conjunction [OF demo_conjunction this] demo_conjunction show ?thesis by simp
qed

section \<open>Conditions on single columns\<close>

lemma truth_of_machine: "truth_of kind tv es = Some b \<longleftrightarrow> truth_machine kind tv es [] = Inr [b]"
  by (auto simp: truth_of_def split: sum.splits list.splits)

lemma add_rpn_ranges_truth:
  "\<forall>r \<in> set rs. truth_of kind_of tv (slice es r) \<noteq> None \<Longrightarrow> truth_of kind_of tv target = Some t \<Longrightarrow> j > 0
    \<Longrightarrow> truth_of kind_of tv (add_rpn_ranges d target es j rs)
        = Some (t \<and> (\<forall>r \<in> set rs. truth_of kind_of tv (slice es r) = Some True))"
proof (induction rs arbitrary: target t j)
  case (Cons r rs)
  obtain c where c: "truth_of kind_of tv (slice es r) = Some c" using Cons.prems(1) by auto
  have "kind_of (d\<lparr>el_function := FUNCTION_AND\<rparr>) = Conjunction" by (simp add: kind_of_def)
  then have "truth_of kind_of tv (target @ slice es r @ [d\<lparr>el_function := FUNCTION_AND\<rparr>]) = Some (c \<and> t)"
    using Cons.prems(2) c truth_machine_append truth_machine_below [of kind_of tv "slice es r" "[c]" "[t]"]
    by (simp add: truth_of_machine truth_machine_append truth_machine_single stack_step_simps)
  from Cons.IH [OF _ this, of "j + 1"] Cons.prems(1,3) c show ?case by auto
qed simp

lemma add_rpn_ranges_first:
  assumes "rs \<noteq> []" "\<forall>r \<in> set rs. truth_of kind_of tv (slice es r) \<noteq> None"
  shows "truth_of kind_of tv (add_rpn_ranges d [] es 0 rs) = Some (\<forall>r \<in> set rs. truth_of kind_of tv (slice es r) = Some True)"
proof -
  obtain r rest where rs: "rs = r # rest" using assms(1) by (cases rs) auto
  obtain c where c: "truth_of kind_of tv (slice es r) = Some c" using assms(2) rs by auto
  show ?thesis
    using add_rpn_ranges_truth [of rest tv es "slice es r" c 1 d] assms(2) c rs by simp
qed

lemma set_add_rpn_ranges:
  "e \<in> set (add_rpn_ranges d target es j rs)
    \<Longrightarrow> e \<in> set target \<or> (\<exists>r \<in> set rs. e \<in> set (slice es r)) \<or> e = d\<lparr>el_function := FUNCTION_AND\<rparr>"
  by (induction d target es j rs rule: add_rpn_ranges.induct) (auto split: if_splits)

lemma conjunct_column_elements:
  "conjunct_column es k = Some c \<Longrightarrow> (\<forall>e \<in> set es. el_key_columns e = [] \<or> el_key_columns e = [c]) \<and> (k = None \<or> k = Some c)"
proof (induction es arbitrary: k)
  case (Cons e es)
  then have n: "\<not> length (el_key_columns e) > 1" by (auto split: if_splits)
  then consider "el_key_columns e = []" | c' where "el_key_columns e = [c']"
    by (cases "el_key_columns e" rule: remdups_adj.cases) auto
  then show ?case
  proof cases
    case 1
    then show ?thesis using Cons by simp
  next
    case 2
    then have "conjunct_column es (Some c') = Some c" "k = None \<or> k = Some c'"
      using Cons.prems n by (auto split: option.splits if_splits)
    with Cons.IH [of "Some c'"] 2 show ?thesis by auto
  qed
qed simp

lemma single_column_conditions_spec:
  "single_column_conditions d kc ls i = Inr cs
    \<Longrightarrow> (\<forall>(c, k) \<in> set cs. \<exists>j < length ls. c = i + j \<and> ls ! j \<noteq> [] \<and> rpn k = add_rpn_ranges d [] (rpn kc) 0 (ls ! j))
      \<and> (\<forall>j < length ls. ls ! j \<noteq> [] \<longrightarrow> (\<exists>k. (i + j, k) \<in> set cs \<and> rpn k = add_rpn_ranges d [] (rpn kc) 0 (ls ! j)))"
proof (induction d kc ls i arbitrary: cs rule: single_column_conditions.induct)
  case (2 d kc rs rest i)
  show ?case
  proof (cases "rs = []")
    case True
    then have "single_column_conditions d kc rest (i + 1) = Inr cs" using "2.prems" by simp
    note IH = "2.IH"(1) [OF True this]
    show ?thesis
      using IH True by (fastforce simp: less_Suc_eq_0_disj)
  next
    case False
    then obtain k cs' where k: "single_column_condition d kc i rs = Inr (i, k)" "rpn k = add_rpn_ranges d [] (rpn kc) 0 rs"
      "single_column_conditions d kc rest (i + 1) = Inr cs'" "cs = (i, k) # cs'"
      using "2.prems" by (auto simp: bind_r_Inr_iff single_column_condition_def)
    note IH = "2.IH"(2) [OF False k(3)]
    show ?thesis
      using IH k(2,4) False by (fastforce simp: less_Suc_eq_0_disj)
  qed
qed simp

lemma nth_conjuncts_by_key_column:
  "c < length (conjuncts_by_key_column es rs)
    \<Longrightarrow> conjuncts_by_key_column es rs ! c = filter (\<lambda>r. conjunct_column (slice es r) None = Some c) rs"
  by (simp add: conjuncts_by_key_column_def Let_def)

lemma column_lt_length:
  assumes "r \<in> set rs" "conjunct_column (slice es r) None = Some c"
  shows "c < length (conjuncts_by_key_column es rs)"
proof -
  have "c \<in> set (List.map_filter (\<lambda>r. conjunct_column (slice es r) None) rs)"
    using assms by (force simp: List.map_filter_def)
  then show ?thesis
    by (auto simp: conjuncts_by_key_column_def Let_def less_Suc_eq_le)
qed

text \<open>
  The conditions on single columns. Each extracted condition looks at its own column only, has a
  value whenever the condition has one, and is implied by the condition; and the condition is true
  exactly when all extracted conditions and all remaining conjuncts are. The remaining conjuncts are
  never handed out: \<open>*out_complex_condition\<close> keeps the value it had before the call.
\<close>
theorem extractSingleColumnConditions_split:
  assumes run: "extractSingleColumnConditions d kc out = Inr (cs, out')"
    and top: "topLevelConjunction (rpn kc) = Inr rs"
    and val: "truth_of kind_of tv (rpn kc) = Some b" and d: "el_key_columns d = []"
  shows "out' = out
    \<and> (\<forall>(c, k) \<in> set cs. (\<forall>e \<in> set (rpn k). el_key_columns e = [] \<or> el_key_columns e = [c])
          \<and> truth_of kind_of tv (rpn k) \<noteq> None \<and> (b \<longrightarrow> truth_of kind_of tv (rpn k) = Some True))
    \<and> (b \<longleftrightarrow> (\<forall>(c, k) \<in> set cs. truth_of kind_of tv (rpn k) = Some True)
          \<and> (\<forall>r \<in> set rs. conjunct_column (slice (rpn kc) r) None = None
                \<longrightarrow> truth_of kind_of tv (slice (rpn kc) r) = Some True))"
proof -
  let ?T = "\<lambda>r. truth_of kind_of tv (slice (rpn kc) r) = Some True" and ?col = "\<lambda>r. conjunct_column (slice (rpn kc) r) None"
  let ?by = "conjuncts_by_key_column (rpn kc) rs"
  note conj = topLevelConjunction_region [OF top val, unfolded region_ok_def]
  have out: "out' = out" and cs: "(\<forall>r \<in> set rs. ?col r = None) \<and> cs = []
      \<or> single_column_conditions d kc ?by 0 = Inr cs"
    using run top by (auto simp: extractSingleColumnConditions_def Let_def bind_r_Inr_iff split: if_splits)
  have spec: "(\<forall>(c, k) \<in> set cs. c < length ?by \<and> ?by ! c \<noteq> [] \<and> rpn k = add_rpn_ranges d [] (rpn kc) 0 (?by ! c))
      \<and> (\<forall>c < length ?by. ?by ! c \<noteq> [] \<longrightarrow> (\<exists>k. (c, k) \<in> set cs \<and> rpn k = add_rpn_ranges d [] (rpn kc) 0 (?by ! c)))"
    using cs
  proof
    assume "(\<forall>r \<in> set rs. ?col r = None) \<and> cs = []"
    moreover from this have "?by = []" by (simp add: conjuncts_by_key_column_def List.map_filter_def Let_def)
    ultimately show ?thesis by simp
  next
    assume "single_column_conditions d kc ?by 0 = Inr cs"
    from single_column_conditions_spec [OF this] show ?thesis by fastforce
  qed
  have col_value: "truth_of kind_of tv (rpn k) = Some (\<forall>r \<in> set rs. ?col r = Some c \<longrightarrow> ?T r)"
    and columns: "\<forall>e \<in> set (rpn k). el_key_columns e = [] \<or> el_key_columns e = [c]" if "(c, k) \<in> set cs" for c k
  proof -
    have c: "c < length ?by" "?by ! c \<noteq> []" "rpn k = add_rpn_ranges d [] (rpn kc) 0 (?by ! c)"
      using spec that by auto
    have by_c: "?by ! c = filter (\<lambda>r. ?col r = Some c) rs" using nth_conjuncts_by_key_column [OF c(1)] .
    show "truth_of kind_of tv (rpn k) = Some (\<forall>r \<in> set rs. ?col r = Some c \<longrightarrow> ?T r)"
    proof -
      have "\<forall>r \<in> set (?by ! c). truth_of kind_of tv (slice (rpn kc) r) \<noteq> None" using conj by_c by auto
      from add_rpn_ranges_first [OF c(2) this, of d] show ?thesis unfolding c(3) unfolding by_c by auto
    qed
    show "\<forall>e \<in> set (rpn k). el_key_columns e = [] \<or> el_key_columns e = [c]"
    proof
      fix e assume "e \<in> set (rpn k)"
      then consider r where "r \<in> set (?by ! c)" "e \<in> set (slice (rpn kc) r)" | "e = d\<lparr>el_function := FUNCTION_AND\<rparr>"
        unfolding c(3) using set_add_rpn_ranges by fastforce
      then show "el_key_columns e = [] \<or> el_key_columns e = [c]"
        by cases (use d by_c conjunct_column_elements [of _ None c] in auto)
    qed
  qed
  have "b \<longleftrightarrow> (\<forall>r \<in> set rs. ?T r)" using conj by blast
  also have "\<dots> \<longleftrightarrow> (\<forall>(c, k) \<in> set cs. truth_of kind_of tv (rpn k) = Some True) \<and> (\<forall>r \<in> set rs. ?col r = None \<longrightarrow> ?T r)"
  proof (intro iffI conjI ballI impI)
    fix r assume all: "(\<forall>(c, k) \<in> set cs. truth_of kind_of tv (rpn k) = Some True) \<and> (\<forall>r \<in> set rs. ?col r = None \<longrightarrow> ?T r)"
      and r: "r \<in> set rs"
    show "?T r"
    proof (cases "?col r")
      case None
      then show ?thesis using all r by blast
    next
      case (Some c)
      have c: "c < length ?by" using column_lt_length [OF r Some] .
      then have "?by ! c \<noteq> []" using nth_conjuncts_by_key_column [OF c] r Some by (auto simp: filter_empty_conv)
      then obtain k where "(c, k) \<in> set cs" using spec c by blast
      with all col_value [OF this] r Some show ?thesis by auto
    qed
  next
    fix p assume "\<forall>r \<in> set rs. ?T r" "p \<in> set cs"
    then show "case p of (c, k) \<Rightarrow> truth_of kind_of tv (rpn k) = Some True"
      using col_value [of "fst p" "snd p"] by (auto split: prod.splits)
  qed blast
  finally have split: "b \<longleftrightarrow> (\<forall>(c, k) \<in> set cs. truth_of kind_of tv (rpn k) = Some True) \<and> (\<forall>r \<in> set rs. ?col r = None \<longrightarrow> ?T r)" .
  have "\<forall>(c, k) \<in> set cs. (\<forall>e \<in> set (rpn k). el_key_columns e = [] \<or> el_key_columns e = [c])
      \<and> truth_of kind_of tv (rpn k) \<noteq> None \<and> (b \<longrightarrow> truth_of kind_of tv (rpn k) = Some True)"
    using col_value columns split by fastforce
  then show ?thesis using out split by blast
qed

text \<open>
  \<open>x AND (y OR x)\<close>: the first conjunct is on column 0; the second stays, and the caller's
  pointer is left empty.
\<close>

definition demo_mixed_condition :: "(demo_field, demo_function, nat list, unit) key_condition" where
  "demo_mixed_condition = demo_condition\<lparr>rpn := [demo_x, demo_y, demo_x, demo_element FUNCTION_OR, demo_element FUNCTION_AND]\<rparr>"

lemma demo_mixed:
  "topLevelConjunction (rpn demo_mixed_condition) = Inr [(0, 1), (1, 4)]"
  "extractSingleColumnConditions (demo_element FUNCTION_UNKNOWN) demo_mixed_condition None
     = Inr ([(0, demo_mixed_condition\<lparr>rpn := [demo_x], kc_key_columns := [(''x'', 0)]\<rparr>)], None)"
proof -
  show top: "topLevelConjunction (rpn demo_mixed_condition) = Inr [(0, 1), (1, 4)]"
    by (simp add: topLevelConjunction_def demo_mixed_condition_def demo_x_def demo_y_def)
  have col: "conjunct_column (slice (rpn demo_mixed_condition) (0, 1)) None = Some 0"
    "conjunct_column (slice (rpn demo_mixed_condition) (1, 4)) None = None"
    by (simp_all add: slice_def demo_mixed_condition_def demo_x_def demo_y_def)
  note col' = col [simplified]
  have by_col: "conjuncts_by_key_column (rpn demo_mixed_condition) [(0, 1), (1, 4)] = [[(0, 1)]]"
    by (simp add: conjuncts_by_key_column_def List.map_filter_def col' Let_def)
  show "extractSingleColumnConditions (demo_element FUNCTION_UNKNOWN) demo_mixed_condition None
     = Inr ([(0, demo_mixed_condition\<lparr>rpn := [demo_x], kc_key_columns := [(''x'', 0)]\<rparr>)], None)"
    unfolding extractSingleColumnConditions_def top
    by (simp add: by_col [simplified] col' Let_def single_column_condition_def key_column_name_def)
       (simp add: demo_mixed_condition_def demo_condition_def slice_def)
qed

theorem extractSingleColumnConditions_split_witness:
  "extractSingleColumnConditions (demo_element FUNCTION_UNKNOWN) demo_mixed_condition None
     = Inr ([(0, demo_mixed_condition\<lparr>rpn := [demo_x], kc_key_columns := [(''x'', 0)]\<rparr>)], None)
   \<and> (\<exists>b. truth_of kind_of (\<lambda>e. e = demo_x) (rpn demo_mixed_condition) = Some b
        \<and> (b \<longrightarrow> truth_of kind_of (\<lambda>e. e = demo_x) [demo_x] = Some True))"
proof -
  have "kind_of (demo_element FUNCTION_OR) = Disjunction" by (simp add: kind_of_def)
  then have "truth_of kind_of (\<lambda>e. e = demo_x) (rpn demo_mixed_condition) = Some True"
    by (simp add: truth_of_def truth_machine_def stack_step.simps demo_mixed_condition_def)
  from extractSingleColumnConditions_split [OF demo_mixed(2,1) this] demo_mixed(2) this show ?thesis by auto
qed

end
