(* ===== verification/Key_Condition_Plain.thy ===== *)
theory Key_Condition_Plain
  imports Key_Condition_Analysis
begin

text \<open>
  The value ranges of a condition on one key column (\<open>extractPlainRanges\<close>,
  \<open>extractBounds\<close>), and the check whether a condition selects one continuous range of the
  primary key (\<open>matchesExactContinuousRange\<close>). \<open>PlainRanges\<close> and
  \<open>Range\<close> are outside the repository; a \<open>PlainRanges\<close> is the list of ranges that
  is its only member in use.
\<close>

section \<open>Plain ranges\<close>

record 'f plain_ops =
  intersectWith :: "'f key_range list \<Rightarrow> 'f key_range list \<Rightarrow> 'f key_range list"
  unionWith :: "'f key_range list \<Rightarrow> 'f key_range list \<Rightarrow> 'f key_range list"
  invert_plain :: "'f key_range list \<Rightarrow> 'f key_range list list"
  invertRange :: "'f key_range \<Rightarrow> 'f key_range list"
  makeBlank :: "'f key_range list"
  makeUniverse :: "'f key_range list"

text \<open>What the code asks of a set: the values of its first column in order, and whether it has a chain.\<close>

record 'f plain_set =
  set_first_values :: "'f list"
  set_has_chain :: bool

fun point_ranges :: "('f, 'f key_range) range_ops \<Rightarrow> ('f \<Rightarrow> bool) \<Rightarrow> 'f list \<Rightarrow> 'f key_range list option" where
  "point_ranges ops is_null [] = Some []"
| "point_ranges ops is_null (f # fs) =
     (if is_null f then None else map_option ((#) (point_range ops f)) (point_ranges ops is_null fs))"

definition blank_between :: "'f::linorder \<Rightarrow> 'f \<Rightarrow> bool" where
  "blank_between l r \<longleftrightarrow> l > r \<or> l = r"

text \<open>The ranges between the values of a set; \<open>pre\<close> is the previous value.\<close>

fun gap_ranges ::
  "('f::linorder, 'f key_range) range_ops \<Rightarrow> ('f \<Rightarrow> bool) \<Rightarrow> 'f option \<Rightarrow> 'f list \<Rightarrow> 'f key_range list option" where
  "gap_ranges ops is_null pre [] =
     (case pre of None \<Rightarrow> Some [] | Some p \<Rightarrow> Some [createLeftBounded ops p False False])"
| "gap_ranges ops is_null pre (cur # rest) =
     (if is_null cur then None
      else map_option
        ((@) (case pre of
                None \<Rightarrow> [createRightBounded ops cur False False]
              | Some p \<Rightarrow> if blank_between p cur then [] else [make_range ops p False cur False]))
        (gap_ranges ops is_null (Some cur) rest))"

text \<open>
  The atoms; the left result \<open>Inr ()\<close> is the early return of \<open>false\<close>,
  \<open>Inl\<close> an error. The values on the stack carry the error of an inversion that gives no ranges.
\<close>

definition plain_atom ::
  "('f::linorder, 'f key_range) range_ops \<Rightarrow> 'f plain_ops \<Rightarrow> ('s \<Rightarrow> 'f plain_set) \<Rightarrow> ('f \<Rightarrow> bool) \<Rightarrow> bool
     \<Rightarrow> ('f, 'fn, 's, 'p) rpn_element \<Rightarrow> (error + unit) + 'f key_range list result" where
  "plain_atom ops pops set_of is_null filter_present e =
     (case el_function e of
        FUNCTION_IN_RANGE \<Rightarrow> Inr (Inr [el_range e])
      | FUNCTION_NOT_IN_RANGE \<Rightarrow> Inr (Inr (invertRange pops (el_range e)))
      | FUNCTION_IN_SET \<Rightarrow>
          (case set_index e of
             None \<Rightarrow> Inl (Inl UB)
           | Some s \<Rightarrow>
               if set_has_chain (set_of s) then Inl (Inr ())
               else if set_first_values (set_of s) = [] then Inr (Inr (makeBlank pops))
               else (case point_ranges ops is_null (set_first_values (set_of s)) of
                       None \<Rightarrow> Inl (Inr ()) | Some rs \<Rightarrow> Inr (Inr rs)))
      | FUNCTION_NOT_IN_SET \<Rightarrow>
          (case set_index e of
             None \<Rightarrow> Inl (Inl UB)
           | Some s \<Rightarrow>
               if set_has_chain (set_of s) then Inl (Inr ())
               else if set_first_values (set_of s) = [] then Inr (Inr (makeUniverse pops))
               else (case gap_ranges ops is_null None (set_first_values (set_of s)) of
                       None \<Rightarrow> Inl (Inr ()) | Some rs \<Rightarrow> Inr (Inr rs)))
      | ALWAYS_FALSE \<Rightarrow> Inr (Inr (makeBlank pops))
      | ALWAYS_TRUE \<Rightarrow> Inr (Inr (makeUniverse pops))
      | FUNCTION_IS_NULL \<Rightarrow> Inr (Inr (makeBlank pops))
      | FUNCTION_IS_NOT_NULL \<Rightarrow> Inr (Inr (makeUniverse pops))
      | _ \<Rightarrow> if \<not> filter_present then Inr (Inr (makeUniverse pops)) else Inl (Inr ()))"

definition plain_not :: "'f plain_ops \<Rightarrow> 'f key_range list result \<Rightarrow> 'f key_range list result" where
  "plain_not pops v = bind_r v (\<lambda>rs.
     case invert_plain pops rs of
       [] \<Rightarrow> Inl UB
     | r # rest \<Rightarrow> Inr (foldl (intersectWith pops) r rest))"

definition plain_and ::
  "'f plain_ops \<Rightarrow> 'f key_range list result \<Rightarrow> 'f key_range list result \<Rightarrow> 'f key_range list result" where
  "plain_and pops right left = bind_r right (\<lambda>r. bind_r left (\<lambda>l. Inr (intersectWith pops l r)))"

definition plain_or ::
  "'f plain_ops \<Rightarrow> 'f key_range list result \<Rightarrow> 'f key_range list result \<Rightarrow> 'f key_range list result" where
  "plain_or pops right left = bind_r right (\<lambda>r. bind_r left (\<lambda>l. Inr (unionWith pops l r)))"

definition extractPlainRanges ::
  "('f::linorder, 'f key_range) range_ops \<Rightarrow> 'f plain_ops \<Rightarrow> ('s \<Rightarrow> 'f plain_set) \<Rightarrow> ('f \<Rightarrow> bool)
     \<Rightarrow> ('f, 'fn, 's, 'p) key_condition \<Rightarrow> 'f key_range list option result" where
  "extractPlainRanges ops pops set_of is_null kc =
     (if length (kc_key_columns kc) \<noteq> 1 then Inr None
      else if hasMonotonicFunctionsChain (\<lambda>s. set_has_chain (set_of s)) kc then Inr None
      else case stack_machine (Inl UB) kind_of (plain_atom ops pops set_of is_null (has_filter kc))
                  (plain_not pops) (plain_and pops) (plain_or pops) (rpn kc) [] of
        Inl (Inr ()) \<Rightarrow> Inr None
      | Inl (Inl err) \<Rightarrow> Inl err
      | Inr stack \<Rightarrow>
          if list_ex isl stack then Inl UB
          else case stack of [v] \<Rightarrow> map_sum id Some v | _ \<Rightarrow> Inl LOGICAL_ERROR)"

text \<open>
  \<open>extractBounds\<close>: the loop over the top-level conjuncts; a returned list of ranges ends it early.
\<close>

definition one_conjunct :: "('f, 'fn, 's, 'p) key_condition \<Rightarrow> nat \<times> nat \<Rightarrow> ('f, 'fn, 's, 'p) key_condition" where
  "one_conjunct kc r = \<lparr>rpn = slice (rpn kc) r, has_filter = True, kc_key_columns = kc_key_columns kc,
     num_key_columns = num_key_columns kc, key_space_filling_curves = [], single_point = single_point kc,
     date_time_overflow_behavior_ignore = date_time_overflow_behavior_ignore kc, kc_relaxed = kc_relaxed kc\<rparr>"

fun bounds_loop ::
  "('f::linorder, 'f key_range) range_ops \<Rightarrow> 'f plain_ops \<Rightarrow> ('s \<Rightarrow> 'f plain_set) \<Rightarrow> ('f \<Rightarrow> bool)
     \<Rightarrow> ('f, 'fn, 's, 'p) key_condition \<Rightarrow> (nat \<times> nat) list \<Rightarrow> bool \<Rightarrow> 'f key_range list \<Rightarrow> 'f key_range list result" where
  "bounds_loop ops pops set_of is_null kc [] extracted_any bounds =
     Inr (if \<not> extracted_any then [wholeUniverseWithoutNull ops] else bounds)"
| "bounds_loop ops pops set_of is_null kc (r # rs) extracted_any bounds =
     bind_r (extractPlainRanges ops pops set_of is_null (one_conjunct kc r)) (\<lambda>res.
       case res of
         None \<Rightarrow> bounds_loop ops pops set_of is_null kc rs extracted_any bounds
       | Some conjunct_ranges \<Rightarrow>
           if conjunct_ranges = [] then Inr []
           else let bounds = intersectWith pops bounds conjunct_ranges
                in if bounds = [] then Inr []
                   else bounds_loop ops pops set_of is_null kc rs True bounds)"

definition extractBounds ::
  "('f::linorder, 'f key_range) range_ops \<Rightarrow> 'f plain_ops \<Rightarrow> ('s \<Rightarrow> 'f plain_set) \<Rightarrow> ('f \<Rightarrow> bool)
     \<Rightarrow> ('f, 'fn, 's, 'p) key_condition \<Rightarrow> 'f key_range list result" where
  "extractBounds ops pops set_of is_null kc =
     (if length (kc_key_columns kc) \<noteq> 1 then Inr [wholeUniverseWithoutNull ops]
      else if \<not> has_filter kc then Inr [wholeUniverseWithoutNull ops]
      else bind_r (topLevelConjunction (rpn kc)) (\<lambda>rs.
             bounds_loop ops pops set_of is_null kc rs False (makeUniverse pops)))"

section \<open>Continuous ranges of the key\<close>

datatype key_constraint = POINT | RANGE | UNKNOWN_CONSTRAINT

text \<open>
  The monotonicity of a chain: always monotonic, and strict. \<open>argument_type\<close> is
  \<open>None\<close> where a function has no information about monotonicity or no argument type;
  \<open>null\<close> is the empty field.
\<close>

fun chain_monotonicity ::
  "('f, 'ty, 'fn, 's, 'p, 'x) key_env \<Rightarrow> ('fn \<Rightarrow> 'ty option) \<Rightarrow> 'f \<Rightarrow> 'fn list \<Rightarrow> bool \<Rightarrow> bool \<Rightarrow> bool \<times> bool" where
  "chain_monotonicity env argument_type null [] all_always all_strict = (all_always, all_strict)"
| "chain_monotonicity env argument_type null (func # chain) all_always all_strict =
     (case argument_type func of
        None \<Rightarrow> (False, False)
      | Some ty \<Rightarrow>
          let mon = getMonotonicityForRange env func ty null null;
              all_always = (all_always \<and> is_always_monotonic mon);
              all_strict = (all_strict \<and> is_strict mon)
          in if \<not> all_always \<and> \<not> all_strict then (all_always, all_strict)
             else chain_monotonicity env argument_type null chain all_always all_strict)"

definition constrain :: "bool \<Rightarrow> key_constraint \<Rightarrow> key_constraint" where
  "constrain point constraint =
     (if point then POINT else if constraint \<noteq> POINT then RANGE else constraint)"

definition constrain_column :: "nat \<Rightarrow> bool \<Rightarrow> key_constraint list \<Rightarrow> key_constraint list result" where
  "constrain_column c point constraints =
     (if c < length constraints then Inr (constraints[c := constrain point (constraints ! c)]) else Inl STD_OUT_OF_RANGE)"

text \<open>The mappings of a set with one element; \<open>None\<close> is the early return of \<open>false\<close>.\<close>

fun constrain_mappings ::
  "('f, 'ty, 'fn, 's, 'p, 'x) key_env \<Rightarrow> ('fn \<Rightarrow> 'ty option) \<Rightarrow> 'f \<Rightarrow> (nat \<times> 'fn list) list \<Rightarrow> key_constraint list
     \<Rightarrow> key_constraint list option result" where
  "constrain_mappings env argument_type null [] constraints = Inr (Some constraints)"
| "constrain_mappings env argument_type null ((key_index, functions) # mappings) constraints =
     (case chain_monotonicity env argument_type null functions True True of
        (always, strict) \<Rightarrow>
          if \<not> always then Inr None
          else bind_r (constrain_column key_index strict constraints) (\<lambda>constraints.
                 constrain_mappings env argument_type null mappings constraints))"

definition constrain_element ::
  "('f, 'ty, 'fn, 's, 'p, 'x) key_env \<Rightarrow> ('fn \<Rightarrow> 'ty option) \<Rightarrow> 'f \<Rightarrow> ('s \<Rightarrow> nat) \<Rightarrow> ('s \<Rightarrow> (nat \<times> 'fn list) list)
     \<Rightarrow> ('f, 'fn, 's, 'p) rpn_element \<Rightarrow> key_constraint list \<Rightarrow> key_constraint list option result" where
  "constrain_element env argument_type null set_size set_mapping e constraints =
     (if el_function e \<in> {FUNCTION_AND, FUNCTION_UNKNOWN, ALWAYS_TRUE} then Inr (Some constraints)
      else case (el_function e, set_index e) of
        (FUNCTION_IN_SET, Some s) \<Rightarrow>
          if set_size s = 1 then constrain_mappings env argument_type null (set_mapping s) constraints else Inr None
      | (FUNCTION_IN_RANGE, _) \<Rightarrow>
          (case chain_monotonicity env argument_type null (monotonic_functions_chain e) True True of
             (always, strict) \<Rightarrow>
               if \<not> always then Inr None
               else bind_r (getKeyColumn e) (\<lambda>c.
                    bind_r (constrain_column c (range_left (el_range e) = range_right (el_range e) \<and> strict) constraints)
                      (\<lambda>constraints. Inr (Some constraints))))
      | _ \<Rightarrow> Inr None)"

fun constrain_elements ::
  "('f, 'ty, 'fn, 's, 'p, 'x) key_env \<Rightarrow> ('fn \<Rightarrow> 'ty option) \<Rightarrow> 'f \<Rightarrow> ('s \<Rightarrow> nat) \<Rightarrow> ('s \<Rightarrow> (nat \<times> 'fn list) list)
     \<Rightarrow> ('f, 'fn, 's, 'p) rpn_element list \<Rightarrow> key_constraint list \<Rightarrow> key_constraint list option result" where
  "constrain_elements env argument_type null set_size set_mapping [] constraints = Inr (Some constraints)"
| "constrain_elements env argument_type null set_size set_mapping (e # es) constraints =
     bind_r (constrain_element env argument_type null set_size set_mapping e constraints) (\<lambda>res.
       case res of
         None \<Rightarrow> Inr None
       | Some constraints \<Rightarrow> constrain_elements env argument_type null set_size set_mapping es constraints)"

fun constraint_rank :: "key_constraint \<Rightarrow> nat" where
  "constraint_rank POINT = 0"
| "constraint_rank RANGE = 1"
| "constraint_rank UNKNOWN_CONSTRAINT = 2"

fun constraints_continuous :: "key_constraint \<Rightarrow> key_constraint list \<Rightarrow> bool" where
  "constraints_continuous min_constraint [] = True"
| "constraints_continuous min_constraint (c # cs) =
     (if constraint_rank c < constraint_rank min_constraint then False
      else if c = RANGE \<and> min_constraint = RANGE then False
      else constraints_continuous c cs)"

definition matchesExactContinuousRange ::
  "('f, 'ty, 'fn, 's, 'p, 'x) key_env \<Rightarrow> ('fn \<Rightarrow> 'ty option) \<Rightarrow> 'f \<Rightarrow> ('s \<Rightarrow> nat) \<Rightarrow> ('s \<Rightarrow> (nat \<times> 'fn list) list)
     \<Rightarrow> ('f, 'fn, 's, 'p) key_condition \<Rightarrow> bool result" where
  "matchesExactContinuousRange env argument_type null set_size set_mapping kc =
     bind_r (constrain_elements env argument_type null set_size set_mapping (rpn kc)
               (replicate (num_key_columns kc) UNKNOWN_CONSTRAINT)) (\<lambda>res.
       case res of
         None \<Rightarrow> Inr False
       | Some [] \<Rightarrow> Inl UB
       | Some (c # cs) \<Rightarrow> Inr (if constraint_rank c > constraint_rank RANGE then False else constraints_continuous c cs))"

end
