(* ===== verification/Select_Ranges.thy ===== *)
theory Select_Ranges
  imports Mark_Range Key_Condition_Plain
begin

text \<open>
  \<open>MergeTreeDataSelectExecutor\<close>, the selection of marks by the primary key
  (\<open>markRangesFromPKRange\<close>) and by the saved results of the skip indexes
  (\<open>mergePartialResultsForDisjunctions\<close>). The part, its index in memory and its granularity are the
  record \<open>part_view\<close>; logging, step counts and profile events are left out. A loop that may run for
  ever is a partial function with the value \<open>None\<close> then.
\<close>

section \<open>Numbers of marks\<close>

definition div_up64 :: "size_t \<Rightarrow> size_t \<Rightarrow> size_t" where
  "div_up64 a b = sub64 (add64 a b) 1 div b"

definition roundRowsOrBytesToMarks :: "size_t \<Rightarrow> size_t \<Rightarrow> size_t \<Rightarrow> size_t \<Rightarrow> size_t result" where
  "roundRowsOrBytesToMarks rows_setting bytes_setting rows_granularity bytes_granularity =
     (if rows_granularity = 0 then Inl UB
      else let res = div_up64 rows_setting rows_granularity
           in if bytes_granularity = 0 then Inr res
              else Inr (max res (div_up64 bytes_setting bytes_granularity)))"

definition minMarksForConcurrentRead ::
  "size_t \<Rightarrow> size_t \<Rightarrow> size_t \<Rightarrow> size_t \<Rightarrow> size_t \<Rightarrow> size_t \<Rightarrow> size_t result" where
  "minMarksForConcurrentRead rows_setting bytes_setting rows_granularity bytes_granularity min_marks max_marks =
     bind_r
       (if add64 rows_setting rows_granularity \<le> rows_setting then Inr max_marks
        else if rows_setting \<noteq> 0
        then if rows_granularity = 0 then Inl UB else Inr (div_up64 rows_setting rows_granularity)
        else Inr 1) (\<lambda>marks.
     let marks =
       (if bytes_granularity \<noteq> 0
        then if add64 bytes_setting bytes_granularity \<le> bytes_setting then max_marks
             else if bytes_setting \<noteq> 0 then max marks (div_up64 bytes_setting bytes_granularity)
             else marks
        else marks)
     in Inr (max marks min_marks))"

section \<open>The check of a range of marks\<close>

text \<open>What the check needs of fields and types, beside \<open>key_env\<close>.\<close>

record ('f, 'ty) field_env =
  range_constructors :: "('f, 'f key_range) range_ops"
  NEGATIVE_INFINITY :: 'f
  POSITIVE_INFINITY :: 'f
  is_nullable_type :: "'ty \<Rightarrow> bool"
  part_offset_types :: "'ty list"

text \<open>
  The part: the key columns that are loaded in memory, with a value for each mark; the types of the
  primary key; the flags of descending key columns (empty when there are none).
\<close>

record ('f, 'ty) part_view =
  part_marks_count :: size_t
  loaded_index :: "'f list list"
  primary_key_types :: "'ty list"
  reverse_flags :: "bool list"
  mark_starting_row :: "size_t \<Rightarrow> size_t result"
  part_name_field :: 'f
  part_starting_offset_in_query :: size_t

definition create_field_ref ::
  "('f, 'ty, 'fn, 's, 'p, 'x) key_env \<Rightarrow> ('f, 'ty) field_env \<Rightarrow> 'f list \<Rightarrow> size_t \<Rightarrow> 'f result" where
  "create_field_ref env fe column row =
     bind_r (element_at column row) (\<lambda>field. Inr (if isNull env field then POSITIVE_INFINITY fe else field))"

text \<open>The bounds of one key column: the elements of \<open>index_left\<close> and \<open>index_right\<close>.\<close>

definition key_bound ::
  "('f, 'ty, 'fn, 's, 'p, 'x) key_env \<Rightarrow> ('f, 'ty) field_env \<Rightarrow> ('f, 'ty) part_view \<Rightarrow> mark_range \<Rightarrow> nat
     \<Rightarrow> ('f \<times> 'f) result" where
  "key_bound env fe part r i =
     bind_r
       (if i < length (loaded_index part)
        then bind_r (create_field_ref env fe (loaded_index part ! i) (range_begin r)) (\<lambda>left.
             if range_end r = part_marks_count part then Inr (left, POSITIVE_INFINITY fe)
             else bind_r (create_field_ref env fe (loaded_index part ! i) (range_end r)) (\<lambda>right. Inr (left, right)))
        else Inr (NEGATIVE_INFINITY fe, POSITIVE_INFINITY fe))
       (\<lambda>(left, right).
          if i < length (loaded_index part) \<and> reverse_flags part \<noteq> [] \<and> reverse_flags part ! i
          then Inr (right, left) else Inr (left, right))"

fun key_bounds ::
  "('f, 'ty, 'fn, 's, 'p, 'x) key_env \<Rightarrow> ('f, 'ty) field_env \<Rightarrow> ('f, 'ty) part_view \<Rightarrow> mark_range \<Rightarrow> nat list
     \<Rightarrow> ('f list \<times> 'f list) result" where
  "key_bounds env fe part r [] = Inr ([], [])"
| "key_bounds env fe part r (i # rest) =
     bind_r (key_bound env fe part r i) (\<lambda>(left, right).
     bind_r (key_bounds env fe part r rest) (\<lambda>(index_left, index_right).
       Inr (left # index_left, right # index_right)))"

definition check_key_condition ::
  "('f, 'ty, 'fn, 's, 'p, 'x::linorder) key_env \<Rightarrow> ('f, 'ty) field_env \<Rightarrow> ('f, 'ty) part_view
     \<Rightarrow> ('f, 'fn, 's, 'p) key_condition \<Rightarrow> mark_range \<Rightarrow> bool_mask \<Rightarrow> bool_mask result" where
  "check_key_condition env fe part kc r initial_mask =
     (let used_key_size = num_key_columns kc; key_types = take used_key_size (primary_key_types part)
      in bind_r (key_bounds env fe part r [0 ..< used_key_size]) (\<lambda>(index_left, index_right).
           checkInRange (range_constructors fe) used_key_size index_left index_right
             (map (is_nullable_type fe) key_types) initial_mask (check_callback env kc key_types)))"

text \<open>
  The conditions on \<open>_part_offset\<close> (and \<open>_part\<close>) and on the offset in the whole
  query, of the arrays for both of which the latter reads the first element.
\<close>

definition check_offset_condition ::
  "('f, 'ty, 'fn, 's, 'p, 'x::linorder) key_env \<Rightarrow> ('f, 'ty) field_env \<Rightarrow> ('f, 'ty) part_view
     \<Rightarrow> ('f, 'fn, 's, 'p) key_condition \<Rightarrow> nat \<Rightarrow> size_t \<Rightarrow> mark_range \<Rightarrow> bool_mask \<Rightarrow> bool_mask result" where
  "check_offset_condition env fe part kc used_key_size starting_offset r initial_mask =
     bind_r (mark_starting_row part (range_begin r)) (\<lambda>first.
     bind_r (mark_starting_row part (range_end r)) (\<lambda>next.
       let last = sub64 next 1
       in if first > last then Inr (BoolMask False True)
          else checkInRange (range_constructors fe) used_key_size
                 (take used_key_size [UInt64_field env (add64 first starting_offset), part_name_field part])
                 (take used_key_size [UInt64_field env (add64 last starting_offset), part_name_field part])
                 (take used_key_size (map (is_nullable_type fe) (part_offset_types fe))) initial_mask
                 (check_callback env kc (part_offset_types fe))))"

definition and_check :: "bool \<Rightarrow> bool_mask result \<Rightarrow> bool_mask \<Rightarrow> bool_mask result" where
  "and_check useful check result = (if useful then bind_r check (\<lambda>m. Inr (mask_and result m)) else Inr result)"

text \<open>The three conditions with the flags that say which of them are useful.\<close>

record ('f, 'fn, 's, 'p) select_conditions =
  sc_key :: "('f, 'fn, 's, 'p) key_condition"
  sc_part_offset :: "('f, 'fn, 's, 'p) key_condition option"
  sc_total_offset :: "('f, 'fn, 's, 'p) key_condition option"

type_synonym useful_flags = "bool \<times> bool \<times> bool"

definition check_in_range ::
  "('f, 'ty, 'fn, 's, 'p, 'x::linorder) key_env \<Rightarrow> ('f, 'ty) field_env \<Rightarrow> ('f, 'ty) part_view
     \<Rightarrow> ('f, 'fn, 's, 'p) select_conditions \<Rightarrow> useful_flags \<Rightarrow> mark_range \<Rightarrow> bool_mask \<Rightarrow> bool_mask result" where
  "check_in_range env fe part conds flags r initial_mask =
     (let (key_useful, part_useful, total_useful) = flags
      in bind_r (and_check key_useful (check_key_condition env fe part (sc_key conds) r initial_mask) (BoolMask True False)) (\<lambda>result.
         bind_r (and_check part_useful
                   (check_offset_condition env fe part (the (sc_part_offset conds)) 2 0 r initial_mask) result) (\<lambda>result.
         and_check total_useful
           (check_offset_condition env fe part (the (sc_total_offset conds)) 1
              (part_starting_offset_in_query part) r initial_mask) result)))"

section \<open>Exclusion search\<close>

text \<open>A mark or range is appended, or joined to the last range when the gap is small.\<close>

definition add_mark :: "size_t \<Rightarrow> mark_range list \<Rightarrow> mark_range \<Rightarrow> mark_range list" where
  "add_mark min_marks_for_seek res r =
     (if res = [] \<or> sub64 (range_begin r) (range_end (last res)) > min_marks_for_seek then res @ [r]
      else butlast res @ [(last res)\<lparr>range_end := range_end r\<rparr>])"

text \<open>The segments of a range, from right to left on the stack; the head is the back of the stack.\<close>

partial_function (option) split_from ::
  "size_t \<Rightarrow> size_t \<Rightarrow> size_t \<Rightarrow> mark_range list \<Rightarrow> mark_range list option" where
  "split_from first step end_mark stack =
     (if end_mark > add64 first step
      then split_from first step (sub64 end_mark step) (MarkRange (sub64 end_mark step) end_mark # stack)
      else Some (MarkRange first end_mark # stack))"

definition split_range :: "size_t \<Rightarrow> mark_range \<Rightarrow> mark_range list \<Rightarrow> mark_range list option" where
  "split_range coarse r stack =
     (let step = add64 (sub64 (sub64 (range_end r) (range_begin r)) 1 div coarse) 1
      in split_from (range_begin r) step (range_end r) stack)"

type_synonym found_ranges = "mark_range list \<times> mark_range list option"

definition is_single_mark :: "mark_range \<Rightarrow> bool" where
  "is_single_mark r \<longleftrightarrow> range_end r = add64 (range_begin r) 1"

definition found_mark :: "size_t \<Rightarrow> mark_range \<Rightarrow> bool_mask \<Rightarrow> found_ranges \<Rightarrow> found_ranges" where
  "found_mark min_marks_for_seek r m found =
     (add_mark min_marks_for_seek (fst found) r,
      (case snd found of
         None \<Rightarrow> None
       | Some exact \<Rightarrow> Some (if \<not> can_be_false m then add_mark min_marks_for_seek exact r else exact)))"

partial_function (option) exclusion_loop ::
  "(mark_range \<Rightarrow> bool_mask \<Rightarrow> bool_mask result) \<Rightarrow> size_t \<Rightarrow> size_t \<Rightarrow> mark_range list \<Rightarrow> found_ranges
     \<Rightarrow> found_ranges result option" where
  "exclusion_loop check coarse min_marks_for_seek stack found =
     (case stack of
        [] \<Rightarrow> Some (Inr found)
      | r # stack \<Rightarrow>
          (case check r (if snd found \<noteq> None \<and> is_single_mark r then BoolMask False False else consider_only_can_be_true) of
             Inl err \<Rightarrow> Some (Inl err)
           | Inr m \<Rightarrow>
               if \<not> can_be_true m then exclusion_loop check coarse min_marks_for_seek stack found
               else if is_single_mark r
               then exclusion_loop check coarse min_marks_for_seek stack (found_mark min_marks_for_seek r m found)
               else Option.bind (split_range coarse r stack) (\<lambda>stack.
                      exclusion_loop check coarse min_marks_for_seek stack found)))"

text \<open>Sequencing of computations that may throw or not return.\<close>

definition bind_or :: "'a result option \<Rightarrow> ('a \<Rightarrow> 'b result option) \<Rightarrow> 'b result option" where
  "bind_or x f = Option.bind x (\<lambda>r. case r of Inl err \<Rightarrow> Some (Inl err) | Inr a \<Rightarrow> f a)"

lemma bind_or_simps [simp]:
  "bind_or None f = None" "bind_or (Some (Inl err)) f = Some (Inl err)" "bind_or (Some (Inr a)) f = f a"
  by (simp_all add: bind_or_def)

fun exclusion_search ::
  "(mark_range \<Rightarrow> bool_mask \<Rightarrow> bool_mask result) \<Rightarrow> size_t \<Rightarrow> size_t \<Rightarrow> mark_range list \<Rightarrow> found_ranges
     \<Rightarrow> found_ranges result option" where
  "exclusion_search check coarse min_marks_for_seek [] found = Some (Inr found)"
| "exclusion_search check coarse min_marks_for_seek (r # rs) found =
     bind_or (exclusion_loop check coarse min_marks_for_seek [r] found) (\<lambda>found.
       exclusion_search check coarse min_marks_for_seek rs found)"

section \<open>Binary search\<close>

partial_function (option) search_left ::
  "(mark_range \<Rightarrow> bool_mask \<Rightarrow> bool_mask result) \<Rightarrow> size_t \<Rightarrow> size_t \<Rightarrow> size_t result option" where
  "search_left check searched_left searched_right =
     (if add64 searched_left 1 < searched_right
      then let middle = add64 searched_left searched_right div 2
           in (case check (MarkRange 0 middle) consider_only_can_be_true of
                 Inl err \<Rightarrow> Some (Inl err)
               | Inr m \<Rightarrow> if can_be_true m then search_left check searched_left middle
                          else search_left check middle searched_right)
      else Some (Inr searched_left))"

partial_function (option) search_right ::
  "(mark_range \<Rightarrow> bool_mask \<Rightarrow> bool_mask result) \<Rightarrow> size_t \<Rightarrow> size_t \<Rightarrow> size_t \<Rightarrow> size_t result option" where
  "search_right check end_mark searched_left searched_right =
     (if add64 searched_left 1 < searched_right
      then let middle = add64 searched_left searched_right div 2
           in (case check (MarkRange middle end_mark) consider_only_can_be_true of
                 Inl err \<Rightarrow> Some (Inl err)
               | Inr m \<Rightarrow> if can_be_true m then search_right check end_mark middle searched_right
                          else search_right check end_mark searched_left middle)
      else Some (Inr searched_right))"

text \<open>
  The exact range inside a result range; \<open>debug\<close> says whether the program is built with assertions.
\<close>

definition trim_left :: "(mark_range \<Rightarrow> bool_mask \<Rightarrow> bool_mask result) \<Rightarrow> mark_range \<Rightarrow> mark_range result" where
  "trim_left check r =
     (if range_begin r < range_end r
      then bind_r (check (MarkRange (range_begin r) (add64 (range_begin r) 1)) consider_only_can_be_false) (\<lambda>m.
             Inr (if can_be_false m then MarkRange (add64 (range_begin r) 1) (range_end r) else r))
      else Inr r)"

definition trim_right :: "(mark_range \<Rightarrow> bool_mask \<Rightarrow> bool_mask result) \<Rightarrow> mark_range \<Rightarrow> mark_range result" where
  "trim_right check r =
     (if range_begin r < range_end r
      then bind_r (check (MarkRange (sub64 (range_end r) 1) (range_end r)) consider_only_can_be_false) (\<lambda>m.
             Inr (if can_be_false m then MarkRange (range_begin r) (sub64 (range_end r) 1) else r))
      else Inr r)"

definition add_exact_range ::
  "(mark_range \<Rightarrow> bool_mask \<Rightarrow> bool_mask result) \<Rightarrow> bool \<Rightarrow> mark_range \<Rightarrow> mark_range list \<Rightarrow> mark_range list result" where
  "add_exact_range check debug result_range exact =
     bind_r (trim_left check result_range) (\<lambda>r.
     bind_r (trim_right check r) (\<lambda>r.
       if range_begin r < range_end r
       then bind_r (check r consider_only_can_be_false) (\<lambda>m.
              if can_be_false m then if debug then Inl LOGICAL_ERROR else Inr exact
              else Inr (exact @ [r]))
       else Inr exact))"

definition binary_search_range ::
  "(mark_range \<Rightarrow> bool_mask \<Rightarrow> bool_mask result) \<Rightarrow> bool \<Rightarrow> mark_range \<Rightarrow> found_ranges \<Rightarrow> found_ranges result option" where
  "binary_search_range check debug part_range found =
     bind_or (search_left check (range_begin part_range) (add64 (range_end part_range) 1)) (\<lambda>left.
     bind_or (search_right check (range_end part_range) left (range_end part_range)) (\<lambda>right.
       if left < right
       then (case snd found of
               None \<Rightarrow> Some (Inr (fst found @ [MarkRange left right], None))
             | Some exact \<Rightarrow>
                 Some (bind_r (add_exact_range check debug (MarkRange left right) exact) (\<lambda>exact.
                   Inr (fst found @ [MarkRange left right], Some exact))))
       else Some (Inr found)))"

fun binary_search ::
  "(mark_range \<Rightarrow> bool_mask \<Rightarrow> bool_mask result) \<Rightarrow> bool \<Rightarrow> mark_range list \<Rightarrow> found_ranges \<Rightarrow> found_ranges result option" where
  "binary_search check debug [] found = Some (Inr found)"
| "binary_search check debug (r # rs) found =
     bind_or (binary_search_range check debug r found) (\<lambda>found. binary_search check debug rs found)"

section \<open>The ranges of a part\<close>

text \<open>What \<open>matchesExactContinuousRange\<close> asks of functions and sets, and the settings and sizes.\<close>

record ('f, 'ty, 'fn, 's) function_env =
  argument_type_of :: "'fn \<Rightarrow> 'ty option"
  empty_field :: 'f
  set_size_of :: "'s \<Rightarrow> nat"
  set_mapping_of :: "'s \<Rightarrow> (nat \<times> 'fn list) list"

record select_settings =
  merge_tree_coarse_index_granularity :: size_t
  merge_tree_min_rows_for_seek :: size_t
  merge_tree_min_bytes_for_seek :: size_t
  fixed_index_granularity :: size_t
  index_granularity_bytes :: size_t

definition seek_marks :: "select_settings \<Rightarrow> size_t result" where
  "seek_marks st = roundRowsOrBytesToMarks (merge_tree_min_rows_for_seek st) (merge_tree_min_bytes_for_seek st)
     (fixed_index_granularity st) (index_granularity_bytes st)"

definition condition_useful :: "('f, 'fn, 's, 'p) key_condition option \<Rightarrow> bool result" where
  "condition_useful c = (case c of None \<Rightarrow> Inr False | Some kc \<Rightarrow> bind_r (alwaysUnknownOrTrue kc) (\<lambda>b. Inr (\<not> b)))"

definition useful_conditions :: "('f, 'fn, 's, 'p) select_conditions \<Rightarrow> useful_flags result" where
  "useful_conditions conds =
     bind_r (condition_useful (Some (sc_key conds))) (\<lambda>k.
     bind_r (condition_useful (sc_part_offset conds)) (\<lambda>p.
     bind_r (condition_useful (sc_total_offset conds)) (\<lambda>t. Inr (k, p, t))))"

definition conditions_relaxed :: "('f, 'fn, 's, 'p) select_conditions \<Rightarrow> bool" where
  "conditions_relaxed conds \<longleftrightarrow> kc_relaxed (sc_key conds)
     \<or> (\<exists>c \<in> set_option (sc_part_offset conds). kc_relaxed c) \<or> (\<exists>c \<in> set_option (sc_total_offset conds). kc_relaxed c)"

definition condition_exact ::
  "('f, 'ty, 'fn, 's, 'p, 'x) key_env \<Rightarrow> ('f, 'ty, 'fn, 's) function_env \<Rightarrow> bool
     \<Rightarrow> ('f, 'fn, 's, 'p) key_condition option \<Rightarrow> bool result" where
  "condition_exact env fn useful c =
     (case (useful, c) of
        (True, Some kc) \<Rightarrow> matchesExactContinuousRange env (argument_type_of fn) (empty_field fn) (set_size_of fn) (set_mapping_of fn) kc
      | _ \<Rightarrow> Inr True)"

definition conditions_exact ::
  "('f, 'ty, 'fn, 's, 'p, 'x) key_env \<Rightarrow> ('f, 'ty, 'fn, 's) function_env \<Rightarrow> useful_flags
     \<Rightarrow> ('f, 'fn, 's, 'p) select_conditions \<Rightarrow> bool result" where
  "conditions_exact env fn flags conds =
     (let (k, p, t) = flags
      in bind_r (condition_exact env fn k (Some (sc_key conds))) (\<lambda>ek.
         bind_r (condition_exact env fn p (sc_part_offset conds)) (\<lambda>ep.
         bind_r (condition_exact env fn t (sc_total_offset conds)) (\<lambda>et. Inr (ek \<and> ep \<and> et)))))"

text \<open>The two searches over the ranges of the part.\<close>

definition generic_search ::
  "(mark_range \<Rightarrow> bool_mask \<Rightarrow> bool_mask result) \<Rightarrow> select_settings \<Rightarrow> mark_range list \<Rightarrow> mark_range list option
     \<Rightarrow> found_ranges result option" where
  "generic_search check st part_ranges exact =
     (if merge_tree_coarse_index_granularity st \<le> 1 then Some (Inl ARGUMENT_OUT_OF_BOUND)
      else bind_or (Some (seek_marks st)) (\<lambda>min_marks_for_seek.
             exclusion_search check (merge_tree_coarse_index_granularity st) min_marks_for_seek part_ranges ([], exact)))"

text \<open>The result: the ranges with the algorithm used, and the exact ranges where they are asked for.\<close>

type_synonym selected_ranges = "mark_ranges \<times> mark_range list option"

definition with_algorithm :: "search_algorithm \<Rightarrow> found_ranges \<Rightarrow> selected_ranges" where
  "with_algorithm alg found = (\<lparr>ranges = fst found, algorithm = alg\<rparr>, snd found)"

definition markRangesFromPKRange ::
  "('f, 'ty, 'fn, 's, 'p, 'x::linorder) key_env \<Rightarrow> ('f, 'ty) field_env \<Rightarrow> ('f, 'ty, 'fn, 's) function_env
     \<Rightarrow> ('f, 'ty) part_view \<Rightarrow> mark_ranges \<Rightarrow> ('f, 'fn, 's, 'p) select_conditions \<Rightarrow> mark_range list option
     \<Rightarrow> select_settings \<Rightarrow> bool \<Rightarrow> selected_ranges result option" where
  "markRangesFromPKRange env fe fn part part_ranges conds exact_ranges st debug =
     (if part_marks_count part = 0 then Some (Inr (\<lparr>ranges = [], algorithm = SearchUnknown\<rparr>, exact_ranges))
      else bind_or (Some (useful_conditions conds)) (\<lambda>flags.
        if flags = (False, False, False) then Some (Inr (part_ranges, exact_ranges))
        else
          let wanted = (if conditions_relaxed conds then None else exact_ranges);
              check = check_in_range env fe part conds flags
          in bind_or (Some (conditions_exact env fn flags conds)) (\<lambda>exact.
             bind_or
               (if \<not> exact
                then bind_or (generic_search check st (ranges part_ranges) wanted) (\<lambda>found.
                       Some (Inr (with_algorithm GenericExclusionSearch found)))
                else bind_or (binary_search check debug (ranges part_ranges) ([], wanted)) (\<lambda>found.
                       Some (Inr (with_algorithm BinarySearch found)))) (\<lambda>(res, exact).
               Some (Inr (res, if conditions_relaxed conds then exact_ranges else exact))))))"

section \<open>Partial results of skip indexes\<close>

definition MAX_BITS_FOR_PARTIAL_DISJUNCTION_RESULT :: nat where
  "MAX_BITS_FOR_PARTIAL_DISJUNCTION_RESULT = 32"

definition template_atom :: "bool list \<Rightarrow> size_t \<Rightarrow> nat \<times> ('f, 'fn, 's, 'p) rpn_element \<Rightarrow> bool result" where
  "template_atom partial_eval_results mark pe =
     (case el_function (snd pe) of
        FUNCTION_UNKNOWN \<Rightarrow>
          element_at partial_eval_results (add64 (mul64 mark MAX_BITS_FOR_PARTIAL_DISJUNCTION_RESULT) (fst pe))
      | ALWAYS_TRUE \<Rightarrow> Inr True
      | ALWAYS_FALSE \<Rightarrow> Inr False
      | _ \<Rightarrow> Inl LOGICAL_ERROR)"

definition evaluate_template ::
  "('f, 'fn, 's, 'p) rpn_element list \<Rightarrow> bool list \<Rightarrow> size_t \<Rightarrow> bool result" where
  "evaluate_template template partial_eval_results mark =
     bind_r (stack_machine UB (\<lambda>pe. kind_of (snd pe)) (template_atom partial_eval_results mark)
               (\<lambda>_. True) (\<and>) (\<or>) (List.enumerate 0 template) []) (\<lambda>rpn_stack.
       case rpn_stack of [b] \<Rightarrow> Inr b | _ \<Rightarrow> Inl LOGICAL_ERROR)"

fun merge_marks ::
  "(size_t \<Rightarrow> bool result) \<Rightarrow> size_t \<Rightarrow> size_t list \<Rightarrow> mark_range list \<Rightarrow> mark_range list result" where
  "merge_marks eval min_marks_for_seek [] res = Inr res"
| "merge_marks eval min_marks_for_seek (mark # marks) res =
     bind_r (eval mark) (\<lambda>b.
       merge_marks eval min_marks_for_seek marks
         (if b then add_mark min_marks_for_seek res (MarkRange mark (add64 mark 1)) else res))"

definition mergePartialResultsForDisjunctions ::
  "select_settings \<Rightarrow> mark_range list \<Rightarrow> ('f, 'fn, 's, 'p) rpn_element list \<Rightarrow> bool list \<Rightarrow> mark_range list result" where
  "mergePartialResultsForDisjunctions st part_ranges template partial_eval_results =
     bind_r (seek_marks st) (\<lambda>min_marks_for_seek.
       merge_marks (evaluate_template template partial_eval_results) min_marks_for_seek
         (concat (map (\<lambda>r. [range_begin r ..< range_end r]) part_ranges)) [])"

end
