(* ===== verification/Select_Ranges_Search.thy ===== *)
theory Select_Ranges_Search
  imports Select_Ranges
begin

text \<open>
  The searches for marks, over any check that is sound: the marks they return, that they return at all,
  and the exact ranges. The contract between the check and the searches is the locale \<open>mark_check\<close>.
\<close>

section \<open>Ascending ranges\<close>

text \<open>Ranges that are not empty and follow each other, from the mark \<open>lo\<close> on.\<close>

fun ascending :: "nat \<Rightarrow> mark_range list \<Rightarrow> bool" where
  "ascending lo [] = True"
| "ascending lo (r # rs) \<longleftrightarrow> lo \<le> range_begin r \<and> range_begin r < range_end r \<and> ascending (range_end r) rs"

definition end_of :: "mark_range list \<Rightarrow> nat" where
  "end_of rs = (if rs = [] then 0 else range_end (last rs))"

lemma end_of_snoc [simp]: "end_of (rs @ [r]) = range_end r" "end_of [] = 0"
  by (simp_all add: end_of_def)

lemma ascending_mono: "ascending lo rs \<Longrightarrow> lo' \<le> lo \<Longrightarrow> ascending lo' rs"
  by (cases rs) auto

lemma end_of_Cons [simp]: "end_of (r # rs) = (if rs = [] then range_end r else end_of rs)"
  by (simp add: end_of_def)

lemma end_of_above: "ascending lo rs \<Longrightarrow> rs \<noteq> [] \<Longrightarrow> lo < end_of rs"
proof (induction rs arbitrary: lo)
  case (Cons r rs)
  then show ?case by (cases "rs = []") fastforce+
qed simp

lemma ascending_snoc:
  "ascending lo (rs @ [r]) \<longleftrightarrow> ascending lo rs \<and> lo \<le> range_begin r \<and> end_of rs \<le> range_begin r \<and> range_begin r < range_end r"
proof (induction rs arbitrary: lo)
  case (Cons a rs)
  show ?case
  proof (cases "rs = []")
    case False
    then have "ascending (range_end a) rs \<Longrightarrow> range_end a < end_of rs" using end_of_above by blast
    then show ?thesis using False by (simp only: append_Cons ascending.simps Cons.IH end_of_Cons if_False) linarith
  next
    case True
    then show ?thesis by simp linarith
  qed
qed simp

lemma ascending_end: "ascending lo rs \<Longrightarrow> r \<in> set rs \<Longrightarrow> lo < range_end r"
  by (induction rs arbitrary: lo) fastforce+

lemma add_mark_ok:
  assumes "ascending 0 res" "end_of res \<le> range_begin r" "range_begin r < range_end r" "range_end r < size_max"
  shows "ascending 0 (add_mark k res r) \<and> end_of (add_mark k res r) = range_end r
    \<and> marks_in res \<union> marks_of r \<subseteq> marks_in (add_mark k res r)
    \<and> (k = 0 \<longrightarrow> marks_in (add_mark k res r) = marks_in res \<union> marks_of r)"
proof (cases "res = [] \<or> sub64 (range_begin r) (range_end (last res)) > k")
  case True
  then show ?thesis using assms by (auto simp: add_mark_def ascending_snoc)
next
  case False
  then obtain res' l where l: "res = res' @ [l]" by (metis rev_exhaust)
  have le: "range_end l \<le> range_begin r" using assms(2) l by simp
  have k: "range_begin r - range_end l \<le> k" using False l le assms(3,4) by (simp add: sub64_exact)
  have "add_mark k res r = res' @ [l\<lparr>range_end := range_end r\<rparr>]" using False l by (auto simp: add_mark_def)
  then show ?thesis using assms l le k by (auto simp: ascending_snoc marks_of_def)
qed

section \<open>Splitting a range\<close>

fun pieces :: "nat \<Rightarrow> nat \<Rightarrow> mark_range list \<Rightarrow> bool" where
  "pieces b e [] \<longleftrightarrow> b = e"
| "pieces b e (r # rs) \<longleftrightarrow> range_begin r = b \<and> b < range_end r \<and> pieces (range_end r) e rs"

lemma pieces_snoc: "pieces b e (rs @ [r]) \<longleftrightarrow> pieces b (range_begin r) rs \<and> range_begin r < range_end r \<and> range_end r = e"
  by (induction rs arbitrary: b) auto

lemma pieces_le: "pieces b e rs \<Longrightarrow> b \<le> e"
  by (induction rs arbitrary: b) fastforce+

lemma pieces_end_le: "pieces b e rs \<Longrightarrow> r \<in> set rs \<Longrightarrow> range_end r \<le> e"
  by (induction rs arbitrary: b) (auto dest: pieces_le)

lemma pieces_marks: "pieces b e rs \<Longrightarrow> marks_in rs = {b ..< e}"
proof (induction rs arbitrary: b)
  case (Cons r rs)
  then show ?case using pieces_le [of "range_end r" e rs] by (auto simp: marks_of_def)
qed simp

lemma pieces_ascending: "pieces b e rs \<Longrightarrow> ascending e rs' \<Longrightarrow> ascending b (rs @ rs')"
  by (induction rs arbitrary: b) auto

text \<open>The measure of the exclusion loop: a range counts twice its marks, less one.\<close>

definition stack_weight :: "mark_range list \<Rightarrow> nat" where
  "stack_weight rs = sum_list (map (\<lambda>r. 2 * (range_end r - range_begin r) - 1) rs)"

lemma stack_weight_simps [simp]:
  "stack_weight [] = 0" "stack_weight (r # rs) = 2 * (range_end r - range_begin r) - 1 + stack_weight rs"
  "stack_weight (rs @ rs') = stack_weight rs + stack_weight rs'"
  by (simp_all add: stack_weight_def)

lemma pieces_weight: "pieces b e rs \<Longrightarrow> stack_weight rs + length rs = 2 * (e - b)"
proof (induction rs arbitrary: b)
  case (Cons r rs)
  then show ?case using pieces_le [of "range_end r" e rs] by fastforce
qed simp

lemma split_from_ok:
  "first < e \<Longrightarrow> 0 < step \<Longrightarrow> first + step < size_max \<Longrightarrow> e < size_max \<Longrightarrow>
    \<exists>parts. split_from first step e stack = Some (parts @ stack) \<and> pieces first e parts
      \<and> (first + step < e \<longrightarrow> 2 \<le> length parts)"
proof (induction e arbitrary: stack rule: less_induct)
  case (less e)
  show ?case
  proof (cases "first + step < e")
    case True
    then have e': "sub64 e step = e - step" "e - step < e" "first < e - step"
      using less.prems by (auto simp: sub64_exact)
    from less.IH [of "e - step" "MarkRange (e - step) e # stack"] e' less.prems obtain parts where
      p: "split_from first step (e - step) (MarkRange (e - step) e # stack) = Some (parts @ MarkRange (e - step) e # stack)"
        "pieces first (e - step) parts"
      by auto
    have "parts \<noteq> []" using p(2) e'(3) by auto
    then have "2 \<le> length (parts @ [MarkRange (e - step) e])" by (cases parts) auto
    moreover have "split_from first step e stack = Some ((parts @ [MarkRange (e - step) e]) @ stack)"
      using True e'(1) p(1) less.prems by (subst split_from.simps) (simp add: add64_exact)
    ultimately show ?thesis using p(2) e' by (metis MarkRange_sel pieces_snoc)
  next
    case False
    then have "split_from first step e stack = Some ([MarkRange first e] @ stack)"
      using less.prems by (subst split_from.simps) (simp add: add64_exact)
    then show ?thesis using False less.prems(1) by (metis MarkRange_sel append.left_neutral pieces.simps(1) pieces_snoc)
  qed
qed

lemma split_range_ok:
  assumes "range_begin r + 1 < range_end r" "range_end r < size_max" "1 < coarse"
  shows "\<exists>parts. split_range coarse r stack = Some (parts @ stack) \<and> pieces (range_begin r) (range_end r) parts
    \<and> stack_weight parts < 2 * (range_end r - range_begin r) - 1"
proof -
  let ?n = "range_end r - range_begin r" and ?step = "(range_end r - range_begin r - 1) div coarse + 1"
  have n: "2 \<le> ?n" using assms(1) by simp
  have "(?n - 1) div coarse \<le> (?n - 1) div 2" using assms(3) by (intro div_le_mono2) auto
  then have step: "?step < ?n" using n by simp
  have "sub64 (sub64 (range_end r) (range_begin r)) 1 = ?n - 1"
    using assms(1,2) by (simp add: sub64_exact)
  then have eq: "split_range coarse r stack = split_from (range_begin r) ?step (range_end r) stack"
    using step assms(2) by (simp add: split_range_def Let_def add64_exact)
  have "range_begin r + ?step < range_end r" using step n by simp
  with split_from_ok [of "range_begin r" "range_end r" ?step stack] assms(1,2) obtain parts where
    p: "split_from (range_begin r) ?step (range_end r) stack = Some (parts @ stack)"
      "pieces (range_begin r) (range_end r) parts" "2 \<le> length parts"
    by auto
  then show ?thesis using eq pieces_weight [OF p(2)] by (intro exI [of _ parts]) auto
qed

section \<open>The contract of the check\<close>

text \<open>
  What a search has found so far, up to the mark \<open>hi\<close>: the marks in \<open>must\<close> are
  among the ranges; where gaps are not joined, only marks in \<open>may\<close> are; and then no exact mark
  is in \<open>bad\<close>.
\<close>

definition found_ok :: "bool \<Rightarrow> nat set \<Rightarrow> nat set \<Rightarrow> (nat \<Rightarrow> bool) \<Rightarrow> nat \<Rightarrow> found_ranges \<Rightarrow> bool" where
  "found_ok no_gaps must may bad hi found \<longleftrightarrow>
     ascending 0 (fst found) \<and> end_of (fst found) \<le> hi \<and> must \<subseteq> marks_in (fst found)
     \<and> (no_gaps \<longrightarrow> marks_in (fst found) \<subseteq> may)
     \<and> (\<forall>ex. snd found = Some ex \<longrightarrow> ascending 0 ex \<and> end_of ex \<le> hi
          \<and> (no_gaps \<longrightarrow> marks_in ex \<subseteq> may \<and> (\<forall>i \<in> marks_in ex. \<not> bad i)))"

lemma found_ok_weaken:
  "found_ok g must may bad hi found \<Longrightarrow> hi \<le> hi' \<Longrightarrow> must' \<subseteq> must \<Longrightarrow> may \<subseteq> may' \<Longrightarrow> found_ok g must' may' bad hi' found"
  unfolding found_ok_def by (meson le_trans subset_trans)

lemma found_ok_add:
  assumes f: "found_ok (k = 0) must may bad lo found" and r: "lo \<le> range_begin r" "range_begin r < range_end r" "range_end r < size_max"
    and exact: "\<not> can_be_false m \<Longrightarrow> \<forall>i \<in> marks_of r. \<not> bad i"
  shows "found_ok (k = 0) (must \<union> marks_of r) (may \<union> marks_of r) bad (range_end r) (found_mark k r m found)"
proof -
  have res: "ascending 0 (fst found)" "end_of (fst found) \<le> range_begin r" using f r(1) by (auto simp: found_ok_def)
  note add = add_mark_ok [OF res r(2,3), of k]
  have "ascending 0 ex' \<and> end_of ex' \<le> range_end r
      \<and> (k = 0 \<longrightarrow> marks_in ex' \<subseteq> may \<union> marks_of r \<and> (\<forall>i \<in> marks_in ex'. \<not> bad i))"
    if ex': "snd (found_mark k r m found) = Some ex'" for ex'
  proof -
    obtain ex where ex: "snd found = Some ex" "ex' = (if \<not> can_be_false m then add_mark k ex r else ex)"
      using ex' by (auto simp: found_mark_def split: option.splits)
    have old: "ascending 0 ex" "end_of ex \<le> range_begin r" "end_of ex \<le> range_end r"
      "k = 0 \<longrightarrow> marks_in ex \<subseteq> may \<and> (\<forall>i \<in> marks_in ex. \<not> bad i)"
      using f ex(1) r by (auto simp: found_ok_def)
    show ?thesis
    proof (cases "can_be_false m")
      case True
      then show ?thesis using ex(2) old by auto
    next
      case False
      then show ?thesis using add_mark_ok [OF old(1,2) r(2,3), of k] old(4) exact ex(2) by auto
    qed
  qed
  then show ?thesis using add f by (auto simp: found_ok_def found_mark_def)
qed

locale mark_check =
  fixes check :: "mark_range \<Rightarrow> bool_mask \<Rightarrow> bool_mask result"
    and limit :: nat
    and hits misses :: "nat \<Rightarrow> bool"
  assumes check_hits: "check r im = Inr m \<Longrightarrow> range_begin r < range_end r \<Longrightarrow> range_end r \<le> limit
      \<Longrightarrow> i \<in> marks_of r \<Longrightarrow> hits i \<Longrightarrow> can_be_true m"
    and check_misses: "check r im = Inr m \<Longrightarrow> range_begin r < range_end r \<Longrightarrow> range_end r \<le> limit
      \<Longrightarrow> i \<in> marks_of r \<Longrightarrow> misses i \<Longrightarrow> can_be_false m"
begin

lemma exclusion_loop_ok:
  assumes coarse: "1 < coarse" and hi: "hi \<le> limit" "limit < size_max"
  shows "found_ok (k = 0) must may misses lo found \<Longrightarrow> ascending lo stack \<Longrightarrow> lo \<le> hi \<Longrightarrow> \<forall>r \<in> set stack. range_end r \<le> hi
    \<Longrightarrow> \<exists>res. exclusion_loop check coarse k stack found = Some res
          \<and> (\<forall>found'. res = Inr found' \<longrightarrow>
               found_ok (k = 0) (must \<union> {i \<in> marks_in stack. hits i}) (may \<union> marks_in stack) misses hi found')"
proof (induction "stack_weight stack" arbitrary: stack found must may lo rule: less_induct)
  case less
  show ?case
  proof (cases stack)
    case Nil
    then have "exclusion_loop check coarse k stack found = Some (Inr found)" by (subst exclusion_loop.simps) simp
    moreover have "found_ok (k = 0) must may misses hi found" using found_ok_weaken [OF less.prems(1,3)] by simp
    ultimately show ?thesis using Nil by (intro exI [of _ "Inr found"]) simp
  next
    case (Cons r rest)
    have r: "lo \<le> range_begin r" "range_begin r < range_end r" "ascending (range_end r) rest" "range_end r \<le> hi"
      "\<forall>r \<in> set rest. range_end r \<le> hi"
      using less.prems(2,4) Cons by auto
    have lim: "range_end r \<le> limit" "range_end r < size_max" using r(4) hi by auto
    let ?im = "if snd found \<noteq> None \<and> is_single_mark r then BoolMask False False else consider_only_can_be_true"
    have unfold: "exclusion_loop check coarse k stack found =
        (case check r ?im of Inl err \<Rightarrow> Some (Inl err)
         | Inr m \<Rightarrow> if \<not> can_be_true m then exclusion_loop check coarse k rest found
             else if is_single_mark r then exclusion_loop check coarse k rest (found_mark k r m found)
             else Option.bind (split_range coarse r rest) (\<lambda>stack. exclusion_loop check coarse k stack found))"
      unfolding Cons by (subst exclusion_loop.simps) simp
    have weight: "stack_weight rest < stack_weight stack" using Cons r(2) by simp
    show ?thesis
    proof (cases "check r ?im")
      case (Inl err)
      then show ?thesis using unfold by simp
    next
      case (Inr m)
      consider (pruned) "\<not> can_be_true m" | (single) "can_be_true m" "is_single_mark r" | (long) "can_be_true m" "\<not> is_single_mark r"
        by blast
      then show ?thesis
      proof cases
        case pruned
        have "\<not> hits i" if "i \<in> marks_of r" for i using check_hits [OF Inr r(2) lim(1) that] pruned by blast
        then have same: "{i \<in> marks_in stack. hits i} = {i \<in> marks_in rest. hits i}" using Cons by auto
        have "found_ok (k = 0) must (may \<union> marks_of r) misses (range_end r) found"
          using found_ok_weaken [OF less.prems(1), of "range_end r"] r(1,2) by simp
        from less.hyps [OF weight this r(3,4,5)] show ?thesis
          using unfold Inr pruned same Cons by (simp add: Un_assoc)
      next
        case single
        have "found_ok (k = 0) (must \<union> marks_of r) (may \<union> marks_of r) misses (range_end r) (found_mark k r m found)"
          by (rule found_ok_add [OF less.prems(1) r(1,2) lim(2)]) (use check_misses [OF Inr r(2) lim(1)] in blast)
        from less.hyps [OF weight this r(3,4,5)] obtain res where
          res: "exclusion_loop check coarse k rest (found_mark k r m found) = Some res"
            "\<forall>found'. res = Inr found' \<longrightarrow> found_ok (k = 0) ((must \<union> marks_of r) \<union> {i \<in> marks_in rest. hits i})
               ((may \<union> marks_of r) \<union> marks_in rest) misses hi found'"
          by blast
        have sub: "must \<union> {i \<in> marks_in stack. hits i} \<subseteq> (must \<union> marks_of r) \<union> {i \<in> marks_in rest. hits i}"
          "(may \<union> marks_of r) \<union> marks_in rest \<subseteq> may \<union> marks_in stack" using Cons by auto
        have "\<forall>found'. res = Inr found' \<longrightarrow>
            found_ok (k = 0) (must \<union> {i \<in> marks_in stack. hits i}) (may \<union> marks_in stack) misses hi found'"
          using res(2) found_ok_weaken [OF _ order_refl sub] by blast
        then show ?thesis using unfold Inr single res(1) by simp
      next
        case long
        have "range_begin r + 1 < range_end r"
          using long(2) r(2) lim(2) by (auto simp: is_single_mark_def add64_exact)
        with split_range_ok [OF _ lim(2) coarse, of rest] obtain parts where
          p: "split_range coarse r rest = Some (parts @ rest)" "pieces (range_begin r) (range_end r) parts"
            "stack_weight parts < 2 * (range_end r - range_begin r) - 1" by blast
        have w: "stack_weight (parts @ rest) < stack_weight stack" using p(3) Cons by simp
        have asc: "ascending lo (parts @ rest)" using pieces_ascending [OF p(2) r(3)] r(1) by (rule ascending_mono)
        have ends: "\<forall>r \<in> set (parts @ rest). range_end r \<le> hi"
        proof
          fix q assume "q \<in> set (parts @ rest)"
          moreover have "range_end q \<le> range_end r" if "q \<in> set parts"
            using p(2) that by (rule pieces_end_le)
          ultimately show "range_end q \<le> hi" using r(4,5) by fastforce
        qed
        have same: "marks_in (parts @ rest) = marks_in stack" using pieces_marks [OF p(2)] Cons by (simp add: marks_of_def)
        from less.hyps [OF w less.prems(1) asc less.prems(3) ends] show ?thesis
          unfolding same using unfold Inr long p(1) by simp
      qed
    qed
  qed
qed

lemma exclusion_search_ok:
  assumes coarse: "1 < coarse" and lim: "limit < size_max"
  shows "found_ok (k = 0) must may misses lo found \<Longrightarrow> ascending lo rs \<Longrightarrow> lo \<le> limit \<Longrightarrow> \<forall>r \<in> set rs. range_end r \<le> limit
    \<Longrightarrow> \<exists>res. exclusion_search check coarse k rs found = Some res
          \<and> (\<forall>found'. res = Inr found' \<longrightarrow>
               found_ok (k = 0) (must \<union> {i \<in> marks_in rs. hits i}) (may \<union> marks_in rs) misses limit found')"
proof (induction rs arbitrary: found must may lo)
  case Nil
  moreover have "found_ok (k = 0) must may misses limit found" using found_ok_weaken [OF Nil(1,3)] by simp
  ultimately show ?case by (intro exI [of _ "Inr found"]) simp
next
  case (Cons r rs)
  have r: "lo \<le> range_begin r" "range_begin r < range_end r" "range_end r \<le> limit" "ascending (range_end r) rs"
    "\<forall>r \<in> set rs. range_end r \<le> limit"
    using Cons.prems by auto
  have "ascending lo [r]" "lo \<le> range_end r" "\<forall>q \<in> set [r]. range_end q \<le> range_end r" using r by auto
  from exclusion_loop_ok [OF coarse r(3) lim Cons.prems(1) this] obtain res where
    res: "exclusion_loop check coarse k [r] found = Some res"
      "\<forall>found'. res = Inr found' \<longrightarrow>
         found_ok (k = 0) (must \<union> {i \<in> marks_of r. hits i}) (may \<union> marks_of r) misses (range_end r) found'"
    by auto
  show ?case
  proof (cases res)
    case (Inl err)
    then show ?thesis using res(1) by (simp add: bind_or_def)
  next
    case (Inr found')
    have set_eq: "(must \<union> {i \<in> marks_of r. hits i}) \<union> {i \<in> marks_in rs. hits i} = must \<union> {i \<in> marks_in (r # rs). hits i}"
      "(may \<union> marks_of r) \<union> marks_in rs = may \<union> marks_in (r # rs)" by auto
    have "found_ok (k = 0) (must \<union> {i \<in> marks_of r. hits i}) (may \<union> marks_of r) misses (range_end r) found'"
      using res(2) Inr by blast
    from Cons.IH [OF this r(4,3,5), unfolded set_eq] show ?thesis using res(1) Inr by (simp add: bind_or_def)
  qed
qed

end

section \<open>Binary search\<close>

lemma middle_between:
  assumes "l + 1 < r" "l + r < size_max"
  shows "l < add64 l r div 2" "add64 l r div 2 < r" "add64 l 1 = l + 1"
  using assms by (auto simp: add64_exact)

context mark_check
begin

lemma search_left_ok:
  assumes lim: "e \<le> limit" "2 * limit + 2 \<le> size_max"
  shows "l < r \<Longrightarrow> r \<le> e + 1 \<Longrightarrow> \<forall>i. b \<le> i \<and> i < l \<longrightarrow> \<not> hits i
    \<Longrightarrow> \<exists>res. search_left check l r = Some res
          \<and> (\<forall>left. res = Inr left \<longrightarrow> l \<le> left \<and> left \<le> e \<and> (\<forall>i. b \<le> i \<and> i < left \<longrightarrow> \<not> hits i))"
proof (induction "r - l" arbitrary: l r rule: less_induct)
  case less
  show ?case
  proof (cases "l + 1 < r")
    case False
    then have "search_left check l r = Some (Inr l)"
      using less.prems lim by (subst search_left.simps) (simp add: add64_exact)
    then show ?thesis using less.prems by auto
  next
    case True
    have sum: "l + r < size_max" using less.prems lim by linarith
    note mid = middle_between [OF True sum]
    let ?m = "add64 l r div 2"
    have unfold: "search_left check l r =
        (case check (MarkRange 0 ?m) consider_only_can_be_true of Inl err \<Rightarrow> Some (Inl err)
         | Inr m \<Rightarrow> if can_be_true m then search_left check l ?m else search_left check ?m r)"
      using True mid(3) by (subst search_left.simps) (simp add: Let_def)
    show ?thesis
    proof (cases "check (MarkRange 0 ?m) consider_only_can_be_true")
      case (Inl err)
      then show ?thesis using unfold by simp
    next
      case (Inr m)
      show ?thesis
      proof (cases "can_be_true m")
        case True
        from less.hyps [of ?m l] mid less.prems have
          "\<exists>res. search_left check l ?m = Some res
            \<and> (\<forall>left. res = Inr left \<longrightarrow> l \<le> left \<and> left \<le> e \<and> (\<forall>i. b \<le> i \<and> i < left \<longrightarrow> \<not> hits i))"
          by simp
        then show ?thesis using unfold Inr True by simp
      next
        case False
        have "\<not> hits i" if "i < ?m" for i
          using check_hits [OF Inr, of i] that False mid(2) less.prems(2) lim(1) by (auto simp: marks_of_def)
        with less.hyps [of r ?m] mid less.prems have
          "\<exists>res. search_left check ?m r = Some res
            \<and> (\<forall>left. res = Inr left \<longrightarrow> ?m \<le> left \<and> left \<le> e \<and> (\<forall>i. b \<le> i \<and> i < left \<longrightarrow> \<not> hits i))"
          by simp
        then show ?thesis using unfold Inr False mid(1) by fastforce
      qed
    qed
  qed
qed

lemma search_right_ok:
  assumes lim: "e \<le> limit" "2 * limit + 2 \<le> size_max"
  shows "l \<le> r \<Longrightarrow> r \<le> e \<Longrightarrow> \<forall>i. r \<le> i \<and> i < e \<longrightarrow> \<not> hits i
    \<Longrightarrow> \<exists>res. search_right check e l r = Some res
          \<and> (\<forall>right. res = Inr right \<longrightarrow> l \<le> right \<and> right \<le> e \<and> (\<forall>i. right \<le> i \<and> i < e \<longrightarrow> \<not> hits i))"
proof (induction "r - l" arbitrary: l r rule: less_induct)
  case less
  show ?case
  proof (cases "l + 1 < r")
    case False
    then have "search_right check e l r = Some (Inr r)"
      using less.prems lim by (subst search_right.simps) (simp add: add64_exact)
    then show ?thesis using less.prems by auto
  next
    case True
    have sum: "l + r < size_max" using less.prems lim by linarith
    note mid = middle_between [OF True sum]
    let ?m = "add64 l r div 2"
    have unfold: "search_right check e l r =
        (case check (MarkRange ?m e) consider_only_can_be_true of Inl err \<Rightarrow> Some (Inl err)
         | Inr m \<Rightarrow> if can_be_true m then search_right check e ?m r else search_right check e l ?m)"
      using True mid(3) by (subst search_right.simps) (simp add: Let_def)
    show ?thesis
    proof (cases "check (MarkRange ?m e) consider_only_can_be_true")
      case (Inl err)
      then show ?thesis using unfold by simp
    next
      case (Inr m)
      show ?thesis
      proof (cases "can_be_true m")
        case True
        from less.hyps [of r ?m] mid less.prems have
          "\<exists>res. search_right check e ?m r = Some res
            \<and> (\<forall>right. res = Inr right \<longrightarrow> ?m \<le> right \<and> right \<le> e \<and> (\<forall>i. right \<le> i \<and> i < e \<longrightarrow> \<not> hits i))"
          by simp
        then show ?thesis using unfold Inr True mid(1) by fastforce
      next
        case False
        have "\<not> hits i" if "?m \<le> i" "i < e" for i
          using check_hits [OF Inr, of i] that False mid(2) less.prems(2) lim(1) by (auto simp: marks_of_def)
        with less.hyps [of ?m l] mid less.prems have
          "\<exists>res. search_right check e l ?m = Some res
            \<and> (\<forall>right. res = Inr right \<longrightarrow> l \<le> right \<and> right \<le> e \<and> (\<forall>i. right \<le> i \<and> i < e \<longrightarrow> \<not> hits i))"
          by simp
        then show ?thesis using unfold Inr False by simp
      qed
    qed
  qed
qed

text \<open>The exact range lies in the result and holds no bad mark.\<close>

lemma trim_ok:
  assumes "trim_left check r = Inr r1" "trim_right check r1 = Inr r2" "range_end r < size_max"
  shows "range_begin r \<le> range_begin r2 \<and> range_end r2 \<le> range_end r"
proof -
  have l: "r1 = r \<or> range_begin r < range_end r \<and> r1 = MarkRange (range_begin r + 1) (range_end r)"
    using assms(1,3) by (auto simp: trim_left_def bind_r_Inr_iff add64_exact split: if_splits)
  then have e: "range_begin r \<le> range_begin r1" "range_end r1 = range_end r" by auto
  have "r2 = r1 \<or> range_begin r1 < range_end r1 \<and> r2 = MarkRange (range_begin r1) (range_end r1 - 1)"
    using assms(2,3) e by (auto simp: trim_right_def bind_r_Inr_iff sub64_exact split: if_splits)
  then show ?thesis using e by auto
qed

lemma add_exact_range_ok:
  assumes run: "add_exact_range check debug r exact = Inr exact'" and lim: "range_end r \<le> limit" "limit < size_max"
    and exact: "ascending 0 exact" "end_of exact \<le> range_begin r" "\<forall>i \<in> marks_in exact. \<not> misses i" "range_begin r \<le> range_end r"
  shows "ascending 0 exact' \<and> end_of exact' \<le> range_end r \<and> marks_in exact' \<subseteq> marks_in exact \<union> marks_of r
    \<and> (\<forall>i \<in> marks_in exact'. \<not> misses i)"
proof -
  obtain r1 r2 where r2: "trim_left check r = Inr r1" "trim_right check r1 = Inr r2"
    "(if range_begin r2 < range_end r2
      then bind_r (check r2 consider_only_can_be_false) (\<lambda>m.
              if can_be_false m then if debug then Inl LOGICAL_ERROR else Inr exact else Inr (exact @ [r2]))
      else Inr exact) = Inr exact'"
    using run by (auto simp: add_exact_range_def bind_r_Inr_iff)
  have t: "range_begin r \<le> range_begin r2" "range_end r2 \<le> range_end r" using trim_ok [OF r2(1,2)] lim by auto
  show ?thesis
  proof (cases "exact' = exact")
    case True
    then show ?thesis using exact by auto
  next
    case False
    then obtain m where m: "range_begin r2 < range_end r2" "check r2 consider_only_can_be_false = Inr m" "\<not> can_be_false m"
      "exact' = exact @ [r2]"
      using r2(3) by (auto simp: bind_r_Inr_iff split: if_splits)
    have "\<not> misses i" if "i \<in> marks_of r2" for i using check_misses [OF m(2,1) _ that] t lim m(3) by auto
    moreover have "marks_of r2 \<subseteq> marks_of r" using t by (auto simp: marks_of_def)
    ultimately show ?thesis using m(1,4) exact t by (auto simp: ascending_snoc)
  qed
qed

lemma binary_search_range_ok:
  assumes lim: "range_end r \<le> limit" "2 * limit + 2 \<le> size_max"
    and f: "found_ok True must may misses lo found" "lo \<le> range_begin r" "range_begin r < range_end r"
  shows "\<exists>res. binary_search_range check debug r found = Some res
    \<and> (\<forall>found'. res = Inr found' \<longrightarrow>
         found_ok True (must \<union> {i \<in> marks_of r. hits i}) (may \<union> marks_of r) misses (range_end r) found')"
proof -
  have one: "add64 (range_end r) 1 = range_end r + 1" using lim by (intro add64_exact) linarith
  have "range_begin r < range_end r + 1" using f(3) by simp
  have empty: "\<forall>i. n \<le> i \<and> i < n \<longrightarrow> \<not> hits i" for n by (meson leD)
  from search_left_ok [OF lim \<open>range_begin r < range_end r + 1\<close> order_refl empty] obtain lres where
    lres: "search_left check (range_begin r) (range_end r + 1) = Some lres"
      "\<forall>left. lres = Inr left \<longrightarrow> range_begin r \<le> left \<and> left \<le> range_end r \<and> (\<forall>i. range_begin r \<le> i \<and> i < left \<longrightarrow> \<not> hits i)"
    by auto
  show ?thesis
  proof (cases lres)
    case (Inl err)
    then show ?thesis using lres(1) by (simp add: binary_search_range_def bind_or_def one [simplified])
  next
    case (Inr left)
    then have left: "range_begin r \<le> left" "left \<le> range_end r" "\<forall>i. range_begin r \<le> i \<and> i < left \<longrightarrow> \<not> hits i"
      using lres(2) by auto
    from search_right_ok [OF lim left(2) order_refl empty] obtain rres where
      rres: "search_right check (range_end r) left (range_end r) = Some rres"
        "\<forall>right. rres = Inr right \<longrightarrow> left \<le> right \<and> right \<le> range_end r \<and> (\<forall>i. right \<le> i \<and> i < range_end r \<longrightarrow> \<not> hits i)"
      by auto
    show ?thesis
    proof (cases rres)
      case (Inl err)
      then show ?thesis using lres(1) rres(1) \<open>lres = Inr left\<close> by (simp add: binary_search_range_def bind_or_def one [simplified])
    next
      case (Inr right)
      then have right: "left \<le> right" "right \<le> range_end r" "\<forall>i. right \<le> i \<and> i < range_end r \<longrightarrow> \<not> hits i"
        using rres(2) by auto
      have hit: "i \<in> marks_of (MarkRange left right)" if "i \<in> marks_of r" "hits i" for i
        using that left(3) right(3) by (auto simp: marks_of_def not_less)
      have in_r: "marks_of (MarkRange left right) \<subseteq> marks_of r" using left(1) right(2) by (auto simp: marks_of_def)
      have run: "binary_search_range check debug r found =
          (if left < right
           then (case snd found of
               None \<Rightarrow> Some (Inr (fst found @ [MarkRange left right], None))
             | Some exact \<Rightarrow>
                 Some (bind_r (add_exact_range check debug (MarkRange left right) exact) (\<lambda>exact.
                   Inr (fst found @ [MarkRange left right], Some exact))))
           else Some (Inr found))"
        using lres(1) rres(1) \<open>lres = Inr left\<close> Inr by (simp add: binary_search_range_def bind_or_def one [simplified])
      show ?thesis
      proof (cases "left < right")
        case False
        then have "\<not> hits i" if "i \<in> marks_of r" for i using hit [OF that] by (auto simp: marks_of_def)
        then have "found_ok True (must \<union> {i \<in> marks_of r. hits i}) (may \<union> marks_of r) misses (range_end r) found"
          using found_ok_weaken [OF f(1), of "range_end r" "must \<union> {i \<in> marks_of r. hits i}" "may \<union> marks_of r"] f(2,3) by auto
        then show ?thesis using run False by (intro exI [of _ "Inr found"]) simp
      next
        case True
        have res: "ascending 0 (fst found @ [MarkRange left right])" "end_of (fst found @ [MarkRange left right]) \<le> range_end r"
          "must \<union> {i \<in> marks_of r. hits i} \<subseteq> marks_in (fst found @ [MarkRange left right])"
          "marks_in (fst found @ [MarkRange left right]) \<subseteq> may \<union> marks_of r"
          using f left right True hit in_r by (auto simp: found_ok_def ascending_snoc)
        show ?thesis
        proof (cases "snd found")
          case None
          then show ?thesis using run True res by (intro exI [of _ "Inr (fst found @ [MarkRange left right], None)"]) (simp add: found_ok_def)
        next
          case (Some exact)
          have ex: "ascending 0 exact" "end_of exact \<le> left" "\<forall>i \<in> marks_in exact. \<not> misses i" "marks_in exact \<subseteq> may"
            using f(1,2) left(1) Some by (auto simp: found_ok_def)
          have post: "found_ok True (must \<union> {i \<in> marks_of r. hits i}) (may \<union> marks_of r) misses (range_end r)
              (fst found @ [MarkRange left right], Some exact')"
            if "add_exact_range check debug (MarkRange left right) exact = Inr exact'" for exact'
          proof -
            have "ascending 0 exact' \<and> end_of exact' \<le> right \<and> marks_in exact' \<subseteq> marks_in exact \<union> marks_of (MarkRange left right)
                \<and> (\<forall>i \<in> marks_in exact'. \<not> misses i)"
              using add_exact_range_ok [OF that _ _ ex(1) _ ex(3)] ex(2) True right(2) lim by simp
            then show ?thesis using res ex(4) in_r right(2) unfolding found_ok_def by auto
          qed
          then show ?thesis using run True Some by (auto simp: bind_r_Inr_iff)
        qed
      qed
    qed
  qed
qed

lemma binary_search_ok:
  assumes lim: "2 * limit + 2 \<le> size_max"
  shows "found_ok True must may misses lo found \<Longrightarrow> ascending lo rs \<Longrightarrow> lo \<le> limit \<Longrightarrow> \<forall>r \<in> set rs. range_end r \<le> limit
    \<Longrightarrow> \<exists>res. binary_search check debug rs found = Some res
          \<and> (\<forall>found'. res = Inr found' \<longrightarrow>
               found_ok True (must \<union> {i \<in> marks_in rs. hits i}) (may \<union> marks_in rs) misses limit found')"
proof (induction rs arbitrary: found must may lo)
  case Nil
  moreover have "found_ok True must may misses limit found" using found_ok_weaken [OF Nil(1,3)] by simp
  ultimately show ?case by (intro exI [of _ "Inr found"]) simp
next
  case (Cons r rs)
  have r: "lo \<le> range_begin r" "range_begin r < range_end r" "range_end r \<le> limit" "ascending (range_end r) rs"
    "\<forall>r \<in> set rs. range_end r \<le> limit"
    using Cons.prems by auto
  obtain res where res: "binary_search_range check debug r found = Some res"
      "\<forall>found'. res = Inr found' \<longrightarrow>
         found_ok True (must \<union> {i \<in> marks_of r. hits i}) (may \<union> marks_of r) misses (range_end r) found'"
    using binary_search_range_ok [OF r(3) lim Cons.prems(1) r(1,2)] by blast
  show ?case
  proof (cases res)
    case (Inl err)
    then show ?thesis using res(1) by (simp add: bind_or_def)
  next
    case (Inr found')
    have set_eq: "(must \<union> {i \<in> marks_of r. hits i}) \<union> {i \<in> marks_in rs. hits i} = must \<union> {i \<in> marks_in (r # rs). hits i}"
      "(may \<union> marks_of r) \<union> marks_in rs = may \<union> marks_in (r # rs)" by auto
    have "found_ok True (must \<union> {i \<in> marks_of r. hits i}) (may \<union> marks_of r) misses (range_end r) found'"
      using res(2) Inr by blast
    from Cons.IH [OF this r(4,3,5), unfolded set_eq] show ?thesis using res(1) Inr by (simp add: bind_or_def)
  qed
qed

end

end
