(* ===== verification/Key_Condition_Plain_Results.thy ===== *)
theory Key_Condition_Plain_Results
  imports Key_Condition_Plain Key_Condition_Analysis_Results
begin

text \<open>
  The plain ranges of a condition hold exactly the values that satisfy it, the bounds hold at least
  those, and a condition that matches an exact continuous range selects neighbouring keys only.
\<close>

section \<open>Plain ranges\<close>

definition in_ranges :: "('f key_range \<Rightarrow> 'f \<Rightarrow> bool) \<Rightarrow> 'f key_range list \<Rightarrow> 'f \<Rightarrow> bool" where
  "in_ranges mem rs x \<longleftrightarrow> (\<exists>r \<in> set rs. mem r x)"

lemma in_ranges_simps [simp]:
  "\<not> in_ranges mem [] x" "in_ranges mem (r # rs) x \<longleftrightarrow> mem r x \<or> in_ranges mem rs x"
  "in_ranges mem (rs @ rs') x \<longleftrightarrow> in_ranges mem rs x \<or> in_ranges mem rs' x"
  by (auto simp: in_ranges_def)

text \<open>The operations on plain ranges are those on the sets of values (that are not null).\<close>

definition plain_ops_ok :: "'f plain_ops \<Rightarrow> ('f key_range \<Rightarrow> 'f \<Rightarrow> bool) \<Rightarrow> ('f \<Rightarrow> bool) \<Rightarrow> bool" where
  "plain_ops_ok pops mem is_null \<longleftrightarrow> (\<forall>x. \<not> is_null x \<longrightarrow>
     (\<forall>a b. in_ranges mem (intersectWith pops a b) x \<longleftrightarrow> in_ranges mem a x \<and> in_ranges mem b x)
     \<and> (\<forall>a b. in_ranges mem (unionWith pops a b) x \<longleftrightarrow> in_ranges mem a x \<or> in_ranges mem b x)
     \<and> (\<forall>a r rs. invert_plain pops a = r # rs \<longrightarrow> ((\<forall>i \<in> set (r # rs). in_ranges mem i x) \<longleftrightarrow> \<not> in_ranges mem a x))
     \<and> (\<forall>r. in_ranges mem (invertRange pops r) x \<longleftrightarrow> \<not> mem r x)
     \<and> \<not> in_ranges mem (makeBlank pops) x \<and> in_ranges mem (makeUniverse pops) x)"

lemma plain_ops_okD:
  assumes "plain_ops_ok pops mem is_null" "\<not> is_null x"
  shows "in_ranges mem (intersectWith pops a b) x \<longleftrightarrow> in_ranges mem a x \<and> in_ranges mem b x"
    "in_ranges mem (unionWith pops a b) x \<longleftrightarrow> in_ranges mem a x \<or> in_ranges mem b x"
    "invert_plain pops a = r # rs \<Longrightarrow> (\<forall>i \<in> set (r # rs). in_ranges mem i x) \<longleftrightarrow> \<not> in_ranges mem a x"
    "in_ranges mem (invertRange pops s) x \<longleftrightarrow> \<not> mem s x"
    "\<not> in_ranges mem (makeBlank pops) x" "in_ranges mem (makeUniverse pops) x"
proof -
  note p = assms(1) [unfolded plain_ops_ok_def, THEN spec, THEN mp, OF assms(2)]
  note p2 = p [THEN conjunct2] and p3 = p [THEN conjunct2, THEN conjunct2]
  note p4 = p3 [THEN conjunct2]
  show "in_ranges mem (intersectWith pops a b) x \<longleftrightarrow> in_ranges mem a x \<and> in_ranges mem b x"
    by (rule p [THEN conjunct1, THEN spec, THEN spec])
  show "in_ranges mem (unionWith pops a b) x \<longleftrightarrow> in_ranges mem a x \<or> in_ranges mem b x"
    by (rule p2 [THEN conjunct1, THEN spec, THEN spec])
  show "invert_plain pops a = r # rs \<Longrightarrow> (\<forall>i \<in> set (r # rs). in_ranges mem i x) \<longleftrightarrow> \<not> in_ranges mem a x"
    by (rule p3 [THEN conjunct1, THEN spec, THEN spec, THEN spec, THEN mp])
  show "in_ranges mem (invertRange pops s) x \<longleftrightarrow> \<not> mem s x" by (rule p4 [THEN conjunct1, THEN spec])
  show "\<not> in_ranges mem (makeBlank pops) x" "in_ranges mem (makeUniverse pops) x" using p4 by blast+
qed

lemma foldl_intersect:
  assumes "plain_ops_ok pops mem is_null" "\<not> is_null x"
  shows "in_ranges mem (foldl (intersectWith pops) r rs) x \<longleftrightarrow> (\<forall>i \<in> set (r # rs). in_ranges mem i x)"
  by (induction rs arbitrary: r) (auto simp: plain_ops_okD(1) [OF assms])

lemma point_ranges_mem:
  assumes "range_ops_ok ops mem is_null"
  shows "point_ranges ops is_null vs = Some rs \<Longrightarrow> in_ranges mem rs x \<longleftrightarrow> x \<in> set vs"
  by (induction vs arbitrary: rs) (auto simp: point_mem [OF assms] split: if_splits)

text \<open>The ranges between the values of an ordered set hold everything else.\<close>

lemma gap_ranges_mem:
  assumes ops: "range_ops_ok ops mem is_null" and x: "\<not> is_null x"
  shows "gap_ranges ops is_null pre vs = Some rs \<Longrightarrow> sorted_wrt (<) vs \<Longrightarrow> (\<forall>p. pre = Some p \<longrightarrow> (\<forall>v \<in> set vs. p < v))
    \<Longrightarrow> pre = None \<longrightarrow> vs \<noteq> []
    \<Longrightarrow> in_ranges mem rs x \<longleftrightarrow> (\<forall>p. pre = Some p \<longrightarrow> p < x) \<and> x \<notin> set vs"
proof (induction vs arbitrary: pre rs)
  case Nil
  then obtain p where p: "pre = Some p" "rs = [createLeftBounded ops p False False]" by (cases pre) auto
  have "mem (createLeftBounded ops p False False) x \<longleftrightarrow> p < x"
    using bounded_range_mem [OF ops, of True False False x p p False] x by (simp add: bounded_range_def)
  then show ?case using p by simp
next
  case (Cons v vs)
  from Cons.prems(1) obtain rest where rest: "gap_ranges ops is_null (Some v) vs = Some rest"
    "rs = (case pre of None \<Rightarrow> [createRightBounded ops v False False]
             | Some p \<Rightarrow> if blank_between p v then [] else [make_range ops p False v False]) @ rest"
    by (auto split: if_splits)
  have IH: "in_ranges mem rest x \<longleftrightarrow> v < x \<and> x \<notin> set vs"
    using Cons.IH [OF rest(1)] Cons.prems(2) by auto
  have above: "\<forall>w \<in> set vs. v < w" using Cons.prems(2) by simp
  show ?case
  proof (cases pre)
    case None
    have "mem (createRightBounded ops v False False) x \<longleftrightarrow> x < v"
      using bounded_range_mem [OF ops, of False True False x v v False] x by (simp add: bounded_range_def)
    then show ?thesis using None rest(2) IH above by auto
  next
    case (Some p)
    then have "p < v" using Cons.prems(3) by simp
    then have "\<not> blank_between p v" by (auto simp: blank_between_def)
    moreover have "mem (make_range ops p False v False) x \<longleftrightarrow> p < x \<and> x < v"
      using bounded_range_mem [OF ops, of True True False x p v False] x by (simp add: bounded_range_def)
    ultimately show ?thesis using Some rest(2) IH above \<open>p < v\<close> by auto
  qed
qed

text \<open>What an atom means for the value of the only key column.\<close>

definition plain_means ::
  "('s \<Rightarrow> ('f::linorder) plain_set) \<Rightarrow> ('f key_range \<Rightarrow> 'f \<Rightarrow> bool) \<Rightarrow> bool \<Rightarrow> 'f \<Rightarrow> ('f, 'fn, 's, 'p) rpn_element \<Rightarrow> bool \<Rightarrow> bool" where
  "plain_means set_of mem filter_present x e b \<longleftrightarrow>
     (case el_function e of
        FUNCTION_IN_RANGE \<Rightarrow> b = mem (el_range e) x
      | FUNCTION_NOT_IN_RANGE \<Rightarrow> b = (\<not> mem (el_range e) x)
      | FUNCTION_IN_SET \<Rightarrow> (\<forall>s. set_index e = Some s \<longrightarrow> b = (x \<in> set (set_first_values (set_of s))))
      | FUNCTION_NOT_IN_SET \<Rightarrow> (\<forall>s. set_index e = Some s \<longrightarrow> sorted_wrt (<) (set_first_values (set_of s))
            \<and> b = (x \<notin> set (set_first_values (set_of s))))
      | ALWAYS_FALSE \<Rightarrow> \<not> b
      | ALWAYS_TRUE \<Rightarrow> b
      | FUNCTION_IS_NULL \<Rightarrow> \<not> b
      | FUNCTION_IS_NOT_NULL \<Rightarrow> b
      | _ \<Rightarrow> filter_present \<or> b)"

definition plain_admissible ::
  "('f::linorder, 'f key_range) range_ops \<Rightarrow> 'f plain_ops \<Rightarrow> ('s \<Rightarrow> 'f plain_set) \<Rightarrow> ('f \<Rightarrow> bool) \<Rightarrow> ('f key_range \<Rightarrow> 'f \<Rightarrow> bool)
     \<Rightarrow> bool \<Rightarrow> 'f \<Rightarrow> (('f, 'fn, 's, 'p) rpn_element \<Rightarrow> bool) \<Rightarrow> ('f, 'fn, 's, 'p) rpn_element \<Rightarrow> bool" where
  "plain_admissible ops pops set_of is_null mem filter_present x tv e \<longleftrightarrow>
     range_ops_ok ops mem is_null \<and> plain_ops_ok pops mem is_null \<and> \<not> is_null x
     \<and> (kind_of e = Atom \<longrightarrow> plain_means set_of mem filter_present x e (tv e))"

lemma plain_atom_means:
  assumes adm: "plain_admissible ops pops set_of is_null mem filter_present x tv e" and k: "kind_of e = Atom"
    and run: "plain_atom ops pops set_of is_null filter_present e = Inr (Inr rs)"
  shows "in_ranges mem rs x \<longleftrightarrow> tv e"
proof -
  have ops: "range_ops_ok ops mem is_null" and pops: "plain_ops_ok pops mem is_null" and x: "\<not> is_null x"
    and means: "plain_means set_of mem filter_present x e (tv e)"
    using adm k by (simp_all add: plain_admissible_def)
  note p = plain_ops_okD [OF pops x]
  show ?thesis
  proof (cases "el_function e")
    case FUNCTION_IN_SET
    then obtain s where s: "set_index e = Some s" using run by (auto simp: plain_atom_def split: option.splits)
    then have b: "tv e = (x \<in> set (set_first_values (set_of s)))"
      using means FUNCTION_IN_SET by (simp add: plain_means_def)
    show ?thesis
    proof (cases "set_first_values (set_of s) = []")
      case True
      then have "rs = makeBlank pops" using run s FUNCTION_IN_SET by (simp add: plain_atom_def split: if_splits)
      then show ?thesis using b True p(5) by simp
    next
      case False
      then have "point_ranges ops is_null (set_first_values (set_of s)) = Some rs"
        using run s FUNCTION_IN_SET by (simp add: plain_atom_def split: if_splits option.splits)
      then show ?thesis using b point_ranges_mem [OF ops] by blast
    qed
  next
    case FUNCTION_NOT_IN_SET
    then obtain s where s: "set_index e = Some s" using run by (auto simp: plain_atom_def split: option.splits)
    then have b: "sorted_wrt (<) (set_first_values (set_of s))" "tv e = (x \<notin> set (set_first_values (set_of s)))"
      using means FUNCTION_NOT_IN_SET by (simp_all add: plain_means_def)
    show ?thesis
    proof (cases "set_first_values (set_of s) = []")
      case True
      then have "rs = makeUniverse pops" using run s FUNCTION_NOT_IN_SET by (simp add: plain_atom_def split: if_splits)
      then show ?thesis using b(2) True p(6) by simp
    next
      case False
      then have "gap_ranges ops is_null None (set_first_values (set_of s)) = Some rs"
        using run s FUNCTION_NOT_IN_SET by (simp add: plain_atom_def split: if_splits option.splits)
      from gap_ranges_mem [OF ops x this b(1)] b(2) False show ?thesis by simp
    qed
  next
    case FUNCTION_NOT_IN_RANGE
    then have "rs = invertRange pops (el_range e)" "tv e = (\<not> mem (el_range e) x)"
      using run means by (simp_all add: plain_atom_def plain_means_def)
    then show ?thesis using p(4) by simp
  next
    case FUNCTION_IN_RANGE
    then have "rs = [el_range e]" "tv e = mem (el_range e) x"
      using run means by (simp_all add: plain_atom_def plain_means_def)
    then show ?thesis by simp
  qed (use run means p(5,6) k in \<open>auto simp: plain_atom_def plain_means_def kind_of_def split: if_splits\<close>)
qed

interpretation plain: stack_simulation "Inl UB" kind_of "plain_atom ops pops set_of is_null filter_present"
  "plain_not pops" "plain_and pops" "plain_or pops" tv "\<lambda>v b. plain_ops_ok pops mem is_null \<and> \<not> is_null x
     \<longrightarrow> (\<forall>rs. v = Inr rs \<longrightarrow> (in_ranges mem rs x \<longleftrightarrow> b))"
  "plain_admissible ops pops set_of is_null mem filter_present x tv"
  for ops pops set_of is_null filter_present tv mem x
proof (unfold_locales, goal_cases)
  case (1 e v)
  then show ?case using plain_atom_means by blast
next
  case (2 e v b)
  show ?case
  proof (intro impI allI)
    fix rs assume ok: "plain_ops_ok pops mem is_null \<and> \<not> is_null x" and r: "plain_not pops v = Inr rs"
    from r obtain a i ivs where "v = Inr a" "invert_plain pops a = i # ivs" "rs = foldl (intersectWith pops) i ivs"
      by (fastforce simp: plain_not_def bind_r_Inr_iff neq_Nil_conv split: list.splits)
    then show "in_ranges mem rs x \<longleftrightarrow> \<not> b"
      using 2(3) ok foldl_intersect [of pops mem is_null x i ivs] plain_ops_okD(3) [of pops mem is_null x a i ivs] by blast
  qed
next
  case (3 v b w c)
  then show ?case
    by (auto simp: plain_and_def bind_r_Inr_iff plain_ops_okD(1))
next
  case (4 v b w c)
  then show ?case
    by (auto simp: plain_or_def bind_r_Inr_iff plain_ops_okD(2))
qed

lemma extractPlainRanges_exact:
  assumes run: "extractPlainRanges ops pops set_of is_null kc = Inr (Some rs)"
    and adm: "\<forall>e \<in> set (rpn kc). plain_admissible ops pops set_of is_null mem (has_filter kc) x tv e"
    and ok: "plain_ops_ok pops mem is_null" "\<not> is_null x"
  shows "truth_of kind_of tv (rpn kc) = Some (in_ranges mem rs x)"
proof -
  let ?run = "stack_machine (Inl UB) kind_of (plain_atom ops pops set_of is_null (has_filter kc))
      (plain_not pops) (plain_and pops) (plain_or pops) (rpn kc) []"
  have res: "(case ?run of Inl (Inr ()) \<Rightarrow> Inr None | Inl (Inl err) \<Rightarrow> Inl err
      | Inr stack \<Rightarrow> if list_ex isl stack then Inl UB
          else case stack of [v] \<Rightarrow> map_sum id Some v | _ \<Rightarrow> Inl LOGICAL_ERROR) = Inr (Some rs)"
    using run unfolding extractPlainRanges_def by (meson Inr_inject option.distinct(1))
  obtain stack where st: "?run = Inr stack"
    "(if list_ex isl stack then Inl UB else case stack of [v] \<Rightarrow> map_sum id Some v | _ \<Rightarrow> Inl LOGICAL_ERROR) = Inr (Some rs)"
  proof (cases ?run)
    case (Inl x)
    then show ?thesis using res by (cases x) (simp_all split: unit.splits)
  next
    case (Inr stack)
    then show ?thesis using res that by simp
  qed
  have "stack = [Inr rs]"
  proof (cases stack rule: remdups_adj.cases)
    case (2 v)
    then show ?thesis using st(2) by (cases v) simp_all
  qed (use st(2) in \<open>simp_all split: if_splits\<close>)
  from plain.value_related [OF st(1) [unfolded this] adm] ok show ?thesis by auto
qed

section \<open>Bounds\<close>

lemma bounds_loop_holds:
  "bounds_loop ops pops set_of is_null kc ranges extracted_any bounds = Inr bs
    \<Longrightarrow> in_ranges mem bounds x
    \<Longrightarrow> \<forall>r \<in> set ranges. truth_of kind_of tv (slice (rpn kc) r) = Some True
          \<and> (\<forall>e \<in> set (slice (rpn kc) r). plain_admissible ops pops set_of is_null mem True x tv e)
    \<Longrightarrow> range_ops_ok ops mem is_null \<Longrightarrow> plain_ops_ok pops mem is_null \<Longrightarrow> \<not> is_null x \<Longrightarrow> in_ranges mem bs x"
proof (induction ranges arbitrary: extracted_any bounds)
  case Nil
  then show ?case by (auto simp: range_ops_ok_def split: if_splits)
next
  case (Cons r ranges)
  note ok = Cons.prems(5,6)
  from Cons.prems(1) obtain res where res: "extractPlainRanges ops pops set_of is_null (one_conjunct kc r) = Inr res"
    "(case res of
         None \<Rightarrow> bounds_loop ops pops set_of is_null kc ranges extracted_any bounds
       | Some conjunct_ranges \<Rightarrow>
           if conjunct_ranges = [] then Inr []
           else let bounds = intersectWith pops bounds conjunct_ranges
                in if bounds = [] then Inr []
                   else bounds_loop ops pops set_of is_null kc ranges True bounds) = Inr bs"
    by (auto simp: bind_r_Inr_iff)
  show ?case
  proof (cases res)
    case None
    then show ?thesis using Cons.IH [of extracted_any bounds] res(2) Cons.prems(2-) by simp
  next
    case (Some cr)
    have here: "truth_of kind_of tv (slice (rpn kc) r) = Some True"
      "\<forall>e \<in> set (slice (rpn kc) r). plain_admissible ops pops set_of is_null mem True x tv e"
      using Cons.prems(3) by simp_all
    have "truth_of kind_of tv (rpn (one_conjunct kc r)) = Some (in_ranges mem cr x)"
      by (rule extractPlainRanges_exact [OF res(1) [unfolded Some] _ ok]) (use here(2) in \<open>simp add: one_conjunct_def\<close>)
    then have cr: "in_ranges mem cr x" using here(1) by (simp add: one_conjunct_def)
    then have meet: "in_ranges mem (intersectWith pops bounds cr) x" using plain_ops_okD(1) [OF ok] Cons.prems(2) by blast
    have "cr \<noteq> []" "intersectWith pops bounds cr \<noteq> []" using cr meet by auto
    then have "bounds_loop ops pops set_of is_null kc ranges True (intersectWith pops bounds cr) = Inr bs"
      using res(2) Some by (simp add: Let_def)
    then show ?thesis by (rule Cons.IH) (use meet Cons.prems(3-) in auto)
  qed
qed

lemma set_slice: "set (slice es r) \<subseteq> set es"
  unfolding slice_def by (meson set_drop_subset set_take_subset subset_trans)

text \<open>
  C35: The values that a condition on one key column allows. Where \<open>extractPlainRanges\<close>
  succeeds, its ranges hold exactly the values of the column that satisfy the condition. The bounds of
  \<open>extractBounds\<close> hold at least these, also where some of the conjuncts have no plain ranges.
\<close>
theorem plain_ranges_exact:
  assumes ok: "range_ops_ok ops mem is_null" "plain_ops_ok pops mem is_null" "\<not> is_null x"
    and means: "\<forall>e \<in> set (rpn kc). kind_of e = Atom \<longrightarrow> plain_means set_of mem (has_filter kc) x e (tv e)"
  shows "(\<forall>rs. extractPlainRanges ops pops set_of is_null kc = Inr (Some rs)
        \<longrightarrow> truth_of kind_of tv (rpn kc) = Some (in_ranges mem rs x))
    \<and> (\<forall>bs. extractBounds ops pops set_of is_null kc = Inr bs \<and> truth_of kind_of tv (rpn kc) = Some True
        \<longrightarrow> in_ranges mem bs x)"
proof (intro conjI allI impI)
  have adm: "\<forall>e \<in> set (rpn kc). plain_admissible ops pops set_of is_null mem (has_filter kc) x tv e"
    using ok means by (simp add: plain_admissible_def)
  show "truth_of kind_of tv (rpn kc) = Some (in_ranges mem rs x)"
    if "extractPlainRanges ops pops set_of is_null kc = Inr (Some rs)" for rs
    using extractPlainRanges_exact [OF that adm ok(2,3)] .
  fix bs assume b: "extractBounds ops pops set_of is_null kc = Inr bs \<and> truth_of kind_of tv (rpn kc) = Some True"
  show "in_ranges mem bs x"
  proof (cases "length (kc_key_columns kc) \<noteq> 1 \<or> \<not> has_filter kc")
    case True
    then have "bs = [wholeUniverseWithoutNull ops]" using b by (auto simp: extractBounds_def split: if_splits)
    then show ?thesis using ok(1,3) by (simp add: range_ops_ok_def)
  next
    case False
    then have f: "has_filter kc" by simp
    obtain rs where rs: "topLevelConjunction (rpn kc) = Inr rs"
      "bounds_loop ops pops set_of is_null kc rs False (makeUniverse pops) = Inr bs"
      using b False by (auto simp: extractBounds_def bind_r_Inr_iff)
    have "\<forall>r \<in> set rs. truth_of kind_of tv (slice (rpn kc) r) = Some True"
      using topLevelConjunction_region [OF rs(1), of tv True] b by (simp add: region_ok_def)
    moreover have "\<forall>e \<in> set (slice (rpn kc) r). plain_admissible ops pops set_of is_null mem True x tv e" for r
      using set_slice [of "rpn kc" r] adm f by auto
    moreover have "in_ranges mem (makeUniverse pops) x" using plain_ops_okD(6) [OF ok(2,3)] .
    ultimately show ?thesis by (intro bounds_loop_holds [OF rs(2) _ _ ok]) blast+
  qed
qed

text \<open>Plain ranges over the example fields: lists of ranges, met pairwise.\<close>

definition demo_meet :: "demo_field key_range \<Rightarrow> demo_field key_range \<Rightarrow> demo_field key_range" where
  "demo_meet a b = \<lparr>
     range_left = max (range_left a) (range_left b), range_right = min (range_right a) (range_right b),
     left_included = (if range_left a < range_left b then left_included b
                      else if range_left b < range_left a then left_included a else left_included a \<and> left_included b),
     right_included = (if range_right a < range_right b then right_included a
                       else if range_right b < range_right a then right_included b else right_included a \<and> right_included b)\<rparr>"

definition demo_outside :: "demo_field key_range \<Rightarrow> demo_field key_range list" where
  "demo_outside r = [
     \<lparr>range_left = Minus_Inf, range_right = range_left r, left_included = True, right_included = \<not> left_included r\<rparr>,
     \<lparr>range_left = range_right r, range_right = Plus_Inf, left_included = \<not> right_included r, right_included = True\<rparr>]"

definition demo_plain_ops :: "demo_field plain_ops" where
  "demo_plain_ops = \<lparr>
     intersectWith = (\<lambda>a b. concat (map (\<lambda>r. map (demo_meet r) b) a)), unionWith = (@),
     invert_plain = (\<lambda>a. [wholeUniverse demo_range_ops] # map demo_outside a), invertRange = demo_outside,
     makeBlank = [], makeUniverse = [wholeUniverse demo_range_ops]\<rparr>"

lemma demo_meet_bounds: "in_bounds (demo_meet a b) x \<longleftrightarrow> in_bounds a x \<and> in_bounds b x"
  by (auto simp: in_bounds_def demo_meet_def max_def min_def split: if_splits)

lemma demo_outside_bounds: "\<not> demo_null x \<Longrightarrow> in_ranges in_bounds (demo_outside r) x \<longleftrightarrow> \<not> in_bounds r x"
  by (auto simp: in_bounds_def demo_outside_def demo_null_def)

lemma demo_plain_ops_ok: "plain_ops_ok demo_plain_ops in_bounds demo_null"
proof -
  have meet: "in_ranges in_bounds (concat (map (\<lambda>r. map (demo_meet r) b) a)) x
      \<longleftrightarrow> in_ranges in_bounds a x \<and> in_ranges in_bounds b x" for a b x
    by (auto simp: in_ranges_def demo_meet_bounds)
  have all: "in_bounds (wholeUniverse demo_range_ops) x" for x by (simp add: demo_range_ops_def in_bounds_def; auto)
  have "(\<forall>i \<in> set a. in_ranges in_bounds (demo_outside i) x) \<longleftrightarrow> \<not> in_ranges in_bounds a x" if "\<not> demo_null x" for a x
    using demo_outside_bounds [OF that] by (auto simp: in_ranges_def)
  then show ?thesis
    unfolding plain_ops_ok_def by (auto simp: demo_plain_ops_def meet all demo_outside_bounds)
qed

text \<open>The condition \<open>x IN [2, 4] AND x NOT IN {3}\<close> on one column.\<close>

definition demo_set :: "nat list \<Rightarrow> demo_field plain_set" where
  "demo_set s = \<lparr>set_first_values = map Num s, set_has_chain = False\<rparr>"

definition demo_plain_condition :: "(demo_field, demo_function, nat list, unit) key_condition" where
  "demo_plain_condition = demo_condition\<lparr>kc_key_columns := [(''x'', 0)], num_key_columns := 1,
     rpn := [demo_x\<lparr>monotonic_functions_chain := []\<rparr>, (demo_element FUNCTION_NOT_IN_SET)\<lparr>set_index := Some [3]\<rparr>,
             demo_element FUNCTION_AND]\<rparr>"

definition demo_plain_tv :: "nat \<Rightarrow> (demo_field, demo_function, nat list, unit) rpn_element \<Rightarrow> bool" where
  "demo_plain_tv x e = (if el_function e = FUNCTION_IN_RANGE then 2 \<le> x \<and> x \<le> 4 else x \<noteq> 3)"

lemma demo_plain_means:
  "\<forall>e \<in> set (rpn demo_plain_condition). kind_of e = Atom \<longrightarrow>
     plain_means demo_set in_bounds (has_filter demo_plain_condition) (Num x) e (demo_plain_tv x e)"
proof -
  have "el_range demo_x = demo_interval 2 4" by (simp add: demo_x_def)
  then show ?thesis
    by (simp add: demo_plain_condition_def demo_x_def plain_means_def demo_plain_tv_def demo_set_def)
qed

lemma demo_plain_ranges:
  "extractPlainRanges demo_range_ops demo_plain_ops demo_set demo_null demo_plain_condition
     = Inr (Some [\<lparr>range_left = Num 2, range_right = Num 3, left_included = True, right_included = False\<rparr>,
                  \<lparr>range_left = Num 3, range_right = Num 4, left_included = False, right_included = True\<rparr>])"
proof -
  have kinds: "kind_of (demo_x\<lparr>monotonic_functions_chain := []\<rparr>) = Atom"
    "kind_of ((demo_element FUNCTION_NOT_IN_SET)\<lparr>set_index := Some [3]\<rparr>) = Atom"
    "kind_of (demo_element FUNCTION_AND) = Conjunction"
    by (simp_all add: kind_of_def demo_x_def)
  have rpn: "rpn demo_plain_condition = [demo_x\<lparr>monotonic_functions_chain := []\<rparr>,
      (demo_element FUNCTION_NOT_IN_SET)\<lparr>set_index := Some [3]\<rparr>, demo_element FUNCTION_AND]"
    "length (kc_key_columns demo_plain_condition) = 1"
    by (simp_all add: demo_plain_condition_def)
  have chain: "\<not> hasMonotonicFunctionsChain (\<lambda>s. set_has_chain (demo_set s)) demo_plain_condition"
    by (simp add: hasMonotonicFunctionsChain_def rpn demo_set_def demo_x_def)
  have a: "plain_atom demo_range_ops demo_plain_ops demo_set demo_null f (demo_x\<lparr>monotonic_functions_chain := []\<rparr>)
      = Inr (Inr [demo_interval 2 4])" for f
    by (simp add: plain_atom_def demo_x_def)
  have b: "plain_atom demo_range_ops demo_plain_ops demo_set demo_null f ((demo_element FUNCTION_NOT_IN_SET)\<lparr>set_index := Some [3]\<rparr>)
      = Inr (Inr [createRightBounded demo_range_ops (Num 3) False False, createLeftBounded demo_range_ops (Num 3) False False])" for f
    by (simp add: plain_atom_def demo_set_def)
  show ?thesis
    unfolding extractPlainRanges_def rpn(1)
    by (simp add: rpn(2) chain kinds a b stack_step_simps plain_and_def)
       (simp add: demo_plain_ops_def demo_meet_def demo_interval_def demo_range_ops_def)
qed

theorem plain_ranges_exact_witness:
  "extractPlainRanges demo_range_ops demo_plain_ops demo_set demo_null demo_plain_condition
     = Inr (Some [\<lparr>range_left = Num 2, range_right = Num 3, left_included = True, right_included = False\<rparr>,
                  \<lparr>range_left = Num 3, range_right = Num 4, left_included = False, right_included = True\<rparr>])
   \<and> truth_of kind_of (demo_plain_tv 4) (rpn demo_plain_condition) = Some True
   \<and> truth_of kind_of (demo_plain_tv 3) (rpn demo_plain_condition) = Some False"
proof -
  have nn: "\<not> demo_null (Num n)" for n by simp
  note exact = plain_ranges_exact [OF demo_range_ops_ok demo_plain_ops_ok nn demo_plain_means, THEN conjunct1,
      THEN spec, THEN mp, OF demo_plain_ranges]
  show ?thesis using demo_plain_ranges exact [of 4] exact [of 3] by (simp add: in_bounds_def)
qed

section \<open>Continuous ranges of the key\<close>

text \<open>
  A row is a tuple of key values. The functions of the chains are \<open>app\<close>; a function that says
  so for the unbounded range is monotonic, or strictly monotonic, on all values.
\<close>

definition chain_value :: "('fn \<Rightarrow> 'f \<Rightarrow> 'f) \<Rightarrow> 'fn list \<Rightarrow> 'f \<Rightarrow> 'f" where
  "chain_value app chain x = foldl (\<lambda>v f. app f v) x chain"

definition monotonicity_ok ::
  "('f::linorder, 'ty, 'fn, 's, 'p, 'x) key_env \<Rightarrow> ('fn \<Rightarrow> 'ty option) \<Rightarrow> 'f \<Rightarrow> ('fn \<Rightarrow> 'f \<Rightarrow> 'f) \<Rightarrow> bool" where
  "monotonicity_ok env argument_type null app \<longleftrightarrow>
     (\<forall>f ty. argument_type f = Some ty \<and> is_always_monotonic (getMonotonicityForRange env f ty null null)
        \<longrightarrow> (mono (app f) \<or> antimono (app f))
            \<and> (is_strict (getMonotonicityForRange env f ty null null) \<longrightarrow> inj (app f)))"

definition monotonic_value :: "('f::linorder \<Rightarrow> 'f) \<Rightarrow> bool" where
  "monotonic_value g \<longleftrightarrow> mono g \<or> antimono g"

lemma monotonic_value_comp: "monotonic_value g \<Longrightarrow> monotonic_value h \<Longrightarrow> monotonic_value (\<lambda>x. g (h x))"
  unfolding monotonic_value_def by (auto simp: monotone_def)

lemma chain_monotonicity_sound:
  assumes ok: "monotonicity_ok env argument_type null app"
  shows "chain_monotonicity env argument_type null chain a s = (True, s') \<Longrightarrow>
    a \<and> monotonic_value (chain_value app chain) \<and> (s' \<longrightarrow> s \<and> inj (chain_value app chain))"
proof (induction chain arbitrary: a s)
  case Nil
  then show ?case by (simp add: chain_value_def monotonic_value_def monotone_def)
next
  case (Cons f chain)
  from Cons.prems obtain ty where ty: "argument_type f = Some ty" by (auto split: option.splits)
  let ?m = "getMonotonicityForRange env f ty null null"
  have run: "chain_monotonicity env argument_type null chain (a \<and> is_always_monotonic ?m) (s \<and> is_strict ?m) = (True, s')"
    using Cons.prems ty by (auto simp: Let_def split: if_splits)
  note IH = Cons.IH [OF run]
  have f: "monotonic_value (app f)" "is_strict ?m \<longrightarrow> inj (app f)"
    using ok ty IH unfolding monotonicity_ok_def monotonic_value_def by blast+
  have eq: "chain_value app (f # chain) = (\<lambda>x. chain_value app chain (app f x))"
    by (simp add: chain_value_def fun_eq_iff)
  have "inj (chain_value app (f # chain))" if s'
    using IH f(2) that unfolding eq inj_def by blast
  then show ?case using IH monotonic_value_comp [OF _ f(1)] unfolding eq by blast
qed

text \<open>
  What an atom says of the value \<open>x\<close> of column \<open>c\<close>; \<open>only_row s\<close> is
  the row of a set with one.
\<close>

definition column_allows ::
  "('fn \<Rightarrow> 'f \<Rightarrow> 'f) \<Rightarrow> ('s \<Rightarrow> (nat \<times> 'fn list) list) \<Rightarrow> ('s \<Rightarrow> 'f list) \<Rightarrow> nat \<Rightarrow> 'f::linorder
     \<Rightarrow> ('f, 'fn, 's, 'p) rpn_element \<Rightarrow> bool" where
  "column_allows app set_mapping only_row c x e \<longleftrightarrow>
     (case el_function e of
        FUNCTION_IN_RANGE \<Rightarrow> getKeyColumn e = Inr c \<longrightarrow> in_bounds (el_range e) (chain_value app (monotonic_functions_chain e) x)
      | FUNCTION_IN_SET \<Rightarrow> (\<forall>s. set_index e = Some s \<longrightarrow>
            (\<forall>((k, chain), v) \<in> set (zip (set_mapping s) (only_row s)). k = c \<longrightarrow> chain_value app chain x = v))
      | _ \<Rightarrow> True)"

definition row_means ::
  "('fn \<Rightarrow> 'f \<Rightarrow> 'f) \<Rightarrow> ('s \<Rightarrow> (nat \<times> 'fn list) list) \<Rightarrow> ('s \<Rightarrow> 'f list) \<Rightarrow> 'f::linorder list
     \<Rightarrow> ('f, 'fn, 's, 'p) rpn_element \<Rightarrow> bool \<Rightarrow> bool" where
  "row_means app set_mapping only_row row e b \<longleftrightarrow>
     (case el_function e of
        FUNCTION_IN_RANGE \<Rightarrow> (\<forall>c. getKeyColumn e = Inr c \<longrightarrow>
            b = in_bounds (el_range e) (chain_value app (monotonic_functions_chain e) (row ! c)))
      | FUNCTION_IN_SET \<Rightarrow> (\<forall>s. set_index e = Some s \<longrightarrow> length (only_row s) = length (set_mapping s)
            \<and> b = (\<forall>((k, chain), v) \<in> set (zip (set_mapping s) (only_row s)). chain_value app chain (row ! k) = v))
      | FUNCTION_UNKNOWN \<Rightarrow> b
      | ALWAYS_TRUE \<Rightarrow> b
      | _ \<Rightarrow> True)"

text \<open>The values that a column may take, as far as its constraint tells.\<close>

definition allowed_ok :: "key_constraint \<Rightarrow> ('f::linorder \<Rightarrow> bool) \<Rightarrow> bool" where
  "allowed_ok k P \<longleftrightarrow>
     (\<forall>x y z. P x \<and> P z \<and> x \<le> y \<and> y \<le> z \<longrightarrow> P y)
     \<and> (k = POINT \<longrightarrow> (\<forall>x y. P x \<and> P y \<longrightarrow> x = y))
     \<and> (k = UNKNOWN_CONSTRAINT \<longrightarrow> (\<forall>x. P x))"

lemma allowed_ok_constrain:
  assumes "allowed_ok k P" "allowed_ok (if point then POINT else RANGE) Q"
  shows "allowed_ok (constrain point k) (\<lambda>x. P x \<and> Q x)"
proof -
  have "\<forall>x y z. (P x \<and> Q x) \<and> (P z \<and> Q z) \<and> x \<le> y \<and> y \<le> z \<longrightarrow> P y \<and> Q y"
    using assms [unfolded allowed_ok_def] by blast
  moreover have "\<forall>x y. (P x \<and> Q x) \<and> P y \<and> Q y \<longrightarrow> x = y" if "constrain point k = POINT"
  proof (cases point)
    case True
    then show ?thesis using assms(2) [unfolded allowed_ok_def, THEN conjunct2, THEN conjunct1] by simp
  next
    case False
    then have "k = POINT" using that by (simp add: constrain_def split: if_splits)
    then show ?thesis using assms(1) [unfolded allowed_ok_def, THEN conjunct2, THEN conjunct1] by simp
  qed
  moreover have "constrain point k \<noteq> UNKNOWN_CONSTRAINT" by (cases k) (auto simp: constrain_def)
  ultimately show ?thesis unfolding allowed_ok_def by blast
qed

lemma in_bounds_between:
  assumes "in_bounds r a" "in_bounds r b" "a \<le> c" "c \<le> b"
  shows "in_bounds r c"
proof (cases "c = a \<or> c = b")
  case False
  then have "a < c" "c < b" using assms(3,4) by auto
  have "range_left r \<le> a" "b \<le> range_right r" using assms(1,2) by (auto simp: in_bounds_def)
  have "range_left r < c" using \<open>range_left r \<le> a\<close> \<open>a < c\<close> by (rule le_less_trans)
  moreover have "c < range_right r" using \<open>c < b\<close> \<open>b \<le> range_right r\<close> by (rule less_le_trans)
  ultimately show ?thesis by (simp add: in_bounds_def)
qed (use assms in auto)

lemma allowed_by_range:
  assumes "monotonic_value g" "point \<longrightarrow> inj g \<and> range_left r = range_right r"
  shows "allowed_ok (if point then POINT else RANGE) (\<lambda>x. in_bounds r (g x))"
proof -
  have convex: "in_bounds r (g y)" if "in_bounds r (g x)" "in_bounds r (g z)" "x \<le> y" "y \<le> z" for x y z
  proof -
    have "g x \<le> g y \<and> g y \<le> g z \<or> g z \<le> g y \<and> g y \<le> g x"
      using assms(1) that(3,4) unfolding monotonic_value_def by (auto simp: monotone_on_def)
    then show ?thesis using in_bounds_between that(1,2) by blast
  qed
  have "x = y" if p: point and "in_bounds r (g x)" "in_bounds r (g y)" for x y
  proof -
    have "range_left r \<le> g x" "g x \<le> range_right r" "range_left r \<le> g y" "g y \<le> range_right r"
      using that(2,3) by (auto simp: in_bounds_def)
    moreover have "range_left r = range_right r" using assms(2) p by blast
    ultimately have "g x = range_right r" "g y = range_right r" by (simp_all add: order_antisym_conv)
    then have "g x = g y" by simp
    moreover have "inj g" using assms(2) p by blast
    ultimately show ?thesis by (rule injD [rotated])
  qed
  then have same: "point \<Longrightarrow> \<forall>x y. in_bounds r (g x) \<and> in_bounds r (g y) \<longrightarrow> x = y" by blast
  have "\<forall>x y z. in_bounds r (g x) \<and> in_bounds r (g z) \<and> x \<le> y \<and> y \<le> z \<longrightarrow> in_bounds r (g y)"
    by (intro allI impI, elim conjE, rule convex)
  moreover have "(if point then POINT else RANGE) = POINT \<longrightarrow> (\<forall>x y. in_bounds r (g x) \<and> in_bounds r (g y) \<longrightarrow> x = y)"
    by (intro impI, rule same) (simp split: if_splits)
  moreover have "(if point then POINT else RANGE) \<noteq> UNKNOWN_CONSTRAINT" by simp
  ultimately show ?thesis unfolding allowed_ok_def by (intro conjI) (assumption, assumption, rule impI, erule notE)
qed

lemma allowed_by_value:
  assumes "monotonic_value g" "point \<longrightarrow> inj g"
  shows "allowed_ok (if point then POINT else RANGE) (\<lambda>x. g x = v)"
proof -
  have eq: "(g x = v) = in_bounds \<lparr>range_left = v, range_right = v, left_included = True, right_included = True\<rparr> (g x)" for x
    by (auto simp: in_bounds_def)
  show ?thesis unfolding eq by (rule allowed_by_range) (use assms in auto)
qed

lemma allowed_ok_or_keep:
  "allowed_ok k P \<Longrightarrow> (\<And>x. Q x) \<Longrightarrow> allowed_ok k (\<lambda>x. P x \<and> Q x)"
  by simp

definition constraints_ok :: "key_constraint list \<Rightarrow> (nat \<Rightarrow> 'f::linorder \<Rightarrow> bool) \<Rightarrow> bool" where
  "constraints_ok cs P \<longleftrightarrow> (\<forall>c < length cs. allowed_ok (cs ! c) (P c))"

lemma constrain_column_ok:
  assumes "constrain_column c point cs = Inr cs'" "constraints_ok cs P" "allowed_ok (if point then POINT else RANGE) Q"
  shows "c < length cs \<and> length cs' = length cs \<and> constraints_ok cs' (\<lambda>k x. P k x \<and> (k = c \<longrightarrow> Q x))"
proof -
  have c: "c < length cs" "cs' = cs[c := constrain point (cs ! c)]"
    using assms(1) by (auto simp: constrain_column_def split: if_splits)
  have "allowed_ok (cs' ! k) (\<lambda>x. P k x \<and> (k = c \<longrightarrow> Q x))" if "k < length cs" for k
  proof (cases "k = c")
    case True
    then show ?thesis using allowed_ok_constrain [OF _ assms(3)] assms(2) c by (simp add: constraints_ok_def)
  next
    case False
    then show ?thesis using assms(2) c that by (simp add: constraints_ok_def)
  qed
  then show ?thesis using c by (simp add: constraints_ok_def)
qed

lemma constrain_mappings_ok:
  assumes ok: "monotonicity_ok env argument_type null app"
  shows "constrain_mappings env argument_type null ms cs = Inr (Some cs') \<Longrightarrow> constraints_ok cs P \<Longrightarrow> length vs = length ms
    \<Longrightarrow> length cs' = length cs \<and> (\<forall>m \<in> set ms. fst m < length cs)
      \<and> constraints_ok cs' (\<lambda>k x. P k x \<and> (\<forall>((j, chain), v) \<in> set (zip ms vs). j = k \<longrightarrow> chain_value app chain x = v))"
proof (induction ms arbitrary: cs P vs)
  case (Cons m ms)
  obtain j chain where m: "m = (j, chain)" by (cases m)
  obtain v vs' where vs: "vs = v # vs'" "length vs' = length ms" using Cons.prems(3) by (cases vs) auto
  obtain strict cs1 where mono: "chain_monotonicity env argument_type null chain True True = (True, strict)"
    and col: "constrain_column j strict cs = Inr cs1" "constrain_mappings env argument_type null ms cs1 = Inr (Some cs')"
    using Cons.prems(1) m by (auto simp: bind_r_Inr_iff split: prod.splits if_splits)
  have "allowed_ok (if strict then POINT else RANGE) (\<lambda>x. chain_value app chain x = v)"
    using chain_monotonicity_sound [OF ok mono] by (intro allowed_by_value) auto
  note step = constrain_column_ok [OF col(1) Cons.prems(2) this]
  note IH = Cons.IH [OF col(2) step [THEN conjunct2, THEN conjunct2] vs(2)]
  have "(\<lambda>k x. P k x \<and> (\<forall>((j, chain), v) \<in> set (zip (m # ms) vs). j = k \<longrightarrow> chain_value app chain x = v))
      = (\<lambda>k x. (P k x \<and> (k = j \<longrightarrow> chain_value app chain x = v))
          \<and> (\<forall>((j, chain), v) \<in> set (zip ms vs'). j = k \<longrightarrow> chain_value app chain x = v))"
    by (auto simp: fun_eq_iff m vs)
  then show ?case using IH step m by simp
qed simp

lemma constrain_element_ok:
  assumes ok: "monotonicity_ok env argument_type null app"
    and run: "constrain_element env argument_type null set_size set_mapping e cs = Inr (Some cs')"
    and cs: "constraints_ok cs P"
    and rows: "\<forall>s. el_function e = FUNCTION_IN_SET \<and> set_index e = Some s \<longrightarrow> length (only_row s) = length (set_mapping s)"
  shows "length cs' = length cs \<and> constraints_ok cs' (\<lambda>k x. P k x \<and> column_allows app set_mapping only_row k x e)
    \<and> kind_of e \<in> {Atom, Conjunction}
    \<and> (\<forall>row b. kind_of e = Atom \<and> row_means app set_mapping only_row row e b
          \<longrightarrow> (b \<longleftrightarrow> (\<forall>c < length cs. column_allows app set_mapping only_row c (row ! c) e)))"
proof -
  consider (free) "el_function e = FUNCTION_AND \<or> el_function e = FUNCTION_UNKNOWN \<or> el_function e = ALWAYS_TRUE" "cs' = cs"
    | (in_set) s where "el_function e = FUNCTION_IN_SET" "set_index e = Some s"
        "constrain_mappings env argument_type null (set_mapping s) cs = Inr (Some cs')"
    | (in_range) strict c where "el_function e = FUNCTION_IN_RANGE" "getKeyColumn e = Inr c"
        "chain_monotonicity env argument_type null (monotonic_functions_chain e) True True = (True, strict)"
        "constrain_column c (range_left (el_range e) = range_right (el_range e) \<and> strict) cs = Inr cs'"
    using run by (cases "el_function e")
      (auto simp: constrain_element_def bind_r_Inr_iff split: option.splits prod.splits if_splits)
  then show ?thesis
  proof cases
    case free
    then show ?thesis using cs by (auto simp: column_allows_def row_means_def kind_of_def)
  next
    case in_set
    note m = constrain_mappings_ok [OF ok in_set(3) cs rows [rule_format]]
    have eq: "(\<lambda>k x. P k x \<and> column_allows app set_mapping only_row k x e)
        = (\<lambda>k x. P k x \<and> (\<forall>((j, chain), v) \<in> set (zip (set_mapping s) (only_row s)). j = k \<longrightarrow> chain_value app chain x = v))"
      using in_set by (simp add: column_allows_def)
    have "b \<longleftrightarrow> (\<forall>c < length cs. column_allows app set_mapping only_row c (row ! c) e)"
      if "row_means app set_mapping only_row row e b" for row b
    proof -
      have b: "b = (\<forall>((k, chain), v) \<in> set (zip (set_mapping s) (only_row s)). chain_value app chain (row ! k) = v)"
        using that in_set by (simp add: row_means_def)
      have lt: "k < length cs" if "((k, chain), v) \<in> set (zip (set_mapping s) (only_row s))" for k chain v
        using m in_set set_zip_leftD [OF that] by fastforce
      show ?thesis unfolding b using lt in_set(1,2) by (fastforce simp: column_allows_def)
    qed
    then show ?thesis using m in_set unfolding eq by (simp add: kind_of_def)
  next
    case in_range
    let ?g = "chain_value app (monotonic_functions_chain e)"
    have "allowed_ok (if range_left (el_range e) = range_right (el_range e) \<and> strict then POINT else RANGE)
        (\<lambda>x. in_bounds (el_range e) (?g x))"
      using chain_monotonicity_sound [OF ok in_range(3)] by (intro allowed_by_range) auto
    note m = constrain_column_ok [OF in_range(4) cs this]
    have eq: "(\<lambda>k x. P k x \<and> column_allows app set_mapping only_row k x e)
        = (\<lambda>k x. P k x \<and> (k = c \<longrightarrow> in_bounds (el_range e) (?g x)))"
      using in_range(1,2) by (auto simp: column_allows_def fun_eq_iff)
    have "b \<longleftrightarrow> (\<forall>c < length cs. column_allows app set_mapping only_row c (row ! c) e)"
      if "row_means app set_mapping only_row row e b" for row b
      using that in_range(1,2) m by (auto simp: row_means_def column_allows_def)
    then show ?thesis using m in_range(1) unfolding eq by (simp add: kind_of_def)
  qed
qed

lemma constrain_elements_ok:
  assumes ok: "monotonicity_ok env argument_type null app"
  shows "constrain_elements env argument_type null set_size set_mapping es cs = Inr (Some cs') \<Longrightarrow> constraints_ok cs P
    \<Longrightarrow> \<forall>e \<in> set es. \<forall>s. el_function e = FUNCTION_IN_SET \<and> set_index e = Some s \<longrightarrow> length (only_row s) = length (set_mapping s)
    \<Longrightarrow> length cs' = length cs
      \<and> constraints_ok cs' (\<lambda>k x. P k x \<and> (\<forall>e \<in> set es. column_allows app set_mapping only_row k x e))
      \<and> (\<forall>e \<in> set es. kind_of e \<in> {Atom, Conjunction}
          \<and> (\<forall>row b. kind_of e = Atom \<and> row_means app set_mapping only_row row e b
                \<longrightarrow> (b \<longleftrightarrow> (\<forall>c < length cs. column_allows app set_mapping only_row c (row ! c) e))))"
proof (induction es arbitrary: cs P)
  case (Cons e es)
  obtain cs1 where run: "constrain_element env argument_type null set_size set_mapping e cs = Inr (Some cs1)"
    "constrain_elements env argument_type null set_size set_mapping es cs1 = Inr (Some cs')"
    using Cons.prems(1) by (auto simp: bind_r_Inr_iff split: option.splits)
  have here: "\<forall>s. el_function e = FUNCTION_IN_SET \<and> set_index e = Some s \<longrightarrow> length (only_row s) = length (set_mapping s)"
    using Cons.prems(3) by simp
  note step = constrain_element_ok [where only_row = only_row, OF ok run(1) Cons.prems(2) here]
  note IH = Cons.IH [OF run(2) step [THEN conjunct2, THEN conjunct1]]
  have eq: "(\<lambda>k x. P k x \<and> (\<forall>e \<in> set (e # es). column_allows app set_mapping only_row k x e))
      = (\<lambda>k x. (P k x \<and> column_allows app set_mapping only_row k x e)
            \<and> (\<forall>e \<in> set es. column_allows app set_mapping only_row k x e))"
    by (simp add: conj_assoc)
  show ?case unfolding eq using IH step Cons.prems(3) by simp
qed simp

text \<open>A condition of atoms and conjunctions is true where all its atoms are.\<close>

lemma conjunction_machine:
  "truth_machine kind tv es bs = Inr bs' \<Longrightarrow> \<forall>e \<in> set es. kind e \<in> {Atom, Conjunction}
    \<Longrightarrow> (\<forall>b \<in> set bs'. b) \<longleftrightarrow> (\<forall>b \<in> set bs. b) \<and> (\<forall>e \<in> set es. kind e = Atom \<longrightarrow> tv e)"
proof (induction es arbitrary: bs)
  case (Cons e es)
  obtain s where s: "stack_step () kind (\<lambda>e. Inr (tv e)) Not (\<and>) (\<or>) e bs = Inr s" "truth_machine kind tv es s = Inr bs'"
    using Cons.prems(1) by (auto simp: truth_machine_def bind_r_Inr_iff)
  have "(\<forall>b \<in> set s. b) \<longleftrightarrow> (\<forall>b \<in> set bs. b) \<and> (kind e = Atom \<longrightarrow> tv e)"
    using s(1) Cons.prems(2) by (cases rule: stack_step_cases) auto
  then show ?case using Cons.IH [OF s(2)] Cons.prems(2) by auto
qed (simp add: truth_machine_def)

lemma conjunction_truth:
  assumes "truth_of kind tv es = Some b" "\<forall>e \<in> set es. kind e \<in> {Atom, Conjunction}"
  shows "truth_of kind tv' es = Some (\<forall>e \<in> set es. kind e = Atom \<longrightarrow> tv' e)"
proof -
  have run: "truth_machine kind tv es [] = Inr [b]" using assms(1) by (simp add: truth_of_machine)
  obtain bs where bs: "truth_machine kind tv' es [] = Inr bs" "length bs = 1"
    using stack_machine_shape [OF run [unfolded truth_machine_def], of "[]" "()" tv' Not "(\<and>)" "(\<or>)"]
    by (auto simp: truth_machine_def)
  then obtain b' where b': "bs = [b']" by (auto simp: length_Suc_conv)
  then have "b' = (\<forall>e \<in> set es. kind e = Atom \<longrightarrow> tv' e)" using conjunction_machine [OF bs(1) assms(2)] by simp
  then show ?thesis using bs(1) b' by (simp add: truth_of_machine)
qed

text \<open>The shape of the constraints: points, then at most one range, then nothing.\<close>

lemma constraints_after_unknown:
  "constraints_continuous UNKNOWN_CONSTRAINT cs \<Longrightarrow> \<forall>c \<in> set cs. c = UNKNOWN_CONSTRAINT"
proof (induction cs)
  case (Cons c cs)
  then show ?case by (cases c) auto
qed simp

lemma constraints_after_range:
  "constraints_continuous RANGE cs \<Longrightarrow> \<forall>c \<in> set cs. c = UNKNOWN_CONSTRAINT"
proof (cases cs)
  case (Cons c cs')
  assume "constraints_continuous RANGE cs"
  then show ?thesis using Cons constraints_after_unknown [of cs'] by (cases c) auto
qed simp

lemma constraints_shape:
  "constraints_continuous POINT cs \<Longrightarrow> \<exists>k \<le> length cs. (\<forall>i < k. cs ! i = POINT) \<and> (\<forall>i. k < i \<and> i < length cs \<longrightarrow> cs ! i = UNKNOWN_CONSTRAINT)"
proof (induction cs)
  case (Cons c cs)
  show ?case
  proof (cases "c = POINT")
    case True
    then obtain k where k: "k \<le> length cs" "\<forall>i < k. cs ! i = POINT" "\<forall>i. k < i \<and> i < length cs \<longrightarrow> cs ! i = UNKNOWN_CONSTRAINT"
      using Cons by auto
    have "\<forall>i < Suc k. (c # cs) ! i = POINT" using k(2) True by (simp add: nth_Cons split: nat.split)
    moreover have "\<forall>i. Suc k < i \<and> i < length (c # cs) \<longrightarrow> (c # cs) ! i = UNKNOWN_CONSTRAINT"
      using k(3) by (simp add: nth_Cons split: nat.split)
    ultimately show ?thesis using k(1) by (intro exI [of _ "Suc k"]) simp
  next
    case False
    then have "\<forall>d \<in> set cs. d = UNKNOWN_CONSTRAINT"
      using Cons.prems constraints_after_unknown constraints_after_range by (cases c) auto
    then have "\<forall>i. 0 < i \<and> i < length (c # cs) \<longrightarrow> (c # cs) ! i = UNKNOWN_CONSTRAINT"
      by (auto simp: nth_Cons split: nat.split)
    then show ?thesis by (intro exI [of _ 0]) simp
  qed
qed simp

text \<open>Constraints of that shape leave an interval of the rows.\<close>

lemma allowed_rows_convex:
  fixes l r row :: "'f::linorder list"
  assumes cs: "constraints_ok cs P" "constraints_continuous POINT cs"
    and len: "length l = length cs" "length row = length cs" "length r = length cs"
    and l: "\<forall>c < length cs. P c (l ! c)" and r: "\<forall>c < length cs. P c (r ! c)" and le: "l \<le> row" "row \<le> r"
    and c: "c < length cs"
  shows "P c (row ! c)"
proof -
  obtain k where k: "k \<le> length cs" "\<forall>i < k. cs ! i = POINT" "\<forall>i. k < i \<and> i < length cs \<longrightarrow> cs ! i = UNKNOWN_CONSTRAINT"
    using constraints_shape [OF cs(2)] by blast
  have ok: "allowed_ok (cs ! c) (P c)" if "c < length cs" for c using cs(1) that by (simp add: constraints_ok_def)
  have same: "\<forall>i. 0 \<le> i \<and> i < k \<longrightarrow> l ! i = r ! i"
  proof (intro allI impI)
    fix i assume i: "0 \<le> i \<and> i < k"
    then have "allowed_ok POINT (P i)" "P i (l ! i)" "P i (r ! i)" using ok [of i] k l r by auto
    then show "l ! i = r ! i" unfolding allowed_ok_def by blast
  qed
  have "drop 0 l \<le> drop 0 row \<and> drop 0 row \<le> drop 0 r" using le by simp
  from this [unfolded between_prefix [OF len(1,3,2) le0 k(1) same]]
  have pre: "\<forall>i < k. row ! i = l ! i" and rest: "drop k l \<le> drop k row" "drop k row \<le> drop k r" by auto
  consider "c < k" | "c = k" | "k < c" by linarith
  then show ?thesis
  proof cases
    case 1
    then show ?thesis using pre l c by simp
  next
    case 2
    have kc: "k < length cs" using 2 c by simp
    then have "l ! k \<le> row ! k" "row ! k \<le> r ! k"
      using rest drop_le_iff [OF len(1,2) kc] drop_le_iff [OF len(2,3) kc] by auto
    then show ?thesis using ok [OF kc] l r 2 c unfolding allowed_ok_def by blast
  next
    case 3
    then have "cs ! c = UNKNOWN_CONSTRAINT" using k(3) c by blast
    then show ?thesis using ok [OF c] unfolding allowed_ok_def by blast
  qed
qed

text \<open>
  C34: A condition for which \<open>matchesExactContinuousRange\<close> says yes selects one continuous
  range of the primary key: a row between two rows that satisfy the condition satisfies it, in the
  lexicographic order of the key. An unknown part of the condition counts as true here.
\<close>
theorem matches_continuous_range:
  fixes l r row :: "'f::linorder list"
  assumes run: "matchesExactContinuousRange env argument_type null set_size set_mapping kc = Inr True"
    and ok: "monotonicity_ok env argument_type null app"
    and means: "\<forall>row. length row = num_key_columns kc \<longrightarrow>
        (\<forall>e \<in> set (rpn kc). kind_of e = Atom \<longrightarrow> row_means app set_mapping only_row row e (tv row e))"
    and len: "length l = num_key_columns kc" "length row = num_key_columns kc" "length r = num_key_columns kc"
    and sat: "truth_of kind_of (tv l) (rpn kc) = Some True" "truth_of kind_of (tv r) (rpn kc) = Some True"
    and le: "l \<le> row" "row \<le> r"
  shows "truth_of kind_of (tv row) (rpn kc) = Some True"
proof -
  let ?n = "num_key_columns kc" and ?P = "\<lambda>k x. \<forall>e \<in> set (rpn kc). column_allows app set_mapping only_row k x e"
  obtain c cs where cs: "constrain_elements env argument_type null set_size set_mapping (rpn kc)
      (replicate ?n UNKNOWN_CONSTRAINT) = Inr (Some (c # cs))"
    "\<not> constraint_rank c > constraint_rank RANGE" "constraints_continuous c cs"
  proof -
    obtain res where res: "constrain_elements env argument_type null set_size set_mapping (rpn kc)
        (replicate ?n UNKNOWN_CONSTRAINT) = Inr res"
      "(case res of
         None \<Rightarrow> Inr False
       | Some [] \<Rightarrow> Inl UB
       | Some (c # cs) \<Rightarrow> Inr (if constraint_rank c > constraint_rank RANGE then False else constraints_continuous c cs))
        = (Inr True :: bool result)"
      using run unfolding matchesExactContinuousRange_def bind_r_Inr_iff by blast
    then show thesis using that by (cases res rule: option.exhaust; cases "the res") (auto split: if_splits)
  qed
  have start: "constraints_ok (replicate ?n UNKNOWN_CONSTRAINT) (\<lambda>k x. True)"
    by (simp add: constraints_ok_def allowed_ok_def)
  have rows: "\<forall>e \<in> set (rpn kc). \<forall>s. el_function e = FUNCTION_IN_SET \<and> set_index e = Some s
      \<longrightarrow> length (only_row s) = length (set_mapping s)"
  proof (intro ballI allI impI, elim conjE)
    fix e s assume e: "e \<in> set (rpn kc)" "el_function e = FUNCTION_IN_SET" "set_index e = Some s"
    then have "kind_of e = Atom" by (simp add: kind_of_def)
    from means [rule_format, OF len(1) e(1) this] show "length (only_row s) = length (set_mapping s)"
      using e(2,3) by (simp add: row_means_def)
  qed
  from constrain_elements_ok [OF ok cs(1) start rows]
  have n: "length (c # cs) = ?n" and all: "constraints_ok (c # cs) ?P"
    and els: "\<forall>e \<in> set (rpn kc). kind_of e \<in> {Atom, Conjunction}
          \<and> (\<forall>row b. kind_of e = Atom \<and> row_means app set_mapping only_row row e b
                \<longrightarrow> (b \<longleftrightarrow> (\<forall>c < ?n. column_allows app set_mapping only_row c (row ! c) e)))"
    by simp_all
  have kinds: "\<forall>e \<in> set (rpn kc). kind_of e \<in> {Atom, Conjunction}" using els by blast
  have conn: "column_allows app set_mapping only_row k x e" if "e \<in> set (rpn kc)" "kind_of e = Conjunction" for k x e
    using that(2) by (simp add: column_allows_def kind_of_simps)
  have truth: "truth_of kind_of (tv row) (rpn kc) = Some (\<forall>c < ?n. ?P c (row ! c))" if "length row = ?n" for row
  proof -
    have "(\<forall>e \<in> set (rpn kc). kind_of e = Atom \<longrightarrow> tv row e) \<longleftrightarrow> (\<forall>c < ?n. ?P c (row ! c))"
    proof -
      have "(kind_of e = Atom \<longrightarrow> tv row e) \<longleftrightarrow> (\<forall>c < ?n. column_allows app set_mapping only_row c (row ! c) e)"
        if e: "e \<in> set (rpn kc)" for e
      proof (cases "kind_of e = Atom")
        case True
        from means [rule_format, OF \<open>length row = ?n\<close> e True] els [rule_format, OF e] True show ?thesis by blast
      next
        case False
        then have "kind_of e = Conjunction" using kinds e by blast
        then show ?thesis using conn [OF e] by simp
      qed
      then show ?thesis by blast
    qed
    then show ?thesis using conjunction_truth [OF sat(1) kinds, of "tv row"] by simp
  qed
  have "constraints_continuous POINT (c # cs)" using cs(2,3) by (cases c) auto
  note convex = allowed_rows_convex [OF all this, unfolded n, OF len]
  show ?thesis using convex truth [OF len(1)] truth [OF len(2)] truth [OF len(3)] sat le by simp
qed

text \<open>The condition \<open>x = 3 AND halve(y) IN [2, 4]\<close>.\<close>

fun demo_app :: "demo_function \<Rightarrow> demo_field \<Rightarrow> demo_field" where
  "demo_app Halve (Num n) = Num (n div 2)"
| "demo_app f x = x"

definition demo_argument_type :: "demo_function \<Rightarrow> unit option" where
  "demo_argument_type f = (if f = Halve then Some () else None)"

lemma demo_monotonicity_ok: "monotonicity_ok demo_env demo_argument_type Minus_Inf demo_app"
proof -
  have "demo_app Halve x \<le> demo_app Halve y" if "x \<le> y" for x y
    using that by (cases x; cases y) (simp_all add: div_le_mono less_eq_demo_field_def)
  then have "mono (demo_app Halve)" by (simp add: monotone_on_def)
  then show ?thesis
    by (auto simp: monotonicity_ok_def demo_argument_type_def demo_env_def demo_monotonicity_def split: if_splits)
qed

definition demo_point :: "(demo_field, demo_function, nat list, unit) rpn_element" where
  "demo_point = (demo_element FUNCTION_IN_RANGE)\<lparr>el_range := demo_interval 3 3, el_key_columns := [0]\<rparr>"

definition demo_halves :: "(demo_field, demo_function, nat list, unit) rpn_element" where
  "demo_halves = demo_x\<lparr>el_key_columns := [1]\<rparr>"

definition demo_continuous :: "(demo_field, demo_function, nat list, unit) key_condition" where
  "demo_continuous = demo_condition\<lparr>rpn := [demo_point, demo_halves, demo_element FUNCTION_AND]\<rparr>"

definition demo_row_tv :: "demo_field list \<Rightarrow> (demo_field, demo_function, nat list, unit) rpn_element \<Rightarrow> bool" where
  "demo_row_tv row e = in_bounds (el_range e) (chain_value demo_app (monotonic_functions_chain e) (row ! hd (el_key_columns e)))"

lemma demo_continuous_sel [simp]:
  "rpn demo_continuous = [demo_point, demo_halves, demo_element FUNCTION_AND]" "num_key_columns demo_continuous = 2"
  "el_function demo_point = FUNCTION_IN_RANGE" "el_function demo_halves = FUNCTION_IN_RANGE"
  "el_key_columns demo_point = [0]" "el_key_columns demo_halves = [1]"
  "monotonic_functions_chain demo_point = []" "monotonic_functions_chain demo_halves = [Halve]"
  "el_range demo_point = demo_interval 3 3" "el_range demo_halves = demo_interval 2 4"
  "set_index demo_point = None" "set_index demo_halves = None"
  by (simp_all add: demo_continuous_def demo_condition_def demo_point_def demo_halves_def demo_x_def)

lemma demo_continuous_run:
  "matchesExactContinuousRange demo_env demo_argument_type Minus_Inf length (\<lambda>_. []) demo_continuous = Inr True"
proof -
  have a: "constrain_element demo_env demo_argument_type Minus_Inf length (\<lambda>_. []) demo_point cs
      = bind_r (constrain_column 0 True cs) (\<lambda>cs. Inr (Some cs))" for cs
    by (simp add: constrain_element_def getKeyColumn_def demo_interval_def)
  have b: "constrain_element demo_env demo_argument_type Minus_Inf length (\<lambda>_. []) demo_halves cs
      = bind_r (constrain_column 1 False cs) (\<lambda>cs. Inr (Some cs))" for cs
    by (simp add: constrain_element_def getKeyColumn_def demo_interval_def demo_argument_type_def demo_env_def
        demo_monotonicity_def)
  have c: "constrain_element demo_env demo_argument_type Minus_Inf length (\<lambda>_. []) (demo_element FUNCTION_AND) cs
      = Inr (Some cs)" for cs
    by (simp add: constrain_element_def)
  show ?thesis
    by (simp add: matchesExactContinuousRange_def a b c constrain_column_def constrain_def numeral_2_eq_2)
qed

lemma demo_continuous_truth:
  "truth_of kind_of (demo_row_tv [Num x, Num y]) (rpn demo_continuous) = Some (x = 3 \<and> 2 \<le> y div 2 \<and> y div 2 \<le> 4)"
  by (auto simp: truth_of_def truth_machine_def stack_step.simps kind_of_def demo_row_tv_def chain_value_def)

theorem matches_continuous_range_witness:
  "matchesExactContinuousRange demo_env demo_argument_type Minus_Inf length (\<lambda>_. []) demo_continuous = Inr True
   \<and> truth_of kind_of (demo_row_tv [Num 3, Num 6]) (rpn demo_continuous) = Some True"
proof -
  have means: "\<forall>row. length row = num_key_columns demo_continuous \<longrightarrow> (\<forall>e \<in> set (rpn demo_continuous). kind_of e = Atom \<longrightarrow>
      row_means demo_app (\<lambda>_. []) (\<lambda>_. []) row e (demo_row_tv row e))"
    by (simp add: row_means_def demo_row_tv_def getKeyColumn_def)
  have sat: "truth_of kind_of (demo_row_tv [Num 3, Num 4]) (rpn demo_continuous) = Some True"
    "truth_of kind_of (demo_row_tv [Num 3, Num 9]) (rpn demo_continuous) = Some True"
    unfolding demo_continuous_truth by simp_all
  have "truth_of kind_of (demo_row_tv [Num 3, Num 6]) (rpn demo_continuous) = Some True"
    by (rule matches_continuous_range [OF demo_continuous_run demo_monotonicity_ok means _ _ _ sat]) simp_all
  then show ?thesis using demo_continuous_run by blast
qed

end
