(* ===== verification/Select_Ranges_Results.thy ===== *)
theory Select_Ranges_Results
  imports Select_Ranges_Search Key_Condition_Plain_Results
begin

text \<open>
  The selection of marks on the model of a part: the check of a range is sound for the rows of its
  marks, so the selected ranges hold every mark with a row that satisfies the filter, and the exact
  ranges hold only rows that do.
\<close>

section \<open>Parts and rows\<close>

text \<open>The values of the loaded key columns at a mark, nulls last.\<close>

definition index_at ::
  "('f, 'ty, 'fn, 's, 'p, 'x) key_env \<Rightarrow> ('f, 'ty) field_env \<Rightarrow> ('f, 'ty) part_view \<Rightarrow> nat \<Rightarrow> nat \<Rightarrow> 'f list" where
  "index_at env fe part n mark =
     map (\<lambda>c. if isNull env (c ! mark) then POSITIVE_INFINITY fe else c ! mark) (take n (loaded_index part))"

text \<open>
  What a sorted part is: \<open>rows i k o\<close> says that the granule of mark \<open>i\<close> has a row
  with the key \<open>k\<close> and the offset \<open>o\<close>. The index holds the first key of each
  granule, \<open>start\<close> the first offset; no key column is descending.
\<close>

definition part_ok ::
  "('f::linorder, 'ty, 'fn, 's, 'p, 'x) key_env \<Rightarrow> ('f, 'ty) field_env \<Rightarrow> ('f, 'ty) part_view \<Rightarrow> nat \<Rightarrow> (nat \<Rightarrow> nat)
     \<Rightarrow> (nat \<Rightarrow> 'f list \<Rightarrow> nat \<Rightarrow> bool) \<Rightarrow> bool" where
  "part_ok env fe part n start rows \<longleftrightarrow>
     n \<le> length (primary_key_types part) \<and> 2 \<le> length (part_offset_types fe)
     \<and> (\<forall>i < n. reverse_flags part = [] \<or> \<not> reverse_flags part ! i)
     \<and> (\<forall>x. NEGATIVE_INFINITY fe \<le> x \<and> x \<le> POSITIVE_INFINITY fe)
     \<and> (\<forall>m m'. m \<le> m' \<and> m' < part_marks_count part \<longrightarrow> index_at env fe part n m \<le> index_at env fe part n m')
     \<and> (\<forall>m \<le> part_marks_count part. mark_starting_row part m = Inr (start m) \<and> start m < size_max)
     \<and> mono start \<and> start (part_marks_count part) + part_starting_offset_in_query part < size_max
     \<and> (\<forall>v. \<not> isNaN env (UInt64_field env v)) \<and> \<not> isNull env (part_name_field part) \<and> \<not> isNaN env (part_name_field part)
     \<and> (\<forall>i k off. rows i k off \<and> i < part_marks_count part \<longrightarrow>
          key_tuple (isNull env) (map (is_nullable_type fe) (take n (primary_key_types part))) k
          \<and> index_at env fe part n i \<le> take (length (loaded_index part)) k
          \<and> (i + 1 < part_marks_count part \<longrightarrow> take (length (loaded_index part)) k \<le> index_at env fe part n (i + 1))
          \<and> start i \<le> off \<and> off < start (i + 1))"

text \<open>
  No key has a NaN. A NaN is the greatest number of its column, but the last granule is checked up to plus
  infinity and not to NaN, and a range never holds NaN.
\<close>

definition no_NaN_keys ::
  "('f::linorder, 'ty, 'fn, 's, 'p, 'x) key_env \<Rightarrow> ('f, 'ty) part_view \<Rightarrow> (nat \<Rightarrow> 'f list \<Rightarrow> nat \<Rightarrow> bool) \<Rightarrow> bool" where
  "no_NaN_keys env part rows \<longleftrightarrow> (\<forall>i k off x. rows i k off \<and> i < part_marks_count part \<and> x \<in> set k \<longrightarrow> \<not> isNaN env x)"

text \<open>The truth value of a condition on a row, for some values of its atoms that agree with the row.\<close>

definition condition_value ::
  "('f::linorder, 'ty, 'fn, 's, 'p, 'x::linorder) key_env \<Rightarrow> ('f key_range \<Rightarrow> 'f \<Rightarrow> bool) \<Rightarrow> (nat \<Rightarrow> nat \<Rightarrow> nat)
     \<Rightarrow> (nat \<Rightarrow> nat \<Rightarrow> nat) \<Rightarrow> ('p \<Rightarrow> 'x \<times> 'x \<Rightarrow> bool) \<Rightarrow> ('f, 'fn, 's, 'p) key_condition \<Rightarrow> 'ty list
     \<Rightarrow> 'f list \<Rightarrow> bool \<Rightarrow> bool" where
  "condition_value env mem hilbert morton inside kc tys row b \<longleftrightarrow>
     (\<exists>tv. (\<forall>e \<in> set (rpn kc). connective_ok e
          \<and> (kind_of e = Atom \<longrightarrow> atom_means env mem hilbert morton inside kc tys (\<lambda>_. None) row e (tv e)))
        \<and> truth_of kind_of tv (rpn kc) = Some b)"

text \<open>
  The value of the filter on a row. Each of the conditions that are used is a form of the whole filter,
  so each has this value.
\<close>

definition filter_value ::
  "('f::linorder, 'ty, 'fn, 's, 'p, 'x::linorder) key_env \<Rightarrow> ('f, 'ty) field_env \<Rightarrow> ('f, 'ty) part_view
     \<Rightarrow> ('f key_range \<Rightarrow> 'f \<Rightarrow> bool) \<Rightarrow> (nat \<Rightarrow> nat \<Rightarrow> nat)
     \<Rightarrow> (nat \<Rightarrow> nat \<Rightarrow> nat) \<Rightarrow> ('p \<Rightarrow> 'x \<times> 'x \<Rightarrow> bool) \<Rightarrow> ('f, 'fn, 's, 'p) select_conditions \<Rightarrow> useful_flags
     \<Rightarrow> 'f list \<Rightarrow> nat \<Rightarrow> bool \<Rightarrow> bool" where
  "filter_value env fe part mem hilbert morton inside conds flags k off b \<longleftrightarrow>
     (let (key_useful, part_useful, total_useful) = flags
      in (key_useful \<longrightarrow> condition_value env mem hilbert morton inside (sc_key conds)
                            (take (num_key_columns (sc_key conds)) (primary_key_types part)) k b)
       \<and> (part_useful \<longrightarrow> condition_value env mem hilbert morton inside (the (sc_part_offset conds))
                            (part_offset_types fe) [UInt64_field env off, part_name_field part] b)
       \<and> (total_useful \<longrightarrow> condition_value env mem hilbert morton inside (the (sc_total_offset conds))
                            (part_offset_types fe) [UInt64_field env (off + part_starting_offset_in_query part)] b))"

text \<open>
  The conditions that are used make the claims that are relied on: no atom about a space-filling curve
  stands below an odd number of negations, and for exact ranges below an even number neither.
\<close>

definition conditions_trusted :: "bool \<Rightarrow> ('f, 'fn, 's, 'p) select_conditions \<Rightarrow> useful_flags \<Rightarrow> bool" where
  "conditions_trusted exact conds flags \<longleftrightarrow>
     (let (key_useful, part_useful, total_useful) = flags
      in (key_useful \<longrightarrow> trusted exact (rpn (sc_key conds)))
       \<and> (part_useful \<longrightarrow> trusted exact (rpn (the (sc_part_offset conds))))
       \<and> (total_useful \<longrightarrow> trusted exact (rpn (the (sc_total_offset conds)))))"

definition env_ok ::
  "('f::linorder, 'ty, 'fn, 's, 'p, 'x::linorder) key_env \<Rightarrow> ('f, 'ty) field_env
     \<Rightarrow> ('f key_range \<Rightarrow> 'f \<Rightarrow> bool) \<Rightarrow> (nat \<Rightarrow> nat \<Rightarrow> nat)
     \<Rightarrow> (nat \<Rightarrow> nat \<Rightarrow> nat) \<Rightarrow> ('p \<Rightarrow> 'x \<times> 'x \<Rightarrow> bool) \<Rightarrow> ('f, 'fn, 's, 'p) select_conditions \<Rightarrow> useful_flags \<Rightarrow> bool" where
  "env_ok env fe mem hilbert morton inside conds flags \<longleftrightarrow>
     ranges_ok env mem \<and> functions_ok env \<and> curves_ok env hilbert morton \<and> geometry_ok env inside
     \<and> range_ops_ok (range_constructors fe) mem (isNull env)
     \<and> \<not> single_point (sc_key conds)
     \<and> (fst (snd flags) \<longrightarrow> \<not> single_point (the (sc_part_offset conds)))
     \<and> (snd (snd flags) \<longrightarrow> \<not> single_point (the (sc_total_offset conds)))"

section \<open>The check is sound\<close>

lemma check_covers:
  assumes env: "env_ok env fe mem hilbert morton inside conds flags"
    and len: "length l = n" "length r = n" "length nullable = n" and kc: "\<not> single_point kc"
    and v: "condition_value env mem hilbert morton inside kc tys row b"
    and row: "key_tuple (isNull env) nullable row" "l \<le> row" "row \<le> r" "\<forall>x \<in> set row. \<not> isNaN env x"
    and run: "checkInRange (range_constructors fe) n l r nullable im (check_callback env kc tys) = Inr m"
    and trust: "trusted exact (rpn kc)"
  shows "covers_dir exact m b"
proof -
  note e = env [unfolded env_ok_def]
  obtain tv where tv: "\<forall>e \<in> set (rpn kc). connective_ok e
      \<and> (kind_of e = Atom \<longrightarrow> atom_means env mem hilbert morton inside kc tys (\<lambda>_. None) row e (tv e))"
    "truth_of kind_of tv (rpn kc) = Some b"
    using v unfolding condition_value_def by blast
  have "ranges_ok env mem" "functions_ok env" "curves_ok env hilbert morton" "geometry_ok env inside"
    "range_ops_ok (range_constructors fe) mem (isNull env)" using e by simp_all
  from checkInRange_covers_row [OF this len kc tv(1) row run trust] tv(2) show ?thesis by auto
qed

text \<open>Bounds that are infinite after a prefix bound a tuple as their prefix does.\<close>

lemma prefix_bound:
  fixes k :: "'f::linorder list"
  assumes "take s k \<le> p" "length p = s" "s \<le> length k" "\<forall>x. x \<le> hi" "length k = n"
  shows "k \<le> p @ replicate (n - s) hi"
  using assms
proof (induction p arbitrary: k s n)
  case Nil
  have "k \<le> replicate (length k) hi" using Nil(4) by (induction k) (auto simp: le_less)
  then show ?case using Nil by simp
next
  case (Cons a p)
  then obtain b k' s' n' where k: "k = b # k'" "s = Suc s'" "n = Suc n'" by (cases k; cases s; cases n) auto
  then show ?case using Cons.IH [of s' k' n'] Cons.prems by auto
qed

lemma prefix_bound_left:
  fixes k :: "'f::linorder list"
  assumes "p \<le> take s k" "length p = s" "s \<le> length k" "\<forall>x. lo \<le> x" "length k = n"
  shows "p @ replicate (n - s) lo \<le> k"
  using assms
proof (induction p arbitrary: k s n)
  case Nil
  have "replicate (length k) lo \<le> k" using Nil(4) by (induction k) (auto simp: le_less)
  then show ?case using Nil by simp
next
  case (Cons a p)
  then obtain b k' s' n' where k: "k = b # k'" "s = Suc s'" "n = Suc n'" by (cases k; cases s; cases n) auto
  then show ?case using Cons.IH [of s' k' n'] Cons.prems by auto
qed

lemma create_field_ref_Inr:
  "create_field_ref env fe c m = Inr v \<longleftrightarrow> m < length c \<and> v = (if isNull env (c ! m) then POSITIVE_INFINITY fe else c ! m)"
  by (auto simp: create_field_ref_def bind_r_Inr_iff)

lemma key_bound_Inr:
  assumes "key_bound env fe part r i = Inr (l, u)" "reverse_flags part = [] \<or> \<not> reverse_flags part ! i"
  shows "l = (if i < length (loaded_index part)
        then if isNull env (loaded_index part ! i ! range_begin r) then POSITIVE_INFINITY fe else loaded_index part ! i ! range_begin r
        else NEGATIVE_INFINITY fe)
    \<and> u = (if i < length (loaded_index part) \<and> range_end r \<noteq> part_marks_count part
        then if isNull env (loaded_index part ! i ! range_end r) then POSITIVE_INFINITY fe else loaded_index part ! i ! range_end r
        else POSITIVE_INFINITY fe)"
  using assms by (auto simp: key_bound_def bind_r_Inr_iff create_field_ref_Inr split: if_splits prod.splits)

lemma key_bounds_Inr:
  "key_bounds env fe part r js = Inr (ls, us) \<Longrightarrow> length ls = length js \<and> length us = length js
     \<and> (\<forall>j < length js. key_bound env fe part r (js ! j) = Inr (ls ! j, us ! j))"
proof (induction js arbitrary: ls us)
  case (Cons i js)
  then obtain l u ls' us' where s: "key_bound env fe part r i = Inr (l, u)" "key_bounds env fe part r js = Inr (ls', us')"
    "ls = l # ls'" "us = u # us'"
    by (auto simp: bind_r_Inr_iff split: prod.splits)
  from Cons.IH [OF s(2)] s show ?case by (auto simp: nth_Cons split: nat.splits)
qed simp

lemma length_index_at: "length (index_at env fe part n m) = min n (length (loaded_index part))"
  by (simp add: index_at_def min.commute)

text \<open>The bounds of the key columns bound the keys of every granule of the range.\<close>

lemma key_bounds_between:
  assumes part: "part_ok env fe part n start rows"
    and run: "key_bounds env fe part r [0 ..< n] = Inr (ls, us)"
    and r: "range_begin r < range_end r" "range_end r \<le> part_marks_count part" "i \<in> marks_of r"
    and row: "rows i k off"
  shows "length ls = n \<and> length us = n \<and> ls \<le> k \<and> k \<le> us"
proof -
  note p = part [unfolded part_ok_def]
  have flags: "\<forall>i < n. reverse_flags part = [] \<or> \<not> reverse_flags part ! i"
    and inf: "\<forall>x. NEGATIVE_INFINITY fe \<le> x" "\<forall>x. x \<le> POSITIVE_INFINITY fe"
    and mono: "\<And>m m'. m \<le> m' \<Longrightarrow> m' < part_marks_count part \<Longrightarrow> index_at env fe part n m \<le> index_at env fe part n m'"
    using p by blast+
  have i: "i < part_marks_count part" "range_begin r \<le> i" "i < range_end r" using r by (auto simp: marks_of_def)
  have ki: "key_tuple (isNull env) (map (is_nullable_type fe) (take n (primary_key_types part))) k"
    "index_at env fe part n i \<le> take (length (loaded_index part)) k"
    "i + 1 < part_marks_count part \<Longrightarrow> take (length (loaded_index part)) k \<le> index_at env fe part n (i + 1)"
    using p row i(1) by blast+
  have k: "length k = n" using ki(1) p by (simp add: key_tuple_def)
  let ?s = "min n (length (loaded_index part))"
  have take: "take (length (loaded_index part)) k = take ?s k" using k by (metis min.commute take_all_iff take_take nle_le)
  have b: "length ls = n" "length us = n"
    "\<forall>j < n. key_bound env fe part r j = Inr (ls ! j, us ! j)"
    using key_bounds_Inr [OF run] by simp_all
  have e: "ls ! j = (if j < ?s then index_at env fe part n (range_begin r) ! j else NEGATIVE_INFINITY fe)
      \<and> us ! j = (if j < ?s \<and> range_end r \<noteq> part_marks_count part then index_at env fe part n (range_end r) ! j
          else POSITIVE_INFINITY fe)" if "j < n" for j
    using key_bound_Inr [OF b(3) [rule_format, OF that] flags [rule_format, OF that]] that by (simp add: index_at_def)
  have ls: "ls = index_at env fe part n (range_begin r) @ replicate (n - ?s) (NEGATIVE_INFINITY fe)"
    by (rule nth_equalityI) (simp_all add: b length_index_at e nth_append)
  have "index_at env fe part n (range_begin r) \<le> take ?s k"
    using mono [OF i(2,1)] ki(2) take by simp
  from prefix_bound_left [OF this _ _ inf(1) k] have left: "ls \<le> k" unfolding ls using k by (simp add: length_index_at)
  have "k \<le> us"
  proof (cases "range_end r = part_marks_count part")
    case True
    have us: "us = [] @ replicate (n - 0) (POSITIVE_INFINITY fe)"
      by (rule nth_equalityI) (simp_all add: b e True)
    have "k \<le> [] @ replicate (n - 0) (POSITIVE_INFINITY fe)"
      by (rule prefix_bound) (use inf(2) k in auto)
    then show ?thesis unfolding us .
  next
    case False
    have us: "us = index_at env fe part n (range_end r) @ replicate (n - ?s) (POSITIVE_INFINITY fe)"
      by (rule nth_equalityI) (simp_all add: b length_index_at e nth_append False)
    have lt: "i + 1 \<le> range_end r" "range_end r < part_marks_count part" using i(3) False r(2) by auto
    then have "take ?s k \<le> index_at env fe part n (range_end r)"
      using ki(3) mono [OF lt] take by simp
    from prefix_bound [OF this _ _ inf(2) k] show ?thesis unfolding us using k by (simp add: length_index_at)
  qed
  then show ?thesis using b left by blast
qed

lemma check_key_covers:
  assumes env: "env_ok env fe mem hilbert morton inside conds flags"
    and part: "part_ok env fe part (num_key_columns (sc_key conds)) start rows"
    and run: "check_key_condition env fe part (sc_key conds) r im = Inr m"
    and r: "range_begin r < range_end r" "range_end r \<le> part_marks_count part" "i \<in> marks_of r"
    and row: "rows i k off" and nan: "no_NaN_keys env part rows" and trust: "trusted exact (rpn (sc_key conds))"
    and v: "condition_value env mem hilbert morton inside (sc_key conds)
        (take (num_key_columns (sc_key conds)) (primary_key_types part)) k b"
  shows "covers_dir exact m b"
proof -
  let ?n = "num_key_columns (sc_key conds)"
  obtain ls us where s: "key_bounds env fe part r [0 ..< ?n] = Inr (ls, us)"
    "checkInRange (range_constructors fe) ?n ls us (map (is_nullable_type fe) (take ?n (primary_key_types part))) im
       (check_callback env (sc_key conds) (take ?n (primary_key_types part))) = Inr m"
    using run by (auto simp: check_key_condition_def Let_def bind_r_Inr_iff)
  have i: "i < part_marks_count part" using r by (auto simp: marks_of_def)
  have len: "length (map (is_nullable_type fe) (take ?n (primary_key_types part))) = ?n"
    using part by (simp add: part_ok_def)
  have k: "key_tuple (isNull env) (map (is_nullable_type fe) (take ?n (primary_key_types part))) k" "\<forall>x \<in> set k. \<not> isNaN env x"
    using part nan row i unfolding part_ok_def no_NaN_keys_def by blast+
  have sp: "\<not> single_point (sc_key conds)" using env by (simp add: env_ok_def)
  note bt = key_bounds_between [where rows = rows, OF part s(1) r row]
  show ?thesis
    by (rule check_covers [OF env _ _ len sp v k(1) _ _ k(2) s(2) trust]) (use bt in blast)+
qed

lemma check_offset_covers:
  assumes env: "env_ok env fe mem hilbert morton inside conds flags"
    and part: "part_ok env fe part n start rows"
    and run: "check_offset_condition env fe part kc used shift r im = Inr m"
    and r: "range_begin r < range_end r" "range_end r \<le> part_marks_count part" "i \<in> marks_of r"
    and row: "rows i k off" and kc: "\<not> single_point kc" and trust: "trusted exact (rpn kc)"
    and shift: "used = 1 \<or> used = 2" "shift \<le> part_starting_offset_in_query part"
    and v: "condition_value env mem hilbert morton inside kc (part_offset_types fe)
        (take used [UInt64_field env (off + shift), part_name_field part]) b"
  shows "covers_dir exact m b"
proof -
  note p = part [unfolded part_ok_def]
  have i: "i < part_marks_count part" "range_begin r \<le> i" "i < range_end r" using r by (auto simp: marks_of_def)
  have st: "mark_starting_row part (range_begin r) = Inr (start (range_begin r))"
    "mark_starting_row part (range_end r) = Inr (start (range_end r))" "mono start"
    "start (part_marks_count part) + part_starting_offset_in_query part < size_max"
    using p i r by simp_all
  have "start (range_end r) \<le> start (part_marks_count part)" using monoD [OF st(3) r(2)] .
  then have small: "start (range_end r) + shift < size_max" using st(4) shift(2) by linarith
  have "start i \<le> off \<and> off < start (i + 1)" using p row i(1) by blast
  then have off: "start (range_begin r) \<le> off" "off < start (range_end r)"
    using monoD [OF st(3) i(2)] monoD [OF st(3), of "i + 1" "range_end r"] i(3) by auto
  let ?last = "start (range_end r) - 1"
  have last: "sub64 (start (range_end r)) 1 = ?last" using off(2) small by (simp add: sub64_exact)
  have sums: "add64 (start (range_begin r)) shift = start (range_begin r) + shift" "add64 ?last shift = ?last + shift"
    by (rule add64_exact; use off small in linarith)+
  have ordered: "\<not> start (range_begin r) > ?last" using off by simp
  let ?types = "map (is_nullable_type fe) (part_offset_types fe)"
  have run': "checkInRange (range_constructors fe) used
      (take used [UInt64_field env (start (range_begin r) + shift), part_name_field part])
      (take used [UInt64_field env (?last + shift), part_name_field part])
      (take used ?types) im (check_callback env kc (part_offset_types fe)) = Inr m"
    using run ordered unfolding check_offset_condition_def st(1,2) bind_r_simps Let_def last sums by simp
  have fields: "UInt64_field env a \<le> UInt64_field env b" if "a \<le> b" for a b
    using env that by (auto simp: env_ok_def curves_ok_def)
  have nn: "\<not> isNull env (UInt64_field env a)" for a using env by (auto simp: env_ok_def curves_ok_def)
  have clean: "\<not> isNaN env (UInt64_field env a)" "\<not> isNull env (part_name_field part)" "\<not> isNaN env (part_name_field part)"
    "2 \<le> length (part_offset_types fe)" for a
    using p by simp_all
  have "UInt64_field env (start (range_begin r) + shift) \<le> UInt64_field env (off + shift)"
    "UInt64_field env (off + shift) \<le> UInt64_field env (?last + shift)"
    using off by (auto intro!: fields)
  then have le: "take used [UInt64_field env (start (range_begin r) + shift), part_name_field part]
      \<le> take used [UInt64_field env (off + shift), part_name_field part]"
    "take used [UInt64_field env (off + shift), part_name_field part]
      \<le> take used [UInt64_field env (?last + shift), part_name_field part]"
    using shift(1) by (auto simp: le_less numeral_2_eq_2)
  have tuple: "key_tuple (isNull env) (take used ?types) (take used [UInt64_field env (off + shift), part_name_field part])"
    using shift(1) clean(2,4) nn by (auto simp: key_tuple_def less_Suc_eq numeral_2_eq_2)
  have nan: "\<forall>x \<in> set (take used [UInt64_field env (off + shift), part_name_field part]). \<not> isNaN env x"
    using shift(1) clean(1,3) by auto
  show ?thesis
    by (rule check_covers [OF env _ _ _ kc v tuple le nan run' trust]) (use shift(1) clean(4) in auto)
qed

lemma and_check_covers:
  assumes "and_check useful check result = Inr m" "useful \<Longrightarrow> \<forall>m. check = Inr m \<longrightarrow> covers_dir exact m b"
    and "covers_dir exact result b \<or> b = False \<and> useful"
  shows "covers_dir exact m b \<and> (\<not> useful \<longrightarrow> m = result)"
  using assms by (cases useful) (auto simp: and_check_def bind_r_Inr_iff covers_dir_def mask_and_def)

definition select_setup ::
  "('f::linorder, 'ty, 'fn, 's, 'p, 'x::linorder) key_env \<Rightarrow> ('f, 'ty) field_env \<Rightarrow> ('f, 'ty) part_view
     \<Rightarrow> ('f key_range \<Rightarrow> 'f \<Rightarrow> bool) \<Rightarrow> (nat \<Rightarrow> nat \<Rightarrow> nat)
     \<Rightarrow> (nat \<Rightarrow> nat \<Rightarrow> nat) \<Rightarrow> ('p \<Rightarrow> 'x \<times> 'x \<Rightarrow> bool) \<Rightarrow> ('f, 'fn, 's, 'p) select_conditions \<Rightarrow> useful_flags
     \<Rightarrow> (nat \<Rightarrow> nat) \<Rightarrow> (nat \<Rightarrow> 'f list \<Rightarrow> nat \<Rightarrow> bool) \<Rightarrow> bool \<Rightarrow> bool" where
  "select_setup env fe part mem hilbert morton inside conds flags start rows exact \<longleftrightarrow>
     env_ok env fe mem hilbert morton inside conds flags \<and> no_NaN_keys env part rows \<and> conditions_trusted exact conds flags
     \<and> part_ok env fe part (num_key_columns (sc_key conds)) start rows \<and> flags \<noteq> (False, False, False)"

lemma check_in_range_covers:
  assumes set: "select_setup env fe part mem hilbert morton inside conds flags start rows exact"
    and run: "check_in_range env fe part conds flags r im = Inr m"
    and r: "range_begin r < range_end r" "range_end r \<le> part_marks_count part" "i \<in> marks_of r"
    and row: "rows i k off"
    and v: "filter_value env fe part mem hilbert morton inside conds flags k off b"
  shows "covers_dir exact m b"
proof -
  obtain ku pu tu where flags: "flags = (ku, pu, tu)" by (cases flags)
  have set': "env_ok env fe mem hilbert morton inside conds flags"
    "part_ok env fe part (num_key_columns (sc_key conds)) start rows" "ku \<or> pu \<or> tu"
    and nan: "no_NaN_keys env part rows" and trust: "conditions_trusted exact conds flags"
    using set flags by (auto simp: select_setup_def)
  note trust = trust [unfolded conditions_trusted_def flags Let_def prod.case]
  note val = v [unfolded filter_value_def flags Let_def prod.case]
  obtain m1 m2 where s:
    "and_check ku (check_key_condition env fe part (sc_key conds) r im) (BoolMask True False) = Inr m1"
    "and_check pu (check_offset_condition env fe part (the (sc_part_offset conds)) 2 0 r im) m1 = Inr m2"
    "and_check tu (check_offset_condition env fe part (the (sc_total_offset conds)) 1 (part_starting_offset_in_query part) r im) m2 = Inr m"
    using run unfolding check_in_range_def flags Let_def prod.case bind_r_Inr_iff by blast
  have k: "\<forall>m. check_key_condition env fe part (sc_key conds) r im = Inr m \<longrightarrow> covers_dir exact m b" if ku
    using check_key_covers [where rows = rows, OF set'(1,2) _ r row nan] val trust that by blast
  have p: "\<forall>m. check_offset_condition env fe part (the (sc_part_offset conds)) 2 0 r im = Inr m \<longrightarrow> covers_dir exact m b" if pu
  proof (intro allI impI)
    fix m assume c: "check_offset_condition env fe part (the (sc_part_offset conds)) 2 0 r im = Inr m"
    have sp: "\<not> single_point (the (sc_part_offset conds))" using set'(1) flags that by (simp add: env_ok_def)
    show "covers_dir exact m b"
      by (rule check_offset_covers [where rows = rows, OF set'(1,2) c r row sp]) (use val trust that in auto)
  qed
  have t: "\<forall>m. check_offset_condition env fe part (the (sc_total_offset conds)) 1 (part_starting_offset_in_query part) r im = Inr m
      \<longrightarrow> covers_dir exact m b" if tu
  proof (intro allI impI)
    fix m assume c: "check_offset_condition env fe part (the (sc_total_offset conds)) 1 (part_starting_offset_in_query part) r im = Inr m"
    have sp: "\<not> single_point (the (sc_total_offset conds))" using set'(1) flags that by (simp add: env_ok_def)
    show "covers_dir exact m b"
      by (rule check_offset_covers [where rows = rows, OF set'(1,2) c r row sp]) (use val trust that in auto)
  qed
  have "covers_dir exact (BoolMask True False) b \<or> b = False" by (cases b) (simp_all add: covers_dir_def)
  then consider "covers_dir exact (BoolMask True False) b" | "b = False" by blast
  then show ?thesis
  proof cases
    case 1
    have c1: "covers_dir exact m1 b" using and_check_covers [OF s(1) k] 1 by blast
    have c2: "covers_dir exact m2 b" using and_check_covers [OF s(2) p] c1 by blast
    show ?thesis using and_check_covers [OF s(3) t] c2 by blast
  next
    case 2
    have c1: "covers_dir exact m1 b \<or> \<not> ku" using and_check_covers [OF s(1) k] 2 by blast
    have c2: "covers_dir exact m2 b \<or> \<not> ku \<and> \<not> pu"
    proof (cases pu)
      case True
      then show ?thesis using and_check_covers [OF s(2) p] 2 by blast
    next
      case False
      then show ?thesis using c1 s(2) by (auto simp: and_check_def)
    qed
    show ?thesis
    proof (cases tu)
      case True
      then show ?thesis using and_check_covers [OF s(3) t] 2 by blast
    next
      case False
      then show ?thesis using c2 s(3) set'(3) by (auto simp: and_check_def)
    qed
  qed
qed

text \<open>The granule of mark \<open>i\<close> has a row on which the filter has the value \<open>b\<close>.\<close>

definition filter_hits ::
  "('f::linorder, 'ty, 'fn, 's, 'p, 'x::linorder) key_env \<Rightarrow> ('f, 'ty) field_env \<Rightarrow> ('f, 'ty) part_view
     \<Rightarrow> ('f key_range \<Rightarrow> 'f \<Rightarrow> bool) \<Rightarrow> (nat \<Rightarrow> nat \<Rightarrow> nat) \<Rightarrow> (nat \<Rightarrow> nat \<Rightarrow> nat) \<Rightarrow> ('p \<Rightarrow> 'x \<times> 'x \<Rightarrow> bool)
     \<Rightarrow> ('f, 'fn, 's, 'p) select_conditions \<Rightarrow> useful_flags \<Rightarrow> (nat \<Rightarrow> nat) \<Rightarrow> (nat \<Rightarrow> 'f list \<Rightarrow> nat \<Rightarrow> bool)
     \<Rightarrow> bool \<Rightarrow> bool \<Rightarrow> nat \<Rightarrow> bool" where
  "filter_hits env fe part mem hilbert morton inside conds flags start rows exact b i \<longleftrightarrow>
     select_setup env fe part mem hilbert morton inside conds flags start rows exact \<and> (b \<or> exact)
     \<and> (\<exists>k off. rows i k off \<and> filter_value env fe part mem hilbert morton inside conds flags k off b)"

text \<open>The check of the model keeps the contract of the searches.\<close>

interpretation pk: mark_check "check_in_range env fe part conds flags" "part_marks_count part"
  "filter_hits env fe part mem hilbert morton inside conds flags start rows exact True"
  "filter_hits env fe part mem hilbert morton inside conds flags start rows exact False"
  for env fe part conds flags mem hilbert morton inside start rows exact
proof (unfold_locales, goal_cases)
  case (1 r im m i)
  then obtain k off where "rows i k off" "filter_value env fe part mem hilbert morton inside conds flags k off True"
    "select_setup env fe part mem hilbert morton inside conds flags start rows exact" unfolding filter_hits_def by blast
  from check_in_range_covers [where rows = rows, OF this(3) 1(1,2,3,4) this(1,2)] show ?case by (simp add: covers_dir_def)
next
  case (2 r im m i)
  then obtain k off where "rows i k off" "filter_value env fe part mem hilbert morton inside conds flags k off False"
    "select_setup env fe part mem hilbert morton inside conds flags start rows exact" exact unfolding filter_hits_def by blast
  from check_in_range_covers [where rows = rows, OF this(3) 2(1,2,3,4) this(1,2)] this(4) show ?case by (simp add: covers_dir_def)
qed

section \<open>The selected ranges\<close>

text \<open>
  One lemma for all properties: the call returns, and unless it throws, its result is the input (no
  condition is useful) or what one of the searches promises.
\<close>

lemma markRangesFromPKRange_found:
  assumes rs: "ascending 0 (ranges part_ranges)" "\<forall>r \<in> set (ranges part_ranges). range_end r \<le> part_marks_count part"
    and lim: "2 * part_marks_count part + 2 \<le> size_max" and ex0: "exact_ranges = None \<or> exact_ranges = Some []"
  shows "\<exists>r. markRangesFromPKRange env fe fn part part_ranges conds exact_ranges st debug = Some r
    \<and> (\<forall>res ex. r = Inr (res, ex) \<longrightarrow>
        part_marks_count part = 0 \<and> ranges res = [] \<and> ex = exact_ranges
        \<or> useful_conditions conds = Inr (False, False, False) \<and> res = part_ranges \<and> ex = exact_ranges
        \<or> (\<exists>flags found. useful_conditions conds = Inr flags \<and> flags \<noteq> (False, False, False)
            \<and> found_ok (seek_marks st = Inr 0 \<or> algorithm res = BinarySearch)
                {i \<in> marks_in (ranges part_ranges).
                   filter_hits env fe part mem hilbert morton inside conds flags start rows exact True i}
                (marks_in (ranges part_ranges))
                (filter_hits env fe part mem hilbert morton inside conds flags start rows exact False)
                (part_marks_count part) found
            \<and> ranges res = fst found \<and> ex = (if conditions_relaxed conds then exact_ranges else snd found)))"
proof (cases "part_marks_count part = 0")
  case True
  then show ?thesis by (simp add: markRangesFromPKRange_def)
next
  case False
  show ?thesis
  proof (cases "useful_conditions conds")
    case (Inl err)
    then show ?thesis using False by (simp add: markRangesFromPKRange_def bind_or_def)
  next
    case (Inr flags)
    show ?thesis
    proof (cases "flags = (False, False, False)")
      case True
      then show ?thesis using False Inr by (simp add: markRangesFromPKRange_def bind_or_def)
    next
      case useful: False
      let ?hits = "filter_hits env fe part mem hilbert morton inside conds flags start rows exact True"
      let ?misses = "filter_hits env fe part mem hilbert morton inside conds flags start rows exact False"
      let ?wanted = "if conditions_relaxed conds then None else exact_ranges"
      let ?check = "check_in_range env fe part conds flags"
      let ?must = "{} \<union> {i \<in> marks_in (ranges part_ranges). ?hits i}" and ?may = "{} \<union> marks_in (ranges part_ranges)"
      have begun: "found_ok g {} {} ?misses 0 ([], ?wanted)" for g using ex0 by (auto simp: found_ok_def)
      have unfold: "markRangesFromPKRange env fe fn part part_ranges conds exact_ranges st debug =
          bind_or (Some (conditions_exact env fn flags conds)) (\<lambda>exact.
             bind_or
               (if \<not> exact
                then bind_or (generic_search ?check st (ranges part_ranges) ?wanted) (\<lambda>found.
                       Some (Inr (with_algorithm GenericExclusionSearch found)))
                else bind_or (binary_search ?check debug (ranges part_ranges) ([], ?wanted)) (\<lambda>found.
                       Some (Inr (with_algorithm BinarySearch found)))) (\<lambda>(res, exact).
               Some (Inr (res, if conditions_relaxed conds then exact_ranges else exact))))"
        using False useful Inr by (simp add: markRangesFromPKRange_def bind_or_def Let_def)
      obtain gres where gres: "generic_search ?check st (ranges part_ranges) ?wanted = Some gres"
        "\<And>found. gres = Inr found \<Longrightarrow> found_ok (seek_marks st = Inr 0) ?must ?may ?misses (part_marks_count part) found"
      proof -
        consider (error) err where "generic_search ?check st (ranges part_ranges) ?wanted = Some (Inl err)"
          | (search) k where "1 < merge_tree_coarse_index_granularity st" "seek_marks st = Inr k"
            "generic_search ?check st (ranges part_ranges) ?wanted
               = exclusion_search ?check (merge_tree_coarse_index_granularity st) k (ranges part_ranges) ([], ?wanted)"
          by (cases "merge_tree_coarse_index_granularity st \<le> 1"; cases "seek_marks st")
             (auto simp: generic_search_def)
        then show thesis
        proof cases
          case error
          then show ?thesis using that by blast
        next
          case search
          have "part_marks_count part < size_max" using lim by linarith
          from pk.exclusion_search_ok [OF search(1) this begun rs(1) _ rs(2), of k] search(2,3)
          show ?thesis using that by auto
        qed
      qed
      obtain bres where bres: "binary_search ?check debug (ranges part_ranges) ([], ?wanted) = Some bres"
        "\<And>found. bres = Inr found \<Longrightarrow> found_ok True ?must ?may ?misses (part_marks_count part) found"
        using pk.binary_search_ok [OF lim begun rs(1) _ rs(2)] by blast
      have finish: ?thesis
        if run: "markRangesFromPKRange env fe fn part part_ranges conds exact_ranges st debug
            = Some (Inr (\<lparr>ranges = fst found, algorithm = alg\<rparr>, if conditions_relaxed conds then exact_ranges else snd found))"
          and ok: "found_ok (seek_marks st = Inr 0 \<or> alg = BinarySearch) ?must ?may ?misses (part_marks_count part) found"
        for alg found
      proof (rule exI, rule conjI, rule run, intro allI impI)
        fix res ex
        assume "Inr (\<lparr>ranges = fst found, algorithm = alg\<rparr>, if conditions_relaxed conds then exact_ranges else snd found)
          = Inr (res, ex)"
        then have eq: "res = \<lparr>ranges = fst found, algorithm = alg\<rparr>"
          "ex = (if conditions_relaxed conds then exact_ranges else snd found)" by simp_all
        show "part_marks_count part = 0 \<and> ranges res = [] \<and> ex = exact_ranges
          \<or> useful_conditions conds = Inr (False, False, False) \<and> res = part_ranges \<and> ex = exact_ranges
          \<or> (\<exists>flags found. useful_conditions conds = Inr flags \<and> flags \<noteq> (False, False, False)
              \<and> found_ok (seek_marks st = Inr 0 \<or> algorithm res = BinarySearch)
                  {i \<in> marks_in (ranges part_ranges).
                     filter_hits env fe part mem hilbert morton inside conds flags start rows exact True i}
                  (marks_in (ranges part_ranges))
                  (filter_hits env fe part mem hilbert morton inside conds flags start rows exact False)
                  (part_marks_count part) found
              \<and> ranges res = fst found \<and> ex = (if conditions_relaxed conds then exact_ranges else snd found))"
          by (rule disjI2, rule disjI2, rule exI [of _ flags], rule exI [of _ found])
             (use Inr useful ok eq in simp)
      qed
      show ?thesis
      proof (cases "conditions_exact env fn flags conds")
        case (Inl err)
        then show ?thesis using unfold by simp
      next
        case exact: (Inr ex)
        show ?thesis
        proof (cases ex)
          case True
          show ?thesis
          proof (cases bres)
            case (Inl err)
            then show ?thesis using unfold exact True bres(1) by simp
          next
            case (Inr found)
            show ?thesis
              by (rule finish [of found BinarySearch])
                 (use unfold exact True bres(1) bres(2) [OF Inr] Inr in \<open>simp_all add: with_algorithm_def\<close>)
          qed
        next
          case False
          show ?thesis
          proof (cases gres)
            case (Inl err)
            then show ?thesis using unfold exact False gres(1) by simp
          next
            case (Inr found)
            show ?thesis
              by (rule finish [of found GenericExclusionSearch])
                 (use unfold exact False gres(1) gres(2) [OF Inr] Inr in \<open>simp_all add: with_algorithm_def\<close>)
          qed
        qed
      qed
    qed
  qed
qed

lemma ascending_ends: "ascending lo rs \<Longrightarrow> r \<in> set rs \<Longrightarrow> range_end r \<le> end_of rs"
proof (induction rs arbitrary: lo)
  case (Cons a rs)
  then show ?case using end_of_above [of "range_end a" rs] by (cases "rs = []") auto
qed simp

lemma ascending_assert:
  assumes "ascending 0 rs" "end_of rs \<le> n" "n < size_max"
  shows "assertSortedAndNonIntersecting rs = Inr () \<and> (\<forall>r \<in> set rs. range_end r \<le> n)"
proof -
  have wf: "ascending lo rs \<Longrightarrow> r \<in> set rs \<Longrightarrow> lo \<le> range_begin r \<and> range_begin r < range_end r" for lo r and rs :: "mark_range list"
    by (induction rs arbitrary: lo) fastforce+
  have before: "ascending lo rs \<Longrightarrow> ordered_ranges rs" for lo and rs :: "mark_range list"
  proof (induction rs arbitrary: lo)
    case (Cons a rs)
    then show ?case using wf [of "range_end a" rs] by (fastforce simp: ordered_ranges_def before_def)
  qed (simp add: ordered_ranges_def)
  have le: "\<forall>r \<in> set rs. range_end r \<le> n" using ascending_ends [OF assms(1)] assms(2) by fastforce
  moreover have "\<forall>r \<in> set rs. wf_range r" using wf [OF assms(1)] le assms(3) by (fastforce simp: wf_range_def)
  ultimately show ?thesis using assertSorted_ordered before [OF assms(1)] by blast
qed

text \<open>
  C1: No row is lost. The ranges that \<open>markRangesFromPKRange\<close> selects hold the mark of every
  row of the given ranges on which the filter is true, by exclusion search or by binary search, with the
  conditions on the key and on the offsets. This is for given ranges in ascending order, a sorted part of
  fewer than 2^63 marks without descending key columns and without NaN in its keys, and for conditions that
  have no atom about a space-filling curve below an odd number of negations and are not built for single
  points; the fields, functions, curves and polygons outside the repository behave as documented.
\<close>
theorem markRangesFromPKRange_complete:
  assumes env: "env_ok env fe mem hilbert morton inside conds flags"
    and part: "part_ok env fe part (num_key_columns (sc_key conds)) start rows"
    and rs: "ascending 0 (ranges part_ranges)" "\<forall>r \<in> set (ranges part_ranges). range_end r \<le> part_marks_count part"
    and lim: "2 * part_marks_count part + 2 \<le> size_max" and ex0: "exact_ranges = None \<or> exact_ranges = Some []"
    and run: "markRangesFromPKRange env fe fn part part_ranges conds exact_ranges st debug = Some (Inr (res, ex))"
    and flags: "useful_conditions conds = Inr flags" and nan: "no_NaN_keys env part rows"
    and trust: "conditions_trusted False conds flags"
    and row: "i \<in> marks_in (ranges part_ranges)" "rows i k off"
    and filter: "filter_value env fe part mem hilbert morton inside conds flags k off True"
  shows "i \<in> marks_in (ranges res)"
proof -
  let ?hit = "filter_hits env fe part mem hilbert morton inside conds flags start rows False True i"
  have hit: ?hit if "flags \<noteq> (False, False, False)"
    using env part nan trust that row(2) filter unfolding filter_hits_def select_setup_def by blast
  have "part_marks_count part \<noteq> 0" using rs(2) row(1) by (auto simp: marks_in_def marks_of_def)
  then show ?thesis
    using markRangesFromPKRange_found [OF rs lim ex0, of env fe fn conds st debug mem hilbert morton inside start rows False]
      run flags hit row(1)
    by (auto simp: found_ok_def)
qed


text \<open>
  C32: The search returns, whatever the checks answer: for ranges in ascending order that are not empty
  there is a result, and unless a check throws, the selected ranges are accepted by
  \<open>assertSortedAndNonIntersecting\<close> and lie within the part.
\<close>
theorem markRangesFromPKRange_returns:
  fixes env :: "('f::linorder, 'ty, 'fn, 's, 'p, 'x::linorder) key_env"
  assumes "ascending 0 (ranges part_ranges)" "\<forall>r \<in> set (ranges part_ranges). range_end r \<le> part_marks_count part"
    and "2 * part_marks_count part + 2 \<le> size_max" "exact_ranges = None \<or> exact_ranges = Some []"
  shows "\<exists>r. markRangesFromPKRange env fe fn part part_ranges conds exact_ranges st debug = Some r
    \<and> (\<forall>res ex. r = Inr (res, ex) \<longrightarrow> assertSortedAndNonIntersecting (ranges res) = Inr ()
          \<and> (\<forall>q \<in> set (ranges res). range_end q \<le> part_marks_count part))"
proof -
  have n: "part_marks_count part < size_max" using assms(3) by linarith
  obtain r where r: "markRangesFromPKRange env fe fn part part_ranges conds exact_ranges st debug = Some r"
    and out: "\<And>res ex. r = Inr (res, ex) \<Longrightarrow> ascending 0 (ranges res) \<and> end_of (ranges res) \<le> part_marks_count part"
  proof -
    have "end_of (ranges part_ranges) \<le> part_marks_count part"
      using assms(2) by (cases "ranges part_ranges" rule: rev_cases) (auto simp: end_of_def)
    then show thesis
      using that markRangesFromPKRange_found [OF assms, of env fe fn conds st debug] assms(1)
      by (fastforce simp: found_ok_def)
  qed
  then show ?thesis using ascending_assert [OF _ _ n] by blast
qed

section \<open>A concrete part\<close>

definition demo_fields :: "(demo_field, unit) field_env" where
  "demo_fields = \<lparr>range_constructors = demo_range_ops, NEGATIVE_INFINITY = Minus_Inf, POSITIVE_INFINITY = Plus_Inf,
     is_nullable_type = (\<lambda>_. False), part_offset_types = [(), ()]\<rparr>"

text \<open>A part with one key column, one row in each granule and no final mark.\<close>

definition demo_part :: "nat list \<Rightarrow> bool list \<Rightarrow> (demo_field, unit) part_view" where
  "demo_part keys flags = \<lparr>part_marks_count = length keys, loaded_index = [map Num keys], primary_key_types = [()],
     reverse_flags = flags, mark_starting_row = Inr, part_name_field = Num 0, part_starting_offset_in_query = 0\<rparr>"

definition demo_rows :: "nat list \<Rightarrow> nat \<Rightarrow> demo_field list \<Rightarrow> nat \<Rightarrow> bool" where
  "demo_rows keys i k off \<longleftrightarrow> i < length keys \<and> k = [Num (keys ! i)] \<and> off = i"

definition demo_single :: "(demo_field, demo_function, nat list, unit) rpn_element
     \<Rightarrow> (demo_field, demo_function, nat list, unit) key_condition" where
  "demo_single e = demo_condition\<lparr>rpn := [e], num_key_columns := 1\<rparr>"

definition demo_select :: "(demo_field, demo_function, nat list, unit) rpn_element
     \<Rightarrow> (demo_field, demo_function, nat list, unit) select_conditions" where
  "demo_select e = \<lparr>sc_key = demo_single e, sc_part_offset = None, sc_total_offset = None\<rparr>"

definition demo_functions :: "(demo_field, unit, demo_function, nat list) function_env" where
  "demo_functions = \<lparr>argument_type_of = demo_argument_type, empty_field = Minus_Inf, set_size_of = length,
     set_mapping_of = (\<lambda>_. [])\<rparr>"

definition demo_settings :: "nat \<Rightarrow> select_settings" where
  "demo_settings rows_for_seek = \<lparr>merge_tree_coarse_index_granularity = 8, merge_tree_min_rows_for_seek = rows_for_seek,
     merge_tree_min_bytes_for_seek = 0, fixed_index_granularity = 8, index_granularity_bytes = 0\<rparr>"

text \<open>The condition \<open>x = 3\<close>, and \<open>x != 5\<close>.\<close>

definition demo_not_5 :: "(demo_field, demo_function, nat list, unit) rpn_element" where
  "demo_not_5 = demo_y\<lparr>el_key_columns := [0]\<rparr>"

definition demo_closed :: "demo_field \<Rightarrow> demo_field \<Rightarrow> demo_field key_range" where
  "demo_closed l u = \<lparr>range_left = l, range_right = u, left_included = True, right_included = True\<rparr>"

lemma demo_parts [simp]:
  "part_marks_count (demo_part keys flags) = length keys" "loaded_index (demo_part keys flags) = [map Num keys]"
  "primary_key_types (demo_part keys flags) = [()]" "reverse_flags (demo_part keys flags) = flags"
  "mark_starting_row (demo_part keys flags) = Inr" "part_name_field (demo_part keys flags) = Num 0"
  "part_starting_offset_in_query (demo_part keys flags) = 0"
  "range_constructors demo_fields = demo_range_ops" "NEGATIVE_INFINITY demo_fields = Minus_Inf"
  "POSITIVE_INFINITY demo_fields = Plus_Inf" "is_nullable_type demo_fields = (\<lambda>_. False)"
  "part_offset_types demo_fields = [(), ()]"
  "sc_key (demo_select e) = demo_single e" "sc_part_offset (demo_select e) = None" "sc_total_offset (demo_select e) = None"
  "rpn (demo_single e) = [e]" "num_key_columns (demo_single e) = 1" "single_point (demo_single e) = False"
  "kc_relaxed (demo_single e) = False"
  by (simp_all add: demo_part_def demo_fields_def demo_select_def demo_single_def demo_condition_def)

lemma demo_atom_3:
  assumes "range_left r \<noteq> Not_A_Number" "range_right r \<noteq> Not_A_Number"
  shows "check_callback demo_env (demo_single demo_point) tys [r]
     = Inr (BoolMask (demo_intersects (demo_interval 3 3) r) (\<not> demo_contains (demo_interval 3 3) r))"
proof -
  have "\<not> is_connective demo_point" by (simp add: is_connective_def)
  moreover have "check_atom demo_env (demo_single demo_point) [r] tys (\<lambda>_. None) demo_point
      = Inr (BoolMask (demo_intersects (demo_interval 3 3) r) (\<not> demo_contains (demo_interval 3 3) r), True)"
    using assms by (simp add: check_atom_def demo_point_def check_range_atom_def getKeyColumn_def Let_def
        demo_env_def demo_null_def range_atom_mask_def when_relaxed_def element_at_def with_bloom_filter_def)
  ultimately show ?thesis by (simp add: check_callback_def checkInHyperrectangle_def)
qed

lemma demo_atom_not_5:
  assumes "range_left r \<noteq> Not_A_Number" "range_right r \<noteq> Not_A_Number"
  shows "check_callback demo_env (demo_single demo_not_5) tys [r]
     = Inr (BoolMask (\<not> demo_contains (demo_interval 5 5) r) (demo_intersects (demo_interval 5 5) r))"
proof -
  have "\<not> is_connective demo_not_5" by (simp add: is_connective_def demo_not_5_def demo_y_def)
  moreover have "check_atom demo_env (demo_single demo_not_5) [r] tys (\<lambda>_. None) demo_not_5
      = Inr (BoolMask (\<not> demo_contains (demo_interval 5 5) r) (demo_intersects (demo_interval 5 5) r), True)"
    using assms by (simp add: check_atom_def demo_not_5_def demo_y_def check_range_atom_def getKeyColumn_def Let_def
        demo_env_def demo_null_def range_atom_mask_def when_relaxed_def element_at_def with_bloom_filter_def mask_not_def)
  ultimately show ?thesis by (simp add: check_callback_def checkInHyperrectangle_def)
qed

lemma demo_check_1:
  "checkInRange demo_range_ops (Suc 0) [l] [u] nullable im callback = callback [demo_closed l u]"
  by (cases "callback [demo_closed l u]")
     (auto simp: checkInRange_def forAnyHyperrectangle.simps match_prefix.simps Let_def bounded_range_def
       demo_range_ops_def demo_closed_def)

lemma bind_r_return [simp]: "bind_r x Inr = x"
  by (cases x) simp_all

lemma demo_check_in_range:
  assumes "b < length keys" "e \<le> length keys" "flags = []"
  shows "check_in_range demo_env demo_fields (demo_part keys flags) (demo_select el) (True, False, False) (MarkRange b e) im
    = bind_r (check_callback demo_env (demo_single el) [()]
        [demo_closed (Num (keys ! b)) (if e = length keys then Plus_Inf else Num (keys ! e))])
        (\<lambda>m. Inr (mask_and (BoolMask True False) m))"
  using assms
  by (auto simp: check_in_range_def and_check_def check_key_condition_def key_bound_def create_field_ref_def
      element_at_def Let_def demo_check_1)

lemma demo_closed_sel [simp]: "range_left (demo_closed l u) = l" "range_right (demo_closed l u) = u"
  by (simp_all add: demo_closed_def)

lemma demo_meets:
  "demo_intersects (demo_interval a c) (demo_closed (Num l) (Num u)) \<longleftrightarrow> a \<le> u \<and> l \<le> c"
  "demo_intersects (demo_interval a c) (demo_closed (Num l) Plus_Inf) \<longleftrightarrow> l \<le> c"
  "demo_contains (demo_interval a c) (demo_closed (Num l) (Num u)) \<longleftrightarrow> a \<le> l \<and> u \<le> c"
  "\<not> demo_contains (demo_interval a c) (demo_closed (Num l) Plus_Inf)"
  by (auto simp: demo_intersects_def demo_contains_def demo_interval_def demo_closed_def)

text \<open>The masks of the two conditions between two marks.\<close>

lemma demo_check_3:
  assumes "b < length keys" "e \<le> length keys"
  shows "check_in_range demo_env demo_fields (demo_part keys []) (demo_select demo_point) (True, False, False) (MarkRange b e) im
    = Inr (if e = length keys then BoolMask (keys ! b \<le> 3) True
           else BoolMask (3 \<le> keys ! e \<and> keys ! b \<le> 3) (\<not> (3 \<le> keys ! b \<and> keys ! e \<le> 3)))"
  unfolding demo_check_in_range [OF assms refl]
  by (subst demo_atom_3) (auto simp: demo_meets mask_and_def)

lemma demo_check_not_5:
  assumes "b < length keys" "e \<le> length keys"
  shows "check_in_range demo_env demo_fields (demo_part keys []) (demo_select demo_not_5) (True, False, False) (MarkRange b e) im
    = Inr (if e = length keys then BoolMask True (keys ! b \<le> 5)
           else BoolMask (\<not> (5 \<le> keys ! b \<and> keys ! e \<le> 5)) (5 \<le> keys ! e \<and> keys ! b \<le> 5))"
  unfolding demo_check_in_range [OF assms refl]
  by (subst demo_atom_not_5) (auto simp: demo_meets mask_and_def)

lemma demo_useful:
  "useful_conditions (demo_select demo_point) = Inr (True, False, False)"
  "useful_conditions (demo_select demo_not_5) = Inr (True, False, False)"
proof -
  have k: "kind_of demo_point = Atom" "kind_of demo_not_5 = Atom" "el_function demo_not_5 = FUNCTION_NOT_IN_RANGE"
    by (simp_all add: kind_of_def demo_not_5_def demo_y_def)
  show "useful_conditions (demo_select demo_point) = Inr (True, False, False)"
    "useful_conditions (demo_select demo_not_5) = Inr (True, False, False)"
    by (simp_all add: useful_conditions_def condition_useful_def alwaysUnknownOrTrue_def unknownOrAlwaysTrue_def
        stack_step_simps unknown_atom_def k)
qed

lemma demo_exact:
  "conditions_exact demo_env demo_functions (True, False, False) (demo_select demo_point) = Inr True"
  "conditions_exact demo_env demo_functions (True, False, False) (demo_select demo_not_5) = Inr False"
  by (simp_all add: conditions_exact_def condition_exact_def matchesExactContinuousRange_def demo_functions_def
      constrain_element_def getKeyColumn_def constrain_column_def constrain_def demo_interval_def demo_not_5_def demo_y_def)

lemma demo_relaxed: "\<not> conditions_relaxed (demo_select e)"
  by (simp add: conditions_relaxed_def)

text \<open>\<open>x = 3\<close> on the keys 2, 3, 3, 7: binary search finds three marks, of which the second is exact.\<close>

lemma demo_binary:
  "markRangesFromPKRange demo_env demo_fields demo_functions (demo_part [2, 3, 3, 7] [])
     \<lparr>ranges = [MarkRange 0 4], algorithm = SearchUnknown\<rparr> (demo_select demo_point) (Some []) (demo_settings 0) True
   = Some (Inr (\<lparr>ranges = [MarkRange 0 3], algorithm = BinarySearch\<rparr>, Some [MarkRange 1 2]))"
proof -
  let ?c = "check_in_range demo_env demo_fields (demo_part [2, 3, 3, 7] []) (demo_select demo_point) (True, False, False)"
  have left: "search_left ?c 0 5 = Some (Inr 0)"
    by (subst search_left.simps, simp add: size_t_eval demo_check_3 Let_def,
        subst search_left.simps, simp add: size_t_eval demo_check_3 Let_def,
        subst search_left.simps, simp add: size_t_eval)
  have right: "search_right ?c 4 0 4 = Some (Inr 3)"
    by (subst search_right.simps, simp add: size_t_eval demo_check_3 Let_def,
        subst search_right.simps, simp add: size_t_eval demo_check_3 Let_def,
        subst search_right.simps, simp add: size_t_eval)
  have exact: "add_exact_range ?c True (MarkRange 0 3) [] = Inr [MarkRange 1 2]"
    by (simp add: add_exact_range_def trim_left_def trim_right_def demo_check_3 size_t_eval)
  have "binary_search ?c True [MarkRange 0 4] ([], Some []) = Some (Inr ([MarkRange 0 3], Some [MarkRange 1 2]))"
    by (simp add: binary_search_range_def left right exact size_t_eval)
  then show ?thesis
    by (simp add: markRangesFromPKRange_def demo_useful demo_exact demo_relaxed with_algorithm_def)
qed

lemma demo_env_ok: "env_ok demo_env demo_fields in_bounds (+) (+) demo_inside (demo_select e) (True, False, False)"
  using demo_ranges_ok demo_functions_ok demo_curves_ok demo_geometry_ok demo_range_ops_ok
  by (simp add: env_ok_def demo_env_def)

lemma demo_part_ok:
  assumes "sorted keys" "length keys < size_max"
  shows "part_ok demo_env demo_fields (demo_part keys []) 1 (\<lambda>m. m) (demo_rows keys)"
proof -
  have index: "index_at demo_env demo_fields (demo_part keys []) 1 m = [Num (keys ! m)]" if "m < length keys" for m
    using that by (simp add: index_at_def)
  have nan: "\<not> isNaN demo_env (UInt64_field demo_env v)" "\<not> isNaN demo_env (Num 0)" for v by (simp_all add: demo_env_def)
  note nan' = nan(1) [simplified]
  have le: "keys ! m < keys ! m' \<or> keys ! m = keys ! m'" if "m \<le> m'" "m' < length keys" for m m'
    using assms(1) that by (auto simp: sorted_iff_nth_mono le_less)
  show ?thesis
    unfolding part_ok_def
    using assms(2) le by (auto simp: index index [simplified] nan nan' demo_rows_def key_tuple_def monotone_on_def)
qed

lemma demo_no_NaN: "no_NaN_keys demo_env (demo_part keys []) (demo_rows keys)"
  by (auto simp: no_NaN_keys_def demo_rows_def)

lemma demo_trusted:
  "el_function e = FUNCTION_IN_RANGE \<or> el_function e = FUNCTION_NOT_IN_RANGE
     \<Longrightarrow> conditions_trusted exact (demo_select e) (True, False, False)"
  by (auto simp: conditions_trusted_def trusted_def trust_of_def stack_step_simps kind_of_def about_curve_def)

lemma demo_filter_value:
  assumes "\<And>x. in_bounds (el_range e) (Num x) = (x = v)" "el_key_columns e = [0]" "monotonic_functions_chain e = []"
    "bloom_filter e = None" "argument_num_of_space_filling_curve e = None"
  shows "el_function e = FUNCTION_IN_RANGE \<Longrightarrow>
      filter_value demo_env demo_fields (demo_part keys []) in_bounds (+) (+) demo_inside (demo_select e) (True, False, False)
        [Num x] off (x = v)"
    "el_function e = FUNCTION_NOT_IN_RANGE \<Longrightarrow>
      filter_value demo_env demo_fields (demo_part keys []) in_bounds (+) (+) demo_inside (demo_select e) (True, False, False)
        [Num x] off (x \<noteq> v)"
proof -
  have means: "range_atom_means demo_env in_bounds [()] (\<lambda>_. None) [Num x] e (x = v)"
    unfolding range_atom_means_def using assms by (simp add: getKeyColumn_def bloom_allows_def)
  have val: "condition_value demo_env in_bounds (+) (+) demo_inside (demo_single e) [()] [Num x] b"
    if "connective_ok e" "kind_of e = Atom"
      "atom_means demo_env in_bounds (+) (+) demo_inside (demo_single e) [()] (\<lambda>_. None) [Num x] e b" for b
    unfolding condition_value_def
    by (rule exI [of _ "\<lambda>_. b"]) (use that in \<open>simp add: truth_of_def truth_machine_def stack_step_simps\<close>)
  show "filter_value demo_env demo_fields (demo_part keys []) in_bounds (+) (+) demo_inside (demo_select e) (True, False, False)
        [Num x] off (x = v)" if "el_function e = FUNCTION_IN_RANGE"
    using val [of "x = v"] means that assms by (simp add: filter_value_def atom_means_def connective_ok_def kind_of_def)
  show "filter_value demo_env demo_fields (demo_part keys []) in_bounds (+) (+) demo_inside (demo_select e) (True, False, False)
        [Num x] off (x \<noteq> v)" if "el_function e = FUNCTION_NOT_IN_RANGE"
    using val [of "x \<noteq> v"] means that assms by (simp add: filter_value_def atom_means_def connective_ok_def kind_of_def)
qed

lemma demo_in_3: "in_bounds (el_range demo_point) (Num x) = (x = 3)" "in_bounds (el_range demo_not_5) (Num x) = (x = 5)"
proof -
  have "el_range demo_not_5 = demo_interval 5 5" by (simp add: demo_not_5_def demo_y_def)
  then show "in_bounds (el_range demo_point) (Num x) = (x = 3)" "in_bounds (el_range demo_not_5) (Num x) = (x = 5)" by auto
qed

lemma demo_filter_3:
  "filter_value demo_env demo_fields (demo_part keys []) in_bounds (+) (+) demo_inside (demo_select demo_point)
     (True, False, False) [Num x] off (x = 3)"
  by (rule demo_filter_value(1) [OF demo_in_3(1)]) (simp_all add: demo_point_def)

lemma demo_setup:
  "part_ok demo_env demo_fields (demo_part [2, 3, 3, 7] []) (num_key_columns (sc_key (demo_select demo_point))) (\<lambda>m. m)
     (demo_rows [2, 3, 3, 7])"
  "ascending 0 (ranges \<lparr>ranges = [MarkRange 0 4], algorithm = SearchUnknown\<rparr>)"
  "\<forall>r \<in> set (ranges \<lparr>ranges = [MarkRange 0 4], algorithm = SearchUnknown\<rparr>). range_end r \<le> part_marks_count (demo_part [2, 3, 3, 7] [])"
  "2 * part_marks_count (demo_part [2, 3, 3, 7] []) + 2 \<le> size_max"
  "useful_conditions (demo_select demo_point) = Inr (True, False, False)"
  using demo_part_ok [of "[2, 3, 3, 7]"] demo_useful(1) by (simp_all add: size_max_def)

theorem markRangesFromPKRange_complete_witness:
  "markRangesFromPKRange demo_env demo_fields demo_functions (demo_part [2, 3, 3, 7] [])
     \<lparr>ranges = [MarkRange 0 4], algorithm = SearchUnknown\<rparr> (demo_select demo_point) (Some []) (demo_settings 0) True
   = Some (Inr (\<lparr>ranges = [MarkRange 0 3], algorithm = BinarySearch\<rparr>, Some [MarkRange 1 2]))
   \<and> demo_rows [2, 3, 3, 7] 2 [Num 3] 2 \<and> 2 \<in> marks_in [MarkRange 0 3]"
proof -
  have row: "demo_rows [2, 3, 3, 7] 2 [Num 3] 2" by (simp add: demo_rows_def)
  have "filter_value demo_env demo_fields (demo_part [2, 3, 3, 7] []) in_bounds (+) (+) demo_inside (demo_select demo_point)
     (True, False, False) [Num 3] 2 True"
    using demo_filter_3 [of _ 3] by simp
  from markRangesFromPKRange_complete [OF demo_env_ok demo_setup(1-4) disjI2 [OF refl] demo_binary demo_setup(5) demo_no_NaN
      demo_trusted _ row this]
  show ?thesis using demo_binary row by (simp add: marks_of_def demo_point_def)
qed


theorem markRangesFromPKRange_returns_witness:
  "assertSortedAndNonIntersecting [MarkRange 0 3] = Inr ()
   \<and> (\<exists>r. markRangesFromPKRange demo_env demo_fields demo_functions (demo_part [2, 3, 3, 7] [])
     \<lparr>ranges = [MarkRange 0 4], algorithm = SearchUnknown\<rparr> (demo_select demo_point) (Some []) (demo_settings 0) True = Some r)"
  using markRangesFromPKRange_returns [OF demo_setup(2-4) disjI2 [OF refl], of demo_env demo_fields demo_functions
      "demo_select demo_point" "demo_settings 0" True] demo_binary
  by auto

end
