(* ===== verification/Select_Ranges_Cases.thy ===== *)
theory Select_Ranges_Cases
  imports Select_Ranges_Results
begin

text \<open>
  Where the selection by the primary key does not keep its promise: gaps joined in the exact ranges,
  and descending key columns. And the final pass over the saved results of the skip indexes.
\<close>

section \<open>Joined gaps\<close>

lemma demo_step_not_5:
  assumes "b < length keys" "e \<le> length keys"
    and "m = (if e = length keys then BoolMask True (keys ! b \<le> 5)
           else BoolMask (\<not> (5 \<le> keys ! b \<and> keys ! e \<le> 5)) (5 \<le> keys ! e \<and> keys ! b \<le> 5))"
  shows "exclusion_loop (check_in_range demo_env demo_fields (demo_part keys []) (demo_select demo_not_5) (True, False, False))
       coarse k (MarkRange b e # stack) found
    = (if \<not> can_be_true m then exclusion_loop (check_in_range demo_env demo_fields (demo_part keys []) (demo_select demo_not_5)
              (True, False, False)) coarse k stack found
       else if is_single_mark (MarkRange b e)
       then exclusion_loop (check_in_range demo_env demo_fields (demo_part keys []) (demo_select demo_not_5)
              (True, False, False)) coarse k stack (found_mark k (MarkRange b e) m found)
       else Option.bind (split_range coarse (MarkRange b e) stack) (\<lambda>stack.
              exclusion_loop (check_in_range demo_env demo_fields (demo_part keys []) (demo_select demo_not_5)
                (True, False, False)) coarse k stack found))"
  by (subst exclusion_loop.simps) (simp add: demo_check_not_5 [OF assms(1,2)] assms(3))

lemma exclusion_loop_Nil: "exclusion_loop check coarse k [] found = Some (Inr found)"
  by (subst exclusion_loop.simps) simp

lemma demo_split:
  "split_range 8 (MarkRange 0 5) [] = Some [MarkRange 0 1, MarkRange 1 2, MarkRange 2 3, MarkRange 3 4, MarkRange 4 5]"
proof -
  have step: "split_from 0 1 e stack = split_from 0 1 (e - 1) (MarkRange (e - 1) e # stack)"
    if "1 < e" "e < size_max" for e stack
    using that by (subst split_from.simps) (simp add: add64_exact sub64_exact)
  have last: "split_from 0 1 1 stack = Some (MarkRange 0 1 # stack)" for stack
    by (subst split_from.simps) (simp add: size_t_eval)
  have "split_range 8 (MarkRange 0 5) [] = split_from 0 1 5 []" by (simp add: split_range_def size_t_eval)
  then show ?thesis
    using step [of 5 "[]"] step [of 4] step [of 3] step [of 2] last by (simp add: size_max_def)
qed

lemma demo_exclusion:
  fixes k
  defines "m \<equiv> BoolMask True False" and "h \<equiv> BoolMask True True"
  shows "exclusion_search (check_in_range demo_env demo_fields (demo_part [2, 3, 5, 5, 6] []) (demo_select demo_not_5)
       (True, False, False)) 8 k [MarkRange 0 5] ([], Some [])
    = Some (Inr (found_mark k (MarkRange 4 5) m (found_mark k (MarkRange 3 4) h
         (found_mark k (MarkRange 1 2) h (found_mark k (MarkRange 0 1) m ([], Some []))))))"
proof -
  have single: "is_single_mark (MarkRange b (Suc b))" if "b < 10" for b
    using that by (simp add: is_single_mark_def add64_def size_max_def)
  have whole: "\<not> is_single_mark (MarkRange 0 5)" by (simp add: is_single_mark_def size_t_eval)
  show ?thesis
    by (simp add: demo_step_not_5 [OF _ _ refl] demo_split whole single [of 0, simplified] single [of 1, simplified]
        single [of 2, simplified] single [of 3, simplified] single [of 4, simplified]
        exclusion_loop_Nil numeral_2_eq_2 m_def h_def)
qed

lemma demo_exclusion_run:
  assumes "seek_marks st = Inr k" "merge_tree_coarse_index_granularity st = 8"
  shows "markRangesFromPKRange demo_env demo_fields demo_functions (demo_part [2, 3, 5, 5, 6] [])
     \<lparr>ranges = [MarkRange 0 5], algorithm = SearchUnknown\<rparr> (demo_select demo_not_5) (Some []) st True
   = Some (Inr (with_algorithm GenericExclusionSearch
       (found_mark k (MarkRange 4 5) (BoolMask True False) (found_mark k (MarkRange 3 4) (BoolMask True True)
         (found_mark k (MarkRange 1 2) (BoolMask True True) (found_mark k (MarkRange 0 1) (BoolMask True False) ([], Some [])))))))"
  by (simp add: markRangesFromPKRange_def demo_useful demo_exact demo_relaxed generic_search_def assms
      demo_exclusion [simplified] with_algorithm_def)

lemma demo_seek: "seek_marks (demo_settings 0) = Inr 0" "seek_marks (demo_settings 24) = Inr 3"
  by (simp_all add: seek_marks_def demo_settings_def roundRowsOrBytesToMarks_def div_up64_def size_t_eval)

text \<open>
  Joined gaps are not exact. With a minimum of marks for a seek above 0 the exclusion search joins the gaps
  of the exact ranges as it does for the ranges to read: for the condition \<open>x != 5\<close> on the keys
  2, 3, 5, 5, 6 the whole part becomes one exact range, though the filter is false on the row of mark 2.
  With a minimum of 0 only the first and the last mark are exact.
\<close>
theorem joined_gaps_are_not_exact:
  "markRangesFromPKRange demo_env demo_fields demo_functions (demo_part [2, 3, 5, 5, 6] [])
     \<lparr>ranges = [MarkRange 0 5], algorithm = SearchUnknown\<rparr> (demo_select demo_not_5) (Some []) (demo_settings 24) True
     = Some (Inr (\<lparr>ranges = [MarkRange 0 5], algorithm = GenericExclusionSearch\<rparr>, Some [MarkRange 0 5]))
   \<and> demo_rows [2, 3, 5, 5, 6] 2 [Num 5] 2
   \<and> filter_value demo_env demo_fields (demo_part [2, 3, 5, 5, 6] []) in_bounds (+) (+) demo_inside
       (demo_select demo_not_5) (True, False, False) [Num 5] 2 False
   \<and> markRangesFromPKRange demo_env demo_fields demo_functions (demo_part [2, 3, 5, 5, 6] [])
     \<lparr>ranges = [MarkRange 0 5], algorithm = SearchUnknown\<rparr> (demo_select demo_not_5) (Some []) (demo_settings 0) True
     = Some (Inr (\<lparr>ranges = [MarkRange 0 2, MarkRange 3 5], algorithm = GenericExclusionSearch\<rparr>,
         Some [MarkRange 0 1, MarkRange 4 5]))"
proof -
  have set: "merge_tree_coarse_index_granularity (demo_settings n) = 8" for n by (simp add: demo_settings_def)
  have "filter_value demo_env demo_fields (demo_part [2, 3, 5, 5, 6] []) in_bounds (+) (+) demo_inside
       (demo_select demo_not_5) (True, False, False) [Num 5] 2 (5 \<noteq> (5::nat))"
    by (rule demo_filter_value(2) [OF demo_in_3(2)]) (simp_all add: demo_not_5_def demo_y_def)
  moreover have "demo_rows [2, 3, 5, 5, 6] 2 [Num 5] 2" by (simp add: demo_rows_def)
  ultimately show ?thesis
    unfolding demo_exclusion_run [OF demo_seek(1) set] demo_exclusion_run [OF demo_seek(2) set]
    by (simp add: with_algorithm_def found_mark_def add_mark_def size_t_eval MarkRange_def)
qed

section \<open>Descending key columns\<close>

text \<open>Two key columns, the second descending; the rows are sorted by the first and then down by the second.\<close>

definition demo_two_keys :: "(demo_field, unit) part_view" where
  "demo_two_keys = \<lparr>part_marks_count = 2, loaded_index = [[Num 3, Num 4], [Num 10, Num 20]], primary_key_types = [(), ()],
     reverse_flags = [False, True], mark_starting_row = Inr, part_name_field = Num 0, part_starting_offset_in_query = 0\<rparr>"

definition demo_second :: "(demo_field, demo_function, nat list, unit) rpn_element" where
  "demo_second = (demo_element FUNCTION_IN_RANGE)\<lparr>el_range := demo_interval 5 5, el_key_columns := [1]\<rparr>"

definition demo_both :: "(demo_field, demo_function, nat list, unit) key_condition" where
  "demo_both = demo_condition\<lparr>rpn := [demo_point, demo_second, demo_element FUNCTION_AND]\<rparr>"

lemma demo_both_mask:
  assumes "range_left rx \<noteq> Not_A_Number" "range_right rx \<noteq> Not_A_Number"
    "range_left ry \<noteq> Not_A_Number" "range_right ry \<noteq> Not_A_Number"
  shows "check_callback demo_env demo_both tys [rx, ry]
     = Inr (mask_and (BoolMask (demo_intersects (demo_interval 5 5) ry) (\<not> demo_contains (demo_interval 5 5) ry))
         (BoolMask (demo_intersects (demo_interval 3 3) rx) (\<not> demo_contains (demo_interval 3 3) rx)))"
proof -
  have kc: "rpn demo_both = [demo_point, demo_second, demo_element FUNCTION_AND]" "single_point demo_both = False"
    by (simp_all add: demo_both_def)
  have con: "\<not> is_connective demo_point" "\<not> is_connective demo_second" "is_connective (demo_element FUNCTION_AND)"
    by (simp_all add: is_connective_def demo_second_def)
  have a: "check_atom demo_env demo_both [rx, ry] tys (\<lambda>_. None) demo_point
      = Inr (BoolMask (demo_intersects (demo_interval 3 3) rx) (\<not> demo_contains (demo_interval 3 3) rx), True)"
    using assms by (simp add: check_atom_def demo_point_def check_range_atom_def getKeyColumn_def Let_def
        demo_env_def demo_null_def range_atom_mask_def when_relaxed_def element_at_def with_bloom_filter_def kc)
  have b: "check_atom demo_env demo_both [rx, ry] tys (\<lambda>_. None) demo_second
      = Inr (BoolMask (demo_intersects (demo_interval 5 5) ry) (\<not> demo_contains (demo_interval 5 5) ry), True)"
    using assms by (simp add: check_atom_def demo_second_def check_range_atom_def getKeyColumn_def Let_def
        demo_env_def demo_null_def range_atom_mask_def when_relaxed_def element_at_def with_bloom_filter_def kc)
  show ?thesis by (simp add: check_callback_def checkInHyperrectangle_def kc con a b)
qed

lemma demo_mixed_keys:
  "check_in_range demo_env demo_fields demo_two_keys \<lparr>sc_key = demo_both, sc_part_offset = None, sc_total_offset = None\<rparr>
     (True, False, False) (MarkRange 0 1) consider_only_can_be_true = Inr (BoolMask False True)"
proof -
  have kc: "num_key_columns demo_both = 2" by (simp add: demo_both_def demo_condition_def)
  have bounds: "key_bounds demo_env demo_fields demo_two_keys (MarkRange 0 1) [0 ..< 2] = Inr ([Num 3, Num 20], [Num 4, Num 10])"
    by (simp add: demo_two_keys_def key_bound_def create_field_ref_def element_at_def numeral_2_eq_2)
  have "checkInRange demo_range_ops 2 [Num 3, Num 20] [Num 4, Num 10] [False, False] consider_only_can_be_true
      (check_callback demo_env demo_both [(), ()]) = Inr (BoolMask False True)"
    by (simp add: checkInRange_def forAnyHyperrectangle.simps match_prefix.simps Let_def bounded_range_def unbounded_after_def
        universe_for_def demo_range_ops_def demo_both_mask consider_only_can_be_true_def combine_masks_def isComplete_def upt_rec
        mask_and_def demo_intersects_def demo_contains_def demo_interval_def)
  then have "check_key_condition demo_env demo_fields demo_two_keys demo_both (MarkRange 0 1) consider_only_can_be_true
      = Inr (BoolMask False True)"
    using bounds by (simp add: check_key_condition_def kc) (simp add: demo_two_keys_def)
  then show ?thesis by (simp add: check_in_range_def and_check_def mask_and_def)
qed

text \<open>
  Descending key columns are pruned wrongly. In the last range of a part without final mark the bounds of a
  descending column are infinity on the left and the key on the right, so \<open>x = 3\<close> is refused
  for the granule whose only row is 3. And where an ascending column comes before a descending one, the
  swapped bounds do not bound the rows: between the marks \<open>(3, 10)\<close> and \<open>(4, 20)\<close>
  the condition \<open>x = 3 AND y = 5\<close> is refused, though the row \<open>(3, 5)\<close> comes after
  the first and before the second.
\<close>
theorem descending_keys_pruned_wrongly:
  "check_in_range demo_env demo_fields (demo_part [7, 3] [True]) (demo_select demo_point) (True, False, False)
      (MarkRange 1 2) consider_only_can_be_true = Inr (BoolMask False False)
   \<and> demo_rows [7, 3] 1 [Num 3] 1
   \<and> filter_value demo_env demo_fields (demo_part [7, 3] [True]) in_bounds (+) (+) demo_inside (demo_select demo_point)
       (True, False, False) [Num 3] 1 True
   \<and> check_in_range demo_env demo_fields demo_two_keys \<lparr>sc_key = demo_both, sc_part_offset = None, sc_total_offset = None\<rparr>
       (True, False, False) (MarkRange 0 1) consider_only_can_be_true = Inr (BoolMask False True)
   \<and> truth_of kind_of (\<lambda>e. in_bounds (el_range e) ([Num 3, Num 5] ! hd (el_key_columns e))) (rpn demo_both) = Some True"
proof -
  have bounds: "key_bounds demo_env demo_fields (demo_part [7, 3] [True]) (MarkRange 1 2) [0 ..< 1] = Inr ([Plus_Inf], [Num 3])"
    by (simp add: key_bound_def create_field_ref_def element_at_def)
  have "check_key_condition demo_env demo_fields (demo_part [7, 3] [True]) (demo_single demo_point) (MarkRange 1 2)
      consider_only_can_be_true = Inr (BoolMask False False)"
    using bounds by (simp add: check_key_condition_def demo_check_1 demo_atom_3)
      (simp add: demo_intersects_def demo_contains_def demo_interval_def demo_closed_def)
  then have a: "check_in_range demo_env demo_fields (demo_part [7, 3] [True]) (demo_select demo_point) (True, False, False)
      (MarkRange 1 2) consider_only_can_be_true = Inr (BoolMask False False)"
    by (simp add: check_in_range_def and_check_def mask_and_def)
  have b: "demo_rows [7, 3] 1 [Num 3] 1" by (simp add: demo_rows_def)
  have c: "filter_value demo_env demo_fields (demo_part [7, 3] [True]) in_bounds (+) (+) demo_inside (demo_select demo_point)
       (True, False, False) [Num 3] 1 True"
    using demo_filter_3 [of "[7, 3]" 3 1] by (simp add: filter_value_def)
  have "el_key_columns demo_second = [1]" "el_range demo_second = demo_interval 5 5" "kind_of demo_second = Atom"
    by (simp_all add: demo_second_def kind_of_def)
  then have d: "truth_of kind_of (\<lambda>e. in_bounds (el_range e) ([Num 3, Num 5] ! hd (el_key_columns e))) (rpn demo_both) = Some True"
    by (simp add: demo_both_def truth_of_def truth_machine_def stack_step.simps kind_of_def)
  show ?thesis using a b c d demo_mixed_keys by blast
qed

section \<open>The final pass over partial results\<close>

text \<open>
  A granule's bits are conservative when the bit of an unknown element is set wherever the part of the
  filter it stands for is true on a row of the granule.
\<close>

definition template_value ::
  "(nat \<Rightarrow> bool) \<Rightarrow> nat \<times> ('f, 'fn, 's, 'p) rpn_element \<Rightarrow> bool" where
  "template_value v pe = (case el_function (snd pe) of ALWAYS_TRUE \<Rightarrow> True | ALWAYS_FALSE \<Rightarrow> False | _ \<Rightarrow> v (fst pe))"

definition bits_allow ::
  "bool list \<Rightarrow> size_t \<Rightarrow> (nat \<Rightarrow> bool) \<Rightarrow> nat \<times> ('f, 'fn, 's, 'p) rpn_element \<Rightarrow> bool" where
  "bits_allow bits mark v pe \<longleftrightarrow> (el_function (snd pe) = FUNCTION_UNKNOWN \<and> v (fst pe)
     \<longrightarrow> element_at bits (add64 (mul64 mark MAX_BITS_FOR_PARTIAL_DISJUNCTION_RESULT) (fst pe)) \<noteq> Inr False)"

interpretation template: stack_simulation UB "\<lambda>pe. kind_of (snd pe)" "template_atom bits mark" "\<lambda>_. True" "(\<and>)" "(\<or>)"
  "template_value v" "\<lambda>b t. t \<longrightarrow> b" "bits_allow bits mark v" for bits mark v
proof (unfold_locales, goal_cases)
  case (1 pe b)
  then show ?case
    by (auto simp: template_atom_def template_value_def bits_allow_def split: rpn_function.splits)
qed auto

lemma evaluate_template_conservative:
  assumes "evaluate_template es bits mark = Inr b" "\<forall>pe \<in> set (List.enumerate 0 es). bits_allow bits mark v pe"
    and "truth_of (\<lambda>pe. kind_of (snd pe)) (template_value v) (List.enumerate 0 es) = Some True"
  shows b
proof -
  obtain stack where s: "stack_machine UB (\<lambda>pe. kind_of (snd pe)) (template_atom bits mark) (\<lambda>_. True) (\<and>) (\<or>)
      (List.enumerate 0 es) [] = Inr stack" "(case stack of [b] \<Rightarrow> Inr b | _ \<Rightarrow> Inl LOGICAL_ERROR) = (Inr b :: bool result)"
    using assms(1) by (auto simp: evaluate_template_def bind_r_Inr_iff)
  then have "stack = [b]" by (cases stack rule: remdups_adj.cases) auto
  from template.value_related [OF s(1) [unfolded this] assms(2)] assms(3) show b by auto
qed

text \<open>The marks that are kept, in ascending order.\<close>

lemma merge_marks_ok:
  "merge_marks eval k marks res = Inr res' \<Longrightarrow> sorted_wrt (<) marks \<Longrightarrow> \<forall>m \<in> set marks. m + 1 < size_max \<and> end_of res \<le> m
    \<Longrightarrow> ascending 0 res
    \<Longrightarrow> ascending 0 res' \<and> marks_in res \<union> {m \<in> set marks. eval m = Inr True} \<subseteq> marks_in res'
      \<and> (k = 0 \<longrightarrow> marks_in res' = marks_in res \<union> {m \<in> set marks. eval m = Inr True})"
proof (induction marks arbitrary: res)
  case (Cons m marks)
  obtain b where b: "eval m = Inr b" "merge_marks eval k marks (if b then add_mark k res (MarkRange m (add64 m 1)) else res) = Inr res'"
    using Cons.prems(1) by (auto simp: bind_r_Inr_iff)
  have m: "add64 m 1 = m + 1" "end_of res \<le> m" "m + 1 < size_max" using Cons.prems(3) by (auto simp: add64_exact)
  show ?case
  proof (cases b)
    case False
    then show ?thesis using Cons.IH [OF b(2)] Cons.prems b(1) by auto
  next
    case True
    have one: "marks_of (MarkRange m (m + 1)) = {m}" by (auto simp: marks_of_def)
    have add: "ascending 0 (add_mark k res (MarkRange m (m + 1)))" "end_of (add_mark k res (MarkRange m (m + 1))) = m + 1"
      "marks_in res \<union> {m} \<subseteq> marks_in (add_mark k res (MarkRange m (m + 1)))"
      "k = 0 \<Longrightarrow> marks_in (add_mark k res (MarkRange m (m + 1))) = marks_in res \<union> {m}"
      using add_mark_ok [OF Cons.prems(4), of "MarkRange m (m + 1)" k] m one by auto
    have run: "merge_marks eval k marks (add_mark k res (MarkRange m (m + 1))) = Inr res'" using b(2) True m(1) by simp
    have bound: "\<forall>q \<in> set marks. q + 1 < size_max \<and> end_of (add_mark k res (MarkRange m (m + 1))) \<le> q"
      using Cons.prems(2,3) add(2) by auto
    show ?thesis using Cons.IH [OF run _ bound add(1)] Cons.prems(2) add(3,4) b(1) True by auto
  qed
qed simp

lemma marks_list:
  "ascending lo rs \<Longrightarrow> sorted_wrt (<) (concat (map (\<lambda>r. [range_begin r ..< range_end r]) rs))
    \<and> set (concat (map (\<lambda>r. [range_begin r ..< range_end r]) rs)) = marks_in rs
    \<and> (\<forall>m \<in> marks_in rs. lo \<le> m)"
proof (induction rs arbitrary: lo)
  case (Cons r rs)
  note IH = Cons.IH [of "range_end r"]
  have "ascending (range_end r) rs" "lo \<le> range_begin r" using Cons.prems by auto
  then have rest: "sorted_wrt (<) (concat (map (\<lambda>r. [range_begin r ..< range_end r]) rs))"
    "set (concat (map (\<lambda>r. [range_begin r ..< range_end r]) rs)) = marks_in rs" "\<forall>m \<in> marks_in rs. range_end r \<le> m"
    using IH by blast+
  have head: "\<forall>m \<in> marks_in rs. lo \<le> m" "\<forall>m \<in> marks_of r. lo \<le> m" "\<forall>m \<in> marks_of r. \<forall>q \<in> marks_in rs. m < q"
    "set [range_begin r ..< range_end r] = marks_of r"
    using Cons.prems rest(3) by (auto simp: marks_of_def)
  have "sorted_wrt (<) ([range_begin r ..< range_end r] @ concat (map (\<lambda>r. [range_begin r ..< range_end r]) rs))"
    unfolding sorted_wrt_append using rest(1,2) head(3,4) by simp
  moreover have "set ([range_begin r ..< range_end r] @ concat (map (\<lambda>r. [range_begin r ..< range_end r]) rs)) = marks_in (r # rs)"
    by (simp only: set_append rest(2) head(4) marks_in_simps)
  moreover have "\<forall>m \<in> marks_in (r # rs). lo \<le> m" using head(1,2) by auto
  ultimately show ?case by simp
qed simp

text \<open>
  The final pass over the saved results of the skip indexes keeps every granule on which the filter
  can be true: where the bits are conservative for the values of the parts of the filter (a negation
  counts as true), a granule whose filter is true is in the result, which is in ascending order; and
  when no gaps are joined, the result holds exactly the granules for which the template is true.
\<close>
theorem mergePartialResults_keeps:
  assumes run: "mergePartialResultsForDisjunctions st part_ranges template bits = Inr res"
    and rs: "ascending 0 part_ranges" "end_of part_ranges < size_max"
  shows "ascending 0 res
    \<and> (\<forall>mark v. mark \<in> marks_in part_ranges \<and> (\<forall>pe \<in> set (List.enumerate 0 template). bits_allow bits mark v pe)
          \<and> truth_of (\<lambda>pe. kind_of (snd pe)) (template_value v) (List.enumerate 0 template) = Some True
        \<longrightarrow> mark \<in> marks_in res)
    \<and> (seek_marks st = Inr 0 \<longrightarrow> marks_in res = {mark \<in> marks_in part_ranges. evaluate_template template bits mark = Inr True})"
proof -
  let ?marks = "concat (map (\<lambda>r. [range_begin r ..< range_end r]) part_ranges)"
  obtain k where k: "seek_marks st = Inr k" "merge_marks (evaluate_template template bits) k ?marks [] = Inr res"
    using run by (auto simp: mergePartialResultsForDisjunctions_def bind_r_Inr_iff)
  note list = marks_list [OF rs(1)]
  have small: "\<forall>m \<in> set ?marks. m + 1 < size_max \<and> end_of [] \<le> m"
  proof
    fix m assume "m \<in> set ?marks"
    then obtain r where "r \<in> set part_ranges" "m < range_end r" by auto
    then have "m < end_of part_ranges" using ascending_ends [OF rs(1)] by fastforce
    then show "m + 1 < size_max \<and> end_of [] \<le> m" using rs(2) by simp
  qed
  have marks: "set ?marks = marks_in part_ranges" using list by blast
  from merge_marks_ok [OF k(2) _ small] list [THEN conjunct1] have merged: "ascending 0 res"
    "{m \<in> marks_in part_ranges. evaluate_template template bits m = Inr True} \<subseteq> marks_in res"
    "k = 0 \<Longrightarrow> marks_in res = {m \<in> marks_in part_ranges. evaluate_template template bits m = Inr True}"
    unfolding marks by simp_all
  have answers: "\<exists>b. evaluate_template template bits m = Inr b" if "m \<in> marks_in part_ranges" for m
  proof -
    have all: "merge_marks eval k marks acc = Inr out \<Longrightarrow> m \<in> set marks \<Longrightarrow> \<exists>b. eval m = Inr b" for eval k marks acc out
      by (induction marks arbitrary: acc) (auto simp: bind_r_Inr_iff)
    show ?thesis using all [OF k(2)] marks that by blast
  qed
  have "mark \<in> marks_in res" if "mark \<in> marks_in part_ranges" "\<forall>pe \<in> set (List.enumerate 0 template). bits_allow bits mark v pe"
    "truth_of (\<lambda>pe. kind_of (snd pe)) (template_value v) (List.enumerate 0 template) = Some True" for mark v
  proof -
    note mark = that
    obtain b where b: "evaluate_template template bits mark = Inr b" using answers [OF mark(1)] by blast
    moreover have b by (rule evaluate_template_conservative [OF b mark(2,3)])
    ultimately show ?thesis using merged(2) mark(1) by auto
  qed
  then have "\<forall>mark v. mark \<in> marks_in part_ranges \<and> (\<forall>pe \<in> set (List.enumerate 0 template). bits_allow bits mark v pe)
          \<and> truth_of (\<lambda>pe. kind_of (snd pe)) (template_value v) (List.enumerate 0 template) = Some True
        \<longrightarrow> mark \<in> marks_in res" by blast
  moreover have "seek_marks st = Inr 0 \<longrightarrow> marks_in res = {mark \<in> marks_in part_ranges. evaluate_template template bits mark = Inr True}"
    using merged(3) k(1) by simp
  ultimately show ?thesis using merged(1) by blast
qed

text \<open>The template \<open>u OR v\<close> on the first two marks: only the bit of \<open>v\<close> of mark 1 is set.\<close>

definition demo_template :: "(demo_field, demo_function, nat list, unit) rpn_element list" where
  "demo_template = [demo_element FUNCTION_UNKNOWN, demo_element FUNCTION_UNKNOWN, demo_element FUNCTION_OR]"

definition demo_bits :: "bool list" where
  "demo_bits = (replicate 64 False)[33 := True]"

lemma demo_template_run:
  "mergePartialResultsForDisjunctions (demo_settings 0) [MarkRange 0 2] demo_template demo_bits = Inr [MarkRange 1 2]"
proof -
  have kinds: "kind_of (demo_element FUNCTION_UNKNOWN) = Atom" "kind_of (demo_element FUNCTION_OR) = Disjunction"
    by (simp_all add: kind_of_def)
  have e: "evaluate_template demo_template demo_bits 0 = Inr False" "evaluate_template demo_template demo_bits 1 = Inr True"
    by (simp_all add: evaluate_template_def demo_template_def kinds stack_step_simps template_atom_def element_at_def
        demo_bits_def MAX_BITS_FOR_PARTIAL_DISJUNCTION_RESULT_def size_t_eval)
  show ?thesis
    by (simp add: mergePartialResultsForDisjunctions_def demo_seek e e(2) [simplified] add_mark_def add64_def size_max_def upt_rec)
qed

theorem mergePartialResults_keeps_witness:
  "mergePartialResultsForDisjunctions (demo_settings 0) [MarkRange 0 2] demo_template demo_bits = Inr [MarkRange 1 2]
   \<and> marks_in [MarkRange 1 2] = {mark \<in> marks_in [MarkRange 0 2]. evaluate_template demo_template demo_bits mark = Inr True}"
  using mergePartialResults_keeps [OF demo_template_run] demo_template_run demo_seek(1) by (simp add: size_max_def)

section \<open>Numbers of marks\<close>

lemma div_up64_least:
  assumes "0 < g" "a + g < size_max"
  shows "div_up64 a g \<le> m \<longleftrightarrow> a \<le> m * g"
proof -
  have eq: "div_up64 a g = (a + g - 1) div g" using assms by (simp add: div_up64_def add64_exact sub64_exact)
  have "(a + g - 1) div g \<le> m \<longleftrightarrow> a + g - 1 < (m + 1) * g"
    using assms(1) by (metis Suc_eq_plus1 div_less_iff_less_mult less_Suc_eq_le)
  also have "\<dots> \<longleftrightarrow> a \<le> m * g" using assms(1) by auto
  finally show ?thesis unfolding eq .
qed

text \<open>
  The number of marks for a number of rows and bytes is the least that covers both, as long as no sum wraps;
  the minimum for concurrent reading is that number, at least 1 and at least \<open>min_marks\<close>. It
  does not depend on \<open>max_marks\<close>, so it is not held below it, as the comment says. And where
  the sum of the setting and the granularity wraps, the first rounds the greatest setting to 0 marks.
\<close>
theorem marks_for_rows_and_bytes:
  assumes "0 < rows_granularity" "rows_setting + rows_granularity < size_max" "bytes_setting + bytes_granularity < size_max"
  shows "(\<exists>m. roundRowsOrBytesToMarks rows_setting bytes_setting rows_granularity bytes_granularity = Inr m
      \<and> (\<forall>m'. m \<le> m' \<longleftrightarrow> rows_setting \<le> m' * rows_granularity
            \<and> (bytes_granularity = 0 \<or> bytes_setting \<le> m' * bytes_granularity))
      \<and> minMarksForConcurrentRead rows_setting bytes_setting rows_granularity bytes_granularity min_marks max_marks
          = Inr (max (max 1 m) min_marks))
    \<and> roundRowsOrBytesToMarks (size_max - 1) 0 8192 0 = Inr 0"
proof -
  let ?r = "div_up64 rows_setting rows_granularity" and ?b = "div_up64 bytes_setting bytes_granularity"
  let ?m = "if bytes_granularity = 0 then ?r else max ?r ?b"
  have round: "roundRowsOrBytesToMarks rows_setting bytes_setting rows_granularity bytes_granularity = Inr ?m"
    using assms(1) by (simp add: roundRowsOrBytesToMarks_def)
  have least: "?m \<le> m' \<longleftrightarrow> rows_setting \<le> m' * rows_granularity
      \<and> (bytes_granularity = 0 \<or> bytes_setting \<le> m' * bytes_granularity)" for m'
    using div_up64_least [OF assms(1,2)] div_up64_least [OF _ assms(3)] by auto
  have pos: "0 < div_up64 a g \<longleftrightarrow> 0 < a" if "0 < g" "a + g < size_max" for a g
    using div_up64_least [OF that, of 0] by auto
  have no_wrap: "\<not> add64 rows_setting rows_granularity \<le> rows_setting"
    "bytes_granularity \<noteq> 0 \<Longrightarrow> \<not> add64 bytes_setting bytes_granularity \<le> bytes_setting"
    using assms by (simp_all add: add64_exact)
  have min_marks: "minMarksForConcurrentRead rows_setting bytes_setting rows_granularity bytes_granularity min_marks max_marks
      = Inr (max (max 1 ?m) min_marks)"
    using assms(1) no_wrap pos [OF assms(1,2)] pos [OF _ assms(3)]
    by (cases "rows_setting = 0"; cases "bytes_granularity = 0"; cases "bytes_setting = 0")
       (auto simp: minMarksForConcurrentRead_def max_def)
  have "roundRowsOrBytesToMarks (size_max - 1) 0 8192 0 = Inr 0"
    by (simp add: roundRowsOrBytesToMarks_def div_up64_def size_t_eval)
  then show ?thesis using round least min_marks by blast
qed

theorem marks_for_rows_and_bytes_witness:
  "minMarksForConcurrentRead 1000 0 10 0 4 20 = Inr 100"
proof -
  have "div_up64 1000 10 = 100" by (simp add: div_up64_def size_t_eval)
  then have "roundRowsOrBytesToMarks 1000 0 10 0 = Inr 100" by (simp add: roundRowsOrBytesToMarks_def)
  then show ?thesis using marks_for_rows_and_bytes [of 10 1000 0 0 4 20] by (auto simp: size_max_def)
qed

end
