(* ===== verification/Ordered_Map.thy ===== *)
theory Ordered_Map
  imports Prelude
begin

text \<open>
  \<open>std::map\<close> as an association list with strictly ascending keys: \<open>find\<close> is
  \<open>map_of\<close>, \<open>begin\<close> is the head, and the operations below keep the order.
\<close>

type_synonym ('k, 'v) ordered_map = "('k \<times> 'v) list"

definition map_ok :: "('k::linorder, 'v) ordered_map \<Rightarrow> bool" where
  "map_ok m \<longleftrightarrow> sorted_wrt (<) (map fst m)"

fun map_put :: "'k::linorder \<Rightarrow> 'v \<Rightarrow> ('k, 'v) ordered_map \<Rightarrow> ('k, 'v) ordered_map" where
  "map_put k v [] = [(k, v)]"
| "map_put k v ((k', v') # m) =
     (if k < k' then (k, v) # (k', v') # m
      else if k = k' then (k, v) # m
      else (k', v') # map_put k v m)"

definition map_erase :: "'k \<Rightarrow> ('k, 'v) ordered_map \<Rightarrow> ('k, 'v) ordered_map" where
  "map_erase k m = filter (\<lambda>e. fst e \<noteq> k) m"

lemma map_ok_Nil [simp]: "map_ok []"
  by (simp add: map_ok_def)

lemma map_ok_Cons [simp]: "map_ok (e # m) \<longleftrightarrow> (\<forall>k \<in> fst ` set m. fst e < k) \<and> map_ok m"
  by (simp add: map_ok_def)

lemma map_put_keys [simp]: "fst ` set (map_put k v m) = insert k (fst ` set m)"
  by (induction k v m rule: map_put.induct) auto

lemma map_erase_keys [simp]: "fst ` set (map_erase k m) = fst ` set m - {k}"
  by (auto simp: map_erase_def)

lemma map_put_ok [simp]: "map_ok m \<Longrightarrow> map_ok (map_put k v m)"
  by (induction k v m rule: map_put.induct) auto

lemma map_erase_ok [simp]: "map_ok m \<Longrightarrow> map_ok (map_erase k m)"
  by (induction m) (auto simp: map_erase_def)

lemma map_of_map_put [simp]: "map_ok m \<Longrightarrow> map_of (map_put k v m) = (map_of m)(k \<mapsto> v)"
proof (induction k v m rule: map_put.induct)
  case (2 k v k' v' m)
  then show ?case by (auto simp: fun_eq_iff)
qed simp

lemma map_of_map_erase [simp]: "map_of (map_erase k m) = (map_of m)(k := None)"
  by (induction m) (auto simp: map_erase_def)

lemma map_ok_distinct: "map_ok m \<Longrightarrow> distinct (map fst m)"
  by (auto simp: map_ok_def strict_sorted_iff)

lemma map_of_not_None: "map_of m k \<noteq> None \<longleftrightarrow> k \<in> fst ` set m"
  by (simp add: map_of_eq_None_iff)

text \<open>The head holds the least key.\<close>

lemma map_ok_head:
  assumes "map_ok m" "m \<noteq> []"
  shows "fst (hd m) \<in> fst ` set m" "\<And>k. k \<in> fst ` set m \<Longrightarrow> fst (hd m) \<le> k"
  using assms by (cases m; fastforce)+

lemma map_ok_head_Min: "map_ok m \<Longrightarrow> m \<noteq> [] \<Longrightarrow> fst (hd m) = Min (fst ` set m)"
  by (metis List.finite_set Min_eqI finite_imageI map_ok_head)

text \<open>Two maps with the same entries are equal.\<close>

lemma map_ok_unique: "map_ok m \<Longrightarrow> map_ok n \<Longrightarrow> set m = set n \<Longrightarrow> m = n"
proof (induction m arbitrary: n)
  case (Cons e m)
  then obtain e' n' where n: "n = e' # n'" by (cases n) auto
  have "e \<in> set n" "e' \<in> set (e # m)" using Cons.prems n by auto
  with Cons.prems n have e: "e' = e" by fastforce
  have "e \<notin> set m" "e \<notin> set n'" using Cons.prems n e by fastforce+
  then have "set m = set n'" using Cons.prems(3) n e by auto
  then show ?case using Cons n e by simp
qed simp

lemma map_ok_ext:
  assumes "map_ok m" "map_ok n" "map_of m = map_of n"
  shows "m = n"
proof (rule map_ok_unique [OF assms(1,2)])
  have "map_of m k = Some v \<longleftrightarrow> (k, v) \<in> set m" "map_of n k = Some v \<longleftrightarrow> (k, v) \<in> set n" for k v
    using assms(1,2) by (simp_all add: map_ok_distinct)
  then show "set m = set n" using assms(3) by auto
qed

end
