(* ===== verification/Alter_Sequence.thy ===== *)
theory Alter_Sequence
  imports Ordered_Map
begin

text \<open>
  \<open>ReplicatedMergeTreeAltersSequence\<close>: the order in which a replica executes the two stages of its
  alters, and the steps of \<open>ReplicatedMergeTreeQueue\<close> that use it. The operations are those of a
  build without assertions; \<open>operator[]\<close> inserts a default state where the key is missing.
\<close>

section \<open>The sequence\<close>

record alter_state =
  metadata_finished :: bool
  data_finished :: bool

type_synonym alters = "(int, alter_state) ordered_map"

definition AlterState :: "bool \<Rightarrow> bool \<Rightarrow> alter_state" where
  "AlterState m d = \<lparr>metadata_finished = m, data_finished = d\<rparr>"

text \<open>The value that \<open>queue_state[alter_version]\<close> refers to.\<close>

definition state_at :: "alters \<Rightarrow> int \<Rightarrow> alter_state" where
  "state_at queue_state alter_version = (case map_of queue_state alter_version of None \<Rightarrow> AlterState False False | Some st \<Rightarrow> st)"

definition getHeadAlterVersion :: "alters \<Rightarrow> int" where
  "getHeadAlterVersion queue_state = (case queue_state of [] \<Rightarrow> - 1 | e # _ \<Rightarrow> fst e)"

definition addMutationForAlter :: "int \<Rightarrow> alters \<Rightarrow> alters" where
  "addMutationForAlter alter_version queue_state =
     (if map_of queue_state alter_version = None then map_put alter_version (AlterState True False) queue_state
      else map_put alter_version ((state_at queue_state alter_version)\<lparr>data_finished := False\<rparr>) queue_state)"

definition addMetadataAlter :: "int \<Rightarrow> alters \<Rightarrow> alters" where
  "addMetadataAlter alter_version queue_state =
     (if map_of queue_state alter_version = None then map_put alter_version (AlterState False True) queue_state
      else map_put alter_version ((state_at queue_state alter_version)\<lparr>metadata_finished := False\<rparr>) queue_state)"

definition finishMetadataAlter :: "int \<Rightarrow> alters \<Rightarrow> alters" where
  "finishMetadataAlter alter_version queue_state =
     (if data_finished (state_at queue_state alter_version) then map_erase alter_version queue_state
      else map_put alter_version ((state_at queue_state alter_version)\<lparr>metadata_finished := True\<rparr>) queue_state)"

definition finishDataAlter :: "int \<Rightarrow> alters \<Rightarrow> alters" where
  "finishDataAlter alter_version queue_state =
     (case queue_state of
        [] \<Rightarrow> queue_state
      | e # _ \<Rightarrow>
          if alter_version \<ge> fst e
          then if metadata_finished (state_at queue_state alter_version) then map_erase alter_version queue_state
               else map_put alter_version ((state_at queue_state alter_version)\<lparr>data_finished := True\<rparr>) queue_state
          else queue_state)"

definition canExecuteDataAlter :: "int \<Rightarrow> alters \<Rightarrow> bool result" where
  "canExecuteDataAlter alter_version queue_state =
     (case queue_state of
        [] \<Rightarrow> Inr True
      | e # _ \<Rightarrow>
          if alter_version < fst e then Inr True
          else (case map_of queue_state alter_version of
                  None \<Rightarrow> Inl STD_OUT_OF_RANGE
                | Some st \<Rightarrow> Inr (metadata_finished st)))"

definition canExecuteMetaAlter :: "int \<Rightarrow> alters \<Rightarrow> bool result" where
  "canExecuteMetaAlter alter_version queue_state =
     (case queue_state of [] \<Rightarrow> Inl UB | e # _ \<Rightarrow> Inr (fst e = alter_version))"

section \<open>What the sequence stands for\<close>

text \<open>
  The contract: the sequence holds the versions with a pending metadata stage and those with a pending
  data stage, each in the state these two sets give it.
\<close>

definition pending_state :: "int set \<Rightarrow> int set \<Rightarrow> int \<Rightarrow> alter_state option" where
  "pending_state metas datas v = (if v \<in> metas \<union> datas then Some (AlterState (v \<notin> metas) (v \<notin> datas)) else None)"

definition represents :: "alters \<Rightarrow> int set \<Rightarrow> int set \<Rightarrow> bool" where
  "represents queue_state metas datas \<longleftrightarrow> map_ok queue_state \<and> map_of queue_state = pending_state metas datas"

lemmas alter_defs = represents_def pending_state_def state_at_def AlterState_def

lemma represents_keys:
  assumes "represents q metas datas"
  shows "fst ` set q = metas \<union> datas"
proof -
  have "v \<in> fst ` set q \<longleftrightarrow> v \<in> metas \<union> datas" for v
    using assms map_of_not_None [of q v] by (auto simp: alter_defs split: if_splits)
  then show ?thesis by blast
qed

lemma represents_finite: "represents q metas datas \<Longrightarrow> finite metas \<and> finite datas"
  by (metis List.finite_set finite_Un finite_imageI represents_keys)

lemma represents_Nil_iff: "represents q metas datas \<Longrightarrow> q = [] \<longleftrightarrow> metas = {} \<and> datas = {}"
  using represents_keys [of q metas datas] by auto

lemma represents_empty [simp]: "represents [] {} {}"
  by (simp add: alter_defs fun_eq_iff)

lemma represents_head:
  assumes "represents q metas datas" "q \<noteq> []"
  shows "fst (hd q) = Min (metas \<union> datas)" "\<And>v. v \<in> metas \<union> datas \<Longrightarrow> fst (hd q) \<le> v"
  using assms map_ok_head_Min [of q] map_ok_head [of q] represents_keys [OF assms(1)] by (auto simp: represents_def)

text \<open>Each operation does to the sequence what the pending stages say.\<close>

lemma addMutationForAlter_represents:
  assumes "represents q metas datas"
  shows "represents (addMutationForAlter v q) metas (insert v datas)"
  using assms by (auto simp: addMutationForAlter_def alter_defs fun_eq_iff)

lemma addMetadataAlter_represents:
  assumes "represents q metas datas"
  shows "represents (addMetadataAlter v q) (insert v metas) datas"
  using assms by (auto simp: addMetadataAlter_def alter_defs fun_eq_iff)

lemma finishMetadataAlter_represents:
  assumes "represents q metas datas" "v \<in> metas \<union> datas"
  shows "represents (finishMetadataAlter v q) (metas - {v}) datas"
  using assms by (auto simp: finishMetadataAlter_def alter_defs fun_eq_iff)

lemma finishDataAlter_represents:
  assumes "represents q metas datas" "v \<in> metas \<union> datas \<or> (\<forall>u \<in> metas \<union> datas. v < u)"
  shows "represents (finishDataAlter v q) metas (datas - {v})"
proof (cases q)
  case Nil
  then show ?thesis using assms(1) represents_Nil_iff [OF assms(1)] by (simp add: finishDataAlter_def)
next
  case (Cons e q')
  note head = represents_head [OF assms(1), unfolded Cons, simplified]
  have "fst e \<in> metas \<union> datas" using represents_keys [OF assms(1)] Cons by auto
  then consider "v < fst e" "v \<notin> metas \<union> datas" | "fst e \<le> v" "v \<in> metas \<union> datas"
    using assms(2) head(2) by fastforce
  then show ?thesis
  proof cases
    case 1
    then show ?thesis using assms(1) by (simp add: finishDataAlter_def Cons)
  next
    case 2
    then show ?thesis using assms(1) unfolding Cons
      by (auto simp: finishDataAlter_def alter_defs fun_eq_iff)
  qed
qed

lemma canExecuteMetaAlter_iff:
  assumes "represents q metas datas" "metas \<union> datas \<noteq> {}"
  shows "canExecuteMetaAlter v q = Inr (v = Min (metas \<union> datas))"
  using assms represents_head(1) [OF assms(1)] represents_Nil_iff [OF assms(1)]
  by (cases q) (auto simp: canExecuteMetaAlter_def)

lemma canExecuteDataAlter_iff:
  assumes "represents q metas datas" "v \<in> metas \<union> datas \<or> (\<forall>u \<in> metas \<union> datas. v < u)"
  shows "canExecuteDataAlter v q = Inr (v \<notin> metas)"
proof (cases q)
  case Nil
  then show ?thesis using represents_Nil_iff [OF assms(1)] by (simp add: canExecuteDataAlter_def)
next
  case (Cons e q')
  note head = represents_head [OF assms(1), unfolded Cons, simplified]
  have e: "fst e \<in> metas \<union> datas" using represents_keys [OF assms(1)] Cons by auto
  show ?thesis
  proof (cases "v < fst e")
    case True
    then show ?thesis using head(2) by (force simp: canExecuteDataAlter_def Cons)
  next
    case False
    then have "v \<in> metas \<union> datas" using assms(2) e by auto
    then show ?thesis using assms(1) False by (simp add: canExecuteDataAlter_def Cons alter_defs)
  qed
qed

end
