(* ===== verification/Alter_Sequence_Steps.thy ===== *)
theory Alter_Sequence_Steps
  imports Alter_Sequence
begin

text \<open>
  The runs of the sequence of alters: the queue loads mutations, pulls and executes metadata entries in
  the order of the log, and finishes mutations. A run starts from an empty sequence, with the versions
  whose metadata entries were pulled before the start.
\<close>

record alter_run =
  alters_of :: alters
  pending_metas :: "int set"
  pending_datas :: "int set"
  pulled :: "int set"

definition pending :: "alter_run \<Rightarrow> int set" where
  "pending s = pending_metas s \<union> pending_datas s"

inductive alter_step :: "alter_run \<Rightarrow> alter_run \<Rightarrow> bool" where
  mutation_loaded:
    "alter_step s (s\<lparr>alters_of := addMutationForAlter v (alters_of s), pending_datas := insert v (pending_datas s)\<rparr>)"
| metadata_pulled:
    "(\<And>u. u \<in> pulled s \<Longrightarrow> u < v) \<Longrightarrow>
     alter_step s (s\<lparr>alters_of := addMetadataAlter v (alters_of s), pending_metas := insert v (pending_metas s),
       pulled := insert v (pulled s)\<rparr>)"
| metadata_done:
    "v \<in> pending_metas s \<Longrightarrow> canExecuteMetaAlter v (alters_of s) = Inr True \<Longrightarrow>
     alter_step s (s\<lparr>alters_of := finishMetadataAlter v (alters_of s), pending_metas := pending_metas s - {v}\<rparr>)"
| data_done:
    "v \<in> pending_datas s \<Longrightarrow>
     alter_step s (s\<lparr>alters_of := finishDataAlter v (alters_of s), pending_datas := pending_datas s - {v}\<rparr>)"
| data_done_again:
    "(\<And>u. u \<in> pending s \<Longrightarrow> v < u) \<Longrightarrow> alter_step s (s\<lparr>alters_of := finishDataAlter v (alters_of s)\<rparr>)"

definition initial_run :: "alter_run \<Rightarrow> bool" where
  "initial_run s \<longleftrightarrow> alters_of s = [] \<and> pending s = {}"

definition reachable_run :: "alter_run \<Rightarrow> bool" where
  "reachable_run s \<longleftrightarrow> (\<exists>s0. initial_run s0 \<and> alter_step\<^sup>*\<^sup>* s0 s)"

section \<open>The invariant of runs\<close>

text \<open>
  The sequence stands for the pending stages, and a pending metadata entry comes after every entry
  that is done.
\<close>

definition run_ok :: "alter_run \<Rightarrow> bool" where
  "run_ok s \<longleftrightarrow> represents (alters_of s) (pending_metas s) (pending_datas s)
     \<and> pending_metas s \<subseteq> pulled s \<and> (\<forall>u \<in> pending_metas s. \<forall>v \<in> pulled s - pending_metas s. v < u)"

lemma run_ok_initial: "initial_run s \<Longrightarrow> run_ok s"
  by (auto simp: run_ok_def initial_run_def pending_def)

lemma canExecuteMetaAlter_least:
  assumes "represents q metas datas" "canExecuteMetaAlter v q = Inr True" "u \<in> metas \<union> datas"
  shows "v \<in> metas \<union> datas \<and> v \<le> u"
proof -
  have "v = Min (metas \<union> datas)" using canExecuteMetaAlter_iff [OF assms(1), of v] assms(2,3) by auto
  moreover have "finite (metas \<union> datas)" using represents_finite [OF assms(1)] by simp
  ultimately show ?thesis using assms(3) by (metis Min_in Min_le empty_iff)
qed

lemma run_ok_step: "alter_step s s' \<Longrightarrow> run_ok s \<Longrightarrow> run_ok s'"
proof (induction rule: alter_step.induct)
  case (mutation_loaded s v)
  then show ?case by (simp add: run_ok_def addMutationForAlter_represents)
next
  case (metadata_pulled s v)
  then show ?case by (fastforce simp: run_ok_def addMetadataAlter_represents)
next
  case (metadata_done v s)
  then have rep: "represents (alters_of s) (pending_metas s) (pending_datas s)" by (simp add: run_ok_def)
  have "v < u" if "u \<in> pending_metas s" "u \<noteq> v" for u
    using canExecuteMetaAlter_least [OF rep metadata_done(2), of u] that by auto
  then show ?case using metadata_done by (auto simp: run_ok_def finishMetadataAlter_represents)
next
  case (data_done v s)
  then show ?case by (auto simp: run_ok_def finishDataAlter_represents)
next
  case (data_done_again s v)
  then have "represents (finishDataAlter v (alters_of s)) (pending_metas s) (pending_datas s - {v})"
    by (intro finishDataAlter_represents) (auto simp: run_ok_def pending_def)
  moreover have "pending_datas s - {v} = pending_datas s" using data_done_again(1) by (fastforce simp: pending_def)
  ultimately show ?case using data_done_again(2) by (simp add: run_ok_def)
qed

lemma reachable_run_ok: "reachable_run s \<Longrightarrow> run_ok s"
proof -
  assume "reachable_run s"
  then obtain s0 where s0: "initial_run s0" "alter_step\<^sup>*\<^sup>* s0 s" by (auto simp: reachable_run_def)
  from s0(2) show ?thesis
    by (induction rule: rtranclp_induct) (auto intro: run_ok_initial [OF s0(1)] run_ok_step)
qed

lemma reachable_represents: "reachable_run s \<Longrightarrow> represents (alters_of s) (pending_metas s) (pending_datas s)"
  using reachable_run_ok by (simp add: run_ok_def)

lemma reachable_run_step: "reachable_run s \<Longrightarrow> alter_step\<^sup>*\<^sup>* s s' \<Longrightarrow> reachable_run s'"
  unfolding reachable_run_def by (meson rtranclp_trans)

lemma head_pending:
  assumes "represents (alters_of s) (pending_metas s) (pending_datas s)" "pending s \<noteq> {}"
  shows "getHeadAlterVersion (alters_of s) \<in> pending s" "\<And>u. u \<in> pending s \<Longrightarrow> getHeadAlterVersion (alters_of s) \<le> u"
proof -
  have ne: "alters_of s \<noteq> []" using represents_Nil_iff [OF assms(1)] assms(2) by (auto simp: pending_def)
  then have hd: "getHeadAlterVersion (alters_of s) = fst (hd (alters_of s))"
    by (cases "alters_of s") (simp_all add: getHeadAlterVersion_def)
  show "getHeadAlterVersion (alters_of s) \<le> u" if "u \<in> pending s" for u
    using represents_head(2) [OF assms(1) ne] that by (simp add: hd pending_def)
  show "getHeadAlterVersion (alters_of s) \<in> pending s"
    unfolding hd pending_def represents_keys [OF assms(1), symmetric] using ne by (cases "alters_of s") auto
qed

section \<open>Alters one by one\<close>

text \<open>
  C19: The sequence of alters implements its contract: in every run it holds exactly the versions with a
  pending metadata or data stage, each with the flags these stages say, in ascending order, and its head
  is the least of them (-1 when nothing is pending).
\<close>
theorem alter_sequence_contract:
  assumes "reachable_run s"
  shows "map_ok (alters_of s)
    \<and> map_of (alters_of s) = pending_state (pending_metas s) (pending_datas s)
    \<and> getHeadAlterVersion (alters_of s) = (if pending s = {} then - 1 else Min (pending s))"
proof -
  note rep = reachable_represents [OF assms]
  have "finite (pending s)" using represents_finite [OF rep] by (simp add: pending_def)
  then have "getHeadAlterVersion (alters_of s) = (if pending s = {} then - 1 else Min (pending s))"
    using head_pending [OF rep] represents_Nil_iff [OF rep]
    by (auto simp: getHeadAlterVersion_def pending_def intro!: Min_eqI [symmetric])
  then show ?thesis using rep by (auto simp: represents_def)
qed

text \<open>
  C20: Alters are executed one by one. The metadata stage of an alter can be executed exactly when every
  alter with a smaller version is complete; its data stage exactly when its own metadata stage is done;
  and once its metadata entry was pulled, not before the metadata stages of all earlier alters. Neither
  check throws.
\<close>
theorem alters_one_by_one:
  assumes "reachable_run s"
  shows "(\<forall>v \<in> pending_metas s. canExecuteMetaAlter v (alters_of s) = Inr (\<forall>u \<in> pending s. v \<le> u))
    \<and> (\<forall>v \<in> pending_datas s. canExecuteDataAlter v (alters_of s) = Inr (v \<notin> pending_metas s))
    \<and> (\<forall>v \<in> pending_datas s \<inter> pulled s. canExecuteDataAlter v (alters_of s) = Inr True \<longrightarrow> (\<forall>u \<in> pending_metas s. v < u))"
proof -
  note rep = reachable_represents [OF assms]
  have fin: "finite (pending s)" using represents_finite [OF rep] by (simp add: pending_def)
  have metas: "canExecuteMetaAlter v (alters_of s) = Inr (\<forall>u \<in> pending s. v \<le> u)" if "v \<in> pending_metas s" for v
  proof -
    have v: "v \<in> pending s" using that by (simp add: pending_def)
    then have "v = Min (pending s) \<longleftrightarrow> (\<forall>u \<in> pending s. v \<le> u)"
      using fin by (metis Min_eqI Min_le)
    then show ?thesis using canExecuteMetaAlter_iff [OF rep, of v] v by (auto simp: pending_def)
  qed
  have datas: "canExecuteDataAlter v (alters_of s) = Inr (v \<notin> pending_metas s)" if "v \<in> pending_datas s" for v
    using canExecuteDataAlter_iff [OF rep, of v] that by simp
  have "\<forall>u \<in> pending_metas s. v < u" if "v \<in> pulled s" "v \<notin> pending_metas s" for v
    using reachable_run_ok [OF assms] that by (simp add: run_ok_def)
  then show ?thesis using metas datas by auto
qed

section \<open>Progress\<close>

text \<open>The queue executes the stage at the head.\<close>

definition execute_head :: "alter_run \<Rightarrow> alter_run" where
  "execute_head s =
     (let v = getHeadAlterVersion (alters_of s)
      in if v \<in> pending_metas s
         then s\<lparr>alters_of := finishMetadataAlter v (alters_of s), pending_metas := pending_metas s - {v}\<rparr>
         else s\<lparr>alters_of := finishDataAlter v (alters_of s), pending_datas := pending_datas s - {v}\<rparr>)"

definition stages_left :: "alter_run \<Rightarrow> nat" where
  "stages_left s = card (pending_metas s) + card (pending_datas s)"

lemma execute_head_step:
  assumes "reachable_run s" "pending s \<noteq> {}"
  shows "alter_step s (execute_head s)" "stages_left s = Suc (stages_left (execute_head s))"
proof -
  let ?v = "getHeadAlterVersion (alters_of s)"
  note rep = reachable_represents [OF assms(1)] and head = head_pending [OF reachable_represents [OF assms(1)] assms(2)]
  have fin: "finite (pending_metas s)" "finite (pending_datas s)" using represents_finite [OF rep] by simp_all
  have can: "canExecuteMetaAlter ?v (alters_of s) = Inr True"
    using canExecuteMetaAlter_iff [OF rep, of ?v] assms(2) head fin
    by (auto simp: pending_def intro!: Min_eqI [symmetric])
  show "alter_step s (execute_head s)"
    using head(1) can unfolding execute_head_def Let_def pending_def
    by (auto intro: metadata_done data_done)
  show "stages_left s = Suc (stages_left (execute_head s))"
    using head(1) card.remove [OF fin(1), of ?v] card.remove [OF fin(2), of ?v]
    by (cases "?v \<in> pending_metas s") (simp_all add: execute_head_def Let_def pending_def stages_left_def del: card_Diff_singleton)
qed

lemma execute_heads:
  "reachable_run s \<Longrightarrow> stages_left s = n \<Longrightarrow>
   alter_step\<^sup>*\<^sup>* s ((execute_head ^^ n) s) \<and> pending ((execute_head ^^ n) s) = {}"
proof (induction n arbitrary: s)
  case 0
  then show ?case using represents_finite [OF reachable_represents [OF 0(1)]]
    by (simp add: stages_left_def pending_def)
next
  case (Suc n)
  then have "pending s \<noteq> {}" by (auto simp: stages_left_def pending_def)
  note step = execute_head_step [OF Suc.prems(1) this]
  then have "reachable_run (execute_head s)" by (meson Suc.prems(1) r_into_rtranclp reachable_run_step)
  from Suc.IH [OF this] step Suc.prems(2)
  show ?case by (auto simp: funpow_Suc_right simp del: funpow.simps intro: converse_rtranclp_into_rtranclp)
qed

text \<open>
  C21: Alters do not block each other in the runs considered: data stages are finished while they are
  pending, or again when their version is below every pending one, and metadata entries are pulled in the
  order of their versions. Excluded is the data stage of a complete alter that is finished again while an
  earlier alter is at the head: it leaves an entry behind which blocks the alters after it. In these runs,
  while a stage is pending, the stage at the head of the sequence can be executed, its metadata stage
  first; and after executing the heads as many times as stages are pending, the sequence is empty.
\<close>
theorem alters_progress:
  assumes "reachable_run s"
  shows "(pending s \<noteq> {} \<longrightarrow>
      (let v = getHeadAlterVersion (alters_of s)
       in v \<in> pending_metas s \<and> canExecuteMetaAlter v (alters_of s) = Inr True
        \<or> v \<in> pending_datas s \<and> canExecuteDataAlter v (alters_of s) = Inr True))
    \<and> alters_of ((execute_head ^^ stages_left s) s) = []"
proof
  note run = execute_heads [OF assms refl]
  then have "represents (alters_of ((execute_head ^^ stages_left s) s)) {} {}"
    using reachable_represents [OF reachable_run_step [OF assms]] by (metis Un_empty pending_def)
  then show "alters_of ((execute_head ^^ stages_left s) s) = []" using represents_Nil_iff by blast
  note rep = reachable_represents [OF assms]
  show "pending s \<noteq> {} \<longrightarrow>
      (let v = getHeadAlterVersion (alters_of s)
       in v \<in> pending_metas s \<and> canExecuteMetaAlter v (alters_of s) = Inr True
        \<or> v \<in> pending_datas s \<and> canExecuteDataAlter v (alters_of s) = Inr True)"
  proof
    assume ne: "pending s \<noteq> {}"
    let ?v = "getHeadAlterVersion (alters_of s)"
    note head = head_pending [OF rep ne]
    have fin: "finite (pending s)" using represents_finite [OF rep] by (simp add: pending_def)
    have "?v = Min (pending s)" using head fin by (intro Min_eqI [symmetric]) auto
    then have "canExecuteMetaAlter ?v (alters_of s) = Inr True"
      using canExecuteMetaAlter_iff [OF rep, of ?v] ne by (simp add: pending_def)
    moreover have "canExecuteDataAlter ?v (alters_of s) = Inr (?v \<notin> pending_metas s)"
      using canExecuteDataAlter_iff [OF rep, of ?v] head(1) unfolding pending_def by blast
    ultimately show "let v = ?v in v \<in> pending_metas s \<and> canExecuteMetaAlter v (alters_of s) = Inr True
        \<or> v \<in> pending_datas s \<and> canExecuteDataAlter v (alters_of s) = Inr True"
      using head(1) by (auto simp: pending_def)
  qed
qed

section \<open>A mutation that finishes twice\<close>

text \<open>
  Once a version stands in the sequence with an unfinished metadata stage and without a metadata entry
  to come, it stays there: no later metadata stage is executed.
\<close>

definition blocked :: "int \<Rightarrow> alter_run \<Rightarrow> bool" where
  "blocked v s \<longleftrightarrow> v \<in> pulled s \<and> v \<notin> pending_metas s
     \<and> (\<exists>stale. v \<in> stale \<and> represents (alters_of s) (pending_metas s \<union> stale) (pending_datas s))"

lemma finishDataAlter_stale:
  assumes "represents q metas datas"
  shows "\<exists>stale. represents (finishDataAlter v q) (metas \<union> stale) (datas - {v})"
proof (cases "v \<in> metas \<union> datas \<or> (\<forall>u \<in> metas \<union> datas. v < u)")
  case True
  then have "represents (finishDataAlter v q) (metas \<union> {}) (datas - {v})"
    using finishDataAlter_represents [OF assms] by simp
  then show ?thesis ..
next
  case False
  then obtain u where u: "u \<in> metas \<union> datas" "u \<le> v" and v: "v \<notin> metas \<union> datas" by force
  then obtain e q' where q: "q = e # q'" using represents_keys [OF assms] by (cases q) auto
  have "fst e \<le> v" using represents_head(2) [OF assms, of u] u q by auto
  then have "represents (finishDataAlter v q) (metas \<union> {v}) (datas - {v})"
    using assms v unfolding q by (auto simp: finishDataAlter_def alter_defs fun_eq_iff)
  then show ?thesis ..
qed

lemma finishDataAlter_blocked:
  assumes "v \<in> stale" "represents (alters_of s) (pending_metas s \<union> stale) datas"
  shows "\<exists>stale. v \<in> stale \<and> represents (finishDataAlter x (alters_of s)) (pending_metas s \<union> stale) (datas - {x})"
proof -
  obtain more where "represents (finishDataAlter x (alters_of s)) (pending_metas s \<union> stale \<union> more) (datas - {x})"
    using finishDataAlter_stale [OF assms(2)] by blast
  then show ?thesis using assms(1) by (metis Un_assoc Un_iff)
qed

lemma blocked_step: "alter_step s s' \<Longrightarrow> blocked v s \<Longrightarrow> blocked v s'"
proof (induction rule: alter_step.induct)
  case (mutation_loaded s x)
  then show ?case using addMutationForAlter_represents by (fastforce simp: blocked_def)
next
  case (metadata_pulled s x)
  then have "x \<noteq> v" by (auto simp: blocked_def)
  then show ?case using metadata_pulled(2) addMetadataAlter_represents by (fastforce simp: blocked_def)
next
  case (metadata_done x s)
  then obtain stale where st: "v \<in> stale" "represents (alters_of s) (pending_metas s \<union> stale) (pending_datas s)" "x \<noteq> v"
    by (auto simp: blocked_def)
  have "represents (finishMetadataAlter x (alters_of s)) (pending_metas s \<union> stale - {x}) (pending_datas s)"
    using finishMetadataAlter_represents [OF st(2)] metadata_done(1) by blast
  then have "represents (finishMetadataAlter x (alters_of s)) (pending_metas s - {x} \<union> (stale - {x})) (pending_datas s)"
    by (simp add: Un_Diff)
  then have "\<exists>stale. v \<in> stale \<and> represents (finishMetadataAlter x (alters_of s)) (pending_metas s - {x} \<union> stale) (pending_datas s)"
    by (rule exI [of _ "stale - {x}", OF conjI, rotated]) (use st(1,3) in simp)
  then show ?case using metadata_done(3) by (simp add: blocked_def)
next
  case (data_done x s)
  then show ?case using finishDataAlter_blocked by (auto simp: blocked_def)
next
  case (data_done_again s x)
  then obtain stale where st: "v \<in> stale" "represents (alters_of s) (pending_metas s \<union> stale) (pending_datas s)"
    by (auto simp: blocked_def)
  from finishDataAlter_blocked [OF this, of x] obtain stale' where
    "v \<in> stale'" "represents (finishDataAlter x (alters_of s)) (pending_metas s \<union> stale') (pending_datas s - {x})" by blast
  moreover have "pending_datas s - {x} = pending_datas s" using data_done_again(1) by (fastforce simp: pending_def)
  ultimately show ?case using data_done_again(2) by (auto simp: blocked_def)
qed

lemma blocked_steps: "alter_step\<^sup>*\<^sup>* s s' \<Longrightarrow> blocked v s \<Longrightarrow> blocked v s'"
  by (induction rule: rtranclp_induct) (auto intro: blocked_step)

lemma blocked_refuses:
  assumes "blocked v s" "v < w"
  shows "canExecuteMetaAlter w (alters_of s) = Inr False"
proof -
  obtain stale where st: "v \<in> stale" "represents (alters_of s) (pending_metas s \<union> stale) (pending_datas s)"
    using assms(1) by (auto simp: blocked_def)
  then have "canExecuteMetaAlter w (alters_of s) = Inr (w = Min (pending_metas s \<union> stale \<union> pending_datas s))"
    by (intro canExecuteMetaAlter_iff) auto
  moreover have "Min (pending_metas s \<union> stale \<union> pending_datas s) \<le> v"
    using represents_finite [OF st(2)] st(1) by (intro Min_le) auto
  ultimately show ?thesis using assms(2) by auto
qed

text \<open>
  Finishing the data stage of an alter that is complete can stop all later alters. Where an earlier alter is
  still at the head, \<open>finishDataAlter\<close> of a version that is no longer in the sequence inserts
  it with an unfinished metadata stage; when its metadata entry was pulled before, nothing removes it, and
  in whatever way the run goes on, no metadata entry with a greater version can be executed.
\<close>
theorem finished_alter_blocks_later_alters:
  assumes "reachable_run s" "v \<notin> pending s" "u \<in> pending s" "u < v" "v \<in> pulled s"
    and "alter_step\<^sup>*\<^sup>* (s\<lparr>alters_of := finishDataAlter v (alters_of s)\<rparr>) s'" "v < w"
  shows "canExecuteMetaAlter w (alters_of s') = Inr False"
proof -
  note rep = reachable_represents [OF assms(1)]
  obtain e q' where q: "alters_of s = e # q'" using represents_keys [OF rep] assms(3) by (cases "alters_of s") (auto simp: pending_def)
  have "fst e \<le> v" using represents_head(2) [OF rep, of u] assms(3,4) q by (auto simp: pending_def)
  then have "represents (finishDataAlter v (alters_of s)) (pending_metas s \<union> {v}) (pending_datas s)"
    using rep assms(2) unfolding q pending_def by (auto simp: finishDataAlter_def alter_defs fun_eq_iff)
  then have "blocked v (s\<lparr>alters_of := finishDataAlter v (alters_of s)\<rparr>)"
    using assms(2,5) by (auto simp: blocked_def pending_def)
  from blocked_refuses [OF blocked_steps [OF assms(6) this] assms(7)] show ?thesis .
qed

section \<open>Examples\<close>

text \<open>
  A replica restarts after the metadata stages of the alters 1 and 2: both mutations are loaded, and the
  second finishes first.
\<close>

definition restarted :: alter_run where
  "restarted = \<lparr>alters_of = [], pending_metas = {}, pending_datas = {}, pulled = {1, 2}\<rparr>"

definition second_finished :: alter_run where
  "second_finished = \<lparr>alters_of = [(1, AlterState True False)], pending_metas = {}, pending_datas = {1}, pulled = {1, 2}\<rparr>"

lemma second_finished_reachable: "reachable_run second_finished"
proof -
  let ?s1 = "restarted\<lparr>alters_of := addMutationForAlter 1 (alters_of restarted), pending_datas := insert 1 (pending_datas restarted)\<rparr>"
  let ?s2 = "?s1\<lparr>alters_of := addMutationForAlter 2 (alters_of ?s1), pending_datas := insert 2 (pending_datas ?s1)\<rparr>"
  let ?s3 = "?s2\<lparr>alters_of := finishDataAlter 2 (alters_of ?s2), pending_datas := pending_datas ?s2 - {2}\<rparr>"
  have "alter_step restarted ?s1" "alter_step ?s1 ?s2" by (rule mutation_loaded)+
  moreover have "alter_step ?s2 ?s3" by (rule data_done) simp
  ultimately have "alter_step\<^sup>*\<^sup>* restarted ?s3" by (meson rtranclp.rtrancl_into_rtrancl r_into_rtranclp)
  moreover have "?s3 = second_finished"
    by (auto simp: second_finished_def restarted_def addMutationForAlter_def finishDataAlter_def state_at_def AlterState_def map_erase_def)
  moreover have "initial_run restarted" by (simp add: initial_run_def restarted_def pending_def)
  ultimately show ?thesis unfolding reachable_run_def by metis
qed

lemma metadata_entry_3:
  "alter_step\<^sup>*\<^sup>* s (s\<lparr>alters_of := addMetadataAlter v (alters_of s), pending_metas := insert v (pending_metas s),
     pulled := insert v (pulled s)\<rparr>)" if "\<forall>u \<in> pulled s. u < v"
  using metadata_pulled [of s v] that by blast

theorem finished_alter_blocks_later_alters_witness:
  "canExecuteMetaAlter 3 (addMetadataAlter 3 (finishDataAlter 2 [(1, AlterState True False)])) = Inr False"
proof -
  let ?s = "second_finished\<lparr>alters_of := finishDataAlter 2 (alters_of second_finished)\<rparr>"
  let ?s' = "?s\<lparr>alters_of := addMetadataAlter 3 (alters_of ?s), pending_metas := insert 3 (pending_metas ?s), pulled := insert 3 (pulled ?s)\<rparr>"
  have "alter_step\<^sup>*\<^sup>* ?s ?s'" by (rule metadata_entry_3) (simp add: second_finished_def)
  then have "canExecuteMetaAlter 3 (alters_of ?s') = Inr False"
    by (rule finished_alter_blocks_later_alters [OF second_finished_reachable, of 2 1, rotated 4])
      (simp_all add: second_finished_def pending_def)
  then show ?thesis by (simp add: second_finished_def)
qed

text \<open>Two alters in the queue: the first with both stages, the second with its metadata stage.\<close>

definition two_alters :: alter_run where
  "two_alters = second_finished\<lparr>alters_of := addMetadataAlter 3 (alters_of second_finished), pending_metas := {3}, pulled := {1, 2, 3}\<rparr>"

lemma two_alters_reachable: "reachable_run two_alters"
proof -
  have eq: "two_alters = second_finished\<lparr>alters_of := addMetadataAlter 3 (alters_of second_finished),
      pending_metas := insert 3 (pending_metas second_finished), pulled := insert 3 (pulled second_finished)\<rparr>"
    by (auto simp: two_alters_def second_finished_def)
  show ?thesis unfolding eq
    by (rule reachable_run_step [OF second_finished_reachable metadata_entry_3]) (simp add: second_finished_def)
qed

lemma two_alters_sets: "pending_metas two_alters = {3}" "pending_datas two_alters = {1}" "pending two_alters = {1, 3}"
  "pulled two_alters = {1, 2, 3}" "alters_of two_alters = [(1, AlterState True False), (3, AlterState False True)]"
  by (auto simp: two_alters_def second_finished_def pending_def addMetadataAlter_def)

theorem alter_sequence_contract_witness: "getHeadAlterVersion [(1, AlterState True False), (3, AlterState False True)] = 1"
  using alter_sequence_contract [OF two_alters_reachable] by (simp add: two_alters_sets)

theorem alters_one_by_one_witness:
  "canExecuteMetaAlter 3 [(1, AlterState True False), (3, AlterState False True)] = Inr False
   \<and> canExecuteDataAlter 1 [(1, AlterState True False), (3, AlterState False True)] = Inr True"
  using alters_one_by_one [OF two_alters_reachable] by (simp add: two_alters_sets)

theorem alters_progress_witness: "alters_of ((execute_head ^^ 2) two_alters) = []"
  using alters_progress [OF two_alters_reachable] by (simp add: two_alters_sets stages_left_def numeral_2_eq_2)

end
