(* ===== verification/Limited_Map.thy ===== *)
theory Limited_Map
  imports Prelude
begin

text \<open>
  \<open>LimitedOrderedHashMap\<close>: a hash table from strings that remembers the order of insertion in a
  linked list and drops the oldest element on overflow. A node of the list is a number, key and value; an
  iterator is the number of its node, and the index maps keys to iterators.
\<close>

section \<open>Operations\<close>

record 'v limited_map =
  lm_queue :: "(nat \<times> string \<times> 'v) list"
  lm_index :: "string \<Rightarrow> nat option"
  lm_max :: size_t
  lm_next :: nat

definition LimitedOrderedHashMap :: "size_t \<Rightarrow> 'v limited_map" where
  "LimitedOrderedHashMap max_size = \<lparr>lm_queue = [], lm_index = Map.empty, lm_max = max_size, lm_next = 0\<rparr>"

definition lm_contains :: "'v limited_map \<Rightarrow> string \<Rightarrow> bool" where
  "lm_contains m key \<longleftrightarrow> lm_index m key \<noteq> None"

definition lm_get :: "'v limited_map \<Rightarrow> string \<Rightarrow> 'v result" where
  "lm_get m key =
     (case lm_index m key of
        None \<Rightarrow> Inl STD_OUT_OF_RANGE
      | Some node \<Rightarrow> (case map_of (lm_queue m) node of None \<Rightarrow> Inl UB | Some e \<Rightarrow> Inr (snd e)))"

definition lm_size :: "'v limited_map \<Rightarrow> size_t" where
  "lm_size m = length (lm_queue m)"

definition pop_front :: "'v limited_map \<Rightarrow> 'v limited_map result" where
  "pop_front m =
     (case lm_queue m of
        [] \<Rightarrow> Inl UB
      | e # queue \<Rightarrow> Inr (m\<lparr>lm_queue := queue, lm_index := (lm_index m)(fst (snd e) := None)\<rparr>))"

fun pop_while :: "size_t \<Rightarrow> (nat \<times> string \<times> 'v) list \<Rightarrow> (string \<Rightarrow> nat option) \<Rightarrow> (nat \<times> string \<times> 'v) list \<times> (string \<Rightarrow> nat option)" where
  "pop_while max_size [] index = ([], index)"
| "pop_while max_size (e # queue) index =
     (if length (e # queue) > max_size then pop_while max_size queue (index(fst (snd e) := None)) else (e # queue, index))"

definition setMaxSize :: "size_t \<Rightarrow> 'v limited_map \<Rightarrow> 'v limited_map" where
  "setMaxSize max_size m =
     (let (queue, index) = pop_while max_size (lm_queue m) (lm_index m)
      in m\<lparr>lm_queue := queue, lm_index := index, lm_max := max_size\<rparr>)"

definition lm_erase :: "string \<Rightarrow> 'v limited_map \<Rightarrow> 'v limited_map \<times> bool" where
  "lm_erase key m =
     (case lm_index m key of
        None \<Rightarrow> (m, False)
      | Some node \<Rightarrow> (m\<lparr>lm_index := (lm_index m)(key := None), lm_queue := filter (\<lambda>e. fst e \<noteq> node) (lm_queue m)\<rparr>, True))"

definition lm_insert :: "string \<Rightarrow> 'v \<Rightarrow> 'v limited_map \<Rightarrow> ('v limited_map \<times> bool) result" where
  "lm_insert key v m =
     (if lm_index m key \<noteq> None then Inr (m, False)
      else bind_r (if lm_size m = lm_max m then pop_front m else Inr m) (\<lambda>m.
             Inr (m\<lparr>lm_queue := lm_queue m @ [(lm_next m, key, v)], lm_index := (lm_index m)(key \<mapsto> lm_next m),
                   lm_next := Suc (lm_next m)\<rparr>, True)))"

definition lm_clear :: "'v limited_map \<Rightarrow> 'v limited_map" where
  "lm_clear m = m\<lparr>lm_queue := [], lm_index := Map.empty\<rparr>"

section \<open>The table as a list of limited length\<close>

definition lm_list :: "'v limited_map \<Rightarrow> (string \<times> 'v) list" where
  "lm_list m = map snd (lm_queue m)"

definition lm_ok :: "'v limited_map \<Rightarrow> bool" where
  "lm_ok m \<longleftrightarrow> distinct (map fst (lm_queue m)) \<and> distinct (map fst (lm_list m))
     \<and> (\<forall>key node. lm_index m key = Some node \<longleftrightarrow> (\<exists>v. (node, key, v) \<in> set (lm_queue m)))
     \<and> (\<forall>e \<in> set (lm_queue m). fst e < lm_next m) \<and> length (lm_queue m) \<le> lm_max m"

definition limited_insert :: "size_t \<Rightarrow> string \<Rightarrow> 'v \<Rightarrow> (string \<times> 'v) list \<Rightarrow> (string \<times> 'v) list" where
  "limited_insert n key v q =
     (if key \<in> fst ` set q then q else (if length q = n then tl q else q) @ [(key, v)])"

definition limited_erase :: "string \<Rightarrow> (string \<times> 'v) list \<Rightarrow> (string \<times> 'v) list" where
  "limited_erase key q = filter (\<lambda>e. fst e \<noteq> key) q"

lemma lm_index_None_iff: "lm_ok m \<Longrightarrow> lm_index m key = None \<longleftrightarrow> key \<notin> fst ` set (lm_list m)"
proof -
  assume ok: "lm_ok m"
  have "lm_index m key \<noteq> None \<longleftrightarrow> (\<exists>node v. (node, key, v) \<in> set (lm_queue m))"
    using ok by (auto simp: lm_ok_def)
  also have "\<dots> \<longleftrightarrow> key \<in> fst ` set (lm_list m)" by (force simp: lm_list_def)
  finally show ?thesis by blast
qed

lemma lm_contains_iff: "lm_ok m \<Longrightarrow> lm_contains m key \<longleftrightarrow> key \<in> fst ` set (lm_list m)"
  by (simp add: lm_contains_def lm_index_None_iff del: not_None_eq)

lemma lm_get_eq:
  assumes "lm_ok m"
  shows "lm_get m key = (case map_of (lm_list m) key of None \<Rightarrow> Inl STD_OUT_OF_RANGE | Some v \<Rightarrow> Inr v)"
proof (cases "lm_index m key")
  case None
  then have "map_of (lm_list m) key = None" using lm_index_None_iff [OF assms] by (simp add: map_of_eq_None_iff)
  then show ?thesis using None by (simp add: lm_get_def)
next
  case (Some node)
  then obtain v where v: "(node, key, v) \<in> set (lm_queue m)" using assms by (auto simp: lm_ok_def)
  then have "map_of (lm_queue m) node = Some (key, v)" using assms by (simp add: lm_ok_def)
  moreover have "(key, v) \<in> set (lm_list m)" using v by (force simp: lm_list_def)
  then have "map_of (lm_list m) key = Some v" using assms by (simp add: lm_ok_def)
  ultimately show ?thesis using Some by (simp add: lm_get_def)
qed

lemma LimitedOrderedHashMap_ok [simp]: "lm_ok (LimitedOrderedHashMap n)" "lm_list (LimitedOrderedHashMap n) = []"
  "lm_max (LimitedOrderedHashMap n) = n"
  by (simp_all add: LimitedOrderedHashMap_def lm_ok_def lm_list_def)

lemma pop_front_ok:
  assumes "lm_ok m" "lm_queue m \<noteq> []"
  shows "\<exists>m'. pop_front m = Inr m' \<and> lm_ok m' \<and> lm_list m' = tl (lm_list m) \<and> lm_max m' = lm_max m
    \<and> length (lm_queue m') < lm_max m"
proof -
  obtain node k w queue where q: "lm_queue m = (node, k, w) # queue" using assms(2) by (cases "lm_queue m") auto
  let ?m = "m\<lparr>lm_queue := queue, lm_index := (lm_index m)(k := None)\<rparr>"
  have "lm_index ?m key = Some n \<longleftrightarrow> (\<exists>v. (n, key, v) \<in> set queue)" for key n
    using assms(1) q by (auto simp: lm_ok_def lm_list_def rev_image_eqI)
  then have "lm_ok ?m" using assms(1) q by (auto simp: lm_ok_def lm_list_def)
  then show ?thesis using q assms(1) by (auto simp: pop_front_def lm_list_def lm_ok_def)
qed

lemma lm_insert_ok:
  assumes "lm_ok m" "lm_max m \<noteq> 0"
  shows "\<exists>m'. lm_insert key v m = Inr (m', key \<notin> fst ` set (lm_list m)) \<and> lm_ok m'
    \<and> lm_list m' = limited_insert (lm_max m) key v (lm_list m) \<and> lm_max m' = lm_max m"
proof (cases "key \<in> fst ` set (lm_list m)")
  case True
  then show ?thesis using assms(1) lm_index_None_iff [OF assms(1), of key] by (auto simp: lm_insert_def limited_insert_def)
next
  case False
  define m1 where "m1 = (if lm_size m = lm_max m then pop_front m else Inr m)"
  have "\<exists>m'. m1 = Inr m' \<and> lm_ok m' \<and> lm_list m' = (if length (lm_list m) = lm_max m then tl (lm_list m) else lm_list m)
    \<and> lm_max m' = lm_max m \<and> length (lm_queue m') < lm_max m"
  proof (cases "lm_size m = lm_max m")
    case True
    then have "lm_queue m \<noteq> []" using assms(2) by (auto simp: lm_size_def)
    from pop_front_ok [OF assms(1) this] True show ?thesis by (auto simp: m1_def lm_size_def lm_list_def)
  next
    case False
    then show ?thesis using assms(1) by (auto simp: m1_def lm_size_def lm_list_def lm_ok_def)
  qed
  then obtain m' where m': "m1 = Inr m'" "lm_ok m'" "lm_max m' = lm_max m" "length (lm_queue m') < lm_max m"
    and l: "lm_list m' = (if length (lm_list m) = lm_max m then tl (lm_list m) else lm_list m)" by blast
  have new: "key \<notin> fst ` set (lm_list m')"
    using False unfolding l by (metis (mono_tags, lifting) image_iff list.set_sel(2) tl_Nil)
  let ?m = "m'\<lparr>lm_queue := lm_queue m' @ [(lm_next m', key, v)], lm_index := (lm_index m')(key \<mapsto> lm_next m'),
    lm_next := Suc (lm_next m')\<rparr>"
  have keys: "(n, key, w) \<notin> set (lm_queue m')" for n w using new by (force simp: lm_list_def)
  have "lm_index ?m k = Some n \<longleftrightarrow> (\<exists>w. (n, k, w) \<in> set (lm_queue ?m))" for k n
    using m'(2) keys by (auto simp: lm_ok_def)
  moreover have "distinct (map fst (lm_queue ?m))" "\<forall>e \<in> set (lm_queue ?m). fst e < lm_next ?m"
    using m'(2) by (fastforce simp: lm_ok_def)+
  moreover have "lm_list ?m = lm_list m' @ [(key, v)]" by (simp add: lm_list_def)
  then have "distinct (map fst (lm_list ?m))" using m'(2) new by (simp add: lm_ok_def)
  ultimately have "lm_ok ?m" using m'(3,4) by (simp add: lm_ok_def)
  moreover have "lm_index m key = None" using lm_index_None_iff [OF assms(1)] False by blast
  then have "lm_insert key v m = Inr (?m, True)" using m'(1) by (simp add: lm_insert_def m1_def)
  moreover have "lm_list ?m = limited_insert (lm_max m) key v (lm_list m)"
    using False l by (simp add: limited_insert_def lm_list_def)
  ultimately show ?thesis using False m'(3) by auto
qed

lemma lm_erase_ok:
  assumes "lm_ok m"
  shows "\<exists>m'. lm_erase key m = (m', key \<in> fst ` set (lm_list m)) \<and> lm_ok m'
    \<and> lm_list m' = limited_erase key (lm_list m) \<and> lm_max m' = lm_max m"
proof (cases "lm_index m key")
  case None
  then have "key \<notin> fst ` set (lm_list m)" using lm_index_None_iff [OF assms] by blast
  then show ?thesis using None assms by (auto simp: lm_erase_def limited_erase_def image_iff intro!: filter_True [symmetric])
next
  case (Some node)
  then obtain v where v: "(node, key, v) \<in> set (lm_queue m)" using assms by (auto simp: lm_ok_def)
  have node: "fst e = node \<longleftrightarrow> fst (snd e) = key" if "e \<in> set (lm_queue m)" for e
    using assms that v by (cases e) (metis (no_types, lifting) Some fst_conv lm_ok_def option.inject snd_conv map_of_eq_Some_iff)
  let ?m = "m\<lparr>lm_index := (lm_index m)(key := None), lm_queue := filter (\<lambda>e. fst e \<noteq> node) (lm_queue m)\<rparr>"
  have l: "lm_list ?m = limited_erase key (lm_list m)"
    unfolding lm_list_def limited_erase_def using node by (simp add: filter_map comp_def cong: filter_cong)
  have "lm_index ?m k = Some n \<longleftrightarrow> (\<exists>w. (n, k, w) \<in> set (lm_queue ?m))" for k n
  proof (cases "k = key")
    case True
    then show ?thesis using node by force
  next
    case False
    then have "n \<noteq> node" if "(n, k, w) \<in> set (lm_queue m)" for w using node [OF that] by simp
    then show ?thesis using assms False by (auto simp: lm_ok_def)
  qed
  moreover have "distinct (map fst (lm_queue ?m))" "distinct (map fst (lm_list ?m))"
    using assms unfolding l by (simp_all add: lm_ok_def limited_erase_def distinct_map_filter)
  moreover have "length (lm_queue ?m) \<le> lm_max m" using assms by (simp add: lm_ok_def) (meson length_filter_le le_trans)
  ultimately have "lm_ok ?m" using assms by (simp add: lm_ok_def)
  moreover have "key \<in> fst ` set (lm_list m)" using v by (force simp: lm_list_def)
  ultimately show ?thesis using Some l by (auto simp: lm_erase_def)
qed

lemma pop_while_eq:
  "pop_while n q idx = (drop (length q - n) q, \<lambda>key. if key \<in> fst ` snd ` set (take (length q - n) q) then None else idx key)"
proof (induction n q idx rule: pop_while.induct)
  case (2 n e q idx)
  show ?case
  proof (cases "length (e # q) > n")
    case True
    then have "length (e # q) - n = Suc (length q - n)" by (simp add: Suc_diff_le)
    then show ?thesis using True by (simp add: "2.IH" [OF True] fun_eq_iff del: fun_upd_apply) (simp add: fun_upd_def)
  qed simp
qed simp

lemma setMaxSize_ok:
  assumes "lm_ok m"
  shows "lm_ok (setMaxSize n m)" "lm_list (setMaxSize n m) = drop (length (lm_list m) - n) (lm_list m)"
    "lm_max (setMaxSize n m) = n"
proof -
  let ?k = "length (lm_queue m) - n"
  let ?idx = "\<lambda>key. if key \<in> fst ` snd ` set (take ?k (lm_queue m)) then None else lm_index m key"
  have eq: "setMaxSize n m = m\<lparr>lm_queue := drop ?k (lm_queue m), lm_index := ?idx, lm_max := n\<rparr>"
    by (simp add: setMaxSize_def pop_while_eq)
  have list: "lm_list m = map snd (take ?k (lm_queue m)) @ map snd (drop ?k (lm_queue m))"
    unfolding lm_list_def map_append [symmetric] by simp
  have dist: "distinct (map fst (map snd (take ?k (lm_queue m)) @ map snd (drop ?k (lm_queue m))))"
    using assms unfolding list [symmetric] by (simp add: lm_ok_def)
  have "?idx key = Some node \<longleftrightarrow> (\<exists>v. (node, key, v) \<in> set (drop ?k (lm_queue m)))" for key node
  proof -
    have split: "set (lm_queue m) = set (take ?k (lm_queue m)) \<union> set (drop ?k (lm_queue m))"
      by (metis append_take_drop_id set_append)
    have "lm_index m key = Some node \<longleftrightarrow> (\<exists>v. (node, key, v) \<in> set (lm_queue m))"
      using assms by (simp add: lm_ok_def)
    moreover have "key \<notin> fst ` snd ` set (take ?k (lm_queue m))" if "(node, key, v) \<in> set (drop ?k (lm_queue m))" for v
      using dist that by (force simp: image_image)
    ultimately show ?thesis unfolding split by (force simp: image_iff)
  qed
  moreover have "distinct (map fst (drop ?k (lm_queue m)))"
    using assms by (simp add: lm_ok_def flip: drop_map)
  ultimately show "lm_ok (setMaxSize n m)"
    using assms dist unfolding eq by (auto simp: lm_ok_def lm_list_def dest: in_set_dropD)
  show "lm_list (setMaxSize n m) = drop (length (lm_list m) - n) (lm_list m)" "lm_max (setMaxSize n m) = n"
    by (simp_all add: eq lm_list_def drop_map)
qed

end
