(* ===== verification/Dedup_Log.thy ===== *)
theory Dedup_Log
  imports Limited_Map Ordered_Map Log_Entry
begin

text \<open>
  \<open>MergeTreeDeduplicationLog\<close>: the block ids of the last inserted parts, in memory and in log
  files on a disk. The disk, the number formats and the reader of plain strings are outside the repository:
  they are the fields of \<open>disk_ops\<close> and \<open>dedup_env\<close>. A file holds what was written
  to it, since every record is flushed. Operations return their result or exception with the new state.
\<close>

section \<open>Records\<close>

record 'd disk_ops =
  existsDirectory :: "'d \<Rightarrow> string \<Rightarrow> bool"
  is_object_storage :: "'d \<Rightarrow> bool"
  is_plain_metadata :: "'d \<Rightarrow> bool"
  supportWritingWithAppend :: "'d \<Rightarrow> bool"
  createDirectories :: "string \<Rightarrow> 'd \<Rightarrow> 'd result"
  iterateDirectory :: "'d \<Rightarrow> string \<Rightarrow> string list"
  readFile :: "'d \<Rightarrow> string \<Rightarrow> string result"
  open_rewrite :: "string \<Rightarrow> 'd \<Rightarrow> 'd result"
  open_append :: "string \<Rightarrow> 'd \<Rightarrow> 'd result"
  write_next :: "string \<Rightarrow> string \<Rightarrow> 'd \<Rightarrow> 'd result"
  removeFile :: "string \<Rightarrow> 'd \<Rightarrow> 'd result"

record 'd dedup_env =
  de_io :: text_io
  de_version :: format_version
  de_disk :: "'d disk_ops"
  op_text :: "nat codec"
  field_text :: "string codec"
  parse_size :: "string \<Rightarrow> size_t result"

definition OP_ADD :: nat where "OP_ADD = 1"
definition OP_DROP :: nat where "OP_DROP = 2"

record log_record =
  operation :: nat
  rec_part_name :: string
  rec_block_id :: string

definition TAB :: char where "TAB = CHR 0x09"
definition LF :: char where "LF = CHR 0x0A"

definition writeRecord :: "'d dedup_env \<Rightarrow> log_record \<Rightarrow> string" where
  "writeRecord env r =
     put_value (op_text env) (operation r) @ [TAB] @ put_value (field_text env) (rec_part_name r) @ [TAB]
     @ put_value (field_text env) (rec_block_id r) @ [LF]"

definition assertChar :: "char \<Rightarrow> string \<Rightarrow> string result" where
  "assertChar c inp = (case inp of [] \<Rightarrow> Inl CANNOT_PARSE | d # ds \<Rightarrow> if d = c then Inr ds else Inl CANNOT_PARSE)"

definition readRecord :: "'d dedup_env \<Rightarrow> string \<Rightarrow> (log_record \<times> string) result" where
  "readRecord env inp =
     bind_r (get_value (op_text env) inp) (\<lambda>(op, inp).
     bind_r (assertChar TAB inp) (\<lambda>inp.
     bind_r (get_value (field_text env) inp) (\<lambda>(part_name, inp).
     bind_r (assertChar TAB inp) (\<lambda>inp.
     bind_r (get_value (field_text env) inp) (\<lambda>(block_id, inp).
     bind_r (assertChar LF inp) (\<lambda>inp.
       Inr (\<lparr>operation = op, rec_part_name = part_name, rec_block_id = block_id\<rparr>, inp)))))))"

section \<open>Names of log files\<close>

text \<open>\<open>std::filesystem::path\<close>: \<open>/=\<close> of a relative name, and the stem of the last component.\<close>

definition path_append :: "string \<Rightarrow> string \<Rightarrow> string" where
  "path_append prefix name = (if prefix = [] \<or> last prefix = CHR ''/'' then prefix @ name else prefix @ ''/'' @ name)"

definition path_filename :: "string \<Rightarrow> string" where
  "path_filename p = rev (takeWhile (\<lambda>c. c \<noteq> CHR ''/'') (rev p))"

definition path_stem :: "string \<Rightarrow> string" where
  "path_stem p =
     (let name = path_filename p; stem = rev (dropWhile (\<lambda>c. c \<noteq> CHR ''.'') (rev name))
      in if name = ''.'' \<or> name = ''..'' \<or> stem = [] \<or> stem = ''.'' then name else butlast stem)"

fun split_on :: "char \<Rightarrow> string \<Rightarrow> string list" where
  "split_on c [] = [[]]"
| "split_on c (d # ds) =
     (if d = c then [] # split_on c ds
      else (case split_on c ds of [] \<Rightarrow> [[d]] | w # ws \<Rightarrow> (d # w) # ws))"

definition getLogPath :: "string \<Rightarrow> size_t \<Rightarrow> string" where
  "getLogPath prefix number = path_append prefix (''deduplication_log_'' @ dec_of_nat number @ ''.txt'')"

definition getLogNumber :: "'d dedup_env \<Rightarrow> string \<Rightarrow> size_t result" where
  "getLogNumber env path_str =
     (let filename_parts = split_on CHR ''_'' (path_stem path_str)
      in if 2 < length filename_parts then parse_size env (filename_parts ! 2) else Inl UB)"

section \<open>The log\<close>

record log_description =
  log_path :: string
  entries_count :: size_t

record 'd dedup_log =
  logs_dir :: string
  deduplication_window :: size_t
  rotate_interval :: size_t
  current_log_number :: size_t
  existing_logs :: "(size_t, log_description) ordered_map"
  deduplication_map :: "part_info limited_map"
  current_writer :: "string option"
  log_disk :: 'd
  stopped :: bool

text \<open>Operations that may throw keep the state they reached.\<close>

type_synonym ('d, 'a) log_op = "'d dedup_log \<Rightarrow> 'a result \<times> 'd dedup_log"

definition return_op :: "'a \<Rightarrow> ('d, 'a) log_op" where
  "return_op a st = (Inr a, st)"

definition throw_op :: "error \<Rightarrow> ('d, 'a) log_op" where
  "throw_op e st = (Inl e, st)"

definition bind_op :: "('d, 'a) log_op \<Rightarrow> ('a \<Rightarrow> ('d, 'b) log_op) \<Rightarrow> ('d, 'b) log_op" where
  "bind_op f g st = (case f st of (Inl e, st) \<Rightarrow> (Inl e, st) | (Inr a, st) \<Rightarrow> g a st)"

definition on_disk :: "('d \<Rightarrow> 'd result) \<Rightarrow> ('d, unit) log_op" where
  "on_disk f st = (case f (log_disk st) of Inl e \<Rightarrow> (Inl e, st) | Inr d \<Rightarrow> (Inr (), st\<lparr>log_disk := d\<rparr>))"

text \<open>\<open>existing_logs[n]\<close>: a missing description is inserted.\<close>

definition log_at :: "'d dedup_log \<Rightarrow> size_t \<Rightarrow> log_description" where
  "log_at st n = (case map_of (existing_logs st) n of None \<Rightarrow> \<lparr>log_path = [], entries_count = 0\<rparr> | Some desc \<Rightarrow> desc)"

definition touch_log :: "size_t \<Rightarrow> 'd dedup_log \<Rightarrow> 'd dedup_log" where
  "touch_log n st = st\<lparr>existing_logs := map_put n (log_at st n) (existing_logs st)\<rparr>"

definition new_dedup_log :: "'d dedup_env \<Rightarrow> string \<Rightarrow> size_t \<Rightarrow> 'd \<Rightarrow> 'd dedup_log result" where
  "new_dedup_log env dir window d =
     bind_r (if window \<noteq> 0 \<and> \<not> existsDirectory (de_disk env) d dir then createDirectories (de_disk env) dir d else Inr d) (\<lambda>d.
       Inr \<lparr>logs_dir = dir, deduplication_window = window, rotate_interval = mul64 window 2, current_log_number = 0,
            existing_logs = [], deduplication_map = LimitedOrderedHashMap window, current_writer = None,
            log_disk = d, stopped = False\<rparr>)"

section \<open>Rotation\<close>

text \<open>The writer of the previous log is finalized before; that is taken to succeed.\<close>

definition rotate_log :: "'d dedup_env \<Rightarrow> ('d, unit) log_op" where
  "rotate_log env st =
     (if deduplication_window st = 0 then (Inr (), st)
      else let n = add64 (current_log_number st) 1; new_path = getLogPath (logs_dir st) n;
               logs = (if map_of (existing_logs st) n = None
                       then map_put n \<lparr>log_path = new_path, entries_count = 0\<rparr> (existing_logs st) else existing_logs st)
           in bind_op (on_disk (open_rewrite (de_disk env) new_path)) (\<lambda>_ st. (Inr (), st\<lparr>current_writer := Some new_path\<rparr>))
                (st\<lparr>current_log_number := n, existing_logs := logs\<rparr>))"

text \<open>The number of the newest log that is not needed for the window, from the newest log on.\<close>

fun remove_from :: "size_t \<Rightarrow> size_t \<Rightarrow> (size_t \<times> log_description) list \<Rightarrow> size_t" where
  "remove_from window current_sum [] = 0"
| "remove_from window current_sum (e # logs) =
     (if current_sum > window then fst e
      else remove_from window (add64 current_sum (entries_count (snd e))) logs)"

fun remove_logs :: "'d dedup_env \<Rightarrow> size_t \<Rightarrow> (size_t \<times> log_description) list \<Rightarrow> ('d, unit) log_op" where
  "remove_logs env last_number [] st = (Inr (), st)"
| "remove_logs env last_number (e # logs) st =
     bind_op (on_disk (removeFile (de_disk env) (log_path (snd e)))) (\<lambda>_ st.
       let st = st\<lparr>existing_logs := map_erase (fst e) (existing_logs st)\<rparr>
       in if fst e = last_number then (Inr (), st) else remove_logs env last_number logs st) st"

definition dropOutdatedLogs :: "'d dedup_env \<Rightarrow> ('d, unit) log_op" where
  "dropOutdatedLogs env st =
     (let n = remove_from (deduplication_window st) 0 (rev (existing_logs st))
      in if n \<noteq> 0 then remove_logs env n (existing_logs st) st else (Inr (), st))"

definition rotateAndDropIfNeeded :: "'d dedup_env \<Rightarrow> ('d, unit) log_op" where
  "rotateAndDropIfNeeded env st =
     (let rotate_and_drop = bind_op (rotate_log env) (\<lambda>_. dropOutdatedLogs env)
      in if existing_logs st = [] then rotate_and_drop st
         else let n = current_log_number st; st = touch_log n st
              in if entries_count (log_at st n) \<ge> rotate_interval st
                   \<or> \<not> supportWritingWithAppend (de_disk env) (log_disk st)
                 then rotate_and_drop st else (Inr (), st))"

section \<open>Adding and dropping parts\<close>

text \<open>A record is written to the current log and counted.\<close>

definition append_record :: "'d dedup_env \<Rightarrow> log_record \<Rightarrow> ('d, unit) log_op" where
  "append_record env r st =
     (case current_writer st of
        None \<Rightarrow> (Inl UB, st)
      | Some p \<Rightarrow>
          bind_op (on_disk (write_next (de_disk env) p (writeRecord env r))) (\<lambda>_ st.
            let n = current_log_number st; desc = log_at st n
            in (Inr (), st\<lparr>existing_logs := map_put n (desc\<lparr>entries_count := add64 (entries_count desc) 1\<rparr>) (existing_logs st)\<rparr>)) st)"

type_synonym add_part_result = "part_info \<times> string"

fun find_duplicates :: "part_info limited_map \<Rightarrow> string list \<Rightarrow> add_part_result list result" where
  "find_duplicates m [] = Inr []"
| "find_duplicates m (block_id # ids) =
     (if lm_contains m block_id
      then bind_r (lm_get m block_id) (\<lambda>info. bind_r (find_duplicates m ids) (\<lambda>rs. Inr ((info, block_id) # rs)))
      else find_duplicates m ids)"

fun add_block_ids :: "'d dedup_env \<Rightarrow> part_info \<Rightarrow> string list \<Rightarrow> ('d, unit) log_op" where
  "add_block_ids env info [] st = (Inr (), st)"
| "add_block_ids env info (block_id # ids) st =
     (case getPartNameAndCheckFormat (de_io env) info (de_version env) of
        Inl e \<Rightarrow> (Inl e, st)
      | Inr name \<Rightarrow>
          bind_op (append_record env \<lparr>operation = OP_ADD, rec_part_name = name, rec_block_id = block_id\<rparr>) (\<lambda>_ st.
            case lm_insert block_id info (deduplication_map st) of
              Inl e \<Rightarrow> (Inl e, st)
            | Inr (m, _) \<Rightarrow> add_block_ids env info ids (st\<lparr>deduplication_map := m\<rparr>)) st)"

definition addPart :: "'d dedup_env \<Rightarrow> string list \<Rightarrow> part_info \<Rightarrow> ('d, add_part_result list) log_op" where
  "addPart env block_ids info st =
     (if deduplication_window st = 0 then (Inr [], st)
      else case find_duplicates (deduplication_map st) block_ids of
        Inl e \<Rightarrow> (Inl e, st)
      | Inr (r # rs) \<Rightarrow> (Inr (r # rs), st)
      | Inr [] \<Rightarrow>
          if stopped st then (Inl ABORTED, st)
          else bind_op (add_block_ids env info block_ids) (\<lambda>_.
                 bind_op (rotateAndDropIfNeeded env) (\<lambda>_. return_op [])) st)"

fun drop_covered :: "'d dedup_env \<Rightarrow> part_info \<Rightarrow> (nat \<times> string \<times> part_info) list \<Rightarrow> ('d, unit) log_op" where
  "drop_covered env drop_info [] st = (Inr (), st)"
| "drop_covered env drop_info ((node, key, info) # rest) st =
     (if contains drop_info info
      then (case getPartNameAndCheckFormat (de_io env) info (de_version env) of
              Inl e \<Rightarrow> (Inl e, st)
            | Inr name \<Rightarrow>
                bind_op (append_record env \<lparr>operation = OP_DROP, rec_part_name = name, rec_block_id = key\<rparr>) (\<lambda>_ st.
                bind_op (rotateAndDropIfNeeded env) (\<lambda>_.
                  drop_covered env drop_info rest)
                  (st\<lparr>deduplication_map := fst (lm_erase key (deduplication_map st))\<rparr>)) st)
      else drop_covered env drop_info rest st)"

definition dropPart :: "'d dedup_env \<Rightarrow> part_info \<Rightarrow> ('d, unit) log_op" where
  "dropPart env drop_info st =
     (if deduplication_window st = 0 then (Inr (), st)
      else if stopped st then (Inl ABORTED, st)
      else drop_covered env drop_info (lm_queue (deduplication_map st)) st)"

text \<open>The last log is opened again where no log was started.\<close>

definition reopen_last :: "'d dedup_env \<Rightarrow> ('d, unit) log_op" where
  "reopen_last env st =
     (if current_writer st = None
      then if existing_logs st = [] then (Inl UB, st)
           else let p = log_path (snd (last (existing_logs st)))
                in bind_op (on_disk (open_append (de_disk env) p)) (\<lambda>_ st. (Inr (), st\<lparr>current_writer := Some p\<rparr>)) st
      else (Inr (), st))"

definition setDeduplicationWindowSize :: "'d dedup_env \<Rightarrow> size_t \<Rightarrow> ('d, unit) log_op" where
  "setDeduplicationWindowSize env window st =
     (if stopped st then (Inr (), st)
      else bind_op (\<lambda>st. if window \<noteq> 0 \<and> \<not> existsDirectory (de_disk env) (log_disk st) (logs_dir st)
                         then on_disk (createDirectories (de_disk env) (logs_dir st)) st else (Inr (), st)) (\<lambda>_ st.
           bind_op (rotateAndDropIfNeeded env) (\<lambda>_. reopen_last env)
             (st\<lparr>deduplication_map := setMaxSize window (deduplication_map st)\<rparr>))
           (st\<lparr>deduplication_window := window, rotate_interval := mul64 window 2\<rparr>))"

definition shutdown_log :: "'d dedup_log \<Rightarrow> 'd dedup_log" where
  "shutdown_log st = (if stopped st then st else st\<lparr>stopped := True, current_writer := None\<rparr>)"

section \<open>Loading\<close>

definition load_record :: "'d dedup_env \<Rightarrow> log_record \<Rightarrow> part_info limited_map \<Rightarrow> part_info limited_map result" where
  "load_record env r m =
     (if operation r = OP_DROP then Inr (fst (lm_erase (rec_block_id r) m))
      else bind_r (fromPartName (de_io env) (rec_part_name r) (de_version env)) (\<lambda>info.
           bind_r (lm_insert (rec_block_id r) info m) (\<lambda>(m, _). Inr m)))"

text \<open>Records are read until the end of the file; the records before an exception stay in the table.\<close>

partial_function (option) load_records ::
  "'d dedup_env \<Rightarrow> string \<Rightarrow> part_info limited_map \<Rightarrow> size_t \<Rightarrow> (size_t result \<times> part_info limited_map) option" where
  "load_records env inp m total_entries =
     (if inp = [] then Some (Inr total_entries, m)
      else case readRecord env inp of
        Inl e \<Rightarrow> Some (Inl e, m)
      | Inr (r, inp) \<Rightarrow>
          (case load_record env r m of
             Inl e \<Rightarrow> Some (Inl e, m)
           | Inr m \<Rightarrow> load_records env inp m (add64 total_entries 1)))"

declare load_records.simps [code]

definition loadSingleLog ::
  "'d dedup_env \<Rightarrow> 'd \<Rightarrow> string \<Rightarrow> part_info limited_map \<Rightarrow> (size_t result \<times> part_info limited_map) option" where
  "loadSingleLog env d p m =
     (case readFile (de_disk env) d p of Inl e \<Rightarrow> Some (Inl e, m) | Inr inp \<Rightarrow> load_records env inp m 0)"

fun load_logs ::
  "'d dedup_env \<Rightarrow> 'd \<Rightarrow> (size_t \<times> log_description) list \<Rightarrow> part_info limited_map
     \<Rightarrow> ((size_t \<times> log_description) list \<times> part_info limited_map) option" where
  "load_logs env d [] m = Some ([], m)"
| "load_logs env d ((n, desc) # logs) m =
     Option.bind (loadSingleLog env d (log_path desc) m) (\<lambda>(res, m).
     Option.bind (load_logs env d logs m) (\<lambda>(logs, m).
       Some ((n, case res of Inl _ \<Rightarrow> desc | Inr c \<Rightarrow> desc\<lparr>entries_count := c\<rparr>) # logs, m)))"

fun scan_logs ::
  "'d dedup_env \<Rightarrow> string list \<Rightarrow> (size_t, log_description) ordered_map
     \<Rightarrow> unit result \<times> (size_t, log_description) ordered_map" where
  "scan_logs env [] logs = (Inr (), logs)"
| "scan_logs env (p # paths) logs =
     (case getLogNumber env p of
        Inl e \<Rightarrow> (Inl e, logs)
      | Inr n \<Rightarrow> scan_logs env paths (map_put n \<lparr>log_path = p, entries_count = 0\<rparr> logs))"

definition load_log :: "'d dedup_env \<Rightarrow> 'd dedup_log \<Rightarrow> (unit result \<times> 'd dedup_log) option" where
  "load_log env st =
     (let ops = de_disk env; d = log_disk st
      in if \<not> existsDirectory ops d (logs_dir st) \<and> is_object_storage ops d \<and> \<not> is_plain_metadata ops d
         then Some (Inr (), st)
         else case scan_logs env (iterateDirectory ops d (logs_dir st)) (existing_logs st) of
           (Inl e, logs) \<Rightarrow> Some (Inl e, st\<lparr>existing_logs := logs\<rparr>)
         | (Inr _, logs) \<Rightarrow>
             let st = st\<lparr>existing_logs := logs,
                         current_log_number := (if logs \<noteq> [] then fst (last logs) else current_log_number st)\<rparr>
             in if deduplication_window st = 0 then Some (Inr (), st)
                else Option.bind (load_logs env d logs (deduplication_map st)) (\<lambda>(logs, m).
                       Some (bind_op (rotateAndDropIfNeeded env) (\<lambda>_. reopen_last env)
                         (st\<lparr>existing_logs := logs, deduplication_map := m\<rparr>))))"

end
