(* ===== verification/Dedup_Log_Replay.thy ===== *)
theory Dedup_Log_Replay
  imports Dedup_Log "HOL-Library.Sublist"
begin

text \<open>
  What the records of the deduplication log mean: the assumptions on the disk and the formats, the round
  trip of records and of the names of log files, and the replay of the records of the last logs.
\<close>

section \<open>Assumptions on the disk and the formats\<close>

text \<open>
  \<open>files d\<close> is the content of the files of the disk \<open>d\<close>. Opening for rewriting
  makes a file empty, opening for appending keeps it, writing appends, and a directory lists the paths of
  its files.
\<close>

definition in_dir :: "string \<Rightarrow> string \<Rightarrow> bool" where
  "in_dir dir p \<longleftrightarrow> (\<exists>name. CHR ''/'' \<notin> set name \<and> p = path_append dir name)"

definition disk_ok :: "'d disk_ops \<Rightarrow> ('d \<Rightarrow> string \<Rightarrow> string option) \<Rightarrow> bool" where
  "disk_ok ops files \<longleftrightarrow>
     (\<forall>d p s. files d p = Some s \<longrightarrow> readFile ops d p = Inr s)
     \<and> (\<forall>p d d'. open_rewrite ops p d = Inr d' \<longrightarrow> files d' = (files d)(p \<mapsto> []))
     \<and> (\<forall>p d d'. open_append ops p d = Inr d' \<and> files d p \<noteq> None \<longrightarrow> files d' = files d)
     \<and> (\<forall>p s t d d'. write_next ops p s d = Inr d' \<and> files d p = Some t \<longrightarrow> files d' = (files d)(p \<mapsto> t @ s))
     \<and> (\<forall>p d d'. removeFile ops p d = Inr d' \<longrightarrow> files d' = (files d)(p := None))
     \<and> (\<forall>p d d'. createDirectories ops p d = Inr d' \<longrightarrow> files d' = files d \<and> existsDirectory ops d' p)
     \<and> (\<forall>d dir. distinct (iterateDirectory ops d dir) \<and> set (iterateDirectory ops d dir) = {p \<in> dom (files d). in_dir dir p})
     \<and> (\<forall>d dir. (\<exists>p \<in> dom (files d). in_dir dir p) \<longrightarrow> existsDirectory ops d dir)"

definition plain_field :: "string \<Rightarrow> bool" where
  "plain_field s \<longleftrightarrow> TAB \<notin> set s \<and> LF \<notin> set s"

definition dedup_env_ok :: "'d dedup_env \<Rightarrow> ('d \<Rightarrow> string \<Rightarrow> string option) \<Rightarrow> bool" where
  "dedup_env_ok env files \<longleftrightarrow>
     disk_ok (de_disk env) files \<and> text_io_ok (de_io env) \<and> de_version env = MIN_FORMAT_VERSION_WITH_CUSTOM_PARTITIONING
     \<and> (\<forall>n rest. n < 256 \<longrightarrow> get_value (op_text env) (put_value (op_text env) n @ TAB # rest) = Inr (n, TAB # rest))
     \<and> (\<forall>s c rest. plain_field s \<and> c \<in> {TAB, LF}
          \<longrightarrow> get_value (field_text env) (put_value (field_text env) s @ c # rest) = Inr (s, c # rest))
     \<and> (\<forall>n < size_max. parse_size env (dec_of_nat n) = Inr n)"

lemma dedup_env_okD:
  assumes "dedup_env_ok env files"
  shows "disk_ok (de_disk env) files" "text_io_ok (de_io env)" "de_version env = 1"
    "\<And>n. n < size_max \<Longrightarrow> parse_size env (dec_of_nat n) = Inr n"
  using assms by (simp_all add: dedup_env_ok_def MIN_FORMAT_VERSION_WITH_CUSTOM_PARTITIONING_def)

lemma disk_okD:
  assumes "dedup_env_ok env files"
  shows "files d p = Some s \<Longrightarrow> readFile (de_disk env) d p = Inr s"
    "open_rewrite (de_disk env) p d = Inr d' \<Longrightarrow> files d' = (files d)(p \<mapsto> [])"
    "open_append (de_disk env) p d = Inr d' \<Longrightarrow> files d p \<noteq> None \<Longrightarrow> files d' = files d"
    "write_next (de_disk env) p s d = Inr d' \<Longrightarrow> files d p = Some t \<Longrightarrow> files d' = (files d)(p \<mapsto> t @ s)"
    "removeFile (de_disk env) p d = Inr d' \<Longrightarrow> files d' = (files d)(p := None)"
    "createDirectories (de_disk env) p d = Inr d' \<Longrightarrow> files d' = files d \<and> existsDirectory (de_disk env) d' p"
    "distinct (iterateDirectory (de_disk env) d dir)"
    "set (iterateDirectory (de_disk env) d dir) = {p \<in> dom (files d). in_dir dir p}"
    "p \<in> dom (files d) \<Longrightarrow> in_dir dir p \<Longrightarrow> existsDirectory (de_disk env) d dir"
proof -
  note laws = assms [unfolded dedup_env_ok_def disk_ok_def, THEN conjunct1]
  show "files d p = Some s \<Longrightarrow> readFile (de_disk env) d p = Inr s"
    using laws [THEN conjunct1] by iprover
  note laws = laws [THEN conjunct2]
  show "open_rewrite (de_disk env) p d = Inr d' \<Longrightarrow> files d' = (files d)(p \<mapsto> [])"
    using laws [THEN conjunct1] by iprover
  note laws = laws [THEN conjunct2]
  show "open_append (de_disk env) p d = Inr d' \<Longrightarrow> files d p \<noteq> None \<Longrightarrow> files d' = files d"
    using laws [THEN conjunct1] by iprover
  note laws = laws [THEN conjunct2]
  show "write_next (de_disk env) p s d = Inr d' \<Longrightarrow> files d p = Some t \<Longrightarrow> files d' = (files d)(p \<mapsto> t @ s)"
    using laws [THEN conjunct1] by iprover
  note laws = laws [THEN conjunct2]
  show "removeFile (de_disk env) p d = Inr d' \<Longrightarrow> files d' = (files d)(p := None)"
    using laws [THEN conjunct1] by iprover
  note laws = laws [THEN conjunct2]
  show "createDirectories (de_disk env) p d = Inr d' \<Longrightarrow> files d' = files d \<and> existsDirectory (de_disk env) d' p"
    using laws [THEN conjunct1] by iprover
  note laws = laws [THEN conjunct2]
  show "distinct (iterateDirectory (de_disk env) d dir)"
    "set (iterateDirectory (de_disk env) d dir) = {p \<in> dom (files d). in_dir dir p}"
    using laws [THEN conjunct1] by iprover+
  show "p \<in> dom (files d) \<Longrightarrow> in_dir dir p \<Longrightarrow> existsDirectory (de_disk env) d dir"
    using laws [THEN conjunct2] by blast
qed

section \<open>Records\<close>

definition writable_record :: "log_record \<Rightarrow> bool" where
  "writable_record r \<longleftrightarrow> operation r < 256 \<and> plain_field (rec_part_name r) \<and> plain_field (rec_block_id r)"

lemma record_read_back:
  assumes "dedup_env_ok env files" "writable_record r"
  shows "readRecord env (writeRecord env r @ rest) = Inr (r, rest)"
proof -
  have op: "get_value (op_text env) (put_value (op_text env) (operation r) @ TAB # xs) = Inr (operation r, TAB # xs)" for xs
    using assms by (simp add: dedup_env_ok_def writable_record_def)
  have field: "get_value (field_text env) (put_value (field_text env) s @ c # xs) = Inr (s, c # xs)"
    if "plain_field s" "c = TAB \<or> c = LF" for s c xs
    using assms(1) that by (auto simp: dedup_env_ok_def)
  show ?thesis
    using assms(2) by (simp add: readRecord_def writeRecord_def op field writable_record_def assertChar_def)
qed

lemma writeRecord_not_Nil: "writeRecord env r \<noteq> []"
  by (simp add: writeRecord_def)

section \<open>Names of logs\<close>

lemma split_on_append:
  "c \<notin> set w \<Longrightarrow> split_on c (w @ c # s) = w # split_on c s"
  by (induction w) auto

lemma split_on_word: "c \<notin> set w \<Longrightarrow> split_on c w = [w]"
  by (induction w) auto

lemma dec_of_nat_plain:
  "c \<notin> set (dec_of_nat n)" if "\<not> is_digit c"
  using dec_of_nat_digits that by blast

lemma path_filename_append: "CHR ''/'' \<notin> set name \<Longrightarrow> path_filename (path_append dir name) = name"
proof -
  assume name: "CHR ''/'' \<notin> set name"
  have eq: "path_filename (p @ name) = name" if "p = [] \<or> last p = CHR ''/''" for p
  proof -
    have "takeWhile (\<lambda>c. c \<noteq> CHR ''/'') (rev name @ rev p) = rev name @ takeWhile (\<lambda>c. c \<noteq> CHR ''/'') (rev p)"
      by (rule takeWhile_append2) (use name in auto)
    moreover have "takeWhile (\<lambda>c. c \<noteq> CHR ''/'') (rev p) = []" using that by (cases p rule: rev_cases) auto
    ultimately show ?thesis by (simp add: path_filename_def)
  qed
  show ?thesis
    using eq [of dir] eq [of "dir @ ''/''"] by (simp add: path_append_def)
qed

definition log_name :: "size_t \<Rightarrow> string" where
  "log_name n = ''deduplication_log_'' @ dec_of_nat n @ ''.txt''"

lemma log_name_plain: "CHR ''/'' \<notin> set (log_name n)"
  using dec_of_nat_plain [of "CHR ''/''" n] by (simp add: log_name_def is_digit_def)

lemma getLogPath_eq: "getLogPath dir n = path_append dir (log_name n)"
  by (simp add: getLogPath_def log_name_def)

lemma path_stem_log: "path_stem (getLogPath dir n) = ''deduplication_log_'' @ dec_of_nat n"
proof -
  have stem: "dropWhile (\<lambda>c. c \<noteq> CHR ''.'') (rev (log_name n)) = CHR ''.'' # rev (''deduplication_log_'' @ dec_of_nat n)"
    by (simp add: log_name_def)
  show ?thesis
    unfolding path_stem_def getLogPath_eq path_filename_append [OF log_name_plain] Let_def stem
    by (simp add: log_name_def)
qed

lemma getLogNumber_path:
  assumes "dedup_env_ok env files" "n < size_max"
  shows "getLogNumber env (getLogPath dir n) = Inr n"
proof -
  have digits: "CHR ''_'' \<notin> set (dec_of_nat n)" using dec_of_nat_plain [of "CHR ''_''" n] by (simp add: is_digit_def)
  have "split_on CHR ''_'' (''deduplication_log_'' @ dec_of_nat n) = [''deduplication'', ''log'', dec_of_nat n]"
    using split_on_append [of "CHR ''_''" "''deduplication''" "''log_'' @ dec_of_nat n"]
      split_on_append [of "CHR ''_''" "''log''" "dec_of_nat n"] split_on_word [OF digits] by simp
  then show ?thesis using dedup_env_okD(4) [OF assms(1,2)] by (simp add: getLogNumber_def path_stem_log)
qed

lemma getLogPath_inj:
  assumes "dedup_env_ok env files" "n < size_max" "m < size_max" "getLogPath dir n = getLogPath dir m"
  shows "n = m"
  using getLogNumber_path [OF assms(1,2)] getLogNumber_path [OF assms(1,3)] assms(4) by (metis Inr_inject)

lemma in_dir_log: "in_dir dir (getLogPath dir n)"
  unfolding in_dir_def getLogPath_eq using log_name_plain by blast

section \<open>Replay\<close>

definition record_info :: "'d dedup_env \<Rightarrow> log_record \<Rightarrow> part_info" where
  "record_info env r = projr (fromPartName (de_io env) (rec_part_name r) (de_version env))"

definition apply_record :: "'d dedup_env \<Rightarrow> size_t \<Rightarrow> log_record \<Rightarrow> (string \<times> part_info) list \<Rightarrow> (string \<times> part_info) list" where
  "apply_record env n r q =
     (if operation r = OP_DROP then limited_erase (rec_block_id r) q
      else limited_insert n (rec_block_id r) (record_info env r) q)"

definition replay :: "'d dedup_env \<Rightarrow> size_t \<Rightarrow> log_record list \<Rightarrow> (string \<times> part_info) list \<Rightarrow> (string \<times> part_info) list" where
  "replay env n rs q = fold (apply_record env n) rs q"

definition good_record :: "'d dedup_env \<Rightarrow> log_record \<Rightarrow> bool" where
  "good_record env r \<longleftrightarrow> writable_record r \<and> (operation r \<noteq> OP_DROP \<longrightarrow>
     fromPartName (de_io env) (rec_part_name r) (de_version env) = Inr (record_info env r))"

lemma replay_simps [simp]: "replay env n [] q = q" "replay env n [r] q = apply_record env n r q"
  "replay env n (rs @ rs') q = replay env n rs' (replay env n rs q)"
  by (simp_all add: replay_def)

definition records_text :: "'d dedup_env \<Rightarrow> log_record list \<Rightarrow> string" where
  "records_text env rs = concat (map (writeRecord env) rs)"

lemma load_record_ok:
  assumes "lm_ok m" "lm_max m \<noteq> 0" "good_record env r"
  shows "\<exists>m'. load_record env r m = Inr m' \<and> lm_ok m' \<and> lm_max m' = lm_max m
    \<and> lm_list m' = apply_record env (lm_max m) r (lm_list m)"
proof (cases "operation r = OP_DROP")
  case True
  then show ?thesis using lm_erase_ok [OF assms(1), of "rec_block_id r"]
    by (auto simp: load_record_def apply_record_def)
next
  case False
  then show ?thesis using lm_insert_ok [OF assms(1,2), of "rec_block_id r" "record_info env r"] assms(3)
    by (auto simp: load_record_def apply_record_def good_record_def)
qed

lemma load_records_ok:
  assumes env: "dedup_env_ok env files"
  shows "lm_ok m \<Longrightarrow> lm_max m \<noteq> 0 \<Longrightarrow> list_all (good_record env) rs \<Longrightarrow> c + length rs < size_max \<Longrightarrow>
    \<exists>m'. load_records env (records_text env rs) m c = Some (Inr (c + length rs), m') \<and> lm_ok m' \<and> lm_max m' = lm_max m
      \<and> lm_list m' = replay env (lm_max m) rs (lm_list m)"
proof (induction rs arbitrary: m c)
  case Nil
  then show ?case by (auto simp: records_text_def load_records.simps [of _ "[]"])
next
  case (Cons r rs)
  then obtain m1 where m1: "load_record env r m = Inr m1" "lm_ok m1" "lm_max m1 = lm_max m"
    "lm_list m1 = apply_record env (lm_max m) r (lm_list m)"
    using load_record_ok [of m env r] by auto
  have read: "readRecord env (records_text env (r # rs)) = Inr (r, records_text env rs)"
    using record_read_back [OF env] Cons.prems(3) by (simp add: records_text_def good_record_def)
  have ne: "records_text env (r # rs) \<noteq> []" by (simp add: records_text_def writeRecord_not_Nil)
  have "add64 c 1 = Suc c" using Cons.prems(4) by (simp add: add64_exact)
  then have "load_records env (records_text env (r # rs)) m c = load_records env (records_text env rs) m1 (Suc c)"
    using read ne m1(1) by (subst load_records.simps) simp
  then show ?case using Cons.IH [of m1 "Suc c"] Cons.prems m1 by (auto simp: replay_def)
qed

section \<open>The logs that are kept\<close>

text \<open>
  The table is compared with the replays of the last logs, from all kept logs down to the newest one:
  each is the end of the previous one, and what is missing holds none of the keys \<open>ids\<close>.
\<close>

fun chained :: "'d dedup_env \<Rightarrow> size_t \<Rightarrow> string set \<Rightarrow> (string \<times> part_info) list \<Rightarrow> log_record list list \<Rightarrow> bool" where
  "chained env n ids q [] = True"
| "chained env n ids q (rs # rss) =
     (\<exists>old. q = old @ replay env n (concat (rs # rss)) [] \<and> fst ` set old \<inter> ids = {}
        \<and> chained env n ids (replay env n (concat (rs # rss)) []) rss)"

lemma limited_insert_suffix:
  assumes "q = old @ p" "key \<notin> fst ` set old" "length q \<le> n"
  shows "\<exists>old'. limited_insert n key v q = old' @ limited_insert n key v p \<and> set old' \<subseteq> set old"
proof (cases "key \<in> fst ` set p")
  case True
  then show ?thesis using assms by (auto simp: limited_insert_def intro!: exI [of _ old])
next
  case False
  then have new: "key \<notin> fst ` set q" using assms by auto
  show ?thesis
  proof (cases old)
    case Nil
    then show ?thesis using assms(1) by (auto intro!: exI [of _ "[]"])
  next
    case (Cons e old')
    then have "length p < n" using assms(1,3) by simp
    then show ?thesis using Cons assms(1) new False
      by (cases "length q = n")
         (auto simp: limited_insert_def intro: exI [of _ old'] exI [of _ old])
  qed
qed

lemma limited_erase_suffix:
  assumes "q = old @ p"
  shows "\<exists>old'. limited_erase key q = old' @ limited_erase key p \<and> set old' \<subseteq> set old"
  using assms by (auto simp: limited_erase_def intro!: exI [of _ "filter (\<lambda>e. fst e \<noteq> key) old"])

lemma apply_record_suffix:
  assumes "q = old @ p" "operation r \<noteq> OP_DROP \<Longrightarrow> rec_block_id r \<notin> fst ` set old" "length q \<le> n"
  shows "\<exists>old'. apply_record env n r q = old' @ apply_record env n r p \<and> set old' \<subseteq> set old"
  using assms limited_insert_suffix [OF assms(1) _ assms(3)] limited_erase_suffix [OF assms(1)]
  by (cases "operation r = OP_DROP") (simp_all add: apply_record_def)

lemma limited_insert_length: "length q \<le> n \<Longrightarrow> n \<noteq> 0 \<Longrightarrow> length (limited_insert n key v q) \<le> n"
  by (cases "length q = n") (auto simp: limited_insert_def)

lemma apply_record_length: "length q \<le> n \<Longrightarrow> n \<noteq> 0 \<Longrightarrow> length (apply_record env n r q) \<le> n"
  unfolding apply_record_def limited_erase_def using limited_insert_length
  by (auto intro: le_trans [OF length_filter_le])

text \<open>A record at the end of the newest log.\<close>

lemma chained_append:
  assumes "operation r \<noteq> OP_DROP \<Longrightarrow> rec_block_id r \<in> ids" "n \<noteq> 0"
  shows "chained env n ids q (rss @ [rs]) \<Longrightarrow> length q \<le> n \<Longrightarrow>
    chained env n ids (apply_record env n r q) (rss @ [rs @ [r]])"
proof (induction rss arbitrary: q)
  case Nil
  then obtain old where old: "q = old @ replay env n rs []" "fst ` set old \<inter> ids = {}" by auto
  then have "operation r \<noteq> OP_DROP \<Longrightarrow> rec_block_id r \<notin> fst ` set old" using assms(1) by blast
  from apply_record_suffix [OF old(1) this Nil(2)] obtain old' where
    old': "apply_record env n r q = old' @ apply_record env n r (replay env n rs [])" "set old' \<subseteq> set old" by blast
  have "fst ` set old' \<inter> ids = {}" using old(2) old'(2) by blast
  then show ?case using old'(1) by auto
next
  case (Cons l rss)
  let ?p = "replay env n (concat (l # rss @ [rs])) []"
  obtain old where old: "q = old @ ?p" "fst ` set old \<inter> ids = {}" "chained env n ids ?p (rss @ [rs])"
    using Cons.prems(1) by auto
  then have "operation r \<noteq> OP_DROP \<Longrightarrow> rec_block_id r \<notin> fst ` set old" using assms(1) by blast
  from apply_record_suffix [OF old(1) this Cons.prems(2)] obtain old' where
    old': "apply_record env n r q = old' @ apply_record env n r ?p" "set old' \<subseteq> set old" by blast
  have "length ?p \<le> n" using old(1) Cons.prems(2) by simp
  from Cons.IH [OF old(3) this] have "chained env n ids (apply_record env n r ?p) (rss @ [rs @ [r]])" .
  moreover have "fst ` set old' \<inter> ids = {}" using old(2) old'(2) by blast
  ultimately show ?case using old'(1) by auto
qed

lemma chained_new_log: "chained env n {} q rss \<Longrightarrow> chained env n {} q (rss @ [[]])"
  by (induction rss arbitrary: q) auto

lemma chained_drop: "chained env n ids q (rss @ rss') \<Longrightarrow> chained env n ids q rss'"
proof (induction rss arbitrary: q)
  case (Cons rs rss)
  then obtain old p where p: "q = old @ p" "fst ` set old \<inter> ids = {}" "chained env n ids p rss'" by auto
  show ?case
  proof (cases rss')
    case (Cons a list)
    then show ?thesis using p by (force simp: image_Un)
  qed simp
qed simp

lemma chained_ids: "chained env n {} q rss \<Longrightarrow> fst ` set q \<inter> ids = {} \<Longrightarrow> chained env n ids q rss"
proof (induction rss arbitrary: q)
  case (Cons rs rss)
  then obtain old p where p: "q = old @ p" "p = replay env n (concat (rs # rss)) []" "chained env n {} p rss" by auto
  then have "chained env n ids p rss" using Cons.IH Cons.prems(2) by (auto simp: image_Un)
  then show ?case using p Cons.prems(2) by (force simp: image_Un)
qed simp

lemma chained_weaken: "chained env n ids q rss \<Longrightarrow> chained env n {} q rss"
  by (induction rss arbitrary: q) auto

lemma chained_reload:
  "chained env n ids q rss \<Longrightarrow> chained env n ids (replay env n (concat rss) []) rss \<and> (\<exists>old. q = old @ replay env n (concat rss) [])"
  by (cases rss) auto

text \<open>
  Without records of drops the replay of the last logs holds as many elements as there are records,
  up to the size of the window.
\<close>

definition no_drops :: "log_record list \<Rightarrow> bool" where
  "no_drops rs \<longleftrightarrow> list_all (\<lambda>r. operation r \<noteq> OP_DROP) rs"

fun tight :: "'d dedup_env \<Rightarrow> size_t \<Rightarrow> log_record list list \<Rightarrow> bool" where
  "tight env n [] = True"
| "tight env n (rs # rss) =
     ((no_drops (concat (rs # rss)) \<longrightarrow> length (replay env n (concat (rs # rss)) []) = min n (length (concat (rs # rss))))
      \<and> tight env n rss)"

lemma tight_append:
  assumes "operation r \<noteq> OP_DROP \<Longrightarrow> rec_block_id r \<notin> fst ` set q" "n \<noteq> 0"
  shows "tight env n (rss @ [rs]) \<Longrightarrow> chained env n ids q (rss @ [rs]) \<Longrightarrow> tight env n (rss @ [rs @ [r]])"
  using assms(1)
proof (induction rss arbitrary: q)
  case Nil
  then have "operation r \<noteq> OP_DROP \<Longrightarrow> rec_block_id r \<notin> fst ` set (replay env n rs [])" by auto
  then show ?case using Nil.prems(1) assms(2)
    by (cases "length (replay env n rs []) = n") (auto simp: no_drops_def apply_record_def limited_insert_def)
next
  case (Cons l rss)
  let ?p = "replay env n (concat (l # rss @ [rs])) []"
  obtain old where old: "q = old @ ?p" "chained env n ids ?p (rss @ [rs])" using Cons.prems(2) by auto
  then have new: "operation r \<noteq> OP_DROP \<Longrightarrow> rec_block_id r \<notin> fst ` set ?p" using Cons.prems(3) by auto
  have "tight env n (rss @ [rs @ [r]])" using Cons.IH [OF _ old(2) new] Cons.prems(1) by simp
  moreover have "length (apply_record env n r ?p) = min n (Suc (length (concat (l # rss @ [rs]))))"
    if "no_drops (concat (l # rss @ [rs @ [r]]))"
  proof -
    have "length ?p = min n (length (concat (l # rss @ [rs])))" "operation r \<noteq> OP_DROP"
      using that Cons.prems(1) by (simp_all add: no_drops_def)
    then show ?thesis using new assms(2)
      by (cases "length ?p = n") (auto simp: apply_record_def limited_insert_def)
  qed
  ultimately show ?case by simp
qed

lemma tight_new_log: "tight env n rss \<Longrightarrow> tight env n (rss @ [[]])"
  by (induction rss) auto

lemma tight_drop: "tight env n (rss @ rss') \<Longrightarrow> tight env n rss'"
  by (induction rss) auto

end
