(* ===== verification/Dedup_Log_Disk.thy ===== *)
theory Dedup_Log_Disk
  imports Dedup_Log_Replay
begin

text \<open>
  The logs on the disk: the invariant that ties the descriptions of the logs to the files, and what
  writing a record, rotating and dropping outdated logs do to it.
\<close>

section \<open>Maps whose last key is known\<close>

lemma map_put_last: "map_ok (m @ [(k, d)]) \<Longrightarrow> map_put k v (m @ [(k, d)]) = m @ [(k, v)]"
  by (induction m) auto

lemma map_put_greater: "map_ok m \<Longrightarrow> (\<And>k'. k' \<in> fst ` set m \<Longrightarrow> k' < k) \<Longrightarrow> map_put k v m = m @ [(k, v)]"
  by (induction m) force+

lemma map_put_same: "map_ok m \<Longrightarrow> map_of m k = Some v \<Longrightarrow> map_put k v m = m"
  by (rule map_ok_ext) auto

lemma map_erase_first: "map_ok (e # m) \<Longrightarrow> map_erase (fst e) (e # m) = m"
  by (auto simp: map_erase_def intro!: filter_True)

lemma map_ok_append:
  "map_ok (m @ m') \<longleftrightarrow> map_ok m \<and> map_ok m' \<and> (\<forall>a \<in> fst ` set m. \<forall>b \<in> fst ` set m'. a < b)"
  by (auto simp: map_ok_def sorted_wrt_append)

section \<open>The invariant of the logs\<close>

definition log_ok ::
  "'d dedup_env \<Rightarrow> ('d \<Rightarrow> string \<Rightarrow> string option) \<Rightarrow> 'd dedup_log \<Rightarrow> (size_t \<Rightarrow> log_record list) \<Rightarrow> size_t \<Rightarrow> bool" where
  "log_ok env files st recs n \<longleftrightarrow>
     files (log_disk st) (getLogPath (logs_dir st) n) = Some (records_text env (recs n))
     \<and> list_all (good_record env) (recs n) \<and> length (recs n) + deduplication_window st < size_max \<and> 0 < n \<and> n < size_max"

definition log_entry_of :: "'d dedup_log \<Rightarrow> (size_t \<Rightarrow> log_record list) \<Rightarrow> size_t \<Rightarrow> size_t \<times> log_description" where
  "log_entry_of st recs n = (n, \<lparr>log_path = getLogPath (logs_dir st) n, entries_count = length (recs n)\<rparr>)"

definition log_keys :: "'d dedup_log \<Rightarrow> size_t list" where
  "log_keys st = map fst (existing_logs st)"

definition logs_inv ::
  "'d dedup_env \<Rightarrow> ('d \<Rightarrow> string \<Rightarrow> string option) \<Rightarrow> 'd dedup_log \<Rightarrow> (size_t \<Rightarrow> log_record list) \<Rightarrow> bool" where
  "logs_inv env files st recs \<longleftrightarrow>
     deduplication_window st \<noteq> 0 \<and> rotate_interval st = 2 * deduplication_window st
     \<and> sorted_wrt (<) (log_keys st) \<and> existing_logs st = map (log_entry_of st recs) (log_keys st)
     \<and> (\<forall>n \<in> set (log_keys st). log_ok env files st recs n)
     \<and> current_log_number st = (if log_keys st = [] then 0 else last (log_keys st))
     \<and> (\<forall>p \<in> dom (files (log_disk st)). in_dir (logs_dir st) p \<longrightarrow> p \<in> getLogPath (logs_dir st) ` set (log_keys st))"

definition kept :: "'d dedup_log \<Rightarrow> (size_t \<Rightarrow> log_record list) \<Rightarrow> log_record list list" where
  "kept st recs = map recs (log_keys st)"

lemma logs_inv_map_ok: "logs_inv env files st recs \<Longrightarrow> map_ok (existing_logs st)"
  by (simp add: logs_inv_def map_ok_def log_keys_def)

lemma log_keys_eq: "existing_logs st = map (log_entry_of st' recs) ks \<Longrightarrow> log_keys st = ks"
  by (simp add: log_keys_def comp_def log_entry_of_def)

lemma bind_op_Inr:
  "bind_op f g st = (Inr b, st') \<longleftrightarrow> (\<exists>a st1. f st = (Inr a, st1) \<and> g a st1 = (Inr b, st'))"
  by (cases "f st"; cases "fst (f st)") (auto simp: bind_op_def)

lemma on_disk_Inr: "on_disk f st = (Inr u, st') \<longleftrightarrow> (\<exists>d. f (log_disk st) = Inr d \<and> st' = st\<lparr>log_disk := d\<rparr>)"
  by (auto simp: on_disk_def split: sum.splits)

lemma getLogPath_eq_iff:
  "dedup_env_ok env files \<Longrightarrow> n < size_max \<Longrightarrow> m < size_max \<Longrightarrow> getLogPath dir n = getLogPath dir m \<longleftrightarrow> n = m"
  using getLogPath_inj by blast

lemma logs_invI:
  assumes "existing_logs st = map (log_entry_of st recs) ks" "deduplication_window st \<noteq> 0"
    "rotate_interval st = 2 * deduplication_window st" "sorted_wrt (<) ks" "\<And>n. n \<in> set ks \<Longrightarrow> log_ok env files st recs n"
    "current_log_number st = (if ks = [] then 0 else last ks)"
    "\<And>p. p \<in> dom (files (log_disk st)) \<Longrightarrow> in_dir (logs_dir st) p \<Longrightarrow> p \<in> getLogPath (logs_dir st) ` set ks"
  shows "logs_inv env files st recs"
  using assms log_keys_eq [OF assms(1)] unfolding logs_inv_def by blast

lemma logs_invD:
  assumes "logs_inv env files st recs"
  shows "deduplication_window st \<noteq> 0" "rotate_interval st = 2 * deduplication_window st" "sorted_wrt (<) (log_keys st)"
    "existing_logs st = map (log_entry_of st recs) (log_keys st)"
    "\<And>n. n \<in> set (log_keys st) \<Longrightarrow> log_ok env files st recs n"
    "current_log_number st = (if log_keys st = [] then 0 else last (log_keys st))"
    "\<And>p. p \<in> dom (files (log_disk st)) \<Longrightarrow> in_dir (logs_dir st) p \<Longrightarrow> p \<in> getLogPath (logs_dir st) ` set (log_keys st)"
  using assms by (simp_all add: logs_inv_def)

lemma le_last: "sorted_wrt (<) (ks :: nat list) \<Longrightarrow> k \<in> set ks \<Longrightarrow> k \<le> last ks"
  by (cases ks rule: rev_cases) (auto simp: sorted_wrt_append)

lemma log_entry_of_cong:
  "logs_dir st' = logs_dir st \<Longrightarrow> recs' n = recs n \<Longrightarrow> log_entry_of st' recs' n = log_entry_of st recs n"
  by (simp add: log_entry_of_def)

text \<open>What an operation on the logs leaves alone.\<close>

definition same_table :: "'d dedup_log \<Rightarrow> 'd dedup_log \<Rightarrow> bool" where
  "same_table st st' \<longleftrightarrow> deduplication_map st' = deduplication_map st \<and> deduplication_window st' = deduplication_window st
     \<and> logs_dir st' = logs_dir st \<and> stopped st' = stopped st"

lemma same_table_trans: "same_table a b \<Longrightarrow> same_table b c \<Longrightarrow> same_table a c"
  by (simp add: same_table_def)

section \<open>Writing a record\<close>

lemma append_record_ok:
  assumes env: "dedup_env_ok env files" and inv: "logs_inv env files st recs" and ne: "log_keys st \<noteq> []"
    and writer: "current_writer st = Some (getLogPath (logs_dir st) (current_log_number st))"
    and r: "good_record env r" and lim: "Suc (length (recs (current_log_number st))) + deduplication_window st < size_max"
    and run: "append_record env r st = (Inr u, st')"
  shows "logs_inv env files st' (recs(current_log_number st := recs (current_log_number st) @ [r]))"
    "log_keys st' = log_keys st" "same_table st st'" "current_log_number st' = current_log_number st"
    "current_writer st' = current_writer st"
proof -
  let ?n = "current_log_number st" and ?dir = "logs_dir st"
  let ?recs = "recs(?n := recs ?n @ [r])"
  note D = logs_invD [OF inv]
  obtain ks where ks: "log_keys st = ks @ [?n]" using D(6) ne by (metis append_butlast_last_id)
  have logs: "existing_logs st = map (log_entry_of st recs) ks @ [log_entry_of st recs ?n]"
    using D(4) ks by simp
  have sorted: "sorted_wrt (<) (ks @ [?n])" using D(3) ks by simp
  have okn: "log_ok env files st recs m" if "m \<in> set (ks @ [?n])" for m using D(5) ks that by simp
  have at: "log_at st ?n = snd (log_entry_of st recs ?n)"
    using sorted unfolding log_at_def logs map_of_append
    by (auto simp: sorted_wrt_append log_entry_of_def map_add_def map_of_eq_None_iff split: option.splits dest: map_of_SomeD)
  obtain d where d: "write_next (de_disk env) (getLogPath ?dir ?n) (writeRecord env r) (log_disk st) = Inr d"
    and st': "st' = st\<lparr>log_disk := d, existing_logs := map_put ?n ((log_at st ?n)\<lparr>entries_count :=
       add64 (entries_count (log_at st ?n)) 1\<rparr>) (existing_logs st)\<rparr>"
    using run writer by (auto simp: append_record_def bind_op_Inr on_disk_Inr Let_def log_at_def)
  have count: "add64 (length (recs ?n)) 1 = Suc (length (recs ?n))" using lim by (simp add: add64_exact)
  have mok: "map_ok (existing_logs st)" by (rule logs_inv_map_ok [OF inv])
  have "existing_logs st' = map (log_entry_of st recs) ks @ [log_entry_of st ?recs ?n]"
    unfolding st' using map_put_last [of "map (log_entry_of st recs) ks" ?n] mok logs at count
    by (simp add: log_entry_of_def)
  moreover have "log_entry_of st recs m = log_entry_of st ?recs m" if "m \<in> set ks" for m
    using sorted that by (auto simp: log_entry_of_def sorted_wrt_append)
  ultimately have logs': "existing_logs st' = map (log_entry_of st ?recs) (ks @ [?n])" by simp
  then show keys: "log_keys st' = log_keys st" using ks log_keys_eq by metis
  have files: "files d = (files (log_disk st))(getLogPath ?dir ?n \<mapsto> records_text env (recs ?n) @ writeRecord env r)"
    using disk_okD(4) [OF env d] okn [of ?n] by (simp add: log_ok_def)
  have "log_ok env files st' ?recs m" if m: "m \<in> set (ks @ [?n])" for m
  proof (cases "m = ?n")
    case True
    then show ?thesis using okn [of ?n] files r lim by (simp add: log_ok_def st' records_text_def)
  next
    case False
    then have "getLogPath ?dir m \<noteq> getLogPath ?dir ?n"
      using getLogPath_eq_iff [OF env, of m ?n] okn [OF m] okn [of ?n] by (simp add: log_ok_def)
    then show ?thesis using okn [OF m] False files by (simp add: log_ok_def st')
  qed
  moreover have "p \<in> getLogPath ?dir ` set (ks @ [?n])" if p: "p \<in> dom (files d)" "in_dir ?dir p" for p
    using D(7) [of p] p files ks by (cases "p = getLogPath ?dir ?n") auto
  moreover have "existing_logs st' = map (log_entry_of st' ?recs) (ks @ [?n])"
    unfolding logs' by (simp add: log_entry_of_def st')
  ultimately show "logs_inv env files st' ?recs"
    using D(1,2,3) ks by (intro logs_invI [of _ _ "ks @ [?n]"]) (simp_all add: st')
  show "same_table st st'" "current_log_number st' = ?n" "current_writer st' = current_writer st"
    by (simp_all add: st' same_table_def)
qed

section \<open>Rotation\<close>

lemma rotate_log_ok:
  assumes env: "dedup_env_ok env files" and inv: "logs_inv env files st recs"
    and lim: "current_log_number st + 1 < size_max" "deduplication_window st < size_max"
    and run: "rotate_log env st = (Inr u, st')"
  shows "logs_inv env files st' (recs(Suc (current_log_number st) := []))"
    "log_keys st' = log_keys st @ [Suc (current_log_number st)]" "same_table st st'"
    "current_log_number st' = Suc (current_log_number st)"
    "current_writer st' = Some (getLogPath (logs_dir st) (Suc (current_log_number st)))"
proof -
  let ?n = "Suc (current_log_number st)" and ?dir = "logs_dir st" and ?ks = "log_keys st"
  let ?recs = "recs(?n := [])" and ?desc = "\<lparr>log_path = getLogPath (logs_dir st) (Suc (current_log_number st)), entries_count = 0\<rparr>"
  have n: "add64 (current_log_number st) 1 = ?n" using lim(1) by (simp add: add64_exact)
  have less: "k < ?n" if "k \<in> set ?ks" for k
    using le_last [OF logs_invD(3) [OF inv] that] logs_invD(6) [OF inv] that by (cases "?ks = []") auto
  have mok: "map_ok (existing_logs st)" by (rule logs_inv_map_ok [OF inv])
  have keys: "fst ` set (existing_logs st) = set ?ks" by (simp add: log_keys_def)
  have new: "map_of (existing_logs st) ?n = None" using less keys by (fastforce simp: map_of_eq_None_iff)
  have put: "map_put ?n ?desc (existing_logs st) = existing_logs st @ [(?n, ?desc)]"
    using map_put_greater [OF mok] less keys by blast
  obtain d where d: "open_rewrite (de_disk env) (getLogPath ?dir ?n) (log_disk st) = Inr d"
    and st': "st' = st\<lparr>current_log_number := ?n, existing_logs := existing_logs st @ [(?n, ?desc)], log_disk := d,
       current_writer := Some (getLogPath ?dir ?n)\<rparr>"
    using run inv new put unfolding rotate_log_def n by (auto simp: bind_op_Inr on_disk_Inr Let_def logs_inv_def)
  show keys': "log_keys st' = ?ks @ [?n]" by (simp add: st' log_keys_def)
  have same: "log_entry_of st recs k = log_entry_of st ?recs k" if "k \<in> set ?ks" for k
    using less [OF that] by (simp add: log_entry_of_def)
  have "existing_logs st = map (log_entry_of st ?recs) ?ks"
    using logs_invD(4) [OF inv] same by (metis map_cong)
  then have logs': "existing_logs st' = map (log_entry_of st' ?recs) (?ks @ [?n])"
    by (simp add: st' log_entry_of_def)
  have files: "files d = (files (log_disk st))(getLogPath ?dir ?n \<mapsto> [])"
    by (rule disk_okD(2) [OF env d])
  have "log_ok env files st' ?recs k" if "k \<in> set ?ks" for k
  proof -
    have "getLogPath ?dir k \<noteq> getLogPath ?dir ?n"
      using getLogPath_eq_iff [OF env, of k ?n] less [OF that] lim(1) by simp
    then show ?thesis using logs_invD(5) [OF inv that] files less [OF that] by (simp add: log_ok_def st')
  qed
  moreover have "log_ok env files st' ?recs ?n" using files lim by (simp add: log_ok_def st' records_text_def)
  moreover have "p \<in> getLogPath ?dir ` set (?ks @ [?n])" if p: "p \<in> dom (files d)" "in_dir ?dir p" for p
    using logs_invD(7) [OF inv, of p] p files by (cases "p = getLogPath ?dir ?n") auto
  moreover have "sorted_wrt (<) (?ks @ [?n])" using logs_invD(3) [OF inv] less by (simp add: sorted_wrt_append)
  ultimately show "logs_inv env files st' ?recs"
    using logs_invD(1,2) [OF inv] by (intro logs_invI [OF logs']) (auto simp: st')
  show "same_table st st'" "current_log_number st' = ?n" "current_writer st' = Some (getLogPath ?dir ?n)"
    by (simp_all add: st' same_table_def)
qed

section \<open>Dropping outdated logs\<close>

definition entries_in :: "(size_t \<times> log_description) list \<Rightarrow> nat" where
  "entries_in logs = sum_list (map (\<lambda>e. entries_count (snd e)) logs)"

lemma remove_from_split:
  assumes "\<forall>e \<in> set logs. fst e \<noteq> 0 \<and> entries_count (snd e) + w < size_max" "s < size_max"
    "remove_from w s logs \<noteq> 0"
  shows "\<exists>newer e older. logs = newer @ e # older \<and> fst e = remove_from w s logs \<and> w < s + entries_in newer"
  using assms
proof (induction w s logs rule: remove_from.induct)
  case (2 w s e logs)
  show ?case
  proof (cases "s > w")
    case True
    then have "e # logs = [] @ e # logs \<and> fst e = remove_from w s (e # logs) \<and> w < s + entries_in []"
      by (simp add: entries_in_def)
    then show ?thesis by blast
  next
    case False
    then have sum: "add64 s (entries_count (snd e)) = s + entries_count (snd e)" "s + entries_count (snd e) < size_max"
      using "2.prems"(1) by (simp_all add: add64_exact)
    then obtain newer e' older where "logs = newer @ e' # older" "fst e' = remove_from w (s + entries_count (snd e)) logs"
      "w < s + entries_count (snd e) + entries_in newer"
      using "2.IH" [OF False] "2.prems" False by (metis (no_types, lifting) list.set_intros(2) remove_from.simps(2))
    then have "e # logs = (e # newer) @ e' # older" "w < s + entries_in (e # newer)" "fst e' = remove_from w s (e # logs)"
      using False sum by (simp_all add: entries_in_def)
    then show ?thesis by blast
  qed
qed simp

lemma remove_logs_ok:
  assumes env: "dedup_env_ok env files"
  shows "logs_inv env files st recs \<Longrightarrow> existing_logs st = older @ e # newer \<Longrightarrow> newer \<noteq> [] \<Longrightarrow>
    remove_logs env (fst e) (older @ e # newer) st = (Inr u, st') \<Longrightarrow>
    logs_inv env files st' recs \<and> existing_logs st' = newer \<and> same_table st st'
    \<and> current_log_number st' = current_log_number st \<and> current_writer st' = current_writer st"
proof (induction older arbitrary: st)
  let ?dir = logs_dir
  have first: "logs_inv env files st1 recs \<and> existing_logs st1 = rest \<and> same_table st st1
      \<and> current_log_number st1 = current_log_number st \<and> current_writer st1 = current_writer st"
    if inv: "logs_inv env files st recs" and logs: "existing_logs st = a # rest" "rest \<noteq> []"
      and d: "removeFile (de_disk env) (log_path (snd a)) (log_disk st) = Inr d"
      and st1: "st1 = st\<lparr>log_disk := d, existing_logs := map_erase (fst a) (existing_logs st)\<rparr>" for st a rest d st1
  proof -
    obtain k ks where ks: "log_keys st = k # ks" "fst a = k" using logs by (simp add: log_keys_def)
    have keys: "ks \<noteq> []" "\<forall>j \<in> set ks. k < j" "sorted_wrt (<) ks"
      using logs_invD(3) [OF inv] ks logs by (auto simp: log_keys_def)
    have logs': "existing_logs st1 = rest"
      using map_erase_first [of a rest] logs_inv_map_ok [OF inv] logs st1 by simp
    then have keys1: "log_keys st1 = ks" using ks logs by (simp add: log_keys_def)
    have a: "a = log_entry_of st recs k" "rest = map (log_entry_of st recs) ks" using logs_invD(4) [OF inv] logs ks by simp_all
    have files: "files d = (files (log_disk st))(getLogPath (logs_dir st) k := None)"
      using disk_okD(5) [OF env d] by (simp add: a log_entry_of_def)
    have "log_ok env files st1 recs j" if "j \<in> set ks" for j
    proof -
      have "log_ok env files st recs j" "log_ok env files st recs k" using logs_invD(5) [OF inv] that ks by simp_all
      moreover from this have "getLogPath (logs_dir st) j \<noteq> getLogPath (logs_dir st) k"
        using getLogPath_eq_iff [OF env, of j k] keys(2) that by (auto simp: log_ok_def)
      ultimately show ?thesis using files by (simp add: log_ok_def st1)
    qed
    moreover have "p \<in> getLogPath (logs_dir st) ` set ks" if p: "p \<in> dom (files d)" "in_dir (logs_dir st) p" for p
      using logs_invD(7) [OF inv, of p] p files ks by (cases "p = getLogPath (logs_dir st) k") auto
    moreover have "existing_logs st1 = map (log_entry_of st1 recs) ks"
      unfolding logs' a(2) by (simp add: st1 log_entry_of_def)
    moreover have "current_log_number st = last ks" using logs_invD(6) [OF inv] ks keys by simp
    ultimately have "logs_inv env files st1 recs"
      using logs_invD(1,2) [OF inv] keys by (intro logs_invI [of _ _ ks]) (simp_all add: st1)
    then show ?thesis using logs' st1 by (simp add: same_table_def)
  qed
  {
    case Nil
    then obtain d where "removeFile (de_disk env) (log_path (snd e)) (log_disk st) = Inr d"
      "st' = st\<lparr>log_disk := d, existing_logs := map_erase (fst e) (existing_logs st)\<rparr>"
      by (auto simp: bind_op_Inr on_disk_Inr Let_def)
    with first [OF Nil.prems(1), of e newer] Nil.prems show ?case by simp
  next
    case (Cons a older)
    have "fst a \<noteq> fst e" using logs_inv_map_ok [OF Cons.prems(1)] Cons.prems(2) by (auto simp: map_ok_append)
    with Cons.prems obtain d st1 where d: "removeFile (de_disk env) (log_path (snd a)) (log_disk st) = Inr d"
      "st1 = st\<lparr>log_disk := d, existing_logs := map_erase (fst a) (existing_logs st)\<rparr>"
      "remove_logs env (fst e) (older @ e # newer) st1 = (Inr u, st')"
      by (auto simp: bind_op_Inr on_disk_Inr Let_def)
    note f = first [OF Cons.prems(1) _ _ d(1,2), of "older @ e # newer"]
    with Cons.IH [of st1] Cons.prems d(3) show ?case by (auto intro: same_table_trans)
  }
qed

lemma entries_in_log_entries: "entries_in (map (log_entry_of st recs) ks) = length (concat (map recs ks))"
  by (induction ks) (simp_all add: entries_in_def log_entry_of_def)

lemma entries_in_rev: "entries_in (rev logs) = entries_in logs"
  by (induction logs) (simp_all add: entries_in_def)

lemma dropOutdatedLogs_ok:
  assumes env: "dedup_env_ok env files" and inv: "logs_inv env files st recs" and ne: "log_keys st \<noteq> []"
    and run: "dropOutdatedLogs env st = (Inr u, st')"
  shows "\<exists>older. log_keys st = older @ log_keys st' \<and> log_keys st' \<noteq> [] \<and> logs_inv env files st' recs \<and> same_table st st'
    \<and> current_log_number st' = current_log_number st \<and> current_writer st' = current_writer st
    \<and> (older = [] \<or> deduplication_window st < length (concat (kept st' recs)))"
proof (cases "remove_from (deduplication_window st) 0 (rev (existing_logs st)) = 0")
  case True
  then have "st' = st" using run by (simp add: dropOutdatedLogs_def)
  then show ?thesis using inv ne by (auto simp: same_table_def)
next
  case False
  note D = logs_invD [OF inv]
  have "fst e \<noteq> 0 \<and> entries_count (snd e) + deduplication_window st < size_max" if "e \<in> set (rev (existing_logs st))" for e
    using that D(5) unfolding set_rev D(4) by (auto simp: log_entry_of_def log_ok_def)
  then obtain newer e older where split: "rev (existing_logs st) = newer @ e # older"
    "fst e = remove_from (deduplication_window st) 0 (rev (existing_logs st))" "deduplication_window st < entries_in newer"
    using remove_from_split [of "rev (existing_logs st)" "deduplication_window st" 0] False by auto
  have logs: "existing_logs st = rev older @ e # rev newer" using arg_cong [OF split(1), of rev] by simp
  have newer: "rev newer \<noteq> []" using split(3) by (auto simp: entries_in_def)
  have "remove_logs env (fst e) (rev older @ e # rev newer) st = (Inr u, st')"
    using run False split(2) logs by (simp add: dropOutdatedLogs_def)
  from remove_logs_ok [OF env inv logs newer this]
  have res: "logs_inv env files st' recs" "existing_logs st' = rev newer" "same_table st st'"
    "current_log_number st' = current_log_number st" "current_writer st' = current_writer st" by blast+
  have keys: "log_keys st = (map fst (rev older) @ [fst e]) @ log_keys st'" by (simp add: log_keys_def logs res(2))
  have "rev newer = map (log_entry_of st' recs) (log_keys st')" using logs_invD(4) [OF res(1)] res(2) by simp
  then have "entries_in newer = length (concat (kept st' recs))"
    using entries_in_log_entries [of st' recs "log_keys st'"] entries_in_rev [of newer] by (simp add: kept_def)
  then show ?thesis using keys res split(3) newer by (auto simp: log_keys_def)
qed

section \<open>The table and the logs\<close>

text \<open>\<open>dropped\<close> says whether a record of a drop may be in the logs.\<close>

definition plain_part :: "'d dedup_env \<Rightarrow> string \<times> part_info \<Rightarrow> bool" where
  "plain_part env e \<longleftrightarrow> printable (snd e) \<and> plain_field (getPartNameV1 (de_io env) (snd e)) \<and> plain_field (fst e)"

definition table_inv ::
  "'d dedup_env \<Rightarrow> string set \<Rightarrow> bool \<Rightarrow> 'd dedup_log \<Rightarrow> (size_t \<Rightarrow> log_record list) \<Rightarrow> bool" where
  "table_inv env ids dropped st recs \<longleftrightarrow>
     (let n = deduplication_window st; q = lm_list (deduplication_map st); k = kept st recs
      in lm_ok (deduplication_map st) \<and> lm_max (deduplication_map st) = n \<and> list_all (plain_part env) q
         \<and> chained env n ids q k \<and> tight env n k
         \<and> (q = replay env n (concat k) [] \<or> n < length (concat k)) \<and> (\<not> dropped \<longrightarrow> no_drops (concat k)))"

lemma table_inv_move:
  assumes "table_inv env ids dropped st recs" "same_table st st'"
    "chained env (deduplication_window st) ids (lm_list (deduplication_map st)) (kept st' recs')"
    "tight env (deduplication_window st) (kept st' recs')"
    "concat (kept st' recs') = concat (kept st recs) \<or> deduplication_window st < length (concat (kept st' recs'))"
    "set (concat (kept st' recs')) \<subseteq> set (concat (kept st recs))"
  shows "table_inv env ids dropped st' recs'"
  using assms unfolding table_inv_def Let_def same_table_def no_drops_def list_all_iff by auto

lemma touch_log_same:
  assumes inv: "logs_inv env files st recs" and ne: "log_keys st \<noteq> []"
  shows "touch_log (current_log_number st) st = st" "entries_count (log_at st (current_log_number st)) = length (recs (current_log_number st))"
proof -
  have "map_of (map (log_entry_of st recs) ks) n = (if n \<in> set ks then Some (snd (log_entry_of st recs n)) else None)" for ks n
    by (induction ks) (auto simp: log_entry_of_def)
  then have of: "map_of (existing_logs st) (current_log_number st) = Some (snd (log_entry_of st recs (current_log_number st)))"
    using logs_invD(4,6) [OF inv] ne by auto
  then show "entries_count (log_at st (current_log_number st)) = length (recs (current_log_number st))"
    by (simp add: log_at_def log_entry_of_def)
  show "touch_log (current_log_number st) st = st"
    using map_put_same [OF logs_inv_map_ok [OF inv]] of by (simp add: touch_log_def log_at_def)
qed

lemma rotate_and_drop_ok:
  assumes env: "dedup_env_ok env files" and inv: "logs_inv env files st recs" and tab: "table_inv env {} dropped st recs"
    and lim: "current_log_number st + 1 < size_max" "deduplication_window st < size_max"
    and run: "bind_op (rotate_log env) (\<lambda>_. dropOutdatedLogs env) st = (Inr u, st')"
  shows "\<exists>recs'. logs_inv env files st' recs' \<and> table_inv env {} dropped st' recs' \<and> same_table st st' \<and> log_keys st' \<noteq> []
    \<and> recs' (current_log_number st') = [] \<and> current_log_number st' = Suc (current_log_number st)
    \<and> current_writer st' = Some (getLogPath (logs_dir st') (current_log_number st'))"
proof -
  let ?n = "Suc (current_log_number st)"
  let ?recs = "recs(?n := [])"
  obtain u1 st1 where st1: "rotate_log env st = (Inr u1, st1)" "dropOutdatedLogs env st1 = (Inr u, st')"
    using run by (auto simp: bind_op_Inr)
  note rot = rotate_log_ok [OF env inv lim st1(1)]
  have "?n \<notin> set (log_keys st)"
    using le_last [OF logs_invD(3) [OF inv], of ?n] logs_invD(6) [OF inv] by (cases "log_keys st = []") auto
  then have kept1: "kept st1 ?recs = kept st recs @ [[]]" by (simp add: kept_def rot(2))
  have tab1: "table_inv env {} dropped st1 ?recs"
    by (rule table_inv_move [OF tab rot(3)])
       (use tab in \<open>simp_all add: kept1 table_inv_def Let_def chained_new_log tight_new_log\<close>)
  obtain older where old: "log_keys st1 = older @ log_keys st'" "log_keys st' \<noteq> []" "logs_inv env files st' ?recs" "same_table st1 st'"
    "current_log_number st' = current_log_number st1" "current_writer st' = current_writer st1"
    "older = [] \<or> deduplication_window st1 < length (concat (kept st' ?recs))"
    using dropOutdatedLogs_ok [OF env rot(1) _ st1(2)] rot(2) by auto
  have kept': "kept st1 ?recs = map ?recs older @ kept st' ?recs" by (simp add: kept_def old(1))
  have parts: "chained env (deduplication_window st1) {} (lm_list (deduplication_map st1)) (kept st1 ?recs)"
    "tight env (deduplication_window st1) (kept st1 ?recs)" using tab1 by (simp_all add: table_inv_def Let_def)
  have "table_inv env {} dropped st' ?recs"
    by (rule table_inv_move [OF tab1 old(4)])
       (use parts old(7) in \<open>auto simp: kept' intro: chained_drop tight_drop\<close>)
  then show ?thesis using old rot same_table_trans [OF rot(3) old(4)]
    by (intro exI [of _ ?recs]) (simp add: same_table_def)
qed

lemma rotateAndDropIfNeeded_ok:
  assumes env: "dedup_env_ok env files" and inv: "logs_inv env files st recs" and tab: "table_inv env {} dropped st recs"
    and lim: "current_log_number st + 1 < size_max" "deduplication_window st < size_max"
    and run: "rotateAndDropIfNeeded env st = (Inr u, st')"
  shows "\<exists>recs'. logs_inv env files st' recs' \<and> table_inv env {} dropped st' recs' \<and> same_table st st' \<and> log_keys st' \<noteq> []
    \<and> length (recs' (current_log_number st')) < rotate_interval st' \<and> current_log_number st' \<le> Suc (current_log_number st)
    \<and> (current_writer st' = Some (getLogPath (logs_dir st') (current_log_number st'))
       \<or> current_writer st' = current_writer st \<and> current_log_number st' = current_log_number st)"
proof -
  have rotated: ?thesis if rd: "bind_op (rotate_log env) (\<lambda>_. dropOutdatedLogs env) st = (Inr u, st')"
  proof -
    obtain recs' where "logs_inv env files st' recs'" "table_inv env {} dropped st' recs'" "same_table st st'" "log_keys st' \<noteq> []"
      "recs' (current_log_number st') = []" "current_log_number st' = Suc (current_log_number st)"
      "current_writer st' = Some (getLogPath (logs_dir st') (current_log_number st'))"
      using rotate_and_drop_ok [OF env inv tab lim rd] by blast
    then show ?thesis using logs_invD(1,2) [of env files st' recs'] by auto
  qed
  show ?thesis
  proof (cases "existing_logs st = []")
    case True
    then show ?thesis using run rotated by (simp add: rotateAndDropIfNeeded_def Let_def)
  next
    case False
    then have ne: "log_keys st \<noteq> []" by (simp add: log_keys_def)
    note touch = touch_log_same [OF inv ne]
    show ?thesis
    proof (cases "rotate_interval st \<le> length (recs (current_log_number st)) \<or> \<not> supportWritingWithAppend (de_disk env) (log_disk st)")
      case True
      then show ?thesis using run rotated False touch by (simp add: rotateAndDropIfNeeded_def Let_def)
    next
      case stay: False
      then have "st' = st" using run False touch by (simp add: rotateAndDropIfNeeded_def Let_def)
      then show ?thesis using inv tab ne stay by (auto simp: same_table_def)
    qed
  qed
qed

end
