(* ===== verification/Dedup_Log_Results.thy ===== *)
theory Dedup_Log_Results
  imports Dedup_Log_Disk
begin

text \<open>
  The deduplication log as a whole: adding and dropping parts, loading after a restart, and the runs made
  of these steps.
\<close>

section \<open>Adding parts\<close>

lemma logs_inv_table [simp]:
  "logs_inv env files (st\<lparr>deduplication_map := m\<rparr>) recs = logs_inv env files st recs"
proof -
  have "log_entry_of (st\<lparr>deduplication_map := m\<rparr>) recs = log_entry_of st recs" by (simp add: log_entry_of_def fun_eq_iff)
  then show ?thesis by (simp add: logs_inv_def log_keys_def log_ok_def)
qed

lemma log_keys_table [simp]: "log_keys (st\<lparr>deduplication_map := m\<rparr>) = log_keys st"
  by (simp add: log_keys_def)

lemma table_inv_record:
  assumes tab: "table_inv env ids dropped st recs"
    and r: "operation r \<noteq> OP_DROP \<Longrightarrow> rec_block_id r \<in> ids \<and> rec_block_id r \<notin> fst ` set (lm_list (deduplication_map st))"
      "operation r = OP_DROP \<Longrightarrow> dropped'" "dropped \<Longrightarrow> dropped'"
    and kept: "kept st recs = rss @ [rs]" "kept st' recs' = rss @ [rs @ [r]]"
    and map: "lm_ok (deduplication_map st')" "lm_max (deduplication_map st') = lm_max (deduplication_map st)"
      "deduplication_window st' = deduplication_window st" "deduplication_window st \<noteq> 0"
      "lm_list (deduplication_map st') = apply_record env (deduplication_window st) r (lm_list (deduplication_map st))"
      "list_all (plain_part env) (lm_list (deduplication_map st'))"
  shows "table_inv env ids dropped' st' recs'"
proof -
  let ?n = "deduplication_window st" and ?q = "lm_list (deduplication_map st)"
  have T: "lm_ok (deduplication_map st)" "lm_max (deduplication_map st) = ?n" "chained env ?n ids ?q (rss @ [rs])"
    "tight env ?n (rss @ [rs])" "?q = replay env ?n (concat (rss @ [rs])) [] \<or> ?n < length (concat (rss @ [rs]))"
    "\<not> dropped \<longrightarrow> no_drops (concat (rss @ [rs]))"
    using tab kept(1) by (simp_all add: table_inv_def Let_def)
  have len: "length ?q \<le> ?n" using T(1,2) by (simp add: lm_ok_def lm_list_def)
  have a: "chained env ?n ids (apply_record env ?n r ?q) (rss @ [rs @ [r]])"
    by (rule chained_append [OF _ map(4) T(3) len]) (use r(1) in blast)
  have b: "tight env ?n (rss @ [rs @ [r]])"
    by (rule tight_append [OF _ map(4) T(4,3)]) (use r(1) in blast)
  have c: "concat (rss @ [rs @ [r]]) = concat (rss @ [rs]) @ [r]" by simp
  have d: "apply_record env ?n r ?q = replay env ?n (concat (rss @ [rs @ [r]])) [] \<or> ?n < length (concat (rss @ [rs @ [r]]))"
    using T(5) unfolding c by auto
  have e: "\<not> dropped' \<longrightarrow> no_drops (concat (rss @ [rs @ [r]]))"
    using T(6) r(2,3) unfolding c by (auto simp: no_drops_def)
  show ?thesis using a b d e map T(2) unfolding table_inv_def Let_def kept(2) by simp
qed

lemma kept_last:
  assumes "logs_inv env files st recs" "log_keys st \<noteq> []"
  shows "kept st recs = map recs (butlast (log_keys st)) @ [recs (current_log_number st)]"
    "log_keys st' = log_keys st \<Longrightarrow> kept st' (recs(current_log_number st := rs)) = map recs (butlast (log_keys st)) @ [rs]"
proof -
  let ?ks = "butlast (log_keys st)" and ?n = "current_log_number st"
  have ks: "log_keys st = ?ks @ [?n]" using logs_invD(6) [OF assms(1)] assms(2) by simp
  have "?n \<notin> set ?ks" using logs_invD(3) [OF assms(1)] by (subst (asm) ks) (auto simp: sorted_wrt_append)
  then have *: "map (recs(?n := x)) (?ks @ [?n]) = map recs ?ks @ [x]" for x by simp
  show "kept st recs = map recs ?ks @ [recs ?n]" using * [of "recs ?n"] ks by (simp add: kept_def)
  show "log_keys st' = log_keys st \<Longrightarrow> kept st' (recs(?n := rs)) = map recs ?ks @ [rs]"
    using * [of rs] ks by (simp add: kept_def)
qed

definition writer_ok :: "'d dedup_log \<Rightarrow> bool" where
  "writer_ok st \<longleftrightarrow> log_keys st \<noteq> [] \<and> current_writer st = Some (getLogPath (logs_dir st) (current_log_number st))"

definition part_record :: "'d dedup_env \<Rightarrow> nat \<Rightarrow> string \<Rightarrow> part_info \<Rightarrow> log_record" where
  "part_record env op key info = \<lparr>operation = op, rec_part_name = getPartNameV1 (de_io env) info, rec_block_id = key\<rparr>"

lemma part_record_good:
  assumes "dedup_env_ok env files" "plain_part env (key, info)" "op \<in> {OP_ADD, OP_DROP}"
  shows "good_record env (part_record env op key info)" "record_info env (part_record env op key info) = info"
proof -
  have "fromPartName (de_io env) (getPartNameV1 (de_io env) info) (de_version env) = Inr info"
    using part_name_roundtrip_aux [of "de_io env" info] dedup_env_okD(2,3) [OF assms(1)] assms(2)
    by (simp add: fromPartName_def plain_part_def)
  then show "good_record env (part_record env op key info)" "record_info env (part_record env op key info) = info"
    using assms(2,3) by (auto simp: part_record_def good_record_def record_info_def writable_record_def plain_part_def OP_ADD_def OP_DROP_def)
qed

lemma part_name_checked:
  "dedup_env_ok env files \<Longrightarrow> getPartNameAndCheckFormat (de_io env) info (de_version env) = Inr (getPartNameV1 (de_io env) info)"
  using dedup_env_okD(3) by (simp add: getPartNameAndCheckFormat_def MIN_FORMAT_VERSION_WITH_CUSTOM_PARTITIONING_def)

lemma limited_insert_subset: "set (limited_insert n key v q) \<subseteq> insert (key, v) (set q)"
  by (cases q) (auto simp: limited_insert_def)

lemma add_block_ids_ok:
  assumes env: "dedup_env_ok env files"
  shows "logs_inv env files st recs \<Longrightarrow> table_inv env all dropped st recs \<Longrightarrow> writer_ok st \<Longrightarrow> set ids \<subseteq> all \<Longrightarrow> distinct ids \<Longrightarrow>
    \<forall>id \<in> set ids. plain_part env (id, info) \<and> id \<notin> fst ` set (lm_list (deduplication_map st)) \<Longrightarrow>
    length (recs (current_log_number st)) + length ids + deduplication_window st < size_max \<Longrightarrow>
    add_block_ids env info ids st = (Inr u, st') \<Longrightarrow>
    \<exists>recs'. logs_inv env files st' recs' \<and> table_inv env all dropped st' recs' \<and> writer_ok st'
      \<and> logs_dir st' = logs_dir st \<and> stopped st' = stopped st \<and> deduplication_window st' = deduplication_window st
      \<and> current_log_number st' = current_log_number st
      \<and> lm_list (deduplication_map st') = fold (\<lambda>id. limited_insert (deduplication_window st) id info) ids (lm_list (deduplication_map st))"
proof (induction ids arbitrary: st recs)
  case Nil
  then show ?case by auto
next
  case (Cons id ids)
  let ?r = "part_record env OP_ADD id info" and ?n = "current_log_number st" and ?w = "deduplication_window st"
  let ?q = "lm_list (deduplication_map st)" and ?recs = "recs(current_log_number st := recs (current_log_number st) @ [part_record env OP_ADD id info])"
  have plain: "plain_part env (id, info)" and new: "id \<notin> fst ` set ?q" using Cons.prems(6) by auto
  note good = part_record_good [OF env plain, of OP_ADD, simplified]
  obtain u1 st1 where st1: "append_record env ?r st = (Inr u1, st1)"
    and more: "(case lm_insert id info (deduplication_map st1) of Inl e \<Rightarrow> (Inl e, st1)
      | Inr (m, b) \<Rightarrow> add_block_ids env info ids (st1\<lparr>deduplication_map := m\<rparr>)) = (Inr u, st')"
    using Cons.prems(8) part_name_checked [OF env, of info] by (auto simp: bind_op_Inr part_record_def)
  then obtain m b where ins: "lm_insert id info (deduplication_map st1) = Inr (m, b)"
    and rest: "add_block_ids env info ids (st1\<lparr>deduplication_map := m\<rparr>) = (Inr u, st')"
    by (cases "lm_insert id info (deduplication_map st1)") auto
  have ne: "log_keys st \<noteq> []" and writer: "current_writer st = Some (getLogPath (logs_dir st) ?n)"
    using Cons.prems(3) by (simp_all add: writer_ok_def)
  note app = append_record_ok [OF env Cons.prems(1) ne writer good(1) _ st1]
  have lim: "Suc (length (recs ?n)) + ?w < size_max" using Cons.prems(7) by simp
  note app = app [OF lim]
  have same: "deduplication_map st1 = deduplication_map st" "deduplication_window st1 = ?w" "logs_dir st1 = logs_dir st" "stopped st1 = stopped st"
    using app(3) by (simp_all add: same_table_def)
  have mm: "lm_ok (deduplication_map st)" "lm_max (deduplication_map st) = ?w" "list_all (plain_part env) ?q"
    using Cons.prems(2) by (simp_all add: table_inv_def Let_def)
  have w0: "?w \<noteq> 0" using logs_invD(1) [OF Cons.prems(1)] .
  have m: "lm_ok m" "lm_max m = ?w" "lm_list m = limited_insert ?w id info ?q"
    using lm_insert_ok [OF mm(1), of id info] ins same(1) mm(2) w0 by auto
  have op: "operation ?r \<noteq> OP_DROP" "rec_block_id ?r = id" by (simp_all add: part_record_def OP_ADD_def OP_DROP_def)
  have applies: "apply_record env ?w ?r q = limited_insert ?w id info q" for q
    using op good(2) by (simp add: apply_record_def)
  let ?st2 = "st1\<lparr>deduplication_map := m\<rparr>"
  have tab: "table_inv env all dropped ?st2 ?recs"
  proof (rule table_inv_record [OF Cons.prems(2) _ _ _ kept_last(1) [OF Cons.prems(1) ne] kept_last(2) [OF Cons.prems(1) ne]])
    show "list_all (plain_part env) (lm_list (deduplication_map ?st2))"
      using limited_insert_subset [of ?w id info ?q] mm(3) plain by (auto simp: m(3) list_all_iff)
  qed (use m mm same applies op new Cons.prems(4) w0 app(2) in auto)
  have keys: "fst ` set (limited_insert ?w id info ?q) \<subseteq> insert id (fst ` set ?q)"
    using limited_insert_subset [of ?w id info ?q] by force
  have fresh: "plain_part env (i, info) \<and> i \<notin> fst ` set (limited_insert ?w id info ?q)" if "i \<in> set ids" for i
  proof -
    have "plain_part env (i, info)" "i \<notin> insert id (fst ` set ?q)" using Cons.prems(5,6) that by auto
    then show ?thesis using keys by blast
  qed
  have IHp: "logs_inv env files ?st2 ?recs" "writer_ok ?st2" "set ids \<subseteq> all" "distinct ids"
    "\<forall>i \<in> set ids. plain_part env (i, info) \<and> i \<notin> fst ` set (lm_list (deduplication_map ?st2))"
    "length (?recs (current_log_number ?st2)) + length ids + deduplication_window ?st2 < size_max"
    using app(1,2,4,5) Cons.prems(3,4,5,7) fresh same writer by (simp_all add: writer_ok_def m(3))
  from Cons.IH [OF IHp(1) tab IHp(2-6) rest] show ?case using same app(4) by (simp add: m(3))
qed

text \<open>A log between two operations; \<open>dropped\<close> as in \<open>table_inv\<close>.\<close>

definition ready ::
  "'d dedup_env \<Rightarrow> ('d \<Rightarrow> string \<Rightarrow> string option) \<Rightarrow> bool \<Rightarrow> 'd dedup_log \<Rightarrow> (size_t \<Rightarrow> log_record list) \<Rightarrow> bool" where
  "ready env files dropped st recs \<longleftrightarrow> logs_inv env files st recs \<and> table_inv env {} dropped st recs \<and> writer_ok st
     \<and> length (recs (current_log_number st)) < rotate_interval st \<and> \<not> stopped st
     \<and> 3 * deduplication_window st + 1 < size_max"

abbreviation remembered :: "'d dedup_log \<Rightarrow> (string \<times> part_info) list" where
  "remembered st \<equiv> lm_list (deduplication_map st)"

lemma rotate_ready:
  assumes env: "dedup_env_ok env files" and inv: "logs_inv env files st recs" "table_inv env {} dropped st recs"
    and st: "writer_ok st" "\<not> stopped st" "3 * deduplication_window st + 1 < size_max" "current_log_number st + 1 < size_max"
    and run: "rotateAndDropIfNeeded env st = (Inr u, st')"
  shows "\<exists>recs'. ready env files dropped st' recs' \<and> same_table st st' \<and> current_log_number st' \<le> Suc (current_log_number st)"
proof -
  have "deduplication_window st < size_max" using st(3) by simp
  from rotateAndDropIfNeeded_ok [OF env inv st(4) this run] obtain recs' where
    "logs_inv env files st' recs'" "table_inv env {} dropped st' recs'" and same: "same_table st st'"
    and "log_keys st' \<noteq> []" "length (recs' (current_log_number st')) < rotate_interval st'"
    "current_log_number st' \<le> Suc (current_log_number st)"
    "current_writer st' = Some (getLogPath (logs_dir st') (current_log_number st'))
       \<or> current_writer st' = current_writer st \<and> current_log_number st' = current_log_number st" by blast
  then have "ready env files dropped st' recs'"
    using st(1-3) same by (auto simp: ready_def writer_ok_def same_table_def)
  with same show ?thesis using \<open>current_log_number st' \<le> Suc (current_log_number st)\<close> by blast
qed

lemma find_duplicates_eq:
  "lm_ok m \<Longrightarrow> find_duplicates m ids =
    Inr (map (\<lambda>id. (the (map_of (lm_list m) id), id)) (filter (\<lambda>id. id \<in> fst ` set (lm_list m)) ids))"
proof (induction ids)
  case (Cons id ids)
  show ?case
  proof (cases "id \<in> fst ` set (lm_list m)")
    case True
    then obtain v where "map_of (lm_list m) id = Some v" by (metis map_of_eq_None_iff not_None_eq)
    then show ?thesis using Cons True by (simp add: lm_contains_iff lm_get_eq)
  qed (use Cons in \<open>simp add: lm_contains_iff\<close>)
qed simp

lemma addPart_new:
  assumes env: "dedup_env_ok env files" and rd: "ready env files dropped st recs"
    and ids: "distinct ids" "\<forall>id \<in> set ids. plain_part env (id, info) \<and> id \<notin> fst ` set (remembered st)"
    and lim: "3 * deduplication_window st + length ids < size_max" "current_log_number st + 1 < size_max"
    and run: "addPart env ids info st = (Inr res, st')"
  shows "res = [] \<and> (\<exists>recs'. ready env files dropped st' recs') \<and> deduplication_window st' = deduplication_window st
    \<and> logs_dir st' = logs_dir st
    \<and> remembered st' = fold (\<lambda>id. limited_insert (deduplication_window st) id info) ids (remembered st)"
proof -
  let ?w = "deduplication_window st"
  have R: "logs_inv env files st recs" "table_inv env {} dropped st recs" "writer_ok st"
    "length (recs (current_log_number st)) < 2 * ?w" "\<not> stopped st" "?w \<noteq> 0" "3 * ?w + 1 < size_max"
    using rd logs_invD(1,2) [of env files st recs] by (auto simp: ready_def)
  have ok: "lm_ok (deduplication_map st)" using R(2) by (simp add: table_inv_def Let_def)
  have "filter (\<lambda>id. id \<in> fst ` set (remembered st)) ids = []" using ids(2) by (auto simp: filter_empty_conv)
  then have "find_duplicates (deduplication_map st) ids = Inr []" using find_duplicates_eq [OF ok, of ids] by simp
  then obtain u1 st1 u2 where st1: "add_block_ids env info ids st = (Inr u1, st1)" "rotateAndDropIfNeeded env st1 = (Inr u2, st')" "res = []"
    using run R(5,6) by (auto simp: addPart_def bind_op_Inr return_op_def)
  have chain: "chained env ?w {} (remembered st) (kept st recs)" using R(2) by (simp add: table_inv_def Let_def)
  have "fst ` set (remembered st) \<inter> set ids = {}" using ids(2) by auto
  then have "table_inv env (set ids) dropped st recs"
    using R(2) chained_ids [OF chain] by (simp add: table_inv_def Let_def)
  from add_block_ids_ok [OF env R(1) this R(3) order_refl ids(1) ids(2) _ st1(1)] lim(1) R(4)
  obtain recs1 where A: "logs_inv env files st1 recs1" "table_inv env (set ids) dropped st1 recs1" "writer_ok st1"
    "logs_dir st1 = logs_dir st" "stopped st1 = stopped st" "deduplication_window st1 = ?w"
    "current_log_number st1 = current_log_number st"
    "remembered st1 = fold (\<lambda>id. limited_insert ?w id info) ids (remembered st)" by auto
  have "table_inv env {} dropped st1 recs1" using A(2) chained_weaken by (fastforce simp: table_inv_def Let_def)
  from rotate_ready [OF env A(1) this A(3) _ _ _ st1(2)] A lim R(5,7) obtain recs' where
    "ready env files dropped st' recs'" "same_table st1 st'" by auto
  then show ?thesis using A st1(3) by (auto simp: same_table_def)
qed

lemma addPart_duplicate:
  assumes ok: "lm_ok (deduplication_map st)" "deduplication_window st \<noteq> 0" and id: "\<exists>id \<in> set ids. id \<in> fst ` set (remembered st)"
  shows "addPart env ids info st =
    (Inr (map (\<lambda>id. (the (map_of (remembered st) id), id)) (filter (\<lambda>id. id \<in> fst ` set (remembered st)) ids)), st)"
proof -
  have "filter (\<lambda>id. id \<in> fst ` set (remembered st)) ids \<noteq> []" using id by (auto simp: filter_empty_conv)
  then obtain i is' where f: "filter (\<lambda>id. id \<in> fst ` set (remembered st)) ids = i # is'" by (meson list.exhaust)
  show ?thesis using ok(2) find_duplicates_eq [OF ok(1), of ids] by (simp add: addPart_def f)
qed

section \<open>Dropping parts\<close>

definition erase_covered :: "part_info \<Rightarrow> (nat \<times> string \<times> part_info) list \<Rightarrow> (string \<times> part_info) list \<Rightarrow> (string \<times> part_info) list" where
  "erase_covered drop_info es q =
     fold (\<lambda>e q. if contains drop_info (snd (snd e)) then limited_erase (fst (snd e)) q else q) es q"

lemma drop_covered_ok:
  assumes env: "dedup_env_ok env files"
  shows "ready env files dropped st recs \<Longrightarrow> dropped \<Longrightarrow> \<forall>e \<in> set es. plain_part env (snd e) \<Longrightarrow>
    current_log_number st + length es < size_max \<Longrightarrow> drop_covered env drop_info es st = (Inr u, st') \<Longrightarrow>
    (\<exists>recs'. ready env files dropped st' recs') \<and> deduplication_window st' = deduplication_window st \<and> logs_dir st' = logs_dir st
    \<and> remembered st' = erase_covered drop_info es (remembered st)"
proof (induction es arbitrary: st recs)
  case Nil
  then show ?case by (auto simp: erase_covered_def)
next
  case (Cons e es)
  obtain node key info where e: "e = (node, key, info)" by (cases e) auto
  show ?case
  proof (cases "contains drop_info info")
    case False
    then show ?thesis using Cons.IH [of st recs] Cons.prems by (auto simp: e erase_covered_def)
  next
    case True
    let ?r = "part_record env OP_DROP key info" and ?n = "current_log_number st" and ?w = "deduplication_window st"
    let ?recs = "recs(current_log_number st := recs (current_log_number st) @ [part_record env OP_DROP key info])"
    have R: "logs_inv env files st recs" "table_inv env {} dropped st recs" "writer_ok st"
      "length (recs ?n) < 2 * ?w" "\<not> stopped st" "?w \<noteq> 0" "3 * ?w + 1 < size_max"
      using Cons.prems(1) logs_invD(1,2) [of env files st recs] by (auto simp: ready_def)
    note good = part_record_good [OF env, of key info OP_DROP, simplified]
    have plain: "plain_part env (key, info)" using Cons.prems(3) e by simp
    obtain u1 st1 where st1: "append_record env ?r st = (Inr u1, st1)"
      and more: "bind_op (rotateAndDropIfNeeded env) (\<lambda>_. drop_covered env drop_info es)
         (st1\<lparr>deduplication_map := fst (lm_erase key (deduplication_map st1))\<rparr>) = (Inr u, st')"
      using Cons.prems(5) True part_name_checked [OF env, of info] by (auto simp: e bind_op_Inr part_record_def)
    let ?st2 = "st1\<lparr>deduplication_map := fst (lm_erase key (deduplication_map st1))\<rparr>"
    obtain u2 st3 where st3: "rotateAndDropIfNeeded env ?st2 = (Inr u2, st3)" "drop_covered env drop_info es st3 = (Inr u, st')"
      using more by (auto simp: bind_op_Inr)
    have ne: "log_keys st \<noteq> []" and writer: "current_writer st = Some (getLogPath (logs_dir st) ?n)"
      using R(3) by (simp_all add: writer_ok_def)
    have lim: "Suc (length (recs ?n)) + ?w < size_max" using R(4,7) by simp
    note app = append_record_ok [OF env R(1) ne writer good(1) [OF plain] lim st1]
    have same: "deduplication_map st1 = deduplication_map st" "deduplication_window st1 = ?w" "logs_dir st1 = logs_dir st" "stopped st1 = stopped st"
      using app(3) by (simp_all add: same_table_def)
    have mm: "lm_ok (deduplication_map st)" "lm_max (deduplication_map st) = ?w" "list_all (plain_part env) (remembered st)"
      using R(2) by (simp_all add: table_inv_def Let_def)
    let ?m = "fst (lm_erase key (deduplication_map st))"
    have m: "lm_ok ?m" "lm_max ?m = ?w" "lm_list ?m = limited_erase key (remembered st)"
      using lm_erase_ok [OF mm(1), of key] mm(2) by auto
    have op: "operation ?r = OP_DROP" "rec_block_id ?r = key" by (simp_all add: part_record_def)
    have tab: "table_inv env {} dropped ?st2 ?recs"
    proof (rule table_inv_record [OF R(2) _ _ _ kept_last(1) [OF R(1) ne] kept_last(2) [OF R(1) ne]])
      show "list_all (plain_part env) (lm_list (deduplication_map ?st2))"
        using mm(3) by (simp add: same m(3) list_all_iff limited_erase_def)
    qed (use m mm same op Cons.prems(2) R(6) app(2) in \<open>simp_all add: apply_record_def\<close>)
    have w2: "writer_ok ?st2" using app(2,4,5) ne writer same by (simp add: writer_ok_def)
    have "logs_inv env files ?st2 ?recs" using app(1) by simp
    from rotate_ready [OF env this tab w2 _ _ _ st3(1)] same R(5,7) app(4) Cons.prems(4) obtain recs3 where
      r3: "ready env files dropped st3 recs3" "same_table ?st2 st3" "current_log_number st3 \<le> Suc ?n" by auto
    have "current_log_number st3 + length es < size_max" using r3(3) Cons.prems(4) by simp
    from Cons.IH [OF r3(1) Cons.prems(2) _ this st3(2)] Cons.prems(3)
    show ?thesis using r3(2) same m(3) True by (simp add: same_table_def e erase_covered_def)
  qed
qed

lemma erase_covered_filter:
  "erase_covered drop_info es q = filter (\<lambda>e. \<not> (\<exists>x \<in> set es. contains drop_info (snd (snd x)) \<and> fst (snd x) = fst e)) q"
  by (induction es arbitrary: q) (auto simp: erase_covered_def limited_erase_def intro: filter_cong)

lemma dropPart_ok:
  assumes env: "dedup_env_ok env files" and rd: "ready env files dropped st recs"
    and lim: "current_log_number st + length (remembered st) < size_max"
    and run: "dropPart env drop_info st = (Inr u, st')"
  shows "(\<exists>recs'. ready env files True st' recs') \<and> deduplication_window st' = deduplication_window st \<and> logs_dir st' = logs_dir st
    \<and> remembered st' = filter (\<lambda>e. \<not> contains drop_info (snd e)) (remembered st)"
proof -
  let ?es = "lm_queue (deduplication_map st)"
  have R: "table_inv env {} dropped st recs" "\<not> stopped st" "deduplication_window st \<noteq> 0"
    using rd logs_invD(1) [of env files st recs] by (auto simp: ready_def)
  then have tab: "lm_ok (deduplication_map st)" "list_all (plain_part env) (remembered st)" by (simp_all add: table_inv_def Let_def)
  have rd': "ready env files True st recs" using rd by (auto simp: ready_def table_inv_def Let_def)
  have "drop_covered env drop_info ?es st = (Inr u, st')" using run R(2,3) by (simp add: dropPart_def)
  moreover have "\<forall>e \<in> set ?es. plain_part env (snd e)" using tab(2) by (auto simp: lm_list_def list_all_iff)
  moreover have "current_log_number st + length ?es < size_max" using lim by (simp add: lm_list_def)
  ultimately have res: "(\<exists>recs'. ready env files True st' recs') \<and> deduplication_window st' = deduplication_window st
      \<and> logs_dir st' = logs_dir st \<and> remembered st' = erase_covered drop_info ?es (remembered st)"
    by (intro drop_covered_ok [OF env rd']) auto
  have dist: "distinct (map fst (remembered st))" using tab(1) by (simp add: lm_ok_def)
  have "erase_covered drop_info ?es (remembered st) = filter (\<lambda>e. \<not> contains drop_info (snd e)) (remembered st)"
    unfolding erase_covered_filter
  proof (rule filter_cong [OF refl])
    fix e assume e: "e \<in> set (remembered st)"
    have "(\<exists>x \<in> set ?es. contains drop_info (snd (snd x)) \<and> fst (snd x) = fst e)
        \<longleftrightarrow> (\<exists>y \<in> set (remembered st). contains drop_info (snd y) \<and> fst y = fst e)" by (simp add: lm_list_def)
    also have "\<dots> \<longleftrightarrow> contains drop_info (snd e)" using e dist by (metis eq_key_imp_eq_value prod.collapse)
    finally show "(\<not> (\<exists>x \<in> set ?es. contains drop_info (snd (snd x)) \<and> fst (snd x) = fst e)) = (\<not> contains drop_info (snd e))" by simp
  qed
  then show ?thesis using res by simp
qed

section \<open>Loading\<close>

definition bare_log :: "size_t \<times> log_description \<Rightarrow> size_t \<times> log_description" where
  "bare_log e = (fst e, (snd e)\<lparr>entries_count := 0\<rparr>)"

lemma scan_logs_ok:
  assumes env: "dedup_env_ok env files"
  shows "map_ok logs \<Longrightarrow> \<forall>p \<in> set ps. \<exists>n < size_max. p = getLogPath dir n \<Longrightarrow>
    \<exists>logs'. scan_logs env ps logs = (Inr (), logs') \<and> map_ok logs' \<and> (\<forall>n < size_max. map_of logs' n =
      (if getLogPath dir n \<in> set ps then Some \<lparr>log_path = getLogPath dir n, entries_count = 0\<rparr> else map_of logs n))
      \<and> fst ` set logs' = fst ` set logs \<union> {n. n < size_max \<and> getLogPath dir n \<in> set ps}"
proof (induction ps arbitrary: logs)
  case (Cons p ps)
  then obtain n where n: "n < size_max" "p = getLogPath dir n" by auto
  let ?logs = "map_put n \<lparr>log_path = p, entries_count = 0\<rparr> logs"
  have "map_ok ?logs" using Cons.prems(1) by simp
  from Cons.IH [OF this] Cons.prems(2) obtain logs' where
    l: "scan_logs env ps ?logs = (Inr (), logs')" "map_ok logs'"
      "\<forall>m < size_max. map_of logs' m = (if getLogPath dir m \<in> set ps then Some \<lparr>log_path = getLogPath dir m, entries_count = 0\<rparr> else map_of ?logs m)"
      "fst ` set logs' = fst ` set ?logs \<union> {m. m < size_max \<and> getLogPath dir m \<in> set ps}" by auto
  have eq: "getLogPath dir m = p \<longleftrightarrow> m = n" if "m < size_max" for m
    using getLogPath_eq_iff [OF env that n(1)] n(2) by simp
  have "scan_logs env (p # ps) logs = (Inr (), logs')" using l(1) getLogNumber_path [OF env n(1)] by (simp add: n(2))
  moreover have "map_of logs' m = (if getLogPath dir m \<in> set (p # ps) then Some \<lparr>log_path = getLogPath dir m, entries_count = 0\<rparr> else map_of logs m)"
    if "m < size_max" for m
    using l(3) that eq [OF that] n Cons.prems(1) by auto
  moreover have "fst ` set logs' = fst ` set logs \<union> {m. m < size_max \<and> getLogPath dir m \<in> set (p # ps)}"
    unfolding l(4) using eq n(1) by auto
  ultimately show ?case using l(2) by blast
qed auto

lemma scan_existing:
  assumes env: "dedup_env_ok env files" and inv: "logs_inv env files st recs"
  shows "scan_logs env (iterateDirectory (de_disk env) (log_disk st) (logs_dir st)) []
    = (Inr (), map bare_log (existing_logs st))"
proof -
  let ?ps = "iterateDirectory (de_disk env) (log_disk st) (logs_dir st)" and ?dir = "logs_dir st"
  note D = logs_invD [OF inv]
  have ps: "set ?ps = getLogPath ?dir ` set (log_keys st)"
  proof
    show "set ?ps \<subseteq> getLogPath ?dir ` set (log_keys st)"
    proof
      fix p assume "p \<in> set ?ps"
      then have "p \<in> dom (files (log_disk st))" "in_dir ?dir p" unfolding disk_okD(8) [OF env] by simp_all
      then show "p \<in> getLogPath ?dir ` set (log_keys st)" by (rule D(7))
    qed
    show "getLogPath ?dir ` set (log_keys st) \<subseteq> set ?ps"
      unfolding disk_okD(8) [OF env] using D(5) in_dir_log by (auto simp: log_ok_def)
  qed
  have small: "n < size_max" if "n \<in> set (log_keys st)" for n using D(5) [OF that] by (simp add: log_ok_def)
  obtain logs' where l: "scan_logs env ?ps [] = (Inr (), logs')" "map_ok logs'"
    "\<forall>n < size_max. map_of logs' n = (if getLogPath ?dir n \<in> set ?ps then Some \<lparr>log_path = getLogPath ?dir n, entries_count = 0\<rparr> else map_of [] n)"
    "fst ` set logs' = fst ` set ([] :: (size_t \<times> log_description) list) \<union> {n. n < size_max \<and> getLogPath ?dir n \<in> set ?ps}"
    using scan_logs_ok [OF env map_ok_Nil, of ?ps ?dir] ps small by blast
  have mem: "getLogPath ?dir n \<in> set ?ps \<longleftrightarrow> n \<in> set (log_keys st)" if "n < size_max" for n
    unfolding ps using getLogPath_eq_iff [OF env that] small by blast
  let ?new = "map bare_log (existing_logs st)"
  have keys: "map fst ?new = log_keys st" by (simp add: log_keys_def bare_log_def comp_def)
  have new: "?new = map (\<lambda>n. (n, \<lparr>log_path = getLogPath ?dir n, entries_count = 0\<rparr>)) (log_keys st)"
    by (subst D(4)) (simp add: bare_log_def log_entry_of_def comp_def)
  have "map_of ?new n = (if n \<in> set (log_keys st) then Some \<lparr>log_path = getLogPath ?dir n, entries_count = 0\<rparr> else None)" for n
    unfolding new by (induction "log_keys st" arbitrary: st) (simp_all add: map_of_map_restrict restrict_map_def)
  moreover have "map_of logs' n = (if n \<in> set (log_keys st) then Some \<lparr>log_path = getLogPath ?dir n, entries_count = 0\<rparr> else None)" for n
  proof (cases "n < size_max")
    case True
    then show ?thesis using l(3) mem [OF True] by simp
  next
    case False
    then have "map_of logs' n = None" using l(4) by (auto simp: map_of_eq_None_iff)
    then show ?thesis using False small by auto
  qed
  ultimately have "map_of logs' = map_of ?new" by (simp add: fun_eq_iff)
  moreover have "map_ok ?new" unfolding map_ok_def keys by (rule D(3))
  ultimately show ?thesis using map_ok_ext [OF l(2)] l(1) by simp
qed

lemma load_logs_ok:
  assumes env: "dedup_env_ok env files"
  shows "lm_ok m \<Longrightarrow> lm_max m = deduplication_window st \<Longrightarrow> deduplication_window st \<noteq> 0 \<Longrightarrow> \<forall>n \<in> set ks. log_ok env files st recs n \<Longrightarrow>
    \<exists>m'. load_logs env (log_disk st) (map bare_log (map (log_entry_of st recs) ks)) m = Some (map (log_entry_of st recs) ks, m')
      \<and> lm_ok m' \<and> lm_max m' = lm_max m \<and> lm_list m' = replay env (lm_max m) (concat (map recs ks)) (lm_list m)"
proof (induction ks arbitrary: m)
  case (Cons n ks)
  then have ok: "log_ok env files st recs n" by simp
  then have lim: "0 + length (recs n) < size_max" and good: "list_all (good_record env) (recs n)" by (simp_all add: log_ok_def)
  have m0: "lm_max m \<noteq> 0" using Cons.prems by simp
  have "readFile (de_disk env) (log_disk st) (getLogPath (logs_dir st) n) = Inr (records_text env (recs n))"
    using disk_okD(1) [OF env] ok by (simp add: log_ok_def)
  with load_records_ok [OF env Cons.prems(1) m0 good lim] obtain m1 where
    m1: "loadSingleLog env (log_disk st) (getLogPath (logs_dir st) n) m = Some (Inr (length (recs n)), m1)" "lm_ok m1" "lm_max m1 = lm_max m"
      "lm_list m1 = replay env (lm_max m) (recs n) (lm_list m)" by (auto simp: loadSingleLog_def)
  from Cons.IH [OF m1(2)] Cons.prems m1(3) obtain m' where
    m': "load_logs env (log_disk st) (map bare_log (map (log_entry_of st recs) ks)) m1 = Some (map (log_entry_of st recs) ks, m')"
      "lm_ok m'" "lm_max m' = lm_max m1" "lm_list m' = replay env (lm_max m1) (concat (map recs ks)) (lm_list m1)" by auto
  have entry: "log_entry_of st recs n = (n, \<lparr>log_path = getLogPath (logs_dir st) n, entries_count = length (recs n)\<rparr>)"
    "bare_log (n, desc) = (n, desc\<lparr>entries_count := 0\<rparr>)" for desc
    by (simp_all add: bare_log_def log_entry_of_def)
  show ?case using m1 m' by (intro exI [of _ m']) (simp add: entry)
qed simp

text \<open>A disk that does not fail: files are opened and removed.\<close>

definition disk_works :: "'d disk_ops \<Rightarrow> bool" where
  "disk_works ops \<longleftrightarrow> (\<forall>p d. (\<exists>d'. open_rewrite ops p d = Inr d') \<and> (\<exists>d'. open_append ops p d = Inr d')
     \<and> (\<exists>d'. removeFile ops p d = Inr d'))"

lemma remove_logs_works:
  "disk_works (de_disk env) \<Longrightarrow> \<exists>st'. remove_logs env n logs st = (Inr (), st')"
proof (induction logs arbitrary: st)
  case (Cons e logs)
  obtain d where "removeFile (de_disk env) (log_path (snd e)) (log_disk st) = Inr d" using Cons.prems by (auto simp: disk_works_def)
  then show ?case using Cons.IH [OF Cons.prems] by (simp add: bind_op_def on_disk_def Let_def)
qed simp

lemma rotate_works:
  assumes "disk_works (de_disk env)"
  shows "\<exists>st'. rotateAndDropIfNeeded env st = (Inr (), st')"
proof -
  have drop: "\<exists>st'. dropOutdatedLogs env st = (Inr (), st')" for st
    using remove_logs_works [OF assms] by (simp add: dropOutdatedLogs_def Let_def)
  have rotate: "\<exists>st'. rotate_log env st = (Inr (), st')" for st
  proof -
    obtain d where "open_rewrite (de_disk env) (getLogPath (logs_dir st) (add64 (current_log_number st) 1)) (log_disk st) = Inr d"
      using assms by (auto simp: disk_works_def)
    then show ?thesis by (simp add: rotate_log_def bind_op_def on_disk_def Let_def)
  qed
  have "\<exists>st'. bind_op (rotate_log env) (\<lambda>_. dropOutdatedLogs env) st = (Inr (), st')" for st
    unfolding bind_op_Inr using rotate [of st] drop by metis
  then show ?thesis by (simp add: rotateAndDropIfNeeded_def Let_def)
qed

lemma load_log_ok:
  assumes env: "dedup_env_ok env files" and rd: "ready env files dropped st recs"
    and lim: "current_log_number st + 1 < size_max"
    and start: "new_dedup_log env (logs_dir st) (deduplication_window st) (log_disk st) = Inr st0"
  shows "\<exists>r st'. load_log env st0 = Some (r, st') \<and> (disk_works (de_disk env) \<longrightarrow> r = Inr ()) \<and> (r = Inr () \<longrightarrow>
    (\<exists>recs'. ready env files dropped st' recs') \<and> deduplication_window st' = deduplication_window st \<and> logs_dir st' = logs_dir st
    \<and> suffix (remembered st') (remembered st) \<and> (\<not> dropped \<longrightarrow> remembered st' = remembered st))"
proof -
  let ?w = "deduplication_window st" and ?dir = "logs_dir st" and ?ks = "log_keys st"
  have R: "logs_inv env files st recs" "table_inv env {} dropped st recs" "writer_ok st"
    "length (recs (current_log_number st)) < 2 * ?w" "?w \<noteq> 0" "3 * ?w + 1 < size_max" "rotate_interval st = 2 * ?w"
    using rd logs_invD(1,2) [of env files st recs] by (auto simp: ready_def)
  note D = logs_invD [OF R(1)]
  have ne: "?ks \<noteq> []" using R(3) by (simp add: writer_ok_def)
  obtain n where n: "n \<in> set ?ks" using ne by (cases ?ks) auto
  then have "getLogPath ?dir n \<in> dom (files (log_disk st))" using D(5) by (auto simp: log_ok_def)
  then have exists_dir: "existsDirectory (de_disk env) (log_disk st) ?dir" using disk_okD(9) [OF env _ in_dir_log] by blast
  then have st0: "st0 = \<lparr>logs_dir = ?dir, deduplication_window = ?w, rotate_interval = mul64 ?w 2, current_log_number = 0,
      existing_logs = [], deduplication_map = LimitedOrderedHashMap ?w, current_writer = None, log_disk = log_disk st, stopped = False\<rparr>"
    using start by (simp add: new_dedup_log_def)
  obtain m where m: "load_logs env (log_disk st) (map bare_log (map (log_entry_of st recs) ?ks)) (LimitedOrderedHashMap ?w)
      = Some (map (log_entry_of st recs) ?ks, m)" "lm_ok m" "lm_max m = ?w" "lm_list m = replay env ?w (concat (map recs ?ks)) []"
    using load_logs_ok [OF env LimitedOrderedHashMap_ok(1), of ?w st ?ks recs] R(5) D(5) by auto
  have last_key: "fst (last (map bare_log (map (log_entry_of st recs) ?ks))) = current_log_number st"
    using D(6) ne by (simp add: last_map bare_log_def log_entry_of_def)
  have "mul64 ?w 2 = 2 * ?w" using R(6) by (simp add: mul64_exact)
  define st1 where "st1 = st0\<lparr>existing_logs := map (log_entry_of st recs) ?ks, current_log_number := current_log_number st, deduplication_map := m\<rparr>"
  have run: "load_log env st0 = Some (bind_op (rotateAndDropIfNeeded env) (\<lambda>_. reopen_last env) st1)"
    using exists_dir scan_existing [OF env R(1)] R(5) m(1) ne last_key
    by (simp add: load_log_def st0 D(4) [symmetric] st1_def) (simp add: D(4))
  have "logs_inv env files st1 recs"
  proof (rule logs_invI)
    show "existing_logs st1 = map (log_entry_of st1 recs) ?ks" by (simp add: st1_def st0 log_entry_of_def)
    show "log_ok env files st1 recs n" if "n \<in> set ?ks" for n using D(5) [OF that] by (simp add: log_ok_def st1_def st0)
  qed (use D(1,3,6,7) \<open>mul64 ?w 2 = 2 * ?w\<close> in \<open>simp_all add: st1_def st0\<close>)
  have tab: "chained env ?w {} (remembered st) (kept st recs)" "tight env ?w (kept st recs)" "list_all (plain_part env) (remembered st)"
    "remembered st = replay env ?w (concat (kept st recs)) [] \<or> ?w < length (concat (kept st recs))"
    "\<not> dropped \<longrightarrow> no_drops (concat (kept st recs))" "length (remembered st) \<le> ?w"
    using R(2) by (auto simp: table_inv_def Let_def lm_ok_def lm_list_def)
  have k1: "kept st1 recs = kept st recs" by (simp add: kept_def st1_def st0 log_keys_def log_entry_of_def comp_def)
  from chained_reload [OF tab(1)] obtain old where old: "chained env ?w {} (lm_list m) (kept st recs)" "remembered st = old @ lm_list m"
    by (auto simp: m(4) kept_def)
  have tab1: "table_inv env {} dropped st1 recs"
    unfolding table_inv_def Let_def k1 using m old tab by (simp add: st1_def st0 kept_def)
  have equal: "lm_list m = remembered st" if "\<not> dropped"
  proof (cases "remembered st = replay env ?w (concat (kept st recs)) []")
    case True
    then show ?thesis by (simp add: m(4) kept_def)
  next
    case False
    obtain k ks where k: "kept st recs = k # ks" using ne by (cases ?ks) (auto simp: kept_def)
    have "length (lm_list m) = min ?w (length (concat (kept st recs)))"
      using tab(2,5) that k by (simp add: m(4) kept_def)
    then have "length (lm_list m) = ?w" using tab(4) False by simp
    then show ?thesis using old(2) tab(6) by simp
  qed
  show ?thesis
  proof (cases "bind_op (rotateAndDropIfNeeded env) (\<lambda>_. reopen_last env) st1")
    case (Pair r st')
    have "(\<exists>recs'. ready env files dropped st' recs') \<and> deduplication_window st' = ?w \<and> logs_dir st' = ?dir \<and> remembered st' = lm_list m"
      if r: "r = Inr ()"
    proof -
      obtain u st2 where st2: "rotateAndDropIfNeeded env st1 = (Inr u, st2)" "reopen_last env st2 = (Inr (), st')"
        using Pair r by (auto simp: bind_op_Inr)
      have "current_log_number st1 + 1 < size_max" "deduplication_window st1 < size_max" using lim R(6) by (simp_all add: st1_def st0)
      from rotateAndDropIfNeeded_ok [OF env \<open>logs_inv env files st1 recs\<close> tab1 this st2(1)] obtain recs2 where
        r2: "logs_inv env files st2 recs2" "table_inv env {} dropped st2 recs2" "same_table st1 st2" "log_keys st2 \<noteq> []"
          "length (recs2 (current_log_number st2)) < rotate_interval st2"
          "current_writer st2 = Some (getLogPath (logs_dir st2) (current_log_number st2))
            \<or> current_writer st2 = current_writer st1 \<and> current_log_number st2 = current_log_number st1" by blast
      have path: "log_path (snd (last (existing_logs st2))) = getLogPath (logs_dir st2) (current_log_number st2)"
        using logs_invD(4,6) [OF r2(1)] r2(4) by (simp add: last_map log_entry_of_def)
      have ne2: "existing_logs st2 \<noteq> []" using r2(4) by (simp add: log_keys_def)
      have reopened: "logs_inv env files st' recs2 \<and> table_inv env {} dropped st' recs2 \<and> same_table st2 st' \<and> log_keys st' = log_keys st2
        \<and> current_log_number st' = current_log_number st2 \<and> rotate_interval st' = rotate_interval st2 \<and> writer_ok st'"
      proof (cases "current_writer st2")
        case None
        then obtain d where d: "open_append (de_disk env) (getLogPath (logs_dir st2) (current_log_number st2)) (log_disk st2) = Inr d"
          and eq: "st' = st2\<lparr>log_disk := d, current_writer := Some (getLogPath (logs_dir st2) (current_log_number st2))\<rparr>"
          using st2(2) ne2 path by (auto simp: reopen_last_def bind_op_Inr on_disk_Inr Let_def)
        have "current_log_number st2 \<in> set (log_keys st2)" using logs_invD(6) [OF r2(1)] r2(4) by simp
        then have "files d = files (log_disk st2)"
          using disk_okD(3) [OF env d] logs_invD(5) [OF r2(1)] by (simp add: log_ok_def)
        note L = logs_invD [OF r2(1)]
        have "logs_inv env files st' recs2"
        proof (rule logs_invI)
          show "existing_logs st' = map (log_entry_of st' recs2) (log_keys st2)"
          proof -
            have "log_entry_of st' recs2 = log_entry_of st2 recs2" "existing_logs st' = existing_logs st2"
              by (simp_all add: eq log_entry_of_def fun_eq_iff)
            then show ?thesis using L(4) by metis
          qed
          show "log_ok env files st' recs2 n" if "n \<in> set (log_keys st2)" for n
            using L(5) [OF that] \<open>files d = files (log_disk st2)\<close> by (simp add: log_ok_def eq)
        qed (use L(1,2,3,6,7) \<open>files d = files (log_disk st2)\<close> in \<open>simp_all add: eq\<close>)
        moreover have "kept st' recs2 = kept st2 recs2" by (simp add: kept_def eq log_keys_def)
        then have "table_inv env {} dropped st' recs2" using r2(2) by (simp add: table_inv_def eq)
        ultimately show ?thesis using r2(4) by (simp add: eq same_table_def log_keys_def writer_ok_def)
      next
        case (Some p)
        have "current_writer st1 = None" by (simp add: st1_def st0)
        then have "current_writer st2 = Some (getLogPath (logs_dir st2) (current_log_number st2))"
          using r2(6) Some by auto
        moreover have "st' = st2" using st2(2) Some by (simp add: reopen_last_def)
        ultimately show ?thesis using r2(1,2,4) by (simp add: same_table_def writer_ok_def)
      qed
      have st1: "deduplication_window st1 = ?w" "logs_dir st1 = ?dir" "deduplication_map st1 = m" "\<not> stopped st1"
        by (simp_all add: st1_def st0)
      then have "ready env files dropped st' recs2"
        using reopened r2(3,5) R(6) by (simp add: ready_def same_table_def)
      then show ?thesis using reopened r2(3) st1 by (auto simp: same_table_def)
    qed
    moreover have "r = Inr ()" if works: "disk_works (de_disk env)"
    proof -
      obtain st2 where st2: "rotateAndDropIfNeeded env st1 = (Inr (), st2)" using rotate_works [OF works] by blast
      have "current_log_number st1 + 1 < size_max" "deduplication_window st1 < size_max" using lim R(6) by (simp_all add: st1_def st0)
      from rotateAndDropIfNeeded_ok [OF env \<open>logs_inv env files st1 recs\<close> tab1 this st2]
      have ne2: "existing_logs st2 \<noteq> []" by (auto simp: log_keys_def)
      obtain d where "open_append (de_disk env) (log_path (snd (last (existing_logs st2)))) (log_disk st2) = Inr d"
        using works by (auto simp: disk_works_def)
      then have "\<exists>st3. reopen_last env st2 = (Inr (), st3)" using ne2
        by (cases "current_writer st2") (simp_all add: reopen_last_def bind_op_def on_disk_def Let_def)
      then show ?thesis using Pair st2 by (auto simp: bind_op_def)
    qed
    ultimately show ?thesis using run Pair old(2) equal by (auto simp: suffix_def)
  qed
qed

section \<open>Runs\<close>

text \<open>
  A table starts with an empty directory; then parts are added and dropped, and the server restarts and
  loads the logs from the disk. The disk does not fail, log numbers and counts stay below \<open>2 ^
  64\<close>, and the window is not changed.
\<close>

inductive dedup_run ::
  "'d dedup_env \<Rightarrow> ('d \<Rightarrow> string \<Rightarrow> string option) \<Rightarrow> string \<Rightarrow> size_t \<Rightarrow> bool \<Rightarrow> 'd dedup_log \<Rightarrow> bool"
  for env files dir window where
  start: "\<forall>p \<in> dom (files d). \<not> in_dir dir p \<Longrightarrow> window \<noteq> 0 \<Longrightarrow> 3 * window + 1 < size_max \<Longrightarrow>
    new_dedup_log env dir window d = Inr st0 \<Longrightarrow> load_log env st0 = Some (Inr (), st) \<Longrightarrow> dedup_run env files dir window False st"
| add_part: "dedup_run env files dir window dropped st \<Longrightarrow> distinct ids \<Longrightarrow> \<forall>id \<in> set ids. plain_part env (id, info) \<Longrightarrow>
    3 * window + length ids < size_max \<Longrightarrow> current_log_number st + 1 < size_max \<Longrightarrow>
    addPart env ids info st = (Inr res, st') \<Longrightarrow> dedup_run env files dir window dropped st'"
| drop_part: "dedup_run env files dir window dropped st \<Longrightarrow> current_log_number st + length (remembered st) < size_max \<Longrightarrow>
    dropPart env drop_info st = (Inr (), st') \<Longrightarrow> dedup_run env files dir window True st'"
| restart: "dedup_run env files dir window dropped st \<Longrightarrow> current_log_number st + 1 < size_max \<Longrightarrow>
    new_dedup_log env dir window (log_disk st) = Inr st0 \<Longrightarrow> load_log env st0 = Some (Inr (), st') \<Longrightarrow>
    dedup_run env files dir window dropped st'"

lemma start_ready:
  assumes env: "dedup_env_ok env files" and dir: "\<forall>p \<in> dom (files d). \<not> in_dir dir p"
    and w: "window \<noteq> 0" "3 * window + 1 < size_max"
    and run: "new_dedup_log env dir window d = Inr st0" "load_log env st0 = Some (Inr (), st)"
  shows "(\<exists>recs. ready env files False st recs) \<and> deduplication_window st = window \<and> logs_dir st = dir"
proof -
  let ?m = "LimitedOrderedHashMap window :: part_info limited_map"
  obtain d' where d': "files d' = files d" "existsDirectory (de_disk env) d' dir"
    and st0: "st0 = \<lparr>logs_dir = dir, deduplication_window = window, rotate_interval = mul64 window 2, current_log_number = 0,
      existing_logs = [], deduplication_map = ?m, current_writer = None, log_disk = d', stopped = False\<rparr>"
  proof (cases "existsDirectory (de_disk env) d dir")
    case True
    then show ?thesis using that [of d] run(1) by (simp add: new_dedup_log_def)
  next
    case False
    then obtain d' where "createDirectories (de_disk env) dir d = Inr d'"
      using run(1) w(1) by (cases "createDirectories (de_disk env) dir d") (auto simp: new_dedup_log_def)
    then show ?thesis using that [of d'] run(1) w(1) False disk_okD(6) [OF env] by (auto simp: new_dedup_log_def)
  qed
  have "set (iterateDirectory (de_disk env) d' dir) = {}" unfolding disk_okD(8) [OF env] using dir d'(1) by auto
  then have none: "iterateDirectory (de_disk env) d' dir = []" by simp
  have mul: "mul64 window 2 = 2 * window" using w(2) by (simp add: mul64_exact)
  have st0': "st0\<lparr>existing_logs := [], current_log_number := 0, deduplication_map := ?m\<rparr> = st0" by (simp add: st0)
  obtain u st1 where st1: "rotateAndDropIfNeeded env st0 = (Inr u, st1)" "reopen_last env st1 = (Inr (), st)"
    using run(2) d'(2) none w(1) by (auto simp: load_log_def st0 bind_op_Inr)
  have inv: "logs_inv env files st0 (\<lambda>_. [])"
    using dir d'(1) w(1) mul by (intro logs_invI [of _ _ "[]"]) (auto simp: st0)
  have tab: "table_inv env {} False st0 (\<lambda>_. [])"
    by (simp add: table_inv_def Let_def st0 kept_def log_keys_def no_drops_def)
  have rd: "bind_op (rotate_log env) (\<lambda>_. dropOutdatedLogs env) st0 = (Inr u, st1)"
    using st1(1) by (simp add: rotateAndDropIfNeeded_def Let_def st0)
  have "current_log_number st0 + 1 < size_max" "deduplication_window st0 < size_max" using w by (simp_all add: st0)
  from rotate_and_drop_ok [OF env inv tab this rd] obtain recs where
    r: "logs_inv env files st1 recs" "table_inv env {} False st1 recs" "same_table st0 st1" "log_keys st1 \<noteq> []"
      "recs (current_log_number st1) = []" "current_writer st1 = Some (getLogPath (logs_dir st1) (current_log_number st1))" by blast
  have "st = st1" using st1(2) r(6) by (simp add: reopen_last_def)
  then have "ready env files False st recs"
    using r w logs_invD(1,2) [OF r(1)] by (simp add: ready_def writer_ok_def same_table_def st0)
  then show ?thesis using r(3) \<open>st = st1\<close> by (auto simp: same_table_def st0)
qed

lemma dedup_run_ready:
  assumes env: "dedup_env_ok env files"
  shows "dedup_run env files dir window dropped st \<Longrightarrow>
    (\<exists>recs. ready env files dropped st recs) \<and> deduplication_window st = window \<and> logs_dir st = dir"
proof (induction rule: dedup_run.induct)
  case (start d st0 st)
  then show ?case using start_ready [OF env] by blast
next
  case (add_part dropped st ids info res st')
  then obtain recs where rd: "ready env files dropped st recs" and eq: "deduplication_window st = window" "logs_dir st = dir" by blast
  show ?case
  proof (cases "\<exists>id \<in> set ids. id \<in> fst ` set (remembered st)")
    case True
    have "lm_ok (deduplication_map st)" "deduplication_window st \<noteq> 0"
      using rd logs_invD(1) [of env files st recs] by (auto simp: ready_def table_inv_def Let_def)
    then have "st' = st" using addPart_duplicate [OF _ _ True] add_part.hyps(6) by simp
    then show ?thesis using rd eq by blast
  next
    case False
    then show ?thesis using addPart_new [OF env rd add_part.hyps(2) _ _ add_part.hyps(5,6)] add_part.hyps(3,4) eq by auto
  qed
next
  case (drop_part dropped st drop_info st')
  then show ?case using dropPart_ok [OF env] by blast
next
  case (restart dropped st st0 st')
  then obtain recs where rd: "ready env files dropped st recs" and eq: "deduplication_window st = window" "logs_dir st = dir" by blast
  have "new_dedup_log env (logs_dir st) (deduplication_window st) (log_disk st) = Inr st0" using restart.hyps(3) eq by simp
  from load_log_ok [OF env rd restart.hyps(2) this] restart.hyps(4) show ?case using eq by auto
qed

section \<open>The window\<close>

lemma limited_inserts:
  "distinct ids \<Longrightarrow> set ids \<inter> fst ` set q = {} \<Longrightarrow> length q \<le> n \<Longrightarrow> n \<noteq> 0 \<Longrightarrow>
   fold (\<lambda>id. limited_insert n id v) ids q = drop (length q + length ids - n) (q @ map (\<lambda>id. (id, v)) ids)"
proof (induction ids arbitrary: q)
  case (Cons id ids)
  let ?q = "limited_insert n id v q"
  have q: "?q = drop (Suc (length q) - n) (q @ [(id, v)])"
    using Cons.prems by (cases "length q = n") (auto simp: limited_insert_def drop_Suc Suc_diff_le)
  have "set ids \<inter> fst ` set ?q = {}" using limited_insert_subset [of n id v q] Cons.prems(1,2) by force
  moreover have len: "length ?q \<le> n" by (rule limited_insert_length [OF Cons.prems(3,4)])
  ultimately have "fold (\<lambda>id. limited_insert n id v) ids ?q = drop (length ?q + length ids - n) (?q @ map (\<lambda>id. (id, v)) ids)"
    using Cons.IH Cons.prems by simp
  also have "\<dots> = drop (length q + length (id # ids) - n) (q @ map (\<lambda>id. (id, v)) (id # ids))"
  proof (cases "length q = n")
    case True
    then show ?thesis unfolding q using Cons.prems(4) by (cases q) simp_all
  next
    case False
    then show ?thesis unfolding q using Cons.prems(3) by simp
  qed
  finally show ?case by simp
qed simp

text \<open>
  C29: What a table remembers of its inserts. When a block id of the new part is remembered, nothing
  changes and the ids that collide are returned with the parts they belong to; otherwise the ids are
  remembered in order, and only the oldest ones beyond the window are forgotten.
\<close>
theorem addPart_window:
  assumes "dedup_env_ok env files" "dedup_run env files dir window dropped st"
    and "distinct ids" "\<forall>id \<in> set ids. plain_part env (id, info)"
    and "3 * window + length ids < size_max" "current_log_number st + 1 < size_max"
    and "addPart env ids info st = (Inr res, st')"
  shows "if \<exists>id \<in> set ids. id \<in> fst ` set (remembered st)
    then st' = st \<and> res = map (\<lambda>id. (the (map_of (remembered st) id), id)) (filter (\<lambda>id. id \<in> fst ` set (remembered st)) ids)
    else res = [] \<and> remembered st' =
      drop (length (remembered st) + length ids - window) (remembered st @ map (\<lambda>id. (id, info)) ids)"
proof -
  obtain recs where rd: "ready env files dropped st recs" and w: "deduplication_window st = window"
    using dedup_run_ready [OF assms(1,2)] by blast
  have ok: "lm_ok (deduplication_map st)" "window \<noteq> 0" "length (remembered st) \<le> window"
    using rd w logs_invD(1) [of env files st recs] by (auto simp: ready_def table_inv_def Let_def lm_ok_def lm_list_def)
  show ?thesis
  proof (cases "\<exists>id \<in> set ids. id \<in> fst ` set (remembered st)")
    case True
    then show ?thesis using addPart_duplicate [OF ok(1) _ True, of env info] ok(2) w assms(7) by auto
  next
    case False
    have "set ids \<inter> fst ` set (remembered st) = {}" using False by auto
    from limited_inserts [OF assms(3) this ok(3,2)] show ?thesis
      using addPart_new [OF assms(1) rd assms(3) _ _ assms(6,7)] assms(4,5) False w by auto
  qed
qed

text \<open>
  Dropping a part forgets exactly the block ids of the parts it covers and keeps the order of the
  others, however often the log is rotated meanwhile.
\<close>
theorem dropPart_forgets:
  assumes "dedup_env_ok env files" "dedup_run env files dir window dropped st"
    and "current_log_number st + length (remembered st) < size_max" "dropPart env drop_info st = (Inr u, st')"
  shows "remembered st' = filter (\<lambda>e. \<not> contains drop_info (snd e)) (remembered st)"
  using dedup_run_ready [OF assms(1,2)] dropPart_ok [OF assms(1) _ assms(3,4)] by blast

text \<open>
  C28: A restart loads the history back. Loading the logs that a run left on the disk returns, and without
  an exception when files can be opened and removed; what is remembered then is the newest part of what was
  remembered before: all of it, when no part was ever dropped. The runs are those of one window size: a
  change of the setting is not among their steps (when the window was enlarged, the logs may hold block ids
  that the table had forgotten before, and a restart remembers them again).
\<close>
theorem restart_remembers:
  assumes "dedup_env_ok env files" "dedup_run env files dir window dropped st" "current_log_number st + 1 < size_max"
    and "new_dedup_log env dir window (log_disk st) = Inr st0"
  shows "\<exists>r st'. load_log env st0 = Some (r, st') \<and> (disk_works (de_disk env) \<longrightarrow> r = Inr ()) \<and>
    (r = Inr () \<longrightarrow> suffix (remembered st') (remembered st) \<and> (\<not> dropped \<longrightarrow> remembered st' = remembered st))"
proof -
  obtain recs where rd: "ready env files dropped st recs" and eq: "deduplication_window st = window" "logs_dir st = dir"
    using dedup_run_ready [OF assms(1,2)] by blast
  then have "new_dedup_log env (logs_dir st) (deduplication_window st) (log_disk st) = Inr st0" using assms(4) by simp
  from load_log_ok [OF assms(1) rd assms(3) this] show ?thesis by blast
qed

text \<open>
  The text forms round trip: a record whose fields hold no tab and no line feed is read back up to
  the next record, and the number of a log file is read back from its path in any directory.
\<close>
theorem log_text_roundtrip:
  assumes "dedup_env_ok env files"
  shows "(writable_record r \<longrightarrow> readRecord env (writeRecord env r @ rest) = Inr (r, rest))
    \<and> (n < size_max \<longrightarrow> getLogNumber env (getLogPath dir n) = Inr n)"
  using record_read_back [OF assms] getLogNumber_path [OF assms] by blast

text \<open>
  Setting the window to 0 before any log was started is undefined: no log is created for a window
  of 0, but the last log is opened without a check that there is one.
\<close>
theorem window_zero_undefined:
  assumes "existing_logs st = []" "current_writer st = None" "\<not> stopped st"
  shows "fst (setDeduplicationWindowSize env 0 st) = Inl UB"
  using assms
  by (simp add: setDeduplicationWindowSize_def bind_op_def rotateAndDropIfNeeded_def Let_def rotate_log_def
      dropOutdatedLogs_def reopen_last_def)

section \<open>An example\<close>

text \<open>A disk that is a list of files, on which files are rewritten instead of appended to; decimal numbers.\<close>

definition list_disk :: "(string \<times> string) list disk_ops" where
  "list_disk = \<lparr>existsDirectory = (\<lambda>_ _. True), is_object_storage = (\<lambda>_. False), is_plain_metadata = (\<lambda>_. False),
     supportWritingWithAppend = (\<lambda>_. False), createDirectories = (\<lambda>_. Inr),
     iterateDirectory = (\<lambda>d dir. filter (\<lambda>p. p = path_append dir (path_filename p)) (remdups (map fst d))),
     readFile = (\<lambda>d p. case map_of d p of None \<Rightarrow> Inl BAD_ARGUMENTS | Some s \<Rightarrow> Inr s),
     open_rewrite = (\<lambda>p d. Inr ((p, []) # filter (\<lambda>e. fst e \<noteq> p) d)),
     open_append = (\<lambda>_. Inr),
     write_next = (\<lambda>p s d. case map_of d p of None \<Rightarrow> Inl BAD_ARGUMENTS | Some t \<Rightarrow> Inr ((p, t @ s) # filter (\<lambda>e. fst e \<noteq> p) d)),
     removeFile = (\<lambda>p d. Inr (filter (\<lambda>e. fst e \<noteq> p) d))\<rparr>"

definition field_codec :: "string codec" where
  "field_codec = \<lparr>put_value = (\<lambda>s. s),
     get_value = (\<lambda>inp. Inr (takeWhile (\<lambda>c. c \<noteq> TAB \<and> c \<noteq> LF) inp, dropWhile (\<lambda>c. c \<noteq> TAB \<and> c \<noteq> LF) inp))\<rparr>"

definition byte_codec :: "nat codec" where
  "byte_codec = \<lparr>put_value = (\<lambda>n. [char_of n]),
     get_value = (\<lambda>inp. case inp of [] \<Rightarrow> Inl CANNOT_PARSE | c # rest \<Rightarrow> Inr (of_char c, rest))\<rparr>"

definition demo_dedup :: "(string \<times> string) list dedup_env" where
  "demo_dedup = \<lparr>de_io = dec_io, de_version = 1, de_disk = list_disk, op_text = byte_codec, field_text = field_codec,
     parse_size = (\<lambda>s. Inr (dec_value s))\<rparr>"

lemma in_dir_iff: "in_dir dir p \<longleftrightarrow> p = path_append dir (path_filename p)"
proof
  assume "in_dir dir p"
  then show "p = path_append dir (path_filename p)" using path_filename_append by (auto simp: in_dir_def)
next
  assume "p = path_append dir (path_filename p)"
  moreover have "CHR ''/'' \<notin> set (path_filename p)" by (auto simp: path_filename_def dest: set_takeWhileD)
  ultimately show "in_dir dir p" unfolding in_dir_def by blast
qed

lemma map_of_filter_ne: "map_of (filter (\<lambda>e. fst e \<noteq> p) d) = (map_of d)(p := None)"
  by (induction d) auto

lemma demo_dedup_ok: "dedup_env_ok demo_dedup map_of"
proof -
  have "disk_ok list_disk map_of"
    unfolding disk_ok_def list_disk_def
    by (auto simp: map_of_filter_ne in_dir_iff dom_map_of_conv_image_fst fun_eq_iff split: option.splits)
  moreover have "get_value field_codec (put_value field_codec s @ c # rest) = Inr (s, c # rest)"
    if "plain_field s" "c \<in> {TAB, LF}" for s c rest
  proof -
    have "takeWhile (\<lambda>c. c \<noteq> TAB \<and> c \<noteq> LF) (s @ c # rest) = s" "dropWhile (\<lambda>c. c \<noteq> TAB \<and> c \<noteq> LF) (s @ c # rest) = c # rest"
      using that by (induction s) (auto simp: plain_field_def)
    then show ?thesis by (simp add: field_codec_def)
  qed
  moreover have "get_value byte_codec (put_value byte_codec n @ TAB # rest) = Inr (n, TAB # rest)" if "n < 256" for n rest
    using that by (simp add: byte_codec_def)
  ultimately show ?thesis
    by (simp add: dedup_env_ok_def demo_dedup_def dec_io_ok MIN_FORMAT_VERSION_WITH_CUSTOM_PARTITIONING_def)
qed

definition demo_path :: "nat \<Rightarrow> string" where "demo_path n = getLogPath ''d'' n"

lemma demo_path_iff [simp]: "demo_path n = demo_path m \<longleftrightarrow> n = m"
proof -
  have "dec_value (drop 18 (path_stem (demo_path k))) = k" for k by (simp add: demo_path_def path_stem_log)
  then show ?thesis by metis
qed

definition demo_state :: "nat \<Rightarrow> (nat \<times> nat) list \<Rightarrow> part_info limited_map \<Rightarrow> (nat \<times> string) list \<Rightarrow> (string \<times> string) list dedup_log" where
  "demo_state n logs m d = \<lparr>logs_dir = ''d'', deduplication_window = 2, rotate_interval = 4, current_log_number = n,
     existing_logs = map (\<lambda>(k, c). (k, \<lparr>log_path = demo_path k, entries_count = c\<rparr>)) logs, deduplication_map = m,
     current_writer = Some (demo_path n), log_disk = map (\<lambda>(k, s). (demo_path k, s)) d, stopped = False\<rparr>"

lemma demo_dedup_simps:
  "de_io demo_dedup = dec_io" "de_version demo_dedup = 1" "de_disk demo_dedup = list_disk"
  "\<not> supportWritingWithAppend list_disk d" "existsDirectory list_disk d p"
  "iterateDirectory list_disk d dir = filter (\<lambda>p. p = path_append dir (path_filename p)) (remdups (map fst d))"
  "readFile list_disk d p = (case map_of d p of None \<Rightarrow> Inl BAD_ARGUMENTS | Some s \<Rightarrow> Inr s)"
  "open_rewrite list_disk p d = Inr ((p, []) # filter (\<lambda>e. fst e \<noteq> p) d)" "open_append list_disk p d = Inr d"
  "write_next list_disk p s d = (case map_of d p of None \<Rightarrow> Inl BAD_ARGUMENTS | Some t \<Rightarrow> Inr ((p, t @ s) # filter (\<lambda>e. fst e \<noteq> p) d))"
  "removeFile list_disk p d = Inr (filter (\<lambda>e. fst e \<noteq> p) d)"
  by (simp_all add: demo_dedup_def list_disk_def)

lemmas dedup_eval = addPart_def bind_op_def on_disk_def append_record_def lm_insert_def lm_size_def pop_front_def lm_contains_def
  rotateAndDropIfNeeded_def Let_def rotate_log_def dropOutdatedLogs_def touch_log_def log_at_def return_op_def reopen_last_def
  demo_dedup_simps getPartNameAndCheckFormat_def MIN_FORMAT_VERSION_WITH_CUSTOM_PARTITIONING_def add64_exact
  LimitedOrderedHashMap_def map_erase_def dropPart_def lm_erase_def size_max_def

definition demo_A :: part_info where "demo_A = PartInfo ''all'' 1 1 0 0"
definition demo_B :: part_info where "demo_B = PartInfo ''all'' 2 2 0 0"

definition demo_text :: "nat \<Rightarrow> string \<Rightarrow> part_info \<Rightarrow> string" where
  "demo_text op key info = writeRecord demo_dedup (part_record demo_dedup op key info)"

lemma demo_text_fold: "writeRecord demo_dedup \<lparr>operation = op, rec_part_name = getPartNameV1 dec_io info, rec_block_id = key\<rparr> = demo_text op key info"
  by (simp add: demo_text_def part_record_def demo_dedup_def)

text \<open>The states of the run: after the start, the parts A and B, dropping B, and adding B again.\<close>

definition demo_1 :: "(string \<times> string) list dedup_log" where
  "demo_1 = demo_state 1 [(1, 0)] (LimitedOrderedHashMap 2) [(1, [])]"

definition demo_2 :: "(string \<times> string) list dedup_log" where
  "demo_2 = demo_state 2 [(1, 1), (2, 0)]
     \<lparr>lm_queue = [(0, ''a'', demo_A)], lm_index = [''a'' \<mapsto> 0], lm_max = 2, lm_next = 1\<rparr>
     [(2, []), (1, demo_text OP_ADD ''a'' demo_A)]"

definition demo_3 :: "(string \<times> string) list dedup_log" where
  "demo_3 = demo_state 3 [(1, 1), (2, 1), (3, 0)]
     \<lparr>lm_queue = [(0, ''a'', demo_A), (1, ''b'', demo_B)], lm_index = [''a'' \<mapsto> 0, ''b'' \<mapsto> 1], lm_max = 2, lm_next = 2\<rparr>
     [(3, []), (2, demo_text OP_ADD ''b'' demo_B), (1, demo_text OP_ADD ''a'' demo_A)]"

definition demo_4 :: "(string \<times> string) list dedup_log" where
  "demo_4 = demo_state 4 [(1, 1), (2, 1), (3, 1), (4, 0)]
     \<lparr>lm_queue = [(0, ''a'', demo_A)], lm_index = [''a'' \<mapsto> 0], lm_max = 2, lm_next = 2\<rparr>
     [(4, []), (3, demo_text OP_DROP ''b'' demo_B), (2, demo_text OP_ADD ''b'' demo_B), (1, demo_text OP_ADD ''a'' demo_A)]"

definition demo_5 :: "(string \<times> string) list dedup_log" where
  "demo_5 = demo_state 5 [(2, 1), (3, 1), (4, 1), (5, 0)]
     \<lparr>lm_queue = [(0, ''a'', demo_A), (2, ''b'', demo_B)], lm_index = [''a'' \<mapsto> 0, ''b'' \<mapsto> 2], lm_max = 2, lm_next = 3\<rparr>
     [(5, []), (4, demo_text OP_ADD ''b'' demo_B), (3, demo_text OP_DROP ''b'' demo_B), (2, demo_text OP_ADD ''b'' demo_B)]"

lemmas demo_eval = demo_state_def dedup_eval demo_text_fold demo_path_def [symmetric]

lemma demo_covers: "\<not> contains demo_B demo_A" "contains demo_B demo_B"
  by (simp_all add: demo_A_def demo_B_def PartInfo_def contains_def)

lemma demo_steps:
  "addPart demo_dedup [''a''] demo_A demo_1 = (Inr [], demo_2)"
  "addPart demo_dedup [''b''] demo_B demo_2 = (Inr [], demo_3)"
  "dropPart demo_dedup demo_B demo_3 = (Inr (), demo_4)"
  "addPart demo_dedup [''b''] demo_B demo_4 = (Inr [], demo_5)"
  by (simp_all add: demo_1_def demo_2_def demo_3_def demo_4_def demo_5_def demo_eval demo_covers)

lemma demo_load:
  "\<exists>st0. new_dedup_log demo_dedup ''d'' 2 [] = Inr st0 \<and> load_log demo_dedup st0 = Some (Inr (), demo_1)"
  by (simp add: demo_1_def new_dedup_log_def load_log_def demo_eval mul64_def)

lemma demo_plain: "plain_part demo_dedup (''a'', demo_A)" "plain_part demo_dedup (''b'', demo_B)"
proof -
  have "TAB \<notin> set (dec_of_nat n)" "LF \<notin> set (dec_of_nat n)" for n
    by (auto simp: TAB_def LF_def is_digit_def intro!: dec_of_nat_plain)
  then show "plain_part demo_dedup (''a'', demo_A)" "plain_part demo_dedup (''b'', demo_B)"
    by (simp_all add: plain_part_def demo_A_def demo_B_def printable_def PartInfo_def wf_info_def LEGACY_MAX_LEVEL_def plain_field_def
        demo_dedup_simps getPartNameV1_def name_suffix_def dec_io_def dec_of_int_def) (simp_all add: TAB_def LF_def)
qed

lemma demo_load_text:
  assumes "plain_part demo_dedup (key, info)" "op \<in> {OP_ADD, OP_DROP}"
  shows "load_records demo_dedup (demo_text op key info) m c =
    (if op = OP_DROP then Some (Inr (add64 c 1), fst (lm_erase key m))
     else case lm_insert key info m of Inl e \<Rightarrow> Some (Inl e, m) | Inr (m, _) \<Rightarrow> Some (Inr (add64 c 1), m))"
proof -
  let ?r = "part_record demo_dedup op key info"
  note good = part_record_good [OF demo_dedup_ok assms]
  have "readRecord demo_dedup (demo_text op key info) = Inr (?r, [])"
    using record_read_back [OF demo_dedup_ok, of ?r "[]"] good(1) by (simp add: demo_text_def good_record_def)
  moreover have "load_record demo_dedup ?r m =
      (if op = OP_DROP then Inr (fst (lm_erase key m)) else bind_r (lm_insert key info m) (\<lambda>(m, _). Inr m))"
    using good by (simp add: load_record_def good_record_def) (simp add: part_record_def)
  ultimately show ?thesis
    by (subst load_records.simps)
       (auto simp: demo_text_def writeRecord_not_Nil load_records.simps [of _ "[]"] split: sum.splits)
qed

lemma demo_path_dir [simp]: "path_append ''d'' (path_filename (demo_path n)) = demo_path n"
  using in_dir_log [of "''d''" n] by (simp add: demo_path_def in_dir_iff)

lemma demo_path_number: "n < size_max \<Longrightarrow> getLogNumber demo_dedup (demo_path n) = Inr n"
  using getLogNumber_path [OF demo_dedup_ok] by (simp add: demo_path_def)

lemma demo_reload:
  "\<exists>st0 st'. new_dedup_log demo_dedup ''d'' 2 (log_disk demo_5) = Inr st0 \<and> load_log demo_dedup st0 = Some (Inr (), st')
    \<and> remembered st' = [(''b'', demo_B)]"
  by (simp add: demo_5_def new_dedup_log_def load_log_def demo_eval mul64_def demo_path_number
      loadSingleLog_def demo_load_text demo_plain load_records.simps [of _ "[]"] OP_ADD_def OP_DROP_def lm_list_def)

lemma demo_numbers: "current_log_number demo_1 = 1" "current_log_number demo_2 = 2" "current_log_number demo_3 = 3" "current_log_number demo_4 = 4"
  "remembered demo_2 = [(''a'', demo_A)]" "remembered demo_3 = [(''a'', demo_A), (''b'', demo_B)]"
  by (simp_all add: demo_4_def demo_3_def demo_2_def demo_1_def demo_state_def lm_list_def)

lemma demo_runs:
  "dedup_run demo_dedup map_of ''d'' 2 False demo_2" "dedup_run demo_dedup map_of ''d'' 2 False demo_3"
  "dedup_run demo_dedup map_of ''d'' 2 True demo_5"
proof -
  obtain st0 where "new_dedup_log demo_dedup ''d'' 2 [] = Inr st0" "load_log demo_dedup st0 = Some (Inr (), demo_1)"
    using demo_load by auto
  then have 1: "dedup_run demo_dedup map_of ''d'' 2 False demo_1" by (intro start [of map_of]) (simp_all add: size_max_def)
  show 2: "dedup_run demo_dedup map_of ''d'' 2 False demo_2"
    by (rule add_part [OF 1 _ _ _ _ demo_steps(1)]) (simp_all add: demo_plain demo_numbers size_max_def)
  show 3: "dedup_run demo_dedup map_of ''d'' 2 False demo_3"
    by (rule add_part [OF 2 _ _ _ _ demo_steps(2)]) (simp_all add: demo_plain demo_numbers size_max_def)
  have 4: "dedup_run demo_dedup map_of ''d'' 2 True demo_4"
    by (rule drop_part [OF 3 _ demo_steps(3)]) (simp add: demo_numbers size_max_def)
  show "dedup_run demo_dedup map_of ''d'' 2 True demo_5"
    by (rule add_part [OF 4 _ _ _ _ demo_steps(4)]) (simp_all add: demo_plain demo_numbers size_max_def)
qed

text \<open>
  Drops shorten the window across a restart. The records of drops count as entries when outdated
  logs are removed, so a log can be removed that holds a block id still remembered in memory: after
  adding a and b, dropping b and adding b again with a window of 2, both are remembered, but after a
  restart only b is, and the block a would be inserted twice.
\<close>
theorem drops_shorten_the_window:
  "\<exists>st st0 st'. dedup_run demo_dedup map_of ''d'' 2 True st \<and> remembered st = [(''a'', demo_A), (''b'', demo_B)]
    \<and> new_dedup_log demo_dedup ''d'' 2 (log_disk st) = Inr st0 \<and> load_log demo_dedup st0 = Some (Inr (), st')
    \<and> remembered st' = [(''b'', demo_B)]"
proof -
  have "remembered demo_5 = [(''a'', demo_A), (''b'', demo_B)]" by (simp add: demo_5_def demo_state_def lm_list_def)
  then show ?thesis using demo_reload demo_runs(3) by blast
qed

theorem addPart_window_witness: "remembered demo_3 = [(''a'', demo_A)] @ [(''b'', demo_B)]"
  using addPart_window [OF demo_dedup_ok demo_runs(1) _ _ _ _ demo_steps(2)]
  by (simp add: demo_plain demo_numbers(1-5) size_max_def)

theorem dropPart_forgets_witness: "remembered demo_4 = [(''a'', demo_A)]"
  using dropPart_forgets [OF demo_dedup_ok demo_runs(2) _ demo_steps(3)] by (simp add: demo_numbers demo_covers size_max_def)

theorem restart_remembers_witness:
  "\<exists>st0 st'. new_dedup_log demo_dedup ''d'' 2 (log_disk demo_3) = Inr st0 \<and> load_log demo_dedup st0 = Some (Inr (), st')
    \<and> remembered st' = [(''a'', demo_A), (''b'', demo_B)]"
proof -
  obtain st0 where st0: "new_dedup_log demo_dedup ''d'' 2 (log_disk demo_3) = Inr st0"
    by (simp add: new_dedup_log_def demo_dedup_simps)
  have "disk_works (de_disk demo_dedup)" by (simp add: disk_works_def demo_dedup_simps)
  with restart_remembers [OF demo_dedup_ok demo_runs(2) _ st0] st0 show ?thesis by (auto simp: demo_numbers size_max_def)
qed

theorem log_text_roundtrip_witness:
  "readRecord demo_dedup (writeRecord demo_dedup (part_record demo_dedup OP_ADD ''a'' demo_A) @ ''x'')
     = Inr (part_record demo_dedup OP_ADD ''a'' demo_A, ''x'')
   \<and> getLogNumber demo_dedup (getLogPath ''table/deduplication_logs'' 12) = Inr 12"
  using log_text_roundtrip [OF demo_dedup_ok, of "part_record demo_dedup OP_ADD ''a'' demo_A" "''x''" 12 "''table/deduplication_logs''"]
    part_record_good(1) [OF demo_dedup_ok demo_plain(1), of OP_ADD]
  by (simp add: good_record_def size_max_def)

theorem window_zero_undefined_witness:
  "\<exists>st. new_dedup_log demo_dedup ''d'' 0 [] = Inr st \<and> fst (setDeduplicationWindowSize demo_dedup 0 st) = Inl UB"
proof -
  let ?st = "\<lparr>logs_dir = ''d'', deduplication_window = 0, rotate_interval = mul64 0 2, current_log_number = 0, existing_logs = [],
    deduplication_map = LimitedOrderedHashMap 0, current_writer = None, log_disk = [], stopped = False\<rparr>"
  have "new_dedup_log demo_dedup ''d'' 0 [] = Inr ?st" by (simp add: new_dedup_log_def)
  moreover have "fst (setDeduplicationWindowSize demo_dedup 0 ?st) = Inl UB" by (rule window_zero_undefined) simp_all
  ultimately show ?thesis by blast
qed

end
