(* ===== verification/Disjoint_Ranges.thy ===== *)
theory Disjoint_Ranges
  imports Ordered_Map
begin

text \<open>
  \<open>DisjointPartsRangesSet\<close>
  (\<open>Compaction/MergeSelectors/DisjointPartsRangesSet.cpp\<close>): which parts the merge selectors
  have already given away. An iterator over the ranges of parts is the index of a range, an iterator over
  the parts of a range is the index of a part. The set of boundaries of one range is a
  \<open>std::set\<close> ordered by the begin, hence a map from the begin to the end.
\<close>

type_synonym sorted_ranges = "(nat, nat) ordered_map"

type_synonym parts_boundaries = "nat \<times> nat"

record disjoint_set =
  disjoint :: "nat \<Rightarrow> sorted_ranges option"

definition DisjointPartsRangesSet :: disjoint_set where
  "DisjointPartsRangesSet = \<lparr>disjoint = (\<lambda>_. None)\<rparr>"

definition boundaries_disjoint :: "parts_boundaries \<Rightarrow> parts_boundaries \<Rightarrow> bool" where
  "boundaries_disjoint l r \<longleftrightarrow> snd l \<le> fst r \<or> snd r \<le> fst l"

text \<open>The boundaries before and from \<open>upper_bound\<close>, the first one that begins after the argument.\<close>

definition up_to :: "nat \<Rightarrow> sorted_ranges \<Rightarrow> sorted_ranges" where
  "up_to p m = takeWhile (\<lambda>e. fst e \<le> p) m"

definition after :: "nat \<Rightarrow> sorted_ranges \<Rightarrow> sorted_ranges" where
  "after p m = dropWhile (\<lambda>e. fst e \<le> p) m"

definition disjoint_from_ranges :: "parts_boundaries \<Rightarrow> sorted_ranges \<Rightarrow> bool" where
  "disjoint_from_ranges x m \<longleftrightarrow>
     (case after (fst x) m of [] \<Rightarrow> True | e # _ \<Rightarrow> boundaries_disjoint x e)
     \<and> (if up_to (fst x) m = [] then True else boundaries_disjoint x (last (up_to (fst x) m)))"

definition covered_by_ranges :: "nat \<Rightarrow> sorted_ranges \<Rightarrow> bool" where
  "covered_by_ranges p m \<longleftrightarrow>
     (if up_to p m = [] then False
      else (let (b, e) = last (up_to p m) in b \<le> p \<and> p < e))"

definition isCovered :: "disjoint_set \<Rightarrow> nat \<Rightarrow> nat \<Rightarrow> bool" where
  "isCovered s range_it part_it =
     (case disjoint s range_it of None \<Rightarrow> False | Some m \<Rightarrow> covered_by_ranges part_it m)"

text \<open>\<open>std::set::insert\<close> keeps an equivalent element.\<close>

definition insert_boundaries :: "parts_boundaries \<Rightarrow> sorted_ranges \<Rightarrow> sorted_ranges" where
  "insert_boundaries x m = (if map_of m (fst x) = None then map_put (fst x) (snd x) m else m)"

definition addRangeIfPossible :: "disjoint_set \<Rightarrow> nat \<Rightarrow> nat \<Rightarrow> nat \<Rightarrow> bool \<times> disjoint_set" where
  "addRangeIfPossible s range_it range_begin range_end =
     (let m = (case disjoint s range_it of None \<Rightarrow> [] | Some m \<Rightarrow> m);
          x = (range_begin, range_end)
      in if \<not> disjoint_from_ranges x m then (False, s\<lparr>disjoint := (disjoint s)(range_it \<mapsto> m)\<rparr>)
         else (True, s\<lparr>disjoint := (disjoint s)(range_it \<mapsto> insert_boundaries x m)\<rparr>))"

section \<open>The contract\<close>

text \<open>
  A span is a range of parts with the index of its first part and the index after its last. Two spans are
  apart when they have no part in common.
\<close>

type_synonym span = "nat \<times> nat \<times> nat"

definition span_parts :: "span \<Rightarrow> (nat \<times> nat) set" where
  "span_parts x = (case x of (r, b, e) \<Rightarrow> {r} \<times> {b..<e})"

definition apart :: "span \<Rightarrow> span \<Rightarrow> bool" where
  "apart x y \<longleftrightarrow> span_parts x \<inter> span_parts y = {}"

definition span_ok :: "span \<Rightarrow> bool" where
  "span_ok x \<longleftrightarrow> fst (snd x) < snd (snd x)"

definition spans_apart :: "span set \<Rightarrow> bool" where
  "spans_apart X \<longleftrightarrow> (\<forall>x \<in> X. span_ok x) \<and> (\<forall>x \<in> X. \<forall>y \<in> X. x = y \<or> apart x y)"

lemma apart_iff:
  assumes "b < e" "b' < e'"
  shows "apart (r, b, e) (r', b', e') \<longleftrightarrow> r \<noteq> r' \<or> e \<le> b' \<or> e' \<le> b"
proof (cases "r = r' \<and> \<not> e \<le> b' \<and> \<not> e' \<le> b")
  case True
  then have "(r, max b b') \<in> span_parts (r, b, e) \<inter> span_parts (r', b', e')"
    using assms by (auto simp: span_parts_def)
  then have "\<not> apart (r, b, e) (r', b', e')" unfolding apart_def by blast
  then show ?thesis using True by blast
next
  case False
  then show ?thesis by (auto simp: apart_def span_parts_def)
qed

lemma apart_sym: "apart x y \<Longrightarrow> apart y x"
  by (auto simp: apart_def)

lemma not_apart_self: "span_ok x \<Longrightarrow> \<not> apart x x"
  by (cases x) (auto simp: span_ok_def apart_def span_parts_def)

text \<open>What the selectors use of the set: its parts, and that a granted range is apart from all before.\<close>

locale parts_cover =
  fixes cov :: "'s \<Rightarrow> nat \<Rightarrow> nat \<Rightarrow> bool"
    and add :: "'s \<Rightarrow> nat \<Rightarrow> nat \<Rightarrow> nat \<Rightarrow> bool \<times> 's"
    and granted :: "'s \<Rightarrow> span set"
    and ok :: "'s \<Rightarrow> bool"
  assumes cov_iff: "ok s \<Longrightarrow> cov s r p \<longleftrightarrow> (\<exists>x \<in> granted s. (r, p) \<in> span_parts x)"
    and add_ok: "ok s \<Longrightarrow> b < e \<Longrightarrow> ok (snd (add s r b e))"
    and add_granted: "ok s \<Longrightarrow> b < e \<Longrightarrow>
      granted (snd (add s r b e)) = (if fst (add s r b e) then insert (r, b, e) (granted s) else granted s)"
    and add_iff: "ok s \<Longrightarrow> b < e \<Longrightarrow> fst (add s r b e) \<longleftrightarrow> (\<forall>x \<in> granted s. apart (r, b, e) x)"
    and ok_apart: "ok s \<Longrightarrow> spans_apart (granted s)"
begin

lemma cov_after_add:
  assumes "ok s" "b < e" "fst (add s r b e)"
  shows "cov (snd (add s r b e)) r' p \<longleftrightarrow> cov s r' p \<or> (r' = r \<and> b \<le> p \<and> p < e)"
  using assms by (auto simp: cov_iff add_ok add_granted span_parts_def)

lemma add_uncovered:
  assumes s: "ok s" and "b < e"
  shows "fst (add s r b e) \<longleftrightarrow> (\<forall>p \<in> {b..<e}. \<not> cov s r p)"
proof -
  have "apart (r, b, e) x \<longleftrightarrow> (\<forall>p \<in> {b..<e}. (r, p) \<notin> span_parts x)" for x
    by (auto simp: apart_def span_parts_def)
  then show ?thesis using assms by (auto simp: add_iff cov_iff)
qed

lemma added_apart:
  assumes "ok s" "b < e" "fst (add s r b e)" "x \<in> granted s"
  shows "apart (r, b, e) x" "(r, b, e) \<noteq> x"
proof -
  show *: "apart (r, b, e) x" using assms by (simp add: add_iff)
  show "(r, b, e) \<noteq> x" using * not_apart_self [of x] assms by (auto simp: span_ok_def)
qed

end

section \<open>The sorted boundaries keep the contract\<close>

definition sorted_ok :: "sorted_ranges \<Rightarrow> bool" where
  "sorted_ok m \<longleftrightarrow> map_ok m \<and> (\<forall>x \<in> set m. fst x < snd x)
     \<and> (\<forall>x \<in> set m. \<forall>y \<in> set m. fst x < fst y \<longrightarrow> snd x \<le> fst y)"

lemma sorted_ok_Nil [simp]: "sorted_ok []"
  by (simp add: sorted_ok_def)

lemma up_to_eq: "map_ok m \<Longrightarrow> up_to p m = filter (\<lambda>e. fst e \<le> p) m"
proof (induction m)
  case (Cons e m)
  then have "filter (\<lambda>x. fst x \<le> p) m = []" if "\<not> fst e \<le> p"
    using that by (fastforce simp: filter_empty_conv)
  then show ?case using Cons by (auto simp: up_to_def)
qed (simp add: up_to_def)

lemma after_eq: "map_ok m \<Longrightarrow> after p m = filter (\<lambda>e. p < fst e) m"
proof (induction m)
  case (Cons e m)
  then have "filter (\<lambda>x. p < fst x) m = m" if "\<not> fst e \<le> p"
    using that by (fastforce simp: filter_id_conv)
  then show ?case using Cons by (auto simp: after_def)
qed (simp add: after_def)

lemma map_ok_filter: "map_ok m \<Longrightarrow> map_ok (filter P m)"
  by (induction m) auto

lemma map_ok_last: "map_ok m \<Longrightarrow> x \<in> set m \<Longrightarrow> fst x \<le> fst (last m)"
proof (induction m)
  case (Cons e m)
  then show ?case by (cases "m = []") (auto intro: less_imp_le)
qed simp

text \<open>The neighbours around a point decide for all boundaries.\<close>

lemma last_up_to:
  assumes m: "map_ok m" and ne: "up_to p m \<noteq> []"
  shows "last (up_to p m) \<in> set m" "fst (last (up_to p m)) \<le> p"
    "\<And>x. x \<in> set m \<Longrightarrow> fst x \<le> p \<Longrightarrow> fst x \<le> fst (last (up_to p m))"
  using last_in_set [OF ne] map_ok_last [OF map_ok_filter [OF m]] by (auto simp: up_to_eq [OF m])

lemma hd_after:
  assumes m: "map_ok m" and a: "after p m = x # xs"
  shows "x \<in> set m" "p < fst x" "\<And>y. y \<in> set m \<Longrightarrow> p < fst y \<Longrightarrow> fst x \<le> fst y"
proof -
  have f: "filter (\<lambda>e. p < fst e) m = x # xs" using a by (simp add: after_eq [OF m])
  then have "x \<in> set (filter (\<lambda>e. p < fst e) m)" by simp
  then show "x \<in> set m" "p < fst x" by auto
  show "fst x \<le> fst y" if "y \<in> set m" "p < fst y" for y
  proof -
    have "fst y \<in> fst ` set (filter (\<lambda>e. p < fst e) m)" using that by simp
    from map_ok_head(2) [OF map_ok_filter [OF m] _ this] show ?thesis by (simp add: f)
  qed
qed

lemma same_begin: "map_ok m \<Longrightarrow> x \<in> set m \<Longrightarrow> y \<in> set m \<Longrightarrow> fst x = fst y \<Longrightarrow> x = y"
  by (metis map_ok_distinct eq_key_imp_eq_value prod.collapse)

lemma covered_by_ranges_iff:
  assumes "sorted_ok m"
  shows "covered_by_ranges p m \<longleftrightarrow> (\<exists>x \<in> set m. fst x \<le> p \<and> p < snd x)"
proof
  have m: "map_ok m" using assms by (simp add: sorted_ok_def)
  show "\<exists>x \<in> set m. fst x \<le> p \<and> p < snd x" if "covered_by_ranges p m"
    using that last_up_to [OF m, of p] by (fastforce simp: covered_by_ranges_def split: if_splits prod.splits)
  show "covered_by_ranges p m" if "\<exists>x \<in> set m. fst x \<le> p \<and> p < snd x"
  proof -
    from that obtain x where x: "x \<in> set m" "fst x \<le> p" "p < snd x" by blast
    then have ne: "up_to p m \<noteq> []" by (auto simp: up_to_eq [OF m] filter_empty_conv)
    note l = last_up_to [OF m ne]
    have "snd x \<le> fst (last (up_to p m))" if "fst x < fst (last (up_to p m))"
      using assms l(1) x(1) that by (auto simp: sorted_ok_def)
    then have "fst x = fst (last (up_to p m))" using l(2) l(3) [OF x(1,2)] x(3) by linarith
    then have "x = last (up_to p m)" using same_begin [OF m x(1) l(1)] by simp
    then show ?thesis using ne x by (auto simp: covered_by_ranges_def split: prod.splits)
  qed
qed

lemma disjoint_from_ranges_iff:
  assumes s: "sorted_ok m" and x: "fst x < snd x"
  shows "disjoint_from_ranges x m \<longleftrightarrow> (\<forall>y \<in> set m. boundaries_disjoint x y)"
proof
  have m: "map_ok m" using s by (simp add: sorted_ok_def)
  show "disjoint_from_ranges x m" if "\<forall>y \<in> set m. boundaries_disjoint x y"
    using that last_up_to [OF m, of "fst x"] hd_after [OF m, of "fst x"]
    by (auto simp: disjoint_from_ranges_def split: list.splits)
  assume d: "disjoint_from_ranges x m"
  show "\<forall>y \<in> set m. boundaries_disjoint x y"
  proof
    fix y assume y: "y \<in> set m"
    show "boundaries_disjoint x y"
    proof (cases "fst y \<le> fst x")
      case True
      then have ne: "up_to (fst x) m \<noteq> []" using y by (auto simp: up_to_eq [OF m] filter_empty_conv)
      note l = last_up_to [OF m ne]
      have "snd (last (up_to (fst x) m)) \<le> fst x"
        using d ne l(2) x by (auto simp: disjoint_from_ranges_def boundaries_disjoint_def)
      moreover have "y = last (up_to (fst x) m) \<or> snd y \<le> fst (last (up_to (fst x) m))"
        using s l(1) l(3) [OF y True] y same_begin [OF m y l(1)] by (fastforce simp: sorted_ok_def)
      ultimately show ?thesis using l(2) by (auto simp: boundaries_disjoint_def)
    next
      case False
      then obtain z zs where z: "after (fst x) m = z # zs"
        using y by (cases "after (fst x) m") (auto simp: after_eq [OF m] filter_empty_conv)
      note h = hd_after [OF m z]
      have zo: "fst z < snd z" using h(1) s by (auto simp: sorted_ok_def)
      have "boundaries_disjoint x z" using d z by (simp add: disjoint_from_ranges_def)
      then have "snd x \<le> fst z" using h(2) zo by (auto simp: boundaries_disjoint_def)
      then show ?thesis using h(3) [OF y] False by (simp add: boundaries_disjoint_def)
    qed
  qed
qed

lemma insert_boundaries_set:
  assumes "map_ok m" "map_of m (fst x) = None"
  shows "set (insert_boundaries x m) = insert x (set m)" "map_ok (insert_boundaries x m)"
proof -
  show ok: "map_ok (insert_boundaries x m)" using assms by (simp add: insert_boundaries_def)
  have mem: "map_ok n \<Longrightarrow> (k, v) \<in> set n \<longleftrightarrow> map_of n k = Some v" for n :: sorted_ranges and k v
    by (simp add: map_ok_distinct)
  have "(k, v) \<in> set (insert_boundaries x m) \<longleftrightarrow> (k, v) = x \<or> (k, v) \<in> set m" for k v
    unfolding mem [OF ok] mem [OF assms(1)] using assms by (cases x) (auto simp: insert_boundaries_def)
  then show "set (insert_boundaries x m) = insert x (set m)" by auto
qed

lemma insert_boundaries_ok:
  assumes s: "sorted_ok m" and x: "fst x < snd x" and d: "\<forall>y \<in> set m. boundaries_disjoint x y"
  shows "sorted_ok (insert_boundaries x m)" "set (insert_boundaries x m) = insert x (set m)"
proof -
  have "fst y \<noteq> fst x" if "y \<in> set m" for y
    using d that x s by (fastforce simp: boundaries_disjoint_def sorted_ok_def)
  then have "map_of m (fst x) = None" by (force simp: map_of_eq_None_iff)
  note i = insert_boundaries_set [OF _ this]
  show "set (insert_boundaries x m) = insert x (set m)" using i s by (simp add: sorted_ok_def)
  show "sorted_ok (insert_boundaries x m)"
    using i s x d unfolding sorted_ok_def boundaries_disjoint_def by (auto; fastforce)
qed

section \<open>The set implements the contract\<close>

definition given_away :: "disjoint_set \<Rightarrow> span set" where
  "given_away s = {(r, b, e). \<exists>m. disjoint s r = Some m \<and> (b, e) \<in> set m}"

definition set_ok :: "disjoint_set \<Rightarrow> bool" where
  "set_ok s \<longleftrightarrow> (\<forall>r m. disjoint s r = Some m \<longrightarrow> sorted_ok m)"

lemma new_set_ok [simp]: "set_ok DisjointPartsRangesSet" "given_away DisjointPartsRangesSet = {}"
  by (simp_all add: set_ok_def given_away_def DisjointPartsRangesSet_def)

definition ranges_at :: "disjoint_set \<Rightarrow> nat \<Rightarrow> sorted_ranges" where
  "ranges_at s r = (case disjoint s r of None \<Rightarrow> [] | Some m \<Rightarrow> m)"

lemma ranges_at_ok: "set_ok s \<Longrightarrow> sorted_ok (ranges_at s r)"
  by (simp add: set_ok_def ranges_at_def split: option.splits)

lemma given_away_iff: "(r, b, e) \<in> given_away s \<longleftrightarrow> (b, e) \<in> set (ranges_at s r)"
  by (cases "disjoint s r") (simp_all add: given_away_def ranges_at_def)

lemma given_away_updated:
  "given_away (s\<lparr>disjoint := (disjoint s)(r \<mapsto> m)\<rparr>) = {x \<in> given_away s. fst x \<noteq> r} \<union> ({r} \<times> set m)"
  by (auto simp: given_away_def split: if_splits)

lemma set_ok_updated: "set_ok s \<Longrightarrow> sorted_ok m \<Longrightarrow> set_ok (s\<lparr>disjoint := (disjoint s)(r \<mapsto> m)\<rparr>)"
  by (auto simp: set_ok_def)

lemma addRangeIfPossible_eq:
  "addRangeIfPossible s r b e =
     (disjoint_from_ranges (b, e) (ranges_at s r),
      s\<lparr>disjoint := (disjoint s)(r \<mapsto> (if disjoint_from_ranges (b, e) (ranges_at s r)
         then insert_boundaries (b, e) (ranges_at s r) else ranges_at s r))\<rparr>)"
  by (simp add: addRangeIfPossible_def ranges_at_def Let_def)

lemma apart_same_range:
  "b < e \<Longrightarrow> b' < e' \<Longrightarrow> apart (r, b, e) (r, b', e') \<longleftrightarrow> boundaries_disjoint (b, e) (b', e')"
  by (simp add: apart_iff boundaries_disjoint_def)

lemma given_away_span_ok: "set_ok s \<Longrightarrow> (r, b, e) \<in> given_away s \<Longrightarrow> b < e"
  using ranges_at_ok [of s r] by (fastforce simp: given_away_iff sorted_ok_def)

interpretation dset: parts_cover isCovered addRangeIfPossible given_away set_ok
proof
  fix s :: disjoint_set and r p b e :: nat
  assume s: "set_ok s"
  have m: "sorted_ok (ranges_at s r)" by (rule ranges_at_ok [OF s])
  have "isCovered s r p \<longleftrightarrow> covered_by_ranges p (ranges_at s r)"
    by (auto simp: isCovered_def ranges_at_def covered_by_ranges_def up_to_def split: option.splits)
  then show "isCovered s r p \<longleftrightarrow> (\<exists>x \<in> given_away s. (r, p) \<in> span_parts x)"
    by (fastforce simp: covered_by_ranges_iff [OF m] span_parts_def given_away_iff split: prod.splits)
  show "spans_apart (given_away s)"
  proof -
    have "x = y \<or> apart x y" if xy: "x \<in> given_away s" "y \<in> given_away s" for x y
    proof -
      obtain r1 b1 e1 r2 b2 e2 where x: "x = (r1, b1, e1)" "y = (r2, b2, e2)" by (cases x, cases y)
      then have o: "b1 < e1" "b2 < e2" using xy given_away_span_ok [OF s] by blast+
      have "(b1, e1) = (b2, e2) \<or> e1 \<le> b2 \<or> e2 \<le> b1" if "r1 = r2"
        using xy x that ranges_at_ok [OF s, of r1] same_begin [of "ranges_at s r1" "(b1, e1)" "(b2, e2)"]
        by (cases b1 b2 rule: linorder_cases) (fastforce simp: given_away_iff sorted_ok_def)+
      then show ?thesis using o x by (auto simp: apart_iff)
    qed
    then show ?thesis using given_away_span_ok [OF s] by (auto simp: spans_apart_def span_ok_def)
  qed
  assume be: "b < e"
  have d: "disjoint_from_ranges (b, e) (ranges_at s r) \<longleftrightarrow>
      (\<forall>y \<in> set (ranges_at s r). boundaries_disjoint (b, e) y)"
    using disjoint_from_ranges_iff [OF m, of "(b, e)"] be by simp
  show "fst (addRangeIfPossible s r b e) \<longleftrightarrow> (\<forall>x \<in> given_away s. apart (r, b, e) x)"
  proof -
    have "apart (r, b, e) (r', b', e') \<longleftrightarrow> r \<noteq> r' \<or> boundaries_disjoint (b, e) (b', e')"
      if "(r', b', e') \<in> given_away s" for r' b' e'
      using given_away_span_ok [OF s that] be by (auto simp: apart_iff boundaries_disjoint_def)
    then show ?thesis by (auto simp: addRangeIfPossible_eq d given_away_iff)
  qed
  show "set_ok (snd (addRangeIfPossible s r b e))"
    using m be insert_boundaries_ok(1) [OF m, of "(b, e)"] d
    by (auto simp: addRangeIfPossible_eq intro!: set_ok_updated [OF s])
  show "given_away (snd (addRangeIfPossible s r b e)) =
      (if fst (addRangeIfPossible s r b e) then insert (r, b, e) (given_away s) else given_away s)"
    using be insert_boundaries_ok(2) [OF m, of "(b, e)"] d
    by (auto simp: addRangeIfPossible_eq given_away_updated given_away_iff)
qed

end
