(* ===== verification/Merge_Selection.thy ===== *)
theory Merge_Selection
  imports Part_Info Disjoint_Ranges "HOL-Library.Multiset"
begin

text \<open>
  The data of the merge selectors (\<open>Compaction/PartProperties.h\<close>,
  \<open>IMergeSelector.h\<close>) and the two simple selectors: \<open>AllMergeSelector\<close>, which
  merges a whole partition, and \<open>TrivialMergeSelector\<close>, which takes ten neighbouring parts. A
  \<open>std::heap\<close> and \<open>std::sort\<close> leave the order of equal elements open: they are
  arguments with the laws of the standard library.
\<close>

section \<open>Parts, constraints and filters\<close>

text \<open>\<open>time_t\<close> is a signed integer.\<close>

record general_ttl =
  has_any_non_finished_ttls :: bool
  part_min_ttl :: int
  part_max_ttl :: int

record recompress_ttl =
  will_change_codec :: bool
  next_recompress_ttl :: int

record part_properties =
  part_name :: string
  info :: part_info
  projection_names :: "string list"
  all_ttl_calculated_if_any :: bool
  is_in_volume_where_merges_avoid :: bool
  part_size :: size_t
  age :: int
  rows :: size_t
  general_ttl_info :: "general_ttl option"
  recompression_ttl_info :: "recompress_ttl option"

record merge_constraint =
  max_size_bytes :: size_t
  max_size_rows :: size_t

type_synonym parts_range = "part_properties list"

text \<open>A \<open>RangeFilter\<close> is a \<open>std::function\<close>, which may be empty.\<close>

type_synonym range_filter = "(parts_range \<Rightarrow> bool) option"

definition accepts :: "range_filter \<Rightarrow> parts_range \<Rightarrow> bool" where
  "accepts f ps = (case f of None \<Rightarrow> True | Some g \<Rightarrow> g ps)"

text \<open>The parts between two iterators of a range.\<close>

definition parts_between :: "parts_range \<Rightarrow> nat \<Rightarrow> nat \<Rightarrow> parts_range" where
  "parts_between ps b e = take (e - b) (drop b ps)"

definition span_range :: "parts_range list \<Rightarrow> span \<Rightarrow> parts_range" where
  "span_range rs x = (case x of (r, b, e) \<Rightarrow> parts_between (rs ! r) b e)"

definition span_in :: "parts_range list \<Rightarrow> span \<Rightarrow> bool" where
  "span_in rs x = (case x of (r, b, e) \<Rightarrow> r < length rs \<and> b < e \<and> e \<le> length (rs ! r))"

definition total_bytes :: "parts_range \<Rightarrow> nat" where
  "total_bytes ps = sum_list (map part_size ps)"

definition total_rows :: "parts_range \<Rightarrow> nat" where
  "total_rows ps = sum_list (map rows ps)"

text \<open>What every selector promises of a range it returns.\<close>

definition fits :: "merge_constraint \<Rightarrow> parts_range \<Rightarrow> bool" where
  "fits c ps \<longleftrightarrow> total_bytes ps \<le> max_size_bytes c \<and> total_rows ps \<le> max_size_rows c"

lemma total_simps [simp]:
  "total_bytes [] = 0" "total_bytes (p # ps) = part_size p + total_bytes ps"
  "total_bytes (ps @ qs) = total_bytes ps + total_bytes qs"
  "total_rows [] = 0" "total_rows (p # ps) = rows p + total_rows ps"
  "total_rows (ps @ qs) = total_rows ps + total_rows qs"
  by (simp_all add: total_bytes_def total_rows_def)

lemma length_parts_between [simp]: "e \<le> length ps \<Longrightarrow> length (parts_between ps b e) = e - b"
  by (simp add: parts_between_def)

lemma parts_between_Nil [simp]: "e \<le> b \<Longrightarrow> parts_between ps b e = []"
  by (simp add: parts_between_def)

lemma parts_between_right:
  "b \<le> e \<Longrightarrow> e < length ps \<Longrightarrow> parts_between ps b (Suc e) = parts_between ps b e @ [ps ! e]"
  by (simp add: parts_between_def Suc_diff_le take_Suc_conv_app_nth)

lemma parts_between_left:
  "b < e \<Longrightarrow> e \<le> length ps \<Longrightarrow> parts_between ps b e = ps ! b # parts_between ps (Suc b) e"
  by (simp add: parts_between_def Cons_nth_drop_Suc [symmetric] take_Cons' Suc_diff_Suc)

lemma set_parts_between:
  "e \<le> length ps \<Longrightarrow> set (parts_between ps b e) = (!) ps ` {b..<e}"
proof (induction e)
  case (Suc e)
  then show ?case by (cases "b \<le> e") (auto simp: parts_between_right atLeastLessThanSuc)
qed simp

lemma parts_between_append:
  assumes "b \<le> m" "m \<le> e"
  shows "parts_between ps b e = parts_between ps b m @ parts_between ps m e"
proof -
  have "e - b = (m - b) + (e - m)" using assms by simp
  then show ?thesis unfolding parts_between_def by (simp only: take_add) (use assms in simp)
qed

lemma parts_between_all [simp]: "parts_between ps 0 (length ps) = ps"
  by (simp add: parts_between_def)

text \<open>The sum of \<open>size_t\<close> values as the loops of the selectors build it.\<close>

definition sum64 :: "size_t list \<Rightarrow> size_t" where
  "sum64 = foldl add64 0"

lemma foldl_add64: "a < size_max \<Longrightarrow> foldl add64 a xs = (a + sum_list xs) mod size_max"
proof (induction xs arbitrary: a)
  case (Cons x xs)
  show ?case using Cons.IH [of "add64 a x"] by (simp add: add64_def mod_simps add.assoc)
qed simp

lemma sum64_eq: "sum64 xs = sum_list xs mod size_max"
  by (simp add: sum64_def foldl_add64)

text \<open>The heap of a selector: \<open>pop\<close> takes a greatest element out of the vector.\<close>

definition heap_pop_ok :: "('a \<Rightarrow> 'a \<Rightarrow> bool) \<Rightarrow> ('a list \<Rightarrow> 'a \<times> 'a list) \<Rightarrow> bool" where
  "heap_pop_ok lt pop \<longleftrightarrow>
     (\<forall>xs. xs \<noteq> [] \<longrightarrow> mset xs = add_mset (fst (pop xs)) (mset (snd (pop xs)))
        \<and> (\<forall>y \<in> set xs. \<not> lt (fst (pop xs)) y))"

lemma heap_popD:
  assumes "heap_pop_ok lt pop" "xs \<noteq> []" "pop xs = (x, ys)"
  shows "set xs = insert x (set ys)" "length xs = Suc (length ys)" "y \<in> set xs \<Longrightarrow> \<not> lt x y"
proof -
  have m: "mset xs = add_mset x (mset ys)" and l: "\<forall>y \<in> set xs. \<not> lt x y"
    using assms unfolding heap_pop_ok_def by (metis fst_conv snd_conv)+
  show "set xs = insert x (set ys)" using arg_cong [OF m, of set_mset] by simp
  show "length xs = Suc (length ys)" using arg_cong [OF m, of size] by simp
  show "y \<in> set xs \<Longrightarrow> \<not> lt x y" using l by blast
qed

text \<open>A heap that takes the first of the greatest elements, for an order by an integer key.\<close>

fun pop_least :: "('a \<Rightarrow> int) \<Rightarrow> 'a list \<Rightarrow> 'a \<times> 'a list" where
  "pop_least k [] = (undefined, [])"
| "pop_least k [x] = (x, [])"
| "pop_least k (x # y # zs) =
     (let (m, rest) = pop_least k (y # zs) in if k m < k x then (m, x # rest) else (x, m # rest))"

lemma pop_least_props:
  "xs \<noteq> [] \<Longrightarrow> mset xs = add_mset (fst (pop_least k xs)) (mset (snd (pop_least k xs)))"
  "xs \<noteq> [] \<Longrightarrow> \<forall>y \<in> set xs. k (fst (pop_least k xs)) \<le> k y"
proof (induction k xs rule: pop_least.induct)
  case (3 k x y zs)
  { case 1
    then show ?case using "3.IH"(1) by (auto simp: Let_def split: prod.splits)
  next
    case 2
    then show ?case using "3.IH"(2) by (auto simp: Let_def split: prod.splits)
  }
qed auto

lemma pop_least_ok: "heap_pop_ok (\<lambda>x y. k x > k y) (pop_least k)"
  using pop_least_props [of _ k] unfolding heap_pop_ok_def by (metis not_le)

section \<open>\<open>AllMergeSelector\<close>\<close>

record all_choice =
  min_partition_size :: size_t
  min_partition_rows :: size_t
  best_partition :: parts_range

definition all_step :: "range_filter \<Rightarrow> all_choice \<Rightarrow> parts_range \<Rightarrow> all_choice" where
  "all_step f a ps =
     (if length ps \<le> 1 then a
      else if \<not> accepts f ps then a
      else let sum_size = sum64 (map part_size ps); sum_rows = sum64 (map rows ps)
           in if min_partition_size a = 0 \<or> sum_size < min_partition_size a
              then \<lparr>min_partition_size = sum_size, min_partition_rows = sum_rows, best_partition = ps\<rparr>
              else a)"

text \<open>Without a constraint the code reads past the end of the span (the assertion is dropped).\<close>

definition all_select ::
  "parts_range list \<Rightarrow> merge_constraint list \<Rightarrow> range_filter \<Rightarrow> parts_range list result" where
  "all_select rs cs f =
     (case cs of [] \<Rightarrow> Inl UB
      | c # _ \<Rightarrow>
          let a = foldl (all_step f)
                    \<lparr>min_partition_size = 0, min_partition_rows = 0, best_partition = []\<rparr> rs
          in Inr (if min_partition_size a \<noteq> 0 \<and> min_partition_rows a \<noteq> 0
                     \<and> min_partition_size a \<le> max_size_bytes c \<and> min_partition_rows a \<le> max_size_rows c
                  then [best_partition a] else []))"

definition all_candidate :: "range_filter \<Rightarrow> parts_range \<Rightarrow> bool" where
  "all_candidate f ps \<longleftrightarrow> 1 < length ps \<and> accepts f ps"

definition sums_fit :: "parts_range list \<Rightarrow> bool" where
  "sums_fit rs \<longleftrightarrow> (\<forall>ps \<in> set rs. total_bytes ps < size_max \<and> total_rows ps < size_max)"

lemma sums_fitD:
  assumes "sums_fit rs" "ps \<in> set rs"
  shows "sum64 (map part_size ps) = total_bytes ps" "sum64 (map rows ps) = total_rows ps"
  using assms by (auto simp: sums_fit_def sum64_eq total_bytes_def total_rows_def)


text \<open>When every candidate has bytes, the loop finds a smallest one.\<close>

definition all_best :: "range_filter \<Rightarrow> parts_range list \<Rightarrow> all_choice \<Rightarrow> bool" where
  "all_best f rs a \<longleftrightarrow>
     (if min_partition_size a = 0 then \<forall>ps \<in> set rs. \<not> all_candidate f ps
      else best_partition a \<in> set rs \<and> all_candidate f (best_partition a)
           \<and> min_partition_size a = total_bytes (best_partition a)
           \<and> min_partition_rows a = total_rows (best_partition a)
           \<and> (\<forall>ps \<in> set rs. all_candidate f ps \<longrightarrow> total_bytes (best_partition a) \<le> total_bytes ps))"

lemma all_step_best:
  assumes "all_best f rs a" "sums_fit [ps]" "all_candidate f ps \<longrightarrow> 0 < total_bytes ps"
  shows "all_best f (rs @ [ps]) (all_step f a ps)"
  using assms sums_fitD [OF assms(2), of ps]
  by (auto simp: all_best_def all_step_def all_candidate_def Let_def) (meson less_imp_le less_le_trans)

lemma all_fold_best:
  assumes "sums_fit rs" "\<forall>ps \<in> set rs. all_candidate f ps \<longrightarrow> 0 < total_bytes ps"
  shows "all_best f rs (foldl (all_step f)
    \<lparr>min_partition_size = 0, min_partition_rows = 0, best_partition = []\<rparr> rs)"
  using assms
proof (induction rs rule: rev_induct)
  case (snoc ps rs)
  then show ?case by (auto intro!: all_step_best simp: sums_fit_def)
qed (simp add: all_best_def)

end
