(* ===== verification/Merge_Trivial.thy ===== *)
theory Merge_Trivial
  imports Merge_Selection
begin

text \<open>
  \<open>TrivialMergeSelector\<close> (\<open>Compaction/MergeSelectors/TrivialMergeSelector.cpp\<close>),
  and the results about the two simple selectors. The loop of the trivial selector walks over the partitions
  with two positions; it is partial, and shown to return. \<open>std::sort\<close> is an argument, because
  the order of equal partitions is open.
\<close>

section \<open>\<open>TrivialMergeSelector\<close>\<close>

text \<open>The settings of the selector, which no caller changes.\<close>

definition num_parts_to_merge :: nat where "num_parts_to_merge = 10"

definition num_ranges_to_choose :: nat where "num_ranges_to_choose = 100"

text \<open>
  The first block of an iteration: when the window holds ten parts, it becomes a candidate if it satisfies
  the constraint and the filter, and the next window starts behind it.
\<close>

definition trivial_window ::
  "parts_range list \<Rightarrow> merge_constraint \<Rightarrow> range_filter \<Rightarrow> nat \<Rightarrow> nat \<Rightarrow> nat \<Rightarrow> span list
   \<Rightarrow> (nat \<times> nat \<times> span list) result" where
  "trivial_window rs c f idx left right cands =
     (if 1 + right - left = num_parts_to_merge then
        (let right = right + 1;
             ps = rs ! idx;
             window = parts_between ps left right
         in if right > length ps then Inl UB
            else if sum64 (map part_size window) \<le> max_size_bytes c
                    \<and> sum64 (map rows window) \<le> max_size_rows c \<and> accepts f window
            then Inr (right, right, cands @ [(idx, left, right)])
            else Inr (right, right, cands))
      else Inr (left, right, cands))"

text \<open>
  The end of an iteration. The reference \<open>partition\<close> was taken at the start of the iteration,
  so after a step to the next partition the levels that are compared are those of the previous one.
\<close>

definition trivial_reset :: "parts_range \<Rightarrow> nat \<Rightarrow> nat \<Rightarrow> nat" where
  "trivial_reset ps left right =
     (if right < length ps
         \<and> level (info (ps ! right)) < level (info (ps ! left)) then right else left)"

partial_function (option) trivial_loop ::
  "parts_range list \<Rightarrow> merge_constraint \<Rightarrow> range_filter \<Rightarrow> nat list \<Rightarrow> nat \<Rightarrow> nat \<Rightarrow> nat \<Rightarrow> span list
   \<Rightarrow> span list result option" where
  "trivial_loop rs c f order p left right cands =
     (if \<not> length cands < num_ranges_to_choose then Some (Inr cands)
      else case trivial_window rs c f (order ! p) left right cands of
        Inl e \<Rightarrow> Some (Inl e)
      | Inr (left, right, cands) \<Rightarrow>
          if length cands = num_ranges_to_choose then Some (Inr cands)
          else if sub64 (length (rs ! (order ! p))) left < num_parts_to_merge then
            (if p + 1 = length order then Some (Inr cands)
             else trivial_loop rs c f order (p + 1) (trivial_reset (rs ! (order ! p)) 0 1) 1 cands)
          else trivial_loop rs c f order p
                 (trivial_reset (rs ! (order ! p)) left (right + 1)) (right + 1) cands)"

declare trivial_loop.simps [code]

definition large_partitions :: "parts_range list \<Rightarrow> nat list" where
  "large_partitions rs = filter (\<lambda>i. length (rs ! i) \<ge> num_parts_to_merge) [0..<length rs]"

text \<open>\<open>rng\<close> is the value that \<open>thread_local_rng()\<close> returns.\<close>

definition trivial_candidates ::
  "((nat \<Rightarrow> nat) \<Rightarrow> nat list \<Rightarrow> nat list) \<Rightarrow> parts_range list \<Rightarrow> merge_constraint \<Rightarrow> range_filter
   \<Rightarrow> span list result option" where
  "trivial_candidates sort_desc rs c f =
     (let order = sort_desc (\<lambda>i. length (rs ! i)) (large_partitions rs)
      in if order = [] then Some (Inr []) else trivial_loop rs c f order 0 0 0 [])"

definition trivial_select ::
  "((nat \<Rightarrow> nat) \<Rightarrow> nat list \<Rightarrow> nat list) \<Rightarrow> nat \<Rightarrow> parts_range list \<Rightarrow> merge_constraint list \<Rightarrow> range_filter
   \<Rightarrow> parts_range list result option" where
  "trivial_select sort_desc rng rs cs f =
     (case cs of [] \<Rightarrow> Some (Inl UB)
      | c # _ \<Rightarrow>
          (case trivial_candidates sort_desc rs c f of
             None \<Rightarrow> None
           | Some (Inl e) \<Rightarrow> Some (Inl e)
           | Some (Inr cands) \<Rightarrow>
               Some (Inr (if cands = [] then []
                          else if length cands = 1 then [span_range rs (cands ! 0)]
                          else [span_range rs (cands ! (rng mod length cands))]))))"

text \<open>What \<open>std::sort\<close> guarantees with a comparison by decreasing key.\<close>

definition sort_desc_ok :: "((nat \<Rightarrow> nat) \<Rightarrow> nat list \<Rightarrow> nat list) \<Rightarrow> bool" where
  "sort_desc_ok sort_desc \<longleftrightarrow>
     (\<forall>k xs. mset (sort_desc k xs) = mset xs \<and> sorted_wrt (\<lambda>i j. k j \<le> k i) (sort_desc k xs))"

definition stable_desc :: "(nat \<Rightarrow> nat) \<Rightarrow> nat list \<Rightarrow> nat list" where
  "stable_desc k xs = rev (sort_key k (rev xs))"

lemma stable_desc_ok: "sort_desc_ok stable_desc"
  using sorted_sort_key unfolding sort_desc_ok_def stable_desc_def
  by (auto simp: sorted_wrt_rev sorted_wrt_map [symmetric] simp del: sorted_sort_key)

section \<open>Its loop\<close>

text \<open>The state at the head of the loop.\<close>

definition trivial_pos_ok :: "parts_range list \<Rightarrow> nat list \<Rightarrow> nat \<Rightarrow> nat \<Rightarrow> nat \<Rightarrow> bool" where
  "trivial_pos_ok rs order p left right \<longleftrightarrow>
     p < length order \<and> left \<le> right \<and> right \<le> left + 9 \<and> left \<le> length (rs ! (order ! p))
     \<and> (right = left \<or> left + 10 \<le> length (rs ! (order ! p)))"

definition candidate_ok :: "parts_range list \<Rightarrow> merge_constraint \<Rightarrow> range_filter \<Rightarrow> span \<Rightarrow> bool" where
  "candidate_ok rs c f x \<longleftrightarrow>
     span_in rs x \<and> length (span_range rs x) = num_parts_to_merge \<and> fits c (span_range rs x)
     \<and> accepts f (span_range rs x)"

definition trivial_cands_ok ::
  "parts_range list \<Rightarrow> merge_constraint \<Rightarrow> range_filter \<Rightarrow> nat list \<Rightarrow> nat \<Rightarrow> nat \<Rightarrow> span list \<Rightarrow> bool" where
  "trivial_cands_ok rs c f order p left cands \<longleftrightarrow>
     (\<forall>x \<in> set cands. candidate_ok rs c f x) \<and> sorted_wrt apart cands
     \<and> length cands \<le> num_ranges_to_choose
     \<and> (\<forall>x \<in> set cands. fst x \<in> set (take p order) \<or> (fst x = order ! p \<and> snd (snd x) \<le> left))"

definition trivial_setting :: "parts_range list \<Rightarrow> nat list \<Rightarrow> bool" where
  "trivial_setting rs order \<longleftrightarrow>
     distinct order \<and> sums_fit rs
     \<and> (\<forall>i \<in> set order. i < length rs \<and> num_parts_to_merge \<le> length (rs ! i) \<and> length (rs ! i) < size_max)"

lemma total_between_le:
  assumes "e \<le> length ps"
  shows "total_bytes (parts_between ps b e) \<le> total_bytes ps" "total_rows (parts_between ps b e) \<le> total_rows ps"
proof -
  have "ps = parts_between ps 0 (min b e) @ parts_between ps (min b e) e @ parts_between ps e (length ps)"
    using parts_between_append [of 0 "min b e" "length ps" ps] parts_between_append [of "min b e" e "length ps" ps] assms
    by simp
  moreover have "parts_between ps b e = [] \<or> min b e = b" by (cases "e \<le> b") auto
  ultimately show "total_bytes (parts_between ps b e) \<le> total_bytes ps"
    "total_rows (parts_between ps b e) \<le> total_rows ps"
    using arg_cong [of ps _ total_bytes] arg_cong [of ps _ total_rows] by (metis le_add1 le_add2 le_trans total_simps zero_le)+
qed

lemma window_sums:
  assumes "sums_fit rs" "idx < length rs" "e \<le> length (rs ! idx)"
  shows "sum64 (map part_size (parts_between (rs ! idx) b e)) = total_bytes (parts_between (rs ! idx) b e)"
    "sum64 (map rows (parts_between (rs ! idx) b e)) = total_rows (parts_between (rs ! idx) b e)"
proof -
  have "sums_fit [parts_between (rs ! idx) b e]"
    using assms total_between_le [OF assms(3), of b]
    by (auto simp: sums_fit_def intro: le_less_trans)
  then show "sum64 (map part_size (parts_between (rs ! idx) b e)) = total_bytes (parts_between (rs ! idx) b e)"
    "sum64 (map rows (parts_between (rs ! idx) b e)) = total_rows (parts_between (rs ! idx) b e)"
    using sums_fitD by simp_all
qed

lemma trivial_window_ok:
  assumes s: "trivial_setting rs order" and pos: "trivial_pos_ok rs order p left right"
    and c: "trivial_cands_ok rs c f order p left cands" and n: "length cands < num_ranges_to_choose"
  obtains left' right' cands' where
    "trivial_window rs c f (order ! p) left right cands = Inr (left', right', cands')"
    "left' \<le> right'" "right' \<le> left' + 8" "right \<le> right'" "left' \<le> length (rs ! (order ! p))"
    "right' = left' \<or> left' + 10 \<le> length (rs ! (order ! p))"
    "trivial_cands_ok rs c f order p left' cands'"
proof (cases "1 + right - left = num_parts_to_merge")
  case False
  then have "trivial_window rs c f (order ! p) left right cands = Inr (left, right, cands)"
    by (simp add: trivial_window_def)
  then show ?thesis using that [of left right cands] pos c False
    by (auto simp: trivial_pos_ok_def num_parts_to_merge_def)
next
  case True
  let ?i = "order ! p" let ?ps = "rs ! (order ! p)" let ?w = "parts_between ?ps left (right + 1)"
  have r: "right = left + 9" using True by (simp add: num_parts_to_merge_def)
  then have l: "left + 10 \<le> length ?ps" using pos by (auto simp: trivial_pos_ok_def)
  have i: "?i \<in> set order" using pos by (simp add: trivial_pos_ok_def)
  then have il: "?i < length rs" using s by (simp add: trivial_setting_def)
  have sums: "sum64 (map part_size ?w) = total_bytes ?w" "sum64 (map rows ?w) = total_rows ?w"
    using window_sums [of rs ?i "right + 1" left] s il l r by (auto simp: trivial_setting_def)
  have w: "span_range rs (?i, left, right + 1) = ?w" by (simp add: span_range_def)
  have step: "trivial_window rs c f ?i left right cands = Inr (right + 1, right + 1,
      if fits c ?w \<and> accepts f ?w then cands @ [(?i, left, right + 1)] else cands)"
    using True l r sums by (simp add: trivial_window_def fits_def Let_def)
  have "candidate_ok rs c f (?i, left, right + 1)" if "fits c ?w" "accepts f ?w"
    using that l r il w by (simp add: candidate_ok_def span_in_def num_parts_to_merge_def)
  moreover have "apart x (?i, left, right + 1)" if x: "x \<in> set cands" for x
  proof -
    obtain r' b' e' where xe: "x = (r', b', e')" by (cases x)
    have ok: "b' < e'" using c x xe by (auto simp: trivial_cands_ok_def candidate_ok_def span_in_def)
    have "?i \<notin> set (take p order)"
      using pos s distinct_take [of order "Suc p"]
      by (auto simp: trivial_pos_ok_def trivial_setting_def take_Suc_conv_app_nth)
    then have "r' \<noteq> ?i \<or> e' \<le> left" using c x xe by (fastforce simp: trivial_cands_ok_def)
    then show ?thesis using ok r xe by (auto simp: apart_iff)
  qed
  ultimately have "trivial_cands_ok rs c f order p (right + 1)
      (if fits c ?w \<and> accepts f ?w then cands @ [(?i, left, right + 1)] else cands)"
    using c n r by (fastforce simp: trivial_cands_ok_def sorted_wrt_append)
  then show ?thesis using that [OF step] l r by auto
qed

lemma trivial_cands_next:
  assumes "trivial_cands_ok rs c f order p left cands" "p + 1 < length order"
  shows "trivial_cands_ok rs c f order (p + 1) left' cands"
  using assms by (fastforce simp: trivial_cands_ok_def take_Suc_conv_app_nth)

lemma trivial_reset_cases: "trivial_reset ps left right = left \<or> trivial_reset ps left right = right"
  by (simp add: trivial_reset_def)

lemma trivial_loop_ok:
  assumes s: "trivial_setting rs order"
  shows "trivial_pos_ok rs order p left right \<Longrightarrow> trivial_cands_ok rs c f order p left cands \<Longrightarrow>
    \<exists>cs. trivial_loop rs c f order p left right cands = Some (Inr cs)
       \<and> (\<exists>p' l'. trivial_cands_ok rs c f order p' l' cs)"
proof (induction "(length order - p, length (rs ! (order ! p)) - right)" arbitrary: p left right cands
    rule: wf_induct_rule [OF wf_lex_prod [OF wf_less_than wf_less_than]])
  case (1 p right left cands)
  note pos = "1.prems"(1) and cs = "1.prems"(2)
  show ?case
  proof (cases "length cands < num_ranges_to_choose")
    case False
    then show ?thesis using cs by (subst trivial_loop.simps) auto
  next
    case True
    then obtain l r cands' where w:
      "trivial_window rs c f (order ! p) left right cands = Inr (l, r, cands')"
      "l \<le> r" "r \<le> l + 8" "right \<le> r" "l \<le> length (rs ! (order ! p))"
      "r = l \<or> l + 10 \<le> length (rs ! (order ! p))" "trivial_cands_ok rs c f order p l cands'"
      using trivial_window_ok [OF s pos cs] by metis
    let ?n = "length (rs ! (order ! p))"
    have p: "p < length order" using pos by (simp add: trivial_pos_ok_def)
    then have n: "10 \<le> ?n" "?n < size_max" using s by (simp_all add: trivial_setting_def num_parts_to_merge_def)
    have d: "sub64 ?n l = ?n - l" using w(5) n by (simp add: sub64_exact)
    consider (full) "length cands' = num_ranges_to_choose"
      | (last) "length cands' \<noteq> num_ranges_to_choose" "?n - l < 10" "p + 1 = length order"
      | (advance) "length cands' \<noteq> num_ranges_to_choose" "?n - l < 10" "p + 1 < length order"
      | (stay) "length cands' \<noteq> num_ranges_to_choose" "10 \<le> ?n - l" using p by linarith
    then show ?thesis
    proof cases
      case full
      then show ?thesis using True w by (subst trivial_loop.simps) auto
    next
      case last
      then show ?thesis using True w d by (subst trivial_loop.simps) (auto simp: num_parts_to_merge_def)
    next
      case advance
      let ?l = "trivial_reset (rs ! (order ! p)) 0 1"
      have "10 \<le> length (rs ! (order ! (p + 1)))"
        using s advance(3) by (simp add: trivial_setting_def num_parts_to_merge_def)
      then have "trivial_pos_ok rs order (p + 1) ?l 1"
        using advance(3) trivial_reset_cases [of "rs ! (order ! p)" 0 1] by (auto simp: trivial_pos_ok_def)
      moreover have "((length order - (p + 1), length (rs ! (order ! (p + 1))) - 1),
          (length order - p, ?n - right)) \<in> less_than <*lex*> less_than"
        using p by (simp add: diff_less_mono2)
      ultimately obtain cs where "trivial_loop rs c f order (p + 1) ?l 1 cands' = Some (Inr cs)"
        "\<exists>p' l'. trivial_cands_ok rs c f order p' l' cs"
        using "1.hyps" trivial_cands_next [OF w(7) advance(3)] by blast
      then show ?thesis using True w d advance p
        by (subst trivial_loop.simps) (auto simp: num_parts_to_merge_def)
    next
      case stay
      let ?l = "trivial_reset (rs ! (order ! p)) l (r + 1)"
      have l: "?l = l \<or> ?l = r + 1" by (rule trivial_reset_cases)
      then have "trivial_pos_ok rs order p ?l (r + 1)"
        using stay w p by (auto simp: trivial_pos_ok_def)
      moreover have "trivial_cands_ok rs c f order p ?l cands'"
        using l w(2,7) by (fastforce simp: trivial_cands_ok_def)
      moreover have "right < ?n" using stay w by linarith
      ultimately show ?thesis using True w d stay "1.hyps" [of p "r + 1" ?l cands']
        by (subst trivial_loop.simps) (auto simp: num_parts_to_merge_def)
    qed
  qed
qed

lemma trivial_candidates_ok:
  assumes "sort_desc_ok sort_desc" "sums_fit rs" "\<forall>ps \<in> set rs. length ps < size_max"
  obtains cs where "trivial_candidates sort_desc rs c f = Some (Inr cs)"
    "\<forall>x \<in> set cs. candidate_ok rs c f x" "sorted_wrt apart cs" "length cs \<le> num_ranges_to_choose"
proof -
  let ?order = "sort_desc (\<lambda>i. length (rs ! i)) (large_partitions rs)"
  have m: "mset ?order = mset (large_partitions rs)" using assms(1) by (simp add: sort_desc_ok_def)
  then have "set ?order = set (large_partitions rs)" "distinct ?order"
    by (metis set_mset_mset, metis mset_eq_imp_distinct_iff distinct_filter distinct_upt large_partitions_def)
  then have st: "trivial_setting rs ?order"
    using assms by (auto simp: trivial_setting_def large_partitions_def)
  show ?thesis
  proof (cases "?order = []")
    case True
    then show ?thesis using that [of "[]"] by (simp add: trivial_candidates_def)
  next
    case False
    then have "trivial_pos_ok rs ?order 0 0 0" by (simp add: trivial_pos_ok_def)
    moreover have "trivial_cands_ok rs c f ?order 0 0 []" by (simp add: trivial_cands_ok_def)
    ultimately show ?thesis using trivial_loop_ok [OF st] that False
      by (fastforce simp: trivial_candidates_def trivial_cands_ok_def)
  qed
qed

section \<open>What the two selectors promise\<close>

definition valid_input :: "parts_range list \<Rightarrow> bool" where
  "valid_input rs \<longleftrightarrow> sums_fit rs \<and> (\<forall>ps \<in> set rs. length ps < size_max)"

lemma candidate_okD:
  assumes "candidate_ok rs c f x"
  obtains r b where "x = (r, b, b + 10)" "r < length rs" "b + 10 \<le> length (rs ! r)"
    "fits c (parts_between (rs ! r) b (b + 10))" "accepts f (parts_between (rs ! r) b (b + 10))"
proof -
  obtain r b e where x: "x = (r, b, e)" by (cases x)
  then have "r < length rs" "b < e" "e \<le> length (rs ! r)" "e - b = 10"
    using assms by (auto simp: candidate_ok_def span_in_def span_range_def num_parts_to_merge_def)
  moreover from this have "e = b + 10" by simp
  moreover have "fits c (parts_between (rs ! r) b e)" "accepts f (parts_between (rs ! r) b e)"
    using assms x by (simp_all add: candidate_ok_def span_range_def)
  ultimately show ?thesis using that x by simp
qed

lemma trivial_select_returns:
  assumes "sort_desc_ok sort_desc" "valid_input rs"
  shows "\<exists>res. trivial_select sort_desc rng rs (c # cs) f = Some (Inr res)
    \<and> (res = [] \<or> (\<exists>r b. r < length rs \<and> b + 10 \<le> length (rs ! r)
         \<and> res = [parts_between (rs ! r) b (b + 10)] \<and> fits c (hd res) \<and> accepts f (hd res)))"
proof -
  obtain cands where c: "trivial_candidates sort_desc rs c f = Some (Inr cands)"
    "\<forall>x \<in> set cands. candidate_ok rs c f x"
    using trivial_candidates_ok [OF assms(1)] assms(2) unfolding valid_input_def by metis
  let ?x = "cands ! (rng mod length cands)"
  show ?thesis
  proof (cases "cands = []")
    case True
    then show ?thesis using c by (simp add: trivial_select_def)
  next
    case False
    then have "?x \<in> set cands" by simp
    then obtain r b where x: "?x = (r, b, b + 10)" "r < length rs" "b + 10 \<le> length (rs ! r)"
      "fits c (parts_between (rs ! r) b (b + 10))" "accepts f (parts_between (rs ! r) b (b + 10))"
      using c(2) candidate_okD by metis
    have "trivial_select sort_desc rng rs (c # cs) f = Some (Inr [span_range rs ?x])"
      using c False by (cases "length cands = 1") (auto simp: trivial_select_def)
    then show ?thesis using x by (auto simp: span_range_def)
  qed
qed

text \<open>
  C27: The trivial selector always returns, and no window leaves its partition. It returns nothing, or one
  range: ten neighbouring parts of one of the ranges it was given, which satisfy the first constraint and
  the filter.
\<close>

theorem trivial_select_contract:
  assumes "sort_desc_ok sort_desc" "valid_input rs"
  shows "\<exists>res. trivial_select sort_desc rng rs (c # cs) f = Some (Inr res)
    \<and> (res = [] \<or> (\<exists>r b. r < length rs \<and> b + 10 \<le> length (rs ! r)
         \<and> res = [parts_between (rs ! r) b (b + 10)] \<and> fits c (hd res) \<and> accepts f (hd res)))"
  by (rule trivial_select_returns [OF assms])

text \<open>A part of a given level and size, for the examples.\<close>

definition sample_part :: "nat \<Rightarrow> nat \<Rightarrow> part_properties" where
  "sample_part l sz = \<lparr>part_name = [], info = (PartInfo [] 1 1 l 0), projection_names = [],
     all_ttl_calculated_if_any = False, is_in_volume_where_merges_avoid = False, part_size = sz, age = 0,
     rows = 1, general_ttl_info = None, recompression_ttl_info = None\<rparr>"

lemma sample_part_simps [simp]:
  "part_size (sample_part l sz) = sz" "rows (sample_part l sz) = 1"
  "level (info (sample_part l sz)) = l" "info (sample_part l sz) = PartInfo [] 1 1 l 0"
  "general_ttl_info (sample_part l sz) = None" "age (sample_part l sz) = 0"
  by (simp_all add: sample_part_def PartInfo_def)

definition level_zero_partition :: parts_range where
  "level_zero_partition = replicate 10 (sample_part 0 5)"

definition falling_levels_partition :: parts_range where
  "falling_levels_partition = map (\<lambda>l. sample_part l 5) [10, 9, 8, 7, 6, 5, 4, 3, 2, 1, 0]"

definition wide_constraint :: merge_constraint where
  "wide_constraint = \<lparr>max_size_bytes = 1000, max_size_rows = 1000\<rparr>"

lemma level_zero_sums:
  "total_bytes level_zero_partition = 50" "total_rows level_zero_partition = 10" "length level_zero_partition = 10"
  by (simp_all add: level_zero_partition_def numeral_eq_Suc)

theorem trivial_select_contract_witness:
  "\<exists>res. trivial_select stable_desc 7 [level_zero_partition] [wide_constraint] None = Some (Inr res)
    \<and> (res = [] \<or> (\<exists>r b. r < length [level_zero_partition] \<and> b + 10 \<le> length ([level_zero_partition] ! r)
         \<and> res = [parts_between ([level_zero_partition] ! r) b (b + 10)]
         \<and> fits wide_constraint (hd res) \<and> accepts None (hd res)))"
  by (rule trivial_select_contract [OF stable_desc_ok])
    (simp add: valid_input_def sums_fit_def level_zero_sums size_max_def)

lemmas trivial_eval = trivial_select_def trivial_candidates_def large_partitions_def stable_desc_def trivial_loop.simps
  trivial_window_def trivial_reset_def sub64_def size_max_def sum64_eq parts_between_def num_parts_to_merge_def
  num_ranges_to_choose_def wide_constraint_def accepts_def span_range_def

lemma level_zero_eq: "level_zero_partition = [sample_part 0 5, sample_part 0 5, sample_part 0 5, sample_part 0 5,
   sample_part 0 5, sample_part 0 5, sample_part 0 5, sample_part 0 5, sample_part 0 5, sample_part 0 5]"
  by (simp add: level_zero_partition_def numeral_eq_Suc)
lemma level_zero_selected:
  "trivial_select stable_desc 7 [level_zero_partition] [wide_constraint] None = Some (Inr [level_zero_partition])"
  by (simp add: level_zero_eq trivial_eval)
text \<open>
  The selector overlooks a partition whose ten parts of equal level it would merge on their own: after the
  step to the next partition, the comparison of levels still reads the previous partition, and a first part
  of a higher level there makes the selector skip the first part here.
\<close>

theorem trivial_select_reads_previous_partition:
  "trivial_select stable_desc 7 [level_zero_partition] [wide_constraint] None = Some (Inr [level_zero_partition])
   \<and> trivial_select stable_desc 7 [falling_levels_partition, level_zero_partition] [wide_constraint] None
       = Some (Inr [])"
  by (simp add: level_zero_eq falling_levels_partition_def trivial_eval)

definition bumpy_partition :: parts_range where
  "bumpy_partition = map (\<lambda>l. sample_part l 5) [0, 5, 1, 4, 1, 3, 1, 2, 1, 0]"

text \<open>
  The header says that the levels in a chosen range are not decreasing; the loop only compares with the
  first part of the window, so it chooses a range in which the levels fall.
\<close>

theorem trivial_levels_decrease:
  "trivial_select stable_desc 7 [bumpy_partition] [wide_constraint] None = Some (Inr [bumpy_partition])
   \<and> \<not> sorted (map (\<lambda>p. level (info p)) bumpy_partition)"
  by (simp add: bumpy_partition_def trivial_eval)

text \<open>
  C33: The selector of whole partitions, on ranges whose sizes fit 64 bits and of which every eligible one
  (two parts or more, accepted by the filter) has bytes: it returns an eligible range with the fewest
  bytes, provided that this one satisfies the first constraint and has rows; otherwise, and when none is
  eligible, it returns nothing.
\<close>

theorem all_select_smallest:
  assumes "sums_fit rs" "\<forall>ps \<in> set rs. all_candidate f ps \<longrightarrow> 0 < total_bytes ps"
  shows "\<exists>res. all_select rs (c # cs) f = Inr res
    \<and> (if \<exists>ps \<in> set rs. all_candidate f ps
       then \<exists>ps \<in> set rs. all_candidate f ps \<and> (\<forall>qs \<in> set rs. all_candidate f qs \<longrightarrow> total_bytes ps \<le> total_bytes qs)
              \<and> res = (if 0 < total_rows ps \<and> fits c ps then [ps] else [])
       else res = [])"
proof -
  let ?a = "foldl (all_step f) \<lparr>min_partition_size = 0, min_partition_rows = 0, best_partition = []\<rparr> rs"
  have b: "all_best f rs ?a" by (rule all_fold_best [OF assms])
  show ?thesis
  proof (cases "min_partition_size ?a = 0")
    case True
    then show ?thesis using b by (auto simp: all_select_def all_best_def Let_def)
  next
    case False
    then have "best_partition ?a \<in> set rs" "all_candidate f (best_partition ?a)"
      "all_select rs (c # cs) f = Inr (if 0 < total_rows (best_partition ?a) \<and> fits c (best_partition ?a)
         then [best_partition ?a] else [])"
      using b by (auto simp: all_select_def all_best_def fits_def Let_def)
    then show ?thesis using b False by (auto simp: all_best_def)
  qed
qed

theorem all_select_smallest_witness:
  "all_select [[sample_part 0 50, sample_part 0 60], [sample_part 0 3, sample_part 0 4]] [wide_constraint] None
   = Inr [[sample_part 0 3, sample_part 0 4]]"
proof -
  let ?ps = "[sample_part 0 50, sample_part 0 60]" and ?qs = "[sample_part 0 3, sample_part 0 4]"
  have c: "all_candidate None ?ps" "all_candidate None ?qs" by (simp_all add: all_candidate_def accepts_def)
  have "sums_fit [?ps, ?qs]" "\<forall>xs \<in> set [?ps, ?qs]. all_candidate None xs \<longrightarrow> 0 < total_bytes xs"
    by (simp_all add: sums_fit_def size_max_def)
  from all_select_smallest [OF this, of wide_constraint "[]"] c show ?thesis
    by (auto simp: fits_def wide_constraint_def)
qed

text \<open>A partition without bytes hides every smaller choice before it: it counts as no choice yet.\<close>

lemma all_select_zero_bytes:
  "all_select [[sample_part 0 3, sample_part 0 4], [sample_part 0 0, sample_part 0 0],
      [sample_part 0 50, sample_part 0 60]] [wide_constraint] None
   = Inr [[sample_part 0 50, sample_part 0 60]]"
  by (simp add: all_select_def all_step_def Let_def trivial_eval)

end
