(* ===== verification/Merge_TTL.thy ===== *)
theory Merge_TTL
  imports Merge_Selection
begin

text \<open>
  \<open>ITTLMergeSelector\<close> and its three subclasses
  (\<open>Compaction/MergeSelectors/TTLMergeSelector.cpp\<close>): ranges of parts with expired TTL, grown
  around the part with the earliest one. The virtual methods are the fields of a record. A range is kept as
  a span; the parts are copied out at the end of \<open>ttl_select\<close>.
\<close>

record ttl_selector =
  can_consider_part :: "part_properties \<Rightarrow> bool"
  get_ttl_for_part :: "part_properties \<Rightarrow> int"
  current_time :: int
  merge_due_times :: "(string \<Rightarrow> int option) option"
  max_parts_to_merge_at_once :: size_t

record center_position =
  center_range :: nat
  center :: nat
  center_ttl :: int

definition canIncludeToRange :: "size_t \<Rightarrow> size_t \<Rightarrow> int \<Rightarrow> int \<Rightarrow> size_t \<Rightarrow> size_t \<Rightarrow> bool" where
  "canIncludeToRange psize prows part_ttl now usable_memory usable_rows \<longleftrightarrow>
     (0 < part_ttl \<and> part_ttl \<le> now) \<and> usable_memory \<ge> psize \<and> usable_rows \<ge> prows"

definition needToPostponePartition :: "ttl_selector \<Rightarrow> string \<Rightarrow> bool" where
  "needToPostponePartition s pid =
     (case merge_due_times s of None \<Rightarrow> False
      | Some due \<Rightarrow> (case due pid of None \<Rightarrow> False | Some t \<Rightarrow> t > current_time s))"

text \<open>The first part of a range names its partition; the collectors return no empty range.\<close>

definition centers_of :: "ttl_selector \<Rightarrow> nat \<Rightarrow> parts_range \<Rightarrow> center_position list" where
  "centers_of s r ps =
     (if needToPostponePartition s (partition_id (info (hd ps))) then []
      else map (\<lambda>i. \<lparr>center_range = r, center = i, center_ttl = get_ttl_for_part s (ps ! i)\<rparr>)
             (filter (\<lambda>i. can_consider_part s (ps ! i)
                \<and> \<not> (get_ttl_for_part s (ps ! i) = 0 \<or> get_ttl_for_part s (ps ! i) > current_time s))
               [0..<length ps]))"

definition findCenters :: "ttl_selector \<Rightarrow> parts_range list \<Rightarrow> center_position list" where
  "findCenters s rs = concat (map (\<lambda>r. centers_of s r (rs ! r)) [0..<length rs])"

text \<open>What is left of the constraint while a range grows: bytes, rows, parts.\<close>

type_synonym usable = "size_t \<times> size_t \<times> size_t"

definition can_grow :: "ttl_selector \<Rightarrow> disjoint_set \<Rightarrow> nat \<Rightarrow> parts_range \<Rightarrow> usable \<Rightarrow> nat \<Rightarrow> bool" where
  "can_grow s d r ps u i =
     (case u of (usable_memory, usable_rows, usable_parts) \<Rightarrow>
        usable_parts \<noteq> 0 \<and> can_consider_part s (ps ! i) \<and> \<not> isCovered d r i
        \<and> canIncludeToRange (part_size (ps ! i)) (rows (ps ! i)) (get_ttl_for_part s (ps ! i)) (current_time s)
            usable_memory usable_rows)"

definition take_part :: "part_properties \<Rightarrow> usable \<Rightarrow> usable" where
  "take_part p u = (case u of (m, n, k) \<Rightarrow> (m - part_size p, n - rows p, k - 1))"

fun findLeftRangeBorder ::
  "ttl_selector \<Rightarrow> disjoint_set \<Rightarrow> nat \<Rightarrow> parts_range \<Rightarrow> nat \<Rightarrow> usable \<Rightarrow> nat \<times> usable" where
  "findLeftRangeBorder s d r ps 0 u = (0, u)"
| "findLeftRangeBorder s d r ps (Suc i) u =
     (if can_grow s d r ps u i then findLeftRangeBorder s d r ps i (take_part (ps ! i) u)
      else (Suc i, u))"

function findRightRangeBorder ::
  "ttl_selector \<Rightarrow> disjoint_set \<Rightarrow> nat \<Rightarrow> parts_range \<Rightarrow> nat \<Rightarrow> usable \<Rightarrow> nat \<times> usable" where
  "findRightRangeBorder s d r ps right u =
     (if right < length ps \<and> can_grow s d r ps u right
      then findRightRangeBorder s d r ps (Suc right) (take_part (ps ! right) u)
      else (right, u))"
  by pat_completeness auto
termination by (relation "measure (\<lambda>(s, d, r, ps, right, u). length ps - right)") auto

declare findRightRangeBorder.simps [simp del]

text \<open>The range of a centre before the filter and the disjoint set are asked.\<close>

definition grown_range ::
  "ttl_selector \<Rightarrow> disjoint_set \<Rightarrow> parts_range list \<Rightarrow> center_position \<Rightarrow> merge_constraint \<Rightarrow> span" where
  "grown_range s d rs c k =
     (let r = center_range c; ps = rs ! r; p = ps ! center c;
          u = (max_size_bytes k - part_size p, max_size_rows k - rows p,
               if max_parts_to_merge_at_once s \<noteq> 0 then max_parts_to_merge_at_once s - 1 else size_max - 1);
          (left, u) = findLeftRangeBorder s d r ps (center c) u;
          (right, u) = findRightRangeBorder s d r ps (Suc (center c)) u
      in (r, left, right))"

definition buildRange ::
  "ttl_selector \<Rightarrow> range_filter \<Rightarrow> parts_range list \<Rightarrow> disjoint_set \<Rightarrow> center_position \<Rightarrow> merge_constraint
   \<Rightarrow> span option \<times> disjoint_set" where
  "buildRange s f rs d c k =
     (let p = rs ! center_range c ! center c
      in if part_size p > max_size_bytes k then (None, d)
         else if rows p > max_size_rows k then (None, d)
         else if isCovered d (center_range c) (center c) then (None, d)
         else let (r, left, right) = grown_range s d rs c k
              in if \<not> accepts f (parts_between (rs ! r) left right) then (None, d)
                 else case addRangeIfPossible d r left right of
                   (False, d) \<Rightarrow> (None, d)
                 | (True, d) \<Rightarrow> (Some (r, left, right), d))"

text \<open>
  \<open>MergeRangesConstructor\<close>: the heap of the centres that are left, and the parts given away.
  The test of the length of the rest makes the recursion end for every argument; it never fails for a heap.
\<close>

type_synonym heap_pop = "center_position list \<Rightarrow> center_position \<times> center_position list"

function buildMergeRange ::
  "heap_pop \<Rightarrow> ttl_selector \<Rightarrow> range_filter \<Rightarrow> parts_range list \<Rightarrow> center_position list \<Rightarrow> disjoint_set
   \<Rightarrow> merge_constraint \<Rightarrow> span option \<times> center_position list \<times> disjoint_set" where
  "buildMergeRange pop s f rs centers d k =
     (if centers = [] then (None, centers, d)
      else let (c, rest) = pop centers
           in if \<not> length rest < length centers then (None, centers, d)
              else case buildRange s f rs d c k of
                (Some x, d) \<Rightarrow> (Some x, rest, d)
              | (None, d) \<Rightarrow> buildMergeRange pop s f rs rest d k)"
  by pat_completeness auto
termination by (relation "measure (\<lambda>(pop, s, f, rs, centers, d, k). length centers)") auto

declare buildMergeRange.simps [simp del]

fun ttl_spans ::
  "heap_pop \<Rightarrow> ttl_selector \<Rightarrow> range_filter \<Rightarrow> parts_range list \<Rightarrow> center_position list \<Rightarrow> disjoint_set
   \<Rightarrow> merge_constraint list \<Rightarrow> span list" where
  "ttl_spans pop s f rs centers d [] = []"
| "ttl_spans pop s f rs centers d (k # ks) =
     (case buildMergeRange pop s f rs centers d k of
        (Some x, centers, d) \<Rightarrow> x # ttl_spans pop s f rs centers d ks
      | (None, _) \<Rightarrow> [])"

definition ttl_select ::
  "heap_pop \<Rightarrow> ttl_selector \<Rightarrow> parts_range list \<Rightarrow> merge_constraint list \<Rightarrow> range_filter \<Rightarrow> parts_range list" where
  "ttl_select pop s rs ks f =
     map (span_range rs) (ttl_spans pop s f rs (findCenters s rs) DisjointPartsRangesSet ks)"

section \<open>The three selectors\<close>

text \<open>The TTL of a part without TTL information is undefined; the parts are asked for it only after
  \<open>canConsiderPart\<close>.\<close>

definition TTLPartDropMergeSelector :: "int \<Rightarrow> size_t \<Rightarrow> ttl_selector" where
  "TTLPartDropMergeSelector now max_parts =
     \<lparr>can_consider_part = (\<lambda>p. general_ttl_info p \<noteq> None),
      get_ttl_for_part = (\<lambda>p. part_max_ttl (the (general_ttl_info p))),
      current_time = now, merge_due_times = None, max_parts_to_merge_at_once = max_parts\<rparr>"

definition TTLRowDeleteMergeSelector :: "(string \<Rightarrow> int option) \<Rightarrow> int \<Rightarrow> ttl_selector" where
  "TTLRowDeleteMergeSelector due now =
     \<lparr>can_consider_part = (\<lambda>p. \<not> is_in_volume_where_merges_avoid p
        \<and> (case general_ttl_info p of None \<Rightarrow> False | Some t \<Rightarrow> has_any_non_finished_ttls t)),
      get_ttl_for_part = (\<lambda>p. part_min_ttl (the (general_ttl_info p))),
      current_time = now, merge_due_times = Some due, max_parts_to_merge_at_once = 0\<rparr>"

definition TTLRecompressMergeSelector :: "(string \<Rightarrow> int option) \<Rightarrow> int \<Rightarrow> ttl_selector" where
  "TTLRecompressMergeSelector due now =
     \<lparr>can_consider_part = (\<lambda>p. \<not> is_in_volume_where_merges_avoid p
        \<and> (case recompression_ttl_info p of None \<Rightarrow> False | Some t \<Rightarrow> will_change_codec t)),
      get_ttl_for_part = (\<lambda>p. next_recompress_ttl (the (recompression_ttl_info p))),
      current_time = now, merge_due_times = Some due, max_parts_to_merge_at_once = 0\<rparr>"

end
