(* ===== verification/Merge_TTL_Results.thy ===== *)
theory Merge_TTL_Results
  imports Merge_TTL
begin

text \<open>
  What the TTL selectors promise: their ranges lie apart, satisfy the constraints and the filter and hold
  expired parts only, and the first one grows around an expired part with the earliest TTL.
\<close>

section \<open>The borders of a range\<close>

definition expired :: "ttl_selector \<Rightarrow> part_properties \<Rightarrow> bool" where
  "expired s p \<longleftrightarrow> can_consider_part s p \<and> get_ttl_for_part s p \<noteq> 0 \<and> get_ttl_for_part s p \<le> current_time s"

definition uncovered :: "disjoint_set \<Rightarrow> nat \<Rightarrow> nat set \<Rightarrow> bool" where
  "uncovered d r I \<longleftrightarrow> (\<forall>i \<in> I. \<not> isCovered d r i)"

text \<open>The part of the allowance that the parts between two positions have used up.\<close>

definition used :: "parts_range \<Rightarrow> usable \<Rightarrow> usable \<Rightarrow> bool" where
  "used ps u u' \<longleftrightarrow> (case (u, u') of ((m, n, k), (m', n', k')) \<Rightarrow>
     m = m' + total_bytes ps \<and> n = n' + total_rows ps \<and> k = k' + length ps)"

lemma can_growD:
  assumes "can_grow s d r ps u i"
  shows "expired s (ps ! i)" "\<not> isCovered d r i" "used [ps ! i] u (take_part (ps ! i) u)"
  using assms by (auto simp: can_grow_def canIncludeToRange_def expired_def used_def take_part_def split: prod.splits)

lemma used_refl [simp]: "used [] u u"
  by (cases u) (simp add: used_def)

lemma used_trans: "used ps u v \<Longrightarrow> used qs v w \<Longrightarrow> used (ps @ qs) u w" "used ps u v \<Longrightarrow> used qs v w \<Longrightarrow> used (qs @ ps) u w"
  by (auto simp: used_def split: prod.splits)

lemma findLeftRangeBorder_ok:
  "findLeftRangeBorder s d r ps c u = (l, u') \<Longrightarrow> c \<le> length ps \<Longrightarrow>
     l \<le> c \<and> (\<forall>i \<in> {l..<c}. expired s (ps ! i)) \<and> uncovered d r {l..<c} \<and> used (parts_between ps l c) u u'"
proof (induction s d r ps c u rule: findLeftRangeBorder.induct)
  case (2 s d r ps i u)
  show ?case
  proof (cases "can_grow s d r ps u i")
    case False
    then show ?thesis using "2.prems" by (simp add: uncovered_def)
  next
    case True
    then have "l \<le> i \<and> (\<forall>j \<in> {l..<i}. expired s (ps ! j)) \<and> uncovered d r {l..<i}
        \<and> used (parts_between ps l i) (take_part (ps ! i) u) u'"
      using "2.IH" "2.prems" by simp
    moreover from this have "used (parts_between ps l (Suc i)) u u'"
      using used_trans(2) [OF can_growD(3) [OF True]] "2.prems" by (simp add: parts_between_right)
    ultimately show ?thesis using can_growD(1,2) [OF True]
      by (auto simp: uncovered_def less_Suc_eq)
  qed
qed (simp add: uncovered_def)

lemma findRightRangeBorder_ok:
  "findRightRangeBorder s d r ps b u = (e, u') \<Longrightarrow> b \<le> length ps \<Longrightarrow>
     b \<le> e \<and> e \<le> length ps \<and> (\<forall>i \<in> {b..<e}. expired s (ps ! i)) \<and> uncovered d r {b..<e}
     \<and> used (parts_between ps b e) u u'"
proof (induction s d r ps b u rule: findRightRangeBorder.induct)
  case (1 s d r ps b u)
  show ?case
  proof (cases "b < length ps \<and> can_grow s d r ps u b")
    case False
    then show ?thesis using "1.prems" by (subst (asm) findRightRangeBorder.simps) (auto simp: uncovered_def)
  next
    case True
    then have "findRightRangeBorder s d r ps (Suc b) (take_part (ps ! b) u) = (e, u')"
      using "1.prems" by (subst (asm) findRightRangeBorder.simps) simp
    then have *: "Suc b \<le> e \<and> e \<le> length ps \<and> (\<forall>i \<in> {Suc b..<e}. expired s (ps ! i)) \<and> uncovered d r {Suc b..<e}
        \<and> used (parts_between ps (Suc b) e) (take_part (ps ! b) u) u'"
      using "1.IH" True by simp
    then have "used (parts_between ps b e) u u'"
      using used_trans(1) [OF can_growD(3)] True by (simp add: parts_between_left [of b e])
    moreover have "{b..<e} = insert b {Suc b..<e}" using * by auto
    ultimately show ?thesis using * True can_growD(1,2) by (auto simp: uncovered_def)
  qed
qed

definition center_ok :: "ttl_selector \<Rightarrow> parts_range list \<Rightarrow> center_position \<Rightarrow> bool" where
  "center_ok s rs c \<longleftrightarrow>
     center_range c < length rs \<and> center c < length (rs ! center_range c)
     \<and> expired s (rs ! center_range c ! center c)
     \<and> center_ttl c = get_ttl_for_part s (rs ! center_range c ! center c)
     \<and> \<not> needToPostponePartition s (partition_id (info (hd (rs ! center_range c))))"

lemma centers_of_iff:
  "c \<in> set (centers_of s r ps) \<longleftrightarrow> center_range c = r \<and> center c < length ps \<and> expired s (ps ! center c)
     \<and> center_ttl c = get_ttl_for_part s (ps ! center c)
     \<and> \<not> needToPostponePartition s (partition_id (info (hd ps)))"
  by (cases c) (auto simp: centers_of_def expired_def)

lemma findCenters_iff: "c \<in> set (findCenters s rs) \<longleftrightarrow> center_ok s rs c"
  by (auto simp: findCenters_def centers_of_iff center_ok_def)

definition center_fits :: "parts_range list \<Rightarrow> center_position \<Rightarrow> merge_constraint \<Rightarrow> bool" where
  "center_fits rs c k \<longleftrightarrow>
     part_size (rs ! center_range c ! center c) \<le> max_size_bytes k
     \<and> rows (rs ! center_range c ! center c) \<le> max_size_rows k"

text \<open>A range of a TTL merge: the constraint, the number of parts, and the parts themselves.\<close>

definition ttl_range_ok :: "ttl_selector \<Rightarrow> merge_constraint \<Rightarrow> parts_range \<Rightarrow> bool" where
  "ttl_range_ok s k ps \<longleftrightarrow>
     ps \<noteq> [] \<and> fits k ps \<and> (max_parts_to_merge_at_once s \<noteq> 0 \<longrightarrow> length ps \<le> max_parts_to_merge_at_once s)
     \<and> (\<forall>p \<in> set ps. expired s p)"

lemma grown_range_ok:
  assumes c: "center_ok s rs c" and k: "center_fits rs c k" and u: "\<not> isCovered d (center_range c) (center c)"
  obtains l e where "grown_range s d rs c k = (center_range c, l, e)" "l \<le> center c" "center c < e"
    "e \<le> length (rs ! center_range c)" "uncovered d (center_range c) {l..<e}"
    "ttl_range_ok s k (parts_between (rs ! center_range c) l e)"
proof -
  let ?r = "center_range c" and ?c = "center c"
  let ?ps = "rs ! ?r" and ?max = "max_parts_to_merge_at_once s"
  let ?u = "(max_size_bytes k - part_size (?ps ! ?c), max_size_rows k - rows (?ps ! ?c),
     if ?max \<noteq> 0 then ?max - 1 else size_max - 1)"
  obtain l u1 where l: "findLeftRangeBorder s d ?r ?ps ?c ?u = (l, u1)" by (rule prod.exhaust)
  obtain e u2 where e: "findRightRangeBorder s d ?r ?ps (Suc ?c) u1 = (e, u2)" by (rule prod.exhaust)
  have cl: "?c < length ?ps" using c by (simp add: center_ok_def)
  note L = findLeftRangeBorder_ok [OF l] note R = findRightRangeBorder_ok [OF e]
  have g: "grown_range s d rs c k = (?r, l, e)" using l e by (simp add: grown_range_def Let_def)
  have le: "l \<le> ?c" "?c < e" "e \<le> length ?ps" using L R cl by auto
  have split: "parts_between ?ps l e = parts_between ?ps l ?c @ ?ps ! ?c # parts_between ?ps (Suc ?c) e"
    using parts_between_append [of l ?c e ?ps] parts_between_left [of ?c e ?ps] le by simp
  have idx: "{l..<e} = {l..<?c} \<union> {?c} \<union> {Suc ?c..<e}" using le by auto
  have unc: "uncovered d ?r {l..<e}" unfolding idx using L R cl u by (auto simp: uncovered_def)
  have "used (parts_between ?ps l ?c @ parts_between ?ps (Suc ?c) e) ?u u2"
    using L R cl by (auto intro: used_trans)
  then have "fits k (parts_between ?ps l e)" "?max \<noteq> 0 \<longrightarrow> length (parts_between ?ps l e) \<le> ?max"
    using k by (auto simp: split used_def fits_def center_fits_def split: prod.splits)
  moreover have "expired s p" if "p \<in> set (parts_between ?ps l e)" for p
    using that c L R cl unfolding set_parts_between [OF le(3)] idx by (auto simp: center_ok_def)
  ultimately have "ttl_range_ok s k (parts_between ?ps l e)" by (simp add: ttl_range_ok_def split)
  then show ?thesis using that g le unc by blast
qed

text \<open>
  Every part of a grown range is uncovered, so the disjoint set never refuses it: a centre yields a range
  exactly when it fits, is not covered and the filter accepts its range.
\<close>

definition center_usable :: "ttl_selector \<Rightarrow> range_filter \<Rightarrow> parts_range list \<Rightarrow> disjoint_set \<Rightarrow> merge_constraint
  \<Rightarrow> center_position \<Rightarrow> bool" where
  "center_usable s f rs d k c \<longleftrightarrow>
     center_fits rs c k \<and> \<not> isCovered d (center_range c) (center c)
     \<and> accepts f (span_range rs (grown_range s d rs c k))"

lemma buildRange_ok:
  assumes c: "center_ok s rs c" and d: "set_ok d"
  shows "buildRange s f rs d c k =
    (if center_usable s f rs d k c
     then (Some (grown_range s d rs c k), snd (buildRange s f rs d c k)) else (None, d))"
    "center_usable s f rs d k c \<Longrightarrow> set_ok (snd (buildRange s f rs d c k))
      \<and> given_away (snd (buildRange s f rs d c k)) = insert (grown_range s d rs c k) (given_away d)
      \<and> (\<forall>x \<in> given_away d. apart (grown_range s d rs c k) x)
      \<and> span_in rs (grown_range s d rs c k) \<and> ttl_range_ok s k (span_range rs (grown_range s d rs c k))"
proof -
  have *: "(buildRange s f rs d c k = (Some (grown_range s d rs c k), snd (buildRange s f rs d c k)))
     \<and> set_ok (snd (buildRange s f rs d c k))
      \<and> given_away (snd (buildRange s f rs d c k)) = insert (grown_range s d rs c k) (given_away d)
      \<and> (\<forall>x \<in> given_away d. apart (grown_range s d rs c k) x)
      \<and> span_in rs (grown_range s d rs c k) \<and> ttl_range_ok s k (span_range rs (grown_range s d rs c k))"
    if u: "center_usable s f rs d k c"
  proof -
    let ?r = "center_range c"
    have k: "center_fits rs c k" "\<not> isCovered d ?r (center c)" using u by (simp_all add: center_usable_def)
    obtain l e where g: "grown_range s d rs c k = (?r, l, e)" "l \<le> center c" "center c < e"
      "e \<le> length (rs ! ?r)" "uncovered d ?r {l..<e}" "ttl_range_ok s k (parts_between (rs ! ?r) l e)"
      using grown_range_ok [OF c k] by metis
    have le: "l < e" using g by linarith
    obtain b d' where add: "addRangeIfPossible d ?r l e = (b, d')" by fastforce
    then have t: b using dset.add_uncovered [OF d le, of ?r] g(5) by (auto simp: uncovered_def)
    have "buildRange s f rs d c k = (Some (?r, l, e), d')"
      using u k g(1) add t by (simp add: buildRange_def center_fits_def center_usable_def span_range_def not_less Let_def)
    moreover have "set_ok d'" "given_away d' = insert (?r, l, e) (given_away d)"
      "\<forall>x \<in> given_away d. apart (?r, l, e) x"
      using dset.add_ok [OF d le, of ?r] dset.add_granted [OF d le, of ?r] dset.add_iff [OF d le, of ?r] add t
      by simp_all
    ultimately show ?thesis using g c le by (simp add: span_in_def span_range_def center_ok_def)
  qed
  have "buildRange s f rs d c k = (None, d)" if "\<not> center_usable s f rs d k c"
    using that by (auto simp: buildRange_def center_usable_def center_fits_def span_range_def Let_def split: prod.splits)
  then show "buildRange s f rs d c k =
    (if center_usable s f rs d k c
     then (Some (grown_range s d rs c k), snd (buildRange s f rs d c k)) else (None, d))"
    using * by simp
  show "center_usable s f rs d k c \<Longrightarrow> set_ok (snd (buildRange s f rs d c k))
      \<and> given_away (snd (buildRange s f rs d c k)) = insert (grown_range s d rs c k) (given_away d)
      \<and> (\<forall>x \<in> given_away d. apart (grown_range s d rs c k) x)
      \<and> span_in rs (grown_range s d rs c k) \<and> ttl_range_ok s k (span_range rs (grown_range s d rs c k))"
    using * by blast
qed

section \<open>The heap of centres\<close>

definition later_ttl :: "center_position \<Rightarrow> center_position \<Rightarrow> bool" where
  "later_ttl x y \<longleftrightarrow> center_ttl x > center_ttl y"

definition center_pop :: heap_pop where
  "center_pop = pop_least center_ttl"

lemma center_pop_ok: "heap_pop_ok later_ttl center_pop"
  using pop_least_ok [of center_ttl] by (simp add: later_ttl_def [abs_def] center_pop_def)

definition earliest_usable ::
  "ttl_selector \<Rightarrow> range_filter \<Rightarrow> parts_range list \<Rightarrow> disjoint_set \<Rightarrow> merge_constraint
   \<Rightarrow> center_position set \<Rightarrow> center_position \<Rightarrow> bool" where
  "earliest_usable s f rs d k C c \<longleftrightarrow>
     c \<in> C \<and> center_usable s f rs d k c
     \<and> (\<forall>c' \<in> C. center_usable s f rs d k c' \<longrightarrow> center_ttl c \<le> center_ttl c')"

lemma buildMergeRange_cases:
  "heap_pop_ok later_ttl pop \<Longrightarrow> \<forall>c \<in> set centers. center_ok s rs c \<Longrightarrow> set_ok d \<Longrightarrow>
    (case buildMergeRange pop s f rs centers d k of
       (None, centers', d') \<Rightarrow> \<forall>c \<in> set centers. \<not> center_usable s f rs d k c
     | (Some x, centers', d') \<Rightarrow> set centers' \<subseteq> set centers
         \<and> (\<exists>c. earliest_usable s f rs d k (set centers) c \<and> x = grown_range s d rs c k
              \<and> d' = snd (buildRange s f rs d c k)))"
proof (induction pop s f rs centers d k rule: buildMergeRange.induct)
  case (1 pop s f rs centers d k)
  show ?case
  proof (cases "centers = []")
    case True
    then show ?thesis by (simp add: buildMergeRange.simps)
  next
    case False
    obtain c rest where p: "pop centers = (c, rest)" by (rule prod.exhaust)
    note h = heap_popD [OF "1.prems"(1) False p]
    have c: "center_ok s rs c" "\<forall>c \<in> set rest. center_ok s rs c" using h(1) "1.prems"(2) by auto
    note b = buildRange_ok(1) [OF c(1) "1.prems"(3), of f k]
    have least: "center_ttl c \<le> center_ttl c'" if "c' \<in> set centers" for c'
      using h(3) [OF that] by (simp add: later_ttl_def)
    show ?thesis
    proof (cases "center_usable s f rs d k c")
      case True
      then obtain d' where "buildRange s f rs d c k = (Some (grown_range s d rs c k), d')" using b by simp
      then have "buildMergeRange pop s f rs centers d k =
          (Some (grown_range s d rs c k), rest, snd (buildRange s f rs d c k))"
        using p h(2) False by (subst buildMergeRange.simps) simp
      moreover have "earliest_usable s f rs d k (set centers) c"
        using True least h(1) by (simp add: earliest_usable_def)
      ultimately show ?thesis using h(1) by auto
    next
      case unusable: False
      then have nb: "buildRange s f rs d c k = (None, d)" using b by simp
      then have eq: "buildMergeRange pop s f rs centers d k = buildMergeRange pop s f rs rest d k"
        using p h(2) False by (subst buildMergeRange.simps) simp
      have shorter: "\<not> \<not> length rest < length centers" using h(2) by simp
      from "1.IH" [OF False refl p [symmetric] shorter nb [symmetric] refl "1.prems"(1) c(2) "1.prems"(3)]
      show ?thesis unfolding eq using unusable h(1,2)
        by (auto simp: earliest_usable_def split: prod.splits option.splits)
    qed
  qed
qed

section \<open>The selection\<close>

lemma ttl_spans_ok:
  assumes pop: "heap_pop_ok later_ttl pop"
  shows "\<forall>c \<in> set centers. center_ok s rs c \<Longrightarrow> set_ok d \<Longrightarrow>
     length (ttl_spans pop s f rs centers d ks) \<le> length ks
     \<and> sorted_wrt apart (ttl_spans pop s f rs centers d ks)
     \<and> (\<forall>x \<in> set (ttl_spans pop s f rs centers d ks). \<forall>y \<in> given_away d. apart x y)
     \<and> (\<forall>i < length (ttl_spans pop s f rs centers d ks). let x = ttl_spans pop s f rs centers d ks ! i
          in span_in rs x \<and> ttl_range_ok s (ks ! i) (span_range rs x) \<and> accepts f (span_range rs x))"
proof (induction ks arbitrary: centers d)
  case (Cons k ks)
  obtain ox centers' d' where b: "buildMergeRange pop s f rs centers d k = (ox, centers', d')"
    by (metis prod_cases3)
  note cases = buildMergeRange_cases [OF pop Cons.prems, of f k]
  show ?case
  proof (cases ox)
    case None
    then show ?thesis using b by simp
  next
    case (Some x)
    then obtain c where c: "set centers' \<subseteq> set centers" "earliest_usable s f rs d k (set centers) c"
      "x = grown_range s d rs c k" "d' = snd (buildRange s f rs d c k)"
      using cases b by auto
    have u: "center_usable s f rs d k c" "center_ok s rs c"
      using c(2) Cons.prems(1) by (auto simp: earliest_usable_def)
    note r = buildRange_ok(2) [OF u(2) Cons.prems(2) u(1), folded c(3,4)]
    have acc: "accepts f (span_range rs x)" using u(1) c(3) by (simp add: center_usable_def)
    let ?xs = "ttl_spans pop s f rs centers' d' ks"
    have eq: "ttl_spans pop s f rs centers d (k # ks) = x # ?xs" using b Some by simp
    have IH: "length ?xs \<le> length ks \<and> sorted_wrt apart ?xs \<and> (\<forall>x \<in> set ?xs. \<forall>y \<in> given_away d'. apart x y)
       \<and> (\<forall>i < length ?xs. let x = ?xs ! i
          in span_in rs x \<and> ttl_range_ok s (ks ! i) (span_range rs x) \<and> accepts f (span_range rs x))"
      using Cons.IH [of centers' d'] c(1) Cons.prems(1) r by blast
    have "\<forall>i < Suc (length ?xs). let y = (x # ?xs) ! i
          in span_in rs y \<and> ttl_range_ok s ((k # ks) ! i) (span_range rs y) \<and> accepts f (span_range rs y)"
      using IH r acc by (auto simp: less_Suc_eq_0_disj)
    then show ?thesis unfolding eq using IH r by (auto intro: apart_sym)
  qed
qed simp

lemma ttl_select_ranges:
  assumes "heap_pop_ok later_ttl pop"
  shows "\<exists>spans. ttl_select pop s rs ks f = map (span_range rs) spans
    \<and> length spans \<le> length ks \<and> sorted_wrt apart spans
    \<and> (\<forall>i < length spans. span_in rs (spans ! i) \<and> ttl_range_ok s (ks ! i) (span_range rs (spans ! i))
         \<and> accepts f (span_range rs (spans ! i)))"
proof -
  have "\<forall>c \<in> set (findCenters s rs). center_ok s rs c" by (simp add: findCenters_iff)
  from ttl_spans_ok [OF assms this new_set_ok(1), of f ks]
  show ?thesis by (auto simp: ttl_select_def Let_def)
qed

text \<open>
  C25: Every TTL selector returns at most one range per constraint. The ranges are neighbouring parts of the
  given ranges and no part is in two of them; the i-th one satisfies the i-th constraint, the filter and
  the limit on the number of parts, and each of its parts may be considered and has an expired TTL.
\<close>

theorem ttl_select_contract:
  assumes "heap_pop_ok later_ttl pop"
  shows "\<exists>spans. ttl_select pop s rs ks f = map (span_range rs) spans
    \<and> length spans \<le> length ks \<and> sorted_wrt apart spans
    \<and> (\<forall>i < length spans. span_in rs (spans ! i) \<and> ttl_range_ok s (ks ! i) (span_range rs (spans ! i))
         \<and> accepts f (span_range rs (spans ! i)))"
  by (rule ttl_select_ranges [OF assms])

text \<open>
  Some range is selected exactly when an expired part exists that fits the first constraint and whose
  range the filter accepts, and the first range then grows around such a part with the earliest TTL.
\<close>

theorem ttl_select_first:
  assumes "heap_pop_ok later_ttl pop"
  shows "(ttl_select pop s rs (k # ks) f = []
        \<longleftrightarrow> (\<forall>c. center_ok s rs c \<longrightarrow> \<not> center_usable s f rs DisjointPartsRangesSet k c))
    \<and> (ttl_select pop s rs (k # ks) f \<noteq> []
        \<longrightarrow> (\<exists>c. earliest_usable s f rs DisjointPartsRangesSet k {c. center_ok s rs c} c
              \<and> hd (ttl_select pop s rs (k # ks) f)
                  = span_range rs (grown_range s DisjointPartsRangesSet rs c k)))"
proof -
  let ?C = "findCenters s rs" and ?d = DisjointPartsRangesSet
  have C: "set ?C = {c. center_ok s rs c}" by (auto simp: findCenters_iff)
  obtain ox centers' d' where b: "buildMergeRange pop s f rs ?C ?d k = (ox, centers', d')"
    by (metis prod_cases3)
  have "\<forall>c \<in> set ?C. center_ok s rs c" by (simp add: findCenters_iff)
  from buildMergeRange_cases [OF assms this new_set_ok(1), of f k]
  show ?thesis using b C
    by (cases ox) (auto simp: ttl_select_def earliest_usable_def)
qed

section \<open>An example\<close>

definition ttl_part :: "int \<Rightarrow> nat \<Rightarrow> part_properties" where
  "ttl_part t sz = \<lparr>part_name = [], info = PartInfo ''p'' 1 1 0 0, projection_names = [],
     all_ttl_calculated_if_any = True, is_in_volume_where_merges_avoid = False, part_size = sz, age = 0,
     rows = 1, general_ttl_info = Some \<lparr>has_any_non_finished_ttls = True, part_min_ttl = t, part_max_ttl = t\<rparr>,
     recompression_ttl_info = None\<rparr>"

theorem ttl_select_contract_witness:
  "\<exists>spans. ttl_select center_pop (TTLPartDropMergeSelector 100 2) [[ttl_part 50 1, ttl_part 40 1, ttl_part 30 1]]
        [\<lparr>max_size_bytes = 10, max_size_rows = 10\<rparr>] None = map (span_range [[ttl_part 50 1, ttl_part 40 1, ttl_part 30 1]]) spans
    \<and> length spans \<le> length [\<lparr>max_size_bytes = 10, max_size_rows = 10\<rparr>] \<and> sorted_wrt apart spans
    \<and> (\<forall>i < length spans. span_in [[ttl_part 50 1, ttl_part 40 1, ttl_part 30 1]] (spans ! i)
         \<and> ttl_range_ok (TTLPartDropMergeSelector 100 2) ([\<lparr>max_size_bytes = 10, max_size_rows = 10\<rparr>] ! i)
             (span_range [[ttl_part 50 1, ttl_part 40 1, ttl_part 30 1]] (spans ! i))
         \<and> accepts None (span_range [[ttl_part 50 1, ttl_part 40 1, ttl_part 30 1]] (spans ! i)))"
  by (rule ttl_select_contract [OF center_pop_ok])

theorem ttl_select_first_witness:
  "(ttl_select center_pop (TTLPartDropMergeSelector 100 2) [[ttl_part 50 1]] (\<lparr>max_size_bytes = 10, max_size_rows = 10\<rparr> # []) None = []
      \<longleftrightarrow> (\<forall>c. center_ok (TTLPartDropMergeSelector 100 2) [[ttl_part 50 1]] c \<longrightarrow>
            \<not> center_usable (TTLPartDropMergeSelector 100 2) None [[ttl_part 50 1]] DisjointPartsRangesSet
                \<lparr>max_size_bytes = 10, max_size_rows = 10\<rparr> c))
   \<and> (ttl_select center_pop (TTLPartDropMergeSelector 100 2) [[ttl_part 50 1]] (\<lparr>max_size_bytes = 10, max_size_rows = 10\<rparr> # []) None \<noteq> []
      \<longrightarrow> (\<exists>c. earliest_usable (TTLPartDropMergeSelector 100 2) None [[ttl_part 50 1]] DisjointPartsRangesSet
               \<lparr>max_size_bytes = 10, max_size_rows = 10\<rparr> {c. center_ok (TTLPartDropMergeSelector 100 2) [[ttl_part 50 1]] c} c
            \<and> hd (ttl_select center_pop (TTLPartDropMergeSelector 100 2) [[ttl_part 50 1]] (\<lparr>max_size_bytes = 10, max_size_rows = 10\<rparr> # []) None)
                = span_range [[ttl_part 50 1]] (grown_range (TTLPartDropMergeSelector 100 2) DisjointPartsRangesSet
                    [[ttl_part 50 1]] c \<lparr>max_size_bytes = 10, max_size_rows = 10\<rparr>)))"
  by (rule ttl_select_first [OF center_pop_ok])

text \<open>With at most two parts at once, the part with the earliest TTL and its left neighbour are dropped.\<close>

lemma ttl_example:
  "ttl_select center_pop (TTLPartDropMergeSelector 100 2) [[ttl_part 50 1, ttl_part 40 1, ttl_part 30 1]]
     [\<lparr>max_size_bytes = 10, max_size_rows = 10\<rparr>] None = [[ttl_part 40 1, ttl_part 30 1]]"
  by (simp add: ttl_select_def findCenters_def centers_of_def needToPostponePartition_def TTLPartDropMergeSelector_def
      ttl_part_def center_pop_def buildMergeRange.simps buildRange_def grown_range_def isCovered_def
      DisjointPartsRangesSet_def findRightRangeBorder.simps can_grow_def canIncludeToRange_def take_part_def
      numeral_2_eq_2 numeral_3_eq_3 accepts_def addRangeIfPossible_def disjoint_from_ranges_def up_to_def after_def
      insert_boundaries_def span_range_def parts_between_def Let_def)

end
