(* ===== verification/Merge_Simple.thy ===== *)
theory Merge_Simple
  imports Merge_Selection
begin

text \<open>
  \<open>SimpleMergeSelector\<close> (\<open>Compaction/MergeSelectors/SimpleMergeSelector.cpp\<close>): it
  looks at the windows of neighbouring parts, keeps the allowed ones with a score, and takes the best ones
  that fit the constraints and lie apart. The arithmetic of \<open>double\<close>, the functions of
  \<open>cmath\<close>, \<open>interpolateLinear\<close> and the random distribution are the fields of
  \<open>double_ops\<close>; the state of the random generator is passed on.
\<close>

section \<open>Doubles\<close>

text \<open>
  \<open>lit m n\<close> is the literal \<open>m * 10 ^ - n\<close>. \<open>to_size\<close> is the cast to
  \<open>size_t\<close>, undefined for a value that no \<open>size_t\<close> represents.
\<close>

record ('d, 'g) double_ops =
  of_size :: "size_t \<Rightarrow> 'd"
  of_time :: "int \<Rightarrow> 'd"
  lit :: "nat \<Rightarrow> nat \<Rightarrow> 'd"
  d_add :: "'d \<Rightarrow> 'd \<Rightarrow> 'd"
  d_sub :: "'d \<Rightarrow> 'd \<Rightarrow> 'd"
  d_mul :: "'d \<Rightarrow> 'd \<Rightarrow> 'd"
  d_div :: "'d \<Rightarrow> 'd \<Rightarrow> 'd"
  d_less :: "'d \<Rightarrow> 'd \<Rightarrow> bool"
  d_le :: "'d \<Rightarrow> 'd \<Rightarrow> bool"
  d_eq :: "'d \<Rightarrow> 'd \<Rightarrow> bool"
  d_log :: "'d \<Rightarrow> 'd"
  d_log2 :: "'d \<Rightarrow> 'd"
  d_abs :: "'d \<Rightarrow> 'd"
  d_pow :: "'d \<Rightarrow> 'd \<Rightarrow> 'd"
  interpolateLinear :: "'d \<Rightarrow> 'd \<Rightarrow> 'd \<Rightarrow> 'd"
  to_size :: "'d \<Rightarrow> size_t option"
  normal_draw :: "'d \<Rightarrow> 'd \<Rightarrow> 'g \<Rightarrow> 'd \<times> 'g"

definition d_min :: "('d, 'g) double_ops \<Rightarrow> 'd \<Rightarrow> 'd \<Rightarrow> 'd" where
  "d_min D a b = (if d_less D b a then b else a)"

definition d_max :: "('d, 'g) double_ops \<Rightarrow> 'd \<Rightarrow> 'd \<Rightarrow> 'd" where
  "d_max D a b = (if d_less D a b then b else a)"

definition cast_size :: "('d, 'g) double_ops \<Rightarrow> 'd \<Rightarrow> size_t result" where
  "cast_size D x = (case to_size D x of None \<Rightarrow> Inl UB | Some n \<Rightarrow> Inr n)"

section \<open>Settings\<close>

record partition_statistics =
  stats_min_age :: int
  stats_part_count :: size_t
  stats_total_size :: size_t

record 'd simple_settings =
  simple_max_parts_to_merge_at_once :: size_t
  min_parts_to_merge_at_once :: size_t
  parts_to_throw_insert :: size_t
  use_blurry_base :: bool
  blurry_base_scale_factor :: size_t
  base :: 'd
  window_size :: size_t
  enable_stochastic_sliding :: bool
  min_size_to_lower_base :: size_t
  max_size_to_lower_base :: size_t
  min_age_to_lower_base_at_min_size :: int
  min_age_to_lower_base_at_max_size :: int
  max_age_to_lower_base_at_min_size :: int
  max_age_to_lower_base_at_max_size :: int
  min_parts_to_lower_base :: size_t
  max_parts_to_lower_base :: size_t
  size_fixed_cost_to_add :: size_t
  enable_heuristic_to_align_parts :: bool
  align_min_ratio :: 'd
  align_max_difference :: 'd
  align_max_score_adjustment :: 'd
  min_age_to_force_merge :: size_t
  enable_heuristic_to_remove_small_parts_at_right :: bool
  remove_small_max_ratio :: 'd
  enable_heuristic_to_lower_max_parts :: bool
  lower_max_parts_exponent :: size_t
  partitions_stats :: "(string \<Rightarrow> partition_statistics option) option"

definition default_settings :: "('d, 'g) double_ops \<Rightarrow> 'd simple_settings" where
  "default_settings D = \<lparr>simple_max_parts_to_merge_at_once = 100, min_parts_to_merge_at_once = 0,
     parts_to_throw_insert = 3000, use_blurry_base = False, blurry_base_scale_factor = 42, base = lit D 5 0,
     window_size = 1000, enable_stochastic_sliding = False,
     min_size_to_lower_base = 1024 * 1024, max_size_to_lower_base = 100 * 1024 * 1024 * 1024,
     min_age_to_lower_base_at_min_size = 10, min_age_to_lower_base_at_max_size = 10,
     max_age_to_lower_base_at_min_size = 3600, max_age_to_lower_base_at_max_size = 30 * 86400,
     min_parts_to_lower_base = 10, max_parts_to_lower_base = 50, size_fixed_cost_to_add = 5 * 1024 * 1024,
     enable_heuristic_to_align_parts = True, align_min_ratio = lit D 9 1, align_max_difference = lit D 5 1,
     align_max_score_adjustment = lit D 75 2, min_age_to_force_merge = 0,
     enable_heuristic_to_remove_small_parts_at_right = True, remove_small_max_ratio = lit D 1 2,
     enable_heuristic_to_lower_max_parts = False, lower_max_parts_exponent = 5, partitions_stats = None\<rparr>"

section \<open>The estimator\<close>

record 'd scored_range =
  scored_span :: span
  bytes :: size_t
  scored_rows :: size_t
  range_score :: 'd

text \<open>\<open>Estimator::score\<close>.\<close>

definition merge_score :: "('d, 'g) double_ops \<Rightarrow> 'd \<Rightarrow> 'd \<Rightarrow> 'd \<Rightarrow> 'd" where
  "merge_score D parts_count sum_size sum_size_fixed_cost =
     d_div D (d_add D sum_size (d_mul D sum_size_fixed_cost parts_count)) (d_sub D parts_count (lit D 19 1))"

text \<open>The loop that removes small parts at the right end; \<open>sum_size\<close> is the sum before the loop.\<close>

fun remove_small ::
  "('d, 'g) double_ops \<Rightarrow> 'd simple_settings \<Rightarrow> parts_range \<Rightarrow> nat \<Rightarrow> size_t \<Rightarrow> nat \<Rightarrow> size_t \<Rightarrow> size_t
   \<Rightarrow> nat \<times> size_t \<times> size_t" where
  "remove_small D s ps b sum_size 0 size_delta rows_delta = (0, size_delta, rows_delta)"
| "remove_small D s ps b sum_size (Suc e) size_delta rows_delta =
     (if Suc e \<ge> b + 3
         \<and> d_less D (of_size D (part_size (ps ! e))) (d_mul D (remove_small_max_ratio s) (of_size D sum_size))
      then remove_small D s ps b sum_size e (add64 size_delta (part_size (ps ! e))) (add64 rows_delta (rows (ps ! e)))
      else (Suc e, size_delta, rows_delta))"

definition considered_end ::
  "('d, 'g) double_ops \<Rightarrow> 'd simple_settings \<Rightarrow> parts_range \<Rightarrow> nat \<Rightarrow> nat \<Rightarrow> size_t \<Rightarrow> size_t
   \<Rightarrow> nat \<times> size_t \<times> size_t" where
  "considered_end D s ps b e sum_size sum_rows =
     (if enable_heuristic_to_remove_small_parts_at_right s then
        (let (e, size_delta, rows_delta) = remove_small D s ps b sum_size e 0 0
         in (e, sub64 sum_size size_delta, sub64 sum_rows rows_delta))
      else (e, sum_size, sum_rows))"

definition considered_score ::
  "('d, 'g) double_ops \<Rightarrow> 'd simple_settings \<Rightarrow> nat \<Rightarrow> size_t \<Rightarrow> size_t \<Rightarrow> 'd" where
  "considered_score D s parts_count sum_size size_prev_at_left =
     (let current_score = merge_score D (of_size D parts_count) (of_size D sum_size) (of_size D (size_fixed_cost_to_add s))
      in if enable_heuristic_to_align_parts s
            \<and> d_less D (d_mul D (of_size D sum_size) (align_min_ratio s)) (of_size D size_prev_at_left)
         then (let difference = d_abs D (d_log2 D (d_div D (of_size D sum_size) (of_size D size_prev_at_left)))
               in if d_less D difference (align_max_difference s)
                  then d_mul D current_score (interpolateLinear D (align_max_score_adjustment s) (lit D 1 0)
                         (d_div D difference (align_max_difference s)))
                  else current_score)
         else current_score)"

definition consider_range ::
  "('d, 'g) double_ops \<Rightarrow> 'd simple_settings \<Rightarrow> nat \<Rightarrow> parts_range \<Rightarrow> nat \<Rightarrow> nat \<Rightarrow> size_t \<Rightarrow> size_t \<Rightarrow> size_t
   \<Rightarrow> 'd scored_range" where
  "consider_range D s r ps b e sum_size sum_rows size_prev_at_left =
     (let (e, sum_size, sum_rows) = considered_end D s ps b e sum_size sum_rows
      in \<lparr>scored_span = (r, b, e), bytes = sum_size, scored_rows = sum_rows,
          range_score = considered_score D s (e - b) sum_size size_prev_at_left\<rparr>)"

section \<open>What is allowed\<close>

definition mapPiecewiseLinearToUnit :: "('d, 'g) double_ops \<Rightarrow> 'd \<Rightarrow> 'd \<Rightarrow> 'd \<Rightarrow> 'd" where
  "mapPiecewiseLinearToUnit D v mn mx =
     (if d_le D v mn then lit D 0 0
      else if d_le D mx v then lit D 1 0
      else d_div D (d_sub D v mn) (d_sub D mx mn))"

definition lowered_base ::
  "('d, 'g) double_ops \<Rightarrow> 'd simple_settings \<Rightarrow> 'd \<Rightarrow> 'd \<Rightarrow> 'd \<Rightarrow> 'd \<Rightarrow> 'd \<Rightarrow> 'd" where
  "lowered_base D s sum_size min_age partition_size min_log max_log =
     (let size_normalized = mapPiecewiseLinearToUnit D (d_log D (d_add D (lit D 1 0) sum_size)) min_log max_log;
          min_age_to_lower_base = interpolateLinear D (of_time D (min_age_to_lower_base_at_min_size s))
            (of_time D (min_age_to_lower_base_at_max_size s)) size_normalized;
          max_age_to_lower_base = interpolateLinear D (of_time D (max_age_to_lower_base_at_min_size s))
            (of_time D (max_age_to_lower_base_at_max_size s)) size_normalized;
          age_normalized = mapPiecewiseLinearToUnit D min_age min_age_to_lower_base max_age_to_lower_base;
          num_parts_normalized = mapPiecewiseLinearToUnit D partition_size
            (of_size D (min_parts_to_lower_base s)) (of_size D (max_parts_to_lower_base s));
          combined_ratio = d_min D (lit D 1 0) (d_add D age_normalized num_parts_normalized)
      in interpolateLinear D (base s) (lit D 2 0) combined_ratio)"

definition blur_base ::
  "('d, 'g) double_ops \<Rightarrow> 'd simple_settings \<Rightarrow> 'd \<Rightarrow> 'd \<Rightarrow> 'g \<Rightarrow> 'd \<times> 'g" where
  "blur_base D s partition_size lowered g =
     (let partition_fill_factor = d_max D (lit D 0 0)
            (d_sub D (lit D 1 0) (d_div D partition_size (of_size D (parts_to_throw_insert s))));
          scaling_factor = d_div D (d_pow D partition_fill_factor (of_size D (blurry_base_scale_factor s))) (lit D 2 0);
          (draw, g) = normal_draw D lowered (d_mul D (d_sub D lowered (lit D 1 0)) scaling_factor) g
      in (d_min D draw (d_max D (lit D 101 2) lowered), g))"

definition allow ::
  "('d, 'g) double_ops \<Rightarrow> 'd simple_settings \<Rightarrow> range_filter \<Rightarrow> parts_range \<Rightarrow> nat \<Rightarrow> nat \<Rightarrow> size_t \<Rightarrow> size_t \<Rightarrow> size_t
   \<Rightarrow> size_t \<Rightarrow> 'd \<Rightarrow> 'd \<Rightarrow> 'g \<Rightarrow> bool \<times> 'g" where
  "allow D s f ps b e sum_size max_size min_age partition_size min_log max_log g =
     (if \<not> accepts f (parts_between ps b e) then (False, g)
      else if min_age_to_force_merge s \<noteq> 0 \<and> d_le D (of_size D (min_age_to_force_merge s)) (of_size D min_age)
      then (True, g)
      else if min_parts_to_merge_at_once s \<noteq> 0 \<and> e - b < min_parts_to_merge_at_once s then (False, g)
      else (let lowered = lowered_base D s (of_size D sum_size) (of_size D min_age) (of_size D partition_size) min_log max_log;
                (lowered, g) = (if use_blurry_base s then blur_base D s (of_size D partition_size) lowered g
                                else (lowered, g));
                cost = of_size D (size_fixed_cost_to_add s)
            in (d_le D lowered
                  (d_div D (d_add D (of_size D sum_size) (d_mul D (of_size D (e - b)) cost))
                           (d_add D (of_size D max_size) cost)), g)))"

section \<open>The windows of a range of parts\<close>

definition calculateRangeWithStochasticSliding ::
  "('d, 'g) double_ops \<Rightarrow> size_t \<Rightarrow> size_t \<Rightarrow> 'g \<Rightarrow> (size_t \<times> 'g) result" where
  "calculateRangeWithStochasticSliding D parts_count parts_threshold g =
     (let mean = of_size D parts_count;
          (draw, g) = normal_draw D mean (d_div D mean (lit D 4 0)) g
      in bind_r (cast_size D draw) (\<lambda>right_boundary.
         let right_boundary = (if right_boundary > parts_count then sub64 (mul64 2 parts_count) right_boundary
                               else right_boundary);
             right_boundary = max right_boundary parts_threshold
         in Inr (right_boundary - parts_threshold, g)))"

definition first_begin ::
  "('d, 'g) double_ops \<Rightarrow> 'd simple_settings \<Rightarrow> size_t \<Rightarrow> 'g \<Rightarrow> (size_t \<times> 'g) result" where
  "first_begin D s parts_count g =
     (if parts_count \<ge> window_size s then
        (if enable_stochastic_sliding s then calculateRangeWithStochasticSliding D parts_count (window_size s) g
         else Inr (parts_count - window_size s, g))
      else Inr (0, g))"

definition lowered_max_parts ::
  "('d, 'g) double_ops \<Rightarrow> 'd simple_settings \<Rightarrow> parts_range \<Rightarrow> size_t result" where
  "lowered_max_parts D s ps =
     (if \<not> enable_heuristic_to_lower_max_parts s then Inr (simple_max_parts_to_merge_at_once s)
      else case partitions_stats s of None \<Rightarrow> Inl UB
      | Some stats \<Rightarrow>
          (case stats (partition_id (info (hd ps))) of None \<Rightarrow> Inl STD_OUT_OF_RANGE
           | Some st \<Rightarrow>
               let n = stats_part_count st; max_parts = simple_max_parts_to_merge_at_once s in
               if d_less D (of_size D n) (base s) then Inr max_parts
               else if n \<ge> parts_to_throw_insert s then bind_r (cast_size D (base s)) (\<lambda>b. Inr (max 2 b))
               else cast_size D (d_add D (base s)
                      (d_mul D (d_sub D (of_size D max_parts) (base s))
                        (d_sub D (lit D 1 0)
                          (d_pow D (d_div D (d_sub D (of_size D n) (base s))
                                            (d_sub D (of_size D (parts_to_throw_insert s)) (base s)))
                                   (of_size D (lower_max_parts_exponent s))))))))"

text \<open>
  What the inner loop sums up over the window, and the loop itself over the parts behind the first one;
  \<open>e\<close> is the end of the window with the next part. Ages are converted to \<open>size_t\<close>.
\<close>

record window =
  sum_size :: size_t
  sum_rows :: size_t
  max_size :: size_t
  min_age :: size_t

definition size_of_time :: "int \<Rightarrow> size_t" where
  "size_of_time t = nat (t mod 2 ^ 64)"

definition first_window :: "part_properties \<Rightarrow> window" where
  "first_window p = \<lparr>sum_size = part_size p, sum_rows = rows p, max_size = part_size p, min_age = size_of_time (age p)\<rparr>"

definition widen :: "part_properties \<Rightarrow> window \<Rightarrow> window" where
  "widen p w = \<lparr>sum_size = add64 (sum_size w) (part_size p), sum_rows = add64 (sum_rows w) (rows p),
     max_size = max (max_size w) (part_size p), min_age = min (min_age w) (size_of_time (age p))\<rparr>"

record ('d, 'g) simple_env =
  doubles :: "('d, 'g) double_ops"
  settings :: "'d simple_settings"
  filter_of_ranges :: range_filter
  min_size_log :: 'd
  max_size_log :: 'd

fun consider_ends ::
  "('d, 'g) simple_env \<Rightarrow> merge_constraint \<Rightarrow> nat \<Rightarrow> parts_range \<Rightarrow> size_t \<Rightarrow> nat \<Rightarrow> nat \<Rightarrow> part_properties list
   \<Rightarrow> window \<Rightarrow> 'd scored_range list \<Rightarrow> 'g \<Rightarrow> 'd scored_range list \<times> 'g" where
  "consider_ends E c r ps max_parts b e [] w acc g = (acc, g)"
| "consider_ends E c r ps max_parts b e (p # qs) w acc g =
     (if max_parts \<noteq> 0 \<and> e - b > max_parts then (acc, g)
      else let w = widen p w in
      if sum_size w > max_size_bytes c then (acc, g)
      else if sum_rows w > max_size_rows c then (acc, g)
      else let (allowed, g) = allow (doubles E) (settings E) (filter_of_ranges E) ps b e (sum_size w) (max_size w)
                                (min_age w) (length ps) (min_size_log E) (max_size_log E) g;
               acc = (if allowed
                      then acc @ [consider_range (doubles E) (settings E) r ps b e (sum_size w) (sum_rows w)
                                    (if b = 0 then 0 else part_size (ps ! (b - 1)))]
                      else acc)
           in consider_ends E c r ps max_parts b (Suc e) qs w acc g)"

fun consider_begins ::
  "('d, 'g) simple_env \<Rightarrow> merge_constraint \<Rightarrow> nat \<Rightarrow> parts_range \<Rightarrow> size_t \<Rightarrow> nat list
   \<Rightarrow> 'd scored_range list \<Rightarrow> 'g \<Rightarrow> 'd scored_range list \<times> 'g" where
  "consider_begins E c r ps max_parts [] acc g = (acc, g)"
| "consider_begins E c r ps max_parts (b # bs) acc g =
     (let (acc, g) = consider_ends E c r ps max_parts b (b + 2) (drop (b + 1) ps) (first_window (ps ! b)) acc g
      in consider_begins E c r ps max_parts bs acc g)"

definition selectWithinPartsRange ::
  "('d, 'g) simple_env \<Rightarrow> merge_constraint \<Rightarrow> nat \<Rightarrow> parts_range \<Rightarrow> 'd scored_range list \<Rightarrow> 'g
   \<Rightarrow> ('d scored_range list \<times> 'g) result" where
  "selectWithinPartsRange E c r ps acc g =
     (if length ps \<le> 1 then Inr (acc, g)
      else bind_r (first_begin (doubles E) (settings E) (length ps) g) (\<lambda>(b, g).
           bind_r (lowered_max_parts (doubles E) (settings E) ps) (\<lambda>max_parts.
             Inr (consider_begins E c r ps max_parts [b..<length ps] acc g))))"

text \<open>The ranges in turn; \<open>merge_constraints[0]\<close> does not exist when there is no constraint.\<close>

fun consider_ranges ::
  "('d, 'g) simple_env \<Rightarrow> merge_constraint list \<Rightarrow> parts_range list \<Rightarrow> nat list \<Rightarrow> 'd scored_range list \<Rightarrow> 'g
   \<Rightarrow> ('d scored_range list \<times> 'g) result" where
  "consider_ranges E cs rs [] acc g = Inr (acc, g)"
| "consider_ranges E cs rs (r # ns) acc g =
     (case cs of [] \<Rightarrow> Inl UB
      | c # _ \<Rightarrow> bind_r (selectWithinPartsRange E c r (rs ! r) acc g) (\<lambda>(acc, g). consider_ranges E cs rs ns acc g))"

section \<open>The heap of scored ranges\<close>

text \<open>
  The comparison of equal scores compares iterators, also of different vectors: \<open>addr\<close> gives
  the address of a part.
\<close>

definition range_compare ::
  "('d, 'g) double_ops \<Rightarrow> (nat \<Rightarrow> nat \<Rightarrow> nat) \<Rightarrow> 'd scored_range \<Rightarrow> 'd scored_range \<Rightarrow> bool" where
  "range_compare D addr l r \<longleftrightarrow>
     d_less D (range_score r) (range_score l)
     \<or> (d_eq D (range_score l) (range_score r)
        \<and> (case (scored_span l, scored_span r) of ((n, b, e), (n', b', e')) \<Rightarrow> addr n b < addr n' b'))"

text \<open>
  \<open>buildMergeRange\<close>. As for the TTL selectors, the test of the length of the rest never fails
  for a heap.
\<close>

function build_scored ::
  "('d scored_range list \<Rightarrow> 'd scored_range \<times> 'd scored_range list) \<Rightarrow> 'd scored_range list \<Rightarrow> disjoint_set
   \<Rightarrow> merge_constraint \<Rightarrow> span option \<times> 'd scored_range list \<times> disjoint_set" where
  "build_scored pop heap d k =
     (if heap = [] then (None, heap, d)
      else let (x, rest) = pop heap
           in if \<not> length rest < length heap then (None, heap, d)
              else if bytes x \<le> max_size_bytes k \<and> scored_rows x \<le> max_size_rows k
              then (case scored_span x of (r, b, e) \<Rightarrow>
                     (case addRangeIfPossible d r b e of
                        (True, d) \<Rightarrow> (Some (r, b, e), rest, d)
                      | (False, d) \<Rightarrow> build_scored pop rest d k))
              else build_scored pop rest d k)"
  by pat_completeness auto
termination by (relation "measure (\<lambda>(pop, heap, d, k). length heap)") auto

declare build_scored.simps [simp del]

fun simple_spans ::
  "('d scored_range list \<Rightarrow> 'd scored_range \<times> 'd scored_range list) \<Rightarrow> 'd scored_range list \<Rightarrow> disjoint_set
   \<Rightarrow> merge_constraint list \<Rightarrow> span list" where
  "simple_spans pop heap d [] = []"
| "simple_spans pop heap d (k # ks) =
     (case build_scored pop heap d k of
        (Some x, heap, d) \<Rightarrow> x # simple_spans pop heap d ks
      | (None, _) \<Rightarrow> [])"

text \<open>The logarithms of the bounds are taken once.\<close>

definition simple_env_of ::
  "('d, 'g) double_ops \<Rightarrow> 'd simple_settings \<Rightarrow> range_filter \<Rightarrow> ('d, 'g) simple_env" where
  "simple_env_of D s f = \<lparr>doubles = D, settings = s, filter_of_ranges = f,
     min_size_log = d_log D (of_size D (add64 1 (min_size_to_lower_base s))),
     max_size_log = d_log D (of_size D (add64 1 (max_size_to_lower_base s)))\<rparr>"

definition simple_select ::
  "('d, 'g) double_ops \<Rightarrow> 'd simple_settings \<Rightarrow> ('d scored_range list \<Rightarrow> 'd scored_range \<times> 'd scored_range list)
   \<Rightarrow> parts_range list \<Rightarrow> merge_constraint list \<Rightarrow> range_filter \<Rightarrow> 'g \<Rightarrow> (parts_range list \<times> 'g) result" where
  "simple_select D s pop rs cs f g =
     bind_r (consider_ranges (simple_env_of D s f) cs rs [0..<length rs] [] g) (\<lambda>(scored, g).
       Inr (map (span_range rs) (simple_spans pop scored DisjointPartsRangesSet cs), g))"

end
