(* ===== verification/Merge_Simple_Results.thy ===== *)
theory Merge_Simple_Results
  imports Merge_Simple
begin

text \<open>
  What the simple selector promises: its ranges are windows that it was allowed to take, less small parts at
  the right end, they lie apart and satisfy the constraints. The filter is asked about the whole window
  only, so a returned range need not satisfy it.
\<close>

section \<open>Windows\<close>

definition window_sums :: "parts_range \<Rightarrow> nat \<Rightarrow> nat \<Rightarrow> size_t \<Rightarrow> size_t \<Rightarrow> bool" where
  "window_sums ps b e n m \<longleftrightarrow> n = total_bytes (parts_between ps b e) \<and> m = total_rows (parts_between ps b e)"

definition small_sums :: "parts_range \<Rightarrow> bool" where
  "small_sums ps \<longleftrightarrow> total_bytes ps < size_max \<and> total_rows ps < size_max"

lemma small_sums_between:
  assumes "small_sums ps" "b \<le> e" "e \<le> length ps"
  shows "small_sums (parts_between ps b e)"
proof -
  have "ps = parts_between ps 0 b @ parts_between ps b e @ parts_between ps e (length ps)"
    using parts_between_append [of 0 b "length ps" ps] parts_between_append [of b e "length ps" ps] assms by simp
  then have "total_bytes ps = total_bytes (parts_between ps 0 b) + (total_bytes (parts_between ps b e)
      + total_bytes (parts_between ps e (length ps)))"
    "total_rows ps = total_rows (parts_between ps 0 b) + (total_rows (parts_between ps b e)
      + total_rows (parts_between ps e (length ps)))"
    using total_simps by metis+
  then show ?thesis using assms(1) by (simp add: small_sums_def)
qed

lemma window_sums_next:
  assumes "window_sums ps b e (sum_size w) (sum_rows w)" "small_sums ps" "b \<le> e" "e < length ps"
  shows "window_sums ps b (Suc e) (sum_size (widen (ps ! e) w)) (sum_rows (widen (ps ! e) w))"
  using assms small_sums_between [of ps b "Suc e"]
  by (simp add: window_sums_def widen_def small_sums_def parts_between_right add64_exact)

lemma remove_small_ok:
  "remove_small D s ps b sz e sd rd = (e', sd', rd') \<Longrightarrow> b + 2 \<le> e \<Longrightarrow> e \<le> length ps \<Longrightarrow>
     sd + total_bytes (parts_between ps b e) < size_max \<Longrightarrow> rd + total_rows (parts_between ps b e) < size_max \<Longrightarrow>
     b + 2 \<le> e' \<and> e' \<le> e \<and> sd' = sd + total_bytes (parts_between ps e' e) \<and> rd' = rd + total_rows (parts_between ps e' e)"
proof (induction D s ps b sz e sd rd rule: remove_small.induct)
  case (2 D s ps b sz e sd rd)
  let ?go = "Suc e \<ge> b + 3 \<and> d_less D (of_size D (part_size (ps ! e))) (d_mul D (remove_small_max_ratio s) (of_size D sz))"
  show ?case
  proof (cases ?go)
    case False
    have "remove_small D s ps b sz (Suc e) sd rd = (Suc e, sd, rd)"
      by (simp only: remove_small.simps False if_False)
    then show ?thesis using "2.prems" by simp
  next
    case True
    have pb: "parts_between ps b (Suc e) = parts_between ps b e @ [ps ! e]"
      using True "2.prems"(3) by (simp add: parts_between_right)
    have a: "add64 sd (part_size (ps ! e)) = sd + part_size (ps ! e)" "add64 rd (rows (ps ! e)) = rd + rows (ps ! e)"
      using "2.prems"(4,5) pb by (simp_all add: add64_exact)
    have "remove_small D s ps b sz e (sd + part_size (ps ! e)) (rd + rows (ps ! e)) = (e', sd', rd')"
      using "2.prems"(1) True a by simp
    then have "b + 2 \<le> e' \<and> e' \<le> e \<and> sd' = sd + part_size (ps ! e) + total_bytes (parts_between ps e' e)
        \<and> rd' = rd + rows (ps ! e) + total_rows (parts_between ps e' e)"
      using "2.IH" True "2.prems" a pb by simp
    then show ?thesis using "2.prems"(3) by (simp add: parts_between_right)
  qed
qed simp

lemma considered_end_ok:
  assumes w: "window_sums ps b e n m" and small: "small_sums ps" and e: "b + 2 \<le> e" "e \<le> length ps"
    and c: "considered_end D s ps b e n m = (e', n', m')"
  shows "b + 2 \<le> e'" "e' \<le> e" "window_sums ps b e' n' m'"
    "\<not> enable_heuristic_to_remove_small_parts_at_right s \<Longrightarrow> e' = e"
proof -
  have "b + 2 \<le> e' \<and> e' \<le> e \<and> window_sums ps b e' n' m'
     \<and> (\<not> enable_heuristic_to_remove_small_parts_at_right s \<longrightarrow> e' = e)"
  proof (cases "enable_heuristic_to_remove_small_parts_at_right s")
    case False
    then show ?thesis using assms by (simp add: considered_end_def)
  next
    case True
    obtain f sd rd where r: "remove_small D s ps b n e 0 0 = (f, sd, rd)" by (rule prod_cases3)
    then have c': "e' = f" "n' = sub64 n sd" "m' = sub64 m rd" using c True by (simp_all add: considered_end_def)
    have sm: "small_sums (parts_between ps b e)" using small_sums_between [OF small, of b e] e by simp
    then have f: "b + 2 \<le> f \<and> f \<le> e \<and> sd = total_bytes (parts_between ps f e) \<and> rd = total_rows (parts_between ps f e)"
      using remove_small_ok [OF r] e by (simp add: small_sums_def)
    have "parts_between ps b e = parts_between ps b f @ parts_between ps f e"
      using parts_between_append [of b f e ps] f by simp
    then show ?thesis using True f c' w sm by (simp add: window_sums_def small_sums_def sub64_exact)
  qed
  then show "b + 2 \<le> e'" "e' \<le> e" "window_sums ps b e' n' m'"
    "\<not> enable_heuristic_to_remove_small_parts_at_right s \<Longrightarrow> e' = e" by auto
qed

section \<open>What is considered\<close>

text \<open>
  A scored range is the start of a window that satisfies the constraint and the filter and has at most
  \<open>max_parts\<close> parts.
\<close>

definition window_ok ::
  "('d, 'g) simple_env \<Rightarrow> merge_constraint \<Rightarrow> parts_range \<Rightarrow> size_t \<Rightarrow> nat \<Rightarrow> nat \<Rightarrow> bool" where
  "window_ok E c ps max_parts b e \<longleftrightarrow>
     e \<le> length ps \<and> fits c (parts_between ps b e) \<and> accepts (filter_of_ranges E) (parts_between ps b e)
     \<and> (max_parts \<noteq> 0 \<longrightarrow> e - b \<le> max_parts)"

definition range_in_window ::
  "('d, 'g) simple_env \<Rightarrow> merge_constraint \<Rightarrow> parts_range \<Rightarrow> size_t \<Rightarrow> nat \<Rightarrow> nat \<Rightarrow> bool" where
  "range_in_window E c ps max_parts b e \<longleftrightarrow>
     b + 2 \<le> e \<and> (\<exists>e'. e \<le> e' \<and> window_ok E c ps max_parts b e'
       \<and> (\<not> enable_heuristic_to_remove_small_parts_at_right (settings E) \<longrightarrow> e' = e))"

definition scored_ok ::
  "('d, 'g) simple_env \<Rightarrow> merge_constraint \<Rightarrow> nat \<Rightarrow> parts_range \<Rightarrow> size_t \<Rightarrow> 'd scored_range \<Rightarrow> bool" where
  "scored_ok E c r ps max_parts x \<longleftrightarrow>
     (\<exists>b e. scored_span x = (r, b, e) \<and> range_in_window E c ps max_parts b e
        \<and> window_sums ps b e (bytes x) (scored_rows x))"

lemma allow_accepts: "fst (allow D s f ps b e n mx a k l h g) \<Longrightarrow> accepts f (parts_between ps b e)"
  by (simp add: allow_def split: if_splits)

lemma consider_range_ok:
  assumes w: "window_sums ps b e n m" and small: "small_sums ps" and b: "b + 2 \<le> e"
    and ok: "window_ok E c ps max_parts b e"
  shows "scored_ok E c r ps max_parts (consider_range D (settings E) r ps b e n m k)"
proof -
  obtain e' n' m' where c: "considered_end D (settings E) ps b e n m = (e', n', m')" by (rule prod_cases3)
  have "e \<le> length ps" using ok by (simp add: window_ok_def)
  note o = considered_end_ok [OF w small b this c]
  then have "range_in_window E c ps max_parts b e'" using ok by (auto simp: range_in_window_def)
  then show ?thesis using o c by (simp add: scored_ok_def consider_range_def)
qed

text \<open>The accumulated ranges keep any property that the new ones have.\<close>

lemma consider_ends_ok:
  "consider_ends E c r ps max_parts b e qs w acc g = (acc', g') \<Longrightarrow> small_sums ps \<Longrightarrow> b + 2 \<le> e \<Longrightarrow>
     qs = drop (e - 1) ps \<Longrightarrow> window_sums ps b (e - 1) (sum_size w) (sum_rows w) \<Longrightarrow>
     \<forall>x \<in> set acc'. x \<in> set acc \<or> scored_ok E c r ps max_parts x"
proof (induction E c r ps max_parts b e qs w acc g rule: consider_ends.induct)
  case (2 E c r ps max_parts b e p qs w acc g)
  let ?w = "widen p w"
  let ?stop = "(max_parts \<noteq> 0 \<and> e - b > max_parts) \<or> sum_size ?w > max_size_bytes c \<or> sum_rows ?w > max_size_rows c"
  show ?case
  proof (cases ?stop)
    case True
    then have "consider_ends E c r ps max_parts b e (p # qs) w acc g = (acc, g)" by (auto simp: Let_def)
    then show ?thesis using "2.prems"(1) by simp
  next
    case False
    obtain allowed g1 where al: "allow (doubles E) (settings E) (filter_of_ranges E) ps b e (sum_size ?w) (max_size ?w)
        (min_age ?w) (length ps) (min_size_log E) (max_size_log E) g = (allowed, g1)" by (rule prod.exhaust)
    let ?x = "consider_range (doubles E) (settings E) r ps b e (sum_size ?w) (sum_rows ?w)
        (if b = 0 then 0 else part_size (ps ! (b - 1)))"
    let ?acc = "if allowed then acc @ [?x] else acc"
    have "consider_ends E c r ps max_parts b e (p # qs) w acc g
        = consider_ends E c r ps max_parts b (Suc e) qs ?w ?acc g1"
      using False by (simp only: consider_ends.simps Let_def al prod.case de_Morgan_disj if_False)
    then have step: "consider_ends E c r ps max_parts b (Suc e) qs ?w ?acc g1 = (acc', g')"
      using "2.prems"(1) by simp
    have l: "e - 1 < length ps" using "2.prems"(3,4) by (metis drop_eq_Nil leI list.distinct(1))
    have p: "p = ps ! (e - 1)" "qs = drop (Suc e - 1) ps"
      using "2.prems"(3,4) l by (simp_all add: Cons_nth_drop_Suc [symmetric])
    have w: "window_sums ps b e (sum_size ?w) (sum_rows ?w)"
      using window_sums_next [OF "2.prems"(5,2) _ l] "2.prems"(3) p by simp
    have "accepts (filter_of_ranges E) (parts_between ps b e)" if allowed
      using al that allow_accepts by (metis fst_conv)
    then have "window_ok E c ps max_parts b e" if allowed
      using that False w l by (auto simp: window_ok_def window_sums_def fits_def)
    then have "scored_ok E c r ps max_parts ?x" if allowed
      by (rule consider_range_ok [OF w "2.prems"(2,3)]) (rule that)
    then have "\<forall>x \<in> set ?acc. x \<in> set acc \<or> scored_ok E c r ps max_parts x"
      by (cases allowed) (simp_all del: if_split)
    moreover have "\<forall>x \<in> set acc'. x \<in> set ?acc \<or> scored_ok E c r ps max_parts x"
    proof (rule "2.IH" [OF _ refl _ _ refl al [symmetric] refl step "2.prems"(2) _ p(2)])
    qed (use False w "2.prems"(3) in auto)
    ultimately show ?thesis by blast
  qed
qed simp

lemma consider_begins_ok:
  "consider_begins E c r ps max_parts bs acc g = (acc', g') \<Longrightarrow> small_sums ps \<Longrightarrow> \<forall>b \<in> set bs. b < length ps \<Longrightarrow>
     \<forall>x \<in> set acc'. x \<in> set acc \<or> scored_ok E c r ps max_parts x"
proof (induction E c r ps max_parts bs acc g rule: consider_begins.induct)
  case (2 E c r ps max_parts b bs acc g)
  obtain acc1 g1 where e: "consider_ends E c r ps max_parts b (b + 2) (drop (b + 1) ps) (first_window (ps ! b)) acc g
      = (acc1, g1)" by (rule prod.exhaust)
  have b: "b < length ps" using "2.prems" by simp
  then have "window_sums ps b (b + 2 - 1) (sum_size (first_window (ps ! b))) (sum_rows (first_window (ps ! b)))"
    by (simp add: window_sums_def first_window_def parts_between_right)
  then have "\<forall>x \<in> set acc1. x \<in> set acc \<or> scored_ok E c r ps max_parts x"
    using consider_ends_ok [OF e "2.prems"(2)] by simp
  moreover have "\<forall>x \<in> set acc'. x \<in> set acc1 \<or> scored_ok E c r ps max_parts x"
    using "2.IH" [OF e [symmetric] refl] "2.prems" e by simp
  ultimately show ?case by blast
qed simp

text \<open>A range that the selector was allowed to take, and the sums recorded for it.\<close>

definition range_allowed :: "('d, 'g) simple_env \<Rightarrow> merge_constraint \<Rightarrow> parts_range list \<Rightarrow> span \<Rightarrow> bool" where
  "range_allowed E c rs x \<longleftrightarrow>
     (case x of (r, b, e) \<Rightarrow> r < length rs \<and>
        (\<exists>max_parts. lowered_max_parts (doubles E) (settings E) (rs ! r) = Inr max_parts
           \<and> range_in_window E c (rs ! r) max_parts b e))"

definition scored_good :: "('d, 'g) simple_env \<Rightarrow> merge_constraint \<Rightarrow> parts_range list \<Rightarrow> 'd scored_range \<Rightarrow> bool" where
  "scored_good E c rs x \<longleftrightarrow>
     range_allowed E c rs (scored_span x)
     \<and> bytes x = total_bytes (span_range rs (scored_span x)) \<and> scored_rows x = total_rows (span_range rs (scored_span x))"

lemma selectWithinPartsRange_ok:
  assumes sel: "selectWithinPartsRange E c r (rs ! r) acc g = Inr (acc', g')" and r: "r < length rs" "sums_fit rs"
    and x: "x \<in> set acc'" "x \<notin> set acc"
  shows "scored_good E c rs x"
proof -
  have "length (rs ! r) > 1"
    using sel x by (auto simp: selectWithinPartsRange_def split: if_splits)
  then obtain b g1 max_parts where m: "lowered_max_parts (doubles E) (settings E) (rs ! r) = Inr max_parts"
    "consider_begins E c r (rs ! r) max_parts [b..<length (rs ! r)] acc g1 = (acc', g')"
    using sel by (auto simp: selectWithinPartsRange_def bind_r_Inr_iff split: prod.splits)
  have "small_sums (rs ! r)" using r by (simp add: sums_fit_def small_sums_def)
  from consider_begins_ok [OF m(2) this]
  obtain b' e where "scored_span x = (r, b', e)" "range_in_window E c (rs ! r) max_parts b' e"
    "window_sums (rs ! r) b' e (bytes x) (scored_rows x)"
    using x by (auto simp: scored_ok_def)
  then show ?thesis using m(1) r(1)
    by (auto simp: scored_good_def range_allowed_def span_range_def window_sums_def)
qed

lemma consider_ranges_ok:
  "consider_ranges E (c # cs) rs ns acc g = Inr (acc', g') \<Longrightarrow> sums_fit rs \<Longrightarrow> \<forall>n \<in> set ns. n < length rs \<Longrightarrow>
     \<forall>x \<in> set acc. scored_good E c rs x \<Longrightarrow> \<forall>x \<in> set acc'. scored_good E c rs x"
proof (induction ns arbitrary: acc g)
  case (Cons n ns)
  then obtain acc1 g1 where s: "selectWithinPartsRange E c n (rs ! n) acc g = Inr (acc1, g1)"
    "consider_ranges E (c # cs) rs ns acc1 g1 = Inr (acc', g')"
    by (auto simp: bind_r_Inr_iff split: prod.splits)
  have "\<forall>x \<in> set acc1. scored_good E c rs x"
    using selectWithinPartsRange_ok [OF s(1) _ Cons.prems(2)] Cons.prems(3,4) by auto
  then show ?case using Cons.IH [OF s(2) Cons.prems(2)] Cons.prems(3) by simp
qed simp

lemma range_allowed_in:
  assumes "range_allowed E c rs x"
  shows "span_in rs x" "2 \<le> length (span_range rs x)"
    "total_bytes (span_range rs x) \<le> max_size_bytes c" "total_rows (span_range rs x) \<le> max_size_rows c"
proof -
  obtain r b e e' where x: "x = (r, b, e)" "r < length rs" "b + 2 \<le> e" "e \<le> e'" "e' \<le> length (rs ! r)"
    "fits c (parts_between (rs ! r) b e')"
    using assms by (cases x) (auto simp: range_allowed_def range_in_window_def window_ok_def)
  then show "span_in rs x" "2 \<le> length (span_range rs x)" by (simp_all add: span_in_def span_range_def)
  have "parts_between (rs ! r) b e' = parts_between (rs ! r) b e @ parts_between (rs ! r) e e'"
    using parts_between_append [of b e e'] x by simp
  then show "total_bytes (span_range rs x) \<le> max_size_bytes c" "total_rows (span_range rs x) \<le> max_size_rows c"
    using x by (simp_all add: fits_def span_range_def)
qed

section \<open>The heap of scored ranges\<close>

definition heap_ok :: "('a list \<Rightarrow> 'a \<times> 'a list) \<Rightarrow> bool" where
  "heap_ok pop \<longleftrightarrow> (\<forall>xs. xs \<noteq> [] \<longrightarrow> mset xs = add_mset (fst (pop xs)) (mset (snd (pop xs))))"

lemma heap_popD':
  assumes "heap_ok pop" "xs \<noteq> []" "pop xs = (x, ys)"
  shows "set xs = insert x (set ys)" "length xs = Suc (length ys)"
  using heap_popD(1,2) [of "\<lambda>x y. False" pop xs x ys] assms by (auto simp: heap_ok_def heap_pop_ok_def)

lemma build_scored_ok:
  "heap_ok pop \<Longrightarrow> set_ok d \<Longrightarrow> \<forall>x \<in> set heap. scored_good E c rs x \<Longrightarrow>
    (case build_scored pop heap d k of
       (None, heap', d') \<Rightarrow> True
     | (Some x, heap', d') \<Rightarrow> set heap' \<subseteq> set heap \<and> range_allowed E c rs x \<and> fits k (span_range rs x)
         \<and> set_ok d' \<and> given_away d' = insert x (given_away d) \<and> (\<forall>y \<in> given_away d. apart x y))"
proof (induction pop heap d k rule: build_scored.induct)
  case (1 pop heap d k)
  show ?case
  proof (cases "heap = []")
    case True
    then show ?thesis by (simp add: build_scored.simps)
  next
    case False
    obtain x rest where p: "pop heap = (x, rest)" by (rule prod.exhaust)
    note h = heap_popD' [OF "1.prems"(1) False p]
    obtain r b e where xs: "scored_span x = (r, b, e)" by (rule prod_cases3)
    obtain ok d' where add: "addRangeIfPossible d r b e = (ok, d')" by (rule prod.exhaust)
    have good: "range_allowed E c rs (r, b, e)" "bytes x = total_bytes (span_range rs (r, b, e))"
      "scored_rows x = total_rows (span_range rs (r, b, e))" "\<forall>x \<in> set rest. scored_good E c rs x"
      using "1.prems"(3) h(1) xs by (auto simp: scored_good_def)
    have be: "b < e" using range_allowed_in(1) [OF good(1)] by (simp add: span_in_def)
    have d': "set_ok d'" "given_away d' = (if ok then insert (r, b, e) (given_away d) else given_away d)"
      "ok \<Longrightarrow> \<forall>y \<in> given_away d. apart (r, b, e) y"
      using dset.add_ok [OF "1.prems"(2) be, of r] dset.add_granted [OF "1.prems"(2) be, of r]
        dset.add_iff [OF "1.prems"(2) be, of r] add by auto
    have s: "\<not> \<not> length rest < length heap" using h(2) by simp
    let ?fits = "bytes x \<le> max_size_bytes k \<and> scored_rows x \<le> max_size_rows k"
    consider (taken) "?fits" ok | (refused) "?fits" "\<not> ok" | (large) "\<not> ?fits" by blast
    then show ?thesis
    proof cases
      case taken
      then have "build_scored pop heap d k = (Some (r, b, e), rest, d')"
        using p s False xs add by (subst build_scored.simps) simp
      then show ?thesis using taken good d' h(1) by (auto simp: fits_def)
    next
      case refused
      then have eq: "build_scored pop heap d k = build_scored pop rest d' k"
        using p s False xs add by (subst build_scored.simps) simp
      have add': "addRangeIfPossible d r b e = (False, d')" using add refused(2) by simp
      from "1.IH"(1) [OF False refl p [symmetric] s refused(1) xs [symmetric] refl add' [symmetric] refl]
      show ?thesis unfolding eq using "1.prems"(1) d'(1,2) good(4) refused(2) h(1)
        by (auto split: prod.splits option.splits)
    next
      case large
      then have eq: "build_scored pop heap d k = build_scored pop rest d k"
        using p s False by (subst build_scored.simps) auto
      from "1.IH"(2) [OF False refl p [symmetric] s large "1.prems"(1,2) good(4)]
      show ?thesis unfolding eq using h(1) by (auto split: prod.splits option.splits)
    qed
  qed
qed

lemma simple_spans_ok:
  assumes pop: "heap_ok pop"
  shows "set_ok d \<Longrightarrow> \<forall>x \<in> set heap. scored_good E c rs x \<Longrightarrow>
     length (simple_spans pop heap d ks) \<le> length ks
     \<and> sorted_wrt apart (simple_spans pop heap d ks)
     \<and> (\<forall>x \<in> set (simple_spans pop heap d ks). \<forall>y \<in> given_away d. apart x y)
     \<and> (\<forall>i < length (simple_spans pop heap d ks). let x = simple_spans pop heap d ks ! i
          in range_allowed E c rs x \<and> fits (ks ! i) (span_range rs x))"
proof (induction ks arbitrary: heap d)
  case (Cons k ks)
  obtain ox heap' d' where b: "build_scored pop heap d k = (ox, heap', d')"
    by (metis prod_cases3)
  note step = build_scored_ok [OF pop Cons.prems, of k]
  show ?case
  proof (cases ox)
    case None
    then show ?thesis using b by simp
  next
    case (Some x)
    let ?xs = "simple_spans pop heap' d' ks"
    have eq: "simple_spans pop heap d (k # ks) = x # ?xs" using b Some by simp
    have x: "set heap' \<subseteq> set heap" "range_allowed E c rs x" "fits k (span_range rs x)" "set_ok d'"
      "given_away d' = insert x (given_away d)" "\<forall>y \<in> given_away d. apart x y"
      using step b Some by simp_all
    have IH: "length ?xs \<le> length ks \<and> sorted_wrt apart ?xs \<and> (\<forall>x \<in> set ?xs. \<forall>y \<in> given_away d'. apart x y)
       \<and> (\<forall>i < length ?xs. let x = ?xs ! i in range_allowed E c rs x \<and> fits (ks ! i) (span_range rs x))"
      using Cons.IH [OF x(4)] x(1) Cons.prems(2) by blast
    have "\<forall>i < Suc (length ?xs). let y = (x # ?xs) ! i
          in range_allowed E c rs y \<and> fits ((k # ks) ! i) (span_range rs y)"
      using IH x by (auto simp: less_Suc_eq_0_disj)
    then show ?thesis unfolding eq using IH x by (auto intro: apart_sym)
  qed
qed simp

section \<open>The selection\<close>

lemma simple_select_ranges:
  assumes "heap_ok pop" "sums_fit rs" "simple_select D s pop rs (c # cs) f g = Inr (res, g')"
  shows "\<exists>spans. res = map (span_range rs) spans \<and> length spans \<le> length (c # cs) \<and> sorted_wrt apart spans
    \<and> (\<forall>i < length spans. span_in rs (spans ! i) \<and> 2 \<le> length (span_range rs (spans ! i))
         \<and> fits ((c # cs) ! i) (span_range rs (spans ! i)) \<and> range_allowed (simple_env_of D s f) c rs (spans ! i))"
proof -
  obtain scored g1 where sc: "consider_ranges (simple_env_of D s f) (c # cs) rs [0..<length rs] [] g = Inr (scored, g1)"
    "res = map (span_range rs) (simple_spans pop scored DisjointPartsRangesSet (c # cs))"
    using assms(3) by (auto simp: simple_select_def bind_r_Inr_iff simp del: simple_spans.simps split: prod.splits)
  have "\<forall>x \<in> set scored. scored_good (simple_env_of D s f) c rs x"
    using consider_ranges_ok [OF sc(1) assms(2)] by simp
  from simple_spans_ok [OF assms(1) new_set_ok(1) this, of "c # cs"]
  show ?thesis using sc(2) range_allowed_in(1,2) by (metis (no_types, lifting))
qed

text \<open>
  C26: The simple selector returns at most one range per constraint; the ranges are two or more neighbouring
  parts, no part is in two of them, and the i-th one satisfies the i-th constraint. Each of them starts
  a window that satisfied the largest constraint, the filter and the limit on the number of parts,
  and is the whole window unless the removal of small parts is enabled.
\<close>

theorem simple_select_contract:
  assumes "heap_ok pop" "sums_fit rs" "simple_select D s pop rs (c # cs) f g = Inr (res, g')"
  shows "\<exists>spans. res = map (span_range rs) spans \<and> length spans \<le> length (c # cs) \<and> sorted_wrt apart spans
    \<and> (\<forall>i < length spans. span_in rs (spans ! i) \<and> 2 \<le> length (span_range rs (spans ! i))
         \<and> fits ((c # cs) ! i) (span_range rs (spans ! i)) \<and> range_allowed (simple_env_of D s f) c rs (spans ! i))"
  by (rule simple_select_ranges [OF assms])

lemma consider_ranges_returns:
  assumes "\<not> enable_stochastic_sliding (settings E)" "\<not> enable_heuristic_to_lower_max_parts (settings E)"
  obtains acc' g' where "consider_ranges E (c # cs) rs ns acc g = Inr (acc', g')"
proof -
  have "\<exists>acc' g'. consider_ranges E (c # cs) rs ns acc g = Inr (acc', g')" for acc g
  proof (induction ns arbitrary: acc g)
    case (Cons n ns)
    have "\<exists>acc1 g1. selectWithinPartsRange E c n (rs ! n) acc g = Inr (acc1, g1)"
      using assms by (auto simp: selectWithinPartsRange_def first_begin_def lowered_max_parts_def
        split: prod.splits intro: prod.exhaust)
    then show ?case using Cons.IH by fastforce
  qed simp
  then show ?thesis using that by blast
qed

text \<open>
  Without the random sliding and the lowering of the number of parts the selector returns. It selects
  nothing only if no window was allowed, and its first range has a best score of all considered ones.
\<close>

theorem simple_select_best:
  assumes pop: "heap_pop_ok (range_compare D addr) pop" and "sums_fit rs"
    and "\<not> enable_stochastic_sliding s" "\<not> enable_heuristic_to_lower_max_parts s"
  shows "\<exists>scored res g'. consider_ranges (simple_env_of D s f) (c # cs) rs [0..<length rs] [] g = Inr (scored, g')
    \<and> simple_select D s pop rs (c # cs) f g = Inr (res, g')
    \<and> (if scored = [] then res = []
       else \<exists>x \<in> set scored. (\<forall>y \<in> set scored. \<not> range_compare D addr x y)
              \<and> res \<noteq> [] \<and> hd res = span_range rs (scored_span x))"
proof -
  let ?E = "simple_env_of D s f"
  obtain scored g' where sc: "consider_ranges ?E (c # cs) rs [0..<length rs] [] g = Inr (scored, g')"
    by (rule consider_ranges_returns [of ?E c cs rs "[0..<length rs]" "[]" g])
      (use assms(3,4) in \<open>simp_all add: simple_env_of_def\<close>)
  let ?xs = "simple_spans pop scored DisjointPartsRangesSet (c # cs)"
  have sel: "simple_select D s pop rs (c # cs) f g = Inr (map (span_range rs) ?xs, g')"
    using sc by (simp add: simple_select_def)
  have good: "\<forall>x \<in> set scored. scored_good ?E c rs x"
    using consider_ranges_ok [OF sc assms(2)] by simp
  show ?thesis
  proof (cases "scored = []")
    case True
    then have "?xs = []" by (simp add: build_scored.simps)
    then show ?thesis using sc sel True by simp
  next
    case False
    obtain x rest where p: "pop scored = (x, rest)" by (rule prod.exhaust)
    note h = heap_popD [OF pop False p]
    obtain r b e where xs: "scored_span x = (r, b, e)" by (rule prod_cases3)
    have gx: "scored_good ?E c rs x" using good h(1) by simp
    then have ra: "range_allowed ?E c rs (r, b, e)" using xs by (simp add: scored_good_def)
    have be: "b < e" using range_allowed_in(1) [OF ra] by (simp add: span_in_def)
    have fit: "bytes x \<le> max_size_bytes c \<and> scored_rows x \<le> max_size_rows c"
      using gx range_allowed_in(3,4) [OF ra] xs by (simp add: scored_good_def)
    obtain ok d' where add: "addRangeIfPossible DisjointPartsRangesSet r b e = (ok, d')" by (rule prod.exhaust)
    then have ok using dset.add_iff [OF new_set_ok(1) be, of r] by simp
    then have "build_scored pop scored DisjointPartsRangesSet c = (Some (r, b, e), rest, d')"
      using p h(2) False xs add fit by (subst build_scored.simps) simp
    then have "?xs = (r, b, e) # simple_spans pop rest d' cs" by simp
    then have "hd (map (span_range rs) ?xs) = span_range rs (scored_span x)" "map (span_range rs) ?xs \<noteq> []"
      using xs by simp_all
    then show ?thesis using sc sel h(1,3) False by auto
  qed
qed

section \<open>Examples\<close>

text \<open>Doubles with two decimal digits, and a random generator that draws the mean.\<close>

definition fixed_point :: "(int, unit) double_ops" where
  "fixed_point = \<lparr>of_size = (\<lambda>n. 100 * int n), of_time = (\<lambda>t. 100 * t), lit = (\<lambda>m n. 100 * int m div 10 ^ n),
     d_add = (+), d_sub = (-), d_mul = (\<lambda>a b. a * b div 100), d_div = (\<lambda>a b. a * 100 div b),
     d_less = (<), d_le = (\<le>), d_eq = (=), d_log = (\<lambda>x. x), d_log2 = (\<lambda>x. x), d_abs = abs, d_pow = (\<lambda>a b. a),
     interpolateLinear = (\<lambda>a b r. a + (b - a) * r div 100),
     to_size = (\<lambda>x. if x < 0 then None else Some (nat (x div 100))), normal_draw = (\<lambda>m d g. (m, g))\<rparr>"

definition least_score :: "int scored_range list \<Rightarrow> int scored_range \<times> int scored_range list" where
  "least_score = pop_least range_score"

lemma least_score_ok: "heap_pop_ok (range_compare fixed_point (\<lambda>_ _. 0)) least_score"
proof -
  have "range_compare fixed_point (\<lambda>_ _. 0) = (\<lambda>x y. range_score x > range_score y)"
    by (simp add: fun_eq_iff range_compare_def fixed_point_def split: prod.splits)
  then show ?thesis using pop_least_ok [of range_score] by (simp add: least_score_def)
qed

lemma least_score_heap: "heap_ok least_score"
  using least_score_ok by (simp add: heap_ok_def heap_pop_ok_def)

definition aged_part :: "nat \<Rightarrow> part_properties" where
  "aged_part sz = \<lparr>part_name = [], info = PartInfo ''p'' 1 1 0 0, projection_names = [],
     all_ttl_calculated_if_any = True, is_in_volume_where_merges_avoid = False, part_size = sz, age = 5,
     rows = 1, general_ttl_info = None, recompression_ttl_info = None\<rparr>"

lemma aged_part_simps [simp]: "part_size (aged_part n) = n" "rows (aged_part n) = 1" "age (aged_part n) = 5"
  by (simp_all add: aged_part_def)

definition forced :: "int simple_settings" where
  "forced = (default_settings fixed_point)\<lparr>min_age_to_force_merge := 1\<rparr>"

definition three_parts :: "parts_range list" where
  "three_parts = [[aged_part 1000, aged_part 1000, aged_part 1]]"

definition whole_partition :: range_filter where
  "whole_partition = Some (\<lambda>ps. length ps = 3)"

definition large_constraint :: merge_constraint where
  "large_constraint = \<lparr>max_size_bytes = 10000, max_size_rows = 100\<rparr>"

lemma three_parts_sums:
  "add64 1000 1000 = 2000" "add64 2000 (Suc 0) = 2001" "add64 1000 (Suc 0) = 1001" "add64 (Suc 0) (Suc 0) = Suc (Suc 0)"
  "add64 (Suc (Suc 0)) (Suc 0) = Suc (Suc (Suc 0))" "add64 0 (Suc 0) = Suc 0"
  "sub64 2001 (Suc 0) = 2000" "sub64 (Suc (Suc (Suc 0))) (Suc 0) = Suc (Suc 0)" "size_of_time 5 = 5"
  by (simp_all add: add64_def sub64_def size_max_def size_of_time_def)

lemma three_parts_selected:
  "simple_select fixed_point forced least_score three_parts [large_constraint] whole_partition ()
   = Inr ([[aged_part 1000, aged_part 1000]], ())"
  by (simp add: simple_select_def simple_env_of_def three_parts_def selectWithinPartsRange_def first_begin_def
      forced_def default_settings_def lowered_max_parts_def first_window_def widen_def large_constraint_def
      allow_def accepts_def whole_partition_def parts_between_def numeral_3_eq_3 Let_def three_parts_sums consider_range_def considered_end_def considered_score_def
      merge_score_def fixed_point_def least_score_def build_scored.simps addRangeIfPossible_def
      DisjointPartsRangesSet_def disjoint_from_ranges_def up_to_def after_def insert_boundaries_def span_range_def)

lemma three_parts_fit: "sums_fit three_parts"
  by (simp add: sums_fit_def three_parts_def size_max_def)

theorem simple_select_contract_witness:
  "\<exists>spans. [[aged_part 1000, aged_part 1000]] = map (span_range three_parts) spans
    \<and> length spans \<le> length (large_constraint # []) \<and> sorted_wrt apart spans
    \<and> (\<forall>i < length spans. span_in three_parts (spans ! i) \<and> 2 \<le> length (span_range three_parts (spans ! i))
         \<and> fits ((large_constraint # []) ! i) (span_range three_parts (spans ! i))
         \<and> range_allowed (simple_env_of fixed_point forced whole_partition) large_constraint three_parts (spans ! i))"
  by (rule simple_select_contract [OF least_score_heap three_parts_fit three_parts_selected])

theorem simple_select_best_witness:
  "\<exists>scored res g'. consider_ranges (simple_env_of fixed_point forced whole_partition) (large_constraint # [])
        three_parts [0..<length three_parts] [] () = Inr (scored, g')
    \<and> simple_select fixed_point forced least_score three_parts (large_constraint # []) whole_partition () = Inr (res, g')
    \<and> (if scored = [] then res = []
       else \<exists>x \<in> set scored. (\<forall>y \<in> set scored. \<not> range_compare fixed_point (\<lambda>_ _. 0) x y)
              \<and> res \<noteq> [] \<and> hd res = span_range three_parts (scored_span x))"
  by (rule simple_select_best [OF least_score_ok three_parts_fit]) (simp_all add: forced_def default_settings_def)

text \<open>
  The filter is documented as a constraint on the returned ranges, but the small part at the right is
  removed after the filter was asked: with a filter that accepts three parts only, two are returned.
\<close>

theorem filter_not_respected:
  "simple_select fixed_point forced least_score three_parts [large_constraint] whole_partition ()
     = Inr ([[aged_part 1000, aged_part 1000]], ())
   \<and> \<not> accepts whole_partition [aged_part 1000, aged_part 1000]"
  using three_parts_selected by (simp add: accepts_def whole_partition_def)

text \<open>The random sliding is undefined when the normal distribution draws a negative number.\<close>

lemma sliding_negative_draw:
  assumes "normal_draw D (of_size D n) (d_div D (of_size D n) (lit D 4 0)) g = (x, g')" "to_size D x = None"
  shows "calculateRangeWithStochasticSliding D n t g = Inl UB"
  using assms by (simp add: calculateRangeWithStochasticSliding_def cast_size_def Let_def)

end
