(* ===== verification/Merge_Applier.thy ===== *)
theory Merge_Applier
  imports Merge_Trivial Merge_TTL_Results Merge_Simple_Results Log_Entry
begin

text \<open>
  \<open>MergeSelectorApplier\<close> (\<open>Compaction/MergeSelectorApplier.cpp\<close>): the choice of
  the merges to run. Expired parts are dropped first, then expired rows are deleted, then parts are
  recompressed, and only then the selector of regular merges is asked. The merge predicate and the metadata
  are arguments.
\<close>

section \<open>The context\<close>

datatype selector_algorithm = SIMPLE | STOCHASTIC_SIMPLE | TRIVIAL

text \<open>The table settings that the applier reads.\<close>

record 'd merge_settings =
  set_max_parts_to_merge_at_once :: size_t
  set_blurry_base_scale_factor :: size_t
  set_window_size :: size_t
  set_min_age_to_force_merge_on_partition_only :: bool
  set_min_age_to_force_merge_seconds :: size_t
  set_ttl_only_drop_parts :: bool
  set_parts_to_throw_insert :: size_t
  set_algorithm :: selector_algorithm
  set_enable_remove_small_parts_at_right :: bool
  set_enable_lower_max_parts :: bool
  set_lower_max_parts_exponent :: size_t
  set_base :: 'd
  set_min_parts_to_merge_at_once :: size_t
  set_apply_patches_on_merge :: bool

record 'd choose_context =
  ctx_ranges :: "parts_range list"
  ctx_partitions_stats :: "string \<Rightarrow> partition_statistics option"
  getPatchesToApplyOnMerge :: "parts_range \<Rightarrow> parts_range"
  ctx_range_filter :: range_filter
  ctx_constraints :: "merge_constraint list"
  hasAnyRecompressionTTL :: bool
  ctx_settings :: "'d merge_settings"
  next_delete_times :: "string \<Rightarrow> int option"
  next_recompress_times :: "string \<Rightarrow> int option"
  ctx_current_time :: int
  aggressive :: bool

text \<open>What the selectors take from the standard library: heaps, sorting, doubles and the random generator.\<close>

record ('d, 'g) selector_lib =
  lib_doubles :: "('d, 'g) double_ops"
  pop_center :: heap_pop
  pop_scored :: "'d scored_range list \<Rightarrow> 'd scored_range \<times> 'd scored_range list"
  sort_desc :: "(nat \<Rightarrow> nat) \<Rightarrow> nat list \<Rightarrow> nat list"
  rng_value :: "'g \<Rightarrow> nat"

record merge_choice =
  choice_range :: parts_range
  choice_patches :: parts_range
  choice_type :: merge_type
  choice_final :: bool

definition pack :: "'d choose_context \<Rightarrow> parts_range list \<Rightarrow> merge_type \<Rightarrow> merge_choice list" where
  "pack ctx rs ty =
     map (\<lambda>ps. \<lparr>choice_range = ps,
                choice_patches = (if set_apply_patches_on_merge (ctx_settings ctx) then getPatchesToApplyOnMerge ctx ps else []),
                choice_type = ty, choice_final = False\<rparr>) rs"

section \<open>TTL merges\<close>

definition unlimited_constraint :: merge_constraint where
  "unlimited_constraint = \<lparr>max_size_bytes = size_max - 1, max_size_rows = size_max - 1\<rparr>"

definition choose_ttl_drop :: "('d, 'g) selector_lib \<Rightarrow> 'd choose_context \<Rightarrow> parts_range list" where
  "choose_ttl_drop L ctx =
     (if ctx_constraints ctx \<noteq> [] then
        ttl_select (pop_center L)
          (TTLPartDropMergeSelector (ctx_current_time ctx) (set_max_parts_to_merge_at_once (ctx_settings ctx)))
          (ctx_ranges ctx) (replicate (length (ctx_constraints ctx)) unlimited_constraint) (ctx_range_filter ctx)
      else [])"

definition choose_ttl_delete :: "('d, 'g) selector_lib \<Rightarrow> 'd choose_context \<Rightarrow> parts_range list" where
  "choose_ttl_delete L ctx =
     (if ctx_constraints ctx \<noteq> [] \<and> \<not> set_ttl_only_drop_parts (ctx_settings ctx) then
        ttl_select (pop_center L) (TTLRowDeleteMergeSelector (next_delete_times ctx) (ctx_current_time ctx))
          (ctx_ranges ctx) (ctx_constraints ctx) (ctx_range_filter ctx)
      else [])"

definition choose_ttl_recompress :: "('d, 'g) selector_lib \<Rightarrow> 'd choose_context \<Rightarrow> parts_range list" where
  "choose_ttl_recompress L ctx =
     (if ctx_constraints ctx \<noteq> [] \<and> hasAnyRecompressionTTL ctx then
        ttl_select (pop_center L) (TTLRecompressMergeSelector (next_recompress_times ctx) (ctx_current_time ctx))
          (ctx_ranges ctx) (ctx_constraints ctx) (ctx_range_filter ctx)
      else [])"

definition tryChooseTTLMerge :: "('d, 'g) selector_lib \<Rightarrow> 'd choose_context \<Rightarrow> merge_choice list" where
  "tryChooseTTLMerge L ctx =
     (if choose_ttl_drop L ctx \<noteq> [] then pack ctx (choose_ttl_drop L ctx) TTLDrop
      else if choose_ttl_delete L ctx \<noteq> [] then pack ctx (choose_ttl_delete L ctx) TTLDelete
      else if choose_ttl_recompress L ctx \<noteq> [] then pack ctx (choose_ttl_recompress L ctx) TTLRecompress
      else [])"

section \<open>Regular merges\<close>

definition fillSimpleSettings :: "('d, 'g) double_ops \<Rightarrow> 'd choose_context \<Rightarrow> 'd simple_settings" where
  "fillSimpleSettings D ctx =
     (let t = ctx_settings ctx;
          s = (default_settings D)
            \<lparr>window_size := set_window_size t,
             simple_max_parts_to_merge_at_once := set_max_parts_to_merge_at_once t,
             enable_heuristic_to_remove_small_parts_at_right := set_enable_remove_small_parts_at_right t,
             base := set_base t,
             min_parts_to_merge_at_once := set_min_parts_to_merge_at_once t,
             enable_heuristic_to_lower_max_parts := set_enable_lower_max_parts t,
             lower_max_parts_exponent := set_lower_max_parts_exponent t,
             parts_to_throw_insert := set_parts_to_throw_insert t,
             partitions_stats := Some (ctx_partitions_stats ctx)\<rparr>;
          s = (if \<not> set_min_age_to_force_merge_on_partition_only t
               then s\<lparr>min_age_to_force_merge := set_min_age_to_force_merge_seconds t\<rparr> else s)
      in if aggressive ctx then s\<lparr>base := lit D 1 0\<rparr> else s)"

definition fillSimpleStochasticSettings :: "('d, 'g) double_ops \<Rightarrow> 'd choose_context \<Rightarrow> 'd simple_settings" where
  "fillSimpleStochasticSettings D ctx =
     (let t = ctx_settings ctx
      in (fillSimpleSettings D ctx)
           \<lparr>parts_to_throw_insert := set_parts_to_throw_insert t,
            blurry_base_scale_factor := set_blurry_base_scale_factor t,
            use_blurry_base := (set_blurry_base_scale_factor t \<noteq> 0),
            enable_stochastic_sliding := True\<rparr>)"

definition select_simple ::
  "('d, 'g) selector_lib \<Rightarrow> 'd choose_context \<Rightarrow> 'd simple_settings \<Rightarrow> 'g \<Rightarrow> parts_range list result" where
  "select_simple L ctx s g =
     bind_r (simple_select (lib_doubles L) s (pop_scored L) (ctx_ranges ctx) (ctx_constraints ctx)
              (ctx_range_filter ctx) g) (\<lambda>(rs, g). Inr rs)"

text \<open>\<open>None\<close> would be a trivial selector that does not return.\<close>

definition tryChooseRegularMerge ::
  "('d, 'g) selector_lib \<Rightarrow> 'd choose_context \<Rightarrow> 'g \<Rightarrow> merge_choice list result option" where
  "tryChooseRegularMerge L ctx g =
     (case (case set_algorithm (ctx_settings ctx) of
              SIMPLE \<Rightarrow> Some (select_simple L ctx (fillSimpleSettings (lib_doubles L) ctx) g)
            | STOCHASTIC_SIMPLE \<Rightarrow> Some (select_simple L ctx (fillSimpleStochasticSettings (lib_doubles L) ctx) g)
            | TRIVIAL \<Rightarrow> trivial_select (sort_desc L) (rng_value L g) (ctx_ranges ctx) (ctx_constraints ctx)
                           (ctx_range_filter ctx)) of
        None \<Rightarrow> None
      | Some r \<Rightarrow> Some (bind_r r (\<lambda>rs. Inr (pack ctx rs MergeRegular))))"

definition chooseMergesFrom ::
  "('d, 'g) selector_lib \<Rightarrow> 'd choose_context \<Rightarrow> bool \<Rightarrow> bool \<Rightarrow> bool \<Rightarrow> 'g \<Rightarrow> merge_choice list result option" where
  "chooseMergesFrom L ctx hasAnyTTL merge_with_ttl_allowed can_use_ttl_merges g =
     (if hasAnyTTL \<and> merge_with_ttl_allowed \<and> can_use_ttl_merges \<and> tryChooseTTLMerge L ctx \<noteq> []
      then Some (Inr (tryChooseTTLMerge L ctx))
      else tryChooseRegularMerge L ctx g)"

section \<open>What is chosen\<close>

definition lib_ok :: "('d, 'g) selector_lib \<Rightarrow> bool" where
  "lib_ok L \<longleftrightarrow> heap_pop_ok later_ttl (pop_center L) \<and> heap_ok (pop_scored L) \<and> sort_desc_ok (sort_desc L)"

text \<open>The parts that a merge of each type may hold.\<close>

definition choice_ok :: "'d choose_context \<Rightarrow> merge_constraint \<Rightarrow> merge_choice \<Rightarrow> bool" where
  "choice_ok ctx k ch \<longleftrightarrow>
     (case choice_type ch of
        TTLDrop \<Rightarrow> (\<forall>p \<in> set (choice_range ch). \<exists>t. general_ttl_info p = Some t \<and> part_max_ttl t \<noteq> 0
                       \<and> part_max_ttl t \<le> ctx_current_time ctx)
          \<and> (set_max_parts_to_merge_at_once (ctx_settings ctx) \<noteq> 0 \<longrightarrow>
               length (choice_range ch) \<le> set_max_parts_to_merge_at_once (ctx_settings ctx))
      | TTLDelete \<Rightarrow> fits k (choice_range ch) \<and> \<not> set_ttl_only_drop_parts (ctx_settings ctx)
          \<and> (\<forall>p \<in> set (choice_range ch). \<not> is_in_volume_where_merges_avoid p
               \<and> (\<exists>t. general_ttl_info p = Some t \<and> has_any_non_finished_ttls t \<and> part_min_ttl t \<noteq> 0
                    \<and> part_min_ttl t \<le> ctx_current_time ctx))
      | TTLRecompress \<Rightarrow> fits k (choice_range ch) \<and> hasAnyRecompressionTTL ctx
          \<and> (\<forall>p \<in> set (choice_range ch). \<not> is_in_volume_where_merges_avoid p
               \<and> (\<exists>t. recompression_ttl_info p = Some t \<and> will_change_codec t \<and> next_recompress_ttl t \<noteq> 0
                    \<and> next_recompress_ttl t \<le> ctx_current_time ctx))
      | MergeRegular \<Rightarrow> fits k (choice_range ch) \<and> 2 \<le> length (choice_range ch))"

definition choices_ok :: "'d choose_context \<Rightarrow> merge_choice list \<Rightarrow> bool" where
  "choices_ok ctx chs \<longleftrightarrow>
     (\<exists>spans. map choice_range chs = map (span_range (ctx_ranges ctx)) spans
        \<and> length spans \<le> length (ctx_constraints ctx) \<and> sorted_wrt apart spans
        \<and> (\<forall>i < length spans. span_in (ctx_ranges ctx) (spans ! i)
             \<and> choice_ok ctx (ctx_constraints ctx ! i) (chs ! i)))
     \<and> (\<forall>ch \<in> set chs. choice_patches ch =
          (if set_apply_patches_on_merge (ctx_settings ctx) then getPatchesToApplyOnMerge ctx (choice_range ch) else []))"

lemma pack_ok:
  assumes "rs = map (span_range (ctx_ranges ctx)) spans" "length spans \<le> length (ctx_constraints ctx)"
    "sorted_wrt apart spans"
    "\<And>i. i < length spans \<Longrightarrow> span_in (ctx_ranges ctx) (spans ! i)
       \<and> choice_ok ctx (ctx_constraints ctx ! i) (pack ctx [span_range (ctx_ranges ctx) (spans ! i)] ty ! 0)"
  shows "choices_ok ctx (pack ctx rs ty)"
proof -
  have "map choice_range (pack ctx rs ty) = map (span_range (ctx_ranges ctx)) spans"
    by (simp add: pack_def assms(1))
  moreover have "\<forall>i < length spans. span_in (ctx_ranges ctx) (spans ! i)
      \<and> choice_ok ctx (ctx_constraints ctx ! i) (pack ctx rs ty ! i)"
    using assms(4) by (simp add: pack_def assms(1))
  moreover have "\<forall>ch \<in> set (pack ctx rs ty). choice_patches ch =
      (if set_apply_patches_on_merge (ctx_settings ctx) then getPatchesToApplyOnMerge ctx (choice_range ch) else [])"
    by (auto simp: pack_def)
  ultimately show ?thesis using assms(2,3) unfolding choices_ok_def by blast
qed

lemma expired_drop:
  assumes "expired (TTLPartDropMergeSelector now n) p"
  shows "\<exists>t. general_ttl_info p = Some t \<and> part_max_ttl t \<noteq> 0 \<and> part_max_ttl t \<le> now"
  using assms by (cases "general_ttl_info p") (auto simp: expired_def TTLPartDropMergeSelector_def)

lemma expired_delete:
  assumes "expired (TTLRowDeleteMergeSelector due now) p"
  shows "\<not> is_in_volume_where_merges_avoid p
    \<and> (\<exists>t. general_ttl_info p = Some t \<and> has_any_non_finished_ttls t \<and> part_min_ttl t \<noteq> 0 \<and> part_min_ttl t \<le> now)"
  using assms by (cases "general_ttl_info p") (auto simp: expired_def TTLRowDeleteMergeSelector_def)

lemma expired_recompress:
  assumes "expired (TTLRecompressMergeSelector due now) p"
  shows "\<not> is_in_volume_where_merges_avoid p
    \<and> (\<exists>t. recompression_ttl_info p = Some t \<and> will_change_codec t \<and> next_recompress_ttl t \<noteq> 0
          \<and> next_recompress_ttl t \<le> now)"
  using assms by (cases "recompression_ttl_info p") (auto simp: expired_def TTLRecompressMergeSelector_def)

lemma ttl_drop_ok:
  assumes "lib_ok L" "ctx_constraints ctx \<noteq> []"
  shows "choices_ok ctx (pack ctx (choose_ttl_drop L ctx) TTLDrop)"
proof -
  let ?s = "TTLPartDropMergeSelector (ctx_current_time ctx) (set_max_parts_to_merge_at_once (ctx_settings ctx))"
  let ?ks = "replicate (length (ctx_constraints ctx)) unlimited_constraint"
  obtain spans where s: "choose_ttl_drop L ctx = map (span_range (ctx_ranges ctx)) spans"
    "length spans \<le> length ?ks" "sorted_wrt apart spans"
    "\<forall>i < length spans. span_in (ctx_ranges ctx) (spans ! i)
       \<and> ttl_range_ok ?s (?ks ! i) (span_range (ctx_ranges ctx) (spans ! i))
       \<and> accepts (ctx_range_filter ctx) (span_range (ctx_ranges ctx) (spans ! i))"
    using ttl_select_ranges [of "pop_center L" ?s "ctx_ranges ctx" ?ks "ctx_range_filter ctx"] assms
    unfolding choose_ttl_drop_def lib_ok_def by auto
  show ?thesis
  proof (rule pack_ok [OF s(1) _ s(3)])
    show "length spans \<le> length (ctx_constraints ctx)" using s(2) by simp
    fix i assume "i < length spans"
    then show "span_in (ctx_ranges ctx) (spans ! i)
       \<and> choice_ok ctx (ctx_constraints ctx ! i) (pack ctx [span_range (ctx_ranges ctx) (spans ! i)] TTLDrop ! 0)"
      using s(4) expired_drop by (fastforce simp: pack_def choice_ok_def ttl_range_ok_def TTLPartDropMergeSelector_def)
  qed
qed

lemma ttl_delete_ok:
  assumes "lib_ok L" "choose_ttl_delete L ctx \<noteq> []"
  shows "choices_ok ctx (pack ctx (choose_ttl_delete L ctx) TTLDelete)"
proof -
  let ?s = "TTLRowDeleteMergeSelector (next_delete_times ctx) (ctx_current_time ctx)"
  have c: "ctx_constraints ctx \<noteq> []" "\<not> set_ttl_only_drop_parts (ctx_settings ctx)"
    using assms(2) by (auto simp: choose_ttl_delete_def split: if_splits)
  obtain spans where s: "choose_ttl_delete L ctx = map (span_range (ctx_ranges ctx)) spans"
    "length spans \<le> length (ctx_constraints ctx)" "sorted_wrt apart spans"
    "\<forall>i < length spans. span_in (ctx_ranges ctx) (spans ! i)
       \<and> ttl_range_ok ?s (ctx_constraints ctx ! i) (span_range (ctx_ranges ctx) (spans ! i))
       \<and> accepts (ctx_range_filter ctx) (span_range (ctx_ranges ctx) (spans ! i))"
    using ttl_select_ranges [of "pop_center L" ?s "ctx_ranges ctx" "ctx_constraints ctx" "ctx_range_filter ctx"] assms(1) c
    unfolding choose_ttl_delete_def lib_ok_def by auto
  show ?thesis
    by (rule pack_ok [OF s(1-3)])
      (use s(4) expired_delete c in \<open>fastforce simp: pack_def choice_ok_def ttl_range_ok_def\<close>)
qed

lemma ttl_recompress_ok:
  assumes "lib_ok L" "choose_ttl_recompress L ctx \<noteq> []"
  shows "choices_ok ctx (pack ctx (choose_ttl_recompress L ctx) TTLRecompress)"
proof -
  let ?s = "TTLRecompressMergeSelector (next_recompress_times ctx) (ctx_current_time ctx)"
  have c: "ctx_constraints ctx \<noteq> []" "hasAnyRecompressionTTL ctx"
    using assms(2) by (auto simp: choose_ttl_recompress_def split: if_splits)
  obtain spans where s: "choose_ttl_recompress L ctx = map (span_range (ctx_ranges ctx)) spans"
    "length spans \<le> length (ctx_constraints ctx)" "sorted_wrt apart spans"
    "\<forall>i < length spans. span_in (ctx_ranges ctx) (spans ! i)
       \<and> ttl_range_ok ?s (ctx_constraints ctx ! i) (span_range (ctx_ranges ctx) (spans ! i))
       \<and> accepts (ctx_range_filter ctx) (span_range (ctx_ranges ctx) (spans ! i))"
    using ttl_select_ranges [of "pop_center L" ?s "ctx_ranges ctx" "ctx_constraints ctx" "ctx_range_filter ctx"] assms(1) c
    unfolding choose_ttl_recompress_def lib_ok_def by auto
  show ?thesis
    by (rule pack_ok [OF s(1-3)])
      (use s(4) expired_recompress c in \<open>fastforce simp: pack_def choice_ok_def ttl_range_ok_def\<close>)
qed

lemma ttl_merge_ok:
  assumes "lib_ok L" "tryChooseTTLMerge L ctx \<noteq> []"
  shows "choices_ok ctx (tryChooseTTLMerge L ctx)"
proof -
  have "ctx_constraints ctx \<noteq> []" if "choose_ttl_drop L ctx \<noteq> []"
    using that by (auto simp: choose_ttl_drop_def)
  then show ?thesis
    using assms ttl_drop_ok ttl_delete_ok ttl_recompress_ok by (auto simp: tryChooseTTLMerge_def split: if_splits)
qed

lemma simple_merge_ok:
  assumes "lib_ok L" "sums_fit (ctx_ranges ctx)" "select_simple L ctx s g = Inr rs"
    "ctx_constraints ctx \<noteq> []"
  shows "choices_ok ctx (pack ctx rs MergeRegular)"
proof -
  obtain c cs where k: "ctx_constraints ctx = c # cs" using assms(4) by (cases "ctx_constraints ctx") auto
  obtain g' where "simple_select (lib_doubles L) s (pop_scored L) (ctx_ranges ctx) (c # cs) (ctx_range_filter ctx) g
      = Inr (rs, g')"
    using assms(3) k by (auto simp: select_simple_def bind_r_Inr_iff split: prod.splits)
  from simple_select_ranges [OF _ assms(2) this] assms(1)
  obtain spans where s: "rs = map (span_range (ctx_ranges ctx)) spans" "length spans \<le> length (c # cs)"
    "sorted_wrt apart spans"
    "\<forall>i < length spans. span_in (ctx_ranges ctx) (spans ! i) \<and> 2 \<le> length (span_range (ctx_ranges ctx) (spans ! i))
       \<and> fits ((c # cs) ! i) (span_range (ctx_ranges ctx) (spans ! i))"
    unfolding lib_ok_def by blast
  show ?thesis
    by (rule pack_ok [OF s(1) s(2) [folded k] s(3)]) (use s(4) k in \<open>simp add: pack_def choice_ok_def\<close>)
qed

lemma trivial_merge_ok:
  assumes "lib_ok L" "valid_input (ctx_ranges ctx)" "ctx_constraints ctx \<noteq> []"
    "trivial_select (sort_desc L) n (ctx_ranges ctx) (ctx_constraints ctx) (ctx_range_filter ctx) = Some (Inr rs)"
  shows "choices_ok ctx (pack ctx rs MergeRegular)"
proof -
  obtain c cs where k: "ctx_constraints ctx = c # cs" using assms(3) by (cases "ctx_constraints ctx") auto
  have "rs = [] \<or> (\<exists>r b. r < length (ctx_ranges ctx) \<and> b + 10 \<le> length (ctx_ranges ctx ! r)
      \<and> rs = [parts_between (ctx_ranges ctx ! r) b (b + 10)] \<and> fits c (hd rs))"
    using trivial_select_returns [of "sort_desc L" "ctx_ranges ctx" n c cs "ctx_range_filter ctx"] assms(1,2,4) k
    unfolding lib_ok_def by auto
  then consider "rs = []" | r b where "r < length (ctx_ranges ctx)" "b + 10 \<le> length (ctx_ranges ctx ! r)"
      "rs = [parts_between (ctx_ranges ctx ! r) b (b + 10)]" "fits c (hd rs)" by blast
  then show ?thesis
  proof cases
    case 1
    show ?thesis by (rule pack_ok [of _ _ "[]"]) (simp_all add: 1)
  next
    case 2
    show ?thesis
      by (rule pack_ok [of _ _ "[(r, b, b + 10)]"])
        (use 2 k in \<open>simp_all add: span_range_def span_in_def pack_def choice_ok_def\<close>)
  qed
qed

section \<open>When a selection throws\<close>

text \<open>
  The random start of the stochastic selector is cast to an unsigned integer, and so is the lowered number
  of parts, for which each partition needs statistics: the inputs for which both are defined.
\<close>

definition draws_ok :: "('d, 'g) selector_lib \<Rightarrow> 'd choose_context \<Rightarrow> bool" where
  "draws_ok L ctx \<longleftrightarrow>
     (set_algorithm (ctx_settings ctx) = STOCHASTIC_SIMPLE \<longrightarrow>
       (\<forall>ps \<in> set (ctx_ranges ctx). \<forall>g. set_window_size (ctx_settings ctx) \<le> length ps \<longrightarrow>
          (let D = lib_doubles L; mean = of_size D (length ps)
           in to_size D (fst (normal_draw D mean (d_div D mean (lit D 4 0)) g)) \<noteq> None)))"

definition lowered_value :: "('d, 'g) double_ops \<Rightarrow> 'd choose_context \<Rightarrow> size_t \<Rightarrow> 'd" where
  "lowered_value D ctx n =
     (let t = ctx_settings ctx; k = (if aggressive ctx then lit D 1 0 else set_base t)
      in if n \<ge> set_parts_to_throw_insert t then k
         else d_add D k (d_mul D (d_sub D (of_size D (set_max_parts_to_merge_at_once t)) k)
                (d_sub D (lit D 1 0)
                  (d_pow D (d_div D (d_sub D (of_size D n) k) (d_sub D (of_size D (set_parts_to_throw_insert t)) k))
                     (of_size D (set_lower_max_parts_exponent t))))))"

definition stats_ok :: "('d, 'g) selector_lib \<Rightarrow> 'd choose_context \<Rightarrow> bool" where
  "stats_ok L ctx \<longleftrightarrow>
     (set_enable_lower_max_parts (ctx_settings ctx) \<longrightarrow> (\<forall>ps \<in> set (ctx_ranges ctx). 1 < length ps \<longrightarrow>
        (\<exists>st. ctx_partitions_stats ctx (partition_id (info (hd ps))) = Some st
           \<and> to_size (lib_doubles L) (lowered_value (lib_doubles L) ctx (stats_part_count st)) \<noteq> None)))"

lemma simple_settings_fields:
  assumes "s = fillSimpleSettings D ctx \<or> s = fillSimpleStochasticSettings D ctx"
  shows "window_size s = set_window_size (ctx_settings ctx)"
    "enable_heuristic_to_lower_max_parts s = set_enable_lower_max_parts (ctx_settings ctx)"
    "partitions_stats s = Some (ctx_partitions_stats ctx)"
    "simple_max_parts_to_merge_at_once s = set_max_parts_to_merge_at_once (ctx_settings ctx)"
    "parts_to_throw_insert s = set_parts_to_throw_insert (ctx_settings ctx)"
    "lower_max_parts_exponent s = set_lower_max_parts_exponent (ctx_settings ctx)"
    "base s = (if aggressive ctx then lit D 1 0 else set_base (ctx_settings ctx))"
  using assms by (elim disjE; simp add: fillSimpleSettings_def fillSimpleStochasticSettings_def Let_def)+

lemma stochastic_only: "\<not> enable_stochastic_sliding (fillSimpleSettings D ctx)"
  by (simp add: fillSimpleSettings_def Let_def default_settings_def)

lemma lowered_max_parts_returns:
  assumes s: "s = fillSimpleSettings D ctx \<or> s = fillSimpleStochasticSettings D ctx"
    and st: "set_enable_lower_max_parts (ctx_settings ctx) \<Longrightarrow>
      \<exists>st. ctx_partitions_stats ctx (partition_id (info (hd ps))) = Some st \<and> to_size D (lowered_value D ctx (stats_part_count st)) \<noteq> None"
  shows "\<exists>n. lowered_max_parts D s ps = Inr n"
proof (cases "set_enable_lower_max_parts (ctx_settings ctx)")
  case True
  then obtain st n where st: "ctx_partitions_stats ctx (partition_id (info (hd ps))) = Some st"
      "to_size D (lowered_value D ctx (stats_part_count st)) = Some n" using assms(2) by auto
  have "cast_size D (lowered_value D ctx (stats_part_count st)) = Inr n" using st(2) by (simp add: cast_size_def)
  then show ?thesis using True st(1)
    by (auto simp: lowered_max_parts_def simple_settings_fields [OF s] lowered_value_def Let_def)
qed (simp add: lowered_max_parts_def simple_settings_fields [OF s])

lemma first_begin_returns:
  assumes "enable_stochastic_sliding s \<Longrightarrow> window_size s \<le> n
    \<Longrightarrow> to_size D (fst (normal_draw D (of_size D n) (d_div D (of_size D n) (lit D 4 0)) g)) \<noteq> None"
  shows "\<exists>b g'. first_begin D s n g = Inr (b, g')"
  using assms by (cases "normal_draw D (of_size D n) (d_div D (of_size D n) (lit D 4 0)) g")
    (auto simp: first_begin_def calculateRangeWithStochasticSliding_def cast_size_def Let_def)

lemma consider_ranges_goes_through:
  assumes "\<And>n g. n \<in> set ns \<Longrightarrow> 1 < length (rs ! n) \<Longrightarrow> \<exists>b g'. first_begin (doubles E) (settings E) (length (rs ! n)) g = Inr (b, g')"
    "\<And>n. n \<in> set ns \<Longrightarrow> 1 < length (rs ! n) \<Longrightarrow> \<exists>m. lowered_max_parts (doubles E) (settings E) (rs ! n) = Inr m"
  shows "\<exists>acc' g'. consider_ranges E (c # cs) rs ns acc g = Inr (acc', g')"
  using assms
proof (induction ns arbitrary: acc g)
  case (Cons n ns)
  have "\<exists>acc1 g1. selectWithinPartsRange E c n (rs ! n) acc g = Inr (acc1, g1)"
  proof (cases "1 < length (rs ! n)")
    case True
    obtain b g1 m where "first_begin (doubles E) (settings E) (length (rs ! n)) g = Inr (b, g1)"
        "lowered_max_parts (doubles E) (settings E) (rs ! n) = Inr m"
      using Cons.prems True by fastforce
    then show ?thesis using True by (simp add: selectWithinPartsRange_def)
  qed (simp add: selectWithinPartsRange_def)
  then obtain acc1 g1 where s: "selectWithinPartsRange E c n (rs ! n) acc g = Inr (acc1, g1)" by blast
  have "\<exists>acc' g'. consider_ranges E (c # cs) rs ns acc1 g1 = Inr (acc', g')" using Cons.prems by (intro Cons.IH) auto
  then show ?case using s by simp
qed simp

lemma select_simple_returns:
  assumes s: "s = fillSimpleSettings (lib_doubles L) ctx
      \<or> s = fillSimpleStochasticSettings (lib_doubles L) ctx \<and> set_algorithm (ctx_settings ctx) = STOCHASTIC_SIMPLE"
    and ok: "draws_ok L ctx" "stats_ok L ctx" "ctx_constraints ctx \<noteq> []"
  shows "\<exists>rs. select_simple L ctx s g = Inr rs"
proof -
  let ?D = "lib_doubles L" and ?rs = "ctx_ranges ctx"
  obtain c cs where k: "ctx_constraints ctx = c # cs" using ok(3) by (cases "ctx_constraints ctx") auto
  have s': "s = fillSimpleSettings ?D ctx \<or> s = fillSimpleStochasticSettings ?D ctx" using s by blast
  have "\<exists>acc' g'. consider_ranges (simple_env_of ?D s (ctx_range_filter ctx)) (c # cs) ?rs [0..<length ?rs] [] g = Inr (acc', g')"
  proof (rule consider_ranges_goes_through)
    fix n g assume n: "n \<in> set [0..<length ?rs]" "1 < length (?rs ! n)"
    then have mem: "?rs ! n \<in> set ?rs" by simp
    show "\<exists>b g'. first_begin (doubles (simple_env_of ?D s (ctx_range_filter ctx)))
        (settings (simple_env_of ?D s (ctx_range_filter ctx))) (length (?rs ! n)) g = Inr (b, g')"
      unfolding simple_env_of_def simple_env.simps
    proof (rule first_begin_returns)
      assume "enable_stochastic_sliding s" "window_size s \<le> length (?rs ! n)"
      moreover from this have "set_algorithm (ctx_settings ctx) = STOCHASTIC_SIMPLE" using s stochastic_only by metis
      ultimately show "to_size ?D (fst (normal_draw ?D (of_size ?D (length (?rs ! n)))
          (d_div ?D (of_size ?D (length (?rs ! n))) (lit ?D 4 0)) g)) \<noteq> None"
        using ok(1) mem simple_settings_fields(1) [OF s'] by (simp add: draws_ok_def Let_def)
    qed
  next
    fix n assume n: "n \<in> set [0..<length ?rs]" "1 < length (?rs ! n)"
    then have mem: "?rs ! n \<in> set ?rs" by simp
    show "\<exists>m. lowered_max_parts (doubles (simple_env_of ?D s (ctx_range_filter ctx)))
        (settings (simple_env_of ?D s (ctx_range_filter ctx))) (?rs ! n) = Inr m"
      unfolding simple_env_of_def simple_env.simps
      by (rule lowered_max_parts_returns [OF s']) (use ok(2) mem n(2) in \<open>simp add: stats_ok_def\<close>)
  qed
  then show ?thesis by (auto simp: select_simple_def simple_select_def k simp del: simple_spans.simps)
qed

text \<open>
  C24: The applier chooses merges that lie apart, at most one per constraint, with the patches to apply. A
  merge that drops parts holds only parts whose last TTL has expired; a TTL merge that rewrites parts holds
  only parts with work to do; every merge but a drop satisfies its constraint. It returns them whenever the
  random start of the stochastic selector, and the number of parts that is lowered by the statistics of
  each partition, are defined; else it may throw instead, as does the cast of a negative draw. There is
  at least one constraint, and the sizes and rows of a range, and its length, do not exceed 64 bits.
\<close>

theorem chosen_merges_ok:
  assumes "lib_ok L" "valid_input (ctx_ranges ctx)" "ctx_constraints ctx \<noteq> []"
  shows "\<exists>res. chooseMergesFrom L ctx hasAnyTTL merge_with_ttl_allowed can_use_ttl_merges g = Some res
    \<and> (\<forall>choices. res = Inr choices \<longrightarrow> choices_ok ctx choices)
    \<and> (draws_ok L ctx \<and> stats_ok L ctx \<longrightarrow> (\<exists>choices. res = Inr choices))"
proof (cases "hasAnyTTL \<and> merge_with_ttl_allowed \<and> can_use_ttl_merges \<and> tryChooseTTLMerge L ctx \<noteq> []")
  case True
  then show ?thesis using ttl_merge_ok [OF assms(1)] by (simp add: chooseMergesFrom_def)
next
  case False
  let ?pack = "\<lambda>rs. Inr (pack ctx rs MergeRegular) :: merge_choice list result"
  have fit: "sums_fit (ctx_ranges ctx)" using assms(2) by (simp add: valid_input_def)
  obtain rs where t: "trivial_select (sort_desc L) (rng_value L g) (ctx_ranges ctx) (ctx_constraints ctx)
      (ctx_range_filter ctx) = Some (Inr rs)"
    using trivial_select_returns [of "sort_desc L" "ctx_ranges ctx" "rng_value L g"] assms
    unfolding lib_ok_def by (cases "ctx_constraints ctx") fastforce+
  have trivial: "choices_ok ctx (pack ctx rs MergeRegular)" by (rule trivial_merge_ok [OF assms t])
  have simple: "(\<forall>choices. bind_r (select_simple L ctx s g) ?pack = Inr choices \<longrightarrow> choices_ok ctx choices)
      \<and> (draws_ok L ctx \<and> stats_ok L ctx \<longrightarrow> (\<exists>choices. bind_r (select_simple L ctx s g) ?pack = Inr choices))"
    if "s = fillSimpleSettings (lib_doubles L) ctx
      \<or> s = fillSimpleStochasticSettings (lib_doubles L) ctx \<and> set_algorithm (ctx_settings ctx) = STOCHASTIC_SIMPLE" for s
    using simple_merge_ok [OF assms(1) fit _ assms(3), of s g] select_simple_returns [OF that _ _ assms(3), of g]
    by (cases "select_simple L ctx s g") auto
  have "chooseMergesFrom L ctx hasAnyTTL merge_with_ttl_allowed can_use_ttl_merges g = tryChooseRegularMerge L ctx g"
    using False by (auto simp: chooseMergesFrom_def)
  then show ?thesis
    using simple [of "fillSimpleSettings (lib_doubles L) ctx"] simple [of "fillSimpleStochasticSettings (lib_doubles L) ctx"] t trivial
    by (cases "set_algorithm (ctx_settings ctx)") (simp_all add: tryChooseRegularMerge_def)
qed

section \<open>An example\<close>

definition sample_lib :: "(int, unit) selector_lib" where
  "sample_lib = \<lparr>lib_doubles = fixed_point, pop_center = center_pop, pop_scored = least_score, sort_desc = stable_desc,
     rng_value = (\<lambda>_. 7)\<rparr>"

lemma sample_lib_ok: "lib_ok sample_lib"
  by (simp add: lib_ok_def sample_lib_def center_pop_ok least_score_heap stable_desc_ok)

definition sample_context :: "int choose_context" where
  "sample_context = \<lparr>ctx_ranges = [[ttl_part 50 1, ttl_part 40 1, ttl_part 300 1]],
     ctx_partitions_stats = (\<lambda>_. None), getPatchesToApplyOnMerge = (\<lambda>_. []), ctx_range_filter = None,
     ctx_constraints = [\<lparr>max_size_bytes = 10, max_size_rows = 10\<rparr>], hasAnyRecompressionTTL = False,
     ctx_settings = \<lparr>set_max_parts_to_merge_at_once = 100, set_blurry_base_scale_factor = 0, set_window_size = 1000,
       set_min_age_to_force_merge_on_partition_only = False, set_min_age_to_force_merge_seconds = 0,
       set_ttl_only_drop_parts = False, set_parts_to_throw_insert = 3000, set_algorithm = TRIVIAL,
       set_enable_remove_small_parts_at_right = True, set_enable_lower_max_parts = False,
       set_lower_max_parts_exponent = 5, set_base = 500, set_min_parts_to_merge_at_once = 0,
       set_apply_patches_on_merge = True\<rparr>,
     next_delete_times = (\<lambda>_. None), next_recompress_times = (\<lambda>_. None), ctx_current_time = 100, aggressive = False\<rparr>"

theorem chosen_merges_ok_witness:
  "\<exists>choices. chooseMergesFrom sample_lib sample_context True True True () = Some (Inr choices)
    \<and> choices_ok sample_context choices"
proof -
  have "valid_input (ctx_ranges sample_context)" "ctx_constraints sample_context \<noteq> []"
    by (simp_all add: sample_context_def valid_input_def sums_fit_def ttl_part_def size_max_def)
  moreover have "draws_ok sample_lib sample_context" "stats_ok sample_lib sample_context"
    by (simp_all add: draws_ok_def stats_ok_def sample_context_def)
  ultimately show ?thesis using chosen_merges_ok [OF sample_lib_ok, of sample_context True True True "()"] by auto
qed

text \<open>Here the two parts that have expired as a whole are dropped.\<close>

lemma sample_drop:
  "choose_ttl_drop sample_lib sample_context = [[ttl_part 50 1, ttl_part 40 1]]"
  by (simp add: choose_ttl_drop_def sample_context_def sample_lib_def unlimited_constraint_def size_max_def
      ttl_select_def findCenters_def centers_of_def needToPostponePartition_def TTLPartDropMergeSelector_def
      ttl_part_def center_pop_def buildMergeRange.simps buildRange_def grown_range_def isCovered_def
      DisjointPartsRangesSet_def findRightRangeBorder.simps can_grow_def canIncludeToRange_def take_part_def
      numeral_3_eq_3 accepts_def addRangeIfPossible_def disjoint_from_ranges_def up_to_def after_def
      insert_boundaries_def span_range_def parts_between_def Let_def)

end
