(* ===== verification/Queue_State.thy ===== *)
theory Queue_State
  imports Drop_Parts Alter_Sequence
begin

text \<open>
  The state of \<open>ReplicatedMergeTreeQueue\<close>: the queue of log entries of one replica, the sets of
  current and virtual parts, the parts being produced, and the mutations. Log entries are shared objects:
  the queue, the table of future parts and the executing tasks hold pointers to them. The objects are in a
  store from addresses to entries; the pointer of a mutation status is the key under which the status is
  stored. \<open>finalizing_scheduled\<close> is the request to run the task that finalizes mutations.
\<close>

section \<open>Entries\<close>

text \<open>
  Why an entry is postponed: one constructor for each message of \<open>shouldExecuteLogEntry\<close> and
  its callees.
\<close>

type_synonym entry_ptr = nat

datatype postpone_reason =
    RecentlyFailed nat
  | SamePartProcessed entry_ptr
  | NotDisjointExecuting string
  | NotDisjointNewer string
  | DropReplaceIntent part_info
  | AffectedByDropPart string
  | GoingToBeDropped part_info
  | FetchesOverloaded
  | LevelBelowMinimum nat
  | MergesCancelled
  | SourcePartNotReady string
  | ZeroCopyLocked string
  | OtherReplicaMerges string
  | UpdateNotCommitted int
  | PatchPartNotFetched part_info
  | TTLMergesCancelled
  | TooManyTTLMerges nat
  | PatchPartApplied string
  | SourcePartsTooLarge nat nat
  | OtherAlterFirst int
  | DatabaseForbidsAlter
  | MetadataNotAltered
  | DropRangeExecuting part_info
  | DependsOnReplaceRange entry_ptr
  | DropTriggerNotExecuted string

record queue_entry =
  log_data :: log_entry
  currently_executing :: bool
  removed_by_other_entry :: bool
  num_tries :: nat
  last_exception_time_ms :: nat
  last_attempt_time :: nat
  num_postponed :: nat
  postpone_reason :: "postpone_reason option"
  last_postpone_time :: nat
  actual_new_part_name :: string
  replace_range_actual_new_part_names :: "string list"

definition fresh_entry :: "log_entry \<Rightarrow> queue_entry" where
  "fresh_entry e = \<lparr>log_data = e, currently_executing = False, removed_by_other_entry = False, num_tries = 0,
     last_exception_time_ms = 0, last_attempt_time = 0, num_postponed = 0, postpone_reason = None,
     last_postpone_time = 0, actual_new_part_name = [], replace_range_actual_new_part_names = []\<rparr>"

section \<open>Mutations\<close>

text \<open>
  A mutation command is a class of the query analyser; only its type matters here. The types are
  those which the code tests, and all others.
\<close>

datatype command_type = DELETE | UPDATE | READ_COLUMN | DROP_COLUMN | RENAME_COLUMN | OtherCommand

record 'c mutation_command =
  command_type :: command_type
  command_body :: 'c

record 'c mutation_entry =
  mutation_znode :: string
  block_numbers :: "(string, int) ordered_map"
  commands :: "'c mutation_command list"
  mutation_alter_version :: int

definition isAlterMutationEntry :: "'c mutation_entry \<Rightarrow> bool" where
  "isAlterMutationEntry m \<longleftrightarrow> mutation_alter_version m \<noteq> - 1"

record 'c mutation_status =
  status_entry :: "'c mutation_entry"
  parts_to_do :: active_part_set
  parts_in_progress :: active_part_set
  is_done :: bool
  latest_failed_part :: string
  latest_failed_part_info :: part_info
  latest_fail_time :: nat
  latest_fail_reason :: string
  latest_fail_error_code_name :: string

definition empty_set :: "format_version \<Rightarrow> active_part_set" where
  "empty_set fv = \<lparr>set_format = fv, part_info_to_name = []\<rparr>"

definition MutationStatus :: "format_version \<Rightarrow> 'c mutation_entry \<Rightarrow> 'c mutation_status" where
  "MutationStatus fv m = \<lparr>status_entry = m, parts_to_do = empty_set fv, parts_in_progress = empty_set fv,
     is_done = False, latest_failed_part = [], latest_failed_part_info = default_info, latest_fail_time = 0,
     latest_fail_reason = [], latest_fail_error_code_name = []\<rparr>"

record mutation_counters =
  num_data :: int
  num_alter :: int
  num_metadata :: int

section \<open>The state\<close>

record 'c queue_state =
  queue_format :: format_version
  entries :: "entry_ptr \<Rightarrow> queue_entry option"
  queue :: "entry_ptr list"
  current_parts :: active_part_set
  virtual_parts :: active_part_set
  drop_parts :: drop_parts_ranges
  inserts_by_time :: "(nat \<times> entry_ptr, unit) ordered_map"
  min_unprocessed_insert_time :: nat
  max_processed_insert_time :: nat
  future_parts :: "(string, entry_ptr) ordered_map"
  currently_executing_drop_replace_ranges :: "part_info list"
  drop_replace_range_intents :: "part_info list"
  mutations_by_znode :: "(string, 'c mutation_status) ordered_map"
  mutations_by_partition :: "string \<Rightarrow> (int, string) ordered_map option"
  counters :: mutation_counters
  mutation_pointer :: string
  alter_sequence :: alters
  finalizing_scheduled :: bool

definition empty_queue :: "format_version \<Rightarrow> 'c queue_state" where
  "empty_queue fv = \<lparr>queue_format = fv, entries = (\<lambda>_. None), queue = [], current_parts = empty_set fv,
     virtual_parts = empty_set fv, drop_parts = \<lparr>ranges_format = fv, drop_ranges = []\<rparr>, inserts_by_time = [],
     min_unprocessed_insert_time = 0, max_processed_insert_time = 0, future_parts = [],
     currently_executing_drop_replace_ranges = [], drop_replace_range_intents = [], mutations_by_znode = [],
     mutations_by_partition = (\<lambda>_. None), counters = \<lparr>num_data = 0, num_alter = 0, num_metadata = 0\<rparr>,
     mutation_pointer = [], alter_sequence = [], finalizing_scheduled = False\<rparr>"

text \<open>Reading through a pointer; a dangling one is undefined.\<close>

definition deref :: "'c queue_state \<Rightarrow> entry_ptr \<Rightarrow> queue_entry result" where
  "deref q p = (case entries q p of None \<Rightarrow> Inl UB | Some e \<Rightarrow> Inr e)"

definition set_entry :: "entry_ptr \<Rightarrow> queue_entry \<Rightarrow> 'c queue_state \<Rightarrow> 'c queue_state" where
  "set_entry p e q = q\<lparr>entries := (entries q)(p \<mapsto> e)\<rparr>"

definition update_status ::
  "string \<Rightarrow> ('c mutation_status \<Rightarrow> 'c mutation_status result) \<Rightarrow> 'c queue_state \<Rightarrow> 'c queue_state result" where
  "update_status znode f q =
     (case map_of (mutations_by_znode q) znode of
        None \<Rightarrow> Inl UB
      | Some status \<Rightarrow>
          bind_r (f status) (\<lambda>status'. Inr (q\<lparr>mutations_by_znode := map_put znode status' (mutations_by_znode q)\<rparr>)))"

text \<open>
  A loop that updates the state and may throw. The state after an exception is not followed: the
  exception leaves the operation of the queue that caused it.
\<close>

fun fold_r :: "('a \<Rightarrow> 's \<Rightarrow> 's result) \<Rightarrow> 'a list \<Rightarrow> 's \<Rightarrow> 's result" where
  "fold_r f [] s = Inr s"
| "fold_r f (x # xs) s = bind_r (f x s) (fold_r f xs)"

definition keep :: "'a result \<times> 's \<Rightarrow> ('a \<times> 's) result" where
  "keep rs = (case rs of (Inl e, _) \<Rightarrow> Inl e | (Inr a, s) \<Rightarrow> Inr (a, s))"

text \<open>The operations of \<open>ActiveDataPartSet\<close> as the queue uses them, whose output vector is null.\<close>

definition add_part :: "text_io \<Rightarrow> string \<Rightarrow> active_part_set \<Rightarrow> (bool \<times> active_part_set) result" where
  "add_part io name s = bind_r (keep (add_name io name None s)) (\<lambda>((added, _), s'). Inr (added, s'))"

text \<open>
  \<open>upper_bound\<close> and \<open>lower_bound\<close> of a \<open>std::map\<close>: the entries from
  the iterator on.
\<close>

definition map_upper_bound :: "'k::linorder \<Rightarrow> ('k, 'v) ordered_map \<Rightarrow> ('k, 'v) ordered_map" where
  "map_upper_bound k m = dropWhile (\<lambda>e. fst e \<le> k) m"

definition map_lower_bound :: "'k::linorder \<Rightarrow> ('k, 'v) ordered_map \<Rightarrow> ('k, 'v) ordered_map" where
  "map_lower_bound k m = dropWhile (\<lambda>e. fst e < k) m"

text \<open>On an ordered map these are the entries above the key.\<close>

lemma map_upper_bound_filter: "map_ok m \<Longrightarrow> map_upper_bound k m = filter (\<lambda>e. k < fst e) m"
proof (induction m)
  case (Cons e m)
  show ?case
  proof (cases "fst e \<le> k")
    case False
    then have "\<forall>e' \<in> set m. k < fst e'" using Cons.prems by fastforce
    then show ?thesis using False by (simp add: map_upper_bound_def filter_id_conv)
  qed (use Cons in \<open>simp add: map_upper_bound_def\<close>)
qed (simp add: map_upper_bound_def)

lemma map_lower_bound_filter: "map_ok m \<Longrightarrow> map_lower_bound k m = filter (\<lambda>e. k \<le> fst e) m"
proof (induction m)
  case (Cons e m)
  show ?case
  proof (cases "fst e < k")
    case False
    then have "\<forall>e' \<in> set m. k \<le> fst e'" using Cons.prems by fastforce
    then show ?thesis using False by (simp add: map_lower_bound_def filter_id_conv)
  qed (use Cons in \<open>simp add: map_lower_bound_def\<close>)
qed (simp add: map_lower_bound_def)

text \<open>A loop keeps what each of its rounds keeps.\<close>

lemma fold_r_invariant:
  assumes "\<And>x s s'. x \<in> set xs \<Longrightarrow> P s \<Longrightarrow> f x s = Inr s' \<Longrightarrow> P s'" "P s" "fold_r f xs s = Inr s'"
  shows "P s'"
  using assms by (induction xs arbitrary: s) (auto simp: bind_r_Inr_iff)

lemma fold_r_append: "fold_r f (xs @ ys) s = bind_r (fold_r f xs s) (fold_r f ys)"
  by (induction xs arbitrary: s) (auto simp: bind_r_def split: sum.splits)

lemma bind_r_E:
  assumes "bind_r x f = Inr b"
  obtains a where "x = Inr a" "f a = Inr b"
  using assms by (auto simp: bind_r_Inr_iff)

lemma keep_Inr: "keep rs = Inr (a, s) \<longleftrightarrow> rs = (Inr a, s)"
  by (cases rs) (auto simp: keep_def split: sum.splits)

end
