(* ===== verification/Queue_Updates.thy ===== *)
theory Queue_Updates
  imports Queue_State
begin

text \<open>
  How entries enter and leave the queue (\<open>ReplicatedMergeTreeQueue.cpp\<close>): the parts they add to the
  virtual and current parts, the parts that mutations have to process, the times of inserts, the pending
  drops and the alters. A function returns the new state or the exception.
\<close>

section \<open>Parts of mutations\<close>

definition each_mutation ::
  "string \<Rightarrow> ((int, string) ordered_map \<Rightarrow> (int, string) ordered_map)
     \<Rightarrow> ('c mutation_status \<Rightarrow> 'c mutation_status result) \<Rightarrow> 'c queue_state \<Rightarrow> 'c queue_state result" where
  "each_mutation pid chosen f q =
     (case mutations_by_partition q pid of
        None \<Rightarrow> Inr q
      | Some in_partition \<Rightarrow> fold_r (\<lambda>it. update_status (snd it) f) (chosen in_partition) q)"

definition remove_from_parts_to_do ::
  "text_io \<Rightarrow> string \<Rightarrow> bool \<Rightarrow> bool \<Rightarrow> active_part_set \<Rightarrow> active_part_set result" where
  "remove_from_parts_to_do io part_name remove_part remove_covered_parts s =
     bind_r (if remove_part \<and> remove_covered_parts then keep (removePartAndCoveredParts_name io part_name s)
             else if remove_covered_parts then keep (removePartsCoveredBy io part_name s)
             else if remove_part then keep (remove_name io part_name s)
             else Inl LOGICAL_ERROR) (\<lambda>(_, s'). Inr s')"

definition forget_failure :: "part_info \<Rightarrow> 'c mutation_status \<Rightarrow> 'c mutation_status" where
  "forget_failure part_info status =
     (if latest_failed_part status \<noteq> [] \<and> contains part_info (latest_failed_part_info status)
      then status\<lparr>latest_failed_part := [], latest_failed_part_info := default_info, latest_fail_time := 0,
                  latest_fail_reason := [], latest_fail_error_code_name := []\<rparr>
      else status)"

definition remove_from_status ::
  "text_io \<Rightarrow> string \<Rightarrow> part_info \<Rightarrow> bool \<Rightarrow> bool \<Rightarrow> 'c mutation_status \<Rightarrow> 'c mutation_status result" where
  "remove_from_status io part_name part_info remove_part remove_covered_parts status =
     bind_r (remove_from_parts_to_do io part_name remove_part remove_covered_parts (parts_to_do status)) (\<lambda>s.
       Inr (forget_failure part_info (status\<lparr>parts_to_do := s\<rparr>)))"

text \<open>Whether some mutation of the partition has no part left, which is when the finalizing task is scheduled.\<close>

definition some_probably_done :: "string \<Rightarrow> 'c queue_state \<Rightarrow> bool" where
  "some_probably_done pid q =
     (case mutations_by_partition q pid of
        None \<Rightarrow> False
      | Some in_partition \<Rightarrow> list_ex (\<lambda>it. case map_of (mutations_by_znode q) (snd it) of
            None \<Rightarrow> False | Some status \<Rightarrow> set_size (parts_to_do status) = 0) in_partition)"

definition removeCoveredPartsFromMutations ::
  "text_io \<Rightarrow> string \<Rightarrow> bool \<Rightarrow> bool \<Rightarrow> 'c queue_state \<Rightarrow> 'c queue_state result" where
  "removeCoveredPartsFromMutations io part_name remove_part remove_covered_parts q =
     bind_r (fromPartName io part_name (queue_format q)) (\<lambda>part_info.
     bind_r (each_mutation (partition_id part_info) (\<lambda>m. m)
               (remove_from_status io part_name part_info remove_part remove_covered_parts) q) (\<lambda>q.
       Inr (if some_probably_done (partition_id part_info) q then q\<lparr>finalizing_scheduled := True\<rparr> else q)))"

definition add_to_do :: "text_io \<Rightarrow> string \<Rightarrow> 'c mutation_status \<Rightarrow> 'c mutation_status result" where
  "add_to_do io part_name status =
     bind_r (add_part io part_name (parts_to_do status)) (\<lambda>(_, s). Inr (status\<lparr>parts_to_do := s\<rparr>))"

definition addPartToMutations :: "text_io \<Rightarrow> string \<Rightarrow> part_info \<Rightarrow> 'c queue_state \<Rightarrow> 'c queue_state result" where
  "addPartToMutations io part_name part_info q =
     each_mutation (partition_id part_info) (map_upper_bound (getDataVersion part_info)) (add_to_do io part_name) q"

text \<open>
  The entries from \<open>from_it\<close> to \<open>to_it\<close>, both upper bounds in the same map. The
  new part of a mutation has no lower version than its source, so that \<open>to_it\<close> does not come
  before \<open>from_it\<close>.
\<close>

definition versions_between :: "int \<Rightarrow> int \<Rightarrow> (int, string) ordered_map \<Rightarrow> (int, string) ordered_map" where
  "versions_between lo hi m = takeWhile (\<lambda>it. fst it \<le> hi) (map_upper_bound lo m)"

definition addPartInProgressToMutations ::
  "text_io \<Rightarrow> string \<Rightarrow> part_info \<Rightarrow> part_info \<Rightarrow> 'c queue_state \<Rightarrow> 'c queue_state result" where
  "addPartInProgressToMutations io part_name part_info new_part_info q =
     each_mutation (partition_id part_info)
       (versions_between (getDataVersion part_info) (getMutationVersion new_part_info))
       (\<lambda>status. bind_r (add_part io part_name (parts_in_progress status)) (\<lambda>(_, s).
          Inr (status\<lparr>parts_in_progress := s\<rparr>))) q"

definition removePartInProgressFromMutations ::
  "text_io \<Rightarrow> string \<Rightarrow> part_info \<Rightarrow> part_info \<Rightarrow> 'c queue_state \<Rightarrow> 'c queue_state result" where
  "removePartInProgressFromMutations io part_name part_info new_part_info q =
     each_mutation (partition_id part_info)
       (versions_between (getDataVersion part_info) (getMutationVersion new_part_info))
       (\<lambda>status. bind_r (keep (remove_name io part_name (parts_in_progress status))) (\<lambda>(_, s).
          Inr (status\<lparr>parts_in_progress := s\<rparr>))) q"

text \<open>
  The operation on the source part of a \<open>MUTATE_PART\<close> entry; \<open>source_parts.at(0)\<close>
  throws when empty.
\<close>

definition for_mutated_part ::
  "(string \<Rightarrow> part_info \<Rightarrow> part_info \<Rightarrow> 'c queue_state \<Rightarrow> 'c queue_state result) \<Rightarrow> text_io \<Rightarrow> log_entry
     \<Rightarrow> 'c queue_state \<Rightarrow> 'c queue_state result" where
  "for_mutated_part f io e q =
     (if entry_type e \<noteq> MUTATE_PART then Inr q
      else case source_parts e of
             [] \<Rightarrow> Inl STD_OUT_OF_RANGE
           | source_part_name # _ \<Rightarrow>
               bind_r (fromPartName io source_part_name (queue_format q)) (\<lambda>part_info.
               bind_r (fromPartName io (new_part_name e) (queue_format q)) (\<lambda>new_part_info.
                 f source_part_name part_info new_part_info q)))"

section \<open>Insertion\<close>

definition insert_virtual_part :: "text_io \<Rightarrow> string \<Rightarrow> 'c queue_state \<Rightarrow> 'c queue_state result" where
  "insert_virtual_part io virtual_part_name q =
     bind_r (add_part io virtual_part_name (virtual_parts q)) (\<lambda>(_, s).
     bind_r (fromPartName io virtual_part_name (queue_format q)) (\<lambda>part_info.
       if isFakeDropRangePart part_info then Inr (q\<lparr>virtual_parts := s\<rparr>)
       else addPartToMutations io virtual_part_name part_info (q\<lparr>virtual_parts := s\<rparr>)))"

definition insert_drop_part :: "text_io \<Rightarrow> log_entry \<Rightarrow> 'c queue_state \<Rightarrow> 'c queue_state result" where
  "insert_drop_part io e q =
     (if entry_type e \<noteq> DROP_PART then Inr q
      else bind_r (addDropPart io e (drop_parts q)) (\<lambda>d.
           bind_r (getDropRange io (queue_format q) e) (\<lambda>drop_range.
             case drop_range of
               None \<Rightarrow> Inl UB
             | Some drop_part_name \<Rightarrow>
                 bind_r (keep (removePartAndCoveredParts_name io drop_part_name (virtual_parts q))) (\<lambda>(_, s).
                   removeCoveredPartsFromMutations io drop_part_name True True
                     (q\<lparr>drop_parts := d, virtual_parts := s\<rparr>)))))"

definition is_insert :: "log_entry \<Rightarrow> bool" where
  "is_insert e \<longleftrightarrow> entry_type e = GET_PART \<or> entry_type e = ATTACH_PART"

text \<open>The first component is the output argument \<open>min_unprocessed_insert_time_changed\<close>.\<close>

definition note_insert :: "entry_ptr \<Rightarrow> log_entry \<Rightarrow> nat option \<times> 'c queue_state \<Rightarrow> nat option \<times> 'c queue_state" where
  "note_insert p e cq =
     (if \<not> is_insert e then cq
      else let (changed, q) = cq;
               q = q\<lparr>inserts_by_time := map_put (create_time e, p) () (inserts_by_time q)\<rparr>
           in if create_time e \<noteq> 0
                 \<and> (min_unprocessed_insert_time q = 0 \<or> create_time e < min_unprocessed_insert_time q)
              then (Some (create_time e), q\<lparr>min_unprocessed_insert_time := create_time e\<rparr>)
              else (changed, q))"

definition enqueue :: "text_io \<Rightarrow> entry_ptr \<Rightarrow> log_entry \<Rightarrow> 'c queue_state \<Rightarrow> 'c queue_state result" where
  "enqueue io p e q =
     bind_r (getDropRange io (queue_format q) e) (\<lambda>drop_range.
       Inr (if drop_range \<noteq> None then q\<lparr>queue := p # queue q\<rparr> else q\<lparr>queue := queue q @ [p]\<rparr>))"

definition note_alter :: "log_entry \<Rightarrow> 'c queue_state \<Rightarrow> 'c queue_state" where
  "note_alter e q =
     (if entry_type e = ALTER_METADATA
      then q\<lparr>alter_sequence := addMetadataAlter (alter_version e) (alter_sequence q)\<rparr> else q)"

definition insertUnlocked ::
  "text_io \<Rightarrow> entry_ptr \<Rightarrow> nat option \<times> 'c queue_state \<Rightarrow> (nat option \<times> 'c queue_state) result" where
  "insertUnlocked io p cq =
     (let (changed, q) = cq in
      bind_r (deref q p) (\<lambda>qe. let e = log_data qe in
      bind_r (getVirtualPartNames io (queue_format q) e) (\<lambda>entry_virtual_parts.
      bind_r (fold_r (insert_virtual_part io) entry_virtual_parts q) (\<lambda>q.
      bind_r (for_mutated_part (addPartInProgressToMutations io) io e q) (\<lambda>q.
      bind_r (insert_drop_part io e q) (\<lambda>q.
      bind_r (enqueue io p e q) (\<lambda>q.
        let (changed, q) = note_insert p e (changed, q)
        in Inr (changed, note_alter e q))))))))"

text \<open>
  \<open>clear\<close>, \<open>initialize\<close> with the parts that ZooKeeper lists, and
  \<open>load\<close> with the entries it has, parsed and in the order of their nodes, each with the address
  of its object.
\<close>

definition queue_clear :: "'c queue_state \<Rightarrow> 'c queue_state" where
  "queue_clear q = q\<lparr>current_parts := set_clear (current_parts q), virtual_parts := set_clear (virtual_parts q),
     queue := [], inserts_by_time := [], mutations_by_znode := [], mutations_by_partition := (\<lambda>_. None),
     mutation_pointer := [], counters := \<lparr>num_data = 0, num_alter = 0, num_metadata = 0\<rparr>\<rparr>"

definition initialize_part :: "text_io \<Rightarrow> string \<Rightarrow> 'c queue_state \<Rightarrow> 'c queue_state result" where
  "initialize_part io part_name q =
     bind_r (add_part io part_name (current_parts q)) (\<lambda>(_, c).
     bind_r (add_part io part_name (virtual_parts q)) (\<lambda>(_, v).
       Inr (q\<lparr>current_parts := c, virtual_parts := v\<rparr>)))"

definition initialize :: "text_io \<Rightarrow> string list \<Rightarrow> 'c queue_state \<Rightarrow> 'c queue_state result" where
  "initialize io parts q = fold_r (initialize_part io) parts (queue_clear q)"

definition load_entry ::
  "text_io \<Rightarrow> entry_ptr \<times> log_entry \<Rightarrow> nat option \<times> 'c queue_state \<Rightarrow> (nat option \<times> 'c queue_state) result" where
  "load_entry io pe cq =
     (let (p, e) = pe; (changed, q) = cq in insertUnlocked io p (changed, set_entry p (fresh_entry e) q))"

definition load ::
  "text_io \<Rightarrow> (entry_ptr \<times> log_entry) list \<Rightarrow> string option \<Rightarrow> 'c queue_state
     \<Rightarrow> (nat option \<times> 'c queue_state) result" where
  "load io found zk_mutation_pointer q =
     (let already_loaded = map (\<lambda>p. map_option (znode_name \<circ> log_data) (entries q p)) (queue q);
          to_load = filter (\<lambda>pe. Some (znode_name (snd pe)) \<notin> set already_loaded) found
      in bind_r (fold_r (load_entry io) to_load (None, q)) (\<lambda>(changed, q).
           Inr (changed, case zk_mutation_pointer of
                           None \<Rightarrow> q | Some znode \<Rightarrow> q\<lparr>mutation_pointer := znode\<rparr>)))"

section \<open>Removal\<close>

text \<open>The output arguments are the changed times: the least unprocessed and the greatest processed.\<close>

type_synonym 'c timed = "nat option \<times> nat option \<times> 'c queue_state"

definition remove_insert_time :: "entry_ptr \<Rightarrow> log_entry \<Rightarrow> 'c timed \<Rightarrow> 'c timed" where
  "remove_insert_time p e cq =
     (if \<not> is_insert e then cq
      else let (min_changed, max_changed, q) = cq;
               q = q\<lparr>inserts_by_time := map_erase (create_time e, p) (inserts_by_time q)\<rparr>;
               (min_changed, q) =
                 (case inserts_by_time q of
                    [] \<Rightarrow> (Some 0, q\<lparr>min_unprocessed_insert_time := 0\<rparr>)
                  | first # _ \<Rightarrow>
                      if fst (fst first) > min_unprocessed_insert_time q
                      then (Some (fst (fst first)), q\<lparr>min_unprocessed_insert_time := fst (fst first)\<rparr>)
                      else (min_changed, q))
           in if create_time e > max_processed_insert_time q
              then (min_changed, Some (create_time e), q\<lparr>max_processed_insert_time := create_time e\<rparr>)
              else (min_changed, max_changed, q))"

definition add_current_part :: "text_io \<Rightarrow> string \<Rightarrow> 'c queue_state \<Rightarrow> 'c queue_state result" where
  "add_current_part io virtual_part_name q =
     bind_r (add_part io virtual_part_name (current_parts q)) (\<lambda>(added, s).
       removeCoveredPartsFromMutations io virtual_part_name (\<not> added) True (q\<lparr>current_parts := s\<rparr>))"

definition finish_drop_range :: "text_io \<Rightarrow> log_entry \<Rightarrow> 'c queue_state \<Rightarrow> 'c queue_state result" where
  "finish_drop_range io e q =
     bind_r (getDropRange io (queue_format q) e) (\<lambda>drop_range.
       case drop_range of
         None \<Rightarrow> Inr q
       | Some name \<Rightarrow>
           if entry_type e = DROP_PART then
             bind_r (keep (removePartAndCoveredParts_name io name (current_parts q))) (\<lambda>(_, s).
             bind_r (removeDropPart e (drop_parts q)) (\<lambda>d.
               Inr (q\<lparr>current_parts := s, drop_parts := d\<rparr>)))
           else
             bind_r (keep (remove_name io name (current_parts q))) (\<lambda>(_, c).
             bind_r (keep (remove_name io name (virtual_parts q))) (\<lambda>(_, v).
               Inr (q\<lparr>current_parts := c, virtual_parts := v\<rparr>))))"

definition remove_successful ::
  "text_io \<Rightarrow> queue_entry \<Rightarrow> string list \<Rightarrow> 'c queue_state \<Rightarrow> 'c queue_state result" where
  "remove_successful io qe entry_virtual_parts q =
     (let e = log_data qe in
      bind_r (if actual_new_part_name qe \<noteq> []
              then removeCoveredPartsFromMutations io (actual_new_part_name qe) False True q else Inr q) (\<lambda>q.
      bind_r (fold_r (\<lambda>name. removeCoveredPartsFromMutations io name False True)
                (replace_range_actual_new_part_names qe) q) (\<lambda>q.
      bind_r (fold_r (add_current_part io) entry_virtual_parts q) (\<lambda>q.
      bind_r (finish_drop_range io e q) (\<lambda>q.
        let q = (if entry_type e = ALTER_METADATA
                 then q\<lparr>alter_sequence := finishMetadataAlter (alter_version e) (alter_sequence q)\<rparr> else q)
        in for_mutated_part (removePartInProgressFromMutations io) io e q)))))"

definition forget_virtual_part :: "text_io \<Rightarrow> string \<Rightarrow> 'c queue_state \<Rightarrow> 'c queue_state result" where
  "forget_virtual_part io virtual_part_name q =
     bind_r (keep (remove_name io virtual_part_name (virtual_parts q))) (\<lambda>(_, s).
       removeCoveredPartsFromMutations io virtual_part_name True False (q\<lparr>virtual_parts := s\<rparr>))"

definition remove_unsuccessful ::
  "text_io \<Rightarrow> log_entry \<Rightarrow> string list \<Rightarrow> 'c queue_state \<Rightarrow> 'c queue_state result" where
  "remove_unsuccessful io e entry_virtual_parts q =
     bind_r (if entry_type e = DROP_PART
             then bind_r (removeDropPart e (drop_parts q)) (\<lambda>d. Inr (q\<lparr>drop_parts := d\<rparr>)) else Inr q) (\<lambda>q.
       fold_r (forget_virtual_part io) entry_virtual_parts q)"

definition updateStateOnQueueEntryRemoval ::
  "text_io \<Rightarrow> entry_ptr \<Rightarrow> bool \<Rightarrow> 'c timed \<Rightarrow> 'c timed result" where
  "updateStateOnQueueEntryRemoval io p is_successful cq =
     bind_r (deref (snd (snd cq)) p) (\<lambda>qe. let e = log_data qe in
     bind_r (getVirtualPartNames io (queue_format (snd (snd cq))) e) (\<lambda>entry_virtual_parts.
       let (min_changed, max_changed, q) = remove_insert_time p e cq
       in bind_r (if is_successful then remove_successful io qe entry_virtual_parts q
                  else remove_unsuccessful io e entry_virtual_parts q) (\<lambda>q.
            Inr (min_changed, max_changed, q))))"

text \<open>
  \<open>removeProcessedEntry\<close>: the queue is searched from its end. Removing the node from ZooKeeper and
  updating the times there is not modelled; the result holds the times to write, if any.
\<close>

definition erase_last :: "'a \<Rightarrow> 'a list \<Rightarrow> 'a list" where
  "erase_last x xs = rev (remove1 x (rev xs))"

definition removeProcessedEntry :: "text_io \<Rightarrow> entry_ptr \<Rightarrow> 'c queue_state \<Rightarrow> 'c timed result" where
  "removeProcessedEntry io p q =
     bind_r (deref q p) (\<lambda>qe.
       if removed_by_other_entry qe then Inr (None, None, q)
       else if p \<notin> set (queue q) then Inl LOGICAL_ERROR
       else bind_r (updateStateOnQueueEntryRemoval io p True (None, None, q)) (\<lambda>(min_changed, max_changed, q).
              Inr (min_changed, max_changed, q\<lparr>queue := erase_last p (queue q)\<rparr>)))"

definition removeFailedQuorumPart :: "part_info \<Rightarrow> 'c queue_state \<Rightarrow> bool \<times> 'c queue_state" where
  "removeFailedQuorumPart part_info q =
     (let (removed, s) = remove_info part_info (virtual_parts q) in (removed, q\<lparr>virtual_parts := s\<rparr>))"

definition removeCurrentPartsFromMutations :: "text_io \<Rightarrow> 'c queue_state \<Rightarrow> 'c queue_state result" where
  "removeCurrentPartsFromMutations io q =
     fold_r (\<lambda>part_name. removeCoveredPartsFromMutations io part_name False True) (getParts (current_parts q)) q"

section \<open>Queries\<close>

definition isVirtualPart :: "part_info \<Rightarrow> string \<Rightarrow> 'c queue_state \<Rightarrow> bool" where
  "isVirtualPart info name q =
     (let virtual_part_name = getContainingPart info (virtual_parts q)
      in virtual_part_name \<noteq> [] \<and> virtual_part_name \<noteq> name)"

text \<open>\<open>None\<close>: not going to be dropped; otherwise the drop range written to the output argument.\<close>

definition isGoingToBeDroppedImpl :: "text_io \<Rightarrow> part_info \<Rightarrow> 'c queue_state \<Rightarrow> part_info option result" where
  "isGoingToBeDroppedImpl io part_info q =
     (let covering_virtual = getContainingPart part_info (virtual_parts q) in
      if covering_virtual = [] then Inr (hasDropPart part_info (drop_parts q))
      else bind_r (fromPartName io covering_virtual (queue_format q)) (\<lambda>covering_virtual_info.
             if isFakeDropRangePart covering_virtual_info then Inr (Some covering_virtual_info)
             else Inr (hasDropPart part_info (drop_parts q))))"

fun sources_in_queue :: "'c queue_state \<Rightarrow> string \<Rightarrow> entry_ptr list \<Rightarrow> string list \<times> bool \<Rightarrow> (string list \<times> bool) result" where
  "sources_in_queue q part_name [] acc = Inr acc"
| "sources_in_queue q part_name (p # ps) acc =
     bind_r (deref q p) (\<lambda>qe.
       sources_in_queue q part_name ps
         (if new_part_name (log_data qe) = part_name \<and> length (source_parts (log_data qe)) > length (fst acc)
          then (source_parts (log_data qe), True) else acc))"

definition checkPartInQueueAndGetSourceParts ::
  "string \<Rightarrow> string list \<Rightarrow> 'c queue_state \<Rightarrow> (string list \<times> bool) result" where
  "checkPartInQueueAndGetSourceParts part_name source_parts_out q =
     sources_in_queue q part_name (queue q) (source_parts_out, False)"

end
