(* ===== verification/Queue_Execution.thy ===== *)
theory Queue_Execution
  imports Queue_Updates
begin

text \<open>
  Which entry of the queue is executed next (\<open>selectEntryToProcess\<close>,
  \<open>shouldExecuteLogEntry\<close> and its callees), the table of the parts being produced that keeps
  concurrent executions apart (\<open>CurrentlyExecuting\<close>), and the operations by which an entry
  removes or overtakes others.
\<close>

section \<open>What is asked outside the queue\<close>

datatype committing_op = UnknownOp | NewPartOp | UpdateOp | MutationOp

text \<open>Blocks with a number but not in the log yet, by partition, in the order of their numbers.\<close>

type_synonym committing_blocks = "string \<Rightarrow> (int \<times> committing_op) list option"

record exec_env =
  max_postpone_fetch_ms :: nat
  max_postpone_mutation_ms :: nat
  max_postpone_merge_ms :: nat
  max_postpone_task_ms :: nat
  now_ms :: nat
  now_s :: nat
  can_execute_fetch :: "log_entry \<Rightarrow> bool"
  min_part_level :: nat
  min_part_level_timeout :: nat
  merges_cancelled :: bool
  ttl_merges_cancelled :: bool
  part_bytes :: "string \<Rightarrow> (nat \<times> nat) option"
  allow_zero_copy :: bool
  zero_copy_disk :: bool
  zero_copy_lock :: "string \<Rightarrow> string option"
  merge_on_single_replica :: "log_entry \<Rightarrow> bool"
  pick_replica :: "log_entry \<Rightarrow> string option"
  merge_finished :: "string \<Rightarrow> log_entry \<Rightarrow> bool"
  supports_lightweight_update :: bool
  max_merge_bytes :: nat
  max_mutation_bytes :: nat
  max_bytes_at_max_space :: nat
  merges_with_ttl :: nat
  max_merges_with_ttl :: nat
  database_allows_alter :: bool

text \<open>Checks in turn: the first reason found ends them. \<open>None\<close> stands for no objection.\<close>

definition first_reason ::
  "postpone_reason option result \<Rightarrow> postpone_reason option result \<Rightarrow> postpone_reason option result" where
  "first_reason a b = bind_r a (\<lambda>r. case r of Some x \<Rightarrow> Inr (Some x) | None \<Rightarrow> b)"

fun find_reason :: "('a \<Rightarrow> postpone_reason option result) \<Rightarrow> 'a list \<Rightarrow> postpone_reason option result" where
  "find_reason f [] = Inr None"
| "find_reason f (x # xs) = first_reason (f x) (find_reason f xs)"

section \<open>The checks\<close>

definition getPostponeTimeMsForEntry :: "exec_env \<Rightarrow> queue_entry \<Rightarrow> nat" where
  "getPostponeTimeMsForEntry env qe =
     (let bound = (case entry_type (log_data qe) of
                     GET_PART \<Rightarrow> max_postpone_fetch_ms env
                   | MUTATE_PART \<Rightarrow> max_postpone_mutation_ms env
                   | MERGE_PARTS \<Rightarrow> max_postpone_merge_ms env
                   | _ \<Rightarrow> max_postpone_task_ms env)
      in if bound = 0 then 0
         else let postpone_time_ms = min (2 ^ min (num_tries qe) 63) bound;
                  next_min_allowed_time_ms = add64 (last_exception_time_ms qe) postpone_time_ms
              in if now_ms env \<ge> next_min_allowed_time_ms then 0
                 else sub64 next_min_allowed_time_ms (now_ms env))"

text \<open>
  The walk over the future parts. With \<open>wait\<close> the entries of parts that are not disjoint are
  collected to be waited for, unless they are newer than the entry itself.
\<close>

fun walk_future ::
  "text_io \<Rightarrow> 'c queue_state \<Rightarrow> log_entry \<Rightarrow> part_info \<Rightarrow> bool \<Rightarrow> (string \<times> entry_ptr) list \<Rightarrow> entry_ptr list
     \<Rightarrow> (postpone_reason option \<times> entry_ptr list) result" where
  "walk_future io q e result_part wait [] acc = Inr (None, acc)"
| "walk_future io q e result_part wait ((name, p) # fs) acc =
     bind_r (fromPartName io name (queue_format q)) (\<lambda>future_part.
       if isDisjoint future_part result_part then walk_future io q e result_part wait fs acc
       else if isFakeDropRangePart result_part \<and> contains result_part future_part
       then walk_future io q e result_part wait fs acc
       else if wait then
         bind_r (deref q p) (\<lambda>other.
           if znode_name e < znode_name (log_data other) then Inr (Some (NotDisjointNewer name), acc)
           else walk_future io q e result_part wait fs (acc @ [p]))
       else Inr (Some (NotDisjointExecuting name), acc))"

definition isCoveredByFuturePartsImpl ::
  "text_io \<Rightarrow> 'c queue_state \<Rightarrow> log_entry \<Rightarrow> bool \<Rightarrow> string \<Rightarrow> (postpone_reason option \<times> entry_ptr list) result" where
  "isCoveredByFuturePartsImpl io q e wait new_name =
     (case map_of (future_parts q) new_name of
        Some another \<Rightarrow> Inr (Some (SamePartProcessed another), [])
      | None \<Rightarrow>
          bind_r (fromPartName io new_name (queue_format q)) (\<lambda>result_part.
            walk_future io q e result_part wait (future_parts q) []))"

definition isIntersectingWithDropReplaceIntent ::
  "text_io \<Rightarrow> 'c queue_state \<Rightarrow> string \<Rightarrow> postpone_reason option result" where
  "isIntersectingWithDropReplaceIntent io q part_name =
     bind_r (fromPartName io part_name (queue_format q)) (\<lambda>part_info.
       Inr (map_option DropReplaceIntent
              (find (\<lambda>intent. \<not> isDisjoint intent part_info) (drop_replace_range_intents q))))"

definition check_virtual_part :: "text_io \<Rightarrow> 'c queue_state \<Rightarrow> log_entry \<Rightarrow> string \<Rightarrow> postpone_reason option result" where
  "check_virtual_part io q e name =
     first_reason (bind_r (isCoveredByFuturePartsImpl io q e False name) (\<lambda>(r, _). Inr r))
                  (isIntersectingWithDropReplaceIntent io q name)"

definition check_virtual_parts :: "text_io \<Rightarrow> 'c queue_state \<Rightarrow> log_entry \<Rightarrow> postpone_reason option result" where
  "check_virtual_parts io q e =
     bind_r (getVirtualPartNames io (queue_format q) e) (find_reason (check_virtual_part io q e))"

definition check_drop_parts :: "text_io \<Rightarrow> 'c queue_state \<Rightarrow> log_entry \<Rightarrow> postpone_reason option result" where
  "check_drop_parts io q e =
     (if entry_type e = DROP_RANGE \<or> entry_type e = DROP_PART then Inr None
      else bind_r (isAffectedByDropPart_entry io e (drop_parts q)) (\<lambda>(affected, reason).
             Inr (if affected then Some (AffectedByDropPart (case reason of Some s \<Rightarrow> s | None \<Rightarrow> [])) else None)))"

definition check_going_to_be_dropped :: "text_io \<Rightarrow> 'c queue_state \<Rightarrow> log_entry \<Rightarrow> postpone_reason option result" where
  "check_going_to_be_dropped io q e =
     (if new_part_name e = [] then Inr None
      else bind_r (fromPartName io (new_part_name e) (queue_format q)) (\<lambda>new_part_info.
             if entry_type e = DROP_PART \<or> isFakeDropRangePart new_part_info then Inr None
             else bind_r (isGoingToBeDroppedImpl io new_part_info q) (\<lambda>drop_info.
                    Inr (map_option GoingToBeDropped drop_info))))"

definition check_fetch :: "text_io \<Rightarrow> exec_env \<Rightarrow> 'c queue_state \<Rightarrow> log_entry \<Rightarrow> postpone_reason option result" where
  "check_fetch io env q e =
     (if is_insert e \<and> \<not> can_execute_fetch env e then Inr (Some FetchesOverloaded)
      else if entry_type e = GET_PART \<and> new_part_name e \<noteq> [] \<and> min_part_level env > 0
      then bind_r (fromPartName io (new_part_name e) (queue_format q)) (\<lambda>part_info.
             if level part_info < min_part_level env
                \<and> (min_part_level_timeout env = 0
                   \<or> create_time e > 0 \<and> now_s env - create_time e < min_part_level_timeout env)
             then Inr (Some (LevelBelowMinimum (level part_info))) else Inr None)
      else Inr None)"

fun source_bytes ::
  "exec_env \<Rightarrow> 'c queue_state \<Rightarrow> bool \<Rightarrow> string list \<Rightarrow> nat \<Rightarrow> postpone_reason + nat" where
  "source_bytes env q is_merge [] acc = Inr acc"
| "source_bytes env q is_merge (name # names) acc =
     (if map_of (future_parts q) name \<noteq> None then Inl (SourcePartNotReady name)
      else source_bytes env q is_merge names
             (case part_bytes env name of
                None \<Rightarrow> acc
              | Some (existing, on_disk) \<Rightarrow> add64 acc (if is_merge then existing else on_disk)))"

definition check_zero_copy :: "exec_env \<Rightarrow> log_entry \<Rightarrow> postpone_reason option" where
  "check_zero_copy env e =
     (if allow_zero_copy env \<and> zero_copy_disk env
      then map_option ZeroCopyLocked (zero_copy_lock env (new_part_name e)) else None)"

definition check_single_replica :: "exec_env \<Rightarrow> log_entry \<Rightarrow> postpone_reason option" where
  "check_single_replica env e =
     (if merge_on_single_replica env e
      then (case pick_replica env e of
              Some replica \<Rightarrow> if \<not> merge_finished env replica e then Some (OtherReplicaMerges replica) else None
            | None \<Rightarrow> None)
      else None)"

fun pending_update :: "int \<Rightarrow> (int \<times> committing_op) list \<Rightarrow> postpone_reason option" where
  "pending_update data_version [] = None"
| "pending_update data_version ((number, op) # bs) =
     (if number > data_version then None
      else if op = UpdateOp then Some (UpdateNotCommitted number)
      else pending_update data_version bs)"

definition pending_patch_fetch ::
  "text_io \<Rightarrow> 'c queue_state \<Rightarrow> int \<Rightarrow> entry_ptr \<Rightarrow> postpone_reason option result" where
  "pending_patch_fetch io q data_version p =
     bind_r (deref q p) (\<lambda>fetch_entry.
       if entry_type (log_data fetch_entry) \<noteq> GET_PART then Inr None
       else bind_r (fromPartName io (new_part_name (log_data fetch_entry)) (queue_format q)) (\<lambda>fetch_part_info.
              Inr (if isPatch fetch_part_info \<and> getDataVersion fetch_part_info < data_version
                   then Some (PatchPartNotFetched fetch_part_info) else None)))"

definition havePendingPatchPartsForMutation ::
  "text_io \<Rightarrow> exec_env \<Rightarrow> committing_blocks \<Rightarrow> 'c queue_state \<Rightarrow> log_entry \<Rightarrow> postpone_reason option result" where
  "havePendingPatchPartsForMutation io env blocks q e =
     (if entry_type e \<noteq> MUTATE_PART \<or> \<not> supports_lightweight_update env then Inr None
      else bind_r (fromPartName io (new_part_name e) (queue_format q)) (\<lambda>new_part_info.
             first_reason
               (Inr (case blocks (partition_id new_part_info) of
                       None \<Rightarrow> None | Some bs \<Rightarrow> pending_update (getDataVersion new_part_info) bs))
               (find_reason (pending_patch_fetch io q (getDataVersion new_part_info)) (queue q))))"

definition patch_applied_by :: "'c queue_state \<Rightarrow> string list \<Rightarrow> entry_ptr \<Rightarrow> postpone_reason option result" where
  "patch_applied_by q sources p =
     bind_r (deref q p) (\<lambda>merge_entry.
       if entry_type (log_data merge_entry) \<noteq> MERGE_PARTS then Inr None
       else Inr (map_option PatchPartApplied (find (\<lambda>patch. patch \<in> set sources) (patch_parts (log_data merge_entry)))))"

definition isMergeOfPatchPartsBlocked ::
  "text_io \<Rightarrow> exec_env \<Rightarrow> 'c queue_state \<Rightarrow> log_entry \<Rightarrow> postpone_reason option result" where
  "isMergeOfPatchPartsBlocked io env q e =
     (if entry_type e \<noteq> MERGE_PARTS \<or> \<not> supports_lightweight_update env then Inr None
      else bind_r (fromPartName io (new_part_name e) (queue_format q)) (\<lambda>new_part_info.
             if \<not> isPatch new_part_info then Inr None
             else find_reason (patch_applied_by q (source_parts e)) (queue q)))"

definition check_sizes ::
  "text_io \<Rightarrow> exec_env \<Rightarrow> 'c queue_state \<Rightarrow> log_entry \<Rightarrow> nat \<Rightarrow> postpone_reason option result" where
  "check_sizes io env q e total_bytes =
     (let is_merge = (entry_type e = MERGE_PARTS);
          max_source_parts_size = (if is_merge then max_merge_bytes env else max_mutation_bytes env);
          ignore_max_size = (is_merge \<and> max_source_parts_size = max_bytes_at_max_space env)
      in first_reason
           (if \<not> is_merge then Inr None
            else if isTTLMergeType (merge_type e) \<and> ttl_merges_cancelled env then Inr (Some TTLMergesCancelled)
            else if isTTLMergeType (merge_type e) \<and> merges_with_ttl env \<ge> max_merges_with_ttl env
            then Inr (Some (TooManyTTLMerges (merges_with_ttl env)))
            else isMergeOfPatchPartsBlocked io env q e)
           (Inr (if \<not> ignore_max_size \<and> total_bytes > max_source_parts_size
                 then Some (SourcePartsTooLarge total_bytes max_source_parts_size) else None)))"

definition check_merge_or_mutation ::
  "text_io \<Rightarrow> exec_env \<Rightarrow> committing_blocks \<Rightarrow> 'c queue_state \<Rightarrow> log_entry \<Rightarrow> postpone_reason option result" where
  "check_merge_or_mutation io env blocks q e =
     (if entry_type e \<noteq> MERGE_PARTS \<and> entry_type e \<noteq> MUTATE_PART then Inr None
      else if merges_cancelled env then Inr (Some MergesCancelled)
      else case source_bytes env q (entry_type e = MERGE_PARTS) (source_parts e) 0 of
             Inl r \<Rightarrow> Inr (Some r)
           | Inr total_bytes \<Rightarrow>
               first_reason (Inr (check_zero_copy env e))
                 (first_reason (Inr (check_single_replica env e))
                   (first_reason (havePendingPatchPartsForMutation io env blocks q e)
                     (check_sizes io env q e total_bytes))))"

definition check_alters :: "exec_env \<Rightarrow> 'c queue_state \<Rightarrow> log_entry \<Rightarrow> postpone_reason option result" where
  "check_alters env q e =
     first_reason
       (if entry_type e \<noteq> ALTER_METADATA then Inr None
        else bind_r (canExecuteMetaAlter (alter_version e) (alter_sequence q)) (\<lambda>ok.
               Inr (if \<not> ok then Some (OtherAlterFirst (getHeadAlterVersion (alter_sequence q)))
                    else if \<not> database_allows_alter env then Some DatabaseForbidsAlter else None)))
       (if \<not> isAlterMutation e then Inr None
        else bind_r (canExecuteDataAlter (alter_version e) (alter_sequence q)) (\<lambda>ok.
               let head_alter = getHeadAlterVersion (alter_sequence q)
               in Inr (if ok then None
                       else if head_alter = alter_version e then Some MetadataNotAltered
                       else Some (OtherAlterFirst head_alter))))"

definition check_drop_range :: "text_io \<Rightarrow> 'c queue_state \<Rightarrow> log_entry \<Rightarrow> postpone_reason option result" where
  "check_drop_range io q e =
     bind_r (getDropRange io (queue_format q) e) (\<lambda>drop_range.
       case drop_range of
         None \<Rightarrow> Inr None
       | Some name \<Rightarrow>
           bind_r (fromPartName io name (queue_format q)) (\<lambda>drop_range_info.
             Inr (map_option DropRangeExecuting
                    (find (\<lambda>info. \<not> isDisjoint drop_range_info info) (currently_executing_drop_replace_ranges q)))))"

fun any_not_disjoint :: "text_io \<Rightarrow> format_version \<Rightarrow> part_info \<Rightarrow> string list \<Rightarrow> bool result" where
  "any_not_disjoint io fv d [] = Inr False"
| "any_not_disjoint io fv d (name # names) =
     bind_r (fromPartName io name fv) (\<lambda>i. if \<not> isDisjoint i d then Inr True else any_not_disjoint io fv d names)"

definition depends_on_replace ::
  "text_io \<Rightarrow> 'c queue_state \<Rightarrow> part_info \<Rightarrow> entry_ptr \<Rightarrow> postpone_reason option result" where
  "depends_on_replace io q drop_part_info p =
     bind_r (deref q p) (\<lambda>replace_entry.
       if entry_type (log_data replace_entry) \<noteq> REPLACE_RANGE then Inr None
       else case replace_range_entry (log_data replace_entry) of
              None \<Rightarrow> Inl UB
            | Some r \<Rightarrow>
                bind_r (any_not_disjoint io (queue_format q) drop_part_info (new_part_names r)) (\<lambda>hit.
                  Inr (if hit then Some (DependsOnReplaceRange p) else None)))"

definition triggers_drop ::
  "text_io \<Rightarrow> 'c queue_state \<Rightarrow> string \<Rightarrow> int \<Rightarrow> entry_ptr \<Rightarrow> postpone_reason option result" where
  "triggers_drop io q original_partition_id dropped_version p =
     bind_r (deref q p) (\<lambda>other. let o_e = log_data other in
       if entry_type o_e \<noteq> MERGE_PARTS \<and> entry_type o_e \<noteq> MUTATE_PART then Inr None
       else bind_r (fromPartName io (new_part_name o_e) (queue_format q)) (\<lambda>new_part_info.
              Inr (if partition_id new_part_info = original_partition_id \<and> getDataVersion new_part_info > dropped_version
                   then Some (DropTriggerNotExecuted (new_part_name o_e)) else None)))"

definition isDropOfPatchPartBlocked ::
  "text_io \<Rightarrow> exec_env \<Rightarrow> 'c queue_state \<Rightarrow> log_entry \<Rightarrow> postpone_reason option result" where
  "isDropOfPatchPartBlocked io env q e =
     (if entry_type e \<noteq> DROP_PART \<or> \<not> supports_lightweight_update env then Inr None
      else bind_r (fromPartName io (new_part_name e) (queue_format q)) (\<lambda>dropped_info.
             if \<not> isPatch dropped_info then Inr None
             else bind_r (getOriginalPartitionId dropped_info) (\<lambda>original_partition_id.
                    find_reason (triggers_drop io q original_partition_id (getDataVersion dropped_info)) (queue q))))"

definition check_drop_part :: "text_io \<Rightarrow> exec_env \<Rightarrow> 'c queue_state \<Rightarrow> log_entry \<Rightarrow> postpone_reason option result" where
  "check_drop_part io env q e =
     (if entry_type e \<noteq> DROP_PART then Inr None
      else bind_r (fromPartName io (new_part_name e) (queue_format q)) (\<lambda>drop_part_info.
             first_reason (find_reason (depends_on_replace io q drop_part_info) (queue q))
                          (isDropOfPatchPartBlocked io env q e)))"

text \<open>The result is the reason to postpone the entry, and \<open>None\<close> where the code returns true.\<close>

definition shouldExecuteLogEntry ::
  "text_io \<Rightarrow> exec_env \<Rightarrow> committing_blocks \<Rightarrow> 'c queue_state \<Rightarrow> queue_entry \<Rightarrow> postpone_reason option result" where
  "shouldExecuteLogEntry io env blocks q qe =
     (let e = log_data qe; postpone_time = getPostponeTimeMsForEntry env qe in
      if postpone_time \<noteq> 0 then Inr (Some (RecentlyFailed postpone_time))
      else first_reason (check_virtual_parts io q e)
          (first_reason (check_drop_parts io q e)
          (first_reason (check_going_to_be_dropped io q e)
          (first_reason (check_fetch io env q e)
          (first_reason (check_merge_or_mutation io env blocks q e)
          (first_reason (check_alters env q e)
          (first_reason (check_drop_range io q e)
            (check_drop_part io env q e))))))))"

end
