(* ===== verification/Queue_Running.thy ===== *)
theory Queue_Running
  imports Queue_Execution
begin

text \<open>
  Entries in execution: the constructor and the destructor of \<open>CurrentlyExecuting\<close>, which tag
  and untag the parts that the entry produces, the choice of the next entry, the change of the part to
  fetch, and the removal of entries by a drop.
\<close>

section \<open>CurrentlyExecuting\<close>

text \<open>A \<open>std::set\<close> of part infos, in their order.\<close>

fun info_insert :: "part_info \<Rightarrow> part_info list \<Rightarrow> part_info list" where
  "info_insert i [] = [i]"
| "info_insert i (j # js) =
     (if info_less i j then i # j # js else if info_eq i j then j # js else j # info_insert i js)"

definition info_erase :: "part_info \<Rightarrow> part_info list \<Rightarrow> part_info list" where
  "info_erase i js = filter (\<lambda>j. \<not> info_eq i j) js"

text \<open>\<open>emplace\<close> into the future parts; a part that is tagged already is an exception.\<close>

definition tag_part :: "entry_ptr \<Rightarrow> string \<Rightarrow> 'c queue_state \<Rightarrow> 'c queue_state result" where
  "tag_part p name q =
     (if map_of (future_parts q) name \<noteq> None then Inl LOGICAL_ERROR
      else Inr (q\<lparr>future_parts := map_put name p (future_parts q)\<rparr>))"

definition with_drop_range ::
  "(part_info \<Rightarrow> part_info list \<Rightarrow> part_info list) \<Rightarrow> text_io \<Rightarrow> log_entry \<Rightarrow> 'c queue_state \<Rightarrow> 'c queue_state result" where
  "with_drop_range f io e q =
     bind_r (getDropRange io (queue_format q) e) (\<lambda>drop_range.
       case drop_range of
         None \<Rightarrow> Inr q
       | Some name \<Rightarrow>
           bind_r (fromPartName io name (queue_format q)) (\<lambda>drop_range_info.
             Inr (q\<lparr>currently_executing_drop_replace_ranges :=
                      f drop_range_info (currently_executing_drop_replace_ranges q)\<rparr>)))"

definition start_executing :: "text_io \<Rightarrow> nat \<Rightarrow> entry_ptr \<Rightarrow> 'c queue_state \<Rightarrow> 'c queue_state result" where
  "start_executing io now p q =
     bind_r (deref q p) (\<lambda>qe.
     bind_r (with_drop_range info_insert io (log_data qe) q) (\<lambda>q.
       let q = set_entry p (qe\<lparr>currently_executing := True, num_tries := num_tries qe + 1, last_attempt_time := now\<rparr>) q
       in bind_r (getVirtualPartNames io (queue_format q) (log_data qe)) (\<lambda>names. fold_r (tag_part p) names q)))"

text \<open>
  \<open>erase_and_check\<close> only reports a part that is not tagged. The destructor cannot throw: where
  one of its calls would, the process ends, which the model shows as an error.
\<close>

definition untag_part :: "string \<Rightarrow> 'c queue_state \<Rightarrow> 'c queue_state" where
  "untag_part name q = q\<lparr>future_parts := map_erase name (future_parts q)\<rparr>"

definition finish_executing :: "text_io \<Rightarrow> entry_ptr \<Rightarrow> 'c queue_state \<Rightarrow> 'c queue_state result" where
  "finish_executing io p q =
     bind_r (deref q p) (\<lambda>qe.
     bind_r (with_drop_range info_erase io (log_data qe) q) (\<lambda>q.
     bind_r (getVirtualPartNames io (queue_format q) (log_data qe)) (\<lambda>names.
       let q = fold untag_part names q;
           q = (if actual_new_part_name qe \<noteq> [] then untag_part (actual_new_part_name qe) q else q);
           q = fold untag_part (replace_range_actual_new_part_names qe) q
       in Inr (set_entry p (qe\<lparr>currently_executing := False, actual_new_part_name := [],
                               replace_range_actual_new_part_names := []\<rparr>) q))))"

section \<open>Selection\<close>

fun select_loop ::
  "text_io \<Rightarrow> exec_env \<Rightarrow> committing_blocks \<Rightarrow> entry_ptr list \<Rightarrow> 'c queue_state
     \<Rightarrow> (entry_ptr option \<times> 'c queue_state) result" where
  "select_loop io env blocks [] q = Inr (None, q)"
| "select_loop io env blocks (p # ps) q =
     bind_r (deref q p) (\<lambda>qe.
       if currently_executing qe then select_loop io env blocks ps q
       else bind_r (shouldExecuteLogEntry io env blocks q qe) (\<lambda>r.
              case r of
                None \<Rightarrow> Inr (Some p, q)
              | Some reason \<Rightarrow>
                  select_loop io env blocks ps
                    (set_entry p (qe\<lparr>postpone_reason := Some reason, num_postponed := num_postponed qe + 1,
                                     last_postpone_time := now_s env\<rparr>) q)))"

definition selectEntryToProcess ::
  "text_io \<Rightarrow> exec_env \<Rightarrow> committing_blocks \<Rightarrow> 'c queue_state \<Rightarrow> (entry_ptr option \<times> 'c queue_state) result" where
  "selectEntryToProcess io env blocks q =
     bind_r (select_loop io env blocks (queue q) q) (\<lambda>(entry, q).
       case entry of
         None \<Rightarrow> Inr (None, q)
       | Some p \<Rightarrow>
           bind_r (start_executing io (now_s env) p (q\<lparr>queue := remove1 p (queue q) @ [p]\<rparr>)) (\<lambda>q. Inr (Some p, q)))"

section \<open>Another part than the entry names\<close>

text \<open>The second component is the list of executing entries to wait for before going on.\<close>

definition setActualPartName ::
  "text_io \<Rightarrow> entry_ptr \<Rightarrow> string \<Rightarrow> entry_ptr list \<Rightarrow> 'c queue_state \<Rightarrow> (entry_ptr list \<times> 'c queue_state) result" where
  "setActualPartName io p actual_part_name covered_entries_to_wait q =
     (if actual_part_name = [] then Inl LOGICAL_ERROR
      else bind_r (deref q p) (\<lambda>qe.
        if actual_new_part_name qe \<noteq> [] then Inl LOGICAL_ERROR
        else bind_r (fromPartName io actual_part_name (queue_format q)) (\<lambda>actual_part_info.
             bind_r (any_not_disjoint io (queue_format q) actual_part_info (replace_range_actual_new_part_names qe)) (\<lambda>hit.
               if hit then Inl LOGICAL_ERROR
               else if actual_part_name = new_part_name (log_data qe) then Inr ([], q)
               else bind_r (tag_part p actual_part_name q) (\<lambda>q.
                      let qe = (if entry_type (log_data qe) = REPLACE_RANGE
                                then qe\<lparr>replace_range_actual_new_part_names :=
                                          (if actual_part_name \<in> set (replace_range_actual_new_part_names qe)
                                           then replace_range_actual_new_part_names qe
                                           else actual_part_name # replace_range_actual_new_part_names qe)\<rparr>
                                else qe\<lparr>actual_new_part_name := actual_part_name\<rparr>)
                      in Inr (filter (\<lambda>c. c \<noteq> p) covered_entries_to_wait, set_entry p qe q))))))"

datatype reject_reason = NotPulled | RejectAffected string | RejectPostponed postpone_reason

definition addFuturePartIfNotCoveredByThem ::
  "text_io \<Rightarrow> string \<Rightarrow> entry_ptr \<Rightarrow> 'c queue_state \<Rightarrow> (reject_reason + entry_ptr list \<times> 'c queue_state) result" where
  "addFuturePartIfNotCoveredByThem io part_name p q =
     bind_r (deref q p) (\<lambda>qe.
     bind_r (getContainingPart_name io part_name (virtual_parts q)) (\<lambda>covering_part.
       if covering_part = [] then Inr (Inl NotPulled)
       else bind_r (isAffectedByDropPart io part_name (drop_parts q)) (\<lambda>(affected, reason).
         if affected then Inr (Inl (RejectAffected (case reason of Some s \<Rightarrow> s | None \<Rightarrow> [])))
         else bind_r (isCoveredByFuturePartsImpl io q (log_data qe) True part_name) (\<lambda>(covered, to_wait).
                case covered of
                  Some r \<Rightarrow> Inr (Inl (RejectPostponed r))
                | None \<Rightarrow>
                    bind_r (setActualPartName io p part_name to_wait q) (\<lambda>wq. Inr (Inr wq))))))"

section \<open>Drops remove entries\<close>

fun count_contained :: "text_io \<Rightarrow> format_version \<Rightarrow> part_info \<Rightarrow> string list \<Rightarrow> nat result" where
  "count_contained io fv part_info [] = Inr 0"
| "count_contained io fv part_info (name # names) =
     bind_r (fromPartName io name fv) (\<lambda>i.
     bind_r (count_contained io fv part_info names) (\<lambda>n. Inr (if contains part_info i then n + 1 else n)))"

text \<open>
  \<open>same_object\<close>: the entry is the one whose data was copied into \<open>current\<close>, so
  that both share one \<open>replace_range_entry\<close>.
\<close>

definition checkReplaceRangeCanBeRemoved ::
  "text_io \<Rightarrow> format_version \<Rightarrow> part_info \<Rightarrow> log_entry \<Rightarrow> log_entry \<Rightarrow> bool \<Rightarrow> bool result" where
  "checkReplaceRangeCanBeRemoved io fv part_info e current same_object =
     (if entry_type e \<noteq> REPLACE_RANGE then Inr False
      else if entry_type current \<noteq> REPLACE_RANGE \<and> entry_type current \<noteq> DROP_RANGE \<and> entry_type current \<noteq> DROP_PART
      then Inr False
      else if same_object then Inr False
      else case replace_range_entry e of
             None \<Rightarrow> Inl UB
           | Some r \<Rightarrow>
               bind_r (fromPartName io (drop_range_part_name r) fv) (\<lambda>drop_range.
                 if \<not> contains part_info drop_range then Inr False
                 else bind_r (count_contained io fv part_info (new_part_names r)) (\<lambda>n.
                        Inr (n = length (new_part_names r)))))"

definition is_simple_producing_op :: "log_entry \<Rightarrow> bool" where
  "is_simple_producing_op e \<longleftrightarrow> entry_type e = GET_PART \<or> entry_type e = ATTACH_PART \<or> entry_type e = MERGE_PARTS
     \<or> entry_type e = MUTATE_PART"

text \<open>The covering entry, when there is one, is its data and the object it was copied from, if that is in the queue.\<close>

definition removed_by_range ::
  "text_io \<Rightarrow> format_version \<Rightarrow> part_info \<Rightarrow> (log_entry \<times> entry_ptr option) option \<Rightarrow> entry_ptr \<Rightarrow> log_entry
     \<Rightarrow> bool result" where
  "removed_by_range io fv part_info covering_entry p e =
     bind_r (if is_simple_producing_op e
             then bind_r (fromPartName io (new_part_name e) fv) (\<lambda>i. Inr (contains part_info i)) else Inr False)
       (\<lambda>simple_op_covered.
     bind_r (case covering_entry of
               None \<Rightarrow> Inr False
             | Some (current, origin) \<Rightarrow> checkReplaceRangeCanBeRemoved io fv part_info e current (origin = Some p))
       (\<lambda>replace_range_covered. Inr (simple_op_covered \<or> replace_range_covered)))"

fun remove_in_range ::
  "text_io \<Rightarrow> part_info \<Rightarrow> (log_entry \<times> entry_ptr option) option \<Rightarrow> entry_ptr list \<Rightarrow> entry_ptr list
     \<Rightarrow> 'c timed \<Rightarrow> (entry_ptr list \<times> 'c timed) result" where
  "remove_in_range io part_info covering_entry [] to_wait t = Inr (to_wait, t)"
| "remove_in_range io part_info covering_entry (p # ps) to_wait (mn, mx, q) =
     bind_r (deref q p) (\<lambda>qe.
     bind_r (removed_by_range io (queue_format q) part_info covering_entry p (log_data qe)) (\<lambda>remove.
       if \<not> remove then remove_in_range io part_info covering_entry ps to_wait (mn, mx, q)
       else bind_r (updateStateOnQueueEntryRemoval io p False (mn, mx, q)) (\<lambda>(mn, mx, q).
              remove_in_range io part_info covering_entry ps
                (if currently_executing qe then to_wait @ [p] else to_wait)
                (mn, mx, set_entry p (qe\<lparr>removed_by_other_entry := True\<rparr>) (q\<lparr>queue := remove1 p (queue q)\<rparr>)))))"

definition removePartProducingOpsInRange ::
  "text_io \<Rightarrow> part_info \<Rightarrow> (log_entry \<times> entry_ptr option) option \<Rightarrow> 'c queue_state
     \<Rightarrow> (entry_ptr list \<times> 'c timed) result" where
  "removePartProducingOpsInRange io part_info covering_entry q =
     remove_in_range io part_info covering_entry (queue q) [] (None, None, q)"

fun executing_in_range :: "text_io \<Rightarrow> part_info \<Rightarrow> 'c queue_state \<Rightarrow> entry_ptr list \<Rightarrow> entry_ptr list result" where
  "executing_in_range io part_info q [] = Inr []"
| "executing_in_range io part_info q (p # ps) =
     bind_r (deref q p) (\<lambda>qe.
     bind_r (if currently_executing qe
             then bind_r (getVirtualPartNames io (queue_format q) (log_data qe))
                    (any_not_disjoint io (queue_format q) part_info)
             else Inr False) (\<lambda>hit.
     bind_r (executing_in_range io part_info q ps) (\<lambda>rest. Inr (if hit then p # rest else rest))))"

definition waitForCurrentlyExecutingOpsInRange :: "text_io \<Rightarrow> part_info \<Rightarrow> 'c queue_state \<Rightarrow> entry_ptr list result" where
  "waitForCurrentlyExecutingOpsInRange io part_info q = executing_in_range io part_info q (queue q)"

section \<open>Order of the queue\<close>

definition uses_part :: "'c queue_state \<Rightarrow> string \<Rightarrow> entry_ptr \<Rightarrow> bool" where
  "uses_part q part_name p =
     (case entries q p of
        None \<Rightarrow> False
      | Some qe \<Rightarrow> (entry_type (log_data qe) = MERGE_PARTS \<or> entry_type (log_data qe) = MUTATE_PART)
          \<and> part_name \<in> set (source_parts (log_data qe)))"

definition produces_one_of :: "'c queue_state \<Rightarrow> string list \<Rightarrow> entry_ptr \<Rightarrow> bool" where
  "produces_one_of q parts_for_merge p =
     (case entries q p of
        None \<Rightarrow> False
      | Some qe \<Rightarrow> is_simple_producing_op (log_data qe) \<and> new_part_name (log_data qe) \<in> set parts_for_merge)"

definition moveSiblingPartsForMergeToEndOfQueue :: "string \<Rightarrow> 'c queue_state \<Rightarrow> string list \<times> 'c queue_state" where
  "moveSiblingPartsForMergeToEndOfQueue part_name q =
     (case dropWhile (\<lambda>p. \<not> uses_part q part_name p) (queue q) of
        [] \<Rightarrow> ([], q)
      | merge_entry # later \<Rightarrow>
          let before = takeWhile (\<lambda>p. \<not> uses_part q part_name p) (queue q);
              parts_for_merge = (case entries q merge_entry of None \<Rightarrow> [] | Some qe \<Rightarrow> source_parts (log_data qe))
          in (parts_for_merge,
              q\<lparr>queue := filter (\<lambda>p. \<not> produces_one_of q parts_for_merge p) before @ merge_entry # later
                           @ filter (produces_one_of q parts_for_merge) before\<rparr>))"

section \<open>Counts\<close>

record operations_in_queue =
  merges :: nat
  mutations :: nat
  merges_with_ttl_count :: nat

fun count_operations :: "'c queue_state \<Rightarrow> entry_ptr list \<Rightarrow> operations_in_queue \<Rightarrow> operations_in_queue result" where
  "count_operations q [] acc = Inr acc"
| "count_operations q (p # ps) acc =
     bind_r (deref q p) (\<lambda>qe. let e = log_data qe in
       count_operations q ps
         (if entry_type e = MERGE_PARTS
          then acc\<lparr>merges := merges acc + 1,
                   merges_with_ttl_count := merges_with_ttl_count acc + (if isTTLMergeType (merge_type e) then 1 else 0)\<rparr>
          else if entry_type e = MUTATE_PART then acc\<lparr>mutations := mutations acc + 1\<rparr> else acc))"

definition countMergesAndPartMutations :: "'c queue_state \<Rightarrow> operations_in_queue result" where
  "countMergesAndPartMutations q =
     count_operations q (queue q) \<lparr>merges = 0, mutations = 0, merges_with_ttl_count = 0\<rparr>"

definition countMutations :: "'c queue_state \<Rightarrow> nat" where
  "countMutations q = length (mutations_by_znode q)"

definition countFinishedMutations :: "'c queue_state \<Rightarrow> nat" where
  "countFinishedMutations q = length (takeWhile (\<lambda>m. is_done (snd m)) (mutations_by_znode q))"

definition getUnfinishedMutations :: "'c queue_state \<Rightarrow> (string \<times> 'c mutation_command list) list" where
  "getUnfinishedMutations q =
     map (\<lambda>m. (fst m, commands (status_entry (snd m))))
       (rev (takeWhile (\<lambda>m. \<not> is_done (snd m)) (rev (mutations_by_znode q))))"

section \<open>Intents\<close>

definition addDropReplaceIntent :: "part_info \<Rightarrow> 'c queue_state \<Rightarrow> 'c queue_state" where
  "addDropReplaceIntent intent q = q\<lparr>drop_replace_range_intents := drop_replace_range_intents q @ [intent]\<rparr>"

fun erase_intent :: "part_info \<Rightarrow> part_info list \<Rightarrow> part_info list result" where
  "erase_intent intent [] = Inl UB"
| "erase_intent intent (i # is) =
     (if info_eq i intent then Inr is else bind_r (erase_intent intent is) (\<lambda>is'. Inr (i # is')))"

definition removeDropReplaceIntent :: "part_info \<Rightarrow> 'c queue_state \<Rightarrow> 'c queue_state result" where
  "removeDropReplaceIntent intent q =
     bind_r (erase_intent intent (drop_replace_range_intents q)) (\<lambda>is. Inr (q\<lparr>drop_replace_range_intents := is\<rparr>))"

end
