(* ===== verification/Queue_Frame.thy ===== *)
theory Queue_Frame
  imports Queue_Running
begin

text \<open>
  The fields that the bookkeeping of parts and mutations leaves alone, whatever the state: entries, order
  of the queue, times of inserts, parts in execution.
\<close>

text \<open>Of the mutations, which there are and which are done, their counters and the pointer are left alone.\<close>

definition mutation_core :: "'c mutation_status \<Rightarrow> 'c mutation_entry \<times> bool" where
  "mutation_core st = (status_entry st, is_done st)"

definition cores :: "'c queue_state \<Rightarrow> (string \<times> 'c mutation_entry \<times> bool) list" where
  "cores q = map (\<lambda>e. (fst e, mutation_core (snd e))) (mutations_by_znode q)"

definition same_cores :: "'c queue_state \<Rightarrow> 'c queue_state \<Rightarrow> bool" where
  "same_cores q q' \<longleftrightarrow> counters q' = counters q \<and> mutation_pointer q' = mutation_pointer q
     \<and> (map_ok (mutations_by_znode q) \<longrightarrow> map_ok (mutations_by_znode q') \<and> cores q' = cores q)"

lemma same_cores_refl [simp]: "same_cores q q"
  by (simp add: same_cores_def)

lemma same_cores_trans: "same_cores a b \<Longrightarrow> same_cores b c \<Longrightarrow> same_cores a c"
  by (simp add: same_cores_def)

lemma same_cores_update [simp]:
  "same_cores q (q'\<lparr>current_parts := s\<rparr>) \<longleftrightarrow> same_cores q q'" "same_cores (q\<lparr>current_parts := s\<rparr>) q' \<longleftrightarrow> same_cores q q'"
  "same_cores q (q'\<lparr>virtual_parts := s\<rparr>) \<longleftrightarrow> same_cores q q'" "same_cores (q\<lparr>virtual_parts := s\<rparr>) q' \<longleftrightarrow> same_cores q q'"
  "same_cores q (q'\<lparr>drop_parts := d\<rparr>) \<longleftrightarrow> same_cores q q'" "same_cores (q\<lparr>drop_parts := d\<rparr>) q' \<longleftrightarrow> same_cores q q'"
  "same_cores q (q'\<lparr>alter_sequence := al\<rparr>) \<longleftrightarrow> same_cores q q'" "same_cores (q\<lparr>alter_sequence := al\<rparr>) q' \<longleftrightarrow> same_cores q q'"
  "same_cores q (q'\<lparr>finalizing_scheduled := f\<rparr>) \<longleftrightarrow> same_cores q q'"
  "same_cores q (q'\<lparr>queue := ps\<rparr>) \<longleftrightarrow> same_cores q q'" "same_cores q (q'\<lparr>entries := E\<rparr>) \<longleftrightarrow> same_cores q q'"
  "same_cores q (q'\<lparr>future_parts := F\<rparr>) \<longleftrightarrow> same_cores q q'" "same_cores q (q'\<lparr>inserts_by_time := t\<rparr>) \<longleftrightarrow> same_cores q q'"
  "same_cores q (q'\<lparr>min_unprocessed_insert_time := n\<rparr>) \<longleftrightarrow> same_cores q q'"
  "same_cores q (q'\<lparr>max_processed_insert_time := n\<rparr>) \<longleftrightarrow> same_cores q q'"
  "same_cores q (q'\<lparr>currently_executing_drop_replace_ranges := r\<rparr>) \<longleftrightarrow> same_cores q q'"
  by (simp_all add: same_cores_def cores_def)

lemma map_put_keeps:
  "map_ok m \<Longrightarrow> map_of m k = Some v \<Longrightarrow> g v' = g v
     \<Longrightarrow> map (\<lambda>e. (fst e, g (snd e))) (map_put k v' m) = map (\<lambda>e. (fst e, g (snd e))) m"
proof (induction m)
  case (Cons e m)
  obtain k' w where e: "e = (k', w)" by (cases e)
  have "\<not> k < k'"
  proof
    assume a: "k < k'"
    then have "map_of m k = Some v" using Cons.prems(2) e by (simp split: if_splits)
    then have "k \<in> fst ` set m" by (metis domI dom_map_of_conv_image_fst)
    then show False using Cons.prems(1) a e by auto
  qed
  then show ?case using Cons e by (auto split: if_splits)
qed simp

definition frame :: "'c queue_state \<Rightarrow> 'c queue_state \<Rightarrow> bool" where
  "frame q q' \<longleftrightarrow> queue_format q' = queue_format q \<and> entries q' = entries q \<and> queue q' = queue q
     \<and> inserts_by_time q' = inserts_by_time q \<and> min_unprocessed_insert_time q' = min_unprocessed_insert_time q
     \<and> max_processed_insert_time q' = max_processed_insert_time q \<and> future_parts q' = future_parts q
     \<and> currently_executing_drop_replace_ranges q' = currently_executing_drop_replace_ranges q
     \<and> drop_replace_range_intents q' = drop_replace_range_intents q \<and> mutations_by_partition q' = mutations_by_partition q
     \<and> same_cores q q'"

lemma frame_refl [simp]: "frame q q"
  by (simp add: frame_def)

lemma frame_trans: "frame a b \<Longrightarrow> frame b c \<Longrightarrow> frame a c"
  by (auto simp: frame_def intro: same_cores_trans)

lemma frame_fold:
  assumes "\<And>x s s'. f x s = Inr s' \<Longrightarrow> frame s s'" "fold_r f xs s = Inr s'"
  shows "frame s s'"
  using assms(2)
proof (induction xs arbitrary: s)
  case (Cons x xs)
  then obtain t where "f x s = Inr t" "fold_r f xs t = Inr s'" by (auto elim!: bind_r_E)
  then show ?case using assms(1) Cons.IH by (blast intro: frame_trans)
qed simp

lemma update_status_frame:
  assumes "update_status z f q = Inr q'" "\<And>st st'. f st = Inr st' \<Longrightarrow> mutation_core st' = mutation_core st"
  shows "frame q q'"
proof -
  obtain st st' where st: "map_of (mutations_by_znode q) z = Some st" "f st = Inr st'"
      "q' = q\<lparr>mutations_by_znode := map_put z st' (mutations_by_znode q)\<rparr>"
    using assms(1) by (auto simp: update_status_def bind_r_Inr_iff split: option.splits)
  have "same_cores q q'"
    using map_put_keeps [of "mutations_by_znode q" z st mutation_core st'] st assms(2) by (simp add: same_cores_def cores_def)
  then show ?thesis using st(3) by (simp add: frame_def)
qed

lemma each_mutation_frame:
  assumes "each_mutation pid chosen f q = Inr q'" "\<And>st st'. f st = Inr st' \<Longrightarrow> mutation_core st' = mutation_core st"
  shows "frame q q'"
proof (cases "mutations_by_partition q pid")
  case (Some m)
  then have "fold_r (\<lambda>it. update_status (snd it) f) (chosen m) q = Inr q'"
    using assms(1) by (simp add: each_mutation_def)
  then show ?thesis by (rule frame_fold [rotated]) (rule update_status_frame, assumption, rule assms(2))
qed (use assms(1) in \<open>simp add: each_mutation_def\<close>)

lemma core_kept:
  "remove_from_status io name i rp rc st = Inr st' \<Longrightarrow> mutation_core st' = mutation_core st"
  "add_to_do io name st = Inr st' \<Longrightarrow> mutation_core st' = mutation_core st"
proof -
  have "mutation_core (forget_failure i s) = mutation_core s" for s :: "'a mutation_status" and i
    by (simp add: forget_failure_def mutation_core_def)
  then show "remove_from_status io name i rp rc st = Inr st' \<Longrightarrow> mutation_core st' = mutation_core st"
    by (auto simp: remove_from_status_def elim!: bind_r_E) (simp add: mutation_core_def)
qed (auto simp: add_to_do_def mutation_core_def elim!: bind_r_E)

lemma removeCovered_frame:
  assumes "removeCoveredPartsFromMutations io name rp rc q = Inr q'"
  shows "frame q q'"
proof -
  obtain i q1 where q1: "each_mutation (partition_id i) (\<lambda>m. m) (remove_from_status io name i rp rc) q = Inr q1"
      "q' = (if some_probably_done (partition_id i) q1 then q1\<lparr>finalizing_scheduled := True\<rparr> else q1)"
    using assms by (auto simp: removeCoveredPartsFromMutations_def bind_r_Inr_iff)
  have "frame q q1" by (rule each_mutation_frame [OF q1(1) core_kept(1)])
  then show ?thesis using q1(2) by (simp add: frame_def)
qed

lemma insert_virtual_part_frame:
  assumes "insert_virtual_part io name q = Inr q'"
  shows "frame q q'"
proof -
  obtain a s i where s: "add_part io name (virtual_parts q) = Inr (a, s)"
      "(if isFakeDropRangePart i then Inr (q\<lparr>virtual_parts := s\<rparr>)
        else addPartToMutations io name i (q\<lparr>virtual_parts := s\<rparr>)) = Inr q'"
    using assms unfolding insert_virtual_part_def by (elim bind_r_E) (clarsimp, erule bind_r_E, blast)
  have "frame (q\<lparr>virtual_parts := s\<rparr>) q'" if "addPartToMutations io name i (q\<lparr>virtual_parts := s\<rparr>) = Inr q'"
    using that unfolding addPartToMutations_def by (rule each_mutation_frame [OF _ core_kept(2)])
  then show ?thesis using s(2) by (auto simp: frame_def split: if_splits)
qed

lemma in_progress_frame:
  "addPartInProgressToMutations io name i j q = Inr q' \<Longrightarrow> frame q q'"
  "removePartInProgressFromMutations io name i j q = Inr q' \<Longrightarrow> frame q q'"
  unfolding addPartInProgressToMutations_def removePartInProgressFromMutations_def
  by (erule each_mutation_frame, auto simp: mutation_core_def elim!: bind_r_E)+

lemma for_mutated_part_frame:
  assumes "\<And>n i j q'. f n i j q = Inr q' \<Longrightarrow> frame q q'" "for_mutated_part f io e q = Inr q'"
  shows "frame q q'"
  using assms by (auto simp: for_mutated_part_def bind_r_Inr_iff split: if_splits list.splits)

lemma insert_drop_part_frame:
  assumes "insert_drop_part io e q = Inr q'"
  shows "frame q q'"
proof (cases "entry_type e = DROP_PART")
  case True
  then obtain d name s where "removeCoveredPartsFromMutations io name True True (q\<lparr>drop_parts := d, virtual_parts := s\<rparr>) = Inr q'"
    using assms by (auto simp: insert_drop_part_def elim!: bind_r_E split: option.splits)
  from removeCovered_frame [OF this] show ?thesis by (simp add: frame_def)
next
  case False
  then show ?thesis using assms by (simp add: insert_drop_part_def)
qed

lemma add_current_part_frame: "add_current_part io name q = Inr q' \<Longrightarrow> frame q q'"
  by (auto simp: add_current_part_def bind_r_Inr_iff frame_def dest: removeCovered_frame)

lemma forget_virtual_part_frame: "forget_virtual_part io name q = Inr q' \<Longrightarrow> frame q q'"
  by (auto simp: forget_virtual_part_def bind_r_Inr_iff frame_def dest: removeCovered_frame)

lemma finish_drop_range_frame: "finish_drop_range io e q = Inr q' \<Longrightarrow> frame q q'"
  by (auto simp: finish_drop_range_def frame_def elim!: bind_r_E split: option.splits if_splits)

lemma remove_successful_frame:
  assumes "remove_successful io qe names q = Inr q'"
  shows "frame q q'"
proof -
  let ?e = "log_data qe"
  obtain q1 q2 q3 q4 where steps:
      "(if actual_new_part_name qe \<noteq> [] then removeCoveredPartsFromMutations io (actual_new_part_name qe) False True q
        else Inr q) = Inr q1"
      "fold_r (\<lambda>name. removeCoveredPartsFromMutations io name False True) (replace_range_actual_new_part_names qe) q1 = Inr q2"
      "fold_r (add_current_part io) names q2 = Inr q3" "finish_drop_range io ?e q3 = Inr q4"
      "for_mutated_part (removePartInProgressFromMutations io) io ?e
         (if entry_type ?e = ALTER_METADATA
          then q4\<lparr>alter_sequence := finishMetadataAlter (alter_version ?e) (alter_sequence q4)\<rparr> else q4) = Inr q'"
    using assms by (auto simp: remove_successful_def Let_def elim!: bind_r_E)
  have "frame q q1" using steps(1) removeCovered_frame by (auto split: if_splits)
  moreover have "frame q1 q2" using steps(2) removeCovered_frame by (rule frame_fold [rotated])
  moreover have "frame q2 q3" using steps(3) add_current_part_frame by (rule frame_fold [rotated])
  moreover have "frame q3 q4" using steps(4) by (rule finish_drop_range_frame)
  moreover have "frame (if entry_type ?e = ALTER_METADATA
          then q4\<lparr>alter_sequence := finishMetadataAlter (alter_version ?e) (alter_sequence q4)\<rparr> else q4) q'"
    using in_progress_frame(2) steps(5) by (rule for_mutated_part_frame)
  then have "frame q4 q'" by (simp add: frame_def split: if_splits)
  ultimately show ?thesis by (blast intro: frame_trans)
qed

lemma remove_unsuccessful_frame:
  assumes "remove_unsuccessful io e names q = Inr q'"
  shows "frame q q'"
proof -
  obtain q1 where q1: "(if entry_type e = DROP_PART
        then bind_r (removeDropPart e (drop_parts q)) (\<lambda>d. Inr (q\<lparr>drop_parts := d\<rparr>)) else Inr q) = Inr q1"
      "fold_r (forget_virtual_part io) names q1 = Inr q'"
    using assms by (auto simp: remove_unsuccessful_def elim!: bind_r_E)
  have "frame q q1" using q1(1) by (auto simp: frame_def elim!: bind_r_E split: if_splits)
  moreover have "frame q1 q'" using q1(2) forget_virtual_part_frame by (rule frame_fold [rotated])
  ultimately show ?thesis by (rule frame_trans)
qed

text \<open>The two operations of the queue: the state between the parts and the rest.\<close>

lemma insertUnlocked_frame:
  assumes "insertUnlocked io p (changed, q) = Inr (changed', q')" "entries q p = Some qe"
  shows "\<exists>q1 q2. frame q q1 \<and> enqueue io p (log_data qe) q1 = Inr q2
    \<and> (\<exists>c q3. note_insert p (log_data qe) (changed, q2) = (c, q3) \<and> q' = note_alter (log_data qe) q3)"
proof -
  let ?e = "log_data qe"
  obtain names q1 q2 q3 q4 where steps: "getVirtualPartNames io (queue_format q) ?e = Inr names"
      "fold_r (insert_virtual_part io) names q = Inr q1" "for_mutated_part (addPartInProgressToMutations io) io ?e q1 = Inr q2"
      "insert_drop_part io ?e q2 = Inr q3" "enqueue io p ?e q3 = Inr q4" and
    rest: "(let (changed, q) = note_insert p ?e (changed, q4) in Inr (changed, note_alter ?e q))
      = (Inr (changed', q') :: (nat option \<times> _) result)"
    using assms by (auto simp: insertUnlocked_def deref_def Let_def elim!: bind_r_E)
  have "frame q q1" using steps(2) insert_virtual_part_frame by (rule frame_fold [rotated])
  moreover have "frame q1 q2" using in_progress_frame(1) steps(3) by (rule for_mutated_part_frame)
  moreover have "frame q2 q3" using steps(4) by (rule insert_drop_part_frame)
  ultimately have "frame q q3" by (blast intro: frame_trans)
  moreover have "\<exists>c q5. note_insert p ?e (changed, q4) = (c, q5) \<and> q' = note_alter ?e q5"
    using rest by (auto split: prod.splits)
  ultimately show ?thesis using steps(5) by blast
qed

lemma updateState_frame:
  assumes "updateStateOnQueueEntryRemoval io p ok (c, d, q) = Inr (c', d', q')" "entries q p = Some qe"
  shows "\<exists>q0. remove_insert_time p (log_data qe) (c, d, q) = (c', d', q0) \<and> frame q0 q'"
proof -
  let ?e = "log_data qe"
  obtain c0 d0 q0 where q0: "remove_insert_time p ?e (c, d, q) = (c0, d0, q0)" by (rule prod_cases3)
  obtain names q1 where "(if ok then remove_successful io qe names q0 else remove_unsuccessful io ?e names q0) = Inr q1"
      "Inr (c0, d0, q1) = (Inr (c', d', q') :: _ result)"
    using assms q0 by (auto simp: updateStateOnQueueEntryRemoval_def deref_def Let_def elim!: bind_r_E)
  then show ?thesis using q0 remove_successful_frame remove_unsuccessful_frame by (auto split: if_splits)
qed

end
