(* ===== verification/Queue_Mutations.thy ===== *)
theory Queue_Mutations
  imports Queue_Execution
begin

text \<open>
  The mutations of the queue: the counters of unfinished ones, loading and removing mutations, the parts a
  new mutation has to process, the versions and commands that the mutation of a part takes, and the end of
  a mutation.
\<close>

section \<open>Counters\<close>

definition isSupportedDataMutation :: "command_type \<Rightarrow> bool" where
  "isSupportedDataMutation t \<longleftrightarrow> t = UPDATE \<or> t = DELETE"

definition isSupportedAlterMutation :: "command_type \<Rightarrow> bool" where
  "isSupportedAlterMutation t \<longleftrightarrow> t = READ_COLUMN"

definition isSupportedMetadataMutation :: "command_type \<Rightarrow> bool" where
  "isSupportedMetadataMutation t \<longleftrightarrow> t = RENAME_COLUMN \<or> t = DROP_COLUMN"

definition assertNotNegative :: "mutation_counters \<Rightarrow> mutation_counters result" where
  "assertNotNegative c =
     (if num_data c < 0 \<or> num_alter c < 0 \<or> num_metadata c < 0 then Inl LOGICAL_ERROR else Inr c)"

text \<open>The flags remember which counters have been changed for this mutation.\<close>

fun count_commands ::
  "int \<Rightarrow> 'c mutation_command list \<Rightarrow> bool \<Rightarrow> bool \<Rightarrow> bool \<Rightarrow> mutation_counters \<Rightarrow> mutation_counters result" where
  "count_commands increment [] has_data has_alter has_metadata c = Inr c"
| "count_commands increment (command # rest) has_data has_alter has_metadata c =
     (let t = command_type command;
          add_data = (\<not> has_data \<and> isSupportedDataMutation t);
          add_alter = (\<not> has_alter \<and> isSupportedAlterMutation t);
          add_metadata = (\<not> has_metadata \<and> isSupportedMetadataMutation t);
          c = c\<lparr>num_data := num_data c + (if add_data then increment else 0),
                num_alter := num_alter c + (if add_alter then increment else 0),
                num_metadata := num_metadata c + (if add_metadata then increment else 0)\<rparr>
      in bind_r (assertNotNegative c)
           (count_commands increment rest (has_data \<or> add_data) (has_alter \<or> add_alter) (has_metadata \<or> add_metadata)))"

definition updateMutationsCounters :: "mutation_counters \<Rightarrow> 'c mutation_command list \<Rightarrow> int \<Rightarrow> mutation_counters result" where
  "updateMutationsCounters c cmds increment =
     bind_r (assertNotNegative c) (count_commands increment cmds False False False)"

definition incrementMutationsCounters :: "'c mutation_command list \<Rightarrow> 'c queue_state \<Rightarrow> 'c queue_state result" where
  "incrementMutationsCounters cmds q = bind_r (updateMutationsCounters (counters q) cmds 1) (\<lambda>c. Inr (q\<lparr>counters := c\<rparr>))"

definition decrementMutationsCounters :: "'c mutation_command list \<Rightarrow> 'c queue_state \<Rightarrow> 'c queue_state result" where
  "decrementMutationsCounters cmds q = bind_r (updateMutationsCounters (counters q) cmds (- 1)) (\<lambda>c. Inr (q\<lparr>counters := c\<rparr>))"

section \<open>Versions and commands\<close>

definition getCurrentMutationVersion :: "'c queue_state \<Rightarrow> string \<Rightarrow> int \<Rightarrow> int" where
  "getCurrentMutationVersion q pid data_version =
     (case mutations_by_partition q pid of
        None \<Rightarrow> 0
      | Some in_partition \<Rightarrow>
          (case takeWhile (\<lambda>it. fst it \<le> data_version) in_partition of
             [] \<Rightarrow> 0
           | it # its \<Rightarrow> fst (last (it # its))))"

definition getNextMutationVersion :: "'c queue_state \<Rightarrow> string \<Rightarrow> int \<Rightarrow> int" where
  "getNextMutationVersion q pid data_version =
     (case mutations_by_partition q pid of
        None \<Rightarrow> 0
      | Some in_partition \<Rightarrow> (case map_upper_bound data_version in_partition of [] \<Rightarrow> 0 | it # _ \<Rightarrow> fst it))"

text \<open>An iterator is the rest of the map from it on.\<close>

fun collect_commands ::
  "'c queue_state \<Rightarrow> (int \<times> string) list \<Rightarrow> string list \<times> 'c mutation_command list
     \<Rightarrow> (string list \<times> 'c mutation_command list) result" where
  "collect_commands q [] acc = Inr acc"
| "collect_commands q (it # its) (mutation_ids, cmds) =
     (case map_of (mutations_by_znode q) (snd it) of
        None \<Rightarrow> Inl UB
      | Some status \<Rightarrow>
          collect_commands q its
            (mutation_ids @ [mutation_znode (status_entry status)], cmds @ commands (status_entry status)))"

definition getMutationCommands ::
  "part_info \<Rightarrow> int \<Rightarrow> 'c queue_state \<Rightarrow> (string list \<times> 'c mutation_command list) result" where
  "getMutationCommands part_info desired_mutation_version q =
     (if getDataVersion part_info > desired_mutation_version then Inr ([], [])
      else case mutations_by_partition q (partition_id part_info) of
             None \<Rightarrow> Inr ([], [])
           | Some in_partition \<Rightarrow>
               let first_it = map_upper_bound (getDataVersion part_info) in_partition;
                   last_it = map_lower_bound desired_mutation_version in_partition;
                   last_it = (if last_it = [] \<or> fst (hd last_it) \<noteq> desired_mutation_version then last_it else tl last_it)
               in collect_commands q (take (length first_it - length last_it) first_it) ([], []))"

section \<open>Parts to mutate\<close>

record queue_representation =
  produced_parts :: "part_info list"
  dropped_parts :: "part_info list"

fun parse_all :: "text_io \<Rightarrow> format_version \<Rightarrow> string list \<Rightarrow> part_info list result" where
  "parse_all io fv [] = Inr []"
| "parse_all io fv (name # names) =
     bind_r (fromPartName io name fv) (\<lambda>i. bind_r (parse_all io fv names) (\<lambda>is. Inr (i # is)))"

definition entry_representation :: "text_io \<Rightarrow> format_version \<Rightarrow> log_entry \<Rightarrow> queue_representation result" where
  "entry_representation io fv e =
     (case entry_type e of
        GET_PART \<Rightarrow> bind_r (fromPartName io (new_part_name e) fv) (\<lambda>i. Inr \<lparr>produced_parts = [i], dropped_parts = []\<rparr>)
      | ATTACH_PART \<Rightarrow> bind_r (fromPartName io (new_part_name e) fv) (\<lambda>i. Inr \<lparr>produced_parts = [i], dropped_parts = []\<rparr>)
      | MERGE_PARTS \<Rightarrow> bind_r (fromPartName io (new_part_name e) fv) (\<lambda>i. Inr \<lparr>produced_parts = [i], dropped_parts = []\<rparr>)
      | MUTATE_PART \<Rightarrow> bind_r (fromPartName io (new_part_name e) fv) (\<lambda>i. Inr \<lparr>produced_parts = [i], dropped_parts = []\<rparr>)
      | REPLACE_RANGE \<Rightarrow>
          (case replace_range_entry e of
             None \<Rightarrow> Inl UB
           | Some r \<Rightarrow>
               bind_r (parse_all io fv (new_part_names r)) (\<lambda>produced.
               bind_r (getDropRange io fv e) (\<lambda>drop_range.
                 case drop_range of
                   None \<Rightarrow> Inr \<lparr>produced_parts = produced, dropped_parts = []\<rparr>
                 | Some name \<Rightarrow>
                     bind_r (fromPartName io name fv) (\<lambda>i. Inr \<lparr>produced_parts = produced, dropped_parts = [i]\<rparr>))))
      | DROP_RANGE \<Rightarrow> bind_r (fromPartName io (new_part_name e) fv) (\<lambda>i. Inr \<lparr>produced_parts = [], dropped_parts = [i]\<rparr>)
      | DROP_PART \<Rightarrow> bind_r (fromPartName io (new_part_name e) fv) (\<lambda>i. Inr \<lparr>produced_parts = [], dropped_parts = [i]\<rparr>)
      | _ \<Rightarrow> Inr \<lparr>produced_parts = [], dropped_parts = []\<rparr>)"

text \<open>The map by node: the elements of an entry go to the end of what its node has.\<close>

fun add_representation ::
  "string \<Rightarrow> queue_representation \<Rightarrow> (string \<times> queue_representation) list \<Rightarrow> (string \<times> queue_representation) list" where
  "add_representation znode r [] = [(znode, r)]"
| "add_representation znode r ((z, s) # rs) =
     (if z = znode
      then (z, s\<lparr>produced_parts := produced_parts s @ produced_parts r, dropped_parts := dropped_parts s @ dropped_parts r\<rparr>) # rs
      else (z, s) # add_representation znode r rs)"

fun representations ::
  "text_io \<Rightarrow> 'c queue_state \<Rightarrow> entry_ptr list \<Rightarrow> (string \<times> queue_representation) list
     \<Rightarrow> (string \<times> queue_representation) list result" where
  "representations io q [] rs = Inr rs"
| "representations io q (p # ps) rs =
     bind_r (deref q p) (\<lambda>qe.
     bind_r (entry_representation io (queue_format q) (log_data qe)) (\<lambda>r.
       representations io q ps (add_representation (znode_name (log_data qe)) r rs)))"

text \<open>
  The map by node is walked in the order of its hash table, which is the argument \<open>hash_order\<close>.
  The result for a partition: what is dropped and what is produced there.
\<close>

type_synonym hash_order = "(string \<times> queue_representation) list \<Rightarrow> (string \<times> queue_representation) list"

definition getQueueRepresentation ::
  "text_io \<Rightarrow> hash_order \<Rightarrow> 'c queue_state \<Rightarrow> (string \<Rightarrow> queue_representation) result" where
  "getQueueRepresentation io hash_order q =
     bind_r (representations io q (queue q) []) (\<lambda>by_znode.
       let rs = map snd (hash_order by_znode)
       in Inr (\<lambda>pid. \<lparr>produced_parts = filter (\<lambda>i. partition_id i = pid) (concat (map produced_parts rs)),
                      dropped_parts = filter (\<lambda>i. partition_id i = pid) (concat (map dropped_parts rs))\<rparr>))"

definition MAX_BLOCK_NUMBER :: int where
  "MAX_BLOCK_NUMBER = 2147483647"

definition add_affected ::
  "text_io \<Rightarrow> format_version \<Rightarrow> int \<Rightarrow> string \<Rightarrow> active_part_set \<Rightarrow> active_part_set result" where
  "add_affected io fv block_num name s =
     bind_r (fromPartName io name fv) (\<lambda>i.
       if getDataVersion i < block_num then bind_r (add_part io name s) (\<lambda>(_, s'). Inr s') else Inr s)"

definition add_produced :: "text_io \<Rightarrow> int \<Rightarrow> part_info \<Rightarrow> active_part_set \<Rightarrow> active_part_set result" where
  "add_produced io block_num i s =
     (if getDataVersion i < block_num then bind_r (keep (add_info io i None s)) (\<lambda>(_, s'). Inr s') else Inr s)"

definition mutate_in_partition ::
  "text_io \<Rightarrow> active_part_set \<Rightarrow> (string \<Rightarrow> queue_representation) \<Rightarrow> string \<times> int \<Rightarrow> active_part_set \<Rightarrow> active_part_set result" where
  "mutate_in_partition io current representation pb result_set =
     (let (pid, block_num) = pb;
          covering_part_info = PartInfo pid 0 block_num MAX_LEVEL MAX_BLOCK_NUMBER
      in bind_r (fold_r (add_affected io (set_format current) block_num) (getPartsCoveredBy covering_part_info current) result_set)
           (\<lambda>s. bind_r (fold_r (\<lambda>i s. bind_r (keep (removePartAndCoveredParts io i s)) (\<lambda>(_, s'). Inr s'))
                          (dropped_parts (representation pid)) s)
             (fold_r (add_produced io block_num) (produced_parts (representation pid)))))"

definition getPartNamesToMutate ::
  "text_io \<Rightarrow> 'c mutation_entry \<Rightarrow> active_part_set \<Rightarrow> (string \<Rightarrow> queue_representation) \<Rightarrow> format_version
     \<Rightarrow> active_part_set result" where
  "getPartNamesToMutate io m current representation fv =
     fold_r (mutate_in_partition io current representation) (block_numbers m) (empty_set fv)"

section \<open>Loading and removing mutations\<close>

text \<open>\<open>emplace\<close> keeps an entry that is there.\<close>

definition index_mutation :: "string \<Rightarrow> string \<times> int \<Rightarrow> 'c queue_state \<Rightarrow> 'c queue_state" where
  "index_mutation znode pb q =
     (let in_partition = (case mutations_by_partition q (fst pb) of None \<Rightarrow> [] | Some m \<Rightarrow> m)
      in q\<lparr>mutations_by_partition := (mutations_by_partition q)(fst pb \<mapsto>
             (if map_of in_partition (snd pb) = None then map_put (snd pb) znode in_partition else in_partition))\<rparr>)"

definition unindex_mutation :: "string \<times> int \<Rightarrow> 'c queue_state \<Rightarrow> 'c queue_state" where
  "unindex_mutation pb q =
     (let in_partition = (case mutations_by_partition q (fst pb) of None \<Rightarrow> [] | Some m \<Rightarrow> m);
          in_partition = map_erase (snd pb) in_partition
      in q\<lparr>mutations_by_partition :=
             (mutations_by_partition q)(fst pb := (if in_partition = [] then None else Some in_partition))\<rparr>)"

text \<open>A mutation that is gone from ZooKeeper; the first component: an active one was killed.\<close>

definition drop_obsolete ::
  "string list \<Rightarrow> string \<times> 'c mutation_status \<Rightarrow> bool \<times> 'c queue_state \<Rightarrow> (bool \<times> 'c queue_state) result" where
  "drop_obsolete entries_in_zk zs kq =
     (let (znode, status) = zs; (killed, q) = kq; m = status_entry status in
      if mutation_znode m \<in> set entries_in_zk then Inr (killed, q)
      else let q = (if \<not> is_done status \<and> isAlterMutationEntry m
                    then q\<lparr>alter_sequence := finishDataAlter (mutation_alter_version m) (alter_sequence q)\<rparr> else q);
               q = fold unindex_mutation (block_numbers m) q;
               q = q\<lparr>mutations_by_znode := map_erase znode (mutations_by_znode q)\<rparr>
           in if is_done status then Inr (killed, q)
              else bind_r (decrementMutationsCounters (commands m) q) (\<lambda>q. Inr (True, q)))"

definition load_mutation ::
  "text_io \<Rightarrow> hash_order \<Rightarrow> 'c mutation_entry \<Rightarrow> 'c queue_state \<Rightarrow> 'c queue_state result" where
  "load_mutation io hash_order m q =
     (let znode = mutation_znode m; status = MutationStatus (queue_format q) m in
      bind_r (incrementMutationsCounters (commands m) q) (\<lambda>q.
      bind_r (getQueueRepresentation io hash_order q) (\<lambda>representation.
      bind_r (getPartNamesToMutate io m (current_parts q) representation (queue_format q)) (\<lambda>s.
        let q = q\<lparr>mutations_by_znode := map_put znode (status\<lparr>parts_to_do := s\<rparr>) (mutations_by_znode q)\<rparr>;
            q = fold (index_mutation znode) (block_numbers m) q;
            q = (if set_size s = 0 then q\<lparr>finalizing_scheduled := True\<rparr> else q)
        in Inr (if isAlterMutationEntry m \<and> znode > mutation_pointer q
                then q\<lparr>alter_sequence := addMutationForAlter (mutation_alter_version m) (alter_sequence q)\<rparr> else q)))))"

text \<open>
  \<open>updateMutations\<close> with the nodes that ZooKeeper lists and, in the order in which they are
  read, the mutations it has under those that are not loaded.
\<close>

definition updateMutations ::
  "text_io \<Rightarrow> hash_order \<Rightarrow> string list \<Rightarrow> 'c mutation_entry list \<Rightarrow> 'c queue_state \<Rightarrow> (bool \<times> 'c queue_state) result" where
  "updateMutations io hash_order entries_in_zk found q =
     bind_r (fold_r (drop_obsolete entries_in_zk) (mutations_by_znode q) (False, q)) (\<lambda>(killed, q).
       let new_mutations = filter (\<lambda>m. mutation_znode m \<in> set entries_in_zk
                                       \<and> map_of (mutations_by_znode q) (mutation_znode m) = None) found
       in bind_r (fold_r (load_mutation io hash_order) new_mutations q) (\<lambda>q. Inr (killed, q)))"

definition removeMutation ::
  "string \<Rightarrow> 'c queue_state \<Rightarrow> ('c mutation_entry option \<times> bool \<times> 'c queue_state) result" where
  "removeMutation mutation_id q =
     (case map_of (mutations_by_znode q) mutation_id of
        None \<Rightarrow> Inr (None, False, q)
      | Some status \<Rightarrow>
          let m = status_entry status;
              q = fold unindex_mutation (block_numbers m) q;
              q = (if isAlterMutationEntry m
                   then q\<lparr>alter_sequence := finishDataAlter (mutation_alter_version m) (alter_sequence q)\<rparr> else q)
          in bind_r (if is_done status then Inr q else decrementMutationsCounters (commands m) q) (\<lambda>q.
               Inr (Some m, \<not> is_done status, q\<lparr>mutations_by_znode := map_erase mutation_id (mutations_by_znode q)\<rparr>)))"

section \<open>The end of a mutation\<close>

definition clear_failure :: "'c mutation_status \<Rightarrow> 'c mutation_status" where
  "clear_failure status = status\<lparr>latest_fail_reason := [], latest_fail_error_code_name := []\<rparr>"

text \<open>
  The first pass of \<open>tryFinalizeMutations\<close>: mutations up to the pointer are done, those without
  parts to do are candidates.
\<close>

definition mark_passed ::
  "string \<times> 'c mutation_status \<Rightarrow> string list \<times> 'c queue_state \<Rightarrow> (string list \<times> 'c queue_state) result" where
  "mark_passed zs cq =
     (let (znode, status) = zs; (candidates, q) = cq; m = status_entry status in
      if is_done status then Inr (candidates, q)
      else if znode \<le> mutation_pointer q then
        let status = clear_failure (status\<lparr>is_done := True, parts_to_do := set_clear (parts_to_do status)\<rparr>);
            q = q\<lparr>mutations_by_znode := map_put znode status (mutations_by_znode q),
                  alter_sequence := finishDataAlter (mutation_alter_version m) (alter_sequence q)\<rparr>
        in bind_r (decrementMutationsCounters (commands m) q) (\<lambda>q. Inr (candidates, q))
      else if set_size (parts_to_do status) = 0 then Inr (candidates @ [znode], q)
      else Inr (candidates, q))"

text \<open>
  The merge predicate holds the partitions for which committing blocks were loaded (\<open>None\<close>:
  all), the virtual parts before that, and the blocks. The cache lists the partitions without relevant
  blocks.
\<close>

record predicate_snapshot =
  partition_ids_hint :: "string set option"
  prev_virtual_parts :: "active_part_set option"
  committing :: "committing_blocks option"

fun check_partitions ::
  "predicate_snapshot \<Rightarrow> (string \<times> int) list \<Rightarrow> string list \<Rightarrow> (bool \<times> string list) result" where
  "check_partitions pred [] cache = Inr (True, cache)"
| "check_partitions pred ((pid, block_num) # rest) cache =
     (if pid \<in> set cache then check_partitions pred rest cache
      else if (case partition_ids_hint pred of None \<Rightarrow> False | Some hint \<Rightarrow> pid \<notin> hint)
      then if (case prev_virtual_parts pred of None \<Rightarrow> False | Some s \<Rightarrow> hasPartitionId pid s) then Inl LOGICAL_ERROR
           else check_partitions pred rest (pid # cache)
      else case committing pred of
             None \<Rightarrow> Inl UB
           | Some blocks \<Rightarrow>
               if (case blocks pid of None \<Rightarrow> False | Some bs \<Rightarrow> \<exists>b \<in> set bs. fst b < block_num)
               then Inr (False, cache)
               else check_partitions pred rest (pid # cache))"

definition isMutationFinished ::
  "predicate_snapshot \<Rightarrow> 'c queue_state \<Rightarrow> string \<Rightarrow> (string \<times> int) list \<Rightarrow> string list \<Rightarrow> (bool \<times> string list) result" where
  "isMutationFinished pred q znode numbers cache =
     bind_r (check_partitions pred numbers cache) (\<lambda>(ok, cache).
       if \<not> ok then Inr (False, cache)
       else case map_of (mutations_by_znode q) znode of
              Some status \<Rightarrow> Inr (set_size (parts_to_do status) = 0, cache)
            | None \<Rightarrow> Inr (True, cache))"

fun finished_candidates ::
  "predicate_snapshot \<Rightarrow> 'c queue_state \<Rightarrow> 'c mutation_entry list \<Rightarrow> (string \<Rightarrow> string list)
     \<Rightarrow> ('c mutation_entry list \<times> (string \<Rightarrow> string list)) result" where
  "finished_candidates pred q [] caches = Inr ([], caches)"
| "finished_candidates pred q (m # ms) caches =
     bind_r (isMutationFinished pred q (mutation_znode m) (block_numbers m) (caches (mutation_znode m))) (\<lambda>(ok, cache).
     bind_r (finished_candidates pred q ms (caches(mutation_znode m := cache))) (\<lambda>(finished, caches).
       Inr (if ok then m # finished else finished, caches)))"

definition finish_mutation :: "'c mutation_entry \<Rightarrow> 'c queue_state \<Rightarrow> 'c queue_state result" where
  "finish_mutation m q =
     (case map_of (mutations_by_znode q) (mutation_znode m) of
        None \<Rightarrow> Inr q
      | Some status \<Rightarrow>
          let q = q\<lparr>mutations_by_znode :=
                      map_put (mutation_znode m) (clear_failure (status\<lparr>is_done := True\<rparr>)) (mutations_by_znode q)\<rparr>;
              q = (if isAlterMutationEntry m
                   then q\<lparr>alter_sequence := finishDataAlter (mutation_alter_version m) (alter_sequence q)\<rparr> else q)
          in decrementMutationsCounters (commands m) q)"

text \<open>
  The construction of the predicate loads the committing blocks and pulls the log, which changes the queue:
  both are its argument \<open>get_predicate\<close>, which is given the partitions of the candidates that
  are not in the cache.
\<close>

definition tryFinalizeMutations ::
  "(string list \<Rightarrow> 'c queue_state \<Rightarrow> (predicate_snapshot \<times> 'c queue_state) result) \<Rightarrow> (string \<Rightarrow> string list)
     \<Rightarrow> 'c queue_state \<Rightarrow> (bool \<times> (string \<Rightarrow> string list) \<times> 'c queue_state) result" where
  "tryFinalizeMutations get_predicate caches q =
     bind_r (fold_r mark_passed (mutations_by_znode q) ([], q)) (\<lambda>(znodes, q).
       let candidates = concat (map (\<lambda>z. case map_of (mutations_by_znode q) z of
                                           None \<Rightarrow> [] | Some status \<Rightarrow> [status_entry status]) znodes);
           hint = concat (map (\<lambda>m. filter (\<lambda>pid. pid \<notin> set (caches (mutation_znode m))) (map fst (block_numbers m))) candidates)
       in if candidates = [] then Inr (False, caches, q)
          else bind_r (get_predicate hint q) (\<lambda>(pred, q).
               bind_r (finished_candidates pred q candidates caches) (\<lambda>(finished, caches).
                 if finished = [] then Inr (False, caches, q)
                 else bind_r (fold_r finish_mutation finished (q\<lparr>mutation_pointer := mutation_znode (last finished)\<rparr>)) (\<lambda>q.
                        Inr (True, caches, q)))))"

section \<open>The version a part is mutated to\<close>

text \<open>
  \<open>getExpectedMutationVersion\<close> for a part that no merge or mutation is assigned to.
  \<open>barrier\<close> stands for \<open>containBarrierCommand\<close>; the patches are the versions of
  the patch parts of the partition. The state of the loop: the version so far, the number of new mutations
  in it.
\<close>

fun expected_loop ::
  "('c mutation_command list \<Rightarrow> bool) \<Rightarrow> nat \<Rightarrow> int list \<Rightarrow> 'c queue_state \<Rightarrow> int
     \<Rightarrow> (int \<times> string) list \<Rightarrow> int option \<Rightarrow> int \<Rightarrow> nat \<Rightarrow> (int \<times> int) result" where
  "expected_loop barrier limit patches q current [] prev max_version new_mutations = Inr (max_version, - 1)"
| "expected_loop barrier limit patches q current ((mutation_version, znode) # its) prev max_version new_mutations =
     (case map_of (mutations_by_znode q) znode of
        None \<Rightarrow> Inl UB
      | Some status \<Rightarrow>
          let m = status_entry status; has_barrier = barrier (commands m) in
          if has_barrier \<and> max_version \<noteq> mutation_version \<and> max_version > current then Inr (max_version, - 1)
          else if (case prev of None \<Rightarrow> False
                   | Some prev_version \<Rightarrow> prev_version > current
                       \<and> (\<exists>patch \<in> set patches. prev_version \<le> patch \<and> patch \<le> mutation_version))
          then Inr (max_version, - 1)
          else let new_mutations = (if current < mutation_version then new_mutations + 1 else new_mutations) in
               if isAlterMutationEntry m \<and> (mutation_version > current \<or> \<not> is_done status)
               then Inr (mutation_version, mutation_alter_version m)
               else if limit \<noteq> 0 \<and> new_mutations = limit then Inr (mutation_version, - 1)
               else if has_barrier \<and> mutation_version > current then Inr (mutation_version, - 1)
               else expected_loop barrier limit patches q current its (Some mutation_version) mutation_version new_mutations)"

definition getExpectedMutationVersion ::
  "('c mutation_command list \<Rightarrow> bool) \<Rightarrow> nat \<Rightarrow> (string \<Rightarrow> int list) \<Rightarrow> string option \<Rightarrow> 'c queue_state
     \<Rightarrow> string \<Rightarrow> part_info \<Rightarrow> (int \<times> int) option result" where
  "getExpectedMutationVersion barrier mutations_limit versions_of_patches inprogress_quorum_part q part_name part_info =
     (if inprogress_quorum_part = Some part_name then Inr None
      else if getContainingPart part_info (virtual_parts q) \<noteq> part_name then Inr None
      else case mutations_by_partition q (partition_id part_info) of
             None \<Rightarrow> Inr None
           | Some [] \<Rightarrow> Inl UB
           | Some (it # its) \<Rightarrow>
               let current = getCurrentMutationVersion q (partition_id part_info) (getDataVersion part_info)
               in bind_r (expected_loop barrier mutations_limit (versions_of_patches (partition_id part_info)) q current
                            (it # its) None (fst it) 0) (\<lambda>(max_version, alter_version).
                    Inr (if current \<ge> max_version then None else Some (max_version, alter_version))))"

end
