(* ===== verification/Queue_Steps.thy ===== *)
theory Queue_Steps
  imports Queue_Frame Queue_Mutations
begin

text \<open>
  The queue as a transition system: entries are inserted, selected, given another part, processed,
  finished, removed by a drop or reordered; mutations are loaded, removed and finished; and the whole queue
  is initialized and loaded again when the replica is restarted. The invariant of the executions: the table
  of future parts holds exactly the parts of the executing entries, and these parts keep out of each
  other's way.
\<close>

section \<open>Steps\<close>

text \<open>What an entry keeps of an exception that was thrown by its execution.\<close>

definition updateLastExeption :: "nat \<Rightarrow> queue_entry \<Rightarrow> queue_entry" where
  "updateLastExeption time_ms qe = qe\<lparr>last_exception_time_ms := time_ms\<rparr>"

text \<open>
  The log gives every insert a creation time. A new entry has a new object. Only an executing entry is
  given another part, processed, or finished. All other operations are called in any state, with any
  arguments.
\<close>

definition executing :: "'c queue_state \<Rightarrow> entry_ptr \<Rightarrow> queue_entry \<Rightarrow> bool" where
  "executing q p qe \<longleftrightarrow> entries q p = Some qe \<and> currently_executing qe"

definition timed_entry :: "log_entry \<Rightarrow> bool" where
  "timed_entry e \<longleftrightarrow> (is_insert e \<longrightarrow> create_time e \<noteq> 0)"

inductive queue_step :: "text_io \<Rightarrow> 'c queue_state \<Rightarrow> 'c queue_state \<Rightarrow> bool" for io where
  insert: "entries q p = None \<Longrightarrow> timed_entry e
    \<Longrightarrow> insertUnlocked io p (c, set_entry p (fresh_entry e) q) = Inr (c', q') \<Longrightarrow> queue_step io q q'"
| select: "selectEntryToProcess io env blocks q = Inr (r, q') \<Longrightarrow> queue_step io q q'"
| actual: "executing q p qe \<Longrightarrow> addFuturePartIfNotCoveredByThem io name p q = Inr (Inr (w, q')) \<Longrightarrow> queue_step io q q'"
| processed: "executing q p qe \<Longrightarrow> removeProcessedEntry io p q = Inr (mn, mx, q') \<Longrightarrow> queue_step io q q'"
| failed: "executing q p qe \<Longrightarrow> queue_step io q (set_entry p (updateLastExeption t qe) q)"
| finish: "executing q p qe \<Longrightarrow> finish_executing io p q = Inr q' \<Longrightarrow> queue_step io q q'"
| drop_range: "removePartProducingOpsInRange io i covering q = Inr (w, mn, mx, q') \<Longrightarrow> queue_step io q q'"
| reorder: "moveSiblingPartsForMergeToEndOfQueue name q = (ns, q') \<Longrightarrow> queue_step io q q'"
| quorum: "removeFailedQuorumPart i q = (removed, q') \<Longrightarrow> queue_step io q q'"
| intend: "queue_step io q (addDropReplaceIntent i q)"
| withdraw: "removeDropReplaceIntent i q = Inr q' \<Longrightarrow> queue_step io q q'"
| forget: "removeCurrentPartsFromMutations io q = Inr q' \<Longrightarrow> queue_step io q q'"

text \<open>
  The mutations. What ZooKeeper has under a node does not change: it is the argument \<open>nodes\<close>,
  and the same mutation is found whenever the node is read.
\<close>

inductive mutation_step :: "text_io \<Rightarrow> (string \<Rightarrow> 'c mutation_entry) \<Rightarrow> 'c queue_state \<Rightarrow> 'c queue_state \<Rightarrow> bool"
  for io nodes where
  queue_work: "queue_step io q q' \<Longrightarrow> mutation_step io nodes q q'"
| update: "distinct (map mutation_znode found) \<Longrightarrow> list_all (\<lambda>m. m = nodes (mutation_znode m)) found
    \<Longrightarrow> updateMutations io hash_order entries_in_zk found q = Inr (killed, q') \<Longrightarrow> mutation_step io nodes q q'"
| remove: "removeMutation z q = Inr (m, active, q') \<Longrightarrow> mutation_step io nodes q q'"

text \<open>
  The merge predicate that \<open>tryFinalizeMutations\<close> constructs pulls the log without the lock of
  the state, and with the log the mutations: entries are inserted, mutations come and go, and the other
  threads go on. At a restart \<open>initialize\<close> clears the state, then the queue is loaded: each
  entry in a new object.
\<close>

inductive replica_step :: "text_io \<Rightarrow> (string \<Rightarrow> 'c mutation_entry) \<Rightarrow> 'c queue_state \<Rightarrow> 'c queue_state \<Rightarrow> bool"
  for io nodes where
  work: "mutation_step io nodes q q' \<Longrightarrow> replica_step io nodes q q'"
| finalize: "(\<And>hint p pred p'. get_predicate hint p = Inr (pred, p') \<Longrightarrow> (mutation_step io nodes)\<^sup>*\<^sup>* p p')
    \<Longrightarrow> tryFinalizeMutations get_predicate caches q = Inr (r, caches', q') \<Longrightarrow> replica_step io nodes q q'"
| initialize: "initialize io parts q = Inr q' \<Longrightarrow> replica_step io nodes q q'"
| load: "distinct (map fst found) \<Longrightarrow> list_all (\<lambda>pe. entries q (fst pe) = None \<and> timed_entry (snd pe)) found
    \<Longrightarrow> load io found zk_mutation_pointer q = Inr (c, q') \<Longrightarrow> replica_step io nodes q q'"

inductive queue_reachable :: "text_io \<Rightarrow> (string \<Rightarrow> 'c mutation_entry) \<Rightarrow> format_version \<Rightarrow> 'c queue_state \<Rightarrow> bool"
  for io nodes fv where
  start: "queue_reachable io nodes fv (empty_queue fv)"
| next_state: "queue_reachable io nodes fv q \<Longrightarrow> replica_step io nodes q q' \<Longrightarrow> queue_reachable io nodes fv q'"

section \<open>The invariant of the executions\<close>

definition produced_list :: "text_io \<Rightarrow> format_version \<Rightarrow> queue_entry \<Rightarrow> string list" where
  "produced_list io fv qe =
     (case getVirtualPartNames io fv (log_data qe) of Inl _ \<Rightarrow> [] | Inr names \<Rightarrow> names)
     @ (if actual_new_part_name qe \<noteq> [] then [actual_new_part_name qe] else [])
     @ replace_range_actual_new_part_names qe"

abbreviation produced :: "text_io \<Rightarrow> format_version \<Rightarrow> queue_entry \<Rightarrow> string set" where
  "produced io fv qe \<equiv> set (produced_list io fv qe)"

text \<open>Two parts keep out of each other's way when they are disjoint or one is a drop range over the other.\<close>

definition apart :: "part_info \<Rightarrow> part_info \<Rightarrow> bool" where
  "apart i j \<longleftrightarrow> isDisjoint i j \<or> isFakeDropRangePart i \<and> contains i j \<or> isFakeDropRangePart j \<and> contains j i"

definition virtual_of :: "text_io \<Rightarrow> 'c queue_state \<Rightarrow> entry_ptr \<Rightarrow> part_info \<Rightarrow> bool" where
  "virtual_of io q p i \<longleftrightarrow> (\<exists>qe names n. executing q p qe
     \<and> getVirtualPartNames io (queue_format q) (log_data qe) = Inr names \<and> n \<in> set names
     \<and> fromPartName io n (queue_format q) = Inr i)"

definition drop_range_of :: "text_io \<Rightarrow> 'c queue_state \<Rightarrow> entry_ptr \<Rightarrow> part_info \<Rightarrow> bool" where
  "drop_range_of io q p d \<longleftrightarrow> (\<exists>qe name. executing q p qe
     \<and> getDropRange io (queue_format q) (log_data qe) = Inr (Some name) \<and> fromPartName io name (queue_format q) = Inr d)"

definition table_ok :: "text_io \<Rightarrow> 'c queue_state \<Rightarrow> bool" where
  "table_ok io q \<longleftrightarrow> map_ok (future_parts q)
     \<and> (\<forall>n p. map_of (future_parts q) n = Some p \<longleftrightarrow> (\<exists>qe. executing q p qe \<and> n \<in> produced io (queue_format q) qe))
     \<and> (\<forall>p qe. entries q p = Some qe \<longrightarrow> \<not> currently_executing qe
          \<longrightarrow> actual_new_part_name qe = [] \<and> replace_range_actual_new_part_names qe = [])"

text \<open>An entry that gets another part than it names may overlap older entries, for which it waits.\<close>

definition actual_of :: "text_io \<Rightarrow> 'c queue_state \<Rightarrow> entry_ptr \<Rightarrow> part_info \<Rightarrow> bool" where
  "actual_of io q p i \<longleftrightarrow> (\<exists>qe n. executing q p qe \<and> n \<noteq> []
     \<and> (n = actual_new_part_name qe \<or> n \<in> set (replace_range_actual_new_part_names qe))
     \<and> fromPartName io n (queue_format q) = Inr i)"

definition older :: "'c queue_state \<Rightarrow> entry_ptr \<Rightarrow> entry_ptr \<Rightarrow> bool" where
  "older q p p' \<longleftrightarrow> (\<exists>qe qe'. entries q p = Some qe \<and> entries q p' = Some qe'
     \<and> znode_name (log_data qe) \<le> znode_name (log_data qe'))"

definition parts_apart :: "text_io \<Rightarrow> 'c queue_state \<Rightarrow> bool" where
  "parts_apart io q \<longleftrightarrow> (\<forall>p p' i i'. virtual_of io q p i \<longrightarrow> virtual_of io q p' i' \<longrightarrow> p \<noteq> p' \<longrightarrow> apart i i')
     \<and> (\<forall>p p' i i'. actual_of io q p i \<longrightarrow> virtual_of io q p' i' \<longrightarrow> p \<noteq> p' \<longrightarrow> apart i i' \<or> older q p' p)"

definition drops_apart :: "text_io \<Rightarrow> 'c queue_state \<Rightarrow> bool" where
  "drops_apart io q \<longleftrightarrow> (\<forall>p p' d d'. drop_range_of io q p d \<longrightarrow> drop_range_of io q p' d' \<longrightarrow> p \<noteq> p' \<longrightarrow> isDisjoint d d')
     \<and> (\<forall>d. (\<exists>p. drop_range_of io q p d) \<longrightarrow> (\<exists>d' \<in> set (currently_executing_drop_replace_ranges q). info_eq d d'))"

definition lists_distinct :: "text_io \<Rightarrow> 'c queue_state \<Rightarrow> bool" where
  "lists_distinct io q \<longleftrightarrow> (\<forall>p qe. executing q p qe \<longrightarrow> distinct (produced_list io (queue_format q) qe))"

definition exec_ok :: "text_io \<Rightarrow> 'c queue_state \<Rightarrow> bool" where
  "exec_ok io q \<longleftrightarrow> table_ok io q \<and> parts_apart io q \<and> drops_apart io q \<and> lists_distinct io q"

text \<open>The invariant looks at the executing entries and three more fields only.\<close>

definition run_core :: "queue_entry \<Rightarrow> log_entry \<times> bool \<times> string \<times> string list" where
  "run_core qe = (log_data qe, currently_executing qe, actual_new_part_name qe, replace_range_actual_new_part_names qe)"

definition same_run :: "'c queue_state \<Rightarrow> 'c queue_state \<Rightarrow> bool" where
  "same_run q q' \<longleftrightarrow> queue_format q' = queue_format q \<and> future_parts q' = future_parts q
     \<and> currently_executing_drop_replace_ranges q' = currently_executing_drop_replace_ranges q
     \<and> (\<forall>p. map_option run_core (entries q' p) = map_option run_core (entries q p))"

lemma same_run_refl [simp]: "same_run q q"
  by (simp add: same_run_def)

lemma same_run_trans: "same_run a b \<Longrightarrow> same_run b c \<Longrightarrow> same_run a c"
  by (simp add: same_run_def)

lemma frame_same_run: "frame q q' \<Longrightarrow> same_run q q'"
  by (simp add: frame_def same_run_def)

lemma same_run_entry:
  assumes "same_run q q'" "entries q' p = Some qe'"
  shows "\<exists>qe. entries q p = Some qe \<and> log_data qe = log_data qe' \<and> currently_executing qe = currently_executing qe'
    \<and> actual_new_part_name qe = actual_new_part_name qe'
    \<and> replace_range_actual_new_part_names qe = replace_range_actual_new_part_names qe'"
proof -
  have "map_option run_core (entries q p) = Some (run_core qe')"
    using assms unfolding same_run_def by (metis option.simps(9))
  then show ?thesis by (auto simp: run_core_def)
qed

lemma same_run_sym: "same_run q q' \<Longrightarrow> same_run q' q"
  by (simp add: same_run_def)

lemma produced_cong:
  "log_data qe = log_data qe' \<Longrightarrow> actual_new_part_name qe = actual_new_part_name qe'
     \<Longrightarrow> replace_range_actual_new_part_names qe = replace_range_actual_new_part_names qe'
     \<Longrightarrow> produced_list io fv qe = produced_list io fv qe'"
  by (simp add: produced_list_def)

lemma same_run_executing:
  assumes "same_run q q'" "executing q' p qe'"
  shows "\<exists>qe. executing q p qe \<and> log_data qe = log_data qe' \<and> produced_list io fv qe = produced_list io fv qe'"
proof -
  have "entries q' p = Some qe'" and run: "currently_executing qe'" using assms(2) by (simp_all add: executing_def)
  from same_run_entry [OF assms(1) this(1)] obtain qe where qe: "entries q p = Some qe" "log_data qe = log_data qe'"
      "currently_executing qe = currently_executing qe'" "actual_new_part_name qe = actual_new_part_name qe'"
      "replace_range_actual_new_part_names qe = replace_range_actual_new_part_names qe'" by blast
  then show ?thesis using run produced_cong [OF qe(2,4,5)] by (auto simp: executing_def)
qed

lemma same_run_exec_ok:
  assumes "exec_ok io q" "same_run q q'"
  shows "exec_ok io q'"
proof -
  have fields: "queue_format q' = queue_format q" "future_parts q' = future_parts q"
      "currently_executing_drop_replace_ranges q' = currently_executing_drop_replace_ranges q"
    using assms(2) by (simp_all add: same_run_def)
  have v: "virtual_of io q' p i \<Longrightarrow> virtual_of io q p i" for p i
    unfolding virtual_of_def executing_def fields(1) using same_run_entry [OF assms(2)] by metis
  have d: "drop_range_of io q' p i \<Longrightarrow> drop_range_of io q p i" for p i
    unfolding drop_range_of_def executing_def fields(1) using same_run_entry [OF assms(2)] by metis
  have a: "actual_of io q' p i \<Longrightarrow> actual_of io q p i" for p i
    unfolding actual_of_def executing_def fields(1) using same_run_entry [OF assms(2)] by metis
  have o: "older q p p' \<Longrightarrow> older q' p p'" for p p'
    unfolding older_def using same_run_entry [OF same_run_sym [OF assms(2)]] by metis
  have "(\<exists>qe. executing b p qe \<and> n \<in> produced io (queue_format q) qe)"
    if "same_run a b" "executing a p qe" "n \<in> produced io (queue_format q) qe" for a b p n qe
    using same_run_executing [OF same_run_sym [OF that(1)] that(2), of io "queue_format q"] that(3) by auto
  from this [OF assms(2)] this [OF same_run_sym [OF assms(2)]]
  have e: "(\<exists>qe. executing q' p qe \<and> n \<in> produced io (queue_format q) qe)
      \<longleftrightarrow> (\<exists>qe. executing q p qe \<and> n \<in> produced io (queue_format q) qe)" for p n by blast
  have idle: "actual_new_part_name qe = [] \<and> replace_range_actual_new_part_names qe = []"
    if "entries q' p = Some qe" "\<not> currently_executing qe" for p qe
    using same_run_entry [OF assms(2) that(1)] that(2) assms(1) by (auto simp: exec_ok_def table_ok_def)
  have "table_ok io q'"
    using assms(1) idle unfolding exec_ok_def table_ok_def fields e by blast
  moreover have "parts_apart io q'" using assms(1) v a o unfolding exec_ok_def parts_apart_def by metis
  moreover have "drops_apart io q'" using assms(1) d unfolding exec_ok_def drops_apart_def fields by blast
  moreover have "lists_distinct io q'"
    unfolding lists_distinct_def fields
  proof (intro allI impI)
    fix p qe' assume "executing q' p qe'"
    from same_run_executing [OF assms(2) this, of io "queue_format q"] obtain qe where
      "executing q p qe" "produced_list io (queue_format q) qe = produced_list io (queue_format q) qe'" by blast
    then show "distinct (produced_list io (queue_format q) qe')"
      using assms(1) by (metis exec_ok_def lists_distinct_def)
  qed
  ultimately show ?thesis by (simp add: exec_ok_def)
qed

text \<open>An object that is not executing before and after does not matter.\<close>

lemma set_idle_entry:
  assumes "exec_ok io q" "\<And>old. entries q p = Some old \<Longrightarrow> \<not> currently_executing old"
    "\<not> currently_executing qe" "actual_new_part_name qe = []" "replace_range_actual_new_part_names qe = []"
  shows "exec_ok io (set_entry p qe q)"
proof -
  have e: "executing (set_entry p qe q) p' qe' \<longleftrightarrow> executing q p' qe'" for p' qe'
    using assms(2,3) by (auto simp: executing_def set_entry_def)
  have "table_ok io (set_entry p qe q)"
    using assms(1,4,5) unfolding exec_ok_def table_ok_def e by (simp add: set_entry_def)
  moreover have "parts_apart io (set_entry p qe q)"
  proof -
    have v: "virtual_of io (set_entry p qe q) p' i \<longleftrightarrow> virtual_of io q p' i"
      and a: "actual_of io (set_entry p qe q) p' i \<longleftrightarrow> actual_of io q p' i" for p' i
      by (simp_all only: virtual_of_def actual_of_def e) (simp_all add: set_entry_def)
    have o: "older (set_entry p qe q) p1 p2 \<longleftrightarrow> older q p1 p2" if "p1 \<noteq> p" "p2 \<noteq> p" for p1 p2
      using that by (simp add: older_def set_entry_def)
    have idle: "virtual_of io q p' i \<Longrightarrow> p' \<noteq> p" "actual_of io q p' i \<Longrightarrow> p' \<noteq> p" for p' i
      using assms(2) by (auto simp: virtual_of_def actual_of_def executing_def)
    show ?thesis using assms(1) o idle unfolding exec_ok_def parts_apart_def v a by metis
  qed
  moreover have "drops_apart io (set_entry p qe q)"
    using assms(1) unfolding exec_ok_def drops_apart_def drop_range_of_def e by (simp add: set_entry_def)
  moreover have "lists_distinct io (set_entry p qe q)"
    using assms(1) unfolding exec_ok_def lists_distinct_def e by (simp add: set_entry_def)
  ultimately show ?thesis by (simp add: exec_ok_def)
qed

section \<open>Steps that do not run entries\<close>

lemma enqueue_same_run: "enqueue io p e q = Inr q' \<Longrightarrow> same_run q q'"
  by (auto simp: enqueue_def same_run_def elim!: bind_r_E split: if_splits)

lemma note_insert_same_run: "note_insert p e (c, q) = (c', q') \<Longrightarrow> same_run q q'"
  by (auto simp: note_insert_def same_run_def Let_def split: if_splits)

lemma note_alter_same_run: "same_run q (note_alter e q)"
  by (simp add: note_alter_def same_run_def)

lemma insertUnlocked_same_run:
  assumes "insertUnlocked io p (c, q) = Inr (c', q')" "entries q p = Some qe"
  shows "same_run q q'"
proof -
  obtain q1 q2 c3 q3 where s: "frame q q1" "enqueue io p (log_data qe) q1 = Inr q2"
      "note_insert p (log_data qe) (c, q2) = (c3, q3)" "q' = note_alter (log_data qe) q3"
    using insertUnlocked_frame [OF assms] by blast
  show ?thesis unfolding s(4)
    using frame_same_run [OF s(1)] enqueue_same_run [OF s(2)] note_insert_same_run [OF s(3)] note_alter_same_run
    by (blast intro: same_run_trans)
qed

lemma remove_insert_time_same_run:
  assumes "remove_insert_time p e (c, d, q) = (c', d', q')"
  shows "same_run q q' \<and> queue q' = queue q \<and> entries q' = entries q"
proof (cases "is_insert e")
  case True
  then show ?thesis using assms
    by (cases "map_erase (create_time e, p) (inserts_by_time q)")
      (auto simp: remove_insert_time_def same_run_def Let_def split: if_splits)
qed (use assms in \<open>simp add: remove_insert_time_def\<close>)

lemma updateState_same_run:
  assumes "updateStateOnQueueEntryRemoval io p ok (c, d, q) = Inr (c', d', q')" "entries q p = Some qe"
  shows "same_run q q' \<and> queue q' = queue q \<and> entries q' = entries q"
proof -
  obtain q0 where q0: "remove_insert_time p (log_data qe) (c, d, q) = (c', d', q0)" "frame q0 q'"
    using updateState_frame [OF assms] by blast
  from remove_insert_time_same_run [OF q0(1)] frame_same_run [OF q0(2)] q0(2) show ?thesis
    by (auto simp: frame_def intro: same_run_trans)
qed

lemma removeProcessedEntry_same_run:
  assumes "removeProcessedEntry io p q = Inr (mn, mx, q')"
  shows "same_run q q'"
proof -
  obtain qe where qe: "entries q p = Some qe" using assms by (auto simp: removeProcessedEntry_def deref_def split: option.splits)
  show ?thesis
  proof (cases "removed_by_other_entry qe")
    case True
    then show ?thesis using assms qe by (simp add: removeProcessedEntry_def deref_def)
  next
    case False
    then obtain a b q1 where "updateStateOnQueueEntryRemoval io p True (None, None, q) = Inr (a, b, q1)"
        "q' = q1\<lparr>queue := erase_last p (queue q1)\<rparr>"
      using assms qe by (auto simp: removeProcessedEntry_def deref_def elim!: bind_r_E split: if_splits)
    then show ?thesis using updateState_same_run [OF _ qe] by (simp add: same_run_def)
  qed
qed

lemma remove_in_range_same_run:
  "remove_in_range io i covering ps w (mn, mx, q) = Inr (w', mn', mx', q') \<Longrightarrow> same_run q q'"
proof (induction ps arbitrary: w mn mx q)
  case (Cons p ps)
  obtain qe remove where qe: "entries q p = Some qe"
      "removed_by_range io (queue_format q) i covering p (log_data qe) = Inr remove"
    using Cons.prems by (auto simp: deref_def elim!: bind_r_E split: option.splits)
  show ?case
  proof (cases remove)
    case False
    then show ?thesis using Cons.prems qe Cons.IH by (simp add: deref_def)
  next
    case True
    then obtain a b q1 where u: "updateStateOnQueueEntryRemoval io p False (mn, mx, q) = Inr (a, b, q1)"
        "remove_in_range io i covering ps (if currently_executing qe then w @ [p] else w)
           (a, b, set_entry p (qe\<lparr>removed_by_other_entry := True\<rparr>) (q1\<lparr>queue := remove1 p (queue q1)\<rparr>))
         = Inr (w', mn', mx', q')"
      using Cons.prems qe by (auto simp: deref_def elim!: bind_r_E)
    have "same_run q1 (set_entry p (qe\<lparr>removed_by_other_entry := True\<rparr>) (q1\<lparr>queue := remove1 p (queue q1)\<rparr>))"
      using updateState_same_run [OF u(1) qe(1)] qe(1) by (simp add: same_run_def set_entry_def run_core_def)
    then show ?thesis using updateState_same_run [OF u(1) qe(1)] Cons.IH [OF u(2)] by (blast intro: same_run_trans)
  qed
qed simp

lemma moveSibling_same_run: "moveSiblingPartsForMergeToEndOfQueue name q = (ns, q') \<Longrightarrow> same_run q q'"
  by (auto simp: moveSiblingPartsForMergeToEndOfQueue_def same_run_def Let_def split: list.splits)


section \<open>Steps that do not run or order entries\<close>

definition same_work :: "'c queue_state \<Rightarrow> 'c queue_state \<Rightarrow> bool" where
  "same_work q q' \<longleftrightarrow> queue_format q' = queue_format q \<and> entries q' = entries q \<and> queue q' = queue q
     \<and> inserts_by_time q' = inserts_by_time q \<and> min_unprocessed_insert_time q' = min_unprocessed_insert_time q
     \<and> future_parts q' = future_parts q
     \<and> currently_executing_drop_replace_ranges q' = currently_executing_drop_replace_ranges q"

lemma same_work_refl [simp]: "same_work q q"
  by (simp add: same_work_def)

lemma same_work_trans: "same_work a b \<Longrightarrow> same_work b c \<Longrightarrow> same_work a c"
  by (simp add: same_work_def)

lemma same_work_update [simp]:
  "same_work q (q'\<lparr>current_parts := s\<rparr>) \<longleftrightarrow> same_work q q'" "same_work q (q'\<lparr>virtual_parts := s\<rparr>) \<longleftrightarrow> same_work q q'"
  "same_work q (q'\<lparr>mutations_by_znode := m\<rparr>) \<longleftrightarrow> same_work q q'" "same_work q (q'\<lparr>mutation_pointer := z\<rparr>) \<longleftrightarrow> same_work q q'"
  "same_work q (q'\<lparr>mutations_by_partition := n\<rparr>) \<longleftrightarrow> same_work q q'" "same_work q (q'\<lparr>counters := c\<rparr>) \<longleftrightarrow> same_work q q'"
  "same_work q (q'\<lparr>alter_sequence := al\<rparr>) \<longleftrightarrow> same_work q q'" "same_work q (q'\<lparr>finalizing_scheduled := f\<rparr>) \<longleftrightarrow> same_work q q'"
  "same_work q (q'\<lparr>drop_replace_range_intents := ds\<rparr>) \<longleftrightarrow> same_work q q'"
  by (simp_all add: same_work_def)

lemma same_work_run: "same_work q q' \<Longrightarrow> same_run q q'"
  by (simp add: same_work_def same_run_def)

lemma frame_work: "frame q q' \<Longrightarrow> same_work q q'"
  by (simp add: frame_def same_work_def)

lemma quorum_work: "removeFailedQuorumPart i q = (r, q') \<Longrightarrow> same_work q q'"
  by (auto simp: removeFailedQuorumPart_def split: prod.splits)

lemma intend_work: "same_work q (addDropReplaceIntent i q)"
  by (simp add: addDropReplaceIntent_def)

lemma withdraw_work: "removeDropReplaceIntent i q = Inr q' \<Longrightarrow> same_work q q'"
  by (auto simp: removeDropReplaceIntent_def elim!: bind_r_E)

lemma forget_frame: "removeCurrentPartsFromMutations io q = Inr q' \<Longrightarrow> frame q q'"
  unfolding removeCurrentPartsFromMutations_def
  by (rule frame_fold [where f = "\<lambda>part_name. removeCoveredPartsFromMutations io part_name False True"])
    (blast intro: removeCovered_frame)+

lemma index_work [simp]: "same_work q (fold (index_mutation z) pbs q') \<longleftrightarrow> same_work q q'"
  by (induction pbs arbitrary: q') (simp_all add: index_mutation_def Let_def)

lemma unindex_work [simp]: "same_work q (fold unindex_mutation pbs q') \<longleftrightarrow> same_work q q'"
  by (induction pbs arbitrary: q') (simp_all add: unindex_mutation_def Let_def)

lemma count_work:
  "incrementMutationsCounters cmds q = Inr q' \<Longrightarrow> same_work p q \<Longrightarrow> same_work p q'"
  "decrementMutationsCounters cmds q = Inr q' \<Longrightarrow> same_work p q \<Longrightarrow> same_work p q'"
  by (auto simp: incrementMutationsCounters_def decrementMutationsCounters_def elim!: bind_r_E)

lemma drop_obsolete_work: "drop_obsolete zk zs (k, q) = Inr (k', q') \<Longrightarrow> same_work q q'"
  by (auto simp: drop_obsolete_def Let_def elim!: bind_r_E count_work(2) split: prod.splits if_splits)

lemma load_mutation_work:
  assumes "load_mutation io hash_order m q = Inr q'"
  shows "same_work q q'"
proof -
  obtain q1 s where q1: "incrementMutationsCounters (commands m) q = Inr q1" and
    q': "q' = (let p = fold (index_mutation (mutation_znode m)) (block_numbers m)
               (q1\<lparr>mutations_by_znode := map_put (mutation_znode m) ((MutationStatus (queue_format q) m)\<lparr>parts_to_do := s\<rparr>)
                  (mutations_by_znode q1)\<rparr>);
             p = (if set_size s = 0 then p\<lparr>finalizing_scheduled := True\<rparr> else p)
         in if isAlterMutationEntry m \<and> mutation_znode m > mutation_pointer p
            then p\<lparr>alter_sequence := addMutationForAlter (mutation_alter_version m) (alter_sequence p)\<rparr> else p)"
    using assms unfolding load_mutation_def Let_def by (elim bind_r_E) auto
  have "same_work q q1" by (rule count_work(1) [OF q1 same_work_refl])
  then show ?thesis by (simp add: q' Let_def)
qed

lemma updateMutations_work:
  assumes "updateMutations io hash_order zk found q = Inr (k, q')"
  shows "same_work q q'"
proof -
  have drop: "fold_r (drop_obsolete zk) es (a, p) = Inr (b, p') \<Longrightarrow> same_work p p'" for es a b p p'
  proof (induction es arbitrary: a p)
    case (Cons e es)
    then obtain a1 p1 where "drop_obsolete zk e (a, p) = Inr (a1, p1)" "fold_r (drop_obsolete zk) es (a1, p1) = Inr (b, p')"
      by (auto elim!: bind_r_E)
    then show ?case using Cons.IH drop_obsolete_work same_work_trans by blast
  qed simp
  have ld: "fold_r (load_mutation io hash_order) ms p = Inr p' \<Longrightarrow> same_work p p'" for ms p p'
    by (induction ms arbitrary: p) (auto elim!: bind_r_E intro: same_work_trans load_mutation_work)
  from assms show ?thesis unfolding updateMutations_def Let_def by (auto elim!: bind_r_E intro: same_work_trans drop ld)
qed

lemma removeMutation_work: "removeMutation z q = Inr (m, active, q') \<Longrightarrow> same_work q q'"
  by (auto simp: removeMutation_def Let_def elim!: bind_r_E dest: count_work(2) [where p = q] split: option.splits if_splits)


text \<open>The end of mutations, around the construction of the predicate.\<close>

lemma mark_passed_work: "mark_passed zs (cs, q) = Inr (cs', q') \<Longrightarrow> same_work q q'"
  by (auto simp: mark_passed_def Let_def elim!: bind_r_E count_work(2) split: prod.splits if_splits)

lemma mark_all_work: "fold_r mark_passed es (cs, q) = Inr (cs', q') \<Longrightarrow> same_work q q'"
proof (induction es arbitrary: cs q)
  case (Cons e es)
  then obtain c1 q1 where "mark_passed e (cs, q) = Inr (c1, q1)" "fold_r mark_passed es (c1, q1) = Inr (cs', q')"
    by (auto elim!: bind_r_E)
  then show ?case using Cons.IH mark_passed_work same_work_trans by blast
qed simp

lemma finish_mutation_work: "finish_mutation m q = Inr q' \<Longrightarrow> same_work q q'"
  by (auto simp: finish_mutation_def Let_def elim!: count_work(2) split: option.splits if_splits)

lemma finish_all_work: "fold_r finish_mutation ms q = Inr q' \<Longrightarrow> same_work q q'"
  by (induction ms arbitrary: q) (auto elim!: bind_r_E intro: same_work_trans finish_mutation_work)

definition candidates :: "'c queue_state \<Rightarrow> string list \<Rightarrow> 'c mutation_entry list" where
  "candidates q zs = concat (map (\<lambda>z. case map_of (mutations_by_znode q) z of
                                       None \<Rightarrow> [] | Some status \<Rightarrow> [status_entry status]) zs)"

lemma tryFinalizeMutations_eq:
  "tryFinalizeMutations get_predicate caches q =
     bind_r (fold_r mark_passed (mutations_by_znode q) ([], q)) (\<lambda>(zs, q1).
       if candidates q1 zs = [] then Inr (False, caches, q1)
       else bind_r (get_predicate (concat (map (\<lambda>m. filter (\<lambda>pid. pid \<notin> set (caches (mutation_znode m)))
              (map fst (block_numbers m))) (candidates q1 zs))) q1) (\<lambda>(pred, q2).
            bind_r (finished_candidates pred q2 (candidates q1 zs) caches) (\<lambda>(finished, c).
              if finished = [] then Inr (False, c, q2)
              else bind_r (fold_r finish_mutation finished (q2\<lparr>mutation_pointer := mutation_znode (last finished)\<rparr>)) (\<lambda>q.
                     Inr (True, c, q)))))"
  unfolding tryFinalizeMutations_def Let_def candidates_def by (rule refl)

lemma finalize_phases:
  assumes "tryFinalizeMutations get_predicate caches q = Inr (r, caches', q')"
  shows "\<exists>q1 q2. same_work q q1 \<and> (q2 = q1 \<or> (\<exists>hint pred. get_predicate hint q1 = Inr (pred, q2))) \<and> same_work q2 q'"
proof -
  obtain zs q1 where q1: "fold_r mark_passed (mutations_by_znode q) ([], q) = Inr (zs, q1)"
    using assms unfolding tryFinalizeMutations_def by (auto elim!: bind_r_E)
  have w: "same_work q q1" by (rule mark_all_work [OF q1])
  show ?thesis
  proof (cases "candidates q1 zs = []")
    case True
    then have "q' = q1" using assms q1 unfolding tryFinalizeMutations_eq by simp
    then show ?thesis using w by (blast intro: same_work_refl)
  next
    case False
    then obtain hint pred q2 finished c where q2: "get_predicate hint q1 = Inr (pred, q2)" and rest:
        "(if finished = [] then Inr (False, c, q2)
          else bind_r (fold_r finish_mutation finished (q2\<lparr>mutation_pointer := mutation_znode (last finished)\<rparr>)) (\<lambda>q.
                 Inr (True, c, q))) = Inr (r, caches', q')"
      using assms q1 unfolding tryFinalizeMutations_eq by (auto elim!: bind_r_E simp del: split_paired_All)
    have "same_work q2 q'"
    proof (cases "finished = []")
      case False
      then have "fold_r finish_mutation finished (q2\<lparr>mutation_pointer := mutation_znode (last finished)\<rparr>) = Inr q'"
        using rest by (auto elim!: bind_r_E)
      then have "same_work (q2\<lparr>mutation_pointer := mutation_znode (last finished)\<rparr>) q'" by (rule finish_all_work)
      moreover have "same_work q2 (q2\<lparr>mutation_pointer := mutation_znode (last finished)\<rparr>)" by simp
      ultimately show ?thesis by (blast intro: same_work_trans)
    qed (use rest in simp)
    then show ?thesis using w q2 by blast
  qed
qed

text \<open>Loading the queue is inserting its entries.\<close>

lemma insertUnlocked_entries:
  assumes "insertUnlocked io p (c, set_entry p qe q) = Inr (c', q')"
  shows "entries q' = (entries q)(p \<mapsto> qe)"
proof -
  have "entries (set_entry p qe q) p = Some qe" by (simp add: set_entry_def)
  from insertUnlocked_frame [OF assms this] obtain q1 q2 c3 q3 where s: "frame (set_entry p qe q) q1"
      "enqueue io p (log_data qe) q1 = Inr q2" "note_insert p (log_data qe) (c, q2) = (c3, q3)"
      "q' = note_alter (log_data qe) q3" by blast
  have "entries q2 = entries q1" using s(2) by (auto simp: enqueue_def elim!: bind_r_E split: if_splits)
  moreover have "entries q3 = entries q2" using s(3) by (auto simp: note_insert_def Let_def split: if_splits)
  ultimately show ?thesis using s(1,4) by (simp add: frame_def note_alter_def set_entry_def)
qed

lemma load_steps:
  assumes "fold_r (load_entry io) found (c, q) = Inr (c', q')" "distinct (map fst found)"
    "\<forall>pe \<in> set found. entries q (fst pe) = None \<and> timed_entry (snd pe)"
  shows "(queue_step io)\<^sup>*\<^sup>* q q'"
  using assms
proof (induction found arbitrary: c q)
  case (Cons pe found)
  obtain p e where pe: "pe = (p, e)" by (cases pe)
  obtain c1 q1 where q1: "insertUnlocked io p (c, set_entry p (fresh_entry e) q) = Inr (c1, q1)"
      "fold_r (load_entry io) found (c1, q1) = Inr (c', q')"
  proof -
    obtain cq where "load_entry io pe (c, q) = Inr cq" "fold_r (load_entry io) found cq = Inr (c', q')"
      using Cons.prems(1) by (auto elim!: bind_r_E)
    then show thesis using that pe by (cases cq) (simp add: load_entry_def)
  qed
  have "queue_step io q q1" using Cons.prems(3) q1(1) pe by (intro queue_step.insert) auto
  moreover have "(queue_step io)\<^sup>*\<^sup>* q1 q'"
    by (rule Cons.IH [OF q1(2)])
      (use Cons.prems(2,3) pe insertUnlocked_entries [OF q1(1)] in \<open>force simp: image_iff\<close>)+
  ultimately show ?case by (rule converse_rtranclp_into_rtranclp)
qed simp

text \<open>
  What the work of the queue keeps, and what is about entries and their order only, all steps keep that do
  not begin with \<open>clear\<close>; initialization is left to be shown.
\<close>

lemma mutation_step_keeps:
  assumes "\<And>q q'. P q \<Longrightarrow> same_work q q' \<Longrightarrow> P q'" "\<And>q q'. P q \<Longrightarrow> queue_step io q q' \<Longrightarrow> P q'"
    "mutation_step io nodes q q'" "P q"
  shows "P q'"
  using assms(3,4)
proof (cases rule: mutation_step.cases)
  case queue_work
  then show ?thesis using assms(2,4) by blast
next
  case (update found hash_order zk killed)
  then show ?thesis using assms(1,4) updateMutations_work by blast
next
  case (remove z m active)
  then show ?thesis using assms(1,4) removeMutation_work by blast
qed

lemma replica_step_keeps:
  assumes work: "\<And>q q'. P q \<Longrightarrow> same_work q q' \<Longrightarrow> P q'" and step: "\<And>q q'. P q \<Longrightarrow> queue_step io q q' \<Longrightarrow> P q'"
    and init: "\<And>q q' parts. P q \<Longrightarrow> initialize io parts q = Inr q' \<Longrightarrow> P q'"
    and "replica_step io nodes q q'" "P q"
  shows "P q'"
  using assms(4,5)
proof (cases rule: replica_step.cases)
  case work
  then show ?thesis by (rule mutation_step_keeps [where P = P, rotated 2]) (use assms(1,2,5) in blast)+
next
  case (finalize get_predicate caches r caches')
  obtain q1 q2 where q: "same_work q q1" "q2 = q1 \<or> (\<exists>hint pred. get_predicate hint q1 = Inr (pred, q2))" "same_work q2 q'"
    using finalize_phases [OF finalize(2)] by blast
  have "(mutation_step io nodes)\<^sup>*\<^sup>* q1 q2" using q(2) finalize(1) by auto
  then have "P q1 \<Longrightarrow> P q2"
  proof (induction rule: rtranclp_induct)
    case (step a b)
    show ?case
      by (rule mutation_step_keeps [where P = P, OF _ _ step.hyps(2) step.IH [OF step.prems]]) (use assms(1,2) in blast)+
  qed
  then show ?thesis using q(1,3) assms(1,5) by blast
next
  case (initialize parts)
  then show ?thesis using init assms(5) by blast
next
  case (load found ptr c)
  let ?new = "filter (\<lambda>pe. Some (znode_name (snd pe))
     \<notin> set (map (\<lambda>p. map_option (znode_name \<circ> log_data) (entries q p)) (queue q))) found"
  obtain q1 where q1: "fold_r (load_entry io) ?new (None, q) = Inr (c, q1)"
      "q' = (case ptr of None \<Rightarrow> q1 | Some z \<Rightarrow> q1\<lparr>mutation_pointer := z\<rparr>)"
    using load(3) unfolding load_def Let_def by (auto elim!: bind_r_E)
  have "(queue_step io)\<^sup>*\<^sup>* q q1"
    by (rule load_steps [OF q1(1)]) (use load(1,2) in \<open>simp_all add: list_all_iff distinct_map_filter\<close>)
  then have "P q1" using assms(5) by (induction rule: rtranclp_induct) (use step in blast)+
  moreover have "same_work q1 q'" using q1(2) by (simp split: option.splits)
  ultimately show ?thesis using assms(1) by blast
qed

text \<open>Clearing and initializing the queue leaves the entries in execution alone.\<close>

lemma initialize_part_work: "initialize_part io name q = Inr q' \<Longrightarrow> same_work q q'"
  by (auto simp: initialize_part_def elim!: bind_r_E)

lemma initialize_same_work:
  assumes "initialize io parts q = Inr q'"
  shows "same_work (queue_clear q) q'"
proof -
  have "same_work p q'" if "fold_r (initialize_part io) parts p = Inr q'" for p
    using that by (induction parts arbitrary: p) (auto elim!: bind_r_E intro: same_work_trans initialize_part_work)
  then show ?thesis using assms by (simp add: initialize_def)
qed

lemma initialize_same_run: "initialize io parts q = Inr q' \<Longrightarrow> same_run q q'"
  using initialize_same_work same_work_run by (fastforce simp: queue_clear_def same_run_def)

end
