(* ===== verification/Queue_Safe.thy ===== *)
theory Queue_Safe
  imports Queue_Steps
begin

text \<open>
  The invariant of the executions is kept by the steps that start, change and end them, so it holds in
  every reachable state; and the exceptions that the code marks as bugs are not raised.
\<close>

section \<open>Tagging and untagging\<close>

lemma tag_parts:
  assumes "fold_r (tag_part p) names q = Inr q'" "map_ok (future_parts q)"
  shows "q' = q\<lparr>future_parts := future_parts q'\<rparr> \<and> map_ok (future_parts q')
    \<and> map_of (future_parts q') = (\<lambda>n. if n \<in> set names then Some p else map_of (future_parts q) n)
    \<and> (\<forall>n \<in> set names. map_of (future_parts q) n = None) \<and> distinct names"
  using assms
proof (induction names arbitrary: q)
  case (Cons n names)
  let ?q = "q\<lparr>future_parts := map_put n p (future_parts q)\<rparr>"
  have n: "map_of (future_parts q) n = None" and rest: "fold_r (tag_part p) names ?q = Inr q'"
  proof -
    obtain t where t: "tag_part p n q = Inr t" "fold_r (tag_part p) names t = Inr q'" using Cons.prems(1) by (auto elim!: bind_r_E)
    show "map_of (future_parts q) n = None" "fold_r (tag_part p) names ?q = Inr q'"
      using t by (simp_all add: tag_part_def split: if_splits)
  qed
  have new: "map_of (future_parts ?q) = (map_of (future_parts q))(n \<mapsto> p)" and ok: "map_ok (future_parts ?q)"
    using Cons.prems(2) by simp_all
  note IH = Cons.IH [OF rest ok, unfolded new]
  have "n \<notin> set names" using IH by (metis fun_upd_same option.distinct(1))
  moreover have "q' = q\<lparr>future_parts := future_parts q'\<rparr>"
  proof -
    have "?q\<lparr>future_parts := future_parts q'\<rparr> = q\<lparr>future_parts := future_parts q'\<rparr>" by simp
    then show ?thesis using conjunct1 [OF IH] by (rule trans [rotated])
  qed
  ultimately show ?case using IH n by (auto simp: fun_eq_iff split: if_splits)
qed simp

lemma tag_parts_succeed:
  assumes "distinct names" "\<forall>n \<in> set names. map_of (future_parts q) n = None" "map_ok (future_parts q)"
  shows "\<exists>q'. fold_r (tag_part p) names q = Inr q'"
  using assms
proof (induction names arbitrary: q)
  case (Cons n names)
  let ?q = "q\<lparr>future_parts := map_put n p (future_parts q)\<rparr>"
  have "\<forall>m \<in> set names. map_of (future_parts ?q) m = None" using Cons.prems by auto
  then have "\<exists>q'. fold_r (tag_part p) names ?q = Inr q'" using Cons.prems by (intro Cons.IH) auto
  moreover have "tag_part p n q = Inr ?q" using Cons.prems(2) by (simp add: tag_part_def)
  ultimately show ?case by simp
qed simp

lemma untag_parts:
  "fold untag_part names q = q\<lparr>future_parts := filter (\<lambda>e. fst e \<notin> set names) (future_parts q)\<rparr>"
proof (induction names arbitrary: q)
  case (Cons n names)
  have "filter (\<lambda>e. fst e \<notin> set names) (map_erase n (future_parts q)) = filter (\<lambda>e. fst e \<notin> set (n # names)) (future_parts q)"
    by (auto simp: map_erase_def conj_commute intro!: filter_cong)
  then show ?case using Cons.IH by (simp add: untag_part_def)
qed simp

lemma map_of_filter_keys: "map_of (filter (\<lambda>e. fst e \<notin> S) m) = (\<lambda>n. if n \<in> S then None else map_of m n)"
  by (induction m) (auto simp: fun_eq_iff)

lemma map_ok_filtered: "map_ok m \<Longrightarrow> map_ok (filter P m)"
  by (induction m) auto

section \<open>What the checks promise\<close>

lemma first_reason_None: "first_reason a b = Inr None \<longleftrightarrow> a = Inr None \<and> b = Inr None"
  by (auto simp: first_reason_def bind_r_def split: sum.splits option.splits)

lemma find_reason_None: "find_reason f xs = Inr None \<longleftrightarrow> (\<forall>x \<in> set xs. f x = Inr None)"
  by (induction xs) (auto simp: first_reason_None)

lemma walk_future_None:
  assumes "walk_future io q e r False fs acc = Inr (None, acc')" "(n, p) \<in> set fs"
  shows "\<exists>i. fromPartName io n (queue_format q) = Inr i \<and> (isDisjoint i r \<or> isFakeDropRangePart r \<and> contains r i)"
  using assms by (induction fs) (fastforce elim!: bind_r_E split: if_splits)+

text \<open>With waiting, a part that overlaps is one of an older entry, and this entry is in the list.\<close>

lemma walk_future_grows: "walk_future io q e r True fs acc = Inr (None, acc') \<Longrightarrow> set acc \<subseteq> set acc'"
  by (induction fs arbitrary: acc) (fastforce elim!: bind_r_E split: if_splits)+

lemma walk_future_waits:
  assumes "walk_future io q e r True fs acc = Inr (None, acc')" "(n, p) \<in> set fs"
  shows "\<exists>i. fromPartName io n (queue_format q) = Inr i \<and> (apart r i
    \<or> p \<in> set acc' \<and> (\<exists>other. entries q p = Some other \<and> znode_name (log_data other) \<le> znode_name e))"
  using assms
proof (induction fs arbitrary: acc)
  case (Cons f fs)
  obtain n1 p1 where f: "f = (n1, p1)" by (cases f)
  obtain i where i: "fromPartName io n1 (queue_format q) = Inr i" using Cons.prems(1) f by (auto elim!: bind_r_E)
  obtain acc1 where rest: "walk_future io q e r True fs acc1 = Inr (None, acc')"
    and now: "apart r i \<or> p1 \<in> set acc1 \<and> (\<exists>other. entries q p1 = Some other \<and> znode_name (log_data other) \<le> znode_name e)"
  proof (cases "isDisjoint i r \<or> isFakeDropRangePart r \<and> contains r i")
    case True
    moreover have "walk_future io q e r True fs acc = Inr (None, acc')" using Cons.prems(1) f i True by (auto split: if_splits)
    ultimately show thesis using that [of acc] by (auto simp: apart_def isDisjoint_sym)
  next
    case False
    then obtain other where "deref q p1 = Inr other" "\<not> znode_name e < znode_name (log_data other)"
        "walk_future io q e r True fs (acc @ [p1]) = Inr (None, acc')"
      using Cons.prems(1) f i by (auto elim!: bind_r_E split: if_splits)
    then show thesis using that [of "acc @ [p1]"] by (auto simp: deref_def not_less split: option.splits)
  qed
  show ?case
  proof (cases "(n, p) = f")
    case True
    then show ?thesis using now i f walk_future_grows [OF rest] by auto
  next
    case False
    then show ?thesis using Cons.IH [OF rest] Cons.prems(2) by auto
  qed
qed simp

text \<open>An entry that may be executed: its parts are not tagged and are apart from all future parts.\<close>

lemma shouldExecute_parts:
  assumes "shouldExecuteLogEntry io env blocks q qe = Inr None"
    "getVirtualPartNames io (queue_format q) (log_data qe) = Inr names" "n \<in> set names"
  shows "map_of (future_parts q) n = None"
    "fromPartName io n (queue_format q) = Inr i \<Longrightarrow> (n', p') \<in> set (future_parts q)
      \<Longrightarrow> \<exists>i'. fromPartName io n' (queue_format q) = Inr i' \<and> apart i i'"
proof -
  have "check_virtual_part io q (log_data qe) n = Inr None"
    using assms by (auto simp: shouldExecuteLogEntry_def Let_def first_reason_None check_virtual_parts_def find_reason_None
        split: if_splits)
  then obtain w where w: "isCoveredByFuturePartsImpl io q (log_data qe) False n = Inr (None, w)"
    by (auto simp: check_virtual_part_def first_reason_None bind_r_Inr_iff)
  then show none: "map_of (future_parts q) n = None"
    by (auto simp: isCoveredByFuturePartsImpl_def split: option.splits)
  show "fromPartName io n (queue_format q) = Inr i \<Longrightarrow> (n', p') \<in> set (future_parts q)
      \<Longrightarrow> \<exists>i'. fromPartName io n' (queue_format q) = Inr i' \<and> apart i i'"
    using w none walk_future_None [of io q "log_data qe" i "future_parts q" "[]" w n' p'] isDisjoint_sym
    by (auto simp: isCoveredByFuturePartsImpl_def apart_def)
qed

lemma shouldExecute_drop_range:
  assumes "shouldExecuteLogEntry io env blocks q qe = Inr None"
    "getDropRange io (queue_format q) (log_data qe) = Inr (Some name)" "fromPartName io name (queue_format q) = Inr d"
    "d' \<in> set (currently_executing_drop_replace_ranges q)"
  shows "isDisjoint d d'"
proof -
  have "check_drop_range io q (log_data qe) = Inr None"
    using assms(1) by (auto simp: shouldExecuteLogEntry_def Let_def first_reason_None split: if_splits)
  then show ?thesis using assms(2-4) by (auto simp: check_drop_range_def find_None_iff)
qed

section \<open>Start\<close>

lemma info_insert_set: "d' \<in> set (info_insert d ds) \<Longrightarrow> d' = d \<or> d' \<in> set ds"
  by (induction d ds rule: info_insert.induct) (auto split: if_splits)

lemma info_insert_old: "d' \<in> set ds \<Longrightarrow> d' \<in> set (info_insert d ds)"
  by (induction d ds rule: info_insert.induct) auto

lemma info_insert_new: "\<exists>d' \<in> set (info_insert d ds). info_eq d d'"
proof (induction d ds rule: info_insert.induct)
  case (2 i j js)
  then show ?case by (auto simp: info_eq_def)
qed (simp add: info_eq_def)

lemma with_drop_range_Inr:
  assumes "with_drop_range f io e q = Inr q'"
  shows "(getDropRange io (queue_format q) e = Inr None \<and> q' = q)
    \<or> (\<exists>name d. getDropRange io (queue_format q) e = Inr (Some name) \<and> fromPartName io name (queue_format q) = Inr d
         \<and> q' = q\<lparr>currently_executing_drop_replace_ranges := f d (currently_executing_drop_replace_ranges q)\<rparr>)"
  using assms by (auto simp: with_drop_range_def elim!: bind_r_E split: option.splits)

lemma start_executing_ok:
  assumes ok: "exec_ok io q" and qe: "entries q p = Some qe" "\<not> currently_executing qe"
    and should: "shouldExecuteLogEntry io env blocks q qe = Inr None"
    and start: "start_executing io now p q = Inr q'"
  shows "exec_ok io q'"
proof -
  let ?fv = "queue_format q" and ?e = "log_data qe"
  let ?qe = "qe\<lparr>currently_executing := True, num_tries := num_tries qe + 1, last_attempt_time := now\<rparr>"
  obtain q1 names where q1: "with_drop_range info_insert io ?e q = Inr q1"
      and names: "getVirtualPartNames io (queue_format (set_entry p ?qe q1)) ?e = Inr names"
      and tag: "fold_r (tag_part p) names (set_entry p ?qe q1) = Inr q'"
    using start qe(1) by (auto simp: start_executing_def deref_def Let_def elim!: bind_r_E)
  note q1 = with_drop_range_Inr [OF q1]
  have f1: "queue_format q1 = ?fv" "future_parts q1 = future_parts q" "entries q1 = entries q" using q1 by auto
  have map: "map_ok (future_parts q)"
    and tab: "\<And>n p. map_of (future_parts q) n = Some p \<longleftrightarrow> (\<exists>qe. executing q p qe \<and> n \<in> produced io ?fv qe)"
    and idle: "actual_new_part_name qe = []" "replace_range_actual_new_part_names qe = []"
    using ok qe by (auto simp: exec_ok_def table_ok_def)
  have "map_ok (future_parts (set_entry p ?qe q1))" using map f1 by (simp add: set_entry_def)
  moreover have fut: "future_parts (set_entry p ?qe q1) = future_parts q" using f1 by (simp add: set_entry_def)
  ultimately have t: "q' = (set_entry p ?qe q1)\<lparr>future_parts := future_parts q'\<rparr>"
      "map_ok (future_parts q')" and m: "map_of (future_parts q') = (\<lambda>n. if n \<in> set names then Some p else map_of (future_parts q) n)"
    and dist: "distinct names"
    using tag_parts [OF tag] unfolding fut by blast+
  have fv: "queue_format q' = ?fv" and ent: "entries q' = (entries q)(p \<mapsto> ?qe)"
    and rng: "currently_executing_drop_replace_ranges q' = currently_executing_drop_replace_ranges q1"
    using arg_cong [OF t(1), of queue_format] arg_cong [OF t(1), of entries]
      arg_cong [OF t(1), of currently_executing_drop_replace_ranges] f1 by (simp_all add: set_entry_def)
  have names': "getVirtualPartNames io ?fv ?e = Inr names" using names f1 by (simp add: set_entry_def)
  have exe: "executing q' p' qe' \<longleftrightarrow> (if p' = p then qe' = ?qe else executing q p' qe')" for p' qe'
    by (auto simp: executing_def ent)
  have notex: "\<not> executing q p qe'" for qe' using qe by (auto simp: executing_def)
  have plist: "produced_list io ?fv ?qe = names" using names' idle by (simp add: produced_list_def)
  then have prod: "produced io ?fv ?qe = set names" by simp
  have "table_ok io q'"
    unfolding table_ok_def fv
  proof (intro conjI allI impI)
    fix n p'
    show "map_of (future_parts q') n = Some p' \<longleftrightarrow> (\<exists>qe. executing q' p' qe \<and> n \<in> produced io ?fv qe)"
    proof (cases "n \<in> set names")
      case True
      have "map_of (future_parts q) n = None" by (rule shouldExecute_parts(1) [OF should names' True])
      then have "\<not> (executing q p' qe' \<and> n \<in> produced io ?fv qe')" for qe' using tab by (metis option.distinct(1))
      then show ?thesis using True m exe prod by auto
    next
      case False
      then show ?thesis using m exe prod tab notex by (cases "p' = p") auto
    qed
  next
    fix p' qe' assume "entries q' p' = Some qe'" "\<not> currently_executing qe'"
    then have "entries q p' = Some qe'" "\<not> currently_executing qe'" by (auto simp: ent split: if_splits)
    then show "actual_new_part_name qe' = []" "replace_range_actual_new_part_names qe' = []"
      using ok by (auto simp: exec_ok_def table_ok_def)
  qed (rule t(2))
  moreover have vir: "virtual_of io q' p' i \<Longrightarrow> p' \<noteq> p \<Longrightarrow> virtual_of io q p' i" for p' i
    by (auto simp: virtual_of_def exe fv)
  have tagged: "apart i i'" if v: "virtual_of io q' p i" and n': "executing q p' qe'" "n' \<in> produced io ?fv qe'"
      "fromPartName io n' ?fv = Inr i'" for p' i i' qe' n'
  proof -
    obtain n where n: "n \<in> set names" "fromPartName io n ?fv = Inr i"
      using v names' by (auto simp: virtual_of_def exe fv)
    have "(n', p') \<in> set (future_parts q)" using tab n'(1,2) by (metis map_of_SomeD)
    then show ?thesis using shouldExecute_parts(2) [OF should names' n] n'(3) by fastforce
  qed
  have new: "apart i i'" if v: "virtual_of io q' p i" "virtual_of io q p' i'" for p' i i'
  proof -
    obtain qe' names2 n' where n': "executing q p' qe'" "getVirtualPartNames io ?fv (log_data qe') = Inr names2"
        "n' \<in> set names2" "fromPartName io n' ?fv = Inr i'" using v(2) by (auto simp: virtual_of_def)
    then have "n' \<in> produced io ?fv qe'" by (simp add: produced_list_def)
    then show ?thesis using tagged [OF v(1) n'(1)] n'(4) by blast
  qed
  have new_actual: "apart i i'" if v: "virtual_of io q' p i" "actual_of io q p' i'" for p' i i'
  proof -
    obtain qe' n' where n': "executing q p' qe'" "n' \<in> produced io ?fv qe'" "fromPartName io n' ?fv = Inr i'"
      using v(2) by (auto simp: actual_of_def produced_list_def)
    then show ?thesis by (rule tagged [OF v(1)])
  qed
  have "parts_apart io q'"
  proof -
    have sym: "apart a b \<Longrightarrow> apart b a" for a b by (auto simp: apart_def isDisjoint_sym)
    have av: "actual_of io q' p' i \<Longrightarrow> p' \<noteq> p \<and> actual_of io q p' i" for p' i
      using idle by (auto simp: actual_of_def exe fv split: if_splits)
    have older': "older q a b \<Longrightarrow> older q' a b" for a b
      using qe(1) by (auto simp: older_def ent)
    have "apart i1 i2" if v: "virtual_of io q' p1 i1" "virtual_of io q' p2 i2" "p1 \<noteq> p2" for p1 p2 i1 i2
    proof (cases "p1 = p \<or> p2 = p")
      case True
      then show ?thesis using new vir v sym by metis
    next
      case False
      then have "virtual_of io q p1 i1" "virtual_of io q p2 i2" using vir v by blast+
      then show ?thesis using ok v(3) unfolding exec_ok_def parts_apart_def by blast
    qed
    moreover have "apart i1 i2 \<or> older q' p2 p1" if v: "actual_of io q' p1 i1" "virtual_of io q' p2 i2" "p1 \<noteq> p2" for p1 p2 i1 i2
    proof (cases "p2 = p")
      case True
      then show ?thesis using new_actual v(2) av [OF v(1)] sym by blast
    next
      case False
      then show ?thesis using ok av [OF v(1)] vir [OF v(2)] v(3) older' unfolding exec_ok_def parts_apart_def by blast
    qed
    ultimately show ?thesis unfolding parts_apart_def by blast
  qed
  moreover have "drops_apart io q'"
  proof -
    have old: "drop_range_of io q' p' d \<Longrightarrow> p' \<noteq> p \<Longrightarrow> drop_range_of io q p' d" for p' d
      by (auto simp: drop_range_of_def exe fv)
    have nw: "isDisjoint d d'" if v: "drop_range_of io q' p d" "drop_range_of io q p' d'" for p' d d'
    proof -
      obtain name where name: "getDropRange io ?fv ?e = Inr (Some name)" "fromPartName io name ?fv = Inr d"
        using v(1) by (auto simp: drop_range_of_def exe fv)
      obtain d2 where d2: "d2 \<in> set (currently_executing_drop_replace_ranges q)" "info_eq d' d2"
        using ok v(2) unfolding exec_ok_def drops_apart_def by blast
      have "isDisjoint d d2" by (rule shouldExecute_drop_range [OF should name d2(1)])
      then show ?thesis using d2(2) by (simp add: isDisjoint_def info_eq_def toTuple_def)
    qed
    have "isDisjoint d1 d2" if v: "drop_range_of io q' p1 d1" "drop_range_of io q' p2 d2" "p1 \<noteq> p2" for p1 p2 d1 d2
    proof (cases "p1 = p \<or> p2 = p")
      case True
      then show ?thesis using nw old v isDisjoint_sym by metis
    next
      case False
      then have "drop_range_of io q p1 d1" "drop_range_of io q p2 d2" using old v by blast+
      then show ?thesis using ok v(3) unfolding exec_ok_def drops_apart_def by blast
    qed
    moreover have "\<exists>d' \<in> set (currently_executing_drop_replace_ranges q'). info_eq d d'" if v: "drop_range_of io q' p' d" for p' d
    proof (cases "p' = p")
      case True
      then obtain name where "getDropRange io ?fv ?e = Inr (Some name)" "fromPartName io name ?fv = Inr d"
        using v by (auto simp: drop_range_of_def exe fv)
      then have "currently_executing_drop_replace_ranges q1 = info_insert d (currently_executing_drop_replace_ranges q)"
        using q1 by auto
      then show ?thesis using rng info_insert_new by simp
    next
      case False
      then obtain d2 where "d2 \<in> set (currently_executing_drop_replace_ranges q)" "info_eq d d2"
        using ok old [OF v] unfolding exec_ok_def drops_apart_def by blast
      then show ?thesis using rng q1 info_insert_old by auto
    qed
    ultimately show ?thesis unfolding drops_apart_def by blast
  qed
  moreover have "lists_distinct io q'"
    using ok exe plist dist unfolding exec_ok_def lists_distinct_def fv by (metis (full_types))
  ultimately show ?thesis by (simp add: exec_ok_def)
qed

text \<open>The start does not look at the order of the queue.\<close>

lemma fold_tag_queue:
  "fold_r (tag_part p) names (q\<lparr>queue := ps\<rparr>) = map_sum id (\<lambda>q. q\<lparr>queue := ps\<rparr>) (fold_r (tag_part p) names q)"
proof (induction names arbitrary: q)
  case (Cons n names)
  have "tag_part p n (q\<lparr>queue := ps\<rparr>) = map_sum id (\<lambda>q. q\<lparr>queue := ps\<rparr>) (tag_part p n q)"
    by (simp add: tag_part_def)
  then show ?case using Cons.IH by (cases "tag_part p n q") simp_all
qed simp

lemma start_executing_queue:
  "start_executing io now p (q\<lparr>queue := ps\<rparr>) = map_sum id (\<lambda>q. q\<lparr>queue := ps\<rparr>) (start_executing io now p q)"
proof (cases "entries q p")
  case None
  then show ?thesis by (simp add: start_executing_def deref_def)
next
  case (Some qe)
  have "with_drop_range info_insert io (log_data qe) (q\<lparr>queue := ps\<rparr>)
      = map_sum id (\<lambda>q. q\<lparr>queue := ps\<rparr>) (with_drop_range info_insert io (log_data qe) q)"
    by (auto simp: with_drop_range_def bind_r_def split: sum.splits option.splits)
  moreover have "fold_r (tag_part p) names (set_entry p qe' (q1\<lparr>queue := ps\<rparr>))
      = map_sum id (\<lambda>q. q\<lparr>queue := ps\<rparr>) (fold_r (tag_part p) names (set_entry p qe' q1))" for names qe' q1
  proof -
    have "set_entry p qe' (q1\<lparr>queue := ps\<rparr>) = (set_entry p qe' q1)\<lparr>queue := ps\<rparr>" by (cases q1) (simp add: set_entry_def)
    then show ?thesis by (simp add: fold_tag_queue)
  qed
  ultimately show ?thesis using Some
    by (cases "with_drop_range info_insert io (log_data qe) q")
      (auto simp: start_executing_def deref_def Let_def set_entry_def bind_r_def split: sum.splits)
qed

section \<open>Selection\<close>

lemma select_loop_Inr:
  assumes "select_loop io env blocks ps q = Inr (r, q')"
  shows "same_run q q' \<and> (\<exists>E. q' = q\<lparr>entries := E\<rparr>)
    \<and> (\<forall>p. r = Some p \<longrightarrow> p \<in> set ps \<and> (\<exists>qe. entries q' p = Some qe \<and> \<not> currently_executing qe
          \<and> shouldExecuteLogEntry io env blocks q' qe = Inr None))"
  using assms
proof (induction ps arbitrary: q)
  case Nil
  then show ?case by (auto intro: exI [of _ "entries q"])
next
  case (Cons p ps)
  obtain qe where qe: "entries q p = Some qe" using Cons.prems by (auto simp: deref_def split: option.splits)
  have same: "\<exists>E. q = q\<lparr>entries := E\<rparr>" by (intro exI [of _ "entries q"]) simp
  show ?case
  proof (cases "currently_executing qe")
    case True
    then have "select_loop io env blocks ps q = Inr (r, q')" using Cons.prems qe by (simp add: deref_def)
    from Cons.IH [OF this] show ?thesis by auto
  next
    case False
    then obtain d where d: "shouldExecuteLogEntry io env blocks q qe = Inr d"
      using Cons.prems qe by (auto simp: deref_def elim!: bind_r_E)
    show ?thesis
    proof (cases d)
      case None
      then show ?thesis using Cons.prems qe False d same by (auto simp: deref_def)
    next
      case (Some reason)
      let ?qe = "qe\<lparr>postpone_reason := Some reason, num_postponed := num_postponed qe + 1, last_postpone_time := now_s env\<rparr>"
      have "select_loop io env blocks ps (set_entry p ?qe q) = Inr (r, q')"
        using Cons.prems qe False d Some by (simp add: deref_def)
      from Cons.IH [OF this] have IH: "same_run (set_entry p ?qe q) q'" "\<exists>E. q' = (set_entry p ?qe q)\<lparr>entries := E\<rparr>"
          "\<forall>p. r = Some p \<longrightarrow> p \<in> set ps \<and> (\<exists>qe. entries q' p = Some qe \<and> \<not> currently_executing qe
             \<and> shouldExecuteLogEntry io env blocks q' qe = Inr None)" by blast+
      have "same_run q (set_entry p ?qe q)" using qe by (simp add: same_run_def set_entry_def run_core_def)
      moreover have "\<exists>E. q' = q\<lparr>entries := E\<rparr>" using IH(2) by (auto simp: set_entry_def)
      ultimately show ?thesis using IH(1,3) same_run_trans by auto
    qed
  qed
qed

text \<open>The order of the queue does not enter the decision through anything but the entries in it.\<close>

lemma selectEntryToProcess_ok:
  assumes "exec_ok io q" "selectEntryToProcess io env blocks q = Inr (r, q')"
  shows "exec_ok io q'"
proof -
  obtain c q1 where loop: "select_loop io env blocks (queue q) q = Inr (c, q1)"
    and rest: "(case c of None \<Rightarrow> Inr (None, q1)
      | Some p \<Rightarrow> bind_r (start_executing io (now_s env) p (q1\<lparr>queue := remove1 p (queue q1) @ [p]\<rparr>)) (\<lambda>q. Inr (Some p, q)))
      = Inr (r, q')"
    using assms(2) by (auto simp: selectEntryToProcess_def elim!: bind_r_E)
  note l = select_loop_Inr [OF loop]
  have ok1: "exec_ok io q1" using same_run_exec_ok [OF assms(1)] l by blast
  show ?thesis
  proof (cases c)
    case None
    then show ?thesis using rest ok1 by simp
  next
    case (Some p)
    obtain qe where qe: "entries q1 p = Some qe" "\<not> currently_executing qe" "shouldExecuteLogEntry io env blocks q1 qe = Inr None"
      using l Some by blast
    let ?q = "q1\<lparr>queue := remove1 p (queue q1) @ [p]\<rparr>"
    have "start_executing io (now_s env) p ?q = Inr q'" using rest Some by (auto elim!: bind_r_E)
    then obtain q2 where q2: "start_executing io (now_s env) p q1 = Inr q2" "q' = q2\<lparr>queue := remove1 p (queue q1) @ [p]\<rparr>"
      using start_executing_queue [where io = io and now = "now_s env" and p = p and q = q1 and ps = "remove1 p (queue q1) @ [p]"]
      by (cases "start_executing io (now_s env) p q1") auto
    have "exec_ok io q2" by (rule start_executing_ok [OF ok1 qe q2(1)])
    moreover have "same_run q2 q'" using q2(2) by (simp add: same_run_def)
    ultimately show ?thesis by (rule same_run_exec_ok)
  qed
qed

section \<open>Finish\<close>

lemma parsed_blocks: "fromPartName io name fv = Inr i \<Longrightarrow> min_block i \<le> max_block i"
  by (auto simp: fromPartName_def tryParsePartName_def parse_block_range_def Let_def split: option.splits
      Option.bind_splits if_splits)

lemma finish_executing_fields:
  assumes run: "executing q p qe" and fin: "finish_executing io p q = Inr q'"
  shows "\<exists>q1. with_drop_range info_erase io (log_data qe) q = Inr q1
    \<and> q' = set_entry p (qe\<lparr>currently_executing := False, actual_new_part_name := [], replace_range_actual_new_part_names := []\<rparr>)
        (q1\<lparr>future_parts := filter (\<lambda>e. fst e \<notin> produced io (queue_format q) qe) (future_parts q)\<rparr>)"
proof -
  let ?fv = "queue_format q" and ?e = "log_data qe"
  let ?qe = "qe\<lparr>currently_executing := False, actual_new_part_name := [], replace_range_actual_new_part_names := []\<rparr>"
  have qe: "entries q p = Some qe" using run by (simp add: executing_def)
  obtain q1 names where q1: "with_drop_range info_erase io ?e q = Inr q1"
      and names: "getVirtualPartNames io (queue_format q1) ?e = Inr names"
      and q'0: "q' = set_entry p ?qe (fold untag_part (replace_range_actual_new_part_names qe)
        (if actual_new_part_name qe \<noteq> [] then untag_part (actual_new_part_name qe) (fold untag_part names q1)
         else fold untag_part names q1))"
    using fin qe by (auto simp: finish_executing_def deref_def Let_def elim!: bind_r_E)
  have f1: "queue_format q1 = ?fv" "future_parts q1 = future_parts q" using with_drop_range_Inr [OF q1] by auto
  have plist: "produced_list io ?fv qe = names @ (if actual_new_part_name qe \<noteq> [] then [actual_new_part_name qe] else [])
      @ replace_range_actual_new_part_names qe" using names f1 by (simp add: produced_list_def)
  have "q' = set_entry p ?qe (fold untag_part (produced_list io ?fv qe) q1)"
    unfolding q'0 plist by simp
  then have q': "q' = set_entry p ?qe (q1\<lparr>future_parts := filter (\<lambda>e. fst e \<notin> produced io ?fv qe) (future_parts q)\<rparr>)"
    unfolding untag_parts f1 .
  show ?thesis using q1 q' by blast
qed

lemma finish_executing_ok:
  assumes ok: "exec_ok io q" and run: "executing q p qe" and fin: "finish_executing io p q = Inr q'"
  shows "exec_ok io q'"
proof -
  let ?fv = "queue_format q" and ?e = "log_data qe"
  let ?qe = "qe\<lparr>currently_executing := False, actual_new_part_name := [], replace_range_actual_new_part_names := []\<rparr>"
  have qe: "entries q p = Some qe" using run by (simp add: executing_def)
  obtain q1 where q1: "with_drop_range info_erase io ?e q = Inr q1"
      and q': "q' = set_entry p ?qe (q1\<lparr>future_parts := filter (\<lambda>e. fst e \<notin> produced io ?fv qe) (future_parts q)\<rparr>)"
    using finish_executing_fields [OF run fin] by blast
  note q1 = with_drop_range_Inr [OF q1]
  have f1: "queue_format q1 = ?fv" "future_parts q1 = future_parts q" "entries q1 = entries q" using q1 by auto
  have fv: "queue_format q' = ?fv" and ent: "entries q' = (entries q)(p \<mapsto> ?qe)"
    and rng: "currently_executing_drop_replace_ranges q' = currently_executing_drop_replace_ranges q1"
    and fut: "future_parts q' = filter (\<lambda>e. fst e \<notin> produced io ?fv qe) (future_parts q)"
    unfolding q' using f1 by (simp_all add: set_entry_def)
  have map: "map_ok (future_parts q)"
    and tab: "\<And>n p. map_of (future_parts q) n = Some p \<longleftrightarrow> (\<exists>qe. executing q p qe \<and> n \<in> produced io ?fv qe)"
    using ok by (auto simp: exec_ok_def table_ok_def)
  have exe: "executing q' p' qe' \<longleftrightarrow> p' \<noteq> p \<and> executing q p' qe'" for p' qe'
    by (auto simp: executing_def ent)
  have "table_ok io q'"
    unfolding table_ok_def fv
  proof (intro conjI allI impI)
    fix n p'
    have "(\<exists>qe'. executing q p' qe' \<and> n \<in> produced io ?fv qe') \<longrightarrow> n \<in> produced io ?fv qe \<longrightarrow> p' = p"
      using tab [of n p'] tab [of n p] run by auto
    moreover have "executing q p qe' \<longrightarrow> qe' = qe" for qe' using qe by (simp add: executing_def)
    ultimately show "map_of (future_parts q') n = Some p' \<longleftrightarrow> (\<exists>qe. executing q' p' qe \<and> n \<in> produced io ?fv qe)"
      unfolding fut map_of_filter_keys exe using tab [of n p'] by auto
  next
    fix p' qe' assume "entries q' p' = Some qe'" "\<not> currently_executing qe'"
    then have "p' = p \<and> qe' = ?qe \<or> entries q p' = Some qe' \<and> \<not> currently_executing qe'" by (auto simp: ent split: if_splits)
    then show "actual_new_part_name qe' = []" "replace_range_actual_new_part_names qe' = []"
      using ok by (auto simp: exec_ok_def table_ok_def)
  qed (use map map_ok_filtered fut in simp)
  moreover have "parts_apart io q'"
  proof -
    have "virtual_of io q' p' i \<Longrightarrow> virtual_of io q p' i" "actual_of io q' p' i \<Longrightarrow> actual_of io q p' i" for p' i
      by (auto simp: virtual_of_def actual_of_def exe fv)
    moreover have "older q a b \<Longrightarrow> older q' a b" for a b using qe by (auto simp: older_def ent)
    ultimately show ?thesis using ok unfolding exec_ok_def parts_apart_def by blast
  qed
  moreover have old: "p' \<noteq> p \<and> drop_range_of io q p' d" if "drop_range_of io q' p' d" for p' d
    using that by (auto simp: drop_range_of_def exe fv)
  have "drops_apart io q'"
  proof -
    have "\<exists>d2 \<in> set (currently_executing_drop_replace_ranges q'). info_eq d d2" if v: "drop_range_of io q' p' d" for p' d
    proof -
      note o = old [OF v]
      obtain d2 where d2: "d2 \<in> set (currently_executing_drop_replace_ranges q)" "info_eq d d2"
        using ok o unfolding exec_ok_def drops_apart_def by blast
      have wf: "min_block d \<le> max_block d" using o parsed_blocks by (auto simp: drop_range_of_def)
      have "d2 \<in> set (currently_executing_drop_replace_ranges q1)"
      proof (cases "getDropRange io ?fv ?e = Inr None")
        case True
        then show ?thesis using q1 d2(1) by auto
      next
        case False
        then obtain name dp where dp: "getDropRange io ?fv ?e = Inr (Some name)" "fromPartName io name ?fv = Inr dp"
            "currently_executing_drop_replace_ranges q1 = info_erase dp (currently_executing_drop_replace_ranges q)"
          using q1 by auto
        have "drop_range_of io q p dp" using dp run by (auto simp: drop_range_of_def)
        then have "isDisjoint dp d" using ok o unfolding exec_ok_def drops_apart_def by blast
        then have "\<not> info_eq dp d2" using d2(2) wf by (auto simp: isDisjoint_def info_eq_def toTuple_def)
        then show ?thesis using dp(3) d2(1) by (simp add: info_erase_def)
      qed
      then show ?thesis using d2(2) rng by auto
    qed
    then show ?thesis using ok old unfolding exec_ok_def drops_apart_def by blast
  qed
  moreover have "lists_distinct io q'"
    using ok exe unfolding exec_ok_def lists_distinct_def fv by blast
  ultimately show ?thesis by (simp add: exec_ok_def)
qed

section \<open>Another part\<close>

lemma setActualPartName_E:
  assumes "setActualPartName io p name to_wait q = Inr (w, q')" "entries q p = Some qe"
  shows "q' = q \<or> (name \<noteq> [] \<and> actual_new_part_name qe = [] \<and> map_of (future_parts q) name = None
    \<and> (\<exists>qe'. q' = set_entry p qe' (q\<lparr>future_parts := map_put name p (future_parts q)\<rparr>)
        \<and> log_data qe' = log_data qe \<and> currently_executing qe' = currently_executing qe
        \<and> (actual_new_part_name qe' = name \<and> replace_range_actual_new_part_names qe' = replace_range_actual_new_part_names qe
           \<or> actual_new_part_name qe' = [] \<and> set (replace_range_actual_new_part_names qe') = insert name (set (replace_range_actual_new_part_names qe))
             \<and> (distinct (replace_range_actual_new_part_names qe) \<longrightarrow> distinct (replace_range_actual_new_part_names qe')))))"
  using assms by (auto simp: setActualPartName_def deref_def tag_part_def Let_def insert_absorb elim!: bind_r_E split: if_splits)

lemma setActualPartName_ok:
  assumes ok: "exec_ok io q" and run: "executing q p qe" and act: "setActualPartName io p name to_wait q = Inr (w, q')"
    and walk: "\<And>i n' p'. fromPartName io name (queue_format q) = Inr i \<Longrightarrow> (n', p') \<in> set (future_parts q)
      \<Longrightarrow> \<exists>i'. fromPartName io n' (queue_format q) = Inr i' \<and> (apart i i' \<or> older q p' p)"
  shows "exec_ok io q'"
proof (cases "q' = q")
  case False
  let ?fv = "queue_format q"
  have qe: "entries q p = Some qe" using run by (simp add: executing_def)
  obtain qe' where name: "name \<noteq> []" "actual_new_part_name qe = []" "map_of (future_parts q) name = None"
    and q': "q' = set_entry p qe' (q\<lparr>future_parts := map_put name p (future_parts q)\<rparr>)"
    and same: "log_data qe' = log_data qe" "currently_executing qe' = currently_executing qe"
    and lists: "actual_new_part_name qe' = name \<and> replace_range_actual_new_part_names qe' = replace_range_actual_new_part_names qe
       \<or> actual_new_part_name qe' = [] \<and> set (replace_range_actual_new_part_names qe') = insert name (set (replace_range_actual_new_part_names qe))
         \<and> (distinct (replace_range_actual_new_part_names qe) \<longrightarrow> distinct (replace_range_actual_new_part_names qe'))"
    using setActualPartName_E [OF act qe] False by blast
  have fv: "queue_format q' = ?fv" and ent: "entries q' = (entries q)(p \<mapsto> qe')"
    and rng: "currently_executing_drop_replace_ranges q' = currently_executing_drop_replace_ranges q"
    and fut: "future_parts q' = map_put name p (future_parts q)"
    unfolding q' by (simp_all add: set_entry_def)
  have map: "map_ok (future_parts q)"
    and tab: "\<And>n p. map_of (future_parts q) n = Some p \<longleftrightarrow> (\<exists>qe. executing q p qe \<and> n \<in> produced io ?fv qe)"
    using ok by (auto simp: exec_ok_def table_ok_def)
  have exe: "executing q' p' qe2 \<longleftrightarrow> (if p' = p then qe2 = qe' else executing q p' qe2)" for p' qe2
    using run same(2) by (auto simp: executing_def ent)
  have only: "executing q p qe2 \<longleftrightarrow> qe2 = qe" for qe2 using run by (auto simp: executing_def)
  have free: "\<not> (executing q p' qe2 \<and> name \<in> produced io ?fv qe2)" for p' qe2
    using tab [of name p'] name(3) by auto
  have prod: "produced io ?fv qe' = insert name (produced io ?fv qe)"
    using lists name(1,2) same(1) by (auto simp: produced_list_def)
  have "table_ok io q'"
    unfolding table_ok_def fv
  proof (intro conjI allI impI)
    fix n p'
    show "map_of (future_parts q') n = Some p' \<longleftrightarrow> (\<exists>qe. executing q' p' qe \<and> n \<in> produced io ?fv qe)"
      using tab [of n p'] prod only free [of p'] map unfolding fut exe by (cases "p' = p"; cases "n = name") auto
  next
    fix p' qe2 assume "entries q' p' = Some qe2" "\<not> currently_executing qe2"
    then have "entries q p' = Some qe2 \<and> \<not> currently_executing qe2" using run same(2) by (auto simp: ent executing_def split: if_splits)
    then show "actual_new_part_name qe2 = []" "replace_range_actual_new_part_names qe2 = []"
      using ok by (auto simp: exec_ok_def table_ok_def)
  qed (use map fut in simp)
  moreover have "parts_apart io q'"
  proof -
    have vir: "virtual_of io q' p' i \<Longrightarrow> virtual_of io q p' i" for p' i
      using run same(1) by (auto simp: virtual_of_def exe fv split: if_splits)
    have old: "older q a b \<Longrightarrow> older q' a b" for a b using qe same(1) by (auto simp: older_def ent)
    have av: "actual_of io q p' i \<or> p' = p \<and> fromPartName io name ?fv = Inr i" if av': "actual_of io q' p' i" for p' i
    proof (cases "p' = p")
      case True
      then obtain n where n: "n \<noteq> []" "n = actual_new_part_name qe' \<or> n \<in> set (replace_range_actual_new_part_names qe')"
          "fromPartName io n ?fv = Inr i" using av' by (auto simp: actual_of_def exe fv)
      then have "n = name \<or> n \<in> set (replace_range_actual_new_part_names qe)" using lists by auto
      then show ?thesis using n True run by (auto simp: actual_of_def)
    next
      case False
      then show ?thesis using av' by (simp add: actual_of_def exe fv)
    qed
    have new: "apart i i' \<or> older q p' p" if v: "fromPartName io name ?fv = Inr i" "virtual_of io q p' i'" for p' i i'
    proof -
      obtain qe2 names2 n' where n': "executing q p' qe2" "getVirtualPartNames io ?fv (log_data qe2) = Inr names2"
          "n' \<in> set names2" "fromPartName io n' ?fv = Inr i'" using v(2) by (auto simp: virtual_of_def)
      then have "n' \<in> produced io ?fv qe2" by (simp add: produced_list_def)
      then have "(n', p') \<in> set (future_parts q)" using tab n'(1) by (metis map_of_SomeD)
      then show ?thesis using walk [OF v(1)] n'(4) by fastforce
    qed
    have vv: "\<forall>p p' i i'. virtual_of io q p i \<longrightarrow> virtual_of io q p' i' \<longrightarrow> p \<noteq> p' \<longrightarrow> apart i i'"
      and va: "\<And>p p' i i'. actual_of io q p i \<Longrightarrow> virtual_of io q p' i' \<Longrightarrow> p \<noteq> p' \<Longrightarrow> apart i i' \<or> older q p' p"
      using ok unfolding exec_ok_def parts_apart_def by blast+
    have "apart i1 i2 \<or> older q' p2 p1" if v: "actual_of io q' p1 i1" "virtual_of io q' p2 i2" "p1 \<noteq> p2" for p1 p2 i1 i2
      using av [OF v(1)]
    proof
      assume "actual_of io q p1 i1"
      then show ?thesis using va [OF _ vir [OF v(2)] v(3)] old by blast
    next
      assume a: "p1 = p \<and> fromPartName io name ?fv = Inr i1"
      then show ?thesis using new [OF conjunct2 [OF a] vir [OF v(2)]] old by blast
    qed
    then show ?thesis unfolding parts_apart_def using vv vir by (intro conjI allI impI) (blast, simp)
  qed
  moreover have "drop_range_of io q' p' d \<Longrightarrow> drop_range_of io q p' d" for p' d
    using run same(1) by (auto simp: drop_range_of_def exe fv split: if_splits)
  then have "drops_apart io q'" using ok unfolding exec_ok_def drops_apart_def rng by blast
  moreover have "distinct (produced_list io ?fv qe')"
  proof -
    have "distinct (produced_list io ?fv qe)" "name \<notin> produced io ?fv qe"
      using ok run free by (auto simp: exec_ok_def lists_distinct_def)
    then show ?thesis using lists name(1,2) same(1)
      by (cases "getVirtualPartNames io ?fv (log_data qe)") (auto simp: produced_list_def)
  qed
  then have "lists_distinct io q'" using ok exe unfolding exec_ok_def lists_distinct_def fv by (metis (full_types))
  ultimately show ?thesis by (simp add: exec_ok_def)
qed (use ok in simp)

text \<open>Each tagged part that the new one overlaps is of an older entry, for which it waits.\<close>

lemma addFuturePart_waits:
  assumes "entries q p = Some qe" "addFuturePartIfNotCoveredByThem io name p q = Inr (Inr (w, q'))"
  shows "\<exists>i to_wait. fromPartName io name (queue_format q) = Inr i \<and> map_of (future_parts q) name = None
    \<and> setActualPartName io p name to_wait q = Inr (w, q')
    \<and> (\<forall>(n', p') \<in> set (future_parts q). \<exists>i'. fromPartName io n' (queue_format q) = Inr i'
         \<and> (apart i i' \<or> older q p' p \<and> p' \<in> set to_wait))"
proof -
  obtain to_wait where c: "isCoveredByFuturePartsImpl io q (log_data qe) True name = Inr (None, to_wait)"
    and s: "setActualPartName io p name to_wait q = Inr (w, q')"
    using assms by (auto simp: addFuturePartIfNotCoveredByThem_def deref_def elim!: bind_r_E split: if_splits option.splits)
  obtain i where i: "map_of (future_parts q) name = None" "fromPartName io name (queue_format q) = Inr i"
      "walk_future io q (log_data qe) i True (future_parts q) [] = Inr (None, to_wait)"
    using c by (auto simp: isCoveredByFuturePartsImpl_def elim!: bind_r_E split: option.splits)
  have "\<forall>(n', p') \<in> set (future_parts q). \<exists>i'. fromPartName io n' (queue_format q) = Inr i'
      \<and> (apart i i' \<or> older q p' p \<and> p' \<in> set to_wait)"
    using walk_future_waits [OF i(3)] assms(1) by (fastforce simp: older_def)
  then show ?thesis using i(1,2) s by blast
qed

lemma addFuturePart_ok:
  assumes "exec_ok io q" "executing q p qe" "addFuturePartIfNotCoveredByThem io name p q = Inr (Inr (w, q'))"
  shows "exec_ok io q'"
proof -
  have "entries q p = Some qe" using assms(2) by (simp add: executing_def)
  from addFuturePart_waits [OF this assms(3)] obtain i to_wait where a: "fromPartName io name (queue_format q) = Inr i"
      "setActualPartName io p name to_wait q = Inr (w, q')" "\<forall>(n', p') \<in> set (future_parts q).
         \<exists>i'. fromPartName io n' (queue_format q) = Inr i' \<and> (apart i i' \<or> older q p' p \<and> p' \<in> set to_wait)" by blast
  show ?thesis by (rule setActualPartName_ok [OF assms(1,2) a(2)]) (use a(1,3) in fastforce)
qed

end
