(* ===== verification/Queue_Times.thy ===== *)
theory Queue_Times
  imports Queue_Safe
begin

text \<open>
  The times of inserts, from which the lag of the replica is computed: in every reachable state they are
  those of the inserts in the queue, and the least unprocessed time is not above them. It is exactly the
  least of them until \<open>clear\<close> empties the times and leaves it as it was, and again from the
  next removal of an insert on.
\<close>

definition insert_keys :: "'c queue_state \<Rightarrow> (nat \<times> entry_ptr) set" where
  "insert_keys q = {(create_time (log_data qe), p) | p qe. p \<in> set (queue q) \<and> entries q p = Some qe \<and> is_insert (log_data qe)}"

definition least_time :: "(nat \<times> entry_ptr, unit) ordered_map \<Rightarrow> nat" where
  "least_time m = (case m of [] \<Rightarrow> 0 | e # _ \<Rightarrow> fst (fst e))"

definition queue_distinct :: "'c queue_state \<Rightarrow> bool" where
  "queue_distinct q \<longleftrightarrow> distinct (queue q) \<and> (\<forall>p \<in> set (queue q). entries q p \<noteq> None)
     \<and> (\<forall>p qe. entries q p = Some qe \<and> is_insert (log_data qe) \<longrightarrow> create_time (log_data qe) \<noteq> 0)"

text \<open>The least unprocessed time is exact, or only bounded from above while there are inserts.\<close>

definition lag_ok :: "bool \<Rightarrow> 'c queue_state \<Rightarrow> bool" where
  "lag_ok exact q \<longleftrightarrow>
     (if exact then min_unprocessed_insert_time q = least_time (inserts_by_time q)
      else inserts_by_time q = []
        \<or> 0 < min_unprocessed_insert_time q \<and> min_unprocessed_insert_time q \<le> least_time (inserts_by_time q))"

definition times_ok :: "bool \<Rightarrow> 'c queue_state \<Rightarrow> bool" where
  "times_ok b q \<longleftrightarrow> queue_distinct q \<and> map_ok (inserts_by_time q) \<and> fst ` set (inserts_by_time q) = insert_keys q
     \<and> lag_ok b q"

text \<open>Only the data of the entries and the set of queued ones matter.\<close>

definition same_data :: "'c queue_state \<Rightarrow> 'c queue_state \<Rightarrow> bool" where
  "same_data q q' \<longleftrightarrow> (\<forall>p. map_option log_data (entries q' p) = map_option log_data (entries q p))"

lemma same_run_data: "same_run q q' \<Longrightarrow> same_data q q'"
proof -
  assume "same_run q q'"
  then have "map_option fst (map_option run_core (entries q' p)) = map_option fst (map_option run_core (entries q p))" for p
    by (simp add: same_run_def)
  moreover have "fst \<circ> run_core = log_data" by (simp add: fun_eq_iff run_core_def)
  ultimately show ?thesis by (simp add: same_data_def option.map_comp)
qed

lemma same_data_entry:
  assumes "same_data q q'" "entries q' p = Some qe'"
  shows "\<exists>qe. entries q p = Some qe \<and> log_data qe = log_data qe'"
proof -
  have "map_option log_data (entries q p) = Some (log_data qe')" using assms unfolding same_data_def by (metis option.simps(9))
  then show ?thesis by auto
qed

lemma same_data_sym: "same_data q q' \<Longrightarrow> same_data q' q"
  by (simp add: same_data_def)

lemma same_data_trans: "same_data a b \<Longrightarrow> same_data b c \<Longrightarrow> same_data a c"
  by (simp add: same_data_def)

lemma same_data_keys: "same_data q q' \<Longrightarrow> set (queue q') = set (queue q) \<Longrightarrow> insert_keys q' = insert_keys q"
  unfolding insert_keys_def using same_data_entry same_data_sym by (smt (verit, best) Collect_cong)

lemma same_data_distinct:
  assumes "queue_distinct q" "same_data q q'" "distinct (queue q')" "set (queue q') \<subseteq> set (queue q)"
  shows "queue_distinct q'"
  unfolding queue_distinct_def
proof (intro conjI ballI allI impI)
  fix p assume "p \<in> set (queue q')"
  then obtain qe where "entries q p = Some qe" using assms(1,4) unfolding queue_distinct_def by blast
  then show "entries q' p \<noteq> None" using same_data_entry [OF same_data_sym [OF assms(2)]] by blast
next
  fix p qe assume a: "entries q' p = Some qe \<and> is_insert (log_data qe)"
  then obtain qe0 where "entries q p = Some qe0" "log_data qe0 = log_data qe" using same_data_entry [OF assms(2)] by blast
  then show "create_time (log_data qe) \<noteq> 0" using assms(1) a unfolding queue_distinct_def by metis
qed (rule assms(3))

lemma same_times_ok:
  assumes "times_ok b q" "same_data q q'" "distinct (queue q')" "set (queue q') = set (queue q)"
    "inserts_by_time q' = inserts_by_time q" "min_unprocessed_insert_time q' = min_unprocessed_insert_time q"
  shows "times_ok b q'"
  using assms same_data_distinct [OF _ assms(2,3)] same_data_keys [OF assms(2,4)] by (simp add: times_ok_def lag_ok_def)

section \<open>The two updates\<close>

lemma least_time_Min: "map_ok m \<Longrightarrow> m \<noteq> [] \<Longrightarrow> least_time m = Min (fst ` fst ` set m)"
proof -
  assume m: "map_ok m" "m \<noteq> []"
  have "fst (fst (hd m)) \<in> fst ` fst ` set m" using map_ok_head(1) [OF m] by (metis image_eqI)
  moreover have "fst (fst (hd m)) \<le> t" if t: "t \<in> fst ` fst ` set m" for t
  proof -
    obtain k where k: "k \<in> fst ` set m" "t = fst k" using t by blast
    then show ?thesis using map_ok_head(2) [OF m k(1)] by (auto simp: less_eq_prod_def)
  qed
  ultimately have "Min (fst ` fst ` set m) = fst (fst (hd m))" by (intro Min_eqI) auto
  then show ?thesis using m(2) by (cases m) (simp_all add: least_time_def)
qed

lemma least_time_put:
  assumes "map_ok m" "t \<noteq> 0" "\<forall>k \<in> fst ` set m. fst k \<noteq> 0"
  shows "least_time (map_put (t, p) () m) = (if least_time m = 0 \<or> t < least_time m then t else least_time m)"
  using assms by (cases m) (auto simp: least_time_def less_prod_def)

lemma note_insert_times:
  assumes "note_insert p e (c, q) = (c', q')" "map_ok (inserts_by_time q)" "\<forall>k \<in> fst ` set (inserts_by_time q). fst k \<noteq> 0"
    "timed_entry e" "lag_ok b q"
  shows "map_ok (inserts_by_time q')
    \<and> fst ` set (inserts_by_time q') = (if is_insert e then {(create_time e, p)} else {}) \<union> fst ` set (inserts_by_time q)
    \<and> lag_ok b q' \<and> entries q' = entries q \<and> queue q' = queue q"
proof (cases "is_insert e")
  case True
  let ?m = "map_put (create_time e, p) () (inserts_by_time q)"
  have f: "inserts_by_time q' = ?m" "entries q' = entries q" "queue q' = queue q"
    "min_unprocessed_insert_time q' = (if create_time e \<noteq> 0 \<and> (min_unprocessed_insert_time q = 0
       \<or> create_time e < min_unprocessed_insert_time q) then create_time e else min_unprocessed_insert_time q)"
    using assms(1) True by (auto simp: note_insert_def Let_def split: if_splits)
  moreover have "least_time ?m = (if least_time (inserts_by_time q) = 0 \<or> create_time e < least_time (inserts_by_time q)
      then create_time e else least_time (inserts_by_time q))"
    using least_time_put [OF assms(2) _ assms(3)] assms(4) True by (simp add: timed_entry_def)
  moreover have "least_time ?m = create_time e" if "inserts_by_time q = []" using that by (simp add: least_time_def)
  moreover have "create_time e \<noteq> 0" using assms(4) True by (simp add: timed_entry_def)
  ultimately show ?thesis using True assms(2,5) by (auto simp: lag_ok_def)
qed (use assms in \<open>simp add: note_insert_def\<close>)

lemma least_time_erase: "map_ok m \<Longrightarrow> map_erase k m \<noteq> [] \<Longrightarrow> least_time m \<le> least_time (map_erase k m)"
proof -
  assume m: "map_ok m" "map_erase k m \<noteq> []"
  then have "m \<noteq> []" by (auto simp: map_erase_def)
  moreover have "Min (fst ` fst ` set m) \<le> Min (fst ` fst ` set (map_erase k m))"
  proof (rule Min_antimono)
    show "fst ` fst ` set (map_erase k m) \<subseteq> fst ` fst ` set m" by (auto simp: map_erase_def)
    show "fst ` fst ` set (map_erase k m) \<noteq> {}" using m(2) by (metis image_is_empty set_empty)
  qed simp
  ultimately show ?thesis using m least_time_Min [of m] least_time_Min [of "map_erase k m"] by simp
qed

lemma remove_insert_time_times:
  assumes "remove_insert_time p e (c, d, q) = (c', d', q')" "map_ok (inserts_by_time q)" "lag_ok b q"
  shows "map_ok (inserts_by_time q')
    \<and> fst ` set (inserts_by_time q') = fst ` set (inserts_by_time q) - (if is_insert e then {(create_time e, p)} else {})
    \<and> lag_ok (b \<or> is_insert e) q'"
proof (cases "is_insert e")
  case True
  let ?m = "map_erase (create_time e, p) (inserts_by_time q)"
  have i: "inserts_by_time q' = ?m" using assms(1) True
    by (auto simp: remove_insert_time_def Let_def split: list.splits if_splits)
  have "min_unprocessed_insert_time q' = least_time ?m"
  proof (cases ?m)
    case Nil
    then show ?thesis using assms(1) True by (auto simp: remove_insert_time_def Let_def least_time_def split: if_splits)
  next
    case (Cons f fs)
    then have "min_unprocessed_insert_time q' = max (least_time ?m) (min_unprocessed_insert_time q)"
      using assms(1) True by (auto simp: remove_insert_time_def Let_def least_time_def split: if_splits)
    moreover have "inserts_by_time q \<noteq> []" using Cons by (auto simp: map_erase_def)
    ultimately show ?thesis using least_time_erase [OF assms(2), of "(create_time e, p)"] Cons assms(3)
      by (auto simp: lag_ok_def split: if_splits)
  qed
  then show ?thesis using i assms(2) True by (simp add: lag_ok_def)
qed (use assms in \<open>simp add: remove_insert_time_def\<close>)

section \<open>Steps\<close>

lemma times_nonzero: "times_ok b q \<Longrightarrow> k \<in> fst ` set (inserts_by_time q) \<Longrightarrow> fst k \<noteq> 0"
  by (auto simp: times_ok_def insert_keys_def queue_distinct_def)

lemma insert_times_ok:
  assumes ok: "times_ok b q" and new: "entries q p = None" and time: "timed_entry e"
    and ins: "insertUnlocked io p (c, set_entry p (fresh_entry e) q) = Inr (c', q')"
  shows "times_ok b q'"
proof -
  let ?q = "set_entry p (fresh_entry e) q"
  have "entries ?q p = Some (fresh_entry e)" by (simp add: set_entry_def)
  from insertUnlocked_frame [OF ins this] obtain q1 q2 c3 q3 where s: "frame ?q q1" "enqueue io p e q1 = Inr q2"
      "note_insert p e (c, q2) = (c3, q3)" "q' = note_alter e q3" by (auto simp: fresh_entry_def)
  have q2: "inserts_by_time q2 = inserts_by_time q" "min_unprocessed_insert_time q2 = min_unprocessed_insert_time q"
      "entries q2 = (entries q)(p \<mapsto> fresh_entry e)" "queue q2 = p # queue q \<or> queue q2 = queue q @ [p]"
    using s(1,2) by (auto simp: enqueue_def frame_def set_entry_def elim!: bind_r_E split: if_splits)
  have n: "map_ok (inserts_by_time q3)"
    "fst ` set (inserts_by_time q3) = (if is_insert e then {(create_time e, p)} else {}) \<union> insert_keys q"
    "lag_ok b q3" "entries q3 = (entries q)(p \<mapsto> fresh_entry e)"
    "queue q3 = queue q2"
    using note_insert_times [OF s(3), of b] q2 ok time times_nonzero [OF ok] by (simp_all add: times_ok_def lag_ok_def)
  have p: "p \<notin> set (queue q)" using ok new by (auto simp: times_ok_def queue_distinct_def)
  have set: "set (queue q3) = insert p (set (queue q))" "distinct (queue q3)"
    using q2(4) n(5) ok p by (auto simp: times_ok_def queue_distinct_def)
  have "insert_keys q3 = (if is_insert e then {(create_time e, p)} else {}) \<union> insert_keys q"
    using p by (auto simp: insert_keys_def set n(4) fresh_entry_def)
  moreover have "queue_distinct q3"
    using ok time set by (auto simp: queue_distinct_def times_ok_def timed_entry_def n(4) fresh_entry_def)
  ultimately have "times_ok b q3" using n by (simp add: times_ok_def)
  then show ?thesis unfolding s(4) by (rule same_times_ok) (auto simp: note_alter_def same_data_def set)
qed

lemma remove_times_ok:
  assumes ok: "times_ok b q" and qe: "entries q p = Some qe" and upd: "updateStateOnQueueEntryRemoval io p suc (c, d, q) = Inr (c', d', q1)"
    and q': "queue q' = ps" "distinct ps" "set ps = set (queue q) - {p}" "same_data q1 q'" "inserts_by_time q' = inserts_by_time q1"
      "min_unprocessed_insert_time q' = min_unprocessed_insert_time q1"
  shows "times_ok (b \<or> is_insert (log_data qe)) q'"
proof -
  obtain q0 where q0: "remove_insert_time p (log_data qe) (c, d, q) = (c', d', q0)" "frame q0 q1"
    using updateState_frame [OF upd qe] by blast
  have n: "map_ok (inserts_by_time q0)"
    "fst ` set (inserts_by_time q0) = insert_keys q - (if is_insert (log_data qe) then {(create_time (log_data qe), p)} else {})"
    "lag_ok (b \<or> is_insert (log_data qe)) q0"
    using remove_insert_time_times [OF q0(1), of b] ok by (simp_all add: times_ok_def)
  have f: "inserts_by_time q' = inserts_by_time q0" "min_unprocessed_insert_time q' = min_unprocessed_insert_time q0"
    using q0(2) q'(5,6) by (simp_all add: frame_def)
  have sd: "same_data q q'" using updateState_same_run [OF upd qe] same_run_data q'(4) same_data_trans by blast
  have "insert_keys (q'\<lparr>queue := queue q\<rparr>) = insert_keys q"
    by (rule same_data_keys) (use sd in \<open>simp_all add: same_data_def\<close>)
  moreover have "insert_keys q' = insert_keys (q'\<lparr>queue := queue q\<rparr>)
      - (if is_insert (log_data qe) then {(create_time (log_data qe), p)} else {})"
  proof -
    obtain qe' where "entries q' p = Some qe'" "log_data qe' = log_data qe"
      using same_data_entry [OF same_data_sym [OF sd] qe] by metis
    then show ?thesis by (auto simp: insert_keys_def q')
  qed
  moreover have "queue_distinct q'"
    using same_data_distinct [OF _ sd] ok q' by (auto simp: times_ok_def)
  ultimately show ?thesis using n f by (simp add: times_ok_def lag_ok_def)
qed

lemma times_ok_bounded: "times_ok True q \<Longrightarrow> times_ok b q"
proof -
  assume ok: "times_ok True q"
  have "least_time (inserts_by_time q) \<noteq> 0" if "inserts_by_time q \<noteq> []"
    using times_nonzero [OF ok, of "fst (hd (inserts_by_time q))"] that
    by (cases "inserts_by_time q") (auto simp: least_time_def)
  then show ?thesis using ok unfolding times_ok_def lag_ok_def by (metis le_refl neq0_conv)
qed

lemma times_ok_weaker: "times_ok (b \<or> c) q \<Longrightarrow> times_ok b q"
  by (cases c) (simp_all add: times_ok_bounded)

lemma start_times_frame:
  assumes "start_executing io now p q = Inr q'"
  shows "queue q' = queue q \<and> inserts_by_time q' = inserts_by_time q
    \<and> min_unprocessed_insert_time q' = min_unprocessed_insert_time q \<and> same_data q q' \<and> same_cores q q'"
proof -
  obtain qe q1 names where s: "entries q p = Some qe" "with_drop_range info_insert io (log_data qe) q = Inr q1"
      "fold_r (tag_part p) names (set_entry p (qe\<lparr>currently_executing := True, num_tries := num_tries qe + 1, last_attempt_time := now\<rparr>) q1) = Inr q'"
    using assms by (auto simp: start_executing_def deref_def Let_def elim!: bind_r_E split: option.splits)
  have "\<exists>f. q' = (s :: 'a queue_state)\<lparr>future_parts := f\<rparr>" if "fold_r (tag_part p) names s = Inr q'" for s names
    using that
  proof (induction names arbitrary: s)
    case Nil
    then show ?case by (intro exI [of _ "future_parts s"]) simp
  next
    case (Cons n ns)
    then obtain t where "tag_part p n s = Inr t" "fold_r (tag_part p) ns t = Inr q'" by (auto elim!: bind_r_E)
    then show ?case using Cons.IH by (fastforce simp: tag_part_def split: if_splits)
  qed
  from this [OF s(3)] with_drop_range_Inr [OF s(2)] s(1) show ?thesis by (auto simp: set_entry_def same_data_def)
qed

lemma move_permutes:
  assumes "dropWhile P xs = y # ys"
  shows "mset (filter (\<lambda>x. \<not> Q x) (takeWhile P xs) @ y # ys @ filter Q (takeWhile P xs)) = mset xs"
proof -
  have "mset (filter (\<lambda>x. \<not> Q x) (takeWhile P xs)) + mset (filter Q (takeWhile P xs)) = mset (takeWhile P xs)"
    by (metis mset_filter multiset_partition union_commute)
  then have "mset (filter (\<lambda>x. \<not> Q x) (takeWhile P xs) @ y # ys @ filter Q (takeWhile P xs)) = mset (takeWhile P xs @ y # ys)"
    by simp
  then show ?thesis unfolding assms [symmetric] by simp
qed

lemma moveSibling_queue:
  assumes "moveSiblingPartsForMergeToEndOfQueue name q = (ns, q')"
  shows "set (queue q') = set (queue q) \<and> (distinct (queue q) \<longrightarrow> distinct (queue q')) \<and> entries q' = entries q
      \<and> inserts_by_time q' = inserts_by_time q \<and> min_unprocessed_insert_time q' = min_unprocessed_insert_time q
      \<and> same_cores q q'"
proof -
  have "mset (queue q') = mset (queue q)"
  proof (cases "dropWhile (\<lambda>p. \<not> uses_part q name p) (queue q)")
    case (Cons m later)
    then show ?thesis using assms move_permutes [OF Cons, of "produces_one_of q ns"]
      by (auto simp: moveSiblingPartsForMergeToEndOfQueue_def Let_def)
  next
    case Nil
    then show ?thesis using assms unfolding moveSiblingPartsForMergeToEndOfQueue_def Nil by simp
  qed
  then have "set (queue q') = set (queue q)" "distinct (queue q) = distinct (queue q')"
    by (metis set_mset_mset, metis mset_eq_imp_distinct_iff)
  moreover have "entries q' = entries q \<and> inserts_by_time q' = inserts_by_time q
      \<and> min_unprocessed_insert_time q' = min_unprocessed_insert_time q \<and> same_cores q q'"
    using assms by (auto simp: moveSiblingPartsForMergeToEndOfQueue_def Let_def split: list.splits)
  ultimately show ?thesis by simp
qed

lemma processed_times_ok:
  assumes "times_ok b q" "removeProcessedEntry io p q = Inr (mn, mx, q')" and qe: "entries q p = Some qe"
  shows "times_ok (b \<or> is_insert (log_data qe) \<and> \<not> removed_by_other_entry qe) q'"
proof -
  show ?thesis
  proof (cases "removed_by_other_entry qe")
    case True
    then show ?thesis using assms qe by (simp add: removeProcessedEntry_def deref_def)
  next
    case False
    then obtain a c q1 where u: "updateStateOnQueueEntryRemoval io p True (None, None, q) = Inr (a, c, q1)"
        "q' = q1\<lparr>queue := erase_last p (queue q1)\<rparr>"
      using assms(2) qe by (auto simp: removeProcessedEntry_def deref_def elim!: bind_r_E split: if_splits)
    have "queue q1 = queue q" using updateState_same_run [OF u(1) qe] by simp
    then have "queue q' = erase_last p (queue q)" using u(2) by simp
    then have "times_ok (b \<or> is_insert (log_data qe)) q'"
    proof (rule remove_times_ok [OF assms(1) qe u(1)])
      have "distinct (queue q)" using assms(1) by (simp add: times_ok_def queue_distinct_def)
      then show "distinct (erase_last p (queue q))" "set (erase_last p (queue q)) = set (queue q) - {p}"
        by (simp_all add: erase_last_def)
    qed (use u(2) in \<open>simp_all add: same_data_def\<close>)
    then show ?thesis using False by simp
  qed
qed

lemma range_times_ok:
  "times_ok b q \<Longrightarrow> remove_in_range io i covering ps w (mn, mx, q) = Inr (w', mn', mx', q') \<Longrightarrow> times_ok b q'"
proof (induction ps arbitrary: w mn mx q)
  case (Cons p ps)
  obtain qe remove where qe: "entries q p = Some qe"
      "removed_by_range io (queue_format q) i covering p (log_data qe) = Inr remove"
    using Cons.prems by (auto simp: deref_def elim!: bind_r_E split: option.splits)
  show ?case
  proof (cases remove)
    case False
    then show ?thesis using Cons.prems qe Cons.IH by (simp add: deref_def)
  next
    case True
    then obtain a c q1 where u: "updateStateOnQueueEntryRemoval io p False (mn, mx, q) = Inr (a, c, q1)"
        "remove_in_range io i covering ps (if currently_executing qe then w @ [p] else w)
           (a, c, set_entry p (qe\<lparr>removed_by_other_entry := True\<rparr>) (q1\<lparr>queue := remove1 p (queue q1)\<rparr>))
         = Inr (w', mn', mx', q')"
      using Cons.prems(2) qe by (auto simp: deref_def elim!: bind_r_E)
    have q1: "queue q1 = queue q" "entries q1 = entries q" using updateState_same_run [OF u(1) qe(1)] by auto
    have dist: "distinct (queue q)" using Cons.prems(1) by (simp add: times_ok_def queue_distinct_def)
    let ?q = "set_entry p (qe\<lparr>removed_by_other_entry := True\<rparr>) (q1\<lparr>queue := remove1 p (queue q1)\<rparr>)"
    have "queue ?q = remove1 p (queue q)" using q1 by (simp add: set_entry_def)
    then have "times_ok (b \<or> is_insert (log_data qe)) ?q"
      by (rule remove_times_ok [OF Cons.prems(1) qe(1) u(1)])
        (use dist q1 qe(1) in \<open>simp_all add: set_entry_def same_data_def\<close>)
    then show ?thesis using u(2) by (intro Cons.IH) (rule times_ok_weaker)
  qed
qed simp

lemma selected_times_ok:
  assumes "times_ok b q" "selectEntryToProcess io env blocks q = Inr (r, q')"
  shows "times_ok b q'"
proof -
  obtain c q1 where loop: "select_loop io env blocks (queue q) q = Inr (c, q1)"
    and rest: "(case c of None \<Rightarrow> Inr (None, q1)
      | Some p \<Rightarrow> bind_r (start_executing io (now_s env) p (q1\<lparr>queue := remove1 p (queue q1) @ [p]\<rparr>)) (\<lambda>q. Inr (Some p, q)))
      = Inr (r, q')"
    using assms(2) by (auto simp: selectEntryToProcess_def elim!: bind_r_E)
  note l = select_loop_Inr [OF loop]
  obtain E where E: "q1 = q\<lparr>entries := E\<rparr>" using l by blast
  have ok1: "times_ok b q1"
    by (rule same_times_ok [OF assms(1)]) (use E l assms(1) same_run_data in \<open>auto simp: times_ok_def queue_distinct_def\<close>)
  show ?thesis
  proof (cases c)
    case None
    then show ?thesis using rest ok1 by simp
  next
    case (Some p)
    let ?q = "q1\<lparr>queue := remove1 p (queue q1) @ [p]\<rparr>"
    have p: "p \<in> set (queue q1)" using l Some E by simp
    have st: "start_executing io (now_s env) p ?q = Inr q'" using rest Some by (auto elim!: bind_r_E)
    then show ?thesis using start_times_frame [OF st] p ok1
      by (intro same_times_ok [OF ok1]) (auto simp: times_ok_def queue_distinct_def same_data_def)
  qed
qed

lemma work_times_ok: "times_ok b q \<Longrightarrow> same_work q q' \<Longrightarrow> times_ok b q'"
  by (rule same_times_ok) (auto simp: same_work_def same_data_def times_ok_def queue_distinct_def)

lemma step_times_ok: "queue_step io q q' \<Longrightarrow> times_ok b q \<Longrightarrow> times_ok b q'"
proof (induction rule: queue_step.induct)
  case (insert q p e c c' q')
  then show ?case by (blast intro: insert_times_ok)
next
  case (select env blocks q r q')
  then show ?case by (blast intro: selected_times_ok)
next
  case (actual q p qe name w q')
  then obtain to_wait where act: "setActualPartName io p name to_wait q = Inr (w, q')"
    by (auto simp: addFuturePartIfNotCoveredByThem_def elim!: bind_r_E split: if_splits option.splits)
  have "entries q p = Some qe" using actual.hyps(1) by (simp add: executing_def)
  then have same: "q' = q \<or> (\<exists>qe'. q' = set_entry p qe' (q\<lparr>future_parts := map_put name p (future_parts q)\<rparr>)
      \<and> log_data qe' = log_data qe)" using setActualPartName_E [OF act] by blast
  show ?case
  proof (cases "q' = q")
    case False
    then obtain qe' where q': "q' = set_entry p qe' (q\<lparr>future_parts := map_put name p (future_parts q)\<rparr>)"
        "log_data qe' = log_data qe" using same by blast
    have "distinct (queue q)" using actual.prems by (simp add: times_ok_def queue_distinct_def)
    then show ?thesis using actual.hyps(1) q'(2)
      by (intro same_times_ok [OF actual.prems]) (simp_all add: q'(1) set_entry_def same_data_def executing_def)
  qed (use actual.prems in simp)
next
  case (processed q p qe mn mx q')
  then show ?case using processed_times_ok times_ok_weaker unfolding executing_def by blast
next
  case (failed q p qe t)
  then show ?case
    by (intro same_times_ok [OF failed.prems])
      (auto simp: set_entry_def same_data_def executing_def updateLastExeption_def times_ok_def queue_distinct_def)
next
  case (finish q p qe q')
  then have qe: "entries q p = Some qe" by (simp add: executing_def)
  obtain q1 where q1: "with_drop_range info_erase io (log_data qe) q = Inr q1"
      "q' = set_entry p (qe\<lparr>currently_executing := False, actual_new_part_name := [], replace_range_actual_new_part_names := []\<rparr>)
        (q1\<lparr>future_parts := filter (\<lambda>e. fst e \<notin> produced io (queue_format q) qe) (future_parts q)\<rparr>)"
    using finish_executing_fields [OF finish.hyps] by blast
  show ?case
    by (rule same_times_ok [OF finish.prems])
      (use with_drop_range_Inr [OF q1(1)] finish.prems qe in \<open>auto simp: q1(2) set_entry_def same_data_def times_ok_def queue_distinct_def\<close>)
next
  case (drop_range i covering q w mn mx q')
  then show ?case unfolding removePartProducingOpsInRange_def by (blast intro: range_times_ok)
next
  case (reorder name q ns q')
  have f: "set (queue q') = set (queue q) \<and> (distinct (queue q) \<longrightarrow> distinct (queue q')) \<and> entries q' = entries q
      \<and> inserts_by_time q' = inserts_by_time q \<and> min_unprocessed_insert_time q' = min_unprocessed_insert_time q
      \<and> same_cores q q'"
    using reorder.hyps by (rule moveSibling_queue)
  show ?case
    by (rule same_times_ok [OF reorder.prems]) (use f reorder.prems in \<open>auto simp: same_data_def times_ok_def queue_distinct_def\<close>)
next
  case (quorum i q removed q')
  then show ?case using work_times_ok quorum_work by blast
next
  case (intend q i)
  then show ?case using work_times_ok intend_work by blast
next
  case (withdraw i q q')
  then show ?case using work_times_ok withdraw_work by blast
next
  case (forget q q')
  then show ?case using work_times_ok forget_frame frame_work by blast
qed

lemma initialize_times_ok:
  assumes "times_ok b q" "initialize io parts q = Inr q'"
  shows "times_ok False q'"
proof -
  have "times_ok False (queue_clear q)"
    using assms(1) by (auto simp: times_ok_def lag_ok_def queue_distinct_def insert_keys_def queue_clear_def)
  then show ?thesis using work_times_ok initialize_same_work [OF assms(2)] by blast
qed

text \<open>Exactness is kept by all the work on the queue and the mutations; the bound is kept by all steps.\<close>

lemma mutation_step_times_ok: "mutation_step io nodes q q' \<Longrightarrow> times_ok b q \<Longrightarrow> times_ok b q'"
  by (rule mutation_step_keeps [where P = "times_ok b"]) (blast intro: work_times_ok step_times_ok)+

lemma reachable_times_ok: "queue_reachable io nodes fv q \<Longrightarrow> times_ok False q"
proof (induction rule: queue_reachable.induct)
  case start
  show ?case by (simp add: times_ok_def lag_ok_def queue_distinct_def insert_keys_def empty_queue_def)
next
  case (next_state q q')
  show ?case
    by (rule replica_step_keeps [where P = "times_ok False", OF _ _ _ next_state.hyps(2) next_state.IH])
      (blast intro: work_times_ok step_times_ok initialize_times_ok)+
qed

end
