(* ===== verification/Queue_Todo.thy ===== *)
theory Queue_Todo
  imports Queue_Updates Active_Part_Results
begin

text \<open>
  What the operations of \<open>Queue_Updates\<close> do to the sets of parts that mutations still have to
  process (\<open>parts_to_do\<close>) and to those in progress: the fields each operation changes, the
  mutations it reaches, and the parts it can lose.
\<close>

section \<open>Sets of parts\<close>

definition set_ok :: "text_io \<Rightarrow> format_version \<Rightarrow> active_part_set \<Rightarrow> bool" where
  "set_ok io fv s \<longleftrightarrow> set_format s = fv \<and> aps_inv (part_info_to_name s) \<and> named_by_infos io s"

lemma add_part_Inr:
  assumes "set_ok io fv s" "add_part io name s = Inr (added, s')"
  shows "\<exists>i. fromPartName io name fv = Inr i \<and> covers s' i \<and> (\<forall>j. covers s j \<longrightarrow> covers s' j)
    \<and> set (part_info_to_name s') \<subseteq> insert (i, name) (set (part_info_to_name s)) \<and> set_ok io fv s'
    \<and> (\<not> added \<longrightarrow> s' = s) \<and> (added \<longrightarrow> \<not> covers s i \<and> (i, name) \<in> set (part_info_to_name s'))"
proof -
  have fv: "set_format s = fv" and inv: "aps_inv (part_info_to_name s)" and n: "named_by_infos io s"
    using assms(1) by (auto simp: set_ok_def)
  obtain out where a: "add_name io name None s = (Inr (added, out), s')"
    using assms(2) by (auto simp: add_part_def bind_r_Inr_iff keep_Inr)
  obtain i where i: "fromPartName io name fv = Inr i" "covers s' i" "\<forall>j. covers s j \<longrightarrow> covers s' j"
      "set_format s' = fv" "set (part_info_to_name s') \<subseteq> insert (i, name) (set (part_info_to_name s))"
    using add_name_Inr [OF inv a] fv by auto
  have "aps_inv (part_info_to_name s')" using add_name_inv [OF inv, of io name None] a by simp
  moreover have "named_by_infos io s'"
    unfolding named_by_infos_def
  proof
    fix e assume "e \<in> set (part_info_to_name s')"
    then have "e = (i, name) \<or> e \<in> set (part_info_to_name s)" using i(5) by blast
    then show "\<exists>j. fromPartName io (snd e) (set_format s') = Inr j \<and> info_eq j (fst e)"
      using i(1,4) n fv by (auto simp: named_by_infos_def info_eq_def)
  qed
  moreover have "(\<not> added \<longrightarrow> s' = s) \<and> (added \<longrightarrow> \<not> covers s i \<and> (i, name) \<in> set (part_info_to_name s'))"
  proof -
    obtain r where r: "addImpl io i name None s = (r, s')" "outcome r \<noteq> HasIntersectingPart" "added \<longleftrightarrow> outcome r = Added"
      using a i(1) fv by (auto simp: add_name_def add_info_name_def split: prod.splits if_splits)
    note e = addImpl_effect_aux [OF inv fromPartName_wf [OF i(1)] r(1)]
    show ?thesis
    proof (cases added)
      case True
      then have "outcome r = Added" using r(3) by simp
      then show ?thesis using e True unfolding covers_def by blast
    next
      case False
      then have "outcome r = HasCovering" using r(2,3) by (cases "outcome r") simp_all
      then show ?thesis using e False by blast
    qed
  qed
  ultimately show ?thesis using i by (auto simp: set_ok_def)
qed

text \<open>The parts listed as covered are covered, whatever the set.\<close>

lemma covered_left_subset:
  "covered_left i es acc = Some r \<Longrightarrow> \<forall>e \<in> set acc. contains i (fst e) \<Longrightarrow> \<forall>e \<in> set r. contains i (fst e)"
  by (induction i es acc rule: covered_left.induct) (auto split: if_splits)

lemma covered_right_subset: "covered_right i es = Some r \<Longrightarrow> \<forall>e \<in> set r. contains i (fst e)"
  by (induction i es arbitrary: r rule: covered_right.induct) (fastforce split: if_splits)+

lemma covered_left_in: "covered_left i es acc = Some r \<Longrightarrow> set r \<subseteq> set es \<union> set acc"
  by (induction i es acc rule: covered_left.induct) (auto split: if_splits)

lemma covered_right_in: "covered_right i es = Some r \<Longrightarrow> set r \<subseteq> set es"
  by (induction i es arbitrary: r rule: covered_right.induct) (auto split: if_splits)

lemma getPartsCoveredByImpl_subset:
  assumes "e \<in> set (getPartsCoveredByImpl i ps)"
  shows "contains i (fst e) \<and> e \<in> set ps"
proof -
  obtain b f where s: "split_at i ps = (b, f)" by (cases "split_at i ps")
  obtain l r where lr: "covered_left i (rev b) [] = Some l" "covered_right i f = Some r" "e \<in> set l \<union> set r"
    using assms s
    by (cases "covered_left i (rev b) []"; cases "covered_right i f") (auto simp: getPartsCoveredByImpl_def)
  show ?thesis
    using lr(3) covered_left_subset [OF lr(1)] covered_right_subset [OF lr(2)] covered_left_in [OF lr(1)]
      covered_right_in [OF lr(2)] split_at_app [OF s] by auto
qed

text \<open>A removal keeps every part that the removed part does not cover.\<close>

definition keeps_uncovered :: "part_info \<Rightarrow> (part_entry \<Rightarrow> bool) \<Rightarrow> active_part_set \<Rightarrow> active_part_set \<Rightarrow> bool" where
  "keeps_uncovered i also_kept s s' \<longleftrightarrow>
     (\<exists>P. s' = s\<lparr>part_info_to_name := filter P (part_info_to_name s)\<rparr>
        \<and> (\<forall>e \<in> set (part_info_to_name s). \<not> contains i (fst e) \<or> also_kept e \<longrightarrow> P e))"

lemma keeps_uncovered_ok: "keeps_uncovered i K s s' \<Longrightarrow> set_ok io fv s \<Longrightarrow> set_ok io fv s'"
  by (fastforce simp: keeps_uncovered_def set_ok_def aps_inv_filter named_by_infos_def)

lemma keeps_uncovered_subset: "keeps_uncovered i K s s' \<Longrightarrow> set (part_info_to_name s') \<subseteq> set (part_info_to_name s)"
  by (auto simp: keeps_uncovered_def)

lemma keeps_uncovered_covers:
  assumes "keeps_uncovered i K s s'" "covers s k" "\<not> contains i k"
  shows "covers s' k"
  using assms contains_trans unfolding keeps_uncovered_def covers_def by fastforce

lemma remove_info_keeps: "keeps_uncovered i (\<lambda>e. \<not> info_eq (fst e) i) s (snd (remove_info i s))"
  using info_eq_contains info_eq_sym
  by (auto simp: keeps_uncovered_def remove_info_def intro!: exI [of _ "\<lambda>e. \<not> info_eq (fst e) i"])

lemma remove_names_keeps:
  assumes "set_ok io fv s" "set names \<subseteq> snd ` {e \<in> set (part_info_to_name s0). contains i (fst e)}"
    "set_ok io fv s0" "set (part_info_to_name s) \<subseteq> set (part_info_to_name s0)"
    "\<And>e. e \<in> set (part_info_to_name s0) \<Longrightarrow> K e \<Longrightarrow> snd e \<notin> set names"
    "remove_names io names acc s = (Inr b, s')"
  shows "keeps_uncovered i K s s'"
proof -
  let ?p = "\<lambda>n. projr (fromPartName io n fv)"
  have p: "fromPartName io (snd d) fv = Inr (?p (snd d)) \<and> info_eq (?p (snd d)) (fst d)"
    if "d \<in> set (part_info_to_name s0)" for d
    using assms(3) that unfolding set_ok_def named_by_infos_def by fastforce
  have names: "\<exists>d. d \<in> set (part_info_to_name s0) \<and> contains i (fst d) \<and> snd d = n" if "n \<in> set names" for n
    using subsetD [OF assms(2) that] by blast
  have "\<forall>n \<in> set names. fromPartName io n (set_format s) = Inr (?p n)"
    using names p assms(1) unfolding set_ok_def by metis
  from remove_names_effect [OF this, of acc] assms(6) have
    s': "s' = s\<lparr>part_info_to_name := filter (\<lambda>e. \<forall>n \<in> set names. \<not> info_eq (fst e) (?p n)) (part_info_to_name s)\<rparr>"
    by auto
  have "\<not> info_eq (fst e) (?p n)"
    if e: "e \<in> set (part_info_to_name s)" "\<not> contains i (fst e) \<or> K e" and n: "n \<in> set names" for e n
  proof
    assume eq: "info_eq (fst e) (?p n)"
    obtain d where d: "d \<in> set (part_info_to_name s0)" "contains i (fst d)" "snd d = n" using names [OF n] by blast
    have "info_eq (fst e) (fst d)" using eq p [OF d(1)] d(3) info_eq_trans by blast
    moreover have e0: "e \<in> set (part_info_to_name s0)" using e(1) assms(4) by blast
    moreover have "aps_inv (part_info_to_name s0)" using assms(3) by (simp add: set_ok_def)
    ultimately have "e = d"
      using covering_unique [of "part_info_to_name s0" "fst d" e d] d(1) aps_inv_wf info_eq_contains by auto
    then show False using d(2,3) e(2) assms(5) [OF e0] n by auto
  qed
  then show ?thesis unfolding keeps_uncovered_def using s' by blast
qed

lemma removePartAndCoveredParts_keeps:
  assumes "set_ok io fv s" "fromPartName io name fv = Inr i"
    "removePartAndCoveredParts_name io name s = (Inr b, s')"
  shows "keeps_uncovered i (\<lambda>e. False) s s'"
proof -
  let ?t = "snd (remove_info i s)"
  have fv: "set_format s = fv" using assms(1) by (simp add: set_ok_def)
  have r: "remove_names io (getPartsCoveredBy i s) (fst (remove_info i s)) ?t = (Inr b, s')"
    using assms(2,3) fv by (simp add: removePartAndCoveredParts_name_def removePartAndCoveredParts_def split: prod.splits)
  note k = remove_info_keeps [of i s]
  have "set (getPartsCoveredBy i s) \<subseteq> snd ` {e \<in> set (part_info_to_name s). contains i (fst e)}"
    using getPartsCoveredByImpl_subset by (fastforce simp: getPartsCoveredBy_def)
  from remove_names_keeps [OF keeps_uncovered_ok [OF k assms(1)] this assms(1) keeps_uncovered_subset [OF k] _ r, of "\<lambda>e. False"]
  obtain P where P: "s' = ?t\<lparr>part_info_to_name := filter P (part_info_to_name ?t)\<rparr>"
      "\<forall>e \<in> set (part_info_to_name ?t). \<not> contains i (fst e) \<longrightarrow> P e"
    unfolding keeps_uncovered_def by blast
  have eq: "\<not> contains i (fst e) \<Longrightarrow> \<not> info_eq (fst e) i" for e :: part_entry
    using info_eq_contains info_eq_sym by blast
  show ?thesis unfolding keeps_uncovered_def
  proof (intro exI conjI)
    show "s' = s\<lparr>part_info_to_name := filter (\<lambda>e. \<not> info_eq (fst e) i \<and> P e) (part_info_to_name s)\<rparr>"
      using P(1) by (simp add: remove_info_def conj_commute)
    show "\<forall>e \<in> set (part_info_to_name s). \<not> contains i (fst e) \<or> False \<longrightarrow> \<not> info_eq (fst e) i \<and> P e"
      using P(2) eq by (fastforce simp: remove_info_def)
  qed
qed

lemma removePartsCoveredBy_keeps:
  assumes "set_ok io fv s" "fromPartName io name fv = Inr i" "removePartsCoveredBy io name s = (Inr b, s')"
  shows "keeps_uncovered i (\<lambda>e. snd e = name) s s'"
proof -
  have fv: "set_format s = fv" using assms(1) by (simp add: set_ok_def)
  have r: "remove_names io (filter (\<lambda>part. part \<noteq> name) (getPartsCoveredBy i s)) True s = (Inr b, s')"
    using assms(2,3) fv by (simp add: removePartsCoveredBy_def)
  show ?thesis
    using getPartsCoveredByImpl_subset
    by (intro remove_names_keeps [OF assms(1) _ assms(1) subset_refl _ r]) (fastforce simp: getPartsCoveredBy_def)+
qed

lemma remove_name_keeps:
  assumes "set_ok io fv s" "fromPartName io name fv = Inr i" "remove_name io name s = (Inr b, s')"
  shows "keeps_uncovered i (\<lambda>e. \<not> info_eq (fst e) i) s s'"
  using assms remove_info_keeps [of i s] by (auto simp: remove_name_def set_ok_def split: prod.splits)

text \<open>The three removals of \<open>removeCoveredPartsFromMutations\<close> together.\<close>

lemma remove_from_parts_to_do_keeps:
  assumes "set_ok io fv s" "fromPartName io name fv = Inr i" "remove_from_parts_to_do io name rp rc s = Inr s'"
  shows "keeps_uncovered i (\<lambda>e. \<not> rp \<and> snd e = name) s s'"
proof -
  obtain b where b: "(if rp \<and> rc then removePartAndCoveredParts_name io name s
      else if rc then removePartsCoveredBy io name s else remove_name io name s) = (Inr b, s')" "rp \<or> rc"
    using assms(3) by (auto simp: remove_from_parts_to_do_def bind_r_Inr_iff keep_Inr split: if_splits)
  show ?thesis
  proof (cases rp)
    case True
    then have "keeps_uncovered i (\<lambda>e. False) s s'"
      using b removePartAndCoveredParts_keeps [OF assms(1,2)] remove_name_keeps [OF assms(1,2), of b s']
      unfolding keeps_uncovered_def by (cases rc) auto
    then show ?thesis using True by simp
  next
    case False
    then show ?thesis using b removePartsCoveredBy_keeps [OF assms(1,2), of b s'] by simp
  qed
qed

end
