(* ===== verification/Queue_Effects.thy ===== *)
theory Queue_Effects
  imports Queue_Todo
begin

text \<open>
  Which mutations and which fields the operations of the queue reach: an operation on the mutations of
  a partition changes the statuses that the index lists there, each once, and nothing else.
\<close>

section \<open>The index of mutations\<close>

text \<open>
  The index \<open>mutations_by_partition\<close> refers to stored statuses only, and lists each under the
  block number that the mutation has in the partition.
\<close>

definition index_ok :: "'c queue_state \<Rightarrow> bool" where
  "index_ok q \<longleftrightarrow> map_ok (mutations_by_znode q)
     \<and> (\<forall>pid m. mutations_by_partition q pid = Some m \<longrightarrow> map_ok m
          \<and> (\<forall>v z. (v, z) \<in> set m \<longrightarrow> (\<exists>st. map_of (mutations_by_znode q) z = Some st
                \<and> map_of (block_numbers (status_entry st)) pid = Some v)))"

lemma index_ok_map:
  "index_ok q \<Longrightarrow> mutations_by_partition q pid = Some m \<Longrightarrow> map_ok m"
  "index_ok q \<Longrightarrow> map_ok (mutations_by_znode q)"
  by (auto simp: index_ok_def)

lemma index_ok_distinct:
  assumes "index_ok q" "mutations_by_partition q pid = Some m"
  shows "distinct (map snd m)"
proof -
  have "inj_on snd (set m)"
  proof (rule inj_onI)
    fix a b assume "a \<in> set m" "b \<in> set m" "snd a = snd b"
    moreover have "\<exists>st. map_of (mutations_by_znode q) (snd e) = Some st
        \<and> map_of (block_numbers (status_entry st)) pid = Some (fst e)" if "e \<in> set m" for e
      using assms that by (cases e) (auto simp: index_ok_def)
    ultimately have "fst a = fst b" by (metis option.inject)
    then show "a = b" using \<open>snd a = snd b\<close> by (simp add: prod_eq_iff)
  qed
  moreover have "distinct m" using map_ok_distinct [OF index_ok_map(1) [OF assms]] by (simp add: distinct_map)
  ultimately show ?thesis by (simp add: distinct_map)
qed

text \<open>The loop over listed statuses, each listed once.\<close>

lemma fold_update_status:
  assumes "map_ok (mutations_by_znode q)" "distinct (map snd its)"
    "fold_r (\<lambda>it. update_status (snd it) f) its q = Inr q'"
  shows "\<exists>mz. q' = q\<lparr>mutations_by_znode := mz\<rparr> \<and> map_ok mz
    \<and> (\<forall>z. z \<notin> snd ` set its \<longrightarrow> map_of mz z = map_of (mutations_by_znode q) z)
    \<and> (\<forall>z \<in> snd ` set its. \<exists>st st'. map_of (mutations_by_znode q) z = Some st \<and> f st = Inr st'
         \<and> map_of mz z = Some st')"
  using assms
proof (induction its arbitrary: q)
  case Nil
  then show ?case by (intro exI [of _ "mutations_by_znode q"]) simp
next
  case (Cons it its)
  obtain st st' where st: "map_of (mutations_by_znode q) (snd it) = Some st" "f st = Inr st'"
    and rest: "fold_r (\<lambda>it. update_status (snd it) f) its
        (q\<lparr>mutations_by_znode := map_put (snd it) st' (mutations_by_znode q)\<rparr>) = Inr q'"
  proof -
    obtain q1 where q1: "update_status (snd it) f q = Inr q1" "fold_r (\<lambda>it. update_status (snd it) f) its q1 = Inr q'"
      using Cons.prems(3) by (auto simp: bind_r_Inr_iff)
    then show thesis using that by (auto simp: update_status_def bind_r_Inr_iff split: option.splits)
  qed
  let ?q = "q\<lparr>mutations_by_znode := map_put (snd it) st' (mutations_by_znode q)\<rparr>"
  have "map_ok (mutations_by_znode ?q)" using Cons.prems(1) by simp
  from Cons.IH [OF this _ rest] Cons.prems(2) obtain mz where mz: "q' = ?q\<lparr>mutations_by_znode := mz\<rparr>" "map_ok mz"
      "\<forall>z. z \<notin> snd ` set its \<longrightarrow> map_of mz z = map_of (mutations_by_znode ?q) z"
      "\<forall>z \<in> snd ` set its. \<exists>st st'. map_of (mutations_by_znode ?q) z = Some st \<and> f st = Inr st' \<and> map_of mz z = Some st'"
    by auto
  have new: "map_of (mutations_by_znode ?q) = (map_of (mutations_by_znode q))(snd it \<mapsto> st')"
    using Cons.prems(1) by simp
  have it: "snd it \<notin> snd ` set its" using Cons.prems(2) by simp
  show ?case
  proof (intro exI conjI)
    show "q' = q\<lparr>mutations_by_znode := mz\<rparr>" using mz(1) by simp
    show "map_ok mz" by (rule mz(2))
    show "\<forall>z. z \<notin> snd ` set (it # its) \<longrightarrow> map_of mz z = map_of (mutations_by_znode q) z"
      using mz(3) new by simp
    show "\<forall>z \<in> snd ` set (it # its). \<exists>st st'. map_of (mutations_by_znode q) z = Some st \<and> f st = Inr st'
        \<and> map_of mz z = Some st'"
      using mz(3,4) new it st by (metis (no_types, lifting) fun_upd_apply image_insert insertE list.simps(15))
  qed
qed

text \<open>
  What an operation on the mutations of a partition may do: \<open>reaches Z\<close> says that the statuses
  of \<open>Z
\<close>
  change as \<open>R\<close> allows and that no other status and no other field changes.
\<close>

definition statuses_change ::
  "string set \<Rightarrow> ('c mutation_status \<Rightarrow> 'c mutation_status \<Rightarrow> bool) \<Rightarrow> 'c queue_state \<Rightarrow> 'c queue_state \<Rightarrow> bool" where
  "statuses_change Z R q q' \<longleftrightarrow>
     (\<exists>mz. q' = q\<lparr>mutations_by_znode := mz\<rparr> \<and> map_ok mz
        \<and> (\<forall>z. z \<notin> Z \<longrightarrow> map_of mz z = map_of (mutations_by_znode q) z)
        \<and> (\<forall>z \<in> Z. \<exists>st st'. map_of (mutations_by_znode q) z = Some st \<and> map_of mz z = Some st' \<and> R st st'))"

definition listed :: "'c queue_state \<Rightarrow> string \<Rightarrow> (int \<Rightarrow> bool) \<Rightarrow> string set" where
  "listed q pid P = {z. \<exists>m v. mutations_by_partition q pid = Some m \<and> (v, z) \<in> set m \<and> P v}"

lemma each_mutation_changes:
  assumes "index_ok q" "each_mutation pid chosen f q = Inr q'"
    "\<And>m. map_ok m \<Longrightarrow> chosen m = filter (\<lambda>e. P (fst e)) m"
  shows "statuses_change (listed q pid P) (\<lambda>st st'. f st = Inr st') q q'"
proof (cases "mutations_by_partition q pid")
  case None
  then show ?thesis using assms(1,2)
    by (auto simp: each_mutation_def statuses_change_def listed_def index_ok_def
        intro!: exI [of _ "mutations_by_znode q"])
next
  case (Some m)
  let ?its = "filter (\<lambda>e. P (fst e)) m"
  have "fold_r (\<lambda>it. update_status (snd it) f) ?its q = Inr q'"
    using assms(2,3) Some index_ok_map(1) [OF assms(1) Some] by (simp add: each_mutation_def)
  moreover have "distinct (map snd ?its)" using index_ok_distinct [OF assms(1) Some] by (simp add: distinct_map_filter)
  moreover have "snd ` set ?its = listed q pid P" using Some by (force simp: listed_def)
  ultimately show ?thesis using fold_update_status [OF index_ok_map(2) [OF assms(1)], of ?its f q']
    unfolding statuses_change_def by metis
qed

lemma versions_between_filter:
  "map_ok m \<Longrightarrow> versions_between lo hi m = filter (\<lambda>e. lo < fst e \<and> fst e \<le> hi) m"
proof (induction m)
  case (Cons e m)
  show ?case
  proof (cases "fst e \<le> lo")
    case True
    then show ?thesis using Cons by (simp add: versions_between_def map_upper_bound_def)
  next
    case False
    have "takeWhile (\<lambda>it. fst it \<le> hi) l = filter (\<lambda>e. fst e \<le> hi) l" if "map_ok l" for l :: "(int \<times> string) list"
      using that by (induction l) (fastforce intro!: filter_False [symmetric])+
    from this [OF Cons.prems] show ?thesis
      using False Cons.prems map_upper_bound_filter [OF Cons.prems, of lo]
      by (simp add: versions_between_def map_upper_bound_def) (force intro!: filter_cong)
  qed
qed (simp add: versions_between_def map_upper_bound_def)

text \<open>An operation of this kind keeps the index when it keeps the entries of the statuses.\<close>

lemma statuses_change_index_ok:
  assumes "index_ok q" "statuses_change Z R q q'" "\<And>st st'. R st st' \<Longrightarrow> status_entry st' = status_entry st"
  shows "index_ok q'"
proof -
  obtain mz where mz: "q' = q\<lparr>mutations_by_znode := mz\<rparr>" "map_ok mz"
      "\<forall>z. z \<notin> Z \<longrightarrow> map_of mz z = map_of (mutations_by_znode q) z"
      "\<forall>z \<in> Z. \<exists>st st'. map_of (mutations_by_znode q) z = Some st \<and> map_of mz z = Some st' \<and> R st st'"
    using assms(2) unfolding statuses_change_def by blast
  have "\<exists>st'. map_of mz z = Some st' \<and> status_entry st' = status_entry st"
    if "map_of (mutations_by_znode q) z = Some st" for z st
    using that mz(3,4) assms(3) by (metis option.inject)
  then show ?thesis using assms(1) mz(1,2) unfolding index_ok_def by simp metis
qed

end
