(* ===== verification/Queue_Track.thy ===== *)
theory Queue_Track
  imports Queue_Effects
begin

text \<open>
  The queue does not lose parts: what is current or will be produced by the queue is covered by the
  virtual parts, and each mutation with a version above the data version of such a part either has it to
  do or finds it covered by a current part that is mutated already.
\<close>

section \<open>The invariant\<close>

definition statuses_ok :: "text_io \<Rightarrow> 'c queue_state \<Rightarrow> bool" where
  "statuses_ok io q \<longleftrightarrow> (\<forall>z st. map_of (mutations_by_znode q) z = Some st
     \<longrightarrow> set_ok io (queue_format q) (parts_to_do st) \<and> set_ok io (queue_format q) (parts_in_progress st))"

definition queue_ok :: "text_io \<Rightarrow> 'c queue_state \<Rightarrow> bool" where
  "queue_ok io q \<longleftrightarrow> index_ok q \<and> statuses_ok io q \<and> set_ok io (queue_format q) (current_parts q)
     \<and> set_ok io (queue_format q) (virtual_parts q)"

definition todo_covers :: "'c queue_state \<Rightarrow> string \<Rightarrow> part_info \<Rightarrow> bool" where
  "todo_covers q z k \<longleftrightarrow> (\<exists>st. map_of (mutations_by_znode q) z = Some st \<and> covers (parts_to_do st) k)"

definition mutated_over :: "'c queue_state \<Rightarrow> int \<Rightarrow> part_info \<Rightarrow> bool" where
  "mutated_over q v k \<longleftrightarrow> (\<exists>c \<in> set (part_info_to_name (current_parts q)). contains (fst c) k \<and> v \<le> getDataVersion (fst c))"

definition handled :: "'c queue_state \<Rightarrow> part_info \<Rightarrow> bool" where
  "handled q k \<longleftrightarrow> (\<forall>m v z. mutations_by_partition q (partition_id k) = Some m \<longrightarrow> (v, z) \<in> set m
     \<longrightarrow> getDataVersion k < v \<longrightarrow> todo_covers q z k \<or> mutated_over q v k)"

text \<open>The parts that an entry of the queue will produce or block.\<close>

definition queued :: "text_io \<Rightarrow> 'c queue_state \<Rightarrow> part_info \<Rightarrow> bool" where
  "queued io q i \<longleftrightarrow> (\<exists>p qe names n. p \<in> set (queue q) \<and> entries q p = Some qe
     \<and> getVirtualPartNames io (queue_format q) (log_data qe) = Inr names \<and> n \<in> set names
     \<and> fromPartName io n (queue_format q) = Inr i)"

definition tracked :: "text_io \<Rightarrow> 'c queue_state \<Rightarrow> bool" where
  "tracked io q \<longleftrightarrow> queue_ok io q
     \<and> (\<forall>e \<in> set (part_info_to_name (current_parts q)). covers (virtual_parts q) (fst e) \<and> handled q (fst e))
     \<and> (\<forall>i. queued io q i \<longrightarrow> covers (virtual_parts q) i \<and> (\<not> isFakeDropRangePart i \<longrightarrow> handled q i))"

section \<open>Adding parts\<close>

lemma statuses_change_ok:
  assumes "queue_ok io q" "statuses_change Z R q q'"
    "\<And>st st'. R st st' \<Longrightarrow> set_ok io (queue_format q) (parts_to_do st) \<Longrightarrow> set_ok io (queue_format q) (parts_in_progress st)
       \<Longrightarrow> status_entry st' = status_entry st \<and> set_ok io (queue_format q) (parts_to_do st')
         \<and> set_ok io (queue_format q) (parts_in_progress st')"
  shows "queue_ok io q'"
proof -
  obtain mz where mz: "q' = q\<lparr>mutations_by_znode := mz\<rparr>"
      "\<forall>z. z \<notin> Z \<longrightarrow> map_of mz z = map_of (mutations_by_znode q) z"
      "\<forall>z \<in> Z. \<exists>st st'. map_of (mutations_by_znode q) z = Some st \<and> map_of mz z = Some st' \<and> R st st'" and mz_ok: "map_ok mz"
    using assms(2) unfolding statuses_change_def by blast
  have "set_ok io (queue_format q) (parts_to_do st') \<and> set_ok io (queue_format q) (parts_in_progress st')"
    if z: "map_of mz z = Some st'" for z st'
  proof (cases "z \<in> Z")
    case True
    then obtain st where st: "map_of (mutations_by_znode q) z = Some st" "R st st'" using mz(3) z by fastforce
    then show ?thesis using assms(1,3) unfolding queue_ok_def statuses_ok_def by metis
  next
    case False
    then show ?thesis using mz(2) that assms(1) unfolding queue_ok_def statuses_ok_def by metis
  qed
  then have "statuses_ok io q'" using mz(1) by (simp add: statuses_ok_def)
  moreover have "index_ok q'"
  proof -
    let ?R = "\<lambda>st st'. status_entry st' = status_entry st"
    have "\<exists>st st'. map_of (mutations_by_znode q) z = Some st \<and> map_of mz z = Some st' \<and> ?R st st'" if "z \<in> Z" for z
      using that mz(3) assms(1,3) unfolding queue_ok_def statuses_ok_def by metis
    then have "statuses_change Z ?R q q'" using mz(1,2) mz_ok unfolding statuses_change_def by blast
    moreover have "index_ok q" using assms(1) by (simp add: queue_ok_def)
    ultimately show ?thesis by (blast intro: statuses_change_index_ok)
  qed
  ultimately show ?thesis using assms(1) mz(1) by (simp add: queue_ok_def)
qed

lemma statuses_change_todo:
  assumes "statuses_change Z R q q'" "todo_covers q z k"
    "\<And>st st'. map_of (mutations_by_znode q) z = Some st \<Longrightarrow> R st st' \<Longrightarrow> covers (parts_to_do st) k \<Longrightarrow> covers (parts_to_do st') k"
  shows "todo_covers q' z k"
  using assms unfolding statuses_change_def todo_covers_def by fastforce

lemma statuses_change_fields:
  "statuses_change Z R q q' \<Longrightarrow> \<exists>mz. q' = q\<lparr>mutations_by_znode := mz\<rparr>"
  unfolding statuses_change_def by blast

lemma addPartToMutations_changes:
  assumes "queue_ok io q" "fromPartName io name (queue_format q) = Inr i" "addPartToMutations io name i q = Inr q'"
  shows "statuses_change (listed q (partition_id i) (\<lambda>v. getDataVersion i < v)) (\<lambda>st st'. add_to_do io name st = Inr st') q q'"
    and "queue_ok io q'"
    and "todo_covers q z k \<Longrightarrow> todo_covers q' z k"
    and "handled q' i"
proof -
  have idx: "index_ok q" using assms(1) by (simp add: queue_ok_def)
  show ch: "statuses_change (listed q (partition_id i) (\<lambda>v. getDataVersion i < v)) (\<lambda>st st'. add_to_do io name st = Inr st') q q'"
    using each_mutation_changes [OF idx, of "partition_id i" _ "add_to_do io name" q' "\<lambda>v. getDataVersion i < v"]
      assms(3) map_upper_bound_filter by (auto simp: addPartToMutations_def)
  have add: "st' = st\<lparr>parts_to_do := parts_to_do st'\<rparr> \<and> set_ok io (queue_format q) (parts_to_do st')
      \<and> covers (parts_to_do st') i \<and> (\<forall>j. covers (parts_to_do st) j \<longrightarrow> covers (parts_to_do st') j)"
    if "add_to_do io name st = Inr st'" "set_ok io (queue_format q) (parts_to_do st)" for st st' :: "'a mutation_status"
  proof -
    note a = that
    obtain b s where s: "add_part io name (parts_to_do st) = Inr (b, s)" "st' = st\<lparr>parts_to_do := s\<rparr>"
      using a(1) by (auto simp: add_to_do_def bind_r_Inr_iff)
    show ?thesis using add_part_Inr [OF a(2) s(1)] assms(2) s(2) by auto
  qed
  show "queue_ok io q'"
  proof (rule statuses_change_ok [OF assms(1) ch])
    fix st st' :: "'a mutation_status"
    assume "add_to_do io name st = Inr st'" "set_ok io (queue_format q) (parts_to_do st)"
      "set_ok io (queue_format q) (parts_in_progress st)"
    then show "status_entry st' = status_entry st \<and> set_ok io (queue_format q) (parts_to_do st')
        \<and> set_ok io (queue_format q) (parts_in_progress st')"
      using add [of st st'] by (metis mutation_status.select_convs(1,3) mutation_status.surjective mutation_status.update_convs(2))
  qed
  have ok: "set_ok io (queue_format q) (parts_to_do st)" if "map_of (mutations_by_znode q) z = Some st" for z st
    using assms(1) that by (auto simp: queue_ok_def statuses_ok_def)
  show "todo_covers q z k \<Longrightarrow> todo_covers q' z k"
    using add ok by (blast intro: statuses_change_todo [OF ch])
  show "handled q' i"
  proof -
    have "todo_covers q' z i" if "z \<in> listed q (partition_id i) (\<lambda>v. getDataVersion i < v)" for z
      using ch that add ok unfolding statuses_change_def todo_covers_def by fastforce
    then show ?thesis using statuses_change_fields [OF ch] unfolding handled_def listed_def by fastforce
  qed
qed

section \<open>Insertion\<close>

lemma handled_mono:
  assumes "handled q k" "mutations_by_partition q' = mutations_by_partition q" "current_parts q' = current_parts q"
    "\<And>z. todo_covers q z k \<Longrightarrow> todo_covers q' z k"
  shows "handled q' k"
  using assms unfolding handled_def mutated_over_def by metis

text \<open>The fields that the insertion of the parts of an entry leaves alone.\<close>

definition same_base :: "'c queue_state \<Rightarrow> 'c queue_state \<Rightarrow> bool" where
  "same_base q q' \<longleftrightarrow> queue_format q' = queue_format q \<and> entries q' = entries q \<and> queue q' = queue q
     \<and> current_parts q' = current_parts q \<and> mutations_by_partition q' = mutations_by_partition q
     \<and> drop_parts q' = drop_parts q \<and> future_parts q' = future_parts q
     \<and> currently_executing_drop_replace_ranges q' = currently_executing_drop_replace_ranges q
     \<and> alter_sequence q' = alter_sequence q \<and> inserts_by_time q' = inserts_by_time q
     \<and> min_unprocessed_insert_time q' = min_unprocessed_insert_time q
     \<and> max_processed_insert_time q' = max_processed_insert_time q"

lemma same_base_refl [simp]: "same_base q q"
  by (simp add: same_base_def)

lemma same_base_trans: "same_base a b \<Longrightarrow> same_base b c \<Longrightarrow> same_base a c"
  by (simp add: same_base_def)

definition grows :: "text_io \<Rightarrow> 'c queue_state \<Rightarrow> 'c queue_state \<Rightarrow> bool" where
  "grows io q q' \<longleftrightarrow> same_base q q' \<and> queue_ok io q' \<and> (\<forall>z k. todo_covers q z k \<longrightarrow> todo_covers q' z k)
     \<and> (\<forall>k. covers (virtual_parts q) k \<longrightarrow> covers (virtual_parts q') k)"

lemma grows_trans: "grows io a b \<Longrightarrow> grows io b c \<Longrightarrow> grows io a c"
  unfolding grows_def using same_base_trans by blast

lemma grows_handled: "grows io q q' \<Longrightarrow> handled q k \<Longrightarrow> handled q' k"
  by (rule handled_mono [of q]) (auto simp: grows_def same_base_def)

lemma insert_virtual_part_grows:
  assumes "queue_ok io q" "insert_virtual_part io name q = Inr q'"
  shows "grows io q q'"
    and "fromPartName io name (queue_format q) = Inr i \<Longrightarrow> covers (virtual_parts q') i \<and> (\<not> isFakeDropRangePart i \<longrightarrow> handled q' i)"
proof -
  obtain b s i where s: "add_part io name (virtual_parts q) = Inr (b, s)" "fromPartName io name (queue_format q) = Inr i"
      "(if isFakeDropRangePart i then Inr (q\<lparr>virtual_parts := s\<rparr>)
        else addPartToMutations io name i (q\<lparr>virtual_parts := s\<rparr>)) = Inr q'"
    using assms(2) by (auto simp: insert_virtual_part_def bind_r_Inr_iff)
  have "set_ok io (queue_format q) (virtual_parts q)" using assms(1) by (simp add: queue_ok_def)
  note v = add_part_Inr [OF this s(1), unfolded s(2)]
  let ?q = "q\<lparr>virtual_parts := s\<rparr>"
  have ok: "queue_ok io ?q" using assms(1) v by (auto simp: queue_ok_def index_ok_def statuses_ok_def)
  have virt: "covers s i" "\<And>k. covers (virtual_parts q) k \<Longrightarrow> covers s k" using v by auto
  have todo: "todo_covers ?q z k \<longleftrightarrow> todo_covers q z k" for z k by (simp add: todo_covers_def)
  have "grows io q q' \<and> virtual_parts q' = s \<and> (\<not> isFakeDropRangePart i \<longrightarrow> handled q' i)"
  proof (cases "isFakeDropRangePart i")
    case True
    then show ?thesis using s(3) ok virt todo by (auto simp: grows_def same_base_def)
  next
    case False
    then have a: "addPartToMutations io name i ?q = Inr q'" "fromPartName io name (queue_format ?q) = Inr i"
      using s(2,3) by simp_all
    note add = addPartToMutations_changes [OF ok a(2,1)]
    obtain mz where "q' = ?q\<lparr>mutations_by_znode := mz\<rparr>" using statuses_change_fields [OF add(1)] by blast
    then show ?thesis using add(2-4) virt todo by (auto simp: grows_def same_base_def)
  qed
  then show "grows io q q'"
    and "fromPartName io name (queue_format q) = Inr i \<Longrightarrow> covers (virtual_parts q') i \<and> (\<not> isFakeDropRangePart i \<longrightarrow> handled q' i)" for i
    using virt(1) s(2) by auto
qed

lemma insert_virtual_parts_grow:
  assumes "queue_ok io q" "fold_r (insert_virtual_part io) names q = Inr q'"
  shows "grows io q q' \<and> (\<forall>n \<in> set names. \<forall>i. fromPartName io n (queue_format q) = Inr i
    \<longrightarrow> covers (virtual_parts q') i \<and> (\<not> isFakeDropRangePart i \<longrightarrow> handled q' i))"
  using assms
proof (induction names arbitrary: q)
  case Nil
  then show ?case by (simp add: grows_def)
next
  case (Cons n names)
  obtain q1 where q1: "insert_virtual_part io n q = Inr q1" "fold_r (insert_virtual_part io) names q1 = Inr q'"
    using Cons.prems(2) by (auto simp: bind_r_Inr_iff)
  note one = insert_virtual_part_grows [OF Cons.prems(1) q1(1)]
  have "queue_ok io q1" "queue_format q1 = queue_format q" using one(1) by (auto simp: grows_def same_base_def)
  with Cons.IH [OF _ q1(2)] have rest: "grows io q1 q'" "\<forall>n \<in> set names. \<forall>i. fromPartName io n (queue_format q) = Inr i
      \<longrightarrow> covers (virtual_parts q') i \<and> (\<not> isFakeDropRangePart i \<longrightarrow> handled q' i)" by auto
  have "covers (virtual_parts q1) k \<Longrightarrow> covers (virtual_parts q') k" for k using rest(1) by (simp add: grows_def)
  then show ?case using grows_trans [OF one(1) rest(1)] rest one(2) grows_handled [OF rest(1)] by auto
qed

text \<open>The parts in progress are a matter of their own.\<close>

lemma in_progress_grows:
  assumes "queue_ok io q" "addPartInProgressToMutations io name i j q = Inr q'"
  shows "grows io q q'"
proof -
  let ?f = "\<lambda>status. bind_r (add_part io name (parts_in_progress status)) (\<lambda>(_, s). Inr (status\<lparr>parts_in_progress := s\<rparr>))"
  have idx: "index_ok q" using assms(1) by (simp add: queue_ok_def)
  have ch: "statuses_change (listed q (partition_id i) (\<lambda>v. getDataVersion i < v \<and> v \<le> getMutationVersion j))
      (\<lambda>st st'. ?f st = Inr st') q q'"
    using each_mutation_changes [OF idx, of "partition_id i" _ ?f q'
        "\<lambda>v. getDataVersion i < v \<and> v \<le> getMutationVersion j"] assms(2) versions_between_filter
    by (auto simp: addPartInProgressToMutations_def)
  have one: "\<exists>s. st' = st\<lparr>parts_in_progress := s\<rparr> \<and> set_ok io (queue_format q) s"
    if a: "?f st = Inr st'" "set_ok io (queue_format q) (parts_in_progress st)" for st st' :: "'a mutation_status"
  proof -
    obtain b s where s: "add_part io name (parts_in_progress st) = Inr (b, s)" "st' = st\<lparr>parts_in_progress := s\<rparr>"
      using a(1) by (auto simp: bind_r_Inr_iff)
    then show ?thesis using add_part_Inr [OF a(2) s(1)] by auto
  qed
  have "queue_ok io q'"
    using one by (intro statuses_change_ok [OF assms(1) ch]) fastforce
  moreover have "todo_covers q z k \<Longrightarrow> todo_covers q' z k" for z k
    by (rule statuses_change_todo [OF ch]) (auto simp: bind_r_Inr_iff)
  moreover obtain mz where "q' = q\<lparr>mutations_by_znode := mz\<rparr>" using statuses_change_fields [OF ch] by blast
  ultimately show ?thesis by (simp add: grows_def same_base_def)
qed

lemma mutated_part_grows:
  assumes "queue_ok io q" "for_mutated_part (addPartInProgressToMutations io) io e q = Inr q'"
  shows "grows io q q'"
  using assms in_progress_grows [OF assms(1)]
  by (auto simp: for_mutated_part_def bind_r_Inr_iff grows_def split: if_splits list.splits)

text \<open>
  An entry other than \<open>DROP_PART\<close> is inserted: the fields that matter, and the new member of
  the queue.
\<close>

lemma note_insert_fields:
  assumes "note_insert p e (changed, q) = (changed', q')"
  shows "\<exists>t m. q' = q\<lparr>inserts_by_time := t, min_unprocessed_insert_time := m\<rparr>"
proof (cases "is_insert e")
  case False
  then show ?thesis using assms
    by (intro exI [of _ "inserts_by_time q"] exI [of _ "min_unprocessed_insert_time q"]) (simp add: note_insert_def)
next
  case True
  let ?q = "q\<lparr>inserts_by_time := map_put (create_time e, p) () (inserts_by_time q)\<rparr>"
  have "q' = ?q\<lparr>min_unprocessed_insert_time := create_time e\<rparr> \<or> q' = ?q"
    using assms True by (auto simp: note_insert_def Let_def split: if_splits)
  then show ?thesis
  proof (elim disjE)
    assume "q' = ?q"
    then have "q' = ?q\<lparr>min_unprocessed_insert_time := min_unprocessed_insert_time q\<rparr>" by simp
    then show ?thesis by blast
  qed blast
qed

lemma insertUnlocked_Inr:
  assumes "insertUnlocked io p (changed, q) = Inr (changed', q')" "entries q p = Some qe"
    "entry_type (log_data qe) \<noteq> DROP_PART" "queue_ok io q"
  shows "\<exists>names q1. getVirtualPartNames io (queue_format q) (log_data qe) = Inr names \<and> grows io q q1
    \<and> (\<forall>n \<in> set names. \<forall>i. fromPartName io n (queue_format q) = Inr i
         \<longrightarrow> covers (virtual_parts q1) i \<and> (\<not> isFakeDropRangePart i \<longrightarrow> handled q1 i))
    \<and> queue_format q' = queue_format q \<and> entries q' = entries q \<and> set (queue q') = insert p (set (queue q))
    \<and> current_parts q' = current_parts q1 \<and> virtual_parts q' = virtual_parts q1
    \<and> mutations_by_znode q' = mutations_by_znode q1 \<and> mutations_by_partition q' = mutations_by_partition q1"
proof -
  let ?e = "log_data qe"
  obtain names q1 q2 q3 where steps: "getVirtualPartNames io (queue_format q) ?e = Inr names"
      "fold_r (insert_virtual_part io) names q = Inr q1" "for_mutated_part (addPartInProgressToMutations io) io ?e q1 = Inr q2"
      "insert_drop_part io ?e q2 = Inr q3" and
    rest: "bind_r (enqueue io p ?e q3) (\<lambda>q. let (changed, q) = note_insert p ?e (changed, q)
        in Inr (changed, note_alter ?e q)) = Inr (changed', q')"
    using assms(1,2) by (auto simp: insertUnlocked_def deref_def bind_r_Inr_iff Let_def)
  have q3: "q3 = q2" using steps(4) assms(3) by (simp add: insert_drop_part_def)
  note one = insert_virtual_parts_grow [OF assms(4) steps(2)]
  then have ok1: "queue_ok io q1" by (simp add: grows_def)
  note two = mutated_part_grows [OF ok1 steps(3)]
  have base: "same_base q q2" using grows_trans [OF conjunct1 [OF one] two] by (simp add: grows_def)
  obtain q4 where q4: "enqueue io p ?e q2 = Inr q4"
      "(let (changed, q) = note_insert p ?e (changed, q4)
        in Inr (changed, note_alter ?e q)) = (Inr (changed', q') :: (nat option \<times> _) result)"
    using rest unfolding q3 by (rule bind_r_E) (rule that)
  have new: "queue_format q4 = queue_format q2" "entries q4 = entries q2" "set (queue q4) = insert p (set (queue q2))"
      "current_parts q4 = current_parts q2" "virtual_parts q4 = virtual_parts q2"
      "mutations_by_znode q4 = mutations_by_znode q2" "mutations_by_partition q4 = mutations_by_partition q2"
    using q4(1) by (auto simp: enqueue_def bind_r_Inr_iff split: if_splits)
  have "queue_format q' = queue_format q4 \<and> entries q' = entries q4 \<and> queue q' = queue q4
      \<and> current_parts q' = current_parts q4 \<and> virtual_parts q' = virtual_parts q4
      \<and> mutations_by_znode q' = mutations_by_znode q4 \<and> mutations_by_partition q' = mutations_by_partition q4"
  proof -
    obtain c5 q5 where q5: "note_insert p ?e (changed, q4) = (c5, q5)" by (rule prod.exhaust)
    obtain t m where "q5 = q4\<lparr>inserts_by_time := t, min_unprocessed_insert_time := m\<rparr>"
      using note_insert_fields [OF q5] by blast
    then show ?thesis using q4(2) unfolding q5 by (auto simp: note_alter_def)
  qed
  moreover have "covers (virtual_parts q2) i \<and> (\<not> isFakeDropRangePart i \<longrightarrow> handled q2 i)"
    if "n \<in> set names" "fromPartName io n (queue_format q) = Inr i" for n i
    using conjunct2 [OF one] that two grows_handled [OF two] unfolding grows_def by blast
  ultimately show ?thesis using steps(1) grows_trans [OF conjunct1 [OF one] two] new base
    by (intro exI [of _ names] exI [of _ q2]) (auto simp: same_base_def)
qed

lemma insertUnlocked_tracked:
  assumes "insertUnlocked io p (changed, q) = Inr (changed', q')" "entries q p = Some qe"
    "entry_type (log_data qe) \<noteq> DROP_PART" "tracked io q"
  shows "tracked io q'"
proof -
  have ok: "queue_ok io q" using assms(4) by (simp add: tracked_def)
  obtain names q1 where n: "getVirtualPartNames io (queue_format q) (log_data qe) = Inr names" and g: "grows io q q1"
    and new: "\<And>n i. n \<in> set names \<Longrightarrow> fromPartName io n (queue_format q) = Inr i
         \<Longrightarrow> covers (virtual_parts q1) i \<and> (\<not> isFakeDropRangePart i \<longrightarrow> handled q1 i)"
    and f: "queue_format q' = queue_format q" "entries q' = entries q" "set (queue q') = insert p (set (queue q))"
      "current_parts q' = current_parts q1" "virtual_parts q' = virtual_parts q1"
      "mutations_by_znode q' = mutations_by_znode q1" "mutations_by_partition q' = mutations_by_partition q1"
    using insertUnlocked_Inr [OF assms(1-3) ok] by blast
  have fmt: "queue_format q1 = queue_format q" and cur: "current_parts q1 = current_parts q"
    using g by (auto simp: grows_def same_base_def)
  have h: "handled q' k \<longleftrightarrow> handled q1 k" for k
    using f by (simp add: handled_def mutated_over_def todo_covers_def)
  have "queue_ok io q'" using g f fmt by (auto simp: grows_def queue_ok_def index_ok_def statuses_ok_def)
  moreover have "covers (virtual_parts q') i \<and> (\<not> isFakeDropRangePart i \<longrightarrow> handled q' i)" if i: "queued io q' i" for i
  proof (cases "queued io q i")
    case True
    then show ?thesis using assms(4) g grows_handled [OF g] h f(5) by (auto simp: tracked_def grows_def)
  next
    case False
    then show ?thesis using i n new f(1-3,5) assms(2) h by (fastforce simp: queued_def)
  qed
  moreover have "covers (virtual_parts q') (fst e) \<and> handled q' (fst e)" if "e \<in> set (part_info_to_name (current_parts q'))" for e
    using that assms(4) g grows_handled [OF g] h f(4,5) cur by (auto simp: tracked_def grows_def)
  ultimately show ?thesis by (simp add: tracked_def)
qed

end
