(* ===== verification/Queue_Process.thy ===== *)
theory Queue_Process
  imports Queue_Track
begin

text \<open>
  An entry that has been executed leaves the queue: its part becomes current, and the mutations forget
  the parts it covers. The queue still tracks every part, unless the part was current already.
\<close>

section \<open>What a removal from the mutations keeps\<close>

definition todo_entry :: "'c queue_state \<Rightarrow> string \<Rightarrow> part_entry \<Rightarrow> bool" where
  "todo_entry q z e \<longleftrightarrow> (\<exists>st. map_of (mutations_by_znode q) z = Some st \<and> e \<in> set (part_info_to_name (parts_to_do st)))"

lemma todo_covers_entry: "todo_covers q z k \<longleftrightarrow> (\<exists>e. todo_entry q z e \<and> contains (fst e) k)"
  unfolding todo_covers_def todo_entry_def covers_def by blast

lemma todo_entry_wf: "queue_ok io q \<Longrightarrow> todo_entry q z e \<Longrightarrow> wf_info (fst e)"
  by (auto simp: todo_entry_def queue_ok_def statuses_ok_def set_ok_def dest: aps_inv_wf)

lemma forget_failure_fields [simp]:
  "parts_to_do (forget_failure i st) = parts_to_do st" "parts_in_progress (forget_failure i st) = parts_in_progress st"
  "status_entry (forget_failure i st) = status_entry st" "is_done (forget_failure i st) = is_done st"
  by (simp_all add: forget_failure_def)

lemma remove_from_status_Inr:
  assumes "remove_from_status io name i rp rc st = Inr st'" "set_ok io fv (parts_to_do st)"
    "fromPartName io name fv = Inr i"
  shows "keeps_uncovered i (\<lambda>e. \<not> rp \<and> snd e = name) (parts_to_do st) (parts_to_do st')
    \<and> parts_in_progress st' = parts_in_progress st \<and> status_entry st' = status_entry st \<and> is_done st' = is_done st"
proof -
  obtain s where s: "remove_from_parts_to_do io name rp rc (parts_to_do st) = Inr s"
      "st' = forget_failure i (st\<lparr>parts_to_do := s\<rparr>)"
    using assms(1) by (auto simp: remove_from_status_def bind_r_Inr_iff)
  show ?thesis using remove_from_parts_to_do_keeps [OF assms(2,3) s(1)] s(2) by simp
qed

text \<open>The fields that a removal leaves alone, and the parts to do that stay.\<close>

definition shrinks :: "part_info \<Rightarrow> (part_entry \<Rightarrow> bool) \<Rightarrow> text_io \<Rightarrow> 'c queue_state \<Rightarrow> 'c queue_state \<Rightarrow> bool" where
  "shrinks i K io q q' \<longleftrightarrow> same_base q q' \<and> virtual_parts q' = virtual_parts q \<and> queue_ok io q'
     \<and> (\<forall>z e. todo_entry q z e \<and> (\<not> contains i (fst e) \<or> K e) \<longrightarrow> todo_entry q' z e)
     \<and> (\<forall>z e. todo_entry q' z e \<longrightarrow> todo_entry q z e)"

lemma removeCoveredPartsFromMutations_shrinks:
  assumes "queue_ok io q" "removeCoveredPartsFromMutations io name rp rc q = Inr q'"
    "fromPartName io name (queue_format q) = Inr i"
  shows "shrinks i (\<lambda>e. \<not> rp \<and> snd e = name) io q q'"
proof -
  let ?K = "\<lambda>e. \<not> rp \<and> snd e = name"
  have idx: "index_ok q" using assms(1) by (simp add: queue_ok_def)
  obtain q1 where q1: "each_mutation (partition_id i) (\<lambda>m. m) (remove_from_status io name i rp rc) q = Inr q1"
      "q' = (if some_probably_done (partition_id i) q1 then q1\<lparr>finalizing_scheduled := True\<rparr> else q1)"
    using assms(2,3) by (auto simp: removeCoveredPartsFromMutations_def bind_r_Inr_iff)
  have ch: "statuses_change (listed q (partition_id i) (\<lambda>_. True))
      (\<lambda>st st'. remove_from_status io name i rp rc st = Inr st') q q1"
    using each_mutation_changes [OF idx q1(1), of "\<lambda>_. True"] by simp
  note st = remove_from_status_Inr [OF _ _ assms(3)]
  have ok1: "queue_ok io q1"
  proof (rule statuses_change_ok [OF assms(1) ch])
    fix st st' :: "'a mutation_status"
    assume a: "remove_from_status io name i rp rc st = Inr st'" "set_ok io (queue_format q) (parts_to_do st)"
      "set_ok io (queue_format q) (parts_in_progress st)"
    then have "keeps_uncovered i ?K (parts_to_do st) (parts_to_do st')" using st by blast
    then show "status_entry st' = status_entry st \<and> set_ok io (queue_format q) (parts_to_do st')
        \<and> set_ok io (queue_format q) (parts_in_progress st')"
      using st [OF a(1,2)] keeps_uncovered_ok a(2,3) by metis
  qed
  obtain mz where mz: "q1 = q\<lparr>mutations_by_znode := mz\<rparr>"
      "\<forall>z. z \<notin> listed q (partition_id i) (\<lambda>_. True) \<longrightarrow> map_of mz z = map_of (mutations_by_znode q) z"
      "\<forall>z \<in> listed q (partition_id i) (\<lambda>_. True). \<exists>st st'. map_of (mutations_by_znode q) z = Some st
         \<and> map_of mz z = Some st' \<and> remove_from_status io name i rp rc st = Inr st'"
    using ch unfolding statuses_change_def by blast
  have ok: "set_ok io (queue_format q) (parts_to_do st)" if "map_of (mutations_by_znode q) z = Some st" for z st
    using assms(1) that by (auto simp: queue_ok_def statuses_ok_def)
  have entry: "(todo_entry q z e \<and> (\<not> contains i (fst e) \<or> ?K e) \<longrightarrow> todo_entry q1 z e) \<and> (todo_entry q1 z e \<longrightarrow> todo_entry q z e)"
    for z e
  proof (cases "z \<in> listed q (partition_id i) (\<lambda>_. True)")
    case True
    then obtain st st' where s: "map_of (mutations_by_znode q) z = Some st" "map_of mz z = Some st'"
        "remove_from_status io name i rp rc st = Inr st'" using mz(3) by blast
    have "keeps_uncovered i ?K (parts_to_do st) (parts_to_do st')" using st [OF s(3) ok [OF s(1)]] by blast
    then show ?thesis using s(1,2) mz(1) by (auto simp: todo_entry_def keeps_uncovered_def)
  next
    case False
    then show ?thesis using mz(1,2) by (simp add: todo_entry_def)
  qed
  show ?thesis using q1(2) mz(1) ok1 entry
    by (auto simp: shrinks_def same_base_def todo_entry_def queue_ok_def index_ok_def statuses_ok_def)
qed

lemma removePartInProgress_shrinks:
  assumes "queue_ok io q" "removePartInProgressFromMutations io name i j q = Inr q'"
  shows "shrinks k (\<lambda>_. True) io q q'"
proof -
  let ?f = "\<lambda>status. bind_r (keep (remove_name io name (parts_in_progress status))) (\<lambda>(_, s). Inr (status\<lparr>parts_in_progress := s\<rparr>))"
  have idx: "index_ok q" using assms(1) by (simp add: queue_ok_def)
  have ch: "statuses_change (listed q (partition_id i) (\<lambda>v. getDataVersion i < v \<and> v \<le> getMutationVersion j))
      (\<lambda>st st'. ?f st = Inr st') q q'"
    using each_mutation_changes [OF idx, of "partition_id i" _ ?f q'
        "\<lambda>v. getDataVersion i < v \<and> v \<le> getMutationVersion j"] assms(2) versions_between_filter
    by (auto simp: removePartInProgressFromMutations_def)
  have one: "\<exists>s. st' = st\<lparr>parts_in_progress := s\<rparr> \<and> set_ok io (queue_format q) s"
    if a: "?f st = Inr st'" "set_ok io (queue_format q) (parts_in_progress st)" for st st' :: "'a mutation_status"
  proof -
    obtain b s where s: "remove_name io name (parts_in_progress st) = (Inr b, s)" "st' = st\<lparr>parts_in_progress := s\<rparr>"
      using a(1) by (auto simp: bind_r_Inr_iff keep_Inr)
    obtain i where i: "fromPartName io name (queue_format q) = Inr i"
      using s(1) a(2) by (auto simp: remove_name_def set_ok_def split: sum.splits)
    show ?thesis using keeps_uncovered_ok [OF remove_name_keeps [OF a(2) i s(1)] a(2)] s(2) by blast
  qed
  have ok: "queue_ok io q'"
    using one by (intro statuses_change_ok [OF assms(1) ch]) fastforce
  obtain mz where mz: "q' = q\<lparr>mutations_by_znode := mz\<rparr>"
      "\<forall>z. z \<notin> listed q (partition_id i) (\<lambda>v. getDataVersion i < v \<and> v \<le> getMutationVersion j)
         \<longrightarrow> map_of mz z = map_of (mutations_by_znode q) z"
      "\<forall>z \<in> listed q (partition_id i) (\<lambda>v. getDataVersion i < v \<and> v \<le> getMutationVersion j).
         \<exists>st st'. map_of (mutations_by_znode q) z = Some st \<and> map_of mz z = Some st' \<and> ?f st = Inr st'"
    using ch unfolding statuses_change_def by blast
  have "todo_entry q' z e \<longleftrightarrow> todo_entry q z e" for z e
  proof (cases "z \<in> listed q (partition_id i) (\<lambda>v. getDataVersion i < v \<and> v \<le> getMutationVersion j)")
    case True
    then obtain st st' where s: "map_of (mutations_by_znode q) z = Some st" "map_of mz z = Some st'" "?f st = Inr st'"
      using mz(3) by blast
    have "parts_to_do st' = parts_to_do st" using s(3) by (auto simp: bind_r_Inr_iff)
    then show ?thesis using s(1,2) mz(1) by (simp add: todo_entry_def)
  next
    case False
    then show ?thesis using mz(1,2) by (simp add: todo_entry_def)
  qed
  then show ?thesis using ok mz(1) by (auto simp: shrinks_def same_base_def)
qed

section \<open>A processed entry\<close>

text \<open>
  The part of an executed entry is \<open>new\<close> when it is not current yet, and
  \<open>canonical\<close> when the parts to do spell it as the entry does.
\<close>

definition new_part :: "'c queue_state \<Rightarrow> part_info \<Rightarrow> bool" where
  "new_part q i \<longleftrightarrow> (\<forall>c \<in> set (part_info_to_name (current_parts q)). \<not> info_eq (fst c) i)"

definition canonical :: "'c queue_state \<Rightarrow> string \<Rightarrow> part_info \<Rightarrow> bool" where
  "canonical q name i \<longleftrightarrow> (\<forall>z e. todo_entry q z e \<longrightarrow> info_eq (fst e) i \<longrightarrow> snd e = name)"

lemma handledD:
  "handled q k \<Longrightarrow> mutations_by_partition q (partition_id k) = Some m \<Longrightarrow> (v, z) \<in> set m \<Longrightarrow> getDataVersion k < v
     \<Longrightarrow> todo_covers q z k \<or> mutated_over q v k"
  by (simp add: handled_def)

lemma add_current_part_handled:
  assumes ok: "queue_ok io q" and run: "add_current_part io name q = Inr q'"
    and i: "fromPartName io name (queue_format q) = Inr i"
    and cur: "\<forall>e \<in> set (part_info_to_name (current_parts q)). handled q (fst e)"
    and hi: "handled q i" and new: "new_part q i" and can: "canonical q name i"
    and k: "handled q k"
  shows "handled q' k"
proof -
  obtain added s where s: "add_part io name (current_parts q) = Inr (added, s)"
      "removeCoveredPartsFromMutations io name (\<not> added) True (q\<lparr>current_parts := s\<rparr>) = Inr q'"
    using run by (auto simp: add_current_part_def bind_r_Inr_iff)
  let ?q = "q\<lparr>current_parts := s\<rparr>"
  have set: "set_ok io (queue_format q) (current_parts q)" using ok by (simp add: queue_ok_def)
  note a = add_part_Inr [OF set s(1), unfolded i]
  have ok1: "queue_ok io ?q" using ok a by (auto simp: queue_ok_def index_ok_def statuses_ok_def)
  have "fromPartName io name (queue_format ?q) = Inr i" using i by simp
  from removeCoveredPartsFromMutations_shrinks [OF ok1 s(2) this]
  have sh: "current_parts q' = s" "mutations_by_partition q' = mutations_by_partition q"
      "\<And>z e. todo_entry q z e \<Longrightarrow> \<not> contains i (fst e) \<or> added \<and> snd e = name \<Longrightarrow> todo_entry q' z e"
    unfolding shrinks_def same_base_def todo_entry_def by auto
  have wfi: "wf_info i" by (rule fromPartName_wf [OF i])
  have "todo_covers q' z k \<or> mutated_over q' v k"
    if m: "mutations_by_partition q (partition_id k) = Some m" "(v, z) \<in> set m" "getDataVersion k < v" for m v z
  proof (cases added)
    case True
    then have nc: "\<not> covers (current_parts q) i" and iin: "(i, name) \<in> set (part_info_to_name s)" using a by blast+
    have kept: "c \<in> set (part_info_to_name s)" if "c \<in> set (part_info_to_name (current_parts q))" "\<not> contains i (fst c)" for c
    proof -
      have "covers (current_parts q) (fst c)" using that(1) contains_refl unfolding covers_def by blast
      then have "covers s (fst c)" using a by blast
      then obtain d where d: "d \<in> set (part_info_to_name s)" "contains (fst d) (fst c)" unfolding covers_def by blast
      then have "d = (i, name) \<or> d \<in> set (part_info_to_name (current_parts q))" using a by blast
      moreover have "d \<noteq> (i, name)" using d(2) that(2) by auto
      ultimately have "d \<in> set (part_info_to_name (current_parts q))" by blast
      then have "d = c" using covering_unique [of "part_info_to_name (current_parts q)" "fst c" d c] set that(1) d(2)
        by (simp add: set_ok_def aps_inv_wf)
      then show ?thesis using d(1) by simp
    qed
    have icase: "todo_covers q' z k \<or> mutated_over q' v k" if ik: "contains i k"
    proof (cases "v \<le> getDataVersion i")
      case True
      then show ?thesis using iin ik sh(1) unfolding mutated_over_def by force
    next
      case False
      have "mutations_by_partition q (partition_id i) = Some m" using m(1) contains_partition [OF ik] by simp
      from handledD [OF hi this m(2)] False
      have "todo_covers q z i \<or> mutated_over q v i" by simp
      moreover have "\<not> mutated_over q v i" using nc unfolding mutated_over_def covers_def by blast
      ultimately obtain e where e: "todo_entry q z e" "contains (fst e) i" unfolding todo_covers_entry by blast
      have "\<not> contains i (fst e) \<or> snd e = name"
        using can e contains_antisym [OF e(2) _ todo_entry_wf [OF ok e(1)] wfi] unfolding canonical_def by blast
      then have "todo_entry q' z e" using sh(3) e(1) True by blast
      then show ?thesis using contains_trans [OF e(2) ik] unfolding todo_covers_entry by blast
    qed
    from handledD [OF k m] show ?thesis
    proof
      assume "todo_covers q z k"
      then obtain e where e: "todo_entry q z e" "contains (fst e) k" unfolding todo_covers_entry by blast
      show ?thesis
      proof (cases "contains i (fst e)")
        case True
        then show ?thesis using icase contains_trans [OF True e(2)] by blast
      next
        case False
        then show ?thesis using sh(3) e unfolding todo_covers_entry by blast
      qed
    next
      assume "mutated_over q v k"
      then obtain c where c: "c \<in> set (part_info_to_name (current_parts q))" "contains (fst c) k" "v \<le> getDataVersion (fst c)"
        unfolding mutated_over_def by blast
      show ?thesis
      proof (cases "contains i (fst c)")
        case True
        then show ?thesis using icase contains_trans [OF True c(2)] by blast
      next
        case False
        then show ?thesis using kept [OF c(1) False] c(2,3) sh(1) unfolding mutated_over_def by blast
      qed
    qed
  next
    case False
    then have s_eq: "s = current_parts q" and ci: "covers (current_parts q) i" using a by auto
    have over: "mutated_over q' v k" if "mutated_over q v k" using that sh(1) s_eq unfolding mutated_over_def by simp
    obtain c where c: "c \<in> set (part_info_to_name (current_parts q))" "contains (fst c) i"
      using ci unfolding covers_def by blast
    from handledD [OF k m] show ?thesis
    proof
      assume "todo_covers q z k"
      then obtain e where e: "todo_entry q z e" "contains (fst e) k" unfolding todo_covers_entry by blast
      show ?thesis
      proof (cases "contains i (fst e)")
        case False
        then show ?thesis using sh(3) e unfolding todo_covers_entry by blast
      next
        case True
        then have ck: "contains (fst c) k" using c(2) e(2) contains_trans by blast
        show ?thesis
        proof (cases "v \<le> getDataVersion (fst c)")
          case True
          then show ?thesis using over c(1) ck unfolding mutated_over_def by blast
        next
          case False
          have "mutations_by_partition q (partition_id (fst c)) = Some m" using m(1) contains_partition [OF ck] by simp
          moreover have "handled q (fst c)" using cur c(1) by blast
          ultimately have "todo_covers q z (fst c) \<or> mutated_over q v (fst c)" using handledD m(2) False by fastforce
          then show ?thesis
          proof
            assume "mutated_over q v (fst c)"
            then show ?thesis using over contains_trans [OF _ ck] unfolding mutated_over_def by blast
          next
            assume "todo_covers q z (fst c)"
            then obtain d where d: "todo_entry q z d" "contains (fst d) (fst c)" unfolding todo_covers_entry by blast
            have "\<not> contains i (fst d)"
            proof
              assume "contains i (fst d)"
              then have "contains i (fst c)" using d(2) contains_trans by blast
              then have "info_eq (fst c) i"
                using contains_antisym c(2) wfi aps_inv_wf [of "part_info_to_name (current_parts q)" c] c(1) set
                by (auto simp: set_ok_def)
              then show False using new c(1) by (simp add: new_part_def)
            qed
            then have "todo_entry q' z d" using sh(3) d(1) by blast
            then show ?thesis using contains_trans [OF d(2) ck] unfolding todo_covers_entry by blast
          qed
        qed
      qed
    next
      assume "mutated_over q v k"
      then show ?thesis using over by blast
    qed
  qed
  then show ?thesis using sh(2) unfolding handled_def by simp
qed

end
