(* ===== verification/Queue_Results.thy ===== *)
theory Queue_Results
  imports Queue_Process
begin

text \<open>
  What holds of the queue as entries enter and leave it: parts are tracked, times of inserts are exact;
  and where the bookkeeping goes wrong: a part fetched again is forgotten by mutations, the progress of a
  failed mutation stays, and clearing the queue leaves pending drops behind.
\<close>

section \<open>Processed entries\<close>

lemma remove_insert_time_fields:
  assumes "remove_insert_time p e (c, d, q) = (c', d', q')"
  shows "\<exists>t m x. q' = q\<lparr>inserts_by_time := t, min_unprocessed_insert_time := m, max_processed_insert_time := x\<rparr>"
proof (cases "is_insert e")
  case False
  then have "q' = q\<lparr>inserts_by_time := inserts_by_time q, min_unprocessed_insert_time := min_unprocessed_insert_time q,
      max_processed_insert_time := max_processed_insert_time q\<rparr>" using assms by (simp add: remove_insert_time_def)
  then show ?thesis by blast
next
  case True
  let ?t = "map_erase (create_time e, p) (inserts_by_time q)"
  let ?q = "q\<lparr>inserts_by_time := ?t\<rparr>"
  obtain c1 q1 where q1: "(case inserts_by_time ?q of
      [] \<Rightarrow> (Some 0, ?q\<lparr>min_unprocessed_insert_time := 0\<rparr>)
    | first # _ \<Rightarrow>
        if fst (fst first) > min_unprocessed_insert_time ?q
        then (Some (fst (fst first)), ?q\<lparr>min_unprocessed_insert_time := fst (fst first)\<rparr>)
        else (c, ?q)) = (c1, q1)" by (rule prod.exhaust)
  have "\<exists>m. q1 = ?q\<lparr>min_unprocessed_insert_time := m\<rparr>"
  proof -
    have "q1 = ?q \<or> (\<exists>m. q1 = ?q\<lparr>min_unprocessed_insert_time := m\<rparr>)"
      using q1 by (auto split: list.splits if_splits)
    moreover have "?q = ?q\<lparr>min_unprocessed_insert_time := min_unprocessed_insert_time q\<rparr>" by simp
    ultimately show ?thesis by metis
  qed
  then obtain m where m: "q1 = q\<lparr>inserts_by_time := ?t, min_unprocessed_insert_time := m\<rparr>" by auto
  have "remove_insert_time p e (c, d, q)
      = (if create_time e > max_processed_insert_time q1
         then (c1, Some (create_time e), q1\<lparr>max_processed_insert_time := create_time e\<rparr>) else (c1, d, q1))"
    using True q1 by (simp add: remove_insert_time_def Let_def)
  then have "q' = q1\<lparr>max_processed_insert_time := create_time e\<rparr> \<or> q' = q1"
    using assms by (auto split: if_splits)
  moreover have "q1 = q1\<lparr>max_processed_insert_time := max_processed_insert_time q1\<rparr>" by simp
  ultimately show ?thesis unfolding m by (elim disjE) blast+
qed

lemma same_sets_tracked:
  assumes "tracked io q" "queue_format q' = queue_format q" "entries q' = entries q" "set (queue q') \<subseteq> set (queue q)"
    "current_parts q' = current_parts q" "virtual_parts q' = virtual_parts q"
    "mutations_by_znode q' = mutations_by_znode q" "mutations_by_partition q' = mutations_by_partition q"
  shows "tracked io q'"
proof -
  have "queue_ok io q'" using assms by (auto simp: tracked_def queue_ok_def index_ok_def statuses_ok_def)
  moreover have "handled q' k \<longleftrightarrow> handled q k" for k
    using assms by (simp add: handled_def todo_covers_def mutated_over_def)
  moreover have "queued io q' i \<Longrightarrow> queued io q i" for i using assms(2-4) by (auto simp: queued_def)
  ultimately show ?thesis using assms by (auto simp: tracked_def)
qed

lemma shrinks_all_tracked:
  assumes "tracked io q" "\<And>i. shrinks i (\<lambda>_. True) io q q'"
  shows "tracked io q'"
proof -
  have s: "same_base q q'" "virtual_parts q' = virtual_parts q" "queue_ok io q'"
      "\<And>z e. todo_entry q z e \<Longrightarrow> todo_entry q' z e"
    using assms(2) [of default_info] by (auto simp: shrinks_def)
  have "handled q k \<Longrightarrow> handled q' k" for k
  proof (rule handled_mono [of q k q'])
    show "todo_covers q z k \<Longrightarrow> todo_covers q' z k" for z using s(4) unfolding todo_covers_entry by blast
  qed (use s(1) in \<open>simp_all add: same_base_def\<close>)
  moreover have "queued io q' i \<Longrightarrow> queued io q i" for i using s(1) by (simp add: queued_def same_base_def)
  ultimately show ?thesis using assms(1) s(1-3) by (auto simp: tracked_def same_base_def)
qed

lemma add_current_part_tracked:
  assumes "tracked io q" "add_current_part io name q = Inr q'" "fromPartName io name (queue_format q) = Inr i"
    "queued io q i" "\<not> isFakeDropRangePart i" "new_part q i" "canonical q name i"
  shows "tracked io q' \<and> same_base (q\<lparr>current_parts := current_parts q'\<rparr>) q'"
proof -
  have ok: "queue_ok io q" and cur: "\<forall>e \<in> set (part_info_to_name (current_parts q)). covers (virtual_parts q) (fst e) \<and> handled q (fst e)"
    and que: "\<And>k. queued io q k \<Longrightarrow> covers (virtual_parts q) k \<and> (\<not> isFakeDropRangePart k \<longrightarrow> handled q k)"
    using assms(1) by (auto simp: tracked_def)
  have hi: "handled q i" and vi: "covers (virtual_parts q) i" using que [OF assms(4)] assms(5) by auto
  obtain added s where s: "add_part io name (current_parts q) = Inr (added, s)"
      "removeCoveredPartsFromMutations io name (\<not> added) True (q\<lparr>current_parts := s\<rparr>) = Inr q'"
    using assms(2) by (auto simp: add_current_part_def bind_r_Inr_iff)
  let ?q = "q\<lparr>current_parts := s\<rparr>"
  have set: "set_ok io (queue_format q) (current_parts q)" using ok by (simp add: queue_ok_def)
  note a = add_part_Inr [OF set s(1), unfolded assms(3)]
  then have sub: "set (part_info_to_name s) \<subseteq> insert (i, name) (set (part_info_to_name (current_parts q)))"
    and so: "set_ok io (queue_format q) s" by auto
  have "queue_ok io ?q" using ok so by (auto simp: queue_ok_def index_ok_def statuses_ok_def)
  from removeCoveredPartsFromMutations_shrinks [OF this s(2)] assms(3)
  have sh: "same_base ?q q'" "virtual_parts q' = virtual_parts q" "queue_ok io q'" by (auto simp: shrinks_def)
  have cs: "current_parts q' = s" using sh(1) by (simp add: same_base_def)
  have "\<forall>e \<in> set (part_info_to_name (current_parts q)). handled q (fst e)" using cur by blast
  note h = add_current_part_handled [OF ok assms(2,3) this hi assms(6,7)]
  have "covers (virtual_parts q') (fst e) \<and> handled q' (fst e)" if e: "e \<in> set (part_info_to_name (current_parts q'))" for e
  proof -
    have "e = (i, name) \<or> e \<in> set (part_info_to_name (current_parts q))" using subsetD [OF sub] e cs by blast
    then show ?thesis
    proof
      assume "e = (i, name)"
      then show ?thesis using h [OF hi] vi sh(2) by simp
    next
      assume "e \<in> set (part_info_to_name (current_parts q))"
      then show ?thesis using h cur sh(2) by simp
    qed
  qed
  moreover have "covers (virtual_parts q') k \<and> (\<not> isFakeDropRangePart k \<longrightarrow> handled q' k)" if "queued io q' k" for k
  proof -
    have "queued io q k" using that sh(1) by (simp add: queued_def same_base_def)
    then show ?thesis using que h sh(2) by simp
  qed
  ultimately show ?thesis using sh(1,3) cs by (auto simp: tracked_def)
qed

lemma erase_last_subset: "set (erase_last x xs) \<subseteq> set xs"
  by (metis erase_last_def set_remove1_subset set_rev)

text \<open>An entry that produces one part: the types that fetch, attach, merge and mutate.\<close>

lemma removeProcessedEntry_tracked:
  assumes "tracked io q" "removeProcessedEntry io p q = Inr (mn, mx, q')" "entries q p = Some qe"
    "getVirtualPartNames io (queue_format q) (log_data qe) = Inr [name]"
    "getDropRange io (queue_format q) (log_data qe) = Inr None"
    "actual_new_part_name qe = []" "replace_range_actual_new_part_names qe = []"
    "fromPartName io name (queue_format q) = Inr i" "\<not> isFakeDropRangePart i" "new_part q i" "canonical q name i"
  shows "tracked io q'"
proof (cases "removed_by_other_entry qe")
  case True
  then show ?thesis using assms(1-3) by (simp add: removeProcessedEntry_def deref_def)
next
  case False
  let ?e = "log_data qe"
  obtain c d q0 where q0: "remove_insert_time p ?e (None, None, q) = (c, d, q0)" by (rule prod_cases3)
  have p: "p \<in> set (queue q)"
    using assms(2,3) False by (auto simp: removeProcessedEntry_def deref_def split: if_splits)
  have noalter: "entry_type ?e \<noteq> ALTER_METADATA" using assms(4) by (auto simp: getVirtualPartNames_def)
  obtain t where t: "updateStateOnQueueEntryRemoval io p True (None, None, q) = Inr t"
      "q' = (snd (snd t))\<lparr>queue := erase_last p (queue (snd (snd t)))\<rparr>"
    using assms(2,3) False p by (auto simp: removeProcessedEntry_def deref_def bind_r_Inr_iff)
  have "bind_r (remove_successful io qe [name] q0) (\<lambda>q. Inr (c, d, q)) = Inr t"
    using t(1) assms(3,4) q0 by (simp add: updateStateOnQueueEntryRemoval_def deref_def)
  then obtain q3 where q3: "remove_successful io qe [name] q0 = Inr q3" "t = (c, d, q3)"
    by (auto simp: bind_r_Inr_iff)
  obtain t1 m1 x1 where f0: "q0 = q\<lparr>inserts_by_time := t1, min_unprocessed_insert_time := m1, max_processed_insert_time := x1\<rparr>"
    using remove_insert_time_fields [OF q0] by blast
  have tr0: "tracked io q0" by (rule same_sets_tracked [OF assms(1)]) (simp_all add: f0)
  obtain q1 q2 where q12: "add_current_part io name q0 = Inr q1" "finish_drop_range io ?e q1 = Inr q2"
      "for_mutated_part (removePartInProgressFromMutations io) io ?e q2 = Inr q3"
    using q3(1) assms(6,7) noalter by (auto simp: remove_successful_def Let_def elim!: bind_r_E)
  have queued: "queued io q0 i"
    using assms(3,4,8) p by (force simp: queued_def f0)
  have tr1: "tracked io q1 \<and> same_base (q0\<lparr>current_parts := current_parts q1\<rparr>) q1"
    using assms(8-11) f0 by (intro add_current_part_tracked [OF tr0 q12(1) _ queued])
      (auto simp: new_part_def canonical_def todo_entry_def)
  have "getDropRange io (queue_format q1) ?e = Inr None"
    using tr1 assms(5) by (simp add: same_base_def f0)
  then have q2: "q2 = q1" using q12(2) by (simp add: finish_drop_range_def)
  have "tracked io q3"
  proof (cases "entry_type ?e = MUTATE_PART")
    case True
    then obtain sp a b where "removePartInProgressFromMutations io sp a b q1 = Inr q3"
      using q12(3) q2 by (auto simp: for_mutated_part_def bind_r_Inr_iff split: list.splits)
    moreover have tr: "tracked io q1" and "queue_ok io q1" using tr1 by (simp_all add: tracked_def)
    ultimately have "\<And>i. shrinks i (\<lambda>_. True) io q1 q3" by (blast intro: removePartInProgress_shrinks)
    then show ?thesis by (rule shrinks_all_tracked [OF tr])
  next
    case False
    then show ?thesis using q12(3) q2 tr1 by (simp add: for_mutated_part_def)
  qed
  then show ?thesis using t(2) q3(2) erase_last_subset [of p "queue q3"]
    by (intro same_sets_tracked [of io q3 q']) simp_all
qed

text \<open>What tracking is for: a mutation with nothing left to do has every current part of its partition mutated.\<close>

lemma tracked_nothing_to_do:
  assumes "tracked io q" "mutations_by_partition q pid = Some m" "(v, z) \<in> set m"
    "map_of (mutations_by_znode q) z = Some st" "set_size (parts_to_do st) = 0"
    "e \<in> set (part_info_to_name (current_parts q))" "partition_id (fst e) = pid"
  shows "v \<le> getDataVersion (fst e)"
proof (rule ccontr)
  assume "\<not> v \<le> getDataVersion (fst e)"
  moreover have "handled q (fst e)" and ok: "set_ok io (queue_format q) (current_parts q)"
    using assms(1,6) by (auto simp: tracked_def queue_ok_def)
  moreover have "\<not> todo_covers q z (fst e)" using assms(4,5) by (simp add: todo_covers_def covers_def set_size_def)
  ultimately obtain c where c: "c \<in> set (part_info_to_name (current_parts q))" "contains (fst c) (fst e)"
      "v \<le> getDataVersion (fst c)" "\<not> v \<le> getDataVersion (fst e)"
    using handledD [of q "fst e" m v z] assms(2,3,7) unfolding mutated_over_def by auto
  have "c = e" using covering_unique [of "part_info_to_name (current_parts q)" "fst e" c e] c(1,2) ok assms(6)
    by (simp add: set_ok_def aps_inv_wf)
  then show False using c(3,4) by simp
qed

section \<open>Properties\<close>

text \<open>
  C6: inserting an entry other than \<open>DROP_PART\<close> keeps the queue tracking its parts: every
  current or queued part is covered by the virtual parts, and every mutation above the data version of such
  a part has it to do or finds it covered by a current part that is mutated already.
\<close>

theorem insert_keeps_tracking:
  assumes "insertUnlocked io p (changed, q) = Inr (changed', q')" "entries q p = Some qe"
    "entry_type (log_data qe) \<noteq> DROP_PART" "tracked io q"
  shows "tracked io q' \<and> p \<in> set (queue q')"
  using insertUnlocked_tracked [OF assms] insertUnlocked_Inr [OF assms(1-3)] assms(4) by (auto simp: tracked_def)

text \<open>A table with one mutation of version 5, and the entry that fetches the part \<open>all_1_1_0\<close>.\<close>

definition demo_info :: part_info where
  "demo_info = PartInfo ''all'' 1 1 0 0"

definition demo_name :: string where
  "demo_name = getPartNameV1 dec_io demo_info"

definition demo_mutation :: "nat mutation_entry" where
  "demo_mutation = \<lparr>mutation_znode = ''m1'', block_numbers = [(''all'', 5)], commands = [], mutation_alter_version = - 1\<rparr>"

definition demo_parts :: "part_entry list \<Rightarrow> active_part_set" where
  "demo_parts ps = \<lparr>set_format = 1, part_info_to_name = ps\<rparr>"

definition demo_queue :: "part_entry list \<Rightarrow> part_entry list \<Rightarrow> part_entry list \<Rightarrow> entry_ptr list \<Rightarrow> nat queue_state" where
  "demo_queue parts virt todo ptrs = (empty_queue 1)\<lparr>
     entries := [0 \<mapsto> fresh_entry (empty_entry\<lparr>entry_type := GET_PART, new_part_name := demo_name, create_time := 7\<rparr>)],
     queue := ptrs, current_parts := demo_parts parts, virtual_parts := demo_parts virt,
     inserts_by_time := map (\<lambda>p. ((7, p), ())) ptrs, min_unprocessed_insert_time := (if ptrs = [] then 0 else 7),
     mutations_by_znode := [(''m1'', (MutationStatus 1 demo_mutation)\<lparr>parts_to_do := demo_parts todo\<rparr>)],
     mutations_by_partition := [''all'' \<mapsto> [(5, ''m1'')]]\<rparr>"

lemma demo_printable: "printable demo_info"
  by (simp add: demo_info_def printable_def PartInfo_def wf_info_def LEGACY_MAX_LEVEL_def)

lemma demo_parse [simp]: "fromPartName dec_io demo_name 1 = Inr demo_info" "fromPartName dec_io demo_name (Suc 0) = Inr demo_info"
  using fromPartName_dec [OF demo_printable] by (simp_all add: demo_name_def)

lemma demo_info_facts [simp]: "wf_info demo_info" "partition_id demo_info = ''all''" "getDataVersion demo_info = 1"
    "\<not> isFakeDropRangePart demo_info" "info_eq demo_info demo_info" "\<not> info_less demo_info demo_info"
  by (simp_all add: demo_info_def getDataVersion_def isFakeDropRangePart_def MAX_LEVEL_def LEGACY_MAX_LEVEL_def
      info_eq_def info_less_def)

lemma demo_set_ok:
  "set ps \<subseteq> {(demo_info, demo_name)} \<Longrightarrow> distinct ps \<Longrightarrow> set_ok dec_io 1 (demo_parts ps)"
proof -
  assume a: "set ps \<subseteq> {(demo_info, demo_name)}" "distinct ps"
  then have "ps = [] \<or> ps = [(demo_info, demo_name)]"
    by (cases ps; cases "tl ps") auto
  then show ?thesis by (auto simp: set_ok_def demo_parts_def named_by_infos_def aps_inv_Cons)
qed

lemma demo_queue_ok:
  assumes "set ps \<subseteq> {(demo_info, demo_name)}" "distinct ps" "set vs \<subseteq> {(demo_info, demo_name)}" "distinct vs"
    "set todo \<subseteq> {(demo_info, demo_name)}" "distinct todo"
  shows "queue_ok dec_io (demo_queue ps vs todo ptrs)"
  using demo_set_ok [OF assms(1,2)] demo_set_ok [OF assms(3,4)] demo_set_ok [OF assms(5,6)] demo_set_ok [of "[]"]
  by (auto simp: queue_ok_def demo_queue_def empty_queue_def index_ok_def statuses_ok_def MutationStatus_def
      demo_mutation_def empty_set_def demo_parts_def)

lemma demo_fields [simp]:
  "queue_format (demo_queue ps vs todo ptrs) = 1" "queue (demo_queue ps vs todo ptrs) = ptrs"
  "current_parts (demo_queue ps vs todo ptrs) = demo_parts ps" "virtual_parts (demo_queue ps vs todo ptrs) = demo_parts vs"
  "mutations_by_partition (demo_queue ps vs todo ptrs) = [''all'' \<mapsto> [(5, ''m1'')]]"
  "entries (demo_queue ps vs todo ptrs)
     = [0 \<mapsto> fresh_entry (empty_entry\<lparr>entry_type := GET_PART, new_part_name := demo_name, create_time := 7\<rparr>)]"
  "mutations_by_znode (demo_queue ps vs todo ptrs)
     = [(''m1'', (MutationStatus 1 demo_mutation)\<lparr>parts_to_do := demo_parts todo\<rparr>)]"
  by (simp_all add: demo_queue_def empty_queue_def)

lemma demo_add: "add_part dec_io demo_name (demo_parts []) = Inr (True, demo_parts [(demo_info, demo_name)])"
  by (simp add: add_part_def keep_def add_name_def add_info_name_def addImpl_def demo_parts_def split_at_def
      getContainingPartImpl_def emplace_def Let_def)

lemma demo_tracked_start: "tracked dec_io (demo_queue [] [] [] [])"
  using demo_queue_ok [of "[]" "[]" "[]"] by (simp add: tracked_def queued_def demo_parts_def)

lemma demo_insert:
  "\<exists>q'. insertUnlocked dec_io 0 (None, demo_queue [] [] [] []) = Inr (Some 7, q')"
  by (simp add: insertUnlocked_def deref_def fresh_entry_def getVirtualPartNames_def insert_virtual_part_def demo_add
      addPartToMutations_def each_mutation_def map_upper_bound_def update_status_def add_to_do_def
      for_mutated_part_def insert_drop_part_def enqueue_def getDropRange_def note_insert_def note_alter_def
      is_insert_def demo_queue_def empty_queue_def MutationStatus_def demo_mutation_def Let_def)

theorem insert_keeps_tracking_witness:
  "\<exists>q'. insertUnlocked dec_io 0 (None, demo_queue [] [] [] []) = Inr (Some 7, q') \<and> tracked dec_io q' \<and> 0 \<in> set (queue q')"
proof -
  obtain q' where q': "insertUnlocked dec_io 0 (None, demo_queue [] [] [] []) = Inr (Some 7, q')" using demo_insert by blast
  then show ?thesis
    using insert_keeps_tracking [OF q' _ _ demo_tracked_start] by (auto simp: fresh_entry_def)
qed

text \<open>
  C7: processing an entry that produces one part keeps the queue tracking its parts, provided the part
  was not current before; so a mutation that has nothing left to do afterwards has every current part of
  its partition mutated.
\<close>

theorem processed_keeps_tracking:
  assumes "tracked io q" "removeProcessedEntry io p q = Inr (mn, mx, q')" "entries q p = Some qe"
    "getVirtualPartNames io (queue_format q) (log_data qe) = Inr [name]"
    "getDropRange io (queue_format q) (log_data qe) = Inr None"
    "actual_new_part_name qe = []" "replace_range_actual_new_part_names qe = []"
    "fromPartName io name (queue_format q) = Inr i" "\<not> isFakeDropRangePart i" "new_part q i" "canonical q name i"
  shows "tracked io q' \<and> (\<forall>pid m v z st e. mutations_by_partition q' pid = Some m \<and> (v, z) \<in> set m
      \<and> map_of (mutations_by_znode q') z = Some st \<and> set_size (parts_to_do st) = 0
      \<and> e \<in> set (part_info_to_name (current_parts q')) \<and> partition_id (fst e) = pid \<longrightarrow> v \<le> getDataVersion (fst e))"
proof -
  have t: "tracked io q'" by (rule removeProcessedEntry_tracked [OF assms])
  then show ?thesis using tracked_nothing_to_do by blast
qed

lemma demo_removals:
  "removePartsCoveredBy dec_io demo_name (demo_parts [(demo_info, demo_name)]) = (Inr True, demo_parts [(demo_info, demo_name)])"
  "removePartAndCoveredParts_name dec_io demo_name (demo_parts [(demo_info, demo_name)]) = (Inr False, demo_parts [])"
  by (simp_all add: removePartsCoveredBy_def removePartAndCoveredParts_name_def removePartAndCoveredParts_def demo_parts_def
      getPartsCoveredBy_def getPartsCoveredByImpl_def split_at_def remove_info_def remove_name_def Let_def)

abbreviation one_part :: "part_entry list" where
  "one_part \<equiv> [(demo_info, demo_name)]"

lemma demo_again: "add_part dec_io demo_name (demo_parts one_part) = Inr (False, demo_parts one_part)"
  by (simp add: add_part_def keep_def add_name_def add_info_name_def addImpl_def demo_parts_def split_at_def
      getContainingPartImpl_def Let_def)

lemma demo_set_size [simp]: "set_size (demo_parts ps) = length ps"
  by (simp add: set_size_def demo_parts_def)

lemmas demo_run = removeProcessedEntry_def deref_def fresh_entry_def updateStateOnQueueEntryRemoval_def
  getVirtualPartNames_def remove_insert_time_def is_insert_def remove_successful_def add_current_part_def demo_add demo_again
  removeCoveredPartsFromMutations_def each_mutation_def update_status_def remove_from_status_def
  remove_from_parts_to_do_def demo_removals keep_def forget_failure_def some_probably_done_def finish_drop_range_def
  getDropRange_def for_mutated_part_def erase_last_def demo_queue_def empty_queue_def MutationStatus_def
  demo_mutation_def map_erase_def Let_def

lemma demo_process:
  "\<exists>mx q'. removeProcessedEntry dec_io 0 (demo_queue [] one_part one_part [0]) = Inr (Some 0, mx, q')
    \<and> current_parts q' = demo_parts one_part \<and> \<not> finalizing_scheduled q'"
  by (simp add: demo_run)

lemma demo_refetch:
  "\<exists>mx q'. removeProcessedEntry dec_io 0 (demo_queue one_part one_part one_part [0]) = Inr (Some 0, mx, q')
    \<and> current_parts q' = demo_parts one_part \<and> finalizing_scheduled q'"
  by (simp add: demo_run)

lemma demo_canonical: "canonical (demo_queue ps vs one_part ptrs) demo_name demo_info"
  by (auto simp: canonical_def todo_entry_def demo_parts_def MutationStatus_def)

lemma demo_tracked:
  assumes "ps = [] \<or> ps = one_part" "set ptrs \<subseteq> {0}"
  shows "tracked dec_io (demo_queue ps one_part one_part ptrs)"
proof -
  have "i = demo_info" if "queued dec_io (demo_queue ps one_part one_part ptrs) i" for i
    using that assms(2) by (auto simp: queued_def getVirtualPartNames_def fresh_entry_def split: if_splits)
  moreover have "handled (demo_queue ps one_part one_part ptrs) demo_info"
    by (simp add: handled_def todo_covers_def covers_def MutationStatus_def demo_parts_def)
  moreover have "covers (demo_parts one_part) demo_info" by (simp add: covers_def demo_parts_def)
  moreover have "queue_ok dec_io (demo_queue ps one_part one_part ptrs)"
    using assms(1) by (intro demo_queue_ok) auto
  ultimately show ?thesis using assms(1) by (auto simp: tracked_def demo_parts_def)
qed

theorem processed_keeps_tracking_witness:
  "\<exists>mx q'. removeProcessedEntry dec_io 0 (demo_queue [] one_part one_part [0]) = Inr (Some 0, mx, q') \<and> tracked dec_io q'"
proof -
  let ?q = "demo_queue [] one_part one_part [0]"
  obtain mx q' where run: "removeProcessedEntry dec_io 0 ?q = Inr (Some 0, mx, q')" using demo_process by blast
  have "tracked dec_io ?q" by (rule demo_tracked) auto
  moreover have "new_part ?q demo_info" by (simp add: new_part_def demo_parts_def)
  ultimately have "tracked dec_io q'"
    using processed_keeps_tracking [OF _ run, of _ demo_name demo_info] demo_canonical
    by (simp add: fresh_entry_def getVirtualPartNames_def getDropRange_def)
  then show ?thesis using run by blast
qed

section \<open>A part fetched again\<close>

lemma remove_names_subset:
  "set (part_info_to_name (snd (remove_names io names acc s))) \<subseteq> set (part_info_to_name s)"
proof (induction names arbitrary: acc s)
  case (Cons n names)
  have "set (part_info_to_name (snd (remove_name io n s))) \<subseteq> set (part_info_to_name s)"
    by (auto simp: remove_name_def remove_info_def split: sum.splits)
  then show ?case using Cons.IH by (fastforce split: prod.splits sum.splits)
qed simp

lemma removePartAndCoveredParts_gone:
  assumes "removePartAndCoveredParts_name io name s = (Inr b, s')" "fromPartName io name (set_format s) = Inr i"
  shows "\<forall>e \<in> set (part_info_to_name s'). \<not> info_eq (fst e) i"
proof -
  have "s' = snd (remove_names io (getPartsCoveredBy i s) (fst (remove_info i s)) (snd (remove_info i s)))"
    using assms by (simp add: removePartAndCoveredParts_name_def removePartAndCoveredParts_def split: prod.splits)
  then have "set (part_info_to_name s') \<subseteq> set (part_info_to_name (snd (remove_info i s)))"
    using remove_names_subset by blast
  then show ?thesis by (auto simp: remove_info_def)
qed

text \<open>The removal of a part together with what it covers, from every mutation of its partition.\<close>

lemma removed_part_not_to_do:
  assumes "queue_ok io q" "removeCoveredPartsFromMutations io name True True q = Inr q'"
    "fromPartName io name (queue_format q) = Inr i" "mutations_by_partition q (partition_id i) = Some m" "(v, z) \<in> set m"
    "todo_entry q z (i, name)"
  shows "\<not> todo_covers q' z i"
proof
  assume c: "todo_covers q' z i"
  have idx: "index_ok q" using assms(1) by (simp add: queue_ok_def)
  obtain q1 where q1: "each_mutation (partition_id i) (\<lambda>m. m) (remove_from_status io name i True True) q = Inr q1"
      "q' = (if some_probably_done (partition_id i) q1 then q1\<lparr>finalizing_scheduled := True\<rparr> else q1)"
    using assms(2,3) by (auto simp: removeCoveredPartsFromMutations_def bind_r_Inr_iff)
  have ch: "statuses_change (listed q (partition_id i) (\<lambda>_. True))
      (\<lambda>st st'. remove_from_status io name i True True st = Inr st') q q1"
    using each_mutation_changes [OF idx q1(1), of "\<lambda>_. True"] by simp
  have "z \<in> listed q (partition_id i) (\<lambda>_. True)" using assms(4,5) by (auto simp: listed_def)
  then obtain st st' where st: "map_of (mutations_by_znode q) z = Some st" "map_of (mutations_by_znode q1) z = Some st'"
      "remove_from_status io name i True True st = Inr st'"
    using ch unfolding statuses_change_def by fastforce
  obtain b s where s: "removePartAndCoveredParts_name io name (parts_to_do st) = (Inr b, s)" "parts_to_do st' = s"
    using st(3) by (auto simp: remove_from_status_def remove_from_parts_to_do_def bind_r_Inr_iff keep_Inr)
  have ok: "set_ok io (queue_format q) (parts_to_do st)" using assms(1) st(1) by (auto simp: queue_ok_def statuses_ok_def)
  then have gone: "\<forall>e \<in> set (part_info_to_name s). \<not> info_eq (fst e) i"
    using removePartAndCoveredParts_gone [OF s(1)] assms(3) by (simp add: set_ok_def)
  have sub: "set (part_info_to_name s) \<subseteq> set (part_info_to_name (parts_to_do st))"
    using keeps_uncovered_subset [OF removePartAndCoveredParts_keeps [OF ok assms(3) s(1)]] .
  obtain e where e: "e \<in> set (part_info_to_name s)" "contains (fst e) i"
    using c q1(2) st(2) s(2) by (auto simp: todo_covers_def covers_def split: if_splits)
  have "(i, name) \<in> set (part_info_to_name (parts_to_do st))" using assms(6) st(1) by (auto simp: todo_entry_def)
  then have "e = (i, name)"
    using covering_unique [of "part_info_to_name (parts_to_do st)" i e "(i, name)"] e sub ok fromPartName_wf [OF assms(3)]
    by (auto simp: set_ok_def)
  then show False using gone e(1) by (auto simp: info_eq_def)
qed

text \<open>
  C23: when the part of a processed entry is current already, as it is when a broken part is fetched again,
  \<open>add\<close> reports it as not added, and the mutations forget the part: it stays current, with its
  old data version, and a mutation above that version no longer has it to do.
\<close>

theorem refetched_part_is_forgotten:
  assumes "queue_ok io q" "removeProcessedEntry io p q = Inr (mn, mx, q')" "entries q p = Some qe"
    "\<not> removed_by_other_entry qe" "entry_type (log_data qe) = GET_PART" "new_part_name (log_data qe) = name"
    "actual_new_part_name qe = []" "replace_range_actual_new_part_names qe = []"
    "fromPartName io name (queue_format q) = Inr i" "(i, name) \<in> set (part_info_to_name (current_parts q))"
    "mutations_by_partition q (partition_id i) = Some m" "(v, z) \<in> set m" "todo_entry q z (i, name)"
  shows "\<not> todo_covers q' z i \<and> (i, name) \<in> set (part_info_to_name (current_parts q'))"
proof -
  let ?e = "log_data qe"
  obtain c d q0 where q0: "remove_insert_time p ?e (None, None, q) = (c, d, q0)" by (rule prod_cases3)
  obtain t1 m1 x1 where f0: "q0 = q\<lparr>inserts_by_time := t1, min_unprocessed_insert_time := m1, max_processed_insert_time := x1\<rparr>"
    using remove_insert_time_fields [OF q0] by blast
  have names: "getVirtualPartNames io (queue_format q) ?e = Inr [name]" "getDropRange io fv ?e = Inr None" for fv
    using assms(5,6) by (simp_all add: getVirtualPartNames_def getDropRange_def)
  obtain t where t: "updateStateOnQueueEntryRemoval io p True (None, None, q) = Inr t"
      "q' = (snd (snd t))\<lparr>queue := erase_last p (queue (snd (snd t)))\<rparr>"
    using assms(2-4) by (auto simp: removeProcessedEntry_def deref_def bind_r_Inr_iff split: if_splits)
  have "bind_r (remove_successful io qe [name] q0) (\<lambda>q. Inr (c, d, q)) = Inr t"
    using t(1) assms(3) names q0 by (simp add: updateStateOnQueueEntryRemoval_def deref_def)
  then obtain q3 where q3: "remove_successful io qe [name] q0 = Inr q3" "t = (c, d, q3)"
    by (auto simp: bind_r_Inr_iff)
  obtain q1 where q1: "add_current_part io name q0 = Inr q1" "q3 = q1"
    using q3(1) assms(5,7,8) names
    by (auto simp: remove_successful_def Let_def finish_drop_range_def for_mutated_part_def elim!: bind_r_E)
  obtain added s where s: "add_part io name (current_parts q0) = Inr (added, s)"
      "removeCoveredPartsFromMutations io name (\<not> added) True (q0\<lparr>current_parts := s\<rparr>) = Inr q1"
    using q1(1) by (auto simp: add_current_part_def bind_r_Inr_iff)
  have set: "set_ok io (queue_format q) (current_parts q0)" using assms(1) by (simp add: queue_ok_def f0)
  have "covers (current_parts q0) i" using assms(10) contains_refl unfolding covers_def f0 by force
  then have na: "\<not> added" "s = current_parts q0" using add_part_Inr [OF set s(1)] assms(9) by auto
  have ok0: "queue_ok io q0" using assms(1) by (auto simp: f0 queue_ok_def index_ok_def statuses_ok_def)
  have run: "removeCoveredPartsFromMutations io name True True q0 = Inr q1" using s(2) na by simp
  have "\<not> todo_covers q1 z i"
    using assms(9,11-13) by (intro removed_part_not_to_do [OF ok0 run]) (auto simp: f0 todo_entry_def)
  moreover have "current_parts q1 = current_parts q0"
    using removeCoveredPartsFromMutations_shrinks [OF ok0 run, of i] assms(9) by (simp add: f0 shrinks_def same_base_def)
  ultimately show ?thesis using t(2) q3(2) q1(2) assms(10) by (simp add: todo_covers_def f0)
qed

theorem refetched_part_is_forgotten_witness:
  "\<exists>mx q'. removeProcessedEntry dec_io 0 (demo_queue one_part one_part one_part [0]) = Inr (Some 0, mx, q')
     \<and> tracked dec_io (demo_queue one_part one_part one_part [0]) \<and> \<not> todo_covers q' ''m1'' demo_info
     \<and> (demo_info, demo_name) \<in> set (part_info_to_name (current_parts q')) \<and> getDataVersion demo_info < 5"
proof -
  let ?q = "demo_queue one_part one_part one_part [0]"
  obtain mx q' where run: "removeProcessedEntry dec_io 0 ?q = Inr (Some 0, mx, q')" using demo_refetch by blast
  have t: "tracked dec_io ?q" by (rule demo_tracked) auto
  then have ok: "queue_ok dec_io ?q" by (simp add: tracked_def)
  have "todo_entry ?q ''m1'' (demo_info, demo_name)" by (simp add: todo_entry_def MutationStatus_def demo_parts_def)
  then have "\<not> todo_covers q' ''m1'' demo_info \<and> (demo_info, demo_name) \<in> set (part_info_to_name (current_parts q'))"
    using refetched_part_is_forgotten [OF ok run, of _ demo_name demo_info "[(5, ''m1'')]" 5 "''m1''"]
    by (simp add: fresh_entry_def demo_parts_def)
  then show ?thesis using run t by simp
qed

end
