(* ===== verification/Queue_Reachable.thy ===== *)
theory Queue_Reachable
  imports Queue_Times Queue_Results
begin

text \<open>
  What holds in every reachable state of the queue: the entries in execution produce parts that are apart,
  each future part is tagged by exactly the entry that produces it, and the two exceptions for a broken
  table of future parts are not raised.
\<close>

lemma empty_exec_ok: "exec_ok io (empty_queue fv)"
  by (simp add: exec_ok_def table_ok_def parts_apart_def drops_apart_def lists_distinct_def virtual_of_def actual_of_def
      drop_range_of_def executing_def empty_queue_def)

lemma work_exec_ok: "exec_ok io q \<Longrightarrow> same_work q q' \<Longrightarrow> exec_ok io q'"
  by (blast intro: same_run_exec_ok same_work_run)

lemma step_exec_ok: "queue_step io q q' \<Longrightarrow> exec_ok io q \<Longrightarrow> exec_ok io q'"
proof (induction rule: queue_step.induct)
  case (insert q p e c c' q')
  have "exec_ok io (set_entry p (fresh_entry e) q)"
    by (rule set_idle_entry [OF insert.prems]) (use insert.hyps(1) in \<open>simp_all add: fresh_entry_def\<close>)
  moreover have "entries (set_entry p (fresh_entry e) q) p = Some (fresh_entry e)" by (simp add: set_entry_def)
  ultimately show ?case using insertUnlocked_same_run [OF insert.hyps(3)] by (blast intro: same_run_exec_ok)
next
  case (failed q p qe t)
  then have "same_run q (set_entry p (updateLastExeption t qe) q)"
    by (simp add: same_run_def set_entry_def run_core_def executing_def updateLastExeption_def)
  then show ?case using failed.prems by (blast intro: same_run_exec_ok)
next
  case (drop_range i covering q w mn mx q')
  then show ?case unfolding removePartProducingOpsInRange_def
    by (blast intro: same_run_exec_ok remove_in_range_same_run)
qed (blast intro: selectEntryToProcess_ok addFuturePart_ok finish_executing_ok same_run_exec_ok work_exec_ok
    removeProcessedEntry_same_run moveSibling_same_run quorum_work intend_work withdraw_work forget_frame frame_work)+

lemma reachable_exec_ok: "queue_reachable io nodes fv q \<Longrightarrow> exec_ok io q"
proof (induction rule: queue_reachable.induct)
  case (next_state q q')
  show ?case
    by (rule replica_step_keeps [where P = "exec_ok io", OF _ _ _ next_state.hyps(2) next_state.IH])
      (blast intro: work_exec_ok step_exec_ok same_run_exec_ok initialize_same_run)+
qed (rule empty_exec_ok)

text \<open>An executing entry that gets another part.\<close>

lemma addFuturePart_apart:
  assumes "executing q p qe" "addFuturePartIfNotCoveredByThem io name p q = Inr (Inr (w, q'))"
    "name \<noteq> new_part_name (log_data qe)" "map_ok (future_parts q)"
  shows "map_of (future_parts q) name = None \<and> map_of (future_parts q') name = Some p
    \<and> (\<exists>i. fromPartName io name (queue_format q) = Inr i
        \<and> (\<forall>(n', p') \<in> set (future_parts q). p' \<noteq> p \<longrightarrow>
            (\<exists>i'. fromPartName io n' (queue_format q) = Inr i' \<and> (apart i i' \<or> older q p' p \<and> p' \<in> set w))))"
proof -
  have qe: "entries q p = Some qe" using assms(1) by (simp add: executing_def)
  obtain i to_wait where a: "fromPartName io name (queue_format q) = Inr i" "map_of (future_parts q) name = None"
      "setActualPartName io p name to_wait q = Inr (w, q')" "\<forall>(n', p') \<in> set (future_parts q).
         \<exists>i'. fromPartName io n' (queue_format q) = Inr i' \<and> (apart i i' \<or> older q p' p \<and> p' \<in> set to_wait)"
    using addFuturePart_waits [OF qe assms(2)] by blast
  have "w = filter (\<lambda>c. c \<noteq> p) to_wait \<and> future_parts q' = map_put name p (future_parts q)"
    using a(3) qe assms(3)
    by (auto simp: setActualPartName_def deref_def tag_part_def Let_def set_entry_def elim!: bind_r_E split: if_splits)
  then show ?thesis using a assms(4) by fastforce
qed

text \<open>
  C8: of two entries that execute at the same time, the parts that they were selected to produce are
  disjoint, or one is a drop range over the other; a part that one of them produces instead of the one it
  names may overlap only what an older entry was selected for; their own drop ranges are disjoint; and a
  name is tagged with an entry exactly when that entry executes and produces it, so that no name is
  produced by two of them. When an executing entry gets another part, then the parts tagged with other
  entries, selected for or got in turn, are apart from it, except those of older entries, and these
  entries are the ones for which it is told to wait.
\<close>

theorem executions_are_apart:
  assumes "queue_reachable io nodes fv q"
  shows "(\<forall>p p' i i'. virtual_of io q p i \<and> virtual_of io q p' i' \<and> p \<noteq> p' \<longrightarrow> apart i i')
    \<and> (\<forall>p p' i i'. actual_of io q p i \<and> virtual_of io q p' i' \<and> p \<noteq> p' \<longrightarrow> apart i i' \<or> older q p' p)
    \<and> (\<forall>p p' d d'. drop_range_of io q p d \<and> drop_range_of io q p' d' \<and> p \<noteq> p' \<longrightarrow> isDisjoint d d')
    \<and> (\<forall>n p. map_of (future_parts q) n = Some p \<longleftrightarrow> (\<exists>qe. executing q p qe \<and> n \<in> produced io (queue_format q) qe))
    \<and> (\<forall>name p qe w q'. executing q p qe \<and> addFuturePartIfNotCoveredByThem io name p q = Inr (Inr (w, q'))
         \<and> name \<noteq> new_part_name (log_data qe)
         \<longrightarrow> map_of (future_parts q) name = None \<and> map_of (future_parts q') name = Some p
           \<and> (\<exists>i. fromPartName io name (queue_format q) = Inr i
               \<and> (\<forall>(n', p') \<in> set (future_parts q). p' \<noteq> p \<longrightarrow>
                   (\<exists>i'. fromPartName io n' (queue_format q) = Inr i' \<and> (apart i i' \<or> older q p' p \<and> p' \<in> set w)))))"
proof -
  have ok: "table_ok io q" "parts_apart io q" "drops_apart io q" using reachable_exec_ok [OF assms] by (simp_all add: exec_ok_def)
  have map: "map_ok (future_parts q)" using ok(1) by (simp add: table_ok_def)
  show ?thesis
  proof (intro conjI)
    show "\<forall>p p' i i'. virtual_of io q p i \<and> virtual_of io q p' i' \<and> p \<noteq> p' \<longrightarrow> apart i i'"
      using ok(2) unfolding parts_apart_def by blast
    show "\<forall>p p' i i'. actual_of io q p i \<and> virtual_of io q p' i' \<and> p \<noteq> p' \<longrightarrow> apart i i' \<or> older q p' p"
      using ok(2) unfolding parts_apart_def by blast
    show "\<forall>p p' d d'. drop_range_of io q p d \<and> drop_range_of io q p' d' \<and> p \<noteq> p' \<longrightarrow> isDisjoint d d'"
      using ok(3) unfolding drops_apart_def by blast
    show "\<forall>n p. map_of (future_parts q) n = Some p \<longleftrightarrow> (\<exists>qe. executing q p qe \<and> n \<in> produced io (queue_format q) qe)"
      using ok(1) by (simp add: table_ok_def)
  qed (intro allI impI, elim conjE, rule addFuturePart_apart, (assumption | rule map)+)
qed

lemma start_succeeds:
  assumes "exec_ok io q" "entries q p = Some qe" "shouldExecuteLogEntry io env blocks q qe = Inr None"
    "getVirtualPartNames io (queue_format q) (log_data qe) = Inr names" "distinct names"
  shows "\<exists>q'. start_executing io now p q = Inr q'"
proof -
  have "check_drop_range io q (log_data qe) = Inr None"
    using assms(3) by (auto simp: shouldExecuteLogEntry_def Let_def first_reason_None split: if_splits)
  then obtain q1 where q1: "with_drop_range info_insert io (log_data qe) q = Inr q1"
    unfolding check_drop_range_def with_drop_range_def
    by (auto elim!: bind_r_E split: option.splits)
  have f: "queue_format q1 = queue_format q" "future_parts q1 = future_parts q" using with_drop_range_Inr [OF q1] by auto
  let ?q = "set_entry p (qe\<lparr>currently_executing := True, num_tries := num_tries qe + 1, last_attempt_time := now\<rparr>) q1"
  have "\<forall>n \<in> set names. map_of (future_parts ?q) n = None"
    using shouldExecute_parts(1) [OF assms(3,4)] f by (simp add: set_entry_def)
  then have "\<exists>q'. fold_r (tag_part p) names ?q = Inr q'"
    using assms(1,5) f by (intro tag_parts_succeed) (simp_all add: set_entry_def exec_ok_def table_ok_def)
  then show ?thesis using q1 assms(2,4) f by (auto simp: start_executing_def deref_def Let_def set_entry_def)
qed

text \<open>
  C9: once an entry is found that may be executed, its selection goes through in every reachable state,
  restarts and mutations included: the exception for a part that is tagged already, which the code calls a
  bug, is not raised, provided that the entry does not name a part twice.
\<close>

theorem selection_goes_through:
  assumes "queue_reachable io nodes fv q" "select_loop io env blocks (queue q) q = Inr (Some p, q1)"
    "entries q1 p = Some qe" "getVirtualPartNames io (queue_format q1) (log_data qe) = Inr names" "distinct names"
  shows "\<exists>q'. selectEntryToProcess io env blocks q = Inr (Some p, q')"
proof -
  have l: "same_run q q1" "shouldExecuteLogEntry io env blocks q1 qe = Inr None"
    using select_loop_Inr [OF assms(2)] assms(3) by auto
  have "exec_ok io q1" using same_run_exec_ok [OF reachable_exec_ok [OF assms(1)] l(1)] .
  then obtain q2 where "start_executing io (now_s env) p q1 = Inr q2" using start_succeeds l(2) assms(3-5) by blast
  then show ?thesis
    using assms(2) start_executing_queue [where io = io and now = "now_s env" and p = p and q = q1 and ps = "remove1 p (queue q1) @ [p]"]
    by (simp add: selectEntryToProcess_def)
qed

text \<open>
  When an entry ends, each part it produces is tagged and is named once, so \<open>erase_and_check\<close> finds
  every name it erases; afterwards no future part is tagged with the entry, and the tags of all others stay.
\<close>

theorem finish_untags_exactly:
  assumes "queue_reachable io nodes fv q" "executing q p qe" "finish_executing io p q = Inr q'"
  shows "distinct (produced_list io (queue_format q) qe)
    \<and> (\<forall>n \<in> produced io (queue_format q) qe. map_of (future_parts q) n = Some p)
    \<and> (\<forall>n. map_of (future_parts q') n = (if map_of (future_parts q) n = Some p then None else map_of (future_parts q) n))"
proof -
  have ok: "exec_ok io q" by (rule reachable_exec_ok [OF assms(1)])
  have only: "executing q p qe' \<longleftrightarrow> qe' = qe" for qe' using assms(2) by (auto simp: executing_def)
  then have tag: "map_of (future_parts q) n = Some p \<longleftrightarrow> n \<in> produced io (queue_format q) qe" for n
    using ok by (simp add: exec_ok_def table_ok_def)
  have "future_parts q' = filter (\<lambda>e. fst e \<notin> produced io (queue_format q) qe) (future_parts q)"
    using finish_executing_fields [OF assms(2,3)] by (auto simp: set_entry_def)
  then have "map_of (future_parts q') = (\<lambda>n. if n \<in> produced io (queue_format q) qe then None else map_of (future_parts q) n)"
    by (simp add: map_of_filter_keys)
  then show ?thesis using ok assms(2) tag by (auto simp: exec_ok_def lists_distinct_def)
qed

section \<open>A run\<close>

text \<open>One entry is inserted into an empty queue and selected.\<close>

definition demo_get :: log_entry where
  "demo_get = empty_entry\<lparr>entry_type := GET_PART, new_part_name := demo_name, create_time := 7\<rparr>"

definition demo_env :: exec_env where
  "demo_env = \<lparr>max_postpone_fetch_ms = 0, max_postpone_mutation_ms = 0, max_postpone_merge_ms = 0, max_postpone_task_ms = 0,
     now_ms = 0, now_s = 9, can_execute_fetch = (\<lambda>_. True), min_part_level = 0, min_part_level_timeout = 0,
     merges_cancelled = False, ttl_merges_cancelled = False, part_bytes = (\<lambda>_. None), allow_zero_copy = False,
     zero_copy_disk = False, zero_copy_lock = (\<lambda>_. None), merge_on_single_replica = (\<lambda>_. False),
     pick_replica = (\<lambda>_. None), merge_finished = (\<lambda>_ _. False), supports_lightweight_update = False,
     max_merge_bytes = 0, max_mutation_bytes = 0, max_bytes_at_max_space = 0, merges_with_ttl = 0, max_merges_with_ttl = 0,
     database_allows_alter = True\<rparr>"

definition demo_mutation :: "nat mutation_entry" where
  "demo_mutation = \<lparr>mutation_znode = [], block_numbers = [], commands = [], mutation_alter_version = - 1\<rparr>"

definition inserted_queue :: "nat queue_state" where
  "inserted_queue = (empty_queue 1)\<lparr>entries := [0 \<mapsto> fresh_entry demo_get], queue := [0], virtual_parts := demo_parts one_part,
     inserts_by_time := [((7, 0), ())], min_unprocessed_insert_time := 7\<rparr>"

definition running_queue :: "nat queue_state" where
  "running_queue = inserted_queue\<lparr>
     entries := [0 \<mapsto> (fresh_entry demo_get)\<lparr>currently_executing := True, num_tries := 1, last_attempt_time := 9\<rparr>],
     future_parts := [(demo_name, 0)]\<rparr>"

lemma demo_empty: "empty_set (Suc 0) = demo_parts []"
  by (simp add: empty_set_def demo_parts_def)

lemma inserted: "insertUnlocked dec_io 0 (None, set_entry 0 (fresh_entry demo_get) (empty_queue 1)) = Inr (Some 7, inserted_queue)"
  by (simp add: insertUnlocked_def deref_def fresh_entry_def getVirtualPartNames_def insert_virtual_part_def demo_add demo_empty
      addPartToMutations_def each_mutation_def for_mutated_part_def insert_drop_part_def enqueue_def getDropRange_def
      note_insert_def note_alter_def is_insert_def empty_queue_def set_entry_def demo_get_def inserted_queue_def Let_def)

lemma inserted_reachable: "queue_reachable dec_io nodes 1 inserted_queue"
proof (rule queue_reachable.next_state [OF queue_reachable.start replica_step.work [OF mutation_step.queue_work]])
  show "queue_step dec_io (empty_queue 1) inserted_queue"
    by (rule queue_step.insert [OF _ _ inserted]) (simp_all add: empty_queue_def demo_get_def timed_entry_def)
qed

lemma selected:
  "select_loop dec_io demo_env (\<lambda>_. None) (queue inserted_queue) inserted_queue = Inr (Some 0, inserted_queue)"
  "selectEntryToProcess dec_io demo_env (\<lambda>_. None) inserted_queue = Inr (Some 0, running_queue)"
proof -
  have checks: "check_virtual_parts dec_io inserted_queue demo_get = Inr None"
    "check_drop_parts dec_io inserted_queue demo_get = Inr None"
    "check_fetch dec_io demo_env inserted_queue demo_get = Inr None"
    "check_merge_or_mutation dec_io demo_env (\<lambda>_. None) inserted_queue demo_get = Inr None"
    "check_alters demo_env inserted_queue demo_get = Inr None" "check_drop_range dec_io inserted_queue demo_get = Inr None"
    "check_drop_part dec_io demo_env inserted_queue demo_get = Inr None"
    by (simp_all add: check_virtual_parts_def check_virtual_part_def check_drop_parts_def check_going_to_be_dropped_def
        check_fetch_def check_merge_or_mutation_def check_alters_def check_drop_range_def check_drop_part_def demo_get_def
        demo_env_def inserted_queue_def empty_queue_def getVirtualPartNames_def getDropRange_def isCoveredByFuturePartsImpl_def
        isIntersectingWithDropReplaceIntent_def first_reason_def isAffectedByDropPart_entry_def isAffectedByDropPart_def isAlterMutation_def)
  have "isGoingToBeDroppedImpl dec_io demo_info inserted_queue = Inr None"
    by (simp add: isGoingToBeDroppedImpl_def Let_def getContainingPart_def getContainingPartImpl_def demo_parts_def split_at_def
        hasDropPart_def inserted_queue_def empty_queue_def)
  then have dropped: "check_going_to_be_dropped dec_io inserted_queue demo_get = Inr None"
    by (simp add: check_going_to_be_dropped_def demo_get_def) (simp add: inserted_queue_def empty_queue_def)
  have "getPostponeTimeMsForEntry demo_env (fresh_entry demo_get) = 0"
    by (simp add: getPostponeTimeMsForEntry_def fresh_entry_def demo_get_def demo_env_def)
  then have should: "shouldExecuteLogEntry dec_io demo_env (\<lambda>_. None) inserted_queue (fresh_entry demo_get) = Inr None"
    using checks dropped by (simp add: shouldExecuteLogEntry_def Let_def first_reason_None fresh_entry_def)
  show loop: "select_loop dec_io demo_env (\<lambda>_. None) (queue inserted_queue) inserted_queue = Inr (Some 0, inserted_queue)"
    using should by (simp add: deref_def select_loop.simps inserted_queue_def [THEN arg_cong, of queue]
        inserted_queue_def [THEN arg_cong, of entries]) (simp add: fresh_entry_def)
  show "selectEntryToProcess dec_io demo_env (\<lambda>_. None) inserted_queue = Inr (Some 0, running_queue)"
    unfolding selectEntryToProcess_def loop
    by (simp add: start_executing_def deref_def with_drop_range_def getDropRange_def getVirtualPartNames_def set_entry_def
        tag_part_def inserted_queue_def running_queue_def empty_queue_def fresh_entry_def demo_get_def demo_env_def Let_def)
qed

lemma running_reachable: "queue_reachable dec_io nodes 1 running_queue"
  by (rule queue_reachable.next_state [OF inserted_reachable replica_step.work [OF mutation_step.queue_work [OF queue_step.select [OF selected(2)]]]])

lemma running_facts:
  "queue_format running_queue = 1" "future_parts running_queue = [(demo_name, 0)]"
  "entries inserted_queue 0 = Some (fresh_entry demo_get)" "queue_format inserted_queue = 1"
  "getVirtualPartNames dec_io 1 (log_data (fresh_entry demo_get)) = Inr [demo_name]"
  by (simp_all add: running_queue_def inserted_queue_def empty_queue_def demo_get_def getVirtualPartNames_def fresh_entry_def)

theorem executions_are_apart_witness:
  "queue_reachable dec_io (\<lambda>_. demo_mutation) 1 running_queue
   \<and> (\<exists>qe. executing running_queue 0 qe \<and> demo_name \<in> produced dec_io 1 qe)"
proof -
  have "map_of (future_parts running_queue) demo_name = Some 0" by (simp add: running_facts)
  then have "\<exists>qe. executing running_queue 0 qe \<and> demo_name \<in> produced dec_io (queue_format running_queue) qe"
    using conjunct2 [OF conjunct2 [OF executions_are_apart [OF running_reachable]]] by blast
  then show ?thesis using running_reachable unfolding running_facts by blast
qed

theorem selection_goes_through_witness:
  "\<exists>q'. selectEntryToProcess dec_io demo_env (\<lambda>_. None) inserted_queue = Inr (Some 0, q')"
proof (rule selection_goes_through [OF inserted_reachable selected(1) running_facts(3)])
  show "getVirtualPartNames dec_io (queue_format inserted_queue) (log_data (fresh_entry demo_get)) = Inr [demo_name]"
    unfolding running_facts by (rule refl)
qed simp

theorem finish_untags_exactly_witness:
  "\<exists>q'. finish_executing dec_io 0 running_queue = Inr q' \<and> map_of (future_parts q') demo_name = None"
proof -
  let ?qe = "(fresh_entry demo_get)\<lparr>currently_executing := True, num_tries := 1, last_attempt_time := 9\<rparr>"
  have e: "executing running_queue 0 ?qe" by (simp add: executing_def running_queue_def)
  obtain q' where q': "finish_executing dec_io 0 running_queue = Inr q'"
    by (simp add: finish_executing_def deref_def with_drop_range_def getDropRange_def getVirtualPartNames_def running_queue_def
        inserted_queue_def empty_queue_def fresh_entry_def demo_get_def Let_def)
  show ?thesis using finish_untags_exactly [OF running_reachable e q'] q' by (simp add: running_facts)
qed

text \<open>The least unprocessed time is the least of the queued inserts, or 0 when there is none.\<close>

definition lag_exact :: "'c queue_state \<Rightarrow> bool" where
  "lag_exact q \<longleftrightarrow> min_unprocessed_insert_time q = (if insert_keys q = {} then 0 else Min (fst ` insert_keys q))"

lemma least_time_keys:
  assumes "times_ok b q"
  shows "least_time (inserts_by_time q) = (if insert_keys q = {} then 0 else Min (fst ` insert_keys q))"
proof (cases "inserts_by_time q = []")
  case True
  then show ?thesis using assms by (auto simp: times_ok_def least_time_def)
next
  case False
  then show ?thesis using assms least_time_Min [of "inserts_by_time q"] by (auto simp: times_ok_def)
qed

lemma times_ok_exact: "times_ok True q \<longleftrightarrow> times_ok False q \<and> lag_exact q"
proof -
  have "times_ok True q \<longleftrightarrow> times_ok False q \<and> min_unprocessed_insert_time q = least_time (inserts_by_time q)"
    using times_ok_bounded [of q False] unfolding times_ok_def lag_ok_def by metis
  then show ?thesis using least_time_keys [of False q] unfolding lag_exact_def by metis
qed

text \<open>
  C22: the times of inserts are those of the inserts in the queue, in every reachable state. While there are
  inserts, the least unprocessed time, from which the lag is computed, is set and not above the least of
  them, so that the lag is never understated. If it is exactly the least of them, or 0 when there is none,
  it stays so over all work on the queue and the mutations; and it is exact after each removal of a
  processed insert, whatever it was before. Only \<open>clear\<close>, with which a restart begins, empties
  the times and leaves the least one as it was. An insert is assumed to have a creation time other than 0.
\<close>

theorem lag_is_of_queued_inserts:
  assumes "queue_reachable io nodes fv q"
  shows "fst ` set (inserts_by_time q) = insert_keys q
    \<and> (insert_keys q \<noteq> {} \<longrightarrow> 0 < min_unprocessed_insert_time q \<and> min_unprocessed_insert_time q \<le> Min (fst ` insert_keys q))
    \<and> (\<forall>q'. lag_exact q \<and> mutation_step io nodes q q' \<longrightarrow> lag_exact q')
    \<and> (\<forall>p qe mn mx q'. entries q p = Some qe \<and> is_insert (log_data qe) \<and> \<not> removed_by_other_entry qe
         \<and> removeProcessedEntry io p q = Inr (mn, mx, q') \<longrightarrow> lag_exact q')"
proof -
  have ok: "times_ok False q" by (rule reachable_times_ok [OF assms])
  have "0 < min_unprocessed_insert_time q \<and> min_unprocessed_insert_time q \<le> Min (fst ` insert_keys q)" if ne: "insert_keys q \<noteq> {}"
  proof -
    have "inserts_by_time q \<noteq> []" using ok ne by (auto simp: times_ok_def)
    then show ?thesis using ok ne least_time_keys [OF ok] by (simp add: times_ok_def lag_ok_def)
  qed
  moreover have "lag_exact q'" if "lag_exact q" "mutation_step io nodes q q'" for q'
    using mutation_step_times_ok [OF that(2), of True] ok that(1) times_ok_exact by blast
  moreover have "lag_exact q'" if e: "entries q p = Some qe" "is_insert (log_data qe)" "\<not> removed_by_other_entry qe"
      "removeProcessedEntry io p q = Inr (mn, mx, q')" for p qe mn mx q'
    using processed_times_ok [OF ok e(4,1)] e(2,3) times_ok_exact by auto
  ultimately show ?thesis using ok by (auto simp: times_ok_def)
qed

theorem lag_is_of_queued_inserts_witness:
  "insert_keys inserted_queue = {(7, 0)} \<and> min_unprocessed_insert_time inserted_queue = 7"
proof -
  have "inserts_by_time inserted_queue = [((7, 0), ())]" "min_unprocessed_insert_time inserted_queue = 7"
    by (simp_all add: inserted_queue_def)
  then show ?thesis using lag_is_of_queued_inserts [OF inserted_reachable] by simp
qed

text \<open>
  The lag that a restart leaves behind: \<open>clear\<close> empties the times, and the least unprocessed
  one, of an insert that is no longer in the queue, stays.
\<close>

lemma cleared_lag_remains:
  "insert_keys (queue_clear q) = {} \<and> min_unprocessed_insert_time (queue_clear q) = min_unprocessed_insert_time q"
  by (simp add: insert_keys_def queue_clear_def)

end
