(* ===== verification/Queue_Versions.thy ===== *)
theory Queue_Versions
  imports Queue_Mutations Queue_Effects
begin

text \<open>
  The version a part is mutated to and the commands that take it there: which mutations are applied
  together, and that they are the pending ones in their order.
\<close>

section \<open>Pending mutations\<close>

definition entry_at :: "'c queue_state \<Rightarrow> string \<Rightarrow> 'c mutation_entry" where
  "entry_at q z = status_entry (the (map_of (mutations_by_znode q) z))"

definition versions_of :: "'c queue_state \<Rightarrow> string \<Rightarrow> (int \<times> string) list" where
  "versions_of q pid = (case mutations_by_partition q pid of None \<Rightarrow> [] | Some m \<Rightarrow> m)"

text \<open>
  The mutations of a partition with a version above \<open>lo\<close> and up to \<open>hi\<close>, in the
  order of the versions.
\<close>

definition pending :: "'c queue_state \<Rightarrow> string \<Rightarrow> int \<Rightarrow> int \<Rightarrow> (int \<times> string) list" where
  "pending q pid lo hi = filter (\<lambda>e. lo < fst e \<and> fst e \<le> hi) (versions_of q pid)"

lemma iterators_between:
  assumes "map_ok m" "lo \<le> hi"
  shows "(let first_it = map_upper_bound lo m; last_it = map_lower_bound hi m;
      last_it = (if last_it = [] \<or> fst (hd last_it) \<noteq> hi then last_it else tl last_it)
    in take (length first_it - length last_it) first_it) = filter (\<lambda>e. lo < fst e \<and> fst e \<le> hi) m"
proof -
  define above where "above = filter (\<lambda>e. hi < fst e) m"
  have last_it: "(if map_lower_bound hi m = [] \<or> fst (hd (map_lower_bound hi m)) \<noteq> hi then map_lower_bound hi m
      else tl (map_lower_bound hi m)) = above"
    using assms(1) unfolding above_def
  proof (induction m)
    case (Cons e m)
    show ?case
    proof (cases "fst e < hi")
      case True
      then have "map_lower_bound hi (e # m) = map_lower_bound hi m" "filter (\<lambda>e. hi < fst e) (e # m) = filter (\<lambda>e. hi < fst e) m"
        by (simp_all add: map_lower_bound_def)
      moreover have "map_ok m" using Cons.prems by simp
      ultimately show ?thesis using Cons.IH by (simp only:)
    next
      case False
      then have "filter (\<lambda>e. hi < fst e) m = m" using Cons.prems by (fastforce simp: filter_id_conv)
      then show ?thesis using False by (auto simp: map_lower_bound_def)
    qed
  qed (simp add: map_lower_bound_def)
  have "filter (\<lambda>e. lo < fst e) m = filter (\<lambda>e. lo < fst e \<and> fst e \<le> hi) m @ above"
    using assms unfolding above_def
  proof (induction m)
    case (Cons e m)
    have "fst e \<le> hi \<or> (\<forall>x \<in> set m. hi < fst x)" using Cons.prems by fastforce
    then show ?case
    proof
      assume "fst e \<le> hi"
      then show ?thesis using Cons by simp
    next
      assume a: "\<forall>x \<in> set m. hi < fst x"
      then have "filter (\<lambda>e. lo < fst e \<and> fst e \<le> hi) m = []" by (auto simp: filter_empty_conv)
      then show ?thesis using Cons by (cases "fst e \<le> hi") auto
    qed
  qed simp
  then show ?thesis using last_it by (simp add: map_upper_bound_filter [OF assms(1)] Let_def)
qed

lemma collect_commands_all:
  assumes "\<forall>it \<in> set its. map_of (mutations_by_znode q) (snd it) \<noteq> None"
  shows "collect_commands q its (ids, cmds)
    = Inr (ids @ map (\<lambda>it. mutation_znode (entry_at q (snd it))) its, cmds @ concat (map (\<lambda>it. commands (entry_at q (snd it))) its))"
  using assms by (induction its arbitrary: ids cmds) (auto simp: entry_at_def)

lemma index_ok_present:
  "index_ok q \<Longrightarrow> it \<in> set (versions_of q pid) \<Longrightarrow> map_of (mutations_by_znode q) (snd it) \<noteq> None"
  by (cases it; cases "mutations_by_partition q pid") (auto simp: index_ok_def versions_of_def, blast)

lemma index_ok_versions: "index_ok q \<Longrightarrow> map_ok (versions_of q pid)"
  by (auto simp: versions_of_def index_ok_def split: option.splits)

text \<open>
  C15: the mutation of a part to a version gets the commands of exactly the mutations above the data version
  of the part up to that version, in the order of the versions, and their nodes.
\<close>

theorem commands_of_pending_mutations:
  assumes "index_ok q"
  shows "getMutationCommands i v q
    = (let its = pending q (partition_id i) (getDataVersion i) v
       in Inr (map (\<lambda>it. mutation_znode (entry_at q (snd it))) its, concat (map (\<lambda>it. commands (entry_at q (snd it))) its)))"
proof (cases "getDataVersion i > v")
  case True
  then have "pending q (partition_id i) (getDataVersion i) v = []" by (auto simp: pending_def filter_empty_conv)
  then show ?thesis using True by (simp add: getMutationCommands_def)
next
  case False
  let ?its = "pending q (partition_id i) (getDataVersion i) v"
  have present: "\<forall>it \<in> set ?its. map_of (mutations_by_znode q) (snd it) \<noteq> None"
    using index_ok_present [OF assms] unfolding pending_def by auto
  show ?thesis
  proof (cases "mutations_by_partition q (partition_id i)")
    case None
    then show ?thesis using False by (simp add: getMutationCommands_def pending_def versions_of_def)
  next
    case (Some m)
    have "map_ok m" using index_ok_versions [OF assms, of "partition_id i"] Some by (simp add: versions_of_def)
    then show ?thesis
      using iterators_between [of m "getDataVersion i" v] False Some collect_commands_all [OF present, of "[]" "[]"]
      by (simp add: getMutationCommands_def pending_def versions_of_def Let_def)
  qed
qed

section \<open>The current version\<close>

lemma takeWhile_le_filter: "map_ok m \<Longrightarrow> takeWhile (\<lambda>e. fst e \<le> k) m = filter (\<lambda>e. fst e \<le> k) m"
proof (induction m)
  case (Cons e m)
  show ?case
  proof (cases "fst e \<le> k")
    case False
    then have "\<forall>x \<in> set m. \<not> fst x \<le> k" using Cons.prems by fastforce
    then show ?thesis using False by (simp add: filter_empty_conv)
  qed (use Cons in simp)
qed simp

text \<open>A mutation is above the current version exactly when it is above the data version.\<close>

lemma map_ok_last_greatest: "map_ok m \<Longrightarrow> e \<in> set m \<Longrightarrow> fst e \<le> fst (last m)"
  by (induction m rule: rev_induct) (auto simp: map_ok_def sorted_wrt_append intro: less_imp_le)

lemma above_current:
  assumes "map_ok (versions_of q pid)" "e \<in> set (versions_of q pid)" "0 \<le> dv"
  shows "getCurrentMutationVersion q pid dv < fst e \<longleftrightarrow> dv < fst e"
proof -
  let ?m = "versions_of q pid"
  let ?low = "filter (\<lambda>e. fst e \<le> dv) ?m"
  have ne: "mutations_by_partition q pid = Some ?m"
    using assms(2) by (cases "mutations_by_partition q pid") (simp_all add: versions_of_def)
  have cur: "getCurrentMutationVersion q pid dv = (if ?low = [] then 0 else fst (last ?low))"
    by (simp add: getCurrentMutationVersion_def ne takeWhile_le_filter [OF assms(1)] split: list.splits)
  show ?thesis
  proof (cases "?low = []")
    case True
    then have "dv < fst e" using assms(2) by (auto simp: filter_empty_conv not_le)
    then show ?thesis using cur True assms(3) by simp
  next
    case False
    have ok: "map_ok ?low" using assms(1) by (auto simp: map_ok_def sorted_wrt_filter sorted_wrt_map)
    have "last ?low \<in> set ?low" by (rule last_in_set [OF False])
    then have le: "fst (last ?low) \<le> dv" by simp
    have "fst e \<le> fst (last ?low)" if "fst e \<le> dv"
      using map_ok_last_greatest [OF ok] assms(2) that by simp
    then show ?thesis using cur False le by (cases "fst e \<le> dv") auto
  qed
qed

section \<open>The expected version\<close>

text \<open>What the loop has found when it ends at the last of the mutations \<open>d\<close> it has taken.\<close>

definition fresh :: "int \<Rightarrow> (int \<times> string) list \<Rightarrow> (int \<times> string) list" where
  "fresh current d = filter (\<lambda>e. current < fst e) d"

definition taken_ok ::
  "('c mutation_command list \<Rightarrow> bool) \<Rightarrow> nat \<Rightarrow> int list \<Rightarrow> 'c queue_state \<Rightarrow> int \<Rightarrow> (int \<times> string) list \<Rightarrow> bool" where
  "taken_ok barrier limit patches q current d \<longleftrightarrow>
     (limit \<noteq> 0 \<longrightarrow> length (fresh current d) \<le> limit)
     \<and> (\<forall>e \<in> set (fresh current d). barrier (commands (entry_at q (snd e))) \<longrightarrow> fresh current d = [e])
     \<and> (\<forall>e \<in> set (fresh current d). \<forall>p \<in> set patches. fst e < fst (last d) \<longrightarrow> \<not> (fst e \<le> p \<and> p \<le> fst (last d)))
     \<and> (\<forall>e \<in> set d. isAlterMutationEntry (entry_at q (snd e)) \<and> fst e < fst (last d)
          \<longrightarrow> fst e \<le> current \<and> is_done (the (map_of (mutations_by_znode q) (snd e))))"

text \<open>What holds while the loop goes on.\<close>

definition going_on ::
  "('c mutation_command list \<Rightarrow> bool) \<Rightarrow> nat \<Rightarrow> int list \<Rightarrow> 'c queue_state \<Rightarrow> int \<Rightarrow> (int \<times> string) list \<Rightarrow> bool" where
  "going_on barrier limit patches q current d \<longleftrightarrow> taken_ok barrier limit patches q current d
     \<and> (limit \<noteq> 0 \<longrightarrow> length (fresh current d) < limit)
     \<and> (\<forall>e \<in> set (fresh current d). \<not> barrier (commands (entry_at q (snd e))))
     \<and> (\<forall>e \<in> set d. isAlterMutationEntry (entry_at q (snd e))
          \<longrightarrow> fst e \<le> current \<and> is_done (the (map_of (mutations_by_znode q) (snd e))))"

lemma fresh_snoc: "fresh current (d @ [e]) = fresh current d @ (if current < fst e then [e] else [])"
  by (simp add: fresh_def)

text \<open>The last of the mutations has the greatest version, so there are fresh ones only if it is fresh.\<close>

lemma fresh_last: "map_ok d \<Longrightarrow> e \<in> set (fresh current d) \<Longrightarrow> current < fst (last d)"
  using map_ok_last_greatest [of d e] by (auto simp: fresh_def)

lemma take_next:
  assumes ok: "map_ok (d @ [e])" and going: "d \<noteq> [] \<longrightarrow> going_on barrier limit patches q current d"
    and lim: "limit \<noteq> 0 \<longrightarrow> length (fresh current (d @ [e])) \<le> limit"
    and bar: "barrier (commands (entry_at q (snd e))) \<longrightarrow> current < fst e \<longrightarrow> fresh current d = []"
    and pat: "d \<noteq> [] \<longrightarrow> current < fst (last d) \<longrightarrow> (\<forall>p \<in> set patches. \<not> (fst (last d) \<le> p \<and> p \<le> fst e))"
  shows "taken_ok barrier limit patches q current (d @ [e])"
proof (cases "d = []")
  case True
  then show ?thesis using lim by (auto simp: taken_ok_def fresh_def)
next
  case False
  have dok: "map_ok d" using ok by (simp add: map_ok_def sorted_wrt_append)
  have le: "\<forall>x \<in> set d. fst x \<le> fst (last d)" using map_ok_last_greatest [OF dok] by blast
  have lt: "fst (last d) < fst e" using ok False by (simp add: map_ok_def sorted_wrt_append)
  note g = going [rule_format, OF False, unfolded going_on_def taken_ok_def]
  have "\<not> (fst x \<le> p \<and> p \<le> fst e)" if "x \<in> set (fresh current d)" "p \<in> set patches" for x p
  proof (cases "p < fst (last d)")
    case True
    then have "fst x \<le> p \<longrightarrow> fst x < fst (last d)" by simp
    then show ?thesis using g that True by fastforce
  next
    case False
    then show ?thesis using pat \<open>d \<noteq> []\<close> fresh_last [OF dok that(1)] that(2) by fastforce
  qed
  moreover have "fresh current d = []" if "fst e \<le> current" using that lt le by (fastforce simp: fresh_def filter_empty_conv)
  ultimately show ?thesis
    using g lim bar unfolding taken_ok_def fresh_snoc by (auto split: if_splits)
qed

lemma loop_stops:
  assumes "d \<noteq> []" "going_on barrier limit patches q current d"
  shows "taken_ok barrier limit patches q current d
    \<and> (current < fst (last d) \<longrightarrow> - 1 = mutation_alter_version (entry_at q (snd (last d))))"
proof -
  have "last d \<in> set d" using assms(1) by simp
  then show ?thesis using assms(2) by (fastforce simp: going_on_def isAlterMutationEntry_def)
qed

lemma expected_loop_takes:
  assumes "map_ok (d @ its)" "expected_loop barrier limit patches q current its prev max_version n = Inr (v, a)"
    "d = [] \<longrightarrow> its \<noteq> [] \<and> prev = None \<and> max_version = fst (hd its)"
    "d \<noteq> [] \<longrightarrow> prev = Some (fst (last d)) \<and> max_version = fst (last d) \<and> going_on barrier limit patches q current d"
    "n = length (fresh current d)"
  shows "\<exists>t rest. d @ its = t @ rest \<and> t \<noteq> [] \<and> v = fst (last t) \<and> taken_ok barrier limit patches q current t
    \<and> (current < v \<longrightarrow> a = mutation_alter_version (entry_at q (snd (last t))))"
  using assms
proof (induction its arbitrary: d prev max_version n)
  case Nil
  then have d: "d \<noteq> []" and g: "going_on barrier limit patches q current d" and va: "v = fst (last d)" "a = - 1" by auto
  show ?case using loop_stops [OF d g] d va by (intro exI [of _ d] exI [of _ "[]"]) simp
next
  case (Cons it its)
  obtain u z where it: "it = (u, z)" by (cases it)
  obtain st where st: "map_of (mutations_by_znode q) z = Some st"
    using Cons.prems(2) by (auto simp: it split: option.splits)
  have m: "entry_at q z = status_entry st" "the (map_of (mutations_by_znode q) z) = st" using st by (simp_all add: entry_at_def)
  have ok: "map_ok (d @ [it])" and dok: "map_ok d" using Cons.prems(1) by (auto simp: map_ok_def sorted_wrt_append)
  have stop: ?case if d: "d \<noteq> []" and va: "(v, a) = (fst (last d), - 1)"
  proof -
    have "going_on barrier limit patches q current d" using Cons.prems(4) d by blast
    from loop_stops [OF d this] d va show ?thesis by (intro exI [of _ d] exI [of _ "it # its"]) simp
  qed
  let ?bar = "barrier (commands (status_entry st)) \<and> max_version \<noteq> u \<and> max_version > current"
  let ?pat = "(case prev of None \<Rightarrow> False | Some prev_version \<Rightarrow> prev_version > current
      \<and> (\<exists>patch \<in> set patches. prev_version \<le> patch \<and> patch \<le> u))"
  show ?case
  proof (cases "?bar \<or> ?pat")
    case True
    have "d \<noteq> []" using True Cons.prems(3) it by auto
    moreover have "(v, a) = (max_version, - 1)" using True Cons.prems(2) st by (auto simp: it Let_def split: if_splits)
    ultimately show ?thesis using stop Cons.prems(4) by simp
  next
    case False
    let ?n = "if current < u then n + 1 else n"
    have n: "?n = length (fresh current (d @ [it]))" using Cons.prems(5) it by (simp add: fresh_snoc)
    have taken: "limit \<noteq> 0 \<longrightarrow> ?n \<le> limit"
      using Cons.prems(4,5) by (cases "d = []") (auto simp: going_on_def fresh_def)
    have t: "taken_ok barrier limit patches q current (d @ [it])"
    proof (rule take_next [OF ok])
      show "d \<noteq> [] \<longrightarrow> going_on barrier limit patches q current d" using Cons.prems(4) by blast
      show "limit \<noteq> 0 \<longrightarrow> length (fresh current (d @ [it])) \<le> limit" using taken n by simp
      show "barrier (commands (entry_at q (snd it))) \<longrightarrow> current < fst it \<longrightarrow> fresh current d = []"
      proof (intro impI, rule ccontr)
        assume b: "barrier (commands (entry_at q (snd it)))" "current < fst it" "fresh current d \<noteq> []"
        then have "d \<noteq> []" by (auto simp: fresh_def)
        moreover have "current < fst (last d)" using b(3) fresh_last [OF dok] by (metis list.set_sel(1))
        moreover have "fst (last d) < fst it" using ok \<open>d \<noteq> []\<close> by (simp add: map_ok_def sorted_wrt_append)
        ultimately show False using False b(1) m Cons.prems(4) it by simp
      qed
      show "d \<noteq> [] \<longrightarrow> current < fst (last d) \<longrightarrow> (\<forall>p \<in> set patches. \<not> (fst (last d) \<le> p \<and> p \<le> fst it))"
        using False Cons.prems(4) it by auto
    qed
    let ?alter = "isAlterMutationEntry (status_entry st) \<and> (u > current \<or> \<not> is_done st)"
    have app: "d @ it # its = (d @ [it]) @ its" by simp
    show ?thesis
    proof (cases "?alter \<or> limit \<noteq> 0 \<and> ?n = limit \<or> barrier (commands (status_entry st)) \<and> u > current")
      case True
      have "v = u \<and> a = (if ?alter then mutation_alter_version (status_entry st) else - 1)"
        using Cons.prems(2) st False True by (auto simp: it Let_def split: if_splits)
      then have "v = u" "current < v \<longrightarrow> a = mutation_alter_version (status_entry st)"
        by (auto simp: isAlterMutationEntry_def)
      then show ?thesis using t m it app by (intro exI [of _ "d @ [it]"] exI [of _ its]) simp
    next
      case cont: False
      have rest: "expected_loop barrier limit patches q current its (Some u) u ?n = Inr (v, a)"
        using Cons.prems(2) st False cont by (auto simp: it Let_def split: if_splits)
      have g: "going_on barrier limit patches q current (d @ [it])"
      proof -
        have "limit \<noteq> 0 \<longrightarrow> length (fresh current (d @ [it])) < limit" using taken n cont by auto
        moreover have "\<forall>e \<in> set (fresh current (d @ [it])). \<not> barrier (commands (entry_at q (snd e)))"
          using Cons.prems(4) cont m it by (cases "d = []") (auto simp: going_on_def fresh_def)
        moreover have "\<forall>e \<in> set (d @ [it]). isAlterMutationEntry (entry_at q (snd e))
            \<longrightarrow> fst e \<le> current \<and> is_done (the (map_of (mutations_by_znode q) (snd e)))"
          using Cons.prems(4) cont m it by (cases "d = []") (auto simp: going_on_def)
        ultimately show ?thesis using t by (simp add: going_on_def)
      qed
      show ?thesis unfolding app
      proof (rule Cons.IH [OF _ rest])
        show "map_ok ((d @ [it]) @ its)" using Cons.prems(1) by simp
        show "?n = length (fresh current (d @ [it]))" by (rule n)
      qed (use g it in simp_all)
    qed
  qed
qed

lemma prefix_up_to:
  assumes "map_ok m" "m = t @ rest" "t \<noteq> []"
  shows "set t = {e \<in> set m. fst e \<le> fst (last t)}" "filter (\<lambda>e. fst e \<le> fst (last t)) m = t"
proof -
  have t: "map_ok t" using assms(1,2) by (simp add: map_ok_def sorted_wrt_append)
  have le: "\<forall>e \<in> set t. fst e \<le> fst (last t)" using map_ok_last_greatest [OF t] by blast
  have gt: "\<forall>e \<in> set rest. \<not> fst e \<le> fst (last t)"
  proof
    fix e assume e: "e \<in> set rest"
    have "fst (last t) < fst e" using assms(1,2) e last_in_set [OF assms(3)] by (simp add: map_ok_def sorted_wrt_append)
    then show "\<not> fst e \<le> fst (last t)" by simp
  qed
  show "set t = {e \<in> set m. fst e \<le> fst (last t)}" using le gt assms(2) by auto
  show "filter (\<lambda>e. fst e \<le> fst (last t)) m = t" using le gt assms(2) by (simp add: filter_empty_conv filter_id_conv)
qed

lemma expected_takes_pending:
  assumes idx: "index_ok q" and dv: "0 \<le> getDataVersion i"
    and ex: "getExpectedMutationVersion barrier limit patches quorum_part q name i = Inr (Some (v, a))"
  shows "\<exists>t rest. versions_of q (partition_id i) = t @ rest \<and> t \<noteq> [] \<and> v = fst (last t)
    \<and> pending q (partition_id i) (getDataVersion i) v = fresh (getCurrentMutationVersion q (partition_id i) (getDataVersion i)) t
    \<and> getCurrentMutationVersion q (partition_id i) (getDataVersion i) < v
    \<and> taken_ok barrier limit (patches (partition_id i)) q (getCurrentMutationVersion q (partition_id i) (getDataVersion i)) t
    \<and> a = mutation_alter_version (entry_at q (snd (last t)))"
proof -
  let ?m = "versions_of q (partition_id i)" and ?cur = "getCurrentMutationVersion q (partition_id i) (getDataVersion i)"
  have ok: "map_ok ?m" by (rule index_ok_versions [OF idx])
  obtain it its where m: "mutations_by_partition q (partition_id i) = Some (it # its)"
      "expected_loop barrier limit (patches (partition_id i)) q ?cur (it # its) None (fst it) 0 = Inr (v, a)" "?cur < v"
    using ex by (auto simp: getExpectedMutationVersion_def Let_def elim!: bind_r_E split: if_splits option.splits list.splits)
  have vm: "?m = it # its" using m(1) by (simp add: versions_of_def)
  have "\<exists>t rest. [] @ (it # its) = t @ rest \<and> t \<noteq> [] \<and> v = fst (last t)
      \<and> taken_ok barrier limit (patches (partition_id i)) q ?cur t
      \<and> (?cur < v \<longrightarrow> a = mutation_alter_version (entry_at q (snd (last t))))"
    by (rule expected_loop_takes [OF _ m(2)]) (use ok vm in \<open>simp_all add: fresh_def\<close>)
  then obtain t rest where t: "?m = t @ rest" "t \<noteq> []" "v = fst (last t)"
      "taken_ok barrier limit (patches (partition_id i)) q ?cur t" "a = mutation_alter_version (entry_at q (snd (last t)))"
    using m(3) vm by auto
  have "pending q (partition_id i) (getDataVersion i) v = filter (\<lambda>e. getDataVersion i < fst e) (filter (\<lambda>e. fst e \<le> v) ?m)"
    by (simp add: pending_def conj_commute)
  also have "\<dots> = filter (\<lambda>e. getDataVersion i < fst e) t" using prefix_up_to(2) [OF ok t(1,2)] t(3) by simp
  also have "\<dots> = fresh ?cur t"
    using above_current [OF ok _ dv] t(1) unfolding fresh_def by (intro filter_cong) auto
  finally show ?thesis using t m(3) by blast
qed

text \<open>
  C14: the version a part is mutated to is that of the last of the pending mutations up to it, with its
  alter version. No more mutations are applied together than the limit allows; one with a barrier command
  is applied alone; only the last can be an alter, and only when all alters the part has already are done;
  and no patch part has a version from one of them to the last, so that patches and mutations are applied
  in their order.
\<close>

theorem expected_version_contract:
  assumes "index_ok q" "0 \<le> getDataVersion i"
    "getExpectedMutationVersion barrier limit patches quorum_part q name i = Inr (Some (v, a))"
    "its = pending q (partition_id i) (getDataVersion i) v"
  shows "its \<noteq> [] \<and> v = fst (last its) \<and> a = mutation_alter_version (entry_at q (snd (last its)))
    \<and> (limit \<noteq> 0 \<longrightarrow> length its \<le> limit)
    \<and> (\<forall>e \<in> set its. barrier (commands (entry_at q (snd e))) \<longrightarrow> its = [e])
    \<and> (\<forall>e \<in> set its. fst e < v \<longrightarrow> \<not> isAlterMutationEntry (entry_at q (snd e)))
    \<and> (\<forall>e \<in> set (versions_of q (partition_id i)). fst e \<le> getDataVersion i \<longrightarrow> isAlterMutationEntry (entry_at q (snd e))
         \<longrightarrow> is_done (the (map_of (mutations_by_znode q) (snd e))))
    \<and> (\<forall>e \<in> set its. \<forall>p \<in> set (patches (partition_id i)). fst e < v \<longrightarrow> \<not> (fst e \<le> p \<and> p \<le> v))"
proof -
  let ?m = "versions_of q (partition_id i)" and ?cur = "getCurrentMutationVersion q (partition_id i) (getDataVersion i)"
  have ok: "map_ok ?m" by (rule index_ok_versions [OF assms(1)])
  obtain t rest where t: "?m = t @ rest" "t \<noteq> []" "v = fst (last t)" "its = fresh ?cur t" "?cur < v"
      "taken_ok barrier limit (patches (partition_id i)) q ?cur t" "a = mutation_alter_version (entry_at q (snd (last t)))"
    using expected_takes_pending [OF assms(1-3)] assms(4) by metis
  have last: "last its = last t" "its \<noteq> []"
    using fresh_snoc [of ?cur "butlast t" "last t"] t(2-5) by simp_all
  note taken = t(6) [unfolded taken_ok_def, folded t(4), folded t(3)]
  note alter_last = conjunct2 [OF conjunct2 [OF conjunct2 [OF taken]]]
  have finished: "is_done (the (map_of (mutations_by_znode q) (snd e)))"
    if e: "e \<in> set ?m" "fst e \<le> getDataVersion i" "isAlterMutationEntry (entry_at q (snd e))" for e
  proof -
    have "fst e < v" using above_current [OF ok e(1) assms(2)] e(2) t(5) by simp
    moreover have "e \<in> set t" using prefix_up_to(1) [OF ok t(1,2)] e(1) calculation t(3) by simp
    ultimately show ?thesis using alter_last e(3) by blast
  qed
  have alters: "\<not> isAlterMutationEntry (entry_at q (snd e))" if e: "e \<in> set its" "fst e < v" for e
  proof
    assume "isAlterMutationEntry (entry_at q (snd e))"
    moreover have "e \<in> set t" "?cur < fst e" using e(1) t(4) by (simp_all add: fresh_def)
    ultimately show False using alter_last e(2) by fastforce
  qed
  have rest: "limit \<noteq> 0 \<longrightarrow> length its \<le> limit" "\<forall>e \<in> set its. barrier (commands (entry_at q (snd e))) \<longrightarrow> its = [e]"
      "\<forall>e \<in> set its. \<forall>p \<in> set (patches (partition_id i)). fst e < v \<longrightarrow> \<not> (fst e \<le> p \<and> p \<le> v)"
    by (rule conjunct1 [OF taken], rule conjunct1 [OF conjunct2 [OF taken]], rule conjunct1 [OF conjunct2 [OF conjunct2 [OF taken]]])
  have "v = fst (last its)" "a = mutation_alter_version (entry_at q (snd (last its)))" using last(1) t(3,7) by simp_all
  then show ?thesis using last(2) rest finished alters by (intro conjI ballI impI) simp_all
qed

section \<open>A queue with two mutations\<close>

definition demo_update :: "string \<Rightarrow> int \<Rightarrow> nat mutation_entry" where
  "demo_update z v = \<lparr>mutation_znode = z, block_numbers = [(''all'', v)],
     commands = [\<lparr>command_type = UPDATE, command_body = nat v\<rparr>], mutation_alter_version = - 1\<rparr>"

definition two_mutations :: "nat queue_state" where
  "two_mutations = (empty_queue 1)\<lparr>
     virtual_parts := \<lparr>set_format = 1, part_info_to_name = [(PartInfo ''all'' 1 1 0 0, ''all_1_1_0'')]\<rparr>,
     mutations_by_znode := [(''m1'', MutationStatus 1 (demo_update ''m1'' 5)), (''m2'', MutationStatus 1 (demo_update ''m2'' 8))],
     mutations_by_partition := [''all'' \<mapsto> [(5, ''m1''), (8, ''m2'')]]\<rparr>"

lemma two_mutations_index: "index_ok two_mutations"
  by (auto simp: index_ok_def two_mutations_def empty_queue_def MutationStatus_def demo_update_def split: if_splits)

lemma two_mutations_pending: "pending two_mutations ''all'' 1 8 = [(5, ''m1''), (8, ''m2'')]"
  by (simp add: pending_def versions_of_def two_mutations_def)

theorem commands_of_pending_mutations_witness:
  "\<exists>ids cmds. getMutationCommands (PartInfo ''all'' 1 1 0 0) 8 two_mutations = Inr (ids, cmds)
     \<and> ids = [''m1'', ''m2''] \<and> map command_body cmds = [5, 8]"
proof -
  have "partition_id (PartInfo ''all'' 1 1 0 0) = ''all''" "getDataVersion (PartInfo ''all'' 1 1 0 0) = 1"
    by (simp_all add: PartInfo_def getDataVersion_def)
  then show ?thesis
    using commands_of_pending_mutations [OF two_mutations_index, of "PartInfo ''all'' 1 1 0 0" 8] two_mutations_pending
    by (simp add: Let_def entry_at_def two_mutations_def MutationStatus_def demo_update_def)
qed

theorem expected_version_contract_witness:
  "getExpectedMutationVersion (\<lambda>_. False) 0 (\<lambda>_. []) None two_mutations ''all_1_1_0'' (PartInfo ''all'' 1 1 0 0)
     = Inr (Some (8, - 1)) \<and> 8 = fst (last (pending two_mutations ''all'' 1 8))"
proof -
  have i: "partition_id (PartInfo ''all'' 1 1 0 0) = ''all''" "getDataVersion (PartInfo ''all'' 1 1 0 0) = 1"
    by (simp_all add: PartInfo_def getDataVersion_def)
  have e: "getExpectedMutationVersion (\<lambda>_. False) 0 (\<lambda>_. []) None two_mutations ''all_1_1_0'' (PartInfo ''all'' 1 1 0 0)
     = Inr (Some (8, - 1))"
    by (simp add: getExpectedMutationVersion_def getContainingPart_def getContainingPartImpl_def split_at_def i
        getCurrentMutationVersion_def two_mutations_def empty_queue_def MutationStatus_def demo_update_def
        isAlterMutationEntry_def info_less_def)
  show ?thesis using expected_version_contract [OF two_mutations_index _ e refl] e i by simp
qed

end
