(* ===== verification/Queue_Finished.thy ===== *)
theory Queue_Finished
  imports Queue_Results Queue_Versions
begin

text \<open>
  When a mutation is declared done, it is applied: in a queue that has not lost track of its parts, no
  current part has a lower version.
\<close>

lemma check_partitions_ok:
  assumes "check_partitions pred ns cache = Inr (True, cache')" "distinct (map fst ns)" "(pid, v) \<in> set ns"
    "pid \<notin> set cache" "case partition_ids_hint pred of None \<Rightarrow> True | Some hint \<Rightarrow> pid \<in> hint"
  shows "\<exists>blocks. committing pred = Some blocks \<and> (\<forall>bs b. blocks pid = Some bs \<longrightarrow> b \<in> set bs \<longrightarrow> v \<le> fst b)"
  using assms
proof (induction ns arbitrary: cache)
  case (Cons n ns)
  obtain pid' v' where n: "n = (pid', v')" by (cases n)
  show ?case
  proof (cases "pid' = pid")
    case True
    then have "v' = v" using Cons.prems(2,3) n by (auto simp: image_iff)
    then show ?thesis using Cons.prems(1,4,5) n True by (auto simp: not_less split: if_splits option.splits)
  next
    case False
    then have rest: "(pid, v) \<in> set ns" "distinct (map fst ns)" using Cons.prems(2,3) n by auto
    have "\<exists>c. check_partitions pred ns c = Inr (True, cache') \<and> pid \<notin> set c"
      using Cons.prems(1,4) n False by (auto split: if_splits option.splits)
    then show ?thesis using Cons.IH rest Cons.prems(5) by blast
  qed
qed simp

text \<open>
  C12: in a state in which the parts are tracked, a loaded mutation that the predicate finds finished is
  applied to the whole partition: every current part has its version or a higher one, so has every part
  that the queue will produce or a current part that covers it, and no block with a lower number is still
  being inserted there. Tracked is what every insertion of an entry keeps, and every processing of an
  entry whose parts were not current before: a part that is fetched again when it is already current breaks
  it, and then a mutation may be found finished that is not. The partition is one that the predicate
  checks: it is among the partitions for which the committing blocks were loaded, not in the cache of those
  checked before, and the mutation names it once.
\<close>

theorem finished_mutation_is_applied:
  assumes "tracked io q" "isMutationFinished pred q z numbers cache = Inr (True, cache')"
    "map_of (mutations_by_znode q) z \<noteq> None" "(v, z) \<in> set (versions_of q pid)" "(pid, v) \<in> set numbers"
    "distinct (map fst numbers)" "pid \<notin> set cache"
    "case partition_ids_hint pred of None \<Rightarrow> True | Some hint \<Rightarrow> pid \<in> hint"
  shows "(\<forall>e \<in> set (part_info_to_name (current_parts q)). partition_id (fst e) = pid \<longrightarrow> v \<le> getDataVersion (fst e))
    \<and> (\<forall>i. queued io q i \<and> partition_id i = pid \<and> \<not> isFakeDropRangePart i
         \<longrightarrow> v \<le> getDataVersion i \<or> mutated_over q v i)
    \<and> (\<exists>blocks. committing pred = Some blocks \<and> (\<forall>bs b. blocks pid = Some bs \<longrightarrow> b \<in> set bs \<longrightarrow> v \<le> fst b))"
proof -
  obtain st where st: "map_of (mutations_by_znode q) z = Some st" using assms(3) by blast
  obtain c where c: "check_partitions pred numbers cache = Inr (True, c)" and "set_size (parts_to_do st) = 0"
    using assms(2) st by (auto simp: isMutationFinished_def elim!: bind_r_E split: if_splits)
  then have "\<not> todo_covers q z k" for k by (simp add: todo_covers_def st covers_def set_size_def)
  moreover obtain m where m: "mutations_by_partition q pid = Some m" "(v, z) \<in> set m"
    using assms(4) by (cases "mutations_by_partition q pid") (simp_all add: versions_of_def)
  ultimately have handled: "v \<le> getDataVersion k \<or> mutated_over q v k" if "handled q k" "partition_id k = pid" for k
    using that unfolding handled_def by (meson not_le)
  have "v \<le> getDataVersion (fst e)" if e: "e \<in> set (part_info_to_name (current_parts q))" "partition_id (fst e) = pid" for e
  proof -
    have inv: "aps_inv (part_info_to_name (current_parts q))" using assms(1) by (simp add: tracked_def queue_ok_def set_ok_def)
    have "handled q (fst e)" using assms(1) e(1) by (simp add: tracked_def)
    then consider "v \<le> getDataVersion (fst e)" | "mutated_over q v (fst e)" using handled e(2) by blast
    then show ?thesis
    proof cases
      case 2
      then obtain d where "d \<in> set (part_info_to_name (current_parts q))" "contains (fst d) (fst e)" "v \<le> getDataVersion (fst d)"
        by (auto simp: mutated_over_def)
      then show ?thesis using covering_unique [OF inv aps_inv_wf [OF inv e(1)] _ e(1)] contains_refl by blast
    qed
  qed
  moreover have "v \<le> getDataVersion i \<or> mutated_over q v i"
    if "queued io q i" "partition_id i = pid" "\<not> isFakeDropRangePart i" for i
    using handled that assms(1) by (auto simp: tracked_def)
  ultimately show ?thesis using check_partitions_ok [OF c assms(6,5,7,8)] by blast
qed

section \<open>A part that is mutated\<close>

definition mutated_info :: part_info where
  "mutated_info = PartInfo ''all'' 1 1 0 5"

definition mutated_queue :: "nat queue_state" where
  "mutated_queue = (demo_queue [] [] [] [])\<lparr>current_parts := demo_parts [(mutated_info, getPartNameV1 dec_io mutated_info)],
     virtual_parts := demo_parts [(mutated_info, getPartNameV1 dec_io mutated_info)]\<rparr>"

definition quiet_snapshot :: predicate_snapshot where
  "quiet_snapshot = \<lparr>partition_ids_hint = None, prev_virtual_parts = None, committing = Some [''all'' \<mapsto> [(6, NewPartOp)]]\<rparr>"

lemma mutated_facts [simp]: "wf_info mutated_info" "partition_id mutated_info = ''all''" "getDataVersion mutated_info = 5"
  by (simp_all add: mutated_info_def getDataVersion_def PartInfo_def wf_info_def)

lemma mutated_tracked: "tracked dec_io mutated_queue"
proof -
  have "printable mutated_info" by (simp add: mutated_info_def printable_def PartInfo_def wf_info_def LEGACY_MAX_LEVEL_def)
  then have "set_ok dec_io 1 (demo_parts [(mutated_info, getPartNameV1 dec_io mutated_info)])"
    using fromPartName_dec by (simp add: set_ok_def demo_parts_def aps_inv_def named_by_infos_def info_eq_def)
  then have "queue_ok dec_io mutated_queue"
    using demo_queue_ok [of "[]" "[]" "[]" "[]"] by (simp add: queue_ok_def mutated_queue_def index_ok_def statuses_ok_def)
  moreover have "handled mutated_queue mutated_info" by (simp add: handled_def mutated_queue_def)
  ultimately show ?thesis using contains_refl
    by (simp add: tracked_def queued_def covers_def mutated_queue_def demo_parts_def)
qed

theorem finished_mutation_is_applied_witness:
  "isMutationFinished quiet_snapshot mutated_queue ''m1'' [(''all'', 5)] [] = Inr (True, [''all''])
   \<and> list_all (\<lambda>e. 5 \<le> getDataVersion (fst e)) (part_info_to_name (current_parts mutated_queue))
   \<and> part_info_to_name (current_parts mutated_queue) \<noteq> []"
proof -
  have f: "isMutationFinished quiet_snapshot mutated_queue ''m1'' [(''all'', 5)] [] = Inr (True, [''all''])"
    by (simp add: isMutationFinished_def quiet_snapshot_def mutated_queue_def)
  show ?thesis using finished_mutation_is_applied [OF mutated_tracked f] f unfolding list_all_iff
    by (simp add: mutated_queue_def versions_of_def quiet_snapshot_def demo_parts_def)
qed

end
