(* ===== verification/Queue_Counters.thy ===== *)
theory Queue_Counters
  imports Queue_Times Queue_Versions
begin

text \<open>
  The counters of unfinished mutations, by which a query decides whether it has to apply mutations on the
  fly: in every reachable state they are the numbers of the mutations that are not done, over the work of
  the queue, restarts, and the loading, removal and end of mutations.
\<close>

section \<open>Counting\<close>

definition has_command :: "(command_type \<Rightarrow> bool) \<Rightarrow> 'c mutation_entry \<Rightarrow> bool" where
  "has_command P m \<longleftrightarrow> (\<exists>c \<in> set (commands m). P (command_type c))"

definition unfinished :: "(command_type \<Rightarrow> bool) \<Rightarrow> (string, 'c mutation_status) ordered_map \<Rightarrow> int" where
  "unfinished P ms = int (length (filter (\<lambda>e. \<not> is_done (snd e) \<and> has_command P (status_entry (snd e))) ms))"

text \<open>What a mutation adds to a counter.\<close>

definition share :: "(command_type \<Rightarrow> bool) \<Rightarrow> 'c mutation_status \<Rightarrow> int" where
  "share P st = (if \<not> is_done st \<and> has_command P (status_entry st) then 1 else 0)"

lemma unfinished_Cons: "unfinished P (e # ms) = share P (snd e) + unfinished P ms"
  by (simp add: unfinished_def share_def)

lemma unfinished_Nil [simp]: "unfinished P [] = 0"
  by (simp add: unfinished_def)

lemma unfinished_nonneg: "0 \<le> unfinished P ms"
  by (simp add: unfinished_def)

lemma map_erase_absent: "k \<notin> fst ` set m \<Longrightarrow> map_erase k m = m"
  by (auto simp: map_erase_def filter_id_conv)

lemma unfinished_erase:
  "map_ok ms \<Longrightarrow> map_of ms z = Some st \<Longrightarrow> unfinished P (map_erase z ms) = unfinished P ms - share P st"
proof (induction ms)
  case (Cons e ms)
  show ?case
  proof (cases "fst e = z")
    case True
    then have "map_erase z (e # ms) = map_erase z ms" by (simp add: map_erase_def)
    moreover have "z \<notin> fst ` set ms" using Cons.prems(1) True by auto
    ultimately have "map_erase z (e # ms) = ms" using map_erase_absent by simp
    then show ?thesis using Cons.prems(2) True by (simp add: unfinished_Cons)
  next
    case False
    then have "map_erase z (e # ms) = e # map_erase z ms" by (simp add: map_erase_def)
    then show ?thesis using Cons False by (simp add: unfinished_Cons)
  qed
qed simp

lemma unfinished_put: "map_ok ms \<Longrightarrow> unfinished P (map_put z st ms) = unfinished P (map_erase z ms) + share P st"
proof (induction ms)
  case (Cons e ms)
  obtain k w where e: "e = (k, w)" by (cases e)
  have above: "\<forall>x \<in> fst ` set ms. k < x" using Cons.prems e by simp
  consider "z < k" | "z = k" | "k < z" by fastforce
  then show ?case
  proof cases
    case 1
    then have "z \<notin> fst ` set (e # ms)" using above e by force
    then have "map_erase z (e # ms) = e # ms" by (rule map_erase_absent)
    then show ?thesis using 1 e by (simp add: unfinished_Cons)
  next
    case 2
    then have "z \<notin> fst ` set ms" using above by blast
    then have "map_erase z (e # ms) = ms" using 2 e map_erase_absent by (simp add: map_erase_def)
    then show ?thesis using 2 e by (simp add: unfinished_Cons)
  next
    case 3
    then have "map_erase z (e # ms) = e # map_erase z ms" using e by (simp add: map_erase_def)
    then show ?thesis using 3 Cons.IH Cons.prems e by (auto simp: unfinished_Cons)
  qed
qed (simp add: unfinished_Cons map_erase_def)

lemma share_le:
  assumes "map_ok ms" "map_of ms z = Some st"
  shows "share P st \<le> unfinished P ms"
  using unfinished_erase [OF assms, of P] unfinished_nonneg [of P "map_erase z ms"] by linarith

text \<open>The mutations are counted by what the work of the queue leaves alone.\<close>

lemma unfinished_cores:
  assumes "map (\<lambda>e. (fst e, mutation_core (snd e))) ms = map (\<lambda>e. (fst e, mutation_core (snd e))) ns"
  shows "unfinished P ms = unfinished P ns"
proof -
  let ?g = "\<lambda>e. (fst e, mutation_core (snd e)) :: string \<times> 'a mutation_entry \<times> bool"
  let ?f = "\<lambda>(z :: string, m :: 'a mutation_entry, d). if \<not> d \<and> has_command P m then (1 :: int) else 0"
  have "unfinished P xs = sum_list (map ?f (map ?g xs))" for xs
    by (induction xs) (simp_all add: unfinished_Cons share_def mutation_core_def)
  from this [of ms] this [of ns] show ?thesis unfolding assms by (rule trans [OF _ sym])
qed

section \<open>The arithmetic of the counters\<close>

definition bump :: "int \<Rightarrow> 'c mutation_command list \<Rightarrow> (command_type \<Rightarrow> bool) \<Rightarrow> bool \<Rightarrow> int" where
  "bump k cmds P seen = (if \<not> seen \<and> (\<exists>c \<in> set cmds. P (command_type c)) then k else 0)"

lemma bump_simps [simp]: "bump k [] P seen = 0" "bump k cmds P True = 0"
  "bump k (c # cs) P seen = (if \<not> seen \<and> P (command_type c) then k else 0) + bump k cs P (seen \<or> P (command_type c))"
  by (auto simp: bump_def)

definition moved :: "int \<Rightarrow> 'c mutation_command list \<Rightarrow> bool \<Rightarrow> bool \<Rightarrow> bool \<Rightarrow> mutation_counters \<Rightarrow> mutation_counters" where
  "moved k cmds d a m c = c\<lparr>num_data := num_data c + bump k cmds isSupportedDataMutation d,
     num_alter := num_alter c + bump k cmds isSupportedAlterMutation a,
     num_metadata := num_metadata c + bump k cmds isSupportedMetadataMutation m\<rparr>"

definition not_negative :: "mutation_counters \<Rightarrow> bool" where
  "not_negative c \<longleftrightarrow> 0 \<le> num_data c \<and> 0 \<le> num_alter c \<and> 0 \<le> num_metadata c"

lemma moved_fields:
  "num_data (moved k cmds d a m c) = num_data c + bump k cmds isSupportedDataMutation d"
  "num_alter (moved k cmds d a m c) = num_alter c + bump k cmds isSupportedAlterMutation a"
  "num_metadata (moved k cmds d a m c) = num_metadata c + bump k cmds isSupportedMetadataMutation m"
  by (simp_all add: moved_def)

lemma assertNotNegative_eq: "assertNotNegative c = (if not_negative c then Inr c else Inl LOGICAL_ERROR)"
  by (auto simp: assertNotNegative_def not_negative_def)

lemma bump_between:
  "0 \<le> n \<Longrightarrow> 0 \<le> n + ((if \<not> seen \<and> P then k else 0) + bump k cs Q (seen \<or> P)) \<Longrightarrow> 0 \<le> n + (if \<not> seen \<and> P then k else 0)"
  by (cases "\<not> seen \<and> P") (auto simp: bump_def)

lemma count_commands_moved:
  "count_commands k cmds d a m c = Inr c' \<Longrightarrow> c' = moved k cmds d a m c"
proof (induction cmds arbitrary: d a m c)
  case (Cons x cmds)
  let ?t = "command_type x"
  let ?c = "c\<lparr>num_data := num_data c + (if \<not> d \<and> isSupportedDataMutation ?t then k else 0),
              num_alter := num_alter c + (if \<not> a \<and> isSupportedAlterMutation ?t then k else 0),
              num_metadata := num_metadata c + (if \<not> m \<and> isSupportedMetadataMutation ?t then k else 0)\<rparr>"
  have "count_commands k cmds (d \<or> \<not> d \<and> isSupportedDataMutation ?t) (a \<or> \<not> a \<and> isSupportedAlterMutation ?t)
      (m \<or> \<not> m \<and> isSupportedMetadataMutation ?t) ?c = Inr c'"
    using Cons.prems by (auto simp: Let_def assertNotNegative_eq elim!: bind_r_E split: if_splits)
  from Cons.IH [OF this] show ?case by (simp add: moved_def disj_commute)
qed (simp add: moved_def)

lemma count_commands_goes_through:
  "not_negative c \<Longrightarrow> not_negative (moved k cmds d a m c) \<Longrightarrow> count_commands k cmds d a m c = Inr (moved k cmds d a m c)"
proof (induction cmds arbitrary: d a m c)
  case (Cons x cmds)
  let ?t = "command_type x"
  let ?c = "c\<lparr>num_data := num_data c + (if \<not> d \<and> isSupportedDataMutation ?t then k else 0),
              num_alter := num_alter c + (if \<not> a \<and> isSupportedAlterMutation ?t then k else 0),
              num_metadata := num_metadata c + (if \<not> m \<and> isSupportedMetadataMutation ?t then k else 0)\<rparr>"
  note later = Cons.prems(2) [unfolded not_negative_def moved_fields bump_simps]
  note now = Cons.prems(1) [unfolded not_negative_def]
  have "not_negative ?c"
    using bump_between [OF conjunct1 [OF now] conjunct1 [OF later]]
      bump_between [OF conjunct1 [OF conjunct2 [OF now]] conjunct1 [OF conjunct2 [OF later]]]
      bump_between [OF conjunct2 [OF conjunct2 [OF now]] conjunct2 [OF conjunct2 [OF later]]]
    by (simp add: not_negative_def split del: if_split)
  moreover have eq: "moved k (x # cmds) d a m c = moved k cmds (d \<or> isSupportedDataMutation ?t)
      (a \<or> isSupportedAlterMutation ?t) (m \<or> isSupportedMetadataMutation ?t) ?c"
    by (simp add: moved_def ac_simps)
  ultimately have "count_commands k cmds (d \<or> isSupportedDataMutation ?t) (a \<or> isSupportedAlterMutation ?t)
      (m \<or> isSupportedMetadataMutation ?t) ?c = Inr (moved k (x # cmds) d a m c)"
    using Cons.IH Cons.prems(2) by metis
  moreover have "(d \<or> \<not> d \<and> P) = (d \<or> P)" for d P by blast
  ultimately show ?case using \<open>not_negative ?c\<close> by (simp add: Let_def assertNotNegative_eq)
qed (simp add: moved_def)

section \<open>The invariant\<close>

definition tally :: "(string, 'c mutation_status) ordered_map \<Rightarrow> mutation_counters" where
  "tally ms = \<lparr>num_data = unfinished isSupportedDataMutation ms, num_alter = unfinished isSupportedAlterMutation ms,
     num_metadata = unfinished isSupportedMetadataMutation ms\<rparr>"

text \<open>A mutation is what its node in ZooKeeper holds.\<close>

definition node_ok :: "(string \<Rightarrow> 'c mutation_entry) \<Rightarrow> string \<times> 'c mutation_status \<Rightarrow> bool" where
  "node_ok nodes e \<longleftrightarrow> mutation_znode (status_entry (snd e)) = fst e \<and> status_entry (snd e) = nodes (fst e)"

lemma node_ok_cong: "node_ok nodes d \<Longrightarrow> fst d = fst e \<Longrightarrow> status_entry (snd d) = status_entry (snd e) \<Longrightarrow> node_ok nodes e"
  unfolding node_ok_def by metis

definition counters_exact :: "(string \<Rightarrow> 'c mutation_entry) \<Rightarrow> 'c queue_state \<Rightarrow> bool" where
  "counters_exact nodes q \<longleftrightarrow> map_ok (mutations_by_znode q)
     \<and> (\<forall>e \<in> set (mutations_by_znode q). node_ok nodes e)
     \<and> counters q = tally (mutations_by_znode q)"

abbreviation dec :: "'c mutation_entry \<Rightarrow> mutation_counters \<Rightarrow> mutation_counters" where
  "dec m \<equiv> moved (- 1) (commands m) False False False"

lemma tally_not_negative: "not_negative (tally ms)"
  by (simp add: not_negative_def tally_def unfinished_nonneg)

lemma counters_exact_cores:
  assumes "counters_exact nodes q" "same_cores q q'"
  shows "counters_exact nodes q'"
proof -
  let ?ms = "mutations_by_znode q" and ?ns = "mutations_by_znode q'"
  have ok: "map_ok ?ns" and eq: "map (\<lambda>e. (fst e, mutation_core (snd e))) ?ns = map (\<lambda>e. (fst e, mutation_core (snd e))) ?ms"
    and c: "counters q' = counters q"
    using assms by (auto simp: counters_exact_def same_cores_def cores_def)
  have "tally ?ns = tally ?ms" unfolding tally_def using unfinished_cores [OF eq] by metis
  moreover have "node_ok nodes e" if "e \<in> set ?ns" for e
  proof -
    have "(fst e, mutation_core (snd e)) \<in> set (map (\<lambda>e. (fst e, mutation_core (snd e))) ?ms)"
      unfolding eq [symmetric] using that by (metis (mono_tags, lifting) image_eqI list.set_map)
    then obtain d where "d \<in> set ?ms" "fst d = fst e" "status_entry (snd d) = status_entry (snd e)"
      by (auto simp: mutation_core_def)
    then show ?thesis using assms(1) node_ok_cong by (metis counters_exact_def)
  qed
  ultimately show ?thesis using assms(1) ok c by (simp add: counters_exact_def)
qed

lemma map_of_in: "map_of m k = Some v \<Longrightarrow> (k, v) \<in> set m"
  by (rule map_of_SomeD)

text \<open>A mutation that is not done leaves the counters when it is erased or marked done.\<close>

lemma unfinished_settled:
  assumes "map_ok ms" "map_of ms z = Some st" "\<not> is_done st"
  shows "unfinished P (map_erase z ms) = unfinished P ms + bump (- 1) (commands (status_entry st)) P False"
  using unfinished_erase [OF assms(1,2)] assms(3) by (simp add: share_def bump_def has_command_def)

lemma tally_settled:
  assumes "map_ok ms" "map_of ms z = Some st"
  shows "tally (map_erase z ms) = (if is_done st then tally ms else dec (status_entry st) (tally ms))"
proof (cases "is_done st")
  case True
  then show ?thesis using unfinished_erase [OF assms] by (simp add: tally_def share_def)
next
  case False
  then show ?thesis using unfinished_settled [OF assms] by (simp add: tally_def moved_def)
qed

lemma tally_put_done:
  assumes "map_ok ms" "is_done st"
  shows "tally (map_put z st ms) = tally (map_erase z ms)"
  using unfinished_put [OF assms(1)] assms(2) by (simp add: tally_def share_def)

lemma settle:
  assumes ok: "counters_exact nodes q" and st: "map_of (mutations_by_znode q) z = Some st"
    and c: "counters q' = (if is_done st then counters q else dec (status_entry st) (counters q))"
    and ms: "mutations_by_znode q' = map_erase z (mutations_by_znode q)
      \<or> (\<exists>st'. mutations_by_znode q' = map_put z st' (mutations_by_znode q) \<and> is_done st' \<and> status_entry st' = status_entry st)"
  shows "counters_exact nodes q'"
proof -
  let ?ms = "mutations_by_znode q" and ?ns = "mutations_by_znode q'"
  have map: "map_ok ?ms" using ok by (simp add: counters_exact_def)
  have "tally ?ns = tally (map_erase z ?ms)" using ms tally_put_done [OF map] by metis
  then have "counters q' = tally ?ns" using c ok tally_settled [OF map st] by (simp add: counters_exact_def)
  moreover have "map_ok ?ns" using ms map by auto
  moreover have "node_ok nodes e" if e: "e \<in> set ?ns" for e
  proof (cases "fst e = z")
    case True
    then have "map_of ?ns z = Some (snd e)" using e \<open>map_ok ?ns\<close> by (metis map_ok_distinct map_of_is_SomeI prod.collapse)
    then have "status_entry (snd e) = status_entry st" using ms map by auto
    then show ?thesis using map_of_in [OF st] ok True by (auto simp: counters_exact_def node_ok_def)
  next
    case False
    then have "map_of ?ns (fst e) = map_of ?ms (fst e)" using ms map by auto
    moreover have "map_of ?ns (fst e) = Some (snd e)"
      using e \<open>map_ok ?ns\<close> by (metis map_ok_distinct map_of_is_SomeI prod.collapse)
    ultimately have "(fst e, snd e) \<in> set ?ms" using map_of_in by metis
    then show ?thesis using ok by (metis counters_exact_def prod.collapse)
  qed
  ultimately show ?thesis by (simp add: counters_exact_def)
qed

lemma decrement_Inr:
  "decrementMutationsCounters cmds q = Inr q' \<Longrightarrow> q' = q\<lparr>counters := moved (- 1) cmds False False False (counters q)\<rparr>"
  by (auto simp: decrementMutationsCounters_def updateMutationsCounters_def elim!: bind_r_E dest!: count_commands_moved)
    (auto simp: assertNotNegative_eq split: if_splits)

lemma decrement_goes_through:
  assumes "counters_exact nodes q" "map_of (mutations_by_znode q) z = Some st" "\<not> is_done st" "counters q' = counters q"
  shows "\<exists>q1. decrementMutationsCounters (commands (status_entry st)) q' = Inr q1"
proof -
  have c: "counters q = tally (mutations_by_znode q)" "map_ok (mutations_by_znode q)"
    using assms(1) by (simp_all add: counters_exact_def)
  have "dec (status_entry st) (counters q) = tally (map_erase z (mutations_by_znode q))"
    using tally_settled [OF c(2) assms(2)] assms(3) c(1) by simp
  then have "not_negative (dec (status_entry st) (counters q))" using tally_not_negative by metis
  moreover have "not_negative (counters q)" using c(1) tally_not_negative by metis
  ultimately have "count_commands (- 1) (commands (status_entry st)) False False False (counters q)
      = Inr (dec (status_entry st) (counters q))" by (intro count_commands_goes_through)
  then show ?thesis using assms(4) \<open>not_negative (counters q)\<close>
    by (simp add: decrementMutationsCounters_def updateMutationsCounters_def assertNotNegative_eq)
qed

section \<open>Operations on mutations\<close>

lemma fold_unindex [simp]:
  "mutations_by_znode (fold unindex_mutation pbs q) = mutations_by_znode q"
  "counters (fold unindex_mutation pbs q) = counters q"
  by (induction pbs arbitrary: q) (simp_all add: unindex_mutation_def Let_def)

lemma fold_index [simp]:
  "mutations_by_znode (fold (index_mutation z) pbs q) = mutations_by_znode q"
  "counters (fold (index_mutation z) pbs q) = counters q"
  by (induction pbs arbitrary: q) (simp_all add: index_mutation_def Let_def)

definition unindexed :: "bool \<Rightarrow> 'c mutation_entry \<Rightarrow> 'c queue_state \<Rightarrow> 'c queue_state" where
  "unindexed alter m q =
     (let q = fold unindex_mutation (block_numbers m) q
      in if alter then q\<lparr>alter_sequence := finishDataAlter (mutation_alter_version m) (alter_sequence q)\<rparr> else q)"

lemma unindexed_fields [simp]:
  "mutations_by_znode (unindexed b m q) = mutations_by_znode q" "counters (unindexed b m q) = counters q"
  by (simp_all add: unindexed_def Let_def)

lemma removeMutation_eq:
  "map_of (mutations_by_znode q) z = Some st \<Longrightarrow> removeMutation z q =
     bind_r (if is_done st then Inr (unindexed (isAlterMutationEntry (status_entry st)) (status_entry st) q)
             else decrementMutationsCounters (commands (status_entry st))
                    (unindexed (isAlterMutationEntry (status_entry st)) (status_entry st) q))
       (\<lambda>q. Inr (Some (status_entry st), \<not> is_done st, q\<lparr>mutations_by_znode := map_erase z (mutations_by_znode q)\<rparr>))"
  by (simp add: removeMutation_def unindexed_def Let_def)

lemma removeMutation_exact:
  assumes ok: "counters_exact nodes q" and rm: "removeMutation z q = Inr (m, active, q')"
  shows "counters_exact nodes q'"
proof (cases "map_of (mutations_by_znode q) z")
  case None
  then show ?thesis using assms by (simp add: removeMutation_def)
next
  case (Some st)
  let ?q1 = "unindexed (isAlterMutationEntry (status_entry st)) (status_entry st) q"
  obtain q2 where q2: "(if is_done st then Inr ?q1 else decrementMutationsCounters (commands (status_entry st)) ?q1) = Inr q2"
      "q' = q2\<lparr>mutations_by_znode := map_erase z (mutations_by_znode q2)\<rparr>"
    using rm unfolding removeMutation_eq [OF Some] by (elim bind_r_E) auto
  then have "mutations_by_znode q' = map_erase z (mutations_by_znode q)
      \<and> counters q' = (if is_done st then counters q else dec (status_entry st) (counters q))"
    by (auto dest!: decrement_Inr split: if_splits)
  then show ?thesis using settle [OF ok Some] by blast
qed

lemma removeMutation_goes_through:
  assumes "counters_exact nodes q"
  shows "\<exists>r. removeMutation z q = Inr r"
proof (cases "map_of (mutations_by_znode q) z")
  case (Some st)
  let ?q1 = "unindexed (isAlterMutationEntry (status_entry st)) (status_entry st) q"
  have "\<exists>q2. (if is_done st then Inr ?q1 else decrementMutationsCounters (commands (status_entry st)) ?q1) = Inr q2"
    using decrement_goes_through [OF assms Some, of ?q1] by (cases "is_done st") simp_all
  then show ?thesis unfolding removeMutation_eq [OF Some] by (elim exE) (simp del: split_paired_Ex)
qed (simp add: removeMutation_def del: split_paired_Ex)

text \<open>One turn of the loop over the mutations that are gone.\<close>

definition forgotten :: "string \<Rightarrow> 'c mutation_status \<Rightarrow> 'c queue_state \<Rightarrow> 'c queue_state" where
  "forgotten z st q =
     (let m = status_entry st;
          q = (if \<not> is_done st \<and> isAlterMutationEntry m
               then q\<lparr>alter_sequence := finishDataAlter (mutation_alter_version m) (alter_sequence q)\<rparr> else q);
          q = fold unindex_mutation (block_numbers m) q
      in q\<lparr>mutations_by_znode := map_erase z (mutations_by_znode q)\<rparr>)"

lemma forgotten_fields [simp]:
  "mutations_by_znode (forgotten z st q) = map_erase z (mutations_by_znode q)" "counters (forgotten z st q) = counters q"
  by (simp_all add: forgotten_def Let_def)

lemma drop_obsolete_eq:
  "drop_obsolete zk (z, st) (k, q) =
     (if mutation_znode (status_entry st) \<in> set zk then Inr (k, q)
      else if is_done st then Inr (k, forgotten z st q)
      else bind_r (decrementMutationsCounters (commands (status_entry st)) (forgotten z st q)) (\<lambda>q. Inr (True, q)))"
  by (simp add: drop_obsolete_def forgotten_def Let_def)

lemma drop_obsolete_exact:
  assumes ok: "counters_exact nodes q" and st: "map_of (mutations_by_znode q) z = Some st"
    and drop: "drop_obsolete zk (z, st) (k, q) = Inr (k', q')"
  shows "counters_exact nodes q' \<and> (\<forall>y. y \<noteq> z \<longrightarrow> map_of (mutations_by_znode q') y = map_of (mutations_by_znode q) y)"
proof (cases "mutation_znode (status_entry st) \<in> set zk")
  case False
  have "mutations_by_znode q' = map_erase z (mutations_by_znode q)
      \<and> counters q' = (if is_done st then counters q else dec (status_entry st) (counters q))"
    using drop False unfolding drop_obsolete_eq by (auto elim!: bind_r_E dest!: decrement_Inr split: if_splits)
  then show ?thesis using settle [OF ok st] by simp
qed (use assms in \<open>simp add: drop_obsolete_def\<close>)

lemma drop_obsolete_goes_through:
  assumes "counters_exact nodes q" "map_of (mutations_by_znode q) z = Some st"
  shows "\<exists>r. drop_obsolete zk (z, st) (k, q) = Inr r"
  using decrement_goes_through [OF assms, of "forgotten z st q"] unfolding drop_obsolete_eq
  by (auto simp del: split_paired_Ex)

lemma drop_all:
  assumes "counters_exact nodes q" "\<forall>e \<in> set es. map_of (mutations_by_znode q) (fst e) = Some (snd e)" "distinct (map fst es)"
  shows "\<exists>r. fold_r (drop_obsolete zk) es (k, q) = Inr r \<and> counters_exact nodes (snd r)"
  using assms
proof (induction es arbitrary: k q)
  case (Cons e es)
  obtain z st where e: "e = (z, st)" by (cases e)
  have st: "map_of (mutations_by_znode q) z = Some st" using Cons.prems(2) e by simp
  obtain k' q' where step: "drop_obsolete zk (z, st) (k, q) = Inr (k', q')"
    using drop_obsolete_goes_through [OF Cons.prems(1) st] by fastforce
  note d = drop_obsolete_exact [OF Cons.prems(1) st step]
  have "\<forall>e \<in> set es. map_of (mutations_by_znode q') (fst e) = Some (snd e)"
    using d Cons.prems(2,3) e by (metis (no_types, lifting) distinct.simps(2) image_eqI list.set_intros(2) list.set_map list.simps(9) fst_conv)
  then show ?case using Cons.IH [of q' k'] d Cons.prems(3) step e by simp
qed simp

lemma increment_Inr:
  "incrementMutationsCounters cmds q = Inr q' \<Longrightarrow> q' = q\<lparr>counters := moved 1 cmds False False False (counters q)\<rparr>"
  by (auto simp: incrementMutationsCounters_def updateMutationsCounters_def elim!: bind_r_E dest!: count_commands_moved)
    (auto simp: assertNotNegative_eq split: if_splits)

lemma tally_put_new:
  assumes "map_ok ms" "map_of ms z = None" "\<not> is_done st"
  shows "tally (map_put z st ms) = moved 1 (commands (status_entry st)) False False False (tally ms)"
proof -
  have "z \<notin> fst ` set ms" using assms(2) by (simp add: map_of_eq_None_iff)
  then show ?thesis using unfinished_put [OF assms(1)] map_erase_absent [of z ms] assms(3)
    by (simp add: tally_def moved_def share_def bump_def has_command_def)
qed

lemma load_mutation_exact:
  assumes ok: "counters_exact nodes q" and new: "map_of (mutations_by_znode q) (mutation_znode m) = None"
    and load: "load_mutation io hash_order m q = Inr q'" and node: "m = nodes (mutation_znode m)"
  shows "counters_exact nodes q' \<and> (\<forall>y. y \<noteq> mutation_znode m \<longrightarrow> map_of (mutations_by_znode q') y = map_of (mutations_by_znode q) y)"
proof -
  let ?ms = "mutations_by_znode q"
  obtain q1 s where q1: "incrementMutationsCounters (commands m) q = Inr q1" and
    q': "mutations_by_znode q' = map_put (mutation_znode m) ((MutationStatus (queue_format q) m)\<lparr>parts_to_do := s\<rparr>) (mutations_by_znode q1)"
      "counters q' = counters q1"
    using load unfolding load_mutation_def Let_def by (elim bind_r_E) (auto split: if_splits)
  let ?st = "(MutationStatus (queue_format q) m)\<lparr>parts_to_do := s\<rparr>"
  have st: "status_entry ?st = m" "\<not> is_done ?st" by (simp_all add: MutationStatus_def)
  have map: "map_ok ?ms" "counters q = tally ?ms" using ok by (simp_all add: counters_exact_def)
  have ms: "mutations_by_znode q' = map_put (mutation_znode m) ?st ?ms" using q' increment_Inr [OF q1] by simp
  have "counters q' = tally (mutations_by_znode q')"
    unfolding ms tally_put_new [OF map(1) new st(2)] using q'(2) increment_Inr [OF q1] map(2) st(1) by simp
  moreover have "node_ok nodes e" if e: "e \<in> set (mutations_by_znode q')" for e
  proof -
    have "map_of (mutations_by_znode q') (fst e) = Some (snd e)"
      using e map(1) unfolding ms by (metis map_put_ok map_ok_distinct map_of_is_SomeI prod.collapse)
    then have "e = (mutation_znode m, ?st) \<or> (fst e, snd e) \<in> set ?ms"
      using map(1) map_of_in unfolding ms by (cases e) (auto split: if_splits)
    then show ?thesis using ok st(1) node by (auto simp: counters_exact_def node_ok_def)
  qed
  ultimately show ?thesis using map(1) by (simp add: counters_exact_def ms)
qed

lemma load_all:
  assumes "counters_exact nodes q" "\<forall>m \<in> set ms. map_of (mutations_by_znode q) (mutation_znode m) = None"
    "distinct (map mutation_znode ms)" "fold_r (load_mutation io hash_order) ms q = Inr q'"
    "list_all (\<lambda>m. m = nodes (mutation_znode m)) ms"
  shows "counters_exact nodes q'"
  using assms
proof (induction ms arbitrary: q)
  case (Cons m ms)
  obtain q1 where q1: "load_mutation io hash_order m q = Inr q1" "fold_r (load_mutation io hash_order) ms q1 = Inr q'"
    using Cons.prems(4) by (auto elim!: bind_r_E)
  have "map_of (mutations_by_znode q) (mutation_znode m) = None" using Cons.prems(2) by simp
  moreover have "m = nodes (mutation_znode m)" using Cons.prems(5) by simp
  ultimately have l: "counters_exact nodes q1
      \<and> (\<forall>y. y \<noteq> mutation_znode m \<longrightarrow> map_of (mutations_by_znode q1) y = map_of (mutations_by_znode q) y)"
    using load_mutation_exact [OF Cons.prems(1) _ q1(1)] by blast
  have "map_of (mutations_by_znode q1) (mutation_znode n) = None" if n: "n \<in> set ms" for n
  proof -
    have "mutation_znode n \<noteq> mutation_znode m" using Cons.prems(3) n by (auto simp: image_iff)
    then show ?thesis using l Cons.prems(2) n by simp
  qed
  then show ?case using Cons.IH [of q1] l Cons.prems(3,5) q1(2) by simp
qed simp

lemma map_entries: "map_ok m \<Longrightarrow> \<forall>e \<in> set m. map_of m (fst e) = Some (snd e)"
  using map_ok_distinct by (metis map_of_is_SomeI prod.collapse)

lemma updateMutations_exact:
  assumes ok: "counters_exact nodes q" and dist: "distinct (map mutation_znode found)"
    and node: "list_all (\<lambda>m. m = nodes (mutation_znode m)) found"
    and upd: "updateMutations io hash_order zk found q = Inr (k, q')"
  shows "counters_exact nodes q'"
proof -
  have map: "map_ok (mutations_by_znode q)" using ok by (simp add: counters_exact_def)
  obtain k1 q1 where q1: "fold_r (drop_obsolete zk) (mutations_by_znode q) (False, q) = Inr (k1, q1)" and load:
      "fold_r (load_mutation io hash_order)
        (filter (\<lambda>m. mutation_znode m \<in> set zk \<and> map_of (mutations_by_znode q1) (mutation_znode m) = None) found) q1 = Inr q'"
    using upd unfolding updateMutations_def by (auto elim!: bind_r_E)
  have "counters_exact nodes q1"
    using drop_all [OF ok map_entries [OF map] map_ok_distinct [OF map], of zk False] q1 by auto
  then show ?thesis by (rule load_all [OF _ _ _ load]) (use dist node in \<open>simp_all add: distinct_map inj_on_def list_all_iff\<close>)
qed

section \<open>The end of mutations\<close>

text \<open>The nodes of mutations that are not done.\<close>

definition open_nodes :: "string list \<Rightarrow> 'c queue_state \<Rightarrow> bool" where
  "open_nodes zs q \<longleftrightarrow> distinct zs \<and> (\<forall>z \<in> set zs. \<exists>st. map_of (mutations_by_znode q) z = Some st \<and> \<not> is_done st)"

lemma clear_failure_fields [simp]:
  "status_entry (clear_failure st) = status_entry st" "is_done (clear_failure st) = is_done st"
  by (simp_all add: clear_failure_def)

lemma mark_passed_exact:
  assumes ok: "counters_exact nodes q" and st: "map_of (mutations_by_znode q) z = Some st"
    and mark: "mark_passed (z, st) (cs, q) = Inr (cs', q')" and cs: "open_nodes cs q" "z \<notin> set cs"
  shows "counters_exact nodes q' \<and> open_nodes cs' q' \<and> set cs' \<subseteq> insert z (set cs)
    \<and> (\<forall>y. y \<noteq> z \<longrightarrow> map_of (mutations_by_znode q') y = map_of (mutations_by_znode q) y)"
proof (cases "\<not> is_done st \<and> z \<le> mutation_pointer q")
  case True
  let ?st = "clear_failure (st\<lparr>is_done := True, parts_to_do := set_clear (parts_to_do st)\<rparr>)"
  have q': "mutations_by_znode q' = map_put z ?st (mutations_by_znode q)" "counters q' = dec (status_entry st) (counters q)"
      "cs' = cs"
    using mark True by (auto simp: mark_passed_def Let_def elim!: bind_r_E dest!: decrement_Inr)
  have "counters_exact nodes q'" by (rule settle [OF ok st]) (use q' True in auto)
  moreover have same: "map_of (mutations_by_znode q') y = map_of (mutations_by_znode q) y" if "y \<noteq> z" for y
    using ok that by (simp add: q'(1) counters_exact_def)
  moreover have "open_nodes cs q'" using cs same unfolding open_nodes_def by metis
  ultimately show ?thesis using q'(3) by auto
next
  case False
  then have "q' = q \<and> (cs' = cs \<or> cs' = cs @ [z] \<and> \<not> is_done st)"
    using mark by (auto simp: mark_passed_def Let_def split: if_splits)
  then show ?thesis using ok cs st by (auto simp: open_nodes_def)
qed

lemma mark_all:
  assumes "counters_exact nodes q" "\<forall>e \<in> set es. map_of (mutations_by_znode q) (fst e) = Some (snd e)" "distinct (map fst es)"
    "open_nodes cs q" "set cs \<inter> fst ` set es = {}" "fold_r mark_passed es (cs, q) = Inr (cs', q')"
  shows "counters_exact nodes q' \<and> open_nodes cs' q'"
  using assms
proof (induction es arbitrary: cs q)
  case (Cons e es)
  obtain z st where e: "e = (z, st)" by (cases e)
  obtain cs1 q1 where step: "mark_passed (z, st) (cs, q) = Inr (cs1, q1)" "fold_r mark_passed es (cs1, q1) = Inr (cs', q')"
    using Cons.prems(6) e by (auto elim!: bind_r_E)
  have "map_of (mutations_by_znode q) z = Some st" "z \<notin> set cs" using Cons.prems(2,5) e by auto
  note m = mark_passed_exact [OF Cons.prems(1) this(1) step(1) Cons.prems(4) this(2)]
  have z: "z \<notin> fst ` set es" using Cons.prems(3) e by simp
  have "map_of (mutations_by_znode q1) (fst d) = Some (snd d)" if d: "d \<in> set es" for d
  proof -
    have "fst d \<noteq> z" using z d by force
    then show ?thesis using m Cons.prems(2) d by simp
  qed
  moreover have "set cs1 \<inter> fst ` set es = {}" using m z Cons.prems(5) by auto
  ultimately show ?case using Cons.IH [of q1 cs1] m Cons.prems(3) step(2) by simp
qed simp

lemma finish_mutation_exact:
  assumes ok: "counters_exact nodes q" and st: "map_of (mutations_by_znode q) (mutation_znode m) = Some st" "\<not> is_done st"
      "status_entry st = m"
    and fin: "finish_mutation m q = Inr q'"
  shows "counters_exact nodes q' \<and> (\<forall>y. y \<noteq> mutation_znode m \<longrightarrow> map_of (mutations_by_znode q') y = map_of (mutations_by_znode q) y)"
proof -
  let ?st = "clear_failure (st\<lparr>is_done := True\<rparr>)"
  have q': "mutations_by_znode q' = map_put (mutation_znode m) ?st (mutations_by_znode q)" "counters q' = dec (status_entry st) (counters q)"
    using fin st by (auto simp: finish_mutation_def Let_def dest!: decrement_Inr)
  have "counters_exact nodes q'" by (rule settle [OF ok st(1)]) (use q' st in auto)
  then show ?thesis using ok by (simp add: q'(1) counters_exact_def)
qed

text \<open>
  Mutations that can be finished: what the queue holds under their nodes, if it still holds anything there,
  are they, not done.
\<close>

definition open_mutations :: "'c mutation_entry list \<Rightarrow> 'c queue_state \<Rightarrow> bool" where
  "open_mutations ms q \<longleftrightarrow> distinct (map mutation_znode ms)
     \<and> (\<forall>m \<in> set ms. \<forall>st. map_of (mutations_by_znode q) (mutation_znode m) = Some st \<longrightarrow> \<not> is_done st \<and> status_entry st = m)"

lemma finish_all:
  "counters_exact nodes q \<Longrightarrow> open_mutations ms q \<Longrightarrow> fold_r finish_mutation ms q = Inr q' \<Longrightarrow> counters_exact nodes q'"
proof (induction ms arbitrary: q)
  case (Cons m ms)
  obtain q1 where q1: "finish_mutation m q = Inr q1" "fold_r finish_mutation ms q1 = Inr q'"
    using Cons.prems(3) by (auto elim!: bind_r_E)
  have f: "counters_exact nodes q1
      \<and> (\<forall>y. y \<noteq> mutation_znode m \<longrightarrow> map_of (mutations_by_znode q1) y = map_of (mutations_by_znode q) y)"
  proof (cases "map_of (mutations_by_znode q) (mutation_znode m)")
    case None
    then show ?thesis using q1(1) Cons.prems(1) by (simp add: finish_mutation_def)
  next
    case (Some st)
    then have "\<not> is_done st" "status_entry st = m" using Cons.prems(2) by (auto simp: open_mutations_def)
    then show ?thesis by (intro finish_mutation_exact [OF Cons.prems(1) Some _ _ q1(1)])
  qed
  have "map_of (mutations_by_znode q1) (mutation_znode n) = map_of (mutations_by_znode q) (mutation_znode n)" if n: "n \<in> set ms" for n
  proof -
    have "mutation_znode m \<notin> mutation_znode ` set ms" using Cons.prems(2) by (simp add: open_mutations_def)
    then have "mutation_znode n \<noteq> mutation_znode m" using n by (metis imageI)
    then show ?thesis using conjunct2 [OF f] by simp
  qed
  then have "open_mutations ms q1" using Cons.prems(2) by (simp add: open_mutations_def)
  then show ?case by (rule Cons.IH [OF conjunct1 [OF f] _ q1(2)])
qed simp

lemma cores_entry:
  assumes "same_cores q q'" "map_ok (mutations_by_znode q)" "map_of (mutations_by_znode q) z = Some st"
  shows "\<exists>st'. map_of (mutations_by_znode q') z = Some st' \<and> mutation_core st' = mutation_core st"
proof -
  have eq: "cores q' = cores q" using assms(1,2) by (simp add: same_cores_def)
  have "map_of (map (\<lambda>e. (fst e, mutation_core (snd e))) ms) z = map_option mutation_core (map_of ms z)"
    for ms :: "(string, 'a mutation_status) ordered_map"
    by (induction ms) auto
  then have "map_of (cores p) z = map_option mutation_core (map_of (mutations_by_znode p) z)" for p :: "'a queue_state"
    by (simp add: cores_def)
  then have "map_option mutation_core (map_of (mutations_by_znode q') z) = Some (mutation_core st)"
    using eq assms(3) by (metis option.simps(9))
  then show ?thesis by auto
qed

text \<open>Only \<open>tryFinalizeMutations\<close> makes a mutation done.\<close>

definition none_done :: "'c queue_state \<Rightarrow> 'c queue_state \<Rightarrow> bool" where
  "none_done q q' \<longleftrightarrow> (map_ok (mutations_by_znode q) \<longrightarrow> map_ok (mutations_by_znode q')
     \<and> (\<forall>z st'. map_of (mutations_by_znode q') z = Some st' \<longrightarrow> is_done st'
          \<longrightarrow> (\<exists>st. map_of (mutations_by_znode q) z = Some st \<and> is_done st)))"

lemma none_done_refl [simp]: "none_done q q"
  by (simp add: none_done_def)

lemma none_done_trans: "none_done a b \<Longrightarrow> none_done b c \<Longrightarrow> none_done a c"
  unfolding none_done_def by blast

lemma none_done_same: "mutations_by_znode q' = mutations_by_znode q \<Longrightarrow> none_done q q'"
  by (simp add: none_done_def)

lemma none_done_erase: "mutations_by_znode q' = map_erase z (mutations_by_znode q) \<Longrightarrow> none_done q q'"
  by (simp add: none_done_def)

lemma none_done_put: "mutations_by_znode q' = map_put z st (mutations_by_znode q) \<Longrightarrow> \<not> is_done st \<Longrightarrow> none_done q q'"
  by (simp add: none_done_def)

lemma none_done_cores: "same_cores q q' \<Longrightarrow> none_done q q'"
proof -
  assume same: "same_cores q q'"
  have "\<exists>st. map_of (mutations_by_znode q) z = Some st \<and> is_done st"
    if m: "map_ok (mutations_by_znode q)" "map_of (mutations_by_znode q') z = Some st'" "is_done st'" for z st'
  proof -
    have "same_cores q' q" "map_ok (mutations_by_znode q')" using same m(1) by (simp_all add: same_cores_def)
    from cores_entry [OF this m(2)] show ?thesis using m(3) by (auto simp: mutation_core_def)
  qed
  then show ?thesis using same by (auto simp: none_done_def same_cores_def)
qed

lemma drop_obsolete_none_done: "drop_obsolete zk zs (k, q) = Inr (k', q') \<Longrightarrow> none_done q q'"
proof -
  assume d: "drop_obsolete zk zs (k, q) = Inr (k', q')"
  obtain z st where zs: "zs = (z, st)" by (cases zs)
  have "mutations_by_znode q' = mutations_by_znode q \<or> mutations_by_znode q' = map_erase z (mutations_by_znode q)"
    using d unfolding zs drop_obsolete_eq by (auto elim!: bind_r_E dest!: decrement_Inr split: if_splits)
  then show ?thesis using none_done_same none_done_erase by blast
qed

lemma load_mutation_none_done:
  assumes "load_mutation io hash_order m q = Inr q'"
  shows "none_done q q'"
proof -
  obtain q1 s where q1: "incrementMutationsCounters (commands m) q = Inr q1" and
    q': "mutations_by_znode q' = map_put (mutation_znode m) ((MutationStatus (queue_format q) m)\<lparr>parts_to_do := s\<rparr>) (mutations_by_znode q1)"
    using assms unfolding load_mutation_def Let_def by (elim bind_r_E) (auto split: if_splits)
  then show ?thesis using increment_Inr [OF q1] by (intro none_done_put) (auto simp: MutationStatus_def)
qed

lemma updateMutations_none_done:
  assumes "updateMutations io hash_order zk found q = Inr (k, q')"
  shows "none_done q q'"
proof -
  have drop: "fold_r (drop_obsolete zk) es (a, p) = Inr (b, p') \<Longrightarrow> none_done p p'" for es a b p p'
  proof (induction es arbitrary: a p)
    case (Cons e es)
    then obtain a1 p1 where "drop_obsolete zk e (a, p) = Inr (a1, p1)" "fold_r (drop_obsolete zk) es (a1, p1) = Inr (b, p')"
      by (auto elim!: bind_r_E)
    then show ?case using Cons.IH drop_obsolete_none_done none_done_trans by blast
  qed simp
  have ld: "fold_r (load_mutation io hash_order) ms p = Inr p' \<Longrightarrow> none_done p p'" for ms p p'
    by (induction ms arbitrary: p) (auto elim!: bind_r_E intro: none_done_trans load_mutation_none_done)
  from assms show ?thesis unfolding updateMutations_def Let_def by (auto elim!: bind_r_E intro: none_done_trans drop ld)
qed

lemma removeMutation_none_done: "removeMutation z q = Inr (m, active, q') \<Longrightarrow> none_done q q'"
proof (cases "map_of (mutations_by_znode q) z")
  case (Some st)
  assume rm: "removeMutation z q = Inr (m, active, q')"
  have "mutations_by_znode q' = map_erase z (mutations_by_znode q)"
    using rm unfolding removeMutation_eq [OF Some] by (elim bind_r_E) (auto dest!: decrement_Inr split: if_splits)
  then show ?thesis by (rule none_done_erase)
qed (simp add: removeMutation_def)

lemma open_mutations_later:
  assumes "open_mutations ms q" "\<forall>m \<in> set ms. m = nodes (mutation_znode m)" "map_ok (mutations_by_znode q)"
    "none_done q q'" "counters_exact nodes q'"
  shows "open_mutations ms q'"
  unfolding open_mutations_def
proof (intro conjI ballI allI impI)
  fix m st assume m: "m \<in> set ms" and st: "map_of (mutations_by_znode q') (mutation_znode m) = Some st"
  then show "\<not> is_done st" using assms(1,3,4) unfolding open_mutations_def none_done_def by blast
  show "status_entry st = m" using map_of_in [OF st] assms(2,5) m by (auto simp: counters_exact_def node_ok_def)
qed (use assms(1) in \<open>simp add: open_mutations_def\<close>)

lemma candidates_open:
  assumes ok: "counters_exact nodes q" and zs: "open_nodes zs q"
  shows "open_mutations (candidates q zs) q \<and> (\<forall>m \<in> set (candidates q zs). m = nodes (mutation_znode m))"
proof -
  let ?f = "\<lambda>z. case map_of (mutations_by_znode q) z of None \<Rightarrow> [] | Some status \<Rightarrow> [status_entry status]"
  have f: "\<exists>st. map_of (mutations_by_znode q) z = Some st \<and> \<not> is_done st \<and> ?f z = [status_entry st]
      \<and> mutation_znode (status_entry st) = z \<and> status_entry st = nodes z" if z: "z \<in> set zs" for z
  proof -
    obtain st where st: "map_of (mutations_by_znode q) z = Some st" "\<not> is_done st" using zs z by (auto simp: open_nodes_def)
    then show ?thesis using ok map_of_in [OF st(1)] by (auto simp: counters_exact_def node_ok_def)
  qed
  then have "map mutation_znode (concat (map ?f zs)) = zs"
  proof (induction zs)
    case (Cons z zs)
    then show ?case by fastforce
  qed simp
  moreover have "\<exists>st. map_of (mutations_by_znode q) (mutation_znode m) = Some st \<and> \<not> is_done st \<and> status_entry st = m
      \<and> m = nodes (mutation_znode m)" if "m \<in> set (concat (map ?f zs))" for m
  proof -
    obtain z where "z \<in> set zs" "m \<in> set (?f z)" using \<open>m \<in> set (concat (map ?f zs))\<close> by auto
    then show ?thesis using f by fastforce
  qed
  ultimately show ?thesis using zs by (fastforce simp: open_mutations_def open_nodes_def candidates_def)
qed

lemma finished_candidates_open:
  "finished_candidates pred q ms caches = Inr (fin, caches') \<Longrightarrow> open_mutations ms p \<Longrightarrow> open_mutations fin p \<and> set fin \<subseteq> set ms"
proof (induction ms arbitrary: caches fin caches')
  case (Cons m ms)
  obtain ok fin1 c c1 where f: "finished_candidates pred q ms c = Inr (fin1, c1)" "fin = (if ok then m # fin1 else fin1)"
    using Cons.prems(1) by (auto elim!: bind_r_E)
  have "open_mutations ms p" using Cons.prems(2) by (simp add: open_mutations_def)
  from Cons.IH [OF f(1) this] show ?case using Cons.prems(2) f(2) by (auto simp: open_mutations_def image_iff subset_iff)
qed simp

lemma tryFinalizeMutations_exact:
  assumes ok: "counters_exact nodes q" and fin: "tryFinalizeMutations get_predicate caches q = Inr (r, caches', q')"
    and pull: "\<And>hint p pred p'. counters_exact nodes p \<Longrightarrow> get_predicate hint p = Inr (pred, p')
      \<Longrightarrow> counters_exact nodes p' \<and> none_done p p'"
  shows "counters_exact nodes q'"
proof -
  have map: "map_ok (mutations_by_znode q)" using ok by (simp add: counters_exact_def)
  obtain zs q1 where q1: "fold_r mark_passed (mutations_by_znode q) ([], q) = Inr (zs, q1)"
    using fin unfolding tryFinalizeMutations_def by (auto elim!: bind_r_E)
  have marked: "counters_exact nodes q1" "open_nodes zs q1"
    using mark_all [OF ok map_entries [OF map] map_ok_distinct [OF map] _ _ q1] by (simp_all add: open_nodes_def)
  note ms = candidates_open [OF marked]
  show ?thesis
  proof (cases "candidates q1 zs = []")
    case True
    then show ?thesis using fin q1 marked(1) unfolding tryFinalizeMutations_eq by simp
  next
    case False
    then obtain hint pred q2 finished c where q2: "get_predicate hint q1 = Inr (pred, q2)"
        "finished_candidates pred q2 (candidates q1 zs) caches = Inr (finished, c)" and rest:
        "(if finished = [] then Inr (False, c, q2)
          else bind_r (fold_r finish_mutation finished (q2\<lparr>mutation_pointer := mutation_znode (last finished)\<rparr>)) (\<lambda>q.
                 Inr (True, c, q))) = Inr (r, caches', q')"
      using fin q1 unfolding tryFinalizeMutations_eq by (auto elim!: bind_r_E simp del: split_paired_All)
    have ok2: "counters_exact nodes q2" and "none_done q1 q2" using pull [OF marked(1)] q2(1) by blast+
    moreover have "map_ok (mutations_by_znode q1)" using marked(1) by (simp add: counters_exact_def)
    ultimately have "open_mutations (candidates q1 zs) q2" using open_mutations_later ms by blast
    then have fins: "open_mutations finished q2" using finished_candidates_open [OF q2(2)] by blast
    show ?thesis
    proof (cases "finished = []")
      case False
      then have "fold_r finish_mutation finished (q2\<lparr>mutation_pointer := mutation_znode (last finished)\<rparr>) = Inr q'"
        using rest by (auto elim!: bind_r_E)
      then show ?thesis by (rule finish_all [rotated 2]) (use ok2 fins in \<open>simp_all add: counters_exact_def open_mutations_def\<close>)
    qed (use rest ok2 in simp)
  qed
qed

section \<open>The work of the queue\<close>

lemma set_entry_cores [simp]: "same_cores q (set_entry p e q') \<longleftrightarrow> same_cores q q'"
  by (simp add: set_entry_def)

lemma frame_cores: "frame q q' \<Longrightarrow> same_cores q q'"
  by (simp add: frame_def)

lemma insert_cores:
  assumes "insertUnlocked io p (c, q) = Inr (c', q')" "entries q p = Some qe"
  shows "same_cores q q'"
proof -
  obtain q1 q2 c3 q3 where s: "frame q q1" "enqueue io p (log_data qe) q1 = Inr q2"
      "note_insert p (log_data qe) (c, q2) = (c3, q3)" "q' = note_alter (log_data qe) q3"
    using insertUnlocked_frame [OF assms] by blast
  have "same_cores q1 q2" using s(2) by (auto simp: enqueue_def elim!: bind_r_E split: if_splits)
  moreover have "same_cores q2 q3" using s(3) by (auto simp: note_insert_def Let_def split: if_splits)
  moreover have "same_cores q3 q'" by (simp add: s(4) note_alter_def)
  ultimately show ?thesis using frame_cores [OF s(1)] by (blast intro: same_cores_trans)
qed

lemma updateState_cores:
  assumes "updateStateOnQueueEntryRemoval io p ok (c, d, q) = Inr (c', d', q')" "entries q p = Some qe"
  shows "same_cores q q'"
proof -
  obtain q0 where q0: "remove_insert_time p (log_data qe) (c, d, q) = (c', d', q0)" "frame q0 q'"
    using updateState_frame [OF assms] by blast
  have "same_cores q q0" using q0(1)
    by (cases "map_erase (create_time (log_data qe), p) (inserts_by_time q)")
      (auto simp: remove_insert_time_def Let_def split: if_splits)
  then show ?thesis using frame_cores [OF q0(2)] by (rule same_cores_trans)
qed

lemma processed_cores:
  assumes "removeProcessedEntry io p q = Inr (mn, mx, q')"
  shows "same_cores q q'"
proof -
  obtain qe where qe: "entries q p = Some qe" using assms by (auto simp: removeProcessedEntry_def deref_def split: option.splits)
  show ?thesis
  proof (cases "removed_by_other_entry qe")
    case True
    then show ?thesis using assms qe by (simp add: removeProcessedEntry_def deref_def)
  next
    case False
    then obtain a b q1 where "updateStateOnQueueEntryRemoval io p True (None, None, q) = Inr (a, b, q1)"
        "q' = q1\<lparr>queue := erase_last p (queue q1)\<rparr>"
      using assms qe by (auto simp: removeProcessedEntry_def deref_def elim!: bind_r_E split: if_splits)
    then show ?thesis using updateState_cores [OF _ qe] by simp
  qed
qed

lemma remove_in_range_cores:
  "remove_in_range io i covering ps w (mn, mx, q) = Inr (w', mn', mx', q') \<Longrightarrow> same_cores q q'"
proof (induction ps arbitrary: w mn mx q)
  case (Cons p ps)
  obtain qe remove where qe: "entries q p = Some qe"
      "removed_by_range io (queue_format q) i covering p (log_data qe) = Inr remove"
    using Cons.prems by (auto simp: deref_def elim!: bind_r_E split: option.splits)
  show ?case
  proof (cases remove)
    case False
    then show ?thesis using Cons.prems qe Cons.IH by (simp add: deref_def)
  next
    case True
    then obtain a b q1 where u: "updateStateOnQueueEntryRemoval io p False (mn, mx, q) = Inr (a, b, q1)"
        "remove_in_range io i covering ps (if currently_executing qe then w @ [p] else w)
           (a, b, set_entry p (qe\<lparr>removed_by_other_entry := True\<rparr>) (q1\<lparr>queue := remove1 p (queue q1)\<rparr>))
         = Inr (w', mn', mx', q')"
      using Cons.prems qe by (auto simp: deref_def elim!: bind_r_E)
    have "same_cores q1 (set_entry p (qe\<lparr>removed_by_other_entry := True\<rparr>) (q1\<lparr>queue := remove1 p (queue q1)\<rparr>))" by simp
    then show ?thesis using updateState_cores [OF u(1) qe(1)] Cons.IH [OF u(2)] by (blast intro: same_cores_trans)
  qed
qed simp

lemma selected_cores:
  assumes "selectEntryToProcess io env blocks q = Inr (r, q')"
  shows "same_cores q q'"
proof -
  obtain c q1 where loop: "select_loop io env blocks (queue q) q = Inr (c, q1)"
    and rest: "(case c of None \<Rightarrow> Inr (None, q1)
      | Some p \<Rightarrow> bind_r (start_executing io (now_s env) p (q1\<lparr>queue := remove1 p (queue q1) @ [p]\<rparr>)) (\<lambda>q. Inr (Some p, q)))
      = Inr (r, q')"
    using assms by (auto simp: selectEntryToProcess_def elim!: bind_r_E)
  have q1: "same_cores q q1" using select_loop_Inr [OF loop] by auto
  show ?thesis
  proof (cases c)
    case None
    then show ?thesis using rest q1 by simp
  next
    case (Some p)
    let ?q = "q1\<lparr>queue := remove1 p (queue q1) @ [p]\<rparr>"
    have "start_executing io (now_s env) p ?q = Inr q'" using rest Some by (auto elim!: bind_r_E)
    then have "same_cores ?q q'" using start_times_frame by blast
    moreover have "same_cores q ?q" using q1 by simp
    ultimately show ?thesis by (blast intro: same_cores_trans)
  qed
qed

lemma step_cores: "queue_step io q q' \<Longrightarrow> same_cores q q'"
proof (induction rule: queue_step.induct)
  case (insert q p e c c' q')
  have "entries (set_entry p (fresh_entry e) q) p = Some (fresh_entry e)" by (simp add: set_entry_def)
  from insert_cores [OF insert.hyps(3) this] have "same_cores (set_entry p (fresh_entry e) q) q'" .
  moreover have "same_cores q (set_entry p (fresh_entry e) q)" by simp
  ultimately show ?case by (blast intro: same_cores_trans)
next
  case (actual q p qe name w q')
  then obtain to_wait where act: "setActualPartName io p name to_wait q = Inr (w, q')"
    by (auto simp: addFuturePartIfNotCoveredByThem_def elim!: bind_r_E split: if_splits option.splits)
  have "entries q p = Some qe" using actual.hyps(1) by (simp add: executing_def)
  then show ?case using setActualPartName_E [OF act] by auto
next
  case (finish q p qe q')
  obtain q1 qe' f where q1: "with_drop_range info_erase io (log_data qe) q = Inr q1"
      "q' = set_entry p qe' (q1\<lparr>future_parts := f\<rparr>)"
    using finish_executing_fields [OF finish.hyps] by blast
  then show ?case using with_drop_range_Inr [OF q1(1)] by auto
next
  case (drop_range i covering q w mn mx q')
  then show ?case unfolding removePartProducingOpsInRange_def by (blast intro: remove_in_range_cores)
next
  case (reorder name q ns q')
  then show ?case using moveSibling_queue by blast
next
  case (failed q p qe t)
  then show ?case by simp
next
  case (quorum i q removed q')
  then show ?case by (auto simp: removeFailedQuorumPart_def split: prod.splits)
next
  case (intend q i)
  then show ?case by (simp add: addDropReplaceIntent_def same_cores_def cores_def)
next
  case (withdraw i q q')
  then show ?case by (auto simp: removeDropReplaceIntent_def same_cores_def cores_def elim!: bind_r_E)
next
  case (forget q q')
  then show ?case using forget_frame frame_cores by blast
qed (blast intro: selected_cores processed_cores)+

section \<open>All steps\<close>

lemma mutation_step_exact:
  "mutation_step io nodes q q' \<Longrightarrow> counters_exact nodes q \<Longrightarrow> counters_exact nodes q' \<and> none_done q q'"
proof (induction rule: mutation_step.induct)
  case (queue_work q q')
  then show ?case by (blast intro: counters_exact_cores none_done_cores step_cores)
next
  case (update found hash_order entries_in_zk q killed q')
  then show ?case by (blast intro: updateMutations_exact updateMutations_none_done)
next
  case (remove z q m active q')
  then show ?case by (blast intro: removeMutation_exact removeMutation_none_done)
qed

lemma mutation_steps_exact:
  "(mutation_step io nodes)\<^sup>*\<^sup>* q q' \<Longrightarrow> counters_exact nodes q \<Longrightarrow> counters_exact nodes q' \<and> none_done q q'"
  by (induction rule: rtranclp_induct) (auto intro: none_done_trans dest: mutation_step_exact)

lemma initialize_exact:
  assumes "initialize io parts q = Inr q'"
  shows "counters_exact nodes q'"
proof -
  have part: "initialize_part io name p = Inr p' \<Longrightarrow> same_cores p p'" for name and p p' :: "'a queue_state"
    by (auto simp: initialize_part_def elim!: bind_r_E)
  have "same_cores p p'" if "fold_r (initialize_part io) parts p = Inr p'" for p p' :: "'a queue_state"
    using that by (induction parts arbitrary: p) (auto elim!: bind_r_E intro: same_cores_trans part)
  then have "same_cores (queue_clear q) q'" using assms by (simp add: initialize_def)
  moreover have "counters_exact nodes (queue_clear q)" by (simp add: counters_exact_def queue_clear_def tally_def)
  ultimately show ?thesis by (blast intro: counters_exact_cores)
qed

lemma load_exact:
  assumes "load io found ptr q = Inr (c, q')"
    "distinct (map fst found)" "list_all (\<lambda>pe. entries q (fst pe) = None \<and> timed_entry (snd pe)) found"
    "counters_exact nodes q"
  shows "counters_exact nodes q'"
proof -
  let ?new = "filter (\<lambda>pe. Some (znode_name (snd pe))
     \<notin> set (map (\<lambda>p. map_option (znode_name \<circ> log_data) (entries q p)) (queue q))) found"
  obtain q1 where q1: "fold_r (load_entry io) ?new (None, q) = Inr (c, q1)"
      "q' = (case ptr of None \<Rightarrow> q1 | Some z \<Rightarrow> q1\<lparr>mutation_pointer := z\<rparr>)"
    using assms(1) unfolding load_def Let_def by (auto elim!: bind_r_E)
  have "(queue_step io)\<^sup>*\<^sup>* q q1"
    by (rule load_steps [OF q1(1)]) (use assms(2,3) in \<open>simp_all add: list_all_iff distinct_map_filter\<close>)
  then have "counters_exact nodes q1"
    by (induction rule: rtranclp_induct) (use assms(4) in \<open>blast intro: counters_exact_cores step_cores\<close>)+
  then show ?thesis using q1(2) by (simp add: counters_exact_def split: option.splits)
qed

lemma step_exact: "replica_step io nodes q q' \<Longrightarrow> counters_exact nodes q \<Longrightarrow> counters_exact nodes q'"
proof (induction rule: replica_step.induct)
  case (work q q')
  then show ?case using mutation_step_exact by blast
next
  case (finalize get_predicate caches q r caches' q')
  then show ?case using mutation_steps_exact by (intro tryFinalizeMutations_exact [OF finalize.prems finalize.hyps(2)]) blast
next
  case (initialize parts q q')
  then show ?case by (blast intro: initialize_exact)
next
  case (load found q ptr c q')
  then show ?case using load_exact by blast
qed

lemma reachable_exact: "queue_reachable io nodes fv q \<Longrightarrow> counters_exact nodes q"
proof (induction rule: queue_reachable.induct)
  case start
  show ?case by (simp add: counters_exact_def empty_queue_def tally_def)
qed (rule step_exact)

text \<open>
  C13: in every reachable state each of the three counters is the number of mutations that are not done and
  have a command of its kind; so the removal of a mutation, which lowers them, always goes through: the
  exception for a negative counter, which the code calls a logical error, is not raised. Reachable are the
  states after any sequence of the queue's operations, restarts among them; while \<open>tryFinalizeMutations\<close>
  constructs its predicate, entries and mutations come and go. It is assumed that what ZooKeeper holds
  under the node of a mutation does not change.
\<close>

theorem counters_count_unfinished:
  assumes "queue_reachable io nodes fv q"
  shows "num_data (counters q) = int (length (filter (\<lambda>e. \<not> is_done (snd e)
       \<and> (\<exists>c \<in> set (commands (status_entry (snd e))). isSupportedDataMutation (command_type c))) (mutations_by_znode q)))
    \<and> num_alter (counters q) = int (length (filter (\<lambda>e. \<not> is_done (snd e)
       \<and> (\<exists>c \<in> set (commands (status_entry (snd e))). isSupportedAlterMutation (command_type c))) (mutations_by_znode q)))
    \<and> num_metadata (counters q) = int (length (filter (\<lambda>e. \<not> is_done (snd e)
       \<and> (\<exists>c \<in> set (commands (status_entry (snd e))). isSupportedMetadataMutation (command_type c))) (mutations_by_znode q)))
    \<and> (\<forall>z. \<exists>r. removeMutation z q = Inr r)
    \<and> (\<forall>hash_order zk. \<exists>r. updateMutations io hash_order zk [] q = Inr r)"
proof -
  have ok: "counters_exact nodes q" by (rule reachable_exact [OF assms])
  have "\<exists>r. updateMutations io hash_order zk [] q = Inr r" for hash_order zk
  proof -
    have map: "map_ok (mutations_by_znode q)" using ok by (simp add: counters_exact_def)
    obtain k p where "fold_r (drop_obsolete zk) (mutations_by_znode q) (False, q) = Inr (k, p)"
      using drop_all [OF ok map_entries [OF map] map_ok_distinct [OF map], of zk False] by auto
    then show ?thesis by (simp add: updateMutations_def)
  qed
  then show ?thesis using ok removeMutation_goes_through [OF ok]
    by (simp add: counters_exact_def tally_def unfinished_def has_command_def del: split_paired_Ex)
qed

text \<open>A mutation loaded into an empty queue.\<close>

definition one_mutation :: "nat queue_state" where
  "one_mutation = (case updateMutations dec_io (\<lambda>rs. rs) [''m1''] [demo_update ''m1'' 5] (empty_queue 1) of
                     Inr (_, q) \<Rightarrow> q | Inl _ \<Rightarrow> empty_queue 1)"

lemma one_mutation_loaded:
  "updateMutations dec_io (\<lambda>rs. rs) [''m1''] [demo_update ''m1'' 5] (empty_queue 1) = Inr (False, one_mutation)"
  "counters one_mutation = \<lparr>num_data = 1, num_alter = 0, num_metadata = 0\<rparr>"
  "map fst (mutations_by_znode one_mutation) = [''m1'']"
  by (simp_all add: one_mutation_def updateMutations_def load_mutation_def empty_queue_def Let_def
      demo_update_def MutationStatus_def incrementMutationsCounters_def updateMutationsCounters_def
      assertNotNegative_def isSupportedDataMutation_def isSupportedAlterMutation_def
      isSupportedMetadataMutation_def getQueueRepresentation_def getPartNamesToMutate_def mutate_in_partition_def
      getPartsCoveredBy_def getPartsCoveredByImpl_def split_at_def index_mutation_def isAlterMutationEntry_def
      set_size_def empty_set_def)

theorem counters_count_unfinished_witness:
  "num_data (counters one_mutation) = 1 \<and> length (mutations_by_znode one_mutation) = 1
   \<and> (\<exists>r. removeMutation ''m1'' one_mutation = Inr r)"
proof -
  have "mutation_step dec_io (\<lambda>_. demo_update ''m1'' 5) (empty_queue 1) one_mutation"
    by (rule mutation_step.update [OF _ _ one_mutation_loaded(1)]) simp_all
  then have "queue_reachable dec_io (\<lambda>_. demo_update ''m1'' 5) 1 one_mutation"
    by (rule queue_reachable.next_state [OF queue_reachable.start replica_step.work])
  from counters_count_unfinished [OF this] have "\<exists>r. removeMutation ''m1'' one_mutation = Inr r" by blast
  moreover have "length (mutations_by_znode one_mutation) = 1"
    using arg_cong [OF one_mutation_loaded(3), of length] by simp
  ultimately show ?thesis using one_mutation_loaded(2) by simp
qed

end
