(* ===== verification/Merge_Predicate.thy ===== *)
theory Merge_Predicate
  imports Queue_Mutations Merge_Selection
begin

text \<open>
  The merge predicates (\<open>Compaction/MergePredicates\<close>): which two neighbouring parts may be
  merged and which parts and patches take part, for a replicated table and for a plain one. A refusal is a
  constructor in place of its message.
\<close>

datatype merge_refusal =
    NotInSnapshot
  | BlocksNotLoaded
  | DifferentPartitions
  | PatchAndRegular
  | MergesAvoided
  | BlockBetween int
  | PartsBetween "string list"
  | MutationVersionsDiffer int int
  | ProjectionsDiffer
  | AlreadyAssigned string
  | EarlierPatchesPending int
  | PartPinned
  | QuorumInProgress
  | BeingMerged
  | OutdatedPartBetween nat

section \<open>Replicated tables\<close>

text \<open>
  The snapshot \<open>predicate_snapshot\<close> is what the predicate over ZooKeeper has loaded; the local
  predicate has none of it. Virtual parts and mutations are those of the queue.
\<close>

definition local_snapshot :: predicate_snapshot where
  "local_snapshot = \<lparr>partition_ids_hint = None, prev_virtual_parts = None, committing = None\<rparr>"

definition checkCanMergePartsPreconditions :: "predicate_snapshot \<Rightarrow> part_info \<Rightarrow> merge_refusal option" where
  "checkCanMergePartsPreconditions pred i =
     (if (case prev_virtual_parts pred of None \<Rightarrow> False | Some s \<Rightarrow> getContainingPart i s = []) then Some NotInSnapshot
      else if (case partition_ids_hint pred of None \<Rightarrow> False | Some hint \<Rightarrow> partition_id i \<notin> hint) then Some BlocksNotLoaded
      else None)"

definition check_committing :: "predicate_snapshot \<Rightarrow> part_info \<Rightarrow> part_info \<Rightarrow> merge_refusal option" where
  "check_committing pred left right =
     (case committing pred of
        None \<Rightarrow> None
      | Some blocks \<Rightarrow>
          if \<not> max_block left + 1 < min_block right then None
          else case blocks (partition_id left) of
                 None \<Rightarrow> None
               | Some numbers \<Rightarrow>
                   (case map_upper_bound (max_block left) numbers of
                      [] \<Rightarrow> None
                    | b # _ \<Rightarrow> if fst b < min_block right then Some (BlockBetween (fst b)) else None))"

definition gap_part_info :: "part_info \<Rightarrow> part_info \<Rightarrow> part_info" where
  "gap_part_info left right =
     PartInfo (partition_id left) (max_block left + 1) (min_block right - 1) MAX_LEVEL MAX_BLOCK_NUMBER"

definition check_gap :: "active_part_set \<Rightarrow> part_info \<Rightarrow> part_info \<Rightarrow> merge_refusal option" where
  "check_gap virt left right =
     (if \<not> max_block left + 1 < min_block right then None
      else let covered = getPartsCoveredBy (gap_part_info left right) virt
           in if covered \<noteq> [] then Some (PartsBetween covered) else None)"

definition check_versions :: "'c queue_state \<Rightarrow> part_info \<Rightarrow> part_info \<Rightarrow> merge_refusal option result" where
  "check_versions q left right =
     bind_r (getOriginalPartitionId left) (\<lambda>pid.
       let left_mutation_version = getCurrentMutationVersion q pid (getDataVersion left);
           right_mutation_version = getCurrentMutationVersion q pid (getDataVersion right)
       in Inr (if left_mutation_version \<noteq> right_mutation_version
               then Some (MutationVersionsDiffer left_mutation_version right_mutation_version) else None))"

definition canMergeParts ::
  "predicate_snapshot \<Rightarrow> 'c queue_state \<Rightarrow> part_properties \<Rightarrow> part_properties \<Rightarrow> merge_refusal option result" where
  "canMergeParts pred q left right =
     (if partition_id (info left) \<noteq> partition_id (info right) then Inr (Some DifferentPartitions)
      else if isPatch (info left) \<noteq> isPatch (info right) then Inr (Some PatchAndRegular)
      else if is_in_volume_where_merges_avoid left \<or> is_in_volume_where_merges_avoid right then Inr (Some MergesAvoided)
      else case check_committing pred (info left) (info right) of
             Some r \<Rightarrow> Inr (Some r)
           | None \<Rightarrow>
               (case check_gap (virtual_parts q) (info left) (info right) of
                  Some r \<Rightarrow> Inr (Some r)
                | None \<Rightarrow>
                    bind_r (check_versions q (info left) (info right)) (\<lambda>r.
                      Inr (if r \<noteq> None then r
                           else if set (projection_names left) \<noteq> set (projection_names right) then Some ProjectionsDiffer
                           else None))))"

definition canUsePartInMerges ::
  "predicate_snapshot \<Rightarrow> 'c queue_state \<Rightarrow> string \<Rightarrow> part_info \<Rightarrow> merge_refusal option result" where
  "canUsePartInMerges pred q name i =
     (case checkCanMergePartsPreconditions pred i of
        Some r \<Rightarrow> Inr (Some r)
      | None \<Rightarrow>
          let containing_part = getContainingPart i (virtual_parts q) in
          if containing_part \<noteq> name then Inr (Some (AlreadyAssigned containing_part))
          else if \<not> isPatch i then Inr None
          else case committing pred of
                 None \<Rightarrow> Inr None
               | Some blocks \<Rightarrow>
                   bind_r (getOriginalPartitionId i) (\<lambda>pid.
                     Inr (case blocks pid of
                            None \<Rightarrow> None
                          | Some [] \<Rightarrow> None
                          | Some (b # _) \<Rightarrow>
                              if getDataVersion i > fst b then Some (EarlierPatchesPending (getDataVersion i)) else None)))"

definition canUsePartInMerges_replicated ::
  "'u set option \<Rightarrow> string option \<Rightarrow> predicate_snapshot \<Rightarrow> 'c queue_state \<Rightarrow> 'u \<Rightarrow> string \<Rightarrow> part_info
     \<Rightarrow> merge_refusal option result" where
  "canUsePartInMerges_replicated pinned_part_uuids inprogress_quorum_part pred q uuid name i =
     (if (case pinned_part_uuids of None \<Rightarrow> False | Some uuids \<Rightarrow> uuid \<in> uuids) then Inr (Some PartPinned)
      else if inprogress_quorum_part = Some name then Inr (Some QuorumInProgress)
      else canUsePartInMerges pred q name i)"

fun participates :: "text_io \<Rightarrow> 'c queue_state \<Rightarrow> part_info \<Rightarrow> entry_ptr list \<Rightarrow> bool result" where
  "participates io q i [] = Inr False"
| "participates io q i (p # ps) =
     bind_r (deref q p) (\<lambda>qe.
       if entry_type (log_data qe) \<noteq> REPLACE_RANGE then participates io q i ps
       else case replace_range_entry (log_data qe) of
              None \<Rightarrow> Inl UB
            | Some r \<Rightarrow>
                bind_r (any_not_disjoint io (queue_format q) i (new_part_names r)) (\<lambda>hit.
                  if hit then Inr True else participates io q i ps))"

definition partParticipatesInReplaceRange :: "text_io \<Rightarrow> 'c queue_state \<Rightarrow> part_info \<Rightarrow> bool result" where
  "partParticipatesInReplaceRange io q i = participates io q i (queue q)"

definition getCoveringVirtualPart :: "text_io \<Rightarrow> string \<Rightarrow> 'c queue_state \<Rightarrow> string result" where
  "getCoveringVirtualPart io name q =
     bind_r (fromPartName io name (queue_format q)) (\<lambda>i. Inr (getContainingPart i (virtual_parts q)))"

section \<open>Patches\<close>

definition INT64_MAX :: int where
  "INT64_MAX = 9223372036854775807"

text \<open>The patches by original partition: a list of parts for each partition that has some.\<close>

fun group_patches ::
  "(string \<Rightarrow> part_info \<Rightarrow> bool) \<Rightarrow> part_info list \<Rightarrow> (string \<Rightarrow> part_info list) \<Rightarrow> (string \<Rightarrow> part_info list) result" where
  "group_patches wanted [] res = Inr res"
| "group_patches wanted (i # is) res =
     bind_r (getOriginalPartitionId i) (\<lambda>pid.
       group_patches wanted is (if wanted pid i then res(pid := res pid @ [i]) else res))"

definition getPatchPartsByPartition_committing ::
  "part_info list \<Rightarrow> committing_blocks \<Rightarrow> (string \<Rightarrow> part_info list) result" where
  "getPatchPartsByPartition_committing patches blocks =
     group_patches (\<lambda>pid i. case blocks pid of
                              Some (b # _) \<Rightarrow> getDataVersion i < fst b | _ \<Rightarrow> True) patches (\<lambda>_. [])"

text \<open>The partition of a patch is asked for only when its version is below the bound.\<close>

definition getPatchPartsByPartition_below :: "part_info list \<Rightarrow> int \<Rightarrow> (string \<Rightarrow> part_info list) result" where
  "getPatchPartsByPartition_below patches max_data_version =
     group_patches (\<lambda>_ _. True) (filter (\<lambda>i. getDataVersion i < max_data_version) patches) (\<lambda>_. [])"

fun getMinUpdateBlockNumber :: "(int \<times> committing_op) list \<Rightarrow> int option" where
  "getMinUpdateBlockNumber [] = None"
| "getMinUpdateBlockNumber ((number, op) # bs) =
     (if op = UpdateOp \<or> op = UnknownOp then Some number else getMinUpdateBlockNumber bs)"

definition patch_to_apply :: "int \<Rightarrow> int \<Rightarrow> part_info \<Rightarrow> bool" where
  "patch_to_apply next_version min_source_data_version patch \<longleftrightarrow>
     \<not> getDataVersion patch > next_version \<and> \<not> getDataVersion patch \<le> min_source_data_version"

text \<open>The patches with their names, as the properties of a part have them.\<close>

definition getPatchesToApply :: "text_io \<Rightarrow> part_info list \<Rightarrow> part_info list \<Rightarrow> int \<Rightarrow> (string \<times> part_info) list" where
  "getPatchesToApply io patches infos next_mutation_version =
     (if infos = [] then []
      else let next_version = (if next_mutation_version = 0 then INT64_MAX else next_mutation_version);
               min_source_data_version = foldl min INT64_MAX (map getDataVersion infos)
           in if min_source_data_version + 1 = next_version then []
              else map (\<lambda>i. (getPartNameV1 io i, i)) (filter (patch_to_apply next_version min_source_data_version) patches))"

definition getPatchesToApplyOnMerge ::
  "text_io \<Rightarrow> (string \<Rightarrow> part_info list) \<Rightarrow> (string \<Rightarrow> int \<Rightarrow> int) \<Rightarrow> parts_range \<Rightarrow> (string \<times> part_info) list" where
  "getPatchesToApplyOnMerge io patches_by_partition next_mutation_version parts =
     (case parts of
        [] \<Rightarrow> []
      | first_part # _ \<Rightarrow>
          let i = info first_part in
          if isPatch i then []
          else let patches = patches_by_partition (partition_id i) in
               if patches = [] then []
               else getPatchesToApply io patches (map info parts) (next_mutation_version (partition_id i) (getDataVersion i)))"

section \<open>Plain tables\<close>

text \<open>
  \<open>MergeTreeMergePredicate\<close> over the functions of the storage: the current version of the
  mutations, the greatest level of outdated parts between two parts, the parts that are being merged.
\<close>

definition canMergeParts_plain ::
  "(int \<Rightarrow> nat) \<Rightarrow> (part_info \<Rightarrow> part_info \<Rightarrow> nat) \<Rightarrow> part_properties \<Rightarrow> part_properties \<Rightarrow> merge_refusal option" where
  "canMergeParts_plain current_version max_level_between left right =
     (if partition_id (info left) \<noteq> partition_id (info right) then Some DifferentPartitions
      else if isPatch (info left) \<noteq> isPatch (info right) then Some PatchAndRegular
      else if is_in_volume_where_merges_avoid left \<or> is_in_volume_where_merges_avoid right then Some MergesAvoided
      else if set (projection_names left) \<noteq> set (projection_names right) then Some ProjectionsDiffer
      else let left_version = current_version (getDataVersion (info left));
               right_version = current_version (getDataVersion (info right))
           in if left_version \<noteq> right_version then Some (MutationVersionsDiffer (int left_version) (int right_version))
              else let max_possible_level = max_level_between (info left) (info right)
                   in if max_possible_level > max (level (info left)) (level (info right))
                      then Some (OutdatedPartBetween max_possible_level) else None)"

definition canUsePartInMerges_plain :: "(part_info \<Rightarrow> bool) \<Rightarrow> int option \<Rightarrow> part_info \<Rightarrow> merge_refusal option" where
  "canUsePartInMerges_plain being_merged min_update_block i =
     (if being_merged i then Some BeingMerged
      else case min_update_block of
             None \<Rightarrow> None
           | Some b \<Rightarrow> if getDataVersion i \<ge> b then Some (EarlierPatchesPending (getDataVersion i)) else None)"

end
