(* ===== verification/Merge_Predicate_Results.thy ===== *)
theory Merge_Predicate_Results
  imports Merge_Predicate Queue_Versions Queue_Todo
begin

text \<open>
  The merge predicate keeps its promise: between two parts that may be merged there is no other part, no
  block that is still being inserted, and no mutation.
\<close>

lemma usable_in_virtual:
  assumes "set_ok io fv (virtual_parts q)" "fromPartName io name fv = Inr i" "canUsePartInMerges pred q name i = Inr None"
    "name \<noteq> []"
  shows "\<exists>j. info_eq i j \<and> (j, name) \<in> set (part_info_to_name (virtual_parts q))"
proof -
  have "getContainingPart i (virtual_parts q) = name"
    using assms(3) by (auto simp: canUsePartInMerges_def Let_def split: option.splits if_splits)
  then obtain e where e: "getContainingPartImpl i (part_info_to_name (virtual_parts q)) = Some e" "snd e = name"
    using assms(4) by (auto simp: getContainingPart_def split: option.splits)
  have "e \<in> set (part_info_to_name (virtual_parts q))" using getContainingPartImpl_Some [OF e(1)] by simp
  moreover have "info_eq i (fst e)" using assms(1,2) calculation e(2) by (auto simp: set_ok_def named_by_infos_def)
  ultimately show ?thesis using e(2) by (cases e) auto
qed

lemma aps_disjoint:
  assumes "aps_inv ps" "e \<in> set ps" "d \<in> set ps" "e \<noteq> d"
  shows "isDisjoint (fst e) (fst d)"
proof -
  have "sorted_wrt (\<lambda>a b. isDisjoint (fst a) (fst b)) ps"
    using assms(1) by (auto simp: aps_inv_def intro: sorted_wrt_mono_rel [rotated])
  then show ?thesis using sorted_wrt_pair [OF _ assms(2-4)] isDisjoint_sym by blast
qed

lemma gap_empty:
  assumes inv: "aps_inv ps" and l: "(left, ln) \<in> set ps" and r: "(right, rn) \<in> set ps"
    and order: "max_block left < min_block right" "partition_id left = partition_id right"
    and small: "\<forall>e \<in> set ps. level (fst e) \<le> MAX_LEVEL \<and> mutation (fst e) \<le> MAX_BLOCK_NUMBER"
    and gap: "check_gap s left right = None" "part_info_to_name s = ps"
    and e: "e \<in> set ps" "partition_id (fst e) = partition_id left"
  shows "max_block (fst e) \<le> max_block left \<or> min_block right \<le> min_block (fst e)"
proof (rule ccontr)
  assume c: "\<not> ?thesis"
  let ?g = "gap_part_info left right"
  have wf: "wf_info (fst e)" "wf_info left" "wf_info right" using aps_inv_wf [OF inv] e(1) l r by fastforce+
  have ne: "e \<noteq> (left, ln)" "e \<noteq> (right, rn)" using c wf order by auto
  have between: "max_block left < min_block (fst e)" "max_block (fst e) < min_block right"
    using aps_disjoint [OF inv e(1) l ne(1)] aps_disjoint [OF inv e(1) r ne(2)] c e(2) order(2)
      wf [THEN wf_blocks] by (auto simp: isDisjoint_def)
  have le: "min_block (fst e) \<le> max_block (fst e)" using wf(1) by (rule wf_blocks)
  then have room: "max_block left + 1 < min_block right" using between by linarith
  have gwf: "wf_info ?g" using room by (simp add: gap_part_info_def PartInfo_def wf_info_def)
  have inside: "contains ?g (fst d)" if "d \<in> set ps" "\<not> isDisjoint ?g (fst d)" for d
  proof -
    have d: "partition_id (fst d) = partition_id left" "max_block left < max_block (fst d)" "min_block (fst d) < min_block right"
      using that(2) by (auto simp: gap_part_info_def PartInfo_def isDisjoint_def)
    have dwf: "wf_info (fst d)" using aps_inv_wf [OF inv that(1)] .
    have "d \<noteq> (left, ln)" "d \<noteq> (right, rn)" using d order wf wf_blocks by fastforce+
    then have "max_block left < min_block (fst d)" "max_block (fst d) < min_block right"
      using aps_disjoint [OF inv that(1) l] aps_disjoint [OF inv that(1) r] d order(2) wf_blocks [OF dwf] wf [THEN wf_blocks]
      by (auto simp: isDisjoint_def)
    then show ?thesis using small that(1) d(1) by (simp add: contains_def gap_part_info_def PartInfo_def Let_def)
  qed
  have "getPartsCoveredByImpl ?g ps = filter (covered_by ?g) ps"
    by (rule getPartsCoveredByImpl_filter [OF inv gwf]) (use inside in blast)
  moreover have "\<not> isDisjoint ?g (fst e)"
    using between le e(2) by (simp add: gap_part_info_def PartInfo_def isDisjoint_def)
  then have "contains ?g (fst e)" by (rule inside [OF e(1)])
  ultimately have "getPartsCoveredBy ?g s \<noteq> []"
    using e(1) gap(2) by (auto simp: getPartsCoveredBy_def filter_empty_conv)
  then show False using gap(1) room by (simp add: check_gap_def Let_def)
qed

lemma no_committing_between:
  assumes "check_committing pred left right = None" "committing pred = Some blocks" "blocks (partition_id left) = Some bs"
    "map_ok bs" "b \<in> set bs"
  shows "fst b \<le> max_block left \<or> min_block right \<le> fst b"
proof (cases "max_block left + 1 < min_block right \<and> max_block left < fst b")
  case True
  then have "b \<in> set (map_upper_bound (max_block left) bs)" using assms(4,5) by (simp add: map_upper_bound_filter)
  moreover have "map_ok (map_upper_bound (max_block left) bs)"
    using assms(4) by (simp add: map_upper_bound_filter map_ok_filter)
  ultimately obtain f fs where f: "map_upper_bound (max_block left) bs = f # fs" "fst f \<le> fst b"
    by (cases "map_upper_bound (max_block left) bs") (auto intro: less_imp_le)
  then show ?thesis using assms(1-3) True by (auto simp: check_committing_def split: if_splits)
qed auto

lemma canMergeParts_None:
  assumes "canMergeParts pred q left right = Inr None"
  shows "partition_id (info left) = partition_id (info right) \<and> check_committing pred (info left) (info right) = None
    \<and> check_gap (virtual_parts q) (info left) (info right) = None \<and> check_versions q (info left) (info right) = Inr None"
  using assms by (auto simp: canMergeParts_def split: if_splits option.splits elim!: bind_r_E)

lemma same_versions:
  assumes "check_versions q left right = Inr None" "getOriginalPartitionId left = Inr pid" "index_ok q"
    "0 \<le> getDataVersion left" "0 \<le> getDataVersion right" "e \<in> set (versions_of q pid)"
  shows "getDataVersion left < fst e \<longleftrightarrow> getDataVersion right < fst e"
proof -
  have "getCurrentMutationVersion q pid (getDataVersion left) = getCurrentMutationVersion q pid (getDataVersion right)"
    using assms(1,2) by (auto simp: check_versions_def Let_def split: if_splits)
  then show ?thesis
    using above_current [OF index_ok_versions [OF assms(3)] assms(6,4)]
      above_current [OF index_ok_versions [OF assms(3)] assms(6,5)] by simp
qed

text \<open>
  C10: when the predicate accepts two parts of the virtual parts, one left of the other, then no virtual part
  of the partition lies between them, no block between them is still being inserted, and each mutation of
  the partition is applied to both or to none of them.
\<close>

theorem merge_leaves_nothing_between:
  assumes "canMergeParts pred q left right = Inr None"
    "canUsePartInMerges pred q (part_name left) (info left) = Inr None"
    "canUsePartInMerges pred q (part_name right) (info right) = Inr None"
    "fromPartName io (part_name left) fv = Inr (info left)" "fromPartName io (part_name right) fv = Inr (info right)"
    "set_ok io fv (virtual_parts q)" "index_ok q" "max_block (info left) < min_block (info right)"
    "0 \<le> getDataVersion (info left)" "0 \<le> getDataVersion (info right)" "part_name left \<noteq> []" "part_name right \<noteq> []"
    "\<forall>e \<in> set (part_info_to_name (virtual_parts q)). level (fst e) \<le> MAX_LEVEL \<and> mutation (fst e) \<le> MAX_BLOCK_NUMBER"
  shows "(\<forall>e \<in> set (part_info_to_name (virtual_parts q)). partition_id (fst e) = partition_id (info left)
       \<longrightarrow> max_block (fst e) \<le> max_block (info left) \<or> min_block (info right) \<le> min_block (fst e))
    \<and> (\<forall>blocks bs b. committing pred = Some blocks \<and> blocks (partition_id (info left)) = Some bs \<and> map_ok bs \<and> b \<in> set bs
       \<longrightarrow> fst b \<le> max_block (info left) \<or> min_block (info right) \<le> fst b)
    \<and> (\<forall>pid e. getOriginalPartitionId (info left) = Inr pid \<and> e \<in> set (versions_of q pid)
       \<longrightarrow> (getDataVersion (info left) < fst e \<longleftrightarrow> getDataVersion (info right) < fst e))"
proof -
  note ok = canMergeParts_None [OF assms(1)]
  have virt: "aps_inv (part_info_to_name (virtual_parts q))" using assms(6) by (simp add: set_ok_def)
  have parts: "max_block (fst e) \<le> max_block (info left) \<or> min_block (info right) \<le> min_block (fst e)"
    if e: "e \<in> set (part_info_to_name (virtual_parts q))" "partition_id (fst e) = partition_id (info left)" for e
  proof -
    obtain l where l: "info_eq (info left) l" "(l, part_name left) \<in> set (part_info_to_name (virtual_parts q))"
      using usable_in_virtual [OF assms(6,4,2,11)] by blast
    obtain r where r: "info_eq (info right) r" "(r, part_name right) \<in> set (part_info_to_name (virtual_parts q))"
      using usable_in_virtual [OF assms(6,5,3,12)] by blast
    have same: "partition_id l = partition_id (info left)" "max_block l = max_block (info left)"
        "partition_id r = partition_id (info right)" "min_block r = min_block (info right)"
      using l(1) r(1) by (auto simp: info_eq_def toTuple_def)
    have "check_gap (virtual_parts q) l r = check_gap (virtual_parts q) (info left) (info right)"
      unfolding check_gap_def gap_part_info_def same by (rule refl)
    then have "check_gap (virtual_parts q) l r = None" using ok by simp
    then show ?thesis
      using gap_empty [OF virt l(2) r(2), of "virtual_parts q" e] e assms(8,13) ok same by simp
  qed
  have versions: "getDataVersion (info left) < fst e \<longleftrightarrow> getDataVersion (info right) < fst e"
    if "getOriginalPartitionId (info left) = Inr pid" "e \<in> set (versions_of q pid)" for pid e
    using same_versions [OF _ that(1) assms(7,9,10) that(2)] ok by simp
  show ?thesis using parts versions no_committing_between ok by blast
qed

section \<open>Patches of a merge\<close>

lemma next_version_least:
  assumes ok: "map_ok (versions_of q pid)" and v: "e \<in> set (versions_of q pid)" "dv < fst e"
  shows "getNextMutationVersion q pid dv \<le> fst e \<and> dv < getNextMutationVersion q pid dv
    \<and> getNextMutationVersion q pid dv \<in> fst ` set (versions_of q pid)"
proof -
  let ?up = "map_upper_bound dv (versions_of q pid)"
  have some: "mutations_by_partition q pid = Some (versions_of q pid)"
    using v(1) by (cases "mutations_by_partition q pid") (simp_all add: versions_of_def)
  have up: "?up = filter (\<lambda>e. dv < fst e) (versions_of q pid)" using ok by (simp add: map_upper_bound_filter)
  have "map_ok ?up" using ok by (simp add: up map_ok_filter)
  moreover have "e \<in> set ?up" using v by (simp add: up)
  ultimately obtain f fs where f: "?up = f # fs" "fst f \<le> fst e"
    by (cases ?up) (auto intro: less_imp_le)
  then have "f \<in> set ?up" by simp
  then have "dv < fst f" "f \<in> set (versions_of q pid)" by (simp_all add: up)
  then show ?thesis using f some by (simp add: getNextMutationVersion_def)
qed

lemma neighbours_same_side:
  assumes "\<forall>k < length parts - 1. canMergeParts pred q (parts ! k) (parts ! Suc k) = Inr None" "index_ok q"
    "\<forall>x \<in> set parts. 0 \<le> getDataVersion (info x) \<and> \<not> isPatch (info x)" "k < length parts"
  shows "partition_id (info (parts ! k)) = partition_id (info (parts ! 0))
    \<and> (\<forall>e \<in> set (versions_of q (partition_id (info (parts ! 0)))).
         getDataVersion (info (parts ! 0)) < fst e \<longleftrightarrow> getDataVersion (info (parts ! k)) < fst e)"
  using assms(4)
proof (induction k)
  case (Suc k)
  let ?l = "info (parts ! k)" and ?r = "info (parts ! Suc k)" and ?pid = "partition_id (info (parts ! 0))"
  have "canMergeParts pred q (parts ! k) (parts ! Suc k) = Inr None" using assms(1) Suc.prems by simp
  note ok = canMergeParts_None [OF this]
  have l: "0 \<le> getDataVersion ?l" "\<not> isPatch ?l" and r: "0 \<le> getDataVersion ?r"
    using assms(3) Suc.prems by simp_all
  have IH: "partition_id ?l = ?pid" "\<forall>e \<in> set (versions_of q ?pid). getDataVersion (info (parts ! 0)) < fst e \<longleftrightarrow> getDataVersion ?l < fst e"
    using Suc by simp_all
  have "getOriginalPartitionId ?l = Inr ?pid" using l(2) IH(1) by (simp add: getOriginalPartitionId_def)
  then have "\<forall>e \<in> set (versions_of q ?pid). getDataVersion ?l < fst e \<longleftrightarrow> getDataVersion ?r < fst e"
    using same_versions [OF _ _ assms(2) l(1) r] ok by blast
  then show ?case using IH ok by simp
qed simp

lemma next_version_none:
  assumes "map_ok (versions_of q pid)" "\<forall>e \<in> set (versions_of q pid). \<not> dv < fst e"
  shows "getNextMutationVersion q pid dv = 0"
proof -
  have "map_upper_bound dv (versions_of q pid) = []" using assms by (simp add: map_upper_bound_filter filter_empty_conv)
  then show ?thesis by (cases "mutations_by_partition q pid") (simp_all add: getNextMutationVersion_def versions_of_def)
qed

lemma foldl_min_less: "foldl min a xs < (y :: int) \<longleftrightarrow> a < y \<or> (\<exists>x \<in> set xs. x < y)"
  by (induction xs arbitrary: a) auto

text \<open>The bound that a merge takes for its patches separates the patches below all mutations above the parts.\<close>

lemma next_bound:
  assumes "map_ok vs" "vs = versions_of q pid" "0 \<le> dv" "v < INT64_MAX" "v \<notin> fst ` set vs"
    "n = (if getNextMutationVersion q pid dv = 0 then INT64_MAX else getNextMutationVersion q pid dv)"
  shows "v \<le> n \<longleftrightarrow> (\<forall>e \<in> set vs. dv < fst e \<longrightarrow> v < fst e)" "v \<noteq> n"
proof -
  have "(v \<le> n \<longleftrightarrow> (\<forall>e \<in> set vs. dv < fst e \<longrightarrow> v < fst e)) \<and> v \<noteq> n"
  proof (cases "\<exists>e \<in> set vs. dv < fst e")
    case True
    then obtain e where e: "e \<in> set vs" "dv < fst e" by blast
    note least = next_version_least [of q pid, folded assms(2), OF assms(1)]
    have n: "n = getNextMutationVersion q pid dv" using least [OF e] assms(3,6) by simp
    have "n \<in> fst ` set vs" "dv < n" using least [OF e] n by simp_all
    moreover have "\<forall>e \<in> set vs. dv < fst e \<longrightarrow> n \<le> fst e" using least n by blast
    ultimately show ?thesis using assms(5) by (auto simp: order_le_less)
  next
    case False
    then have "n = INT64_MAX" using next_version_none [of q pid dv] assms(1,2,6) by simp
    then show ?thesis using False assms(4) by auto
  qed
  then show "v \<le> n \<longleftrightarrow> (\<forall>e \<in> set vs. dv < fst e \<longrightarrow> v < fst e)" "v \<noteq> n" by simp_all
qed

text \<open>
  C11: a merge of neighbours that the predicate accepts applies exactly the patches of the partition that are
  newer than some of its parts and older than every mutation that is still to be applied to some of them,
  so that patches and mutations take effect in the order of their versions.
\<close>

theorem merge_applies_patches_in_order:
  assumes "\<forall>k < length parts - 1. canMergeParts pred q (parts ! k) (parts ! Suc k) = Inr None" "parts \<noteq> []" "index_ok q"
    "\<forall>x \<in> set parts. 0 \<le> getDataVersion (info x) \<and> \<not> isPatch (info x)" "pid = partition_id (info (hd parts))"
    "\<forall>p \<in> set (patches pid). getDataVersion p < INT64_MAX \<and> getDataVersion p \<notin> fst ` set (versions_of q pid)"
  shows "set (getPatchesToApplyOnMerge io patches (getNextMutationVersion q) parts)
    = (\<lambda>p. (getPartNameV1 io p, p)) ` {p \<in> set (patches pid).
        (\<exists>x \<in> set parts. getDataVersion (info x) < getDataVersion p)
        \<and> (\<forall>e \<in> set (versions_of q pid). (\<exists>x \<in> set parts. getDataVersion (info x) < fst e) \<longrightarrow> getDataVersion p < fst e)}"
proof -
  let ?first = "info (hd parts)" and ?vs = "versions_of q pid"
  let ?min = "foldl min INT64_MAX (map getDataVersion (map info parts))"
  define n where "n = (if getNextMutationVersion q pid (getDataVersion ?first) = 0 then INT64_MAX
                       else getNextMutationVersion q pid (getDataVersion ?first))"
  have hd: "hd parts = parts ! 0" "hd parts \<in> set parts" using assms(2) by (simp_all add: hd_conv_nth)
  have side: "getDataVersion (info x) < fst e \<longleftrightarrow> getDataVersion ?first < fst e" if "x \<in> set parts" "e \<in> set ?vs" for x e
    using neighbours_same_side [OF assms(1,3,4)] that hd(1) assms(5) by (metis in_set_conv_nth)
  have below: "?min < getDataVersion p \<longleftrightarrow> (\<exists>x \<in> set parts. getDataVersion (info x) < getDataVersion p)"
    if "p \<in> set (patches pid)" for p
    unfolding foldl_min_less using assms(6) that by auto
  have bound: "getDataVersion p \<le> n \<longleftrightarrow> (\<forall>e \<in> set ?vs. getDataVersion ?first < fst e \<longrightarrow> getDataVersion p < fst e)"
      "getDataVersion p \<noteq> n" if "p \<in> set (patches pid)" for p
    using next_bound [OF index_ok_versions [OF assms(3)] refl _ _ _ n_def] assms(4,6) that hd(2) by blast+
  have above: "getDataVersion p \<le> n
      \<longleftrightarrow> (\<forall>e \<in> set ?vs. (\<exists>x \<in> set parts. getDataVersion (info x) < fst e) \<longrightarrow> getDataVersion p < fst e)"
    if "p \<in> set (patches pid)" for p
    unfolding bound(1) [OF that] using side hd(2) by blast
  have chosen: "patch_to_apply n ?min p \<longleftrightarrow> ?min < getDataVersion p \<and> getDataVersion p \<le> n" for p
    by (auto simp: patch_to_apply_def)
  have room: "?min + 1 \<noteq> n" if "p \<in> set (patches pid)" "patch_to_apply n ?min p" for p
    using bound(2) [OF that(1)] that(2) unfolding chosen by linarith
  have whole: "set (getPatchesToApplyOnMerge io patches (getNextMutationVersion q) parts)
      = (\<lambda>p. (getPartNameV1 io p, p)) ` {p \<in> set (patches pid). patch_to_apply n ?min p}"
  proof -
    obtain x xs where parts: "parts = x # xs" using assms(2) by (cases parts) simp_all
    have "\<not> isPatch (info x)" using assms(4) parts by simp
    then have "getPatchesToApplyOnMerge io patches (getNextMutationVersion q) parts
        = (if patches pid = [] then [] else
           getPatchesToApply io (patches pid) (map info parts) (getNextMutationVersion q pid (getDataVersion ?first)))"
      using assms(5) by (simp add: getPatchesToApplyOnMerge_def parts Let_def)
    also have "\<dots> = (if patches pid = [] \<or> ?min + 1 = n then []
        else map (\<lambda>i. (getPartNameV1 io i, i)) (filter (patch_to_apply n ?min) (patches pid)))"
      using assms(2) by (simp only: getPatchesToApply_def Let_def n_def [symmetric] list.map_disc_iff if_False) simp
    finally show ?thesis using room by (cases "?min + 1 = n") auto
  qed
  show ?thesis unfolding whole using chosen below above by (intro arg_cong [where f = "image _"]) blast
qed

section \<open>Two parts with a gap\<close>

definition part_at :: "int \<Rightarrow> part_info" where
  "part_at b = PartInfo ''all'' b b 0 0"

definition properties_at :: "int \<Rightarrow> part_properties" where
  "properties_at b = \<lparr>part_name = getPartNameV1 dec_io (part_at b), info = part_at b, projection_names = [],
     all_ttl_calculated_if_any = True, is_in_volume_where_merges_avoid = False, part_size = 0, age = 0, rows = 0,
     general_ttl_info = None, recompression_ttl_info = None\<rparr>"

definition gap_queue :: "nat queue_state" where
  "gap_queue = two_mutations\<lparr>virtual_parts := \<lparr>set_format = 1,
     part_info_to_name = [(part_at 1, getPartNameV1 dec_io (part_at 1)), (part_at 3, getPartNameV1 dec_io (part_at 3))]\<rparr>\<rparr>"

definition gap_snapshot :: predicate_snapshot where
  "gap_snapshot = \<lparr>partition_ids_hint = None, prev_virtual_parts = None, committing = Some [''all'' \<mapsto> [(4, NewPartOp)]]\<rparr>"

lemma part_at_printable: "0 \<le> b \<Longrightarrow> b < 100 \<Longrightarrow> printable (part_at b)"
  by (simp add: part_at_def printable_def PartInfo_def wf_info_def LEGACY_MAX_LEVEL_def)

lemma part_at_facts [simp]:
  "partition_id (part_at b) = ''all''" "min_block (part_at b) = b" "max_block (part_at b) = b" "level (part_at b) = 0"
  "mutation (part_at b) = 0" "getDataVersion (part_at b) = b" "wf_info (part_at b)" "\<not> isPatch (part_at b)"
  by (simp_all add: part_at_def PartInfo_def getDataVersion_def wf_info_def isPatch_def getKind_def PATCH_PART_PREFIX_def
      starts_with_def)

lemma part_at_relations [simp]:
  "contains (part_at a) (part_at b) \<longleftrightarrow> a = b" "isDisjoint (part_at a) (part_at b) \<longleftrightarrow> a \<noteq> b"
  "info_less (part_at a) (part_at b) \<longleftrightarrow> a < b"
  by (auto simp: contains_def isDisjoint_def Let_def info_less_def toTuple_def) (auto simp: part_at_def PartInfo_def)

lemma part_at_name: "getPartNameV1 dec_io (part_at b) \<noteq> []"
  by (simp add: getPartNameV1_def)

lemma gap_set_ok: "set_ok dec_io 1 (virtual_parts gap_queue)"
proof -
  have "fromPartName dec_io (getPartNameV1 dec_io (part_at b)) 1 = Inr (part_at b)" if "b = 1 \<or> b = 3" for b
    using fromPartName_dec [OF part_at_printable] that by auto
  then show ?thesis
    by (auto simp: set_ok_def gap_queue_def aps_inv_def named_by_infos_def info_eq_def)
qed

lemma gap_facts:
  "canMergeParts gap_snapshot gap_queue (properties_at 1) (properties_at 3) = Inr None"
  "b = 1 \<or> b = 3 \<Longrightarrow> canUsePartInMerges gap_snapshot gap_queue (getPartNameV1 dec_io (part_at b)) (part_at b) = Inr None"
proof -
  have "check_gap (virtual_parts gap_queue) (part_at 1) (part_at 3) = None"
    by (simp add: check_gap_def gap_part_info_def Let_def getPartsCoveredBy_def getPartsCoveredByImpl_def split_at_def
        gap_queue_def info_less_def toTuple_def PartInfo_def contains_def)
  moreover have "check_committing gap_snapshot (part_at 1) (part_at 3) = None"
    by (simp add: check_committing_def gap_snapshot_def map_upper_bound_def)
  moreover have "check_versions gap_queue (part_at 1) (part_at 3) = Inr None"
    by (simp add: check_versions_def getOriginalPartitionId_def getCurrentMutationVersion_def gap_queue_def two_mutations_def Let_def)
  ultimately show "canMergeParts gap_snapshot gap_queue (properties_at 1) (properties_at 3) = Inr None"
    by (simp add: canMergeParts_def properties_at_def)
  show "b = 1 \<or> b = 3 \<Longrightarrow> canUsePartInMerges gap_snapshot gap_queue (getPartNameV1 dec_io (part_at b)) (part_at b) = Inr None"
    by (auto simp: canUsePartInMerges_def checkCanMergePartsPreconditions_def gap_snapshot_def getContainingPart_def
        getContainingPartImpl_def split_at_def gap_queue_def Let_def)
qed

lemma gap_index: "index_ok gap_queue"
  using two_mutations_index by (simp add: index_ok_def gap_queue_def)

theorem merge_leaves_nothing_between_witness:
  "canMergeParts gap_snapshot gap_queue (properties_at 1) (properties_at 3) = Inr None
   \<and> list_all (\<lambda>e. max_block (fst e) \<le> 1 \<or> 3 \<le> min_block (fst e)) (part_info_to_name (virtual_parts gap_queue))"
proof -
  have p: "info (properties_at b) = part_at b" "part_name (properties_at b) = getPartNameV1 dec_io (part_at b)" for b
    by (simp_all add: properties_at_def)
  have n: "fromPartName dec_io (getPartNameV1 dec_io (part_at b)) 1 = Inr (part_at b)" if "b = 1 \<or> b = 3" for b
    using fromPartName_dec [OF part_at_printable] that by auto
  have small: "\<forall>e \<in> set (part_info_to_name (virtual_parts gap_queue)).
      level (fst e) \<le> MAX_LEVEL \<and> mutation (fst e) \<le> MAX_BLOCK_NUMBER"
    by (auto simp: gap_queue_def MAX_BLOCK_NUMBER_def)
  have all: "partition_id (fst e) = ''all''" if "e \<in> set (part_info_to_name (virtual_parts gap_queue))" for e
    using that by (auto simp: gap_queue_def)
  show ?thesis
    using merge_leaves_nothing_between [OF gap_facts(1), unfolded p, OF gap_facts(2) gap_facts(2) n n gap_set_ok gap_index
        _ _ _ part_at_name part_at_name small] gap_facts(1) all
    by (simp add: list_all_iff)
qed

lemma gap_versions: "set (versions_of gap_queue ''all'') = {(5, ''m1''), (8, ''m2'')}"
  by (simp add: versions_of_def gap_queue_def two_mutations_def)

theorem merge_applies_patches_in_order_witness:
  "set (getPatchesToApplyOnMerge dec_io (\<lambda>_. [part_at 2, part_at 6]) (getNextMutationVersion gap_queue)
     [properties_at 1, properties_at 3]) = {(getPartNameV1 dec_io (part_at 2), part_at 2)}"
proof -
  let ?parts = "[properties_at 1, properties_at 3]"
  have i: "info (properties_at b) = part_at b" for b by (simp add: properties_at_def)
  have merge: "\<forall>k < length ?parts - 1. canMergeParts gap_snapshot gap_queue (?parts ! k) (?parts ! Suc k) = Inr None"
    using gap_facts(1) by simp
  have plain: "\<forall>x \<in> set ?parts. 0 \<le> getDataVersion (info x) \<and> \<not> isPatch (info x)" by (simp add: i)
  have fresh: "\<forall>p \<in> set [part_at 2, part_at 6].
      getDataVersion p < INT64_MAX \<and> getDataVersion p \<notin> fst ` set (versions_of gap_queue ''all'')"
    by (simp add: gap_versions INT64_MAX_def)
  have "set (getPatchesToApplyOnMerge dec_io (\<lambda>_. [part_at 2, part_at 6]) (getNextMutationVersion gap_queue) ?parts)
    = (\<lambda>p. (getPartNameV1 dec_io p, p)) ` {p \<in> set [part_at 2, part_at 6].
        (\<exists>x \<in> set ?parts. getDataVersion (info x) < getDataVersion p)
        \<and> (\<forall>e \<in> set (versions_of gap_queue ''all'').
             (\<exists>x \<in> set ?parts. getDataVersion (info x) < fst e) \<longrightarrow> getDataVersion p < fst e)}"
    by (rule merge_applies_patches_in_order [OF merge _ gap_index plain _ fresh]) (simp_all add: i)
  also have "{p \<in> set [part_at 2, part_at 6].
        (\<exists>x \<in> set ?parts. getDataVersion (info x) < getDataVersion p)
        \<and> (\<forall>e \<in> set (versions_of gap_queue ''all'').
             (\<exists>x \<in> set ?parts. getDataVersion (info x) < fst e) \<longrightarrow> getDataVersion p < fst e)} = {part_at 2}"
    by (auto simp: gap_versions i)
  finally show ?thesis by simp
qed

end
