(* ===== verification/Spec2Isabelle.thy ===== *)
theory Spec2Isabelle
  imports Granularity_Results Part_Forms Active_Part_Results Log_Entry_Text Drop_Parts Key_Condition_Reports
    Key_Condition_Analysis_Results Select_Ranges_Cases Alter_Sequence_Steps Dedup_Log_Results
    Merge_Applier Queue_Reachable Queue_Finished Queue_Counters
    Merge_Predicate_Results
begin

text \<open>
  A model of the core of the MergeTree storage engine (\<open>src/raw/MergeTree\<close>), and the theorems that make
  its parts correct. A MergeTree table is a set of immutable parts. A part holds rows sorted by the
  primary key, cut into granules; a mark is the start of a granule. A query reads the marks whose keys
  may satisfy its filter. A background job merges parts. A replicated table does the same on several
  servers, which follow one log of entries in ZooKeeper. The files below are named without the
  prefix \<open>src/raw/MergeTree\<close>.

  \<^bold>\<open>Shared base.\<close> \<open>Prelude\<close>: the exceptions of the code as the datatype \<open>error\<close>, fallible operations as
  sums (\<open>Inl\<close> the exception), \<open>size_t\<close> arithmetic as \<open>nat\<close> with its wrap-around at \<open>2 ^ 64\<close> written out
  (\<open>add64\<close> and its relatives), lemmas on lists. \<open>Ordered_Map\<close>: \<open>std::map\<close> as an association list in the
  order of its keys. \<open>Postfix\<close>: the stack loop over conditions in reverse Polish notation, with the locale
  for the agreement of two such loops.

  \<^bold>\<open>Granules.\<close> \<open>Mark_Range\<close> (\<open>MarkRange.h\<close>, \<open>MarkRange.cpp\<close>): ranges of marks, their counts, texts and
  binary form. \<open>Index_Granularity\<close> (\<open>MergeTreeIndexGranularity.cpp\<close>): what the base class computes from
  its virtual methods, as a locale over those methods; \<open>Granularity_Adaptive\<close> and \<open>Granularity_Constant\<close>
  (\<open>MergeTreeIndexGranularityAdaptive.cpp\<close>, \<open>MergeTreeIndexGranularityConstant.cpp\<close>) are its two instances,
  a list of partial sums of rows and a constant with an exceptional last granule. \<open>Granularity_Results\<close>:
  the mark of a row, the sums of adjacent ranges, the two flaws of row counts.

  \<^bold>\<open>Parts.\<close> \<open>Part_Info\<close> and \<open>Part_Name\<close> (\<open>MergeTreePartInfo.h\<close>, \<open>MergeTreePartInfo.cpp\<close>): the identity of
  a part, the order by containment, and the names that encode it; \<open>Part_Forms\<close>: detached names, the
  binary form and the cover of a block range. \<open>Active_Part_Set\<close> (\<open>ActiveDataPartSet.cpp\<close>): the sorted map
  of disjoint parts, its invariant \<open>aps_inv\<close>, and the refinement of its insertion by a set operation;
  \<open>Active_Part_Results\<close>: what a set built from names holds, and what errors leave behind.

  \<^bold>\<open>Conditions on the key.\<close> \<open>Key_Ranges\<close> (\<open>BoolMask.h\<close> and \<open>forAnyHyperrectangle\<close> of \<open>KeyCondition.cpp\<close>): an
  interval of key tuples as a union of hyperrectangles. \<open>Key_Condition\<close> (\<open>KeyCondition.h\<close>, evaluation):
  the elements of a condition and their masks on a hyperrectangle; \<open>Key_Condition_Sound\<close> and
  \<open>Key_Condition_Results\<close>: a mask that says a condition cannot be true is right for every row;
  \<open>trust_of\<close> and \<open>trusted\<close> say which claims of a mask can be relied on: an atom about a space-filling curve claims
  too much in one direction, and a negation turns the direction around. Keys with a NaN are excluded by the
  named predicate \<open>no_NaN_keys\<close>. \<open>Key_Condition_Reports\<close>: partial results and Bloom filter data. \<open>Key_Condition_Analysis\<close> and its results:
  constant conditions, the top-level conjunction and its split by columns. \<open>Key_Condition_Plain\<close> and its
  results: exact value ranges of a condition on one column, and continuous ranges.

  \<^bold>\<open>Selection of marks\<close> (\<open>MergeTreeDataSelectExecutor.cpp\<close>). \<open>Select_Ranges\<close>: \<open>markRangesFromPKRange\<close>, which
  reads keys of marks, builds their bounds and asks the conditions, by the exclusion search or the binary
  search. \<open>Select_Ranges_Search\<close>: the searches over any sound check (locale \<open>mark_check\<close>).
  \<open>Select_Ranges_Results\<close>: the check on the model of a part is sound, so no mark with a matching row is
  lost, and the searches return. \<open>Select_Ranges_Cases\<close>: where the promise of exact ranges and the support
  of descending keys fail, and the merge of the partial results of skip indexes.

  \<^bold>\<open>Replication.\<close> \<open>Log_Entry\<close> and \<open>Log_Entry_Text\<close> (\<open>ReplicatedMergeTreeLogEntry.cpp\<close>): entries of the log and
  the round trip of their text. \<open>Drop_Parts\<close> (\<open>DropPartsRanges.cpp\<close>): entries postponed by a pending
  drop, in every state after a run of additions and removals (\<open>drop_run\<close>).
  \<open>Alter_Sequence\<close> and \<open>Alter_Sequence_Steps\<close> (\<open>ReplicatedMergeTreeAltersSequence.cpp\<close>): the two stages of an
  alter, as operations and as a step relation of the queue with its invariant.

  \<^bold>\<open>Replication queue\<close> (\<open>ReplicatedMergeTreeQueue.cpp\<close>). \<open>Queue_State\<close>: the fields of the queue. Entries are
  shared objects of the code, so the queue and its entries refer to them by their address in a store; a
  mutation status, to which the partitions hold pointers, is referred to by its node. \<open>Queue_Updates\<close>:
  insertion and removal of entries and the initialization. \<open>Queue_Todo\<close>, \<open>Queue_Effects\<close>, \<open>Queue_Track\<close>,
  \<open>Queue_Process\<close>, \<open>Queue_Results\<close>: the invariant \<open>tracked\<close>, by which each part a mutation has still to process
  is in its \<open>parts_to_do\<close>, and the case in which it is lost. \<open>Queue_Execution\<close>: \<open>shouldExecuteLogEntry\<close> with its
  checks, the start and the end of an execution, removal by a drop, reordering, counts. \<open>Queue_Mutations\<close> (also
  \<open>ReplicatedMergeTreeMergePredicate.cpp\<close>): loading, removal and the end of mutations, versions and commands.

  \<open>Queue_Steps\<close> puts the operations together. \<open>queue_step\<close> is the work on the entries, \<open>mutation_step\<close> adds the
  mutations that are found in ZooKeeper or killed, and \<open>replica_step\<close> adds \<open>tryFinalizeMutations\<close>, in the middle
  of which other threads take steps of their own, and the restart of the replica by \<open>initialize\<close> and \<open>load\<close>.
  \<open>queue_reachable\<close> holds of the states after any sequence of these steps from the empty queue. \<open>Queue_Running\<close>,
  \<open>Queue_Frame\<close>, \<open>Queue_Safe\<close>, \<open>Queue_Times\<close>, \<open>Queue_Reachable\<close>: what holds in every reachable state: executions
  produce disjoint parts, but for a part that is not the one the entry names, which may overlap that of an
  older entry, for which it waits; a selected entry can start; the least time
  of the inserts is never above those of the queue, and exact once an insert is removed, until a restart. \<open>Queue_Counters\<close>: the counters of unfinished mutations
  are exact in every reachable state. \<open>Queue_Versions\<close> and \<open>Queue_Finished\<close>: which mutations a part gets, and that
  a finished mutation is applied. \<open>Merge_Predicate\<close> and \<open>Merge_Predicate_Results\<close> (\<open>Compaction/MergePredicates\<close>,
  \<open>PatchPartsUtils.cpp\<close>): which neighbours may be merged, with which patches, and that nothing lies between them
  and patches do not overtake mutations. An exception ends a step; the state it leaves behind is not
  followed. The reason of a postponement or a refusal is a constructor in place of its message; the order
  in which a hash table is walked and what ZooKeeper answers are arguments.

  \<^bold>\<open>Deduplication log\<close> (\<open>MergeTreeDeduplicationLog.cpp\<close>). \<open>Limited_Map\<close>: the hash table limited to the last
  inserted keys. \<open>Dedup_Log\<close>: the operations over a disk. \<open>Dedup_Log_Disk\<close>: the invariant between memory and
  files. \<open>Dedup_Log_Replay\<close>: what the records of the files mean. \<open>Dedup_Log_Results\<close>: additions, drops,
  restarts, which succeed on a disk whose files can be opened and removed (\<open>disk_works\<close>), and the cases in
  which a restart forgets. The runs are those of one window size.

  \<^bold>\<open>Selection of merges\<close> (\<open>Compaction/MergeSelectors\<close>, \<open>Compaction/MergeSelectorApplier.cpp\<close>).
  \<open>Disjoint_Ranges\<close> (\<open>DisjointPartsRangesSet.h\<close>): the set of part ranges already chosen. \<open>Merge_Selection\<close>
  (\<open>PartProperties.h\<close>, \<open>IMergeSelector.h\<close>, \<open>AllMergeSelector.cpp\<close>): parts, constraints, and the heap as a parameter
  whose law is to give a greatest element. \<open>Merge_Trivial\<close>, \<open>Merge_TTL\<close> and \<open>Merge_Simple\<close> with their
  results (\<open>TrivialMergeSelector.cpp\<close>, \<open>TTLMergeSelector.cpp\<close>, \<open>SimpleMergeSelector.cpp\<close>): what each
  strategy chooses; floating point numbers and random draws are parameters. \<open>Merge_Applier\<close>: the order in
  which the strategies are tried, and the contract of what they choose together; \<open>draws_ok\<close> and \<open>stats_ok\<close>
  are the conditions under which the random start and the statistics of the partitions raise nothing.

  \<^bold>\<open>Conventions.\<close> A class is a record with its fields, an operation a function that returns the new state.
  What the code takes from outside the repository (fields and their order, functions, sets, formats of
  numbers, the disk) is an argument of the definitions; what the code relies on there is a named
  predicate such as \<open>env_ok\<close>, \<open>text_io_ok\<close> or \<open>disk_ok\<close>, and the witness of a property gives concrete
  functions that satisfy it. Loops that need not end on all inputs (\<open>exclusion_loop\<close>, the binary searches, \<open>trivial_loop\<close>)
  are \<open>partial_function (option)\<close>, with a theorem that they return; a loop bounded by its list is a
  structural recursion. There is no fuel. Assertions that a release build drops are not modelled, except
  where an argument chooses the build.

  \<^bold>\<open>Not modelled.\<close> Readers and writers of parts, skip indexes, merges and mutations as tasks, background
  executors, settings: they are code over columns, blocks, disks, pipelines and thread pools that are
  not in the repository. The construction of conditions from queries works on the classes of the query
  analyser. The protocols over ZooKeeper, among them pulling the log and the snapshot of committing
  blocks, are requests to a service whose client is outside the repository, as are the waiting, the
  subscribers and the status tables of the queue. The manifest lists every file with the reason.
\<close>

end
